(* ===== verification/Prelude.thy ===== *)
theory Prelude
  imports Main "HOL-Library.Word" "HOL-Library.Multiset" "HOL-Library.Monad_Syntax"
begin

unbundle bit_operations_syntax

text \<open>
  What every component shares: the machine types, memory accesses that can
  fault, and the generic facts on lists and words.

  An access of the C code that is undefined behaviour (an index outside an
  array, a dereference of NULL) is the value None of the option type; a loop
  that never ends is None as well (the loops are partial functions in the
  option monad).  So a lemma that an operation returns Some is the absence of
  both.
\<close>

section \<open>Machine types\<close>

type_synonym u8 = "8 word"
type_synonym u16 = "16 word"
type_synonym u32 = "32 word"
type_synonym time_ns = int

named_theorems fault_simps "memory accesses that succeed"

section \<open>Memory accesses\<close>

definition rd :: "'a list \<Rightarrow> nat \<Rightarrow> 'a option" where
  "rd xs i = (if i < length xs then Some (xs ! i) else None)"

definition wr :: "'a list \<Rightarrow> nat \<Rightarrow> 'a \<Rightarrow> 'a list option" where
  "wr xs i v = (if i < length xs then Some (xs[i := v]) else None)"

definition deref :: "'p option \<Rightarrow> 'p option" where
  "deref p = p"

definition guard_c :: "bool \<Rightarrow> unit option" where
  "guard_c b = (if b then Some () else None)"

text \<open>A result that fits a signed 32-bit int or long (the overflow is undefined behaviour).\<close>

definition long_ok :: "nat \<Rightarrow> bool" where
  "long_ok n \<longleftrightarrow> n < 2 ^ 31"

lemma rd_Some [fault_simps, simp]: "i < length xs \<Longrightarrow> rd xs i = Some (xs ! i)"
  by (simp add: rd_def)

lemma rd_None [simp]: "\<not> i < length xs \<Longrightarrow> rd xs i = None"
  by (simp add: rd_def)

lemma rd_eq_Some_iff: "rd xs i = Some v \<longleftrightarrow> i < length xs \<and> xs ! i = v"
  by (simp add: rd_def)

lemma wr_Some [fault_simps, simp]: "i < length xs \<Longrightarrow> wr xs i v = Some (xs[i := v])"
  by (simp add: wr_def)

lemma wr_None [simp]: "\<not> i < length xs \<Longrightarrow> wr xs i v = None"
  by (simp add: wr_def)

lemma wr_eq_Some_iff: "wr xs i v = Some ys \<longleftrightarrow> i < length xs \<and> ys = xs[i := v]"
  by (auto simp: wr_def)

lemma deref_Some [fault_simps, simp]: "deref (Some p) = Some p"
  by (simp add: deref_def)

lemma deref_None [simp]: "deref None = None"
  by (simp add: deref_def)

lemma guard_c_simps [fault_simps, simp]: "guard_c True = Some ()" "guard_c False = None"
  by (simp_all add: guard_c_def)

lemma guard_c_eq_Some_iff [simp]: "guard_c b = Some u \<longleftrightarrow> b"
  by (simp add: guard_c_def)

text \<open>memcpy (dst + d, src + s, n): it faults when it leaves either buffer.\<close>

definition memcpy :: "'a list \<Rightarrow> nat \<Rightarrow> 'a list \<Rightarrow> nat \<Rightarrow> nat \<Rightarrow> 'a list option" where
  "memcpy dst d src s n =
    (if d + n \<le> length dst \<and> s + n \<le> length src
     then Some (take d dst @ take n (drop s src) @ drop (d + n) dst) else None)"

lemma memcpy_Some [fault_simps]:
  "d + n \<le> length dst \<Longrightarrow> s + n \<le> length src \<Longrightarrow>
   memcpy dst d src s n = Some (take d dst @ take n (drop s src) @ drop (d + n) dst)"
  by (simp add: memcpy_def)

lemma memcpy_length: "memcpy dst d src s n = Some r \<Longrightarrow> length r = length dst"
  by (auto simp: memcpy_def split: if_splits)

lemma memcpy_nth:
  "memcpy dst d src s n = Some r \<Longrightarrow> i < length dst \<Longrightarrow>
   r ! i = (if d \<le> i \<and> i < d + n then src ! (s + (i - d)) else dst ! i)"
  by (auto simp: memcpy_def nth_append split: if_splits)

section \<open>Error numbers\<close>

definition EPERM :: int where "EPERM = 1"
definition ENOENT :: int where "ENOENT = 2"
definition EINTR :: int where "EINTR = 4"
definition EBADF :: int where "EBADF = 9"
definition EAGAIN :: int where "EAGAIN = 11"
definition ENOMEM :: int where "ENOMEM = 12"
definition EFAULT :: int where "EFAULT = 14"
definition EBUSY :: int where "EBUSY = 16"
definition ENODEV :: int where "ENODEV = 19"
definition ESRCH :: int where "ESRCH = 3"
definition EINVAL :: int where "EINVAL = 22"
definition ENOTTY :: int where "ENOTTY = 25"
definition EDEADLK :: int where "EDEADLK = 35"

lemmas errno_defs = ESRCH_def EPERM_def ENOENT_def EINTR_def EBADF_def EAGAIN_def ENOMEM_def EFAULT_def
  EBUSY_def ENODEV_def EINVAL_def ENOTTY_def EDEADLK_def

section \<open>Conversions of integers\<close>

text \<open>What the conversion to a signed or an unsigned type of a given width yields.\<close>

definition to_s32 :: "int \<Rightarrow> int" where "to_s32 x = (x + 2 ^ 31) mod 2 ^ 32 - 2 ^ 31"
definition to_u32 :: "int \<Rightarrow> int" where "to_u32 x = x mod 2 ^ 32"
definition to_s64 :: "int \<Rightarrow> int" where "to_s64 x = (x + 2 ^ 63) mod 2 ^ 64 - 2 ^ 63"
definition to_u64 :: "int \<Rightarrow> int" where "to_u64 x = x mod 2 ^ 64"

lemma to_s32_id: "- (2 ^ 31) \<le> x \<Longrightarrow> x < 2 ^ 31 \<Longrightarrow> to_s32 x = x"
  by (simp add: to_s32_def)

lemma to_s64_id: "- (2 ^ 63) \<le> x \<Longrightarrow> x < 2 ^ 63 \<Longrightarrow> to_s64 x = x"
  by (simp add: to_s64_def)

lemma to_u32_id: "0 \<le> x \<Longrightarrow> x < 2 ^ 32 \<Longrightarrow> to_u32 x = x"
  by (simp add: to_u32_def)

lemma to_u64_id: "0 \<le> x \<Longrightarrow> x < 2 ^ 64 \<Longrightarrow> to_u64 x = x"
  by (simp add: to_u64_def)

section \<open>Lists\<close>

lemma mset_update_swap:
  assumes "i < length xs" "j < length xs"
  shows "mset (xs[i := xs ! j, j := xs ! i]) = mset xs"
  using assms by (simp add: mset_swap)

lemma take_update_in [simp]: "i < n \<Longrightarrow> take n (xs[i := v]) = (take n xs)[i := v]"
  by (rule take_update_swap)

lemma nth_update_if: "i < length xs \<Longrightarrow> xs[i := v] ! j = (if i = j then v else xs ! j)"
  by (simp add: nth_list_update)

lemma find_upt_Some_iff:
  "List.find P [0..<n] = Some i \<longleftrightarrow> i < n \<and> P i \<and> (\<forall>j<i. \<not> P j)"
proof -
  have "List.find P [0..<n] = Some i \<longleftrightarrow>
        (\<exists>k<n. P k \<and> i = k \<and> (\<forall>j<k. \<not> P j))"
    by (auto simp: find_Some_iff)
  then show ?thesis by blast
qed

lemma find_upt_None_iff: "List.find P [0..<n] = None \<longleftrightarrow> (\<forall>i<n. \<not> P i)"
  by (auto simp: find_None_iff)

section \<open>Words\<close>

lemma word32_bit_cases: "bit (w :: u32) n \<Longrightarrow> n < 32"
  using bit_imp_le_length [of w n] by simp

lemma word_bit_nonzero: "bit (w :: 'a::len word) n \<Longrightarrow> w \<noteq> 0"
  by auto

lemma word_nonzero_bit: "(w :: 'a::len word) \<noteq> 0 \<Longrightarrow> \<exists>n. bit w n"
  using bit_eq_iff [of w 0] by auto

lemma take_bit_zero_iff_bits: "take_bit k (w :: 'a::len word) = 0 \<longleftrightarrow> (\<forall>n<k. \<not> bit w n)"
proof
  assume "take_bit k w = 0"
  then have "\<not> bit (take_bit k w) n" for n by simp
  then show "\<forall>n<k. \<not> bit w n" by (simp add: bit_take_bit_iff)
qed (auto simp: bit_eq_iff bit_take_bit_iff)

lemma bit_one_shift_iff:
  "bit (push_bit k (1 :: u32)) n \<longleftrightarrow> n = k \<and> k < 32"
  using bit_imp_le_length [of "push_bit k (1 :: u32)" n]
  by (auto simp: bit_simps simp del: push_bit_of_1)

end
