(* ===== verification/Links.thy ===== *)
theory Links
  imports Prelude
begin

text \<open>
  Doubly linked lists of structures with prev and next pointers, as both
  kernels keep them (domains, threads, page lists): the segments they form,
  and what the pointer assignments of an insertion and of a removal do.
  nx and pr are the two pointer fields, as functions of the address.
\<close>

section \<open>Segments\<close>

primrec lseg :: "(nat \<Rightarrow> nat option) \<Rightarrow> (nat \<Rightarrow> nat option) \<Rightarrow> nat option \<Rightarrow> nat option \<Rightarrow>
    nat list \<Rightarrow> nat option \<Rightarrow> nat option \<Rightarrow> bool" where
  "lseg nx pr pv p [] l q \<longleftrightarrow> p = q \<and> l = pv"
| "lseg nx pr pv p (x # xs) l q \<longleftrightarrow> p = Some x \<and> pr x = pv \<and> lseg nx pr (Some x) (nx x) xs l q"

definition dlist :: "(nat \<Rightarrow> nat option) \<Rightarrow> (nat \<Rightarrow> nat option) \<Rightarrow> nat option \<Rightarrow> nat list \<Rightarrow> bool" where
  "dlist nx pr p xs \<longleftrightarrow> distinct xs \<and> (\<exists>l. lseg nx pr None p xs l None)"

lemma lseg_append:
  "lseg nx pr pv p (xs @ ys) l q \<longleftrightarrow> (\<exists>m r. lseg nx pr pv p xs m r \<and> lseg nx pr m r ys l q)"
  by (induction xs arbitrary: pv p) auto

lemma lseg_frame:
  "\<forall>x\<in>set xs. nx' x = nx x \<and> pr' x = pr x \<Longrightarrow>
   lseg nx' pr' pv p xs l q = lseg nx pr pv p xs l q"
  by (induction xs arbitrary: pv p) auto

lemma lseg_last: "lseg nx pr pv p xs l q \<Longrightarrow> l = (if xs = [] then pv else Some (last xs))"
  by (induction xs arbitrary: pv p) auto

lemma lseg_head: "lseg nx pr pv p xs l q \<Longrightarrow> p = (if xs = [] then q else Some (hd xs))"
  by (cases xs) auto

lemma lseg_end: "lseg nx pr pv p xs l q \<Longrightarrow> xs \<noteq> [] \<Longrightarrow> nx (last xs) = q"
  by (induction xs arbitrary: pv p) auto

text \<open>Redirecting the pointer that leaves a segment, and the one that comes back to it.\<close>

lemma lseg_snoc_next:
  "lseg nx pr pv p (xs @ [x]) l q \<Longrightarrow> distinct (xs @ [x]) \<Longrightarrow>
   lseg (nx(x := q')) pr pv p (xs @ [x]) l q'"
  by (induction xs arbitrary: pv p) auto

lemma lseg_cons_prev:
  "lseg nx pr pv p (x # xs) l q \<Longrightarrow> distinct (x # xs) \<Longrightarrow>
   lseg nx (pr(x := pv')) pv' p (x # xs) l q"
  using lseg_frame [of xs nx nx "pr(x := pv')" pr] by simp

lemma lseg_upd_next: "x \<notin> set xs \<Longrightarrow> lseg (nx(x := v)) pr pv p xs l q = lseg nx pr pv p xs l q"
  by (rule lseg_frame) auto

lemma lseg_upd_prev: "x \<notin> set xs \<Longrightarrow> lseg nx (pr(x := v)) pv p xs l q = lseg nx pr pv p xs l q"
  by (rule lseg_frame) auto

definition set_next :: "nat option \<Rightarrow> nat option \<Rightarrow> (nat \<Rightarrow> nat option) \<Rightarrow> nat \<Rightarrow> nat option" where
  "set_next a v f = (case a of None \<Rightarrow> f | Some x \<Rightarrow> f(x := v))"

lemma lseg_redirect:
  assumes "lseg nx pr pv p xs l q" "distinct xs"
  shows "lseg (set_next (if xs = [] then None else l) q' nx) pr pv (if xs = [] then q' else p) xs l q'"
proof (cases xs rule: rev_cases)
  case Nil
  then show ?thesis using assms by (simp add: set_next_def)
next
  case (snoc ys y)
  then have "l = Some y" using lseg_last [OF assms(1)] by simp
  then show ?thesis using lseg_snoc_next assms snoc by (simp add: set_next_def)
qed

section \<open>Insertion and removal\<close>

lemma dlist_empty [simp]: "dlist nx pr None xs \<longleftrightarrow> xs = []"
  by (cases xs) (auto simp: dlist_def)

lemma dlist_head: "dlist nx pr p xs \<Longrightarrow> p = (if xs = [] then None else Some (hd xs))"
  by (metis dlist_def lseg_head)

lemma dlist_single: "nx x = None \<Longrightarrow> pr x = None \<Longrightarrow> dlist nx pr (Some x) [x]"
  by (simp add: dlist_def)

lemma dlist_frame:
  "dlist nx pr p xs \<Longrightarrow> \<forall>x\<in>set xs. nx' x = nx x \<and> pr' x = pr x \<Longrightarrow> dlist nx' pr' p xs"
  using lseg_frame [of xs nx' nx pr' pr] by (auto simp: dlist_def)

lemma dlist_split:
  "dlist nx pr p (us @ y # vs) \<Longrightarrow>
   pr y = (if us = [] then None else Some (last us)) \<and>
   nx y = (if vs = [] then None else Some (hd vs)) \<and> distinct (us @ y # vs)"
  using lseg_last lseg_head by (auto simp: dlist_def lseg_append) fastforce+

text \<open>n placed before y.\<close>

lemma dlist_insert_before:
  assumes d: "dlist nx pr p (us @ y # vs)" and n: "n \<notin> set (us @ y # vs)"
    and nx': "nx' = set_next (pr y) (Some n) (nx(n := Some y))"
    and pr': "pr' = pr(n := pr y, y := Some n)"
  shows "dlist nx' pr' (if us = [] then Some n else p) (us @ n # y # vs)"
proof -
  have dis: "distinct (us @ y # vs)" using d by (simp add: dlist_def)
  obtain l m where u: "lseg nx pr None p us m (Some y)" and v: "lseg nx pr m (Some y) (y # vs) l None"
    using d by (auto simp: dlist_def lseg_append)
  have py: "pr y = m" using v by simp
  have m: "m = (if us = [] then None else Some (last us))" using lseg_last [OF u] .
  have "set_next (if us = [] then None else m) (Some n) (nx(n := Some y)) = nx'"
    using m py nx' by (auto simp: set_next_def)
  moreover have "lseg (nx(n := Some y)) pr' None p us m (Some y)"
  proof -
    have "\<forall>x\<in>set us. (nx(n := Some y)) x = nx x \<and> pr' x = pr x" using n dis by (auto simp: pr')
    then show ?thesis using u lseg_frame by blast
  qed
  ultimately have u': "lseg nx' pr' None (if us = [] then Some n else p) us m (Some n)"
    using lseg_redirect [of "nx(n := Some y)" pr' None p us m "Some y" "Some n"] dis by auto
  have "us \<noteq> [] \<Longrightarrow> last us \<notin> set vs"
    using dis last_in_set [of us] by (auto dest: disjoint_iff [THEN iffD1])
  then have fr: "\<forall>x\<in>set vs. nx' x = nx x \<and> pr' x = pr x" "nx' y = nx y" "nx' n = Some y"
    using n dis m py by (auto simp: nx' pr' set_next_def)
  have "lseg nx' pr' (Some n) (Some y) (y # vs) l None"
  proof -
    have "lseg nx' pr' (Some y) (nx y) vs l None" using v lseg_frame [OF fr(1)] by simp
    moreover have "pr' y = Some n" by (simp add: pr')
    ultimately show ?thesis using fr(2) by simp
  qed
  then have "lseg nx' pr' m (Some n) (n # y # vs) l None"
    using fr(3) py n by (auto simp: pr')
  then show ?thesis using u' n dis by (auto simp: dlist_def lseg_append)
qed

text \<open>n placed after y.\<close>

lemma dlist_insert_after:
  assumes d: "dlist nx pr p (us @ y # vs)" and n: "n \<notin> set (us @ y # vs)"
    and nx': "nx' = nx(n := nx y, y := Some n)"
    and pr': "pr' = set_next (nx y) (Some n) (pr(n := Some y))"
  shows "dlist nx' pr' p (us @ y # n # vs)"
proof -
  have dis: "distinct (us @ y # vs)" using d by (simp add: dlist_def)
  obtain l m where u: "lseg nx pr None p us m (Some y)" and v: "lseg nx pr m (Some y) (y # vs) l None"
    using d by (auto simp: dlist_def lseg_append)
  have vv: "lseg nx pr (Some y) (nx y) vs l None" and py: "pr y = m" using v by simp_all
  have ny: "nx y = (if vs = [] then None else Some (hd vs))" using lseg_head [OF vv] .
  have fr: "\<forall>x\<in>set us. nx' x = nx x \<and> pr' x = pr x" "pr' y = pr y"
    using n dis ny by (auto simp: nx' pr' set_next_def)
  have u': "lseg nx' pr' None p us m (Some y)" using u lseg_frame [OF fr(1)] by simp
  have "\<exists>l'. lseg nx' pr' (Some n) (nx y) vs l' None"
  proof (cases vs)
    case Nil
    then show ?thesis using ny by simp
  next
    case (Cons z zs)
    have "\<forall>x\<in>set zs. nx' x = nx x \<and> pr' x = pr x" "nx' z = nx z" "pr' z = Some n"
      using n dis ny Cons by (auto simp: nx' pr' set_next_def)
    then show ?thesis using vv Cons lseg_frame [of zs nx' nx pr' pr] by auto
  qed
  then obtain l' where "lseg nx' pr' (Some n) (nx y) vs l' None" by blast
  moreover have "nx' y = Some n" "nx' n = nx y" "pr' n = Some y" "pr' y = m"
    using n ny fr(2) py dis by (auto simp: nx' pr' set_next_def)
  ultimately have "lseg nx' pr' m (Some y) (y # n # vs) l' None" by simp
  then show ?thesis using u' n dis by (auto simp: dlist_def lseg_append)
qed

text \<open>y taken out.\<close>

lemma dlist_remove:
  assumes d: "dlist nx pr p (us @ y # vs)"
    and nx': "nx' = set_next (pr y) (nx y) nx"
    and pr': "pr' = set_next (nx y) (pr y) pr"
  shows "dlist nx' pr' (if us = [] then nx y else p) (us @ vs)"
proof -
  have dis: "distinct (us @ y # vs)" using d by (simp add: dlist_def)
  obtain l m where u: "lseg nx pr None p us m (Some y)" and v: "lseg nx pr m (Some y) (y # vs) l None"
    using d by (auto simp: dlist_def lseg_append)
  have vv: "lseg nx pr (Some y) (nx y) vs l None" and py: "pr y = m" using v by simp_all
  have ny: "nx y = (if vs = [] then None else Some (hd vs))" using lseg_head [OF vv] .
  have m: "m = (if us = [] then None else Some (last us))" using lseg_last [OF u] .
  have fr: "\<forall>x\<in>set us. pr' x = pr x" using dis ny by (auto simp: pr' set_next_def)
  have "lseg nx pr' None p us m (Some y)" using u lseg_frame [of us nx nx pr' pr] fr by simp
  then have "lseg (set_next (if us = [] then None else m) (nx y) nx) pr' None
      (if us = [] then nx y else p) us m (nx y)"
    using lseg_redirect [of nx pr' None p us m "Some y" "nx y"] dis by auto
  moreover have "set_next (if us = [] then None else m) (nx y) nx = nx'"
    using m py nx' by (auto simp: set_next_def)
  ultimately have u': "lseg nx' pr' None (if us = [] then nx y else p) us m (nx y)" by simp
  have "\<exists>l'. lseg nx' pr' m (nx y) vs l' None"
  proof (cases vs)
    case Nil
    then show ?thesis using ny by simp
  next
    case (Cons z zs)
    have "us \<noteq> [] \<Longrightarrow> last us \<notin> set vs" using dis last_in_set [of us] by (auto dest: disjoint_iff [THEN iffD1])
    then have "\<forall>x\<in>set zs. nx' x = nx x \<and> pr' x = pr x" "nx' z = nx z" "pr' z = m"
      using dis ny Cons m py by (auto simp: nx' pr' set_next_def)
    then show ?thesis using vv Cons lseg_frame [of zs nx' nx pr' pr] by auto
  qed
  then show ?thesis using u' dis by (auto simp: dlist_def lseg_append)
qed

end
