(* ===== verification/Heap_Base.thy ===== *)
theory Heap_Base
  imports Prelude
begin

text \<open>
  What the two timer heaps share: the structure heap_t (an array of pointers
  indexed from 1 and a count), the comparison IS_MIN, the heap order, and the
  contract of a timer queue, stated as a locale that both kernels interpret.
  The key of a pointer (its expiration time, read in the structure it points
  to) is a parameter.
\<close>

section \<open>The structure\<close>

record 'p heap_t =
  h_array :: "'p option list"
  h_nelem :: nat

definition father :: "nat \<Rightarrow> nat" where "father i = i div 2"

definition is_min :: "('p \<Rightarrow> time_ns) \<Rightarrow> 'p option \<Rightarrow> 'p option \<Rightarrow> bool option" where
  "is_min key a b = do { p \<leftarrow> deref a; q \<leftarrow> deref b; Some (key p < key q) }"

lemma is_min_Some [simp]: "is_min key (Some p) (Some q) = Some (key p < key q)"
  by (simp add: is_min_def)

section \<open>Contents and order of an array\<close>

definition contents :: "'p option list \<Rightarrow> nat \<Rightarrow> 'p list" where
  "contents a n = map the (take n (tl a))"

definition filled :: "'p option list \<Rightarrow> nat \<Rightarrow> bool" where
  "filled a n \<longleftrightarrow> n < length a \<and> (\<forall>i\<in>{1..n}. a ! i \<noteq> None)"

definition ky :: "('p \<Rightarrow> time_ns) \<Rightarrow> 'p option list \<Rightarrow> nat \<Rightarrow> time_ns" where
  "ky key a i = key (the (a ! i))"

definition heap_order :: "('p \<Rightarrow> time_ns) \<Rightarrow> 'p option list \<Rightarrow> nat \<Rightarrow> bool" where
  "heap_order key a n \<longleftrightarrow> (\<forall>i. 2 \<le> i \<longrightarrow> i \<le> n \<longrightarrow> ky key a (i div 2) \<le> ky key a i)"

definition order_below :: "('p \<Rightarrow> time_ns) \<Rightarrow> 'p option list \<Rightarrow> nat \<Rightarrow> nat \<Rightarrow> bool" where
  "order_below key a n t \<longleftrightarrow>
     (\<forall>i. 2 \<le> i \<longrightarrow> i \<le> n \<longrightarrow> i div 2 \<noteq> t \<longrightarrow> ky key a (i div 2) \<le> ky key a i) \<and>
     (2 \<le> t \<longrightarrow> (\<forall>i. 2 \<le> i \<longrightarrow> i \<le> n \<longrightarrow> i div 2 = t \<longrightarrow> ky key a (t div 2) \<le> ky key a i))"

definition order_above :: "('p \<Rightarrow> time_ns) \<Rightarrow> 'p option list \<Rightarrow> nat \<Rightarrow> nat \<Rightarrow> bool" where
  "order_above key a n t \<longleftrightarrow>
     (\<forall>i. 2 \<le> i \<longrightarrow> i \<le> n \<longrightarrow> i \<noteq> t \<longrightarrow> ky key a (i div 2) \<le> ky key a i) \<and>
     (2 \<le> t \<longrightarrow> (\<forall>i. 2 \<le> i \<longrightarrow> i \<le> n \<longrightarrow> i div 2 = t \<longrightarrow> ky key a (t div 2) \<le> ky key a i))"

lemma length_contents [simp]: "n < length a \<Longrightarrow> length (contents a n) = n"
  by (simp add: contents_def)

lemma contents_nth: "n < length a \<Longrightarrow> 1 \<le> i \<Longrightarrow> i \<le> n \<Longrightarrow> contents a n ! (i - 1) = the (a ! i)"
  by (cases a) (auto simp: contents_def nth_Cons')

lemma contents_update:
  "1 \<le> i \<Longrightarrow> i \<le> n \<Longrightarrow> n < length a \<Longrightarrow>
   contents (a[i := Some v]) n = (contents a n)[i - 1 := v]"
  by (cases a; cases i) (auto simp: contents_def map_update take_update_swap)

lemma contents_update_out: "n < i \<Longrightarrow> contents (a[i := v]) n = contents a n"
  by (cases a; cases i) (auto simp: contents_def)

lemma contents_Suc: "Suc n < length a \<Longrightarrow> contents a (Suc n) = contents a n @ [the (a ! Suc n)]"
  by (cases a) (auto simp: contents_def take_Suc_conv_app_nth)

lemma contents_0 [simp]: "contents a 0 = []"
  by (simp add: contents_def)

lemma set_contents: "n < length a \<Longrightarrow> set (contents a n) = (\<lambda>i. the (a ! i)) ` {1..n}"
proof -
  assume n: "n < length a"
  have "set (contents a n) = (\<lambda>i. contents a n ! i) ` {0..<n}"
    using n by (metis length_contents list.set_map map_nth set_upt)
  also have "{0..<n} = (\<lambda>i. i - 1) ` {1..n}"
    by (auto simp: image_iff intro!: bexI [of _ "Suc _"])
  also have "(\<lambda>i. contents a n ! i) ` (\<lambda>i. i - 1) ` {1..n} = (\<lambda>i. the (a ! i)) ` {1..n}"
    using n contents_nth [OF n] by (auto simp: image_image)
  finally show ?thesis .
qed

lemma filled_Some: "filled a n \<Longrightarrow> 1 \<le> i \<Longrightarrow> i \<le> n \<Longrightarrow> \<exists>p. a ! i = Some p"
  by (simp add: filled_def)

lemma filled_length: "filled a n \<Longrightarrow> n < length a"
  by (simp add: filled_def)

lemma mset_contents_swap:
  assumes "filled a n" "1 \<le> i" "i \<le> n" "1 \<le> j" "j \<le> n"
  shows "mset (contents (a[i := a ! j, j := a ! i]) n) = mset (contents a n)"
proof -
  obtain p q where pq: "a ! i = Some p" "a ! j = Some q"
    using filled_Some [OF assms(1-3)] filled_Some [OF assms(1,4,5)] by blast
  have n: "n < length a" using assms by (simp add: filled_def)
  have "contents (a[i := a ! j, j := a ! i]) n = (contents a n)[i - 1 := q, j - 1 := p]"
    using pq assms n by (simp add: contents_update)
  moreover have "q = contents a n ! (j - 1)" "p = contents a n ! (i - 1)"
    using contents_nth [OF n] assms pq by simp_all
  ultimately show ?thesis using assms n by (simp add: mset_swap)
qed

lemma filled_swap:
  "filled a n \<Longrightarrow> 1 \<le> i \<Longrightarrow> i \<le> n \<Longrightarrow> 1 \<le> j \<Longrightarrow> j \<le> n \<Longrightarrow>
   filled (a[i := a ! j, j := a ! i]) n"
  by (auto simp: filled_def nth_list_update)

lemma ky_update: "i < length a \<Longrightarrow> ky key (a[i := Some v]) j = (if j = i then key v else ky key a j)"
  by (simp add: ky_def)

lemma heap_order_root:
  assumes "heap_order key a n" "1 \<le> i" "i \<le> n"
  shows "ky key a 1 \<le> ky key a i"
  using assms(2,3)
proof (induction i rule: less_induct)
  case (less i)
  show ?case
  proof (cases "i = 1")
    case False
    then have "ky key a (i div 2) \<le> ky key a i" using assms(1) less.prems by (simp add: heap_order_def)
    moreover have "ky key a 1 \<le> ky key a (i div 2)" using less False by auto
    ultimately show ?thesis by simp
  qed simp
qed

lemma heap_min_le:
  assumes "heap_order key a n" "n < length a" "p \<in> set (contents a n)"
  shows "key (the (a ! 1)) \<le> key p"
  using assms heap_order_root [OF assms(1)] by (auto simp: set_contents ky_def)

text \<open>One step down: swapping the top with its smaller child moves the defect to that child.\<close>

lemma order_below_stop:
  assumes "order_below key a n t" "\<And>c. 2 \<le> c \<Longrightarrow> c \<le> n \<Longrightarrow> c div 2 = t \<Longrightarrow> ky key a t \<le> ky key a c"
  shows "heap_order key a n"
  using assms by (auto simp: order_below_def heap_order_def)

lemma order_below_step:
  assumes ob: "order_below key a n t" and f: "filled a n" and t: "1 \<le> t"
    and c: "c div 2 = t" "c \<le> n" "2 \<le> c"
    and small: "\<And>d. 2 \<le> d \<Longrightarrow> d \<le> n \<Longrightarrow> d div 2 = t \<Longrightarrow> ky key a c \<le> ky key a d"
    and le: "ky key a c \<le> ky key a t"
  shows "order_below key (a[t := a ! c, c := a ! t]) n c"
proof -
  let ?b = "a[t := a ! c, c := a ! t]"
  have tc: "t < c" "t \<le> n" using c t by auto
  have l: "t < length a" "c < length a" using f tc c by (auto simp: filled_def)
  have kb: "ky key ?b i = (if i = c then ky key a t else if i = t then ky key a c else ky key a i)" for i
    using l tc by (auto simp: ky_def nth_list_update)
  show ?thesis
    unfolding order_below_def kb
  proof (intro conjI allI impI)
    fix i assume i: "2 \<le> i" "i \<le> n" "i div 2 \<noteq> c"
    show "(if i div 2 = c then ky key a t else if i div 2 = t then ky key a c else ky key a (i div 2))
      \<le> (if i = c then ky key a t else if i = t then ky key a c else ky key a i)"
    proof (cases "i div 2 = t")
      case True
      then show ?thesis using i small le tc by auto
    next
      case False
      then have "ky key a (i div 2) \<le> ky key a i" using ob i by (simp add: order_below_def)
      moreover have "i = t \<Longrightarrow> ky key a (t div 2) \<le> ky key a c"
        using ob c i by (simp add: order_below_def)
      ultimately show ?thesis using False i c by auto
    qed
  next
    fix i assume i: "2 \<le> c" "2 \<le> i" "i \<le> n" "i div 2 = c"
    have "i div 2 \<noteq> t" using i(4) tc by simp
    with ob i(2,3) have "ky key a (i div 2) \<le> ky key a i" unfolding order_below_def by blast
    then show "(if c div 2 = c then ky key a t else if c div 2 = t then ky key a c else ky key a (c div 2))
      \<le> (if i = c then ky key a t else if i = t then ky key a c else ky key a i)"
      using i c tc by auto
  qed
qed

text \<open>One step up: swapping with the father moves the defect to the father.\<close>

lemma order_above_stop:
  assumes "order_above key a n t" "2 \<le> t \<Longrightarrow> ky key a (t div 2) \<le> ky key a t"
  shows "heap_order key a n"
  using assms by (auto simp: order_above_def heap_order_def)

lemma order_above_step:
  assumes oa: "order_above key a n t" and f: "filled a n" and t: "2 \<le> t" "t \<le> n"
    and lt: "ky key a t \<le> ky key a (t div 2)"
  shows "order_above key (a[t := a ! (t div 2), (t div 2) := a ! t]) n (t div 2)"
proof -
  let ?p = "t div 2" and ?b = "a[t := a ! (t div 2), (t div 2) := a ! t]"
  have tp: "?p < t" "1 \<le> ?p" using t by auto
  have l: "t < length a" "?p < length a" using f tp t by (auto simp: filled_def)
  have kb: "ky key ?b i = (if i = ?p then ky key a t else if i = t then ky key a ?p else ky key a i)" for i
    using l tp by (auto simp: ky_def nth_list_update)
  have up: "i \<noteq> t \<Longrightarrow> 2 \<le> i \<Longrightarrow> i \<le> n \<Longrightarrow> ky key a (i div 2) \<le> ky key a i" for i
    using oa by (simp add: order_above_def)
  have ch: "2 \<le> i \<Longrightarrow> i \<le> n \<Longrightarrow> i div 2 = t \<Longrightarrow> ky key a ?p \<le> ky key a i" for i
    using oa t by (simp add: order_above_def)
  show ?thesis
    unfolding order_above_def kb
  proof (intro conjI allI impI)
    fix i assume i: "2 \<le> i" "i \<le> n" "i \<noteq> ?p"
    show "(if i div 2 = ?p then ky key a t else if i div 2 = t then ky key a ?p else ky key a (i div 2))
      \<le> (if i = ?p then ky key a t else if i = t then ky key a ?p else ky key a i)"
      using up [OF _ i(1,2)] ch [OF i(1,2)] i lt tp by (cases "i = t") auto
  next
    fix i assume i: "2 \<le> ?p" "2 \<le> i" "i \<le> n" "i div 2 = ?p"
    have pp: "ky key a (?p div 2) \<le> ky key a ?p" using up [of ?p] i t tp by auto
    have "?p div 2 \<noteq> ?p" "?p div 2 \<noteq> t" "i \<noteq> ?p" using i tp by auto
    moreover have "i \<noteq> t \<Longrightarrow> ky key a ?p \<le> ky key a i" using up [of i] i by auto
    ultimately show "(if ?p div 2 = ?p then ky key a t else if ?p div 2 = t then ky key a ?p else ky key a (?p div 2))
      \<le> (if i = ?p then ky key a t else if i = t then ky key a ?p else ky key a i)"
      using pp by auto
  qed
qed

section \<open>The contract of a timer queue\<close>

text \<open>
  wf is the invariant, bag the multiset of queued pointers.  ins, least and
  rmin may fault (None); the laws say that they do not, and what they return.
\<close>

locale timer_queue =
  fixes wf :: "('p \<Rightarrow> time_ns) \<Rightarrow> 'h \<Rightarrow> bool"
    and bag :: "'h \<Rightarrow> 'p multiset"
    and room :: nat
    and ins :: "('p \<Rightarrow> time_ns) \<Rightarrow> 'h \<Rightarrow> 'p \<Rightarrow> (int \<times> 'h) option"
    and least :: "'h \<Rightarrow> 'p option option"
    and rmin :: "('p \<Rightarrow> time_ns) \<Rightarrow> 'h \<Rightarrow> ('p option \<times> 'h) option"
  assumes ins_law: "wf key h \<Longrightarrow> size (bag h) < room \<Longrightarrow> p \<notin># bag h \<Longrightarrow>
      \<exists>h'. ins key h p = Some (0, h') \<and> wf key h' \<and> bag h' = add_mset p (bag h)"
    and least_empty: "wf key h \<Longrightarrow> bag h = {#} \<Longrightarrow> least h = Some None"
    and least_law: "wf key h \<Longrightarrow> bag h \<noteq> {#} \<Longrightarrow>
      \<exists>p. least h = Some (Some p) \<and> p \<in># bag h \<and> (\<forall>q\<in>#bag h. key p \<le> key q)"
    and rmin_empty: "wf key h \<Longrightarrow> bag h = {#} \<Longrightarrow> rmin key h = Some (None, h)"
    and rmin_law: "wf key h \<Longrightarrow> bag h \<noteq> {#} \<Longrightarrow>
      \<exists>p h'. rmin key h = Some (Some p, h') \<and> wf key h' \<and> bag h = add_mset p (bag h') \<and>
             (\<forall>q\<in>#bag h. key p \<le> key q)"
begin

text \<open>Removing the minimum repeatedly: the order in which the timers expire.\<close>

primrec drain :: "('p \<Rightarrow> time_ns) \<Rightarrow> nat \<Rightarrow> 'h \<Rightarrow> ('p list \<times> 'h) option" where
  "drain key 0 h = Some ([], h)"
| "drain key (Suc n) h = do {
     (p, h1) \<leftarrow> rmin key h;
     (case p of None \<Rightarrow> Some ([], h1)
      | Some q \<Rightarrow> do { (ps, h2) \<leftarrow> drain key n h1; Some (q # ps, h2) }) }"

lemma drain_sorted:
  "wf key h \<Longrightarrow> size (bag h) \<le> n \<Longrightarrow>
   \<exists>ps h'. drain key n h = Some (ps, h') \<and> mset ps = bag h \<and>
           sorted (map key ps) \<and> bag h' = {#} \<and> wf key h'"
proof (induction n arbitrary: h)
  case (Suc n)
  show ?case
  proof (cases "bag h = {#}")
    case True
    then show ?thesis using rmin_empty [OF Suc.prems(1)] Suc.prems(1) by simp
  next
    case False
    then obtain p h1 where r: "rmin key h = Some (Some p, h1)" "wf key h1"
      "bag h = add_mset p (bag h1)" "\<forall>q\<in>#bag h. key p \<le> key q"
      using rmin_law [OF Suc.prems(1)] by blast
    then obtain ps h2 where d: "drain key n h1 = Some (ps, h2)" "mset ps = bag h1"
      "sorted (map key ps)" "bag h2 = {#}" "wf key h2"
      using Suc.IH [OF r(2)] Suc.prems(2) by auto
    have "\<forall>q\<in>set ps. key p \<le> key q" using r(3,4) d(2) by (metis set_mset_mset union_iff add_mset_add_single)
    then show ?thesis using r d by (intro exI [of _ "p # ps"] exI [of _ h2]) simp
  qed
qed simp

end

end
