(* ===== verification/PHeap.thy ===== *)
theory PHeap
  imports Heap_Base
begin

text \<open>
  PaRTiKle's timer heap (core/kernel/port/heap.c): a binary heap of pointers
  to ktimer_t ordered by timer_value.  Interprets the timer queue contract.
\<close>

definition MAX_TIMERS :: nat where "MAX_TIMERS = 32"

definition P_HEAP_MAX_NELEM :: nat where "P_HEAP_MAX_NELEM = MAX_TIMERS + 1"

text \<open>The memset covers one element more than the array has, that is also the count.\<close>

definition p_HEAP_init :: "'p heap_t \<Rightarrow> 'p heap_t" where
  "p_HEAP_init heap = heap\<lparr>h_array := replicate P_HEAP_MAX_NELEM None, h_nelem := 0\<rparr>"

definition p_HEAP_min :: "'p heap_t \<Rightarrow> 'p option option" where
  "p_HEAP_min heap = (if h_nelem heap > 0 then rd (h_array heap) 1 else Some None)"

partial_function (option) p_heapify_loop ::
  "('p \<Rightarrow> time_ns) \<Rightarrow> nat \<Rightarrow> 'p option \<Rightarrow> 'p option list \<Rightarrow> nat \<Rightarrow> nat \<Rightarrow> 'p option list option" where
  "p_heapify_loop key n tempvalue a tp child =
    (if child \<le> n then do {
       right_min \<leftarrow> (if child + 1 \<le> n then do {
           r \<leftarrow> rd a (child + 1); l \<leftarrow> rd a child; is_min key r l }
         else Some False);
       let c = (if right_min then child + 1 else child);
       x \<leftarrow> rd a c;
       stop \<leftarrow> is_min key tempvalue x;
       if stop then Some a
       else do {
         a1 \<leftarrow> wr a tp x;
         a2 \<leftarrow> wr a1 c tempvalue;
         p_heapify_loop key n tempvalue a2 c (2 * c) } }
     else Some a)"

declare p_heapify_loop.simps [code]

definition p_heapify :: "('p \<Rightarrow> time_ns) \<Rightarrow> 'p heap_t \<Rightarrow> nat \<Rightarrow> 'p heap_t option" where
  "p_heapify key heap tp = do {
     tempvalue \<leftarrow> rd (h_array heap) tp;
     a \<leftarrow> p_heapify_loop key (h_nelem heap) tempvalue (h_array heap) tp (2 * tp);
     Some (heap\<lparr>h_array := a\<rparr>) }"

definition p_HEAP_remove_min :: "('p \<Rightarrow> time_ns) \<Rightarrow> 'p heap_t \<Rightarrow> ('p option \<times> 'p heap_t) option" where
  "p_HEAP_remove_min key heap =
    (if h_nelem heap > 0 then do {
       m \<leftarrow> rd (h_array heap) 1;
       l \<leftarrow> rd (h_array heap) (h_nelem heap);
       a \<leftarrow> wr (h_array heap) 1 l;
       h \<leftarrow> p_heapify key (heap\<lparr>h_array := a, h_nelem := h_nelem heap - 1\<rparr>) 1;
       Some (m, h) }
     else Some (None, heap))"

partial_function (option) p_insert_loop ::
  "('p \<Rightarrow> time_ns) \<Rightarrow> 'p \<Rightarrow> 'p option list \<Rightarrow> nat \<Rightarrow> ('p option list \<times> nat) option" where
  "p_insert_loop key k a i =
    (if i > 1 then do {
       f \<leftarrow> rd a (father i);
       lt \<leftarrow> is_min key (Some k) f;
       if lt then do { a1 \<leftarrow> wr a i f; p_insert_loop key k a1 (father i) }
       else Some (a, i) }
     else Some (a, i))"

declare p_insert_loop.simps [code]

definition p_HEAP_insert :: "('p \<Rightarrow> time_ns) \<Rightarrow> 'p heap_t \<Rightarrow> 'p \<Rightarrow> (int \<times> 'p heap_t) option" where
  "p_HEAP_insert key heap k =
    (if h_nelem heap + 1 > P_HEAP_MAX_NELEM then Some (-1, heap)
     else do {
       (a, i) \<leftarrow> p_insert_loop key k (h_array heap) (h_nelem heap + 1);
       a1 \<leftarrow> wr a i (Some k);
       Some (0, heap\<lparr>h_array := a1, h_nelem := h_nelem heap + 1\<rparr>) })"

text \<open>The linear search for a pointer, from index i on.\<close>

function heap_find :: "'p option list \<Rightarrow> nat \<Rightarrow> 'p \<Rightarrow> nat \<Rightarrow> nat option" where
  "heap_find a n k i =
    (if i \<le> n then (case rd a i of None \<Rightarrow> None
        | Some x \<Rightarrow> if x = Some k then Some i else heap_find a n k (i + 1))
     else Some i)"
  by pat_completeness auto
termination by (relation "measure (\<lambda>(a, n, k, i). Suc n - i)") auto

declare heap_find.simps [simp del]

definition p_HEAP_remove_element :: "('p \<Rightarrow> time_ns) \<Rightarrow> 'p heap_t \<Rightarrow> 'p \<Rightarrow> (int \<times> 'p heap_t) option" where
  "p_HEAP_remove_element key heap k = do {
     i \<leftarrow> heap_find (h_array heap) (h_nelem heap) k 1;
     if i \<le> h_nelem heap then
       if h_nelem heap > 1 then do {
         l \<leftarrow> rd (h_array heap) (h_nelem heap);
         a \<leftarrow> wr (h_array heap) i l;
         h \<leftarrow> p_heapify key (heap\<lparr>h_array := a, h_nelem := h_nelem heap - 1\<rparr>) i;
         Some (0, h) }
       else do {
         a \<leftarrow> wr (h_array heap) i None;
         Some (0, heap\<lparr>h_array := a, h_nelem := 0\<rparr>) }
     else Some (-1, heap) }"

function p_check_min_loop :: "('p \<Rightarrow> time_ns) \<Rightarrow> 'p option list \<Rightarrow> nat \<Rightarrow> nat \<Rightarrow> int option" where
  "p_check_min_loop key a nelem n =
    (if n \<le> nelem then do {
       x \<leftarrow> rd a 1; y \<leftarrow> rd a n;
       lt \<leftarrow> is_min key x y;
       if \<not> lt then Some 0 else p_check_min_loop key a nelem (n + 1) }
     else Some 1)"
  by pat_completeness auto
termination by (relation "measure (\<lambda>(key, a, nelem, n). Suc nelem - n)") auto

declare p_check_min_loop.simps [simp del]

definition p_HEAP_check_min :: "('p \<Rightarrow> time_ns) \<Rightarrow> 'p heap_t \<Rightarrow> int option" where
  "p_HEAP_check_min key heap = p_check_min_loop key (h_array heap) (h_nelem heap) 2"

section \<open>Sifting down\<close>

lemma children: "d div 2 = t \<longleftrightarrow> d = 2 * t \<or> d = 2 * t + (1 :: nat)"
  by auto

lemma p_heapify_loop_ok:
  assumes "filled a n" "1 \<le> tp" "order_below key a n tp"
    "2 * tp \<le> n \<longrightarrow> a ! tp = tmp"
  shows "\<exists>a'. p_heapify_loop key n tmp a tp (2 * tp) = Some a' \<and> length a' = length a \<and>
     filled a' n \<and> heap_order key a' n \<and> mset (contents a' n) = mset (contents a n) \<and>
     (\<forall>j>n. a' ! j = a ! j)"
  using assms
proof (induction "n - tp" arbitrary: a tp rule: less_induct)
  case less
  note f = less.prems(1) and t1 = less.prems(2) and ob = less.prems(3) and at = less.prems(4)
  show ?case
  proof (cases "2 * tp \<le> n")
    case False
    have "heap_order key a n"
      by (rule order_below_stop [OF ob]) (use False in auto)
    then show ?thesis using f False by (subst p_heapify_loop.simps) simp
  next
    case True
    have len: "n < length a" using f by (rule filled_length)
    obtain p where p: "a ! tp = Some p" "tmp = Some p" using filled_Some [OF f t1] True at by auto
    obtain l where l: "a ! (2 * tp) = Some l" using filled_Some [OF f, of "2 * tp"] True t1 by auto
    let ?R = "if 2 * tp + 1 \<le> n then do {
           r \<leftarrow> rd a (2 * tp + 1); l \<leftarrow> rd a (2 * tp); is_min key r l } else Some False"
    have "?R = Some (2 * tp + 1 \<le> n \<and> ky key a (2 * tp + 1) < ky key a (2 * tp))"
    proof (cases "2 * tp + 1 \<le> n")
      case r: True
      then obtain q where "a ! (2 * tp + 1) = Some q" using filled_Some [OF f, of "2 * tp + 1"] by auto
      then show ?thesis using r l len by (simp add: ky_def)
    qed simp
    then obtain rm where rm: "?R = Some rm"
      "rm \<longleftrightarrow> 2 * tp + 1 \<le> n \<and> ky key a (2 * tp + 1) < ky key a (2 * tp)" by blast
    define c where "c = (if rm then 2 * tp + 1 else 2 * tp)"
    have c: "c div 2 = tp" "c \<le> n" "2 \<le> c" "tp < c" using rm(2) True t1 by (auto simp: c_def)
    obtain q where q: "a ! c = Some q" using filled_Some [OF f, of c] c by auto
    have small: "ky key a c \<le> ky key a d" if "2 \<le> d" "d \<le> n" "d div 2 = tp" for d
      using that rm(2) unfolding children c_def by auto
    have e: "p_heapify_loop key n tmp a tp (2 * tp) =
      (if key p < key q then Some a
       else p_heapify_loop key n tmp (a[tp := Some q, c := tmp]) c (2 * c))"
      apply (subst p_heapify_loop.simps)
      unfolding rm(1) if_P [OF True] bind.bind_lunit Let_def c_def [symmetric]
      using q p c(2,4) len by simp
    show ?thesis
    proof (cases "key p < key q")
      case stop: True
      have "heap_order key a n"
        by (rule order_below_stop [OF ob]) (use small stop p q in \<open>force simp: ky_def\<close>)
      then show ?thesis using e stop f by simp
    next
      case go: False
      let ?b = "a[tp := a ! c, c := a ! tp]"
      have b: "?b = a[tp := Some q, c := tmp]" using p q by simp
      have fb: "filled ?b n" using filled_swap [OF f t1 _ _ c(2)] c by simp
      have obb: "order_below key ?b n c"
        by (rule order_below_step [OF ob f t1 c(1-3) small]) (use go p q in \<open>simp_all add: ky_def\<close>)
      have ms: "mset (contents ?b n) = mset (contents a n)"
        using mset_contents_swap [OF f t1 _ _ c(2)] c by simp
      have bc: "2 * c \<le> n \<longrightarrow> ?b ! c = tmp" using c(2) len p by simp
      have lt: "n - c < n - tp" "1 \<le> c" using c by linarith+
      obtain a' where a': "p_heapify_loop key n tmp ?b c (2 * c) = Some a'"
        "length a' = length ?b" "filled a' n" "heap_order key a' n"
        "mset (contents a' n) = mset (contents ?b n)" "\<forall>j>n. a' ! j = ?b ! j"
        using less.hyps [OF lt(1) fb lt(2) obb bc] by blast
      moreover have "?b ! j = a ! j" if "n < j" for j using that c by simp
      ultimately show ?thesis using e go ms unfolding b [symmetric]
        by (intro exI [of _ a']) simp
    qed
  qed
qed

section \<open>Sifting up\<close>

lemma p_insert_loop_ok:
  assumes "filled (a[i := Some k]) n" "order_above key (a[i := Some k]) n i" "1 \<le> i" "i \<le> n"
  shows "\<exists>a' i'. p_insert_loop key k a i = Some (a', i') \<and> i' < length a' \<and> length a' = length a \<and>
     filled (a'[i' := Some k]) n \<and> heap_order key (a'[i' := Some k]) n \<and>
     mset (contents (a'[i' := Some k]) n) = mset (contents (a[i := Some k]) n)"
  using assms
proof (induction i arbitrary: a rule: less_induct)
  case (less i)
  let ?b = "a[i := Some k]"
  note f = less.prems(1) and oa = less.prems(2)
  have len: "n < length a" using filled_length [OF f] by simp
  then have bi: "?b ! i = Some k" using less.prems by simp
  show ?case
  proof (cases "i > 1")
    case False
    then have "heap_order key ?b n" by (intro order_above_stop [OF oa]) simp
    then show ?thesis using False f len less.prems
      by (intro exI [of _ a] exI [of _ i]) (subst p_insert_loop.simps, simp)
  next
    case True
    have fi: "1 \<le> i div 2" "i div 2 < i" "i div 2 \<le> n" using True less.prems by auto
    obtain q where q: "a ! (i div 2) = Some q" using filled_Some [OF f fi(1,3)] fi by auto
    have e: "p_insert_loop key k a i =
      (if key k < key q then p_insert_loop key k (a[i := Some q]) (i div 2) else Some (a, i))"
      apply (subst p_insert_loop.simps)
      unfolding if_P [OF True] father_def
      using q fi(2) less.prems(4) len by simp
    show ?thesis
    proof (cases "key k < key q")
      case False
      then have "heap_order key ?b n"
        by (intro order_above_stop [OF oa]) (use bi q fi in \<open>simp add: ky_def\<close>)
      then show ?thesis using False e f len less.prems by (intro exI [of _ a] exI [of _ i]) simp
    next
      case lt: True
      let ?s = "?b[i := ?b ! (i div 2), i div 2 := ?b ! i]"
      let ?a = "a[i := Some q]"
      have s: "?s = ?a[i div 2 := Some k]" using q fi bi by (simp add: list_update_swap)
      have fs: "filled ?s n" using filled_swap [OF f less.prems(3,4) fi(1,3)] .
      have os: "order_above key ?s n (i div 2)"
        by (rule order_above_step [OF oa f]) (use True less.prems lt q bi fi in \<open>simp_all add: ky_def\<close>)
      have ms: "mset (contents ?s n) = mset (contents ?b n)"
        using mset_contents_swap [OF f less.prems(3,4) fi(1,3)] .
      show ?thesis
        using less.IH [OF fi(2), of ?a] fs os fi ms lt e unfolding s by simp
    qed
  qed
qed

section \<open>The operations\<close>

definition p_wf_heap :: "('p \<Rightarrow> time_ns) \<Rightarrow> 'p heap_t \<Rightarrow> bool" where
  "p_wf_heap key h \<longleftrightarrow> length (h_array h) = P_HEAP_MAX_NELEM \<and>
     filled (h_array h) (h_nelem h) \<and> heap_order key (h_array h) (h_nelem h)"

definition heap_bag :: "'p heap_t \<Rightarrow> 'p multiset" where
  "heap_bag h = mset (contents (h_array h) (h_nelem h))"

lemma p_HEAP_init_wf: "p_wf_heap key (p_HEAP_init h) \<and> heap_bag (p_HEAP_init h) = {#}"
  by (simp add: p_wf_heap_def p_HEAP_init_def filled_def heap_order_def heap_bag_def
      P_HEAP_MAX_NELEM_def MAX_TIMERS_def)

lemma size_heap_bag: "p_wf_heap key h \<Longrightarrow> size (heap_bag h) = h_nelem h"
  by (simp add: p_wf_heap_def filled_def heap_bag_def)

text \<open>The two kernels' heaps differ in capacity only: the growing lemma serves both.\<close>

lemma p_grow:
  assumes f: "filled a n" and ho: "heap_order key a n" and len: "Suc n < length a"
  shows "\<exists>a' i'. p_insert_loop key p a (Suc n) = Some (a', i') \<and> i' < length a' \<and>
     length a' = length a \<and> filled (a'[i' := Some p]) (Suc n) \<and>
     heap_order key (a'[i' := Some p]) (Suc n) \<and>
     mset (contents (a'[i' := Some p]) (Suc n)) = add_mset p (mset (contents a n))"
proof -
  let ?b = "a[Suc n := Some p]"
  have fb: "filled ?b (Suc n)" using f len by (auto simp: filled_def nth_list_update le_Suc_eq)
  have k: "ky key ?b i = ky key a i" if "i \<le> n" for i using that len by (simp add: ky_def)
  have "order_above key ?b (Suc n) (Suc n)"
    unfolding order_above_def
  proof (intro conjI allI impI)
    fix i assume i: "2 \<le> i" "i \<le> Suc n" "i \<noteq> Suc n"
    then have "i \<le> n" "i div 2 \<le> n" by auto
    then show "ky key ?b (i div 2) \<le> ky key ?b i" using k ho i(1) by (simp add: heap_order_def)
  next
    fix i assume "2 \<le> Suc n" "2 \<le> i" "i \<le> Suc n" "i div 2 = Suc n"
    then have False by linarith
    then show "ky key ?b (Suc n div 2) \<le> ky key ?b i" ..
  qed
  from p_insert_loop_ok [OF fb this _ order_refl] show ?thesis
    using len by (fastforce simp: contents_Suc contents_update_out)
qed

lemma p_HEAP_insert_ok:
  assumes wf: "p_wf_heap key h" and r: "size (heap_bag h) < MAX_TIMERS"
  shows "\<exists>h'. p_HEAP_insert key h p = Some (0, h') \<and> p_wf_heap key h' \<and>
           heap_bag h' = add_mset p (heap_bag h)"
proof -
  let ?a = "h_array h" and ?n = "h_nelem h"
  have n: "?n < MAX_TIMERS" using size_heap_bag [OF wf] r by simp
  have f: "filled ?a ?n" and ho: "heap_order key ?a ?n" and l: "length ?a = P_HEAP_MAX_NELEM"
    using wf by (simp_all add: p_wf_heap_def)
  obtain a' i' where
    "p_insert_loop key p ?a (Suc ?n) = Some (a', i')" "i' < length a'" "length a' = length ?a"
      "filled (a'[i' := Some p]) (Suc ?n)" "heap_order key (a'[i' := Some p]) (Suc ?n)"
      "mset (contents (a'[i' := Some p]) (Suc ?n)) = add_mset p (mset (contents ?a ?n))"
    using p_grow [OF f ho, of p] n l by (auto simp: P_HEAP_MAX_NELEM_def)
  then show ?thesis using n l
    by (intro exI [of _ "h\<lparr>h_array := a'[i' := Some p], h_nelem := Suc ?n\<rparr>"])
      (simp add: p_HEAP_insert_def p_wf_heap_def heap_bag_def P_HEAP_MAX_NELEM_def)
qed

lemma p_HEAP_min_empty: "p_wf_heap key h \<Longrightarrow> heap_bag h = {#} \<Longrightarrow> p_HEAP_min h = Some None"
  using size_heap_bag [of key h] by (simp add: p_HEAP_min_def)

lemma heap_bag_root:
  assumes "p_wf_heap key h" "heap_bag h \<noteq> {#}"
  shows "\<exists>p. h_array h ! 1 = Some p \<and> p \<in># heap_bag h \<and> (\<forall>q\<in>#heap_bag h. key p \<le> key q) \<and>
             1 \<le> h_nelem h"
proof -
  have n: "1 \<le> h_nelem h" using assms size_heap_bag [OF assms(1)] by (cases "h_nelem h") auto
  have f: "filled (h_array h) (h_nelem h)" and ho: "heap_order key (h_array h) (h_nelem h)"
    using assms by (simp_all add: p_wf_heap_def)
  obtain p where p: "h_array h ! 1 = Some p" using filled_Some [OF f _ n] by auto
  have "p \<in># heap_bag h"
    using n p by (force simp: heap_bag_def set_contents [OF filled_length [OF f]] image_iff)
  then show ?thesis
    using p n heap_min_le [OF ho filled_length [OF f]] by (simp add: heap_bag_def)
qed

text \<open>Taking element i out and putting the last one in its place.\<close>

lemma remove_at:
  assumes f: "filled a (Suc n)" and i: "1 \<le> i" "i \<le> Suc n" and b: "b = a[i := a ! Suc n]"
  shows "filled b n" "add_mset (the (a ! i)) (mset (contents b n)) = mset (contents a (Suc n))"
    "i \<le> n \<Longrightarrow> b ! i = a ! Suc n"
proof -
  have len: "Suc n < length a" using f by (rule filled_length)
  obtain q where q: "a ! Suc n = Some q" using filled_Some [OF f] by auto
  show "filled b n" using f i b q by (auto simp: filled_def nth_list_update)
  show "i \<le> n \<Longrightarrow> b ! i = a ! Suc n" using b len by simp
  show "add_mset (the (a ! i)) (mset (contents b n)) = mset (contents a (Suc n))"
  proof (cases "i \<le> n")
    case True
    have "mset (contents b n) = mset ((contents a n)[i - 1 := q])"
      using True i len b q by (simp add: contents_update)
    also have "add_mset (the (a ! i)) \<dots> = add_mset q (mset (contents a n))"
    proof -
      have lt: "i - 1 < length (contents a n)" using True i len by auto
      have "the (a ! i) = contents a n ! (i - 1)" using contents_nth [of n a i] True i len by simp
      moreover have "contents a n ! (i - 1) \<in># mset (contents a n)" using lt by simp
      ultimately show ?thesis
        using mset_update [OF lt, of q] by (simp add: insert_DiffM2 add_mset_commute)
    qed
    finally show ?thesis using len q by (simp add: contents_Suc)
  next
    case False
    then have "i = Suc n" using i by simp
    then show ?thesis using b len by (simp add: contents_Suc contents_update_out)
  qed
qed

lemma p_HEAP_remove_min_ok:
  assumes wf: "p_wf_heap key h" and ne: "heap_bag h \<noteq> {#}"
  shows "\<exists>p h'. p_HEAP_remove_min key h = Some (Some p, h') \<and> p_wf_heap key h' \<and>
           heap_bag h = add_mset p (heap_bag h') \<and> (\<forall>q\<in>#heap_bag h. key p \<le> key q)"
proof -
  obtain p where p: "h_array h ! 1 = Some p" "\<forall>q\<in>#heap_bag h. key p \<le> key q" "1 \<le> h_nelem h"
    using heap_bag_root [OF assms] by blast
  obtain n where n: "h_nelem h = Suc n" using p(3) by (cases "h_nelem h") auto
  let ?a = "h_array h"
  let ?b = "?a[1 := ?a ! Suc n]"
  have f: "filled ?a (Suc n)" and ho: "heap_order key ?a (Suc n)" and l: "length ?a = P_HEAP_MAX_NELEM"
    using wf n by (simp_all add: p_wf_heap_def)
  note ra = remove_at [OF f, of 1 ?b]
  have fb: "filled ?b n" and ms: "add_mset p (mset (contents ?b n)) = mset (contents ?a (Suc n))"
    using ra p by simp_all
  have "order_below key ?b n 1"
    using ho filled_length [OF f]
    by (auto simp: order_below_def heap_order_def ky_def nth_list_update)
  from p_heapify_loop_ok [OF fb _ this, of "?b ! 1"] obtain a' where
    a': "p_heapify_loop key n (?b ! 1) ?b 1 2 = Some a'" "length a' = length ?b" "filled a' n"
      "heap_order key a' n" "mset (contents a' n) = mset (contents ?b n)" by auto
  have "p_HEAP_remove_min key h = Some (Some p, h\<lparr>h_array := a', h_nelem := n\<rparr>)"
    using a' n p filled_length [OF f] by (simp add: p_HEAP_remove_min_def p_heapify_def numeral_2_eq_2)
  then show ?thesis using a' l n ms p by (simp add: p_wf_heap_def heap_bag_def)
qed

lemma p_HEAP_remove_min_empty:
  "p_wf_heap key h \<Longrightarrow> heap_bag h = {#} \<Longrightarrow> p_HEAP_remove_min key h = Some (None, h)"
  using size_heap_bag [of key h] by (simp add: p_HEAP_remove_min_def)

interpretation pq: timer_queue p_wf_heap heap_bag MAX_TIMERS p_HEAP_insert p_HEAP_min p_HEAP_remove_min
proof
  fix key :: "'a \<Rightarrow> time_ns" and h :: "'a heap_t" and p
  assume wf: "p_wf_heap key h"
  show "\<exists>h'. p_HEAP_insert key h p = Some (0, h') \<and> p_wf_heap key h' \<and>
      heap_bag h' = add_mset p (heap_bag h)" if "size (heap_bag h) < MAX_TIMERS" "p \<notin># heap_bag h"
    using wf that by (rule_tac p_HEAP_insert_ok)
  show "p_HEAP_min h = Some None" if "heap_bag h = {#}"
    using wf that by (rule p_HEAP_min_empty)
  show "\<exists>p. p_HEAP_min h = Some (Some p) \<and> p \<in># heap_bag h \<and> (\<forall>q\<in>#heap_bag h. key p \<le> key q)"
    if ne: "heap_bag h \<noteq> {#}"
  proof -
    obtain p where "h_array h ! 1 = Some p \<and> p \<in># heap_bag h \<and> (\<forall>q\<in>#heap_bag h. key p \<le> key q) \<and>
             1 \<le> h_nelem h" using heap_bag_root [OF wf ne] by blast
    then show ?thesis using wf
      by (intro exI [of _ p]) (auto simp: p_HEAP_min_def p_wf_heap_def filled_def)
  qed
  show "p_HEAP_remove_min key h = Some (None, h)" if "heap_bag h = {#}"
    using wf that by (rule p_HEAP_remove_min_empty)
  show "\<exists>p h'. p_HEAP_remove_min key h = Some (Some p, h') \<and> p_wf_heap key h' \<and>
      heap_bag h = add_mset p (heap_bag h') \<and> (\<forall>q\<in>#heap_bag h. key p \<le> key q)"
    if "heap_bag h \<noteq> {#}"
    using wf that by (rule p_HEAP_remove_min_ok)
qed

end
