(* ===== verification/XHeap.thy ===== *)
theory XHeap
  imports PHeap
begin

text \<open>
  XtratuM's timer heap (xtratum/kernel/heap.c, include/heap.h): pointers to
  domain_t ordered by time.hwtime.  Its heapify compares with the element one
  past the end, unlike PaRTiKle's; the two are proved to do the same at both
  call sites, where that cell still holds the element being moved.
\<close>

definition HEAP_MAX_NELEM :: nat where "HEAP_MAX_NELEM = 100"

definition HEAP_init :: "'p heap_t \<Rightarrow> 'p heap_t" where
  "HEAP_init heap = heap\<lparr>h_nelem := 0\<rparr>"

definition HEAP_min :: "'p heap_t \<Rightarrow> 'p option option" where
  "HEAP_min heap = (if h_nelem heap > 0 then rd (h_array heap) 1 else Some None)"

partial_function (option) heapify_loop ::
  "('p \<Rightarrow> time_ns) \<Rightarrow> nat \<Rightarrow> 'p option \<Rightarrow> 'p option list \<Rightarrow> nat \<Rightarrow> nat \<Rightarrow> 'p option list option" where
  "heapify_loop key n tempvalue a tp child =
    (if child \<le> n then do {
       r \<leftarrow> rd a (child + 1);
       l \<leftarrow> rd a child;
       right_min \<leftarrow> is_min key r l;
       let c = (if right_min then child + 1 else child);
       x \<leftarrow> rd a c;
       stop \<leftarrow> is_min key tempvalue x;
       if stop then Some a
       else do {
         a1 \<leftarrow> wr a tp x;
         a2 \<leftarrow> wr a1 c tempvalue;
         heapify_loop key n tempvalue a2 c (2 * c) } }
     else Some a)"

declare heapify_loop.simps [code]

definition heapify :: "('p \<Rightarrow> time_ns) \<Rightarrow> 'p heap_t \<Rightarrow> nat \<Rightarrow> 'p heap_t option" where
  "heapify key heap tp = do {
     tempvalue \<leftarrow> rd (h_array heap) tp;
     a \<leftarrow> heapify_loop key (h_nelem heap) tempvalue (h_array heap) tp (2 * tp);
     Some (heap\<lparr>h_array := a\<rparr>) }"

definition HEAP_remove_min :: "('p \<Rightarrow> time_ns) \<Rightarrow> 'p heap_t \<Rightarrow> ('p option \<times> 'p heap_t) option" where
  "HEAP_remove_min key heap =
    (if h_nelem heap > 0 then do {
       m \<leftarrow> rd (h_array heap) 1;
       l \<leftarrow> rd (h_array heap) (h_nelem heap);
       a \<leftarrow> wr (h_array heap) 1 l;
       h \<leftarrow> heapify key (heap\<lparr>h_array := a, h_nelem := h_nelem heap - 1\<rparr>) 1;
       Some (m, h) }
     else Some (None, heap))"

definition HEAP_remove_element :: "('p \<Rightarrow> time_ns) \<Rightarrow> 'p heap_t \<Rightarrow> 'p \<Rightarrow> (int \<times> 'p heap_t) option" where
  "HEAP_remove_element key heap k = do {
     i \<leftarrow> heap_find (h_array heap) (h_nelem heap) k 1;
     x \<leftarrow> rd (h_array heap) i;
     if x \<noteq> Some k then Some (-1, heap)
     else if i \<le> h_nelem heap then
       if h_nelem heap - 1 > 0 then do {
         l \<leftarrow> rd (h_array heap) (h_nelem heap);
         a \<leftarrow> wr (h_array heap) i l;
         h \<leftarrow> heapify key (heap\<lparr>h_array := a, h_nelem := h_nelem heap - 1\<rparr>) i;
         Some (0, h) }
       else do {
         a \<leftarrow> wr (h_array heap) i None;
         Some (0, heap\<lparr>h_array := a, h_nelem := 0\<rparr>) }
     else Some (-1, heap) }"

text \<open>The loop that lets an element rise is the same text as PaRTiKle's, with i/2 for i>>1.\<close>

partial_function (option) insert_loop ::
  "('p \<Rightarrow> time_ns) \<Rightarrow> 'p \<Rightarrow> 'p option list \<Rightarrow> nat \<Rightarrow> ('p option list \<times> nat) option" where
  "insert_loop key k a i =
    (if i > 1 then do {
       f \<leftarrow> rd a (father i);
       lt \<leftarrow> is_min key (Some k) f;
       if lt then do { a1 \<leftarrow> wr a i f; insert_loop key k a1 (father i) }
       else Some (a, i) }
     else Some (a, i))"

declare insert_loop.simps [code]

definition HEAP_insert :: "('p \<Rightarrow> time_ns) \<Rightarrow> 'p heap_t \<Rightarrow> 'p \<Rightarrow> (int \<times> 'p heap_t) option" where
  "HEAP_insert key heap k =
    (if h_nelem heap + 1 > HEAP_MAX_NELEM then Some (-1, heap)
     else do {
       (_, h) \<leftarrow> HEAP_remove_element key heap k;
       (a, i) \<leftarrow> insert_loop key k (h_array h) (h_nelem h + 1);
       a1 \<leftarrow> wr a i (Some k);
       Some (0, h\<lparr>h_array := a1, h_nelem := h_nelem h + 1\<rparr>) })"

section \<open>Both heapify routines agree\<close>

lemma insert_loop_eq:
  "i < length a \<Longrightarrow> insert_loop key k a i = p_insert_loop key k a i"
proof (induction i arbitrary: a rule: less_induct)
  case (less i)
  show ?case
  proof (cases "i > 1")
    case True
    then have lt: "father i < i" by (simp add: father_def)
    show ?thesis
      apply (subst insert_loop.simps)
      apply (subst p_insert_loop.simps)
      using less.IH [OF lt, of "_[i := _]"] less.prems lt True
      by (cases "is_min key (Some k) (a ! father i)") auto
  next
    case False
    then show ?thesis by (subst insert_loop.simps, subst p_insert_loop.simps) simp
  qed
qed

lemma heapify_loop_eq:
  assumes "filled a n" "n + 1 < length a" "a ! (n + 1) = Some t" "1 \<le> tp"
    "2 * tp \<le> n \<longrightarrow> a ! tp = Some t"
  shows "heapify_loop key n (Some t) a tp (2 * tp) = p_heapify_loop key n (Some t) a tp (2 * tp)"
  using assms
proof (induction "n - tp" arbitrary: a tp rule: less_induct)
  case less
  note f = less.prems(1) and len = less.prems(2) and cell = less.prems(3)
  show ?case
  proof (cases "2 * tp \<le> n")
    case False
    then show ?thesis by (subst heapify_loop.simps, subst p_heapify_loop.simps) simp
  next
    case True
    obtain l where l: "a ! (2 * tp) = Some l" using filled_Some [OF f _ True] less.prems by auto
    obtain r where r: "a ! (2 * tp + 1) = Some r"
      using filled_Some [OF f, of "2 * tp + 1"] True less.prems by (cases "2 * tp = n") auto
    have at: "a ! tp = Some t" using less.prems True by simp
    define c where "c = (if key r < key l then 2 * tp + 1 else 2 * tp)"
    have "a ! c = Some (if key r < key l then r else l)" using l r by (simp add: c_def)
    then obtain x where x: "a ! c = Some x" by blast
    have c: "c < length a" "tp < c" "tp < length a" using True len less.prems by (auto simp: c_def)
    have X: "heapify_loop key n (Some t) a tp (2 * tp) =
      (if key t < key x then Some a
       else heapify_loop key n (Some t) (a[tp := Some x, c := Some t]) c (2 * c))"
      apply (subst heapify_loop.simps)
      using True l r x c len by (simp add: c_def [symmetric])
    show ?thesis
    proof (cases "c \<le> n")
      case in_range: True
      have P: "p_heapify_loop key n (Some t) a tp (2 * tp) =
        (if key t < key x then Some a
         else p_heapify_loop key n (Some t) (a[tp := Some x, c := Some t]) c (2 * c))"
      proof -
        have rm: "(if 2 * tp + 1 \<le> n then do {
           r \<leftarrow> rd a (2 * tp + 1); l \<leftarrow> rd a (2 * tp); is_min key r l } else Some False)
          = Some (2 * tp + 1 \<le> n \<and> key r < key l)"
          using True l r len by simp
        have cc: "(if 2 * tp + 1 \<le> n \<and> key r < key l then 2 * tp + 1 else 2 * tp) = c"
          using in_range by (cases "key r < key l") (simp_all add: c_def)
        show ?thesis
          apply (subst p_heapify_loop.simps)
          unfolding if_P [OF True] rm bind.bind_lunit Let_def cc
          using x c len by simp
      qed
      let ?b = "a[tp := Some x, c := Some t]"
      have "filled ?b n" using f in_range c by (auto simp: filled_def nth_list_update)
      moreover have "n - c < n - tp" using in_range c by linarith
      moreover have "?b ! (n + 1) = Some t" using cell in_range c by simp
      moreover have "?b ! c = Some t" "1 \<le> c" using c by simp_all
      ultimately have "heapify_loop key n (Some t) ?b c (2 * c) = p_heapify_loop key n (Some t) ?b c (2 * c)"
        using less.hyps [of c ?b] len by simp
      then show ?thesis using X P by simp
    next
      case out: False
      then have c': "c = n + 1" "2 * tp = n" "key r < key l"
        using True by (auto simp: c_def split: if_splits)
      have "x = t" using x cell c' by simp
      moreover have "a[tp := Some t, c := Some t] = a"
        using at cell c' by (metis list_update_id)
      ultimately have "heapify_loop key n (Some t) a tp (2 * tp) = heapify_loop key n (Some t) a c (2 * c)"
        using X by simp
      also have "\<dots> = Some a" using c' by (subst heapify_loop.simps) simp
      finally have "heapify_loop key n (Some t) a tp (2 * tp) = Some a" .
      moreover have "r = t" using r cell c' by simp
      then have "p_heapify_loop key n (Some t) a tp (2 * tp) = Some a"
        apply (subst p_heapify_loop.simps)
        using c' l len by simp
      ultimately show ?thesis by simp
    qed
  qed
qed

section \<open>The operations\<close>

definition wf_heap :: "('p \<Rightarrow> time_ns) \<Rightarrow> 'p heap_t \<Rightarrow> bool" where
  "wf_heap key h \<longleftrightarrow> length (h_array h) = HEAP_MAX_NELEM \<and>
     filled (h_array h) (h_nelem h) \<and> heap_order key (h_array h) (h_nelem h)"

lemma size_heap_bag_x: "wf_heap key h \<Longrightarrow> size (heap_bag h) = h_nelem h"
  by (simp add: wf_heap_def filled_def heap_bag_def)

lemma HEAP_init_wf:
  "length (h_array h) = HEAP_MAX_NELEM \<Longrightarrow>
   wf_heap key (HEAP_init h) \<and> heap_bag (HEAP_init h) = {#}"
  by (simp add: wf_heap_def HEAP_init_def filled_def heap_order_def heap_bag_def HEAP_MAX_NELEM_def)

lemma heap_find_ok:
  assumes "n < length a"
  shows "heap_find a n k i = Some j \<Longrightarrow> i \<le> Suc n \<Longrightarrow>
     i \<le> j \<and> j \<le> Suc n \<and> (j \<le> n \<longrightarrow> a ! j = Some k) \<and> (\<forall>m. i \<le> m \<longrightarrow> m < j \<longrightarrow> a ! m \<noteq> Some k)"
  using assms
proof (induction a n k i rule: heap_find.induct)
  case (1 a n k i)
  show ?case
  proof (cases "i \<le> n \<and> a ! i \<noteq> Some k")
    case True
    then have "heap_find a n k (i + 1) = Some j"
      using "1.prems" by (subst (asm) heap_find.simps) simp
    then have "i + 1 \<le> j \<and> j \<le> Suc n \<and> (j \<le> n \<longrightarrow> a ! j = Some k) \<and>
        (\<forall>m. i + 1 \<le> m \<longrightarrow> m < j \<longrightarrow> a ! m \<noteq> Some k)"
      using "1.IH" [of "a ! i"] True "1.prems"(3) by simp
    then show ?thesis using True by (metis Suc_eq_plus1 Suc_leI Suc_leD le_neq_implies_less)
  next
    case False
    then have "j = i" using "1.prems" by (subst (asm) heap_find.simps) (auto split: if_splits)
    then show ?thesis using False "1.prems" by auto
  qed
qed

lemma heap_find_total:
  "n < length a \<Longrightarrow> \<exists>j. heap_find a n k i = Some j"
proof (induction a n k i rule: heap_find.induct)
  case (1 a n k i)
  then show ?case by (subst heap_find.simps) auto
qed

lemma heap_find_absent:
  assumes f: "filled a n" and k: "k \<notin> set (contents a n)"
  shows "heap_find a n k 1 = Some (Suc n)"
proof -
  have n: "n < length a" using f by (rule filled_length)
  obtain j where j: "heap_find a n k 1 = Some j" using heap_find_total [OF n] by blast
  have "a ! j = Some k \<Longrightarrow> 1 \<le> j \<Longrightarrow> j \<le> n \<Longrightarrow> False"
    using k unfolding set_contents [OF n] by (metis atLeastAtMost_iff image_iff option.sel)
  then show ?thesis using heap_find_ok [OF n j] j by fastforce
qed

lemma HEAP_remove_absent:
  assumes wf: "wf_heap key h" and k: "k \<notin># heap_bag h" and r: "h_nelem h + 1 < HEAP_MAX_NELEM"
  shows "HEAP_remove_element key h k = Some (-1, h)"
proof -
  have f: "filled (h_array h) (h_nelem h)" and l: "length (h_array h) = HEAP_MAX_NELEM"
    using wf by (simp_all add: wf_heap_def)
  have "heap_find (h_array h) (h_nelem h) k 1 = Some (Suc (h_nelem h))"
    using heap_find_absent [OF f] k by (simp add: heap_bag_def)
  then show ?thesis using r l by (simp add: HEAP_remove_element_def)
qed

lemma HEAP_insert_ok:
  assumes wf: "wf_heap key h" and r: "size (heap_bag h) < HEAP_MAX_NELEM - 1" and p: "p \<notin># heap_bag h"
  shows "\<exists>h'. HEAP_insert key h p = Some (0, h') \<and> wf_heap key h' \<and>
           heap_bag h' = add_mset p (heap_bag h)"
proof -
  let ?a = "h_array h" and ?n = "h_nelem h"
  have n: "?n < 99" using size_heap_bag_x [OF wf] r by (simp add: HEAP_MAX_NELEM_def)
  have f: "filled ?a ?n" and ho: "heap_order key ?a ?n" and l: "length ?a = 100"
    using wf by (simp_all add: wf_heap_def HEAP_MAX_NELEM_def)
  have rm: "HEAP_remove_element key h p = Some (-1, h)"
    using HEAP_remove_absent [OF wf p] n by (simp add: HEAP_MAX_NELEM_def)
  obtain a' i' where
    a': "p_insert_loop key p ?a (Suc ?n) = Some (a', i')" "i' < length a'" "length a' = length ?a"
      "filled (a'[i' := Some p]) (Suc ?n)" "heap_order key (a'[i' := Some p]) (Suc ?n)"
      "mset (contents (a'[i' := Some p]) (Suc ?n)) = add_mset p (mset (contents ?a ?n))"
    using p_grow [OF f ho, of p] n l by auto
  then have "insert_loop key p ?a (Suc ?n) = Some (a', i')"
    using insert_loop_eq [of "Suc ?n" ?a] n l by simp
  then show ?thesis using a' n l rm
    by (intro exI [of _ "h\<lparr>h_array := a'[i' := Some p], h_nelem := Suc ?n\<rparr>"])
      (simp add: HEAP_insert_def wf_heap_def heap_bag_def HEAP_MAX_NELEM_def)
qed

lemma heap_root_x:
  assumes "wf_heap key h" "heap_bag h \<noteq> {#}"
  shows "\<exists>p. h_array h ! 1 = Some p \<and> p \<in># heap_bag h \<and> (\<forall>q\<in>#heap_bag h. key p \<le> key q) \<and>
             1 \<le> h_nelem h"
proof -
  have n: "1 \<le> h_nelem h" using assms size_heap_bag_x [OF assms(1)] by (cases "h_nelem h") auto
  have f: "filled (h_array h) (h_nelem h)" and ho: "heap_order key (h_array h) (h_nelem h)"
    using assms by (simp_all add: wf_heap_def)
  obtain p where p: "h_array h ! 1 = Some p" using filled_Some [OF f _ n] by auto
  have "p \<in># heap_bag h"
    using n p by (force simp: heap_bag_def set_contents [OF filled_length [OF f]] image_iff)
  then show ?thesis
    using p n heap_min_le [OF ho filled_length [OF f]] by (simp add: heap_bag_def)
qed

text \<open>Moving the last element to place i and sifting it down.\<close>

lemma heapify_removed:
  assumes f: "filled a (Suc n)" and i: "1 \<le> i" "i \<le> Suc n"
    and ob: "order_below key (a[i := a ! Suc n]) n i"
    and h: "h_nelem h = n" "h_array h = a[i := a ! Suc n]"
  shows "\<exists>h'. heapify key h i = Some h' \<and> h_nelem h' = n \<and> length (h_array h') = length a \<and>
     filled (h_array h') n \<and> heap_order key (h_array h') n \<and>
     add_mset (the (a ! i)) (heap_bag h') = mset (contents a (Suc n))"
proof -
  let ?b = "a[i := a ! Suc n]"
  have len: "Suc n < length a" using f by (rule filled_length)
  obtain q where q: "a ! Suc n = Some q" using filled_Some [OF f] by auto
  note ra = remove_at [OF f i refl]
  have bi: "?b ! i = Some q" using i q len by simp
  have bn: "?b ! (n + 1) = Some q" using i q len by (simp add: nth_list_update)
  have "heapify_loop key n (Some q) ?b i (2 * i) = p_heapify_loop key n (Some q) ?b i (2 * i)"
    using heapify_loop_eq [OF ra(1) _ bn i(1)] bi len by simp
  moreover obtain a' where "p_heapify_loop key n (Some q) ?b i (2 * i) = Some a'" "length a' = length ?b"
    "filled a' n" "heap_order key a' n" "mset (contents a' n) = mset (contents ?b n)"
    using p_heapify_loop_ok [OF ra(1) i(1) ob] bi by blast
  ultimately show ?thesis using h bi len i ra(2)
    by (intro exI [of _ "h\<lparr>h_array := a'\<rparr>"]) (simp add: heapify_def heap_bag_def)
qed

lemma HEAP_remove_min_ok:
  assumes wf: "wf_heap key h" and ne: "heap_bag h \<noteq> {#}"
  shows "\<exists>p h'. HEAP_remove_min key h = Some (Some p, h') \<and> wf_heap key h' \<and>
           heap_bag h = add_mset p (heap_bag h') \<and> (\<forall>q\<in>#heap_bag h. key p \<le> key q)"
proof -
  obtain p where p: "h_array h ! 1 = Some p" "\<forall>q\<in>#heap_bag h. key p \<le> key q" "1 \<le> h_nelem h"
    using heap_root_x [OF assms] by blast
  obtain n where n: "h_nelem h = Suc n" using p(3) by (cases "h_nelem h") auto
  let ?a = "h_array h"
  let ?h = "h\<lparr>h_array := ?a[1 := ?a ! Suc n], h_nelem := n\<rparr>"
  have f: "filled ?a (Suc n)" and ho: "heap_order key ?a (Suc n)" and l: "length ?a = HEAP_MAX_NELEM"
    using wf n by (simp_all add: wf_heap_def)
  have "order_below key (?a[1 := ?a ! Suc n]) n 1"
    using ho filled_length [OF f]
    by (auto simp: order_below_def heap_order_def ky_def nth_list_update)
  from heapify_removed [OF f _ _ this, of ?h] obtain h' where
    h': "heapify key ?h 1 = Some h'" "h_nelem h' = n" "length (h_array h') = length ?a"
      "filled (h_array h') n" "heap_order key (h_array h') n"
      "add_mset p (heap_bag h') = mset (contents ?a (Suc n))" using p by auto
  have "HEAP_remove_min key h = Some (Some p, h')"
    using h' n p filled_length [OF f] by (simp add: HEAP_remove_min_def)
  then show ?thesis using h' l n p by (simp add: wf_heap_def heap_bag_def)
qed

interpretation xq: timer_queue wf_heap heap_bag "HEAP_MAX_NELEM - 1" HEAP_insert HEAP_min HEAP_remove_min
proof
  fix key :: "'a \<Rightarrow> time_ns" and h :: "'a heap_t" and p
  assume wf: "wf_heap key h"
  show "\<exists>h'. HEAP_insert key h p = Some (0, h') \<and> wf_heap key h' \<and>
      heap_bag h' = add_mset p (heap_bag h)"
    if "size (heap_bag h) < HEAP_MAX_NELEM - 1" "p \<notin># heap_bag h"
    using wf that by (rule HEAP_insert_ok)
  show "HEAP_min h = Some None" if "heap_bag h = {#}"
    using size_heap_bag_x [OF wf] that by (simp add: HEAP_min_def)
  show "\<exists>p. HEAP_min h = Some (Some p) \<and> p \<in># heap_bag h \<and> (\<forall>q\<in>#heap_bag h. key p \<le> key q)"
    if ne: "heap_bag h \<noteq> {#}"
  proof -
    obtain p where "h_array h ! 1 = Some p \<and> p \<in># heap_bag h \<and> (\<forall>q\<in>#heap_bag h. key p \<le> key q) \<and>
             1 \<le> h_nelem h" using heap_root_x [OF wf ne] by blast
    then show ?thesis using wf
      by (intro exI [of _ p]) (auto simp: HEAP_min_def wf_heap_def filled_def)
  qed
  show "HEAP_remove_min key h = Some (None, h)" if "heap_bag h = {#}"
    using size_heap_bag_x [OF wf] that by (simp add: HEAP_remove_min_def)
  show "\<exists>p h'. HEAP_remove_min key h = Some (Some p, h') \<and> wf_heap key h' \<and>
      heap_bag h = add_mset p (heap_bag h') \<and> (\<forall>q\<in>#heap_bag h. key p \<le> key q)"
    if "heap_bag h \<noteq> {#}"
    using wf that by (rule HEAP_remove_min_ok)
qed

section \<open>Properties\<close>


definition heap3 :: "nat heap_t" where
  "heap3 = \<lparr>h_array = [None, Some 2, Some 5, Some 4] @ replicate 96 None, h_nelem = 3\<rparr>"

lemma heap3_wf: "wf_heap int heap3" "heap_bag heap3 = {#2, 5, 4#}"
proof -
  have "filled (h_array heap3) 3"
    by (auto simp: filled_def heap3_def nth_Cons' atLeastAtMost_iff numeral_3_eq_3 le_Suc_eq)
  moreover have "heap_order int (h_array heap3) 3"
    unfolding heap_order_def
  proof (intro allI impI)
    fix i :: nat assume "2 \<le> i" "i \<le> 3"
    then have "i = 2 \<or> i = 3" by auto
    then show "ky int (h_array heap3) (i div 2) \<le> ky int (h_array heap3) i"
      by (auto simp: ky_def heap3_def nth_Cons')
  qed
  ultimately show "wf_heap int heap3" by (simp add: wf_heap_def heap3_def HEAP_MAX_NELEM_def)
  show "heap_bag heap3 = {#2, 5, 4#}" by (simp add: heap_bag_def contents_def heap3_def)
qed


text \<open>C24: emptying XtratuM's timer heap by repeated HEAP_remove_min yields every queued domain
  exactly once, in the order of the expiration times.\<close>
theorem timers_expire_in_order:
  assumes "wf_heap key h"
  shows "\<exists>ps h'. xq.drain key (size (heap_bag h)) h = Some (ps, h') \<and> mset ps = heap_bag h \<and>
           sorted (map key ps) \<and> heap_bag h' = {#}"
  using xq.drain_sorted [OF assms order_refl] by blast

lemma timers_expire_in_order_witness:
  "\<exists>ps h'. xq.drain int (size (heap_bag heap3)) heap3 = Some (ps, h') \<and> mset ps = heap_bag heap3 \<and>
           sorted (map int ps) \<and> heap_bag h' = {#}"
  by (rule timers_expire_in_order [OF heap3_wf(1)])

text \<open>Although XtratuM's heapify compares with the element after the last one, removing the
  minimum does exactly what PaRTiKle's bounds-checked heapify does.\<close>
theorem heapify_unguarded_equiv:
  assumes "wf_heap key h"
  shows "HEAP_remove_min key h = p_HEAP_remove_min key h"
proof (cases "h_nelem h")
  case 0
  then show ?thesis by (simp add: HEAP_remove_min_def p_HEAP_remove_min_def)
next
  case (Suc n)
  let ?a = "h_array h"
  let ?b = "?a[1 := ?a ! Suc n]"
  have f: "filled ?a (Suc n)" using assms Suc by (simp add: wf_heap_def)
  have len: "Suc n < length ?a" using f by (rule filled_length)
  obtain q where q: "?a ! Suc n = Some q" using filled_Some [OF f] by auto
  have b: "filled ?b n" "?b ! 1 = Some q" "?b ! (n + 1) = Some q"
    using remove_at [OF f] len q by (simp_all add: nth_list_update)
  have "heapify_loop key n (Some q) ?b 1 2 = p_heapify_loop key n (Some q) ?b 1 2"
    using heapify_loop_eq [OF b(1) _ b(3), of 1 key] len b(2) by simp
  then have "heapify key (h\<lparr>h_array := ?b, h_nelem := n\<rparr>) 1 = p_heapify key (h\<lparr>h_array := ?b, h_nelem := n\<rparr>) 1"
    using b(2) len by (simp add: heapify_def p_heapify_def)
  then show ?thesis using Suc len by (simp add: HEAP_remove_min_def p_HEAP_remove_min_def)
qed

lemma heapify_unguarded_equiv_witness: "HEAP_remove_min int heap3 = p_HEAP_remove_min int heap3"
  by (rule heapify_unguarded_equiv [OF heap3_wf(1)])

text \<open>Seven domains inserted in this order, then the one with time 7 taken out.\<close>

definition insert_list :: "nat heap_t \<Rightarrow> nat list \<Rightarrow> nat heap_t option" where
  "insert_list h ps = fold (\<lambda>p r. do { h1 \<leftarrow> r; (_, h2) \<leftarrow> HEAP_insert int h1 p; Some h2 }) ps (Some h)"

definition empty_heap :: "nat heap_t" where
  "empty_heap = \<lparr>h_array = replicate HEAP_MAX_NELEM None, h_nelem = 0\<rparr>"

text \<open>HEAP_remove_element only sifts the moved element down, so taking an inner element out
  can break the heap order: after inserting seven domains and removing one, the third
  HEAP_remove_min returns a domain that does not have the least time.\<close>
theorem remove_element_breaks_order:
  "(do { h \<leftarrow> insert_list empty_heap [6, 5, 4, 7, 3, 2, 1];
         (_, h1) \<leftarrow> HEAP_remove_element int h 7;
         (_, h2) \<leftarrow> HEAP_remove_min int h1;
         (_, h3) \<leftarrow> HEAP_remove_min int h2;
         (p, h4) \<leftarrow> HEAP_remove_min int h3;
         Some (the p, mset (map the (take (h_nelem h3) (tl (h_array h3))))) })
   = Some (4, {#3, 4, 5, 6#})"
  by code_simp

text \<open>The capacity test admits 100 elements in an array of 100 cells that starts at index 1:
  with 99 domains queued, HEAP_insert of another one touches the cell after the array.\<close>
theorem heap_insert_overflows:
  assumes "wf_heap key h" "h_nelem h = HEAP_MAX_NELEM - 1" "k \<notin># heap_bag h"
  shows "HEAP_insert key h k = None"
proof -
  have f: "filled (h_array h) (h_nelem h)" and l: "length (h_array h) = 100"
    using assms by (simp_all add: wf_heap_def HEAP_MAX_NELEM_def)
  have "heap_find (h_array h) (h_nelem h) k 1 = Some 100"
    using heap_find_absent [OF f] assms(2,3) by (simp add: heap_bag_def HEAP_MAX_NELEM_def)
  then show ?thesis using assms(2) l
    by (simp add: HEAP_insert_def HEAP_remove_element_def HEAP_MAX_NELEM_def)
qed

definition heap99 :: "nat heap_t" where
  "heap99 = \<lparr>h_array = None # map Some [1..<100], h_nelem = 99\<rparr>"

lemma heap99_nth: "1 \<le> i \<Longrightarrow> i \<le> 99 \<Longrightarrow> h_array heap99 ! i = Some i"
  by (simp add: heap99_def nth_Cons')

lemma heap99_wf: "wf_heap int heap99"
proof -
  have "filled (h_array heap99) 99"
    using heap99_nth by (auto simp: filled_def) (simp add: heap99_def)
  moreover have "heap_order int (h_array heap99) 99"
    unfolding heap_order_def ky_def
  proof (intro allI impI)
    fix i :: nat assume i: "2 \<le> i" "i \<le> 99"
    then have "1 \<le> i div 2" "i div 2 \<le> 99" by auto
    then show "int (the (h_array heap99 ! (i div 2))) \<le> int (the (h_array heap99 ! i))"
      using heap99_nth i by simp
  qed
  ultimately show ?thesis by (simp add: wf_heap_def heap99_def HEAP_MAX_NELEM_def)
qed

lemma heap_insert_overflows_witness: "HEAP_insert int heap99 200 = None"
proof (rule heap_insert_overflows [OF heap99_wf])
  show "h_nelem heap99 = HEAP_MAX_NELEM - 1" by (simp add: heap99_def HEAP_MAX_NELEM_def)
  show "200 \<notin># heap_bag heap99"
    by (simp add: heap_bag_def contents_def heap99_def take_map)
qed

end
