(* ===== verification/Bitops.thy ===== *)
theory Bitops
  imports Prelude
begin

unbundle bit_operations_syntax

text \<open>
  The bit primitives of both kernels: bitop.h (the portable _ffs and _fls),
  their bsf/bsr versions, the one-word bitmaps of bitmap.h and the bitmaps of
  arbitrary length of cbitmap.h, with the set-of-naturals reading that the
  scheduler and the timers rely on.
\<close>

section \<open>_ffs and _fls\<close>

text \<open>_ffs and _fls take a signed int: the right shifts are arithmetic.\<close>

definition ffs_step :: "nat \<Rightarrow> u32 \<times> int \<Rightarrow> u32 \<times> int" where
  "ffs_step k xr = (case xr of (x, r) \<Rightarrow>
     if x AND mask k = 0 then (signed_drop_bit k x, r + int k) else (x, r))"

definition p_ffs :: "u32 \<Rightarrow> int" where
  "p_ffs x = (if x = 0 then -1
     else snd (ffs_step 1 (ffs_step 2 (ffs_step 4 (ffs_step 8 (ffs_step 16 (x, 0)))))))"

definition fls_step :: "nat \<Rightarrow> u32 \<Rightarrow> u32 \<times> int \<Rightarrow> u32 \<times> int" where
  "fls_step k m xr = (case xr of (x, r) \<Rightarrow>
     if x AND m = 0 then (push_bit k x, r - int k) else (x, r))"

definition p_fls :: "u32 \<Rightarrow> int" where
  "p_fls x = (if x = 0 then -1
     else snd (fls_step 1 0x80000000 (fls_step 2 0xc0000000 (fls_step 4 0xf0000000
               (fls_step 8 0xff000000 (fls_step 16 0xffff0000 (x, 31)))))))"

text \<open>The inline assembly versions: bsf and bsr, with -1 when the operand is 0.\<close>

definition bsf_ffs :: "u32 \<Rightarrow> int" where
  "bsf_ffs x = (case List.find (\<lambda>n. bit x n) [0..<32] of None \<Rightarrow> -1 | Some n \<Rightarrow> int n)"

definition bsr_fls :: "u32 \<Rightarrow> int" where
  "bsr_fls x = (case List.find (\<lambda>n. bit x n) (rev [0..<32]) of None \<Rightarrow> -1 | Some n \<Rightarrow> int n)"

definition lowest_at :: "u32 \<Rightarrow> nat \<Rightarrow> bool" where
  "lowest_at x n \<longleftrightarrow> bit x n \<and> (\<forall>m<n. \<not> bit x m)"

definition highest_at :: "u32 \<Rightarrow> nat \<Rightarrow> bool" where
  "highest_at x n \<longleftrightarrow> bit x n \<and> (\<forall>m>n. \<not> bit x m)"

lemma lowest_at_unique: "lowest_at x n \<Longrightarrow> lowest_at x m \<Longrightarrow> n = m"
  by (metis linorder_neqE_nat lowest_at_def)

lemma highest_at_unique: "highest_at x n \<Longrightarrow> highest_at x m \<Longrightarrow> n = m"
  by (metis linorder_neqE_nat highest_at_def)

lemma lowest_at_exists: "x \<noteq> 0 \<Longrightarrow> \<exists>n<32. lowest_at x n"
proof -
  assume "x \<noteq> 0"
  then obtain n where "bit x n" using word_nonzero_bit by blast
  then have "lowest_at x (LEAST n. bit x n)"
    unfolding lowest_at_def using LeastI not_less_Least by metis
  then show ?thesis using word32_bit_cases unfolding lowest_at_def by blast
qed

lemma highest_at_exists: "x \<noteq> 0 \<Longrightarrow> \<exists>n<32. highest_at x n"
proof -
  assume "x \<noteq> 0"
  then obtain n where n: "bit x n" using word_nonzero_bit by blast
  let ?S = "{n. bit x n}"
  have fin: "finite ?S"
    by (rule finite_subset [of _ "{..<32}"]) (auto dest: word32_bit_cases)
  have "Max ?S \<in> ?S" using fin n by (intro Max_in) auto
  moreover have "\<forall>m>Max ?S. \<not> bit x m"
    using Max_ge [OF fin] by (auto simp: not_le [symmetric])
  ultimately show ?thesis
    using word32_bit_cases unfolding highest_at_def by blast
qed

lemma ffs_step_lowest:
  assumes "lowest_at x n" "n < 2 * k" "0 < k" "2 * k \<le> 32" "ffs_step k (x, r) = (x', r')"
  shows "\<exists>n'. lowest_at x' n' \<and> n' < k \<and> int n' + r' = int n + r"
proof (cases "x AND mask k = 0")
  case True
  then have z: "\<forall>m<k. \<not> bit x m"
    by (simp add: take_bit_eq_mask [symmetric] take_bit_zero_iff_bits)
  with assms(1) have ge: "k \<le> n" by (metis lowest_at_def not_le)
  have x': "x' = signed_drop_bit k x" "r' = r + int k"
    using assms(5) True by (simp_all add: ffs_step_def)
  have b: "bit x n" "\<forall>m<n. \<not> bit x m" using assms(1) by (simp_all add: lowest_at_def)
  have n32: "n < 32" using b(1) by (rule word32_bit_cases)
  have "lowest_at x' (n - k)"
    unfolding lowest_at_def x'
  proof (intro conjI allI impI)
    show "bit (signed_drop_bit k x) (n - k)"
      using b(1) ge n32 assms by (auto simp: bit_signed_drop_bit_iff)
    fix m assume "m < n - k"
    then show "\<not> bit (signed_drop_bit k x) m"
      using b ge n32 by (auto simp: bit_signed_drop_bit_iff)
  qed
  then show ?thesis using ge assms(2) x' by (intro exI [of _ "n - k"]) auto
next
  case False
  then have "\<exists>m<k. bit x m"
    by (simp add: take_bit_eq_mask [symmetric] take_bit_zero_iff_bits)
  then have "n < k" using assms(1) unfolding lowest_at_def by (meson le_less_trans not_le)
  then show ?thesis using assms False by (auto simp: ffs_step_def)
qed

lemma p_ffs_lowest:
  assumes "x \<noteq> 0"
  shows "\<exists>n<32. lowest_at x n \<and> p_ffs x = int n"
proof -
  obtain n where n: "n < 32" "lowest_at x n" using lowest_at_exists [OF assms] by blast
  obtain x1 r1 where s1: "ffs_step 16 (x, 0) = (x1, r1)" by fastforce
  obtain x2 r2 where s2: "ffs_step 8 (x1, r1) = (x2, r2)" by fastforce
  obtain x3 r3 where s3: "ffs_step 4 (x2, r2) = (x3, r3)" by fastforce
  obtain x4 r4 where s4: "ffs_step 2 (x3, r3) = (x4, r4)" by fastforce
  obtain x5 r5 where s5: "ffs_step 1 (x4, r4) = (x5, r5)" by fastforce
  obtain n1 where n1: "lowest_at x1 n1" "n1 < 16" "int n1 + r1 = int n + 0"
    using ffs_step_lowest [OF n(2) _ _ _ s1] n(1) by auto
  obtain n2 where n2: "lowest_at x2 n2" "n2 < 8" "int n2 + r2 = int n1 + r1"
    using ffs_step_lowest [OF n1(1) _ _ _ s2] n1(2) by auto
  obtain n3 where n3: "lowest_at x3 n3" "n3 < 4" "int n3 + r3 = int n2 + r2"
    using ffs_step_lowest [OF n2(1) _ _ _ s3] n2(2) by auto
  obtain n4 where n4: "lowest_at x4 n4" "n4 < 2" "int n4 + r4 = int n3 + r3"
    using ffs_step_lowest [OF n3(1) _ _ _ s4] n3(2) by auto
  obtain n5 where n5: "n5 < 1" "int n5 + r5 = int n4 + r4"
    using ffs_step_lowest [OF n4(1) _ _ _ s5] n4(2) by auto
  have "p_ffs x = r5" using assms s1 s2 s3 s4 s5 by (simp add: p_ffs_def)
  then have "p_ffs x = int n" using n1 n2 n3 n4 n5 by simp
  then show ?thesis using n by blast
qed

lemma bsf_ffs_lowest:
  assumes "lowest_at x n"
  shows "bsf_ffs x = int n"
proof -
  have "List.find (\<lambda>n. bit x n) [0..<32] = Some n"
    using assms word32_bit_cases by (auto simp: find_upt_Some_iff lowest_at_def)
  then show ?thesis by (simp add: bsf_ffs_def)
qed

lemma bsf_ffs_zero [simp]: "bsf_ffs 0 = -1"
  by (simp add: bsf_ffs_def find_upt_None_iff [THEN iffD2])

text \<open>The portable routine computes what the bsf instruction computes.\<close>

lemma p_ffs_eq_bsf: "p_ffs x = bsf_ffs x"
proof (cases "x = 0")
  case True
  then show ?thesis by (simp add: p_ffs_def)
next
  case False
  then show ?thesis using p_ffs_lowest bsf_ffs_lowest by metis
qed

lemma bsf_ffs_range:
  "x \<noteq> 0 \<Longrightarrow> \<exists>n<32. bsf_ffs x = int n \<and> lowest_at x n"
  using lowest_at_exists bsf_ffs_lowest by blast

lemma bsf_ffs_eq_minus1_iff [simp]: "bsf_ffs x = -1 \<longleftrightarrow> x = 0"
  using bsf_ffs_range [of x] by (cases "x = 0") auto

lemma p_fls_step:
  assumes "highest_at x n" "32 - 2 * k \<le> n" "0 < k" "2 * k \<le> 32"
    and m: "\<And>i. bit m i \<longleftrightarrow> 32 - k \<le> i \<and> i < 32"
    and s: "fls_step k m (x, r) = (x', r')"
  shows "\<exists>n'. highest_at x' n' \<and> 32 - k \<le> n' \<and> r' + int n' = r + int n"
proof -
  have b: "bit x n" "\<forall>i>n. \<not> bit x i" "n < 32"
    using assms(1) word32_bit_cases by (auto simp: highest_at_def)
  have iff: "x AND m = 0 \<longleftrightarrow> n < 32 - k"
  proof
    assume "x AND m = 0"
    then have "\<not> bit (x AND m) n" by simp
    then show "n < 32 - k" using b(1,3) m [of n] by (simp add: bit_and_iff)
  next
    assume "n < 32 - k"
    then have "\<not> (bit x i \<and> bit m i)" for i
      using b(2) m [of i] by (meson le_trans not_le order.strict_trans1 leD)
    then show "x AND m = 0" by (intro bit_word_eqI) (simp add: bit_and_iff)
  qed
  show ?thesis
  proof (cases "x AND m = 0")
    case True
    then have x': "x' = push_bit k x" "r' = r - int k" "n < 32 - k"
      using s iff by (simp_all add: fls_step_def)
    have "bit x i \<Longrightarrow> i \<le> n" for i using b(2) by (meson not_le)
    then have "highest_at x' (n + k)"
      using b x' assms(3,4) by (auto simp: highest_at_def bit_push_bit_iff)
    then show ?thesis using x' assms(2-4) by (intro exI [of _ "n + k"]) auto
  next
    case False
    then have "x' = x" "r' = r" "32 - k \<le> n"
      using s iff by (simp_all add: fls_step_def)
    then show ?thesis using assms(1) by (intro exI [of _ n]) auto
  qed
qed

lemma fls_masks:
  "bit (0xffff0000 :: u32) i \<longleftrightarrow> 32 - 16 \<le> i \<and> i < 32"
  "bit (0xff000000 :: u32) i \<longleftrightarrow> 32 - 8 \<le> i \<and> i < 32"
  "bit (0xf0000000 :: u32) i \<longleftrightarrow> 32 - 4 \<le> i \<and> i < 32"
  "bit (0xc0000000 :: u32) i \<longleftrightarrow> 32 - 2 \<le> i \<and> i < 32"
  "bit (0x80000000 :: u32) i \<longleftrightarrow> 32 - 1 \<le> i \<and> i < 32"
proof -
  have m: "bit (push_bit k (mask l) :: u32) i \<longleftrightarrow> k \<le> i \<and> i < k + l \<and> i < 32" for k l
    by (auto simp: bit_push_bit_iff bit_mask_iff)
  have e: "(0xffff0000 :: u32) = push_bit 16 (mask 16)" "(0xff000000 :: u32) = push_bit 24 (mask 8)"
    "(0xf0000000 :: u32) = push_bit 28 (mask 4)" "(0xc0000000 :: u32) = push_bit 30 (mask 2)"
    "(0x80000000 :: u32) = push_bit 31 (mask 1)"
    by (simp_all add: mask_eq_exp_minus_1 push_bit_eq_mult)
  show "bit (0xffff0000 :: u32) i \<longleftrightarrow> 32 - 16 \<le> i \<and> i < 32" unfolding e m by auto
  show "bit (0xff000000 :: u32) i \<longleftrightarrow> 32 - 8 \<le> i \<and> i < 32" unfolding e m by auto
  show "bit (0xf0000000 :: u32) i \<longleftrightarrow> 32 - 4 \<le> i \<and> i < 32" unfolding e m by auto
  show "bit (0xc0000000 :: u32) i \<longleftrightarrow> 32 - 2 \<le> i \<and> i < 32" unfolding e m by auto
  show "bit (0x80000000 :: u32) i \<longleftrightarrow> 32 - 1 \<le> i \<and> i < 32" unfolding e m by auto
qed

lemma p_fls_highest:
  assumes "x \<noteq> 0"
  shows "\<exists>n<32. highest_at x n \<and> p_fls x = int n"
proof -
  obtain n where n: "n < 32" "highest_at x n" using highest_at_exists [OF assms] by blast
  obtain x1 r1 where s1: "fls_step 16 0xffff0000 (x, 31) = (x1, r1)" by fastforce
  obtain x2 r2 where s2: "fls_step 8 0xff000000 (x1, r1) = (x2, r2)" by fastforce
  obtain x3 r3 where s3: "fls_step 4 0xf0000000 (x2, r2) = (x3, r3)" by fastforce
  obtain x4 r4 where s4: "fls_step 2 0xc0000000 (x3, r3) = (x4, r4)" by fastforce
  obtain x5 r5 where s5: "fls_step 1 0x80000000 (x4, r4) = (x5, r5)" by fastforce
  obtain n1 where n1: "highest_at x1 n1" "16 \<le> n1" "r1 + int n1 = 31 + int n"
    using p_fls_step [OF n(2) _ _ _ fls_masks(1) s1] by auto
  obtain n2 where n2: "highest_at x2 n2" "24 \<le> n2" "r2 + int n2 = r1 + int n1"
    using p_fls_step [OF n1(1) _ _ _ fls_masks(2) s2] n1(2) by auto
  obtain n3 where n3: "highest_at x3 n3" "28 \<le> n3" "r3 + int n3 = r2 + int n2"
    using p_fls_step [OF n2(1) _ _ _ fls_masks(3) s3] n2(2) by auto
  obtain n4 where n4: "highest_at x4 n4" "30 \<le> n4" "r4 + int n4 = r3 + int n3"
    using p_fls_step [OF n3(1) _ _ _ fls_masks(4) s4] n3(2) by auto
  obtain n5 where n5: "highest_at x5 n5" "31 \<le> n5" "r5 + int n5 = r4 + int n4"
    using p_fls_step [OF n4(1) _ _ _ fls_masks(5) s5] n4(2) by auto
  have "n5 < 32" using n5(1) word32_bit_cases by (auto simp: highest_at_def)
  moreover have "p_fls x = r5" using assms s1 s2 s3 s4 s5 by (simp add: p_fls_def)
  ultimately have "p_fls x = int n" using n1(3) n2(3) n3(3) n4(3) n5(2,3) by simp
  then show ?thesis using n by blast
qed

section \<open>One-word bitmaps\<close>

definition clearbitmap :: u32 where "clearbitmap = 0"

definition setbitmap :: u32 where "setbitmap = NOT 0"

definition setbit :: "u32 \<Rightarrow> nat \<Rightarrow> u32" where
  "setbit bitmap b = bitmap OR push_bit b 1"

definition clearbit :: "u32 \<Rightarrow> nat \<Rightarrow> u32" where
  "clearbit bitmap b = bitmap AND NOT (push_bit b 1)"

definition isbitset :: "u32 \<Rightarrow> nat \<Rightarrow> u32" where
  "isbitset bitmap b = bitmap AND push_bit b 1"

text \<open>XtratuM's bitmap.h: the pending events that the mask lets through.\<close>

definition get_domain_pending_events :: "u32 \<Rightarrow> u32 \<Rightarrow> u32" where
  "get_domain_pending_events pending msk = NOT msk AND pending"

text \<open>The macro yields the position and updates the pending word.\<close>

definition get_next_set_bit_and_clear :: "u32 \<Rightarrow> u32 \<Rightarrow> int \<times> u32" where
  "get_next_set_bit_and_clear pending msk =
     (let pos = bsf_ffs (get_domain_pending_events pending msk)
      in if pos \<noteq> -1 then (pos, clearbit pending (nat pos)) else (pos, pending))"

definition bits :: "u32 \<Rightarrow> nat set" where "bits w = {n. bit w n}"

lemma bits_bound: "bits w \<subseteq> {..<32}"
  by (auto simp: bits_def dest: word32_bit_cases)

lemma finite_bits [simp, intro]: "finite (bits w)"
  using bits_bound finite_subset by blast

lemma bits_clearbitmap [simp]: "bits clearbitmap = {}" "bits 0 = {}"
  by (simp_all add: bits_def clearbitmap_def)

lemma bits_setbitmap [simp]: "bits setbitmap = {..<32}"
  by (auto simp: bits_def setbitmap_def bit_not_iff)

lemma bits_setbit [simp]: "b < 32 \<Longrightarrow> bits (setbit w b) = insert b (bits w)"
  by (auto simp: bits_def setbit_def bit_or_iff bit_one_shift_iff simp del: push_bit_of_1)

lemma bits_clearbit [simp]: "b < 32 \<Longrightarrow> bits (clearbit w b) = bits w - {b}"
  using bits_bound [of w]
  by (auto simp: bits_def clearbit_def bit_and_iff bit_not_iff bit_one_shift_iff
      simp del: push_bit_of_1)

lemma isbitset_iff [simp]: "isbitset w b \<noteq> 0 \<longleftrightarrow> b \<in> bits w"
proof -
  have "isbitset w b \<noteq> 0 \<longleftrightarrow> (\<exists>n. bit (isbitset w b) n)"
    by (metis bit_0_eq bot_apply bot_bool_def word_nonzero_bit)
  also have "\<dots> \<longleftrightarrow> b \<in> bits w"
    using word32_bit_cases [of w b]
    by (auto simp: isbitset_def bits_def bit_and_iff bit_one_shift_iff simp del: push_bit_of_1)
  finally show ?thesis .
qed

lemma isbitset_zero_iff [simp]: "isbitset w b = 0 \<longleftrightarrow> b \<notin> bits w"
  using isbitset_iff by blast

lemma bits_empty_iff [simp]: "bits w = {} \<longleftrightarrow> w = 0"
  using word_nonzero_bit [of w] by (auto simp: bits_def)

lemma bits_pending [simp]: "bits (get_domain_pending_events p m) = bits p - bits m"
  using bits_bound [of p]
  by (auto simp: bits_def get_domain_pending_events_def bit_and_iff bit_not_iff)

lemma lowest_at_Min: "lowest_at w n \<longleftrightarrow> w \<noteq> 0 \<and> n = Min (bits w)"
proof
  assume l: "lowest_at w n"
  then have "n \<in> bits w" "\<forall>m\<in>bits w. n \<le> m"
    by (auto simp: lowest_at_def bits_def not_less [symmetric])
  then show "w \<noteq> 0 \<and> n = Min (bits w)"
    using Min_eqI [of "bits w" n] by (auto simp: bits_def)
next
  assume a: "w \<noteq> 0 \<and> n = Min (bits w)"
  then have "n \<in> bits w" using Min_in [of "bits w"] by simp
  moreover have "m < n \<Longrightarrow> m \<notin> bits w" for m
    using a Min_le [of "bits w" m] by auto
  ultimately show "lowest_at w n" by (auto simp: lowest_at_def bits_def)
qed

lemma bsf_ffs_Min: "w \<noteq> 0 \<Longrightarrow> bsf_ffs w = int (Min (bits w))"
  using bsf_ffs_lowest lowest_at_Min by blast

lemma p_ffs_Min: "w \<noteq> 0 \<Longrightarrow> p_ffs w = int (Min (bits w))"
  by (simp add: p_ffs_eq_bsf bsf_ffs_Min)

lemma p_fls_Max:
  assumes "w \<noteq> 0"
  shows "p_fls w = int (Max (bits w))"
proof -
  obtain n where n: "highest_at w n" "p_fls w = int n" using p_fls_highest [OF assms] by blast
  then have "Max (bits w) = n"
    by (intro Max_eqI) (auto simp: highest_at_def bits_def not_less [symmetric])
  then show ?thesis using n by simp
qed

lemma next_set_bit_none:
  "bits p - bits m = {} \<Longrightarrow> get_next_set_bit_and_clear p m = (-1, p)"
  using bits_pending [of p m] bits_empty_iff [of "get_domain_pending_events p m"]
  by (simp add: get_next_set_bit_and_clear_def Let_def)

lemma next_set_bit_some:
  assumes "bits p - bits m \<noteq> {}"
  shows "\<exists>n<32. n = Min (bits p - bits m) \<and> n \<in> bits p - bits m \<and>
           get_next_set_bit_and_clear p m = (int n, clearbit p n)"
proof -
  let ?w = "get_domain_pending_events p m" and ?n = "Min (bits p - bits m)"
  have w: "?w \<noteq> 0" using assms bits_pending bits_empty_iff by metis
  have "?n \<in> bits p - bits m" using assms by (intro Min_in) auto
  moreover from this have "?n < 32" using bits_bound by blast
  moreover have "bsf_ffs ?w = int ?n" using bsf_ffs_Min [OF w] by simp
  ultimately show ?thesis
    by (intro exI [of _ ?n]) (simp add: get_next_set_bit_and_clear_def Let_def)
qed

section \<open>Bitmaps of arbitrary length\<close>

record cbitmap_t =
  cb_array :: "u32 list"
  cb_nbits :: nat

definition ARRAY_SIZE :: "nat \<Rightarrow> nat" where
  "ARRAY_SIZE b = (if b mod 32 \<noteq> 0 then b div 32 + 1 else b div 32)"

text \<open>memset over the first n words of the buffer.\<close>

definition fill :: "nat \<Rightarrow> u32 \<Rightarrow> u32 list \<Rightarrow> u32 list option" where
  "fill n v buf = (if n \<le> length buf then Some (replicate n v @ drop n buf) else None)"

definition init_cbitmap :: "u32 list \<Rightarrow> nat \<Rightarrow> cbitmap_t option" where
  "init_cbitmap buffer nbits = do {
     a \<leftarrow> fill (ARRAY_SIZE nbits) 0 buffer;
     Some \<lparr>cb_array = a, cb_nbits = nbits\<rparr> }"

definition clear_cbitmap :: "cbitmap_t \<Rightarrow> cbitmap_t option" where
  "clear_cbitmap b = do {
     a \<leftarrow> fill (ARRAY_SIZE (cb_nbits b)) 0 (cb_array b);
     Some (b\<lparr>cb_array := a\<rparr>) }"

definition set_cbitmap :: "cbitmap_t \<Rightarrow> cbitmap_t option" where
  "set_cbitmap b = do {
     a \<leftarrow> fill (ARRAY_SIZE (cb_nbits b)) (NOT 0) (cb_array b);
     Some (b\<lparr>cb_array := a\<rparr>) }"

definition setbit_cbitmap :: "cbitmap_t \<Rightarrow> nat \<Rightarrow> (int \<times> cbitmap_t) option" where
  "setbit_cbitmap b bitp =
    (let a_entry = bitp div 32; n = bitp mod 32 in
     if bitp \<ge> cb_nbits b then Some (-1, b)
     else do {
       w \<leftarrow> rd (cb_array b) a_entry;
       a \<leftarrow> wr (cb_array b) a_entry (setbit w n);
       Some (0, b\<lparr>cb_array := a\<rparr>) })"

definition clearbit_cbitmap :: "cbitmap_t \<Rightarrow> nat \<Rightarrow> (int \<times> cbitmap_t) option" where
  "clearbit_cbitmap b bitp =
    (let a_entry = bitp div 32; n = bitp mod 32 in
     if bitp \<ge> cb_nbits b then Some (-1, b)
     else do {
       w \<leftarrow> rd (cb_array b) a_entry;
       a \<leftarrow> wr (cb_array b) a_entry (clearbit w n);
       Some (0, b\<lparr>cb_array := a\<rparr>) })"

definition isbitset_cbitmap :: "cbitmap_t \<Rightarrow> nat \<Rightarrow> u32 option" where
  "isbitset_cbitmap b bitp =
    (let a_entry = bitp div 32; n = bitp mod 32 in
     if bitp \<ge> cb_nbits b then Some 0
     else do {
       w \<leftarrow> rd (cb_array b) a_entry;
       Some (isbitset w n) })"

text \<open>The loop of findfbs from word a_entry on.\<close>

function findfbs_loop :: "cbitmap_t \<Rightarrow> nat \<Rightarrow> int option" where
  "findfbs_loop b a_entry =
    (if a_entry < ARRAY_SIZE (cb_nbits b)
     then case rd (cb_array b) a_entry of
            None \<Rightarrow> None
          | Some w \<Rightarrow> if w = 0 then findfbs_loop b (a_entry + 1)
                      else Some (bsf_ffs w + int a_entry * 32)
     else Some (-1))"
  by pat_completeness auto
termination
  by (relation "measure (\<lambda>(b, a). ARRAY_SIZE (cb_nbits b) - a)") auto

declare findfbs_loop.simps [simp del]

definition findfbs_cbitmap :: "cbitmap_t \<Rightarrow> int option" where
  "findfbs_cbitmap b = findfbs_loop b 0"

text \<open>
  findnbs reads the word before it compares the index with the size, and
  starts with the following word when the bit offset is 0, as the code does.
\<close>

function findnbs_loop :: "cbitmap_t \<Rightarrow> nat \<Rightarrow> nat option" where
  "findnbs_loop b a_entry =
    (case rd (cb_array b) a_entry of
       None \<Rightarrow> None
     | Some w \<Rightarrow> if w = 0 \<and> a_entry < ARRAY_SIZE (cb_nbits b)
                 then findnbs_loop b (a_entry + 1) else Some a_entry)"
  by pat_completeness auto
termination
  by (relation "measure (\<lambda>(b, a). ARRAY_SIZE (cb_nbits b) - a)") auto

declare findnbs_loop.simps [simp del]

partial_function (option) skip_zeros :: "nat \<Rightarrow> u32 \<Rightarrow> nat \<Rightarrow> (u32 \<times> nat) option" where
  "skip_zeros k tmp n =
    (if tmp AND mask k = 0 then skip_zeros k (drop_bit k tmp) (n + k) else Some (tmp, n))"

declare skip_zeros.simps [code]

definition findnbs_finish :: "nat \<Rightarrow> nat \<Rightarrow> u32 \<Rightarrow> int option" where
  "findnbs_finish a_entry n tmp = do {
     (tmp1, n1) \<leftarrow> skip_zeros 8 tmp (n + a_entry * 32);
     (tmp2, n2) \<leftarrow> skip_zeros 1 tmp1 n1;
     Some (int n2) }"

definition findnbs_cbitmap :: "cbitmap_t \<Rightarrow> int \<Rightarrow> int option" where
  "findnbs_cbitmap b bitp0 =
    (let bitp = bitp0 + 1 in
     if bitp < 0 \<or> nat bitp \<ge> cb_nbits b then Some (-1)
     else
       let a_entry = nat bitp div 32; n = nat bitp mod 32;
           search = do {
             a \<leftarrow> findnbs_loop b (a_entry + 1);
             if a \<ge> ARRAY_SIZE (cb_nbits b) then Some (-1)
             else do { w \<leftarrow> rd (cb_array b) a; findnbs_finish a 0 w } }
       in if n \<noteq> 0 then do {
            w \<leftarrow> rd (cb_array b) a_entry;
            if drop_bit n w \<noteq> 0 then findnbs_finish a_entry n (drop_bit n w) else search }
          else search)"

text \<open>
  The set a bitmap stands for, and well-formedness: the buffer has the words
  the size asks for and no bit is set past the size.
\<close>

definition cb_set :: "cbitmap_t \<Rightarrow> nat set" where
  "cb_set b = {n. n < cb_nbits b \<and> bit (cb_array b ! (n div 32)) (n mod 32)}"

definition wf_cbitmap :: "cbitmap_t \<Rightarrow> bool" where
  "wf_cbitmap b \<longleftrightarrow> ARRAY_SIZE (cb_nbits b) \<le> length (cb_array b) \<and>
     (\<forall>k<ARRAY_SIZE (cb_nbits b). \<forall>n<32. bit (cb_array b ! k) n \<longrightarrow> k * 32 + n < cb_nbits b)"

lemma ARRAY_SIZE_word:
  assumes "n < k"
  shows "n div 32 < ARRAY_SIZE k"
proof -
  have "n div 32 \<le> k div 32" using assms by (simp add: div_le_mono)
  moreover have "n div 32 \<noteq> k div 32" if "k mod 32 = 0"
    using assms that div_mult_mod_eq [of n 32] div_mult_mod_eq [of k 32] by linarith
  ultimately show ?thesis unfolding ARRAY_SIZE_def by auto
qed

lemma word_pos_less:
  fixes k :: nat
  assumes "k < a * 32 + n" "n < 32"
  shows "k div 32 < a \<or> k div 32 = a \<and> k mod 32 < n"
proof (cases "k div 32 < a")
  case False
  then have "32 * a \<le> 32 * (k div 32)" by simp
  moreover have "k = 32 * (k div 32) + k mod 32" by simp
  ultimately show ?thesis
  proof (cases "k div 32 = a")
    case False
    then have "Suc a \<le> k div 32" using \<open>\<not> k div 32 < a\<close> by simp
    then have "32 * Suc a \<le> k" by (metis div_greater_zero_iff div_times_less_eq_dividend le_trans mult.commute mult_le_mono2)
    then show ?thesis using assms by simp
  qed (use assms(1) in linarith)
qed simp

lemma wf_cbitmap_index: "wf_cbitmap b \<Longrightarrow> n < cb_nbits b \<Longrightarrow> n div 32 < length (cb_array b)"
  using ARRAY_SIZE_word unfolding wf_cbitmap_def by (meson order_less_le_trans)

lemma init_cbitmap_wf:
  assumes "ARRAY_SIZE n \<le> length buf"
  shows "\<exists>b. init_cbitmap buf n = Some b \<and> wf_cbitmap b \<and> cb_nbits b = n \<and> cb_set b = {}"
proof -
  let ?b = "\<lparr>cb_array = replicate (ARRAY_SIZE n) 0 @ drop (ARRAY_SIZE n) buf, cb_nbits = n\<rparr>"
  have "init_cbitmap buf n = Some ?b" using assms by (simp add: init_cbitmap_def fill_def)
  moreover have "wf_cbitmap ?b" using assms by (simp add: wf_cbitmap_def nth_append)
  moreover have "cb_set ?b = {}"
    using ARRAY_SIZE_word by (auto simp: cb_set_def nth_append)
  ultimately show ?thesis by (intro exI [of _ ?b]) simp
qed

text \<open>Both updates of a bit are one lemma on the word that changes.\<close>

lemma cb_update:
  assumes wf: "wf_cbitmap b" and n: "n < cb_nbits b"
    and w: "\<And>m. m < 32 \<Longrightarrow> m \<noteq> n mod 32 \<Longrightarrow> bit w m = bit (cb_array b ! (n div 32)) m"
    and b': "b' = b\<lparr>cb_array := (cb_array b)[n div 32 := w]\<rparr>"
  shows "wf_cbitmap b'"
    and "cb_set b' = (if bit w (n mod 32) then insert n (cb_set b) else cb_set b - {n})"
proof -
  have l: "n div 32 < length (cb_array b)" using wf_cbitmap_index wf n .
  have own: "k * 32 + m < cb_nbits b" if "bit ((cb_array b)[n div 32 := w] ! k) m" "m < 32"
    "k < ARRAY_SIZE (cb_nbits b)" for k m
  proof (cases "k = n div 32 \<and> m = n mod 32")
    case True
    then show ?thesis using n by (simp add: mult.commute)
  next
    case False
    then have "bit (cb_array b ! k) m"
      using that l w [of m] by (cases "k = n div 32") (auto simp: nth_list_update)
    then show ?thesis using wf that by (simp add: wf_cbitmap_def)
  qed
  then show "wf_cbitmap b'" using wf by (auto simp: wf_cbitmap_def b')
  have ne: "bit ((cb_array b)[n div 32 := w] ! (k div 32)) (k mod 32) =
        bit (cb_array b ! (k div 32)) (k mod 32)" if "k \<noteq> n" for k
  proof (cases "k div 32 = n div 32")
    case True
    then have "k mod 32 \<noteq> n mod 32" using that by (metis div_mult_mod_eq)
    then show ?thesis using True l w by simp
  next
    case False
    then show ?thesis by simp
  qed
  show "cb_set b' = (if bit w (n mod 32) then insert n (cb_set b) else cb_set b - {n})"
  proof (rule set_eqI)
    fix k
    show "k \<in> cb_set b' \<longleftrightarrow>
          k \<in> (if bit w (n mod 32) then insert n (cb_set b) else cb_set b - {n})"
      using ne [of k] l n by (cases "k = n") (auto simp: cb_set_def b')
  qed
qed

lemma bit_setbit: "b < 32 \<Longrightarrow> bit (setbit w b) m \<longleftrightarrow> m = b \<or> bit w m"
  using bits_setbit [of b w] by (auto simp: bits_def)

lemma bit_clearbit: "b < 32 \<Longrightarrow> bit (clearbit w b) m \<longleftrightarrow> m \<noteq> b \<and> bit w m"
  using bits_clearbit [of b w] by (auto simp: bits_def)

lemma setbit_cbitmap_ok:
  assumes "wf_cbitmap b" "n < cb_nbits b"
  shows "\<exists>b'. setbit_cbitmap b n = Some (0, b') \<and> wf_cbitmap b' \<and>
              cb_nbits b' = cb_nbits b \<and> cb_set b' = insert n (cb_set b)"
proof -
  let ?w = "setbit (cb_array b ! (n div 32)) (n mod 32)"
  let ?b = "b\<lparr>cb_array := (cb_array b)[n div 32 := ?w]\<rparr>"
  note u = cb_update [OF assms, of ?w ?b, OF _ refl]
  have "wf_cbitmap ?b" by (rule u) (simp add: bit_setbit)
  moreover have "cb_set ?b = insert n (cb_set b)"
    by (subst u(2)) (simp_all add: bit_setbit)
  ultimately show ?thesis using assms wf_cbitmap_index [OF assms]
    by (intro exI [of _ ?b]) (simp add: setbit_cbitmap_def Let_def)
qed

lemma clearbit_cbitmap_ok:
  assumes "wf_cbitmap b" "n < cb_nbits b"
  shows "\<exists>b'. clearbit_cbitmap b n = Some (0, b') \<and> wf_cbitmap b' \<and>
              cb_nbits b' = cb_nbits b \<and> cb_set b' = cb_set b - {n}"
proof -
  let ?w = "clearbit (cb_array b ! (n div 32)) (n mod 32)"
  let ?b = "b\<lparr>cb_array := (cb_array b)[n div 32 := ?w]\<rparr>"
  note u = cb_update [OF assms, of ?w ?b, OF _ refl]
  have "wf_cbitmap ?b" by (rule u) (simp add: bit_clearbit)
  moreover have "cb_set ?b = cb_set b - {n}"
    by (subst u(2)) (simp_all add: bit_clearbit)
  ultimately show ?thesis using assms wf_cbitmap_index [OF assms]
    by (intro exI [of _ ?b]) (simp add: clearbit_cbitmap_def Let_def)
qed

lemma isbitset_cbitmap_ok:
  assumes "wf_cbitmap b"
  shows "\<exists>v. isbitset_cbitmap b n = Some v \<and> (v \<noteq> 0 \<longleftrightarrow> n \<in> cb_set b)"
  using wf_cbitmap_index [OF assms]
  by (auto simp: isbitset_cbitmap_def Let_def cb_set_def bits_def)

lemma findfbs_loop_ok:
  "wf_cbitmap b \<Longrightarrow> (\<forall>k<a. k < ARRAY_SIZE (cb_nbits b) \<longrightarrow> cb_array b ! k = 0) \<Longrightarrow>
   findfbs_loop b a = Some (if cb_set b = {} then -1 else int (Min (cb_set b)))"
proof (induction b a rule: findfbs_loop.induct)
  case (1 b a)
  note wf = "1.prems"(1) and zero = "1.prems"(2)
  let ?n = "ARRAY_SIZE (cb_nbits b)" and ?w = "cb_array b ! a"
  show ?case
  proof (cases "a < ?n")
    case False
    then have "cb_array b ! (k div 32) = 0" if "k < cb_nbits b" for k
      using zero ARRAY_SIZE_word [OF that] by auto
    then have "cb_set b = {}" by (auto simp: cb_set_def)
    then show ?thesis using False by (simp add: findfbs_loop.simps [of b a])
  next
    case True
    then have r: "rd (cb_array b) a = Some ?w" using wf by (simp add: wf_cbitmap_def)
    show ?thesis
    proof (cases "?w = 0")
      case True
      then have "\<forall>k<a + 1. k < ?n \<longrightarrow> cb_array b ! k = 0" using zero less_Suc_eq by auto
      from "1.IH" [OF \<open>a < ?n\<close> r True wf this] show ?thesis
        using \<open>a < ?n\<close> r True by (simp add: findfbs_loop.simps [of b a])
    next
      case False
      then obtain n where n: "n < 32" "bsf_ffs ?w = int n" "lowest_at ?w n"
        using bsf_ffs_range by blast
      let ?m = "a * 32 + n"
      have dm: "?m div 32 = a" "?m mod 32 = n" using n(1) by simp_all
      have b: "bit ?w n" using n(3) by (simp add: lowest_at_def)
      then have "?m < cb_nbits b" using wf True n(1) by (simp add: wf_cbitmap_def)
      then have m_in: "?m \<in> cb_set b" using b dm by (simp add: cb_set_def)
      have low: "?m \<le> k" if k: "k \<in> cb_set b" for k
      proof (rule ccontr)
        assume "\<not> ?m \<le> k"
        then have lt: "k < ?m" by simp
        have kb: "bit (cb_array b ! (k div 32)) (k mod 32)" "k < cb_nbits b"
          using k by (simp_all add: cb_set_def)
        from lt n(1) have "k div 32 < a \<or> k div 32 = a \<and> k mod 32 < n" by (rule word_pos_less)
        then show False
        proof
          assume "k div 32 < a"
          then show False using zero kb ARRAY_SIZE_word [OF kb(2)] by auto
        next
          assume "k div 32 = a \<and> k mod 32 < n"
          then show False using n(3) kb by (auto simp: lowest_at_def)
        qed
      qed
      have "finite (cb_set b)" by (simp add: cb_set_def)
      then have "Min (cb_set b) = ?m" using m_in low by (intro Min_eqI) auto
      then show ?thesis using True r False n m_in
        by (auto simp: findfbs_loop.simps [of b a])
    qed
  qed
qed

text \<open>findfbs returns the least element of the set, -1 when it is empty.\<close>

lemma findfbs_cbitmap_ok:
  "wf_cbitmap b \<Longrightarrow>
   findfbs_cbitmap b = Some (if cb_set b = {} then -1 else int (Min (cb_set b)))"
  by (simp add: findfbs_cbitmap_def findfbs_loop_ok)

lemma skip_zeros_stop: "tmp AND mask k \<noteq> 0 \<Longrightarrow> skip_zeros k tmp n = Some (tmp, n)"
  by (subst skip_zeros.simps) simp

lemma skip_zeros_step:
  "tmp AND mask k = 0 \<Longrightarrow> skip_zeros k tmp n = skip_zeros k (drop_bit k tmp) (n + k)"
  by (subst skip_zeros.simps) simp

text \<open>Both loops of findnbs end on a non-zero word, at a lower set bit.\<close>

lemma skip_zeros_ok:
  assumes "lowest_at tmp l" "0 < k"
  shows "\<exists>tmp' j. skip_zeros k tmp n = Some (tmp', n + j * k) \<and> l div k = j \<and>
           lowest_at tmp' (l mod k)"
  using assms
proof (induction l arbitrary: tmp n rule: less_induct)
  case (less l)
  show ?case
  proof (cases "tmp AND mask k = 0")
    case True
    then have z: "\<forall>m<k. \<not> bit tmp m"
      by (simp add: take_bit_eq_mask [symmetric] take_bit_zero_iff_bits)
    with less.prems have ge: "k \<le> l" by (metis lowest_at_def not_le)
    have low: "lowest_at (drop_bit k tmp) (l - k)"
      using less.prems ge by (auto simp: lowest_at_def bit_drop_bit_eq)
    obtain tmp' j where ih: "skip_zeros k (drop_bit k tmp) (n + k) = Some (tmp', n + k + j * k)"
      "(l - k) div k = j" "lowest_at tmp' ((l - k) mod k)"
      using less.IH [OF _ low less.prems(2), of "n + k"] ge less.prems(2) by auto
    have "l div k = Suc j" "l mod k = (l - k) mod k"
      using ih(2) ge less.prems(2) by (simp_all add: le_div_geq le_mod_geq)
    then show ?thesis using ih skip_zeros_step [OF True]
      by (intro exI [of _ tmp'] exI [of _ "Suc j"]) (simp add: algebra_simps)
  next
    case False
    then have "\<exists>m<k. bit tmp m"
      by (simp add: take_bit_eq_mask [symmetric] take_bit_zero_iff_bits)
    then have "l < k" using less.prems unfolding lowest_at_def by (meson le_less_trans not_le)
    then show ?thesis using skip_zeros_stop [OF False] less.prems
      by (intro exI [of _ tmp] exI [of _ 0]) simp
  qed
qed

lemma findnbs_finish_ok:
  assumes "lowest_at tmp l"
  shows "findnbs_finish a n tmp = Some (int (a * 32 + n + l))"
proof -
  obtain t1 where 1: "skip_zeros 8 tmp (n + a * 32) = Some (t1, n + a * 32 + l div 8 * 8)"
    "lowest_at t1 (l mod 8)"
    using skip_zeros_ok [OF assms, of 8] by auto
  obtain t2 where 2: "skip_zeros 1 t1 (n + a * 32 + l div 8 * 8) =
    Some (t2, n + a * 32 + l div 8 * 8 + l mod 8)"
    using skip_zeros_ok [OF 1(2), of 1 "n + a * 32 + l div 8 * 8"] by auto
  show ?thesis using 1 2 by (simp add: findnbs_finish_def)
qed

text \<open>findnbs is right when the next set bit is in the same word.\<close>

lemma findnbs_same_word:
  assumes wf: "wf_cbitmap b" and k: "k \<in> cb_set b" and i: "i + 1 \<le> k"
    and least: "\<forall>j\<in>cb_set b. i < j \<longrightarrow> k \<le> j"
    and same: "k div 32 = (i + 1) div 32" and off: "(i + 1) mod 32 \<noteq> 0"
  shows "findnbs_cbitmap b (int i) = Some (int k)"
proof -
  let ?a = "(i + 1) div 32" and ?n = "(i + 1) mod 32"
  have kn: "k < cb_nbits b" "bit (cb_array b ! ?a) (k mod 32)"
    using k same by (simp_all add: cb_set_def)
  have len: "?a < length (cb_array b)" using wf_cbitmap_index [OF wf kn(1)] same by simp
  have le: "?n \<le> k mod 32" using i same
    by (metis add_le_cancel_left div_mult_mod_eq)
  have low: "lowest_at (drop_bit ?n (cb_array b ! ?a)) (k mod 32 - ?n)"
    unfolding lowest_at_def
  proof (intro conjI allI impI)
    show "bit (drop_bit ?n (cb_array b ! ?a)) (k mod 32 - ?n)"
      using kn le by (simp add: bit_drop_bit_eq)
    fix m assume m: "m < k mod 32 - ?n"
    let ?j = "?a * 32 + (?n + m)"
    have n32: "?n + m < 32" using m mod_less_divisor [of 32 k] by linarith
    have "?j < ?a * 32 + k mod 32" using m by linarith
    then have "?j < k" using same by (metis div_mult_mod_eq)
    moreover have "i < ?j" using div_mult_mod_eq [of "i + 1" 32] by linarith
    ultimately have "?j \<notin> cb_set b" using least by auto
    moreover have "?j div 32 = ?a" "?j mod 32 = ?n + m"
      using n32 by (simp_all only: div_mult_self3 mod_mult_self3) simp_all
    ultimately have "\<not> bit (cb_array b ! ?a) (?n + m)"
      using \<open>?j < k\<close> kn(1) unfolding cb_set_def by simp
    then show "\<not> bit (drop_bit ?n (cb_array b ! ?a)) m" by (simp add: bit_drop_bit_eq)
  qed
  then have nz: "drop_bit ?n (cb_array b ! ?a) \<noteq> 0" by (auto simp: lowest_at_def)
  have "?a * 32 + ?n + (k mod 32 - ?n) = k" using le same
    by (metis add.assoc add_diff_inverse_nat div_mult_mod_eq not_less)
  then have fin: "findnbs_finish ?a ?n (drop_bit ?n (cb_array b ! ?a)) = Some (int k)"
    using findnbs_finish_ok [OF low, of ?a ?n] by simp
  have e: "int i + 1 = int (i + 1)" and in_b: "i + 1 < cb_nbits b" using i kn by simp_all
  show ?thesis
    unfolding findnbs_cbitmap_def Let_def e nat_int
    using fin nz len off in_b by simp
qed

text \<open>
  When the search starts at a word boundary the first word is skipped: bit 32
  is set, and the bit after 31 is reported to be 64.
\<close>

lemma findnbs_skips_word:
  "findnbs_cbitmap \<lparr>cb_array = [0, 1, 1], cb_nbits = 96\<rparr> 31 = Some 64 \<and>
   32 \<in> cb_set \<lparr>cb_array = [0, 1, 1], cb_nbits = 96\<rparr>"
proof -
  let ?b = "\<lparr>cb_array = [0, 1, 1 :: u32], cb_nbits = 96\<rparr>"
  have l: "lowest_at 1 0" by (simp add: lowest_at_def)
  have "findnbs_loop ?b (Suc (Suc 0)) = Some 2" by (simp add: findnbs_loop.simps)
  then have "findnbs_cbitmap ?b 31 = Some 64"
    using findnbs_finish_ok [OF l, of 2 0]
    by (simp add: findnbs_cbitmap_def ARRAY_SIZE_def Let_def)
  moreover have "32 \<in> cb_set ?b" by (simp add: cb_set_def)
  ultimately show ?thesis by simp
qed

lemma find_rev_upt: "List.find P (rev [0..<n]) = Some k \<longleftrightarrow> k < n \<and> P k \<and> (\<forall>j<n. k < j \<longrightarrow> \<not> P j)"
  by (induction n) (auto simp: less_Suc_eq)

lemma p_fls_eq_bsr: "bsr_fls x = p_fls x"
proof (cases "x = 0")
  case True
  have "List.find (\<lambda>n. False) xs = None" for xs :: "nat list" by (induction xs) auto
  then show ?thesis using True by (simp add: bsr_fls_def p_fls_def)
next
  case False
  then obtain n where n: "n < 32" "highest_at x n" "p_fls x = int n" using p_fls_highest by blast
  then have "List.find (bit x) (rev [0..<32]) = Some n"
    by (simp add: find_rev_upt highest_at_def)
  then show ?thesis using n by (simp add: bsr_fls_def)
qed

section \<open>Properties\<close>

text \<open>C27: the portable bit scans (shift and mask) and the ones written with the bsf and bsr
  instructions agree on every word: the least and the greatest bit set, -1 for the word 0.\<close>
theorem bit_scans_exact:
  "p_ffs x = (if x = 0 then -1 else int (Min (bits x))) \<and> bsf_ffs x = p_ffs x \<and>
   p_fls x = (if x = 0 then -1 else int (Max (bits x))) \<and> bsr_fls x = p_fls x"
  by (simp add: p_ffs_Min p_ffs_eq_bsf bsf_ffs_Min p_fls_Max p_fls_eq_bsr)
    (simp add: p_fls_def)

text \<open>After setbit_cbitmap within the bounds of a well-formed bitmap of any length,
  findfbs_cbitmap finds the least bit of the set, the new bit included, without leaving the
  array.\<close>
theorem cbitmap_set_then_first:
  assumes "wf_cbitmap b" "n < cb_nbits b"
  shows "\<exists>b'. setbit_cbitmap b n = Some (0, b') \<and> wf_cbitmap b' \<and>
     findfbs_cbitmap b' = Some (int (Min (insert n (cb_set b))))"
proof -
  obtain b' where "setbit_cbitmap b n = Some (0, b')" "wf_cbitmap b'" "cb_set b' = insert n (cb_set b)"
    using setbit_cbitmap_ok [OF assms] by blast
  then show ?thesis using findfbs_cbitmap_ok [of b'] by (intro exI [of _ b']) simp
qed

lemma cbitmap_set_then_first_witness:
  "\<exists>b'. setbit_cbitmap \<lparr>cb_array = [0, 0, 0], cb_nbits = 80\<rparr> 70 = Some (0, b') \<and> wf_cbitmap b' \<and>
     findfbs_cbitmap b' = Some (int (Min (insert 70 (cb_set \<lparr>cb_array = [0, 0, 0], cb_nbits = 80\<rparr>))))"
proof (rule cbitmap_set_then_first)
  have "k < 3 \<Longrightarrow> [0, 0, 0 :: u32] ! k = 0" for k by (cases k; cases "k - 1"; cases "k - 2"; simp add: nth_Cons')
  then show "wf_cbitmap \<lparr>cb_array = [0, 0, 0], cb_nbits = 80\<rparr>"
    by (simp add: wf_cbitmap_def ARRAY_SIZE_def)
qed simp

text \<open>Findnbs_cbitmap skips a whole word when the search starts at a word boundary: in the
  bitmap with bits 32 and 64 set, the bit after 31 is reported to be 64.\<close>
theorem findnbs_misses_bit:
  "\<exists>b. 32 \<in> cb_set b \<and> cb_nbits b = 96 \<and> findnbs_cbitmap b 31 = Some 64"
  using findnbs_skips_word by (intro exI [of _ "\<lparr>cb_array = [0, 1, 1], cb_nbits = 96\<rparr>"]) simp

end
