(* ===== verification/XDomain.thy ===== *)
theory XDomain
  imports Links XHeap Bitops
begin

unbundle bit_operations_syntax

text \<open>
  XtratuM's domains: event_handling_t, time_inf_t and domain_t
  (include/events.h, timer.h, domain.h), the state of the nanokernel, the
  domain list of domain.h, and the creation and destruction of nodes of
  kernel/domain.c.  Domains live in a store indexed by addresses; a pointer is
  an optional address.  A domain owns its event structure, so the events
  pointer is the structure itself, None for NULL.
\<close>

section \<open>Data\<close>

definition MAX_EVENTS :: nat where "MAX_EVENTS = 32"

record event_handling_t =
  intercepted_events :: u32
  masked_events :: u32
  pending_events :: u32
  event_handler :: "nat option list"
  trap_handler :: "nat option list"
  event_flags :: u32
  ev_heap :: nat
  ev_heap_size :: nat
  fctladdr :: nat
  fdataddr :: "nat list"
  shmctladdr :: nat
  shmdataddr :: "nat list"
  serialaddr :: nat

record time_inf_t =
  hwtime :: time_ns
  period :: time_ns

record domain_t =
  dsstack :: nat
  dpd :: nat
  dsstack_st :: nat
  dname :: string
  did :: int
  priority :: nat
  dflags :: u32
  events :: "event_handling_t option"
  events_user_addr :: nat
  dtime :: time_inf_t
  dheap :: nat
  mm_page_list :: "nat option"
  dprev :: "nat option"
  dnext :: "nat option"

text \<open>
  user is the memory of the domains, which only their own code changes;
  saved_if is the local hw_flags of the xm_sched frame on the stack of each
  domain that is switched out.
\<close>

record 'u xm_state =
  doms :: "nat \<Rightarrow> domain_t option"
  xm_domain_list :: "nat option"
  xm_current_domain :: nat
  xm_root_domain :: nat
  id_number :: int
  timer_heap :: "nat heap_t"
  hw_if :: bool
  cr3 :: nat
  saved_if :: "nat \<Rightarrow> bool"
  tracer_flag :: bool
  hw_interval :: time_ns
  user :: 'u

definition dom_at :: "'u xm_state \<Rightarrow> nat \<Rightarrow> domain_t option" where
  "dom_at st a = doms st a"

definition upd_dom :: "nat \<Rightarrow> (domain_t \<Rightarrow> domain_t) \<Rightarrow> 'u xm_state \<Rightarrow> 'u xm_state option" where
  "upd_dom a f st = do { d \<leftarrow> doms st a; Some (st\<lparr>doms := (doms st)(a \<mapsto> f d)\<rparr>) }"

definition ev_at :: "'u xm_state \<Rightarrow> nat \<Rightarrow> event_handling_t option" where
  "ev_at st a = do { d \<leftarrow> doms st a; events d }"

definition upd_ev :: "nat \<Rightarrow> (event_handling_t \<Rightarrow> event_handling_t) \<Rightarrow> 'u xm_state \<Rightarrow> 'u xm_state option" where
  "upd_ev a f st = do { e \<leftarrow> ev_at st a; upd_dom a (\<lambda>d. d\<lparr>events := Some (f e)\<rparr>) st }"

section \<open>Flags\<close>

definition STATE_MASK :: u32 where "STATE_MASK = 0xF"
definition DOMAIN_ACTIVE :: u32 where "DOMAIN_ACTIVE = 0"
definition DOMAIN_SUSPENDED :: u32 where "DOMAIN_SUSPENDED = 1"
definition DOMAIN_FINISHED :: u32 where "DOMAIN_FINISHED = 2"
definition EVENTS_ENABLED :: u32 where "EVENTS_ENABLED = 0x10"

definition set_domain_state :: "u32 \<Rightarrow> domain_t \<Rightarrow> domain_t" where
  "set_domain_state s d = d\<lparr>dflags := (dflags d AND NOT STATE_MASK) OR s\<rparr>"

definition get_domain_state :: "domain_t \<Rightarrow> u32" where
  "get_domain_state d = dflags d AND STATE_MASK"

definition enable_events_flag :: "event_handling_t \<Rightarrow> event_handling_t" where
  "enable_events_flag e = e\<lparr>event_flags := event_flags e OR EVENTS_ENABLED\<rparr>"

definition disable_events_flag :: "event_handling_t \<Rightarrow> event_handling_t" where
  "disable_events_flag e = e\<lparr>event_flags := event_flags e AND NOT EVENTS_ENABLED\<rparr>"

definition is_events_flag_enabled :: "event_handling_t \<Rightarrow> bool" where
  "is_events_flag_enabled e \<longleftrightarrow> event_flags e AND EVENTS_ENABLED \<noteq> 0"

lemma state_set_get:
  "s AND STATE_MASK = s \<Longrightarrow> get_domain_state (set_domain_state s d) = s"
  by (simp add: set_domain_state_def get_domain_state_def bit.conj_disj_distrib2 and.assoc)

lemma state_constants [simp]:
  "get_domain_state (set_domain_state DOMAIN_ACTIVE d) = DOMAIN_ACTIVE"
  "get_domain_state (set_domain_state DOMAIN_SUSPENDED d) = DOMAIN_SUSPENDED"
  "get_domain_state (set_domain_state DOMAIN_FINISHED d) = DOMAIN_FINISHED"
  by (simp_all add: state_set_get DOMAIN_ACTIVE_def DOMAIN_SUSPENDED_def DOMAIN_FINISHED_def STATE_MASK_def)

lemma state_distinct [simp]:
  "DOMAIN_ACTIVE \<noteq> DOMAIN_SUSPENDED" "DOMAIN_ACTIVE \<noteq> DOMAIN_FINISHED"
  "DOMAIN_SUSPENDED \<noteq> DOMAIN_FINISHED"
  "DOMAIN_SUSPENDED \<noteq> DOMAIN_ACTIVE" "DOMAIN_FINISHED \<noteq> DOMAIN_ACTIVE"
  "DOMAIN_FINISHED \<noteq> DOMAIN_SUSPENDED"
  by (simp_all add: DOMAIN_ACTIVE_def DOMAIN_SUSPENDED_def DOMAIN_FINISHED_def)

lemma set_domain_state_fields [simp]:
  "events (set_domain_state s d) = events d" "dnext (set_domain_state s d) = dnext d"
  "dprev (set_domain_state s d) = dprev d" "priority (set_domain_state s d) = priority d"
  "did (set_domain_state s d) = did d" "dtime (set_domain_state s d) = dtime d"
  by (simp_all add: set_domain_state_def)

lemma events_flag_simps [simp]:
  "is_events_flag_enabled (enable_events_flag e)"
  "\<not> is_events_flag_enabled (disable_events_flag e)"
proof -
  have "(w OR 0x10) AND 0x10 = (0x10 :: u32)" for w :: u32
    by (simp add: bit.conj_disj_distrib2 and.assoc)
  then show "is_events_flag_enabled (enable_events_flag e)"
    by (simp add: is_events_flag_enabled_def enable_events_flag_def EVENTS_ENABLED_def)
  show "\<not> is_events_flag_enabled (disable_events_flag e)"
    by (simp add: is_events_flag_enabled_def disable_events_flag_def EVENTS_ENABLED_def and.assoc)
qed

lemma events_flag_fields [simp]:
  "pending_events (enable_events_flag e) = pending_events e"
  "masked_events (enable_events_flag e) = masked_events e"
  "intercepted_events (enable_events_flag e) = intercepted_events e"
  "event_handler (enable_events_flag e) = event_handler e"
  "pending_events (disable_events_flag e) = pending_events e"
  "masked_events (disable_events_flag e) = masked_events e"
  "intercepted_events (disable_events_flag e) = intercepted_events e"
  "event_handler (disable_events_flag e) = event_handler e"
  by (simp_all add: enable_events_flag_def disable_events_flag_def)

section \<open>The domain list\<close>

partial_function (option) search_domain_id ::
  "int \<Rightarrow> (nat \<Rightarrow> domain_t option) \<Rightarrow> nat option \<Rightarrow> nat option option" where
  "search_domain_id i ds p1 =
    (case p1 of None \<Rightarrow> Some None
     | Some a \<Rightarrow> do { d \<leftarrow> ds a;
         if did d = i then Some (Some a) else search_domain_id i ds (dnext d) })"

declare search_domain_id.simps [code]

definition search_domain_id_list :: "int \<Rightarrow> 'u xm_state \<Rightarrow> nat option option" where
  "search_domain_id_list i st = search_domain_id i (doms st) (xm_domain_list st)"

partial_function (option) insert_walk ::
  "nat \<Rightarrow> (nat \<Rightarrow> domain_t option) \<Rightarrow> nat \<Rightarrow> nat option" where
  "insert_walk prio ds p1 = do {
     d \<leftarrow> ds p1;
     (case dnext d of None \<Rightarrow> Some p1
      | Some n \<Rightarrow> if prio < priority d then Some p1 else insert_walk prio ds n) }"

declare insert_walk.simps [code]

definition insert_domain_list :: "nat option \<Rightarrow> 'u xm_state \<Rightarrow> 'u xm_state option" where
  "insert_domain_list node0 st =
    (case xm_domain_list st of
       None \<Rightarrow> do {
         node \<leftarrow> deref node0;
         upd_dom node (\<lambda>d. d\<lparr>dprev := None, dnext := None\<rparr>) (st\<lparr>xm_domain_list := Some node\<rparr>) }
     | Some first \<Rightarrow> do {
         node \<leftarrow> deref node0;
         nd \<leftarrow> doms st node;
         p1 \<leftarrow> insert_walk (priority nd) (doms st) first;
         d1 \<leftarrow> doms st p1;
         if priority nd < priority d1 then do {
           st1 \<leftarrow> upd_dom node (\<lambda>d. d\<lparr>dnext := Some p1, dprev := dprev d1\<rparr>) st;
           st2 \<leftarrow> (case dprev d1 of None \<Rightarrow> Some st1
                  | Some q \<Rightarrow> upd_dom q (\<lambda>d. d\<lparr>dnext := Some node\<rparr>) st1);
           st3 \<leftarrow> upd_dom p1 (\<lambda>d. d\<lparr>dprev := Some node\<rparr>) st2;
           Some (if xm_domain_list st3 = Some p1 then st3\<lparr>xm_domain_list := Some node\<rparr> else st3) }
         else do {
           st1 \<leftarrow> upd_dom node (\<lambda>d. d\<lparr>dprev := Some p1, dnext := dnext d1\<rparr>) st;
           st2 \<leftarrow> (case dnext d1 of None \<Rightarrow> Some st1
                  | Some q \<Rightarrow> upd_dom q (\<lambda>d. d\<lparr>dprev := Some node\<rparr>) st1);
           upd_dom p1 (\<lambda>d. d\<lparr>dnext := Some node\<rparr>) st2 } })"

definition remove_domain_list :: "nat \<Rightarrow> 'u xm_state \<Rightarrow> 'u xm_state option" where
  "remove_domain_list node st = do {
     d \<leftarrow> doms st node;
     let st0 = (if xm_domain_list st = Some node then st\<lparr>xm_domain_list := dnext d\<rparr> else st);
     st1 \<leftarrow> (case dprev d of None \<Rightarrow> Some st0
            | Some q \<Rightarrow> upd_dom q (\<lambda>x. x\<lparr>dnext := dnext d\<rparr>) st0);
     (case dnext d of None \<Rightarrow> Some st1
      | Some q \<Rightarrow> upd_dom q (\<lambda>x. x\<lparr>dprev := dprev d\<rparr>) st1) }"

section \<open>Nodes\<close>

definition zero_time :: time_inf_t where "zero_time = \<lparr>hwtime = 0, period = 0\<rparr>"

definition zero_domain :: domain_t where
  "zero_domain = \<lparr>dsstack = 0, dpd = 0, dsstack_st = 0, dname = '''', did = 0, priority = 0,
     dflags = 0, events = None, events_user_addr = 0, dtime = zero_time, dheap = 0,
     mm_page_list = None, dprev = None, dnext = None\<rparr>"

text \<open>
  vmalloc is a parameter: the address it returns for the node (None on
  failure), and whether it returns memory for the name.
\<close>

definition create_domain_node ::
  "nat option \<Rightarrow> bool \<Rightarrow> string \<Rightarrow> nat \<Rightarrow> 'u xm_state \<Rightarrow> nat option \<times> 'u xm_state" where
  "create_domain_node node name_mem name prio st =
    (case node of None \<Rightarrow> (None, st)
     | Some a \<Rightarrow>
        if \<not> name_mem then (None, st)
        else (Some a, st\<lparr>doms := (doms st)(a \<mapsto> zero_domain\<lparr>dname := name, priority := prio,
                did := id_number st\<rparr>), id_number := id_number st + 1\<rparr>))"

definition remove_domain_node :: "nat option \<Rightarrow> 'u xm_state \<Rightarrow> 'u xm_state" where
  "remove_domain_node d st = (case d of None \<Rightarrow> st | Some a \<Rightarrow> st\<lparr>doms := (doms st)(a := None)\<rparr>)"

definition create_domain ::
  "nat option \<Rightarrow> bool \<Rightarrow> string \<Rightarrow> nat \<Rightarrow> 'u xm_state \<Rightarrow> (nat option \<times> 'u xm_state) option" where
  "create_domain node name_mem name prio st = do {
     let (d, st1) = create_domain_node node name_mem name prio st;
     st2 \<leftarrow> insert_domain_list d st1;
     Some (d, st2) }"

definition destroy_domain :: "nat \<Rightarrow> 'u xm_state \<Rightarrow> 'u xm_state option" where
  "destroy_domain d st = do {
     st1 \<leftarrow> remove_domain_list d st;
     Some (remove_domain_node (Some d) st1) }"

text \<open>process_node is the callback; the next pointer is read before the node goes.\<close>

partial_function (option) destroy_list_loop ::
  "(nat \<Rightarrow> 'u xm_state \<Rightarrow> 'u xm_state option) \<Rightarrow> nat option \<Rightarrow> 'u xm_state \<Rightarrow> 'u xm_state option" where
  "destroy_list_loop process_node p1 st =
    (case p1 of None \<Rightarrow> Some st
     | Some p2 \<Rightarrow> do {
         d \<leftarrow> doms st p2;
         st1 \<leftarrow> remove_domain_list p2 st;
         st2 \<leftarrow> process_node p2 st1;
         destroy_list_loop process_node (dnext d) (remove_domain_node (Some p2) st2) })"

declare destroy_list_loop.simps [code]

definition destroy_domain_list ::
  "(nat \<Rightarrow> 'u xm_state \<Rightarrow> 'u xm_state option) \<Rightarrow> 'u xm_state \<Rightarrow> 'u xm_state option" where
  "destroy_domain_list process_node st = destroy_list_loop process_node (xm_domain_list st) st"

section \<open>The list as a HOL list\<close>

definition nx_of :: "'u xm_state \<Rightarrow> nat \<Rightarrow> nat option" where
  "nx_of st a = (case doms st a of None \<Rightarrow> None | Some d \<Rightarrow> dnext d)"

definition pr_of :: "'u xm_state \<Rightarrow> nat \<Rightarrow> nat option" where
  "pr_of st a = (case doms st a of None \<Rightarrow> None | Some d \<Rightarrow> dprev d)"

definition prio_of :: "'u xm_state \<Rightarrow> nat \<Rightarrow> nat" where
  "prio_of st a = (case doms st a of None \<Rightarrow> 0 | Some d \<Rightarrow> priority d)"

lemma links_of_update [simp]:
  "nx_of (st\<lparr>xm_domain_list := v\<rparr>) = nx_of st" "pr_of (st\<lparr>xm_domain_list := v\<rparr>) = pr_of st"
  "prio_of (st\<lparr>xm_domain_list := v\<rparr>) = prio_of st"
  by (auto simp: nx_of_def pr_of_def prio_of_def fun_eq_iff)

text \<open>The list represents xs.\<close>

definition domain_list :: "'u xm_state \<Rightarrow> nat list \<Rightarrow> bool" where
  "domain_list st xs \<longleftrightarrow> set xs \<subseteq> dom (doms st) \<and> dlist (nx_of st) (pr_of st) (xm_domain_list st) xs"

text \<open>The specification of the insertion: behind every domain of the same or a higher priority.\<close>

definition insert_prio :: "('a \<Rightarrow> nat) \<Rightarrow> 'a \<Rightarrow> 'a list \<Rightarrow> 'a list" where
  "insert_prio prio x xs = takeWhile (\<lambda>y. prio y \<le> prio x) xs @ x # dropWhile (\<lambda>y. prio y \<le> prio x) xs"

lemma sorted_insert_prio:
  assumes "sorted (map prio xs)"
  shows "sorted (map prio (insert_prio prio x xs))"
proof -
  let ?P = "\<lambda>y. prio y \<le> prio x"
  have "sorted (map prio (takeWhile ?P xs @ dropWhile ?P xs))" using assms by simp
  then have st: "sorted (map prio (takeWhile ?P xs))" "sorted (map prio (dropWhile ?P xs))"
    "\<forall>a\<in>set (takeWhile ?P xs). \<forall>b\<in>set (dropWhile ?P xs). prio a \<le> prio b"
    unfolding map_append sorted_append by auto
  have lo: "\<forall>a\<in>set (takeWhile ?P xs). prio a \<le> prio x" by (auto dest: set_takeWhileD)
  have hi: "\<forall>b\<in>set (dropWhile ?P xs). prio x \<le> prio b"
  proof (cases "dropWhile ?P xs")
    case (Cons z zs)
    then have "\<not> prio z \<le> prio x" by (metis hd_dropWhile list.distinct(1) list.sel(1))
    moreover have "\<forall>b\<in>set (dropWhile ?P xs). prio z \<le> prio b" using st(2) Cons by auto
    ultimately show ?thesis by force
  next
    case Nil
    show ?thesis unfolding Nil by simp
  qed
  have join: "sorted (map prio (A @ x # B))" if "sorted (map prio A)" "sorted (map prio B)"
    "\<forall>a\<in>set A. prio a \<le> prio x" "\<forall>b\<in>set B. prio x \<le> prio b" for A B
    using that by (fastforce simp: sorted_append)
  show ?thesis unfolding insert_prio_def using join [OF st(1,2) lo hi] .
qed

lemma mset_insert_prio [simp]: "mset (insert_prio prio x xs) = add_mset x (mset xs)"
proof -
  have "mset (takeWhile P xs) + mset (dropWhile P xs) = mset xs" for P
    by (metis mset_append takeWhile_dropWhile_id)
  then show ?thesis by (simp add: insert_prio_def)
qed

lemma set_insert_prio [simp]: "set (insert_prio prio x xs) = insert x (set xs)"
  by (metis mset_insert_prio set_mset_add_mset_insert set_mset_mset)

lemma upd_dom_links:
  assumes "doms st a = Some d"
  shows "upd_dom a f st = Some (st\<lparr>doms := (doms st)(a \<mapsto> f d)\<rparr>)"
    "nx_of (st\<lparr>doms := (doms st)(a \<mapsto> f d)\<rparr>) = (nx_of st)(a := dnext (f d))"
    "pr_of (st\<lparr>doms := (doms st)(a \<mapsto> f d)\<rparr>) = (pr_of st)(a := dprev (f d))"
    "prio_of (st\<lparr>doms := (doms st)(a \<mapsto> f d)\<rparr>) = (prio_of st)(a := priority (f d))"
  using assms by (auto simp: upd_dom_def nx_of_def pr_of_def prio_of_def)

text \<open>
  An update of link fields only: succeeds on a valid address, and changes the
  two link functions there and nothing else of the list's view.
\<close>

lemma upd_next:
  assumes "a \<in> dom (doms st)"
  shows "\<exists>st'. upd_dom a (\<lambda>d. d\<lparr>dnext := v\<rparr>) st = Some st' \<and> nx_of st' = (nx_of st)(a := v) \<and>
     pr_of st' = pr_of st \<and> prio_of st' = prio_of st \<and> dom (doms st') = dom (doms st) \<and>
     xm_domain_list st' = xm_domain_list st"
proof -
  obtain d where d: "doms st a = Some d" using assms by auto
  have "pr_of st a = dprev d" "prio_of st a = priority d" using d by (simp_all add: pr_of_def prio_of_def)
  then show ?thesis using upd_dom_links [OF d, of "\<lambda>d. d\<lparr>dnext := v\<rparr>"] d
    by (auto simp: fun_upd_idem_iff)
qed

lemma upd_prev:
  assumes "a \<in> dom (doms st)"
  shows "\<exists>st'. upd_dom a (\<lambda>d. d\<lparr>dprev := v\<rparr>) st = Some st' \<and> pr_of st' = (pr_of st)(a := v) \<and>
     nx_of st' = nx_of st \<and> prio_of st' = prio_of st \<and> dom (doms st') = dom (doms st) \<and>
     xm_domain_list st' = xm_domain_list st"
proof -
  obtain d where d: "doms st a = Some d" using assms by auto
  have "nx_of st a = dnext d" "prio_of st a = priority d" using d by (simp_all add: nx_of_def prio_of_def)
  then show ?thesis using upd_dom_links [OF d, of "\<lambda>d. d\<lparr>dprev := v\<rparr>"] d
    by (auto simp: fun_upd_idem_iff)
qed

lemma upd_both:
  assumes "a \<in> dom (doms st)" and f: "\<And>d. dnext (f d) = v \<and> dprev (f d) = w \<and> priority (f d) = priority d"
  shows "\<exists>st'. upd_dom a f st = Some st' \<and> pr_of st' = (pr_of st)(a := w) \<and>
     nx_of st' = (nx_of st)(a := v) \<and> prio_of st' = prio_of st \<and> dom (doms st') = dom (doms st) \<and>
     xm_domain_list st' = xm_domain_list st"
proof -
  obtain d where d: "doms st a = Some d" using assms by auto
  have "prio_of st a = priority d" using d by (simp add: prio_of_def)
  then show ?thesis using upd_dom_links [OF d, of f] f d by (auto simp: fun_upd_idem_iff)
qed

lemma insert_walk_ok:
  assumes "lseg (nx_of st) (pr_of st) m (Some y) (y # vs) l None" "set (y # vs) \<subseteq> dom (doms st)"
  shows "insert_walk q (doms st) y =
     Some (case List.find (\<lambda>a. q < prio_of st a) (y # vs) of None \<Rightarrow> last (y # vs) | Some a \<Rightarrow> a)"
  using assms
proof (induction vs arbitrary: m y)
  case Nil
  then show ?case by (subst insert_walk.simps) (auto simp: nx_of_def)
next
  case (Cons z zs)
  obtain d where d: "doms st y = Some d" using Cons.prems(2) by auto
  have n: "dnext d = Some z" "prio_of st y = priority d"
    using Cons.prems(1) d by (simp_all add: nx_of_def prio_of_def)
  have "insert_walk q (doms st) z =
     Some (case List.find (\<lambda>a. q < prio_of st a) (z # zs) of None \<Rightarrow> last (z # zs) | Some a \<Rightarrow> a)"
    using Cons.IH Cons.prems by (metis insert_subset list.set(2) lseg.simps(2))
  then show ?case using d n by (subst insert_walk.simps) (auto split: option.split)
qed

lemma takeWhile_find:
  "List.find (\<lambda>a. \<not> P a) xs = Some y \<Longrightarrow>
   \<exists>vs. xs = takeWhile P xs @ y # vs \<and> dropWhile P xs = y # vs"
  by (induction xs) (auto split: if_splits)

lemma takeWhile_find_None: "List.find (\<lambda>a. \<not> P a) xs = None \<Longrightarrow> takeWhile P xs = xs \<and> dropWhile P xs = []"
  by (induction xs) (auto split: if_splits)

text \<open>insert_domain_list refines insert_prio.\<close>

lemma insert_domain_list_ok:
  assumes dl: "domain_list st xs" and n: "n \<notin> set xs" "n \<in> dom (doms st)"
  shows "\<exists>st'. insert_domain_list (Some n) st = Some st' \<and>
     domain_list st' (insert_prio (prio_of st) n xs) \<and> prio_of st' = prio_of st \<and>
     dom (doms st') = dom (doms st)"
proof (cases xs)
  case Nil
  then have hd: "xm_domain_list st = None" using dl dlist_head by (fastforce simp: domain_list_def)
  obtain st' where "upd_dom n (\<lambda>d. d\<lparr>dprev := None, dnext := None\<rparr>) (st\<lparr>xm_domain_list := Some n\<rparr>) = Some st'"
    "pr_of st' = (pr_of (st\<lparr>xm_domain_list := Some n\<rparr>))(n := None)"
    "nx_of st' = (nx_of (st\<lparr>xm_domain_list := Some n\<rparr>))(n := None)"
    "prio_of st' = prio_of (st\<lparr>xm_domain_list := Some n\<rparr>)"
    "dom (doms st') = dom (doms st)" "xm_domain_list st' = Some n"
    using upd_both [of n "st\<lparr>xm_domain_list := Some n\<rparr>" "\<lambda>d. d\<lparr>dprev := None, dnext := None\<rparr>" None None] n
    by auto
  then show ?thesis using hd Nil n
    by (auto simp: insert_domain_list_def domain_list_def insert_prio_def prio_of_def intro: dlist_single)
next
  case (Cons x rest)
  let ?q = "prio_of st n" and ?P = "\<lambda>y. prio_of st y \<le> prio_of st n"
  have d: "dlist (nx_of st) (pr_of st) (xm_domain_list st) xs" and sub: "set xs \<subseteq> dom (doms st)"
    using dl by (simp_all add: domain_list_def)
  have hd: "xm_domain_list st = Some x" using dlist_head [OF d] Cons by simp
  obtain l where "lseg (nx_of st) (pr_of st) None (Some x) (x # rest) l None"
    using d Cons hd by (auto simp: dlist_def)
  from insert_walk_ok [OF this] have walk: "insert_walk ?q (doms st) x =
      Some (case List.find (\<lambda>a. \<not> ?P a) xs of None \<Rightarrow> last xs | Some a \<Rightarrow> a)"
    using sub Cons by (simp add: not_le split: option.split)
  obtain nd where nd: "doms st n = Some nd" "priority nd = ?q" using n by (auto simp: prio_of_def)
  show ?thesis
  proof (cases "List.find (\<lambda>a. \<not> ?P a) xs")
    case (Some y)
    obtain vs where xs: "xs = takeWhile ?P xs @ y # vs" and drop: "dropWhile ?P xs = y # vs"
      using takeWhile_find [OF Some] by blast
    define us where "us = takeWhile ?P xs"
    have xs': "xs = us @ y # vs" using xs by (simp add: us_def)
    obtain yd where yd: "doms st y = Some yd" using sub xs' by auto
    have y: "pr_of st y = dprev yd" "?q < priority yd"
      using yd Some by (auto simp: pr_of_def prio_of_def find_Some_iff not_le)
    note sp = dlist_split [OF d [unfolded xs']]
    obtain st1 where st1: "upd_dom n (\<lambda>d. d\<lparr>dnext := Some y, dprev := dprev yd\<rparr>) st = Some st1"
      "pr_of st1 = (pr_of st)(n := dprev yd)" "nx_of st1 = (nx_of st)(n := Some y)"
      "prio_of st1 = prio_of st" "dom (doms st1) = dom (doms st)" "xm_domain_list st1 = xm_domain_list st"
      using upd_both [OF n(2), of "\<lambda>d. d\<lparr>dnext := Some y, dprev := dprev yd\<rparr>" "Some y" "dprev yd"] by auto
    obtain st2 where st2: "(case dprev yd of None \<Rightarrow> Some st1
        | Some q \<Rightarrow> upd_dom q (\<lambda>d. d\<lparr>dnext := Some n\<rparr>) st1) = Some st2"
      "nx_of st2 = set_next (dprev yd) (Some n) (nx_of st1)" "pr_of st2 = pr_of st1"
      "prio_of st2 = prio_of st" "dom (doms st2) = dom (doms st)" "xm_domain_list st2 = xm_domain_list st"
    proof (cases "dprev yd")
      case None
      then show ?thesis using that st1 by (simp add: set_next_def)
    next
      case (Some q)
      then have "q = last us" "us \<noteq> []" using sp y by (auto split: if_splits)
      then have "q \<in> set xs" using xs' by simp
      then have "q \<in> dom (doms st1)" using sub st1(5) by blast
      from upd_next [OF this, of "Some n"] show ?thesis using that st1 Some by (auto simp: set_next_def)
    qed
    obtain st3 where st3: "upd_dom y (\<lambda>d. d\<lparr>dprev := Some n\<rparr>) st2 = Some st3"
      "pr_of st3 = (pr_of st2)(y := Some n)" "nx_of st3 = nx_of st2" "prio_of st3 = prio_of st"
      "dom (doms st3) = dom (doms st)" "xm_domain_list st3 = xm_domain_list st"
      using upd_prev [of y st2 "Some n"] yd st2 by (auto simp: domIff)
    let ?st = "if xm_domain_list st3 = Some y then st3\<lparr>xm_domain_list := Some n\<rparr> else st3"
    have "insert_domain_list (Some n) st = Some ?st"
      using hd nd walk Some yd y st1(1) st2(1) st3(1)
      by (simp add: insert_domain_list_def del: not_None_eq)
    moreover have "dlist (nx_of st3) (pr_of st3) (if us = [] then Some n else xm_domain_list st) (us @ n # y # vs)"
      using dlist_insert_before [OF d [unfolded xs'], of n "nx_of st3" "pr_of st3"] n xs' st1 st2 st3 y by simp
    moreover have "us = [] \<longleftrightarrow> xm_domain_list st3 = Some y"
      using dlist_head [OF d] st3 xs' sp by (cases us) auto
    moreover have "nx_of ?st = nx_of st3" "pr_of ?st = pr_of st3" "prio_of ?st = prio_of st"
      "dom (doms ?st) = dom (doms st)"
      using st3 by auto
    moreover have "insert_prio (prio_of st) n xs = us @ n # y # vs"
      using drop by (simp add: insert_prio_def us_def)
    ultimately show ?thesis using sub n xs' st3 by (auto simp: domain_list_def)
  next
    case None
    define us where "us = butlast xs"
    define y where "y = last xs"
    have xs': "xs = us @ y # []" using Cons by (simp add: us_def y_def)
    obtain yd where yd: "doms st y = Some yd" using sub xs' by auto
    have y: "dnext yd = nx_of st y" "\<not> ?q < priority yd" "nx_of st y = None"
      using yd None dlist_split [OF d [unfolded xs']] xs' by (auto simp: nx_of_def prio_of_def find_None_iff)
    obtain st1 where st1: "upd_dom n (\<lambda>d. d\<lparr>dprev := Some y, dnext := dnext yd\<rparr>) st = Some st1"
      "pr_of st1 = (pr_of st)(n := Some y)" "nx_of st1 = (nx_of st)(n := dnext yd)"
      "prio_of st1 = prio_of st" "dom (doms st1) = dom (doms st)" "xm_domain_list st1 = xm_domain_list st"
      using upd_both [OF n(2), of "\<lambda>d. d\<lparr>dprev := Some y, dnext := dnext yd\<rparr>" "dnext yd" "Some y"] by auto
    obtain st2 where st2: "upd_dom y (\<lambda>d. d\<lparr>dnext := Some n\<rparr>) st1 = Some st2"
      "nx_of st2 = (nx_of st1)(y := Some n)" "pr_of st2 = pr_of st1" "prio_of st2 = prio_of st"
      "dom (doms st2) = dom (doms st)" "xm_domain_list st2 = xm_domain_list st"
      using upd_next [of y st1 "Some n"] yd st1 by (auto simp: domIff)
    have "insert_domain_list (Some n) st = Some st2"
      using hd nd walk None yd y st1(1) st2(1) xs' by (simp add: insert_domain_list_def)
    moreover have "dlist (nx_of st2) (pr_of st2) (xm_domain_list st) (us @ y # [n])"
      using dlist_insert_after [OF d [unfolded xs'], of n "nx_of st2" "pr_of st2"] n xs' st1 st2 y
      by (simp add: set_next_def)
    moreover have "insert_prio (prio_of st) n xs = us @ y # [n]"
      using takeWhile_find_None [OF None] xs' by (simp add: insert_prio_def)
    ultimately show ?thesis using sub n xs' st2 by (auto simp: domain_list_def)
  qed
qed

text \<open>remove_domain_list refines the removal from the list.\<close>

lemma remove_domain_list_ok:
  assumes dl: "domain_list st xs" and y: "y \<in> set xs"
  shows "\<exists>st'. remove_domain_list y st = Some st' \<and> domain_list st' (remove1 y xs) \<and>
     prio_of st' = prio_of st \<and> dom (doms st') = dom (doms st)"
proof -
  obtain us vs where xs: "xs = us @ y # vs" using y by (meson split_list)
  have d: "dlist (nx_of st) (pr_of st) (xm_domain_list st) (us @ y # vs)"
    and sub: "set xs \<subseteq> dom (doms st)"
    using dl xs by (simp_all add: domain_list_def)
  note sp = dlist_split [OF d]
  obtain yd where yd: "doms st y = Some yd" using sub y by auto
  have links: "pr_of st y = dprev yd" "nx_of st y = dnext yd"
    using yd by (simp_all add: pr_of_def nx_of_def)
  define st0 where "st0 = (if xm_domain_list st = Some y then st\<lparr>xm_domain_list := dnext yd\<rparr> else st)"
  have s0: "nx_of st0 = nx_of st" "pr_of st0 = pr_of st" "prio_of st0 = prio_of st" "doms st0 = doms st"
    "xm_domain_list st0 = (if us = [] then nx_of st y else xm_domain_list st)"
  proof -
    have "us = [] \<longleftrightarrow> xm_domain_list st = Some y"
      using dlist_head [OF d] sp by (cases us) auto
    then show "xm_domain_list st0 = (if us = [] then nx_of st y else xm_domain_list st)"
      using links by (auto simp: st0_def)
  qed (auto simp: st0_def nx_of_def pr_of_def prio_of_def)
  obtain st1 where st1: "(case dprev yd of None \<Rightarrow> Some st0
      | Some q \<Rightarrow> upd_dom q (\<lambda>x. x\<lparr>dnext := dnext yd\<rparr>) st0) = Some st1"
    "nx_of st1 = set_next (dprev yd) (dnext yd) (nx_of st0)" "pr_of st1 = pr_of st0"
    "prio_of st1 = prio_of st" "dom (doms st1) = dom (doms st)" "xm_domain_list st1 = xm_domain_list st0"
  proof (cases "dprev yd")
    case None
    then show ?thesis using that s0 by (simp add: set_next_def)
  next
    case (Some q)
    then have "q = last us" "us \<noteq> []" using sp links by (auto split: if_splits)
    then have "q \<in> set xs" using xs by simp
    then have "q \<in> dom (doms st0)" using sub s0(4) by auto
    from upd_next [OF this, of "dnext yd"] show ?thesis using that s0 Some by (auto simp: set_next_def)
  qed
  obtain st2 where st2: "(case dnext yd of None \<Rightarrow> Some st1
      | Some q \<Rightarrow> upd_dom q (\<lambda>x. x\<lparr>dprev := dprev yd\<rparr>) st1) = Some st2"
    "pr_of st2 = set_next (dnext yd) (dprev yd) (pr_of st1)" "nx_of st2 = nx_of st1"
    "prio_of st2 = prio_of st" "dom (doms st2) = dom (doms st)" "xm_domain_list st2 = xm_domain_list st0"
  proof (cases "dnext yd")
    case None
    then show ?thesis using that st1 by (simp add: set_next_def)
  next
    case (Some q)
    then have "q = hd vs" "vs \<noteq> []" using sp links by (auto split: if_splits)
    then have "q \<in> set xs" using xs by simp
    then have "q \<in> dom (doms st1)" using sub st1(5) by auto
    from upd_prev [OF this, of "dprev yd"] show ?thesis using that st1 Some by (auto simp: set_next_def)
  qed
  have "remove_domain_list y st = Some st2"
    unfolding remove_domain_list_def yd bind.bind_lunit Let_def st0_def [symmetric] st1(1) by (rule st2(1))
  moreover have "dlist (nx_of st2) (pr_of st2) (if us = [] then nx_of st y else xm_domain_list st) (us @ vs)"
    using dlist_remove [OF d, of "nx_of st2" "pr_of st2"] st1 st2 s0 links by simp
  moreover have "remove1 y xs = us @ vs" using xs sp by (simp add: remove1_append)
  ultimately show ?thesis using st2 s0 sub xs by (auto simp: domain_list_def)
qed

lemma search_domain_id_ok:
  assumes "lseg (nx_of st) (pr_of st) m p xs l None" "set xs \<subseteq> dom (doms st)"
  shows "search_domain_id i (doms st) p =
     Some (List.find (\<lambda>a. did (the (doms st a)) = i) xs)"
  using assms
proof (induction xs arbitrary: m p)
  case Nil
  then show ?case by (subst search_domain_id.simps) simp
next
  case (Cons x xs)
  obtain d where d: "doms st x = Some d" using Cons.prems by auto
  then show ?case using Cons by (subst search_domain_id.simps) (auto simp: nx_of_def)
qed

section \<open>Properties\<close>

text \<open>Inserting a domain in XtratuM's domain list keeps the doubly linked list well formed
  and puts the domain behind every domain of the same or a higher priority, so a list sorted
  by priority stays sorted and equal priorities keep their order of arrival.\<close>
theorem insert_domain_list_refines:
  assumes "domain_list st xs" "n \<notin> set xs" "n \<in> dom (doms st)"
  shows "\<exists>st'. insert_domain_list (Some n) st = Some st' \<and>
     domain_list st' (insert_prio (prio_of st) n xs) \<and> prio_of st' = prio_of st \<and>
     (sorted (map (prio_of st) xs) \<longrightarrow> sorted (map (prio_of st) (insert_prio (prio_of st) n xs)))"
  using insert_domain_list_ok [OF assms] sorted_insert_prio [of "prio_of st" xs n] by blast

text \<open>Removing a domain takes exactly that domain out of the list and keeps the links right.\<close>
theorem remove_domain_list_refines:
  assumes "domain_list st xs" "y \<in> set xs"
  shows "\<exists>st'. remove_domain_list y st = Some st' \<and> domain_list st' (remove1 y xs) \<and>
     dom (doms st') = dom (doms st)"
  using remove_domain_list_ok [OF assms] by blast

section \<open>A small system for the witnesses\<close>

text \<open>The root domain at address 1, a real-time domain at address 2 that is suspended.\<close>

definition demo_ev :: "u32 \<Rightarrow> u32 \<Rightarrow> event_handling_t" where
  "demo_ev pending masked = \<lparr>intercepted_events = 0xFFFF, masked_events = masked, pending_events = pending,
     event_handler = replicate 32 (Some 7), trap_handler = replicate 20 None, event_flags = 0x10,
     ev_heap = 0, ev_heap_size = 0, fctladdr = 0, fdataddr = [], shmctladdr = 0, shmdataddr = [],
     serialaddr = 0\<rparr>"

definition demo_root :: "nat option \<Rightarrow> domain_t" where
  "demo_root pv = zero_domain\<lparr>priority := 1023, events := Some (demo_ev 0 0), dprev := pv\<rparr>"

definition demo_rt :: "nat option \<Rightarrow> domain_t" where
  "demo_rt nx = zero_domain\<lparr>did := 1, priority := 5, dflags := 1, events := Some (demo_ev 6 4), dnext := nx\<rparr>"

definition demo_state :: "(nat \<times> nat) list xm_state" where
  "demo_state = \<lparr>doms = [1 \<mapsto> demo_root (Some 2), 2 \<mapsto> demo_rt (Some 1)], xm_domain_list = Some 2,
     xm_current_domain = 1, xm_root_domain = 1, id_number = 2, timer_heap = empty_heap, hw_if = True,
     cr3 = 0, saved_if = (\<lambda>_. False), tracer_flag = False, hw_interval = 0, user = []\<rparr>"

definition demo_unlinked :: "(nat \<times> nat) list xm_state" where
  "demo_unlinked = demo_state\<lparr>doms := [1 \<mapsto> demo_root None, 2 \<mapsto> demo_rt None], xm_domain_list := Some 1\<rparr>"

lemma demo_list: "domain_list demo_state [2, 1]"
  by (simp add: domain_list_def dlist_def demo_state_def nx_of_def pr_of_def demo_root_def demo_rt_def
      zero_domain_def)

lemma demo_unlinked_list: "domain_list demo_unlinked [1]"
  by (simp add: domain_list_def dlist_def demo_unlinked_def demo_state_def nx_of_def pr_of_def
      demo_root_def zero_domain_def)

lemma insert_domain_list_refines_witness:
  "\<exists>st'. insert_domain_list (Some 2) demo_unlinked = Some st' \<and>
     domain_list st' (insert_prio (prio_of demo_unlinked) 2 [1]) \<and> prio_of st' = prio_of demo_unlinked \<and>
     (sorted (map (prio_of demo_unlinked) [1]) \<longrightarrow>
      sorted (map (prio_of demo_unlinked) (insert_prio (prio_of demo_unlinked) 2 [1])))"
  by (rule insert_domain_list_refines [OF demo_unlinked_list])
    (simp_all add: demo_unlinked_def)

lemma remove_domain_list_refines_witness:
  "\<exists>st'. remove_domain_list 2 demo_state = Some st' \<and> domain_list st' (remove1 2 [2, 1]) \<and>
     dom (doms st') = dom (doms demo_state)"
  by (rule remove_domain_list_refines [OF demo_list]) simp

end
