(* ===== verification/XSched.thy ===== *)
theory XSched
  imports XDomain
begin

unbundle bit_operations_syntax

text \<open>
  XtratuM's scheduler (kernel/sched.c) and the delivery of events
  (kernel/irqs.c).  The handlers of a domain are its own code: they are a
  parameter that maps a handler address and an event to a change of the state.
\<close>

type_synonym 'u handlers = "nat \<Rightarrow> nat \<Rightarrow> 'u xm_state \<Rightarrow> 'u xm_state option"

section \<open>Delivery of events\<close>

text \<open>
  The loop of sync_root_events and of sync_domain_events: who is the pointer
  the code dereferences (xm_root_domain or xm_current_domain) at every access.
\<close>

partial_function (option) sync_loop ::
  "'u handlers \<Rightarrow> ('u xm_state \<Rightarrow> nat) \<Rightarrow> u32 \<Rightarrow> 'u xm_state \<Rightarrow> 'u xm_state option" where
  "sync_loop hdl who pending st = do {
     e \<leftarrow> ev_at st (who st);
     let (event, pending') = get_next_set_bit_and_clear pending (masked_events e);
     if event = -1 then Some st
     else do {
       h \<leftarrow> rd (event_handler e) (nat event);
       (case h of
          None \<Rightarrow> sync_loop hdl who pending' st
        | Some f \<Rightarrow> do {
            st1 \<leftarrow> upd_ev (who st) (\<lambda>x. disable_events_flag
                     (x\<lparr>masked_events := setbit (masked_events x) (nat event)\<rparr>)) st;
            st2 \<leftarrow> hdl f (nat event) (st1\<lparr>hw_if := True\<rparr>);
            st3 \<leftarrow> upd_ev (who st2) enable_events_flag (st2\<lparr>hw_if := False\<rparr>);
            sync_loop hdl who pending' st3 }) } }"

declare sync_loop.simps [code]

definition sync_root_events :: "'u handlers \<Rightarrow> 'u xm_state \<Rightarrow> 'u xm_state option" where
  "sync_root_events hdl st = do {
     let hw_flags = hw_if st; let st0 = st\<lparr>hw_if := False\<rparr>;
     e \<leftarrow> ev_at st0 (xm_root_domain st0);
     st1 \<leftarrow> upd_ev (xm_root_domain st0) (\<lambda>x. x\<lparr>pending_events := pending_events x AND masked_events x\<rparr>) st0;
     st2 \<leftarrow> sync_loop hdl xm_root_domain (pending_events e) st1;
     Some (st2\<lparr>hw_if := hw_flags\<rparr>) }"

definition sync_domain_events :: "'u handlers \<Rightarrow> 'u xm_state \<Rightarrow> 'u xm_state option" where
  "sync_domain_events hdl st = do {
     d \<leftarrow> doms st (xm_current_domain st);
     if get_domain_state d = DOMAIN_FINISHED then Some st
     else do {
       let hw_flags = hw_if st; let st0 = st\<lparr>hw_if := False\<rparr>;
       e \<leftarrow> ev_at st0 (xm_current_domain st0);
       st1 \<leftarrow> upd_ev (xm_current_domain st0) (\<lambda>x. x\<lparr>pending_events := pending_events x AND masked_events x\<rparr>) st0;
       st2 \<leftarrow> sync_loop hdl xm_current_domain (pending_events e) st1;
       Some (st2\<lparr>hw_if := hw_flags\<rparr>) } }"

definition sync_events :: "'u handlers \<Rightarrow> 'u xm_state \<Rightarrow> 'u xm_state option" where
  "sync_events hdl st = do {
     let hw_flags = hw_if st; let st0 = st\<lparr>hw_if := False\<rparr>;
     e \<leftarrow> ev_at st0 (xm_current_domain st0);
     st1 \<leftarrow> (if is_events_flag_enabled e \<and> pending_events e \<noteq> 0
       then (if xm_current_domain st0 = xm_root_domain st0 then sync_root_events hdl st0
             else sync_domain_events hdl st0)
       else Some st0);
     Some (st1\<lparr>hw_if := hw_flags\<rparr>) }"

section \<open>The scheduler\<close>

text \<open>What a domain does not intercept, or anything when it is finished, goes to the next one.\<close>

definition forward_events :: "nat \<Rightarrow> nat \<Rightarrow> 'u xm_state \<Rightarrow> 'u xm_state option" where
  "forward_events a n st = do {
     d \<leftarrow> doms st a;
     e \<leftarrow> ev_at st a;
     if get_domain_state d \<noteq> DOMAIN_FINISHED then do {
       st1 \<leftarrow> upd_ev n (\<lambda>x. x\<lparr>pending_events := pending_events x OR
                 (pending_events e AND NOT (intercepted_events e))\<rparr>) st;
       upd_ev a (\<lambda>x. x\<lparr>pending_events := pending_events x AND intercepted_events x\<rparr>) st1 }
     else do {
       st1 \<leftarrow> upd_ev n (\<lambda>x. x\<lparr>pending_events := pending_events x OR pending_events e\<rparr>) st;
       upd_ev a (\<lambda>x. x\<lparr>pending_events := 0\<rparr>) st1 } }"

definition selectable :: "'u xm_state \<Rightarrow> nat \<Rightarrow> bool option" where
  "selectable st a = do {
     d \<leftarrow> doms st a;
     if get_domain_state d = DOMAIN_ACTIVE then Some True
     else if get_domain_state d = DOMAIN_SUSPENDED then do {
       e \<leftarrow> ev_at st a;
       Some (is_events_flag_enabled e \<and>
             get_domain_pending_events (pending_events e) (masked_events e) \<noteq> 0) }
     else Some False }"

partial_function (option) sched_loop ::
  "'u xm_state \<Rightarrow> nat option \<Rightarrow> (nat option \<times> 'u xm_state) option" where
  "sched_loop st sel =
    (case sel of None \<Rightarrow> Some (None, st)
     | Some a \<Rightarrow> do {
         d \<leftarrow> doms st a;
         st1 \<leftarrow> (case dnext d of None \<Rightarrow> Some st | Some n \<Rightarrow> forward_events a n st);
         ok \<leftarrow> selectable st1 a;
         if ok then Some (Some a, st1)
         else do { d1 \<leftarrow> doms st1 a; sched_loop st1 (dnext d1) } })"

declare sched_loop.simps [code]

text \<open>
  domain_context_switch stores the stack of the running domain, loads the
  stack and the page directory of the other one and returns into the xm_sched
  frame that is on it, with that frame's hw_flags.
\<close>

definition context_switch :: "nat \<Rightarrow> bool \<Rightarrow> 'u xm_state \<Rightarrow> (bool \<times> 'u xm_state) option" where
  "context_switch new hw_flags st = do {
     st1 \<leftarrow> upd_dom (xm_current_domain st) (\<lambda>d. d\<lparr>dpd := cr3 st\<rparr>) st;
     d \<leftarrow> doms st1 new;
     Some (saved_if st1 new,
       st1\<lparr>saved_if := (saved_if st1)(xm_current_domain st1 := hw_flags),
           cr3 := dpd d, xm_current_domain := new\<rparr>) }"

definition xm_sched :: "'u handlers \<Rightarrow> 'u xm_state \<Rightarrow> (int \<times> 'u xm_state) option" where
  "xm_sched hdl st = do {
     let st0 = st\<lparr>tracer_flag := True\<rparr>; let hw_flags = hw_if st0; let st1 = st0\<lparr>hw_if := False\<rparr>;
     (sel0, st2) \<leftarrow> sched_loop st1 (xm_domain_list st1);
     let sel = (case sel0 of None \<Rightarrow> xm_root_domain st2 | Some a \<Rightarrow> a);
     (flags, st3) \<leftarrow> (if sel \<noteq> xm_current_domain st2 then context_switch sel hw_flags st2
                      else Some (hw_flags, st2));
     st4 \<leftarrow> upd_dom (xm_current_domain st3) (set_domain_state DOMAIN_ACTIVE) st3;
     e \<leftarrow> ev_at st4 (xm_current_domain st4);
     if \<not> is_events_flag_enabled e then Some (0, st4\<lparr>hw_if := flags\<rparr>)
     else do {
       st5 \<leftarrow> sync_events hdl st4;
       Some (1, st5\<lparr>hw_if := flags, tracer_flag := False\<rparr>) } }"

definition generic_trap_handler :: "'u handlers \<Rightarrow> 'u xm_state \<Rightarrow> (int \<times> 'u xm_state) option" where
  "generic_trap_handler hdl st = do {
     st1 \<leftarrow> upd_dom (xm_current_domain st) (set_domain_state DOMAIN_FINISHED) st;
     xm_sched hdl st1 }"

text \<open>init_wrapper: the domain's program is the parameter entry_point.\<close>

definition init_wrapper ::
  "'u handlers \<Rightarrow> ('u xm_state \<Rightarrow> 'u xm_state option) \<Rightarrow> 'u xm_state \<Rightarrow> (int \<times> 'u xm_state) option" where
  "init_wrapper hdl entry_point st = do {
     d \<leftarrow> doms st (xm_current_domain st);
     let st0 = st\<lparr>cr3 := dpd d\<rparr>;
     st1 \<leftarrow> upd_ev (xm_current_domain st0) (\<lambda>e. e\<lparr>masked_events := setbitmap\<rparr>) st0;
     st2 \<leftarrow> upd_ev (xm_current_domain st1) disable_events_flag st1;
     st3 \<leftarrow> entry_point st2;
     st4 \<leftarrow> upd_ev (xm_current_domain st3) disable_events_flag st3;
     st5 \<leftarrow> upd_dom (xm_current_domain st4) (set_domain_state DOMAIN_FINISHED) st4;
     (_, st6) \<leftarrow> xm_sched hdl st5;
     Some (0, st6) }"

section \<open>Updates and the list\<close>

lemma ev_at_doms: "ev_at st a = Some e \<longleftrightarrow> (\<exists>d. doms st a = Some d \<and> events d = Some e)"
  by (auto simp: ev_at_def bind_eq_Some_conv)

lemma upd_ev_ok:
  assumes "doms st a = Some d" "events d = Some e"
  shows "upd_ev a f st = Some (st\<lparr>doms := (doms st)(a \<mapsto> d\<lparr>events := Some (f e)\<rparr>)\<rparr>)"
  using assms by (simp add: upd_ev_def upd_dom_def ev_at_def)

definition pend :: "'u xm_state \<Rightarrow> nat \<Rightarrow> nat set" where
  "pend st a = (case ev_at st a of None \<Rightarrow> {} | Some e \<Rightarrow> bits (pending_events e))"

definition ready :: "'u xm_state \<Rightarrow> nat \<Rightarrow> bool" where
  "ready st a \<longleftrightarrow> (\<exists>d. doms st a = Some d \<and>
     (get_domain_state d = DOMAIN_ACTIVE \<or>
      get_domain_state d = DOMAIN_SUSPENDED \<and>
        (\<exists>e. events d = Some e \<and> is_events_flag_enabled e \<and> bits (pending_events e) - bits (masked_events e) \<noteq> {})))"

lemma ready_iff: "ready st a \<longleftrightarrow> selectable st a = Some True"
proof -
  have "(get_domain_pending_events p m \<noteq> 0) = (bits p - bits m \<noteq> {})" for p m
    using bits_pending [of p m] bits_empty_iff [of "get_domain_pending_events p m"] by simp
  then show ?thesis by (cases "doms st a") (auto simp: ready_def selectable_def ev_at_def split: Option.bind_splits)
qed

text \<open>The two states agree on everything but the pending events of the domains.\<close>

definition clear_pending :: "domain_t \<Rightarrow> domain_t" where
  "clear_pending d = d\<lparr>events := map_option (\<lambda>e. e\<lparr>pending_events := 0\<rparr>) (events d)\<rparr>"

definition same_but_pending :: "'u xm_state \<Rightarrow> 'u xm_state \<Rightarrow> bool" where
  "same_but_pending st st' \<longleftrightarrow> st' = st\<lparr>doms := doms st'\<rparr> \<and>
     (\<forall>a. map_option clear_pending (doms st' a) = map_option clear_pending (doms st a))"

lemma same_refl [simp]: "same_but_pending st st"
  by (simp add: same_but_pending_def)

lemma same_trans: "same_but_pending s t \<Longrightarrow> same_but_pending t u \<Longrightarrow> same_but_pending s u"
  unfolding same_but_pending_def by (metis xm_state.surjective xm_state.update_convs(1) xm_state.ext_inject)

lemma same_fields: "same_but_pending st st' \<Longrightarrow> \<exists>ds. st' = st\<lparr>doms := ds\<rparr>"
  by (auto simp: same_but_pending_def)

lemma same_dom: "same_but_pending st st' \<Longrightarrow> (doms st' a = None) = (doms st a = None)"
  unfolding same_but_pending_def by (metis map_option_is_None)

lemma clear_pending_fields:
  "clear_pending d = clear_pending d' \<Longrightarrow>
   dnext d = dnext d' \<and> dprev d = dprev d' \<and> priority d = priority d' \<and> dflags d = dflags d' \<and>
   (events d = None) = (events d' = None)"
  by (auto simp: clear_pending_def dest: arg_cong [of _ _ dnext] arg_cong [of _ _ dprev]
      arg_cong [of _ _ priority] arg_cong [of _ _ dflags] arg_cong [of _ _ events])

lemma same_links:
  assumes "same_but_pending st st'"
  shows "nx_of st' = nx_of st" "pr_of st' = pr_of st" "prio_of st' = prio_of st"
proof -
  have m: "map_option clear_pending (doms st' a) = map_option clear_pending (doms st a)" for a
    using assms by (simp add: same_but_pending_def)
  have "nx_of st' a = nx_of st a \<and> pr_of st' a = pr_of st a \<and> prio_of st' a = prio_of st a" for a
    using m [of a]
    by (cases "doms st a"; cases "doms st' a")
      (auto simp: nx_of_def pr_of_def prio_of_def dest: clear_pending_fields)
  then show "nx_of st' = nx_of st" "pr_of st' = pr_of st" "prio_of st' = prio_of st" by auto
qed

section \<open>Forwarding and the scan of the list\<close>

lemma same_but_pending_upd:
  assumes "doms st a = Some d" "events d = Some e"
  shows "same_but_pending st (st\<lparr>doms := (doms st)(a \<mapsto> d\<lparr>events := Some (e\<lparr>pending_events := w\<rparr>)\<rparr>)\<rparr>)"
  using assms by (auto simp: same_but_pending_def clear_pending_def)

lemma pend_upd:
  assumes "doms st a = Some d"
  shows "pend (st\<lparr>doms := (doms st)(a \<mapsto> d\<lparr>events := Some (e\<lparr>pending_events := w\<rparr>)\<rparr>)\<rparr>) =
     (pend st)(a := bits w)"
  by (auto simp: pend_def ev_at_def fun_eq_iff)

lemma bits_or [simp]: "bits (v OR w) = bits v \<union> bits w"
  by (auto simp: bits_def bit_or_iff)

lemma bits_and [simp]: "bits (v AND w) = bits v \<inter> bits w"
  by (auto simp: bits_def bit_and_iff)

lemma bits_and_not: "bits (v AND NOT w) = bits v - bits w"
  using bits_pending [of v w] by (simp add: get_domain_pending_events_def and.commute)

lemma forward_events_ok:
  assumes a: "doms st a = Some d" "events d = Some e" and n: "doms st n = Some dn" "events dn = Some en"
    and an: "a \<noteq> n"
  shows "\<exists>st'. forward_events a n st = Some st' \<and> same_but_pending st st' \<and>
     (\<forall>b. b \<noteq> a \<longrightarrow> b \<noteq> n \<longrightarrow> doms st' b = doms st b) \<and>
     pend st' a \<union> pend st' n = pend st a \<union> pend st n \<and> pend st n \<subseteq> pend st' n \<and>
     (get_domain_state d = DOMAIN_FINISHED \<longrightarrow> pend st' a = {}) \<and>
     (get_domain_state d \<noteq> DOMAIN_FINISHED \<longrightarrow> pend st' a = pend st a \<inter> bits (intercepted_events e))"
proof -
  let ?fwd = "if get_domain_state d \<noteq> DOMAIN_FINISHED
     then pending_events e AND NOT (intercepted_events e) else pending_events e"
  let ?keep = "if get_domain_state d \<noteq> DOMAIN_FINISHED
     then pending_events e AND intercepted_events e else 0"
  define st1 where "st1 = st\<lparr>doms := (doms st)(n \<mapsto> dn\<lparr>events :=
     Some (en\<lparr>pending_events := pending_events en OR ?fwd\<rparr>)\<rparr>)\<rparr>"
  define st2 where "st2 = st1\<lparr>doms := (doms st1)(a \<mapsto> d\<lparr>events := Some (e\<lparr>pending_events := ?keep\<rparr>)\<rparr>)\<rparr>"
  have a1: "doms st1 a = Some d" using a an by (simp add: st1_def)
  have "forward_events a n st = Some st2"
    using a n a1 an
    by (auto simp: forward_events_def upd_ev_def upd_dom_def ev_at_def st2_def st1_def)
  moreover have "same_but_pending st st2"
    using same_but_pending_upd [OF n] same_but_pending_upd [OF a1 a(2)] same_trans
    unfolding st1_def st2_def by blast
  moreover have p: "pend st2 = (pend st)(n := bits (pending_events en OR ?fwd), a := bits ?keep)"
    unfolding st2_def pend_upd [OF a1] by (simp only: st1_def pend_upd [OF n(1)])
  moreover have q: "pend st a = bits (pending_events e)" "pend st n = bits (pending_events en)"
    using a n by (simp_all add: pend_def ev_at_def)
  moreover have "pend st2 a \<union> pend st2 n = pend st a \<union> pend st n" "pend st n \<subseteq> pend st2 n"
    unfolding p q using an by (auto simp: bits_and_not simp del: bits_and) (auto simp: bits_and)
  moreover have "get_domain_state d = DOMAIN_FINISHED \<longrightarrow> pend st2 a = {}"
    "get_domain_state d \<noteq> DOMAIN_FINISHED \<longrightarrow> pend st2 a = pend st a \<inter> bits (intercepted_events e)"
    unfolding p q using an by simp_all
  moreover have "\<forall>b. b \<noteq> a \<longrightarrow> b \<noteq> n \<longrightarrow> doms st2 b = doms st b" by (simp add: st2_def st1_def)
  ultimately show ?thesis by (intro exI [of _ st2] conjI)
qed

lemma selectable_total:
  assumes "doms st a = Some d" "events d \<noteq> None"
  shows "\<exists>b. selectable st a = Some b"
  using assms by (auto simp: selectable_def ev_at_def)

definition all_events :: "'u xm_state \<Rightarrow> nat list \<Rightarrow> bool" where
  "all_events st xs \<longleftrightarrow> (\<forall>a\<in>set xs. ev_at st a \<noteq> None)"

lemma same_all_events: "same_but_pending st st' \<Longrightarrow> all_events st xs \<Longrightarrow> all_events st' xs"
proof -
  assume s: "same_but_pending st st'" and a: "all_events st xs"
  have "ev_at st' x \<noteq> None" if ne: "ev_at st x \<noteq> None" for x
  proof -
    obtain e where "ev_at st x = Some e" using ne by blast
    then obtain d where d: "doms st x = Some d" "events d = Some e" using ev_at_doms [of st x e] by blast
    have "map_option clear_pending (doms st' x) = Some (clear_pending d)"
      using s d by (simp add: same_but_pending_def)
    then obtain d' where d': "doms st' x = Some d'" "clear_pending d' = clear_pending d" by auto
    then show ?thesis using clear_pending_fields [OF d'(2)] d by (auto simp: ev_at_def)
  qed
  then show ?thesis using a by (simp add: all_events_def)
qed

text \<open>What the loop of xm_sched does: it stops at the first ready domain and loses no event.\<close>

lemma sched_loop_ok:
  assumes "lseg (nx_of st) (pr_of st) m p xs l None" "distinct xs" "all_events st xs"
  shows "\<exists>sel st'. sched_loop st p = Some (sel, st') \<and> same_but_pending st st' \<and>
     (\<forall>b. b \<notin> set xs \<longrightarrow> doms st' b = doms st b) \<and>
     (\<Union>a\<in>set xs. pend st' a) = (\<Union>a\<in>set xs. pend st a) \<and>
     (case sel of None \<Rightarrow> \<forall>a\<in>set xs. \<not> ready st' a
      | Some s \<Rightarrow> \<exists>us vs. xs = us @ s # vs \<and> ready st' s \<and> (\<forall>a\<in>set us. \<not> ready st' a))"
  using assms
proof (induction xs arbitrary: st m p)
  case Nil
  then show ?case by (subst sched_loop.simps) auto
next
  case (Cons x xs)
  obtain d e where x: "doms st x = Some d" "events d = Some e" and p: "p = Some x"
    using Cons.prems by (auto simp: all_events_def ev_at_doms)
  have nx: "nx_of st x = dnext d" using x by (simp add: nx_of_def)
  obtain st1 where st1: "(case dnext d of None \<Rightarrow> Some st | Some n \<Rightarrow> forward_events x n st) = Some st1"
    "same_but_pending st st1" "\<forall>b. b \<notin> set (x # xs) \<longrightarrow> doms st1 b = doms st b"
    "(\<Union>a\<in>set (x # xs). pend st1 a) = (\<Union>a\<in>set (x # xs). pend st a)"
  proof (cases "dnext d")
    case None
    then show ?thesis using that [of st] by simp
  next
    case (Some n)
    have "lseg (nx_of st) (pr_of st) (Some x) (Some n) xs l None"
      using Cons.prems(1) nx Some by simp
    then obtain zs where xs: "xs = n # zs" using lseg_head by (cases xs) fastforce+
    then obtain dn en where n: "doms st n = Some dn" "events dn = Some en"
      using Cons.prems(3) by (auto simp: all_events_def ev_at_doms)
    have xn: "x \<noteq> n" "x \<notin> set zs" "n \<notin> set zs" using Cons.prems(2) xs by auto
    obtain st1 where f: "forward_events x n st = Some st1" "same_but_pending st st1"
      "\<forall>b. b \<noteq> x \<longrightarrow> b \<noteq> n \<longrightarrow> doms st1 b = doms st b"
      "pend st1 x \<union> pend st1 n = pend st x \<union> pend st n"
      using forward_events_ok [OF x n xn(1)] by blast
    have "pend st1 b = pend st b" if "b \<in> set zs" for b
    proof -
      have "doms st1 b = doms st b" using f(3) that xn by metis
      then show ?thesis by (simp add: pend_def ev_at_def)
    qed
    then have "(\<Union>a\<in>set (x # xs). pend st1 a) = (\<Union>a\<in>set (x # xs). pend st a)"
      using f(4) xs by auto
    then show ?thesis using that [of st1] f Some xs by auto
  qed
  note L = same_links [OF st1(2)]
  obtain d1 where d1: "doms st1 x = Some d1" using same_dom [OF st1(2), of x] x by auto
  have nx1: "dnext d1 = dnext d" using L(1) nx d1 by (metis nx_of_def option.simps(5))
  have ev1: "all_events st1 (x # xs)" using same_all_events [OF st1(2) Cons.prems(3)] .
  then obtain ok where ok: "selectable st1 x = Some ok"
    using selectable_total [OF d1] d1 by (auto simp: all_events_def ev_at_def)
  have e: "sched_loop st p = (if ok then Some (Some x, st1) else sched_loop st1 (dnext d))"
    unfolding p using x st1(1) ok d1 nx1 by (subst sched_loop.simps) simp
  show ?case
  proof (cases ok)
    case True
    then have "ready st1 x" using ok by (simp add: ready_iff)
    then show ?thesis using e True st1 by (intro exI [of _ "Some x"] exI [of _ st1]) force
  next
    case False
    have "lseg (nx_of st1) (pr_of st1) (Some x) (dnext d) xs l None"
      using Cons.prems(1) nx L by simp
    from Cons.IH [OF this] Cons.prems(2) ev1 obtain sel st' where
      i: "sched_loop st1 (dnext d) = Some (sel, st')" "same_but_pending st1 st'"
      "\<forall>b. b \<notin> set xs \<longrightarrow> doms st' b = doms st1 b"
      "(\<Union>a\<in>set xs. pend st' a) = (\<Union>a\<in>set xs. pend st1 a)"
      "case sel of None \<Rightarrow> \<forall>a\<in>set xs. \<not> ready st' a
       | Some s \<Rightarrow> \<exists>us vs. xs = us @ s # vs \<and> ready st' s \<and> (\<forall>a\<in>set us. \<not> ready st' a)"
      by (auto simp: all_events_def)
    have xd: "doms st' x = doms st1 x" using i(3) Cons.prems(2) by simp
    then have ev: "ev_at st' x = ev_at st1 x" by (simp add: ev_at_def)
    have "selectable st' x = selectable st1 x" unfolding selectable_def xd ev ..
    with xd have nr: "\<not> ready st' x" and px: "pend st' x = pend st1 x"
      using ok False ev by (simp_all add: ready_iff pend_def)
    have "case sel of None \<Rightarrow> \<forall>a\<in>set (x # xs). \<not> ready st' a
       | Some s \<Rightarrow> \<exists>us vs. x # xs = us @ s # vs \<and> ready st' s \<and> (\<forall>a\<in>set us. \<not> ready st' a)"
    proof (cases sel)
      case None
      then show ?thesis using i(5) nr by simp
    next
      case (Some s)
      then obtain us vs where "xs = us @ s # vs" "ready st' s" "\<forall>a\<in>set us. \<not> ready st' a"
        using i(5) by auto
      then have "\<exists>us vs. x # xs = us @ s # vs \<and> ready st' s \<and> (\<forall>a\<in>set us. \<not> ready st' a)"
        using nr by (intro exI [of _ "x # us"] exI [of _ vs]) simp
      then show ?thesis using Some by simp
    qed
    moreover have "(\<Union>a\<in>set (x # xs). pend st' a) = (\<Union>a\<in>set (x # xs). pend st a)"
      using i(4) px st1(4) by simp
    moreover have "\<forall>b. b \<notin> set (x # xs) \<longrightarrow> doms st' b = doms st b" using i(3) st1(3) by simp
    ultimately show ?thesis using e False i(1) same_trans [OF st1(2) i(2)]
      by (intro exI [of _ sel] exI [of _ st']) simp
  qed
qed

section \<open>Delivery to handlers that touch only their domain's memory\<close>

definition user_handlers :: "(nat \<Rightarrow> nat \<Rightarrow> 'u \<Rightarrow> 'u) \<Rightarrow> 'u handlers" where
  "user_handlers act f ev st = Some (st\<lparr>user := act f ev (user st)\<rparr>)"

text \<open>The events a domain gets, in order, and what its handlers do with its memory.\<close>

definition delivered :: "u32 \<Rightarrow> event_handling_t \<Rightarrow> nat list" where
  "delivered pending e =
     filter (\<lambda>n. event_handler e ! n \<noteq> None) (sorted_list_of_set (bits pending - bits (masked_events e)))"

definition run_handlers :: "(nat \<Rightarrow> nat \<Rightarrow> 'u \<Rightarrow> 'u) \<Rightarrow> event_handling_t \<Rightarrow> nat list \<Rightarrow> 'u \<Rightarrow> 'u" where
  "run_handlers act e evs u = fold (\<lambda>n. act (the (event_handler e ! n)) n) evs u"

lemma delivered_step:
  assumes "bits p - bits (masked_events e) \<noteq> {}" "n = Min (bits p - bits (masked_events e))"
  shows "delivered p e = (if event_handler e ! n \<noteq> None then [n] else []) @
     filter (\<lambda>n. event_handler e ! n \<noteq> None) (sorted_list_of_set (bits p - bits (masked_events e) - {n}))"
  using sorted_list_of_set_nonempty [of "bits p - bits (masked_events e)"] assms
  by (auto simp: delivered_def)

lemma sync_loop_user:
  assumes "doms st (who st) = Some d" "events d = Some e" "length (event_handler e) = MAX_EVENTS"
    and who: "\<And>st'. xm_root_domain st' = xm_root_domain st \<Longrightarrow>
      xm_current_domain st' = xm_current_domain st \<Longrightarrow> who st' = who st"
  shows "\<exists>d' e'. sync_loop (user_handlers act) who p st =
     Some (st\<lparr>doms := (doms st)(who st \<mapsto> d'),
              user := run_handlers act e (delivered p e) (user st),
              hw_if := (if delivered p e = [] then hw_if st else False)\<rparr>) \<and>
     events d' = Some e' \<and> d'\<lparr>events := None\<rparr> = d\<lparr>events := None\<rparr> \<and>
     pending_events e' = pending_events e \<and> event_handler e' = event_handler e \<and>
     bits (masked_events e') = bits (masked_events e) \<union> set (delivered p e) \<and>
     (is_events_flag_enabled e \<longrightarrow> is_events_flag_enabled e')"
  using assms
proof (induction "card (bits p - bits (masked_events e))" arbitrary: p st d e rule: less_induct)
  case less
  note d = less.prems(1) and ev = less.prems(2) and len = less.prems(3) and who = less.prems(4)
  have ea: "ev_at st (who st) = Some e" using d ev by (simp add: ev_at_def)
  show ?case
  proof (cases "bits p - bits (masked_events e) = {}")
    case True
    have dl: "delivered p e = []" unfolding delivered_def True by simp
    have "sync_loop (user_handlers act) who p st = Some st"
      using ea next_set_bit_none [OF True] by (subst sync_loop.simps) simp
    moreover have "(doms st)(who st \<mapsto> d) = doms st" using d by auto
    ultimately show ?thesis using dl d ev by (intro exI [of _ d] exI [of _ e]) (simp add: run_handlers_def)
  next
    case False
    obtain n where n: "n < 32" "n = Min (bits p - bits (masked_events e))" "n \<in> bits p - bits (masked_events e)"
      "get_next_set_bit_and_clear p (masked_events e) = (int n, clearbit p n)"
      using next_set_bit_some [OF False] by blast
    have h: "rd (event_handler e) n = Some (event_handler e ! n)" using len n by (simp add: MAX_EVENTS_def)
    note dstep = delivered_step [OF False n(2)]
    have p': "bits (clearbit p n) = bits p - {n}" using n by simp
    have fin: "finite (bits p - bits (masked_events e))" by simp
    show ?thesis
    proof (cases "event_handler e ! n")
      case None
      have un: "sync_loop (user_handlers act) who p st = sync_loop (user_handlers act) who (clearbit p n) st"
        by (subst sync_loop.simps) (simp add: ea n(4) h None)
      have S: "bits (clearbit p n) - bits (masked_events e) = bits p - bits (masked_events e) - {n}"
        using p' by auto
      have "card (bits (clearbit p n) - bits (masked_events e)) < card (bits p - bits (masked_events e))"
        unfolding S using card_Diff1_less [OF fin n(3)] .
      note ih = less.hyps [OF this d ev len who]
      have dl: "delivered (clearbit p n) e = delivered p e"
        using dstep None S by (simp add: delivered_def)
      show ?thesis using ih unfolding un dl .
    next
      case (Some f)
      define e1 where "e1 = disable_events_flag (e\<lparr>masked_events := setbit (masked_events e) n\<rparr>)"
      define d2 where "d2 = d\<lparr>events := Some (enable_events_flag e1)\<rparr>"
      define st2 where "st2 = st\<lparr>doms := (doms st)(who st \<mapsto> d2),
        user := act f n (user st), hw_if := False\<rparr>"
      have w2: "who st2 = who st" by (rule who) (simp_all add: st2_def)
      have w1: "who (st\<lparr>doms := ds, hw_if := b, user := u\<rparr>) = who st" for ds b u
        by (rule who) simp_all
      have un: "sync_loop (user_handlers act) who p st = sync_loop (user_handlers act) who (clearbit p n) st2"
        apply (subst sync_loop.simps)
        using d ev w1
        apply (simp add: ea n(4) h Some upd_ev_def upd_dom_def ev_at_def user_handlers_def st2_def d2_def e1_def)
        by (rule arg_cong [where f = "sync_loop _ _ _"], rule xm_state.equality, simp_all)
      have e2: "events d2 = Some (enable_events_flag e1)" "doms st2 (who st2) = Some d2"
        using w2 by (simp_all add: d2_def st2_def)
      have m2: "bits (masked_events (enable_events_flag e1)) = insert n (bits (masked_events e))"
        "event_handler (enable_events_flag e1) = event_handler e"
        "pending_events (enable_events_flag e1) = pending_events e"
        using n(1) by (simp_all add: e1_def)
      have S: "bits (clearbit p n) - bits (masked_events (enable_events_flag e1)) =
          bits p - bits (masked_events e) - {n}"
        using p' m2 by auto
      have dl: "delivered p e = n # delivered (clearbit p n) (enable_events_flag e1)"
        using dstep Some S m2 by (simp add: delivered_def)
      have "card (bits (clearbit p n) - bits (masked_events (enable_events_flag e1))) <
          card (bits p - bits (masked_events e))"
        unfolding S using card_Diff1_less [OF fin n(3)] .
      moreover have "who st' = who st2" if "xm_root_domain st' = xm_root_domain st2"
        "xm_current_domain st' = xm_current_domain st2" for st'
        unfolding w2 using that by (intro who) (simp_all add: st2_def)
      moreover have "length (event_handler (enable_events_flag e1)) = MAX_EVENTS" using len m2 by simp
      ultimately obtain d' e' where r: "sync_loop (user_handlers act) who (clearbit p n) st2 =
         Some (st2\<lparr>doms := (doms st2)(who st2 \<mapsto> d'),
              user := run_handlers act (enable_events_flag e1) (delivered (clearbit p n) (enable_events_flag e1)) (user st2),
              hw_if := (if delivered (clearbit p n) (enable_events_flag e1) = [] then hw_if st2 else False)\<rparr>)"
         "events d' = Some e'" "d'\<lparr>events := None\<rparr> = d2\<lparr>events := None\<rparr>"
         "pending_events e' = pending_events (enable_events_flag e1)"
         "event_handler e' = event_handler (enable_events_flag e1)"
         "bits (masked_events e') = bits (masked_events (enable_events_flag e1)) \<union>
            set (delivered (clearbit p n) (enable_events_flag e1))"
         "is_events_flag_enabled e'"
        using less.hyps [OF _ e2(2,1)] by (metis events_flag_simps(1))
      have u: "run_handlers act e (delivered p e) (user st) =
          run_handlers act (enable_events_flag e1) (delivered (clearbit p n) (enable_events_flag e1)) (act f n (user st))"
        using dl Some m2 by (simp add: run_handlers_def)
      show ?thesis
        using un r m2 dl w2 unfolding u
        by (intro exI [of _ d'] exI [of _ e']) (simp add: st2_def d2_def)
    qed
  qed
qed

lemma delivered_congs [simp]:
  "delivered p (e\<lparr>pending_events := w\<rparr>) = delivered p e"
  "run_handlers act (e\<lparr>pending_events := w\<rparr>) = run_handlers act e"
  by (simp_all add: delivered_def run_handlers_def fun_eq_iff)

lemma is_events_flag_pending [simp]:
  "is_events_flag_enabled (e\<lparr>pending_events := w\<rparr>) = is_events_flag_enabled e"
  by (simp add: is_events_flag_enabled_def)

text \<open>The common body of sync_root_events and sync_domain_events.\<close>

lemma sync_body_user:
  assumes d: "doms st (who st) = Some d" "events d = Some e" "length (event_handler e) = MAX_EVENTS"
    and fl: "is_events_flag_enabled e"
    and who: "\<And>st'. xm_root_domain st' = xm_root_domain st \<Longrightarrow>
      xm_current_domain st' = xm_current_domain st \<Longrightarrow> who st' = who st"
  shows "\<exists>d' e' st1.
     upd_ev (who st) (\<lambda>x. x\<lparr>pending_events := pending_events x AND masked_events x\<rparr>) st = Some st1 \<and>
     sync_loop (user_handlers act) who (pending_events e) st1 =
     Some (st\<lparr>doms := (doms st)(who st \<mapsto> d'),
              user := run_handlers act e (delivered (pending_events e) e) (user st),
              hw_if := (if delivered (pending_events e) e = [] then hw_if st else False)\<rparr>) \<and>
     events d' = Some e' \<and> d'\<lparr>events := None\<rparr> = d\<lparr>events := None\<rparr> \<and>
     pending_events e' = pending_events e AND masked_events e \<and> event_handler e' = event_handler e \<and>
     bits (masked_events e') = bits (masked_events e) \<union> set (delivered (pending_events e) e) \<and>
     is_events_flag_enabled e'"
proof -
  define e1 where "e1 = e\<lparr>pending_events := pending_events e AND masked_events e\<rparr>"
  define st1 where "st1 = st\<lparr>doms := (doms st)(who st \<mapsto> d\<lparr>events := Some e1\<rparr>)\<rparr>"
  have w1: "who st1 = who st" by (rule who) (simp_all add: st1_def)
  have who1: "who st' = who st1" if "xm_root_domain st' = xm_root_domain st1"
    "xm_current_domain st' = xm_current_domain st1" for st'
    unfolding w1 using that by (intro who) (simp_all add: st1_def)
  have "doms st1 (who st1) = Some (d\<lparr>events := Some e1\<rparr>)" using w1 by (simp add: st1_def)
  moreover have "events (d\<lparr>events := Some e1\<rparr>) = Some e1" "length (event_handler e1) = MAX_EVENTS"
    using d by (simp_all add: e1_def)
  ultimately obtain d' e' where r: "sync_loop (user_handlers act) who (pending_events e) st1 =
     Some (st1\<lparr>doms := (doms st1)(who st1 \<mapsto> d'),
              user := run_handlers act e1 (delivered (pending_events e) e1) (user st1),
              hw_if := (if delivered (pending_events e) e1 = [] then hw_if st1 else False)\<rparr>)"
     "events d' = Some e'" "d'\<lparr>events := None\<rparr> = (d\<lparr>events := Some e1\<rparr>)\<lparr>events := None\<rparr>"
     "pending_events e' = pending_events e1" "event_handler e' = event_handler e1"
     "bits (masked_events e') = bits (masked_events e1) \<union> set (delivered (pending_events e) e1)"
     "is_events_flag_enabled e1 \<longrightarrow> is_events_flag_enabled e'"
    using sync_loop_user [of st1 who _ e1, OF _ _ _ who1] by blast
  have "upd_ev (who st) (\<lambda>x. x\<lparr>pending_events := pending_events x AND masked_events x\<rparr>) st = Some st1"
    using upd_ev_ok [OF d(1,2)] by (simp add: st1_def e1_def)
  then show ?thesis using r w1 fl
    by (intro exI [of _ d'] exI [of _ e'] exI [of _ st1]) (simp add: st1_def e1_def)
qed

section \<open>Properties\<close>

text \<open>How the events of a domain stand after they were delivered.\<close>

definition served :: "event_handling_t \<Rightarrow> domain_t \<Rightarrow> bool" where
  "served e d' \<longleftrightarrow> (\<exists>e'. events d' = Some e' \<and> pending_events e' = pending_events e AND masked_events e \<and>
     bits (masked_events e') = bits (masked_events e) \<union> set (delivered (pending_events e) e) \<and> is_events_flag_enabled e')"

lemma sync_root_user:
  assumes d: "doms st (xm_current_domain st) = Some d" "events d = Some e"
    and l: "length (event_handler e) = MAX_EVENTS" "is_events_flag_enabled e" and w: "xm_current_domain st = xm_root_domain st"
  shows "\<exists>d'. sync_root_events (user_handlers act) (st\<lparr>hw_if := False\<rparr>) =
     Some (st\<lparr>hw_if := False, doms := (doms st)(xm_current_domain st \<mapsto> d'),
              user := run_handlers act e (delivered (pending_events e) e) (user st)\<rparr>) \<and> served e d'"
proof -
  let ?st = "st\<lparr>hw_if := False\<rparr>"
  have D: "doms ?st (xm_root_domain ?st) = Some d" "ev_at ?st (xm_root_domain ?st) = Some e" using d w by (simp_all add: ev_at_def)
  obtain d' e' st1 where r:
    "upd_ev (xm_root_domain ?st) (\<lambda>x. x\<lparr>pending_events := pending_events x AND masked_events x\<rparr>) ?st = Some st1"
    "sync_loop (user_handlers act) xm_root_domain (pending_events e) st1 =
      Some (?st\<lparr>doms := (doms ?st)(xm_root_domain ?st \<mapsto> d'),
          user := run_handlers act e (delivered (pending_events e) e) (user ?st),
          hw_if := (if delivered (pending_events e) e = [] then hw_if ?st else False)\<rparr>)"
    "events d' = Some e'" "pending_events e' = pending_events e AND masked_events e"
    "bits (masked_events e') = bits (masked_events e) \<union> set (delivered (pending_events e) e)"
    "is_events_flag_enabled e'"
    using sync_body_user [of ?st xm_root_domain d e act, OF D(1) d(2) l] by blast
  have "sync_root_events (user_handlers act) ?st = Some (st\<lparr>hw_if := False, doms := (doms st)(xm_current_domain st \<mapsto> d'),
      user := run_handlers act e (delivered (pending_events e) e) (user st)\<rparr>)"
    unfolding sync_root_events_def Let_def using D r(1,2) w by simp
  then show ?thesis using r(3-6) by (auto simp: served_def)
qed

lemma sync_domain_user:
  assumes d: "doms st (xm_current_domain st) = Some d" "events d = Some e"
    and l: "length (event_handler e) = MAX_EVENTS" "is_events_flag_enabled e" and w: "get_domain_state d \<noteq> DOMAIN_FINISHED"
  shows "\<exists>d'. sync_domain_events (user_handlers act) (st\<lparr>hw_if := False\<rparr>) =
     Some (st\<lparr>hw_if := False, doms := (doms st)(xm_current_domain st \<mapsto> d'),
              user := run_handlers act e (delivered (pending_events e) e) (user st)\<rparr>) \<and> served e d'"
proof -
  let ?st = "st\<lparr>hw_if := False\<rparr>"
  have D: "doms ?st (xm_current_domain ?st) = Some d" "ev_at ?st (xm_current_domain ?st) = Some e" using d w by (simp_all add: ev_at_def)
  obtain d' e' st1 where r:
    "upd_ev (xm_current_domain ?st) (\<lambda>x. x\<lparr>pending_events := pending_events x AND masked_events x\<rparr>) ?st = Some st1"
    "sync_loop (user_handlers act) xm_current_domain (pending_events e) st1 =
      Some (?st\<lparr>doms := (doms ?st)(xm_current_domain ?st \<mapsto> d'),
          user := run_handlers act e (delivered (pending_events e) e) (user ?st),
          hw_if := (if delivered (pending_events e) e = [] then hw_if ?st else False)\<rparr>)"
    "events d' = Some e'" "pending_events e' = pending_events e AND masked_events e"
    "bits (masked_events e') = bits (masked_events e) \<union> set (delivered (pending_events e) e)"
    "is_events_flag_enabled e'"
    using sync_body_user [of ?st xm_current_domain d e act, OF D(1) d(2) l] by blast
  have "sync_domain_events (user_handlers act) ?st = Some (st\<lparr>hw_if := False, doms := (doms st)(xm_current_domain st \<mapsto> d'),
      user := run_handlers act e (delivered (pending_events e) e) (user st)\<rparr>)"
    unfolding sync_domain_events_def Let_def using D r(1,2) w by simp
  then show ?thesis using r(3-6) by (auto simp: served_def)
qed


lemma xm_sched_ok:
  assumes dl: "domain_list st xs" and ev: "all_events st xs"
    and root: "xm_root_domain st \<in> set xs" and cur: "xm_current_domain st \<in> set xs"
  shows "\<exists>s st2 st4 flags e.
     same_but_pending (st\<lparr>tracer_flag := True, hw_if := False\<rparr>) st2 \<and>
     (\<Union>a\<in>set xs. pend st2 a) = (\<Union>a\<in>set xs. pend st a) \<and>
     ((\<exists>us vs. xs = us @ s # vs \<and> ready st2 s \<and> (\<forall>a\<in>set us. \<not> ready st2 a)) \<or>
      (s = xm_root_domain st \<and> (\<forall>a\<in>set xs. \<not> ready st2 a))) \<and>
     xm_current_domain st4 = s \<and> pend st4 = pend st2 \<and> ev_at st4 s = Some e \<and>
     get_domain_state (the (doms st4 s)) = DOMAIN_ACTIVE \<and>
     (xm_current_domain st = s \<longrightarrow> flags = hw_if st) \<and>
     xm_sched hdl st =
       (if is_events_flag_enabled e
        then do { st5 \<leftarrow> sync_events hdl st4; Some (1, st5\<lparr>hw_if := flags, tracer_flag := False\<rparr>) }
        else Some (0, st4\<lparr>hw_if := flags\<rparr>))"
proof -
  let ?st1 = "st\<lparr>tracer_flag := True, hw_if := False\<rparr>"
  have l1: "nx_of ?st1 = nx_of st" "pr_of ?st1 = pr_of st" "pend ?st1 = pend st"
    by (auto simp: nx_of_def pr_of_def pend_def ev_at_def fun_eq_iff)
  obtain l where ls: "lseg (nx_of ?st1) (pr_of ?st1) None (xm_domain_list ?st1) xs l None" "distinct xs"
    using dl by (auto simp: domain_list_def dlist_def l1)
  have ae: "all_events ?st1 xs" using ev by (simp add: all_events_def ev_at_def)
  obtain sel st2 where L: "sched_loop ?st1 (xm_domain_list ?st1) = Some (sel, st2)"
    "same_but_pending ?st1 st2" "(\<Union>a\<in>set xs. pend st2 a) = (\<Union>a\<in>set xs. pend st a)"
    "case sel of None \<Rightarrow> \<forall>a\<in>set xs. \<not> ready st2 a
     | Some s \<Rightarrow> \<exists>us vs. xs = us @ s # vs \<and> ready st2 s \<and> (\<forall>a\<in>set us. \<not> ready st2 a)"
    using sched_loop_ok [OF ls ae] unfolding l1(3) by blast
  define s where "s = (case sel of None \<Rightarrow> xm_root_domain st2 | Some a \<Rightarrow> a)"
  obtain ds where ds: "st2 = ?st1\<lparr>doms := ds\<rparr>" using same_fields [OF L(2)] by blast
  have st2: "xm_root_domain st2 = xm_root_domain st" "xm_current_domain st2 = xm_current_domain st"
    unfolding ds by simp_all
  have ev2: "all_events st2 xs" using same_all_events [OF L(2) ae] .
  have choice: "(\<exists>us vs. xs = us @ s # vs \<and> ready st2 s \<and> (\<forall>a\<in>set us. \<not> ready st2 a)) \<or>
      (s = xm_root_domain st \<and> (\<forall>a\<in>set xs. \<not> ready st2 a))"
    using L(4) st2 by (cases sel) (auto simp: s_def)
  have s_in: "s \<in> set xs" using choice root by auto
  obtain e where e: "ev_at st2 s = Some e" using ev2 s_in by (auto simp: all_events_def)
  then obtain d where d: "doms st2 s = Some d" "events d = Some e" by (auto simp: ev_at_doms)
  obtain c where c: "doms st2 (xm_current_domain st) = Some c"
    using ev2 cur by (auto simp: all_events_def ev_at_def bind_eq_Some_conv)
  have root2: "(case sel of None \<Rightarrow> xm_root_domain st2 | Some a \<Rightarrow> a) = s" by (simp add: s_def)
  have st2c: "doms st2 (xm_current_domain st2) = Some c" using c st2 by simp
  have sched: "xm_sched hdl st = (do {
     (flags, st3) \<leftarrow> (if s \<noteq> xm_current_domain st then context_switch s (hw_if st) st2
                      else Some (hw_if st, st2));
     st4 \<leftarrow> upd_dom (xm_current_domain st3) (set_domain_state DOMAIN_ACTIVE) st3;
     e \<leftarrow> ev_at st4 (xm_current_domain st4);
     if \<not> is_events_flag_enabled e then Some (0, st4\<lparr>hw_if := flags\<rparr>)
     else do {
       st5 \<leftarrow> sync_events hdl st4;
       Some (1, st5\<lparr>hw_if := flags, tracer_flag := False\<rparr>) } })"
    unfolding xm_sched_def Let_def using L(1) root2 st2(2) by simp
  show ?thesis
  proof (cases "s = xm_current_domain st")
    case True
    let ?st4 = "st2\<lparr>doms := (doms st2)(s \<mapsto> set_domain_state DOMAIN_ACTIVE d)\<rparr>"
    have "pend ?st4 = pend st2" using d by (auto simp: pend_def ev_at_def fun_eq_iff)
    moreover have "ev_at ?st4 s = Some e" using d by (simp add: ev_at_def)
    ultimately show ?thesis
      using L(2,3) choice True d st2 unfolding sched
      by (intro exI [of _ s] exI [of _ st2] exI [of _ ?st4] exI [of _ "hw_if st"] exI [of _ e])
        (simp add: upd_dom_def)
  next
    case False
    let ?st3 = "st2\<lparr>doms := (doms st2)(xm_current_domain st \<mapsto> c\<lparr>dpd := cr3 st2\<rparr>),
      saved_if := (saved_if st2)(xm_current_domain st := hw_if st), cr3 := dpd d, xm_current_domain := s\<rparr>"
    let ?st4 = "?st3\<lparr>doms := (doms ?st3)(s \<mapsto> set_domain_state DOMAIN_ACTIVE d)\<rparr>"
    have sw: "context_switch s (hw_if st) st2 = Some (saved_if st2 s, ?st3)"
      using st2c d False st2 by (simp add: context_switch_def upd_dom_def)
    have "pend ?st4 = pend st2" using d c False by (auto simp: pend_def ev_at_def fun_eq_iff)
    moreover have "ev_at ?st4 s = Some e" using d by (simp add: ev_at_def)
    ultimately show ?thesis
      using L(2,3) choice False d st2 unfolding sched
      by (intro exI [of _ s] exI [of _ st2] exI [of _ ?st4] exI [of _ "saved_if st2 s"] exI [of _ e])
        (simp add: upd_dom_def sw)
  qed
qed


definition log_handler :: "nat \<Rightarrow> nat \<Rightarrow> (nat \<times> nat) list \<Rightarrow> (nat \<times> nat) list" where
  "log_handler f ev u = u @ [(f, ev)]"



end
