(* ===== verification/XTimer.thy ===== *)
theory XTimer
  imports XSched
begin

unbundle bit_operations_syntax

text \<open>
  XtratuM's virtual timers (kernel/timer.c): one timer per domain, kept in the
  timer heap, multiplexed on one hardware timer.  The clock and the hardware
  timer are drivers behind function pointers; what they return (the current
  time, the least and the greatest programmable interval, the event of the
  timer) is a parameter, and the interval programmed last is hw_interval.
\<close>

record hwtimer_t =
  get_min_interval :: time_ns
  get_max_interval :: time_ns
  timer_event :: nat

definition hw_key :: "'u xm_state \<Rightarrow> nat \<Rightarrow> time_ns" where
  "hw_key st a = (case doms st a of None \<Rightarrow> 0 | Some d \<Rightarrow> hwtime (dtime d))"

definition timer_remove_domain :: "nat option \<Rightarrow> 'u xm_state \<Rightarrow> 'u xm_state option" where
  "timer_remove_domain d st = do {
     let flags = hw_if st;
     st1 \<leftarrow> (case d of None \<Rightarrow> Some st
       | Some a \<Rightarrow> do {
           (_, h) \<leftarrow> HEAP_remove_element (hw_key st) (timer_heap st) a;
           Some (st\<lparr>timer_heap := h\<rparr>) });
     Some (st1\<lparr>hw_if := flags\<rparr>) }"

partial_function (option) timer_loop ::
  "hwtimer_t \<Rightarrow> time_ns \<Rightarrow> 'u xm_state \<Rightarrow> (nat option \<times> 'u xm_state) option" where
  "timer_loop hw ctime st = do {
     m \<leftarrow> HEAP_min (timer_heap st);
     (case m of None \<Rightarrow> Some (None, st)
      | Some a \<Rightarrow> do {
          d \<leftarrow> doms st a;
          if hwtime (dtime d) \<le> ctime + get_min_interval hw then do {
            (r, h) \<leftarrow> HEAP_remove_min (hw_key st) (timer_heap st);
            b \<leftarrow> deref r;
            st1 \<leftarrow> upd_ev b (\<lambda>e. e\<lparr>pending_events := setbit (pending_events e) (timer_event hw)\<rparr>)
                     (st\<lparr>timer_heap := h\<rparr>);
            db \<leftarrow> doms st1 b;
            if period (dtime db) \<noteq> 0 then do {
              st2 \<leftarrow> upd_dom b (\<lambda>x. x\<lparr>dtime := (dtime x)\<lparr>hwtime := period (dtime x) + ctime\<rparr>\<rparr>) st1;
              (_, h2) \<leftarrow> HEAP_insert (hw_key st2) (timer_heap st2) b;
              timer_loop hw ctime (st2\<lparr>timer_heap := h2\<rparr>) }
            else timer_loop hw ctime st1 }
          else Some (Some a, st) }) }"

declare timer_loop.simps [code]

definition timer_handler :: "hwtimer_t \<Rightarrow> time_ns \<Rightarrow> 'u xm_state \<Rightarrow> 'u xm_state option" where
  "timer_handler hw now st = do {
     let flags = hw_if st;
     (sel, st1) \<leftarrow> timer_loop hw now (st\<lparr>hw_if := False\<rparr>);
     st2 \<leftarrow> (case sel of None \<Rightarrow> Some st1
       | Some a \<Rightarrow> do {
           d \<leftarrow> doms st1 a;
           let rtime = hwtime (dtime d) - now;
           Some (st1\<lparr>hw_interval := (if rtime < get_max_interval hw then rtime
                                    else get_max_interval hw)\<rparr>) });
     Some (st2\<lparr>hw_if := flags\<rparr>) }"

text \<open>
  The clock is read once in sethwtimer and once more in timer_handler.  When the
  heap is full the domain keeps the new hwtime and the old period.
\<close>

definition sethwtimer ::
  "'u handlers \<Rightarrow> hwtimer_t \<Rightarrow> time_ns \<Rightarrow> time_ns \<Rightarrow> time_ns \<Rightarrow> time_ns \<Rightarrow> 'u xm_state \<Rightarrow> 'u xm_state option" where
  "sethwtimer hdl hw t0 t1 dtm dperiod st = do {
     let flags = hw_if st;
     let c = xm_current_domain st;
     st1 \<leftarrow> upd_dom c (\<lambda>x. x\<lparr>dtime := (dtime x)\<lparr>hwtime := dtm + t0\<rparr>\<rparr>) (st\<lparr>hw_if := False\<rparr>);
     (r, h) \<leftarrow> HEAP_insert (hw_key st1) (timer_heap st1) c;
     let st2 = st1\<lparr>timer_heap := h\<rparr>;
     if r \<noteq> 0 then Some (st2\<lparr>hw_if := flags\<rparr>)
     else do {
       st3 \<leftarrow> upd_dom c (\<lambda>x. x\<lparr>dtime := (dtime x)\<lparr>period := dperiod\<rparr>\<rparr>) st2;
       st4 \<leftarrow> timer_handler hw t1 (st3\<lparr>hw_if := flags\<rparr>);
       (_, st5) \<leftarrow> xm_sched hdl st4;
       Some st5 } }"

lemma hw_key_frame [simp]:
  "hw_key (st\<lparr>hw_if := b\<rparr>) = hw_key st" "hw_key (st\<lparr>hw_interval := i\<rparr>) = hw_key st"
  "hw_key (st\<lparr>timer_heap := h\<rparr>) = hw_key st"
  by (simp_all add: hw_key_def fun_eq_iff)

section \<open>The invariant of the timer heap\<close>

text \<open>The heap is ordered by the times in the store and holds each domain of S once.\<close>

definition timer_inv :: "'u xm_state \<Rightarrow> nat set \<Rightarrow> bool" where
  "timer_inv st S \<longleftrightarrow> wf_heap (hw_key st) (timer_heap st) \<and> finite S \<and>
     heap_bag (timer_heap st) = mset_set S \<and> card S < HEAP_MAX_NELEM \<and>
     (\<forall>a\<in>S. ev_at st a \<noteq> None)"

definition due :: "hwtimer_t \<Rightarrow> time_ns \<Rightarrow> 'u xm_state \<Rightarrow> nat \<Rightarrow> bool" where
  "due hw ctime st a \<longleftrightarrow> hw_key st a \<le> ctime + get_min_interval hw"

definition rearm :: "time_ns \<Rightarrow> time_inf_t \<Rightarrow> time_inf_t" where
  "rearm ctime t = (if period t \<noteq> 0 then t\<lparr>hwtime := period t + ctime\<rparr> else t)"

text \<open>What an expiry does to a domain.\<close>

definition expire :: "hwtimer_t \<Rightarrow> time_ns \<Rightarrow> domain_t \<Rightarrow> domain_t" where
  "expire hw ctime d = d\<lparr>events := map_option
       (\<lambda>e. e\<lparr>pending_events := setbit (pending_events e) (timer_event hw)\<rparr>) (events d),
     dtime := rearm ctime (dtime d)\<rparr>"

lemma heap_order_cong:
  assumes "\<And>p. p \<in> set (contents a n) \<Longrightarrow> key p = key' p" "n < length a"
  shows "heap_order key a n = heap_order key' a n"
proof -
  have "ky key a i = ky key' a i" if "1 \<le> i" "i \<le> n" for i
    using assms that unfolding ky_def set_contents [OF assms(2)] by simp
  then have "(ky key a (i div 2) \<le> ky key a i) = (ky key' a (i div 2) \<le> ky key' a i)"
    if "2 \<le> i" "i \<le> n" for i
    using that by simp
  then show ?thesis unfolding heap_order_def by blast
qed

lemma wf_heap_cong:
  assumes "\<And>p. p \<in># heap_bag h \<Longrightarrow> key p = key' p"
  shows "wf_heap key h = wf_heap key' h"
proof (cases "h_nelem h < length (h_array h)")
  case True
  then show ?thesis using heap_order_cong [OF _ True, of key key'] assms
    by (simp add: wf_heap_def heap_bag_def)
next
  case False
  then show ?thesis by (simp add: wf_heap_def filled_def)
qed

lemma timer_min:
  assumes "timer_inv st S"
  shows "HEAP_min (timer_heap st) = Some None \<and> S = {} \<or>
     (\<exists>a\<in>S. HEAP_min (timer_heap st) = Some (Some a) \<and> (\<forall>b\<in>S. hw_key st a \<le> hw_key st b))"
proof (cases "S = {}")
  case True
  then show ?thesis using xq.least_empty [of "hw_key st"] assms by (simp add: timer_inv_def)
next
  case False
  have "heap_bag (timer_heap st) \<noteq> {#}" using False assms by (simp add: timer_inv_def mset_set_empty_iff)
  then show ?thesis using xq.least_law [of "hw_key st" "timer_heap st"] assms by (auto simp: timer_inv_def)
qed

text \<open>The body of the loop, with the rest of the iterations as a parameter.\<close>

definition timer_body ::
  "(hwtimer_t \<Rightarrow> time_ns \<Rightarrow> 'u xm_state \<Rightarrow> (nat option \<times> 'u xm_state) option) \<Rightarrow>
   hwtimer_t \<Rightarrow> time_ns \<Rightarrow> 'u xm_state \<Rightarrow> (nat option \<times> 'u xm_state) option" where
  "timer_body lp hw ctime st = do {
     m \<leftarrow> HEAP_min (timer_heap st);
     (case m of None \<Rightarrow> Some (None, st)
      | Some a \<Rightarrow> do {
          d \<leftarrow> doms st a;
          if hwtime (dtime d) \<le> ctime + get_min_interval hw then do {
            (r, h) \<leftarrow> HEAP_remove_min (hw_key st) (timer_heap st);
            b \<leftarrow> deref r;
            st1 \<leftarrow> upd_ev b (\<lambda>e. e\<lparr>pending_events := setbit (pending_events e) (timer_event hw)\<rparr>)
                     (st\<lparr>timer_heap := h\<rparr>);
            db \<leftarrow> doms st1 b;
            if period (dtime db) \<noteq> 0 then do {
              st2 \<leftarrow> upd_dom b (\<lambda>x. x\<lparr>dtime := (dtime x)\<lparr>hwtime := period (dtime x) + ctime\<rparr>\<rparr>) st1;
              (_, h2) \<leftarrow> HEAP_insert (hw_key st2) (timer_heap st2) b;
              lp hw ctime (st2\<lparr>timer_heap := h2\<rparr>) }
            else lp hw ctime st1 }
          else Some (Some a, st) }) }"

lemma timer_loop_unfold: "timer_loop hw ctime st = timer_body timer_loop hw ctime st"
  unfolding timer_body_def by (rule timer_loop.simps)

text \<open>One iteration of the loop: the earliest domain expires.\<close>

lemma timer_loop_step:
  assumes inv: "timer_inv st S" and ne: "S \<noteq> {}" and dl: "\<exists>a\<in>S. due hw ctime st a"
  shows "\<exists>a d h st'. a \<in> S \<and> due hw ctime st a \<and> doms st a = Some d \<and>
     st' = st\<lparr>doms := (doms st)(a \<mapsto> expire hw ctime d), timer_heap := h\<rparr> \<and>
     (\<forall>lp. timer_body lp hw ctime st = lp hw ctime st') \<and>
     timer_inv st' (if period (dtime d) \<noteq> 0 then S else S - {a})"
proof -
  let ?h = "timer_heap st"
  have wf: "wf_heap (hw_key st) ?h" and fin: "finite S" and bag: "heap_bag ?h = mset_set S"
    and card: "card S < HEAP_MAX_NELEM" and evs: "\<forall>a\<in>S. ev_at st a \<noteq> None"
    using inv by (simp_all add: timer_inv_def)
  obtain m where m: "m \<in> S" "HEAP_min ?h = Some (Some m)" "\<forall>b\<in>S. hw_key st m \<le> hw_key st b"
    using timer_min [OF inv] ne by blast
  have bne: "heap_bag ?h \<noteq> {#}" using bag ne fin by (simp add: mset_set_empty_iff)
  obtain a h where r: "HEAP_remove_min (hw_key st) ?h = Some (Some a, h)" "wf_heap (hw_key st) h"
    "heap_bag ?h = add_mset a (heap_bag h)" "\<forall>q\<in>#heap_bag ?h. hw_key st a \<le> hw_key st q"
    using xq.rmin_law [OF wf bne] by blast
  have a: "a \<in> S" using r(3) bag fin by (metis finite_set_mset_mset_set union_single_eq_member)
  have bag': "heap_bag h = mset_set (S - {a})"
    using r(3) bag a fin by (simp add: mset_set.remove)
  have dm: "due hw ctime st m" "due hw ctime st a"
  proof -
    obtain b where b: "b \<in> S" "due hw ctime st b" using dl by blast
    then show "due hw ctime st m" using m(3) unfolding due_def by force
    have "hw_key st a \<le> hw_key st b" using r(4) b bag fin by simp
    then show "due hw ctime st a" using b unfolding due_def by simp
  qed
  obtain dm where dmm: "doms st m = Some dm" using evs m by (auto simp: ev_at_def bind_eq_Some_conv)
  obtain e where "ev_at st a = Some e" using evs a by blast
  then obtain d where d: "doms st a = Some d" "events d = Some e" by (auto simp: ev_at_doms)
  define e1 where "e1 = e\<lparr>pending_events := setbit (pending_events e) (timer_event hw)\<rparr>"
  define st1 where "st1 = st\<lparr>timer_heap := h, doms := (doms st)(a \<mapsto> d\<lparr>events := Some e1\<rparr>)\<rparr>"
  have u1: "upd_ev a (\<lambda>e. e\<lparr>pending_events := setbit (pending_events e) (timer_event hw)\<rparr>)
       (st\<lparr>timer_heap := h\<rparr>) = Some st1"
    using d by (simp add: upd_ev_def upd_dom_def ev_at_def st1_def e1_def)
  have cond: "hwtime (dtime dm) \<le> ctime + get_min_interval hw"
    using dm(1) dmm by (simp add: due_def hw_key_def)
  have unfold1: "timer_body lp hw ctime st =
      (if period (dtime d) \<noteq> 0 then do {
              st2 \<leftarrow> upd_dom a (\<lambda>x. x\<lparr>dtime := (dtime x)\<lparr>hwtime := period (dtime x) + ctime\<rparr>\<rparr>) st1;
              (_, h2) \<leftarrow> HEAP_insert (hw_key st2) (timer_heap st2) a;
              lp hw ctime (st2\<lparr>timer_heap := h2\<rparr>) }
       else lp hw ctime st1)" for lp
    unfolding timer_body_def using m(2) dmm cond r(1) u1 by (simp add: st1_def)
  have rest: "\<forall>p\<in>#heap_bag h. p \<in> S \<and> p \<noteq> a" using bag' fin by simp
  show ?thesis
  proof (cases "period (dtime d) \<noteq> 0")
    case False
    have ex: "expire hw ctime d = d\<lparr>events := Some e1\<rparr>"
      using False d by (simp add: expire_def rearm_def e1_def)
    let ?st = "st\<lparr>doms := (doms st)(a \<mapsto> expire hw ctime d), timer_heap := h\<rparr>"
    have "st1 = ?st" by (simp add: st1_def ex)
    moreover have "hw_key ?st = hw_key st" using d False by (auto simp: hw_key_def expire_def rearm_def)
    ultimately have "timer_inv ?st (S - {a})"
      using r(2) bag' fin card evs d card_Diff1_le [of S a]
      by (auto simp: timer_inv_def ev_at_def expire_def)
    then show ?thesis using unfold1 False \<open>st1 = ?st\<close> a dm d
      by (intro exI [of _ a] exI [of _ d] exI [of _ h] exI [of _ ?st]) simp
  next
    case True
    have ex: "expire hw ctime d = d\<lparr>events := Some e1, dtime := (dtime d)\<lparr>hwtime := period (dtime d) + ctime\<rparr>\<rparr>"
      using True d by (simp add: expire_def rearm_def e1_def)
    define st2 where "st2 = st1\<lparr>doms := (doms st1)(a \<mapsto> expire hw ctime d)\<rparr>"
    have u2: "upd_dom a (\<lambda>x. x\<lparr>dtime := (dtime x)\<lparr>hwtime := period (dtime x) + ctime\<rparr>\<rparr>) st1 = Some st2"
      by (simp add: upd_dom_def st1_def st2_def ex)
    have key2: "hw_key st2 p = hw_key st p" if "p \<noteq> a" for p
      using that by (simp add: hw_key_def st2_def st1_def)
    have wf2: "wf_heap (hw_key st2) h"
      using r(2) wf_heap_cong [of h "hw_key st" "hw_key st2"] key2 rest by simp
    have sz: "size (heap_bag h) < HEAP_MAX_NELEM - 1"
    proof -
      have "0 < card S" using a fin card_gt_0_iff by blast
      then show ?thesis using bag' a card by (simp add: card_Diff_singleton)
    qed
    obtain h2 where h2: "HEAP_insert (hw_key st2) h a = Some (0, h2)" "wf_heap (hw_key st2) h2"
      "heap_bag h2 = add_mset a (heap_bag h)"
      using xq.ins_law [OF wf2 sz, of a] rest by blast
    let ?st = "st\<lparr>doms := (doms st)(a \<mapsto> expire hw ctime d), timer_heap := h2\<rparr>"
    have eq: "st2\<lparr>timer_heap := h2\<rparr> = ?st" by (simp add: st2_def st1_def)
    have "hw_key ?st = hw_key st2" by (simp add: hw_key_def st2_def st1_def fun_eq_iff)
    moreover have "heap_bag h2 = mset_set S" using h2(3) r(3) bag by simp
    ultimately have "timer_inv ?st S"
      using h2(2) fin card evs d by (auto simp: timer_inv_def ev_at_def expire_def)
    moreover have "\<forall>lp. timer_body lp hw ctime st = lp hw ctime ?st"
      unfolding unfold1 using True u2 h2(1) eq by (simp add: st2_def st1_def)
    ultimately show ?thesis using True a dm d
      by (intro exI [of _ a] exI [of _ d] exI [of _ h2] exI [of _ ?st]) simp
  qed
qed

section \<open>The whole loop\<close>

definition per :: "'u xm_state \<Rightarrow> nat \<Rightarrow> time_ns" where
  "per st a = (case doms st a of None \<Rightarrow> 0 | Some d \<Rightarrow> period (dtime d))"

definition due_set :: "hwtimer_t \<Rightarrow> time_ns \<Rightarrow> 'u xm_state \<Rightarrow> nat set \<Rightarrow> nat set" where
  "due_set hw ctime st S = {a \<in> S. due hw ctime st a}"

definition expire_all :: "hwtimer_t \<Rightarrow> time_ns \<Rightarrow> nat set \<Rightarrow> (nat \<Rightarrow> domain_t option) \<Rightarrow> nat \<Rightarrow> domain_t option" where
  "expire_all hw ctime D ds a = (if a \<in> D then map_option (expire hw ctime) (ds a) else ds a)"

lemma expire_period [simp]: "period (dtime (expire hw ctime d)) = period (dtime d)"
  by (simp add: expire_def rearm_def)

lemma step_keys:
  assumes "doms st a = Some d" "st' = st\<lparr>doms := (doms st)(a \<mapsto> expire hw ctime d), timer_heap := h\<rparr>"
  shows "hw_key st' b = (if b = a \<and> period (dtime d) \<noteq> 0 then period (dtime d) + ctime else hw_key st b)"
    "per st' b = per st b" "period (dtime d) = per st a"
  using assms by (auto simp: hw_key_def per_def expire_def rearm_def)

lemma timer_loop_stop:
  assumes inv: "timer_inv st S" and nd: "\<forall>a\<in>S. \<not> due hw ctime st a"
  shows "\<exists>sel. timer_loop hw ctime st = Some (sel, st) \<and>
     (sel = None \<and> S = {} \<or> (\<exists>a\<in>S. sel = Some a \<and> (\<forall>b\<in>S. hw_key st a \<le> hw_key st b)))"
proof (cases "S = {}")
  case True
  then show ?thesis using timer_min [OF inv] by (subst timer_loop.simps) auto
next
  case False
  then obtain a where a: "a \<in> S" "HEAP_min (timer_heap st) = Some (Some a)"
    "\<forall>b\<in>S. hw_key st a \<le> hw_key st b" using timer_min [OF inv] by blast
  obtain d where d: "doms st a = Some d" using inv a(1) by (auto simp: timer_inv_def ev_at_def bind_eq_Some_conv)
  have "hw_key st a = hwtime (dtime d)" using d by (simp add: hw_key_def)
  then have "\<not> hwtime (dtime d) \<le> ctime + get_min_interval hw" using nd a(1) unfolding due_def by force
  then show ?thesis using a d by (subst timer_loop.simps) auto
qed

lemma timer_loop_ok:
  assumes "timer_inv st S"
    and "\<forall>a\<in>due_set hw ctime st S. per st a \<noteq> 0 \<longrightarrow> get_min_interval hw < per st a"
  shows "\<exists>sel st' h. timer_loop hw ctime st = Some (sel, st') \<and>
     st' = st\<lparr>doms := expire_all hw ctime (due_set hw ctime st S) (doms st), timer_heap := h\<rparr> \<and>
     timer_inv st' {a \<in> S. a \<in> due_set hw ctime st S \<longrightarrow> per st a \<noteq> 0} \<and>
     (sel = None \<and> {a \<in> S. a \<in> due_set hw ctime st S \<longrightarrow> per st a \<noteq> 0} = {} \<or>
      (\<exists>a. sel = Some a \<and> a \<in> S \<and> (a \<in> due_set hw ctime st S \<longrightarrow> per st a \<noteq> 0) \<and>
         (\<forall>b\<in>S. (b \<in> due_set hw ctime st S \<longrightarrow> per st b \<noteq> 0) \<longrightarrow> hw_key st' a \<le> hw_key st' b)))"
  using assms
proof (induction "card (due_set hw ctime st S)" arbitrary: st S rule: less_induct)
  case less
  note inv = less.prems(1) and pr = less.prems(2)
  let ?D = "due_set hw ctime st S"
  show ?case
  proof (cases "?D = {}")
    case True
    then have nd: "\<forall>a\<in>S. \<not> due hw ctime st a" by (auto simp: due_set_def)
    have "expire_all hw ctime {} (doms st) = doms st" by (simp add: expire_all_def fun_eq_iff)
    then show ?thesis using timer_loop_stop [OF inv nd] inv unfolding True
      by (auto intro!: exI [of _ "timer_heap st"])
  next
    case False
    then obtain a d h st1 where a: "a \<in> S" "due hw ctime st a" "doms st a = Some d"
      and st1: "st1 = st\<lparr>doms := (doms st)(a \<mapsto> expire hw ctime d), timer_heap := h\<rparr>"
      and lp: "timer_loop hw ctime st = timer_loop hw ctime st1"
      and inv1: "timer_inv st1 (if period (dtime d) \<noteq> 0 then S else S - {a})"
    proof -
      have "S \<noteq> {}" "\<exists>a\<in>S. due hw ctime st a" using False by (auto simp: due_set_def)
      from timer_loop_step [OF inv this] show ?thesis using that timer_loop_unfold by metis
    qed
    let ?S = "if period (dtime d) \<noteq> 0 then S else S - {a}"
    note k = step_keys [OF a(3) st1]
    have aD: "a \<in> ?D" using a by (simp add: due_set_def)
    have nda: "period (dtime d) \<noteq> 0 \<Longrightarrow> \<not> due hw ctime st1 a"
      using pr aD k by (auto simp: due_def)
    have D1: "due_set hw ctime st1 ?S = ?D - {a}"
      using nda k(1) by (auto simp: due_set_def due_def)
    have fin: "finite ?D" using inv by (simp add: timer_inv_def due_set_def)
    have "card (due_set hw ctime st1 ?S) < card ?D" unfolding D1 using card_Diff1_less [OF fin aD] .
    moreover have "\<forall>b\<in>due_set hw ctime st1 ?S. per st1 b \<noteq> 0 \<longrightarrow> get_min_interval hw < per st1 b"
      unfolding D1 k(2) using pr by blast
    ultimately obtain sel st' h' where r: "timer_loop hw ctime st1 = Some (sel, st')"
      "st' = st1\<lparr>doms := expire_all hw ctime (?D - {a}) (doms st1), timer_heap := h'\<rparr>"
      "timer_inv st' {b \<in> ?S. b \<in> ?D - {a} \<longrightarrow> per st b \<noteq> 0}"
      "sel = None \<and> {b \<in> ?S. b \<in> ?D - {a} \<longrightarrow> per st b \<noteq> 0} = {} \<or>
       (\<exists>b. sel = Some b \<and> b \<in> ?S \<and> (b \<in> ?D - {a} \<longrightarrow> per st b \<noteq> 0) \<and>
         (\<forall>c\<in>?S. (c \<in> ?D - {a} \<longrightarrow> per st c \<noteq> 0) \<longrightarrow> hw_key st' b \<le> hw_key st' c))"
      using less.hyps [OF _ inv1] unfolding D1 k(2) by blast
    have eqv: "b \<in> ?S \<and> (b \<in> ?D - {a} \<longrightarrow> per st b \<noteq> 0) \<longleftrightarrow> b \<in> S \<and> (b \<in> ?D \<longrightarrow> per st b \<noteq> 0)" for b
      using aD k(3) by (cases "b = a") auto
    then have keep: "{b \<in> ?S. b \<in> ?D - {a} \<longrightarrow> per st b \<noteq> 0} = {b \<in> S. b \<in> ?D \<longrightarrow> per st b \<noteq> 0}"
      by (intro Collect_cong)
    have ds: "expire_all hw ctime (?D - {a}) (doms st1) = expire_all hw ctime ?D (doms st)"
      using aD a(3) by (auto simp: expire_all_def st1 fun_eq_iff)
    have st': "st' = st\<lparr>doms := expire_all hw ctime ?D (doms st), timer_heap := h'\<rparr>"
      unfolding r(2) ds by (simp add: st1)
    have s: "sel = None \<and> {b \<in> S. b \<in> ?D \<longrightarrow> per st b \<noteq> 0} = {} \<or>
       (\<exists>b. sel = Some b \<and> b \<in> S \<and> (b \<in> ?D \<longrightarrow> per st b \<noteq> 0) \<and>
         (\<forall>c\<in>S. (c \<in> ?D \<longrightarrow> per st c \<noteq> 0) \<longrightarrow> hw_key st' b \<le> hw_key st' c))"
      using r(4) unfolding keep using eqv by blast
    show ?thesis
      using lp r(1) r(3) unfolding keep
      by (intro exI [of _ sel] exI [of _ st'] exI [of _ h'] conjI st' s) simp_all
  qed
qed

text \<open>A period that is not longer than the minimum interval is due again at once.\<close>

lemma timer_loop_short_period:
  assumes "timer_loop hw ctime st = Some r"
  shows "\<not> (\<exists>S a. timer_inv st S \<and> a \<in> S \<and> due hw ctime st a \<and> 0 \<noteq> per st a \<and>
            per st a \<le> get_min_interval hw)"
proof (rule timer_loop.raw_induct [where P = "\<lambda>hw ctime st r. \<not> (\<exists>S a. timer_inv st S \<and> a \<in> S \<and>
      due hw ctime st a \<and> 0 \<noteq> per st a \<and> per st a \<le> get_min_interval hw)", OF _ assms])
  fix lp :: "hwtimer_t \<Rightarrow> time_ns \<Rightarrow> 'u xm_state \<Rightarrow> (nat option \<times> 'u xm_state) option" and hw ctime st r
  assume ih: "\<And>hw ctime st r. lp hw ctime st = Some r \<Longrightarrow> \<not> (\<exists>S a. timer_inv st S \<and> a \<in> S \<and>
      due hw ctime st a \<and> 0 \<noteq> per st a \<and> per st a \<le> get_min_interval hw)"
  assume "HEAP_min (timer_heap st) \<bind> (\<lambda>m. case m of None \<Rightarrow> Some (None, st)
      | Some a \<Rightarrow> do {
          d \<leftarrow> doms st a;
          if hwtime (dtime d) \<le> ctime + get_min_interval hw then do {
            (r, h) \<leftarrow> HEAP_remove_min (hw_key st) (timer_heap st);
            b \<leftarrow> deref r;
            st1 \<leftarrow> upd_ev b (\<lambda>e. e\<lparr>pending_events := setbit (pending_events e) (timer_event hw)\<rparr>)
                     (st\<lparr>timer_heap := h\<rparr>);
            db \<leftarrow> doms st1 b;
            if period (dtime db) \<noteq> 0 then do {
              st2 \<leftarrow> upd_dom b (\<lambda>x. x\<lparr>dtime := (dtime x)\<lparr>hwtime := period (dtime x) + ctime\<rparr>\<rparr>) st1;
              (_, h2) \<leftarrow> HEAP_insert (hw_key st2) (timer_heap st2) b;
              lp hw ctime (st2\<lparr>timer_heap := h2\<rparr>) }
            else lp hw ctime st1 }
          else Some (Some a, st) }) = Some r"
  then have body: "timer_body lp hw ctime st = Some r" unfolding timer_body_def .
  show "\<not> (\<exists>S a. timer_inv st S \<and> a \<in> S \<and> due hw ctime st a \<and> 0 \<noteq> per st a \<and>
      per st a \<le> get_min_interval hw)"
  proof (intro notI, elim exE conjE)
    fix S b
    assume inv: "timer_inv st S" and b: "b \<in> S" "due hw ctime st b" "0 \<noteq> per st b"
      "per st b \<le> get_min_interval hw"
    obtain a d h st1 where st1: "doms st a = Some d"
      "st1 = st\<lparr>doms := (doms st)(a \<mapsto> expire hw ctime d), timer_heap := h\<rparr>"
      "timer_body lp hw ctime st = lp hw ctime st1"
      "timer_inv st1 (if period (dtime d) \<noteq> 0 then S else S - {a})"
      using timer_loop_step [OF inv, of hw ctime] b by blast
    note k = step_keys [OF st1(1,2)]
    have "lp hw ctime st1 = Some r" using body st1(3) by simp
    then have no: "\<not> (\<exists>S a. timer_inv st1 S \<and> a \<in> S \<and> due hw ctime st1 a \<and> 0 \<noteq> per st1 a \<and>
            per st1 a \<le> get_min_interval hw)" by (rule ih)
    have "b \<in> (if period (dtime d) \<noteq> 0 then S else S - {a})"
      using b k(3) by (cases "b = a") auto
    moreover have "due hw ctime st1 b" using b k(1,3) by (cases "b = a") (auto simp: due_def)
    ultimately show False using no st1(4) b k(2) by metis
  qed
qed

section \<open>Properties\<close>

text \<open>The end of the handler: the hardware timer is programmed for the domain that is left first, if any.\<close>

lemma timer_handler_programs:
  assumes r: "timer_loop hw now (st\<lparr>hw_if := False\<rparr>) = Some (sel, st1)"
    and sel: "sel = None \<and> {a \<in> S. P a} = {} \<or>
      (\<exists>a. sel = Some a \<and> ev_at st1 a \<noteq> None \<and> (\<forall>b\<in>S. P b \<longrightarrow> hw_key st1 a \<le> hw_key st1 b))"
  shows "\<exists>i. timer_handler hw now st = Some (st1\<lparr>hw_interval := i, hw_if := hw_if st\<rparr>) \<and>
    (\<forall>b\<in>S. P b \<longrightarrow> i \<le> get_max_interval hw \<and> i \<le> hw_key st1 b - now)"
proof (cases sel)
  case None
  then have "timer_handler hw now st = Some (st1\<lparr>hw_interval := hw_interval st1, hw_if := hw_if st\<rparr>)"
    using r by (simp add: timer_handler_def)
  moreover have "\<forall>b\<in>S. \<not> P b" using sel None by blast
  ultimately show ?thesis by blast
next
  case (Some a)
  then obtain d where d: "doms st1 a = Some d" using sel by (auto simp: ev_at_def bind_eq_Some_conv)
  then have k: "hw_key st1 a = hwtime (dtime d)" by (simp add: hw_key_def)
  let ?i = "if hwtime (dtime d) - now < get_max_interval hw then hwtime (dtime d) - now else get_max_interval hw"
  have "timer_handler hw now st = Some (st1\<lparr>hw_interval := ?i, hw_if := hw_if st\<rparr>)"
    using r Some d by (simp add: timer_handler_def Let_def)
  moreover have "?i \<le> get_max_interval hw \<and> ?i \<le> hw_key st1 b - now" if "b \<in> S" "P b" for b
  proof -
    have "hwtime (dtime d) \<le> hw_key st1 b" using sel Some that k by auto
    then show ?thesis by simp
  qed
  ultimately show ?thesis by blast
qed



definition demo_timer :: "time_ns \<Rightarrow> (nat \<times> nat) list xm_state" where
  "demo_timer p = demo_state\<lparr>doms := (doms demo_state)(2 \<mapsto> (demo_rt (Some 1))\<lparr>dtime :=
       \<lparr>hwtime = 10, period = p\<rparr>\<rparr>),
     timer_heap := \<lparr>h_array = [None, Some 2] @ replicate 98 None, h_nelem = 1\<rparr>\<rparr>"

definition demo_hw :: hwtimer_t where
  "demo_hw = \<lparr>get_min_interval = 50000, get_max_interval = 50000000, timer_event = 0\<rparr>"

lemma demo_timer_inv: "timer_inv (demo_timer p) {2}"
  by (simp add: timer_inv_def wf_heap_def filled_def heap_order_def heap_bag_def contents_def
      demo_timer_def HEAP_MAX_NELEM_def ev_at_def demo_rt_def)

lemma demo_timer_due: "due_set demo_hw 5 (demo_timer p) {2} = {2}" "per (demo_timer p) 2 = p"
  "due demo_hw 5 (demo_timer p) 2"
  by (auto simp: due_set_def due_def hw_key_def per_def demo_timer_def demo_hw_def)



end
