(* ===== verification/XSyscalls.thy ===== *)
theory XSyscalls
  imports XTimer
begin

unbundle bit_operations_syntax

text \<open>
  XtratuM's devices (kernel/xmdev.c, include/xmdev.h) and its calls
  (kernel/syscalls.c).  The handlers of a device belong to its driver: they are
  functions in its record.  A device is at its own entry of the table only, so
  the table holds the structures themselves.  The pages of a domain and the
  stacks (page directories, vmalloc) are not part of the state.
\<close>

section \<open>Devices\<close>

definition XM_FIFO_DEV :: int where "XM_FIFO_DEV = 0"
definition XM_SHM_DEV :: int where "XM_SHM_DEV = 1"
definition XM_SERIAL_DEV :: int where "XM_SERIAL_DEV = 2"
definition XM_DEVS_NUM :: int where "XM_DEVS_NUM = 32"
definition XM_SHM_COUNT :: nat where "XM_SHM_COUNT = 16"
definition XM_SERIAL_COUNT :: nat where "XM_SERIAL_COUNT = 16"
definition XM_SHM_CREATE :: nat where "XM_SHM_CREATE = 0x01"
definition XM_SHM_REMOVE :: nat where "XM_SHM_REMOVE = 0x10"
definition XM_SHM_EXIST :: nat where "XM_SHM_EXIST = 0x20"
definition DEFAULT_FIFO_ADDR :: nat where "DEFAULT_FIFO_ADDR = 0x2C00000"
definition DEFAULT_SERIAL_ADDR :: nat where "DEFAULT_SERIAL_ADDR = 0x3400000"
definition XM_PAGE_SIZE :: nat where "XM_PAGE_SIZE = 4096"
definition XM_SYS_FIFO_COUNT :: nat where "XM_SYS_FIFO_COUNT = 16"

record 'u xm_dev_t =
  devid :: int
  dev_unmap_handler :: "nat \<Rightarrow> nat \<Rightarrow> nat \<Rightarrow> 'u xm_state \<Rightarrow> (int \<times> 'u xm_state) option"
  dev_ioctl_handler :: "nat \<Rightarrow> nat \<Rightarrow> nat \<Rightarrow> 'u xm_state \<Rightarrow> (int \<times> 'u xm_state) option"
  client :: int

record 'u xm_sys =
  xm :: "'u xm_state"
  devs :: "'u xm_dev_t option list"
  devmask :: u32

definition dev_taken :: "int \<Rightarrow> 'u xm_sys \<Rightarrow> bool" where
  "dev_taken i s \<longleftrightarrow> devmask s AND push_bit (nat i) 1 \<noteq> 0"

definition xm_dev_register :: "int \<Rightarrow> 'u xm_dev_t option \<Rightarrow> 'u xm_sys \<Rightarrow> (int \<times> 'u xm_sys) option" where
  "xm_dev_register i dev s =
    (if i \<ge> XM_DEVS_NUM \<or> i < 0 then Some (-1, s)
     else if dev_taken i s then Some (-1, s)
     else do {
       ds \<leftarrow> wr (devs s) (nat i) dev;
       Some (0, s\<lparr>devmask := devmask s OR push_bit (nat i) 1, devs := ds\<rparr>) })"

definition xm_dev_unregister :: "int \<Rightarrow> 'u xm_sys \<Rightarrow> (int \<times> 'u xm_sys) option" where
  "xm_dev_unregister i s =
    (if i \<ge> XM_DEVS_NUM \<or> i < 0 then Some (-1, s)
     else do {
       d \<leftarrow> rd (devs s) (nat i);
       if (case d of None \<Rightarrow> True | Some x \<Rightarrow> client x > 0) then Some (-1, s)
       else do {
         ds \<leftarrow> wr (devs s) (nat i) None;
         Some (0, s\<lparr>devmask := devmask s AND NOT (push_bit (nat i) 1), devs := ds\<rparr>) } })"

definition xm_get_dev :: "int \<Rightarrow> 'u xm_sys \<Rightarrow> 'u xm_dev_t option option" where
  "xm_get_dev i s =
    (if i \<ge> XM_DEVS_NUM \<or> i < 0 then Some None
     else if dev_taken i s then rd (devs s) (nat i) else Some None)"

text \<open>
  dev is an unsigned long: the number of the device in its upper half, the
  minor number in its lower half.  The shift by 32, that the test of the number
  lets through, is undefined.
\<close>

definition xm_dev_ioctl :: "u32 \<Rightarrow> nat \<Rightarrow> nat \<Rightarrow> 'u xm_sys \<Rightarrow> (int \<times> 'u xm_sys) option" where
  "xm_dev_ioctl dev cmd arg s =
    (let i = int (unat (drop_bit 16 dev AND 0xFFFF)); minor = unat (dev AND 0xFFFF) in
     if i > XM_DEVS_NUM then Some (- ENODEV, s)
     else do {
       _ \<leftarrow> guard_c (i < 32);
       if \<not> dev_taken i s then Some (- ENOTTY, s)
       else do {
         e \<leftarrow> rd (devs s) (nat i);
         d \<leftarrow> e;
         (r, st) \<leftarrow> dev_ioctl_handler d minor cmd arg (xm s);
         Some (r, s\<lparr>xm := st\<rparr>) } })"

section \<open>Domains\<close>

definition ONLY_ROOT_DOMAIN_CALL :: int where "ONLY_ROOT_DOMAIN_CALL = 2"
definition ROOT_CANNOT_BE_UNLOADED :: int where "ROOT_CANNOT_BE_UNLOADED = 4"
definition DOMAIN_NOT_FOUND :: int where "DOMAIN_NOT_FOUND = 5"

definition lift_xm :: "('u xm_state \<Rightarrow> 'u xm_state option) \<Rightarrow> 'u xm_sys \<Rightarrow> 'u xm_sys option" where
  "lift_xm f s = do { st \<leftarrow> f (xm s); Some (s\<lparr>xm := st\<rparr>) }"

definition exit_domain_sys :: "'u handlers \<Rightarrow> int \<Rightarrow> 'u xm_state \<Rightarrow> (int \<times> 'u xm_state) option" where
  "exit_domain_sys hdl val st = do {
     st1 \<leftarrow> upd_ev (xm_current_domain st) disable_events_flag st;
     st2 \<leftarrow> upd_dom (xm_current_domain st1) (set_domain_state DOMAIN_FINISHED) st1;
     xm_sched hdl st2 }"

definition is_serial_dev :: "domain_t \<Rightarrow> bool" where
  "is_serial_dev d \<longleftrightarrow> dname d = ''serial.xmd''"

text \<open>A domain gives back the pages of a device and the device counts it out.\<close>

definition release_dev :: "int \<Rightarrow> nat \<Rightarrow> nat \<Rightarrow> domain_t \<Rightarrow> 'u xm_sys \<Rightarrow> 'u xm_sys option" where
  "release_dev i vaddr len d s = do {
     e \<leftarrow> xm_get_dev i s;
     (case e of
        None \<Rightarrow> Some s
      | Some dev \<Rightarrow> do {
          (_, st) \<leftarrow> dev_unmap_handler dev (dpd d) vaddr len (xm s);
          ds \<leftarrow> wr (devs s) (nat i) (Some (dev\<lparr>client := client dev - 1\<rparr>));
          Some (s\<lparr>xm := st, devs := ds\<rparr>) }) }"

definition unload_domain_sys :: "int \<Rightarrow> 'u xm_sys \<Rightarrow> (int \<times> 'u xm_sys) option" where
  "unload_domain_sys ident s =
    (if xm_current_domain (xm s) \<noteq> xm_root_domain (xm s) then Some (- ONLY_ROOT_DOMAIN_CALL, s)
     else if ident = 0 then Some (- ROOT_CANNOT_BE_UNLOADED, s)
     else do {
       let flags = hw_if (xm s);
       let s0 = s\<lparr>xm := (xm s)\<lparr>hw_if := False\<rparr>\<rparr>;
       p \<leftarrow> search_domain_id_list ident (xm s0);
       (case p of
          None \<Rightarrow> Some (- DOMAIN_NOT_FOUND, s0\<lparr>xm := (xm s0)\<lparr>hw_if := flags\<rparr>\<rparr>)
        | Some a \<Rightarrow> do {
            d \<leftarrow> doms (xm s0) a;
            s1 \<leftarrow> release_dev XM_FIFO_DEV DEFAULT_FIFO_ADDR ((XM_SYS_FIFO_COUNT + 1) * XM_PAGE_SIZE) d s0;
            s2 \<leftarrow> release_dev XM_SERIAL_DEV DEFAULT_SERIAL_ADDR
                    (if is_serial_dev d then XM_SERIAL_COUNT * 2 * XM_PAGE_SIZE else 0) d s1;
            s3 \<leftarrow> lift_xm (timer_remove_domain (Some a)) s2;
            s4 \<leftarrow> lift_xm (destroy_domain a) s3;
            Some (0, s4\<lparr>xm := (xm s4)\<lparr>hw_if := flags\<rparr>\<rparr>) }) })"

text \<open>The device gets the address of the domain as its argument.\<close>

definition suspend_domain_sys :: "'u handlers \<Rightarrow> u32 \<Rightarrow> nat \<Rightarrow> 'u xm_sys \<Rightarrow> 'u xm_sys option" where
  "suspend_domain_sys hdl dev cmd s = do {
     s1 \<leftarrow> lift_xm (\<lambda>st. upd_dom (xm_current_domain st) (set_domain_state DOMAIN_SUSPENDED) st) s;
     s2 \<leftarrow> (if cmd \<noteq> 0 then do {
              (ret, s') \<leftarrow> xm_dev_ioctl dev cmd (xm_current_domain (xm s1)) s1;
              if ret = 0 then lift_xm (\<lambda>st. upd_dom (xm_current_domain st) (set_domain_state DOMAIN_ACTIVE) st) s'
              else Some s' }
            else Some s1);
     lift_xm (\<lambda>st. do { (_, st') \<leftarrow> xm_sched hdl st; Some st' }) s2 }"

definition sync_events_sys :: "'u handlers \<Rightarrow> 'u xm_state \<Rightarrow> 'u xm_state option" where
  "sync_events_sys hdl st = sync_events hdl st"

definition pass_event_sys :: "int \<Rightarrow> 'u xm_state \<Rightarrow> 'u xm_state option" where
  "pass_event_sys event st = do {
     d \<leftarrow> doms st (xm_current_domain st);
     (case dnext d of
        None \<Rightarrow> Some st
      | Some n \<Rightarrow> do {
          _ \<leftarrow> guard_c (0 \<le> event \<and> event < 32);
          upd_ev n (\<lambda>e. e\<lparr>pending_events := pending_events e OR push_bit (nat event) 1\<rparr>) st }) }"

section \<open>Time\<close>

definition XM_NSECS_PER_SEC :: int where "XM_NSECS_PER_SEC = 1000000000"

record xmtimespec =
  xt_sec :: int
  xt_nsec :: int

record xmitimerval =
  it_interval :: xmtimespec
  it_value :: xmtimespec

text \<open>C truncates the quotient towards zero; the times are not negative.\<close>

definition xmts_of :: "time_ns \<Rightarrow> xmtimespec" where
  "xmts_of d = \<lparr>xt_sec = to_s32 (d div XM_NSECS_PER_SEC), xt_nsec = d mod XM_NSECS_PER_SEC\<rparr>"

definition ns_of_xmts :: "xmtimespec \<Rightarrow> time_ns" where
  "ns_of_xmts t = xt_sec t * XM_NSECS_PER_SEC + xt_nsec t"

definition get_time_sys :: "time_ns \<Rightarrow> bool \<Rightarrow> int \<times> xmtimespec option" where
  "get_time_sys now t = (0, if t then Some (xmts_of now) else None)"

definition set_timer_sys ::
  "'u handlers \<Rightarrow> hwtimer_t \<Rightarrow> time_ns \<Rightarrow> time_ns \<Rightarrow> xmitimerval option \<Rightarrow> bool \<Rightarrow> 'u xm_state \<Rightarrow>
    (int \<times> xmitimerval option \<times> 'u xm_state) option" where
  "set_timer_sys hdl hw t0 t1 req rem st = do {
     st1 \<leftarrow> timer_remove_domain (Some (xm_current_domain st)) st;
     d \<leftarrow> doms st1 (xm_current_domain st1);
     let old = (if rem then Some \<lparr>it_interval = xmts_of (period (dtime d)), it_value = xmts_of (hwtime (dtime d))\<rparr> else None);
     st2 \<leftarrow> (case req of None \<Rightarrow> Some st1
             | Some r \<Rightarrow> sethwtimer hdl hw t0 t1 (ns_of_xmts (it_value r)) (ns_of_xmts (it_interval r)) st1);
     Some (0, old, st2) }"

definition get_cpu_khz_sys :: "nat \<Rightarrow> nat" where
  "get_cpu_khz_sys cpu_hz = (cpu_hz div 1000) mod 2 ^ 32"

section \<open>Devices for domains\<close>

definition dev_ctl_sys :: "u32 \<Rightarrow> nat \<Rightarrow> nat \<Rightarrow> 'u xm_sys \<Rightarrow> (int \<times> 'u xm_sys) option" where
  "dev_ctl_sys dev cmd arg s = xm_dev_ioctl dev cmd arg s"

text \<open>name is the address of the string, which only the driver reads.\<close>

definition shm_open_sys :: "nat \<Rightarrow> nat \<Rightarrow> nat \<Rightarrow> 'u xm_sys \<Rightarrow> (int \<times> 'u xm_sys) option" where
  "shm_open_sys name flag mode s = do {
     e \<leftarrow> xm_get_dev XM_SHM_DEV s;
     (case e of
        None \<Rightarrow> Some (- ENODEV, s)
      | Some dev \<Rightarrow> do {
          (minor, st) \<leftarrow> dev_ioctl_handler dev XM_SHM_COUNT XM_SHM_CREATE name (xm s);
          Some (minor, s\<lparr>xm := st\<rparr>) }) }"

definition shm_unlink_sys :: "nat \<Rightarrow> 'u xm_sys \<Rightarrow> (int \<times> 'u xm_sys) option" where
  "shm_unlink_sys name s = do {
     e \<leftarrow> xm_get_dev XM_SHM_DEV s;
     (case e of
        None \<Rightarrow> Some (- ENODEV, s)
      | Some dev \<Rightarrow> do {
          (minor, st) \<leftarrow> dev_ioctl_handler dev XM_SHM_COUNT XM_SHM_EXIST name (xm s);
          if minor < int XM_SHM_COUNT \<and> minor \<ge> 0 then do {
            (ret, st') \<leftarrow> dev_ioctl_handler dev (nat minor) XM_SHM_REMOVE name st;
            Some (ret, s\<lparr>xm := st'\<rparr>) }
          else Some (0, s\<lparr>xm := st\<rparr>) }) }"

section \<open>Start and end\<close>

text \<open>
  kernel/start.c.  node, name_mem and ev_mem are the results of the three
  allocations; setting up the processor, the timers and the interrupt
  controller is not part of the state.
\<close>

definition XM_MIN_PRIORITY :: nat where "XM_MIN_PRIORITY = 1023"

definition zero_events :: event_handling_t where
  "zero_events = \<lparr>intercepted_events = 0, masked_events = 0, pending_events = 0,
     event_handler = replicate MAX_EVENTS None, trap_handler = replicate 20 None, event_flags = 0, ev_heap = 0,
     ev_heap_size = 0, fctladdr = 0, fdataddr = [], shmctladdr = 0, shmdataddr = [], serialaddr = 0\<rparr>"

fun root_events_loop :: "nat \<Rightarrow> nat list \<Rightarrow> event_handling_t \<Rightarrow> event_handling_t option" where
  "root_events_loop handler [] e = Some e"
| "root_events_loop handler (i # is) e = do {
     hs \<leftarrow> wr (event_handler e) i (Some handler);
     root_events_loop handler is (e\<lparr>intercepted_events := intercepted_events e OR push_bit i 1,
       masked_events := masked_events e AND NOT (push_bit i 1), event_handler := hs\<rparr>) }"

definition xm_init :: "nat option \<Rightarrow> bool \<Rightarrow> bool \<Rightarrow> nat \<Rightarrow> 'u xm_state \<Rightarrow> (int \<times> 'u xm_state) option" where
  "xm_init node name_mem ev_mem linux_irq_handler st = do {
     let flags = hw_if st;
     let (root, st1) = create_domain_node node name_mem ''Linux'' XM_MIN_PRIORITY (st\<lparr>hw_if := False\<rparr>);
     (case root of
        None \<Rightarrow> Some (-1, st1\<lparr>hw_if := flags\<rparr>)
      | Some a \<Rightarrow>
          let st2 = st1\<lparr>xm_root_domain := a\<rparr> in
          if \<not> ev_mem then Some (-1, st2\<lparr>hw_if := flags\<rparr>)
          else do {
            st3 \<leftarrow> upd_dom a (\<lambda>d. d\<lparr>events := Some (enable_events_flag (zero_events\<lparr>masked_events := NOT 0\<rparr>))\<rparr>) st2;
            st4 \<leftarrow> upd_dom a (set_domain_state DOMAIN_ACTIVE) st3;
            e \<leftarrow> ev_at st4 a;
            e' \<leftarrow> root_events_loop linux_irq_handler [0..<16] e;
            st5 \<leftarrow> upd_ev a (\<lambda>_. e') st4;
            st6 \<leftarrow> insert_domain_list (Some a) (st5\<lparr>xm_current_domain := a\<rparr>);
            Some (0, st6\<lparr>hw_if := flags\<rparr>) }) }"

definition destroy_domain_callback :: "nat \<Rightarrow> 'u xm_state \<Rightarrow> 'u xm_state option" where
  "destroy_domain_callback d st =
    (if d \<noteq> xm_root_domain st then timer_remove_domain (Some d) st
     else upd_dom d (\<lambda>x. x\<lparr>events := None\<rparr>) st)"

definition xm_cleanup :: "'u xm_state \<Rightarrow> 'u xm_state option" where
  "xm_cleanup st = do {
     let flags = hw_if st;
     st1 \<leftarrow> destroy_domain_list destroy_domain_callback (st\<lparr>hw_if := False\<rparr>);
     Some (st1\<lparr>hw_if := flags\<rparr>) }"

section \<open>The virtual interrupt controller\<close>

text \<open>kernel/vpic.c: what the root domain's interrupt controller does to its mask.\<close>

definition virtual_irq_hw_enable :: "nat \<Rightarrow> 'u xm_state \<Rightarrow> 'u xm_state option" where
  "virtual_irq_hw_enable irq st = do {
     _ \<leftarrow> guard_c (irq < 32);
     upd_ev (xm_root_domain st) (\<lambda>e. e\<lparr>masked_events := masked_events e AND NOT (push_bit irq 1)\<rparr>) st }"

definition virtual_irq_hw_disable :: "nat \<Rightarrow> 'u xm_state \<Rightarrow> 'u xm_state option" where
  "virtual_irq_hw_disable irq st = do {
     _ \<leftarrow> guard_c (irq < 32);
     upd_ev (xm_root_domain st) (\<lambda>e. e\<lparr>masked_events := masked_events e OR push_bit irq 1\<rparr>) st }"

definition virtual_irq_hw_ack :: "nat \<Rightarrow> 'u xm_state \<Rightarrow> 'u xm_state" where
  "virtual_irq_hw_ack irq st = st"

text \<open>The end of an interrupt: whether the hardware controller is told too comes with the state.\<close>

definition virtual_irq_hw_end :: "hwtimer_t \<Rightarrow> nat \<Rightarrow> 'u xm_state \<Rightarrow> (bool \<times> 'u xm_state) option" where
  "virtual_irq_hw_end hw irq st = do {
     st1 \<leftarrow> virtual_irq_hw_enable irq st;
     Some (irq \<noteq> timer_event hw, st1) }"

section \<open>Properties\<close>

lemma upd_dom_at: "doms st a = Some d \<Longrightarrow> upd_dom a f st = Some (st\<lparr>doms := (doms st)(a \<mapsto> f d)\<rparr>)"
  by (simp add: upd_dom_def)

lemma finished_not_ready:
  assumes "same_but_pending st st'" "doms st a = Some d" "get_domain_state d = DOMAIN_FINISHED"
  shows "\<not> ready st' a"
proof -
  have "map_option clear_pending (doms st' a) = Some (clear_pending d)"
    using assms(1,2) by (simp add: same_but_pending_def)
  then obtain d' where d': "doms st' a = Some d'" "clear_pending d' = clear_pending d" by auto
  have "get_domain_state d' = DOMAIN_FINISHED"
    using clear_pending_fields [OF d'(2)] assms(3) by (simp add: get_domain_state_def)
  then show ?thesis using d'(1) by (simp add: ready_iff selectable_def)
qed

text \<open>A domain that exits, other than the root one, is not resumed: the exit makes another domain of
  the list the current one, before any event is delivered.\<close>
theorem exited_domain_not_resumed:
  assumes dl: "domain_list st xs" and ev: "all_events st xs" and root: "xm_root_domain st \<in> set xs"
    and cur: "xm_current_domain st \<in> set xs" "xm_current_domain st \<noteq> xm_root_domain st"
  shows "\<exists>st4 flags e. xm_current_domain st4 \<in> set xs \<and> xm_current_domain st4 \<noteq> xm_current_domain st \<and>
    exit_domain_sys hdl val st =
      (if is_events_flag_enabled e
       then do { st5 \<leftarrow> sync_events hdl st4; Some (1, st5\<lparr>hw_if := flags, tracer_flag := False\<rparr>) }
       else Some (0, st4\<lparr>hw_if := flags\<rparr>))"
proof -
  let ?c = "xm_current_domain st"
  obtain d e where d: "doms st ?c = Some d" "events d = Some e"
    using ev cur(1) by (auto simp: all_events_def ev_at_def bind_eq_Some_conv)
  define d1 where "d1 = set_domain_state DOMAIN_FINISHED (d\<lparr>events := Some (disable_events_flag e)\<rparr>)"
  let ?st = "st\<lparr>doms := (doms st)(?c \<mapsto> d1)\<rparr>"
  have x: "exit_domain_sys hdl val st = xm_sched hdl ?st"
    using d by (simp add: exit_domain_sys_def upd_ev_def ev_at_def upd_dom_at d1_def)
  have f: "dnext d1 = dnext d" "dprev d1 = dprev d" "events d1 = Some (disable_events_flag e)"
    "get_domain_state d1 = DOMAIN_FINISHED"
    by (simp_all add: d1_def)
  have "nx_of ?st = nx_of st" "pr_of ?st = pr_of st" using d(1) f by (auto simp: nx_of_def pr_of_def)
  then have dl1: "domain_list ?st xs" using dl d(1) unfolding domain_list_def by auto
  have ev1: "all_events ?st xs" using ev f(3) by (auto simp: all_events_def ev_at_def)
  obtain s st2 st4 flags e' where s: "same_but_pending (?st\<lparr>tracer_flag := True, hw_if := False\<rparr>) st2"
    "(\<exists>us vs. xs = us @ s # vs \<and> ready st2 s \<and> (\<forall>a\<in>set us. \<not> ready st2 a)) \<or>
      (s = xm_root_domain ?st \<and> (\<forall>a\<in>set xs. \<not> ready st2 a))"
    "xm_current_domain st4 = s"
    "xm_sched hdl ?st = (if is_events_flag_enabled e'
       then do { st5 \<leftarrow> sync_events hdl st4; Some (1, st5\<lparr>hw_if := flags, tracer_flag := False\<rparr>) }
       else Some (0, st4\<lparr>hw_if := flags\<rparr>))"
  proof -
    have r: "xm_root_domain ?st \<in> set xs" "xm_current_domain ?st \<in> set xs" using root cur(1) by simp_all
    from xm_sched_ok [OF dl1 ev1 r, of hdl] show thesis
      by (elim exE conjE) (rule that)
  qed
  have "\<not> ready st2 ?c" using finished_not_ready [OF s(1), of ?c d1] f(4) by simp
  then have "s \<noteq> ?c" "s \<in> set xs" using s(2) root cur(2) by auto
  then show ?thesis using s(3,4) x by auto
qed

lemma exited_domain_not_resumed_witness:
  "\<exists>st4 flags e. xm_current_domain st4 = 1 \<and>
    exit_domain_sys (user_handlers log_handler) 0 (demo_state\<lparr>xm_current_domain := 2\<rparr>) =
      (if is_events_flag_enabled e
       then do { st5 \<leftarrow> sync_events (user_handlers log_handler) st4; Some (1, st5\<lparr>hw_if := flags, tracer_flag := False\<rparr>) }
       else Some (0, st4\<lparr>hw_if := flags\<rparr>))"
proof -
  let ?st = "demo_state\<lparr>xm_current_domain := 2\<rparr>"
  have "nx_of ?st = nx_of demo_state" "pr_of ?st = pr_of demo_state" by (auto simp: nx_of_def pr_of_def)
  then have l: "domain_list ?st [2, 1]" using demo_list unfolding domain_list_def by simp
  show ?thesis
    using exited_domain_not_resumed [OF l, of "user_handlers log_handler" 0]
    by (fastforce simp: all_events_def ev_at_def demo_state_def demo_root_def demo_rt_def)
qed

text \<open>Unloading is refused, with the error the header names and nothing changed, to a domain that is
  not the root one, for the root domain itself, and for a number that no domain has.\<close>
theorem unload_refused:
  assumes "domain_list (xm s) xs"
  shows "(xm_current_domain (xm s) \<noteq> xm_root_domain (xm s) \<longrightarrow>
      unload_domain_sys ident s = Some (- ONLY_ROOT_DOMAIN_CALL, s)) \<and>
    (xm_current_domain (xm s) = xm_root_domain (xm s) \<longrightarrow>
      unload_domain_sys 0 s = Some (- ROOT_CANNOT_BE_UNLOADED, s) \<and>
      (ident \<noteq> 0 \<longrightarrow> (\<forall>a\<in>set xs. did (the (doms (xm s) a)) \<noteq> ident) \<longrightarrow>
        unload_domain_sys ident s = Some (- DOMAIN_NOT_FOUND, s)))"
proof -
  have "search_domain_id_list ident ((xm s)\<lparr>hw_if := False\<rparr>) = Some None"
    if "\<forall>a\<in>set xs. did (the (doms (xm s) a)) \<noteq> ident"
  proof -
    obtain l where "lseg (nx_of (xm s)) (pr_of (xm s)) None (xm_domain_list (xm s)) xs l None"
      "set xs \<subseteq> dom (doms (xm s))"
      using assms by (auto simp: domain_list_def dlist_def)
    from search_domain_id_ok [OF this, of ident] that show ?thesis
      by (simp add: search_domain_id_list_def find_None_iff)
  qed
  then show ?thesis by (cases s) (auto simp: unload_domain_sys_def)
qed

definition demo_sys :: "(nat \<times> nat) list xm_sys" where
  "demo_sys = \<lparr>xm = demo_state, devs = replicate 32 None, devmask = 0\<rparr>"

lemma unload_refused_witness:
  "unload_domain_sys 9 demo_sys = Some (- DOMAIN_NOT_FOUND, demo_sys)"
proof -
  have l: "domain_list (xm demo_sys) [2, 1]" using demo_list by (simp add: demo_sys_def)
  have "\<forall>a\<in>set [2, 1]. did (the (doms (xm demo_sys) a)) \<noteq> 9" "xm_current_domain (xm demo_sys) = xm_root_domain (xm demo_sys)"
    by (simp_all add: demo_sys_def demo_state_def demo_root_def demo_rt_def zero_domain_def)
  then show ?thesis using unload_refused [OF l, of 9] by simp
qed

end
