(* ===== verification/RtFifo.thy ===== *)
theory RtFifo
  imports Prelude
begin

unbundle bit_operations_syntax

text \<open>
  The real-time FIFO device (xtratum/devs/rtfifo): a ring buffer of one page
  per minor, shared by the domains.  ff_top and ff_bom count the bytes written
  and read; they are reset when a read empties the FIFO.  They are C longs, so
  an addition that leaves the 32-bit range is undefined behaviour (None).

  The routines run the body of their CAS loop once: without interference the
  compare and swap succeeds the first time.
\<close>

section \<open>Data\<close>

definition PAGE_SIZE_nat :: nat where "PAGE_SIZE_nat = 4096"
definition XM_FIFO_COUNT :: nat where "XM_FIFO_COUNT = 16"

definition FIFO_RD :: u32 where "FIFO_RD = 1"
definition FIFO_WR :: u32 where "FIFO_WR = 2 OR FIFO_RD"
definition FIFO_US :: u32 where "FIFO_US = 8"
definition FLUSH_FIFO :: int where "FLUSH_FIFO = 1"

record fifo_struct =
  ff_flags :: u32
  ff_top :: nat
  ff_bom :: nat
  ff_size :: nat
  ff_addr :: "u8 list"

definition INDEX_UNVALID :: "int \<Rightarrow> bool" where
  "INDEX_UNVALID i \<longleftrightarrow> i < 0 \<or> i \<ge> int XM_FIFO_COUNT"

definition FIFO_USED_SIZE :: "fifo_struct \<Rightarrow> nat" where
  "FIFO_USED_SIZE ff = (ff_top ff + ff_size ff - ff_bom ff) mod ff_size ff"

definition FIFO_FREE_SIZE :: "fifo_struct \<Rightarrow> nat" where
  "FIFO_FREE_SIZE ff = (ff_bom ff + ff_size ff - ff_top ff - 1) mod ff_size ff"

definition FIFO_USABLE :: "fifo_struct \<Rightarrow> bool" where
  "FIFO_USABLE ff \<longleftrightarrow> ff_flags ff AND FIFO_US \<noteq> 0"

section \<open>Initialisation\<close>

text \<open>
  __get_free_page is a parameter: what the i-th call returns.  The pages that
  were obtained are released when one is missing; the array keeps the addresses.
\<close>

fun alloc_pages :: "(nat \<Rightarrow> bool) \<Rightarrow> nat \<Rightarrow> nat \<Rightarrow> u8 list option list \<Rightarrow> bool \<times> u8 list option list" where
  "alloc_pages get i 0 fp = (True, fp)"
| "alloc_pages get i (Suc n) fp =
    (if get i then alloc_pages get (i + 1) n (fp[i := Some (replicate PAGE_SIZE_nat 0)])
     else (False, fp[i := None]))"

definition alloc_fifo_data_page ::
  "(nat \<Rightarrow> bool) \<Rightarrow> u8 list option list \<Rightarrow> int \<times> u8 list option list \<times> nat" where
  "alloc_fifo_data_page get fp =
    (let (ok, fp1) = alloc_pages get 0 XM_FIFO_COUNT fp
     in if ok then (0, fp1, 0) else (- ENOMEM, fp1, length (filter (\<lambda>p. p \<noteq> None) fp1)))"

definition fifo_zero :: fifo_struct where
  "fifo_zero = \<lparr>ff_flags = 0, ff_top = 0, ff_bom = 0, ff_size = 0, ff_addr = []\<rparr>"

definition fifo_control_init :: "bool \<Rightarrow> u8 list option list \<Rightarrow> int \<times> fifo_struct list" where
  "fifo_control_init got fp =
    (if \<not> got then (- ENOMEM, [])
     else (0, map (\<lambda>p. fifo_zero\<lparr>ff_top := 0, ff_bom := 0, ff_size := PAGE_SIZE_nat,
                 ff_addr := (case p of None \<Rightarrow> [] | Some d \<Rightarrow> d),
                 ff_flags := ff_flags fifo_zero OR FIFO_US\<rparr>) (take XM_FIFO_COUNT fp)))"

definition rt_fifo_mem_alloc :: "(nat \<Rightarrow> bool) \<Rightarrow> int \<times> fifo_struct list" where
  "rt_fifo_mem_alloc get =
    (let (r, fp, _) = alloc_fifo_data_page get (replicate XM_FIFO_COUNT None)
     in if r \<noteq> 0 then (- ENOMEM, [])
        else let (r2, fs) = fifo_control_init (get XM_FIFO_COUNT) fp
             in if r2 \<noteq> 0 then (- ENOMEM, []) else (0, fs))"

definition rt_fifo_xm_ioctl :: "nat \<Rightarrow> nat \<Rightarrow> int" where
  "rt_fifo_xm_ioctl minor cmd = (if minor > XM_FIFO_COUNT then - EINVAL else 0)"

section \<open>Reading, writing, flushing\<close>

text \<open>The copies out of and into the page: d the page, S its size, t and b the two positions.\<close>

definition read_copy :: "u8 list \<Rightarrow> nat \<Rightarrow> nat \<Rightarrow> nat \<Rightarrow> u8 list \<Rightarrow> nat \<Rightarrow> u8 list option" where
  "read_copy d S t b buf n =
    (if t \<ge> b then memcpy buf 0 d b n
     else if n > S - b then do {
       b1 \<leftarrow> memcpy buf 0 d b (S - b);
       memcpy b1 (S - b) d 0 (n - (S - b)) }
     else memcpy buf 0 d b n)"

definition write_copy :: "u8 list \<Rightarrow> nat \<Rightarrow> nat \<Rightarrow> nat \<Rightarrow> u8 list \<Rightarrow> nat \<Rightarrow> u8 list option" where
  "write_copy d S t b src n =
    (if t \<le> b then memcpy d t src 0 n
     else if S - t \<ge> n then memcpy d t src 0 n
     else do {
       d1 \<leftarrow> memcpy d t src 0 (S - t);
       memcpy d1 0 src (S - t) (n - (S - t)) })"

text \<open>if (sz > avail) sz = avail;\<close>

definition clip :: "nat \<Rightarrow> nat \<Rightarrow> nat" where
  "clip sz avail = (if sz > avail then avail else sz)"

text \<open>dest is the caller's buffer, None for NULL; the result has the buffer after the call.\<close>

definition rt_fifo_user_read ::
  "fifo_struct list \<Rightarrow> int \<Rightarrow> u8 list option \<Rightarrow> int \<Rightarrow> (int \<times> u8 list option \<times> fifo_struct list) option" where
  "rt_fifo_user_read fifos index dest size0 =
    (if INDEX_UNVALID index \<or> dest = None \<or> size0 < 0 then Some (- EINVAL, dest, fifos)
     else do {
       ff0 \<leftarrow> rd fifos (nat index);
       if \<not> FIFO_USABLE ff0 then Some (- ENODEV, dest, fifos)
       else do {
         buf \<leftarrow> dest;
         let ff = ff0\<lparr>ff_flags := ff_flags ff0 OR FIFO_RD\<rparr>;
         let sz = clip (nat size0) (FIFO_USED_SIZE ff);
         let old_bom = ff_bom ff;
         guard_c (long_ok (old_bom + sz));
         let new_bom = old_bom + sz;
         let bom = old_bom mod ff_size ff;
         buf1 \<leftarrow> read_copy (ff_addr ff) (ff_size ff) (ff_top ff mod ff_size ff) bom buf sz;
         let ff1 = ff\<lparr>ff_bom := new_bom\<rparr>;
         let ff2 = ff1\<lparr>ff_flags := ff_flags ff1 AND NOT FIFO_RD\<rparr>;
         let ff3 = (if ff_top ff2 = ff_bom ff2 then ff2\<lparr>ff_top := 0, ff_bom := 0\<rparr> else ff2);
         Some (int sz, Some buf1, fifos[nat index := ff3]) } })"

definition rt_fifo_user_write ::
  "fifo_struct list \<Rightarrow> int \<Rightarrow> u8 list option \<Rightarrow> int \<Rightarrow> (int \<times> fifo_struct list) option" where
  "rt_fifo_user_write fifos index src0 size0 =
    (if INDEX_UNVALID index \<or> src0 = None \<or> size0 < 0 then Some (- EINVAL, fifos)
     else do {
       ff0 \<leftarrow> rd fifos (nat index);
       if \<not> FIFO_USABLE ff0 then Some (- ENODEV, fifos)
       else do {
         src \<leftarrow> src0;
         let ff = ff0\<lparr>ff_flags := ff_flags ff0 OR FIFO_WR\<rparr>;
         let sz = clip (nat size0) (FIFO_FREE_SIZE ff);
         guard_c (long_ok (ff_top ff + sz));
         let new_top = ff_top ff + sz;
         let top0 = ff_top ff mod ff_size ff;
         data \<leftarrow> write_copy (ff_addr ff) (ff_size ff) top0 (ff_bom ff mod ff_size ff) src sz;
         let ff1 = ff\<lparr>ff_addr := data, ff_top := new_top\<rparr>;
         let ff2 = ff1\<lparr>ff_flags := ff_flags ff1 AND NOT FIFO_WR\<rparr>;
         Some (int sz, fifos[nat index := ff2]) } })"

definition rt_fifo_user_flush :: "fifo_struct list \<Rightarrow> int \<Rightarrow> (int \<times> fifo_struct list) option" where
  "rt_fifo_user_flush fifos index =
    (if INDEX_UNVALID index then Some (- EINVAL, fifos)
     else do {
       ff \<leftarrow> rd fifos (nat index);
       Some (0, fifos[nat index := ff\<lparr>ff_top := 0, ff_bom := 0\<rparr>]) })"

definition rt_fifo_user_ioctl :: "fifo_struct list \<Rightarrow> int \<Rightarrow> int \<Rightarrow> (int \<times> fifo_struct list) option" where
  "rt_fifo_user_ioctl fifos index cmd =
    (if INDEX_UNVALID index then Some (- EINVAL, fifos)
     else if cmd = FLUSH_FIFO then do {
       (ret, fs) \<leftarrow> rt_fifo_user_flush fifos index;
       if ret \<noteq> 0 then Some (ret, fs) else Some (0, fs) }
     else Some (0, fifos))"

section \<open>The ring as a bounded queue\<close>

definition wf_fifo :: "fifo_struct \<Rightarrow> bool" where
  "wf_fifo ff \<longleftrightarrow> 0 < ff_size ff \<and> length (ff_addr ff) = ff_size ff \<and> ff_bom ff \<le> ff_top ff \<and>
     ff_top ff - ff_bom ff < ff_size ff \<and> (ff_top ff = ff_bom ff \<longrightarrow> ff_top ff = 0) \<and> FIFO_USABLE ff"

definition ring :: "'a list \<Rightarrow> nat \<Rightarrow> nat \<Rightarrow> 'a list" where
  "ring d b n = map (\<lambda>i. d ! ((b + i) mod length d)) [0..<n]"

definition fifo_queue :: "fifo_struct \<Rightarrow> u8 list" where
  "fifo_queue ff = ring (ff_addr ff) (ff_bom ff) (ff_top ff - ff_bom ff)"

lemma length_ring [simp]: "length (ring d b n) = n"
  by (simp add: ring_def)

lemma ring_nth [simp]: "i < n \<Longrightarrow> ring d b n ! i = d ! ((b + i) mod length d)"
  by (simp add: ring_def)

lemma ring_mod: "ring d (b mod length d) n = ring d b n"
  by (simp add: ring_def mod_simps)

lemma take_ring: "m \<le> n \<Longrightarrow> take m (ring d b n) = ring d b m"
  by (rule nth_equalityI) auto

lemma drop_ring: "m \<le> n \<Longrightarrow> drop m (ring d b n) = ring d (b + m) (n - m)"
  by (rule nth_equalityI) (auto simp: ring_def add.assoc)

lemma ring_straight: "b + n \<le> length d \<Longrightarrow> ring d b n = take n (drop b d)"
  by (rule nth_equalityI) (auto simp: ring_def)

lemma ring_wrap:
  assumes "b < length d" "length d - b \<le> n" "n \<le> length d"
  shows "ring d b n = drop b d @ take (n - (length d - b)) d"
proof (rule nth_equalityI)
  show "length (ring d b n) = length (drop b d @ take (n - (length d - b)) d)"
    using assms by simp
  fix i assume "i < length (ring d b n)"
  then have i: "i < n" by simp
  show "ring d b n ! i = (drop b d @ take (n - (length d - b)) d) ! i"
  proof (cases "i < length d - b")
    case True
    then show ?thesis using i assms by (simp add: nth_append)
  next
    case False
    then have "(b + i) mod length d = i - (length d - b)"
      using i assms by (simp add: le_mod_geq)
    then show ?thesis using i assms False by (simp add: nth_append)
  qed
qed

text \<open>Arithmetic of the counters.\<close>

lemma used_num: "b \<le> t \<Longrightarrow> t - b < S \<Longrightarrow> (t + S - b) mod S = t - (b :: nat)"
proof -
  assume "b \<le> t" "t - b < S"
  then have "t + S - b = (t - b) + S" by simp
  then show ?thesis using \<open>t - b < S\<close> by (simp only: mod_add_self2 mod_less)
qed

lemma free_num: "b \<le> t \<Longrightarrow> t - b < S \<Longrightarrow> (b + S - t - 1) mod S = S - 1 - (t - (b :: nat))"
proof -
  assume a: "b \<le> t" "t - b < S"
  then have e: "b + S - t - 1 = S - 1 - (t - b)" by linarith
  have "S - 1 - (t - b) < S" using a by linarith
  then show ?thesis unfolding e by (rule mod_less)
qed

lemma top_num: "b \<le> t \<Longrightarrow> t mod S = (b mod S + (t - b)) mod (S :: nat)"
  by (metis le_add_diff_inverse mod_add_left_eq)

lemma top_wrapped:
  assumes "b \<le> t" "t - b < S" "b mod S + (t - b) \<ge> S"
  shows "t mod S = b mod S + (t - b) - (S :: nat)"
proof -
  have "b mod S + (t - b) - S < S"
    using assms(2) mod_less_divisor [of S b] by linarith
  then show ?thesis unfolding top_num [OF assms(1)] using assms(3) by (metis le_mod_geq mod_less)
qed

lemma top_straight: "b \<le> t \<Longrightarrow> b mod S + (t - b) < S \<Longrightarrow> t mod S = b mod S + (t - (b :: nat))"
  by (simp add: top_num)

lemma mod_distinct:
  assumes "x < y" "y - x < S"
  shows "x mod S \<noteq> y mod (S :: nat)"
proof
  assume "x mod S = y mod S"
  then have "S dvd y - x" using assms(1) by (metis less_imp_le mod_eq_dvd_iff_nat)
  then show False using assms by (auto dest: dvd_imp_le)
qed

text \<open>The copies of the read routine fetch the front of the queue.\<close>

lemma read_copy_ok:
  assumes S: "0 < S" "length d = S" "b \<le> t" "t - b < S"
    and n: "n \<le> t - b" "n \<le> length buf" and bp: "bp = b mod S"
  shows "read_copy d S (t mod S) bp buf n = Some (ring d b n @ drop n buf)"
proof -
  have bS: "bp < S" using bp S(1) by simp
  have q: "ring d b n = ring d bp n" using ring_mod [of d b n] bp S(2) by simp
  show ?thesis
  proof (cases "bp + n \<le> S")
    case True
    have "memcpy buf 0 d bp n = Some (ring d b n @ drop n buf)"
      unfolding q using True n S(2) ring_straight [of bp n d] by (simp add: memcpy_def)
    moreover have "\<not> n > S - bp" using True bS by simp
    ultimately show ?thesis by (simp add: read_copy_def)
  next
    case False
    have "t mod S = bp + (t - b) - S" unfolding bp
      by (rule top_wrapped [OF S(3,4)]) (use False n bp in linarith)
    then have "\<not> t mod S \<ge> bp" using S(4) False n by linarith
    moreover have "memcpy buf 0 d bp (S - bp) = Some (drop bp d @ drop (S - bp) buf)"
      using bS S(2) False n by (simp add: memcpy_def)
    moreover have "memcpy (drop bp d @ drop (S - bp) buf) (S - bp) d 0 (n - (S - bp)) =
        Some (drop bp d @ take (n - (S - bp)) d @ drop n buf)"
      using bS S(2,4) False n by (simp add: memcpy_def)
    moreover have "ring d bp n = drop bp d @ take (n - (S - bp)) d"
      using ring_wrap [of bp d n] bS S(2,4) False n by simp
    moreover have "n > S - bp" using False bS by linarith
    ultimately show ?thesis unfolding q by (simp add: read_copy_def)
  qed
qed

text \<open>The copies of the write routine put the bytes behind the queue.\<close>

definition written :: "'a list \<Rightarrow> nat \<Rightarrow> 'a list \<Rightarrow> nat \<Rightarrow> 'a list \<Rightarrow> bool" where
  "written d t src n d' \<longleftrightarrow> length d' = length d \<and>
     (\<forall>i<n. d' ! ((t + i) mod length d) = src ! i) \<and>
     (\<forall>j<length d. (\<forall>i<n. j \<noteq> (t + i) mod length d) \<longrightarrow> d' ! j = d ! j)"

lemma written_ring:
  assumes w: "written d t src n d'" and S: "0 < length d" "b \<le> t" "t - b + n < length d" "n \<le> length src"
  shows "ring d' b (t - b + n) = ring d b (t - b) @ take n src"
proof (rule nth_equalityI)
  show "length (ring d' b (t - b + n)) = length (ring d b (t - b) @ take n src)" using S by simp
  fix k assume "k < length (ring d' b (t - b + n))"
  then have k: "k < t - b + n" by simp
  have len: "length d' = length d" using w by (simp add: written_def)
  show "ring d' b (t - b + n) ! k = (ring d b (t - b) @ take n src) ! k"
  proof (cases "k < t - b")
    case True
    have ne: "(b + k) mod length d \<noteq> (t + i) mod length d" if "i < n" for i
      by (rule mod_distinct) (use True that S in linarith)+
    have lt: "(b + k) mod length d < length d" using S(1) by simp
    have "d' ! ((b + k) mod length d) = d ! ((b + k) mod length d)"
      using w lt ne unfolding written_def by blast
    then show ?thesis using True k len by (simp add: nth_append)
  next
    case False
    then have i: "k - (t - b) < n" and e: "b + k = t + (k - (t - b))" using k S(2) by linarith+
    then have "d' ! ((b + k) mod length d) = src ! (k - (t - b))"
      unfolding e using w i unfolding written_def by blast
    then show ?thesis using False k len i S(4) by (simp add: nth_append)
  qed
qed

lemma written_straight:
  assumes "0 < length d" "tp = t mod length d" "tp + n \<le> length d" "n \<le> length src"
  shows "\<exists>d'. memcpy d tp src 0 n = Some d' \<and> written d t src n d'"
proof -
  obtain d' where d': "memcpy d tp src 0 n = Some d'" using assms by (simp add: memcpy_def)
  have pos: "(t + i) mod length d = tp + i" if "i < n" for i
    using that assms(2,3) by (metis add.commute add_less_cancel_left less_le_trans mod_add_right_eq mod_less)
  have "d' ! (tp + i) = src ! i" if "i < n" for i
    using memcpy_nth [OF d', of "tp + i"] that assms(3) by simp
  moreover have "d' ! j = d ! j" if "j < length d" "\<forall>i<n. j \<noteq> tp + i" for j
  proof -
    have np: "\<not> (tp \<le> j \<and> j < tp + n)" using that(2) by (metis add_less_cancel_left le_iff_add)
    show ?thesis using memcpy_nth [OF d' that(1)] unfolding if_not_P [OF np] .
  qed
  ultimately show ?thesis using d' memcpy_length [OF d'] pos by (auto simp: written_def)
qed

lemma written_wrapped:
  assumes "0 < length d" "tp = t mod length d" "length d - tp < n" "n \<le> length d" "n \<le> length src"
  shows "\<exists>d'. (do { d1 \<leftarrow> memcpy d tp src 0 (length d - tp);
              memcpy d1 0 src (length d - tp) (n - (length d - tp)) }) = Some d' \<and> written d t src n d'"
proof -
  let ?S = "length d"
  have tS: "tp < ?S" using assms by simp
  obtain d1 where d1: "memcpy d tp src 0 (?S - tp) = Some d1" using assms tS by (simp add: memcpy_def)
  have l1: "length d1 = ?S" using memcpy_length [OF d1] .
  have "0 + (n - (?S - tp)) \<le> length d1" "?S - tp + (n - (?S - tp)) \<le> length src"
    using assms(3-5) tS l1 by linarith+
  then obtain d' where d': "memcpy d1 0 src (?S - tp) (n - (?S - tp)) = Some d'"
    using memcpy_Some by blast
  have nth: "d' ! j = (if j < n - (?S - tp) then src ! (?S - tp + j)
      else if tp \<le> j then src ! (j - tp) else d ! j)" if "j < ?S" for j
    using memcpy_nth [OF d', of j] memcpy_nth [OF d1 that] that l1 tS by simp
  have pos: "(t + i) mod ?S = (if tp + i < ?S then tp + i else tp + i - ?S)" if "i < n" for i
  proof -
    have "(t + i) mod ?S = (tp + i) mod ?S" using assms(2) by (simp add: mod_add_left_eq)
    moreover have "tp + i - ?S < ?S" using that tS assms(4) by linarith
    ultimately show ?thesis by (simp add: le_mod_geq)
  qed
  have "d' ! ((t + i) mod ?S) = src ! i" if "i < n" for i
  proof (cases "tp + i < ?S")
    case True
    moreover have "\<not> tp + i < n - (?S - tp)" using tS assms(4) by linarith
    ultimately show ?thesis using nth [of "tp + i"] pos [OF that] by simp
  next
    case False
    then have "?S - tp + (tp + i - ?S) = i" "tp + i - ?S < n - (?S - tp)" "tp + i - ?S < ?S"
      using that tS assms(4) by linarith+
    then show ?thesis using nth [of "tp + i - ?S"] pos [OF that] False by simp
  qed
  moreover have "d' ! j = d ! j" if j: "j < ?S" and ne: "\<forall>i<n. j \<noteq> (t + i) mod ?S" for j
  proof -
    have "\<not> tp \<le> j"
    proof
      assume "tp \<le> j"
      then have "j - tp < n" "tp + (j - tp) = j" using j assms(3) by linarith+
      then show False using ne pos [of "j - tp"] j by metis
    qed
    moreover have "\<not> j < n - (?S - tp)"
    proof
      assume "j < n - (?S - tp)"
      then have "?S - tp + j < n" "tp + (?S - tp + j) = ?S + j" using tS by linarith+
      moreover from this have "\<not> tp + (?S - tp + j) < ?S" "tp + (?S - tp + j) - ?S = j" by linarith+
      ultimately show False using ne pos [of "?S - tp + j"] by metis
    qed
    ultimately show ?thesis using nth [OF j] by simp
  qed
  ultimately show ?thesis using d1 d' memcpy_length [OF d'] l1 by (auto simp: written_def)
qed

lemma write_copy_ok:
  assumes S: "0 < S" "length d = S" "b \<le> t" "t - b < S" "t = b \<longrightarrow> t = 0"
    and n: "n \<le> S - 1 - (t - b)" "n \<le> length src" and tp: "tp = t mod S"
  shows "\<exists>d'. write_copy d S tp (b mod S) src n = Some d' \<and> written d t src n d'"
proof -
  have tS: "tp < S" using tp S by simp
  show ?thesis
  proof (cases "tp \<le> b mod S")
    case True
    have "tp + n \<le> S"
    proof (cases "t = b")
      case True
      then show ?thesis using S tp n by simp
    next
      case False
      then have "b mod S + (t - b) \<ge> S"
        using True tp top_straight [OF S(3), of S] S(3) by linarith
      moreover from this have "tp = b mod S + (t - b) - S" using top_wrapped [OF S(3,4)] tp by simp
      ultimately show ?thesis using n(1) S(4) mod_less_divisor [OF S(1), of b] by linarith
    qed
    then show ?thesis using written_straight [of d tp t n src] True S tp n by (simp add: write_copy_def)
  next
    case False
    show ?thesis
    proof (cases "S - tp \<ge> n")
      case True
      then have "tp + n \<le> length d" using tS S(2) by linarith
      then show ?thesis using written_straight [of d tp t n src] False True S(1,2) tp n(2) by (simp add: write_copy_def)
    next
      case w: False
      then show ?thesis using written_wrapped [of d tp t n src] False S tp n by (simp add: write_copy_def)
    qed
  qed
qed

section \<open>Properties\<close>

lemma fifo_flags_wf [simp]:
  "ff_flags (ff\<lparr>ff_flags := w\<rparr>) = w"
  by simp

lemma usable_flags:
  "w AND FIFO_US = 0 \<Longrightarrow> FIFO_USABLE ff \<Longrightarrow> FIFO_USABLE (ff\<lparr>ff_flags := (ff_flags ff OR w) AND NOT w\<rparr>)"
proof -
  assume w: "w AND FIFO_US = 0" and u: "FIFO_USABLE ff"
  have b: "bit (ff_flags ff AND FIFO_US) n = bit ((ff_flags ff OR w) AND NOT w AND FIFO_US) n" for n
  proof -
    have "\<not> (bit w n \<and> bit FIFO_US n)" using w by (metis bit_and_iff bit_0_eq bot_apply bot_bool_def)
    moreover have "bit (ff_flags ff) n \<Longrightarrow> n < 32" by (rule word32_bit_cases)
    ultimately show ?thesis by (auto simp: bit_and_iff bit_or_iff bit_not_iff)
  qed
  then have "ff_flags ff AND FIFO_US = (ff_flags ff OR w) AND NOT w AND FIFO_US"
    by (intro bit_word_eqI)
  then show ?thesis using u by (simp add: FIFO_USABLE_def and.assoc)
qed

lemma usable_rd_wr:
  "FIFO_USABLE ff \<Longrightarrow> FIFO_USABLE (ff\<lparr>ff_flags := (ff_flags ff OR FIFO_RD) AND NOT FIFO_RD\<rparr>)"
  "FIFO_USABLE ff \<Longrightarrow> FIFO_USABLE (ff\<lparr>ff_flags := (ff_flags ff OR FIFO_WR) AND NOT FIFO_WR\<rparr>)"
  by (rule usable_flags; simp add: FIFO_RD_def FIFO_WR_def FIFO_US_def)+

lemma usable_cong: "ff_flags f = ff_flags g \<Longrightarrow> FIFO_USABLE f = FIFO_USABLE g"
  by (simp add: FIFO_USABLE_def)

lemma fifo_write_ok:
  assumes i: "\<not> INDEX_UNVALID index" "length fifos = XM_FIFO_COUNT"
    and w: "wf_fifo (fifos ! nat index)" and s: "0 \<le> len" "nat len \<le> length src"
    and o: "ff_top (fifos ! nat index) + ff_size (fifos ! nat index) \<le> 2 ^ 31"
  shows "\<exists>ff'. rt_fifo_user_write fifos index (Some src) len =
     Some (int (min (nat len) (ff_size (fifos ! nat index) - 1 - length (fifo_queue (fifos ! nat index)))),
           fifos[nat index := ff']) \<and> wf_fifo ff' \<and> ff_size ff' = ff_size (fifos ! nat index) \<and>
     ff_bom ff' = ff_bom (fifos ! nat index) \<and>
     fifo_queue ff' = fifo_queue (fifos ! nat index) @
        take (min (nat len) (ff_size (fifos ! nat index) - 1 - length (fifo_queue (fifos ! nat index)))) src"
proof -
  let ?ff = "fifos ! nat index"
  have S: "0 < ff_size ?ff" "length (ff_addr ?ff) = ff_size ?ff" "ff_bom ?ff \<le> ff_top ?ff"
    "ff_top ?ff - ff_bom ?ff < ff_size ?ff" "ff_top ?ff = ff_bom ?ff \<longrightarrow> ff_top ?ff = 0" "FIFO_USABLE ?ff"
    using w by (simp_all add: wf_fifo_def)
  define fr where "fr = ff_size ?ff - 1 - (ff_top ?ff - ff_bom ?ff)"
  define n where "n = min (nat len) fr"
  have n: "n \<le> ff_size ?ff - 1 - (ff_top ?ff - ff_bom ?ff)" "n \<le> length src"
    using s by (simp_all add: n_def fr_def)
  have q: "length (fifo_queue ?ff) = ff_top ?ff - ff_bom ?ff" by (simp add: fifo_queue_def)
  have free: "FIFO_FREE_SIZE (?ff\<lparr>ff_flags := v\<rparr>) = fr" for v
    using free_num [OF S(3,4)] by (simp add: FIFO_FREE_SIZE_def fr_def)
  have sz: "clip (nat len) fr = n" by (simp add: n_def min_def clip_def)
  have g: "long_ok (ff_top ?ff + n)" using o n(1) S(1) unfolding long_ok_def by linarith
  obtain d where d: "write_copy (ff_addr ?ff) (ff_size ?ff) (ff_top ?ff mod ff_size ?ff)
      (ff_bom ?ff mod ff_size ?ff) src n = Some d"
    "written (ff_addr ?ff) (ff_top ?ff) src n d"
    using write_copy_ok [OF S(1-5) n refl] by blast
  define ff' where "ff' = ?ff\<lparr>ff_addr := d, ff_top := ff_top ?ff + n,
     ff_flags := (ff_flags ?ff OR FIFO_WR) AND NOT FIFO_WR\<rparr>"
  have idx: "nat index < length fifos" using i by (auto simp: INDEX_UNVALID_def)
  have res: "rt_fifo_user_write fifos index (Some src) len = Some (int n, fifos[nat index := ff'])"
    unfolding rt_fifo_user_write_def using i(1) s(1) idx S(6)
    by (simp add: free sz g d(1) ff'_def Let_def FIFO_USABLE_def del: One_nat_def diff_diff_left)
  have "ring d (ff_bom ?ff) (ff_top ?ff - ff_bom ?ff + n) =
      ring (ff_addr ?ff) (ff_bom ?ff) (ff_top ?ff - ff_bom ?ff) @ take n src"
    by (rule written_ring [OF d(2)]) (use S n in linarith)+
  moreover have "ff_top ?ff + n - ff_bom ?ff = ff_top ?ff - ff_bom ?ff + n" using S(3) by simp
  ultimately have "fifo_queue ff' = fifo_queue ?ff @ take n src" by (simp add: fifo_queue_def ff'_def)
  moreover have "wf_fifo ff'"
  proof -
    have "FIFO_USABLE ff'" using usable_rd_wr(2) [OF S(6)] by (simp add: ff'_def FIFO_USABLE_def)
    moreover have "length d = ff_size ?ff" using d(2) S(2) by (simp add: written_def)
    moreover have "ff_top ?ff + n - ff_bom ?ff < ff_size ?ff" using S n by linarith
    moreover have "ff_top ?ff + n = ff_bom ?ff \<longrightarrow> ff_top ?ff + n = 0" using S(3,5) by linarith
    ultimately show ?thesis using S(1,3) by (simp add: wf_fifo_def ff'_def)
  qed
  moreover have "ff_size ff' = ff_size ?ff" "ff_bom ff' = ff_bom ?ff" by (simp_all add: ff'_def)
  moreover have "min (nat len) (ff_size ?ff - 1 - length (fifo_queue ?ff)) = n"
    unfolding q n_def fr_def ..
  ultimately show ?thesis unfolding \<open>min (nat len) _ = n\<close> using res by (intro exI [of _ ff'] conjI)
qed

text \<open>Writing to a real-time FIFO never leaves the page: it appends the first bytes of the
  source behind the queued ones, as many as are asked for and fit (at most the size of the page
  minus one are ever queued), reports how many, keeps the ring well formed and leaves the other
  FIFOs alone.\<close>
theorem rt_fifo_write_appends:
  assumes i: "\<not> INDEX_UNVALID index" "length fifos = XM_FIFO_COUNT"
    and w: "wf_fifo (fifos ! nat index)" and s: "0 \<le> len" "nat len \<le> length src"
    and o: "ff_top (fifos ! nat index) + ff_size (fifos ! nat index) \<le> 2 ^ 31"
  shows "\<exists>ff'. rt_fifo_user_write fifos index (Some src) len =
     Some (int (min (nat len) (ff_size (fifos ! nat index) - 1 - length (fifo_queue (fifos ! nat index)))),
           fifos[nat index := ff']) \<and> wf_fifo ff' \<and> ff_size ff' = ff_size (fifos ! nat index) \<and>
     ff_bom ff' = ff_bom (fifos ! nat index) \<and>
     fifo_queue ff' = fifo_queue (fifos ! nat index) @
        take (min (nat len) (ff_size (fifos ! nat index) - 1 - length (fifo_queue (fifos ! nat index)))) src"
  by (rule fifo_write_ok [OF assms])

lemma fifo_read_ok:
  assumes i: "\<not> INDEX_UNVALID index" "length fifos = XM_FIFO_COUNT"
    and w: "wf_fifo (fifos ! nat index)" and s: "0 \<le> len" "nat len \<le> length buf"
    and o: "ff_top (fifos ! nat index) < 2 ^ 31"
  shows "\<exists>ff'. rt_fifo_user_read fifos index (Some buf) len =
     Some (int (min (nat len) (length (fifo_queue (fifos ! nat index)))),
           Some (take (nat len) (fifo_queue (fifos ! nat index)) @
                 drop (min (nat len) (length (fifo_queue (fifos ! nat index)))) buf),
           fifos[nat index := ff']) \<and> wf_fifo ff' \<and> ff_size ff' = ff_size (fifos ! nat index) \<and>
     fifo_queue ff' = drop (nat len) (fifo_queue (fifos ! nat index))"
proof -
  let ?ff = "fifos ! nat index"
  have S: "0 < ff_size ?ff" "length (ff_addr ?ff) = ff_size ?ff" "ff_bom ?ff \<le> ff_top ?ff"
    "ff_top ?ff - ff_bom ?ff < ff_size ?ff" "ff_top ?ff = ff_bom ?ff \<longrightarrow> ff_top ?ff = 0" "FIFO_USABLE ?ff"
    using w by (simp_all add: wf_fifo_def)
  define us where "us = ff_top ?ff - ff_bom ?ff"
  define n where "n = min (nat len) us"
  have n: "n \<le> ff_top ?ff - ff_bom ?ff" "n \<le> length buf" using s by (simp_all add: n_def us_def)
  have q: "fifo_queue ?ff = ring (ff_addr ?ff) (ff_bom ?ff) us" by (simp add: fifo_queue_def us_def)
  have used: "FIFO_USED_SIZE (?ff\<lparr>ff_flags := v\<rparr>) = us" for v
    using used_num [OF S(3,4)] by (simp add: FIFO_USED_SIZE_def us_def)
  have sz: "clip (nat len) us = n" by (simp add: n_def min_def clip_def)
  have g: "long_ok (ff_bom ?ff + n)" using o n(1) S(3) unfolding long_ok_def by linarith
  have cp: "read_copy (ff_addr ?ff) (ff_size ?ff) (ff_top ?ff mod ff_size ?ff) (ff_bom ?ff mod ff_size ?ff) buf n =
      Some (ring (ff_addr ?ff) (ff_bom ?ff) n @ drop n buf)"
    by (rule read_copy_ok [OF S(1-4) n refl])
  define ff2 where "ff2 = ?ff\<lparr>ff_bom := ff_bom ?ff + n,
     ff_flags := (ff_flags ?ff OR FIFO_RD) AND NOT FIFO_RD\<rparr>"
  define ff' where "ff' = (if ff_top ff2 = ff_bom ff2 then ff2\<lparr>ff_top := 0, ff_bom := 0\<rparr> else ff2)"
  have idx: "nat index < length fifos" using i by (auto simp: INDEX_UNVALID_def)
  have res: "rt_fifo_user_read fifos index (Some buf) len =
      Some (int n, Some (ring (ff_addr ?ff) (ff_bom ?ff) n @ drop n buf), fifos[nat index := ff'])"
    unfolding rt_fifo_user_read_def using i(1) s(1) idx S(6)
    by (simp add: used sz g cp ff'_def ff2_def Let_def FIFO_USABLE_def del: One_nat_def)
  have tk: "take (nat len) (fifo_queue ?ff) = ring (ff_addr ?ff) (ff_bom ?ff) n"
    "min (nat len) (length (fifo_queue ?ff)) = n"
  proof -
    have "take (nat len) (fifo_queue ?ff) = take n (fifo_queue ?ff)"
      unfolding q n_def by (simp add: min_def)
    then show "take (nat len) (fifo_queue ?ff) = ring (ff_addr ?ff) (ff_bom ?ff) n"
      using n(1) unfolding q by (simp add: take_ring us_def)
  qed (simp add: q n_def)
  have dr: "drop (nat len) (fifo_queue ?ff) = ring (ff_addr ?ff) (ff_bom ?ff + n) (us - n)"
  proof -
    have "drop (nat len) (fifo_queue ?ff) = drop n (fifo_queue ?ff)"
      unfolding q n_def by (simp add: min_def)
    then show ?thesis using n(1) unfolding q by (simp add: drop_ring us_def)
  qed
  have u2: "FIFO_USABLE ff2" using usable_rd_wr(1) [OF S(6)] by (simp add: ff2_def FIFO_USABLE_def)
  have "wf_fifo ff' \<and> ff_size ff' = ff_size ?ff \<and>
      fifo_queue ff' = ring (ff_addr ?ff) (ff_bom ?ff + n) (us - n)"
  proof (cases "ff_top ff2 = ff_bom ff2")
    case True
    then have e: "us - n = 0" using S(3) by (simp add: ff2_def us_def)
    have f: "ff' = ff2\<lparr>ff_top := 0, ff_bom := 0\<rparr>" using True by (simp add: ff'_def)
    have "FIFO_USABLE ff'" using u2 by (simp add: f FIFO_USABLE_def)
    then have "wf_fifo ff'" using S(1,2) by (simp add: wf_fifo_def f ff2_def)
    then show ?thesis unfolding e by (simp add: f ff2_def fifo_queue_def ring_def)
  next
    case False
    then have f: "ff' = ff2" by (simp add: ff'_def)
    have t: "ff_top ?ff - (ff_bom ?ff + n) = us - n" by (simp add: us_def)
    have "ff_bom ?ff + n \<le> ff_top ?ff" using n(1) S(3) by linarith
    moreover have "us - n < ff_size ?ff" using S(4) by (simp add: us_def)
    ultimately show ?thesis using u2 False S(1,2) t unfolding f
      by (simp add: wf_fifo_def ff2_def fifo_queue_def)
  qed
  then show ?thesis unfolding tk dr using res by (intro exI [of _ ff'] conjI) simp_all
qed

text \<open>Reading from a real-time FIFO delivers the oldest queued bytes in order, as many as are
  asked for and present, into the first cells of the buffer, removes exactly them from the queue
  and keeps the ring well formed.\<close>
theorem rt_fifo_read_takes:
  assumes i: "\<not> INDEX_UNVALID index" "length fifos = XM_FIFO_COUNT"
    and w: "wf_fifo (fifos ! nat index)" and s: "0 \<le> len" "nat len \<le> length buf"
    and o: "ff_top (fifos ! nat index) < 2 ^ 31"
  shows "\<exists>ff'. rt_fifo_user_read fifos index (Some buf) len =
     Some (int (min (nat len) (length (fifo_queue (fifos ! nat index)))),
           Some (take (nat len) (fifo_queue (fifos ! nat index)) @
                 drop (min (nat len) (length (fifo_queue (fifos ! nat index)))) buf),
           fifos[nat index := ff']) \<and> wf_fifo ff' \<and> ff_size ff' = ff_size (fifos ! nat index) \<and>
     fifo_queue ff' = drop (nat len) (fifo_queue (fifos ! nat index))"
  by (rule fifo_read_ok [OF assms])

text \<open>What is written to an empty real-time FIFO with room for it is what the next read returns.\<close>
theorem rt_fifo_roundtrip:
  assumes i: "\<not> INDEX_UNVALID index" "length fifos = XM_FIFO_COUNT"
    and w: "wf_fifo (fifos ! nat index)" and e: "fifo_queue (fifos ! nat index) = []"
    and b: "length src < ff_size (fifos ! nat index)" "ff_size (fifos ! nat index) \<le> 2 ^ 30"
      "length buf = length src"
  shows "\<exists>fifos1 fifos2. rt_fifo_user_write fifos index (Some src) (int (length src)) =
        Some (int (length src), fifos1) \<and>
     rt_fifo_user_read fifos1 index (Some buf) (int (length src)) = Some (int (length src), Some src, fifos2)"
proof -
  let ?ff = "fifos ! nat index"
  have "ff_top ?ff = ff_bom ?ff" using e w by (auto simp: fifo_queue_def ring_def wf_fifo_def)
  then have t: "ff_top ?ff = 0" "ff_bom ?ff = 0" using w by (simp_all add: wf_fifo_def)
  have m: "min (length src) (ff_size ?ff - 1 - length (fifo_queue ?ff)) = length src"
    using b e by simp
  obtain ff1 where w1: "rt_fifo_user_write fifos index (Some src) (int (length src)) =
      Some (int (length src), fifos[nat index := ff1])" "wf_fifo ff1" "ff_bom ff1 = 0"
      "fifo_queue ff1 = src"
    using fifo_write_ok [OF i w, of "int (length src)" src] t b m e by auto
  let ?f1 = "fifos[nat index := ff1]"
  have idx: "nat index < length fifos" using i by (auto simp: INDEX_UNVALID_def)
  have "length (fifo_queue ff1) = ff_top ff1" using w1(3) by (simp add: fifo_queue_def)
  then have t1: "ff_top ff1 < 2 ^ 31" using w1(4) b(1,2) by simp
  have "length ?f1 = XM_FIFO_COUNT" "wf_fifo (?f1 ! nat index)" "ff_top (?f1 ! nat index) < 2 ^ 31"
    using i(2) idx w1(2) t1 by simp_all
  from fifo_read_ok [OF i(1) this(1,2) _ _ this(3), of "int (length src)" buf]
  obtain ff2 where "rt_fifo_user_read ?f1 index (Some buf) (int (length src)) =
      Some (int (length src), Some src, ?f1[nat index := ff2])"
    using idx w1(4) b(3) by auto
  then show ?thesis using w1(1) by blast
qed

text \<open>A flush empties the FIFO and nothing else.\<close>
theorem rt_fifo_flush_empties:
  assumes "\<not> INDEX_UNVALID index" "length fifos = XM_FIFO_COUNT" "wf_fifo (fifos ! nat index)"
  shows "\<exists>ff'. rt_fifo_user_ioctl fifos index FLUSH_FIFO = Some (0, fifos[nat index := ff']) \<and>
     wf_fifo ff' \<and> fifo_queue ff' = [] \<and> ff_addr ff' = ff_addr (fifos ! nat index)"
proof -
  let ?ff = "(fifos ! nat index)\<lparr>ff_top := 0, ff_bom := 0\<rparr>"
  have idx: "nat index < length fifos" using assms by (auto simp: INDEX_UNVALID_def)
  have "rt_fifo_user_ioctl fifos index FLUSH_FIFO = Some (0, fifos[nat index := ?ff])"
    using assms(1) idx by (simp add: rt_fifo_user_ioctl_def rt_fifo_user_flush_def)
  moreover have "wf_fifo ?ff" "fifo_queue ?ff = []"
    using assms(3) by (simp_all add: wf_fifo_def fifo_queue_def ring_def FIFO_USABLE_def)
  ultimately show ?thesis by (intro exI [of _ ?ff]) simp
qed

definition demo_fifo :: fifo_struct where
  "demo_fifo = \<lparr>ff_flags = 8, ff_top = 6, ff_bom = 3, ff_size = 4, ff_addr = [11, 12, 13, 14]\<rparr>"

definition demo_fifos :: "fifo_struct list" where
  "demo_fifos = (replicate 16 (demo_fifo\<lparr>ff_top := 0, ff_bom := 0\<rparr>))[3 := demo_fifo]"

lemma demo_fifos_nth:
  "demo_fifos ! 3 = demo_fifo" "demo_fifos ! 2 = demo_fifo\<lparr>ff_top := 0, ff_bom := 0\<rparr>"
  by (simp_all add: demo_fifos_def)

lemma demo_fifos_wf:
  "length demo_fifos = XM_FIFO_COUNT" "wf_fifo (demo_fifos ! 3)" "wf_fifo (demo_fifos ! 2)"
  "\<not> INDEX_UNVALID 2" "\<not> INDEX_UNVALID 3"
  "ff_size (demo_fifos ! 2) = 4" "ff_size (demo_fifos ! 3) = 4"
  "ff_top (demo_fifos ! 2) = 0" "ff_top (demo_fifos ! 3) = 6"
  "ff_addr (demo_fifos ! 3) = [11, 12, 13, 14]"
  by (simp_all add: demo_fifos_nth wf_fifo_def FIFO_USABLE_def FIFO_US_def INDEX_UNVALID_def XM_FIFO_COUNT_def)
    (simp_all add: demo_fifos_def demo_fifo_def XM_FIFO_COUNT_def)

lemma demo_fifos_queue: "fifo_queue (demo_fifos ! 2) = []" "fifo_queue (demo_fifos ! 3) = [14, 11, 12]"
  unfolding demo_fifos_nth fifo_queue_def ring_def demo_fifo_def by (simp_all add: upt_rec)

lemma rt_fifo_write_appends_witness:
  "\<exists>ff'. rt_fifo_user_write demo_fifos 2 (Some [7, 8, 9, 10]) 4 = Some (3, demo_fifos[2 := ff']) \<and>
     wf_fifo ff' \<and> fifo_queue ff' = [7, 8, 9]"
  using rt_fifo_write_appends [of 2 demo_fifos 4 "[7, 8, 9, 10]"]
  by (auto simp: demo_fifos_wf demo_fifos_queue)

lemma rt_fifo_read_takes_witness:
  "\<exists>ff'. rt_fifo_user_read demo_fifos 3 (Some [0, 0]) 2 = Some (2, Some [14, 11], demo_fifos[3 := ff']) \<and>
     wf_fifo ff' \<and> fifo_queue ff' = [12]"
  using rt_fifo_read_takes [of 3 demo_fifos 2 "[0, 0]"]
  by (auto simp: demo_fifos_wf demo_fifos_queue)

lemma rt_fifo_roundtrip_witness:
  "\<exists>fifos1 fifos2. rt_fifo_user_write demo_fifos 2 (Some [1, 2]) 2 = Some (2, fifos1) \<and>
     rt_fifo_user_read fifos1 2 (Some [0, 0]) 2 = Some (2, Some [1, 2], fifos2)"
  using rt_fifo_roundtrip [of 2 demo_fifos "[1, 2]" "[0, 0]"]
  by (simp add: demo_fifos_wf demo_fifos_queue)

lemma rt_fifo_flush_empties_witness:
  "\<exists>ff'. rt_fifo_user_ioctl demo_fifos 3 FLUSH_FIFO = Some (0, demo_fifos[3 := ff']) \<and>
     wf_fifo ff' \<and> fifo_queue ff' = [] \<and> ff_addr ff' = [11, 12, 13, 14]"
  using rt_fifo_flush_empties [of 3 demo_fifos] by (simp add: demo_fifos_wf)

end
