(* ===== verification/PState.thy ===== *)
theory PState
  imports Links Bitops PHeap
begin

unbundle bit_operations_syntax

text \<open>
  PaRTiKle's threads and the state of the kernel (core/include/types.h,
  pthread.h, sched_struct.h, irqs.h), and the doubly linked lists of
  pthread_list.h.  Threads live in a store indexed by addresses.  A list node
  is a field of a thread, so a pointer to a node of a given kind of list is the
  address of the thread that holds it.
\<close>

section \<open>Threads\<close>

record sched_param =
  sp_policy :: int
  sched_priority :: int
  sp_deadline :: time_ns
  sp_period :: time_ns

record pthread_list_t =
  pl_prev :: "nat option"
  pl_next :: "nat option"
  pl_this :: "nat option"

record stack_struct =
  stack_bottom :: nat
  stack_size :: nat

record pthread_struct =
  pt_stack :: nat
  thread_flags :: u32
  stack_info :: stack_struct
  pt_sched_param :: sched_param
  magic_number :: u32
  pt_errno :: int
  exit_value :: nat
  joining_thread :: "nat option"
  sleep_ktimer :: int
  used_time :: time_ns
  starting_time :: time_ns
  sigpending :: u32
  sigmask :: u32
  cleanup_routine_table :: "(nat \<times> nat) list"
  top_cr_table :: int
  pt_thread_list :: pthread_list_t
  pt_mutex_list :: pthread_list_t
  pt_cond_list :: pthread_list_t
  pt_sem_list :: pthread_list_t
  next_matrix :: "nat option"
  prev_matrix :: "nat option"
  ss_i :: int
  ss_j :: int
  tsd :: "nat list"

definition READY_THREAD :: u32 where "READY_THREAD = 0"
definition SUSPENDED_THREAD :: u32 where "SUSPENDED_THREAD = 1"
definition FINISHED_THREAD :: u32 where "FINISHED_THREAD = 2"

definition SET_THREAD_STATE :: "u32 \<Rightarrow> pthread_struct \<Rightarrow> pthread_struct" where
  "SET_THREAD_STATE s t = t\<lparr>thread_flags := (thread_flags t AND NOT 0x7) OR (s AND 0x7)\<rparr>"

definition GET_THREAD_STATE :: "pthread_struct \<Rightarrow> u32" where
  "GET_THREAD_STATE t = thread_flags t AND 0x7"

definition GET_THREAD_DETACH_STATE :: "pthread_struct \<Rightarrow> u32" where
  "GET_THREAD_DETACH_STATE t = thread_flags t AND 0x8"

definition SET_THREAD_DETACH_STATE :: "bool \<Rightarrow> pthread_struct \<Rightarrow> pthread_struct" where
  "SET_THREAD_DETACH_STATE b t = t\<lparr>thread_flags := (if b then thread_flags t OR 0x8
     else thread_flags t AND NOT 0x8)\<rparr>"

definition GET_THREAD_CANCEL_STATE :: "pthread_struct \<Rightarrow> u32" where
  "GET_THREAD_CANCEL_STATE t = thread_flags t AND 0x10"

definition SET_THREAD_CANCEL_STATE :: "bool \<Rightarrow> pthread_struct \<Rightarrow> pthread_struct" where
  "SET_THREAD_CANCEL_STATE b t = t\<lparr>thread_flags := (if b then thread_flags t OR 0x10
     else thread_flags t AND NOT 0x10)\<rparr>"

definition GET_THREAD_CANCEL_TYPE :: "pthread_struct \<Rightarrow> u32" where
  "GET_THREAD_CANCEL_TYPE t = thread_flags t AND 0x20"

definition SET_THREAD_CANCEL_TYPE :: "bool \<Rightarrow> pthread_struct \<Rightarrow> pthread_struct" where
  "SET_THREAD_CANCEL_TYPE b t = t\<lparr>thread_flags := (if b then thread_flags t OR 0x20
     else thread_flags t AND NOT 0x20)\<rparr>"

definition SET_THREAD_POLICY :: "u32 \<Rightarrow> pthread_struct \<Rightarrow> pthread_struct" where
  "SET_THREAD_POLICY p t = t\<lparr>thread_flags := (thread_flags t AND NOT 0x3c0) OR push_bit 6 (p AND 0xf)\<rparr>"

definition GET_THREAD_POLICY :: "pthread_struct \<Rightarrow> u32" where
  "GET_THREAD_POLICY t = drop_bit 6 (thread_flags t AND 0x3c0)"

definition SET_THREAD_ACTIVATE_ON_SIGNAL :: "bool \<Rightarrow> pthread_struct \<Rightarrow> pthread_struct" where
  "SET_THREAD_ACTIVATE_ON_SIGNAL b t = t\<lparr>thread_flags := (if b then thread_flags t OR 0x400
     else thread_flags t AND NOT 0x400)\<rparr>"

definition GET_THREAD_ACTIVATE_ON_SIGNAL :: "pthread_struct \<Rightarrow> u32" where
  "GET_THREAD_ACTIVATE_ON_SIGNAL t = thread_flags t AND 0x400"

section \<open>Timers\<close>

text \<open>
  core/include/time.h.  The function pointers of a timer are one of the three
  clock readers and one of the two actions of time.c, or NULL.
\<close>

datatype clock_reader = read_monotonic_timer | read_realtime_timer | read_thread_cputime_timer

datatype timer_action = action_wakeup | action_kill

record sigevent =
  sigev_notify :: int
  sigev_signo :: int
  sigev_value :: int

record ktimer_t =
  owner :: "nat option"
  timer_value :: time_ns
  timer_interval :: time_ns
  clockid :: int
  kt_flags :: u32
  read_clock :: "clock_reader option"
  kt_action :: "timer_action option"
  kt_sigevent :: sigevent

section \<open>Synchronisation objects, signals, keys\<close>

text \<open>
  semaphore.h, types.h, signal.h.  A list pointer is the address of the first
  waiting thread.  The trace identifiers, present only with
  CONFIG_PORT_DEVTRACE, are left out.
\<close>

record sem_t =
  sem_value :: int
  sem_list :: "nat option"

record pthread_mutexattr_t =
  prio_protection :: int
  ma_prio :: int
  ma_type :: int
  owner_prio :: int

record pthread_mutex_t =
  m_magic_number :: u32
  counter :: int
  m_attr :: pthread_mutexattr_t
  m_owner :: "nat option"
  mutex_list :: "nat option"

record pthread_cond_t =
  cond_list :: "nat option"

text \<open>
  A handler is one of the functions of signal.c, one of the two values that
  stand for a default, or a function of the application.
\<close>

datatype sig_handler = SIG_DFL | SIG_IGN | sa_handler_SIG_DFL | sa_handler_SIG_IGN |
  WAKEUP_THREAD_handler | SLEEP_THREAD_handler | CANCEL_THREAD_handler | user_handler nat

record signal_table_struct =
  sa_handler :: "sig_handler option"
  sa_mask :: u32

record common_key_struct =
  in_use :: bool
  destructor :: "nat option"

section \<open>The state of the kernel\<close>

text \<open>
  A pointer to a ktimer_t is its index in timer_array; programmed is the
  interval the hardware timer was programmed with last.  saved_flags is the
  local flags variable of the scheduling frame of each thread that is switched
  out.
\<close>

record active_threads_t =
  thread_matrix :: "nat option list list"
  flbitmap :: u32
  slbitmap :: "u32 list"

record pk_state =
  threads :: "nat \<Rightarrow> pthread_struct option"
  active_threads :: active_threads_t
  current_thread :: "nat option"
  idle_thread :: "nat option"
  mainapp_thread :: "nat option"
  thread_list :: "nat option"
  timer_array :: "ktimer_t list"
  timer_heap :: "nat heap_t"
  programmed :: time_ns
  sems :: "nat \<Rightarrow> sem_t option"
  mutexes :: "nat \<Rightarrow> pthread_mutex_t option"
  conds :: "nat \<Rightarrow> pthread_cond_t option"
  signal_table :: "signal_table_struct list"
  keys :: "common_key_struct list"
  irq_nesting_counter :: u32
  pk_if :: bool
  saved_flags :: "nat \<Rightarrow> bool"

definition upd_th :: "nat \<Rightarrow> (pthread_struct \<Rightarrow> pthread_struct) \<Rightarrow> pk_state \<Rightarrow> pk_state option" where
  "upd_th a f st = do { t \<leftarrow> threads st a; Some (st\<lparr>threads := (threads st)(a \<mapsto> f t)\<rparr>) }"

lemma upd_th_Some [simp]:
  "threads st a = Some t \<Longrightarrow> upd_th a f st = Some (st\<lparr>threads := (threads st)(a \<mapsto> f t)\<rparr>)"
  by (simp add: upd_th_def)

section \<open>Lists of threads\<close>

datatype plkind = ThreadL | MutexL | CondL | SemL

fun get_pl :: "plkind \<Rightarrow> pthread_struct \<Rightarrow> pthread_list_t" where
  "get_pl ThreadL t = pt_thread_list t"
| "get_pl MutexL t = pt_mutex_list t"
| "get_pl CondL t = pt_cond_list t"
| "get_pl SemL t = pt_sem_list t"

fun map_pl :: "plkind \<Rightarrow> (pthread_list_t \<Rightarrow> pthread_list_t) \<Rightarrow> pthread_struct \<Rightarrow> pthread_struct" where
  "map_pl ThreadL f t = t\<lparr>pt_thread_list := f (pt_thread_list t)\<rparr>"
| "map_pl MutexL f t = t\<lparr>pt_mutex_list := f (pt_mutex_list t)\<rparr>"
| "map_pl CondL f t = t\<lparr>pt_cond_list := f (pt_cond_list t)\<rparr>"
| "map_pl SemL f t = t\<lparr>pt_sem_list := f (pt_sem_list t)\<rparr>"

definition init_pthread_list :: "nat option" where "init_pthread_list = None"

text \<open>Each routine takes the head pointer and returns the new one.\<close>

definition insert_pthread_list ::
  "plkind \<Rightarrow> nat option \<Rightarrow> nat \<Rightarrow> pk_state \<Rightarrow> (nat option \<times> pk_state) option" where
  "insert_pthread_list k h p st = do {
     st1 \<leftarrow> (case h of None \<Rightarrow> Some st
       | Some q \<Rightarrow> upd_th q (map_pl k (\<lambda>n. n\<lparr>pl_prev := Some p\<rparr>)) st);
     st2 \<leftarrow> upd_th p (map_pl k (\<lambda>n. n\<lparr>pl_next := h\<rparr>)) st1;
     Some (Some p, st2) }"

definition remove_pthread_list ::
  "plkind \<Rightarrow> nat option \<Rightarrow> nat \<Rightarrow> pk_state \<Rightarrow> (nat option \<times> pk_state) option" where
  "remove_pthread_list k h p st = do {
     t \<leftarrow> threads st p;
     st1 \<leftarrow> (case pl_next (get_pl k t) of None \<Rightarrow> Some st
       | Some q \<Rightarrow> upd_th q (map_pl k (\<lambda>n. n\<lparr>pl_prev := pl_prev (get_pl k t)\<rparr>)) st);
     t1 \<leftarrow> threads st1 p;
     st2 \<leftarrow> (case pl_prev (get_pl k t1) of None \<Rightarrow> Some st1
       | Some q \<Rightarrow> upd_th q (map_pl k (\<lambda>n. n\<lparr>pl_next := pl_next (get_pl k t1)\<rparr>)) st1);
     t2 \<leftarrow> threads st2 p;
     let h' = (if h = Some p then pl_next (get_pl k t2) else h);
     st3 \<leftarrow> upd_th p (map_pl k (\<lambda>n. n\<lparr>pl_prev := None, pl_next := None\<rparr>)) st2;
     Some (h', st3) }"

definition remove_head_pthread_list ::
  "plkind \<Rightarrow> nat option \<Rightarrow> pk_state \<Rightarrow> (nat option \<times> nat option \<times> pk_state) option" where
  "remove_head_pthread_list k h st =
    (case h of None \<Rightarrow> Some (None, None, st)
     | Some p \<Rightarrow> do {
         t \<leftarrow> threads st p;
         let h' = pl_next (get_pl k t);
         st1 \<leftarrow> (case h' of None \<Rightarrow> Some st
           | Some q \<Rightarrow> upd_th q (map_pl k (\<lambda>n. n\<lparr>pl_prev := None\<rparr>)) st);
         st2 \<leftarrow> upd_th p (map_pl k (\<lambda>n. n\<lparr>pl_prev := None, pl_next := None\<rparr>)) st1;
         t2 \<leftarrow> threads st2 p;
         Some (pl_this (get_pl k t2), h', st2) })"

lemma get_map_pl [simp]: "get_pl k (map_pl k f t) = f (get_pl k t)"
  by (cases k) simp_all

lemma map_pl_frame [simp]:
  "thread_flags (map_pl k f t) = thread_flags t" "next_matrix (map_pl k f t) = next_matrix t"
  "prev_matrix (map_pl k f t) = prev_matrix t" "ss_i (map_pl k f t) = ss_i t"
  "ss_j (map_pl k f t) = ss_j t" "pt_sched_param (map_pl k f t) = pt_sched_param t"
  by (cases k; simp)+

section \<open>The lists as HOL lists\<close>

definition pl_nx :: "plkind \<Rightarrow> pk_state \<Rightarrow> nat \<Rightarrow> nat option" where
  "pl_nx k st a = (case threads st a of None \<Rightarrow> None | Some t \<Rightarrow> pl_next (get_pl k t))"

definition pl_pr :: "plkind \<Rightarrow> pk_state \<Rightarrow> nat \<Rightarrow> nat option" where
  "pl_pr k st a = (case threads st a of None \<Rightarrow> None | Some t \<Rightarrow> pl_prev (get_pl k t))"

definition pthread_list :: "plkind \<Rightarrow> pk_state \<Rightarrow> nat option \<Rightarrow> nat list \<Rightarrow> bool" where
  "pthread_list k st h xs \<longleftrightarrow> set xs \<subseteq> dom (threads st) \<and> dlist (pl_nx k st) (pl_pr k st) h xs \<and>
     (\<forall>x\<in>set xs. pl_this (get_pl k (the (threads st x))) = Some x)"

text \<open>A node that is in no list has both links NULL and points to its thread.\<close>

definition pl_free :: "plkind \<Rightarrow> pk_state \<Rightarrow> nat \<Rightarrow> bool" where
  "pl_free k st a \<longleftrightarrow> (\<exists>t. threads st a = Some t \<and> get_pl k t = \<lparr>pl_prev = None, pl_next = None, pl_this = Some a\<rparr>)"

lemma pl_upd:
  assumes "threads st a = Some t"
  shows "pl_nx k (st\<lparr>threads := (threads st)(a \<mapsto> map_pl k f t)\<rparr>) = (pl_nx k st)(a := pl_next (f (get_pl k t)))"
    "pl_pr k (st\<lparr>threads := (threads st)(a \<mapsto> map_pl k f t)\<rparr>) = (pl_pr k st)(a := pl_prev (f (get_pl k t)))"
  by (auto simp: pl_nx_def pl_pr_def)

lemma insert_pthread_list_ok:
  assumes l: "pthread_list k st h xs" and p: "p \<notin> set xs" "pl_free k st p"
  shows "\<exists>st'. insert_pthread_list k h p st = Some (Some p, st') \<and> pthread_list k st' (Some p) (p # xs)"
proof -
  have sub: "set xs \<subseteq> dom (threads st)" and d: "dlist (pl_nx k st) (pl_pr k st) h xs"
    and th: "\<forall>x\<in>set xs. pl_this (get_pl k (the (threads st x))) = Some x"
    using l by (simp_all add: pthread_list_def)
  obtain t where t: "threads st p = Some t" "get_pl k t = \<lparr>pl_prev = None, pl_next = None, pl_this = Some p\<rparr>"
    using p(2) by (auto simp: pl_free_def)
  show ?thesis
  proof (cases xs)
    case Nil
    then have h: "h = None" using dlist_head [OF d] by simp
    let ?st = "st\<lparr>threads := (threads st)(p \<mapsto> map_pl k (\<lambda>n. n\<lparr>pl_next := None\<rparr>) t)\<rparr>"
    have "insert_pthread_list k h p st = Some (Some p, ?st)"
      using t h by (simp add: insert_pthread_list_def)
    moreover have "dlist (pl_nx k ?st) (pl_pr k ?st) (Some p) [p]"
      using t by (intro dlist_single) (simp_all add: pl_upd [OF t(1)])
    ultimately show ?thesis using Nil t by (intro exI [of _ ?st]) (simp add: pthread_list_def)
  next
    case (Cons q ys)
    then have h: "h = Some q" using dlist_head [OF d] by simp
    have pq: "p \<noteq> q" using p(1) Cons by auto
    obtain tq where tq: "threads st q = Some tq" using sub Cons by auto
    have prq: "pl_pr k st q = None" using dlist_split [of _ _ h "[]" q ys] d Cons by fastforce
    define st1 where "st1 = st\<lparr>threads := (threads st)(q \<mapsto> map_pl k (\<lambda>n. n\<lparr>pl_prev := Some p\<rparr>) tq)\<rparr>"
    define st2 where "st2 = st1\<lparr>threads := (threads st1)(p \<mapsto> map_pl k (\<lambda>n. n\<lparr>pl_next := h\<rparr>) t)\<rparr>"
    have t1: "threads st1 p = Some t" using t pq by (simp add: st1_def)
    have "insert_pthread_list k h p st = Some (Some p, st2)"
      using h tq t1 by (simp add: insert_pthread_list_def st1_def st2_def)
    moreover have nx: "pl_nx k st2 = (pl_nx k st)(p := Some q)"
    proof -
      have "pl_nx k st q = pl_next (get_pl k tq)" using tq by (simp add: pl_nx_def)
      then have "pl_nx k st1 = pl_nx k st" unfolding st1_def pl_upd(1) [OF tq] by auto
      then show ?thesis unfolding st2_def pl_upd(1) [OF t1] using h by simp
    qed
    have pr: "pl_pr k st2 = (pl_pr k st)(p := None, q := Some p)"
    proof -
      have "pl_pr k st1 = (pl_pr k st)(q := Some p)" unfolding st1_def pl_upd(2) [OF tq] by simp
      then show ?thesis unfolding st2_def pl_upd(2) [OF t1] using t(2) pq by (auto simp: fun_upd_twist)
    qed
    have "dlist (pl_nx k st2) (pl_pr k st2) (Some p) (p # q # ys)"
      using dlist_insert_before [of "pl_nx k st" "pl_pr k st" h "[]" q ys p "pl_nx k st2" "pl_pr k st2"]
        d p(1) Cons nx pr prq by (simp add: set_next_def)
    moreover have "\<forall>x\<in>set (p # xs). pl_this (get_pl k (the (threads st2 x))) = Some x"
      using th t(2) tq Cons by (auto simp: st2_def st1_def)
    moreover have "set (p # xs) \<subseteq> dom (threads st2)" using sub t by (auto simp: st2_def st1_def)
    ultimately show ?thesis using Cons by (intro exI [of _ st2]) (simp add: pthread_list_def)
  qed
qed

end
