(* ===== verification/PReady.thy ===== *)
theory PReady
  imports PState
begin

unbundle bit_operations_syntax

text \<open>
  PaRTiKle's structure of ready threads (core/include/sched_struct.h): 1024
  priorities as a 32 by 32 matrix of doubly linked lists, with two levels of
  bitmaps that say which lists are not empty.
\<close>

section \<open>Operations\<close>

definition prio2ij :: "int \<Rightarrow> nat \<times> nat" where
  "prio2ij prio = (nat (drop_bit 5 (prio AND 0x3ff)), nat (prio AND 0x1f))"

definition ij2prio :: "int \<Rightarrow> int \<Rightarrow> int" where
  "ij2prio i j = push_bit 5 (i AND 0x1f) OR (j AND 0x1f)"

definition init_ss :: active_threads_t where
  "init_ss = \<lparr>thread_matrix = replicate 32 (replicate 32 None), flbitmap = clearbitmap,
     slbitmap = replicate 32 clearbitmap\<rparr>"

definition mat_at :: "active_threads_t \<Rightarrow> nat \<Rightarrow> nat \<Rightarrow> nat option option" where
  "mat_at at i j = do { row \<leftarrow> rd (thread_matrix at) i; rd row j }"

definition mat_set :: "nat \<Rightarrow> nat \<Rightarrow> nat option \<Rightarrow> active_threads_t \<Rightarrow> active_threads_t option" where
  "mat_set i j v at = do {
     row \<leftarrow> rd (thread_matrix at) i;
     row' \<leftarrow> wr row j v;
     m \<leftarrow> wr (thread_matrix at) i row';
     Some (at\<lparr>thread_matrix := m\<rparr>) }"

text \<open>The two bitmap updates of an insertion, and those of a removal that empties a list.\<close>

definition mark_used :: "nat \<Rightarrow> nat \<Rightarrow> active_threads_t \<Rightarrow> active_threads_t option" where
  "mark_used i j at = do {
     let at1 = at\<lparr>flbitmap := setbit (flbitmap at) i\<rparr>;
     sl \<leftarrow> rd (slbitmap at1) i;
     sls \<leftarrow> wr (slbitmap at1) i (setbit sl j);
     Some (at1\<lparr>slbitmap := sls\<rparr>) }"

definition mark_empty :: "nat \<Rightarrow> nat \<Rightarrow> active_threads_t \<Rightarrow> active_threads_t option" where
  "mark_empty i j at = do {
     sl \<leftarrow> rd (slbitmap at) i;
     sls \<leftarrow> wr (slbitmap at) i (clearbit sl j);
     let at1 = at\<lparr>slbitmap := sls\<rparr>;
     sl1 \<leftarrow> rd (slbitmap at1) i;
     Some (if sl1 = 0 then at1\<lparr>flbitmap := clearbit (flbitmap at1) i\<rparr> else at1) }"

definition insert_ss :: "nat \<Rightarrow> int \<Rightarrow> pk_state \<Rightarrow> pk_state option" where
  "insert_ss th prio st = do {
     st1 \<leftarrow> upd_th th (\<lambda>t. t\<lparr>next_matrix := None, prev_matrix := None\<rparr>) st;
     let (i, j) = prio2ij prio;
     h \<leftarrow> mat_at (active_threads st1) i j;
     st2 \<leftarrow> upd_th th (\<lambda>t. t\<lparr>next_matrix := h\<rparr>) st1;
     st3 \<leftarrow> (case h of None \<Rightarrow> Some st2 | Some q \<Rightarrow> upd_th q (\<lambda>t. t\<lparr>prev_matrix := Some th\<rparr>) st2);
     at1 \<leftarrow> mat_set i j (Some th) (active_threads st3);
     at2 \<leftarrow> mark_used i j at1;
     upd_th th (\<lambda>t. t\<lparr>ss_i := int i, ss_j := int j\<rparr>) (st3\<lparr>active_threads := at2\<rparr>) }"

partial_function (option) tail_walk :: "(nat \<Rightarrow> pthread_struct option) \<Rightarrow> nat \<Rightarrow> nat option" where
  "tail_walk ths aux = do {
     t \<leftarrow> ths aux;
     (case next_matrix t of None \<Rightarrow> Some aux | Some n \<Rightarrow> tail_walk ths n) }"

declare tail_walk.simps [code]

definition insert_ss_tail :: "nat \<Rightarrow> int \<Rightarrow> pk_state \<Rightarrow> pk_state option" where
  "insert_ss_tail th prio st = do {
     let (i, j) = prio2ij prio;
     st1 \<leftarrow> upd_th th (\<lambda>t. t\<lparr>next_matrix := None, prev_matrix := None\<rparr>) st;
     h \<leftarrow> mat_at (active_threads st1) i j;
     st2 \<leftarrow> (case h of
       None \<Rightarrow> do {
         at1 \<leftarrow> mat_set i j (Some th) (active_threads st1);
         Some (st1\<lparr>active_threads := at1\<rparr>) }
     | Some first \<Rightarrow> do {
         aux \<leftarrow> tail_walk (threads st1) first;
         st1' \<leftarrow> upd_th aux (\<lambda>t. t\<lparr>next_matrix := Some th\<rparr>) st1;
         upd_th th (\<lambda>t. t\<lparr>prev_matrix := Some aux\<rparr>) st1' });
     at2 \<leftarrow> mark_used i j (active_threads st2);
     upd_th th (\<lambda>t. t\<lparr>ss_i := int i, ss_j := int j\<rparr>) (st2\<lparr>active_threads := at2\<rparr>) }"

text \<open>It yields the priority and the thread; the thread stays in its list.\<close>

definition get_head_ss :: "active_threads_t \<Rightarrow> (int \<times> nat option) option" where
  "get_head_ss at =
    (if flbitmap at = 0 then Some (-1, None)
     else do {
       let i = p_ffs (flbitmap at);
       sl \<leftarrow> rd (slbitmap at) (nat i);
       let j = p_ffs sl;
       _ \<leftarrow> guard_c (0 \<le> j);
       aux \<leftarrow> mat_at at (nat i) (nat j);
       Some (ij2prio i j, aux) })"

definition remove_ss :: "nat \<Rightarrow> pk_state \<Rightarrow> pk_state option" where
  "remove_ss th st = do {
     t \<leftarrow> threads st th;
     if ss_i t = -1 \<or> ss_j t = -1 then Some st
     else do {
       _ \<leftarrow> guard_c (0 \<le> ss_i t \<and> 0 \<le> ss_j t);
       let i = nat (ss_i t); let j = nat (ss_j t);
       st1 \<leftarrow> (case prev_matrix t of None \<Rightarrow> Some st
         | Some q \<Rightarrow> upd_th q (\<lambda>x. x\<lparr>next_matrix := next_matrix t\<rparr>) st);
       t1 \<leftarrow> threads st1 th;
       st2 \<leftarrow> (case next_matrix t1 of None \<Rightarrow> Some st1
         | Some q \<Rightarrow> upd_th q (\<lambda>x. x\<lparr>prev_matrix := prev_matrix t1\<rparr>) st1);
       t2 \<leftarrow> threads st2 th;
       h \<leftarrow> mat_at (active_threads st2) i j;
       at1 \<leftarrow> (if h = Some th then mat_set i j (next_matrix t2) (active_threads st2)
              else Some (active_threads st2));
       st3 \<leftarrow> upd_th th (\<lambda>x. x\<lparr>next_matrix := None, prev_matrix := None\<rparr>) st2;
       h' \<leftarrow> mat_at at1 i j;
       at2 \<leftarrow> (if h' = None then mark_empty i j at1 else Some at1);
       upd_th th (\<lambda>x. x\<lparr>ss_i := -1, ss_j := -1\<rparr>) (st3\<lparr>active_threads := at2\<rparr>) } }"

section \<open>Priorities and cells\<close>

lemma prio2ij_eq:
  "prio2ij prio = (nat (prio mod 1024) div 32, nat (prio mod 1024) mod 32)"
proof -
  have m: "prio AND 0x3ff = prio mod 1024" "prio AND 0x1f = prio mod 32"
    using take_bit_eq_mask [of 10 prio] take_bit_eq_mask [of 5 prio]
    by (simp_all add: take_bit_eq_mod mask_eq_exp_minus_1)
  have "prio mod 32 = (prio mod 1024) mod 32" by (simp add: mod_mod_cancel)
  then show ?thesis
    unfolding prio2ij_def m by (simp add: drop_bit_eq_div nat_div_distrib nat_mod_distrib)
qed

lemma prio_cell: "p < 1024 \<Longrightarrow> prio2ij (int p) = (p div 32, p mod 32)"
  by (simp add: prio2ij_eq flip: of_nat_mod)

lemma cell_eq_iff: "(p :: nat) div 32 = q div 32 \<and> p mod 32 = q mod 32 \<longleftrightarrow> p = q"
  by (metis div_mult_mod_eq)

lemma cell_bounds: "(p :: nat) < 1024 \<Longrightarrow> p div 32 < 32" "(p :: nat) mod 32 < 32"
  by auto

lemma ij2prio_eq:
  assumes "i < 32" "j < 32"
  shows "ij2prio (int i) (int j) = int (32 * i + j)"
proof -
  have m: "x AND 0x1f = x mod 32" for x :: int
    using take_bit_eq_mask [of 5 x] by (simp add: take_bit_eq_mod mask_eq_exp_minus_1)
  have d: "push_bit 5 (int i) AND int j = 0"
  proof (rule bit_eqI)
    fix n
    have "j < 2 ^ 5" using assms by simp
    then have "\<not> (5 \<le> n \<and> bit (int j) n)"
      by (metis of_nat_less_numeral_power_cancel_iff bit_take_bit_iff linorder_not_less take_bit_int_eq_self of_nat_0_le_iff)
    then show "bit (push_bit 5 (int i) AND int j) n = bit (0 :: int) n"
      by (auto simp: bit_simps)
  qed
  have "ij2prio (int i) (int j) = push_bit 5 (int i) OR int j"
    using assms by (simp add: ij2prio_def m)
  also have "\<dots> = push_bit 5 (int i) + int j" using d by (simp add: disjunctive_add_eq_or)
  finally show ?thesis by (simp add: push_bit_eq_mult)
qed

section \<open>The ready queues\<close>

definition mx :: "pk_state \<Rightarrow> nat \<Rightarrow> nat option" where
  "mx st a = (case threads st a of None \<Rightarrow> None | Some t \<Rightarrow> next_matrix t)"

definition mp :: "pk_state \<Rightarrow> nat \<Rightarrow> nat option" where
  "mp st a = (case threads st a of None \<Rightarrow> None | Some t \<Rightarrow> prev_matrix t)"

definition ssv :: "pk_state \<Rightarrow> nat \<Rightarrow> int \<times> int" where
  "ssv st a = (case threads st a of None \<Rightarrow> (0, 0) | Some t \<Rightarrow> (ss_i t, ss_j t))"

text \<open>The fields of a thread that the structure does not own.\<close>

definition ss_strip :: "pthread_struct \<Rightarrow> pthread_struct" where
  "ss_strip t = t\<lparr>next_matrix := None, prev_matrix := None, ss_i := 0, ss_j := 0\<rparr>"

definition same_but_ss :: "pk_state \<Rightarrow> pk_state \<Rightarrow> bool" where
  "same_but_ss st st' \<longleftrightarrow> (\<forall>a. map_option ss_strip (threads st' a) = map_option ss_strip (threads st a)) \<and>
     st'\<lparr>threads := threads st, active_threads := active_threads st\<rparr> = st"

definition cellp :: "active_threads_t \<Rightarrow> nat \<Rightarrow> nat option" where
  "cellp at p = thread_matrix at ! (p div 32) ! (p mod 32)"

definition slb :: "active_threads_t \<Rightarrow> nat \<Rightarrow> bool" where
  "slb at p \<longleftrightarrow> bit (slbitmap at ! (p div 32)) (p mod 32)"

definition wf_shape :: "active_threads_t \<Rightarrow> bool" where
  "wf_shape at \<longleftrightarrow> length (thread_matrix at) = 32 \<and> (\<forall>i<32. length (thread_matrix at ! i) = 32) \<and>
     length (slbitmap at) = 32"

definition fl_ok :: "active_threads_t \<Rightarrow> bool" where
  "fl_ok at \<longleftrightarrow> (\<forall>i<32. bit (flbitmap at) i \<longleftrightarrow> slbitmap at ! i \<noteq> 0)"

definition queue_ok :: "pk_state \<Rightarrow> nat \<Rightarrow> nat list \<Rightarrow> bool" where
  "queue_ok st p xs \<longleftrightarrow> dlist (mx st) (mp st) (cellp (active_threads st) p) xs \<and> set xs \<subseteq> dom (threads st) \<and>
     (\<forall>x\<in>set xs. ssv st x = (int (p div 32), int (p mod 32))) \<and>
     (slb (active_threads st) p \<longleftrightarrow> xs \<noteq> [])"

definition ready_queues :: "pk_state \<Rightarrow> (nat \<Rightarrow> nat list) \<Rightarrow> bool" where
  "ready_queues st Q \<longleftrightarrow> wf_shape (active_threads st) \<and> fl_ok (active_threads st) \<and>
     (\<forall>p<1024. queue_ok st p (Q p))"

text \<open>The threads that are in no queue.\<close>

definition unqueued :: "(nat \<Rightarrow> nat list) \<Rightarrow> nat \<Rightarrow> bool" where
  "unqueued Q a \<longleftrightarrow> (\<forall>p<1024. a \<notin> set (Q p))"

lemma same_but_ss_refl [simp, intro]: "same_but_ss st st"
  by (simp add: same_but_ss_def)

lemma same_but_ss_trans [trans]: "same_but_ss a b \<Longrightarrow> same_but_ss b c \<Longrightarrow> same_but_ss a c"
  unfolding same_but_ss_def by (cases a; cases b; cases c) auto

lemma same_but_ss_dom: "same_but_ss st st' \<Longrightarrow> dom (threads st') = dom (threads st)"
  unfolding same_but_ss_def dom_def by (metis option.map_disc_iff)

lemma same_but_ss_active [simp]: "same_but_ss st (st'\<lparr>active_threads := x\<rparr>) = same_but_ss st st'"
  by (cases st'; cases st) (simp add: same_but_ss_def)

lemma views_active [simp]:
  "mx (st\<lparr>active_threads := x\<rparr>) = mx st" "mp (st\<lparr>active_threads := x\<rparr>) = mp st"
  "ssv (st\<lparr>active_threads := x\<rparr>) = ssv st"
  by (auto simp: mx_def mp_def ssv_def)

lemma ss_upd:
  assumes "a \<in> dom (threads st)" and f: "\<And>t. ss_strip (f t) = ss_strip t"
  shows "\<exists>st' t. threads st a = Some t \<and> upd_th a f st = Some st' \<and> same_but_ss st st' \<and>
    mx st' = (mx st)(a := next_matrix (f t)) \<and> mp st' = (mp st)(a := prev_matrix (f t)) \<and>
    ssv st' = (ssv st)(a := (ss_i (f t), ss_j (f t))) \<and> active_threads st' = active_threads st"
proof -
  obtain t where t: "threads st a = Some t" using assms by auto
  then show ?thesis using f [of t]
    by (intro exI [of _ "st\<lparr>threads := (threads st)(a \<mapsto> f t)\<rparr>"] exI [of _ t])
      (auto simp: same_but_ss_def mx_def mp_def ssv_def fun_eq_iff)
qed

lemma ss_upd_next:
  assumes "a \<in> dom (threads st)"
  shows "\<exists>st'. upd_th a (\<lambda>t. t\<lparr>next_matrix := v\<rparr>) st = Some st' \<and> same_but_ss st st' \<and>
    mx st' = (mx st)(a := v) \<and> mp st' = mp st \<and> ssv st' = ssv st \<and> active_threads st' = active_threads st"
  using ss_upd [OF assms, of "\<lambda>t. t\<lparr>next_matrix := v\<rparr>"]
  by (auto simp: ss_strip_def mp_def ssv_def fun_eq_iff)

lemma ss_upd_prev:
  assumes "a \<in> dom (threads st)"
  shows "\<exists>st'. upd_th a (\<lambda>t. t\<lparr>prev_matrix := v\<rparr>) st = Some st' \<and> same_but_ss st st' \<and>
    mp st' = (mp st)(a := v) \<and> mx st' = mx st \<and> ssv st' = ssv st \<and> active_threads st' = active_threads st"
  using ss_upd [OF assms, of "\<lambda>t. t\<lparr>prev_matrix := v\<rparr>"]
  by (auto simp: ss_strip_def mx_def ssv_def fun_eq_iff)

lemma ss_upd_clear:
  assumes "a \<in> dom (threads st)"
  shows "\<exists>st'. upd_th a (\<lambda>t. t\<lparr>next_matrix := None, prev_matrix := None\<rparr>) st = Some st' \<and> same_but_ss st st' \<and>
    mx st' = (mx st)(a := None) \<and> mp st' = (mp st)(a := None) \<and> ssv st' = ssv st \<and>
    active_threads st' = active_threads st"
  using ss_upd [OF assms, of "\<lambda>t. t\<lparr>next_matrix := None, prev_matrix := None\<rparr>"]
  by (auto simp: ss_strip_def ssv_def fun_eq_iff)

lemma ss_upd_ij:
  assumes "a \<in> dom (threads st)"
  shows "\<exists>st'. upd_th a (\<lambda>t. t\<lparr>ss_i := i, ss_j := j\<rparr>) st = Some st' \<and> same_but_ss st st' \<and>
    mx st' = mx st \<and> mp st' = mp st \<and> ssv st' = (ssv st)(a := (i, j)) \<and>
    active_threads st' = active_threads st"
  using ss_upd [OF assms, of "\<lambda>t. t\<lparr>ss_i := i, ss_j := j\<rparr>"]
  by (auto simp: ss_strip_def mx_def mp_def fun_eq_iff)

section \<open>The matrix and the bitmaps\<close>

lemma slb_flbitmap [simp]: "slb (at\<lparr>flbitmap := w\<rparr>) = slb at"
  by (simp add: slb_def fun_eq_iff)

lemma mat_at_ok: "wf_shape at \<Longrightarrow> p < 1024 \<Longrightarrow> mat_at at (p div 32) (p mod 32) = Some (cellp at p)"
  using cell_bounds [of p] by (simp add: mat_at_def wf_shape_def cellp_def)

lemma mat_set_ok:
  assumes "wf_shape at" "p < 1024"
  shows "\<exists>at'. mat_set (p div 32) (p mod 32) v at = Some at' \<and> wf_shape at' \<and>
    (\<forall>q<1024. cellp at' q = (if q = p then v else cellp at q)) \<and>
    slbitmap at' = slbitmap at \<and> flbitmap at' = flbitmap at"
proof -
  let ?i = "p div 32" and ?j = "p mod 32"
  let ?at = "at\<lparr>thread_matrix := (thread_matrix at)[?i := (thread_matrix at ! ?i)[?j := v]]\<rparr>"
  have l: "?i < 32" "?j < 32" "length (thread_matrix at) = 32" "length (thread_matrix at ! ?i) = 32"
    using assms cell_bounds [of p] by (auto simp: wf_shape_def)
  have "mat_set ?i ?j v at = Some ?at" using l by (simp add: mat_set_def)
  moreover have "wf_shape ?at" using assms l by (auto simp: wf_shape_def nth_list_update)
  moreover have "cellp ?at q = (if q = p then v else cellp at q)" if "q < 1024" for q
    using l cell_eq_iff [of p q] by (auto simp: cellp_def nth_list_update split: if_splits)
  ultimately show ?thesis by (intro exI [of _ ?at]) simp
qed

lemma sl_update:
  assumes wf: "wf_shape at" "p < 1024" and w: "\<And>m. m < 32 \<Longrightarrow> bit w m \<longleftrightarrow> (if m = p mod 32 then b else bit (slbitmap at ! (p div 32)) m)"
  shows "\<forall>q<1024. slb (at\<lparr>slbitmap := (slbitmap at)[p div 32 := w]\<rparr>) q \<longleftrightarrow> (if q = p then b else slb at q)"
proof (intro allI impI)
  fix q :: nat assume "q < 1024"
  show "slb (at\<lparr>slbitmap := (slbitmap at)[p div 32 := w]\<rparr>) q \<longleftrightarrow> (if q = p then b else slb at q)"
    using wf w [of "q mod 32"] cell_bounds [of p] cell_bounds(2) [of q] cell_eq_iff [of p q]
    by (auto simp: slb_def wf_shape_def nth_list_update)
qed

lemma mark_used_ok:
  assumes "wf_shape at" "p < 1024"
  shows "\<exists>at'. mark_used (p div 32) (p mod 32) at = Some at' \<and> wf_shape at' \<and> cellp at' = cellp at \<and>
    (\<forall>q<1024. slb at' q \<longleftrightarrow> (if q = p then True else slb at q)) \<and> (fl_ok at \<longrightarrow> fl_ok at')"
proof -
  let ?w = "setbit (slbitmap at ! (p div 32)) (p mod 32)"
  let ?at = "at\<lparr>flbitmap := setbit (flbitmap at) (p div 32), slbitmap := (slbitmap at)[p div 32 := ?w]\<rparr>"
  have b: "p div 32 < 32" "p mod 32 < 32" "length (slbitmap at) = 32"
    using assms cell_bounds [of p] by (auto simp: wf_shape_def)
  have "bit ?w (p mod 32)" using b by (simp add: bit_setbit)
  then have "?w \<noteq> 0" by (rule word_bit_nonzero)
  then have "fl_ok at \<longrightarrow> fl_ok ?at"
    using b by (auto simp: fl_ok_def bit_setbit nth_list_update)
  moreover have "mark_used (p div 32) (p mod 32) at = Some ?at"
    using b by (simp add: mark_used_def)
  moreover have "\<forall>q<1024. slb ?at q \<longleftrightarrow> (if q = p then True else slb at q)"
    using sl_update [OF assms, of ?w True] b by (simp add: bit_setbit slb_def)
  ultimately show ?thesis using assms by (intro exI [of _ ?at]) (auto simp: wf_shape_def cellp_def)
qed

lemma mark_empty_ok:
  assumes "wf_shape at" "p < 1024"
  shows "\<exists>at'. mark_empty (p div 32) (p mod 32) at = Some at' \<and> wf_shape at' \<and> cellp at' = cellp at \<and>
    (\<forall>q<1024. slb at' q \<longleftrightarrow> (if q = p then False else slb at q)) \<and> (fl_ok at \<longrightarrow> fl_ok at')"
proof -
  let ?w = "clearbit (slbitmap at ! (p div 32)) (p mod 32)"
  let ?at1 = "at\<lparr>slbitmap := (slbitmap at)[p div 32 := ?w]\<rparr>"
  let ?at = "if ?w = 0 then ?at1\<lparr>flbitmap := clearbit (flbitmap at) (p div 32)\<rparr> else ?at1"
  have b: "p div 32 < 32" "p mod 32 < 32" "length (slbitmap at) = 32"
    using assms cell_bounds [of p] by (auto simp: wf_shape_def)
  have nz: "slbitmap at ! (p div 32) \<noteq> 0" if "?w \<noteq> 0"
    using that by (auto simp: clearbit_def)
  have "fl_ok at \<longrightarrow> fl_ok ?at"
    using b nz by (auto simp: fl_ok_def bit_clearbit nth_list_update)
  moreover have "mark_empty (p div 32) (p mod 32) at = Some ?at"
    using b by (simp add: mark_empty_def)
  moreover have "\<forall>q<1024. slb ?at q \<longleftrightarrow> (if q = p then False else slb at q)"
  proof -
    have "slb ?at = slb ?at1" by simp
    then show ?thesis using sl_update [OF assms, of ?w False] b by (simp only: bit_clearbit) simp
  qed
  ultimately show ?thesis using assms by (intro exI [of _ ?at]) (auto simp: wf_shape_def cellp_def)
qed

section \<open>The operations on the queues\<close>

lemma queue_frame:
  assumes "queue_ok st p xs" "\<forall>x\<in>set xs. mx st' x = mx st x \<and> mp st' x = mp st x \<and> ssv st' x = ssv st x"
    "set xs \<subseteq> dom (threads st')"
    "cellp (active_threads st') p = cellp (active_threads st) p" "slb (active_threads st') p = slb (active_threads st) p"
  shows "queue_ok st' p xs"
  using assms by (auto simp: queue_ok_def intro: dlist_frame)

lemma queue_cell_unique:
  assumes "queue_ok st p xs" "queue_ok st q ys" "x \<in> set xs" "x \<in> set ys"
  shows "p = q"
proof -
  have "p div 32 = q div 32" "p mod 32 = q mod 32"
    using assms unfolding queue_ok_def by (metis fst_conv of_nat_eq_iff, metis snd_conv of_nat_eq_iff)
  then show ?thesis using cell_eq_iff by blast
qed

lemma queues_disjoint:
  assumes "ready_queues st Q" "p < 1024" "q < 1024" "q \<noteq> p"
  shows "set (Q p) \<inter> set (Q q) = {}"
proof -
  have "queue_ok st p (Q p)" "queue_ok st q (Q q)" using assms by (simp_all add: ready_queues_def)
  then show ?thesis using queue_cell_unique assms(4) by blast
qed

lemma ready_queues_set:
  assumes R: "ready_queues st Q" and p: "p < 1024" and q: "queue_ok st' p ys"
    and sh: "wf_shape (active_threads st')" "fl_ok (active_threads st')"
    and dom: "dom (threads st') = dom (threads st)"
    and other: "\<forall>q<1024. q \<noteq> p \<longrightarrow> cellp (active_threads st') q = cellp (active_threads st) q \<and>
      slb (active_threads st') q = slb (active_threads st) q"
    and fr: "\<forall>x. x \<notin> S \<longrightarrow> mx st' x = mx st x \<and> mp st' x = mp st x \<and> ssv st' x = ssv st x"
    and S: "\<forall>q<1024. q \<noteq> p \<longrightarrow> S \<inter> set (Q q) = {}"
  shows "ready_queues st' (Q(p := ys))"
proof -
  have "queue_ok st' r (Q r)" if r: "r < 1024" "r \<noteq> p" for r
  proof (rule queue_frame)
    show "queue_ok st r (Q r)" using R r by (simp add: ready_queues_def)
    then show "set (Q r) \<subseteq> dom (threads st')" using dom by (simp add: queue_ok_def)
    show "\<forall>x\<in>set (Q r). mx st' x = mx st x \<and> mp st' x = mp st x \<and> ssv st' x = ssv st x"
      using S r fr by blast
  qed (use other r in auto)
  then show ?thesis using q sh by (simp add: ready_queues_def)
qed

lemma init_ss_ok: "active_threads st = init_ss \<Longrightarrow> ready_queues st (\<lambda>_. [])"
  using cell_bounds
  by (auto simp: ready_queues_def wf_shape_def init_ss_def fl_ok_def queue_ok_def cellp_def slb_def clearbitmap_def)

text \<open>A thread outside the queues has both links NULL, and its position is -1 or within the matrix.\<close>

definition detached :: "pk_state \<Rightarrow> nat \<Rightarrow> bool" where
  "detached st a \<longleftrightarrow> mx st a = None \<and> mp st a = None \<and>
     (case ssv st a of (i, j) \<Rightarrow> i = -1 \<or> j = -1 \<or> (0 \<le> i \<and> i < 32 \<and> 0 \<le> j \<and> j < 32))"

text \<open>The other threads outside the queues stay as they are.\<close>

definition keeps_detached :: "(nat \<Rightarrow> nat list) \<Rightarrow> nat \<Rightarrow> pk_state \<Rightarrow> pk_state \<Rightarrow> bool" where
  "keeps_detached Q th st st' \<longleftrightarrow> (\<forall>x. x \<noteq> th \<longrightarrow> unqueued Q x \<longrightarrow> detached st x \<longrightarrow> detached st' x)"

lemma keeps_detachedI:
  assumes "p < 1024" "\<forall>x. x \<notin> insert th (set (Q p)) \<longrightarrow> mx st' x = mx st x \<and> mp st' x = mp st x \<and> ssv st' x = ssv st x"
  shows "keeps_detached Q th st st'"
  using assms by (auto simp: keeps_detached_def detached_def unqueued_def)

text \<open>The end of both insertions: the bitmaps and the position of the thread.\<close>

lemma enqueue_finish:
  assumes R: "ready_queues st Q" and th: "th \<in> dom (threads st)" "unqueued Q th" and p: "p < 1024"
    and same: "same_but_ss st st3" and ys: "set ys = insert th (set (Q p))"
    and dl: "dlist (mx st3) (mp st3) (cellp at1 p) ys" and ssv: "ssv st3 = ssv st"
    and at1: "wf_shape at1" "\<forall>q<1024. q \<noteq> p \<longrightarrow> cellp at1 q = cellp (active_threads st) q"
      "slbitmap at1 = slbitmap (active_threads st)" "flbitmap at1 = flbitmap (active_threads st)"
    and fr: "\<forall>x. x \<notin> insert th (set (Q p)) \<longrightarrow> mx st3 x = mx st x \<and> mp st3 x = mp st x"
  shows "\<exists>at2 st4. mark_used (p div 32) (p mod 32) at1 = Some at2 \<and>
    upd_th th (\<lambda>t. t\<lparr>ss_i := int (p div 32), ss_j := int (p mod 32)\<rparr>) (st3\<lparr>active_threads := at2\<rparr>) = Some st4 \<and>
    ready_queues st4 (Q(p := ys)) \<and> same_but_ss st st4 \<and> keeps_detached Q th st st4"
proof -
  have qp: "queue_ok st p (Q p)" and fl: "fl_ok (active_threads st)" using R p by (auto simp: ready_queues_def)
  have f1: "fl_ok at1" using fl at1 by (simp add: fl_ok_def)
  obtain at2 where a2: "mark_used (p div 32) (p mod 32) at1 = Some at2" "wf_shape at2" "cellp at2 = cellp at1"
    "\<forall>q<1024. slb at2 q \<longleftrightarrow> (if q = p then True else slb at1 q)" "fl_ok at2"
    using mark_used_ok [OF at1(1) p] f1 by blast
  have "th \<in> dom (threads (st3\<lparr>active_threads := at2\<rparr>))" using th same_but_ss_dom [OF same] by simp
  from ss_upd_ij [OF this, where i = "int (p div 32)" and j = "int (p mod 32)"]
  obtain st4 where s4: "upd_th th (\<lambda>t. t\<lparr>ss_i := int (p div 32), ss_j := int (p mod 32)\<rparr>)
      (st3\<lparr>active_threads := at2\<rparr>) = Some st4" "same_but_ss (st3\<lparr>active_threads := at2\<rparr>) st4"
    "mx st4 = mx st3" "mp st4 = mp st3" "ssv st4 = (ssv st3)(th := (int (p div 32), int (p mod 32)))"
    "active_threads st4 = at2"
    by auto
  have same4: "same_but_ss st st4"
    using same s4(2) by (metis same_but_ss_active same_but_ss_trans)
  have dom: "dom (threads st4) = dom (threads st)" using same_but_ss_dom [OF same4] .
  have q4: "queue_ok st4 p ys"
    using dl dom th qp a2 s4 p ys ssv by (auto simp: queue_ok_def)
  have "ready_queues st4 (Q(p := ys))"
  proof (rule ready_queues_set [OF R p q4, of "insert th (set (Q p))"])
    show "\<forall>q<1024. q \<noteq> p \<longrightarrow> insert th (set (Q p)) \<inter> set (Q q) = {}"
      using queues_disjoint [OF R p] th(2) by (auto simp: unqueued_def)
  qed (use a2 s4 dom at1 fr ssv in \<open>auto simp: slb_def\<close>)
  moreover have "keeps_detached Q th st st4"
    by (rule keeps_detachedI [OF p]) (use fr s4 ssv in auto)
  ultimately show ?thesis using a2(1) s4(1) same4 by blast
qed

lemma insert_ss_ok:
  assumes R: "ready_queues st Q" and th: "th \<in> dom (threads st)" "unqueued Q th"
    and p: "p = nat (prio mod 1024)"
  shows "\<exists>st'. insert_ss th prio st = Some st' \<and> ready_queues st' (Q(p := th # Q p)) \<and> same_but_ss st st' \<and>
    keeps_detached Q th st st'"
proof -
  let ?at = "active_threads st" and ?h = "cellp (active_threads st) p"
  have p1: "p < 1024" using p by (simp add: nat_less_iff)
  have sh: "wf_shape ?at" and qp: "queue_ok st p (Q p)" using R p1 by (auto simp: ready_queues_def)
  have d: "dlist (mx st) (mp st) ?h (Q p)" and sub: "set (Q p) \<subseteq> dom (threads st)"
    using qp by (auto simp: queue_ok_def)
  have nth: "th \<notin> set (Q p)" using th p1 by (simp add: unqueued_def)
  obtain st1 where s1: "upd_th th (\<lambda>t. t\<lparr>next_matrix := None, prev_matrix := None\<rparr>) st = Some st1"
    "same_but_ss st st1" "mx st1 = (mx st)(th := None)" "mp st1 = (mp st)(th := None)" "ssv st1 = ssv st"
    "active_threads st1 = ?at"
    using ss_upd_clear [OF th(1)] by blast
  have "th \<in> dom (threads st1)" using th(1) same_but_ss_dom [OF s1(2)] by simp
  from ss_upd_next [OF this, of ?h] obtain st2 where s2: "upd_th th (\<lambda>t. t\<lparr>next_matrix := ?h\<rparr>) st1 = Some st2"
    "same_but_ss st1 st2" "mx st2 = (mx st1)(th := ?h)" "mp st2 = mp st1" "ssv st2 = ssv st1"
    "active_threads st2 = active_threads st1"
    by blast
  obtain st3 where s3: "(case ?h of None \<Rightarrow> Some st2
      | Some q \<Rightarrow> upd_th q (\<lambda>t. t\<lparr>prev_matrix := Some th\<rparr>) st2) = Some st3"
    "same_but_ss st2 st3" "mx st3 = mx st2" "mp st3 = set_next ?h (Some th) (mp st2)"
    "ssv st3 = ssv st2" "active_threads st3 = active_threads st2"
  proof (cases ?h)
    case None
    then show ?thesis using that by (simp add: set_next_def)
  next
    case (Some q)
    then have "q \<in> set (Q p)" using dlist_head [OF d] by (auto split: if_splits)
    then have "q \<in> dom (threads st2)" using sub same_but_ss_dom [OF s1(2)] same_but_ss_dom [OF s2(2)] by auto
    then show ?thesis using ss_upd_prev [of q st2 "Some th"] that Some by (auto simp: set_next_def)
  qed
  have same: "same_but_ss st st3" using s1(2) s2(2) s3(2) same_but_ss_trans by blast
  obtain at1 where a1: "mat_set (p div 32) (p mod 32) (Some th) ?at = Some at1" "wf_shape at1"
    "\<forall>q<1024. cellp at1 q = (if q = p then Some th else cellp ?at q)"
    "slbitmap at1 = slbitmap ?at" "flbitmap at1 = flbitmap ?at"
    using mat_set_ok [OF sh p1, of "Some th"] by auto
  have links: "mx st3 = (mx st)(th := ?h)" "mp st3 = set_next ?h (Some th) ((mp st)(th := None))" "ssv st3 = ssv st"
    using s1 s2 s3 by auto
  have dl: "dlist (mx st3) (mp st3) (cellp at1 p) (th # Q p)"
  proof (cases "Q p")
    case Nil
    then have "?h = None" using dlist_head [OF d] by simp
    then show ?thesis using Nil links a1 p1 by (auto simp: set_next_def intro!: dlist_single)
  next
    case (Cons q ys)
    then have h: "?h = Some q" using dlist_head [OF d] by simp
    have "mp st q = None" using dlist_split [of "mx st" "mp st" ?h "[]" q ys] d Cons by simp
    then show ?thesis
      using dlist_insert_before [of "mx st" "mp st" ?h "[]" q ys th "mx st3" "mp st3"] d Cons h nth links a1 p1
      by (auto simp: set_next_def fun_upd_twist)
  qed
  have fr: "\<forall>x. x \<notin> insert th (set (Q p)) \<longrightarrow> mx st3 x = mx st x \<and> mp st3 x = mp st x"
    using links dlist_head [OF d] by (auto simp: set_next_def split: option.split if_splits)
  obtain at2 st4 where fin: "mark_used (p div 32) (p mod 32) at1 = Some at2"
    "upd_th th (\<lambda>t. t\<lparr>ss_i := int (p div 32), ss_j := int (p mod 32)\<rparr>) (st3\<lparr>active_threads := at2\<rparr>) = Some st4"
    "ready_queues st4 (Q(p := th # Q p))" "same_but_ss st st4" "keeps_detached Q th st st4"
    using enqueue_finish [OF R th p1 same _ dl links(3) a1(2) _ a1(4,5) fr] a1(3) by auto
  have "insert_ss th prio st = Some st4"
    using s1(1,6) s2(1,6) s3(1,6) a1(1) fin(1,2) mat_at_ok [OF sh p1]
    by (simp add: insert_ss_def prio2ij_eq p [symmetric])
  then show ?thesis using fin(3-5) by blast
qed

lemma tail_walk_ok:
  assumes "lseg (mx st) (mp st) m (Some y) (y # vs) l None" "set (y # vs) \<subseteq> dom (threads st)"
  shows "tail_walk (threads st) y = Some (last (y # vs))"
  using assms
proof (induction vs arbitrary: m y)
  case Nil
  then show ?case by (subst tail_walk.simps) (auto simp: mx_def)
next
  case (Cons z zs)
  obtain t where t: "threads st y = Some t" using Cons.prems(2) by auto
  have "next_matrix t = Some z" using Cons.prems(1) t by (simp add: mx_def)
  moreover have "tail_walk (threads st) z = Some (last (z # zs))"
    using Cons.IH Cons.prems by (metis insert_subset list.set(2) lseg.simps(2))
  ultimately show ?case using t by (subst tail_walk.simps) simp
qed

lemma insert_ss_tail_ok:
  assumes R: "ready_queues st Q" and th: "th \<in> dom (threads st)" "unqueued Q th"
    and p: "p = nat (prio mod 1024)"
  shows "\<exists>st'. insert_ss_tail th prio st = Some st' \<and> ready_queues st' (Q(p := Q p @ [th])) \<and> same_but_ss st st' \<and>
    keeps_detached Q th st st'"
proof -
  let ?at = "active_threads st" and ?h = "cellp (active_threads st) p"
  have p1: "p < 1024" using p by (simp add: nat_less_iff)
  have sh: "wf_shape ?at" and qp: "queue_ok st p (Q p)" using R p1 by (auto simp: ready_queues_def)
  have d: "dlist (mx st) (mp st) ?h (Q p)" and sub: "set (Q p) \<subseteq> dom (threads st)"
    using qp by (auto simp: queue_ok_def)
  have nth: "th \<notin> set (Q p)" using th p1 by (simp add: unqueued_def)
  obtain st1 where s1: "upd_th th (\<lambda>t. t\<lparr>next_matrix := None, prev_matrix := None\<rparr>) st = Some st1"
    "same_but_ss st st1" "mx st1 = (mx st)(th := None)" "mp st1 = (mp st)(th := None)" "ssv st1 = ssv st"
    "active_threads st1 = ?at"
    using ss_upd_clear [OF th(1)] by blast
  have dom1: "dom (threads st1) = dom (threads st)" using same_but_ss_dom [OF s1(2)] .
  have d1: "dlist (mx st1) (mp st1) ?h (Q p)" using d nth s1(3,4) by (auto intro: dlist_frame)
  have len: "Some (hd (Q p)) = ?h" if "Q p \<noteq> []" using dlist_head [OF d] that by simp
  show ?thesis
  proof (cases "Q p = []")
    case True
    then have h: "?h = None" using dlist_head [OF d] by simp
    obtain at1 where a1: "mat_set (p div 32) (p mod 32) (Some th) ?at = Some at1" "wf_shape at1"
      "\<forall>q<1024. cellp at1 q = (if q = p then Some th else cellp ?at q)"
      "slbitmap at1 = slbitmap ?at" "flbitmap at1 = flbitmap ?at"
      using mat_set_ok [OF sh p1, of "Some th"] by auto
    have dl: "dlist (mx st1) (mp st1) (cellp at1 p) (Q p @ [th])"
      using True s1 a1 p1 by (auto intro!: dlist_single)
    obtain at2 st4 where fin: "mark_used (p div 32) (p mod 32) at1 = Some at2"
      "upd_th th (\<lambda>t. t\<lparr>ss_i := int (p div 32), ss_j := int (p mod 32)\<rparr>) (st1\<lparr>active_threads := at2\<rparr>) = Some st4"
      "ready_queues st4 (Q(p := Q p @ [th]))" "same_but_ss st st4" "keeps_detached Q th st st4"
      using enqueue_finish [OF R th p1 s1(2) _ dl s1(5) a1(2) _ a1(4,5)] a1(3) s1(3,4) by auto
    have "insert_ss_tail th prio st = Some st4"
      using s1(1,6) a1(1) fin(1,2) mat_at_ok [OF sh p1] h
      by (simp add: insert_ss_tail_def prio2ij_eq p [symmetric])
    then show ?thesis using fin(3-5) by blast
  next
    case False
    define y where "y = last (Q p)"
    obtain us where us: "Q p = us @ [y]" using False by (metis append_butlast_last_id y_def)
    have h: "?h = Some (hd (Q p))" using len False by simp
    obtain l where "lseg (mx st1) (mp st1) None (Some (hd (Q p))) (hd (Q p) # tl (Q p)) l None"
      using d1 h False by (auto simp: dlist_def)
    from tail_walk_ok [OF this] have walk: "tail_walk (threads st1) (hd (Q p)) = Some y"
      using sub dom1 False by (simp add: y_def)
    have y1: "y \<in> dom (threads st1)" using us sub dom1 by auto
    obtain st2 where s2: "upd_th y (\<lambda>t. t\<lparr>next_matrix := Some th\<rparr>) st1 = Some st2"
      "same_but_ss st1 st2" "mx st2 = (mx st1)(y := Some th)" "mp st2 = mp st1" "ssv st2 = ssv st1"
      "active_threads st2 = active_threads st1"
      using ss_upd_next [OF y1, of "Some th"] by blast
    have "th \<in> dom (threads st2)" using th(1) dom1 same_but_ss_dom [OF s2(2)] by simp
    from ss_upd_prev [OF this, of "Some y"] obtain st3 where s3:
      "upd_th th (\<lambda>t. t\<lparr>prev_matrix := Some y\<rparr>) st2 = Some st3" "same_but_ss st2 st3"
      "mp st3 = (mp st2)(th := Some y)" "mx st3 = mx st2" "ssv st3 = ssv st2" "active_threads st3 = active_threads st2"
      by blast
    have same: "same_but_ss st st3" using s1(2) s2(2) s3(2) same_but_ss_trans by blast
    have "mx st y = None" using dlist_split [of "mx st" "mp st" ?h us y "[]"] d us by simp
    then have dl: "dlist (mx st3) (mp st3) (cellp ?at p) (Q p @ [th])"
      using dlist_insert_after [of "mx st" "mp st" ?h us y "[]" th "mx st3" "mp st3"] d us nth s1 s2 s3
      by (auto simp: set_next_def)
    have ssv3: "ssv st3 = ssv st" using s1 s2 s3 by simp
    obtain at2 st4 where fin: "mark_used (p div 32) (p mod 32) ?at = Some at2"
      "upd_th th (\<lambda>t. t\<lparr>ss_i := int (p div 32), ss_j := int (p mod 32)\<rparr>) (st3\<lparr>active_threads := at2\<rparr>) = Some st4"
      "ready_queues st4 (Q(p := Q p @ [th]))" "same_but_ss st st4" "keeps_detached Q th st st4"
      using enqueue_finish [OF R th p1 same _ dl ssv3 sh] s1(3,4) s2(3,4) s3(3,4) us by auto
    have "insert_ss_tail th prio st = Some st4"
      using s1(1,6) s2(1,6) s3(1,6) walk fin(1,2) mat_at_ok [OF sh p1] h
      by (simp add: insert_ss_tail_def prio2ij_eq p [symmetric])
    then show ?thesis using fin(3-5) by blast
  qed
qed

text \<open>The end of a removal: the bitmaps when the list is empty, and the position.\<close>

lemma dequeue_finish:
  assumes R: "ready_queues st Q" and th: "th \<in> dom (threads st)" and p: "p < 1024"
    and same: "same_but_ss st st3" and ys: "th \<notin> set ys" "set ys \<subseteq> set (Q p)"
    and oth: "\<forall>q<1024. q \<noteq> p \<longrightarrow> th \<notin> set (Q q)"
    and dl: "dlist (mx st3) (mp st3) (cellp at1 p) ys" and ssv: "ssv st3 = ssv st"
    and at1: "wf_shape at1" "\<forall>q<1024. q \<noteq> p \<longrightarrow> cellp at1 q = cellp (active_threads st) q"
      "slbitmap at1 = slbitmap (active_threads st)" "flbitmap at1 = flbitmap (active_threads st)"
    and fr: "\<forall>x. x \<notin> insert th (set (Q p)) \<longrightarrow> mx st3 x = mx st x \<and> mp st3 x = mp st x"
  shows "\<exists>at2 st4.
    (if cellp at1 p = None then mark_empty (p div 32) (p mod 32) at1 else Some at1) = Some at2 \<and>
    upd_th th (\<lambda>t. t\<lparr>ss_i := -1, ss_j := -1\<rparr>) (st3\<lparr>active_threads := at2\<rparr>) = Some st4 \<and>
    ready_queues st4 (Q(p := ys)) \<and> same_but_ss st st4 \<and> mx st4 = mx st3 \<and> mp st4 = mp st3 \<and>
    ssv st4 th = (-1, -1) \<and> keeps_detached Q th st st4"
proof -
  have qp: "queue_ok st p (Q p)" and fl: "fl_ok (active_threads st)" using R p by (auto simp: ready_queues_def)
  have f1: "fl_ok at1" using fl at1 by (simp add: fl_ok_def)
  have slb1: "slb at1 = slb (active_threads st)" using at1 by (simp add: slb_def fun_eq_iff)
  have emp: "cellp at1 p = None \<longleftrightarrow> ys = []" using dlist_head [OF dl] by auto
  have was: "ys \<noteq> [] \<Longrightarrow> slb at1 p" using qp ys(2) slb1 by (auto simp: queue_ok_def)
  obtain at2 where a2:
    "(if cellp at1 p = None then mark_empty (p div 32) (p mod 32) at1 else Some at1) = Some at2"
    "wf_shape at2" "cellp at2 = cellp at1"
    "\<forall>q<1024. slb at2 q \<longleftrightarrow> (if q = p then ys \<noteq> [] else slb at1 q)" "fl_ok at2"
  proof (cases "ys = []")
    case True
    then show ?thesis using that emp mark_empty_ok [OF at1(1) p] f1 by auto
  next
    case False
    then show ?thesis using that [of at1] emp at1(1) f1 was by auto
  qed
  have "th \<in> dom (threads (st3\<lparr>active_threads := at2\<rparr>))" using th same_but_ss_dom [OF same] by simp
  from ss_upd_ij [OF this, where i = "-1" and j = "-1"]
  obtain st4 where s4: "upd_th th (\<lambda>t. t\<lparr>ss_i := -1, ss_j := -1\<rparr>)
      (st3\<lparr>active_threads := at2\<rparr>) = Some st4" "same_but_ss (st3\<lparr>active_threads := at2\<rparr>) st4"
    "mx st4 = mx st3" "mp st4 = mp st3" "ssv st4 = (ssv st3)(th := (-1, -1))" "active_threads st4 = at2"
    by auto
  have same4: "same_but_ss st st4"
    using same s4(2) by (metis same_but_ss_active same_but_ss_trans)
  have dom: "dom (threads st4) = dom (threads st)" using same_but_ss_dom [OF same4] .
  have q4: "queue_ok st4 p ys"
    using dl dom qp a2 s4 p ys ssv by (auto simp: queue_ok_def)
  have "ready_queues st4 (Q(p := ys))"
  proof (rule ready_queues_set [OF R p q4, of "insert th (set (Q p))"])
    show "\<forall>q<1024. q \<noteq> p \<longrightarrow> insert th (set (Q p)) \<inter> set (Q q) = {}"
      using queues_disjoint [OF R p] oth by auto
  qed (use a2 s4 dom at1 slb1 fr ssv in auto)
  moreover have "keeps_detached Q th st st4"
    by (rule keeps_detachedI [OF p]) (use fr s4 ssv in auto)
  ultimately show ?thesis using a2(1) s4 same4 by (intro exI [of _ at2] exI [of _ st4]) simp
qed

lemma remove_ss_queued:
  assumes R: "ready_queues st Q" and p: "p < 1024" and th: "th \<in> set (Q p)"
  shows "\<exists>st'. remove_ss th st = Some st' \<and> ready_queues st' (Q(p := remove1 th (Q p))) \<and>
    same_but_ss st st' \<and> detached st' th \<and> keeps_detached Q th st st'"
proof -
  let ?at = "active_threads st" and ?h = "cellp (active_threads st) p"
  have sh: "wf_shape ?at" and qp: "queue_ok st p (Q p)" using R p by (auto simp: ready_queues_def)
  have sub: "set (Q p) \<subseteq> dom (threads st)" using qp by (auto simp: queue_ok_def)
  obtain us vs where Q: "Q p = us @ th # vs" using th by (meson split_list)
  have d: "dlist (mx st) (mp st) ?h (us @ th # vs)" using qp Q by (simp add: queue_ok_def)
  note sp = dlist_split [OF d]
  obtain t where t: "threads st th = Some t" using sub th by auto
  have ss: "ss_i t = int (p div 32)" "ss_j t = int (p mod 32)"
    using qp th t by (auto simp: queue_ok_def ssv_def)
  have lk: "mx st th = next_matrix t" "mp st th = prev_matrix t" using t by (simp_all add: mx_def mp_def)
  have prv: "prev_matrix t = Some q \<Longrightarrow> q \<in> set us" for q using sp lk by (auto split: if_splits)
  have nxt: "next_matrix t = Some q \<Longrightarrow> q \<in> set vs" for q using sp lk by (auto split: if_splits)
  have th_us: "th \<notin> set us" "th \<notin> set vs" using sp by auto
  obtain st1 where s1: "(case prev_matrix t of None \<Rightarrow> Some st
      | Some q \<Rightarrow> upd_th q (\<lambda>x. x\<lparr>next_matrix := next_matrix t\<rparr>) st) = Some st1" "same_but_ss st st1"
    "mx st1 = set_next (prev_matrix t) (next_matrix t) (mx st)" "mp st1 = mp st" "ssv st1 = ssv st" "active_threads st1 = ?at"
    "threads st1 th = Some t"
  proof (cases "prev_matrix t")
    case None
    then show ?thesis using that t by (simp add: set_next_def)
  next
    case (Some q)
    then have "q \<in> dom (threads st)" "q \<noteq> th" using prv sub Q th_us by auto
    then show ?thesis using ss_upd_next [of q st "next_matrix t"] that Some t
      by (auto simp: set_next_def upd_th_def bind_eq_Some_conv)
  qed
  obtain st2 where s2: "(case next_matrix t of None \<Rightarrow> Some st1
      | Some q \<Rightarrow> upd_th q (\<lambda>x. x\<lparr>prev_matrix := prev_matrix t\<rparr>) st1) = Some st2" "same_but_ss st1 st2"
    "mp st2 = set_next (next_matrix t) (prev_matrix t) (mp st1)" "mx st2 = mx st1" "ssv st2 = ssv st1"
    "active_threads st2 = active_threads st1" "threads st2 th = Some t"
  proof (cases "next_matrix t")
    case None
    then show ?thesis using that s1 by (simp add: set_next_def)
  next
    case (Some q)
    then have "q \<in> dom (threads st1)" "q \<noteq> th" using nxt sub Q th_us same_but_ss_dom [OF s1(2)] by auto
    then show ?thesis using ss_upd_prev [of q st1 "prev_matrix t"] that Some s1
      by (auto simp: set_next_def upd_th_def bind_eq_Some_conv)
  qed
  have "th \<in> dom (threads st2)" using s2(7) by auto
  from ss_upd_clear [OF this] obtain st3 where s3:
    "upd_th th (\<lambda>t. t\<lparr>next_matrix := None, prev_matrix := None\<rparr>) st2 = Some st3" "same_but_ss st2 st3"
    "mx st3 = (mx st2)(th := None)" "mp st3 = (mp st2)(th := None)" "ssv st3 = ssv st2" "active_threads st3 = active_threads st2"
    by blast
  have same: "same_but_ss st st3" using s1(2) s2(2) s3(2) same_but_ss_trans by blast
  have hd: "us = [] \<longleftrightarrow> ?h = Some th" using dlist_head [OF d] th_us by (cases us) auto
  obtain at1 where a1: "(if ?h = Some th then mat_set (p div 32) (p mod 32) (next_matrix t) ?at else Some ?at) = Some at1"
    "wf_shape at1" "\<forall>q<1024. cellp at1 q = (if q = p \<and> us = [] then next_matrix t else cellp ?at q)"
    "slbitmap at1 = slbitmap ?at" "flbitmap at1 = flbitmap ?at"
    using mat_set_ok [OF sh p, of "next_matrix t"] hd sh by (cases "?h = Some th") auto
  have "dlist (mx st2) (mp st2) (cellp at1 p) (us @ vs)"
  proof -
    have c: "cellp at1 p = (if us = [] then mx st th else ?h)" using a1(3) p lk by simp
    show ?thesis unfolding c by (rule dlist_remove [OF d]) (simp_all add: s1 s2 lk)
  qed
  then have dl: "dlist (mx st3) (mp st3) (cellp at1 p) (us @ vs)"
    using th_us s3 by (auto intro: dlist_frame)
  have ssv3: "ssv st3 = ssv st" using s1 s2 s3 by simp
  have fr: "\<forall>x. x \<notin> insert th (set (Q p)) \<longrightarrow> mx st3 x = mx st x \<and> mp st3 x = mp st x"
    using s1 s2 s3 prv nxt Q by (auto simp: set_next_def split: option.split)
  have oth: "\<forall>q<1024. q \<noteq> p \<longrightarrow> th \<notin> set (Q q)" using queues_disjoint [OF R p] th by blast
  have ys: "th \<notin> set (us @ vs)" "set (us @ vs) \<subseteq> set (Q p)" using th_us Q by auto
  have thd: "th \<in> dom (threads st)" using t by auto
  obtain at2 st4 where fin:
    "(if cellp at1 p = None then mark_empty (p div 32) (p mod 32) at1 else Some at1) = Some at2"
    "upd_th th (\<lambda>t. t\<lparr>ss_i := -1, ss_j := -1\<rparr>) (st3\<lparr>active_threads := at2\<rparr>) = Some st4"
    "ready_queues st4 (Q(p := us @ vs))" "same_but_ss st st4" "mx st4 = mx st3" "mp st4 = mp st3" "ssv st4 th = (-1, -1)"
    "keeps_detached Q th st st4"
    using dequeue_finish [OF R thd p same ys oth dl ssv3 a1(2) _ a1(4,5) fr] a1(3) by auto
  have "remove_ss th st = Some st4"
    using t ss s1(1,6,7) s2(1,6,7) s3(1) a1(1) fin(1,2) mat_at_ok [OF sh p] mat_at_ok [OF a1(2) p]
    by (simp add: remove_ss_def Let_def cong: if_cong)
  moreover have "remove1 th (Q p) = us @ vs" using Q th_us by (simp add: remove1_append)
  moreover have "detached st4 th" using fin(5-7) s3(3,4) by (simp add: detached_def)
  ultimately show ?thesis using fin(3,4,8) by auto
qed

lemma remove_ss_detached:
  assumes R: "ready_queues st Q" and th: "th \<in> dom (threads st)" "unqueued Q th" "detached st th"
  shows "\<exists>st'. remove_ss th st = Some st' \<and> ready_queues st' Q \<and> same_but_ss st st' \<and> detached st' th \<and>
    keeps_detached Q th st st'"
proof -
  obtain t where t: "threads st th = Some t" using th by auto
  have lk: "next_matrix t = None" "prev_matrix t = None" "ssv st th = (ss_i t, ss_j t)"
    using t th(3) by (auto simp: detached_def mx_def mp_def ssv_def)
  show ?thesis
  proof (cases "ss_i t = -1 \<or> ss_j t = -1")
    case True
    then have "remove_ss th st = Some st" using t by (auto simp: remove_ss_def)
    then show ?thesis using R th(3) by (auto simp: keeps_detached_def)
  next
    case False
    then have ss: "0 \<le> ss_i t" "ss_i t < 32" "0 \<le> ss_j t" "ss_j t < 32"
      using th(3) lk(3) by (auto simp: detached_def)
    define p where "p = 32 * nat (ss_i t) + nat (ss_j t)"
    have ij: "nat (ss_i t) = p div 32" "nat (ss_j t) = p mod 32" using ss by (simp_all add: p_def)
    have p: "p < 1024" using ss by (simp add: p_def nat_less_iff)
    have sh: "wf_shape (active_threads st)" and qp: "queue_ok st p (Q p)" using R p by (auto simp: ready_queues_def)
    have d: "dlist (mx st) (mp st) (cellp (active_threads st) p) (Q p)" using qp by (simp add: queue_ok_def)
    have nth: "th \<notin> set (Q p)" using th(2) p by (simp add: unqueued_def)
    have h: "cellp (active_threads st) p \<noteq> Some th" using dlist_head [OF d] nth by (auto split: if_splits)
    obtain st3 where s3: "upd_th th (\<lambda>t. t\<lparr>next_matrix := None, prev_matrix := None\<rparr>) st = Some st3" "same_but_ss st st3"
      "mx st3 = (mx st)(th := None)" "mp st3 = (mp st)(th := None)" "ssv st3 = ssv st" "active_threads st3 = active_threads st"
      using ss_upd_clear [OF th(1)] by blast
    have dl: "dlist (mx st3) (mp st3) (cellp (active_threads st) p) (Q p)"
      using d nth s3(3,4) by (auto intro: dlist_frame)
    have oth: "\<forall>q<1024. q \<noteq> p \<longrightarrow> th \<notin> set (Q q)" using th(2) by (simp add: unqueued_def)
    have fr: "\<forall>x. x \<notin> insert th (set (Q p)) \<longrightarrow> mx st3 x = mx st x \<and> mp st3 x = mp st x"
      using s3(3,4) by simp
    obtain at2 st4 where fin:
      "(if cellp (active_threads st) p = None then mark_empty (p div 32) (p mod 32) (active_threads st)
        else Some (active_threads st)) = Some at2"
      "upd_th th (\<lambda>t. t\<lparr>ss_i := -1, ss_j := -1\<rparr>) (st3\<lparr>active_threads := at2\<rparr>) = Some st4"
      "ready_queues st4 (Q(p := Q p))" "same_but_ss st st4" "mx st4 = mx st3" "mp st4 = mp st3" "ssv st4 th = (-1, -1)"
    "keeps_detached Q th st st4"
      using dequeue_finish [OF R th(1) p s3(2) nth _ oth dl s3(5) sh _ _ _ fr] by auto
    have "remove_ss th st = Some st4"
      using t ss ij lk False h s3(1) fin(1,2) mat_at_ok [OF sh p] by (simp add: remove_ss_def Let_def)
    moreover have "detached st4 th" using fin(5-7) s3(3,4) by (simp add: detached_def)
    ultimately show ?thesis using fin(3,4,8) by auto
  qed
qed

lemma p_ffs_least: "w \<noteq> 0 \<Longrightarrow> \<exists>n<32. p_ffs w = int n \<and> bit w n \<and> (\<forall>m<n. \<not> bit w m)"
  using p_ffs_lowest [of w] by (auto simp: lowest_at_def)

lemma get_head_ss_ok:
  assumes R: "ready_queues st Q"
  shows "(get_head_ss (active_threads st) = Some (-1, None) \<and> (\<forall>p<1024. Q p = [])) \<or>
    (\<exists>p<1024. get_head_ss (active_threads st) = Some (int p, Some (hd (Q p))) \<and> Q p \<noteq> [] \<and> (\<forall>q<p. Q q = []))"
proof -
  let ?at = "active_threads st"
  have sh: "wf_shape ?at" and fl: "\<And>i. i < 32 \<Longrightarrow> bit (flbitmap ?at) i \<longleftrightarrow> slbitmap ?at ! i \<noteq> 0"
    and q: "\<And>p. p < 1024 \<Longrightarrow> queue_ok st p (Q p)"
    using R by (auto simp: ready_queues_def fl_ok_def)
  have sl: "bit (slbitmap ?at ! i) j \<longleftrightarrow> Q (32 * i + j) \<noteq> []" if "i < 32" "j < 32" for i j
  proof -
    have "32 * i + j < 1024" using that by linarith
    then show ?thesis using q [of "32 * i + j"] that by (simp add: queue_ok_def slb_def)
  qed
  show ?thesis
  proof (cases "flbitmap ?at = 0")
    case True
    have "Q p = []" if p: "p < 1024" for p
    proof -
      have "slbitmap ?at ! (p div 32) = 0" using fl [of "p div 32"] True cell_bounds(1) [OF p] by simp
      then show ?thesis using sl [of "p div 32" "p mod 32"] cell_bounds [of p] p by simp
    qed
    then show ?thesis using True by (simp add: get_head_ss_def)
  next
    case False
    then obtain i where i: "i < 32" "p_ffs (flbitmap ?at) = int i" "bit (flbitmap ?at) i"
      "\<forall>m<i. \<not> bit (flbitmap ?at) m" using p_ffs_least by blast
    then have "slbitmap ?at ! i \<noteq> 0" using fl by simp
    then obtain j where j: "j < 32" "p_ffs (slbitmap ?at ! i) = int j" "bit (slbitmap ?at ! i) j"
      "\<forall>m<j. \<not> bit (slbitmap ?at ! i) m" using p_ffs_least by blast
    define p where "p = 32 * i + j"
    have p: "p < 1024" "p div 32 = i" "p mod 32 = j" using i j by (auto simp: p_def)
    have ne: "Q p \<noteq> []" using sl [OF i(1) j(1)] j(3) by (simp add: p_def)
    have least: "Q r = []" if "r < p" for r
    proof -
      have r: "r = 32 * (r div 32) + r mod 32" "r mod 32 < 32" by simp_all
      have "r div 32 < i \<or> (r div 32 = i \<and> r mod 32 < j)"
      proof (cases "r div 32 < i")
        case False
        moreover have "r div 32 \<le> i" using that p(2) div_le_mono [of r p 32] by simp
        ultimately have "r div 32 = i" by simp
        then show ?thesis using r(1) that by (simp add: p_def)
      qed simp
      then show ?thesis
      proof
        assume "r div 32 < i"
        then have "\<not> bit (flbitmap ?at) (r div 32)" "r div 32 < 32" using i by auto
        then have "slbitmap ?at ! (r div 32) = 0" using fl by blast
        then show ?thesis using sl [of "r div 32" "r mod 32"] \<open>r div 32 < 32\<close> r by simp
      next
        assume a: "r div 32 = i \<and> r mod 32 < j"
        then have "\<not> bit (slbitmap ?at ! i) (r mod 32)" using j by blast
        then show ?thesis using sl [of "r div 32" "r mod 32"] a i r by simp
      qed
    qed
    have "cellp ?at p = Some (hd (Q p))"
      using q [OF p(1)] dlist_head ne by (fastforce simp: queue_ok_def)
    moreover have "i < length (slbitmap ?at)" using sh i by (simp add: wf_shape_def)
    ultimately have "get_head_ss ?at = Some (int p, Some (hd (Q p)))"
      using False i j mat_at_ok [OF sh p(1)] p ij2prio_eq [OF i(1) j(1)]
      by (simp add: get_head_ss_def p_def [symmetric])
    then show ?thesis using p(1) ne least by blast
  qed
qed

section \<open>The interface of the scheduler\<close>

text \<open>
  What the scheduler relies on, for any structure of ready threads: level maps
  a priority to its queue, and each operation is what it does to the queues.
\<close>

definition level :: "int \<Rightarrow> nat" where "level prio = nat (prio mod 1024)"

lemma level_less [simp]: "level prio < 1024"
  by (simp add: level_def nat_less_iff)

locale ready_structure =
  fixes inv :: "'s \<Rightarrow> (nat \<Rightarrow> nat list) \<Rightarrow> bool"
    and live :: "'s \<Rightarrow> nat set"
    and rem_ok :: "'s \<Rightarrow> nat \<Rightarrow> bool"
    and ins ins_tail :: "nat \<Rightarrow> int \<Rightarrow> 's \<Rightarrow> 's option"
    and rem :: "nat \<Rightarrow> 's \<Rightarrow> 's option"
    and highest :: "'s \<Rightarrow> (int \<times> nat option) option"
  assumes ins: "inv s Q \<Longrightarrow> a \<in> live s \<Longrightarrow> unqueued Q a \<Longrightarrow>
      \<exists>s'. ins a prio s = Some s' \<and> inv s' (Q(level prio := a # Q (level prio))) \<and> live s' = live s"
    and ins_tail: "inv s Q \<Longrightarrow> a \<in> live s \<Longrightarrow> unqueued Q a \<Longrightarrow>
      \<exists>s'. ins_tail a prio s = Some s' \<and> inv s' (Q(level prio := Q (level prio) @ [a])) \<and> live s' = live s"
    and rem: "inv s Q \<Longrightarrow> p < 1024 \<Longrightarrow> a \<in> set (Q p) \<Longrightarrow>
      \<exists>s'. rem a s = Some s' \<and> inv s' (Q(p := remove1 a (Q p))) \<and> live s' = live s \<and> rem_ok s' a"
    and rem_out: "inv s Q \<Longrightarrow> a \<in> live s \<Longrightarrow> unqueued Q a \<Longrightarrow> rem_ok s a \<Longrightarrow>
      \<exists>s'. rem a s = Some s' \<and> inv s' Q \<and> live s' = live s \<and> rem_ok s' a"
    and highest: "inv s Q \<Longrightarrow> (highest s = Some (-1, None) \<and> (\<forall>p<1024. Q p = [])) \<or>
      (\<exists>p<1024. highest s = Some (int p, Some (hd (Q p))) \<and> Q p \<noteq> [] \<and> (\<forall>q<p. Q q = []))"
    and queued: "inv s Q \<Longrightarrow> p < 1024 \<Longrightarrow> distinct (Q p) \<and> set (Q p) \<subseteq> live s \<and>
      (\<forall>q<1024. q \<noteq> p \<longrightarrow> set (Q p) \<inter> set (Q q) = {})"
begin

lemma unqueued_after_rem:
  assumes "inv s Q" "p < 1024" "a \<in> set (Q p)"
  shows "unqueued (Q(p := remove1 a (Q p))) a"
  using queued [OF assms(1,2)] assms(2,3) by (auto simp: unqueued_def)

text \<open>Taking a thread out and putting it back at the tail rotates its queue.\<close>

lemma rotate:
  assumes i: "inv s Q" and a: "a \<in> set (Q (level prio))"
  shows "\<exists>s1 s2. rem a s = Some s1 \<and> ins_tail a prio s1 = Some s2 \<and>
    inv s2 (Q(level prio := remove1 a (Q (level prio)) @ [a])) \<and> live s2 = live s"
proof -
  obtain s1 where s1: "rem a s = Some s1" "inv s1 (Q(level prio := remove1 a (Q (level prio))))" "live s1 = live s"
    using rem [OF i level_less a] by blast
  have "a \<in> live s1" using queued [OF i level_less] a s1(3) by blast
  from ins_tail [OF s1(2) this unqueued_after_rem [where p = "level prio", OF i level_less a], of prio]
  show ?thesis using s1 by auto
qed

text \<open>Taking a thread out and inserting it with another priority moves it to the head there.\<close>

lemma requeue:
  assumes i: "inv s Q" and p: "p < 1024" and a: "a \<in> set (Q p)"
  shows "\<exists>s1 s2. rem a s = Some s1 \<and> ins a prio s1 = Some s2 \<and> live s2 = live s \<and>
    inv s2 ((Q(p := remove1 a (Q p)))(level prio := a # (Q(p := remove1 a (Q p))) (level prio)))"
proof -
  obtain s1 where s1: "rem a s = Some s1" "inv s1 (Q(p := remove1 a (Q p)))" "live s1 = live s"
    using rem [OF i p a] by blast
  have "a \<in> live s1" using queued [OF i p] a s1(3) by blast
  from ins [OF s1(2) this unqueued_after_rem [OF i p a], of prio] show ?thesis using s1 by auto
qed

text \<open>A thread inserted with a priority as high as any queued one is the next to run.\<close>

lemma preempts:
  assumes i: "inv s Q" and a: "a \<in> live s" "unqueued Q a" and hi: "\<forall>q<level prio. Q q = []"
  shows "\<exists>s'. ins a prio s = Some s' \<and> highest s' = Some (int (level prio), Some a)"
proof -
  let ?Q = "Q(level prio := a # Q (level prio))"
  obtain s' where s': "ins a prio s = Some s'" "inv s' ?Q" using ins [OF i a] by blast
  from highest [OF s'(2)] obtain p where p: "p < 1024" "highest s' = Some (int p, Some (hd (?Q p)))"
    "?Q p \<noteq> []" "\<forall>q<p. ?Q q = []" by (metis fun_upd_same level_less list.distinct(1))
  have "p = level prio"
  proof (rule antisym)
    show "p \<le> level prio" using p(4) by (metis fun_upd_same leI list.distinct(1))
    show "level prio \<le> p" using p(3) hi by (metis fun_upd_other leI nat_neq_iff)
  qed
  then show ?thesis using s'(1) p(2) by simp
qed

end

interpretation ss: ready_structure ready_queues "\<lambda>s. dom (threads s)" detached insert_ss insert_ss_tail remove_ss
  "\<lambda>s. get_head_ss (active_threads s)"
proof
  fix s Q a prio
  assume "ready_queues s Q" "a \<in> dom (threads s)" "unqueued Q a"
  then show "\<exists>s'. insert_ss a prio s = Some s' \<and> ready_queues s' (Q(level prio := a # Q (level prio))) \<and>
      dom (threads s') = dom (threads s)"
    and "\<exists>s'. insert_ss_tail a prio s = Some s' \<and> ready_queues s' (Q(level prio := Q (level prio) @ [a])) \<and>
      dom (threads s') = dom (threads s)"
    using insert_ss_ok [of s Q a "level prio" prio] insert_ss_tail_ok [of s Q a "level prio" prio] same_but_ss_dom
    by (auto simp: level_def)
next
  fix s Q p a
  assume "ready_queues s Q" "p < 1024" "a \<in> set (Q p)"
  then show "\<exists>s'. remove_ss a s = Some s' \<and> ready_queues s' (Q(p := remove1 a (Q p))) \<and>
      dom (threads s') = dom (threads s) \<and> detached s' a"
    using remove_ss_queued [of s Q p a] same_but_ss_dom by auto
next
  fix s Q a
  assume "ready_queues s Q" "a \<in> dom (threads s)" "unqueued Q a" "detached s a"
  then show "\<exists>s'. remove_ss a s = Some s' \<and> ready_queues s' Q \<and> dom (threads s') = dom (threads s) \<and> detached s' a"
    using remove_ss_detached [of s Q a] same_but_ss_dom by blast
next
  fix s :: pk_state and Q :: "nat \<Rightarrow> nat list" and p :: nat
  assume R: "ready_queues s Q" "p < 1024"
  then show "distinct (Q p) \<and> set (Q p) \<subseteq> dom (threads s) \<and> (\<forall>q<1024. q \<noteq> p \<longrightarrow> set (Q p) \<inter> set (Q q) = {})"
    using queues_disjoint [OF R] by (auto simp: ready_queues_def queue_ok_def dlist_def)
qed (rule get_head_ss_ok)

section \<open>Properties\<close>

text \<open>Get_head_ss yields the head of the queue of the least priority number that has a ready
  thread, with that priority, and reports -1 and no thread when all the queues are empty.\<close>
theorem get_head_ss_highest:
  assumes "ready_queues st Q"
  shows "get_head_ss (active_threads st) =
    Some (if \<forall>p<1024. Q p = [] then (-1, None)
          else (let p = (LEAST p. Q p \<noteq> []) in (int p, Some (hd (Q p)))))"
  using ss.highest [OF assms]
proof
  assume "\<exists>p<1024. get_head_ss (active_threads st) = Some (int p, Some (hd (Q p))) \<and> Q p \<noteq> [] \<and> (\<forall>q<p. Q q = [])"
  then obtain p where p: "p < 1024" "get_head_ss (active_threads st) = Some (int p, Some (hd (Q p)))"
    "Q p \<noteq> []" "\<forall>q<p. Q q = []" by blast
  have "(LEAST p. Q p \<noteq> []) = p" using p(3,4) by (intro Least_equality) (auto intro: leI)
  then show ?thesis using p by auto
qed auto

text \<open>Inserting a thread whose priority number is at most that of every ready thread makes it
  the one that get_head_ss yields, ahead of the threads of its own priority.\<close>
theorem insert_ss_preempts:
  assumes "ready_queues st Q" "a \<in> dom (threads st)" "unqueued Q a" "\<forall>q<level prio. Q q = []"
  shows "\<exists>st'. insert_ss a prio st = Some st' \<and>
    get_head_ss (active_threads st') = Some (int (level prio), Some a)"
  using assms by (rule ss.preempts)

text \<open>Remove_ss followed by insert_ss_tail with the same priority, the sequence of a yield,
  moves the thread to the end of its queue and leaves every other queue alone; no access faults.\<close>
theorem yield_rotates_queue:
  assumes "ready_queues st Q" "a \<in> set (Q (level prio))"
  shows "\<exists>s1 s2. remove_ss a st = Some s1 \<and> insert_ss_tail a prio s1 = Some s2 \<and>
    ready_queues s2 (Q(level prio := remove1 a (Q (level prio)) @ [a])) \<and> dom (threads s2) = dom (threads st)"
  using assms by (rule ss.rotate)

section \<open>A small system for the witnesses\<close>

definition zero_pl :: "nat option \<Rightarrow> pthread_list_t" where
  "zero_pl this = \<lparr>pl_prev = None, pl_next = None, pl_this = this\<rparr>"

definition zero_thread :: pthread_struct where
  "zero_thread = \<lparr>pt_stack = 0, thread_flags = 0, stack_info = \<lparr>stack_bottom = 0, stack_size = 0\<rparr>,
     pt_sched_param = \<lparr>sp_policy = 0, sched_priority = 0, sp_deadline = 0, sp_period = 0\<rparr>,
     magic_number = 0, pt_errno = 0, exit_value = 0, joining_thread = None, sleep_ktimer = 0,
     used_time = 0, starting_time = 0, sigpending = 0, sigmask = 0, cleanup_routine_table = [],
     top_cr_table = 0, pt_thread_list = zero_pl None, pt_mutex_list = zero_pl None,
     pt_cond_list = zero_pl None, pt_sem_list = zero_pl None, next_matrix = None, prev_matrix = None,
     ss_i = 0, ss_j = 0, tsd = []\<rparr>"

text \<open>Three suspended threads: the idle one at address 1, and two of priority 5.\<close>

definition demo_thread :: "nat \<Rightarrow> int \<Rightarrow> pthread_struct" where
  "demo_thread a prio = zero_thread\<lparr>thread_flags := 1,
     pt_sched_param := (pt_sched_param zero_thread)\<lparr>sched_priority := prio\<rparr>,
     pt_thread_list := zero_pl (Some a), pt_mutex_list := zero_pl (Some a),
     pt_cond_list := zero_pl (Some a), pt_sem_list := zero_pl (Some a)\<rparr>"

definition demo_pk :: pk_state where
  "demo_pk = \<lparr>threads = [1 \<mapsto> demo_thread 1 0, 2 \<mapsto> demo_thread 2 5, 3 \<mapsto> demo_thread 3 5],
     active_threads = init_ss, current_thread = Some 1, idle_thread = Some 1, mainapp_thread = None, thread_list = None,
     timer_array = [], timer_heap = \<lparr>h_array = [], h_nelem = 0\<rparr>, programmed = 0,
     sems = (\<lambda>_. None), mutexes = (\<lambda>_. None), conds = (\<lambda>_. None), signal_table = [], keys = [],
     irq_nesting_counter = 0, pk_if = True, saved_flags = (\<lambda>_. True)\<rparr>"

lemma demo_queues: "ready_queues demo_pk (\<lambda>_. [])"
  by (rule init_ss_ok) (simp add: demo_pk_def)

lemma level_5: "level 5 = 5"
  by (simp add: level_def)

lemma demo_queue_2: "\<exists>st. insert_ss 2 5 demo_pk = Some st \<and> ready_queues st ((\<lambda>_. [])(5 := [2])) \<and>
    dom (threads st) = {1, 2, 3}"
  using ss.ins [OF demo_queues, of 2 5] by (auto simp: demo_pk_def unqueued_def level_5)

lemma insert_ss_preempts_witness:
  "\<exists>st'. insert_ss 2 5 demo_pk = Some st' \<and>
    get_head_ss (active_threads st') = Some (int (level 5), Some 2)"
  by (rule insert_ss_preempts [OF demo_queues]) (simp_all add: demo_pk_def unqueued_def)

lemma get_head_ss_highest_witness:
  "\<exists>st. insert_ss 2 5 demo_pk = Some st \<and> get_head_ss (active_threads st) = Some (5, Some 2)"
proof -
  obtain st where st: "insert_ss 2 5 demo_pk = Some st" "ready_queues st ((\<lambda>_. [])(5 := [2]))"
    using demo_queue_2 by blast
  have "(LEAST p :: nat. ((\<lambda>_. [])(5 := [2 :: nat])) p \<noteq> []) = 5"
    by (rule Least_equality) (auto split: if_splits)
  then show ?thesis using get_head_ss_highest [OF st(2)] st(1) by auto
qed

lemma yield_rotates_queue_witness:
  "\<exists>st st' s1 s2. insert_ss 2 5 demo_pk = Some st \<and> insert_ss 3 5 st = Some st' \<and>
    remove_ss 3 st' = Some s1 \<and> insert_ss_tail 3 5 s1 = Some s2 \<and>
    ready_queues s2 ((\<lambda>_. [])(5 := [2, 3]))"
proof -
  obtain st where st: "insert_ss 2 5 demo_pk = Some st" "ready_queues st ((\<lambda>_. [])(5 := [2]))"
    "dom (threads st) = {1, 2, 3}" using demo_queue_2 by blast
  obtain st' where st': "insert_ss 3 5 st = Some st'" "ready_queues st' ((\<lambda>_. [])(5 := [3, 2]))"
    using ss.ins [OF st(2), of 3 5] st(3) by (auto simp: unqueued_def level_5)
  show ?thesis using yield_rotates_queue [OF st'(2), of 3 5] st(1) st'(1) by (auto simp: level_5)
qed

end
