(* ===== verification/PSched.thy ===== *)
theory PSched
  imports PReady
begin

unbundle bit_operations_syntax

text \<open>
  PaRTiKle's scheduler (core/kernel/port/sched.c): creation and deletion of
  threads, the changes of state and priority, and the choice of the thread to
  run.  Also alloc_ktimer of time.c, which gives every thread its timer.  The
  result of malloc_ex and the readings of the monotonic clock are parameters.
\<close>

section \<open>Threads\<close>

definition TIMER_IN_USE :: u32 where "TIMER_IN_USE = 0x100"
definition TIMER_ARMED :: u32 where "TIMER_ARMED = 0x200"
definition TIMER_ABSTIME :: u32 where "TIMER_ABSTIME = 1"
definition CLOCK_REALTIME :: int where "CLOCK_REALTIME = 0"
definition CLOCK_MONOTONIC :: int where "CLOCK_MONOTONIC = 1"
definition CLOCK_THREAD_CPUTIME_ID :: int where "CLOCK_THREAD_CPUTIME_ID = 2"
definition PTHREAD_MAGIC_NUMBER :: u32 where "PTHREAD_MAGIC_NUMBER = 0xA5A55A5A"
definition OUTSIDE_IRQS :: u32 where "OUTSIDE_IRQS = 0x7fffffff"
definition SCHED_PENDING :: u32 where "SCHED_PENDING = 0x80000000"

definition zero_ktimer :: ktimer_t where
  "zero_ktimer = \<lparr>owner = None, timer_value = 0, timer_interval = 0, clockid = 0, kt_flags = 0,
     read_clock = None, kt_action = None, kt_sigevent = \<lparr>sigev_notify = 0, sigev_signo = 0, sigev_value = 0\<rparr>\<rparr>"

definition clock_of :: "int \<Rightarrow> clock_reader" where
  "clock_of clk = (if clk = CLOCK_REALTIME then read_realtime_timer
     else if clk = CLOCK_THREAD_CPUTIME_ID then read_thread_cputime_timer
     else read_monotonic_timer)"

definition find_free_ktimer :: "ktimer_t list \<Rightarrow> nat option" where
  "find_free_ktimer ts = List.find (\<lambda>i. kt_flags (ts ! i) AND TIMER_IN_USE = 0) [0..<MAX_TIMERS]"

definition alloc_ktimer :: "int \<Rightarrow> nat option \<Rightarrow> timer_action \<Rightarrow> pk_state \<Rightarrow> (int \<times> pk_state) option" where
  "alloc_ktimer clk thread act st = do {
     _ \<leftarrow> guard_c (length (timer_array st) = MAX_TIMERS);
     let flags = pk_if st;
     let st0 = st\<lparr>pk_if := False\<rparr>;
     (case find_free_ktimer (timer_array st0) of
        None \<Rightarrow> Some (-1, st0\<lparr>pk_if := flags\<rparr>)
      | Some timerid \<Rightarrow> do {
          let kt = zero_ktimer\<lparr>owner := thread, kt_flags := TIMER_IN_USE,
            read_clock := Some (clock_of clk), kt_action := Some act\<rparr>;
          ts \<leftarrow> wr (timer_array st0) timerid kt;
          Some (int timerid, st0\<lparr>timer_array := ts, pk_if := flags\<rparr>) }) }"

text \<open>
  The pointer &timer_array [alloc_ktimer (...)] is never NULL, not even for
  the index -1, so the test of it never fails; the index is kept.
\<close>

definition create_pthread_struct :: "nat option \<Rightarrow> pk_state \<Rightarrow> (nat option \<times> pk_state) option" where
  "create_pthread_struct mem st =
    (case mem of
       None \<Rightarrow> Some (None, st)
     | Some thread \<Rightarrow> do {
         let t = SET_THREAD_STATE SUSPENDED_THREAD (zero_thread\<lparr>magic_number := PTHREAD_MAGIC_NUMBER\<rparr>);
         let t1 = t\<lparr>pt_thread_list := zero_pl (Some thread), pt_mutex_list := zero_pl (Some thread),
                pt_cond_list := zero_pl (Some thread), pt_sem_list := zero_pl (Some thread)\<rparr>;
         (k, st1) \<leftarrow> alloc_ktimer CLOCK_MONOTONIC (Some thread) action_wakeup
                      (st\<lparr>threads := (threads st)(thread \<mapsto> t1)\<rparr>);
         mask \<leftarrow> (case current_thread st1 of None \<Rightarrow> Some 0
           | Some c \<Rightarrow> do { ct \<leftarrow> threads st1 c; Some (sigmask ct) });
         st2 \<leftarrow> upd_th thread (\<lambda>t. t\<lparr>sleep_ktimer := k, sigmask := mask\<rparr>) st1;
         (h, st3) \<leftarrow> insert_pthread_list ThreadL (thread_list st2) thread st2;
         Some (Some thread, st3\<lparr>thread_list := h\<rparr>) })"

text \<open>The stack and the thread go back to the memory pool.\<close>

definition delete_pthread_struct :: "nat \<Rightarrow> pk_state \<Rightarrow> pk_state option" where
  "delete_pthread_struct thread st = do {
     st1 \<leftarrow> remove_ss thread st;
     (h, st2) \<leftarrow> remove_pthread_list ThreadL (thread_list st1) thread st1;
     Some (st2\<lparr>thread_list := h, threads := (threads st2)(thread := None)\<rparr>) }"

definition create_idle :: "time_ns \<Rightarrow> nat option \<Rightarrow> pk_state \<Rightarrow> (int \<times> pk_state) option" where
  "create_idle now mem st = do {
     (i, st1) \<leftarrow> create_pthread_struct mem st;
     let st2 = st1\<lparr>idle_thread := i\<rparr>;
     (case i of None \<Rightarrow> Some (-1, st2)
      | Some a \<Rightarrow> do {
          st3 \<leftarrow> upd_th a (\<lambda>t. t\<lparr>starting_time := now\<rparr>) (st2\<lparr>current_thread := Some a\<rparr>);
          Some (0, st3) }) }"

section \<open>State and priority\<close>

definition set_prio :: "int \<Rightarrow> pthread_struct \<Rightarrow> pthread_struct" where
  "set_prio prio t = t\<lparr>pt_sched_param := (pt_sched_param t)\<lparr>sched_priority := prio\<rparr>\<rparr>"

definition prio_th :: "pthread_struct \<Rightarrow> int" where
  "prio_th t = sched_priority (pt_sched_param t)"

definition change_thread_prio :: "nat \<Rightarrow> int \<Rightarrow> pk_state \<Rightarrow> pk_state option" where
  "change_thread_prio thread prio st = do {
     let flags = pk_if st;
     t \<leftarrow> threads st thread;
     let prev_state = GET_THREAD_STATE t;
     st1 \<leftarrow> remove_ss thread (st\<lparr>pk_if := False\<rparr>);
     st2 \<leftarrow> upd_th thread (set_prio prio) st1;
     st3 \<leftarrow> (if prev_state = READY_THREAD then do {
              t2 \<leftarrow> threads st2 thread;
              insert_ss thread (prio_th t2) st2 }
            else Some st2);
     Some (st3\<lparr>pk_if := flags\<rparr>) }"

definition suspend_thread :: "nat \<Rightarrow> pk_state \<Rightarrow> pk_state option" where
  "suspend_thread thread st = do {
     let flags = pk_if st;
     st1 \<leftarrow> remove_ss thread (st\<lparr>pk_if := False\<rparr>);
     t \<leftarrow> threads st1 thread;
     st2 \<leftarrow> (if GET_THREAD_STATE t \<noteq> FINISHED_THREAD
            then upd_th thread (SET_THREAD_STATE SUSPENDED_THREAD) st1 else Some st1);
     Some (st2\<lparr>pk_if := flags\<rparr>) }"

definition activate_thread :: "nat \<Rightarrow> pk_state \<Rightarrow> pk_state option" where
  "activate_thread thread st = do {
     let flags = pk_if st;
     t \<leftarrow> threads st thread;
     st2 \<leftarrow> (if GET_THREAD_STATE t \<noteq> FINISHED_THREAD \<and> GET_THREAD_STATE t \<noteq> READY_THREAD
       then do {
         st1 \<leftarrow> insert_ss thread (prio_th t) (st\<lparr>pk_if := False\<rparr>);
         upd_th thread (SET_THREAD_STATE READY_THREAD) st1 }
       else Some (st\<lparr>pk_if := False\<rparr>));
     Some (st2\<lparr>pk_if := flags\<rparr>) }"

definition finish_thread :: "nat \<Rightarrow> pk_state \<Rightarrow> pk_state option" where
  "finish_thread thread st = do {
     let flags = pk_if st;
     st1 \<leftarrow> remove_ss thread (st\<lparr>pk_if := False\<rparr>);
     st2 \<leftarrow> upd_th thread (SET_THREAD_STATE FINISHED_THREAD) st1;
     Some (st2\<lparr>pk_if := flags\<rparr>) }"

section \<open>The choice of the thread to run\<close>

text \<open>
  The switch stores the local flags of the frame that is left and yields those
  of the frame that is resumed.
\<close>

definition p_context_switch :: "nat \<Rightarrow> bool \<Rightarrow> pk_state \<Rightarrow> (bool \<times> pk_state) option" where
  "p_context_switch new_thread flags st = do {
     c \<leftarrow> current_thread st;
     _ \<leftarrow> threads st new_thread;
     let sv = (saved_flags st)(c := flags);
     Some (sv new_thread, st\<lparr>saved_flags := sv, current_thread := Some new_thread\<rparr>) }"

text \<open>now1 and now2 are the readings of the clock before and after the switch.\<close>

definition scheduling :: "time_ns \<Rightarrow> time_ns \<Rightarrow> pk_state \<Rightarrow> pk_state option" where
  "scheduling now1 now2 st =
    (let flags = pk_if st; st0 = st\<lparr>pk_if := False\<rparr> in
     if irq_nesting_counter st0 AND OUTSIDE_IRQS \<noteq> 0
     then Some (st0\<lparr>irq_nesting_counter := irq_nesting_counter st0 OR SCHED_PENDING, pk_if := flags\<rparr>)
     else do {
       (_, h) \<leftarrow> get_head_ss (active_threads st0);
       let new_thread = (if h = None then idle_thread st0 else h);
       (flags', st1) \<leftarrow> (if new_thread \<noteq> current_thread st0 then do {
           c \<leftarrow> current_thread st0;
           sta \<leftarrow> upd_th c (\<lambda>t. t\<lparr>used_time := used_time t + (now1 - starting_time t)\<rparr>) st0;
           n \<leftarrow> new_thread;
           (f, stb) \<leftarrow> p_context_switch n flags sta;
           c' \<leftarrow> current_thread stb;
           stc \<leftarrow> upd_th c' (\<lambda>t. t\<lparr>starting_time := now2\<rparr>) stb;
           Some (f, stc) }
         else Some (flags, st0));
       Some (st1\<lparr>irq_nesting_counter := 0, pk_if := flags'\<rparr>) })"

definition pthread_yield_sys :: "time_ns \<Rightarrow> time_ns \<Rightarrow> pk_state \<Rightarrow> (int \<times> pk_state) option" where
  "pthread_yield_sys now1 now2 st = do {
     let flags = pk_if st;
     c \<leftarrow> current_thread st;
     st1 \<leftarrow> remove_ss c (st\<lparr>pk_if := False\<rparr>);
     t \<leftarrow> threads st1 c;
     st2 \<leftarrow> insert_ss_tail c (prio_th t) st1;
     st3 \<leftarrow> scheduling now1 now2 (st2\<lparr>pk_if := flags\<rparr>);
     Some (0, st3) }"

definition init_sched :: "pk_state \<Rightarrow> int \<times> pk_state" where
  "init_sched st = (0, st\<lparr>active_threads := init_ss, thread_list := init_pthread_list\<rparr>)"

section \<open>The invariant of the scheduler\<close>

text \<open>
  The queues hold exactly the ready threads, each at the level of its
  priority; the other threads are detached from the structure.
\<close>

definition sched_inv :: "pk_state \<Rightarrow> (nat \<Rightarrow> nat list) \<Rightarrow> bool" where
  "sched_inv st Q \<longleftrightarrow> ready_queues st Q \<and>
     (\<forall>a t. threads st a = Some t \<longrightarrow> (GET_THREAD_STATE t = READY_THREAD \<longleftrightarrow> \<not> unqueued Q a) \<and>
        (unqueued Q a \<longrightarrow> detached st a)) \<and>
     (\<forall>p<1024. \<forall>a\<in>set (Q p). \<forall>t. threads st a = Some t \<longrightarrow> level (prio_th t) = p)"

text \<open>The same, but for the priority of one thread, which may not be that of its queue.\<close>

definition sched_but :: "nat \<Rightarrow> pk_state \<Rightarrow> (nat \<Rightarrow> nat list) \<Rightarrow> bool" where
  "sched_but th st Q \<longleftrightarrow> ready_queues st Q \<and>
     (\<forall>a t. threads st a = Some t \<longrightarrow> (GET_THREAD_STATE t = READY_THREAD \<longleftrightarrow> \<not> unqueued Q a) \<and>
        (unqueued Q a \<longrightarrow> detached st a)) \<and>
     (\<forall>p<1024. \<forall>a\<in>set (Q p). a \<noteq> th \<longrightarrow> (\<forall>t. threads st a = Some t \<longrightarrow> level (prio_th t) = p))"

lemma sched_but_inv: "sched_inv st Q \<Longrightarrow> sched_but th st Q"
  by (simp add: sched_inv_def sched_but_def)

definition without :: "nat \<Rightarrow> (nat \<Rightarrow> nat list) \<Rightarrow> nat \<Rightarrow> nat list" where
  "without a Q p = remove1 a (Q p)"

lemma state_simps [simp]:
  "GET_THREAD_STATE (SET_THREAD_STATE READY_THREAD t) = READY_THREAD"
  "GET_THREAD_STATE (SET_THREAD_STATE SUSPENDED_THREAD t) = SUSPENDED_THREAD"
  "GET_THREAD_STATE (SET_THREAD_STATE FINISHED_THREAD t) = FINISHED_THREAD"
  "READY_THREAD \<noteq> SUSPENDED_THREAD" "READY_THREAD \<noteq> FINISHED_THREAD" "SUSPENDED_THREAD \<noteq> FINISHED_THREAD"
  "SUSPENDED_THREAD \<noteq> READY_THREAD" "FINISHED_THREAD \<noteq> READY_THREAD" "FINISHED_THREAD \<noteq> SUSPENDED_THREAD"
proof -
  have g: "((w AND NOT m) OR (s AND m)) AND m = s AND m" for w s m :: u32
    by (simp add: bit.conj_disj_distrib2 and.assoc)
  have f: "thread_flags (SET_THREAD_STATE s t) = (thread_flags t AND NOT 0x7) OR (s AND 0x7)" for s
    by (simp add: SET_THREAD_STATE_def)
  have "GET_THREAD_STATE (SET_THREAD_STATE s t) = s AND 0x7" for s
    unfolding GET_THREAD_STATE_def f by (rule g)
  then show "GET_THREAD_STATE (SET_THREAD_STATE READY_THREAD t) = READY_THREAD"
    "GET_THREAD_STATE (SET_THREAD_STATE SUSPENDED_THREAD t) = SUSPENDED_THREAD"
    "GET_THREAD_STATE (SET_THREAD_STATE FINISHED_THREAD t) = FINISHED_THREAD"
    by (simp_all add: READY_THREAD_def SUSPENDED_THREAD_def FINISHED_THREAD_def)
qed (simp_all add: READY_THREAD_def SUSPENDED_THREAD_def FINISHED_THREAD_def)

lemma set_state_fields [simp]:
  "next_matrix (SET_THREAD_STATE s t) = next_matrix t" "prev_matrix (SET_THREAD_STATE s t) = prev_matrix t"
  "ss_i (SET_THREAD_STATE s t) = ss_i t" "ss_j (SET_THREAD_STATE s t) = ss_j t"
  "prio_th (SET_THREAD_STATE s t) = prio_th t" "magic_number (SET_THREAD_STATE s t) = magic_number t"
  by (simp_all add: SET_THREAD_STATE_def prio_th_def)

lemma set_prio_fields [simp]:
  "next_matrix (set_prio q t) = next_matrix t" "prev_matrix (set_prio q t) = prev_matrix t"
  "ss_i (set_prio q t) = ss_i t" "ss_j (set_prio q t) = ss_j t"
  "prio_th (set_prio q t) = q" "GET_THREAD_STATE (set_prio q t) = GET_THREAD_STATE t"
  by (simp_all add: set_prio_def prio_th_def GET_THREAD_STATE_def)

text \<open>A change of a thread outside the fields of the structure keeps the queues.\<close>

lemma views_upd:
  assumes "threads st a = Some t" "next_matrix (f t) = next_matrix t" "prev_matrix (f t) = prev_matrix t"
    "ss_i (f t) = ss_i t" "ss_j (f t) = ss_j t"
  shows "mx (st\<lparr>threads := (threads st)(a \<mapsto> f t)\<rparr>) = mx st" "mp (st\<lparr>threads := (threads st)(a \<mapsto> f t)\<rparr>) = mp st"
    "ssv (st\<lparr>threads := (threads st)(a \<mapsto> f t)\<rparr>) = ssv st"
  using assms by (auto simp: mx_def mp_def ssv_def fun_eq_iff)

lemma queues_eqI:
  assumes "mx st' = mx st" "mp st' = mp st" "ssv st' = ssv st" "active_threads st' = active_threads st"
    "dom (threads st') = dom (threads st)"
  shows "ready_queues st' = ready_queues st" "detached st' = detached st"
  by (rule ext, simp add: ready_queues_def queue_ok_def detached_def assms)+

lemma same_but_ss_thread:
  assumes "same_but_ss st st'" "threads st a = Some t"
  shows "\<exists>t'. threads st' a = Some t' \<and> GET_THREAD_STATE t' = GET_THREAD_STATE t \<and> prio_th t' = prio_th t"
proof -
  have "map_option ss_strip (threads st' a) = Some (ss_strip t)"
    using assms by (simp add: same_but_ss_def)
  then obtain t' where t': "threads st' a = Some t'" "ss_strip t' = ss_strip t" by auto
  have "thread_flags (ss_strip x) = thread_flags x" "pt_sched_param (ss_strip x) = pt_sched_param x" for x
    by (simp_all add: ss_strip_def)
  then have "thread_flags t' = thread_flags t" "pt_sched_param t' = pt_sched_param t"
    using t'(2) by metis+
  then show ?thesis using t'(1) by (simp add: GET_THREAD_STATE_def prio_th_def)
qed

text \<open>
  st' differs from st in the thread th, in the links of the structure and in
  nothing else; the nodes of th in the lists of threads are the same.
\<close>

definition only_thread :: "nat \<Rightarrow> pk_state \<Rightarrow> pk_state \<Rightarrow> bool" where
  "only_thread th st st' \<longleftrightarrow>
     (\<forall>a. a \<noteq> th \<longrightarrow> map_option ss_strip (threads st' a) = map_option ss_strip (threads st a)) \<and>
     (\<forall>a k. map_option (get_pl k) (threads st' a) = map_option (get_pl k) (threads st a)) \<and>
     st'\<lparr>threads := threads st, active_threads := active_threads st\<rparr> = st"

lemma get_pl_strip [simp]: "get_pl k (ss_strip t) = get_pl k t"
  by (cases k) (simp_all add: ss_strip_def)

lemma same_but_ss_pl:
  assumes "same_but_ss st st'"
  shows "map_option (get_pl k) (threads st' a) = map_option (get_pl k) (threads st a)"
proof -
  have "map_option (get_pl k) x = map_option (get_pl k) (map_option ss_strip x)" for x
    by (simp add: option.map_comp o_def)
  then show ?thesis using assms unfolding same_but_ss_def by metis
qed

lemma get_pl_fields [simp]:
  "get_pl k (SET_THREAD_STATE s t) = get_pl k t" "get_pl k (set_prio q t) = get_pl k t"
  by (cases k; simp add: SET_THREAD_STATE_def set_prio_def)+

lemma only_thread_fields:
  "only_thread th st st' \<Longrightarrow> current_thread st' = current_thread st \<and> idle_thread st' = idle_thread st \<and>
   thread_list st' = thread_list st \<and> timer_array st' = timer_array st \<and> timer_heap st' = timer_heap st \<and>
   irq_nesting_counter st' = irq_nesting_counter st \<and> pk_if st' = pk_if st"
  unfolding only_thread_def by (cases st; cases st') auto

lemma same_but_ss_fields:
  "same_but_ss st st' \<Longrightarrow> current_thread st' = current_thread st \<and> idle_thread st' = idle_thread st \<and>
   irq_nesting_counter st' = irq_nesting_counter st \<and> pk_if st' = pk_if st"
  unfolding same_but_ss_def by (cases st; cases st') auto

lemma frame_simps [simp]:
  "ready_queues (st\<lparr>pk_if := b\<rparr>) = ready_queues st" "detached (st\<lparr>pk_if := b\<rparr>) = detached st"
  "ready_queues (st\<lparr>current_thread := c\<rparr>) = ready_queues st" "detached (st\<lparr>current_thread := c\<rparr>) = detached st"
  "ready_queues (st\<lparr>saved_flags := v\<rparr>) = ready_queues st" "detached (st\<lparr>saved_flags := v\<rparr>) = detached st"
  "ready_queues (st\<lparr>irq_nesting_counter := n\<rparr>) = ready_queues st"
  "detached (st\<lparr>irq_nesting_counter := n\<rparr>) = detached st"
  by (rule queues_eqI; simp add: mx_def mp_def ssv_def fun_eq_iff)+

lemma sched_inv_frame [simp]:
  "sched_inv (st\<lparr>pk_if := b\<rparr>) Q = sched_inv st Q" "sched_inv (st\<lparr>current_thread := c\<rparr>) Q = sched_inv st Q"
  "sched_inv (st\<lparr>saved_flags := v\<rparr>) Q = sched_inv st Q" "sched_inv (st\<lparr>irq_nesting_counter := n\<rparr>) Q = sched_inv st Q"
  by (simp_all add: sched_inv_def)

lemma sched_but_frame [simp]: "sched_but th (st\<lparr>pk_if := b\<rparr>) Q = sched_but th st Q"
  by (simp add: sched_but_def)

lemma queues_cong:
  assumes "\<forall>p<1024. Q p = Q' p"
  shows "ready_queues st Q = ready_queues st Q'" "unqueued Q a = unqueued Q' a"
  using assms by (auto simp: ready_queues_def unqueued_def)

lemma set_without:
  assumes "ready_queues st Q" "p < 1024"
  shows "set (without th Q p) = set (Q p) - {th}"
  using ss.queued [OF assms] by (simp add: without_def set_remove1_eq)

lemma remove_ss_any:
  assumes inv: "sched_but th st Q" and t: "threads st th = Some t"
  shows "\<exists>st1. remove_ss th st = Some st1 \<and> ready_queues st1 (without th Q) \<and> same_but_ss st st1 \<and>
    detached st1 th \<and> keeps_detached Q th st st1 \<and> unqueued (without th Q) th"
proof -
  have R: "ready_queues st Q" using inv by (simp add: sched_but_def)
  have out: "unqueued (without th Q) th" using set_without [OF R] by (simp add: unqueued_def)
  show ?thesis
  proof (cases "unqueued Q th")
    case True
    then have "detached st th" using inv t by (simp add: sched_but_def)
    moreover have "ready_queues s (without th Q) = ready_queues s Q" for s
      using True by (intro queues_cong(1)) (simp add: without_def unqueued_def remove1_idem)
    ultimately show ?thesis using remove_ss_detached [OF R _ True] t out by (simp add: domIff)
  next
    case False
    then obtain p where p: "p < 1024" "th \<in> set (Q p)" by (auto simp: unqueued_def)
    have "ready_queues s (without th Q) = ready_queues s (Q(p := remove1 th (Q p)))" for s
      using queues_disjoint [OF R p(1)] p(2)
      by (intro queues_cong(1)) (auto simp: without_def intro!: remove1_idem)
    then show ?thesis using remove_ss_queued [OF R p] out by simp
  qed
qed

lemma sched_invD:
  "sched_inv st Q \<Longrightarrow> threads st a = Some t \<Longrightarrow>
   (GET_THREAD_STATE t = READY_THREAD \<longleftrightarrow> \<not> unqueued Q a) \<and> (unqueued Q a \<longrightarrow> detached st a)"
  by (simp add: sched_inv_def)

lemma sched_inv_level:
  "sched_inv st Q \<Longrightarrow> p < 1024 \<Longrightarrow> a \<in> set (Q p) \<Longrightarrow> threads st a = Some t \<Longrightarrow> level (prio_th t) = p"
  by (simp add: sched_inv_def)

lemma sched_butD:
  "sched_but th st Q \<Longrightarrow> threads st a = Some t \<Longrightarrow>
   (GET_THREAD_STATE t = READY_THREAD \<longleftrightarrow> \<not> unqueued Q a) \<and> (unqueued Q a \<longrightarrow> detached st a)"
  by (simp add: sched_but_def)

lemma sched_but_level:
  "sched_but th st Q \<Longrightarrow> p < 1024 \<Longrightarrow> a \<in> set (Q p) \<Longrightarrow> a \<noteq> th \<Longrightarrow> threads st a = Some t \<Longrightarrow> level (prio_th t) = p"
  by (simp add: sched_but_def)

text \<open>How the invariant is kept when one thread changes.\<close>

lemma sched_inv_change:
  assumes inv: "sched_but th st Q" and R: "ready_queues st' Q'"
    and mem: "\<forall>p<1024. set (Q' p) - {th} = set (Q p) - {th}"
    and det: "keeps_detached Q th st st'" and only: "only_thread th st st'"
    and t': "threads st' th = Some t'" "GET_THREAD_STATE t' = READY_THREAD \<longleftrightarrow> \<not> unqueued Q' th"
      "unqueued Q' th \<longrightarrow> detached st' th" "\<forall>p<1024. th \<in> set (Q' p) \<longrightarrow> level (prio_th t') = p"
  shows "sched_inv st' Q'"
proof -
  have same: "\<exists>x. threads st a = Some x \<and> GET_THREAD_STATE x = GET_THREAD_STATE y \<and> prio_th x = prio_th y"
    if "a \<noteq> th" "threads st' a = Some y" for a y
  proof -
    have "map_option ss_strip (threads st a) = map_option ss_strip (threads st' a)"
      using only that(1) by (simp add: only_thread_def)
    also have "\<dots> = Some (ss_strip y)" using that(2) by simp
    finally have "map_option ss_strip (threads st a) = Some (ss_strip y)" .
    then obtain x where x: "threads st a = Some x" "ss_strip x = ss_strip y" by auto
    have "thread_flags (ss_strip z) = thread_flags z" "pt_sched_param (ss_strip z) = pt_sched_param z" for z
      by (simp_all add: ss_strip_def)
    then have "thread_flags x = thread_flags y" "pt_sched_param x = pt_sched_param y" using x(2) by metis+
    then show ?thesis using x(1) by (simp add: GET_THREAD_STATE_def prio_th_def)
  qed
  have mem': "a \<in> set (Q' p) \<longleftrightarrow> a \<in> set (Q p)" if "a \<noteq> th" "p < 1024" for a p
    using mem that by blast
  have uq: "unqueued Q' a \<longleftrightarrow> unqueued Q a" if "a \<noteq> th" for a
    using mem' [OF that] by (simp add: unqueued_def)
  have "(GET_THREAD_STATE y = READY_THREAD \<longleftrightarrow> \<not> unqueued Q' a) \<and> (unqueued Q' a \<longrightarrow> detached st' a)"
    if y: "threads st' a = Some y" for a y
  proof (cases "a = th")
    case True
    then show ?thesis using t' y by simp
  next
    case False
    then obtain x where x: "threads st a = Some x" "GET_THREAD_STATE x = GET_THREAD_STATE y" using same y by blast
    have "(GET_THREAD_STATE x = READY_THREAD \<longleftrightarrow> \<not> unqueued Q a) \<and> (unqueued Q a \<longrightarrow> detached st a)"
      by (rule sched_butD [OF inv x(1)])
    then show ?thesis using x(2) uq [OF False] det False by (auto simp: keeps_detached_def)
  qed
  moreover have "level (prio_th y) = p" if h: "p < 1024" "a \<in> set (Q' p)" "threads st' a = Some y" for p a y
  proof (cases "a = th")
    case True
    then show ?thesis using t' h by simp
  next
    case False
    then obtain x where x: "threads st a = Some x" "prio_th x = prio_th y" using same h(3) by blast
    have "a \<in> set (Q p)" using mem' [OF False h(1)] h(2) by simp
    from sched_but_level [OF inv h(1) this False x(1)] show ?thesis using x(2) by simp
  qed
  ultimately show ?thesis using R by (auto simp: sched_inv_def)
qed

text \<open>A change of the fields of th that the structure does not own, after an operation on the structure.\<close>

lemma upd_after:
  assumes same: "same_but_ss (st\<lparr>pk_if := False\<rparr>) st1" and t: "threads st th = Some t"
    and f: "\<And>t. next_matrix (f t) = next_matrix t \<and> prev_matrix (f t) = prev_matrix t \<and> ss_i (f t) = ss_i t \<and> ss_j (f t) = ss_j t"
    and pl: "\<And>k t. get_pl k (f t) = get_pl k t"
  shows "\<exists>t1 st2. threads st1 th = Some t1 \<and> GET_THREAD_STATE t1 = GET_THREAD_STATE t \<and> prio_th t1 = prio_th t \<and>
    upd_th th f st1 = Some st2 \<and> ready_queues st2 = ready_queues st1 \<and> detached st2 = detached st1 \<and>
    threads st2 th = Some (f t1) \<and> only_thread th st (st2\<lparr>pk_if := pk_if st\<rparr>) \<and> same_but_ss st (st1\<lparr>pk_if := pk_if st\<rparr>)"
proof -
  obtain t1 where t1: "threads st1 th = Some t1" "GET_THREAD_STATE t1 = GET_THREAD_STATE t" "prio_th t1 = prio_th t"
    using same_but_ss_thread [OF same, of th t] t by auto
  let ?st2 = "st1\<lparr>threads := (threads st1)(th \<mapsto> f t1)\<rparr>"
  have "ready_queues ?st2 = ready_queues st1" "detached ?st2 = detached st1"
    using views_upd [OF t1(1), of f] f t1(1) by (auto intro!: queues_eqI split: if_splits)
  moreover have "same_but_ss st (st1\<lparr>pk_if := pk_if st\<rparr>)"
    using same by (cases st; cases st1) (auto simp: same_but_ss_def)
  moreover have "only_thread th st (?st2\<lparr>pk_if := pk_if st\<rparr>)"
  proof -
    have "Some (get_pl k t1) = map_option (get_pl k) (threads st th)" for k
      using same_but_ss_pl [OF same, of k th] t1(1) by simp
    then have "map_option (get_pl k) (threads ?st2 a) = map_option (get_pl k) (threads st a)" for k a
      using same_but_ss_pl [OF same, of k a] pl by (cases "a = th") simp_all
    then show ?thesis using same by (cases st; cases st1) (auto simp: same_but_ss_def only_thread_def)
  qed
  ultimately show ?thesis using t1 by (intro exI [of _ t1] exI [of _ ?st2]) simp
qed

lemma keeps_detached_frame:
  "detached st2 = detached st1 \<Longrightarrow> keeps_detached Q th st st2 = keeps_detached Q th st st1"
  "keeps_detached Q th (st\<lparr>pk_if := b\<rparr>) st1 = keeps_detached Q th st st1"
  by (simp_all add: keeps_detached_def)

section \<open>The operations keep the invariant\<close>

lemma activate_thread_ok:
  assumes inv: "sched_inv st Q" and t: "threads st th = Some t"
    and live: "GET_THREAD_STATE t \<noteq> FINISHED_THREAD" "GET_THREAD_STATE t \<noteq> READY_THREAD"
  shows "\<exists>st' t'. activate_thread th st = Some st' \<and> only_thread th st st' \<and>
    sched_inv st' (Q(level (prio_th t) := th # Q (level (prio_th t)))) \<and>
    threads st' th = Some t' \<and> GET_THREAD_STATE t' = READY_THREAD \<and> prio_th t' = prio_th t"
proof -
  let ?p = "level (prio_th t)" and ?st0 = "st\<lparr>pk_if := False\<rparr>"
  let ?Q = "Q(?p := th # Q ?p)"
  have out: "unqueued Q th" using sched_invD [OF inv t] live by simp
  have R: "ready_queues ?st0 Q" using inv by (simp add: sched_inv_def)
  have thd: "th \<in> dom (threads ?st0)" using t by auto
  obtain st1 where s1: "insert_ss th (prio_th t) ?st0 = Some st1" "ready_queues st1 ?Q"
    "same_but_ss ?st0 st1" "keeps_detached Q th ?st0 st1"
    using insert_ss_ok [OF R thd out, of ?p "prio_th t"] by (auto simp: level_def)
  obtain t1 st2 where u: "threads st1 th = Some t1" "prio_th t1 = prio_th t"
    "upd_th th (SET_THREAD_STATE READY_THREAD) st1 = Some st2"
    "ready_queues st2 = ready_queues st1" "detached st2 = detached st1"
    "threads st2 th = Some (SET_THREAD_STATE READY_THREAD t1)" "only_thread th st (st2\<lparr>pk_if := pk_if st\<rparr>)"
    using upd_after [OF s1(3) t, of "SET_THREAD_STATE READY_THREAD"] by auto
  have "sched_inv (st2\<lparr>pk_if := pk_if st\<rparr>) ?Q"
  proof (rule sched_inv_change [OF sched_but_inv [OF inv] _ _ _ u(7)])
    show "ready_queues (st2\<lparr>pk_if := pk_if st\<rparr>) ?Q" using s1(2) u(4) by simp
    show "\<forall>p<1024. set (?Q p) - {th} = set (Q p) - {th}" by auto
    show "keeps_detached Q th st (st2\<lparr>pk_if := pk_if st\<rparr>)"
      using s1(4) u(5) by (simp add: keeps_detached_def)
    show "threads (st2\<lparr>pk_if := pk_if st\<rparr>) th = Some (SET_THREAD_STATE READY_THREAD t1)" using u(6) by simp
    show "GET_THREAD_STATE (SET_THREAD_STATE READY_THREAD t1) = READY_THREAD \<longleftrightarrow> \<not> unqueued ?Q th"
      by (auto simp: unqueued_def intro!: exI [of _ ?p])
    then show "unqueued ?Q th \<longrightarrow> detached (st2\<lparr>pk_if := pk_if st\<rparr>) th" by simp
    show "\<forall>p<1024. th \<in> set (?Q p) \<longrightarrow> level (prio_th (SET_THREAD_STATE READY_THREAD t1)) = p"
      using out u(2) by (auto simp: unqueued_def)
  qed
  moreover have "activate_thread th st = Some (st2\<lparr>pk_if := pk_if st\<rparr>)"
    using t live s1(1) u(3) by (simp add: activate_thread_def)
  ultimately show ?thesis using u(2,6,7) by auto
qed

lemma leave_ok:
  assumes inv: "sched_inv st Q" and t: "threads st th = Some t" and f: "f = SET_THREAD_STATE s" "s \<noteq> READY_THREAD"
    and s: "\<And>t. GET_THREAD_STATE (SET_THREAD_STATE s t) = s"
  shows "\<exists>st1 t1 st2. remove_ss th (st\<lparr>pk_if := False\<rparr>) = Some st1 \<and> threads st1 th = Some t1 \<and>
    GET_THREAD_STATE t1 = GET_THREAD_STATE t \<and> upd_th th f st1 = Some st2 \<and>
    only_thread th st (st2\<lparr>pk_if := pk_if st\<rparr>) \<and> sched_inv (st2\<lparr>pk_if := pk_if st\<rparr>) (without th Q) \<and>
    threads st2 th = Some (f t1) \<and> same_but_ss st (st1\<lparr>pk_if := pk_if st\<rparr>) \<and>
    ready_queues st1 (without th Q) \<and> detached st1 th \<and> keeps_detached Q th st st1"
proof -
  let ?st0 = "st\<lparr>pk_if := False\<rparr>"
  have "sched_but th ?st0 Q" "threads ?st0 th = Some t" using sched_but_inv [OF inv] t by simp_all
  from remove_ss_any [OF this] obtain st1 where s1: "remove_ss th ?st0 = Some st1"
    "ready_queues st1 (without th Q)" "same_but_ss ?st0 st1" "detached st1 th" "keeps_detached Q th ?st0 st1"
    "unqueued (without th Q) th"
    by blast
  obtain t1 st2 where u: "threads st1 th = Some t1" "GET_THREAD_STATE t1 = GET_THREAD_STATE t"
    "upd_th th f st1 = Some st2" "ready_queues st2 = ready_queues st1" "detached st2 = detached st1"
    "threads st2 th = Some (f t1)" "only_thread th st (st2\<lparr>pk_if := pk_if st\<rparr>)"
    "same_but_ss st (st1\<lparr>pk_if := pk_if st\<rparr>)"
    using upd_after [OF s1(3) t, of f] f by auto
  have R: "ready_queues st Q" using inv by (simp add: sched_inv_def)
  have kd: "keeps_detached Q th st st1" using s1(5) by (simp add: keeps_detached_def)
  have "sched_inv (st2\<lparr>pk_if := pk_if st\<rparr>) (without th Q)"
  proof (rule sched_inv_change [OF sched_but_inv [OF inv] _ _ _ u(7)])
    show "\<forall>p<1024. set (without th Q p) - {th} = set (Q p) - {th}" using set_without [OF R] by simp
    show "\<forall>p<1024. th \<in> set (without th Q p) \<longrightarrow> level (prio_th (f t1)) = p"
      using s1(6) by (simp add: unqueued_def)
  qed (use s1 u kd f s in \<open>simp_all add: keeps_detached_def\<close>)
  then show ?thesis using s1(1,2,4) u kd by auto
qed

lemma suspend_thread_ok:
  assumes inv: "sched_inv st Q" and t: "threads st th = Some t" and s: "GET_THREAD_STATE t \<noteq> FINISHED_THREAD"
  shows "\<exists>st' t'. suspend_thread th st = Some st' \<and> only_thread th st st' \<and> sched_inv st' (without th Q) \<and>
    threads st' th = Some t' \<and> GET_THREAD_STATE t' = SUSPENDED_THREAD"
proof -
  obtain st1 t1 st2 where l: "remove_ss th (st\<lparr>pk_if := False\<rparr>) = Some st1" "threads st1 th = Some t1"
    "GET_THREAD_STATE t1 = GET_THREAD_STATE t" "upd_th th (SET_THREAD_STATE SUSPENDED_THREAD) st1 = Some st2"
    "only_thread th st (st2\<lparr>pk_if := pk_if st\<rparr>)" "sched_inv (st2\<lparr>pk_if := pk_if st\<rparr>) (without th Q)"
    "threads st2 th = Some (SET_THREAD_STATE SUSPENDED_THREAD t1)"
    using leave_ok [where s = SUSPENDED_THREAD, OF inv t refl] by auto
  moreover have "suspend_thread th st = Some (st2\<lparr>pk_if := pk_if st\<rparr>)"
    using l s by (simp add: suspend_thread_def)
  ultimately show ?thesis by auto
qed

lemma finish_thread_ok:
  assumes inv: "sched_inv st Q" and t: "threads st th = Some t"
  shows "\<exists>st' t'. finish_thread th st = Some st' \<and> only_thread th st st' \<and> sched_inv st' (without th Q) \<and>
    threads st' th = Some t' \<and> GET_THREAD_STATE t' = FINISHED_THREAD"
proof -
  obtain st1 t1 st2 where l: "remove_ss th (st\<lparr>pk_if := False\<rparr>) = Some st1"
    "upd_th th (SET_THREAD_STATE FINISHED_THREAD) st1 = Some st2"
    "only_thread th st (st2\<lparr>pk_if := pk_if st\<rparr>)" "sched_inv (st2\<lparr>pk_if := pk_if st\<rparr>) (without th Q)"
    "threads st2 th = Some (SET_THREAD_STATE FINISHED_THREAD t1)"
    using leave_ok [where s = FINISHED_THREAD, OF inv t refl] by auto
  moreover have "finish_thread th st = Some (st2\<lparr>pk_if := pk_if st\<rparr>)"
    using l by (simp add: finish_thread_def)
  ultimately show ?thesis by auto
qed

lemma only_thread_trans:
  "only_thread th a b \<Longrightarrow> only_thread th b c \<Longrightarrow> only_thread th a c"
  unfolding only_thread_def by (cases a; cases b; cases c) auto

lemma same_only_thread: "same_but_ss a b \<Longrightarrow> only_thread th a b"
  using same_but_ss_pl [of a b] by (simp add: same_but_ss_def only_thread_def)

lemma change_thread_prio_ok:
  assumes inv: "sched_but th st Q" and t: "threads st th = Some t"
  shows "\<exists>st' t'. change_thread_prio th prio st = Some st' \<and> only_thread th st st' \<and>
    sched_inv st' (if GET_THREAD_STATE t = READY_THREAD
                   then (without th Q)(level prio := th # without th Q (level prio)) else Q) \<and>
    threads st' th = Some t' \<and> prio_th t' = prio \<and> GET_THREAD_STATE t' = GET_THREAD_STATE t"
proof -
  let ?st0 = "st\<lparr>pk_if := False\<rparr>"
  have R: "ready_queues st Q" using inv by (simp add: sched_but_def)
  have "sched_but th ?st0 Q" "threads ?st0 th = Some t" using inv t by simp_all
  from remove_ss_any [OF this] obtain st1 where s1: "remove_ss th ?st0 = Some st1"
    "ready_queues st1 (without th Q)" "same_but_ss ?st0 st1" "detached st1 th" "keeps_detached Q th ?st0 st1"
    "unqueued (without th Q) th"
    by blast
  obtain t1 st2 where u: "threads st1 th = Some t1" "GET_THREAD_STATE t1 = GET_THREAD_STATE t"
    "upd_th th (set_prio prio) st1 = Some st2" "ready_queues st2 = ready_queues st1" "detached st2 = detached st1"
    "threads st2 th = Some (set_prio prio t1)" "only_thread th st (st2\<lparr>pk_if := pk_if st\<rparr>)"
    using upd_after [OF s1(3) t, of "set_prio prio"] by auto
  have kd: "keeps_detached Q th st (st2\<lparr>pk_if := pk_if st\<rparr>)" using s1(5) u(5) by (simp add: keeps_detached_def)
  show ?thesis
  proof (cases "GET_THREAD_STATE t = READY_THREAD")
    case False
    then have out: "unqueued Q th" using sched_butD [OF inv t] by simp
    then have "ready_queues s (without th Q) = ready_queues s Q" for s
      by (intro queues_cong(1)) (simp add: without_def unqueued_def remove1_idem)
    then have "sched_inv (st2\<lparr>pk_if := pk_if st\<rparr>) Q"
      by (intro sched_inv_change [where t' = "set_prio prio t1", OF inv _ _ kd u(7)])
        (use s1 u False out in \<open>auto simp: unqueued_def\<close>)
    moreover have "change_thread_prio th prio st = Some (st2\<lparr>pk_if := pk_if st\<rparr>)"
      using t s1(1) u(3) False by (simp add: change_thread_prio_def)
    ultimately show ?thesis using False u by auto
  next
    case True
    let ?Q = "(without th Q)(level prio := th # without th Q (level prio))"
    have "ready_queues st2 (without th Q)" "th \<in> dom (threads st2)" using s1(2) u(4,6) by auto
    from insert_ss_ok [OF this s1(6), of "level prio" prio] obtain st3 where s3:
      "insert_ss th prio st2 = Some st3" "ready_queues st3 ?Q" "same_but_ss st2 st3"
      "keeps_detached (without th Q) th st2 st3"
      by (auto simp: level_def)
    obtain t3 where t3: "threads st3 th = Some t3" "GET_THREAD_STATE t3 = READY_THREAD" "prio_th t3 = prio"
      using same_but_ss_thread [OF s3(3) u(6)] u(2) True by auto
    have "same_but_ss (st2\<lparr>pk_if := pk_if st\<rparr>) (st3\<lparr>pk_if := pk_if st\<rparr>)"
      using s3(3) by (cases st2; cases st3) (auto simp: same_but_ss_def)
    then have only: "only_thread th st (st3\<lparr>pk_if := pk_if st\<rparr>)"
      using u(7) same_only_thread only_thread_trans by blast
    have "unqueued Q x \<Longrightarrow> unqueued (without th Q) x" for x
      using set_without [OF R] by (simp add: unqueued_def)
    then have kd3: "keeps_detached Q th st (st3\<lparr>pk_if := pk_if st\<rparr>)"
      using kd s3(4) by (simp add: keeps_detached_def)
    have "sched_inv (st3\<lparr>pk_if := pk_if st\<rparr>) ?Q"
    proof (rule sched_inv_change [OF inv _ _ kd3 only])
      show "\<forall>p<1024. set (?Q p) - {th} = set (Q p) - {th}" using set_without [OF R] by auto
      show "GET_THREAD_STATE t3 = READY_THREAD \<longleftrightarrow> \<not> unqueued ?Q th"
        using t3 by (auto simp: unqueued_def intro!: exI [of _ "level prio"])
      then show "unqueued ?Q th \<longrightarrow> detached (st3\<lparr>pk_if := pk_if st\<rparr>) th" using t3 by simp
      show "\<forall>p<1024. th \<in> set (?Q p) \<longrightarrow> level (prio_th t3) = p"
        using s1(6) t3 by (auto simp: unqueued_def)
    qed (use s3 t3 in simp_all)
    moreover have "change_thread_prio th prio st = Some (st3\<lparr>pk_if := pk_if st\<rparr>)"
      using t s1(1) u(3,6) s3(1) True by (simp add: change_thread_prio_def)
    ultimately show ?thesis using True t3 only by auto
  qed
qed

section \<open>The choice\<close>

definition chosen :: "(nat \<Rightarrow> nat list) \<Rightarrow> nat \<Rightarrow> nat \<Rightarrow> bool" where
  "chosen Q idle n \<longleftrightarrow> (n = idle \<and> (\<forall>p<1024. Q p = [])) \<or>
     (\<exists>p<1024. Q p \<noteq> [] \<and> n = hd (Q p) \<and> (\<forall>q<p. Q q = []))"

lemma sched_inv_upd:
  assumes inv: "sched_inv st Q" and t: "threads st a = Some t"
    and f: "next_matrix (f t) = next_matrix t" "prev_matrix (f t) = prev_matrix t" "ss_i (f t) = ss_i t"
      "ss_j (f t) = ss_j t" "GET_THREAD_STATE (f t) = GET_THREAD_STATE t" "prio_th (f t) = prio_th t"
  shows "sched_inv (st\<lparr>threads := (threads st)(a \<mapsto> f t)\<rparr>) Q"
proof -
  let ?st = "st\<lparr>threads := (threads st)(a \<mapsto> f t)\<rparr>"
  have "ready_queues ?st = ready_queues st" "detached ?st = detached st"
    using views_upd [OF t, of f] f t by (auto intro!: queues_eqI split: if_splits)
  then show ?thesis
    using inv sched_invD [OF inv t] sched_inv_level [OF inv _ _ t] f(5,6) by (auto simp: sched_inv_def)
qed

lemma scheduling_ok:
  assumes inv: "sched_inv st Q" and irq: "irq_nesting_counter st AND OUTSIDE_IRQS = 0"
    and cur: "current_thread st = Some c" "threads st c = Some tc"
    and idle: "idle_thread st = Some i" "i \<in> dom (threads st)"
  shows "\<exists>st' n. scheduling now1 now2 st = Some st' \<and> sched_inv st' Q \<and> chosen Q i n \<and>
    current_thread st' = Some n \<and> irq_nesting_counter st' = 0 \<and>
    pk_if st' = (if n = c then pk_if st else saved_flags st n) \<and>
    (\<exists>t'. threads st' c = Some t' \<and>
       used_time t' = (if n = c then used_time tc else used_time tc + (now1 - starting_time tc)))"
proof -
  let ?st0 = "st\<lparr>pk_if := False\<rparr>"
  have R: "ready_queues st Q" using inv by (simp add: sched_inv_def)
  obtain pr h where h: "get_head_ss (active_threads st) = Some (pr, h)"
    "(h = None \<and> (\<forall>p<1024. Q p = [])) \<or> (\<exists>p<1024. h = Some (hd (Q p)) \<and> Q p \<noteq> [] \<and> (\<forall>q<p. Q q = []))"
    using ss.highest [OF R] by blast
  obtain n where n: "(if h = None then idle_thread st else h) = Some n" "chosen Q i n"
  proof (cases h)
    case None
    then show ?thesis using that [of i] h(2) idle(1) by (simp add: chosen_def)
  next
    case (Some n)
    then show ?thesis using that [of n] h(2) by (auto simp: chosen_def)
  qed
  have nd: "n \<in> dom (threads st)"
  proof (cases "h = None")
    case True
    then show ?thesis using n idle by simp
  next
    case False
    then obtain p where p: "p < 1024" "n = hd (Q p)" "Q p \<noteq> []" using h(2) n(1) by auto
    then have "n \<in> set (Q p)" by simp
    then show ?thesis using ss.queued [OF R p(1)] by blast
  qed
  show ?thesis
  proof (cases "n = c")
    case True
    let ?st = "st\<lparr>irq_nesting_counter := 0\<rparr>"
    have "scheduling now1 now2 st = Some (?st0\<lparr>irq_nesting_counter := 0, pk_if := pk_if st\<rparr>)"
      using irq h(1) n(1) True cur by (cases h) (simp_all add: scheduling_def Let_def)
    then show ?thesis using inv n(2) True cur by (intro exI [of _ "?st0\<lparr>irq_nesting_counter := 0, pk_if := pk_if st\<rparr>"] exI [of _ n]) simp
  next
    case False
    let ?sta = "?st0\<lparr>threads := (threads st)(c \<mapsto> tc\<lparr>used_time := used_time tc + (now1 - starting_time tc)\<rparr>)\<rparr>"
    let ?stb = "?sta\<lparr>saved_flags := (saved_flags st)(c := pk_if st), current_thread := Some n\<rparr>"
    obtain tn where tn: "threads st n = Some tn" using nd by auto
    let ?stc = "?stb\<lparr>threads := (threads ?stb)(n \<mapsto> tn\<lparr>starting_time := now2\<rparr>)\<rparr>"
    have a: "sched_inv ?sta Q"
      using sched_inv_upd [of ?st0 Q c tc "\<lambda>t. t\<lparr>used_time := used_time tc + (now1 - starting_time tc)\<rparr>"] inv cur
      by (simp add: GET_THREAD_STATE_def prio_th_def)
    then have "sched_inv ?stb Q" by simp
    moreover have "threads ?stb n = Some tn" using tn False by simp
    ultimately have c: "sched_inv ?stc Q"
      using sched_inv_upd [of ?stb Q n tn "\<lambda>t. t\<lparr>starting_time := now2\<rparr>"] by (simp add: GET_THREAD_STATE_def prio_th_def)
    have "p_context_switch n (pk_if st) ?sta = Some (saved_flags st n, ?stb)"
      using cur tn False by (simp add: p_context_switch_def)
    then have "scheduling now1 now2 st = Some (?stc\<lparr>irq_nesting_counter := 0, pk_if := saved_flags st n\<rparr>)"
      using irq h(1) n(1) False cur tn by (cases h) (simp_all add: scheduling_def Let_def)
    moreover have "sched_inv (?stc\<lparr>irq_nesting_counter := 0, pk_if := saved_flags st n\<rparr>) Q"
      using c by (simp only: sched_inv_frame)
    ultimately show ?thesis using n(2) False cur
      by (intro exI [of _ "?stc\<lparr>irq_nesting_counter := 0, pk_if := saved_flags st n\<rparr>"] exI [of _ n]) simp
  qed
qed

text \<open>What the choice means for the threads.\<close>

lemma chosen_highest:
  assumes inv: "sched_inv st Q" and c: "chosen Q i n"
  shows "(n = i \<and> (\<forall>b t. threads st b = Some t \<longrightarrow> GET_THREAD_STATE t \<noteq> READY_THREAD)) \<or>
    (\<exists>t. threads st n = Some t \<and> GET_THREAD_STATE t = READY_THREAD \<and>
      (\<forall>b tb. threads st b = Some tb \<longrightarrow> GET_THREAD_STATE tb = READY_THREAD \<longrightarrow>
         level (prio_th t) \<le> level (prio_th tb)))"
  using c unfolding chosen_def
proof
  assume "n = i \<and> (\<forall>p<1024. Q p = [])"
  then show ?thesis using sched_invD [OF inv] by (auto simp: unqueued_def)
next
  assume "\<exists>p<1024. Q p \<noteq> [] \<and> n = hd (Q p) \<and> (\<forall>q<p. Q q = [])"
  then obtain p where p: "p < 1024" "n \<in> set (Q p)" "\<forall>q<p. Q q = []" by auto
  have "n \<in> dom (threads st)" using ss.queued [of st Q p] inv p by (auto simp: sched_inv_def)
  then obtain t where t: "threads st n = Some t" by auto
  have "\<not> unqueued Q n" using p by (auto simp: unqueued_def)
  then have "GET_THREAD_STATE t = READY_THREAD" using sched_invD [OF inv t] by simp
  moreover have "level (prio_th t) \<le> level (prio_th tb)"
    if b: "threads st b = Some tb" "GET_THREAD_STATE tb = READY_THREAD" for b tb
  proof -
    obtain q where q: "q < 1024" "b \<in> set (Q q)" using sched_invD [OF inv b(1)] b(2) by (auto simp: unqueued_def)
    then have "p \<le> q" using p(3) by (metis empty_iff empty_set leI)
    then show ?thesis using sched_inv_level [OF inv p(1,2) t] sched_inv_level [OF inv q b(1)] by simp
  qed
  ultimately show ?thesis using t by blast
qed

lemma without_head: "distinct (Q p) \<Longrightarrow> Q p = c # xs \<Longrightarrow> without c Q p = xs"
  by (simp add: without_def)

text \<open>A yield puts the running thread at the end of its queue and then chooses the thread to run.\<close>

lemma yield_requeues:
  assumes inv: "sched_inv st Q" and cur: "current_thread st = Some c" "threads st c = Some tc" "GET_THREAD_STATE tc = READY_THREAD"
  shows "\<exists>st2. pthread_yield_sys now1 now2 st = do { st3 \<leftarrow> scheduling now1 now2 st2; Some (0, st3) } \<and>
    sched_inv st2 (Q(level (prio_th tc) := remove1 c (Q (level (prio_th tc))) @ [c])) \<and> same_but_ss st st2"
proof -
  let ?st0 = "st\<lparr>pk_if := False\<rparr>" and ?p = "level (prio_th tc)"
  let ?Q = "Q(?p := remove1 c (Q ?p) @ [c])"
  have R0: "ready_queues ?st0 Q" using inv by (simp add: sched_inv_def)
  obtain q where q: "q < 1024" "c \<in> set (Q q)" using sched_invD [OF inv cur(2)] cur(3) by (auto simp: unqueued_def)
  then have c: "c \<in> set (Q ?p)" using sched_inv_level [OF inv q cur(2)] by simp
  obtain st1 where s1: "remove_ss c ?st0 = Some st1" "ready_queues st1 (Q(?p := remove1 c (Q ?p)))"
    "same_but_ss ?st0 st1" "keeps_detached Q c ?st0 st1"
    using remove_ss_queued [OF R0 level_less c] by blast
  have out: "unqueued (Q(?p := remove1 c (Q ?p))) c" by (rule ss.unqueued_after_rem [OF R0 level_less c])
  obtain t1 where t1: "threads st1 c = Some t1" "GET_THREAD_STATE t1 = READY_THREAD" "prio_th t1 = prio_th tc"
    using same_but_ss_thread [OF s1(3), of c tc] cur by auto
  have "c \<in> dom (threads st1)" using t1 by auto
  from insert_ss_tail_ok [OF s1(2) this out, of ?p "prio_th tc"] obtain st2 where s2:
    "insert_ss_tail c (prio_th tc) st1 = Some st2" "ready_queues st2 ?Q" "same_but_ss st1 st2"
    "keeps_detached (Q(?p := remove1 c (Q ?p))) c st1 st2"
    by (auto simp: level_def)
  let ?st2 = "st2\<lparr>pk_if := pk_if st\<rparr>"
  obtain t2 where t2: "threads st2 c = Some t2" "GET_THREAD_STATE t2 = READY_THREAD" "prio_th t2 = prio_th tc"
    using same_but_ss_thread [OF s2(3) t1(1)] t1 by auto
  have "same_but_ss ?st0 st2" using s1(3) s2(3) same_but_ss_trans by blast
  then have same: "same_but_ss st ?st2" by (cases st; cases st2) (auto simp: same_but_ss_def)
  have uq: "unqueued (Q(?p := remove1 c (Q ?p))) x" if "unqueued Q x" for x
    using that notin_set_remove1 [of x "Q ?p" c] by (auto simp: unqueued_def)
  have inv2: "sched_inv ?st2 ?Q"
  proof (rule sched_inv_change [OF sched_but_inv [OF inv] _ _ _ same_only_thread [OF same]])
    show "\<forall>p<1024. set (?Q p) - {c} = set (Q p) - {c}"
      using ss.queued [OF R0 level_less, of "prio_th tc"] by (auto simp: set_remove1_eq)
    show "keeps_detached Q c st ?st2" using s1(4) s2(4) uq by (simp add: keeps_detached_def)
    show "GET_THREAD_STATE t2 = READY_THREAD \<longleftrightarrow> \<not> unqueued ?Q c"
      using t2 by (auto simp: unqueued_def intro!: exI [of _ ?p])
    then show "unqueued ?Q c \<longrightarrow> detached ?st2 c" using t2 by simp
    show "\<forall>p<1024. c \<in> set (?Q p) \<longrightarrow> level (prio_th t2) = p"
      using out t2 by (auto simp: unqueued_def)
  qed (use s2 t2 in simp_all)
  have "pthread_yield_sys now1 now2 st = do { st3 \<leftarrow> scheduling now1 now2 ?st2; Some (0, st3) }"
    using cur s1(1) t1 s2(1) by (simp add: pthread_yield_sys_def)
  then show ?thesis using inv2 same by blast
qed

lemma scheduling_frame:
  assumes "scheduling now1 now2 st = Some st'"
  shows "idle_thread st' = idle_thread st \<and> dom (threads st') = dom (threads st)"
  using assms by (auto simp: scheduling_def p_context_switch_def upd_th_def Let_def bind_eq_Some_conv split: if_splits)

lemma yield_ok:
  assumes inv: "sched_inv st Q" and irq: "irq_nesting_counter st AND OUTSIDE_IRQS = 0"
    and cur: "current_thread st = Some c" "threads st c = Some tc" "GET_THREAD_STATE tc = READY_THREAD"
    and idle: "idle_thread st = Some i" "i \<in> dom (threads st)"
  shows "\<exists>st' n. pthread_yield_sys now1 now2 st = Some (0, st') \<and> current_thread st' = Some n \<and>
    (let Q' = Q(level (prio_th tc) := remove1 c (Q (level (prio_th tc))) @ [c]) in sched_inv st' Q' \<and> chosen Q' i n) \<and>
    irq_nesting_counter st' = 0 \<and> idle_thread st' = Some i \<and> dom (threads st') = dom (threads st)"
proof -
  let ?p = "level (prio_th tc)" let ?Q = "Q(?p := remove1 c (Q ?p) @ [c])"
  obtain st2 where s2: "pthread_yield_sys now1 now2 st = do { st3 \<leftarrow> scheduling now1 now2 st2; Some (0, st3) }"
    "sched_inv st2 ?Q" "same_but_ss st st2" using yield_requeues [OF inv cur] by blast
  note f = same_but_ss_fields [OF s2(3)]
  have d: "dom (threads st2) = dom (threads st)" by (rule same_but_ss_dom [OF s2(3)])
  obtain t2 where "threads st2 c = Some t2" using d cur(2) by blast
  then have pre: "irq_nesting_counter st2 AND OUTSIDE_IRQS = 0" "current_thread st2 = Some c"
    "threads st2 c = Some t2" "idle_thread st2 = Some i" "i \<in> dom (threads st2)"
    using f d irq cur idle by simp_all
  obtain st' n where r: "scheduling now1 now2 st2 = Some st'" "sched_inv st' ?Q" "chosen ?Q i n"
    "current_thread st' = Some n" "irq_nesting_counter st' = 0" using scheduling_ok [OF s2(2) pre] by blast
  then show ?thesis using s2(1) scheduling_frame [OF r(1)] d pre(4) by (auto simp: Let_def)
qed

section \<open>Creation\<close>

lemma alloc_ktimer_frame:
  assumes "length (timer_array st) = MAX_TIMERS"
  shows "\<exists>k ts. alloc_ktimer clk th act st = Some (k, st\<lparr>timer_array := ts\<rparr>) \<and> length ts = MAX_TIMERS"
proof (cases "find_free_ktimer (timer_array st)")
  case None
  then show ?thesis using assms
    by (intro exI [of _ "-1"] exI [of _ "timer_array st"]) (simp add: alloc_ktimer_def Let_def)
next
  case (Some n)
  then have "n < MAX_TIMERS" by (auto simp: find_free_ktimer_def find_upt_Some_iff)
  then show ?thesis using Some assms
    by (intro exI [of _ "int n"]) (auto simp: alloc_ktimer_def Let_def)
qed

lemma sched_inv_new:
  assumes inv: "sched_inv st Q" and a: "threads st a = None"
    and t: "next_matrix t = None" "prev_matrix t = None" "ss_i t = 0" "ss_j t = 0" "GET_THREAD_STATE t \<noteq> READY_THREAD"
  shows "sched_inv (st\<lparr>threads := (threads st)(a \<mapsto> t)\<rparr>) Q"
proof -
  let ?st = "st\<lparr>threads := (threads st)(a \<mapsto> t)\<rparr>"
  have R: "ready_queues st Q" using inv by (simp add: sched_inv_def)
  have sub: "set (Q p) \<subseteq> dom (threads st)" if "p < 1024" for p using ss.queued [OF R that] by blast
  have na: "a \<notin> set (Q p)" if "p < 1024" for p using sub [OF that] a by auto
  have v: "mx ?st x = mx st x \<and> mp ?st x = mp st x \<and> ssv ?st x = ssv st x" if "x \<noteq> a" for x
    using that by (simp add: mx_def mp_def ssv_def)
  have "queue_ok ?st p (Q p)" if p: "p < 1024" for p
  proof (rule queue_frame)
    show "queue_ok st p (Q p)" using R p by (simp add: ready_queues_def)
    show "\<forall>x\<in>set (Q p). mx ?st x = mx st x \<and> mp ?st x = mp st x \<and> ssv ?st x = ssv st x"
      using v na [OF p] by metis
  qed (use sub [OF p] in auto)
  then have "ready_queues ?st Q" using R by (simp add: ready_queues_def)
  moreover have "unqueued Q a" using na by (simp add: unqueued_def)
  moreover have "detached ?st a" using t by (simp add: detached_def mx_def mp_def ssv_def)
  moreover have "detached ?st x" if "x \<noteq> a" "detached st x" for x
    using that v [OF that(1)] by (simp add: detached_def)
  ultimately show ?thesis using inv t na by (auto simp: sched_inv_def)
qed

lemma sched_inv_lists [simp]:
  "sched_inv (st\<lparr>timer_array := ts\<rparr>) Q = sched_inv st Q" "sched_inv (st\<lparr>thread_list := h\<rparr>) Q = sched_inv st Q"
proof -
  have "ready_queues (st\<lparr>timer_array := ts\<rparr>) = ready_queues st" "detached (st\<lparr>timer_array := ts\<rparr>) = detached st"
    "ready_queues (st\<lparr>thread_list := h\<rparr>) = ready_queues st" "detached (st\<lparr>thread_list := h\<rparr>) = detached st"
    by (rule queues_eqI; simp add: mx_def mp_def ssv_def fun_eq_iff)+
  then show "sched_inv (st\<lparr>timer_array := ts\<rparr>) Q = sched_inv st Q" "sched_inv (st\<lparr>thread_list := h\<rparr>) Q = sched_inv st Q"
    by (simp_all add: sched_inv_def)
qed

text \<open>Inserting in a list of threads changes the links of that list only.\<close>

lemma sched_inv_upd_pl:
  assumes "sched_inv st Q" "upd_th a (map_pl k f) st = Some st'"
  shows "sched_inv st' Q"
proof -
  obtain t where t: "threads st a = Some t" "st' = st\<lparr>threads := (threads st)(a \<mapsto> map_pl k f t)\<rparr>"
    using assms(2) by (auto simp: upd_th_def bind_eq_Some_conv)
  show ?thesis unfolding t(2)
    by (rule sched_inv_upd [OF assms(1) t(1)]) (simp_all add: GET_THREAD_STATE_def prio_th_def)
qed

lemma insert_pthread_list_inv:
  assumes "sched_inv st Q" "insert_pthread_list k h p st = Some (h', st')"
  shows "sched_inv st' Q"
proof -
  obtain st1 where "(case h of None \<Rightarrow> Some st
       | Some q \<Rightarrow> upd_th q (map_pl k (\<lambda>n. n\<lparr>pl_prev := Some p\<rparr>)) st) = Some st1"
    "upd_th p (map_pl k (\<lambda>n. n\<lparr>pl_next := h\<rparr>)) st1 = Some st'"
    using assms(2) by (auto simp: insert_pthread_list_def bind_eq_Some_conv)
  moreover from this(1) have "sched_inv st1 Q"
    using assms(1) by (cases h) (auto dest: sched_inv_upd_pl)
  ultimately show ?thesis using sched_inv_upd_pl by blast
qed

text \<open>The links of a list and the pointers back to the threads, after a change elsewhere.\<close>

lemma pthread_list_frame:
  assumes l: "pthread_list k st h xs"
    and fr: "\<forall>x\<in>set xs. \<exists>t t'. threads st x = Some t \<and> threads st' x = Some t' \<and> get_pl k t' = get_pl k t"
  shows "pthread_list k st' h xs"
proof -
  have "pl_nx k st' x = pl_nx k st x \<and> pl_pr k st' x = pl_pr k st x \<and> x \<in> dom (threads st') \<and>
      get_pl k (the (threads st' x)) = get_pl k (the (threads st x))" if x: "x \<in> set xs" for x
  proof -
    obtain t t' where "threads st x = Some t" "threads st' x = Some t'" "get_pl k t' = get_pl k t"
      using fr x by blast
    then show ?thesis by (simp add: pl_nx_def pl_pr_def domIff)
  qed
  then show ?thesis using l unfolding pthread_list_def by (auto intro: dlist_frame)
qed

lemma pl_thread_list [simp]:
  "pl_nx k (st\<lparr>thread_list := h\<rparr>) = pl_nx k st" "pl_pr k (st\<lparr>thread_list := h\<rparr>) = pl_pr k st"
  by (rule ext, simp add: pl_nx_def pl_pr_def)+

lemma create_pthread_struct_ok:
  assumes inv: "sched_inv st Q" and l: "pthread_list ThreadL st (thread_list st) xs"
    and a: "threads st a = None" and ts: "length (timer_array st) = MAX_TIMERS"
    and cur: "\<forall>c. current_thread st = Some c \<longrightarrow> c \<noteq> a \<and> c \<in> dom (threads st)"
  shows "\<exists>st' t. create_pthread_struct (Some a) st = Some (Some a, st') \<and> sched_inv st' Q \<and>
    pthread_list ThreadL st' (thread_list st') (a # xs) \<and> threads st' a = Some t \<and>
    GET_THREAD_STATE t = SUSPENDED_THREAD \<and> magic_number t = PTHREAD_MAGIC_NUMBER \<and>
    sigmask t = (case current_thread st of None \<Rightarrow> 0 | Some c \<Rightarrow> sigmask (the (threads st c)))"
proof -
  let ?t = "(SET_THREAD_STATE SUSPENDED_THREAD (zero_thread\<lparr>magic_number := PTHREAD_MAGIC_NUMBER\<rparr>))
     \<lparr>pt_thread_list := zero_pl (Some a), pt_mutex_list := zero_pl (Some a),
      pt_cond_list := zero_pl (Some a), pt_sem_list := zero_pl (Some a)\<rparr>"
  let ?st0 = "st\<lparr>threads := (threads st)(a \<mapsto> ?t)\<rparr>"
  have "length (timer_array ?st0) = MAX_TIMERS" using ts by simp
  from alloc_ktimer_frame [OF this] obtain k ts' where
    k: "alloc_ktimer CLOCK_MONOTONIC (Some a) action_wakeup ?st0 = Some (k, ?st0\<lparr>timer_array := ts'\<rparr>)" by blast
  define mask where "mask = (case current_thread st of None \<Rightarrow> 0 | Some c \<Rightarrow> sigmask (the (threads st c)))"
  have mask: "(case current_thread st of None \<Rightarrow> Some 0
      | Some c \<Rightarrow> do { ct \<leftarrow> threads ?st0 c; Some (sigmask ct) }) = Some mask"
    using cur by (auto simp: mask_def split: option.split)
  let ?t2 = "?t\<lparr>sleep_ktimer := k, sigmask := mask\<rparr>"
  let ?st2 = "st\<lparr>timer_array := ts', threads := (threads st)(a \<mapsto> ?t2)\<rparr>"
  have s: "GET_THREAD_STATE ?t2 = SUSPENDED_THREAD"
    using state_simps(2) [of "zero_thread\<lparr>magic_number := PTHREAD_MAGIC_NUMBER\<rparr>"] by (simp add: GET_THREAD_STATE_def)
  have "sched_inv (st\<lparr>timer_array := ts'\<rparr>) Q" using inv by simp
  from sched_inv_new [OF this, of a ?t2] have inv2: "sched_inv ?st2 Q"
    using a s by (simp add: zero_thread_def)
  have nin: "a \<notin> set xs" using l a by (auto simp: pthread_list_def)
  have l2: "pthread_list ThreadL ?st2 (thread_list ?st2) xs"
  proof -
    have "pthread_list ThreadL ?st2 (thread_list st) xs"
      by (rule pthread_list_frame [OF l]) (use l nin in \<open>fastforce simp: pthread_list_def\<close>)
    then show ?thesis by simp
  qed
  have "pl_free ThreadL ?st2 a" by (simp add: pl_free_def zero_pl_def)
  from insert_pthread_list_ok [OF l2 nin this] obtain st3 where s3:
    "insert_pthread_list ThreadL (thread_list ?st2) a ?st2 = Some (Some a, st3)"
    "pthread_list ThreadL st3 (Some a) (a # xs)" by blast
  have inv3: "sched_inv st3 Q" by (rule insert_pthread_list_inv [OF inv2 s3(1)])
  have "dlist (pl_nx ThreadL st) (pl_pr ThreadL st) (thread_list st) xs" using l by (simp add: pthread_list_def)
  from dlist_head [OF this] have ha: "thread_list st \<noteq> Some a" using nin by (auto split: if_splits)
  have "threads st3 a = Some (map_pl ThreadL (\<lambda>n. n\<lparr>pl_next := thread_list st\<rparr>) ?t2)"
    using s3(1) ha by (auto simp: insert_pthread_list_def upd_th_def bind_eq_Some_conv split: option.splits)
  moreover have "create_pthread_struct (Some a) st = Some (Some a, st3\<lparr>thread_list := Some a\<rparr>)"
    using k mask s3(1) by (cases "current_thread st") (simp_all add: create_pthread_struct_def Let_def)
  moreover have "pthread_list ThreadL (st3\<lparr>thread_list := Some a\<rparr>) (Some a) (a # xs)"
    using s3(2) by (simp add: pthread_list_def)
  ultimately show ?thesis using inv3 s
    by (intro exI [of _ "st3\<lparr>thread_list := Some a\<rparr>"]) (simp add: GET_THREAD_STATE_def mask_def)
qed

section \<open>Properties\<close>

text \<open>C5: scheduling, outside interrupts, runs a ready thread whose priority number is least among
  the ready threads, or the idle thread when no thread is ready; the structure of ready threads
  is unchanged, the nesting counter is cleared, and the thread that leaves the processor is
  charged the time since it was resumed.\<close>
theorem scheduling_runs_highest:
  assumes "sched_inv st Q" "irq_nesting_counter st AND OUTSIDE_IRQS = 0"
    "current_thread st = Some c" "threads st c = Some tc"
    "idle_thread st = Some i" "i \<in> dom (threads st)"
  shows "\<exists>st' n. scheduling now1 now2 st = Some st' \<and> sched_inv st' Q \<and>
    current_thread st' = Some n \<and> irq_nesting_counter st' = 0 \<and>
    pk_if st' = (if n = c then pk_if st else saved_flags st n) \<and>
    (\<exists>t'. threads st' c = Some t' \<and>
       used_time t' = (if n = c then used_time tc else used_time tc + (now1 - starting_time tc))) \<and>
    ((n = i \<and> (\<forall>b t. threads st' b = Some t \<longrightarrow> GET_THREAD_STATE t \<noteq> READY_THREAD)) \<or>
     (\<exists>t. threads st' n = Some t \<and> GET_THREAD_STATE t = READY_THREAD \<and>
       (\<forall>b tb. threads st' b = Some tb \<longrightarrow> GET_THREAD_STATE tb = READY_THREAD \<longrightarrow>
          level (prio_th t) \<le> level (prio_th tb))))"
proof -
  obtain st' n where r: "scheduling now1 now2 st = Some st'" "sched_inv st' Q" "chosen Q i n"
    "current_thread st' = Some n" "irq_nesting_counter st' = 0"
    "pk_if st' = (if n = c then pk_if st else saved_flags st n)"
    "\<exists>t'. threads st' c = Some t' \<and>
       used_time t' = (if n = c then used_time tc else used_time tc + (now1 - starting_time tc))"
    using scheduling_ok [OF assms] by blast
  show ?thesis using r chosen_highest [OF r(2,3)] by blast
qed

text \<open>Activate_thread makes a suspended thread ready at the head of the queue of its priority and
  keeps the invariant that the queues hold exactly the ready threads, each at its priority.\<close>
theorem activate_thread_enqueues:
  assumes "sched_inv st Q" "threads st th = Some t"
    "GET_THREAD_STATE t \<noteq> FINISHED_THREAD" "GET_THREAD_STATE t \<noteq> READY_THREAD"
  shows "\<exists>st' t'. activate_thread th st = Some st' \<and> only_thread th st st' \<and>
    sched_inv st' (Q(level (prio_th t) := th # Q (level (prio_th t)))) \<and>
    threads st' th = Some t' \<and> GET_THREAD_STATE t' = READY_THREAD \<and> prio_th t' = prio_th t"
  by (rule activate_thread_ok [OF assms])

text \<open>Suspend_thread takes a thread that has not finished out of whatever queue it is in, marks it
  suspended, and keeps the invariant; it works also for a thread that was not ready.\<close>
theorem suspend_thread_dequeues:
  assumes "sched_inv st Q" "threads st th = Some t" "GET_THREAD_STATE t \<noteq> FINISHED_THREAD"
  shows "\<exists>st' t'. suspend_thread th st = Some st' \<and> only_thread th st st' \<and> sched_inv st' (without th Q) \<and>
    threads st' th = Some t' \<and> GET_THREAD_STATE t' = SUSPENDED_THREAD"
  by (rule suspend_thread_ok [OF assms])

text \<open>Change_thread_prio sets the priority, moves a ready thread to the head of the queue of the
  new priority, leaves the queues alone for a thread that is not ready, and keeps the invariant
  and the state of the thread.\<close>
theorem change_thread_prio_moves:
  assumes "sched_inv st Q" "threads st th = Some t"
  shows "\<exists>st' t'. change_thread_prio th prio st = Some st' \<and> only_thread th st st' \<and>
    sched_inv st' (if GET_THREAD_STATE t = READY_THREAD
                   then (without th Q)(level prio := th # without th Q (level prio)) else Q) \<and>
    threads st' th = Some t' \<and> prio_th t' = prio \<and> GET_THREAD_STATE t' = GET_THREAD_STATE t"
  by (rule change_thread_prio_ok [OF sched_but_inv [OF assms(1)] assms(2)])

lemma yield_step:
  assumes "sched_inv st Q" "irq_nesting_counter st AND OUTSIDE_IRQS = 0"
    and cur: "current_thread st = Some c" "threads st c = Some tc"
    and q: "Q (level (prio_th tc)) = c # rest" "\<forall>p<level (prio_th tc). Q p = []"
    and idle: "idle_thread st = Some i" "i \<in> dom (threads st)"
  shows "\<exists>st'. pthread_yield_sys now1 now2 st = Some (0, st') \<and>
    current_thread st' = Some (hd (rest @ [c])) \<and> sched_inv st' (Q(level (prio_th tc) := rest @ [c])) \<and>
    irq_nesting_counter st' = 0 \<and> idle_thread st' = Some i \<and> i \<in> dom (threads st')"
proof -
  let ?p = "level (prio_th tc)"
  have "\<not> unqueued Q c" using q(1) by (auto simp: unqueued_def intro!: exI [of _ ?p])
  then have rd: "GET_THREAD_STATE tc = READY_THREAD" using sched_invD [OF assms(1) cur(2)] by simp
  obtain st' n where r: "pthread_yield_sys now1 now2 st = Some (0, st')" "current_thread st' = Some n"
    "sched_inv st' (Q(?p := rest @ [c]))" "chosen (Q(?p := rest @ [c])) i n"
    "irq_nesting_counter st' = 0" "idle_thread st' = Some i" "dom (threads st') = dom (threads st)"
    using yield_ok [OF assms(1,2) cur rd idle, of now1 now2] q(1) by (auto simp: Let_def)
  have "n = hd (rest @ [c])"
  proof -
    obtain p where p: "(Q(?p := rest @ [c])) p \<noteq> []" "n = hd ((Q(?p := rest @ [c])) p)"
      "\<forall>q<p. (Q(?p := rest @ [c])) q = []"
      using r(4) unfolding chosen_def by (metis fun_upd_same level_less snoc_eq_iff_butlast)
    have "\<not> p < ?p" using p(1) q(2) by auto
    moreover have "\<not> ?p < p" using p(3) by (metis fun_upd_same snoc_eq_iff_butlast)
    ultimately show ?thesis using p(2) by simp
  qed
  then show ?thesis using r idle(2) by simp
qed

text \<open>A sequence of yields, each with its readings of the clock.\<close>

fun yields :: "(time_ns \<times> time_ns) list \<Rightarrow> pk_state \<Rightarrow> pk_state option" where
  "yields [] st = Some st"
| "yields ((now1, now2) # ts) st = do { (_, st1) \<leftarrow> pthread_yield_sys now1 now2 st; yields ts st1 }"

lemma yields_rotate:
  assumes "sched_inv st Q" "irq_nesting_counter st AND OUTSIDE_IRQS = 0" "p < 1024"
    and "Q p = c # rest" "\<forall>q<p. Q q = []" "current_thread st = Some c"
    and "idle_thread st = Some i" "i \<in> dom (threads st)"
  shows "\<exists>st'. yields ts st = Some st' \<and> current_thread st' = Some ((c # rest) ! (length ts mod length (c # rest)))"
  using assms
proof (induction ts arbitrary: st Q c rest)
  case Nil
  then show ?case by simp
next
  case (Cons a ts)
  obtain now1 now2 where a: "a = (now1, now2)" by (cases a)
  have R: "ready_queues st Q" using Cons.prems(1) by (simp add: sched_inv_def)
  obtain tc where tc: "threads st c = Some tc" using ss.queued [OF R Cons.prems(3)] Cons.prems(4) by auto
  have lv: "level (prio_th tc) = p" using sched_inv_level [OF Cons.prems(1,3) _ tc] Cons.prems(4) by simp
  obtain st1 where s: "pthread_yield_sys now1 now2 st = Some (0, st1)" "current_thread st1 = Some (hd (rest @ [c]))"
    "sched_inv st1 (Q(p := rest @ [c]))" "irq_nesting_counter st1 = 0" "idle_thread st1 = Some i" "i \<in> dom (threads st1)"
    using yield_step [OF Cons.prems(1,2,6) tc, of rest i now1 now2] Cons.prems lv by auto
  obtain d ds where ds: "rest @ [c] = d # ds" by (cases "rest @ [c]") auto
  obtain st' where "yields ts st1 = Some st'" "current_thread st' = Some ((d # ds) ! (length ts mod length (d # ds)))"
  proof -
    have "sched_inv st1 (Q(p := d # ds))" using s(3) unfolding ds .
    from Cons.IH [OF this _ Cons.prems(3), of d ds] s Cons.prems(5) ds that show ?thesis by auto
  qed
  moreover have "(d # ds) ! (length ts mod length (d # ds)) = (c # rest) ! (Suc (length ts) mod length (c # rest))"
  proof -
    have r: "rotate1 (c # rest) = d # ds" using ds by simp
    have l: "length (d # ds) = length (c # rest)" using r by (metis length_rotate1)
    have "rotate1 (c # rest) ! (length ts mod length (c # rest)) =
        (c # rest) ! (Suc (length ts mod length (c # rest)) mod length (c # rest))"
      by (rule nth_rotate1) simp
    then show ?thesis unfolding r l mod_Suc_eq .
  qed
  ultimately show ?case using s(1) a by simp
qed

text \<open>A yield is round robin within a priority: when the running thread heads the queue of the
  least priority number, the yield runs the next thread of that queue and puts the running one at
  its end; alone in its queue, the thread goes on.\<close>
theorem yield_round_robin:
  assumes "sched_inv st Q" "irq_nesting_counter st AND OUTSIDE_IRQS = 0"
    and cur: "current_thread st = Some c" "threads st c = Some tc"
    and q: "Q (level (prio_th tc)) = c # rest" "\<forall>p<level (prio_th tc). Q p = []"
    and idle: "idle_thread st = Some i" "i \<in> dom (threads st)"
  shows "\<exists>st'. pthread_yield_sys now1 now2 st = Some (0, st') \<and>
    current_thread st' = Some (hd (rest @ [c])) \<and> sched_inv st' (Q(level (prio_th tc) := rest @ [c]))"
  using yield_step [OF assms] by blast

text \<open>C7: No thread of the highest ready priority starves when the threads of that priority yield: after n
  yields the running thread is the one at position n, modulo their number, of the queue; so each of them
  runs within as many yields as there are threads in the queue.\<close>
theorem yields_run_everyone:
  assumes "sched_inv st Q" "irq_nesting_counter st AND OUTSIDE_IRQS = 0" "p < 1024"
    and "Q p = c # rest" "\<forall>q<p. Q q = []" "current_thread st = Some c"
    and "idle_thread st = Some i" "i \<in> dom (threads st)"
  shows "\<exists>st'. yields ts st = Some st' \<and> current_thread st' = Some ((c # rest) ! (length ts mod length (c # rest)))"
  by (rule yields_rotate [OF assms])

text \<open>Create_pthread_struct returns a new thread that is suspended, carries the magic number and
  the signal mask of its creator, is in the list of all threads and in no ready queue, and keeps
  the invariant of the scheduler.\<close>
theorem create_pthread_struct_suspended:
  assumes "sched_inv st Q" "pthread_list ThreadL st (thread_list st) xs"
    "threads st a = None" "length (timer_array st) = MAX_TIMERS"
    "\<forall>c. current_thread st = Some c \<longrightarrow> c \<noteq> a \<and> c \<in> dom (threads st)"
  shows "\<exists>st' t. create_pthread_struct (Some a) st = Some (Some a, st') \<and> sched_inv st' Q \<and>
    pthread_list ThreadL st' (thread_list st') (a # xs) \<and> threads st' a = Some t \<and>
    GET_THREAD_STATE t = SUSPENDED_THREAD \<and> magic_number t = PTHREAD_MAGIC_NUMBER \<and>
    sigmask t = (case current_thread st of None \<Rightarrow> 0 | Some c \<Rightarrow> sigmask (the (threads st c)))"
  by (rule create_pthread_struct_ok [OF assms])

section \<open>Witnesses\<close>

lemma demo_sched: "sched_inv demo_pk (\<lambda>_. [])"
  using demo_queues
  by (auto simp: sched_inv_def unqueued_def demo_pk_def demo_thread_def zero_thread_def GET_THREAD_STATE_def
      READY_THREAD_def detached_def mx_def mp_def ssv_def split: if_splits)

lemma demo_fields:
  "current_thread demo_pk = Some 1" "idle_thread demo_pk = Some 1" "irq_nesting_counter demo_pk = 0"
  "threads demo_pk 1 = Some (demo_thread 1 0)" "threads demo_pk 2 = Some (demo_thread 2 5)"
  "threads demo_pk 3 = Some (demo_thread 3 5)" "GET_THREAD_STATE (demo_thread a p) = SUSPENDED_THREAD"
  "prio_th (demo_thread a p) = p" "dom (threads demo_pk) = {1, 2, 3}"
  by (auto simp: demo_pk_def demo_thread_def zero_thread_def GET_THREAD_STATE_def SUSPENDED_THREAD_def prio_th_def)

lemma scheduling_runs_highest_witness:
  "\<exists>st' n. scheduling 3 4 demo_pk = Some st' \<and> current_thread st' = Some n \<and> n = 1"
  using scheduling_runs_highest [OF demo_sched, of 1 "demo_thread 1 0" 1 3 4] demo_fields
  by (auto simp: demo_fields unqueued_def demo_pk_def dest: sched_invD)

lemma demo_active_2:
  "\<exists>st t. activate_thread 2 demo_pk = Some st \<and> sched_inv st ((\<lambda>_. [])(5 := [2])) \<and>
    only_thread 2 demo_pk st \<and> threads st 2 = Some t \<and> GET_THREAD_STATE t = READY_THREAD \<and> prio_th t = 5"
  using activate_thread_ok [OF demo_sched demo_fields(5)] by (auto simp: demo_fields level_5)

lemma activate_thread_enqueues_witness:
  "\<exists>st' t'. activate_thread 2 demo_pk = Some st' \<and> sched_inv st' ((\<lambda>_. [])(5 := [2])) \<and>
    threads st' 2 = Some t' \<and> GET_THREAD_STATE t' = READY_THREAD"
  using activate_thread_enqueues [OF demo_sched demo_fields(5)] by (auto simp: demo_fields level_5)

lemma suspend_thread_dequeues_witness:
  "\<exists>st st' t'. activate_thread 2 demo_pk = Some st \<and> suspend_thread 2 st = Some st' \<and>
    sched_inv st' (\<lambda>_. []) \<and> threads st' 2 = Some t' \<and> GET_THREAD_STATE t' = SUSPENDED_THREAD"
proof -
  obtain st t where s: "activate_thread 2 demo_pk = Some st" "sched_inv st ((\<lambda>_. [])(5 := [2]))"
    "threads st 2 = Some t" "GET_THREAD_STATE t = READY_THREAD" using demo_active_2 by blast
  have "without 2 ((\<lambda>_. [])(5 := [2])) = (\<lambda>_. [])" by (simp add: without_def fun_eq_iff)
  then show ?thesis using suspend_thread_dequeues [OF s(2,3)] s(1,4) by auto
qed

lemma change_thread_prio_moves_witness:
  "\<exists>st st' t'. activate_thread 2 demo_pk = Some st \<and> change_thread_prio 2 7 st = Some st' \<and>
    sched_inv st' ((\<lambda>_. [])(7 := [2])) \<and> threads st' 2 = Some t' \<and> prio_th t' = 7"
proof -
  obtain st t where s: "activate_thread 2 demo_pk = Some st" "sched_inv st ((\<lambda>_. [])(5 := [2]))"
    "threads st 2 = Some t" "GET_THREAD_STATE t = READY_THREAD" using demo_active_2 by blast
  have w: "without 2 ((\<lambda>_. [])(5 := [2])) = (\<lambda>_. [])" by (simp add: without_def fun_eq_iff)
  have "level 7 = 7" by (simp add: level_def)
  then show ?thesis using change_thread_prio_moves [OF s(2,3), of 7] s(1,4) unfolding w by auto
qed

lemma demo_two_ready:
  "\<exists>sta stb tb. activate_thread 2 demo_pk = Some sta \<and> activate_thread 3 sta = Some stb \<and>
    sched_inv (stb\<lparr>current_thread := Some 3\<rparr>) ((\<lambda>_. [])(5 := [3, 2])) \<and> irq_nesting_counter stb = 0 \<and>
    idle_thread stb = Some 1 \<and> 1 \<in> dom (threads stb) \<and> threads stb 3 = Some tb \<and> prio_th tb = 5"
proof -
  obtain sta t where a: "activate_thread 2 demo_pk = Some sta" "sched_inv sta ((\<lambda>_. [])(5 := [2]))"
    "only_thread 2 demo_pk sta" using demo_active_2 by blast
  have "map_option ss_strip (threads sta 3) = Some (ss_strip (demo_thread 3 5))"
    using a(3) demo_fields(6) by (simp add: only_thread_def)
  then obtain t3 where t3: "threads sta 3 = Some t3" "ss_strip t3 = ss_strip (demo_thread 3 5)" by auto
  have "thread_flags (ss_strip t) = thread_flags t" "pt_sched_param (ss_strip t) = pt_sched_param t" for t
    by (simp_all add: ss_strip_def)
  then have "thread_flags t3 = thread_flags (demo_thread 3 5)" "pt_sched_param t3 = pt_sched_param (demo_thread 3 5)"
    using t3(2) by metis+
  then have p3: "prio_th t3 = 5" "GET_THREAD_STATE t3 = SUSPENDED_THREAD"
    using demo_fields(7,8) [of 3 5] by (simp_all add: prio_th_def GET_THREAD_STATE_def)
  have "activate_thread 3 sta \<noteq> None \<and> (\<forall>stb. activate_thread 3 sta = Some stb \<longrightarrow>
      sched_inv stb ((\<lambda>_. [])(5 := [3, 2])) \<and> only_thread 3 sta stb \<and> (\<exists>t. threads stb 3 = Some t \<and> prio_th t = 5))"
    using activate_thread_ok [OF a(2) t3(1)] p3 by (auto simp: level_5)
  then obtain stb tb where b: "activate_thread 3 sta = Some stb" "sched_inv stb ((\<lambda>_. [])(5 := [3, 2]))"
    "only_thread 3 sta stb" "threads stb 3 = Some tb" "prio_th tb = 5" by auto
  let ?st = "stb\<lparr>current_thread := Some 3\<rparr>"
  have f: "irq_nesting_counter stb = 0" "idle_thread stb = Some 1"
    using only_thread_fields [OF a(3)] only_thread_fields [OF b(3)] demo_fields by simp_all
  have "map_option ss_strip (threads stb 1) = map_option ss_strip (threads demo_pk 1)"
    using a(3) b(3) by (simp add: only_thread_def)
  then have i: "1 \<in> dom (threads ?st)" using demo_fields(4) by auto
  have inv: "sched_inv ?st ((\<lambda>_. [])(5 := [3, 2]))" using b(2) by simp
  show ?thesis using a(1) b f inv i by auto
qed

lemma yield_round_robin_witness:
  "\<exists>st st'. pthread_yield_sys 1 2 st = Some (0, st') \<and>
    current_thread st' = Some 2 \<and> sched_inv st' ((\<lambda>_. [])(5 := [2, 3]))"
proof -
  obtain stb tb where b: "sched_inv (stb\<lparr>current_thread := Some 3\<rparr>) ((\<lambda>_. [])(5 := [3, 2]))"
    "irq_nesting_counter stb = 0" "idle_thread stb = Some 1" "1 \<in> dom (threads stb)" "threads stb 3 = Some tb" "prio_th tb = 5"
    using demo_two_ready by blast
  show ?thesis
    using yield_round_robin [OF b(1), of 3 tb "[2]" 1 1 2] b by (auto simp: level_5)
qed

lemma yields_run_everyone_witness:
  "\<exists>st st'. yields [(1, 2), (3, 4), (5, 6)] st = Some st' \<and> current_thread st = Some 3 \<and> current_thread st' = Some 2"
proof -
  obtain stb where b: "sched_inv (stb\<lparr>current_thread := Some 3\<rparr>) ((\<lambda>_. [])(5 := [3, 2]))"
    "irq_nesting_counter stb = 0" "idle_thread stb = Some 1" "1 \<in> dom (threads stb)"
    using demo_two_ready by blast
  have "\<exists>st'. yields [(1, 2), (3, 4), (5, 6)] (stb\<lparr>current_thread := Some 3\<rparr>) = Some st' \<and>
      current_thread st' = Some ([3, 2] ! (length [(1::int, 2::int), (3, 4), (5, 6)] mod length [3::nat, 2]))"
    by (rule yields_run_everyone [OF b(1), where p = 5 and i = 1]) (use b in simp_all)
  moreover have "[3::nat, 2] ! (length [(1::int, 2::int), (3, 4), (5, 6)] mod length [3::nat, 2]) = 2" by code_simp
  moreover have "current_thread (stb\<lparr>current_thread := Some 3\<rparr>) = Some 3" by simp
  ultimately show ?thesis by metis
qed

definition demo_timers :: pk_state where
  "demo_timers = demo_pk\<lparr>timer_array := replicate MAX_TIMERS zero_ktimer\<rparr>"

lemma create_pthread_struct_suspended_witness:
  "\<exists>st' t. create_pthread_struct (Some 9) demo_timers = Some (Some 9, st') \<and> sched_inv st' (\<lambda>_. []) \<and>
    pthread_list ThreadL st' (thread_list st') [9] \<and> threads st' 9 = Some t \<and>
    GET_THREAD_STATE t = SUSPENDED_THREAD"
proof -
  have "sched_inv demo_timers (\<lambda>_. [])" using demo_sched by (simp add: demo_timers_def)
  moreover have "pthread_list ThreadL demo_timers (thread_list demo_timers) []"
    by (simp add: demo_timers_def demo_pk_def pthread_list_def)
  ultimately show ?thesis
    using create_pthread_struct_suspended [of demo_timers "\<lambda>_. []" "[]" 9]
    by (auto simp: demo_timers_def demo_pk_def)
qed

end
