(* ===== verification/PTime.thy ===== *)
theory PTime
  imports PSched
begin

unbundle bit_operations_syntax

text \<open>
  PaRTiKle's signals that wake threads (pthread_kill_sys of
  core/kernel/port/signal.c) and its timers and clocks (time.c).  A handler
  that calls scheduling may lose the processor there: its result is Returned
  when it ran to its end, or Switched with the state in which another thread
  runs; the code after the call is then a definition of its own, run when the
  thread is current again.  Halted is the end of the whole application, with
  its exit status.
\<close>

datatype 'a outcome = Returned 'a pk_state | Switched pk_state | Halted int pk_state

definition SET_ERRNO :: "int \<Rightarrow> pk_state \<Rightarrow> pk_state option" where
  "SET_ERRNO e st = do { c \<leftarrow> current_thread st; upd_th c (\<lambda>t. t\<lparr>pt_errno := e\<rparr>) st }"

definition fail_errno :: "int \<Rightarrow> pk_state \<Rightarrow> (int \<times> pk_state) option" where
  "fail_errno e st = do { st1 \<leftarrow> SET_ERRNO e st; Some (-1, st1) }"

section \<open>Signals to a thread\<close>

definition NRSIGNALS :: int where "NRSIGNALS = 32"
definition FIRST_USER_SIGNAL :: int where "FIRST_USER_SIGNAL = 6"
definition SIGALARM :: int where "SIGALARM = 8"
definition non_maskable_signals :: u32 where "non_maskable_signals = push_bit 6 1 - 1"

text \<open>The test of a pthread_t argument, that most calls begin with.\<close>

definition valid_thread :: "nat option \<Rightarrow> pk_state \<Rightarrow> bool option" where
  "valid_thread thread st = (case thread of None \<Rightarrow> Some False
     | Some a \<Rightarrow> do { t \<leftarrow> threads st a; Some (magic_number t = PTHREAD_MAGIC_NUMBER) })"

definition pthread_kill_sys :: "nat option \<Rightarrow> int \<Rightarrow> pk_state \<Rightarrow> (int \<times> pk_state) option" where
  "pthread_kill_sys thread sig st = do {
     ok \<leftarrow> valid_thread thread st;
     if \<not> ok then fail_errno ESRCH st
     else if sig < 0 \<or> sig \<ge> NRSIGNALS then fail_errno EINVAL st
     else do {
       a \<leftarrow> thread;
       st1 \<leftarrow> upd_th a (\<lambda>t. t\<lparr>sigpending := sigpending t OR push_bit (nat sig) 1\<rparr>) st;
       t \<leftarrow> threads st1 a;
       st2 \<leftarrow> (if NOT (sigmask t AND NOT non_maskable_signals) AND sigpending t \<noteq> 0 \<or>
                 GET_THREAD_ACTIVATE_ON_SIGNAL t \<noteq> 0
              then activate_thread a st1 else Some st1);
       Some (0, st2) } }"

section \<open>Clocks\<close>

text \<open>
  The readings of the two clocks are parameters: each is a function of the
  number of the reading within the call.
\<close>

record clock_env =
  mono_clock :: "nat \<Rightarrow> time_ns"
  real_clock :: "nat \<Rightarrow> time_ns"
  mono_res :: time_ns
  real_res :: time_ns

definition read_clock_at :: "clock_env \<Rightarrow> nat \<Rightarrow> ktimer_t \<Rightarrow> pk_state \<Rightarrow> time_ns option" where
  "read_clock_at env i kt st = do {
     r \<leftarrow> read_clock kt;
     (case r of
        read_monotonic_timer \<Rightarrow> Some (mono_clock env i)
      | read_realtime_timer \<Rightarrow> Some (real_clock env i)
      | read_thread_cputime_timer \<Rightarrow> do {
          a \<leftarrow> owner kt; t \<leftarrow> threads st a;
          Some (used_time t + mono_clock env i - starting_time t) }) }"

section \<open>Timers\<close>

definition NEED_REESCHED :: int where "NEED_REESCHED = 1"

definition kt_key :: "pk_state \<Rightarrow> nat \<Rightarrow> time_ns" where
  "kt_key st i = timer_value (timer_array st ! i)"

definition upd_kt :: "nat \<Rightarrow> (ktimer_t \<Rightarrow> ktimer_t) \<Rightarrow> pk_state \<Rightarrow> pk_state option" where
  "upd_kt i f st = do {
     k \<leftarrow> rd (timer_array st) i;
     ts \<leftarrow> wr (timer_array st) i (f k);
     Some (st\<lparr>timer_array := ts\<rparr>) }"

text \<open>A ktimer_t pointer as an index; the one before the array faults when it is used.\<close>

definition kt_ptr :: "int \<Rightarrow> nat option" where
  "kt_ptr k = (if 0 \<le> k then Some (nat k) else None)"

definition run_action :: "nat \<Rightarrow> pk_state \<Rightarrow> (int \<times> pk_state) option" where
  "run_action i st = do {
     k \<leftarrow> rd (timer_array st) i;
     act \<leftarrow> kt_action k;
     (case act of
        action_wakeup \<Rightarrow> do { o1 \<leftarrow> owner k; st1 \<leftarrow> activate_thread o1 st; Some (NEED_REESCHED, st1) }
      | action_kill \<Rightarrow> do {
          (_, st1) \<leftarrow> pthread_kill_sys (owner k) (sigev_signo (kt_sigevent k)) st;
          Some (NEED_REESCHED, st1) }) }"

definition init_time :: "bool \<Rightarrow> pk_state \<Rightarrow> int \<times> pk_state" where
  "init_time have_hwtimer st =
    (if \<not> have_hwtimer then (-1, st)
     else (0, st\<lparr>timer_array := replicate MAX_TIMERS zero_ktimer, timer_heap := p_HEAP_init (timer_heap st)\<rparr>))"

definition free_ktimer :: "int \<Rightarrow> pk_state \<Rightarrow> pk_state option" where
  "free_ktimer k st = do {
     i \<leftarrow> kt_ptr k;
     (_, h) \<leftarrow> p_HEAP_remove_element (kt_key st) (timer_heap st) i;
     upd_kt i (\<lambda>kt. kt\<lparr>kt_flags := 0\<rparr>) (st\<lparr>timer_heap := h\<rparr>) }"

definition arm_timer :: "clock_env \<Rightarrow> nat \<Rightarrow> int \<Rightarrow> time_ns \<Rightarrow> time_ns \<Rightarrow> pk_state \<Rightarrow> (int \<times> pk_state) option" where
  "arm_timer env n k v interval st = do {
     i \<leftarrow> kt_ptr k;
     kt \<leftarrow> rd (timer_array st) i;
     if kt_flags kt AND TIMER_IN_USE = 0 then Some (-1, st)
     else do {
       base \<leftarrow> (if kt_flags kt AND TIMER_ABSTIME \<noteq> TIMER_ABSTIME then read_clock_at env n kt st else Some 0);
       st1 \<leftarrow> upd_kt i (\<lambda>x. x\<lparr>timer_value := v + base, kt_flags := kt_flags x OR TIMER_ARMED,
               timer_interval := interval\<rparr>) st;
       (_, h) \<leftarrow> p_HEAP_insert (kt_key st1) (timer_heap st1) i;
       Some (0, st1\<lparr>timer_heap := h\<rparr>) } }"

definition disarm_timer :: "nat \<Rightarrow> pk_state \<Rightarrow> pk_state option" where
  "disarm_timer timerid st = do {
     (_, h) \<leftarrow> p_HEAP_remove_element (kt_key st) (timer_heap st) timerid;
     upd_kt timerid (\<lambda>kt. kt\<lparr>kt_flags := kt_flags kt AND (NOT TIMER_ARMED)\<rparr>) (st\<lparr>timer_heap := h\<rparr>) }"

record hw_limits =
  hw_min :: time_ns
  hw_max :: time_ns

text \<open>One round of the loop of update_hwtimer: the timer i is due.\<close>

definition fire_timer :: "time_ns \<Rightarrow> nat \<Rightarrow> pk_state \<Rightarrow> (int \<times> pk_state) option" where
  "fire_timer ctime i st = do {
     (act, st1) \<leftarrow> run_action i st;
     (_, h) \<leftarrow> p_HEAP_remove_min (kt_key st1) (timer_heap st1);
     let st2 = st1\<lparr>timer_heap := h\<rparr>;
     k \<leftarrow> rd (timer_array st2) i;
     again \<leftarrow> (if timer_interval k > 0 then do {
         o1 \<leftarrow> owner k; t \<leftarrow> threads st2 o1;
         Some (GET_THREAD_STATE t \<noteq> FINISHED_THREAD) }
       else Some False);
     if again then do {
       st3 \<leftarrow> upd_kt i (\<lambda>x. x\<lparr>timer_value := timer_interval x + ctime\<rparr>) st2;
       (_, h2) \<leftarrow> p_HEAP_insert (kt_key st3) (timer_heap st3) i;
       Some (act, st3\<lparr>timer_heap := h2\<rparr>) }
     else do {
       st3 \<leftarrow> upd_kt i (\<lambda>x. x\<lparr>kt_flags := kt_flags x AND (NOT TIMER_ARMED)\<rparr>) st2;
       Some (act, st3) } }"

text \<open>The clock of the timer that is the minimum is read after HEAP_min; n counts the readings.\<close>

definition read_min :: "clock_env \<Rightarrow> nat \<Rightarrow> time_ns \<Rightarrow> pk_state \<Rightarrow> (nat option \<times> time_ns) option" where
  "read_min env n ctime st = do {
     m \<leftarrow> p_HEAP_min (timer_heap st);
     (case m of None \<Rightarrow> Some (None, ctime)
      | Some i \<Rightarrow> do {
          k \<leftarrow> rd (timer_array st) i;
          c \<leftarrow> read_clock_at env n k st;
          Some (Some i, c) }) }"

partial_function (option) update_loop ::
  "clock_env \<Rightarrow> nat \<Rightarrow> nat option \<Rightarrow> time_ns \<Rightarrow> int \<Rightarrow> pk_state \<Rightarrow> (nat option \<times> time_ns \<times> int \<times> pk_state) option" where
  "update_loop env n kt ctime act st =
    (case kt of None \<Rightarrow> Some (None, ctime, act, st)
     | Some i \<Rightarrow> do {
         k \<leftarrow> rd (timer_array st) i;
         if timer_value k \<le> ctime then do {
           (act', st1) \<leftarrow> fire_timer ctime i st;
           (m, c) \<leftarrow> read_min env n ctime st1;
           update_loop env (Suc n) m c act' st1 }
         else Some (Some i, ctime, act, st) })"

declare update_loop.simps [code]

definition update_hwtimer :: "clock_env \<Rightarrow> hw_limits \<Rightarrow> nat \<Rightarrow> pk_state \<Rightarrow> (int \<times> pk_state) option" where
  "update_hwtimer env hw n st = do {
     let flags = pk_if st;
     let st0 = st\<lparr>pk_if := False\<rparr>;
     (m, c) \<leftarrow> read_min env n 0 st0;
     (kt, ctime, act, st1) \<leftarrow> update_loop env (Suc n) m c 0 st0;
     (case kt of None \<Rightarrow> Some (act, st1\<lparr>pk_if := flags\<rparr>)
      | Some i \<Rightarrow> do {
          k \<leftarrow> rd (timer_array st1) i;
          let next_time = timer_value k - ctime;
          let prog = (if to_u64 next_time < hw_min hw then hw_min hw
            else if to_u64 next_time > hw_max hw then hw_max hw else next_time);
          Some (act, st1\<lparr>programmed := prog, pk_if := flags\<rparr>) }) }"

definition clock_handler :: "clock_env \<Rightarrow> hw_limits \<Rightarrow> time_ns \<Rightarrow> time_ns \<Rightarrow> pk_state \<Rightarrow> (int \<times> pk_state) option" where
  "clock_handler env hw now1 now2 st = do {
     (act, st1) \<leftarrow> update_hwtimer env hw 0 st;
     st2 \<leftarrow> (if act = NEED_REESCHED then scheduling now1 now2 st1 else Some st1);
     Some (0, st2) }"

section \<open>Sleeping\<close>

text \<open>
  A call of scheduling by the running thread: the rest k runs now when the
  thread keeps the processor.
\<close>

definition sched_then ::
  "time_ns \<Rightarrow> time_ns \<Rightarrow> (pk_state \<Rightarrow> 'a outcome option) \<Rightarrow> pk_state \<Rightarrow> 'a outcome option" where
  "sched_then now1 now2 k st = do {
     c \<leftarrow> current_thread st;
     st1 \<leftarrow> scheduling now1 now2 st;
     if current_thread st1 = Some c then k st1 else Some (Switched st1) }"

definition andthen :: "'a outcome option \<Rightarrow> ('a \<Rightarrow> pk_state \<Rightarrow> 'b outcome option) \<Rightarrow> 'b outcome option" where
  "andthen r k = (case r of None \<Rightarrow> None | Some (Returned x st) \<Rightarrow> k x st
     | Some (Switched st) \<Rightarrow> Some (Switched st) | Some (Halted e st) \<Rightarrow> Some (Halted e st))"

definition sleep_for_rest :: "clock_env \<Rightarrow> nat \<Rightarrow> int \<Rightarrow> time_ns \<Rightarrow> pk_state \<Rightarrow> time_ns outcome option" where
  "sleep_for_rest env n ktimer d st = do {
     i \<leftarrow> kt_ptr ktimer;
     kt \<leftarrow> rd (timer_array st) i;
     ctime \<leftarrow> read_clock_at env n kt st;
     Some (Returned (if d > ctime then d - ctime else 0) st) }"

definition sleep_for ::
  "clock_env \<Rightarrow> hw_limits \<Rightarrow> time_ns \<Rightarrow> time_ns \<Rightarrow> time_ns \<Rightarrow> pk_state \<Rightarrow> time_ns outcome option" where
  "sleep_for env hw now1 now2 d st = do {
     c \<leftarrow> current_thread st;
     t \<leftarrow> threads st c;
     let ktimer = sleep_ktimer t;
     let flags = pk_if st;
     (_, st1) \<leftarrow> arm_timer env 0 ktimer d 0 (st\<lparr>pk_if := False\<rparr>);
     st2 \<leftarrow> suspend_thread c st1;
     (_, st3) \<leftarrow> update_hwtimer env hw 1 (st2\<lparr>pk_if := flags\<rparr>);
     sched_then now1 now2 (sleep_for_rest env 2 ktimer d) st3 }"

record timespec =
  tv_sec :: int
  tv_nsec :: int

definition NSECS_PER_SEC :: int where "NSECS_PER_SEC = 1000000000"
definition USECS_PER_SEC :: int where "USECS_PER_SEC = 1000000"

text \<open>NSECS_PER_SEC is unsigned long long: the divisions and products are those of 64-bit unsigned numbers.\<close>

definition ts_of :: "time_ns \<Rightarrow> timespec" where
  "ts_of d = \<lparr>tv_sec = to_s32 (to_u64 d div NSECS_PER_SEC), tv_nsec = to_s32 (to_u64 d mod NSECS_PER_SEC)\<rparr>"

definition ns_of :: "timespec \<Rightarrow> time_ns" where
  "ns_of ts = to_s64 (tv_sec ts * NSECS_PER_SEC + tv_nsec ts)"

text \<open>rem tells whether the caller passes a buffer; the time left is returned with the result.\<close>

definition nanosleep_rest :: "bool \<Rightarrow> time_ns \<Rightarrow> pk_state \<Rightarrow> (int \<times> timespec option) outcome option" where
  "nanosleep_rest rem d st =
    (if d \<noteq> 0 then do {
       st1 \<leftarrow> SET_ERRNO EINTR st;
       Some (Returned (-1, if rem then Some (ts_of d) else None) st1) }
     else Some (Returned (0, None) st))"

definition nanosleep_sys ::
  "clock_env \<Rightarrow> hw_limits \<Rightarrow> time_ns \<Rightarrow> time_ns \<Rightarrow> timespec \<Rightarrow> bool \<Rightarrow> pk_state \<Rightarrow> (int \<times> timespec option) outcome option" where
  "nanosleep_sys env hw now1 now2 req rem st =
     andthen (sleep_for env hw now1 now2 (ns_of req) st) (nanosleep_rest rem)"

definition usleep_sys ::
  "clock_env \<Rightarrow> hw_limits \<Rightarrow> time_ns \<Rightarrow> time_ns \<Rightarrow> int \<Rightarrow> pk_state \<Rightarrow> (int \<times> timespec option) outcome option" where
  "usleep_sys env hw now1 now2 usec st =
     andthen (sleep_for env hw now1 now2 (to_u32 (usec * 1000)) st) (nanosleep_rest False)"

section \<open>Reading the clocks\<close>

definition clock_settime_sys :: "pk_state \<Rightarrow> (int \<times> pk_state) option" where
  "clock_settime_sys st = fail_errno EPERM st"

text \<open>The buffer written is returned with the result; None when nothing is written.\<close>

definition clock_gettime_sys ::
  "clock_env \<Rightarrow> int \<Rightarrow> bool \<Rightarrow> pk_state \<Rightarrow> (int \<times> timespec option \<times> pk_state) option" where
  "clock_gettime_sys env clock_id tp st =
    (if \<not> tp then do { (r, st1) \<leftarrow> fail_errno EFAULT st; Some (r, None, st1) }
     else if clock_id = CLOCK_REALTIME then Some (0, Some (ts_of (real_clock env 0)), st)
     else if clock_id = CLOCK_MONOTONIC then Some (0, Some (ts_of (mono_clock env 0)), st)
     else if clock_id = CLOCK_THREAD_CPUTIME_ID then do {
       c \<leftarrow> current_thread st; t \<leftarrow> threads st c;
       Some (0, Some (ts_of (used_time t + mono_clock env 0 - starting_time t)), st) }
     else do { (r, st1) \<leftarrow> fail_errno EINVAL st; Some (r, None, st1) })"

definition clock_getres_sys ::
  "clock_env \<Rightarrow> int \<Rightarrow> bool \<Rightarrow> pk_state \<Rightarrow> (int \<times> timespec option \<times> pk_state) option" where
  "clock_getres_sys env clock_id res st =
    (if clock_id = CLOCK_REALTIME then Some (0, if res then Some (ts_of (real_res env)) else None, st)
     else if clock_id = CLOCK_MONOTONIC \<or> clock_id = CLOCK_THREAD_CPUTIME_ID
     then Some (0, if res then Some (ts_of (mono_res env)) else None, st)
     else do { (r, st1) \<leftarrow> fail_errno EINVAL st; Some (r, None, st1) })"

definition time_sys :: "clock_env \<Rightarrow> int" where
  "time_sys env = to_s32 (to_u64 (real_clock env 0) div NSECS_PER_SEC)"

text \<open>C division of a signed number rounds towards zero; the time of the day is not negative.\<close>

definition gettimeofday_sys :: "clock_env \<Rightarrow> bool \<Rightarrow> pk_state \<Rightarrow> (int \<times> (int \<times> int) option \<times> pk_state) option" where
  "gettimeofday_sys env tv st =
    (let d = real_clock env 0 div 1000 in
     if \<not> tv then do { (r, st1) \<leftarrow> fail_errno EFAULT st; Some (r, None, st1) }
     else Some (0, Some (to_s32 (d div USECS_PER_SEC), to_s32 (d mod USECS_PER_SEC)), st))"

section \<open>POSIX timers\<close>

definition timer_create_sys :: "int \<Rightarrow> sigevent option \<Rightarrow> pk_state \<Rightarrow> (int \<times> int option \<times> pk_state) option" where
  "timer_create_sys clk evp st =
    (if clk \<noteq> CLOCK_REALTIME \<and> clk \<noteq> CLOCK_MONOTONIC \<and> clk \<noteq> CLOCK_THREAD_CPUTIME_ID
     then do { (r, st1) \<leftarrow> fail_errno EINVAL st; Some (r, None, st1) }
     else do {
       (timerid, st1) \<leftarrow> alloc_ktimer clk (current_thread st) action_kill st;
       if timerid \<ge> int MAX_TIMERS
       then do { (r, st2) \<leftarrow> fail_errno EAGAIN st1; Some (r, Some timerid, st2) }
       else do {
         i \<leftarrow> kt_ptr timerid;
         st2 \<leftarrow> upd_kt i (\<lambda>k. k\<lparr>kt_sigevent := (case evp of Some e \<Rightarrow> e
           | None \<Rightarrow> \<lparr>sigev_notify = 0, sigev_signo = SIGALARM, sigev_value = timerid\<rparr>)\<rparr>) st1;
         Some (0, Some timerid, st2) } })"

text \<open>The test that the other calls begin with; a negative identifier reads before the array.\<close>

definition timer_in_use :: "int \<Rightarrow> pk_state \<Rightarrow> bool option" where
  "timer_in_use timerid st =
    (if timerid \<ge> int MAX_TIMERS then Some False
     else do {
       i \<leftarrow> kt_ptr timerid; k \<leftarrow> rd (timer_array st) i;
       Some (kt_flags k AND TIMER_IN_USE \<noteq> 0) })"

definition timer_delete_sys :: "int \<Rightarrow> pk_state \<Rightarrow> (int \<times> pk_state) option" where
  "timer_delete_sys timerid st = do {
     ok \<leftarrow> timer_in_use timerid st;
     if \<not> ok then fail_errno EAGAIN st
     else do { st1 \<leftarrow> free_ktimer timerid st; Some (0, st1) } }"

record itimerspec =
  it_interval :: timespec
  it_value :: timespec

definition timer_settime_sys ::
  "clock_env \<Rightarrow> hw_limits \<Rightarrow> int \<Rightarrow> u32 \<Rightarrow> itimerspec option \<Rightarrow> bool \<Rightarrow> pk_state \<Rightarrow>
   (int \<times> itimerspec option \<times> pk_state) option" where
  "timer_settime_sys env hw timerid flags v want_old st = do {
     ok \<leftarrow> timer_in_use timerid st;
     if \<not> ok then do { (r, st1) \<leftarrow> fail_errno EAGAIN st; Some (r, None, st1) }
     else do {
       i \<leftarrow> kt_ptr timerid;
       k \<leftarrow> rd (timer_array st) i;
       let armed = kt_flags k AND TIMER_ARMED \<noteq> 0;
       let ovalue = (if armed \<and> want_old
         then Some \<lparr>it_interval = ts_of (timer_interval k), it_value = ts_of (timer_value k)\<rparr> else None);
       st1 \<leftarrow> (if armed then disarm_timer i st else Some st);
       st2 \<leftarrow> upd_kt i (\<lambda>x. x\<lparr>kt_flags := (kt_flags x AND (NOT TIMER_ABSTIME)) OR (flags AND TIMER_ABSTIME)\<rparr>) st1;
       st3 \<leftarrow> (case v of
           None \<Rightarrow> Some st2
         | Some val \<Rightarrow>
             if tv_sec (it_value val) OR tv_nsec (it_value val) \<noteq> 0 then do {
               (_, sta) \<leftarrow> arm_timer env 0 timerid (ns_of (it_value val)) (ns_of (it_interval val)) st2;
               (_, stb) \<leftarrow> update_hwtimer env hw 1 sta;
               Some stb }
             else Some st2);
       Some (0, ovalue, st3) } }"

definition timer_gettime_sys ::
  "clock_env \<Rightarrow> int \<Rightarrow> bool \<Rightarrow> pk_state \<Rightarrow> (int \<times> itimerspec option \<times> pk_state) option" where
  "timer_gettime_sys env timerid want st = do {
     ok \<leftarrow> timer_in_use timerid st;
     if \<not> ok then do { (r, st1) \<leftarrow> fail_errno EAGAIN st; Some (r, None, st1) }
     else if \<not> want then Some (0, None, st)
     else do {
       i \<leftarrow> kt_ptr timerid;
       k \<leftarrow> rd (timer_array st) i;
       if kt_flags k AND TIMER_ARMED = TIMER_ARMED then do {
         ctime \<leftarrow> read_clock_at env 0 k st;
         Some (0, Some \<lparr>it_interval = ts_of (timer_interval k), it_value = ts_of (timer_value k - ctime)\<rparr>, st) }
       else Some (0, Some \<lparr>it_interval = \<lparr>tv_sec = 0, tv_nsec = 0\<rparr>, it_value = \<lparr>tv_sec = 0, tv_nsec = 0\<rparr>\<rparr>, st) } }"

definition timer_getoverrun_sys :: "int \<Rightarrow> pk_state \<Rightarrow> (int \<times> pk_state) option" where
  "timer_getoverrun_sys timerid st = do {
     ok \<leftarrow> timer_in_use timerid st;
     if \<not> ok then fail_errno EAGAIN st else Some (0, st) }"

section \<open>Arming\<close>

lemma p_wf_heap_small:
  "length (h_array h) = P_HEAP_MAX_NELEM \<Longrightarrow> filled (h_array h) (h_nelem h) \<Longrightarrow> h_nelem h \<le> 1 \<Longrightarrow> p_wf_heap key h"
  by (auto simp: p_wf_heap_def heap_order_def)

text \<open>Arming a timer of the array puts it in the heap with the value that the clock and the flags give.\<close>

lemma arm_timer_ok:
  assumes wf: "\<And>key. p_wf_heap key (timer_heap st)" and room: "size (heap_bag (timer_heap st)) < MAX_TIMERS"
    and i: "i < length (timer_array st)" and use: "kt_flags (timer_array st ! i) AND TIMER_IN_USE \<noteq> 0"
    and base: "(if kt_flags (timer_array st ! i) AND TIMER_ABSTIME \<noteq> TIMER_ABSTIME
                then read_clock_at env n (timer_array st ! i) st else Some 0) = Some base"
  shows "\<exists>st' h kt. arm_timer env n (int i) v interval st = Some (0, st') \<and>
    kt = (timer_array st ! i)\<lparr>timer_value := v + base, kt_flags := kt_flags (timer_array st ! i) OR TIMER_ARMED,
            timer_interval := interval\<rparr> \<and>
    st' = st\<lparr>timer_array := (timer_array st)[i := kt], timer_heap := h\<rparr> \<and>
    p_wf_heap (kt_key st') h \<and> heap_bag h = add_mset i (heap_bag (timer_heap st))"
proof -
  define kt where "kt = (timer_array st ! i)\<lparr>timer_value := v + base,
    kt_flags := kt_flags (timer_array st ! i) OR TIMER_ARMED, timer_interval := interval\<rparr>"
  define st1 where "st1 = st\<lparr>timer_array := (timer_array st)[i := kt]\<rparr>"
  obtain h where h: "p_HEAP_insert (kt_key st1) (timer_heap st1) i = Some (0, h)" "p_wf_heap (kt_key st1) h"
    "heap_bag h = add_mset i (heap_bag (timer_heap st1))"
    using p_HEAP_insert_ok [of "kt_key st1" "timer_heap st1" i] wf room by (auto simp: st1_def)
  have "kt_key (st1\<lparr>timer_heap := h\<rparr>) = kt_key st1" by (simp add: kt_key_def fun_eq_iff)
  moreover have "arm_timer env n (int i) v interval st = Some (0, st1\<lparr>timer_heap := h\<rparr>)"
    unfolding arm_timer_def kt_ptr_def
    using i use base h(1) by (simp add: upd_kt_def st1_def kt_def)
  ultimately show ?thesis using h(2,3)
    by (intro exI [of _ "st1\<lparr>timer_heap := h\<rparr>"] exI [of _ h] exI [of _ kt]) (simp add: st1_def kt_def)
qed

lemma flags_or_use: "f AND TIMER_IN_USE \<noteq> 0 \<Longrightarrow> (f OR TIMER_ARMED) AND TIMER_IN_USE \<noteq> 0"
  by (simp add: TIMER_IN_USE_def TIMER_ARMED_def bit.conj_disj_distrib2)

lemma flags_or_abs: "(f OR TIMER_ARMED) AND TIMER_ABSTIME = f AND TIMER_ABSTIME"
  by (simp add: TIMER_ABSTIME_def TIMER_ARMED_def bit.conj_disj_distrib2)

section \<open>Properties\<close>

text \<open>When no timer is free, timer_create_sys does not report EAGAIN: alloc_ktimer returns -1, which
  the test for MAX_TIMERS and more lets through, and the event is written before the array.\<close>
theorem timer_create_full_faults:
  assumes "length (timer_array st) = MAX_TIMERS" "\<forall>i<MAX_TIMERS. kt_flags (timer_array st ! i) AND TIMER_IN_USE \<noteq> 0"
    and "clk = CLOCK_REALTIME \<or> clk = CLOCK_MONOTONIC \<or> clk = CLOCK_THREAD_CPUTIME_ID"
  shows "timer_create_sys clk evp st = None"
proof -
  have "find_free_ktimer (timer_array st) = None"
    using assms(2) by (simp add: find_free_ktimer_def find_upt_None_iff)
  then have "alloc_ktimer clk (current_thread st) action_kill st = Some (-1, st)"
    using assms(1) by (simp add: alloc_ktimer_def)
  then show ?thesis using assms(3) by (auto simp: timer_create_sys_def kt_ptr_def)
qed

text \<open>Usleep_sys multiplies the microseconds by 1000 in 32 bits: asking for 2 ^ 29 microseconds more
  (about nine minutes) makes no difference to how long the thread sleeps.\<close>
theorem usleep_wraps:
  "usleep_sys env hw now1 now2 (usec + 2 ^ 29) st = usleep_sys env hw now1 now2 usec st"
proof -
  have "to_u32 ((usec + 2 ^ 29) * 1000) = to_u32 (usec * 1000 + 125 * 2 ^ 32)" by (simp add: algebra_simps)
  also have "\<dots> = to_u32 (usec * 1000)" unfolding to_u32_def by (rule mod_mult_self1)
  finally show ?thesis by (simp add: usleep_sys_def)
qed

text \<open>A timer that is armed again before it expires, as a thread's sleep timer is when a signal ends
  its sleep early and it sleeps once more, is inserted in the heap a second time.\<close>
theorem rearming_duplicates:
  assumes "length (h_array (timer_heap st)) = P_HEAP_MAX_NELEM" "h_nelem (timer_heap st) = 0"
    and i: "i < length (timer_array st)" and use: "kt_flags (timer_array st ! i) AND TIMER_IN_USE \<noteq> 0"
    and abst: "kt_flags (timer_array st ! i) AND TIMER_ABSTIME = TIMER_ABSTIME"
  shows "\<exists>st1 st2. arm_timer env n (int i) v 0 st = Some (0, st1) \<and>
    arm_timer env n (int i) w 0 st1 = Some (0, st2) \<and> heap_bag (timer_heap st2) = {#i, i#}"
proof -
  have fi: "filled (h_array (timer_heap st)) 0" using assms(1) by (simp add: filled_def P_HEAP_MAX_NELEM_def)
  have e: "heap_bag (timer_heap st) = {#}" using assms(2) by (simp add: heap_bag_def)
  have base: "(if kt_flags (timer_array st ! i) AND TIMER_ABSTIME \<noteq> TIMER_ABSTIME
      then read_clock_at env n (timer_array st ! i) st else Some 0) = Some 0" using abst by simp
  have wf: "p_wf_heap key (timer_heap st)" for key using p_wf_heap_small assms(1,2) fi by (metis le_SucI le_numeral_extra(3) One_nat_def)
  have room: "size (heap_bag (timer_heap st)) < MAX_TIMERS" using e by (simp add: MAX_TIMERS_def)
  obtain st1 h kt where a1: "arm_timer env n (int i) v 0 st = Some (0, st1)"
    "kt = (timer_array st ! i)\<lparr>timer_value := v + 0, kt_flags := kt_flags (timer_array st ! i) OR TIMER_ARMED, timer_interval := 0\<rparr>"
    "st1 = st\<lparr>timer_array := (timer_array st)[i := kt], timer_heap := h\<rparr>"
    "p_wf_heap (kt_key st1) h" "heap_bag h = {#i#}"
    using arm_timer_ok [OF wf room i use base, where v = v and interval = 0] unfolding e by blast
  have n1: "h_nelem h = 1" using size_heap_bag [OF a1(4)] a1(5) by simp
  have wf1: "p_wf_heap key (timer_heap st1)" for key
    using a1(3,4) n1 p_wf_heap_small [of h key] by (simp add: p_wf_heap_def)
  have k1: "timer_array st1 ! i = kt" "i < length (timer_array st1)" using a1(3) i by simp_all
  have use1: "kt_flags (timer_array st1 ! i) AND TIMER_IN_USE \<noteq> 0"
    using flags_or_use [OF use] k1 a1(2) by simp
  have base1: "(if kt_flags (timer_array st1 ! i) AND TIMER_ABSTIME \<noteq> TIMER_ABSTIME
      then read_clock_at env n (timer_array st1 ! i) st1 else Some 0) = Some 0"
    using k1 a1(2) flags_or_abs abst by simp
  have room1: "size (heap_bag (timer_heap st1)) < MAX_TIMERS" using a1(3,5) by (simp add: MAX_TIMERS_def)
  obtain st2 where "arm_timer env n (int i) w 0 st1 = Some (0, st2)" "heap_bag (timer_heap st2) = {#i, i#}"
    using arm_timer_ok [OF wf1 room1 k1(2) use1 base1, where v = w and interval = 0] a1(3,5) by auto
  then show ?thesis using a1(1) by blast
qed

section \<open>Witnesses\<close>

lemma timer_create_full_faults_witness:
  "timer_create_sys CLOCK_MONOTONIC None
     (demo_pk\<lparr>timer_array := replicate MAX_TIMERS (zero_ktimer\<lparr>kt_flags := TIMER_IN_USE\<rparr>)\<rparr>) = None"
  by (rule timer_create_full_faults) (simp_all add: TIMER_IN_USE_def)

definition demo_env :: clock_env where
  "demo_env = \<lparr>mono_clock = (\<lambda>n. 100 + int n), real_clock = (\<lambda>n. 1000 + int n), mono_res = 1, real_res = 1\<rparr>"

definition demo_armed :: pk_state where
  "demo_armed = demo_pk\<lparr>timer_array := replicate MAX_TIMERS (zero_ktimer\<lparr>kt_flags := TIMER_IN_USE OR TIMER_ABSTIME\<rparr>),
     timer_heap := \<lparr>h_array = replicate P_HEAP_MAX_NELEM None, h_nelem = 0\<rparr>\<rparr>"

lemma rearming_duplicates_witness:
  "\<exists>st1 st2. arm_timer demo_env 0 (int 4) 10 0 demo_armed = Some (0, st1) \<and>
    arm_timer demo_env 0 (int 4) 20 0 st1 = Some (0, st2) \<and> heap_bag (timer_heap st2) = {#4, 4#}"
  by (rule rearming_duplicates)
    (simp_all add: demo_armed_def MAX_TIMERS_def TIMER_IN_USE_def TIMER_ABSTIME_def)

end
