(* ===== verification/PSync.thy ===== *)
theory PSync
  imports PTime
begin

unbundle bit_operations_syntax

text \<open>
  PaRTiKle's semaphores (core/kernel/port/semaphore.c), mutexes and condition
  variables (pthread.c).  A call that gives up the processor in scheduling is
  Switched there; the definition with the suffix _rest is the code after it,
  run when the thread is current again, with the local flags as an argument.
\<close>

definition ENOSYS :: int where "ENOSYS = 38"
definition ERANGE :: int where "ERANGE = 34"
definition ETIMEDOUT :: int where "ETIMEDOUT = 110"
definition SEM_VALUE_MAX :: int where "SEM_VALUE_MAX = 2 ^ 31 - 1"

definition fails :: "int \<Rightarrow> pk_state \<Rightarrow> int outcome option" where
  "fails e st = do { st1 \<leftarrow> SET_ERRNO e st; Some (Returned (-1) st1) }"

section \<open>Semaphores\<close>

definition upd_sem :: "nat \<Rightarrow> (sem_t \<Rightarrow> sem_t) \<Rightarrow> pk_state \<Rightarrow> pk_state option" where
  "upd_sem s f st = do { m \<leftarrow> sems st s; Some (st\<lparr>sems := (sems st)(s \<mapsto> f m)\<rparr>) }"

definition sem_init_sys :: "nat option \<Rightarrow> int \<Rightarrow> int \<Rightarrow> pk_state \<Rightarrow> (int \<times> pk_state) option" where
  "sem_init_sys sem pshared v st =
    (if pshared \<noteq> 0 then fail_errno ENOSYS st
     else (case sem of
        Some s \<Rightarrow> Some (0, st\<lparr>sems := (sems st)(s \<mapsto> \<lparr>sem_value = to_s32 v, sem_list = None\<rparr>)\<rparr>)
      | None \<Rightarrow> fail_errno EINVAL st))"

definition sem_destroy_sys :: "nat option \<Rightarrow> pk_state \<Rightarrow> (int \<times> pk_state) option" where
  "sem_destroy_sys sem st =
    (case sem of None \<Rightarrow> fail_errno EINVAL st
     | Some s \<Rightarrow> do {
         m \<leftarrow> sems st s;
         if sem_list m \<noteq> None then fail_errno EBUSY st else Some (0, st) })"

definition sem_getvalue_sys :: "nat option \<Rightarrow> pk_state \<Rightarrow> (int \<times> int option \<times> pk_state) option" where
  "sem_getvalue_sys sem st =
    (case sem of None \<Rightarrow> do { (r, st1) \<leftarrow> fail_errno EINVAL st; Some (r, None, st1) }
     | Some s \<Rightarrow> do { m \<leftarrow> sems st s; Some (0, Some (sem_value m), st) })"

definition sem_wait_rest :: "nat \<Rightarrow> bool \<Rightarrow> pk_state \<Rightarrow> int outcome option" where
  "sem_wait_rest s flags st = do {
     st1 \<leftarrow> upd_sem s (\<lambda>m. m\<lparr>sem_value := sem_value m - 1\<rparr>) st;
     Some (Returned 0 (st1\<lparr>pk_if := flags\<rparr>)) }"

definition sem_wait_sys :: "time_ns \<Rightarrow> time_ns \<Rightarrow> nat option \<Rightarrow> pk_state \<Rightarrow> int outcome option" where
  "sem_wait_sys now1 now2 sem st =
    (case sem of None \<Rightarrow> fails EINVAL st
     | Some s \<Rightarrow> do {
         let flags = pk_if st;
         let st0 = st\<lparr>pk_if := False\<rparr>;
         m \<leftarrow> sems st0 s;
         if sem_value m = 0 then do {
           c \<leftarrow> current_thread st0;
           st1 \<leftarrow> suspend_thread c st0;
           m1 \<leftarrow> sems st1 s;
           (h, st2) \<leftarrow> insert_pthread_list SemL (sem_list m1) c st1;
           st3 \<leftarrow> upd_sem s (\<lambda>x. x\<lparr>sem_list := h\<rparr>) st2;
           sched_then now1 now2 (sem_wait_rest s flags) st3 }
         else sem_wait_rest s flags st0 })"

definition sem_trywait_sys :: "nat option \<Rightarrow> pk_state \<Rightarrow> (int \<times> pk_state) option" where
  "sem_trywait_sys sem st =
    (case sem of None \<Rightarrow> fail_errno EINVAL st
     | Some s \<Rightarrow> do {
         m \<leftarrow> sems st s;
         if sem_value m = 0 then fail_errno EAGAIN st
         else do {
           st1 \<leftarrow> upd_sem s (\<lambda>x. x\<lparr>sem_value := sem_value x - 1\<rparr>) st;
           Some (0, st1) } })"

definition sem_timedwait_rest :: "nat \<Rightarrow> nat \<Rightarrow> bool \<Rightarrow> time_ns \<Rightarrow> pk_state \<Rightarrow> int outcome option" where
  "sem_timedwait_rest s c flags r st = do {
     m \<leftarrow> sems st s;
     (h, st1) \<leftarrow> remove_pthread_list SemL (sem_list m) c st;
     st2 \<leftarrow> upd_sem s (\<lambda>x. x\<lparr>sem_list := h\<rparr>) st1;
     m2 \<leftarrow> sems st2 s;
     st3 \<leftarrow> (if sem_value m2 > 0 then upd_sem s (\<lambda>x. x\<lparr>sem_value := sem_value x - 1\<rparr>) st2 else Some st2);
     Some (Returned 0 (st3\<lparr>pk_if := flags\<rparr>)) }"

text \<open>now is the reading of the real-time clock; time_error is never set.\<close>

definition sem_timedwait_sys ::
  "clock_env \<Rightarrow> hw_limits \<Rightarrow> time_ns \<Rightarrow> time_ns \<Rightarrow> nat option \<Rightarrow> timespec option \<Rightarrow> pk_state \<Rightarrow> int outcome option" where
  "sem_timedwait_sys env hw now1 now2 sem abstime st =
    (case (sem, abstime) of
       (Some s, Some ts) \<Rightarrow> do {
         m \<leftarrow> sems st s;
         st1 \<leftarrow> (if sem_value m > 0 then upd_sem s (\<lambda>x. x\<lparr>sem_value := sem_value x - 1\<rparr>) st else Some st);
         m1 \<leftarrow> sems st1 s;
         if sem_value m > 0 \<and> sem_value m1 > 0 then Some (Returned 0 st1)
         else if tv_nsec ts < 0 \<or> tv_nsec ts \<ge> NSECS_PER_SEC then fails EINVAL st1
         else do {
           let d = to_s64 (tv_sec ts * NSECS_PER_SEC + tv_nsec ts - real_clock env 0);
           let flags = pk_if st1;
           c \<leftarrow> current_thread st1;
           (h, st2) \<leftarrow> insert_pthread_list SemL (sem_list m1) c (st1\<lparr>pk_if := False\<rparr>);
           st3 \<leftarrow> upd_sem s (\<lambda>x. x\<lparr>sem_list := h\<rparr>) st2;
           andthen (sleep_for env hw now1 now2 d st3) (sem_timedwait_rest s c flags) } }
     | _ \<Rightarrow> fails EINVAL st)"

definition sem_post_rest :: "nat \<Rightarrow> bool \<Rightarrow> pk_state \<Rightarrow> int outcome option" where
  "sem_post_rest s flags st = do {
     m \<leftarrow> sems st s;
     if sem_value m < SEM_VALUE_MAX then do {
       st1 \<leftarrow> upd_sem s (\<lambda>x. x\<lparr>sem_value := sem_value x + 1\<rparr>) st;
       Some (Returned 0 (st1\<lparr>pk_if := flags\<rparr>)) }
     else do {
       st1 \<leftarrow> SET_ERRNO ERANGE st;
       Some (Returned (-1) (st1\<lparr>pk_if := flags\<rparr>)) } }"

definition sem_post_sys :: "time_ns \<Rightarrow> time_ns \<Rightarrow> nat option \<Rightarrow> pk_state \<Rightarrow> int outcome option" where
  "sem_post_sys now1 now2 sem st =
    (case sem of None \<Rightarrow> fails EINVAL st
     | Some s \<Rightarrow> do {
         let flags = pk_if st;
         let st0 = st\<lparr>pk_if := False\<rparr>;
         m \<leftarrow> sems st0 s;
         if sem_value m = 0 then do {
           (t, h, st1) \<leftarrow> remove_head_pthread_list SemL (sem_list m) st0;
           st2 \<leftarrow> upd_sem s (\<lambda>x. x\<lparr>sem_list := h\<rparr>) st1;
           (case t of
              Some a \<Rightarrow> do {
                st3 \<leftarrow> activate_thread a st2;
                sched_then now1 now2 (sem_post_rest s flags) st3 }
            | None \<Rightarrow> sem_post_rest s flags st2) }
         else sem_post_rest s flags st0 })"

section \<open>Mutexes\<close>

definition PTHREAD_MUTEX_NORMAL :: int where "PTHREAD_MUTEX_NORMAL = 0"
definition PTHREAD_MUTEX_RECURSIVE :: int where "PTHREAD_MUTEX_RECURSIVE = 1"
definition PTHREAD_MUTEX_ERRORCHECK :: int where "PTHREAD_MUTEX_ERRORCHECK = 2"
definition PTHREAD_PRIO_PROTECT :: int where "PTHREAD_PRIO_PROTECT = 2"

definition PTHREAD_MUTEX_INITIALIZER :: pthread_mutex_t where
  "PTHREAD_MUTEX_INITIALIZER = \<lparr>m_magic_number = 0xCBCBCBCB, counter = 0,
     m_attr = \<lparr>prio_protection = 2, ma_prio = 0, ma_type = PTHREAD_MUTEX_NORMAL, owner_prio = 0\<rparr>,
     m_owner = None, mutex_list = None\<rparr>"

definition upd_mutex :: "nat \<Rightarrow> (pthread_mutex_t \<Rightarrow> pthread_mutex_t) \<Rightarrow> pk_state \<Rightarrow> pk_state option" where
  "upd_mutex x f st = do { m \<leftarrow> mutexes st x; Some (st\<lparr>mutexes := (mutexes st)(x \<mapsto> f m)\<rparr>) }"

definition pthread_mutex_init_sys ::
  "nat option \<Rightarrow> pthread_mutexattr_t option \<Rightarrow> pk_state \<Rightarrow> (int \<times> pk_state) option" where
  "pthread_mutex_init_sys mutex attr st =
    (case mutex of None \<Rightarrow> fail_errno EINVAL st
     | Some x \<Rightarrow> Some (0, st\<lparr>mutexes := (mutexes st)(x \<mapsto> (case attr of
          None \<Rightarrow> PTHREAD_MUTEX_INITIALIZER
        | Some a \<Rightarrow> PTHREAD_MUTEX_INITIALIZER\<lparr>m_attr := a\<rparr>))\<rparr>))"

definition pthread_mutex_destroy_sys :: "nat option \<Rightarrow> int" where
  "pthread_mutex_destroy_sys mutex = 0"

definition restore_if :: "bool \<Rightarrow> int \<Rightarrow> pk_state \<Rightarrow> int outcome option" where
  "restore_if flags r st = Some (Returned r (st\<lparr>pk_if := flags\<rparr>))"

text \<open>The priority ceiling of lock and trylock, with the end of the call.\<close>

definition mutex_ceiling :: "time_ns \<Rightarrow> time_ns \<Rightarrow> nat \<Rightarrow> bool \<Rightarrow> pk_state \<Rightarrow> int outcome option" where
  "mutex_ceiling now1 now2 x flags st = do {
     m \<leftarrow> mutexes st x;
     if prio_protection (m_attr m) = PTHREAD_PRIO_PROTECT then do {
       c \<leftarrow> current_thread st;
       t \<leftarrow> threads st c;
       st1 \<leftarrow> upd_mutex x (\<lambda>m. m\<lparr>m_attr := (m_attr m)\<lparr>owner_prio := prio_th t\<rparr>\<rparr>) st;
       if prio_th t > ma_prio (m_attr m) then do {
         st2 \<leftarrow> change_thread_prio c (ma_prio (m_attr m)) st1;
         sched_then now1 now2 (restore_if flags 0) st2 }
       else restore_if flags 0 st1 }
     else restore_if flags 0 st }"

text \<open>
  One pass of the loop of lock, from its condition to the call of scheduling
  or the end of the call.  A thread that is switched out starts again with
  this test when it is resumed; a thread that keeps the processor does so at
  once, which is the recursion.
\<close>

partial_function (option) lock_loop ::
  "time_ns \<Rightarrow> time_ns \<Rightarrow> nat \<Rightarrow> bool \<Rightarrow> pk_state \<Rightarrow> int outcome option" where
  "lock_loop now1 now2 x flags st = do {
     m \<leftarrow> mutexes st x;
     (case m_owner m of
        None \<Rightarrow> do {
          c \<leftarrow> current_thread st;
          st1 \<leftarrow> upd_mutex x (\<lambda>m. m\<lparr>m_owner := Some c, counter := 1\<rparr>) st;
          mutex_ceiling now1 now2 x flags st1 }
      | Some o1 \<Rightarrow> do {
          c \<leftarrow> current_thread st;
          if o1 = c \<and> ma_type (m_attr m) = PTHREAD_MUTEX_ERRORCHECK
          then fails EDEADLK (st\<lparr>pk_if := flags\<rparr>)
          else if o1 = c \<and> ma_type (m_attr m) = PTHREAD_MUTEX_RECURSIVE
          then do {
            st1 \<leftarrow> upd_mutex x (\<lambda>m. m\<lparr>counter := counter m + 1\<rparr>) st;
            restore_if flags 0 st1 }
          else do {
            st1 \<leftarrow> suspend_thread c st;
            m1 \<leftarrow> mutexes st1 x;
            (h, st2) \<leftarrow> insert_pthread_list MutexL (mutex_list m1) c st1;
            st3 \<leftarrow> upd_mutex x (\<lambda>m. m\<lparr>mutex_list := h\<rparr>) st2;
            st4 \<leftarrow> scheduling now1 now2 st3;
            if current_thread st4 = Some c then lock_loop now1 now2 x flags st4
            else Some (Switched st4) } }) }"

declare lock_loop.simps [code]

definition pthread_mutex_lock_sys :: "time_ns \<Rightarrow> time_ns \<Rightarrow> nat \<Rightarrow> pk_state \<Rightarrow> int outcome option" where
  "pthread_mutex_lock_sys now1 now2 x st = lock_loop now1 now2 x (pk_if st) (st\<lparr>pk_if := False\<rparr>)"

definition pthread_mutex_trylock_sys :: "time_ns \<Rightarrow> time_ns \<Rightarrow> nat \<Rightarrow> pk_state \<Rightarrow> int outcome option" where
  "pthread_mutex_trylock_sys now1 now2 x st = do {
     let flags = pk_if st;
     let st0 = st\<lparr>pk_if := False\<rparr>;
     m \<leftarrow> mutexes st0 x;
     c \<leftarrow> current_thread st0;
     (case m_owner m of
        Some o1 \<Rightarrow>
          if o1 = c \<and> ma_type (m_attr m) = PTHREAD_MUTEX_RECURSIVE then do {
            st1 \<leftarrow> upd_mutex x (\<lambda>m. m\<lparr>counter := counter m + 1\<rparr>) st0;
            restore_if flags 0 st1 }
          else fails EBUSY (st0\<lparr>pk_if := flags\<rparr>)
      | None \<Rightarrow> do {
          st1 \<leftarrow> upd_mutex x (\<lambda>m. m\<lparr>m_owner := Some c\<rparr>) st0;
          mutex_ceiling now1 now2 x flags st1 }) }"

text \<open>Waking every thread of a list.\<close>

partial_function (option) wake_all :: "plkind \<Rightarrow> nat option \<Rightarrow> pk_state \<Rightarrow> pk_state option" where
  "wake_all k h st = do {
     (t, h1, st1) \<leftarrow> remove_head_pthread_list k h st;
     (case t of None \<Rightarrow> Some st1
      | Some a \<Rightarrow> do { st2 \<leftarrow> activate_thread a st1; wake_all k h1 st2 }) }"

declare wake_all.simps [code]

definition pthread_mutex_unlock_sys :: "time_ns \<Rightarrow> time_ns \<Rightarrow> nat \<Rightarrow> pk_state \<Rightarrow> int outcome option" where
  "pthread_mutex_unlock_sys now1 now2 x st = do {
     let flags = pk_if st;
     let st0 = st\<lparr>pk_if := False\<rparr>;
     m \<leftarrow> mutexes st0 x;
     (case m_owner m of
        Some o1 \<Rightarrow>
          if Some o1 \<noteq> current_thread st0 then fails EPERM (st0\<lparr>pk_if := flags\<rparr>)
          else do {
            st1 \<leftarrow> (if ma_type (m_attr m) = PTHREAD_MUTEX_RECURSIVE
                   then upd_mutex x (\<lambda>m. m\<lparr>counter := counter m - 1\<rparr>) st0 else Some st0);
            m1 \<leftarrow> mutexes st1 x;
            if ma_type (m_attr m) = PTHREAD_MUTEX_RECURSIVE \<and> counter m1 > 0 then restore_if flags 0 st1
            else do {
              st2 \<leftarrow> wake_all MutexL (mutex_list m1) st1;
              st3 \<leftarrow> upd_mutex x (\<lambda>m. m\<lparr>mutex_list := None, m_owner := None, counter := 0\<rparr>) st2;
              t \<leftarrow> threads st3 o1;
              if prio_protection (m_attr m) = PTHREAD_PRIO_PROTECT \<and> owner_prio (m_attr m) \<noteq> prio_th t
              then do {
                st4 \<leftarrow> change_thread_prio o1 (owner_prio (m_attr m)) st3;
                sched_then now1 now2 (restore_if flags 0) st4 }
              else restore_if flags 0 st3 } }
      | None \<Rightarrow>
          if ma_type (m_attr m) = PTHREAD_MUTEX_ERRORCHECK then fails EPERM (st0\<lparr>pk_if := flags\<rparr>)
          else restore_if flags 0 st0) }"

definition pthread_mutex_timedlock_sys :: "nat \<Rightarrow> int" where
  "pthread_mutex_timedlock_sys x = 0"

section \<open>Condition variables\<close>

definition upd_cond :: "nat \<Rightarrow> nat option \<Rightarrow> pk_state \<Rightarrow> pk_state option" where
  "upd_cond x h st = do { _ \<leftarrow> conds st x; Some (st\<lparr>conds := (conds st)(x \<mapsto> \<lparr>cond_list = h\<rparr>)\<rparr>) }"

definition pthread_cond_init_sys :: "nat option \<Rightarrow> pk_state \<Rightarrow> (int \<times> pk_state) option" where
  "pthread_cond_init_sys cond st =
    (case cond of None \<Rightarrow> fail_errno EINVAL st
     | Some x \<Rightarrow> Some (0, st\<lparr>conds := (conds st)(x \<mapsto> \<lparr>cond_list = None\<rparr>)\<rparr>))"

definition pthread_cond_destroy_sys :: "nat option \<Rightarrow> int" where
  "pthread_cond_destroy_sys cond = 0"

definition pthread_cond_signal_sys :: "time_ns \<Rightarrow> time_ns \<Rightarrow> nat option \<Rightarrow> pk_state \<Rightarrow> int outcome option" where
  "pthread_cond_signal_sys now1 now2 cond st =
    (case cond of None \<Rightarrow> fails EINVAL st
     | Some x \<Rightarrow> do {
         let flags = pk_if st;
         cv \<leftarrow> conds st x;
         (t, h, st1) \<leftarrow> remove_head_pthread_list CondL (cond_list cv) (st\<lparr>pk_if := False\<rparr>);
         st2 \<leftarrow> upd_cond x h st1;
         st3 \<leftarrow> (case t of None \<Rightarrow> Some st2 | Some a \<Rightarrow> activate_thread a st2);
         sched_then now1 now2 (restore_if flags 0) st3 })"

definition pthread_cond_broadcast_sys :: "time_ns \<Rightarrow> time_ns \<Rightarrow> nat option \<Rightarrow> pk_state \<Rightarrow> int outcome option" where
  "pthread_cond_broadcast_sys now1 now2 cond st =
    (case cond of None \<Rightarrow> fails EINVAL st
     | Some x \<Rightarrow> do {
         let flags = pk_if st;
         cv \<leftarrow> conds st x;
         st1 \<leftarrow> wake_all CondL (cond_list cv) (st\<lparr>pk_if := False\<rparr>);
         st2 \<leftarrow> upd_cond x None st1;
         sched_then now1 now2 (restore_if flags 0) st2 })"

text \<open>After the unlock: the thread waits; resumed, it takes the mutex again.\<close>

definition cond_wait_lock :: "time_ns \<Rightarrow> time_ns \<Rightarrow> nat \<Rightarrow> bool \<Rightarrow> pk_state \<Rightarrow> int outcome option" where
  "cond_wait_lock now1 now2 m flags st =
     andthen (pthread_mutex_lock_sys now1 now2 m st) (\<lambda>_. restore_if flags 0)"

definition cond_wait_block ::
  "time_ns \<Rightarrow> time_ns \<Rightarrow> nat \<Rightarrow> nat \<Rightarrow> nat \<Rightarrow> bool \<Rightarrow> pk_state \<Rightarrow> int outcome option" where
  "cond_wait_block now1 now2 x m c flags st = do {
     st1 \<leftarrow> suspend_thread c st;
     cv \<leftarrow> conds st1 x;
     (h, st2) \<leftarrow> insert_pthread_list CondL (cond_list cv) c st1;
     st3 \<leftarrow> upd_cond x h st2;
     sched_then now1 now2 (cond_wait_lock now1 now2 m flags) st3 }"

definition pthread_cond_wait_sys ::
  "time_ns \<Rightarrow> time_ns \<Rightarrow> nat option \<Rightarrow> nat option \<Rightarrow> pk_state \<Rightarrow> int outcome option" where
  "pthread_cond_wait_sys now1 now2 cond mutex st =
    (case (cond, mutex) of
       (Some x, Some m) \<Rightarrow> do {
         mt \<leftarrow> mutexes st m;
         if m_owner mt \<noteq> current_thread st then fails EPERM st
         else do {
           c \<leftarrow> current_thread st;
           let flags = pk_if st;
           andthen (pthread_mutex_unlock_sys now1 now2 m (st\<lparr>pk_if := False\<rparr>))
             (\<lambda>_. cond_wait_block now1 now2 x m c flags) } }
     | _ \<Rightarrow> fails EINVAL st)"

definition cond_timed_end :: "clock_env \<Rightarrow> bool \<Rightarrow> time_ns \<Rightarrow> pk_state \<Rightarrow> int outcome option" where
  "cond_timed_end env flags r st =
    (if r < mono_clock env 3 then fails ETIMEDOUT (st\<lparr>pk_if := flags\<rparr>) else restore_if flags 0 st)"

definition cond_timed_lock ::
  "clock_env \<Rightarrow> time_ns \<Rightarrow> time_ns \<Rightarrow> nat \<Rightarrow> nat \<Rightarrow> nat \<Rightarrow> bool \<Rightarrow> time_ns \<Rightarrow> pk_state \<Rightarrow> int outcome option" where
  "cond_timed_lock env now1 now2 x m c flags r st = do {
     cv \<leftarrow> conds st x;
     (h, st1) \<leftarrow> remove_pthread_list CondL (cond_list cv) c st;
     st2 \<leftarrow> upd_cond x h st1;
     andthen (pthread_mutex_lock_sys now1 now2 m st2) (\<lambda>_. cond_timed_end env flags r) }"

definition cond_timed_sleep ::
  "clock_env \<Rightarrow> hw_limits \<Rightarrow> time_ns \<Rightarrow> time_ns \<Rightarrow> nat \<Rightarrow> nat \<Rightarrow> nat \<Rightarrow> bool \<Rightarrow> time_ns \<Rightarrow> pk_state \<Rightarrow> int outcome option" where
  "cond_timed_sleep env hw now1 now2 x m c flags d st = do {
     cv \<leftarrow> conds st x;
     (h, st1) \<leftarrow> insert_pthread_list CondL (cond_list cv) c st;
     st2 \<leftarrow> upd_cond x h st1;
     andthen (sleep_for env hw now1 now2 d st2) (cond_timed_lock env now1 now2 x m c flags) }"

definition pthread_cond_timedwait_sys ::
  "clock_env \<Rightarrow> hw_limits \<Rightarrow> time_ns \<Rightarrow> time_ns \<Rightarrow> nat option \<Rightarrow> nat option \<Rightarrow> timespec option \<Rightarrow> pk_state \<Rightarrow> int outcome option" where
  "pthread_cond_timedwait_sys env hw now1 now2 cond mutex abstime st =
    (case (cond, mutex, abstime) of
       (Some x, Some m, Some ts) \<Rightarrow> do {
         mt \<leftarrow> mutexes st m;
         let d = to_s64 (tv_sec ts * NSECS_PER_SEC + tv_nsec ts - real_clock env 0);
         if m_owner mt \<noteq> current_thread st then fails EPERM st
         else do {
           c \<leftarrow> current_thread st;
           let flags = pk_if st;
           andthen (pthread_mutex_unlock_sys now1 now2 m (st\<lparr>pk_if := False\<rparr>))
             (\<lambda>_. cond_timed_sleep env hw now1 now2 x m c flags d) } }
     | _ \<Rightarrow> fails EINVAL st)"

section \<open>What the operations leave alone\<close>

text \<open>
  st' differs from st in the links of the lists of threads only; the records
  of semaphores, mutexes and conditions are the same in all of these.
\<close>

definition links_only :: "pk_state \<Rightarrow> pk_state \<Rightarrow> bool" where
  "links_only st st' \<longleftrightarrow> st'\<lparr>threads := threads st\<rparr> = st \<and>
     (\<forall>a. map_option GET_THREAD_STATE (threads st' a) = map_option GET_THREAD_STATE (threads st a)) \<and>
     (\<forall>a. map_option prio_th (threads st' a) = map_option prio_th (threads st a))"

lemma links_only_refl [simp]: "links_only st st"
  by (simp add: links_only_def)

lemma links_only_trans: "links_only a b \<Longrightarrow> links_only b c \<Longrightarrow> links_only a c"
  unfolding links_only_def by (cases a; cases b; cases c) auto

lemma links_only_fields:
  assumes "links_only st st'"
  shows "current_thread st' = current_thread st" "idle_thread st' = idle_thread st"
    "irq_nesting_counter st' = irq_nesting_counter st" "pk_if st' = pk_if st" "sems st' = sems st"
    "mutexes st' = mutexes st" "conds st' = conds st" "active_threads st' = active_threads st"
    "timer_array st' = timer_array st" "saved_flags st' = saved_flags st"
  using assms unfolding links_only_def by (cases st; cases st'; auto)+

lemma links_only_upd:
  "upd_th a (map_pl k f) st = Some st' \<Longrightarrow> links_only st st'"
  by (auto simp: upd_th_def bind_eq_Some_conv links_only_def GET_THREAD_STATE_def prio_th_def)

lemma links_only_case:
  "(case q of None \<Rightarrow> Some st | Some a \<Rightarrow> upd_th a (map_pl k f) st) = Some st' \<Longrightarrow> links_only st st'"
  by (cases q) (auto dest: links_only_upd)

lemma inv_case:
  "sched_inv st Q \<Longrightarrow> (case q of None \<Rightarrow> Some st | Some a \<Rightarrow> upd_th a (map_pl k f) st) = Some st' \<Longrightarrow> sched_inv st' Q"
  by (cases q) (auto dest: sched_inv_upd_pl)

lemma insert_list_frame:
  assumes "insert_pthread_list k h p st = Some (h', st')"
  shows "links_only st st' \<and> h' = Some p"
  using assms unfolding insert_pthread_list_def
  by (auto simp: bind_eq_Some_conv intro: links_only_trans dest!: links_only_upd links_only_case)

lemma remove_head_frame:
  assumes "remove_head_pthread_list k h st = Some (t, h', st')"
  shows "links_only st st' \<and> (sched_inv st Q \<longrightarrow> sched_inv st' Q)"
proof (cases h)
  case None
  then show ?thesis using assms by (simp add: remove_head_pthread_list_def)
next
  case (Some p)
  then obtain q st1 where s: "(case q of None \<Rightarrow> Some st
       | Some a \<Rightarrow> upd_th a (map_pl k (\<lambda>n. n\<lparr>pl_prev := None\<rparr>)) st) = Some st1"
    "upd_th p (map_pl k (\<lambda>n. n\<lparr>pl_prev := None, pl_next := None\<rparr>)) st1 = Some st'"
    using assms by (auto simp: remove_head_pthread_list_def Let_def bind_eq_Some_conv)
  show ?thesis
    using links_only_trans [OF links_only_case [OF s(1)] links_only_upd [OF s(2)]]
      inv_case [OF _ s(1)] sched_inv_upd_pl [OF _ s(2)] by blast
qed

lemma remove_head_ok:
  assumes l: "pthread_list k st h (p # xs)"
  shows "\<exists>st' h'. remove_head_pthread_list k h st = Some (Some p, h', st') \<and> pthread_list k st' h' xs \<and>
    pl_free k st' p"
proof -
  let ?f = "\<lambda>n. n\<lparr>pl_prev := None, pl_next := None\<rparr>"
  have d: "dlist (pl_nx k st) (pl_pr k st) h (p # xs)" and sub: "set (p # xs) \<subseteq> dom (threads st)"
    and th: "\<forall>x\<in>set (p # xs). pl_this (get_pl k (the (threads st x))) = Some x"
    using l by (simp_all add: pthread_list_def)
  have h: "h = Some p" using dlist_head [OF d] by simp
  obtain t where t: "threads st p = Some t" using sub by auto
  have nx: "pl_nx k st p = (if xs = [] then None else Some (hd xs))" and pr: "pl_pr k st p = None"
    and dis: "distinct (p # xs)"
    using dlist_split [of _ _ h "[]" p xs] d by auto
  have d1: "dlist (set_next (pl_pr k st p) (pl_nx k st p) (pl_nx k st))
      (set_next (pl_nx k st p) (pl_pr k st p) (pl_pr k st)) (pl_nx k st p) xs"
    using dlist_remove [of _ _ h "[]" p xs] d by simp
  have nt: "pl_next (get_pl k t) = pl_nx k st p" using t by (simp add: pl_nx_def)
  show ?thesis
  proof (cases xs)
    case Nil
    let ?st = "st\<lparr>threads := (threads st)(p \<mapsto> map_pl k ?f t)\<rparr>"
    have "remove_head_pthread_list k h st = Some (Some p, None, ?st)"
      using h t nt nx th Nil by (simp add: remove_head_pthread_list_def)
    then show ?thesis using Nil t th by (auto simp: pthread_list_def pl_free_def)
  next
    case (Cons q ys)
    obtain tq where tq: "threads st q = Some tq" using sub Cons by auto
    have pq: "p \<noteq> q" using dis Cons by auto
    define st1 where "st1 = st\<lparr>threads := (threads st)(q \<mapsto> map_pl k (\<lambda>n. n\<lparr>pl_prev := None\<rparr>) tq)\<rparr>"
    have t1: "threads st1 p = Some t" using t pq by (simp add: st1_def)
    define st2 where "st2 = st1\<lparr>threads := (threads st1)(p \<mapsto> map_pl k ?f t)\<rparr>"
    have "pl_nx k st q = pl_next (get_pl k tq)" using tq by (simp add: pl_nx_def)
    then have nx1: "pl_nx k st1 = pl_nx k st" unfolding st1_def pl_upd(1) [OF tq] by auto
    have nx2: "pl_nx k st2 = (pl_nx k st)(p := None)" unfolding st2_def pl_upd(1) [OF t1] nx1 by simp
    have pr2: "pl_pr k st2 = (pl_pr k st)(q := None, p := None)"
      unfolding st2_def pl_upd(2) [OF t1] unfolding st1_def pl_upd(2) [OF tq] by simp
    have "remove_head_pthread_list k h st = Some (Some p, Some q, st2)"
      using h t t1 nt nx th Cons tq by (simp add: remove_head_pthread_list_def st1_def st2_def)
    moreover have "dlist (pl_nx k st2) (pl_pr k st2) (Some q) xs"
    proof -
      have "dlist (pl_nx k st) ((pl_pr k st)(q := None)) (Some q) xs"
        using d1 nx pr Cons by (simp add: set_next_def)
      then show ?thesis using dis nx2 pr2 by (auto elim!: dlist_frame)
    qed
    moreover have "\<forall>x\<in>set xs. pl_this (get_pl k (the (threads st2 x))) = Some x"
      using th t tq dis by (auto simp: st2_def st1_def)
    moreover have "set xs \<subseteq> dom (threads st2)" using sub by (auto simp: st2_def st1_def)
    moreover have "pl_free k st2 p" using th t by (auto simp: pl_free_def st2_def)
    ultimately show ?thesis by (intro exI [of _ st2] exI [of _ "Some q"]) (simp add: pthread_list_def)
  qed
qed

text \<open>The lists depend on the nodes of the threads only, the scheduler's invariant on the threads and the queues.\<close>

lemma pthread_list_cong:
  assumes "\<forall>a. map_option (get_pl k) (threads st' a) = map_option (get_pl k) (threads st a)"
  shows "pthread_list k st' = pthread_list k st" "pl_free k st' = pl_free k st"
proof -
  have "pl_nx k st' a = pl_nx k st a \<and> pl_pr k st' a = pl_pr k st a" for a
    using assms [rule_format, of a]
    by (cases "threads st' a"; cases "threads st a") (auto simp: pl_nx_def pl_pr_def)
  then have v: "pl_nx k st' = pl_nx k st" "pl_pr k st' = pl_pr k st" by auto
  have dom: "a \<in> dom (threads st') \<longleftrightarrow> a \<in> dom (threads st)" for a
    using assms by (metis domIff map_option_is_None)
  have g: "get_pl k (the (threads st' a)) = get_pl k (the (threads st a))" if "a \<in> dom (threads st)" for a
    using assms [rule_format, of a] that dom [of a] by auto
  have "dom (threads st') = dom (threads st)" using dom by blast
  then show "pthread_list k st' = pthread_list k st"
    using g v by (intro ext) (auto simp: pthread_list_def subset_iff)
  have "pl_free k st' a = pl_free k st a" for a
    using assms [rule_format, of a]
    by (cases "threads st' a"; cases "threads st a") (auto simp: pl_free_def)
  then show "pl_free k st' = pl_free k st" by auto
qed

lemma only_thread_lists:
  assumes "only_thread th st st'"
  shows "pthread_list k st' = pthread_list k st" "pl_free k st' = pl_free k st"
  using pthread_list_cong [of k st' st] assms by (simp_all add: only_thread_def)

lemma only_thread_objects:
  "only_thread th st st' \<Longrightarrow> sems st' = sems st \<and> mutexes st' = mutexes st \<and> conds st' = conds st \<and>
   saved_flags st' = saved_flags st"
  unfolding only_thread_def by (cases st; cases st') auto

lemma only_thread_state:
  assumes "only_thread th st st'" "a \<noteq> th"
  shows "map_option GET_THREAD_STATE (threads st' a) = map_option GET_THREAD_STATE (threads st a)"
    "map_option prio_th (threads st' a) = map_option prio_th (threads st a)"
proof -
  have "map_option ss_strip (threads st' a) = map_option ss_strip (threads st a)"
    using assms by (simp add: only_thread_def)
  moreover have "GET_THREAD_STATE t = GET_THREAD_STATE (ss_strip t)" "prio_th t = prio_th (ss_strip t)" for t
    by (simp_all add: GET_THREAD_STATE_def prio_th_def ss_strip_def)
  ultimately show "map_option GET_THREAD_STATE (threads st' a) = map_option GET_THREAD_STATE (threads st a)"
    "map_option prio_th (threads st' a) = map_option prio_th (threads st a)"
    by (metis (no_types, lifting) map_option_cong option.map_comp comp_apply)+
qed

lemma sched_inv_core:
  assumes "threads st' = threads st" "active_threads st' = active_threads st"
  shows "sched_inv st' = sched_inv st"
proof -
  have "ready_queues st' = ready_queues st" "detached st' = detached st"
    by (rule queues_eqI; simp add: mx_def mp_def ssv_def fun_eq_iff assms)+
  then show ?thesis using assms by (simp add: sched_inv_def fun_eq_iff)
qed

text \<open>A switch of the processor changes the times of the threads, not what the objects see of them.\<close>

definition same_view :: "pk_state \<Rightarrow> pk_state \<Rightarrow> bool" where
  "same_view st st' \<longleftrightarrow> sems st' = sems st \<and> mutexes st' = mutexes st \<and> conds st' = conds st \<and>
    idle_thread st' = idle_thread st \<and>
    (\<forall>a k. map_option (get_pl k) (threads st' a) = map_option (get_pl k) (threads st a)) \<and>
    (\<forall>a. map_option GET_THREAD_STATE (threads st' a) = map_option GET_THREAD_STATE (threads st a)) \<and>
    (\<forall>a. map_option prio_th (threads st' a) = map_option prio_th (threads st a))"

lemma same_view_trans: "same_view a b \<Longrightarrow> same_view b c \<Longrightarrow> same_view a c"
  by (simp add: same_view_def)

lemma same_view_eq:
  "threads st' = threads st \<Longrightarrow> sems st' = sems st \<Longrightarrow> mutexes st' = mutexes st \<Longrightarrow> conds st' = conds st \<Longrightarrow>
   idle_thread st' = idle_thread st \<Longrightarrow> same_view st st'"
  by (simp add: same_view_def)

lemma same_view_upd:
  assumes "upd_th a f st = Some st'" "\<And>t k. get_pl k (f t) = get_pl k t"
    "\<And>t. GET_THREAD_STATE (f t) = GET_THREAD_STATE t \<and> prio_th (f t) = prio_th t"
  shows "same_view st st'"
  using assms by (auto simp: upd_th_def bind_eq_Some_conv same_view_def)

lemma scheduling_view:
  assumes "scheduling now1 now2 st = Some st'"
  shows "same_view st st'"
proof (cases "irq_nesting_counter st AND OUTSIDE_IRQS \<noteq> 0")
  case True
  then show ?thesis using assms by (auto simp: scheduling_def Let_def intro: same_view_eq)
next
  case False
  let ?st0 = "st\<lparr>pk_if := False\<rparr>"
  have g: "get_pl k (t\<lparr>used_time := u\<rparr>) = get_pl k t" "get_pl k (t\<lparr>starting_time := u\<rparr>) = get_pl k t" for k t u
    by (cases k; simp)+
  have v: "GET_THREAD_STATE (t\<lparr>used_time := u\<rparr>) = GET_THREAD_STATE t \<and> prio_th (t\<lparr>used_time := u\<rparr>) = prio_th t"
    "GET_THREAD_STATE (t\<lparr>starting_time := u\<rparr>) = GET_THREAD_STATE t \<and> prio_th (t\<lparr>starting_time := u\<rparr>) = prio_th t" for t u
    by (simp_all add: GET_THREAD_STATE_def prio_th_def)
  obtain x h where h: "get_head_ss (active_threads st) = Some (x, h)"
    using assms False by (auto simp: scheduling_def Let_def bind_eq_Some_conv)
  define n0 where "n0 = (if h = None then idle_thread st else h)"
  show ?thesis
  proof (cases "n0 = current_thread st")
    case True
    then have "st' = ?st0\<lparr>irq_nesting_counter := 0, pk_if := pk_if st\<rparr>"
      using assms False h by (cases h) (auto simp: scheduling_def Let_def n0_def bind_eq_Some_conv split: if_splits)
    then show ?thesis by (simp add: same_view_def)
  next
    case ne: False
    obtain c n sta f stb c' st1 where s:
      "upd_th c (\<lambda>t. t\<lparr>used_time := used_time t + (now1 - starting_time t)\<rparr>) ?st0 = Some sta"
      "p_context_switch n (pk_if st) sta = Some (f, stb)"
      "upd_th c' (\<lambda>t. t\<lparr>starting_time := now2\<rparr>) stb = Some st1"
      "st' = st1\<lparr>irq_nesting_counter := 0, pk_if := f\<rparr>"
      using assms False h ne by (auto simp: scheduling_def Let_def bind_eq_Some_conv n0_def split: if_splits)
    have "same_view ?st0 sta" by (rule same_view_upd [OF s(1)]) (simp_all add: g v)
    moreover have "same_view sta stb"
      using s(2) by (auto simp: p_context_switch_def Let_def bind_eq_Some_conv intro: same_view_eq)
    moreover have "same_view stb st1" by (rule same_view_upd [OF s(3)]) (simp_all add: g v)
    ultimately have "same_view ?st0 st1" using same_view_trans by blast
    then show ?thesis unfolding s(4) by (simp add: same_view_def)
  qed
qed

lemma same_view_lists:
  "same_view st st' \<Longrightarrow> pthread_list k st' = pthread_list k st" "same_view st st' \<Longrightarrow> pl_free k st' = pl_free k st"
  using pthread_list_cong [of k st' st] by (simp_all add: same_view_def)

section \<open>Blocking and waking\<close>

lemma dom_state: "a \<in> dom (threads st) \<longleftrightarrow> map_option GET_THREAD_STATE (threads st a) \<noteq> None"
  by auto

text \<open>The caller is suspended and put in front of the waiters.\<close>

lemma block_ok:
  assumes inv: "sched_inv st Q" and t: "threads st c = Some tc" "GET_THREAD_STATE tc \<noteq> FINISHED_THREAD"
    and l: "pthread_list k st h ws" "c \<notin> set ws" "pl_free k st c"
  shows "\<exists>st1 st2. suspend_thread c st = Some st1 \<and> insert_pthread_list k h c st1 = Some (Some c, st2) \<and>
    sched_inv st2 (without c Q) \<and> pthread_list k st2 (Some c) (c # ws) \<and> only_thread c st st1 \<and> links_only st1 st2 \<and>
    map_option GET_THREAD_STATE (threads st2 c) = Some SUSPENDED_THREAD"
proof -
  obtain st1 t1 where s: "suspend_thread c st = Some st1" "only_thread c st st1" "sched_inv st1 (without c Q)"
    "threads st1 c = Some t1" "GET_THREAD_STATE t1 = SUSPENDED_THREAD"
    using suspend_thread_ok [OF inv t] by blast
  have "pthread_list k st1 h ws" "pl_free k st1 c" using l only_thread_lists [OF s(2)] by simp_all
  then obtain st2 where i: "insert_pthread_list k h c st1 = Some (Some c, st2)" "pthread_list k st2 (Some c) (c # ws)"
    using insert_pthread_list_ok l(2) by blast
  have lo: "links_only st1 st2" using insert_list_frame [OF i(1)] by simp
  then have "map_option GET_THREAD_STATE (threads st2 c) = Some SUSPENDED_THREAD"
    using s(4,5) by (simp add: links_only_def)
  then show ?thesis using s i lo insert_pthread_list_inv [OF s(3) i(1)] by blast
qed

lemma block_fields:
  assumes "only_thread c st st1" "links_only st1 st2"
  shows "current_thread st2 = current_thread st" "idle_thread st2 = idle_thread st"
    "irq_nesting_counter st2 = irq_nesting_counter st" "pk_if st2 = pk_if st" "sems st2 = sems st"
    "mutexes st2 = mutexes st" "conds st2 = conds st" "sems st1 = sems st" "mutexes st1 = mutexes st"
    "conds st1 = conds st" "a \<noteq> c \<Longrightarrow> map_option GET_THREAD_STATE (threads st2 a) = map_option GET_THREAD_STATE (threads st a)"
  using only_thread_fields [OF assms(1)] only_thread_objects [OF assms(1)] links_only_fields [OF assms(2)]
    only_thread_state [OF assms(1)] assms(2) by (auto simp: links_only_def)

text \<open>The first waiter leaves the list and becomes ready.\<close>

lemma wake_ok:
  assumes inv: "sched_inv st Q" and l: "pthread_list k st h (w # ws)"
    and t: "threads st w = Some tw" "GET_THREAD_STATE tw = SUSPENDED_THREAD"
  shows "\<exists>h' st1 st2. remove_head_pthread_list k h st = Some (Some w, h', st1) \<and> links_only st st1 \<and>
    activate_thread w st1 = Some st2 \<and> only_thread w st1 st2 \<and>
    sched_inv st2 (Q(level (prio_th tw) := w # Q (level (prio_th tw)))) \<and>
    pthread_list k st2 h' ws \<and> pl_free k st2 w \<and> pthread_list k st1 h' ws \<and> sched_inv st1 Q \<and>
    map_option GET_THREAD_STATE (threads st2 w) = Some READY_THREAD"
proof -
  obtain st1 h' where r: "remove_head_pthread_list k h st = Some (Some w, h', st1)" "pthread_list k st1 h' ws"
    "pl_free k st1 w" using remove_head_ok [OF l] by blast
  have lo: "links_only st st1" "sched_inv st1 Q" using remove_head_frame [OF r(1), of Q] inv by simp_all
  then have "map_option GET_THREAD_STATE (threads st1 w) = Some SUSPENDED_THREAD"
    "map_option prio_th (threads st1 w) = Some (prio_th tw)"
    using t by (simp_all add: links_only_def)
  then obtain t1 where t1: "threads st1 w = Some t1" "GET_THREAD_STATE t1 = SUSPENDED_THREAD" "prio_th t1 = prio_th tw"
    by auto
  then obtain st2 t2 where a: "activate_thread w st1 = Some st2" "only_thread w st1 st2"
    "sched_inv st2 (Q(level (prio_th tw) := w # Q (level (prio_th tw))))" "threads st2 w = Some t2"
    "GET_THREAD_STATE t2 = READY_THREAD"
    using activate_thread_ok [OF lo(2) t1(1)] by auto
  then show ?thesis using r lo only_thread_lists [OF a(2), of k] by auto
qed

text \<open>All waiters leave the list and become ready.\<close>

lemma wake_all_ok:
  assumes "sched_inv st Q" "pthread_list k st h ws"
    "\<forall>w\<in>set ws. map_option GET_THREAD_STATE (threads st w) = Some SUSPENDED_THREAD"
  shows "\<exists>st' Q'. wake_all k h st = Some st' \<and> sched_inv st' Q' \<and>
    (\<forall>w\<in>set ws. map_option GET_THREAD_STATE (threads st' w) = Some READY_THREAD) \<and>
    (\<forall>a. a \<notin> set ws \<longrightarrow> map_option GET_THREAD_STATE (threads st' a) = map_option GET_THREAD_STATE (threads st a)) \<and>
    (\<forall>a. map_option prio_th (threads st' a) = map_option prio_th (threads st a)) \<and>
    sems st' = sems st \<and> mutexes st' = mutexes st \<and> conds st' = conds st \<and>
    current_thread st' = current_thread st \<and> pk_if st' = pk_if st"
  using assms
proof (induction ws arbitrary: st Q h)
  case Nil
  then have "h = None" by (auto simp: pthread_list_def dest: dlist_head)
  then have "wake_all k h st = Some st" by (subst wake_all.simps) (simp add: remove_head_pthread_list_def)
  then show ?case using Nil by auto
next
  case (Cons w ws)
  obtain tw where tw: "threads st w = Some tw" "GET_THREAD_STATE tw = SUSPENDED_THREAD" using Cons.prems(3) by auto
  have dis: "distinct (w # ws)" using Cons.prems(2) by (simp add: pthread_list_def dlist_def)
  obtain h' st1 st2 where s: "remove_head_pthread_list k h st = Some (Some w, h', st1)" "links_only st st1"
    "activate_thread w st1 = Some st2" "only_thread w st1 st2"
    "sched_inv st2 (Q(level (prio_th tw) := w # Q (level (prio_th tw))))" "pthread_list k st2 h' ws"
    "map_option GET_THREAD_STATE (threads st2 w) = Some READY_THREAD" using wake_ok [OF Cons.prems(1,2) tw] by blast
  have o: "map_option GET_THREAD_STATE (threads st2 a) = map_option GET_THREAD_STATE (threads st a)" if "a \<noteq> w" for a
    using only_thread_state [OF s(4) that] s(2) by (simp add: links_only_def)
  have p: "map_option prio_th (threads st2 a) = map_option prio_th (threads st a)" for a
  proof (cases "a = w")
    case True
    obtain t1 where t1: "threads st1 w = Some t1" "prio_th t1 = prio_th tw" "GET_THREAD_STATE t1 = SUSPENDED_THREAD"
      using s(2) tw by (auto simp: links_only_def map_option_eq_Some dest!: spec [of _ w])
    have "sched_inv st1 Q" using remove_head_frame [OF s(1), of Q] Cons.prems(1) by simp
    from activate_thread_ok [OF this t1(1)] show ?thesis using True t1 tw s(3) by auto
  next
    case False
    then show ?thesis using only_thread_state [OF s(4)] s(2) by (simp add: links_only_def)
  qed
  have f: "sems st2 = sems st" "mutexes st2 = mutexes st" "conds st2 = conds st"
    "current_thread st2 = current_thread st" "pk_if st2 = pk_if st"
    using links_only_fields [OF s(2)] only_thread_objects [OF s(4)] only_thread_fields [OF s(4)] by simp_all
  have "\<forall>v\<in>set ws. map_option GET_THREAD_STATE (threads st2 v) = Some SUSPENDED_THREAD"
    using Cons.prems(3) o dis by fastforce
  from Cons.IH [OF s(5,6) this] obtain st' Q' where r: "wake_all k h' st2 = Some st'" "sched_inv st' Q'"
    "\<forall>v\<in>set ws. map_option GET_THREAD_STATE (threads st' v) = Some READY_THREAD"
    "\<forall>a. a \<notin> set ws \<longrightarrow> map_option GET_THREAD_STATE (threads st' a) = map_option GET_THREAD_STATE (threads st2 a)"
    "\<forall>a. map_option prio_th (threads st' a) = map_option prio_th (threads st2 a)"
    "sems st' = sems st2" "mutexes st' = mutexes st2" "conds st' = conds st2"
    "current_thread st' = current_thread st2" "pk_if st' = pk_if st2" by blast
  have "wake_all k h st = Some st'" using s(1,3) r(1) by (subst wake_all.simps) simp
  then show ?case using r f o p s(7) dis
    by (intro exI [of _ st'] exI [of _ Q']) auto
qed

lemma object_frames [simp]:
  "sched_inv (st\<lparr>sems := v\<rparr>) = sched_inv st" "sched_inv (st\<lparr>mutexes := w\<rparr>) = sched_inv st"
  "sched_inv (st\<lparr>conds := u\<rparr>) = sched_inv st"
  by (rule sched_inv_core; simp)+

lemma object_lists [simp]:
  "pthread_list k (st\<lparr>sems := v\<rparr>) = pthread_list k st" "pthread_list k (st\<lparr>mutexes := w\<rparr>) = pthread_list k st"
  "pthread_list k (st\<lparr>conds := u\<rparr>) = pthread_list k st" "pthread_list k (st\<lparr>pk_if := b\<rparr>) = pthread_list k st"
  "pl_free k (st\<lparr>sems := v\<rparr>) = pl_free k st" "pl_free k (st\<lparr>mutexes := w\<rparr>) = pl_free k st"
  "pl_free k (st\<lparr>conds := u\<rparr>) = pl_free k st" "pl_free k (st\<lparr>pk_if := b\<rparr>) = pl_free k st"
  by (rule pthread_list_cong; simp)+

lemma upd_sem_frame:
  assumes "sems st s = Some m"
  shows "\<exists>st'. upd_sem s f st = Some st' \<and> sems st' s = Some (f m) \<and> sched_inv st' = sched_inv st \<and>
    pthread_list k st' = pthread_list k st \<and> threads st' = threads st \<and> current_thread st' = current_thread st \<and>
    idle_thread st' = idle_thread st \<and> irq_nesting_counter st' = irq_nesting_counter st \<and> pk_if st' = pk_if st \<and>
    saved_flags st' = saved_flags st"
  using assms
  by (intro exI [of _ "st\<lparr>sems := (sems st)(s \<mapsto> f m)\<rparr>"]) (simp add: upd_sem_def)

lemma upd_mutex_frame:
  assumes "mutexes st x = Some m"
  shows "\<exists>st'. upd_mutex x f st = Some st' \<and> mutexes st' x = Some (f m) \<and> sched_inv st' = sched_inv st \<and>
    pthread_list k st' = pthread_list k st \<and> threads st' = threads st \<and> current_thread st' = current_thread st \<and>
    idle_thread st' = idle_thread st \<and> irq_nesting_counter st' = irq_nesting_counter st \<and> pk_if st' = pk_if st \<and>
    saved_flags st' = saved_flags st"
  using assms
  by (intro exI [of _ "st\<lparr>mutexes := (mutexes st)(x \<mapsto> f m)\<rparr>"]) (simp add: upd_mutex_def)

text \<open>The switch away from a thread that blocked.\<close>

lemma switch_ok:
  assumes inv: "sched_inv st Q" and irq: "irq_nesting_counter st AND OUTSIDE_IRQS = 0"
    and c: "current_thread st = Some c" "c \<in> dom (threads st)"
    and i: "idle_thread st = Some i" "i \<in> dom (threads st)"
  shows "\<exists>st' n. scheduling now1 now2 st = Some st' \<and> sched_inv st' Q \<and> chosen Q i n \<and>
    current_thread st' = Some n \<and> same_view st st' \<and> pk_if st' = (if n = c then pk_if st else saved_flags st n)"
proof -
  obtain tc where "threads st c = Some tc" using c(2) by auto
  from scheduling_ok [OF inv irq c(1) this i] obtain st' n where "scheduling now1 now2 st = Some st'" "sched_inv st' Q"
    "chosen Q i n" "current_thread st' = Some n" "pk_if st' = (if n = c then pk_if st else saved_flags st n)" by blast
  then show ?thesis using scheduling_view by blast
qed

lemma not_chosen_without:
  assumes "ready_queues st Q" "chosen (without c Q) i n" "i \<noteq> c"
  shows "n \<noteq> c"
proof -
  have "hd (without c Q p) \<noteq> c" if p: "p < 1024" "without c Q p \<noteq> []" for p
    using set_without [OF assms(1) p(1), of c] hd_in_set [OF p(2)] by auto
  then show ?thesis using assms(2,3) unfolding chosen_def by metis
qed

text \<open>
  A thread may block when the scheduler's invariant holds outside interrupts,
  the thread is the running one, has not finished, is not the idle thread and
  is in no list of the kind.
\<close>

definition may_block :: "plkind \<Rightarrow> nat \<Rightarrow> nat \<Rightarrow> pk_state \<Rightarrow> (nat \<Rightarrow> nat list) \<Rightarrow> bool" where
  "may_block k c i st Q \<longleftrightarrow> sched_inv st Q \<and> irq_nesting_counter st AND OUTSIDE_IRQS = 0 \<and>
     current_thread st = Some c \<and> (\<exists>t. threads st c = Some t \<and> GET_THREAD_STATE t \<noteq> FINISHED_THREAD) \<and>
     pl_free k st c \<and> idle_thread st = Some i \<and> i \<in> dom (threads st) \<and> i \<noteq> c"

lemma sem_wait_blocks_ok:
  assumes b: "may_block SemL c i st Q" and m: "sems st s = Some m" "sem_value m = 0"
    and l: "pthread_list SemL st (sem_list m) ws" "c \<notin> set ws"
  shows "\<exists>st' n. sem_wait_sys now1 now2 (Some s) st = Some (Switched st') \<and> current_thread st' = Some n \<and> n \<noteq> c \<and>
    chosen (without c Q) i n \<and> sched_inv st' (without c Q) \<and>
    map_option GET_THREAD_STATE (threads st' c) = Some SUSPENDED_THREAD \<and>
    sems st' s = Some \<lparr>sem_value = 0, sem_list = Some c\<rparr> \<and> pthread_list SemL st' (Some c) (c # ws) \<and>
    pk_if st' = saved_flags st n"
proof -
  let ?st0 = "st\<lparr>pk_if := False\<rparr>"
  obtain tc where c: "sched_inv st Q" "irq_nesting_counter st AND OUTSIDE_IRQS = 0" "current_thread st = Some c"
    "threads st c = Some tc" "GET_THREAD_STATE tc \<noteq> FINISHED_THREAD" "pl_free SemL st c"
    "idle_thread st = Some i" "i \<in> dom (threads st)" "i \<noteq> c" using b by (auto simp: may_block_def)
  obtain st1 st2 where s: "suspend_thread c ?st0 = Some st1"
    "insert_pthread_list SemL (sem_list m) c st1 = Some (Some c, st2)" "sched_inv st2 (without c Q)"
    "pthread_list SemL st2 (Some c) (c # ws)" "only_thread c ?st0 st1" "links_only st1 st2"
    "map_option GET_THREAD_STATE (threads st2 c) = Some SUSPENDED_THREAD"
    using block_ok [of ?st0 Q c tc SemL "sem_list m" ws] c l by auto
  note f = block_fields [OF s(5,6)]
  have m2: "sems st2 s = Some m" using m f(5) by simp
  obtain st3 where u: "upd_sem s (\<lambda>x. x\<lparr>sem_list := Some c\<rparr>) st2 = Some st3" "sems st3 s = Some (m\<lparr>sem_list := Some c\<rparr>)"
    "sched_inv st3 = sched_inv st2" "pthread_list SemL st3 = pthread_list SemL st2" "threads st3 = threads st2"
    "current_thread st3 = current_thread st2" "idle_thread st3 = idle_thread st2"
    "irq_nesting_counter st3 = irq_nesting_counter st2" "saved_flags st3 = saved_flags st2"
    using upd_sem_frame [OF m2, of "\<lambda>x. x\<lparr>sem_list := Some c\<rparr>" SemL] by blast
  have d: "c \<in> dom (threads st3)" "i \<in> dom (threads st3)"
    using s(7) u(5) f(11) [of i] c(8,9) by (auto simp: dom_state)
  obtain st' n where r: "scheduling now1 now2 st3 = Some st'" "sched_inv st' (without c Q)" "chosen (without c Q) i n"
    "current_thread st' = Some n" "same_view st3 st'" "pk_if st' = (if n = c then pk_if st3 else saved_flags st3 n)"
    using switch_ok [of st3 "without c Q" c i now1 now2] s(3) u f c d by auto
  have n: "n \<noteq> c" using not_chosen_without [OF _ r(3)] c by (auto simp: sched_inv_def)
  have "sem_wait_sys now1 now2 (Some s) st = Some (Switched st')"
    using m c s(1,2) u r n f by (simp add: sem_wait_sys_def sched_then_def)
  moreover have "saved_flags st3 = saved_flags st"
    using u(9) links_only_fields [OF s(6)] only_thread_objects [OF s(5)] by simp
  moreover have "sems st' s = Some \<lparr>sem_value = 0, sem_list = Some c\<rparr>"
    using r(5) u(2) m(2) by (simp add: same_view_def)
  moreover have "map_option GET_THREAD_STATE (threads st' c) = Some SUSPENDED_THREAD"
    using r(5) s(7) u(5) by (simp add: same_view_def)
  ultimately show ?thesis using r n s(4) u(4) same_view_lists(1) [OF r(5), of SemL] by auto
qed

text \<open>What sem_post does to the first waiter, up to the switch.\<close>

lemma sem_post_ok:
  assumes inv: "sched_inv st Q" and irq: "irq_nesting_counter st AND OUTSIDE_IRQS = 0"
    and c: "current_thread st = Some c" "c \<in> dom (threads st)"
    and i: "idle_thread st = Some i" "i \<in> dom (threads st)"
    and m: "sems st s = Some m" "sem_value m = 0" "pthread_list SemL st (sem_list m) (w # ws)"
    and t: "threads st w = Some tw" "GET_THREAD_STATE tw = SUSPENDED_THREAD"
  shows "\<exists>st' n h. sem_post_sys now1 now2 (Some s) st =
      (if n = c then sem_post_rest s (pk_if st) st' else Some (Switched st')) \<and>
    current_thread st' = Some n \<and> chosen (Q(level (prio_th tw) := w # Q (level (prio_th tw)))) i n \<and>
    sched_inv st' (Q(level (prio_th tw) := w # Q (level (prio_th tw)))) \<and>
    map_option GET_THREAD_STATE (threads st' w) = Some READY_THREAD \<and>
    sems st' s = Some \<lparr>sem_value = 0, sem_list = h\<rparr> \<and> pthread_list SemL st' h ws"
proof -
  let ?st0 = "st\<lparr>pk_if := False\<rparr>" and ?Q = "Q(level (prio_th tw) := w # Q (level (prio_th tw)))"
  have "sched_inv ?st0 Q" using inv by simp
  from wake_ok [OF this, of SemL "sem_list m" w ws tw] obtain h st1 st2' where s:
    "remove_head_pthread_list SemL (sem_list m) ?st0 = Some (Some w, h, st1)" "links_only ?st0 st1"
    "pthread_list SemL st1 h ws" "sched_inv st1 Q" using m(3) t by auto
  note f = links_only_fields [OF s(2)]
  have m1: "sems st1 s = Some m" using m(1) f(5) by simp
  obtain st2 where u: "upd_sem s (\<lambda>x. x\<lparr>sem_list := h\<rparr>) st1 = Some st2" "sems st2 s = Some (m\<lparr>sem_list := h\<rparr>)"
    "sched_inv st2 = sched_inv st1" "pthread_list SemL st2 = pthread_list SemL st1" "threads st2 = threads st1"
    "current_thread st2 = current_thread st1" "idle_thread st2 = idle_thread st1"
    "irq_nesting_counter st2 = irq_nesting_counter st1"
    using upd_sem_frame [OF m1, of "\<lambda>x. x\<lparr>sem_list := h\<rparr>" SemL] by blast
  have "map_option GET_THREAD_STATE (threads st2 w) = Some SUSPENDED_THREAD"
    "map_option prio_th (threads st2 w) = Some (prio_th tw)"
    using s(2) t u(5) by (simp_all add: links_only_def)
  then obtain t2 where t2: "threads st2 w = Some t2" "GET_THREAD_STATE t2 = SUSPENDED_THREAD" "prio_th t2 = prio_th tw"
    by auto
  have inv2: "sched_inv st2 Q" using s(4) u(3) by simp
  obtain st3 t3 where a: "activate_thread w st2 = Some st3" "only_thread w st2 st3" "sched_inv st3 ?Q"
    "threads st3 w = Some t3" "GET_THREAD_STATE t3 = READY_THREAD"
    using activate_thread_ok [OF inv2 t2(1)] t2 by auto
  note g = only_thread_fields [OF a(2)] only_thread_objects [OF a(2)]
  have same: "map_option GET_THREAD_STATE (threads st3 x) \<noteq> None" if "x \<in> dom (threads st)" for x
  proof (cases "x = w")
    case False
    then show ?thesis using that only_thread_state(1) [OF a(2)] s(2) u(5) by (auto simp: links_only_def dom_state)
  qed (use a in simp)
  have d: "c \<in> dom (threads st3)" "i \<in> dom (threads st3)"
    unfolding dom_state using same [OF c(2)] same [OF i(2)] by simp_all
  obtain st' n where r: "scheduling now1 now2 st3 = Some st'" "sched_inv st' ?Q" "chosen ?Q i n"
    "current_thread st' = Some n" "same_view st3 st'"
    using switch_ok [of st3 ?Q c i now1 now2] a(3) g f u irq c(1) i(1) d by auto
  have "sem_post_sys now1 now2 (Some s) st = (if n = c then sem_post_rest s (pk_if st) st' else Some (Switched st'))"
    using m s(1) u(1) a(1) r g f u(6) c by (simp add: sem_post_sys_def sched_then_def)
  moreover have "sems st' s = Some \<lparr>sem_value = 0, sem_list = h\<rparr>"
    using r(5) g u(2) m(2) by (simp add: same_view_def)
  moreover have "pthread_list SemL st' h ws"
    using same_view_lists(1) [OF r(5), of SemL] only_thread_lists(1) [OF a(2), of SemL] u(4) s(3) by simp
  moreover have "map_option GET_THREAD_STATE (threads st' w) = Some READY_THREAD"
    using r(5) a(4,5) by (simp add: same_view_def)
  ultimately show ?thesis using r(2,3,4) by blast
qed

lemma mutex_lock_blocks_ok:
  assumes b: "may_block MutexL c i st Q" and m: "mutexes st x = Some m" "m_owner m = Some o1" "o1 \<noteq> c"
    and l: "pthread_list MutexL st (mutex_list m) ws" "c \<notin> set ws"
  shows "\<exists>st' n. pthread_mutex_lock_sys now1 now2 x st = Some (Switched st') \<and> current_thread st' = Some n \<and> n \<noteq> c \<and>
    chosen (without c Q) i n \<and> sched_inv st' (without c Q) \<and>
    map_option GET_THREAD_STATE (threads st' c) = Some SUSPENDED_THREAD \<and>
    mutexes st' x = Some (m\<lparr>mutex_list := Some c\<rparr>) \<and> pthread_list MutexL st' (Some c) (c # ws)"
proof -
  let ?st0 = "st\<lparr>pk_if := False\<rparr>"
  obtain tc where c: "sched_inv st Q" "irq_nesting_counter st AND OUTSIDE_IRQS = 0" "current_thread st = Some c"
    "threads st c = Some tc" "GET_THREAD_STATE tc \<noteq> FINISHED_THREAD" "pl_free MutexL st c"
    "idle_thread st = Some i" "i \<in> dom (threads st)" "i \<noteq> c" using b by (auto simp: may_block_def)
  obtain st1 st2 where s: "suspend_thread c ?st0 = Some st1"
    "insert_pthread_list MutexL (mutex_list m) c st1 = Some (Some c, st2)" "sched_inv st2 (without c Q)"
    "pthread_list MutexL st2 (Some c) (c # ws)" "only_thread c ?st0 st1" "links_only st1 st2"
    "map_option GET_THREAD_STATE (threads st2 c) = Some SUSPENDED_THREAD"
    using block_ok [of ?st0 Q c tc MutexL "mutex_list m" ws] c l by auto
  note f = block_fields [OF s(5,6)]
  have m2: "mutexes st2 x = Some m" using m f(6) by simp
  obtain st3 where u: "upd_mutex x (\<lambda>m. m\<lparr>mutex_list := Some c\<rparr>) st2 = Some st3"
    "mutexes st3 x = Some (m\<lparr>mutex_list := Some c\<rparr>)"
    "sched_inv st3 = sched_inv st2" "pthread_list MutexL st3 = pthread_list MutexL st2" "threads st3 = threads st2"
    "current_thread st3 = current_thread st2" "idle_thread st3 = idle_thread st2"
    "irq_nesting_counter st3 = irq_nesting_counter st2"
    using upd_mutex_frame [OF m2, of "\<lambda>x. x\<lparr>mutex_list := Some c\<rparr>" MutexL] by blast
  have d: "c \<in> dom (threads st3)" "i \<in> dom (threads st3)"
    using s(7) u(5) f(11) [of i] c(8,9) by (auto simp: dom_state)
  obtain st' n where r: "scheduling now1 now2 st3 = Some st'" "sched_inv st' (without c Q)" "chosen (without c Q) i n"
    "current_thread st' = Some n" "same_view st3 st'"
    using switch_ok [of st3 "without c Q" c i now1 now2] s(3) u f c d by auto
  have n: "n \<noteq> c" using not_chosen_without [OF _ r(3)] c by (auto simp: sched_inv_def)
  have "pthread_mutex_lock_sys now1 now2 x st = Some (Switched st')"
    using m c s(1,2) u r n f unfolding pthread_mutex_lock_sys_def by (subst lock_loop.simps) simp
  moreover have "mutexes st' x = Some (m\<lparr>mutex_list := Some c\<rparr>)" using r(5) u(2) by (simp add: same_view_def)
  moreover have "map_option GET_THREAD_STATE (threads st' c) = Some SUSPENDED_THREAD"
    using r(5) s(7) u(5) by (simp add: same_view_def)
  ultimately show ?thesis using r n s(4) u(4) same_view_lists(1) [OF r(5), of MutexL] by auto
qed

section \<open>Properties\<close>

text \<open>C19: sem_wait on a semaphore of value 0 does not return: the caller is suspended, taken out of the
  ready queues and put first in the list of waiters, the value stays 0, and the processor goes to
  the thread of least priority number among the others, or to the idle thread.\<close>
theorem sem_wait_blocks:
  assumes "may_block SemL c i st Q" "sems st s = Some m" "sem_value m = 0"
    "pthread_list SemL st (sem_list m) ws" "c \<notin> set ws"
  shows "\<exists>st' n. sem_wait_sys now1 now2 (Some s) st = Some (Switched st') \<and> current_thread st' = Some n \<and> n \<noteq> c \<and>
    chosen (without c Q) i n \<and> sched_inv st' (without c Q) \<and>
    map_option GET_THREAD_STATE (threads st' c) = Some SUSPENDED_THREAD \<and>
    sems st' s = Some \<lparr>sem_value = 0, sem_list = Some c\<rparr> \<and> pthread_list SemL st' (Some c) (c # ws) \<and>
    pk_if st' = saved_flags st n"
  by (rule sem_wait_blocks_ok [OF assms])

text \<open>C20: sem_post on a semaphore of value 0 with waiters makes the most recent waiter ready, at the head of
  the queue of its priority, and only then schedules: when the poster keeps the processor the value
  becomes 1 and the call returns 0; otherwise the value is still 0 in the thread that runs.\<close>
theorem sem_post_wakes_one:
  assumes "sched_inv st Q" "irq_nesting_counter st AND OUTSIDE_IRQS = 0"
    "current_thread st = Some c" "c \<in> dom (threads st)" "idle_thread st = Some i" "i \<in> dom (threads st)"
    "sems st s = Some m" "sem_value m = 0" "pthread_list SemL st (sem_list m) (w # ws)"
    "threads st w = Some tw" "GET_THREAD_STATE tw = SUSPENDED_THREAD"
  shows "\<exists>st' n h v. sem_post_sys now1 now2 (Some s) st = Some (if n = c then Returned 0 st' else Switched st') \<and>
    current_thread st' = Some n \<and> chosen (Q(level (prio_th tw) := w # Q (level (prio_th tw)))) i n \<and>
    sched_inv st' (Q(level (prio_th tw) := w # Q (level (prio_th tw)))) \<and>
    map_option GET_THREAD_STATE (threads st' w) = Some READY_THREAD \<and>
    sems st' s = Some \<lparr>sem_value = (if n = c then 1 else 0), sem_list = h\<rparr> \<and> pthread_list SemL st' h ws"
proof -
  obtain st' n h where r: "sem_post_sys now1 now2 (Some s) st =
      (if n = c then sem_post_rest s (pk_if st) st' else Some (Switched st'))"
    "current_thread st' = Some n" "chosen (Q(level (prio_th tw) := w # Q (level (prio_th tw)))) i n"
    "sched_inv st' (Q(level (prio_th tw) := w # Q (level (prio_th tw))))"
    "map_option GET_THREAD_STATE (threads st' w) = Some READY_THREAD"
    "sems st' s = Some \<lparr>sem_value = 0, sem_list = h\<rparr>" "pthread_list SemL st' h ws"
    using sem_post_ok [OF assms, of now1 now2] by blast
  show ?thesis
  proof (cases "n = c")
    case True
    obtain st2 where u: "upd_sem s (\<lambda>x. x\<lparr>sem_value := sem_value x + 1\<rparr>) st' = Some st2"
      "sems st2 s = Some \<lparr>sem_value = 1, sem_list = h\<rparr>"
      "sched_inv st2 = sched_inv st'" "pthread_list SemL st2 = pthread_list SemL st'" "threads st2 = threads st'"
      "current_thread st2 = current_thread st'"
      using upd_sem_frame [OF r(6), of "\<lambda>x. x\<lparr>sem_value := sem_value x + 1\<rparr>" SemL] by auto
    then have "sem_post_sys now1 now2 (Some s) st = Some (Returned 0 (st2\<lparr>pk_if := pk_if st\<rparr>))"
      using r(1,6) True by (simp add: sem_post_rest_def SEM_VALUE_MAX_def)
    then show ?thesis using True r(2-5,7) u
      by (intro exI [of _ "st2\<lparr>pk_if := pk_if st\<rparr>"] exI [of _ n] exI [of _ h]) simp
  next
    case False
    then show ?thesis using r by auto
  qed
qed

text \<open>C22: a semaphore lets its waiter through more than once: when the waiter that sem_post wakes takes the
  processor from the poster, it leaves sem_wait with the value -1, and its next sem_wait returns at
  once with the value -2, although one unit was posted.\<close>
theorem sem_post_lets_waiter_twice:
  assumes "sched_inv st Q" "irq_nesting_counter st AND OUTSIDE_IRQS = 0"
    "current_thread st = Some c" "c \<in> dom (threads st)" "idle_thread st = Some i" "i \<in> dom (threads st)"
    "sems st s = Some m" "sem_value m = 0" "pthread_list SemL st (sem_list m) (w # ws)"
    "threads st w = Some tw" "GET_THREAD_STATE tw = SUSPENDED_THREAD"
    and hi: "\<forall>p<level (prio_th tw). Q p = []" "w \<noteq> c"
  shows "\<exists>st1 st2 st3 h. sem_post_sys now1 now2 (Some s) st = Some (Switched st1) \<and> current_thread st1 = Some w \<and>
    sem_wait_rest s fl st1 = Some (Returned 0 st2) \<and>
    sem_wait_sys now3 now4 (Some s) st2 = Some (Returned 0 st3) \<and> current_thread st3 = Some w \<and>
    sems st2 s = Some \<lparr>sem_value = - 1, sem_list = h\<rparr> \<and> sems st3 s = Some \<lparr>sem_value = - 2, sem_list = h\<rparr>"
proof -
  let ?p = "level (prio_th tw)"
  obtain st' n h where r: "sem_post_sys now1 now2 (Some s) st =
      (if n = c then sem_post_rest s (pk_if st) st' else Some (Switched st'))"
    "current_thread st' = Some n" "chosen (Q(?p := w # Q ?p)) i n"
    "sems st' s = Some \<lparr>sem_value = 0, sem_list = h\<rparr>"
    using sem_post_ok [OF assms(1-11), of now1 now2] by blast
  have "n = w"
  proof -
    obtain p where p: "(Q(?p := w # Q ?p)) p \<noteq> []" "n = hd ((Q(?p := w # Q ?p)) p)" "\<forall>q<p. (Q(?p := w # Q ?p)) q = []"
      using r(3) unfolding chosen_def by (metis fun_upd_same level_less list.distinct(1))
    have "\<not> p < ?p" using p(1) hi(1) by auto
    moreover have "\<not> ?p < p" using p(3) by (metis fun_upd_same list.distinct(1))
    ultimately show ?thesis using p(2) by simp
  qed
  then show ?thesis using r hi(2) by (simp add: sem_wait_rest_def sem_wait_sys_def upd_sem_def)
qed

text \<open>A thread that locks a mutex owned by another thread does not return from the call: it is
  suspended and put first in the list of the mutex, the owner and the count stay, and another
  thread runs.\<close>
theorem mutex_lock_blocks:
  assumes "may_block MutexL c i st Q" "mutexes st x = Some m" "m_owner m = Some o1" "o1 \<noteq> c"
    "pthread_list MutexL st (mutex_list m) ws" "c \<notin> set ws"
  shows "\<exists>st' n. pthread_mutex_lock_sys now1 now2 x st = Some (Switched st') \<and> current_thread st' = Some n \<and> n \<noteq> c \<and>
    chosen (without c Q) i n \<and> sched_inv st' (without c Q) \<and>
    map_option GET_THREAD_STATE (threads st' c) = Some SUSPENDED_THREAD \<and>
    mutexes st' x = Some (m\<lparr>mutex_list := Some c\<rparr>) \<and> pthread_list MutexL st' (Some c) (c # ws)"
  by (rule mutex_lock_blocks_ok [OF assms])

text \<open>C21: unlock by the owner of a mutex without priority protection, not recursive or at its last level,
  frees it, empties its list and makes every waiter ready; it does not schedule, so the caller keeps
  the processor even when a waiter has a better priority.\<close>
theorem mutex_unlock_wakes_all:
  assumes "sched_inv st Q" "mutexes st x = Some m" "m_owner m = Some c" "current_thread st = Some c"
    "c \<in> dom (threads st)" "pthread_list MutexL st (mutex_list m) ws"
    "\<forall>w\<in>set ws. map_option GET_THREAD_STATE (threads st w) = Some SUSPENDED_THREAD"
    and ty: "ma_type (m_attr m) = PTHREAD_MUTEX_RECURSIVE \<Longrightarrow> counter m \<le> 1"
    and pr: "prio_protection (m_attr m) \<noteq> PTHREAD_PRIO_PROTECT"
  shows "\<exists>st' Q'. pthread_mutex_unlock_sys now1 now2 x st = Some (Returned 0 st') \<and> sched_inv st' Q' \<and>
    mutexes st' x = Some (m\<lparr>m_owner := None, counter := 0, mutex_list := None\<rparr>) \<and>
    (\<forall>w\<in>set ws. map_option GET_THREAD_STATE (threads st' w) = Some READY_THREAD) \<and>
    (\<forall>a. a \<notin> set ws \<longrightarrow> map_option GET_THREAD_STATE (threads st' a) = map_option GET_THREAD_STATE (threads st a)) \<and>
    current_thread st' = Some c \<and> pk_if st' = pk_if st"
proof -
  let ?st0 = "st\<lparr>pk_if := False\<rparr>" and ?rec = "ma_type (m_attr m) = PTHREAD_MUTEX_RECURSIVE"
  let ?m1 = "if ?rec then m\<lparr>counter := counter m - 1\<rparr> else m"
  define st1 where "st1 = (if ?rec then ?st0\<lparr>mutexes := (mutexes st)(x \<mapsto> m\<lparr>counter := counter m - 1\<rparr>)\<rparr> else ?st0)"
  have s1: "mutexes st1 x = Some ?m1" "sched_inv st1 Q" "pthread_list MutexL st1 (mutex_list m) ws"
    "threads st1 = threads st" "current_thread st1 = current_thread st" "pk_if st1 = False"
    using assms by (simp_all add: st1_def)
  obtain st2 Q' where w: "wake_all MutexL (mutex_list m) st1 = Some st2" "sched_inv st2 Q'"
    "\<forall>w\<in>set ws. map_option GET_THREAD_STATE (threads st2 w) = Some READY_THREAD"
    "\<forall>a. a \<notin> set ws \<longrightarrow> map_option GET_THREAD_STATE (threads st2 a) = map_option GET_THREAD_STATE (threads st a)"
    "\<forall>a. map_option prio_th (threads st2 a) = map_option prio_th (threads st a)"
    "mutexes st2 = mutexes st1" "current_thread st2 = current_thread st"
    using wake_all_ok [OF s1(2,3)] assms(7) s1(4,5) by auto
  let ?m2 = "?m1\<lparr>mutex_list := None, m_owner := None, counter := 0\<rparr>"
  let ?st3 = "st2\<lparr>mutexes := (mutexes st2)(x \<mapsto> ?m2)\<rparr>"
  have "map_option prio_th (threads st2 c) \<noteq> None" using w(5) assms(5) by (metis domIff map_option_is_None)
  then obtain tc where tc: "threads st2 c = Some tc" by auto
  have m2: "mutexes st2 x = Some ?m1" using w(6) s1(1) by simp
  have "pthread_mutex_unlock_sys now1 now2 x st = Some (Returned 0 (?st3\<lparr>pk_if := pk_if st\<rparr>))"
  proof (cases ?rec)
    case True
    then show ?thesis using assms ty pr w(1) m2 tc
      by (simp add: pthread_mutex_unlock_sys_def upd_mutex_def restore_if_def st1_def)
  next
    case False
    then show ?thesis using assms ty pr w(1) m2 tc
      by (simp add: pthread_mutex_unlock_sys_def upd_mutex_def restore_if_def st1_def)
  qed
  then show ?thesis using w assms(4) by (intro exI [of _ "?st3\<lparr>pk_if := pk_if st\<rparr>"] exI [of _ Q']) simp
qed

text \<open>Trylock of a free recursive mutex leaves its count at 0, so that one unlock after a trylock and a
  lock of the same thread already frees the mutex, while after two locks the thread still owns it.\<close>
theorem recursive_trylock_miscounts:
  assumes "mutexes st x = Some m" "m_owner m = None" "counter m = 0" "mutex_list m = None"
    "ma_type (m_attr m) = PTHREAD_MUTEX_RECURSIVE" "prio_protection (m_attr m) \<noteq> PTHREAD_PRIO_PROTECT"
    "current_thread st = Some c" "c \<in> dom (threads st)"
  shows "(\<exists>st1 st2 st3 m3. pthread_mutex_trylock_sys n1 n2 x st = Some (Returned 0 st1) \<and>
      pthread_mutex_lock_sys n3 n4 x st1 = Some (Returned 0 st2) \<and>
      pthread_mutex_unlock_sys n5 n6 x st2 = Some (Returned 0 st3) \<and> mutexes st3 x = Some m3 \<and> m_owner m3 = None) \<and>
    (\<exists>st1 st2 st3 m3. pthread_mutex_lock_sys n1 n2 x st = Some (Returned 0 st1) \<and>
      pthread_mutex_lock_sys n3 n4 x st1 = Some (Returned 0 st2) \<and>
      pthread_mutex_unlock_sys n5 n6 x st2 = Some (Returned 0 st3) \<and> mutexes st3 x = Some m3 \<and> m_owner m3 = Some c)"
  using assms
  by (intro conjI; auto simp: pthread_mutex_trylock_sys_def pthread_mutex_lock_sys_def pthread_mutex_unlock_sys_def
      lock_loop.simps wake_all.simps mutex_ceiling_def upd_mutex_def restore_if_def remove_head_pthread_list_def
      PTHREAD_MUTEX_RECURSIVE_def PTHREAD_MUTEX_ERRORCHECK_def)

section \<open>Witnesses\<close>

text \<open>Thread 1 runs and is idle; thread 2 waits for the semaphore 7 and for the mutex 7, which thread 1 owns.\<close>

definition demo_mutex :: pthread_mutex_t where
  "demo_mutex = PTHREAD_MUTEX_INITIALIZER\<lparr>m_attr := \<lparr>prio_protection = 0, ma_prio = 0,
     ma_type = PTHREAD_MUTEX_RECURSIVE, owner_prio = 0\<rparr>\<rparr>"

definition demo_waiting :: pk_state where
  "demo_waiting = demo_pk\<lparr>sems := [7 \<mapsto> \<lparr>sem_value = 0, sem_list = Some 2\<rparr>],
     mutexes := [7 \<mapsto> demo_mutex\<lparr>m_owner := Some 1, counter := 1, mutex_list := Some 2\<rparr>, 8 \<mapsto> demo_mutex]\<rparr>"

lemma demo_lists:
  "pthread_list k demo_pk (Some 2) [2]" "pthread_list k demo_pk None []" "a \<in> {1, 2, 3} \<Longrightarrow> pl_free k demo_pk a"
  by (cases k; auto simp: pthread_list_def demo_pk_def demo_thread_def zero_pl_def pl_free_def pl_nx_def pl_pr_def
      intro!: dlist_single)+

lemma demo_waiting_fields:
  "sched_inv demo_waiting (\<lambda>_. [])" "current_thread demo_waiting = Some 1" "idle_thread demo_waiting = Some 1"
  "irq_nesting_counter demo_waiting = 0" "threads demo_waiting = threads demo_pk"
  "pthread_list k demo_waiting (Some 2) [2]"
  "sems demo_waiting 7 = Some \<lparr>sem_value = 0, sem_list = Some 2\<rparr>"
  "mutexes demo_waiting 7 = Some (demo_mutex\<lparr>m_owner := Some 1, counter := 1, mutex_list := Some 2\<rparr>)"
  "mutexes demo_waiting 8 = Some demo_mutex"
  using demo_sched demo_fields demo_lists by (simp_all add: demo_waiting_def)

text \<open>Thread 2 runs, the semaphore has value 0 and no waiter, thread 1 owns the mutex 7.\<close>

lemma demo_block:
  "\<exists>st. may_block k 2 1 st ((\<lambda>_. [])(5 := [2])) \<and> sems st 7 = Some \<lparr>sem_value = 0, sem_list = None\<rparr> \<and>
    mutexes st 7 = Some (demo_mutex\<lparr>m_owner := Some 1\<rparr>) \<and> pthread_list k st None []"
proof -
  obtain st t where s: "activate_thread 2 demo_pk = Some st" "sched_inv st ((\<lambda>_. [])(5 := [2]))"
    "only_thread 2 demo_pk st" "threads st 2 = Some t" "GET_THREAD_STATE t = READY_THREAD" using demo_active_2 by blast
  let ?st = "st\<lparr>current_thread := Some 2, sems := [7 \<mapsto> \<lparr>sem_value = 0, sem_list = None\<rparr>],
    mutexes := [7 \<mapsto> demo_mutex\<lparr>m_owner := Some 1\<rparr>]\<rparr>"
  have "pl_free k st 2" using only_thread_lists(2) [OF s(3)] demo_lists by simp
  then have f: "pl_free k (st\<lparr>current_thread := Some 2\<rparr>) 2" by (simp add: pl_free_def)
  have "1 \<in> dom (threads st)"
    unfolding dom_state using only_thread_state(1) [OF s(3), of 1] demo_fields by auto
  then have "may_block k 2 1 ?st ((\<lambda>_. [])(5 := [2]))"
    using s f only_thread_fields [OF s(3)] demo_fields by (auto simp: may_block_def)
  moreover have "pthread_list k ?st None []" by (simp add: pthread_list_def)
  ultimately show ?thesis by (intro exI [of _ ?st]) simp
qed

lemma sem_wait_blocks_witness:
  "\<exists>st st' n. sem_wait_sys 1 2 (Some 7) st = Some (Switched st') \<and> current_thread st' = Some n \<and> n \<noteq> 2 \<and>
    sems st' 7 = Some \<lparr>sem_value = 0, sem_list = Some 2\<rparr>"
proof -
  obtain st where s: "may_block SemL 2 1 st ((\<lambda>_. [])(5 := [2]))" "sems st 7 = Some \<lparr>sem_value = 0, sem_list = None\<rparr>"
    "pthread_list SemL st None []" using demo_block by blast
  show ?thesis using sem_wait_blocks [OF s(1,2), of "[]" 1 2] s(3) by auto
qed

lemma sem_post_wakes_one_witness:
  "\<exists>st'. sem_post_sys 1 2 (Some 7) demo_waiting = Some (Switched st') \<and> current_thread st' \<noteq> Some 1"
  using sem_post_wakes_one [OF demo_waiting_fields(1) _ demo_waiting_fields(2) _ demo_waiting_fields(3) _
      demo_waiting_fields(7), of 2 "[]" "demo_thread 2 5" 1 2]
  by (auto simp: demo_waiting_fields demo_fields level_5 chosen_def split: if_splits)

lemma sem_post_lets_waiter_twice_witness:
  "\<exists>st1 st2 h. sem_post_sys 1 2 (Some 7) demo_waiting = Some (Switched st1) \<and>
    sem_wait_rest 7 True st1 = Some (Returned 0 st2) \<and> sems st2 7 = Some \<lparr>sem_value = - 1, sem_list = h\<rparr>"
  using sem_post_lets_waiter_twice [OF demo_waiting_fields(1) _ demo_waiting_fields(2) _ demo_waiting_fields(3) _
      demo_waiting_fields(7), of 2 "[]" "demo_thread 2 5" 1 2 True 3 4]
  by (auto simp: demo_waiting_fields demo_fields)

lemma mutex_lock_blocks_witness:
  "\<exists>st st' n. pthread_mutex_lock_sys 1 2 7 st = Some (Switched st') \<and> current_thread st' = Some n \<and> n \<noteq> 2"
proof -
  obtain st where s: "may_block MutexL 2 1 st ((\<lambda>_. [])(5 := [2]))" "mutexes st 7 = Some (demo_mutex\<lparr>m_owner := Some 1\<rparr>)"
    "pthread_list MutexL st None []" using demo_block by blast
  show ?thesis using mutex_lock_blocks [OF s(1,2), of 1 "[]" 1 2] s(3)
    by (auto simp: demo_mutex_def PTHREAD_MUTEX_INITIALIZER_def)
qed

lemma mutex_unlock_wakes_all_witness:
  "\<exists>st'. pthread_mutex_unlock_sys 1 2 7 demo_waiting = Some (Returned 0 st') \<and>
    map_option GET_THREAD_STATE (threads st' 2) = Some READY_THREAD"
  using mutex_unlock_wakes_all [OF demo_waiting_fields(1,8), of 1 "[2]" 1 2] demo_waiting_fields(6) [of MutexL]
  by (auto simp: demo_waiting_fields demo_fields demo_mutex_def PTHREAD_PRIO_PROTECT_def)

lemma recursive_trylock_miscounts_witness:
  "\<exists>st1 st2 st3 m3. pthread_mutex_trylock_sys 1 2 8 demo_waiting = Some (Returned 0 st1) \<and>
      pthread_mutex_lock_sys 3 4 8 st1 = Some (Returned 0 st2) \<and>
      pthread_mutex_unlock_sys 5 6 8 st2 = Some (Returned 0 st3) \<and> mutexes st3 8 = Some m3 \<and> m_owner m3 = None"
  using recursive_trylock_miscounts [OF demo_waiting_fields(9), of 1 1 2 3 4 5 6]
  by (auto simp: demo_waiting_fields demo_fields demo_mutex_def PTHREAD_MUTEX_INITIALIZER_def PTHREAD_PRIO_PROTECT_def)

end
