(* ===== verification/PThread.thy ===== *)
theory PThread
  imports PSync
begin

unbundle bit_operations_syntax

text \<open>
  The life of PaRTiKle's threads (core/kernel/port/pthread.c, rtl.c, stack.c,
  errno.c): creation, join, detach, exit, cancellation, cleanup handlers,
  scheduling parameters and thread-specific data.  Functions of the application
  are a parameter: run a v st calls the function at address a with the argument
  v.  Buffers written for the caller are returned with the result, None when
  nothing is written.  The pointers of malloc_ex are parameters.
\<close>

type_synonym user_code = "nat \<Rightarrow> nat \<Rightarrow> pk_state \<Rightarrow> nat outcome option"

definition MIN_SCHED_PRIORITY :: int where "MIN_SCHED_PRIORITY = 1023"
definition MAX_SCHED_PRIORITY :: int where "MAX_SCHED_PRIORITY = 0"
definition SCHED_FIFO :: int where "SCHED_FIFO = 0"
definition STACK_SIZE :: nat where "STACK_SIZE = 16 * 1024"
definition MAX_PTHREAD_KEYS :: nat where "MAX_PTHREAD_KEYS = 10"
definition MAX_CLEANUP_HANDLERS :: int where "MAX_CLEANUP_HANDLERS = 8"
definition CANCEL_SIGNAL :: int where "CANCEL_SIGNAL = 1"

definition get_errno_sys :: "pk_state \<Rightarrow> int option" where
  "get_errno_sys st = do { c \<leftarrow> current_thread st; t \<leftarrow> threads st c; Some (pt_errno t) }"

text \<open>The end of the application: interrupts are off and the status is reported.\<close>

definition exit_sys :: "int \<Rightarrow> pk_state \<Rightarrow> 'a outcome option" where
  "exit_sys status st = Some (Halted status (st\<lparr>pk_if := False\<rparr>))"

section \<open>Creation\<close>

record pthread_attr_t =
  at_stack_size :: nat
  at_stack_addr :: nat
  at_policy :: int
  at_sched_param :: sched_param
  at_detachstate :: int

definition bad_attr :: "pthread_attr_t option \<Rightarrow> bool" where
  "bad_attr attr = (case attr of None \<Rightarrow> False
     | Some a \<Rightarrow> at_policy a \<noteq> SCHED_FIFO \<or>
         sched_priority (at_sched_param a) > MIN_SCHED_PRIORITY \<or>
         sched_priority (at_sched_param a) < MAX_SCHED_PRIORITY)"

definition configure_thread :: "pthread_attr_t option \<Rightarrow> pthread_struct \<Rightarrow> pthread_struct" where
  "configure_thread attr t = (case attr of
     Some a \<Rightarrow> SET_THREAD_POLICY (word_of_int (at_policy a)) (SET_THREAD_DETACH_STATE (at_detachstate a \<noteq> 0)
       (t\<lparr>pt_sched_param := at_sched_param a,
          stack_info := \<lparr>stack_bottom = at_stack_addr a, stack_size = at_stack_size a\<rparr>\<rparr>))
   | None \<Rightarrow> SET_THREAD_POLICY (word_of_int SCHED_FIFO) (SET_THREAD_DETACH_STATE False
       (t\<lparr>pt_sched_param := (pt_sched_param t)\<lparr>sched_priority := MIN_SCHED_PRIORITY\<rparr>,
          stack_info := \<lparr>stack_bottom = 0, stack_size = STACK_SIZE\<rparr>\<rparr>)))"

text \<open>mem is the result of malloc_ex, 0 for NULL.\<close>

definition alloc_stack :: "nat \<Rightarrow> stack_struct \<Rightarrow> int \<times> stack_struct" where
  "alloc_stack mem s = (if mem = 0 then (-1, s\<lparr>stack_bottom := 0\<rparr>) else (0, s\<lparr>stack_bottom := mem\<rparr>))"

text \<open>
  The words pushed below the top of the stack, from the lowest address, and
  the stack pointer in bytes; startup_addr is the address of startup.
\<close>

definition setup_stack :: "nat \<Rightarrow> nat \<Rightarrow> nat \<Rightarrow> nat \<Rightarrow> nat list \<times> nat" where
  "setup_stack startup_addr stack start_routine args =
     ([startup_addr, 0, start_routine, args], stack - 4 * 4)"

definition create_stack :: "nat \<Rightarrow> nat \<Rightarrow> pk_state \<Rightarrow> (int \<times> pk_state) option" where
  "create_stack smem a st = do {
     t \<leftarrow> threads st a;
     if stack_bottom (stack_info t) = 0 then do {
       let rs = alloc_stack smem (stack_info t);
       st1 \<leftarrow> upd_th a (\<lambda>t. t\<lparr>stack_info := snd rs\<rparr>) st;
       Some (fst rs, st1) }
     else Some (0, st) }"

text \<open>
  The thread pointer written for the caller comes first; create_ret is the end
  of the call after the switch.
\<close>

definition create_ret :: "pk_state \<Rightarrow> int outcome option" where
  "create_ret st = Some (Returned 0 st)"

definition pthread_create_sys ::
  "time_ns \<Rightarrow> time_ns \<Rightarrow> nat option \<Rightarrow> nat \<Rightarrow> nat \<Rightarrow> pthread_attr_t option \<Rightarrow> nat \<Rightarrow> nat \<Rightarrow> pk_state \<Rightarrow>
    (nat option option \<times> int outcome) option" where
  "pthread_create_sys now1 now2 mem smem startup_addr attr start_routine args st = do {
     let flags = pk_if st;
     let st0 = st\<lparr>pk_if := False\<rparr>;
     if bad_attr attr then do { r \<leftarrow> fails EINVAL st0; Some (None, r) }
     else do {
       (th, st1) \<leftarrow> create_pthread_struct mem st0;
       (case th of
          None \<Rightarrow> do {
            st2 \<leftarrow> SET_ERRNO EAGAIN st1;
            Some (Some None, Returned (-1) (st2\<lparr>pk_if := flags\<rparr>)) }
        | Some a \<Rightarrow> do {
            st2 \<leftarrow> upd_th a (configure_thread attr) st1;
            (e, st3) \<leftarrow> create_stack smem a st2;
            if e < 0 then do {
              st4 \<leftarrow> SET_ERRNO EAGAIN st3;
              Some (Some (Some a), Returned (-1) (st4\<lparr>pk_if := flags\<rparr>)) }
            else do {
              st4 \<leftarrow> upd_th a (\<lambda>t. t\<lparr>pt_stack := snd (setup_stack startup_addr
                       (stack_bottom (stack_info t) + 4 * (stack_size (stack_info t) div 4)) start_routine args)\<rparr>) st3;
              st5 \<leftarrow> activate_thread a st4;
              r \<leftarrow> sched_then now1 now2 create_ret (st5\<lparr>pk_if := flags\<rparr>);
              Some (Some (Some a), r) } }) } }"

definition pthread_self_sys :: "pk_state \<Rightarrow> nat option" where
  "pthread_self_sys st = current_thread st"

section \<open>Join, detach, cancel\<close>

text \<open>
  The loop of join; resumed tells that the thread comes back from scheduling,
  where the detach state is tested before the condition of the loop.
\<close>

definition join_end :: "nat \<Rightarrow> bool \<Rightarrow> bool \<Rightarrow> pk_state \<Rightarrow> (int \<times> nat option) outcome option" where
  "join_end th value_ptr flags st = do {
     t \<leftarrow> threads st th;
     st1 \<leftarrow> delete_pthread_struct th st;
     Some (Returned (0, if value_ptr then Some (exit_value t) else None) (st1\<lparr>pk_if := flags\<rparr>)) }"

partial_function (option) join_loop ::
  "time_ns \<Rightarrow> time_ns \<Rightarrow> nat \<Rightarrow> bool \<Rightarrow> bool \<Rightarrow> bool \<Rightarrow> pk_state \<Rightarrow> (int \<times> nat option) outcome option" where
  "join_loop now1 now2 th value_ptr flags resumed st = do {
     t \<leftarrow> threads st th;
     if resumed \<and> GET_THREAD_DETACH_STATE t \<noteq> 0 then do {
       st1 \<leftarrow> SET_ERRNO EINVAL (st\<lparr>pk_if := flags\<rparr>);
       Some (Returned (-1, None) st1) }
     else if GET_THREAD_STATE t = FINISHED_THREAD then join_end th value_ptr flags st
     else do {
       c \<leftarrow> current_thread st;
       st1 \<leftarrow> upd_th th (\<lambda>t. t\<lparr>joining_thread := Some c\<rparr>) st;
       st2 \<leftarrow> suspend_thread c st1;
       st3 \<leftarrow> scheduling now1 now2 st2;
       if current_thread st3 = Some c then join_loop now1 now2 th value_ptr flags True st3
       else Some (Switched st3) } }"

declare join_loop.simps [code]

definition pthread_join_sys ::
  "time_ns \<Rightarrow> time_ns \<Rightarrow> nat option \<Rightarrow> bool \<Rightarrow> pk_state \<Rightarrow> (int \<times> nat option) outcome option" where
  "pthread_join_sys now1 now2 thread value_ptr st = do {
     ok \<leftarrow> valid_thread thread st;
     if \<not> ok then do { st1 \<leftarrow> SET_ERRNO ESRCH st; Some (Returned (-1, None) st1) }
     else do {
       a \<leftarrow> thread;
       t \<leftarrow> threads st a;
       if GET_THREAD_DETACH_STATE t \<noteq> 0 then do { st1 \<leftarrow> SET_ERRNO EINVAL st; Some (Returned (-1, None) st1) }
       else join_loop now1 now2 a value_ptr (pk_if st) False (st\<lparr>pk_if := False\<rparr>) } }"

definition pthread_detach_sys :: "time_ns \<Rightarrow> time_ns \<Rightarrow> nat option \<Rightarrow> pk_state \<Rightarrow> int outcome option" where
  "pthread_detach_sys now1 now2 thread st = do {
     ok \<leftarrow> valid_thread thread st;
     if \<not> ok then fails ESRCH st
     else do {
       a \<leftarrow> thread;
       t \<leftarrow> threads st a;
       if GET_THREAD_DETACH_STATE t \<noteq> 0 then fails EINVAL st
       else do {
         let flags = pk_if st;
         st1 \<leftarrow> upd_th a (SET_THREAD_DETACH_STATE True) (st\<lparr>pk_if := False\<rparr>);
         c \<leftarrow> current_thread st1;
         ct \<leftarrow> threads st1 c;
         j \<leftarrow> joining_thread ct;
         st2 \<leftarrow> activate_thread j st1;
         st3 \<leftarrow> upd_th c (\<lambda>t. t\<lparr>joining_thread := None\<rparr>) st2;
         sched_then now1 now2 create_ret (st3\<lparr>pk_if := flags\<rparr>) } } }"

definition pthread_cancel_sys :: "nat option \<Rightarrow> pk_state \<Rightarrow> (int \<times> pk_state) option" where
  "pthread_cancel_sys thread st = do {
     ok \<leftarrow> valid_thread thread st;
     if \<not> ok then fail_errno ESRCH st
     else do {
       (_, st1) \<leftarrow> pthread_kill_sys thread CANCEL_SIGNAL st;
       Some (0, st1) } }"

definition PTHREAD_CANCEL_DISABLE :: int where "PTHREAD_CANCEL_DISABLE = 1"
definition PTHREAD_CANCEL_ASYNCHRONOUS :: int where "PTHREAD_CANCEL_ASYNCHRONOUS = 1"

definition pthread_setcancelstate_sys :: "int \<Rightarrow> bool \<Rightarrow> pk_state \<Rightarrow> (int \<times> int option \<times> pk_state) option" where
  "pthread_setcancelstate_sys state oldstate st = do {
     c \<leftarrow> current_thread st;
     t \<leftarrow> threads st c;
     let old = (if oldstate then Some (if GET_THREAD_CANCEL_STATE t \<noteq> 0 then PTHREAD_CANCEL_DISABLE else 0) else None);
     st1 \<leftarrow> upd_th c (SET_THREAD_CANCEL_STATE (state = PTHREAD_CANCEL_DISABLE)) st;
     Some (0, old, st1) }"

definition pthread_setcanceltype_sys :: "int \<Rightarrow> bool \<Rightarrow> pk_state \<Rightarrow> (int \<times> int option \<times> pk_state) option" where
  "pthread_setcanceltype_sys type oldtype st = do {
     c \<leftarrow> current_thread st;
     t \<leftarrow> threads st c;
     let old = (if oldtype then Some (if GET_THREAD_CANCEL_TYPE t \<noteq> 0 then PTHREAD_CANCEL_ASYNCHRONOUS else 0) else None);
     st1 \<leftarrow> upd_th c (SET_THREAD_CANCEL_TYPE (type = PTHREAD_CANCEL_ASYNCHRONOUS)) st;
     Some (0, old, st1) }"

section \<open>Cleanup handlers and exit\<close>

definition pthread_cleanup_pop_sys :: "user_code \<Rightarrow> bool \<Rightarrow> pk_state \<Rightarrow> unit outcome option" where
  "pthread_cleanup_pop_sys run execute st = do {
     c \<leftarrow> current_thread st;
     t \<leftarrow> threads st c;
     if top_cr_table t > 0 then do {
       let k = top_cr_table t - 1;
       st1 \<leftarrow> upd_th c (\<lambda>t. t\<lparr>top_cr_table := k\<rparr>) st;
       (routine, arg) \<leftarrow> rd (cleanup_routine_table t) (nat k);
       if execute then andthen (run routine arg st1) (\<lambda>_ s. Some (Returned () s))
       else Some (Returned () st1) }
     else Some (Returned () st) }"

definition pthread_cleanup_push_sys :: "nat \<Rightarrow> nat \<Rightarrow> pk_state \<Rightarrow> pk_state option" where
  "pthread_cleanup_push_sys routine arg st = do {
     c \<leftarrow> current_thread st;
     t \<leftarrow> threads st c;
     if top_cr_table t < MAX_CLEANUP_HANDLERS then do {
       _ \<leftarrow> guard_c (0 \<le> top_cr_table t);
       tab \<leftarrow> wr (cleanup_routine_table t) (nat (top_cr_table t)) (routine, arg);
       upd_th c (\<lambda>t. t\<lparr>cleanup_routine_table := tab, top_cr_table := top_cr_table t + 1\<rparr>) st }
     else Some st }"

text \<open>once_control is the counter at the pointer; the last component tells whether init_routine is called.\<close>

definition pthread_once_sys :: "int option \<Rightarrow> bool \<Rightarrow> pk_state \<Rightarrow> (int \<times> int option \<times> bool \<times> pk_state) option" where
  "pthread_once_sys once_control init_routine st =
    (case once_control of
       Some i \<Rightarrow>
         if \<not> init_routine then do { (r, st1) \<leftarrow> fail_errno EINVAL st; Some (r, once_control, False, st1) }
         else let init = to_s32 (i + 1) in Some (0, Some init, init = 0, st)
     | None \<Rightarrow> do { (r, st1) \<leftarrow> fail_errno EINVAL st; Some (r, None, False, st1) })"

text \<open>The handlers of the thread that exits, in LIFO order; a handler may register others.\<close>

partial_function (option) cleanup_loop :: "user_code \<Rightarrow> pk_state \<Rightarrow> unit outcome option" where
  "cleanup_loop run st = do {
     c \<leftarrow> current_thread st;
     t \<leftarrow> threads st c;
     if top_cr_table t > 0 then do {
       let k = top_cr_table t - 1;
       st1 \<leftarrow> upd_th c (\<lambda>t. t\<lparr>top_cr_table := k\<rparr>) st;
       cr \<leftarrow> rd (cleanup_routine_table t) (nat k);
       r \<leftarrow> run (fst cr) (snd cr) st1;
       (case r of Returned _ st2 \<Rightarrow> cleanup_loop run st2
        | Switched st2 \<Rightarrow> Some (Switched st2) | Halted e st2 \<Rightarrow> Some (Halted e st2)) }
     else Some (Returned () st) }"

declare cleanup_loop.simps [code]

definition exit_end :: "time_ns \<Rightarrow> time_ns \<Rightarrow> nat \<Rightarrow> pk_state \<Rightarrow> unit outcome option" where
  "exit_end now1 now2 value_ptr st = do {
     c \<leftarrow> current_thread st;
     t \<leftarrow> threads st c;
     st1 \<leftarrow> (case joining_thread t of
        Some j \<Rightarrow> if GET_THREAD_DETACH_STATE t = 0 then activate_thread j st else Some st
      | None \<Rightarrow> Some st);
     if mainapp_thread st1 = Some c then exit_sys (to_s32 (int value_ptr)) st1
     else sched_then now1 now2 (\<lambda>s. Some (Returned () s)) st1 }"

definition pthread_exit_sys :: "user_code \<Rightarrow> time_ns \<Rightarrow> time_ns \<Rightarrow> nat \<Rightarrow> pk_state \<Rightarrow> unit outcome option" where
  "pthread_exit_sys run now1 now2 value_ptr st = do {
     c \<leftarrow> current_thread st;
     t \<leftarrow> threads st c;
     st1 \<leftarrow> free_ktimer (sleep_ktimer t) st;
     st2 \<leftarrow> finish_thread c st1;
     st3 \<leftarrow> upd_th c (\<lambda>t. t\<lparr>exit_value := value_ptr\<rparr>) st2;
     andthen (cleanup_loop run st3) (\<lambda>_. exit_end now1 now2 value_ptr) }"

text \<open>The first function of a thread: it runs the start routine and exits with its result.\<close>

definition startup :: "user_code \<Rightarrow> time_ns \<Rightarrow> time_ns \<Rightarrow> time_ns \<Rightarrow> nat \<Rightarrow> nat \<Rightarrow> pk_state \<Rightarrow> unit outcome option" where
  "startup run now now1 now2 start_routine args st = do {
     c \<leftarrow> current_thread st;
     st1 \<leftarrow> upd_th c (\<lambda>t. t\<lparr>starting_time := now\<rparr>) st;
     andthen (run start_routine args (st1\<lparr>pk_if := True\<rparr>)) (pthread_exit_sys run now1 now2) }"

section \<open>Scheduling parameters\<close>

definition pthread_getschedparam_sys ::
  "nat option \<Rightarrow> pk_state \<Rightarrow> (int \<times> (u32 \<times> sched_param) option \<times> pk_state) option" where
  "pthread_getschedparam_sys thread st = do {
     ok \<leftarrow> valid_thread thread st;
     if \<not> ok then do { (r, st1) \<leftarrow> fail_errno ESRCH st; Some (r, None, st1) }
     else do {
       a \<leftarrow> thread;
       t \<leftarrow> threads st a;
       Some (0, Some (GET_THREAD_POLICY t, pt_sched_param t), st) } }"

definition pthread_setschedparam_sys ::
  "time_ns \<Rightarrow> time_ns \<Rightarrow> nat option \<Rightarrow> int \<Rightarrow> sched_param option \<Rightarrow> pk_state \<Rightarrow> int outcome option" where
  "pthread_setschedparam_sys now1 now2 thread policy param st = do {
     ok \<leftarrow> valid_thread thread st;
     if \<not> ok then fails ESRCH st
     else do {
       a \<leftarrow> thread;
       let flags = pk_if st;
       st1 \<leftarrow> upd_th a (SET_THREAD_POLICY (word_of_int policy)) (st\<lparr>pk_if := False\<rparr>);
       (case param of
          None \<Rightarrow> fails EINVAL (st1\<lparr>pk_if := flags\<rparr>)
        | Some p \<Rightarrow> do {
            st2 \<leftarrow> upd_th a (\<lambda>t. t\<lparr>pt_sched_param := p\<rparr>) st1;
            st3 \<leftarrow> change_thread_prio a (sched_priority p) st2;
            sched_then now1 now2 create_ret (st3\<lparr>pk_if := flags\<rparr>) }) } }"

text \<open>rtl.c: the calls that are not of POSIX.\<close>

definition pthread_delete_np_sys :: "time_ns \<Rightarrow> time_ns \<Rightarrow> nat \<Rightarrow> pk_state \<Rightarrow> int outcome option" where
  "pthread_delete_np_sys now1 now2 thread st = do {
     let flags = pk_if st;
     st1 \<leftarrow> upd_th thread (SET_THREAD_CANCEL_STATE True) (st\<lparr>pk_if := False\<rparr>);
     st2 \<leftarrow> upd_th thread (SET_THREAD_CANCEL_TYPE True) st1;
     st3 \<leftarrow> finish_thread thread st2;
     st4 \<leftarrow> delete_pthread_struct thread st3;
     sched_then now1 now2 (restore_if flags 0) st4 }"

definition pthread_setperiod_np_sys :: "nat option \<Rightarrow> timespec \<Rightarrow> pk_state \<Rightarrow> (int \<times> pk_state) option" where
  "pthread_setperiod_np_sys thread v st = do {
     ok \<leftarrow> valid_thread thread st;
     if \<not> ok then fail_errno ESRCH st
     else if tv_sec v < 0 \<or> tv_nsec v < 0 then fail_errno EINVAL st
     else do {
       a \<leftarrow> thread;
       st1 \<leftarrow> upd_th a (\<lambda>t. t\<lparr>pt_sched_param := (pt_sched_param t)
                \<lparr>sp_period := to_s64 (to_u32 (tv_sec v) * NSECS_PER_SEC + tv_nsec v)\<rparr>\<rparr>) st;
       Some (0, st1) } }"

definition pthread_getperiod_np_sys :: "nat option \<Rightarrow> bool \<Rightarrow> pk_state \<Rightarrow> (int \<times> time_ns option \<times> pk_state) option" where
  "pthread_getperiod_np_sys thread period st = do {
     ok \<leftarrow> valid_thread thread st;
     if \<not> ok then do { (r, st1) \<leftarrow> fail_errno ESRCH st; Some (r, None, st1) }
     else if \<not> period then do { (r, st1) \<leftarrow> fail_errno EINVAL st; Some (r, None, st1) }
     else do { a \<leftarrow> thread; t \<leftarrow> threads st a; Some (0, Some (sp_period (pt_sched_param t)), st) } }"

section \<open>Thread-specific data\<close>

definition key_in_use :: "int \<Rightarrow> pk_state \<Rightarrow> bool option" where
  "key_in_use key st =
    (if key < 0 \<or> key > int MAX_PTHREAD_KEYS - 1 then Some False
     else do { k \<leftarrow> rd (keys st) (nat key); Some (in_use k) })"

definition find_free_key :: "common_key_struct list \<Rightarrow> nat option" where
  "find_free_key ks = List.find (\<lambda>k. \<not> in_use (ks ! k)) [0..<MAX_PTHREAD_KEYS]"

definition pthread_key_create_sys :: "bool \<Rightarrow> nat option \<Rightarrow> pk_state \<Rightarrow> (int \<times> int option \<times> pk_state) option" where
  "pthread_key_create_sys key dtor st = do {
     _ \<leftarrow> guard_c (length (keys st) = MAX_PTHREAD_KEYS);
     (case find_free_key (keys st) of
        None \<Rightarrow> do { (r, st1) \<leftarrow> fail_errno EAGAIN st; Some (r, None, st1) }
      | Some k \<Rightarrow> do {
          ks \<leftarrow> wr (keys st) k \<lparr>in_use = True, destructor = dtor\<rparr>;
          Some (0, if key then Some (int k) else None, st\<lparr>keys := ks\<rparr>) }) }"

definition pthread_setspecific_sys :: "int \<Rightarrow> nat \<Rightarrow> pk_state \<Rightarrow> (int \<times> pk_state) option" where
  "pthread_setspecific_sys key v st = do {
     ok \<leftarrow> key_in_use key st;
     if \<not> ok then fail_errno EINVAL st
     else do {
       c \<leftarrow> current_thread st;
       t \<leftarrow> threads st c;
       d \<leftarrow> wr (tsd t) (nat key) v;
       st1 \<leftarrow> upd_th c (\<lambda>t. t\<lparr>tsd := d\<rparr>) st;
       Some (0, st1) } }"

definition pthread_getspecific_sys :: "int \<Rightarrow> pk_state \<Rightarrow> (nat \<times> pk_state) option" where
  "pthread_getspecific_sys key st = do {
     ok \<leftarrow> key_in_use key st;
     if \<not> ok then do { st1 \<leftarrow> SET_ERRNO EINVAL st; Some (0, st1) }
     else do {
       c \<leftarrow> current_thread st;
       t \<leftarrow> threads st c;
       v \<leftarrow> rd (tsd t) (nat key);
       Some (v, st) } }"

definition key_delete_end :: "int \<Rightarrow> pk_state \<Rightarrow> int outcome option" where
  "key_delete_end key st = do {
     ks \<leftarrow> wr (keys st) (nat key) \<lparr>in_use = False, destructor = None\<rparr>;
     Some (Returned 0 (st\<lparr>keys := ks\<rparr>)) }"

definition pthread_key_delete_sys :: "user_code \<Rightarrow> int \<Rightarrow> pk_state \<Rightarrow> int outcome option" where
  "pthread_key_delete_sys run key st = do {
     ok \<leftarrow> key_in_use key st;
     if \<not> ok then fails EINVAL st
     else do {
       k \<leftarrow> rd (keys st) (nat key);
       (case destructor k of
          None \<Rightarrow> key_delete_end key st
        | Some d \<Rightarrow> do {
            c \<leftarrow> current_thread st;
            t \<leftarrow> threads st c;
            v \<leftarrow> rd (tsd t) (nat key);
            andthen (run d v st) (\<lambda>_. key_delete_end key) }) } }"

end
