(* ===== verification/PSignal.thy ===== *)
theory PSignal
  imports PThread
begin

unbundle bit_operations_syntax

text \<open>
  PaRTiKle's signals (core/kernel/port/signal.c): the table of handlers, the
  masks, waiting for a signal and the delivery of the pending ones to the
  running thread.  Signal sets are words of 32 bits.
\<close>

definition SLEEP_SIGNAL :: int where "SLEEP_SIGNAL = 2"
definition WAKEUP_SIGNAL :: int where "WAKEUP_SIGNAL = 3"
definition SIG_BLOCK :: int where "SIG_BLOCK = 0"
definition SIG_SETMASK :: int where "SIG_SETMASK = 1"
definition SIG_UNBLOCK :: int where "SIG_UNBLOCK = 2"

definition sigaddset :: "int \<Rightarrow> u32 \<Rightarrow> u32" where
  "sigaddset signo s = s OR push_bit (nat signo) 1"

definition init_signals :: "pk_state \<Rightarrow> int \<times> pk_state" where
  "init_signals st = (0, st\<lparr>signal_table := (map (\<lambda>s. \<lparr>sa_handler = Some sa_handler_SIG_IGN, sa_mask = sigaddset (int s) 0\<rparr>) [0..<32])
     [nat CANCEL_SIGNAL := \<lparr>sa_handler = Some CANCEL_THREAD_handler, sa_mask = sigaddset CANCEL_SIGNAL 0\<rparr>,
      nat SLEEP_SIGNAL := \<lparr>sa_handler = Some SLEEP_THREAD_handler, sa_mask = sigaddset SLEEP_SIGNAL 0\<rparr>,
      nat WAKEUP_SIGNAL := \<lparr>sa_handler = Some WAKEUP_THREAD_handler, sa_mask = sigaddset WAKEUP_SIGNAL 0\<rparr>]\<rparr>)"

section \<open>The table of handlers and the masks\<close>

text \<open>What is stored for the handler a caller gives, and what a caller is told of a stored one.\<close>

definition store_handler :: "sig_handler option \<Rightarrow> sig_handler option" where
  "store_handler h = (if h = Some SIG_DFL then Some sa_handler_SIG_DFL
     else if h = Some SIG_IGN then Some sa_handler_SIG_IGN else h)"

definition show_handler :: "sig_handler option \<Rightarrow> sig_handler option" where
  "show_handler h = (if h = Some sa_handler_SIG_DFL then Some SIG_DFL
     else if h = Some sa_handler_SIG_IGN then Some SIG_IGN else h)"

definition sigaction_sys ::
  "int \<Rightarrow> signal_table_struct option \<Rightarrow> bool \<Rightarrow> pk_state \<Rightarrow> (int \<times> signal_table_struct option \<times> pk_state) option" where
  "sigaction_sys sig act oact st =
    (if sig < FIRST_USER_SIGNAL \<or> sig \<ge> NRSIGNALS then do { (r, st1) \<leftarrow> fail_errno EINTR st; Some (r, None, st1) }
     else do {
       e \<leftarrow> rd (signal_table st) (nat sig);
       let old = (if oact then Some (e\<lparr>sa_handler := show_handler (sa_handler e)\<rparr>) else None);
       (case act of
          None \<Rightarrow> Some (0, old, st)
        | Some a \<Rightarrow> do {
            tab \<leftarrow> wr (signal_table st) (nat sig) (a\<lparr>sa_handler := store_handler (sa_handler a)\<rparr>);
            Some (0, old, st\<lparr>signal_table := tab\<rparr>) }) })"

definition pthread_sigmask_sys :: "int \<Rightarrow> u32 option \<Rightarrow> bool \<Rightarrow> pk_state \<Rightarrow> (int \<times> u32 option \<times> pk_state) option" where
  "pthread_sigmask_sys how sigs oset st = do {
     c \<leftarrow> current_thread st;
     t \<leftarrow> threads st c;
     let old = (if oset then Some (sigmask t) else None);
     (case sigs of
        None \<Rightarrow> Some (0, old, st)
      | Some s \<Rightarrow>
          if how = SIG_BLOCK then do { st1 \<leftarrow> upd_th c (\<lambda>t. t\<lparr>sigmask := sigmask t OR s\<rparr>) st; Some (0, old, st1) }
          else if how = SIG_SETMASK then do { st1 \<leftarrow> upd_th c (\<lambda>t. t\<lparr>sigmask := s\<rparr>) st; Some (0, old, st1) }
          else if how = SIG_UNBLOCK then do { st1 \<leftarrow> upd_th c (\<lambda>t. t\<lparr>sigmask := sigmask t AND NOT s\<rparr>) st; Some (0, old, st1) }
          else do { (r, st1) \<leftarrow> fail_errno EINVAL st; Some (r, old, st1) }) }"

definition sigpending_sys :: "bool \<Rightarrow> pk_state \<Rightarrow> (int \<times> u32 option) option" where
  "sigpending_sys sigs st = do {
     c \<leftarrow> current_thread st; t \<leftarrow> threads st c;
     Some (0, if sigs then Some (sigpending t) else None) }"

section \<open>Waiting for signals\<close>

definition sigsuspend_rest :: "u32 \<Rightarrow> bool \<Rightarrow> pk_state \<Rightarrow> int outcome option" where
  "sigsuspend_rest old_mask flags st = do {
     c \<leftarrow> current_thread st;
     st1 \<leftarrow> upd_th c (\<lambda>t. t\<lparr>sigmask := old_mask\<rparr>) st;
     Some (Returned 0 (st1\<lparr>pk_if := flags\<rparr>)) }"

definition sigsuspend_sys :: "time_ns \<Rightarrow> time_ns \<Rightarrow> u32 option \<Rightarrow> pk_state \<Rightarrow> int outcome option" where
  "sigsuspend_sys now1 now2 new_mask st = do {
     c \<leftarrow> current_thread st;
     t \<leftarrow> threads st c;
     let flags = pk_if st;
     st1 \<leftarrow> (case new_mask of None \<Rightarrow> Some (st\<lparr>pk_if := False\<rparr>)
             | Some m \<Rightarrow> upd_th c (\<lambda>t. t\<lparr>sigmask := m\<rparr>) (st\<lparr>pk_if := False\<rparr>));
     st2 \<leftarrow> suspend_thread c st1;
     sched_then now1 now2 (sigsuspend_rest (sigmask t) flags) st2 }"

text \<open>
  The signals of set that are pending for the running thread; the lowest one
  is taken.
\<close>

definition awaited :: "u32 \<Rightarrow> pthread_struct \<Rightarrow> u32" where
  "awaited sigs t = sigpending t AND (sigs AND NOT non_maskable_signals)"

definition take_signal :: "nat \<Rightarrow> u32 \<Rightarrow> bool \<Rightarrow> bool \<Rightarrow> pk_state \<Rightarrow> (int \<times> int option) outcome option" where
  "take_signal c pending sig flags st = do {
     let n = p_ffs pending;
     st1 \<leftarrow> upd_th c (\<lambda>t. t\<lparr>sigpending := sigpending t AND NOT (push_bit (nat n) 1)\<rparr>) st;
     Some (Returned (0, if sig then Some n else None) (st1\<lparr>pk_if := flags\<rparr>)) }"

definition sigwait_rest :: "u32 \<Rightarrow> bool \<Rightarrow> bool \<Rightarrow> pk_state \<Rightarrow> (int \<times> int option) outcome option" where
  "sigwait_rest sigs sig flags st = do {
     c \<leftarrow> current_thread st;
     st1 \<leftarrow> upd_th c (SET_THREAD_ACTIVATE_ON_SIGNAL False) st;
     t \<leftarrow> threads st1 c;
     if awaited sigs t \<noteq> 0 then take_signal c (awaited sigs t) sig flags st1
     else do { st2 \<leftarrow> SET_ERRNO EINVAL (st1\<lparr>pk_if := flags\<rparr>); Some (Returned (-1, None) st2) } }"

definition sigwait_sys ::
  "time_ns \<Rightarrow> time_ns \<Rightarrow> u32 option \<Rightarrow> bool \<Rightarrow> pk_state \<Rightarrow> (int \<times> int option) outcome option" where
  "sigwait_sys now1 now2 sigs sig st =
    (case sigs of
       None \<Rightarrow> do { st1 \<leftarrow> SET_ERRNO EINVAL st; Some (Returned (-1, None) st1) }
     | Some s \<Rightarrow> do {
         let flags = pk_if st;
         let st0 = st\<lparr>pk_if := False\<rparr>;
         c \<leftarrow> current_thread st0;
         t \<leftarrow> threads st0 c;
         if awaited s t \<noteq> 0 then take_signal c (awaited s t) sig flags st0
         else do {
           st1 \<leftarrow> upd_th c (SET_THREAD_ACTIVATE_ON_SIGNAL True) st0;
           andthen (sigsuspend_sys now1 now2 (Some s) st1) (\<lambda>_. sigwait_rest s sig flags) } })"

section \<open>Delivery\<close>

text \<open>
  The handlers of the kernel, and the call of one of the application (also of
  the values 1 and 2, were they stored).
\<close>

definition run_handler :: "user_code \<Rightarrow> time_ns \<Rightarrow> time_ns \<Rightarrow> sig_handler \<Rightarrow> nat \<Rightarrow> pk_state \<Rightarrow> unit outcome option" where
  "run_handler run now1 now2 h signal st = (case h of
     sa_handler_SIG_DFL \<Rightarrow> exit_sys (-1) st
   | sa_handler_SIG_IGN \<Rightarrow> Some (Returned () st)
   | WAKEUP_THREAD_handler \<Rightarrow> Some (Returned () st)
   | SLEEP_THREAD_handler \<Rightarrow> do {
       c \<leftarrow> current_thread st;
       st1 \<leftarrow> suspend_thread c st;
       sched_then now1 now2 (\<lambda>s. Some (Returned () s)) st1 }
   | CANCEL_THREAD_handler \<Rightarrow> pthread_exit_sys run now1 now2 0 st
   | SIG_DFL \<Rightarrow> andthen (run 1 signal st) (\<lambda>_ s. Some (Returned () s))
   | SIG_IGN \<Rightarrow> andthen (run 2 signal st) (\<lambda>_ s. Some (Returned () s))
   | user_handler f \<Rightarrow> andthen (run f signal st) (\<lambda>_ s. Some (Returned () s)))"

text \<open>The loop over the signals that are left, with the local variables of do_signals.\<close>

fun signals_loop ::
  "user_code \<Rightarrow> time_ns \<Rightarrow> time_ns \<Rightarrow> u32 \<Rightarrow> bool \<Rightarrow> nat list \<Rightarrow> u32 \<Rightarrow> pk_state \<Rightarrow> unit outcome option" where
  "signals_loop run now1 now2 old flags [] sigpend st = do {
     c \<leftarrow> current_thread st;
     st1 \<leftarrow> upd_th c (\<lambda>t. t\<lparr>sigmask := old\<rparr>) st;
     Some (Returned () (st1\<lparr>pk_if := flags\<rparr>)) }"
| "signals_loop run now1 now2 old flags (s # ss) sigpend st =
    (if sigpend = 0 then signals_loop run now1 now2 old flags [] sigpend st
     else do {
       c \<leftarrow> current_thread st;
       e \<leftarrow> rd (signal_table st) s;
       st1 \<leftarrow> upd_th c (\<lambda>t. t\<lparr>sigmask := (old OR sa_mask e) OR push_bit s 1\<rparr>) st;
       if sigpend AND 1 \<noteq> 0 then
         andthen (case sa_handler e of None \<Rightarrow> Some (Returned () (st1\<lparr>pk_if := True\<rparr>))
                  | Some h \<Rightarrow> run_handler run now1 now2 h s (st1\<lparr>pk_if := True\<rparr>))
           (\<lambda>_ st2. signals_loop run now1 now2 old flags ss (drop_bit 1 sigpend) (st2\<lparr>pk_if := False\<rparr>))
       else signals_loop run now1 now2 old flags ss (drop_bit 1 sigpend) st1 })"

text \<open>The signals that are delivered: pending, not masked, and not the cancellation when it is disabled.\<close>

definition deliverable :: "pthread_struct \<Rightarrow> u32" where
  "deliverable t = sigpending t AND NOT (sigmask t AND NOT non_maskable_signals)"

definition do_signals :: "user_code \<Rightarrow> time_ns \<Rightarrow> time_ns \<Rightarrow> pk_state \<Rightarrow> unit outcome option" where
  "do_signals run now1 now2 st = do {
     let flags = pk_if st;
     let st0 = st\<lparr>pk_if := False\<rparr>;
     c \<leftarrow> current_thread st0;
     t \<leftarrow> threads st0 c;
     let sigpend = deliverable t;
     st1 \<leftarrow> (if sigpend \<noteq> 0 \<or> sigpending t \<noteq> 0
            then upd_th c (\<lambda>t. t\<lparr>sigpending := sigpending t AND NOT sigpend\<rparr>) st0 else Some st0);
     let held = (GET_THREAD_CANCEL_STATE t \<noteq> 0);
     st2 \<leftarrow> (if held then upd_th c (\<lambda>t. t\<lparr>sigpending := sigpending t OR
                (sigpend AND push_bit (nat CANCEL_SIGNAL) 1)\<rparr>) st1 else Some st1);
     let sigpend' = (if held then sigpend AND NOT (push_bit (nat CANCEL_SIGNAL) 1) else sigpend);
     signals_loop run now1 now2 (sigmask t) flags [0..<32] sigpend' st2 }"

end
