(* ===== verification/PInvBase.thy ===== *)
theory PInvBase
  imports PSignal
begin

unbundle bit_operations_syntax

text \<open>
  The invariant of the scheduler for the whole kernel: every call keeps it, on
  every path that does not fault, and so does every sequence of calls,
  interrupts and resumptions from a state in which it holds.
\<close>

section \<open>Postconditions\<close>

text \<open>
  post m P: when m does not fault its result satisfies P.  The rules follow
  the structure of a definition; the last one is for the steps that only read.
\<close>

definition post :: "'a option \<Rightarrow> ('a \<Rightarrow> bool) \<Rightarrow> bool" where
  "post m P \<longleftrightarrow> (\<forall>r. m = Some r \<longrightarrow> P r)"

lemma post_Some: "P x \<Longrightarrow> post (Some x) P"
  by (simp add: post_def)

lemma post_None: "post None P"
  by (simp add: post_def)

lemma post_bind: "post m (\<lambda>x. post (f x) P) \<Longrightarrow> post (Option.bind m f) P"
  by (cases m) (simp_all add: post_def)

lemma post_if: "(b \<Longrightarrow> post m P) \<Longrightarrow> (\<not> b \<Longrightarrow> post n P) \<Longrightarrow> post (if b then m else n) P"
  by simp

lemma post_option: "(x = None \<Longrightarrow> post m P) \<Longrightarrow> (\<And>a. x = Some a \<Longrightarrow> post (f a) P) \<Longrightarrow>
    post (case x of None \<Rightarrow> m | Some a \<Rightarrow> f a) P"
  by (cases x) simp_all

lemma post_prod: "(\<And>a b. x = (a, b) \<Longrightarrow> post (f a b) P) \<Longrightarrow> post (case x of (a, b) \<Rightarrow> f a b) P"
  by (cases x) simp

lemma post_let: "post (f x) P \<Longrightarrow> post (Let x f) P"
  by simp

lemma post_any: "(\<And>r. m = Some r \<Longrightarrow> P r) \<Longrightarrow> post m P"
  by (simp add: post_def)

lemma postD: "post m P \<Longrightarrow> m = Some r \<Longrightarrow> P r"
  by (simp add: post_def)

lemma post_mono: "post m Q \<Longrightarrow> (\<And>r. Q r \<Longrightarrow> P r) \<Longrightarrow> post m P"
  by (simp add: post_def)

section \<open>The invariant\<close>

definition sched_ok :: "pk_state \<Rightarrow> bool" where
  "sched_ok st \<longleftrightarrow> (\<exists>Q. sched_inv st Q)"

lemma sched_ok_core:
  "threads st' = threads st \<Longrightarrow> active_threads st' = active_threads st \<Longrightarrow> sched_ok st' = sched_ok st"
  using sched_inv_core [of st' st] by (simp add: sched_ok_def)

lemma sched_ok_frames [simp]:
  "sched_ok (st\<lparr>pk_if := b\<rparr>) = sched_ok st" "sched_ok (st\<lparr>timer_heap := h\<rparr>) = sched_ok st"
  "sched_ok (st\<lparr>timer_array := ts\<rparr>) = sched_ok st" "sched_ok (st\<lparr>programmed := n\<rparr>) = sched_ok st"
  "sched_ok (st\<lparr>thread_list := l\<rparr>) = sched_ok st" "sched_ok (st\<lparr>keys := ks\<rparr>) = sched_ok st"
  "sched_ok (st\<lparr>signal_table := tab\<rparr>) = sched_ok st" "sched_ok (st\<lparr>irq_nesting_counter := k\<rparr>) = sched_ok st"
  "sched_ok (st\<lparr>sems := ss\<rparr>) = sched_ok st" "sched_ok (st\<lparr>mutexes := ms\<rparr>) = sched_ok st"
  "sched_ok (st\<lparr>conds := cs\<rparr>) = sched_ok st" "sched_ok (st\<lparr>current_thread := c\<rparr>) = sched_ok st"
  "sched_ok (st\<lparr>saved_flags := sf\<rparr>) = sched_ok st" "sched_ok (st\<lparr>idle_thread := i\<rparr>) = sched_ok st"
  by (rule sched_ok_core; simp)+

text \<open>A change of a thread that the scheduler does not see.\<close>

definition inert :: "(pthread_struct \<Rightarrow> pthread_struct) \<Rightarrow> bool" where
  "inert f \<longleftrightarrow> (\<forall>t. next_matrix (f t) = next_matrix t \<and> prev_matrix (f t) = prev_matrix t \<and> ss_i (f t) = ss_i t \<and>
     ss_j (f t) = ss_j t \<and> GET_THREAD_STATE (f t) = GET_THREAD_STATE t \<and> prio_th (f t) = prio_th t)"

lemma inert_fields:
  assumes "\<And>t. next_matrix (f t) = next_matrix t" "\<And>t. prev_matrix (f t) = prev_matrix t" "\<And>t. ss_i (f t) = ss_i t"
    "\<And>t. ss_j (f t) = ss_j t" "\<And>t. thread_flags (f t) AND 7 = thread_flags t AND 7"
    "\<And>t. pt_sched_param (f t) = pt_sched_param t"
  shows "inert f"
  using assms by (simp add: inert_def GET_THREAD_STATE_def prio_th_def)

lemma flag_masks:
  "(x AND -9) AND 7 = (x :: u32) AND 7" "(x OR 8) AND 7 = x AND 7"
  "(x AND -17) AND 7 = x AND 7" "(x OR 16) AND 7 = x AND 7"
  "(x AND -33) AND 7 = x AND 7" "(x OR 32) AND 7 = x AND 7"
  "(x AND -1025) AND 7 = x AND 7" "(x OR 1024) AND 7 = x AND 7" "(x AND -961) AND 7 = x AND 7"
  by (simp_all add: and.assoc bit.conj_disj_distrib2)

lemma policy_mask: "((x AND -961) OR (q AND 960)) AND 7 = (x :: u32) AND 7"
  by (simp add: bit.conj_disj_distrib2 flag_masks and.assoc)

lemma inert_flags [simp]:
  "inert (SET_THREAD_DETACH_STATE b)" "inert (SET_THREAD_CANCEL_STATE b)" "inert (SET_THREAD_CANCEL_TYPE b)"
  "inert (SET_THREAD_ACTIVATE_ON_SIGNAL b)" "inert (SET_THREAD_POLICY p)"
  by (rule inert_fields; simp add: SET_THREAD_DETACH_STATE_def SET_THREAD_CANCEL_STATE_def SET_THREAD_CANCEL_TYPE_def
      SET_THREAD_ACTIVATE_ON_SIGNAL_def SET_THREAD_POLICY_def flag_masks policy_mask)+

lemma inert_map_pl [simp]: "inert (map_pl k g)"
  by (rule inert_fields; simp)

lemma inert_updates [simp]:
  "inert (\<lambda>t. t\<lparr>pt_errno := e\<rparr>)" "inert (\<lambda>t. t\<lparr>sigpending := g t\<rparr>)" "inert (\<lambda>t. t\<lparr>sigmask := h t\<rparr>)"
  "inert (\<lambda>t. t\<lparr>joining_thread := j\<rparr>)" "inert (\<lambda>t. t\<lparr>exit_value := v\<rparr>)" "inert (\<lambda>t. t\<lparr>top_cr_table := k\<rparr>)"
  "inert (\<lambda>t. t\<lparr>cleanup_routine_table := tab, top_cr_table := top_cr_table t + 1\<rparr>)" "inert (\<lambda>t. t\<lparr>tsd := d\<rparr>)"
  "inert (\<lambda>t. t\<lparr>starting_time := n\<rparr>)" "inert (\<lambda>t. t\<lparr>used_time := u t\<rparr>)" "inert (\<lambda>t. t\<lparr>stack_info := si\<rparr>)"
  "inert (\<lambda>t. t\<lparr>pt_stack := ps t\<rparr>)" "inert (\<lambda>t. t\<lparr>sleep_ktimer := sk, sigmask := m\<rparr>)"
  "inert (\<lambda>t. t\<lparr>pt_sched_param := (pt_sched_param t)\<lparr>sp_period := pe\<rparr>\<rparr>)"
  by (simp_all add: inert_def GET_THREAD_STATE_def prio_th_def)

lemma post_upd_th:
  assumes "sched_ok st" "inert f" "\<And>st'. sched_ok st' \<Longrightarrow> P st'"
  shows "post (upd_th a f st) P"
proof (rule post_any)
  fix st' assume "upd_th a f st = Some st'"
  then obtain t where t: "threads st a = Some t" "st' = st\<lparr>threads := (threads st)(a \<mapsto> f t)\<rparr>"
    by (auto simp: upd_th_def bind_eq_Some_conv)
  obtain Q where "sched_inv st Q" using assms(1) by (auto simp: sched_ok_def)
  from sched_inv_upd [OF this t(1), of f] show "P st'"
    using assms(2,3) t(2) by (auto simp: sched_ok_def inert_def)
qed

section \<open>The operations of the scheduler\<close>

lemma remove_ss_dom: "remove_ss a st = Some st' \<Longrightarrow> \<exists>t. threads st a = Some t"
  by (auto simp: remove_ss_def bind_eq_Some_conv)

text \<open>A thread that has finished stays so, out of the queues.\<close>

lemma suspend_finished_ok:
  assumes inv: "sched_inv st Q" and t: "threads st a = Some t" "GET_THREAD_STATE t = FINISHED_THREAD"
  shows "\<exists>st'. suspend_thread a st = Some st' \<and> sched_inv st' (without a Q)"
proof -
  let ?st0 = "st\<lparr>pk_if := False\<rparr>"
  have R: "ready_queues st Q" using inv by (simp add: sched_inv_def)
  have "sched_but a ?st0 Q" "threads ?st0 a = Some t" using sched_but_inv [OF inv] t by simp_all
  from remove_ss_any [OF this] obtain st1 where s1: "remove_ss a ?st0 = Some st1"
    "ready_queues st1 (without a Q)" "same_but_ss ?st0 st1" "detached st1 a" "keeps_detached Q a ?st0 st1"
    "unqueued (without a Q) a"
    by blast
  obtain t1 where t1: "threads st1 a = Some t1" "GET_THREAD_STATE t1 = FINISHED_THREAD"
    using same_but_ss_thread [OF s1(3), of a t] t by auto
  have same: "same_but_ss st (st1\<lparr>pk_if := pk_if st\<rparr>)"
    using s1(3) by (cases st; cases st1) (auto simp: same_but_ss_def)
  have "sched_inv (st1\<lparr>pk_if := pk_if st\<rparr>) (without a Q)"
  proof (rule sched_inv_change [OF sched_but_inv [OF inv] _ _ _ same_only_thread [OF same]])
    show "\<forall>p<1024. set (without a Q p) - {a} = set (Q p) - {a}" using set_without [OF R] by simp
    show "keeps_detached Q a st (st1\<lparr>pk_if := pk_if st\<rparr>)" using s1(5) by (simp add: keeps_detached_def)
    show "\<forall>p<1024. a \<in> set (without a Q p) \<longrightarrow> level (prio_th t1) = p" using s1(6) by (simp add: unqueued_def)
  qed (use s1 t1 in simp_all)
  moreover have "suspend_thread a st = Some (st1\<lparr>pk_if := pk_if st\<rparr>)"
    using s1(1) t1 by (simp add: suspend_thread_def)
  ultimately show ?thesis by blast
qed

lemma post_suspend_thread:
  assumes "sched_ok st" "\<And>st'. sched_ok st' \<Longrightarrow> P st'"
  shows "post (suspend_thread a st) P"
proof (rule post_any)
  fix st' assume s: "suspend_thread a st = Some st'"
  obtain Q where inv: "sched_inv st Q" using assms(1) by (auto simp: sched_ok_def)
  obtain t where t: "threads st a = Some t"
    using s by (auto simp: suspend_thread_def Let_def bind_eq_Some_conv dest!: remove_ss_dom)
  have "\<exists>st''. suspend_thread a st = Some st'' \<and> sched_inv st'' (without a Q)"
    using suspend_finished_ok [OF inv t] suspend_thread_ok [OF inv t] by blast
  then show "P st'" using s assms(2) by (auto simp: sched_ok_def)
qed

lemma post_activate_thread:
  assumes "sched_ok st" "\<And>st'. sched_ok st' \<Longrightarrow> P st'"
  shows "post (activate_thread a st) P"
proof (rule post_any)
  fix st' assume s: "activate_thread a st = Some st'"
  obtain Q where inv: "sched_inv st Q" using assms(1) by (auto simp: sched_ok_def)
  obtain t where t: "threads st a = Some t" using s by (auto simp: activate_thread_def bind_eq_Some_conv)
  show "P st'"
  proof (cases "GET_THREAD_STATE t \<noteq> FINISHED_THREAD \<and> GET_THREAD_STATE t \<noteq> READY_THREAD")
    case True
    then show ?thesis using activate_thread_ok [OF inv t] s assms(2) by (auto simp: sched_ok_def)
  next
    case False
    then have "st' = st\<lparr>pk_if := pk_if st\<rparr>" using s t by (auto simp: activate_thread_def)
    then show ?thesis using assms by simp
  qed
qed

lemma post_finish_thread:
  assumes "sched_ok st" "\<And>st'. sched_ok st' \<Longrightarrow> P st'"
  shows "post (finish_thread a st) P"
proof (rule post_any)
  fix st' assume s: "finish_thread a st = Some st'"
  obtain Q where inv: "sched_inv st Q" using assms(1) by (auto simp: sched_ok_def)
  obtain t where t: "threads st a = Some t"
    using s by (auto simp: finish_thread_def Let_def bind_eq_Some_conv dest!: remove_ss_dom)
  show "P st'" using finish_thread_ok [OF inv t] s assms(2) by (auto simp: sched_ok_def)
qed

lemma post_change_thread_prio:
  assumes "sched_ok st" "\<And>st'. sched_ok st' \<Longrightarrow> P st'"
  shows "post (change_thread_prio a q st) P"
proof (rule post_any)
  fix st' assume s: "change_thread_prio a q st = Some st'"
  obtain Q where inv: "sched_inv st Q" using assms(1) by (auto simp: sched_ok_def)
  obtain t where t: "threads st a = Some t" using s by (auto simp: change_thread_prio_def Let_def bind_eq_Some_conv)
  show "P st'" using change_thread_prio_ok [OF sched_but_inv [OF inv] t, of q] s assms(2) by (auto simp: sched_ok_def)
qed

text \<open>Setting all the parameters of a thread before its priority is changed.\<close>

lemma post_set_param:
  assumes "sched_ok st" "\<And>st'. sched_ok st' \<Longrightarrow> P st'"
  shows "post (upd_th a (\<lambda>t. t\<lparr>pt_sched_param := p\<rparr>) st) (\<lambda>s. post (change_thread_prio a q s) P)"
proof (intro post_any)
  fix s st' assume u: "upd_th a (\<lambda>t. t\<lparr>pt_sched_param := p\<rparr>) st = Some s" and c: "change_thread_prio a q s = Some st'"
  obtain Q where inv: "sched_inv st Q" using assms(1) by (auto simp: sched_ok_def)
  obtain t where t: "threads st a = Some t" "s = st\<lparr>threads := (threads st)(a \<mapsto> t\<lparr>pt_sched_param := p\<rparr>)\<rparr>"
    using u by (auto simp: upd_th_def bind_eq_Some_conv)
  have v: "ready_queues s = ready_queues st" "detached s = detached st"
    unfolding t(2) using views_upd [OF t(1), of "\<lambda>t. t\<lparr>pt_sched_param := p\<rparr>"] t(1)
    by (auto intro!: queues_eqI split: if_splits)
  have "sched_but a s Q"
    using inv v sched_invD [OF inv t(1)] unfolding sched_but_def
    by (auto simp: sched_inv_def t(2) GET_THREAD_STATE_def)
  from change_thread_prio_ok [OF this, of "t\<lparr>pt_sched_param := p\<rparr>" q] show "P st'"
    using c t(2) assms(2) by (auto simp: sched_ok_def)
qed

text \<open>Deletion: the thread leaves the queues, the list of threads and the store.\<close>

definition sched_off :: "nat \<Rightarrow> pk_state \<Rightarrow> (nat \<Rightarrow> nat list) \<Rightarrow> bool" where
  "sched_off a st Q \<longleftrightarrow> ready_queues st Q \<and> unqueued Q a \<and>
     (\<forall>b t. b \<noteq> a \<longrightarrow> threads st b = Some t \<longrightarrow> (GET_THREAD_STATE t = READY_THREAD \<longleftrightarrow> \<not> unqueued Q b) \<and>
        (unqueued Q b \<longrightarrow> detached st b)) \<and>
     (\<forall>p<1024. \<forall>b\<in>set (Q p). \<forall>t. threads st b = Some t \<longrightarrow> level (prio_th t) = p)"

lemma remove_ss_off:
  assumes inv: "sched_inv st Q" and s: "remove_ss a st = Some st1"
  shows "sched_off a st1 (without a Q)"
proof -
  obtain t where t: "threads st a = Some t" using remove_ss_dom [OF s] by blast
  have R: "ready_queues st Q" using inv by (simp add: sched_inv_def)
  have r: "ready_queues st1 (without a Q)" "same_but_ss st st1" "keeps_detached Q a st st1" "unqueued (without a Q) a"
    using remove_ss_any [OF sched_but_inv [OF inv] t] s by auto
  have only: "only_thread a st st1" by (rule same_only_thread [OF r(2)])
  have st: "map_option GET_THREAD_STATE (threads st1 b) = map_option GET_THREAD_STATE (threads st b)"
    "map_option prio_th (threads st1 b) = map_option prio_th (threads st b)" if "b \<noteq> a" for b
    using only_thread_state [OF only that] by simp_all
  have uq: "unqueued (without a Q) b \<longleftrightarrow> unqueued Q b" if "b \<noteq> a" for b
    using set_without [OF R] that by (auto simp: unqueued_def)
  have "(GET_THREAD_STATE y = READY_THREAD \<longleftrightarrow> \<not> unqueued (without a Q) b) \<and> (unqueued (without a Q) b \<longrightarrow> detached st1 b)"
    if h: "b \<noteq> a" "threads st1 b = Some y" for b y
  proof -
    obtain x where x: "threads st b = Some x" "GET_THREAD_STATE x = GET_THREAD_STATE y"
      using st(1) [OF h(1)] h(2) by (cases "threads st b") auto
    then show ?thesis using sched_invD [OF inv x(1)] uq [OF h(1)] r(3) h(1) by (auto simp: keeps_detached_def)
  qed
  moreover have "level (prio_th y) = p" if h: "p < 1024" "b \<in> set (without a Q p)" "threads st1 b = Some y" for p b y
  proof -
    have b: "b \<noteq> a" "b \<in> set (Q p)" using set_without [OF R h(1)] h(2) by auto
    then obtain x where x: "threads st b = Some x" "prio_th x = prio_th y" using st(2) [OF b(1)] h(3) by (cases "threads st b") auto
    then show ?thesis using sched_inv_level [OF inv h(1) b(2) x(1)] by simp
  qed
  ultimately show ?thesis using r by (auto simp: sched_off_def)
qed

lemma sched_off_upd:
  assumes "sched_off a st Q" "inert f" "upd_th b f st = Some st'"
  shows "sched_off a st' Q"
proof -
  obtain t where t: "threads st b = Some t" "st' = st\<lparr>threads := (threads st)(b \<mapsto> f t)\<rparr>"
    using assms(3) by (auto simp: upd_th_def bind_eq_Some_conv)
  have "ready_queues st' = ready_queues st" "detached st' = detached st"
    unfolding t(2) using views_upd [OF t(1), of f] assms(2) t(1)
    by (auto simp: inert_def intro!: queues_eqI split: if_splits)
  then show ?thesis using assms(1,2) t by (auto simp: sched_off_def inert_def)
qed

lemma sched_off_drop:
  assumes off: "sched_off a st Q"
  shows "sched_inv (st\<lparr>thread_list := h, threads := (threads st)(a := None)\<rparr>) Q"
proof -
  let ?st = "st\<lparr>thread_list := h, threads := (threads st)(a := None)\<rparr>"
  have R: "ready_queues st Q" using off by (simp add: sched_off_def)
  have na: "a \<notin> set (Q p)" if "p < 1024" for p using off that by (simp add: sched_off_def unqueued_def)
  have v: "mx ?st x = mx st x \<and> mp ?st x = mp st x \<and> ssv ?st x = ssv st x" if "x \<noteq> a" for x
    using that by (simp add: mx_def mp_def ssv_def)
  have "queue_ok ?st p (Q p)" if p: "p < 1024" for p
  proof (rule queue_frame)
    show "queue_ok st p (Q p)" using R p by (simp add: ready_queues_def)
    show "\<forall>x\<in>set (Q p). mx ?st x = mx st x \<and> mp ?st x = mp st x \<and> ssv ?st x = ssv st x"
      using v na [OF p] by metis
    show "set (Q p) \<subseteq> dom (threads ?st)" using ss.queued [OF R p] na [OF p] by auto
  qed auto
  then have "ready_queues ?st Q" using R by (simp add: ready_queues_def)
  moreover have "detached ?st x" if "x \<noteq> a" "detached st x" for x
    using that v [OF that(1)] by (simp add: detached_def)
  ultimately show ?thesis using off by (auto simp: sched_inv_def sched_off_def)
qed

text \<open>The lists of threads only change links: what survives inert changes survives the list operations.\<close>

definition inert_closed :: "(pk_state \<Rightarrow> bool) \<Rightarrow> bool" where
  "inert_closed R \<longleftrightarrow> (\<forall>s b f s'. R s \<longrightarrow> inert f \<longrightarrow> upd_th b f s = Some s' \<longrightarrow> R s')"

lemma inert_closed_off: "inert_closed (\<lambda>s. sched_off a s Q)"
  using sched_off_upd by (auto simp: inert_closed_def)

lemma inert_closed_ok: "inert_closed sched_ok"
  unfolding inert_closed_def using postD [OF post_upd_th [where P = sched_ok]] by blast

lemma post_upd_closed:
  "inert_closed R \<Longrightarrow> R s \<Longrightarrow> inert f \<Longrightarrow> (\<And>s'. R s' \<Longrightarrow> P s') \<Longrightarrow> post (upd_th b f s) P"
  by (auto simp: post_def inert_closed_def)

lemma post_link:
  "inert_closed R \<Longrightarrow> R s \<Longrightarrow> (\<And>s'. R s' \<Longrightarrow> P s') \<Longrightarrow>
   post (case q of None \<Rightarrow> Some s | Some b \<Rightarrow> upd_th b (map_pl k f) s) P"
  by (cases q) (auto intro: post_upd_closed post_Some)

lemma post_insert_list:
  assumes "inert_closed R" "R st" "\<And>h' s. R s \<Longrightarrow> P (h', s)"
  shows "post (insert_pthread_list k h p st) P"
  unfolding insert_pthread_list_def
  by (rule post_bind, rule post_link [OF assms(1,2)], rule post_bind, rule post_upd_closed [OF assms(1)],
      assumption, simp, rule post_Some, rule assms(3))

lemma post_remove_list:
  assumes "inert_closed R" "R st" "\<And>h' s. R s \<Longrightarrow> P (h', s)"
  shows "post (remove_pthread_list k h p st) P"
  unfolding remove_pthread_list_def Let_def
  by (rule post_bind, rule post_any, rule post_bind, rule post_link [OF assms(1,2)], rule post_bind, rule post_any,
      rule post_bind, rule post_link [OF assms(1)], assumption, rule post_bind, rule post_any, rule post_bind,
      rule post_upd_closed [OF assms(1)], assumption, simp, rule post_Some, rule assms(3))

lemma post_remove_head:
  assumes "inert_closed R" "R st" "\<And>t h' s. R s \<Longrightarrow> P (t, h', s)"
  shows "post (remove_head_pthread_list k h st) P"
  unfolding remove_head_pthread_list_def Let_def
  by (rule post_option, rule post_Some, rule assms(3) [OF assms(2)], rule post_bind, rule post_any, rule post_bind,
      rule post_link [OF assms(1,2)], rule post_bind, rule post_upd_closed [OF assms(1)], assumption, simp,
      rule post_bind, rule post_any, rule post_Some, rule assms(3))

lemmas post_lists = post_insert_list [OF inert_closed_ok] post_remove_list [OF inert_closed_ok]
  post_remove_head [OF inert_closed_ok]

lemma post_delete_pthread_struct:
  assumes "sched_ok st" "\<And>st'. sched_ok st' \<Longrightarrow> P st'"
  shows "post (delete_pthread_struct a st) P"
  unfolding delete_pthread_struct_def
proof (rule post_bind, rule post_any)
  fix st1 assume r: "remove_ss a st = Some st1"
  obtain Q where "sched_inv st Q" using assms(1) by (auto simp: sched_ok_def)
  from remove_ss_off [OF this r] have off: "sched_off a st1 (without a Q)" .
  show "post (do { (h, st2) \<leftarrow> remove_pthread_list ThreadL (thread_list st1) a st1;
      Some (st2\<lparr>thread_list := h, threads := (threads st2)(a := None)\<rparr>) }) P"
  proof (rule post_bind, rule post_remove_list [where R = "\<lambda>s. sched_off a s (without a Q)", OF inert_closed_off off])
    fix h s assume "sched_off a s (without a Q)"
    from sched_off_drop [OF this] show "post (case (h, s) of (h, st2) \<Rightarrow>
        Some (st2\<lparr>thread_list := h, threads := (threads st2)(a := None)\<rparr>)) P"
      using assms(2) by (auto simp: sched_ok_def intro: post_Some)
  qed
qed

text \<open>The choice of the thread, and the calls that end in it.\<close>

lemma post_scheduling:
  assumes "sched_ok st" "\<And>st'. sched_ok st' \<Longrightarrow> P st'"
  shows "post (scheduling now1 now2 st) P"
proof (rule post_any)
  fix st' assume s: "scheduling now1 now2 st = Some st'"
  show "P st'"
  proof (cases "irq_nesting_counter st AND OUTSIDE_IRQS \<noteq> 0")
    case True
    then show ?thesis using s assms by (auto simp: scheduling_def Let_def)
  next
    case False
    obtain x h where h: "get_head_ss (active_threads st) = Some (x, h)"
      using s False by (auto simp: scheduling_def Let_def bind_eq_Some_conv)
    define n0 where "n0 = (if h = None then idle_thread st else h)"
    show ?thesis
    proof (cases "n0 = current_thread st")
      case True
      then have "st' = st\<lparr>pk_if := False, irq_nesting_counter := 0, pk_if := pk_if st\<rparr>"
        using s False h by (cases h) (auto simp: scheduling_def Let_def n0_def bind_eq_Some_conv split: if_splits)
      then show ?thesis using assms by simp
    next
      case ne: False
      obtain c n sta f stb c' st1 where p:
        "upd_th c (\<lambda>t. t\<lparr>used_time := used_time t + (now1 - starting_time t)\<rparr>) (st\<lparr>pk_if := False\<rparr>) = Some sta"
        "p_context_switch n (pk_if st) sta = Some (f, stb)"
        "upd_th c' (\<lambda>t. t\<lparr>starting_time := now2\<rparr>) stb = Some st1"
        "st' = st1\<lparr>irq_nesting_counter := 0, pk_if := f\<rparr>"
        using s False h ne by (auto simp: scheduling_def Let_def bind_eq_Some_conv n0_def split: if_splits)
      have "sched_ok sta" using postD [OF post_upd_th p(1)] assms(1) by simp
      then have "sched_ok stb"
        using p(2) by (auto simp: p_context_switch_def Let_def bind_eq_Some_conv)
      then have "sched_ok st1" using postD [OF post_upd_th p(3)] by simp
      then show ?thesis using assms(2) p(4) by simp
    qed
  qed
qed

end
