(* ===== verification/PInvSync.thy ===== *)
theory PInvSync
  imports PInvBase
begin

unbundle bit_operations_syntax

text \<open>
  Every call of PaRTiKle keeps the invariant of the scheduler.  The proofs
  follow the structure of the definitions with the rules of postconditions; a
  call used by another one enters as a rule of its own.
\<close>

fun ok_out :: "'a outcome \<Rightarrow> bool" where
  "ok_out (Returned x st) = sched_ok st"
| "ok_out (Switched st) = sched_ok st"
| "ok_out (Halted e st) = sched_ok st"

lemma post_pair:
  "post m (\<lambda>(r, s). sched_ok s) \<Longrightarrow> (\<And>r s. sched_ok s \<Longrightarrow> P (r, s)) \<Longrightarrow> post m P"
  by (auto simp: post_def)

lemma post_state:
  "post m sched_ok \<Longrightarrow> (\<And>s. sched_ok s \<Longrightarrow> P s) \<Longrightarrow> post m P"
  by (auto simp: post_def)

lemma post_andthen:
  "post m ok_out \<Longrightarrow> (\<And>x s. sched_ok s \<Longrightarrow> post (k x s) ok_out) \<Longrightarrow> post (andthen m k) ok_out"
  by (auto simp: post_def andthen_def split: option.splits outcome.splits)

lemma post_sched_then:
  assumes "sched_ok st" "\<And>s. sched_ok s \<Longrightarrow> post (k s) ok_out"
  shows "post (sched_then now1 now2 k st) ok_out"
  unfolding sched_then_def
  by (rule post_bind, rule post_any, rule post_bind, rule post_scheduling [OF assms(1)])
    (auto intro: assms(2) post_Some)

lemma post_pair_lit: "post (f a b) P \<Longrightarrow> post (case (a, b) of (x, y) \<Rightarrow> f x y) P"
  by simp

lemmas posts = post_pair_lit post_Some post_bind post_if post_option post_prod post_let post_None
  post_upd_th post_suspend_thread post_activate_thread post_finish_thread post_change_thread_prio
  post_scheduling post_delete_pthread_struct post_lists post_andthen post_sched_then

section \<open>Timers and clocks\<close>

lemma post_SET_ERRNO: "sched_ok st \<Longrightarrow> (\<And>s. sched_ok s \<Longrightarrow> P s) \<Longrightarrow> post (SET_ERRNO e st) P"
  unfolding SET_ERRNO_def by (rule post_bind, rule post_any, rule post_upd_th) simp_all

lemma fail_errno_keeps: "sched_ok st \<Longrightarrow> post (fail_errno e st) (\<lambda>(r, s). sched_ok s)"
  unfolding fail_errno_def by (assumption | rule post_SET_ERRNO posts | (simp; fail))+

lemma fails_keeps: "sched_ok st \<Longrightarrow> post (fails e st) ok_out"
  unfolding fails_def by (assumption | rule post_SET_ERRNO posts | (simp; fail))+

lemmas posts_err = post_SET_ERRNO post_pair [OF fail_errno_keeps] fails_keeps

lemma post_upd_kt: "sched_ok st \<Longrightarrow> (\<And>s. sched_ok s \<Longrightarrow> P s) \<Longrightarrow> post (upd_kt i f st) P"
  by (auto simp: upd_kt_def post_def bind_eq_Some_conv)

lemma pthread_kill_keeps: "sched_ok st \<Longrightarrow> post (pthread_kill_sys a sig st) (\<lambda>(r, s). sched_ok s)"
  unfolding pthread_kill_sys_def
  by (assumption | rule posts_err posts | (simp; fail) | rule post_any)+

lemma run_action_keeps: "sched_ok st \<Longrightarrow> post (run_action i st) (\<lambda>(r, s). sched_ok s)"
proof -
  have c: "post (case a of action_wakeup \<Rightarrow> m | action_kill \<Rightarrow> n) P"
    if "post m P" "post n P" for a and m n :: "'a option" and P
    using that by (cases a) simp_all
  show "sched_ok st \<Longrightarrow> post (run_action i st) (\<lambda>(r, s). sched_ok s)"
    unfolding run_action_def
    by (assumption | rule posts_err posts c post_pair [OF pthread_kill_keeps] | (simp; fail) | rule post_any)+
qed

lemma post_clock:
  "post m P \<Longrightarrow> post n P \<Longrightarrow> post p P \<Longrightarrow>
   post (case r of read_monotonic_timer \<Rightarrow> m | read_realtime_timer \<Rightarrow> n | read_thread_cputime_timer \<Rightarrow> p) P"
  by (cases r) simp_all

lemma free_ktimer_keeps: "sched_ok st \<Longrightarrow> post (free_ktimer k st) sched_ok"
  unfolding free_ktimer_def by (assumption | rule posts post_upd_kt | (simp; fail) | rule post_any)+

lemma arm_timer_keeps: "sched_ok st \<Longrightarrow> post (arm_timer env n k v interval st) (\<lambda>(r, s). sched_ok s)"
  unfolding arm_timer_def read_clock_at_def
  by (assumption | rule posts post_upd_kt post_clock | (simp; fail) | rule post_any)+

lemma disarm_timer_keeps: "sched_ok st \<Longrightarrow> post (disarm_timer i st) sched_ok"
  unfolding disarm_timer_def by (assumption | rule posts post_upd_kt | (simp; fail) | rule post_any)+

lemma fire_timer_keeps: "sched_ok st \<Longrightarrow> post (fire_timer c i st) (\<lambda>(r, s). sched_ok s)"
  unfolding fire_timer_def
  by (assumption | rule posts post_upd_kt post_pair [OF run_action_keeps] | (simp; fail) | rule post_any)+

lemma update_loop_keeps:
  assumes "update_loop env n kt c act st = Some r"
  shows "sched_ok st \<longrightarrow> sched_ok (snd (snd (snd r)))"
  apply (rule update_loop.raw_induct [where P = "\<lambda>env n kt c act st r. sched_ok st \<longrightarrow> sched_ok (snd (snd (snd r)))",
      OF _ assms])
  subgoal premises prems for f env n kt c act st r
  proof -
    have ih: "sched_ok s \<Longrightarrow> post (f e n' m c' a s) (\<lambda>r. sched_ok (snd (snd (snd r))))" for e n' m c' a s
      using prems(1) by (auto simp: post_def)
    show ?thesis
      by (rule impI, rule postD [OF _ prems(2)])
        (assumption | rule ih posts post_pair [OF fire_timer_keeps] | (simp; fail) | rule post_any)+
  qed
  done

lemma post_update_loop:
  "sched_ok st \<Longrightarrow> (\<And>k c' a s. sched_ok s \<Longrightarrow> P (k, c', a, s)) \<Longrightarrow> post (update_loop env n kt c act st) P"
  using update_loop_keeps by (fastforce simp: post_def)

lemma update_hwtimer_keeps: "sched_ok st \<Longrightarrow> post (update_hwtimer env hw n st) (\<lambda>(r, s). sched_ok s)"
  unfolding update_hwtimer_def
  by (assumption | rule posts post_update_loop | (simp; fail) | rule post_any)+

lemmas posts_time = posts_err post_upd_kt post_pair [OF pthread_kill_keeps] post_state [OF free_ktimer_keeps]
  post_pair [OF arm_timer_keeps] post_state [OF disarm_timer_keeps] post_pair [OF update_hwtimer_keeps]

lemma clock_handler_keeps: "sched_ok st \<Longrightarrow> post (clock_handler env hw n1 n2 st) (\<lambda>(r, s). sched_ok s)"
  unfolding clock_handler_def
  by (assumption | rule posts posts_time | (simp; fail) | rule post_any)+

lemma sleep_for_rest_keeps: "sched_ok st \<Longrightarrow> post (sleep_for_rest env n k d st) ok_out"
  unfolding sleep_for_rest_def by (assumption | rule posts | (simp; fail) | rule post_any)+

lemma sleep_for_keeps: "sched_ok st \<Longrightarrow> post (sleep_for env hw n1 n2 d st) ok_out"
  unfolding sleep_for_def
  by (assumption | rule posts posts_time sleep_for_rest_keeps | (simp; fail) | rule post_any)+

lemma nanosleep_rest_keeps: "sched_ok st \<Longrightarrow> post (nanosleep_rest rm d st) ok_out"
  unfolding nanosleep_rest_def by (assumption | rule posts posts_time | (simp; fail) | rule post_any)+

lemma nanosleep_keeps: "sched_ok st \<Longrightarrow> post (nanosleep_sys env hw n1 n2 req rm st) ok_out"
  unfolding nanosleep_sys_def by (assumption | rule posts sleep_for_keeps nanosleep_rest_keeps)+

lemma usleep_keeps: "sched_ok st \<Longrightarrow> post (usleep_sys env hw n1 n2 us st) ok_out"
  unfolding usleep_sys_def by (assumption | rule posts sleep_for_keeps nanosleep_rest_keeps)+

lemma clock_settime_keeps: "sched_ok st \<Longrightarrow> post (clock_settime_sys st) (\<lambda>(r, s). sched_ok s)"
  unfolding clock_settime_sys_def by (rule fail_errno_keeps)

lemma clock_gettime_keeps: "sched_ok st \<Longrightarrow> post (clock_gettime_sys env ck tp st) (\<lambda>(r, x, s). sched_ok s)"
  unfolding clock_gettime_sys_def by (assumption | rule posts posts_time | (simp; fail) | rule post_any)+

lemma clock_getres_keeps: "sched_ok st \<Longrightarrow> post (clock_getres_sys env ck tp st) (\<lambda>(r, x, s). sched_ok s)"
  unfolding clock_getres_sys_def by (assumption | rule posts posts_time | (simp; fail) | rule post_any)+

lemma gettimeofday_keeps: "sched_ok st \<Longrightarrow> post (gettimeofday_sys env tv st) (\<lambda>(r, x, s). sched_ok s)"
  unfolding gettimeofday_sys_def by (assumption | rule posts posts_time | (simp; fail) | rule post_any)+

lemma alloc_ktimer_keeps: "sched_ok st \<Longrightarrow> post (alloc_ktimer ck th act st) (\<lambda>(r, s). sched_ok s)"
  unfolding alloc_ktimer_def by (assumption | rule posts | (simp; fail) | rule post_any)+

lemma timer_create_keeps: "sched_ok st \<Longrightarrow> post (timer_create_sys ck evp st) (\<lambda>(r, x, s). sched_ok s)"
  unfolding timer_create_sys_def
  by (assumption | rule posts posts_time post_pair [OF alloc_ktimer_keeps] | (simp; fail) | rule post_any)+

lemma timer_delete_keeps: "sched_ok st \<Longrightarrow> post (timer_delete_sys k st) (\<lambda>(r, s). sched_ok s)"
  unfolding timer_delete_sys_def by (assumption | rule posts posts_time | (simp; fail) | rule post_any)+

lemma timer_settime_keeps: "sched_ok st \<Longrightarrow> post (timer_settime_sys env hw k fl v w st) (\<lambda>(r, x, s). sched_ok s)"
  unfolding timer_settime_sys_def by (assumption | rule posts posts_time | (simp; fail) | rule post_any)+

lemma timer_gettime_keeps: "sched_ok st \<Longrightarrow> post (timer_gettime_sys env k w st) (\<lambda>(r, x, s). sched_ok s)"
  unfolding timer_gettime_sys_def by (assumption | rule posts posts_time | (simp; fail) | rule post_any)+

lemma timer_getoverrun_keeps: "sched_ok st \<Longrightarrow> post (timer_getoverrun_sys k st) (\<lambda>(r, s). sched_ok s)"
  unfolding timer_getoverrun_sys_def by (assumption | rule posts posts_time | (simp; fail) | rule post_any)+

section \<open>Semaphores\<close>

lemma post_upd_sem: "sched_ok st \<Longrightarrow> (\<And>s. sched_ok s \<Longrightarrow> P s) \<Longrightarrow> post (upd_sem x f st) P"
  by (auto simp: upd_sem_def post_def bind_eq_Some_conv)

lemma post_upd_mutex: "sched_ok st \<Longrightarrow> (\<And>s. sched_ok s \<Longrightarrow> P s) \<Longrightarrow> post (upd_mutex x f st) P"
  by (auto simp: upd_mutex_def post_def bind_eq_Some_conv)

lemma post_upd_cond: "sched_ok st \<Longrightarrow> (\<And>s. sched_ok s \<Longrightarrow> P s) \<Longrightarrow> post (upd_cond x h st) P"
  by (auto simp: upd_cond_def post_def bind_eq_Some_conv)

lemma restore_if_keeps: "sched_ok st \<Longrightarrow> post (restore_if flags r st) ok_out"
  by (simp add: restore_if_def post_def)

lemmas posts_obj = post_upd_sem post_upd_mutex post_upd_cond restore_if_keeps posts_time

lemma sem_init_keeps: "sched_ok st \<Longrightarrow> post (sem_init_sys s ps v st) (\<lambda>(r, s). sched_ok s)"
  unfolding sem_init_sys_def by (assumption | rule posts posts_obj | (simp; fail) | rule post_any)+

lemma sem_destroy_keeps: "sched_ok st \<Longrightarrow> post (sem_destroy_sys s st) (\<lambda>(r, s). sched_ok s)"
  unfolding sem_destroy_sys_def by (assumption | rule posts posts_obj | (simp; fail) | rule post_any)+

lemma sem_getvalue_keeps: "sched_ok st \<Longrightarrow> post (sem_getvalue_sys s st) (\<lambda>(r, x, s). sched_ok s)"
  unfolding sem_getvalue_sys_def by (assumption | rule posts posts_obj | (simp; fail) | rule post_any)+

lemma sem_wait_rest_keeps: "sched_ok st \<Longrightarrow> post (sem_wait_rest s fl st) ok_out"
  unfolding sem_wait_rest_def by (assumption | rule posts posts_obj | (simp; fail) | rule post_any)+

lemma sem_wait_keeps: "sched_ok st \<Longrightarrow> post (sem_wait_sys n1 n2 s st) ok_out"
  unfolding sem_wait_sys_def
  by (assumption | rule sem_wait_rest_keeps posts posts_obj | (simp; fail) | rule sem_wait_rest_keeps post_any)+

lemma sem_trywait_keeps: "sched_ok st \<Longrightarrow> post (sem_trywait_sys s st) (\<lambda>(r, s). sched_ok s)"
  unfolding sem_trywait_sys_def by (assumption | rule posts posts_obj | (simp; fail) | rule post_any)+

lemma sem_timedwait_rest_keeps: "sched_ok st \<Longrightarrow> post (sem_timedwait_rest s c fl r st) ok_out"
  unfolding sem_timedwait_rest_def by (assumption | rule posts posts_obj | (simp; fail) | rule post_any)+

lemma sem_timedwait_keeps: "sched_ok st \<Longrightarrow> post (sem_timedwait_sys env hw n1 n2 s ts st) ok_out"
  unfolding sem_timedwait_sys_def
  by (assumption | rule sem_timedwait_rest_keeps sleep_for_keeps posts posts_obj | (simp; fail) | rule post_any)+

lemma sem_post_rest_keeps: "sched_ok st \<Longrightarrow> post (sem_post_rest s fl st) ok_out"
  unfolding sem_post_rest_def by (assumption | rule posts posts_obj | (simp; fail) | rule post_any)+

lemma sem_post_keeps: "sched_ok st \<Longrightarrow> post (sem_post_sys n1 n2 s st) ok_out"
  unfolding sem_post_sys_def
  by (assumption | rule sem_post_rest_keeps posts posts_obj | (simp; fail) | rule post_any)+

section \<open>Mutexes and condition variables\<close>

lemma mutex_ceiling_keeps: "sched_ok st \<Longrightarrow> post (mutex_ceiling n1 n2 x fl st) ok_out"
  unfolding mutex_ceiling_def by (assumption | rule posts posts_obj | (simp; fail) | rule post_any)+

lemma lock_loop_keeps:
  assumes "lock_loop n1 n2 x fl st = Some r"
  shows "sched_ok st \<longrightarrow> ok_out r"
  apply (rule lock_loop.raw_induct [where P = "\<lambda>n1 n2 x fl st r. sched_ok st \<longrightarrow> ok_out r" and
      xa = "((((n1, n2), x), fl), st)", unfolded prod.case, OF _ assms])
  subgoal premises prems for f n1 n2 x fl st r
  proof -
    have ih: "sched_ok s \<Longrightarrow> post (f n1' n2' x' fl' s) ok_out" for n1' n2' x' fl' s
      using prems(1) by (auto simp: post_def)
    show ?thesis
      by (rule impI, rule postD [OF _ prems(2)])
        (assumption | rule ih mutex_ceiling_keeps posts posts_obj | (simp; fail) | rule post_any)+
  qed
  done

lemma mutex_lock_keeps: "sched_ok st \<Longrightarrow> post (pthread_mutex_lock_sys n1 n2 x st) ok_out"
  using lock_loop_keeps by (auto simp: pthread_mutex_lock_sys_def post_def)

lemma mutex_trylock_keeps: "sched_ok st \<Longrightarrow> post (pthread_mutex_trylock_sys n1 n2 x st) ok_out"
  unfolding pthread_mutex_trylock_sys_def
  by (assumption | rule mutex_ceiling_keeps posts posts_obj | (simp; fail) | rule post_any)+

lemma wake_all_keeps:
  assumes "wake_all k h st = Some r"
  shows "sched_ok st \<longrightarrow> sched_ok r"
  apply (rule wake_all.raw_induct [where P = "\<lambda>k h st r. sched_ok st \<longrightarrow> sched_ok r", OF _ assms])
  subgoal premises prems for f k h st r
  proof -
    have ih: "sched_ok s \<Longrightarrow> post (f k' h' s) sched_ok" for k' h' s
      using prems(1) by (auto simp: post_def)
    show ?thesis
      by (rule impI, rule postD [OF _ prems(2)])
        (assumption | rule ih posts posts_obj | (simp; fail) | rule post_any)+
  qed
  done

lemma post_wake_all: "sched_ok st \<Longrightarrow> (\<And>s. sched_ok s \<Longrightarrow> P s) \<Longrightarrow> post (wake_all k h st) P"
  using wake_all_keeps by (auto simp: post_def)

lemma mutex_unlock_keeps: "sched_ok st \<Longrightarrow> post (pthread_mutex_unlock_sys n1 n2 x st) ok_out"
  unfolding pthread_mutex_unlock_sys_def
  by (assumption | rule post_wake_all posts posts_obj | (simp; fail) | rule post_any)+

lemma mutex_init_keeps: "sched_ok st \<Longrightarrow> post (pthread_mutex_init_sys x a st) (\<lambda>(r, s). sched_ok s)"
  unfolding pthread_mutex_init_sys_def by (assumption | rule posts posts_obj | (simp; fail) | rule post_any)+

lemma cond_init_keeps: "sched_ok st \<Longrightarrow> post (pthread_cond_init_sys x st) (\<lambda>(r, s). sched_ok s)"
  unfolding pthread_cond_init_sys_def by (assumption | rule posts posts_obj | (simp; fail) | rule post_any)+

lemma cond_signal_keeps: "sched_ok st \<Longrightarrow> post (pthread_cond_signal_sys n1 n2 x st) ok_out"
  unfolding pthread_cond_signal_sys_def by (assumption | rule posts posts_obj | (simp; fail) | rule post_any)+

lemma cond_broadcast_keeps: "sched_ok st \<Longrightarrow> post (pthread_cond_broadcast_sys n1 n2 x st) ok_out"
  unfolding pthread_cond_broadcast_sys_def
  by (assumption | rule post_wake_all posts posts_obj | (simp; fail) | rule post_any)+

lemma cond_wait_lock_keeps: "sched_ok st \<Longrightarrow> post (cond_wait_lock n1 n2 m fl st) ok_out"
  unfolding cond_wait_lock_def by (assumption | rule mutex_lock_keeps posts posts_obj)+

lemma cond_wait_block_keeps: "sched_ok st \<Longrightarrow> post (cond_wait_block n1 n2 x m c fl st) ok_out"
  unfolding cond_wait_block_def
  by (assumption | rule cond_wait_lock_keeps posts posts_obj | (simp; fail) | rule post_any)+

lemma cond_wait_keeps: "sched_ok st \<Longrightarrow> post (pthread_cond_wait_sys n1 n2 x m st) ok_out"
  unfolding pthread_cond_wait_sys_def
  by (assumption | rule cond_wait_block_keeps mutex_unlock_keeps posts posts_obj | (simp; fail) | rule post_any)+

lemma cond_timed_end_keeps: "sched_ok st \<Longrightarrow> post (cond_timed_end env fl r st) ok_out"
  unfolding cond_timed_end_def by (assumption | rule posts posts_obj | (simp; fail))+

lemma cond_timed_lock_keeps: "sched_ok st \<Longrightarrow> post (cond_timed_lock env n1 n2 x m c fl r st) ok_out"
  unfolding cond_timed_lock_def
  by (assumption | rule cond_timed_end_keeps mutex_lock_keeps posts posts_obj | (simp; fail) | rule post_any)+

lemma cond_timed_sleep_keeps: "sched_ok st \<Longrightarrow> post (cond_timed_sleep env hw n1 n2 x m c fl d st) ok_out"
  unfolding cond_timed_sleep_def
  by (assumption | rule cond_timed_lock_keeps sleep_for_keeps posts posts_obj | (simp; fail) | rule post_any)+

lemma cond_timedwait_keeps: "sched_ok st \<Longrightarrow> post (pthread_cond_timedwait_sys env hw n1 n2 x m ts st) ok_out"
  unfolding pthread_cond_timedwait_sys_def
  by (assumption | rule cond_timed_sleep_keeps mutex_unlock_keeps posts posts_obj | (simp; fail) | rule post_any)+

end
