(* ===== verification/PInv.thy ===== *)
theory PInv
  imports PInvSync
begin

unbundle bit_operations_syntax

text \<open>
  Threads and signals keep the invariant too, when the functions of the
  application do; and with them every sequence of steps of the kernel.
\<close>

text \<open>What is assumed of the application: its functions reach the kernel through calls that keep the invariant.\<close>

definition user_keeps :: "user_code \<Rightarrow> bool" where
  "user_keeps run \<longleftrightarrow> (\<forall>a v st. sched_ok st \<longrightarrow> post (run a v st) ok_out)"

lemma post_run: "user_keeps run \<Longrightarrow> sched_ok st \<Longrightarrow> post (run a v st) ok_out"
  by (simp add: user_keeps_def)

section \<open>Threads\<close>

text \<open>A thread that is out of the queues, while the invariant holds.\<close>

definition ok_suspended :: "nat \<Rightarrow> pk_state \<Rightarrow> bool" where
  "ok_suspended a st \<longleftrightarrow> sched_ok st \<and> map_option GET_THREAD_STATE (threads st a) = Some SUSPENDED_THREAD"

lemma inert_closed_suspended: "inert_closed (ok_suspended a)"
proof -
  have "ok_suspended a s'" if "ok_suspended a s" "inert f" "upd_th b f s = Some s'" for s b f s'
  proof -
    have "sched_ok s'" using postD [OF post_upd_th [where P = sched_ok] that(3)] that by (simp add: ok_suspended_def)
    then show ?thesis using that by (auto simp: ok_suspended_def upd_th_def bind_eq_Some_conv inert_def)
  qed
  then show ?thesis by (simp add: inert_closed_def)
qed

lemma alloc_ktimer_frame_post:
  "post (alloc_ktimer ck th act st) (\<lambda>(r, s). threads s = threads st \<and> active_threads s = active_threads st)"
  unfolding alloc_ktimer_def by (rule post_any) (auto simp: bind_eq_Some_conv Let_def split: option.splits)

lemma post_alloc_suspended:
  assumes "ok_suspended a st" "\<And>k s. ok_suspended a s \<Longrightarrow> P (k, s)"
  shows "post (alloc_ktimer ck th act st) P"
proof (rule post_any)
  fix r assume r: "alloc_ktimer ck th act st = Some r"
  obtain k s where ks: "r = (k, s)" by (cases r)
  have f: "threads s = threads st" "active_threads s = active_threads st"
    using postD [OF alloc_ktimer_frame_post r] ks by simp_all
  have "ok_suspended a s" using assms(1) sched_ok_core [OF f] f(1) by (simp add: ok_suspended_def)
  then show "P r" using assms(2) ks by simp
qed

lemma create_struct_keeps:
  assumes ok: "sched_ok st" and fresh: "\<And>a. mem = Some a \<Longrightarrow> threads st a = None"
  shows "post (create_pthread_struct mem st) (\<lambda>(r, s). sched_ok s \<and> r = mem \<and> (\<forall>a. mem = Some a \<longrightarrow> ok_suspended a s))"
proof (cases mem)
  case None
  then show ?thesis using ok by (simp add: create_pthread_struct_def post_def)
next
  case (Some a)
  obtain Q where inv: "sched_inv st Q" using ok by (auto simp: sched_ok_def)
  let ?t = "(SET_THREAD_STATE SUSPENDED_THREAD (zero_thread\<lparr>magic_number := PTHREAD_MAGIC_NUMBER\<rparr>))
     \<lparr>pt_thread_list := zero_pl (Some a), pt_mutex_list := zero_pl (Some a),
      pt_cond_list := zero_pl (Some a), pt_sem_list := zero_pl (Some a)\<rparr>"
  have s: "GET_THREAD_STATE ?t = SUSPENDED_THREAD"
    using state_simps(2) [of "zero_thread\<lparr>magic_number := PTHREAD_MAGIC_NUMBER\<rparr>"] by (simp add: GET_THREAD_STATE_def)
  then have R: "ok_suspended a (st\<lparr>threads := (threads st)(a \<mapsto> ?t)\<rparr>)"
    using sched_inv_new [OF inv fresh [OF Some], of ?t] by (auto simp: sched_ok_def ok_suspended_def zero_thread_def)
  have e: "ok_suspended a s \<Longrightarrow> sched_ok (s\<lparr>thread_list := h\<rparr>) \<and> ok_suspended a (s\<lparr>thread_list := h\<rparr>)" for s h
    by (simp add: ok_suspended_def)
  show ?thesis unfolding create_pthread_struct_def Some option.case Let_def
    by (rule post_bind, rule post_alloc_suspended [OF R], rule post_pair_lit, rule post_bind, rule post_any,
        rule post_bind, rule post_upd_closed [OF inert_closed_suspended], assumption, simp, rule post_bind,
        rule post_insert_list [OF inert_closed_suspended], assumption, rule post_pair_lit, rule post_Some) (simp add: e, simp add: ok_suspended_def)
qed

lemma inert_configure_stack [simp]: "inert (\<lambda>t. t\<lparr>pt_stack := f t\<rparr>)"
  by simp

text \<open>The parameters of a new thread are set while it is in no queue.\<close>

lemma configure_keeps:
  assumes inv: "sched_inv st Q" and t: "threads st a = Some t" "GET_THREAD_STATE t \<noteq> READY_THREAD"
  shows "sched_inv (st\<lparr>threads := (threads st)(a \<mapsto> configure_thread attr t)\<rparr>) Q"
proof -
  let ?f = "configure_thread attr" let ?st = "st\<lparr>threads := (threads st)(a \<mapsto> ?f t)\<rparr>"
  have f: "next_matrix (?f t) = next_matrix t" "prev_matrix (?f t) = prev_matrix t" "ss_i (?f t) = ss_i t"
    "ss_j (?f t) = ss_j t" "GET_THREAD_STATE (?f t) = GET_THREAD_STATE t" for t
    by (cases attr; simp add: configure_thread_def SET_THREAD_POLICY_def SET_THREAD_DETACH_STATE_def
        GET_THREAD_STATE_def flag_masks policy_mask)+
  have v: "ready_queues ?st = ready_queues st" "detached ?st = detached st"
    using views_upd [OF t(1), of ?f] f t(1) by (auto intro!: queues_eqI split: if_splits)
  have "a \<notin> set (Q p)" if "p < 1024" for p using sched_invD [OF inv t(1)] t(2) that by (auto simp: unqueued_def)
  then show ?thesis using inv v sched_invD [OF inv t(1)] f by (auto simp: sched_inv_def)
qed

lemma post_configure:
  assumes "ok_suspended a st" "\<And>s. sched_ok s \<Longrightarrow> P s"
  shows "post (upd_th a (configure_thread attr) st) P"
proof -
  obtain Q t where q: "sched_inv st Q" "threads st a = Some t" "GET_THREAD_STATE t = SUSPENDED_THREAD"
    using assms(1) by (auto simp: ok_suspended_def sched_ok_def)
  then have "sched_ok (st\<lparr>threads := (threads st)(a \<mapsto> configure_thread attr t)\<rparr>)"
    using configure_keeps [OF q(1,2)] by (auto simp: sched_ok_def)
  then show ?thesis using q(2) assms(2) by (auto simp: post_def)
qed

lemma create_stack_keeps: "sched_ok st \<Longrightarrow> post (create_stack m a st) (\<lambda>(r, s). sched_ok s)"
  unfolding create_stack_def by (assumption | rule posts | (simp; fail) | rule post_any)+

lemma create_ret_keeps: "sched_ok st \<Longrightarrow> post (create_ret st) ok_out"
  by (simp add: create_ret_def post_def)

lemma post_out: "post m ok_out \<Longrightarrow> (\<And>r. ok_out r \<Longrightarrow> P r) \<Longrightarrow> post m P"
  by (auto simp: post_def)

lemma pthread_create_keeps:
  assumes ok: "sched_ok st" and fresh: "\<And>a. mem = Some a \<Longrightarrow> threads st a = None"
  shows "post (pthread_create_sys n1 n2 mem smem su attr sr ar st) (\<lambda>(t, r). ok_out r)"
proof -
  have c: "post (create_pthread_struct mem (st\<lparr>pk_if := False\<rparr>)) P"
    if "\<And>s. sched_ok s \<Longrightarrow> (\<forall>a. mem = Some a \<longrightarrow> ok_suspended a s) \<Longrightarrow> P (mem, s)" for P
    using create_struct_keeps [of "st\<lparr>pk_if := False\<rparr>" mem] ok fresh that by (fastforce simp: post_def)
  have ok0: "sched_ok (st\<lparr>pk_if := False\<rparr>)" using ok by simp
  show ?thesis unfolding pthread_create_sys_def
    by (assumption | rule ok0 c post_out [OF fails_keeps] post_configure post_pair [OF create_stack_keeps]
          post_out [OF post_sched_then] create_ret_keeps posts posts_time
        | (simp; fail) | (fastforce; fail) | rule post_any)+
qed

lemma join_end_keeps: "sched_ok st \<Longrightarrow> post (join_end a v fl st) ok_out"
  unfolding join_end_def by (rule post_bind, rule post_any) (assumption | rule posts | (simp; fail))+

lemma join_loop_keeps:
  assumes "join_loop n1 n2 a v fl b st = Some r"
  shows "sched_ok st \<longrightarrow> ok_out r"
  apply (rule join_loop.raw_induct [where P = "\<lambda>n1 n2 a v fl b st r. sched_ok st \<longrightarrow> ok_out r", OF _ assms])
  subgoal premises prems for f n1 n2 a v fl b st r
  proof -
    have ih: "sched_ok s \<Longrightarrow> post (f m1 m2 a' v' fl' b' s) ok_out" for m1 m2 a' v' fl' b' s
      using prems(1) by (auto simp: post_def)
    show ?thesis
      by (rule impI, rule postD [OF _ prems(2)])
        (assumption | rule ih join_end_keeps posts posts_obj | (simp; fail) | rule post_any)+
  qed
  done

lemma post_join_loop: "sched_ok st \<Longrightarrow> post (join_loop n1 n2 a v fl b st) ok_out"
  using join_loop_keeps by (auto simp: post_def)

lemma pthread_join_keeps: "sched_ok st \<Longrightarrow> post (pthread_join_sys n1 n2 a v st) ok_out"
  unfolding pthread_join_sys_def
  by (assumption | rule post_join_loop posts posts_obj | (simp; fail) | rule post_any)+

lemma pthread_detach_keeps: "sched_ok st \<Longrightarrow> post (pthread_detach_sys n1 n2 a st) ok_out"
  unfolding pthread_detach_sys_def
  by (assumption | rule create_ret_keeps posts posts_obj | (simp; fail) | rule post_any)+

lemma pthread_cancel_keeps: "sched_ok st \<Longrightarrow> post (pthread_cancel_sys a st) (\<lambda>(r, s). sched_ok s)"
  unfolding pthread_cancel_sys_def by (assumption | rule posts posts_obj | (simp; fail) | rule post_any)+

lemma setcancelstate_keeps: "sched_ok st \<Longrightarrow> post (pthread_setcancelstate_sys a b st) (\<lambda>(r, x, s). sched_ok s)"
  unfolding pthread_setcancelstate_sys_def
  by (rule post_bind, rule post_any, rule post_bind, rule post_any) (assumption | rule posts posts_obj | (simp; fail))+

lemma setcanceltype_keeps: "sched_ok st \<Longrightarrow> post (pthread_setcanceltype_sys a b st) (\<lambda>(r, x, s). sched_ok s)"
  unfolding pthread_setcanceltype_sys_def
  by (rule post_bind, rule post_any, rule post_bind, rule post_any) (assumption | rule posts posts_obj | (simp; fail))+

lemma cleanup_pop_keeps: "user_keeps run \<Longrightarrow> sched_ok st \<Longrightarrow> post (pthread_cleanup_pop_sys run ex st) ok_out"
  unfolding pthread_cleanup_pop_sys_def
  by (assumption | rule post_run posts posts_obj | (simp; fail) | rule post_any)+

lemma cleanup_push_keeps: "sched_ok st \<Longrightarrow> post (pthread_cleanup_push_sys r a st) sched_ok"
  unfolding pthread_cleanup_push_sys_def
  by (assumption | rule posts posts_obj | (simp; fail) | rule post_any)+

lemma once_keeps: "sched_ok st \<Longrightarrow> post (pthread_once_sys oc ir st) (\<lambda>(r, c, i, s). sched_ok s)"
  unfolding pthread_once_sys_def Let_def
  by (assumption | rule posts posts_obj | (simp; fail) | rule post_any)+

lemma post_outcome:
  assumes "post m ok_out" "\<And>x s. sched_ok s \<Longrightarrow> post (f x s) ok_out"
  shows "post (Option.bind m (\<lambda>r. case r of Returned x s \<Rightarrow> f x s | Switched s \<Rightarrow> Some (Switched s)
           | Halted e s \<Rightarrow> Some (Halted e s))) ok_out"
proof (cases m)
  case (Some y)
  then show ?thesis using assms by (cases y) (auto simp: post_def)
qed (simp add: post_def)

lemma cleanup_loop_keeps:
  assumes "cleanup_loop run st = Some r"
  shows "user_keeps run \<longrightarrow> sched_ok st \<longrightarrow> ok_out r"
  apply (rule cleanup_loop.raw_induct [where P = "\<lambda>run st r. user_keeps run \<longrightarrow> sched_ok st \<longrightarrow> ok_out r", OF _ assms])
  subgoal premises prems for f run st r
  proof -
    have ih: "user_keeps run' \<Longrightarrow> sched_ok s \<Longrightarrow> post (f run' s) ok_out" for run' s
      using prems(1) by (auto simp: post_def)
    show ?thesis
      by (rule impI, rule impI, rule postD [OF _ prems(2)])
        (assumption | rule ih post_outcome post_run posts posts_obj | (simp; fail) | rule post_any)+
  qed
  done

lemma post_cleanup_loop: "user_keeps run \<Longrightarrow> sched_ok st \<Longrightarrow> post (cleanup_loop run st) ok_out"
  using cleanup_loop_keeps by (auto simp: post_def)

lemma exit_sys_keeps: "sched_ok st \<Longrightarrow> post (exit_sys e st) ok_out"
  by (simp add: exit_sys_def post_def)

lemma exit_end_keeps: "sched_ok st \<Longrightarrow> post (exit_end n1 n2 v st) ok_out"
  unfolding exit_end_def
  by (assumption | rule exit_sys_keeps posts posts_obj | (simp; fail) | rule post_any)+

lemma pthread_exit_keeps: "user_keeps run \<Longrightarrow> sched_ok st \<Longrightarrow> post (pthread_exit_sys run n1 n2 v st) ok_out"
  unfolding pthread_exit_sys_def
  by (assumption | rule post_cleanup_loop exit_end_keeps posts posts_obj | (simp; fail) | rule post_any)+

lemma startup_keeps: "user_keeps run \<Longrightarrow> sched_ok st \<Longrightarrow> post (startup run n n1 n2 r a st) ok_out"
  unfolding startup_def
  by (assumption | rule post_run pthread_exit_keeps posts posts_obj | (simp; fail) | rule post_any)+

lemma getschedparam_keeps: "sched_ok st \<Longrightarrow> post (pthread_getschedparam_sys a st) (\<lambda>(r, x, s). sched_ok s)"
  unfolding pthread_getschedparam_sys_def by (assumption | rule posts posts_obj | (simp; fail) | rule post_any)+

lemma post_set_param_then:
  assumes "sched_ok st" "\<And>s. sched_ok s \<Longrightarrow> post (g s) P"
  shows "post (upd_th a (\<lambda>t. t\<lparr>pt_sched_param := p\<rparr>) st) (\<lambda>s. post (Option.bind (change_thread_prio a q s) g) P)"
  by (rule post_mono [OF post_set_param [OF assms(1), of "\<lambda>s. post (g s) P"]]) (auto intro: assms(2) post_bind)

lemma setschedparam_keeps: "sched_ok st \<Longrightarrow> post (pthread_setschedparam_sys n1 n2 a pol p st) ok_out"
  unfolding pthread_setschedparam_sys_def
  by (assumption | rule post_set_param_then create_ret_keeps posts_obj posts | (simp; fail) | rule post_any)+

lemma delete_np_keeps: "sched_ok st \<Longrightarrow> post (pthread_delete_np_sys n1 n2 a st) ok_out"
  unfolding pthread_delete_np_sys_def
  by (assumption | rule posts posts_obj | (simp; fail) | rule post_any)+

lemma setperiod_keeps: "sched_ok st \<Longrightarrow> post (pthread_setperiod_np_sys a v st) (\<lambda>(r, s). sched_ok s)"
  unfolding pthread_setperiod_np_sys_def by (assumption | rule posts posts_obj | (simp; fail) | rule post_any)+

lemma getperiod_keeps: "sched_ok st \<Longrightarrow> post (pthread_getperiod_np_sys a p st) (\<lambda>(r, x, s). sched_ok s)"
  unfolding pthread_getperiod_np_sys_def by (assumption | rule posts posts_obj | (simp; fail) | rule post_any)+

lemma key_create_keeps: "sched_ok st \<Longrightarrow> post (pthread_key_create_sys k d st) (\<lambda>(r, x, s). sched_ok s)"
  unfolding pthread_key_create_sys_def by (assumption | rule posts posts_obj | (simp; fail) | rule post_any)+

lemma setspecific_keeps: "sched_ok st \<Longrightarrow> post (pthread_setspecific_sys k v st) (\<lambda>(r, s). sched_ok s)"
  unfolding pthread_setspecific_sys_def by (assumption | rule posts posts_obj | (simp; fail) | rule post_any)+

lemma getspecific_keeps: "sched_ok st \<Longrightarrow> post (pthread_getspecific_sys k st) (\<lambda>(r, s). sched_ok s)"
  unfolding pthread_getspecific_sys_def by (assumption | rule posts posts_obj | (simp; fail) | rule post_any)+

lemma key_delete_end_keeps: "sched_ok st \<Longrightarrow> post (key_delete_end k st) ok_out"
  unfolding key_delete_end_def by (rule post_bind, rule post_any) (simp add: post_Some)

lemma key_delete_keeps: "user_keeps run \<Longrightarrow> sched_ok st \<Longrightarrow> post (pthread_key_delete_sys run k st) ok_out"
  unfolding pthread_key_delete_sys_def
  by (assumption | rule post_run key_delete_end_keeps posts posts_obj | (simp; fail) | rule post_any)+

section \<open>Signals\<close>

lemma init_signals_keeps: "sched_ok (snd (init_signals st)) = sched_ok st"
  by (simp add: init_signals_def)

lemma sigaction_keeps: "sched_ok st \<Longrightarrow> post (sigaction_sys s a oa st) (\<lambda>(r, x, s). sched_ok s)"
  unfolding sigaction_sys_def by (assumption | rule posts posts_obj | (simp; fail) | rule post_any)+

lemma sigmask_keeps: "sched_ok st \<Longrightarrow> post (pthread_sigmask_sys h s oset st) (\<lambda>(r, x, s). sched_ok s)"
  unfolding pthread_sigmask_sys_def
  by (assumption | rule posts posts_obj | (simp; fail) | rule post_any)+

lemma sigsuspend_rest_keeps: "sched_ok st \<Longrightarrow> post (sigsuspend_rest m fl st) ok_out"
  unfolding sigsuspend_rest_def by (assumption | rule posts posts_obj | (simp; fail) | rule post_any)+

lemma sigsuspend_keeps: "sched_ok st \<Longrightarrow> post (sigsuspend_sys n1 n2 m st) ok_out"
  unfolding sigsuspend_sys_def
  by (assumption | rule sigsuspend_rest_keeps posts posts_obj | (simp; fail) | rule post_any)+

lemma take_signal_keeps: "sched_ok st \<Longrightarrow> post (take_signal c p s fl st) ok_out"
  unfolding take_signal_def by (assumption | rule posts posts_obj | (simp; fail) | rule post_any)+

lemma sigwait_rest_keeps: "sched_ok st \<Longrightarrow> post (sigwait_rest m s fl st) ok_out"
  unfolding sigwait_rest_def
  by (assumption | rule take_signal_keeps posts posts_obj | (simp; fail) | rule post_any)+

lemma sigwait_keeps: "sched_ok st \<Longrightarrow> post (sigwait_sys n1 n2 m s st) ok_out"
  unfolding sigwait_sys_def
  by (assumption | rule take_signal_keeps sigsuspend_keeps sigwait_rest_keeps posts posts_obj | (simp; fail) | rule post_any)+

lemma run_handler_keeps: "user_keeps run \<Longrightarrow> sched_ok st \<Longrightarrow> post (run_handler run n1 n2 h s st) ok_out"
  unfolding run_handler_def
  by (cases h; simp only: sig_handler.case)
    (assumption | rule exit_sys_keeps pthread_exit_keeps post_run posts posts_obj | (simp; fail) | rule post_any)+

lemma signals_loop_keeps: "user_keeps run \<Longrightarrow> sched_ok st \<Longrightarrow> post (signals_loop run n1 n2 old fl ss p st) ok_out"
proof (induction ss arbitrary: p st)
  case Nil
  then show ?case unfolding signals_loop.simps
    by - (assumption | rule posts posts_obj | (simp; fail) | rule post_any)+
next
  case (Cons s ss)
  have e: "sched_ok st \<Longrightarrow> post (signals_loop run n1 n2 old fl [] p st) ok_out" for st
    unfolding signals_loop.simps by (assumption | rule posts posts_obj | (simp; fail) | rule post_any)+
  show ?case unfolding signals_loop.simps(2)
    by (insert Cons.prems) (assumption | rule e Cons.IH run_handler_keeps posts posts_obj | (simp; fail) | rule post_any)+
qed

lemma inert_id [simp]: "inert (\<lambda>t. t)"
  by (simp add: inert_def)

lemma do_signals_keeps: "user_keeps run \<Longrightarrow> sched_ok st \<Longrightarrow> post (do_signals run n1 n2 st) ok_out"
  unfolding do_signals_def Let_def
  by (assumption | rule signals_loop_keeps posts posts_obj | (simp; fail) | rule post_any)+

end
