(* ===== verification/PFs.thy ===== *)
theory PFs
  imports PSignal
begin

unbundle bit_operations_syntax

text \<open>
  PaRTiKle's files and devices (core/kernel/port/fs.c, dev.c).  A device is the record of its functions, as in the C code; they
  take and return the state of the whole system, which adds to the kernel's
  state the table of open files and the tables of interrupts (PIrq).  A path is
  a string without its final NUL.
\<close>

section \<open>State\<close>

definition KNAMELEN :: nat where "KNAMELEN = 28"
definition MAX_FILES :: nat where "MAX_FILES = 128"
definition Nodev :: int where "Nodev = -1"
definition ENFILE :: int where "ENFILE = 23"

record Qid =
  q_path :: nat
  q_vers :: nat
  q_type :: u8

record File =
  f_type :: int
  f_qid :: Qid
  f_flags :: int
  f_pos :: int

text \<open>The functions an interrupt or a trap can be bound to: those of the kernel, or one of the application.\<close>

datatype irq_handler = default_irq_handler | xmtimer_irq_handler | user_irq_handler nat

datatype trap_handler = unexpected_trap | user_trap_handler nat

text \<open>
  The page that the domain shares with XtratuM (include/xm_i386/xm_syscalls.h),
  with the handler of each event: do_irq or none.  An entry of hw_irq_ctrl is
  set once it holds the functions of XtratuM; the handler of the timer is
  clock_handler once it is set.
\<close>

record event_page =
  intercepted_events :: u32
  masked_events :: u32
  pending_events :: u32
  event_handler :: "bool list"
  event_flags :: u32

record os_state =
  kern :: pk_state
  files :: "File list"
  irq_handler_table :: "irq_handler list"
  trap_handler_table :: "trap_handler list"
  hw_irq_ctrl :: "bool list"
  xmtimer_user_handler :: bool
  event_handling :: "event_page option"

definition zero_qid :: Qid where
  "zero_qid = \<lparr>q_path = 0, q_vers = 0, q_type = 0\<rparr>"

definition zero_file :: File where
  "zero_file = \<lparr>f_type = Nodev, f_qid = zero_qid, f_flags = 0, f_pos = 0\<rparr>"

definition fail_os :: "int \<Rightarrow> os_state \<Rightarrow> (int \<times> os_state) option" where
  "fail_os e os = do { k \<leftarrow> SET_ERRNO e (kern os); Some (-1, os\<lparr>kern := k\<rparr>) }"

text \<open>A function that is missing from the table of a device is a NULL pointer.\<close>

record Dev =
  dc :: char
  d_name :: string
  d_init :: "os_state \<Rightarrow> (int \<times> os_state) option"
  d_open :: "string \<Rightarrow> int \<Rightarrow> os_state \<Rightarrow> (int \<times> os_state) option"
  d_read :: "nat \<Rightarrow> int \<Rightarrow> int \<Rightarrow> os_state \<Rightarrow> (int \<times> u8 list \<times> os_state) option"
  d_write :: "nat \<Rightarrow> u8 list \<Rightarrow> int \<Rightarrow> os_state \<Rightarrow> (int \<times> os_state) option"
  d_close :: "nat \<Rightarrow> os_state \<Rightarrow> os_state option"
  d_ioctl :: "(nat \<Rightarrow> nat \<Rightarrow> nat \<Rightarrow> os_state \<Rightarrow> (int \<times> os_state) option) option"
  d_mmap :: "(nat \<Rightarrow> nat \<Rightarrow> nat \<Rightarrow> int \<Rightarrow> int \<Rightarrow> int \<Rightarrow> os_state \<Rightarrow> (int \<times> nat \<times> os_state) option) option"

section \<open>Devices\<close>

definition mkqid :: "nat \<Rightarrow> nat \<Rightarrow> u8 \<Rightarrow> Qid" where
  "mkqid path vers type = \<lparr>q_path = path, q_vers = vers, q_type = type\<rparr>"

text \<open>devno only looks at the characters of the devices.\<close>

definition devno :: "char list \<Rightarrow> char \<Rightarrow> int" where
  "devno dcs c = (case List.find (\<lambda>i. dcs ! i = c) [0..<length dcs] of Some i \<Rightarrow> int i | None \<Rightarrow> -1)"

fun init_devs :: "Dev list \<Rightarrow> int \<Rightarrow> os_state \<Rightarrow> (int \<times> os_state) option" where
  "init_devs [] ret os = Some (ret, os)"
| "init_devs (d # ds) ret os = do { (r, os1) \<leftarrow> d_init d os; init_devs ds r os1 }"

text \<open>off and n are unsigned: their sum wraps, and then n is not cut.\<close>

definition readstr :: "nat \<Rightarrow> nat \<Rightarrow> u8 list \<Rightarrow> (int \<times> u8 list) option" where
  "readstr off n str =
    (if off \<ge> length str then Some (0, [])
     else let n' = (if (off + n) mod 2 ^ 32 > length str then length str - off else n) in
       do { _ \<leftarrow> guard_c (off + n' \<le> length str); Some (int n', take n' (drop off str)) })"

definition devinit :: "os_state \<Rightarrow> (int \<times> os_state) option" where "devinit os = Some (0, os)"
definition devopen :: "string \<Rightarrow> int \<Rightarrow> os_state \<Rightarrow> (int \<times> os_state) option" where "devopen name omode os = Some (0, os)"
definition devread :: "nat \<Rightarrow> int \<Rightarrow> int \<Rightarrow> os_state \<Rightarrow> (int \<times> u8 list \<times> os_state) option" where
  "devread fd n offset os = Some (0, [], os)"
definition devwrite :: "nat \<Rightarrow> u8 list \<Rightarrow> int \<Rightarrow> os_state \<Rightarrow> (int \<times> os_state) option" where
  "devwrite fd str offset os = Some (0, os)"
definition devclose :: "nat \<Rightarrow> os_state \<Rightarrow> os_state option" where "devclose fd os = Some os"

section \<open>Descriptors\<close>

definition newfd :: "os_state \<Rightarrow> nat option" where
  "newfd os = do {
     _ \<leftarrow> guard_c (length (files os) = MAX_FILES);
     Some (case List.find (\<lambda>fd. f_type (files os ! fd) = Nodev) [0..<MAX_FILES] of Some fd \<Rightarrow> fd | None \<Rightarrow> MAX_FILES) }"

definition freefd :: "int \<Rightarrow> os_state \<Rightarrow> (int \<times> os_state) option" where
  "freefd fd os =
    (if fd < 0 \<or> int MAX_FILES < fd then Some (-1, os)
     else do { fs \<leftarrow> wr (files os) (nat fd) zero_file; Some (0, os\<lparr>files := fs\<rparr>) })"

definition checkfd :: "int \<Rightarrow> os_state \<Rightarrow> (int \<times> os_state) option" where
  "checkfd fd os =
    (if to_u32 fd \<ge> int MAX_FILES then fail_os EBADF os
     else do { f \<leftarrow> rd (files os) (nat fd); if f_type f = Nodev then fail_os EBADF os else Some (0, os) })"

text \<open>The device that serves an open file.\<close>

definition dev_at :: "Dev list \<Rightarrow> int \<Rightarrow> Dev option" where
  "dev_at devtab i = (if 0 \<le> i then rd devtab (nat i) else None)"

definition dev_of :: "Dev list \<Rightarrow> int \<Rightarrow> os_state \<Rightarrow> (File \<times> Dev) option" where
  "dev_of devtab fd os = do { f \<leftarrow> rd (files os) (nat fd); d \<leftarrow> dev_at devtab (f_type f); Some (f, d) }"

section \<open>The calls\<close>

definition isdigit :: "char \<Rightarrow> bool" where
  "isdigit c \<longleftrightarrow> to_u32 (of_char c - 48) < 10"

text \<open>The index where the name of the device ends, the length of the path when nothing ends it.\<close>

definition name_end :: "string \<Rightarrow> nat" where
  "name_end path = 5 + length (takeWhile (\<lambda>c. \<not> (isdigit c \<or> c = CHR ''/'')) (drop 5 path))"

definition open_sys :: "Dev list \<Rightarrow> string \<Rightarrow> int \<Rightarrow> int \<Rightarrow> os_state \<Rightarrow> (int \<times> os_state) option" where
  "open_sys devtab path flags mode os =
    (if take 5 path \<noteq> ''/dev/'' then do {
       d \<leftarrow> dev_at devtab (devno (map dc devtab) (CHR ''/''));
       d_open d path mode os }
     else let i = name_end path in
       if i = length path then fail_os ENOENT os
       else do {
         _ \<leftarrow> guard_c (i + 1 \<le> KNAMELEN);
         (case List.find (\<lambda>d. d_name d = take (i - 5) (drop 5 path)) devtab of
            None \<Rightarrow> fail_os ENOENT os
          | Some d \<Rightarrow> d_open d path mode os) })"

definition close_sys :: "Dev list \<Rightarrow> int \<Rightarrow> os_state \<Rightarrow> (int \<times> os_state) option" where
  "close_sys devtab fd os = do {
     (ret, os0) \<leftarrow> checkfd fd os;
     if ret < 0 then Some (ret, os0)
     else do {
       (_, d) \<leftarrow> dev_of devtab fd os0;
       os1 \<leftarrow> d_close d (nat fd) os0;
       (_, os2) \<leftarrow> freefd fd os1;
       Some (0, os2) } }"

definition write_sys :: "Dev list \<Rightarrow> int \<Rightarrow> u8 list \<Rightarrow> os_state \<Rightarrow> (int \<times> os_state) option" where
  "write_sys devtab fd buf os = do {
     (ret, os0) \<leftarrow> checkfd fd os;
     if ret < 0 then Some (ret, os0)
     else do {
       (f, d) \<leftarrow> dev_of devtab fd os0;
       (r, os1) \<leftarrow> d_write d (nat fd) buf (f_pos f) os0;
       Some (if r < 0 then to_s32 (- r) else r, os1) } }"

text \<open>The bytes written to the buffer of the caller come with the result.\<close>

definition read_sys :: "Dev list \<Rightarrow> int \<Rightarrow> int \<Rightarrow> os_state \<Rightarrow> (int \<times> u8 list \<times> os_state) option" where
  "read_sys devtab fd n os = do {
     (ret, os0) \<leftarrow> checkfd fd os;
     if ret < 0 then Some (ret, [], os0)
     else do {
       (f, d) \<leftarrow> dev_of devtab fd os0;
       (r, buf, os1) \<leftarrow> d_read d (nat fd) n (f_pos f) os0;
       Some (if r < 0 then to_s32 (- r) else r, buf, os1) } }"

definition mmap_sys ::
  "Dev list \<Rightarrow> nat \<Rightarrow> nat \<Rightarrow> int \<Rightarrow> int \<Rightarrow> int \<Rightarrow> int \<Rightarrow> os_state \<Rightarrow> (int \<times> os_state) option" where
  "mmap_sys devtab start len prot flags fd offset os = do {
     (ret, os0) \<leftarrow> checkfd fd os;
     if ret < 0 then Some (EBADF, os0)
     else do {
       (f, d) \<leftarrow> dev_of devtab fd os0;
       (case d_mmap d of
          None \<Rightarrow> Some (EINVAL, os0)
        | Some m \<Rightarrow> do {
            (r, result, os1) \<leftarrow> m (nat fd) start len prot flags offset os0;
            Some (if r \<noteq> 0 then r else int result, os1) }) } }"

definition munmap_sys :: "nat \<Rightarrow> nat \<Rightarrow> int" where "munmap_sys start len = 0"
definition lseek_sys :: "int \<Rightarrow> int \<Rightarrow> int \<Rightarrow> int" where "lseek_sys fd offset whence = 0"

definition ioctl_sys :: "Dev list \<Rightarrow> int \<Rightarrow> nat \<Rightarrow> nat \<Rightarrow> os_state \<Rightarrow> (int \<times> os_state) option" where
  "ioctl_sys devtab fd cmd arg os = do {
     (ret, os0) \<leftarrow> checkfd fd os;
     if ret < 0 then Some (ret, os0)
     else do {
       (_, d) \<leftarrow> dev_of devtab fd os0;
       op \<leftarrow> d_ioctl d;
       (r, os1) \<leftarrow> op (nat fd) cmd arg os0;
       Some (if r < 0 then to_s32 (- r) else 0, os1) } }"

section \<open>The contract of a device\<close>

definition types :: "os_state \<Rightarrow> int list" where
  "types os = map f_type (files os)"

text \<open>What an open of the device k may do to the table: nothing, or take the lowest free descriptor for k.\<close>

definition opens :: "int \<Rightarrow> os_state \<Rightarrow> int \<Rightarrow> os_state \<Rightarrow> bool" where
  "opens k os r os' \<longleftrightarrow> (r = -1 \<and> types os' = types os) \<or>
     (\<exists>fd<MAX_FILES. r = int fd \<and> newfd os = Some fd \<and> types os' = (types os)[fd := k])"

locale device =
  fixes d :: Dev and k :: int
  assumes open_contract: "d_open d path mode os = Some (r, os') \<Longrightarrow> length (files os) = MAX_FILES \<Longrightarrow> opens k os r os'"
    and read_contract: "d_read d fd n off os = Some (r, buf, os') \<Longrightarrow> types os' = types os"
    and write_contract: "d_write d fd bytes off os = Some (r, os') \<Longrightarrow> types os' = types os"
    and close_contract: "fd < MAX_FILES \<Longrightarrow> length (files os) = MAX_FILES \<Longrightarrow>
      \<exists>os'. d_close d fd os = Some os' \<and> (types os' = types os \<or> types os' = (types os)[fd := Nodev])"
    and ioctl_contract: "d_ioctl d = Some op \<Longrightarrow> op fd cmd arg os = Some (r, os') \<Longrightarrow> types os' = types os"
    and mmap_contract: "d_mmap d = Some mm \<Longrightarrow> mm fd start len prot fl off os = Some (r, res, os') \<Longrightarrow> types os' = types os"

text \<open>A table of devices each of which keeps the contract for its own index.\<close>

locale filesystem =
  fixes devtab :: "Dev list"
  assumes devices: "i < length devtab \<Longrightarrow> device (devtab ! i) (int i)"

text \<open>Every descriptor is free or belongs to a device of the table.\<close>

definition fs_ok :: "Dev list \<Rightarrow> os_state \<Rightarrow> bool" where
  "fs_ok devtab os \<longleftrightarrow> length (types os) = MAX_FILES \<and>
     (\<forall>t\<in>set (types os). t = Nodev \<or> (0 \<le> t \<and> t < int (length devtab)))"

lemma types_length: "length (types os) = length (files os)"
  by (simp add: types_def)

lemma types_kern [simp]: "types (os\<lparr>kern := k\<rparr>) = types os"
  by (simp add: types_def)

lemma fail_os_types: "fail_os e os = Some (r, os') \<Longrightarrow> r = -1 \<and> types os' = types os"
  by (auto simp: fail_os_def bind_eq_Some_conv)

lemma checkfd_types: "checkfd fd os = Some (r, os') \<Longrightarrow> types os' = types os \<and> (r = 0 \<and> os' = os \<or> r = -1)"
  by (auto simp: checkfd_def bind_eq_Some_conv split: if_splits dest: fail_os_types)

lemma checkfd_open:
  assumes "checkfd fd os = Some (0, os')"
  shows "0 \<le> to_u32 fd" "to_u32 fd < int MAX_FILES" "nat fd < length (files os)" "f_type (files os ! nat fd) \<noteq> Nodev"
  using assms by (auto simp: checkfd_def bind_eq_Some_conv rd_eq_Some_iff to_u32_def split: if_splits dest: fail_os_types)

lemma devno_props: "devno dcs c = int i \<Longrightarrow> i < length dcs \<and> dcs ! i = c"
  by (auto simp: devno_def find_upt_Some_iff split: option.splits)

lemma newfd_props:
  assumes "newfd os = Some fd"
  shows "fd < MAX_FILES \<Longrightarrow> types os ! fd = Nodev" "\<And>j. j < fd \<Longrightarrow> types os ! j \<noteq> Nodev" "fd \<le> MAX_FILES"
    "length (types os) = MAX_FILES"
  using assms by (auto simp: newfd_def types_def bind_eq_Some_conv find_upt_Some_iff find_upt_None_iff split: option.splits)

lemma freefd_types:
  assumes "freefd (int fd) os = Some (r, os')" "fd < MAX_FILES"
  shows "r = 0 \<and> types os' = (types os)[fd := Nodev]"
  using assms by (auto simp: freefd_def bind_eq_Some_conv wr_eq_Some_iff types_def zero_file_def map_update split: if_splits)

context filesystem begin

lemma dev_at_device: "dev_at devtab i = Some d \<Longrightarrow> device d i"
  using devices [of "nat i"] by (auto simp: dev_at_def rd_eq_Some_iff split: if_splits)

lemma find_device:
  assumes "List.find P devtab = Some d"
  obtains i where "i < length devtab" "device d (int i)"
  using assms devices by (auto simp: find_Some_iff)

lemma opens_ok: "fs_ok devtab os \<Longrightarrow> opens k os r os' \<Longrightarrow> 0 \<le> k \<Longrightarrow> k < int (length devtab) \<Longrightarrow> fs_ok devtab os'"
  by (auto simp: fs_ok_def opens_def dest!: set_update_subset_insert [THEN subsetD])

lemma open_keeps:
  assumes ok: "fs_ok devtab os" and r: "open_sys devtab path fl m os = Some (r, os')"
  shows "fs_ok devtab os' \<and> (r = -1 \<and> types os' = types os \<or>
    (\<exists>k. 0 \<le> k \<and> k < int (length devtab) \<and> opens k os r os'))"
proof -
  have len: "length (files os) = MAX_FILES" using ok by (simp add: fs_ok_def types_length)
  have d: "fs_ok devtab os' \<and> (\<exists>k. 0 \<le> k \<and> k < int (length devtab) \<and> opens k os r os')"
    if "device d k" "0 \<le> k" "k < int (length devtab)" "d_open d path m os = Some (r, os')" for d k
    using device.open_contract [OF that(1,4) len] opens_ok [OF ok _ that(2,3)] that(2,3) by blast
  have f: "fs_ok devtab os' \<and> r = -1 \<and> types os' = types os" if "fail_os e os = Some (r, os')" for e
    using fail_os_types [OF that] ok by (simp add: fs_ok_def)
  consider (root) x k where "dev_at devtab k = Some x" "d_open x path m os = Some (r, os')"
    | (fails) e where "fail_os e os = Some (r, os')"
    | (dev) x P where "List.find P devtab = Some x" "d_open x path m os = Some (r, os')"
    using r by (auto simp: open_sys_def Let_def bind_eq_Some_conv split: if_splits option.splits)
  then show ?thesis
  proof cases
    case root
    then have "0 \<le> k" "k < int (length devtab)" by (auto simp: dev_at_def rd_eq_Some_iff split: if_splits)
    then show ?thesis using d [OF dev_at_device [OF root(1)] _ _ root(2)] by blast
  next
    case fails
    then show ?thesis using f by blast
  next
    case dev
    then show ?thesis using d find_device by (metis of_nat_0_le_iff of_nat_less_iff)
  qed
qed

lemma dev_types:
  assumes "dev_at devtab i = Some d"
  shows "d_read d fd n off os = Some (r, buf, os') \<Longrightarrow> types os' = types os"
    "d_write d fd buf off os = Some (r, os') \<Longrightarrow> types os' = types os"
    "d_ioctl d = Some op \<Longrightarrow> op fd cmd arg os = Some (r, os') \<Longrightarrow> types os' = types os"
    "d_mmap d = Some mm \<Longrightarrow> mm fd start len prot fl off os = Some (r, res, os') \<Longrightarrow> types os' = types os"
proof -
  have "device d i" using dev_at_device [OF assms] .
  then show "d_read d fd n off os = Some (r, buf, os') \<Longrightarrow> types os' = types os"
    "d_write d fd buf off os = Some (r, os') \<Longrightarrow> types os' = types os"
    "d_ioctl d = Some op \<Longrightarrow> op fd cmd arg os = Some (r, os') \<Longrightarrow> types os' = types os"
    "d_mmap d = Some mm \<Longrightarrow> mm fd start len prot fl off os = Some (r, res, os') \<Longrightarrow> types os' = types os"
    by (blast dest: device.read_contract device.write_contract device.ioctl_contract device.mmap_contract)+
qed

lemma call_types:
  shows "read_sys devtab fd n os = Some (r, bytes, os') \<Longrightarrow> types os' = types os"
    "write_sys devtab fd bytes os = Some (r, os') \<Longrightarrow> types os' = types os"
    "ioctl_sys devtab fd cmd arg os = Some (r, os') \<Longrightarrow> types os' = types os"
    "mmap_sys devtab start len prot fl fd off os = Some (r, os') \<Longrightarrow> types os' = types os"
  by (auto simp: read_sys_def write_sys_def ioctl_sys_def mmap_sys_def dev_of_def bind_eq_Some_conv
      split: if_splits option.splits dest!: checkfd_types dest: dev_types)

text \<open>Closing a descriptor that is open succeeds and frees it, and no other.\<close>

lemma close_frees:
  assumes ok: "fs_ok devtab os" and fd: "fd < MAX_FILES" "types os ! fd \<noteq> Nodev"
  shows "\<exists>os'. close_sys devtab (int fd) os = Some (0, os') \<and> types os' = (types os)[fd := Nodev]"
proof -
  have len: "length (files os) = MAX_FILES" using ok by (simp add: fs_ok_def types_length)
  have f: "rd (files os) fd = Some (files os ! fd)" "f_type (files os ! fd) \<noteq> Nodev"
    using len fd by (simp_all add: types_def)
  then have c: "checkfd (int fd) os = Some (0, os)"
    using fd by (simp add: checkfd_def to_u32_def MAX_FILES_def)
  have "f_type (files os ! fd) \<in> set (types os)" using len fd(1) by (simp add: types_def)
  then have t: "0 \<le> f_type (files os ! fd)" "f_type (files os ! fd) < int (length devtab)"
    using ok f(2) by (auto simp: fs_ok_def)
  then have "dev_at devtab (f_type (files os ! fd)) = Some (devtab ! nat (f_type (files os ! fd)))"
    by (simp add: dev_at_def rd_def nat_less_iff)
  then obtain d where d: "dev_at devtab (f_type (files os ! fd)) = Some d" by blast
  obtain os1 where o1: "d_close d fd os = Some os1" "types os1 = types os \<or> types os1 = (types os)[fd := Nodev]"
    using device.close_contract [OF dev_at_device [OF d] fd(1) len] by blast
  have len1: "length (files os1) = MAX_FILES" using o1(2) len by (metis length_list_update types_length)
  then obtain os2 where o2: "freefd (int fd) os1 = Some (0, os2)" "types os2 = (types os1)[fd := Nodev]"
    using freefd_types [of fd os1] fd(1) by (simp add: freefd_def)
  have "close_sys devtab (int fd) os = Some (0, os2)"
    using c f(1) d o1(1) o2(1) by (simp add: close_sys_def dev_of_def)
  moreover have "types os2 = (types os)[fd := Nodev]" using o1(2) o2(2) by auto
  ultimately show ?thesis by blast
qed

text \<open>A descriptor just opened is closed again: the table is as before.\<close>

lemma open_close:
  assumes ok: "fs_ok devtab os" and r: "open_sys devtab path fl m os = Some (int fd, os1)"
  shows "newfd os = Some fd \<and> (\<exists>os2. close_sys devtab (int fd) os1 = Some (0, os2) \<and> types os2 = types os)"
proof -
  obtain k where ok1: "fs_ok devtab os1" and k: "0 \<le> k" "opens k os (int fd) os1"
    using open_keeps [OF ok r] by auto
  then have n: "newfd os = Some fd" "fd < MAX_FILES" "types os1 = (types os)[fd := k]"
    by (auto simp: opens_def)
  have len: "length (types os) = MAX_FILES" using ok by (simp add: fs_ok_def)
  have free: "types os ! fd = Nodev" using newfd_props(1) [OF n(1,2)] .
  have "types os1 ! fd \<noteq> Nodev" using n(2,3) len k(1) by (simp add: Nodev_def)
  from close_frees [OF ok1 n(2) this] obtain os2 where
    "close_sys devtab (int fd) os1 = Some (0, os2)" "types os2 = (types os1)[fd := Nodev]" by blast
  moreover have "(types os1)[fd := Nodev] = types os" using n(3) free by (metis list_update_id list_update_overwrite)
  ultimately show ?thesis using n(1) by auto
qed

end

end
