(* ===== verification/PDevs.thy ===== *)
theory PDevs
  imports PFs
begin

unbundle bit_operations_syntax

text \<open>
  PaRTiKle's devices that need no hardware (core/kernel/port/devroot.c,
  devtest.c, devcons.c) and the table of devices of the system for XtratuM.
\<close>

section \<open>The root device\<close>

text \<open>
  devroot.c.  The tables of the files are built with the system (mkrootfs): they
  are parameters.  A name is a pointer into a copy of the path in which each
  slash is overwritten by NUL.
\<close>

definition QTDIR :: u8 where "QTDIR = 0x80"
definition QTFILE :: u8 where "QTFILE = 0"
definition MAXDEPTH :: nat where "MAXDEPTH = 10"
definition MAXPATH :: nat where "MAXPATH = 64"

record Dirtab =
  dt_name :: string
  dt_qid :: Qid
  dt_length :: int
  dt_perm :: int

record Rootdata =
  dotdot :: int
  rd_ptr :: "u8 list"
  rd_size :: int
  rd_sizep :: "int option"

fun slice_loop :: "string \<Rightarrow> nat \<Rightarrow> nat list" where
  "slice_loop [] i = [i + 1]"
| "slice_loop (c # cs) i = (if c = CHR ''/'' then (i + 1) # slice_loop cs (i + 1) else slice_loop cs (i + 1))"

definition slice :: "string \<Rightarrow> nat list \<times> nat" where
  "slice path =
    (let names = (if path = [] \<or> hd path \<noteq> CHR ''/'' then [0] else []) @ slice_loop path 0 in
     (names, length names - 1))"

definition name_at :: "string \<Rightarrow> nat \<Rightarrow> string" where
  "name_at path p = takeWhile (\<lambda>c. c \<noteq> CHR ''/'') (drop p path)"

text \<open>The search of one name: the index, rootmaxq when it is absent, and the last directory before it.\<close>

fun find_entry :: "Dirtab list \<Rightarrow> string \<Rightarrow> nat \<Rightarrow> nat \<Rightarrow> nat \<times> nat" where
  "find_entry [] name j dd = (j, dd)"
| "find_entry (d # ds) name j dd =
    (if dt_name d = name then (j, dd)
     else find_entry ds name (j + 1) (if q_type (dt_qid d) AND QTDIR \<noteq> 0 then j else dd))"

fun root_walk :: "Dirtab list \<Rightarrow> string list \<Rightarrow> nat \<Rightarrow> nat \<Rightarrow> (nat \<times> nat) option" where
  "root_walk roottab [] j dd = Some (j, dd)"
| "root_walk roottab (name # names) j dd =
    (let (j', dd') = find_entry roottab name 0 dd in
     if j' = length roottab then None
     else if q_type (dt_qid (roottab ! j')) AND QTFILE \<noteq> 0 then Some (j', dd')
     else root_walk roottab names j' dd')"

definition rootopen ::
  "char list \<Rightarrow> Dirtab list \<Rightarrow> Rootdata list \<Rightarrow> string \<Rightarrow> int \<Rightarrow> os_state \<Rightarrow> (int \<times> os_state) option" where
  "rootopen dcs roottab rootdata name omode os = do {
     _ \<leftarrow> guard_c (length name < MAXPATH);
     let (tabname, ntab) = slice name;
     _ \<leftarrow> guard_c (length tabname \<le> MAXDEPTH);
     (case root_walk roottab (map (name_at name) (take ntab tabname)) 0 0 of
        None \<Rightarrow> fail_os ENOENT os
      | Some (j, dd) \<Rightarrow> do {
          x \<leftarrow> rd rootdata j;
          if dotdot x \<noteq> int dd then fail_os ENOENT os
          else do {
            fd \<leftarrow> newfd os;
            if fd = MAX_FILES then fail_os ENFILE os
            else do {
              t \<leftarrow> rd roottab j;
              f \<leftarrow> rd (files os) fd;
              fs \<leftarrow> wr (files os) fd (f\<lparr>f_type := devno dcs (CHR ''/''), f_qid := dt_qid t, f_pos := 0\<rparr>);
              Some (int fd, os\<lparr>files := fs\<rparr>) } } }) }"

definition root_len :: "Rootdata \<Rightarrow> int" where
  "root_len x = (if rd_size x = 0 then (case rd_sizep x of None \<Rightarrow> 0 | Some n \<Rightarrow> to_u32 n) else to_u32 (rd_size x))"

definition rootread ::
  "Rootdata list \<Rightarrow> nat \<Rightarrow> int \<Rightarrow> int \<Rightarrow> os_state \<Rightarrow> (int \<times> u8 list \<times> os_state) option" where
  "rootread rootdata fd n offset os = do {
     f \<leftarrow> rd (files os) fd;
     x \<leftarrow> rd rootdata (q_path (f_qid f));
     let len = root_len x;
     if offset < 0 \<or> offset \<ge> len then Some (0, [], os)
     else do {
       let n' = (if offset + n > len then len - offset else n);
       _ \<leftarrow> guard_c (0 \<le> n' \<and> nat offset + nat n' \<le> length (rd_ptr x));
       fs \<leftarrow> wr (files os) fd (f\<lparr>f_pos := f_pos f + n'\<rparr>);
       Some (n', take (nat n') (drop (nat offset) (rd_ptr x)), os\<lparr>files := fs\<rparr>) } }"

definition rootwrite :: "nat \<Rightarrow> u8 list \<Rightarrow> int \<Rightarrow> os_state \<Rightarrow> (int \<times> os_state) option" where
  "rootwrite fd str offset os = fail_os EPERM os"

definition rootdevtab :: "char list \<Rightarrow> Dirtab list \<Rightarrow> Rootdata list \<Rightarrow> Dev" where
  "rootdevtab dcs roottab rootdata =
     \<lparr>dc = CHR ''/'', d_name = ''root'', d_init = devinit, d_open = rootopen dcs roottab rootdata,
      d_read = rootread rootdata, d_write = rootwrite, d_close = devclose, d_ioctl = None, d_mmap = None\<rparr>"

section \<open>The test device\<close>

text \<open>devtest.c, whose functions print their arguments.\<close>

definition testopen :: "char list \<Rightarrow> string \<Rightarrow> int \<Rightarrow> os_state \<Rightarrow> (int \<times> os_state) option" where
  "testopen dcs name omode os = do {
     fd \<leftarrow> newfd os;
     if fd \<ge> MAX_FILES then fail_os ENOMEM os
     else do {
       f \<leftarrow> rd (files os) fd;
       fs \<leftarrow> wr (files os) fd (f\<lparr>f_type := devno dcs (CHR ''T'')\<rparr>);
       Some (int fd, os\<lparr>files := fs\<rparr>) } }"

definition testread :: "nat \<Rightarrow> int \<Rightarrow> int \<Rightarrow> os_state \<Rightarrow> (int \<times> u8 list \<times> os_state) option" where
  "testread fd n offset os = Some (0, [], os)"

definition testwrite :: "nat \<Rightarrow> u8 list \<Rightarrow> int \<Rightarrow> os_state \<Rightarrow> (int \<times> os_state) option" where
  "testwrite fd str offset os = Some (0, os)"

definition testclose :: "nat \<Rightarrow> os_state \<Rightarrow> os_state option" where
  "testclose fd os = do { (_, os1) \<leftarrow> freefd (int fd) os; Some os1 }"

definition testdevtab :: "char list \<Rightarrow> Dev" where
  "testdevtab dcs = \<lparr>dc = CHR ''T'', d_name = ''test'', d_init = devinit, d_open = testopen dcs,
     d_read = testread, d_write = testwrite, d_close = testclose, d_ioctl = None, d_mmap = None\<rparr>"

section \<open>The console device\<close>

text \<open>
  devcons.c, with cons-xm.c for XtratuM: reading the console yields nothing,
  writing it is the hypercall write_scr, a parameter.
\<close>

definition bytes :: "string \<Rightarrow> u8 list" where
  "bytes s = map (\<lambda>c. word_of_nat (of_char c)) s"

definition Qcons :: nat where "Qcons = 0"
definition Qdrivers :: nat where "Qdrivers = 1"
definition Qkprint :: nat where "Qkprint = 2"
definition Qnull :: nat where "Qnull = 3"
definition Qsysctl :: nat where "Qsysctl = 4"

definition contab :: "Dirtab list" where
  "contab = [
     \<lparr>dt_name = ''cons'', dt_qid = mkqid Qcons 0 0, dt_length = 0, dt_perm = 438\<rparr>,
     \<lparr>dt_name = ''drivers'', dt_qid = mkqid Qdrivers 0 0, dt_length = 0, dt_perm = 292\<rparr>,
     \<lparr>dt_name = ''kprint'', dt_qid = mkqid Qkprint 0 0, dt_length = 0, dt_perm = 292\<rparr>,
     \<lparr>dt_name = ''null'', dt_qid = mkqid Qnull 0 0, dt_length = 0, dt_perm = 438\<rparr>,
     \<lparr>dt_name = ''sysctl'', dt_qid = mkqid Qsysctl 0 0, dt_length = 0, dt_perm = 420\<rparr>]"

definition VERSION :: string where "VERSION = ''Initial Edition (20070502)''"

definition consopen :: "char list \<Rightarrow> string \<Rightarrow> int \<Rightarrow> os_state \<Rightarrow> (int \<times> os_state) option" where
  "consopen dcs name omode os = do {
     _ \<leftarrow> guard_c (length ''/dev/console/'' \<le> length name);
     (case List.find (\<lambda>t. drop (length ''/dev/console/'') name = dt_name t) contab of
        None \<Rightarrow> fail_os EBADF os
      | Some t \<Rightarrow> do {
          fd \<leftarrow> newfd os;
          if fd \<ge> MAX_FILES then do {
            (_, os1) \<leftarrow> freefd (int fd) os;
            fail_os ENOMEM os1 }
          else do {
            f \<leftarrow> rd (files os) fd;
            fs \<leftarrow> wr (files os) fd (f\<lparr>f_type := devno dcs (CHR ''c''), f_qid := dt_qid t, f_pos := 0\<rparr>);
            Some (int fd, os\<lparr>files := fs\<rparr>) } }) }"

fun consinit_loop :: "char list \<Rightarrow> nat list \<Rightarrow> os_state \<Rightarrow> (int \<times> os_state) option" where
  "consinit_loop dcs [] os = Some (0, os)"
| "consinit_loop dcs (i # is) os = do {
     (fd, os1) \<leftarrow> consopen dcs ''/dev/console/cons'' 0 os;
     if fd \<noteq> int i then Some (-1, os1) else consinit_loop dcs is os1 }"

definition consinit :: "char list \<Rightarrow> os_state \<Rightarrow> (int \<times> os_state) option" where
  "consinit dcs os = consinit_loop dcs [0..<3] os"

definition DRIVERSZ :: nat where "DRIVERSZ = KNAMELEN * 11"

text \<open>The lines of the devices; None when the buffer is too small.\<close>

fun listdevices :: "(char \<times> string) list \<Rightarrow> string \<Rightarrow> string option" where
  "listdevices [] p = Some p"
| "listdevices ((c, name) # ds) p =
    (if length p + length name + 5 > DRIVERSZ then None
     else listdevices ds (p @ ''#'' @ [c] @ '' '' @ name @ [CHR 0x0A]))"

definition read_cons :: "nat \<Rightarrow> int \<Rightarrow> int \<times> u8 list" where
  "read_cons fd n = (0, [])"

definition consread ::
  "(char \<times> string) list \<Rightarrow> nat \<Rightarrow> int \<Rightarrow> int \<Rightarrow> os_state \<Rightarrow> (int \<times> u8 list \<times> os_state) option" where
  "consread devs fd n offset os = do {
     f \<leftarrow> rd (files os) fd;
     let q = q_path (f_qid f);
     if q = Qcons then Some (fst (read_cons fd n), snd (read_cons fd n), os)
     else if q = Qdrivers then
       let devices = (case listdevices devs [] of None \<Rightarrow> [] | Some s \<Rightarrow> bytes s);
           len = (case listdevices devs [] of None \<Rightarrow> -1 | Some s \<Rightarrow> int (length s)) in
       if offset < 0 \<or> offset \<ge> len then Some (0, [], os)
       else do {
         let n' = (if offset + n > len then len - offset else n);
         _ \<leftarrow> guard_c (0 \<le> n');
         fs \<leftarrow> wr (files os) fd (f\<lparr>f_pos := f_pos f + n'\<rparr>);
         Some (n', take (nat n') (drop (nat offset) devices), os\<lparr>files := fs\<rparr>) }
     else if q = Qsysctl then do {
       (k, s) \<leftarrow> readstr (nat (to_u32 offset)) (nat (to_u32 n)) (bytes VERSION);
       fs \<leftarrow> wr (files os) fd (f\<lparr>f_pos := f_pos f + k\<rparr>);
       Some (k, s, os\<lparr>files := fs\<rparr>) }
     else if q = Qnull then Some (0, [], os)
     else do { (r, os1) \<leftarrow> fail_os ENOENT os; Some (r, [], os1) } }"

definition conswrite :: "(u8 list \<Rightarrow> int) \<Rightarrow> nat \<Rightarrow> u8 list \<Rightarrow> int \<Rightarrow> os_state \<Rightarrow> (int \<times> os_state) option" where
  "conswrite write_scr fd str offset os = do {
     f \<leftarrow> rd (files os) fd;
     let q = q_path (f_qid f);
     if q = Qcons then Some (write_scr str, os)
     else if q = Qdrivers then fail_os EPERM os
     else if q = Qnull then Some (int (length str), os)
     else fail_os ENOENT os }"

definition consdevtab :: "(u8 list \<Rightarrow> int) \<Rightarrow> char list \<Rightarrow> (char \<times> string) list \<Rightarrow> Dev" where
  "consdevtab write_scr dcs devs =
     \<lparr>dc = CHR ''c'', d_name = ''console'', d_init = consinit dcs, d_open = consopen dcs,
      d_read = consread devs, d_write = conswrite write_scr, d_close = devclose, d_ioctl = None, d_mmap = None\<rparr>"

section \<open>The devices keep the contract\<close>

lemma opens_new:
  assumes "newfd os = Some fd" "fd < MAX_FILES" "length (files os) = MAX_FILES" "f_type f = k"
  shows "opens k os (int fd) (os\<lparr>files := (files os)[fd := f]\<rparr>)"
  using assms by (auto simp: opens_def types_def map_update)

lemma opens_fails: "fail_os e os = Some (r, os') \<Longrightarrow> opens k os r os'"
  using fail_os_types by (simp add: opens_def)

lemma types_pos: "rd (files os) fd = Some f \<Longrightarrow> f_type f' = f_type f \<Longrightarrow>
  types (os\<lparr>files := (files os)[fd := f']\<rparr>) = types os"
  by (auto simp: types_def rd_eq_Some_iff map_update list_update_same_conv)

lemma freefd_full: "length (files os) = MAX_FILES \<Longrightarrow> freefd (int MAX_FILES) os = None"
  by (simp add: freefd_def)

lemma devclose_contract: "\<exists>os'. devclose fd os = Some os' \<and> (types os' = types os \<or> types os' = (types os)[fd := Nodev])"
  by (simp add: devclose_def)

lemma newfd_lt: "newfd os = Some fd \<Longrightarrow> fd \<noteq> MAX_FILES \<Longrightarrow> fd < MAX_FILES"
  using newfd_props(3) [of os fd] by simp

interpretation root_dev: device "rootdevtab dcs roottab rootdata" "devno dcs (CHR ''/'')"
proof unfold_locales
  show "opens (devno dcs (CHR ''/'')) os r os'"
    if "d_open (rootdevtab dcs roottab rootdata) path mode os = Some (r, os')" "length (files os) = MAX_FILES" for path mode os r os'
    using that by (auto simp: rootdevtab_def rootopen_def bind_eq_Some_conv wr_eq_Some_iff dest: newfd_lt
        intro!: opens_new split: prod.splits option.splits if_splits intro: opens_fails)
qed (auto simp: rootdevtab_def rootread_def rootwrite_def Let_def bind_eq_Some_conv wr_eq_Some_iff devclose_contract
    types_pos dest: fail_os_types split: if_splits)

interpretation test_dev: device "testdevtab dcs" "devno dcs (CHR ''T'')"
proof unfold_locales
  show "\<exists>os'. d_close (testdevtab dcs) fd os = Some os' \<and> (types os' = types os \<or> types os' = (types os)[fd := Nodev])"
    if "fd < MAX_FILES" "length (files os) = MAX_FILES" for fd os
    using that freefd_types [of fd os] by (auto simp: testdevtab_def testclose_def freefd_def)
qed (auto simp: testdevtab_def testopen_def testread_def testwrite_def bind_eq_Some_conv wr_eq_Some_iff
    intro!: opens_new intro: opens_fails dest: newfd_lt split: if_splits)

interpretation cons_dev: device "consdevtab write_scr dcs devs" "devno dcs (CHR ''c'')"
proof unfold_locales
  show "opens (devno dcs (CHR ''c'')) os r os'"
    if "d_open (consdevtab write_scr dcs devs) path mode os = Some (r, os')" "length (files os) = MAX_FILES" for path mode os r os'
    using that freefd_full [OF that(2)] newfd_props(3) [of os]
    by (fastforce simp: consdevtab_def consopen_def bind_eq_Some_conv wr_eq_Some_iff
        intro!: opens_new split: option.splits if_splits intro: opens_fails)
  show "types os' = types os"
    if "d_read (consdevtab write_scr dcs devs) fd n off os = Some (r, buf, os')" for fd n off os r buf os'
    using that by (auto simp: consdevtab_def consread_def Let_def bind_eq_Some_conv wr_eq_Some_iff types_pos
        dest: fail_os_types split: if_splits prod.splits)
qed (auto simp: consdevtab_def conswrite_def Let_def bind_eq_Some_conv devclose_contract
    dest: fail_os_types split: if_splits)

section \<open>The system for XtratuM\<close>

text \<open>The table of devices that the build makes for xm_i386: the console and the root.\<close>

definition system_devtab :: "(u8 list \<Rightarrow> int) \<Rightarrow> Dirtab list \<Rightarrow> Rootdata list \<Rightarrow> Dev list" where
  "system_devtab write_scr roottab rootdata =
     [consdevtab write_scr ''c/'' [(CHR ''c'', ''console''), (CHR ''/'', ''root'')], rootdevtab ''c/'' roottab rootdata]"

lemma system_devno: "devno ''c/'' (CHR ''c'') = 0" "devno ''c/'' (CHR ''/'') = 1"
  by code_simp+

interpretation sys_fs: filesystem "system_devtab write_scr roottab rootdata"
proof (rule filesystem.intro)
  show "device (system_devtab write_scr roottab rootdata ! i) (int i)"
    if "i < length (system_devtab write_scr roottab rootdata)" for i
    using that cons_dev.device_axioms [of write_scr "''c/''" "[(CHR ''c'', ''console''), (CHR ''/'', ''root'')]"]
      root_dev.device_axioms [of "''c/''" roottab rootdata]
    by (auto simp: system_devtab_def system_devno less_Suc_eq nth_Cons')
qed

text \<open>Reading a descriptor piece by piece.\<close>

fun read_chunks :: "Dev list \<Rightarrow> nat \<Rightarrow> int list \<Rightarrow> os_state \<Rightarrow> (u8 list \<times> os_state) option" where
  "read_chunks devtab fd [] os = Some ([], os)"
| "read_chunks devtab fd (n # ns) os = do {
     (_, b, os1) \<leftarrow> read_sys devtab (int fd) n os;
     (bs, os2) \<leftarrow> read_chunks devtab fd ns os1;
     Some (b @ bs, os2) }"

definition root_file :: "Rootdata list \<Rightarrow> nat \<Rightarrow> os_state \<Rightarrow> File \<Rightarrow> u8 list \<Rightarrow> bool" where
  "root_file rootdata fd os f content \<longleftrightarrow> length (files os) = MAX_FILES \<and> fd < MAX_FILES \<and> files os ! fd = f \<and>
     f_type f = 1 \<and> 0 \<le> f_pos f \<and>
     (\<exists>x. rd rootdata (q_path (f_qid f)) = Some x \<and> rd_ptr x = content \<and> root_len x = int (length content))"

lemma root_read:
  assumes f: "root_file rootdata fd os f content" and n: "0 \<le> n"
  shows "\<exists>r os'. read_sys (system_devtab w roottab rootdata) (int fd) n os =
      Some (r, take (nat n) (drop (nat (f_pos f)) content), os') \<and>
    (\<exists>f'. root_file rootdata fd os' f' content \<and>
       drop (nat (f_pos f')) content = drop (nat n) (drop (nat (f_pos f)) content))"
proof -
  obtain x where x: "rd rootdata (q_path (f_qid f)) = Some x" "rd_ptr x = content" "root_len x = int (length content)"
    and b: "length (files os) = MAX_FILES" "fd < MAX_FILES" "files os ! fd = f" "f_type f = 1" "0 \<le> f_pos f"
    using f by (auto simp: root_file_def)
  have c: "checkfd (int fd) os = Some (0, os)" "rd (files os) fd = Some f"
    using b by (simp_all add: checkfd_def to_u32_def MAX_FILES_def Nodev_def)
  have d: "read_sys (system_devtab w roottab rootdata) (int fd) n os =
      do { (r, buf, os1) \<leftarrow> rootread rootdata fd n (f_pos f) os; Some (if r < 0 then to_s32 (- r) else r, buf, os1) }"
    using c b(4) by (simp add: read_sys_def dev_of_def dev_at_def system_devtab_def rd_def rootdevtab_def)
  show ?thesis
  proof (cases "f_pos f \<ge> int (length content)")
    case True
    then show ?thesis using d c x f by (auto simp: rootread_def)
  next
    case False
    define n' where "n' = (if f_pos f + n > int (length content) then int (length content) - f_pos f else n)"
    let ?f = "f\<lparr>f_pos := f_pos f + n'\<rparr>" let ?os = "os\<lparr>files := (files os)[fd := ?f]\<rparr>"
    have n': "0 \<le> n'" "nat (f_pos f) + nat n' \<le> length content" using False n b(5) by (auto simp: n'_def)
    have "rootread rootdata fd n (f_pos f) os = Some (n', take (nat n') (drop (nat (f_pos f)) content), ?os)"
      unfolding rootread_def c(2) Option.bind.bind_lunit x Let_def n'_def [symmetric]
      using False b n' by simp
    moreover have "take (nat n') (drop (nat (f_pos f)) content) = take (nat n) (drop (nat (f_pos f)) content)"
      using b(5) by (auto simp: n'_def)
    moreover have "root_file rootdata fd ?os ?f content" using x b n' by (simp add: root_file_def)
    moreover have "drop (nat (f_pos ?f)) content = drop (nat n) (drop (nat (f_pos f)) content)"
      using b(5) n by (auto simp: n'_def nat_add_distrib add.commute)
    ultimately show ?thesis using d n' by auto
  qed
qed

lemma read_chunks_root:
  assumes "root_file rootdata fd os f content" "\<forall>n\<in>set ns. 0 \<le> n"
  shows "\<exists>os'. read_chunks (system_devtab w roottab rootdata) fd ns os =
    Some (take (nat (sum_list ns)) (drop (nat (f_pos f)) content), os')"
  using assms
proof (induction ns arbitrary: os f)
  case (Cons n ns)
  obtain r os1 f1 where r: "read_sys (system_devtab w roottab rootdata) (int fd) n os =
      Some (r, take (nat n) (drop (nat (f_pos f)) content), os1)"
    "root_file rootdata fd os1 f1 content" "drop (nat (f_pos f1)) content = drop (nat n) (drop (nat (f_pos f)) content)"
    using root_read [OF Cons.prems(1), where n = n and w = w and roottab = roottab] Cons.prems(2) by auto
  obtain os2 where "read_chunks (system_devtab w roottab rootdata) fd ns os1 =
      Some (take (nat (sum_list ns)) (drop (nat (f_pos f1)) content), os2)"
    using Cons.IH [OF r(2)] Cons.prems(2) by auto
  moreover have "0 \<le> sum_list ns" using Cons.prems(2) by (simp add: sum_list_nonneg)
  ultimately show ?case using r(1,3) Cons.prems(2) by (simp add: nat_add_distrib take_add)
qed simp

section \<open>Properties\<close>


definition demo_os :: os_state where
  "demo_os = \<lparr>kern = demo_pk, files = replicate MAX_FILES zero_file, irq_handler_table = replicate 16 default_irq_handler,
     trap_handler_table = replicate 20 unexpected_trap, hw_irq_ctrl = replicate 16 True, xmtimer_user_handler = True,
     event_handling = Some \<lparr>intercepted_events = 0, masked_events = 0, pending_events = 0,
       event_handler = replicate 32 False, event_flags = 0\<rparr>\<rparr>"

definition demo_devtab :: "Dev list" where
  "demo_devtab = system_devtab (\<lambda>_. 0) [] [\<lparr>dotdot = 0, rd_ptr = [5, 6, 7], rd_size = 3, rd_sizep = None\<rparr>]"

lemma demo_fs_ok: "fs_ok demo_devtab demo_os"
  by (simp add: fs_ok_def demo_os_def types_def zero_file_def MAX_FILES_def)

lemma demo_open: "\<exists>os1. open_sys demo_devtab ''/dev/console/null'' 0 0 demo_os = Some (int 0, os1)"
proof -
  have "name_end ''/dev/console/null'' = 12" by code_simp
  moreover have "newfd demo_os = Some 0"
    by (simp add: newfd_def demo_os_def MAX_FILES_def zero_file_def upt_rec [of 0])
  ultimately show ?thesis
    by (simp add: open_sys_def demo_devtab_def system_devtab_def consdevtab_def KNAMELEN_def consopen_def contab_def
        MAX_FILES_def demo_os_def)
qed


text \<open>An open takes the lowest free descriptor, and closing that descriptor succeeds and leaves
  the table as it was before the open.\<close>
theorem open_close_inverse:
  assumes "fs_ok (system_devtab w roottab rootdata) os"
    and "open_sys (system_devtab w roottab rootdata) path fl m os = Some (int fd, os1)"
  shows "newfd os = Some fd \<and> (\<exists>os2. close_sys (system_devtab w roottab rootdata) (int fd) os1 = Some (0, os2) \<and>
    types os2 = types os)"
  by (rule sys_fs.open_close [OF assms])

theorem open_close_inverse_witness:
  "\<exists>os1 os2. open_sys demo_devtab ''/dev/console/null'' 0 0 demo_os = Some (int 0, os1) \<and>
    close_sys demo_devtab (int 0) os1 = Some (0, os2) \<and> types os2 = types demo_os"
  using demo_open open_close_inverse [OF demo_fs_ok [unfolded demo_devtab_def]] unfolding demo_devtab_def by blast

text \<open>Reading a file of the root in pieces of any sizes yields its bytes in order from the
  position on, none twice and none skipped.\<close>
theorem root_read_chunks:
  assumes "root_file rootdata fd os f content" "\<forall>n\<in>set ns. 0 \<le> n"
  shows "\<exists>os'. read_chunks (system_devtab w roottab rootdata) fd ns os =
    Some (take (nat (sum_list ns)) (drop (nat (f_pos f)) content), os')"
  by (rule read_chunks_root [OF assms])

theorem root_read_chunks_witness:
  "\<exists>os'. read_chunks (system_devtab (\<lambda>_. 0) [] [\<lparr>dotdot = 0, rd_ptr = [5, 6, 7], rd_size = 3, rd_sizep = None\<rparr>]) 0 [2, 2]
     (demo_os\<lparr>files := (files demo_os)[0 := zero_file\<lparr>f_type := 1\<rparr>]\<rparr>) = Some ([5, 6, 7], os')"
  using root_read_chunks [where w = "\<lambda>_. 0" and roottab = "[]" and ns = "[2, 2]" and fd = 0 and
      rootdata = "[\<lparr>dotdot = 0, rd_ptr = [5, 6, 7], rd_size = 3, rd_sizep = None\<rparr>]" and content = "[5, 6, 7]" and
      os = "demo_os\<lparr>files := (files demo_os)[0 := zero_file\<lparr>f_type := 1\<rparr>]\<rparr>" and f = "zero_file\<lparr>f_type := 1\<rparr>"]
  by (simp add: root_file_def demo_os_def MAX_FILES_def zero_file_def zero_qid_def root_len_def to_u32_def)

text \<open>An open of the console when every descriptor is taken does not report ENOMEM: it frees the
  descriptor past the end and writes outside the table.\<close>
theorem console_open_full_faults:
  assumes "newfd os = Some MAX_FILES"
  shows "open_sys (system_devtab w roottab rootdata) ''/dev/console/null'' fl m os = None"
proof -
  have "newfd os = Some MAX_FILES \<Longrightarrow> length (files os) = MAX_FILES"
    using newfd_props(4) types_length by metis
  then have "consopen ''c/'' ''/dev/console/null'' m os = None"
    using assms freefd_full by (simp add: consopen_def contab_def)
  moreover have "name_end ''/dev/console/null'' = 12" by code_simp
  ultimately show ?thesis by (simp add: open_sys_def system_devtab_def consdevtab_def KNAMELEN_def)
qed

theorem console_open_full_faults_witness:
  "open_sys demo_devtab ''/dev/console/null'' 0 0
     (demo_os\<lparr>files := replicate MAX_FILES (zero_file\<lparr>f_type := 0\<rparr>)\<rparr>) = None"
proof -
  have "newfd (demo_os\<lparr>files := replicate MAX_FILES (zero_file\<lparr>f_type := 0\<rparr>)\<rparr>) = Some MAX_FILES"
  proof -
    have "List.find (\<lambda>fd. f_type (replicate MAX_FILES (zero_file\<lparr>f_type := 0\<rparr>) ! fd) = Nodev) [0..<MAX_FILES] = None"
      unfolding find_upt_None_iff by (simp add: Nodev_def)
    then show ?thesis by (simp add: newfd_def)
  qed
  then show ?thesis unfolding demo_devtab_def by (rule console_open_full_faults)
qed

text \<open>A call on a descriptor that is out of range or free is refused before any device is reached: it
  returns -1 (mmap the error number itself), sets the error number EBADF of the running thread, and
  changes neither the descriptors nor the buffer of the caller.\<close>
theorem bad_descriptor_refused:
  assumes "length (files os) = MAX_FILES" "current_thread (kern os) = Some c" "threads (kern os) c = Some t"
    and "to_u32 fd \<ge> int MAX_FILES \<or> (0 \<le> fd \<and> fd < int MAX_FILES \<and> f_type (files os ! nat fd) = Nodev)"
  shows "\<exists>os'. os' = os\<lparr>kern := (kern os)\<lparr>threads := (threads (kern os))(c \<mapsto> t\<lparr>pt_errno := EBADF\<rparr>)\<rparr>\<rparr> \<and>
    read_sys devtab fd n os = Some (-1, [], os') \<and> write_sys devtab fd buf os = Some (-1, os') \<and>
    close_sys devtab fd os = Some (-1, os') \<and> ioctl_sys devtab fd cmd arg os = Some (-1, os') \<and>
    mmap_sys devtab start len prot fl fd off os = Some (EBADF, os')"
proof -
  let ?os = "os\<lparr>kern := (kern os)\<lparr>threads := (threads (kern os))(c \<mapsto> t\<lparr>pt_errno := EBADF\<rparr>)\<rparr>\<rparr>"
  have "fail_os EBADF os = Some (-1, ?os)" using assms(2,3) by (simp add: fail_os_def SET_ERRNO_def)
  then have "checkfd fd os = Some (-1, ?os)" using assms(1,4) by (auto simp: checkfd_def)
  then show ?thesis by (simp add: read_sys_def write_sys_def close_sys_def ioctl_sys_def mmap_sys_def)
qed

theorem bad_descriptor_refused_witness:
  "\<exists>os'. read_sys demo_devtab 5 8 demo_os = Some (-1, [], os') \<and> close_sys demo_devtab 5 demo_os = Some (-1, os') \<and>
     map_option pt_errno (threads (kern os') 1) = Some EBADF"
proof -
  have k: "kern demo_os = demo_pk" by (simp add: demo_os_def)
  have f: "length (files demo_os) = MAX_FILES" "f_type (files demo_os ! nat 5) = Nodev"
    by (simp_all add: demo_os_def MAX_FILES_def zero_file_def)
  show ?thesis
    using bad_descriptor_refused [OF f(1), unfolded k, OF demo_fields(1,4), where fd = 5 and n = 8 and devtab = demo_devtab] f(2)
    by (auto simp: MAX_FILES_def)
qed

end
