(* ===== verification/PSyscall.thy ===== *)
theory PSyscall
  imports PInv PDevs
begin

unbundle bit_operations_syntax

text \<open>
  The calls of PaRTiKle as the application makes them (the table of
  core/kernel/port/syscalls.c), the steps of the kernel and the states that can
  be reached.  A call of the table is a constructor with its arguments; the
  results, which the definitions of the calls give, are dropped here: the steps
  are about the state.
\<close>

section \<open>The calls\<close>

datatype thread_call =
    Exit int
  | Pthread_exit nat
  | Pthread_create "pthread_attr_t option" nat nat
  | Pthread_join "nat option" bool
  | Pthread_detach "nat option"
  | Pthread_cleanup_pop bool
  | Pthread_cleanup_push nat nat
  | Pthread_once "int option" bool
  | Pthread_cancel "nat option"

datatype attr_call =
    Pthread_setcancelstate int bool
  | Pthread_setcanceltype int bool
  | Pthread_self
  | Pthread_getschedparam "nat option"
  | Pthread_setschedparam "nat option" int "sched_param option"
  | Pthread_key_create bool "nat option"
  | Pthread_setspecific int nat
  | Pthread_getspecific int
  | Pthread_key_delete int
  | Pthread_yield
  | Pthread_delete_np nat
  | Pthread_setperiod_np "nat option" timespec
  | Pthread_getperiod_np "nat option" bool

datatype sync_call =
    Pthread_mutex_init "nat option" "pthread_mutexattr_t option"
  | Pthread_mutex_destroy "nat option"
  | Pthread_mutex_lock nat
  | Pthread_mutex_timedlock nat
  | Pthread_mutex_trylock nat
  | Pthread_mutex_unlock nat
  | Pthread_cond_init "nat option"
  | Pthread_cond_destroy "nat option"
  | Pthread_cond_signal "nat option"
  | Pthread_cond_broadcast "nat option"
  | Pthread_cond_wait "nat option" "nat option"
  | Pthread_cond_timedwait "nat option" "nat option" "timespec option"
  | Sem_init "nat option" int int
  | Sem_destroy "nat option"
  | Sem_getvalue "nat option"
  | Sem_wait "nat option"
  | Sem_trywait "nat option"
  | Sem_timedwait "nat option" "timespec option"
  | Sem_post "nat option"

datatype time_call =
    Time
  | Gettimeofday bool
  | Usleep int
  | Nanosleep timespec bool
  | Clock_settime
  | Clock_gettime int bool
  | Clock_getres int bool
  | Timer_create int "sigevent option"
  | Timer_delete int
  | Timer_settime int u32 "itimerspec option" bool
  | Timer_gettime int bool
  | Timer_getoverrun int

datatype signal_call =
    Sigaction int "signal_table_struct option" bool
  | Sigsuspend "u32 option"
  | Sigwait "u32 option" bool
  | Sigpending bool
  | Pthread_kill "nat option" int
  | Pthread_sigmask int "u32 option" bool
  | Get_errno
  | Set_errno int

datatype kcall =
    Thread_call thread_call
  | Attr_call attr_call
  | Sync_call sync_call
  | Time_call time_call
  | Signal_call signal_call

text \<open>The environment of a call: the clocks, the two readings of scheduling, the memory pool.\<close>

record call_env =
  ce_clock :: clock_env
  ce_hw :: hw_limits
  ce_now1 :: time_ns
  ce_now2 :: time_ns
  ce_alloc :: "pk_state \<Rightarrow> nat option"
  ce_stack :: nat
  ce_startup :: nat

definition st_of1 :: "('a \<times> pk_state) option \<Rightarrow> unit outcome option" where
  "st_of1 m = do { (_, st) \<leftarrow> m; Some (Returned () st) }"

definition st_of2 :: "('a \<times> 'b \<times> pk_state) option \<Rightarrow> unit outcome option" where
  "st_of2 m = do { (_, _, st) \<leftarrow> m; Some (Returned () st) }"

definition st_out :: "'a outcome option \<Rightarrow> unit outcome option" where
  "st_out m = andthen m (\<lambda>_ st. Some (Returned () st))"

definition reads :: "'a option \<Rightarrow> pk_state \<Rightarrow> unit outcome option" where
  "reads m st = do { _ \<leftarrow> m; Some (Returned () st) }"

fun thread_dispatch :: "user_code \<Rightarrow> call_env \<Rightarrow> thread_call \<Rightarrow> pk_state \<Rightarrow> unit outcome option" where
  "thread_dispatch run ce (Exit status) st = exit_sys status st"
| "thread_dispatch run ce (Pthread_exit v) st = pthread_exit_sys run (ce_now1 ce) (ce_now2 ce) v st"
| "thread_dispatch run ce (Pthread_create attr f v) st =
     st_out (map_option snd (pthread_create_sys (ce_now1 ce) (ce_now2 ce) (ce_alloc ce st) (ce_stack ce) (ce_startup ce) attr f v st))"
| "thread_dispatch run ce (Pthread_join t vp) st = st_out (pthread_join_sys (ce_now1 ce) (ce_now2 ce) t vp st)"
| "thread_dispatch run ce (Pthread_detach t) st = st_out (pthread_detach_sys (ce_now1 ce) (ce_now2 ce) t st)"
| "thread_dispatch run ce (Pthread_cleanup_pop ex) st = pthread_cleanup_pop_sys run ex st"
| "thread_dispatch run ce (Pthread_cleanup_push f v) st = do { st1 \<leftarrow> pthread_cleanup_push_sys f v st; Some (Returned () st1) }"
| "thread_dispatch run ce (Pthread_once c i) st = do { (_, _, _, st1) \<leftarrow> pthread_once_sys c i st; Some (Returned () st1) }"
| "thread_dispatch run ce (Pthread_cancel t) st = st_of1 (pthread_cancel_sys t st)"

fun attr_dispatch :: "user_code \<Rightarrow> call_env \<Rightarrow> attr_call \<Rightarrow> pk_state \<Rightarrow> unit outcome option" where
  "attr_dispatch run ce (Pthread_setcancelstate s old) st = st_of2 (pthread_setcancelstate_sys s old st)"
| "attr_dispatch run ce (Pthread_setcanceltype s old) st = st_of2 (pthread_setcanceltype_sys s old st)"
| "attr_dispatch run ce Pthread_self st = reads (pthread_self_sys st) st"
| "attr_dispatch run ce (Pthread_getschedparam t) st = st_of2 (pthread_getschedparam_sys t st)"
| "attr_dispatch run ce (Pthread_setschedparam t p q) st = st_out (pthread_setschedparam_sys (ce_now1 ce) (ce_now2 ce) t p q st)"
| "attr_dispatch run ce (Pthread_key_create k d) st = st_of2 (pthread_key_create_sys k d st)"
| "attr_dispatch run ce (Pthread_setspecific k v) st = st_of1 (pthread_setspecific_sys k v st)"
| "attr_dispatch run ce (Pthread_getspecific k) st = st_of1 (pthread_getspecific_sys k st)"
| "attr_dispatch run ce (Pthread_key_delete k) st = st_out (pthread_key_delete_sys run k st)"
| "attr_dispatch run ce Pthread_yield st = st_of1 (pthread_yield_sys (ce_now1 ce) (ce_now2 ce) st)"
| "attr_dispatch run ce (Pthread_delete_np t) st = st_out (pthread_delete_np_sys (ce_now1 ce) (ce_now2 ce) t st)"
| "attr_dispatch run ce (Pthread_setperiod_np t v) st = st_of1 (pthread_setperiod_np_sys t v st)"
| "attr_dispatch run ce (Pthread_getperiod_np t p) st = st_of2 (pthread_getperiod_np_sys t p st)"

fun sync_dispatch :: "call_env \<Rightarrow> sync_call \<Rightarrow> pk_state \<Rightarrow> unit outcome option" where
  "sync_dispatch ce (Pthread_mutex_init x a) st = st_of1 (pthread_mutex_init_sys x a st)"
| "sync_dispatch ce (Pthread_mutex_destroy x) st = reads (Some (pthread_mutex_destroy_sys x)) st"
| "sync_dispatch ce (Pthread_mutex_lock x) st = st_out (pthread_mutex_lock_sys (ce_now1 ce) (ce_now2 ce) x st)"
| "sync_dispatch ce (Pthread_mutex_timedlock x) st = reads (Some (pthread_mutex_timedlock_sys x)) st"
| "sync_dispatch ce (Pthread_mutex_trylock x) st = st_out (pthread_mutex_trylock_sys (ce_now1 ce) (ce_now2 ce) x st)"
| "sync_dispatch ce (Pthread_mutex_unlock x) st = st_out (pthread_mutex_unlock_sys (ce_now1 ce) (ce_now2 ce) x st)"
| "sync_dispatch ce (Pthread_cond_init x) st = st_of1 (pthread_cond_init_sys x st)"
| "sync_dispatch ce (Pthread_cond_destroy x) st = reads (Some (pthread_cond_destroy_sys x)) st"
| "sync_dispatch ce (Pthread_cond_signal x) st = st_out (pthread_cond_signal_sys (ce_now1 ce) (ce_now2 ce) x st)"
| "sync_dispatch ce (Pthread_cond_broadcast x) st = st_out (pthread_cond_broadcast_sys (ce_now1 ce) (ce_now2 ce) x st)"
| "sync_dispatch ce (Pthread_cond_wait x m) st = st_out (pthread_cond_wait_sys (ce_now1 ce) (ce_now2 ce) x m st)"
| "sync_dispatch ce (Pthread_cond_timedwait x m ts) st =
     st_out (pthread_cond_timedwait_sys (ce_clock ce) (ce_hw ce) (ce_now1 ce) (ce_now2 ce) x m ts st)"
| "sync_dispatch ce (Sem_init s ps v) st = st_of1 (sem_init_sys s ps v st)"
| "sync_dispatch ce (Sem_destroy s) st = st_of1 (sem_destroy_sys s st)"
| "sync_dispatch ce (Sem_getvalue s) st = st_of2 (sem_getvalue_sys s st)"
| "sync_dispatch ce (Sem_wait s) st = st_out (sem_wait_sys (ce_now1 ce) (ce_now2 ce) s st)"
| "sync_dispatch ce (Sem_trywait s) st = st_of1 (sem_trywait_sys s st)"
| "sync_dispatch ce (Sem_timedwait s ts) st =
     st_out (sem_timedwait_sys (ce_clock ce) (ce_hw ce) (ce_now1 ce) (ce_now2 ce) s ts st)"
| "sync_dispatch ce (Sem_post s) st = st_out (sem_post_sys (ce_now1 ce) (ce_now2 ce) s st)"

fun time_dispatch :: "call_env \<Rightarrow> time_call \<Rightarrow> pk_state \<Rightarrow> unit outcome option" where
  "time_dispatch ce Time st = reads (Some (time_sys (ce_clock ce))) st"
| "time_dispatch ce (Gettimeofday tv) st = st_of2 (gettimeofday_sys (ce_clock ce) tv st)"
| "time_dispatch ce (Usleep us) st = st_out (usleep_sys (ce_clock ce) (ce_hw ce) (ce_now1 ce) (ce_now2 ce) us st)"
| "time_dispatch ce (Nanosleep req rm) st = st_out (nanosleep_sys (ce_clock ce) (ce_hw ce) (ce_now1 ce) (ce_now2 ce) req rm st)"
| "time_dispatch ce Clock_settime st = st_of1 (clock_settime_sys st)"
| "time_dispatch ce (Clock_gettime c tp) st = st_of2 (clock_gettime_sys (ce_clock ce) c tp st)"
| "time_dispatch ce (Clock_getres c tp) st = st_of2 (clock_getres_sys (ce_clock ce) c tp st)"
| "time_dispatch ce (Timer_create c e) st = st_of2 (timer_create_sys c e st)"
| "time_dispatch ce (Timer_delete k) st = st_of1 (timer_delete_sys k st)"
| "time_dispatch ce (Timer_settime k fl v w) st = st_of2 (timer_settime_sys (ce_clock ce) (ce_hw ce) k fl v w st)"
| "time_dispatch ce (Timer_gettime k w) st = st_of2 (timer_gettime_sys (ce_clock ce) k w st)"
| "time_dispatch ce (Timer_getoverrun k) st = st_of1 (timer_getoverrun_sys k st)"

fun signal_dispatch :: "call_env \<Rightarrow> signal_call \<Rightarrow> pk_state \<Rightarrow> unit outcome option" where
  "signal_dispatch ce (Sigaction s a oa) st = st_of2 (sigaction_sys s a oa st)"
| "signal_dispatch ce (Sigsuspend m) st = st_out (sigsuspend_sys (ce_now1 ce) (ce_now2 ce) m st)"
| "signal_dispatch ce (Sigwait m s) st = st_out (sigwait_sys (ce_now1 ce) (ce_now2 ce) m s st)"
| "signal_dispatch ce (Sigpending b) st = reads (sigpending_sys b st) st"
| "signal_dispatch ce (Pthread_kill t s) st = st_of1 (pthread_kill_sys t s st)"
| "signal_dispatch ce (Pthread_sigmask h s old) st = st_of2 (pthread_sigmask_sys h s old st)"
| "signal_dispatch ce Get_errno st = reads (get_errno_sys st) st"
| "signal_dispatch ce (Set_errno e) st = do { st1 \<leftarrow> SET_ERRNO e st; Some (Returned () st1) }"

fun kdispatch :: "user_code \<Rightarrow> call_env \<Rightarrow> kcall \<Rightarrow> pk_state \<Rightarrow> unit outcome option" where
  "kdispatch run ce (Thread_call c) st = thread_dispatch run ce c st"
| "kdispatch run ce (Attr_call c) st = attr_dispatch run ce c st"
| "kdispatch run ce (Sync_call c) st = sync_dispatch ce c st"
| "kdispatch run ce (Time_call c) st = time_dispatch ce c st"
| "kdispatch run ce (Signal_call c) st = signal_dispatch ce c st"

text \<open>
  What comes back from scheduling in a thread that was switched out: the rest
  of the call it was in.
\<close>

datatype krest =
    R_sleep nat int time_ns
  | R_nanosleep bool time_ns
  | R_sem_wait nat bool
  | R_sem_timedwait nat nat bool time_ns
  | R_sem_post nat bool
  | R_lock nat bool
  | R_cond_wait nat bool
  | R_cond_timed_lock nat nat nat bool time_ns
  | R_join nat bool bool
  | R_sigsuspend u32 bool
  | R_sigwait u32 bool bool
  | R_cleanup
  | R_exit nat
  | R_signals u32 bool "nat list" u32

fun kresume :: "user_code \<Rightarrow> call_env \<Rightarrow> krest \<Rightarrow> pk_state \<Rightarrow> unit outcome option" where
  "kresume run ce (R_sleep n k d) st = st_out (sleep_for_rest (ce_clock ce) n k d st)"
| "kresume run ce (R_nanosleep rm d) st = st_out (nanosleep_rest rm d st)"
| "kresume run ce (R_sem_wait s fl) st = st_out (sem_wait_rest s fl st)"
| "kresume run ce (R_sem_timedwait s c fl r) st = st_out (sem_timedwait_rest s c fl r st)"
| "kresume run ce (R_sem_post s fl) st = st_out (sem_post_rest s fl st)"
| "kresume run ce (R_lock x fl) st = st_out (lock_loop (ce_now1 ce) (ce_now2 ce) x fl st)"
| "kresume run ce (R_cond_wait m fl) st = st_out (cond_wait_lock (ce_now1 ce) (ce_now2 ce) m fl st)"
| "kresume run ce (R_cond_timed_lock x m c fl r) st =
     st_out (cond_timed_lock (ce_clock ce) (ce_now1 ce) (ce_now2 ce) x m c fl r st)"
| "kresume run ce (R_join t vp fl) st = st_out (join_loop (ce_now1 ce) (ce_now2 ce) t vp fl True st)"
| "kresume run ce (R_sigsuspend m fl) st = st_out (sigsuspend_rest m fl st)"
| "kresume run ce (R_sigwait m s fl) st = st_out (sigwait_rest m s fl st)"
| "kresume run ce R_cleanup st = cleanup_loop run st"
| "kresume run ce (R_exit v) st = exit_end (ce_now1 ce) (ce_now2 ce) v st"
| "kresume run ce (R_signals old fl ss p) st = signals_loop run (ce_now1 ce) (ce_now2 ce) old fl ss p st"

section \<open>Applications\<close>

text \<open>
  The functions of an application as the calls they make, in order; fuel bounds
  how deep functions that the kernel calls (handlers, cleanup routines,
  destructors) nest in each other.
\<close>

type_synonym application = "nat \<Rightarrow> nat \<Rightarrow> kcall list"

fun run_calls :: "user_code \<Rightarrow> call_env \<Rightarrow> kcall list \<Rightarrow> pk_state \<Rightarrow> nat outcome option" where
  "run_calls run ce [] st = Some (Returned 0 st)"
| "run_calls run ce (c # cs) st = andthen (kdispatch run ce c st) (\<lambda>_. run_calls run ce cs)"

fun app_code :: "application \<Rightarrow> call_env \<Rightarrow> nat \<Rightarrow> user_code" where
  "app_code app ce 0 f v st = None"
| "app_code app ce (Suc n) f v st = run_calls (app_code app ce n) ce (app f v) st"

end
