(* ===== verification/PIrq.thy ===== *)
theory PIrq
  imports PInv PDevs
begin

unbundle bit_operations_syntax

text \<open>
  PaRTiKle's interrupts (core/kernel/port/irqs.c) on XtratuM
  (core/kernel/xm_i386/irqs_xm.c, xmsyscalls.c, xmtimer.c): the tables of
  handlers, the mask of the events of the domain and the entry of an interrupt,
  do_irq.  The two hypercalls that an interrupt can make are parameters: they
  run XtratuM, which may deliver other events to the domain before it comes
  back.  The handlers of the application are a parameter too.
\<close>

definition IRQ_NR :: nat where "IRQ_NR = 16"
definition TRAP_NR :: nat where "TRAP_NR = 20"
definition XM_MAX_EVENTS :: int where "XM_MAX_EVENTS = 32"
definition XM_EVENTS_ENABLED :: u32 where "XM_EVENTS_ENABLED = 0x10"
definition XMTIMER_EVENT :: int where "XMTIMER_EVENT = 0"

record hypercalls =
  hc_sync_events :: "os_state \<Rightarrow> os_state option"
  hc_pass_event :: "int \<Rightarrow> os_state \<Rightarrow> os_state option"

section \<open>The events of the domain\<close>

definition upd_page :: "(event_page \<Rightarrow> event_page) \<Rightarrow> os_state \<Rightarrow> os_state" where
  "upd_page f os = os\<lparr>event_handling := map_option f (event_handling os)\<rparr>"

definition xm_enable_events_flag :: "hypercalls \<Rightarrow> os_state \<Rightarrow> os_state option" where
  "xm_enable_events_flag hc os =
    (let os1 = upd_page (\<lambda>e. e\<lparr>event_flags := event_flags e OR XM_EVENTS_ENABLED\<rparr>) os in
     case event_handling os1 of None \<Rightarrow> Some os1
     | Some e \<Rightarrow> if pending_events e \<noteq> 0 then hc_sync_events hc os1 else Some os1)"

definition xm_disable_events_flag :: "os_state \<Rightarrow> os_state" where
  "xm_disable_events_flag os = upd_page (\<lambda>e. e\<lparr>event_flags := event_flags e AND NOT XM_EVENTS_ENABLED\<rparr>) os"

definition xm_is_events_flag_enabled :: "os_state \<Rightarrow> u32" where
  "xm_is_events_flag_enabled os =
    (case event_handling os of None \<Rightarrow> 0 | Some e \<Rightarrow> event_flags e AND XM_EVENTS_ENABLED)"

definition xm_mask_event :: "int \<Rightarrow> os_state \<Rightarrow> int \<times> os_state" where
  "xm_mask_event event os =
    (if event < 0 \<or> event \<ge> XM_MAX_EVENTS then (-1, os)
     else (0, upd_page (\<lambda>e. e\<lparr>masked_events := setbit (masked_events e) (nat event)\<rparr>) os))"

definition xm_unmask_event :: "hypercalls \<Rightarrow> int \<Rightarrow> os_state \<Rightarrow> (int \<times> os_state) option" where
  "xm_unmask_event hc event os =
    (if event < 0 \<or> event \<ge> XM_MAX_EVENTS then Some (-1, os)
     else do {
       let os1 = upd_page (\<lambda>e. e\<lparr>masked_events := clearbit (masked_events e) (nat event)\<rparr>) os;
       os2 \<leftarrow> (if xm_is_events_flag_enabled os1 = 0 then do {
                e \<leftarrow> event_handling os1;
                if NOT (masked_events e) AND pending_events e \<noteq> 0 then hc_sync_events hc os1 else Some os1 }
              else Some os1);
       Some (0, os2) })"

text \<open>The old mask comes back when it is asked for.\<close>

definition xm_set_mask_events :: "u32 option \<Rightarrow> bool \<Rightarrow> os_state \<Rightarrow> u32 option \<times> os_state" where
  "xm_set_mask_events new old os =
    (case event_handling os of None \<Rightarrow> (None, os)
     | Some e \<Rightarrow> (if old then Some (masked_events e) else None,
         (case new of None \<Rightarrow> os | Some m \<Rightarrow> upd_page (\<lambda>e. e\<lparr>masked_events := m\<rparr>) os)))"

definition xm_install_event_handler :: "hypercalls \<Rightarrow> int \<Rightarrow> bool \<Rightarrow> os_state \<Rightarrow> (int \<times> os_state) option" where
  "xm_install_event_handler hc event h os =
    (if event < 0 \<or> event \<ge> XM_MAX_EVENTS then Some (-1, os)
     else if event \<noteq> 0 then Some (0, os)
     else do {
       e \<leftarrow> event_handling os;
       hs \<leftarrow> wr (event_handler e) (nat event) h;
       let os1 = os\<lparr>event_handling := Some (e\<lparr>event_handler := hs,
            intercepted_events := (if h then setbit (intercepted_events e) (nat event)
               else clearbit (intercepted_events e) (nat event)),
            masked_events := setbit (masked_events e) (nat event)\<rparr>)\<rparr>;
       os2 \<leftarrow> xm_enable_events_flag hc os1;
       Some (0, os2) })"

section \<open>The tables of handlers\<close>

definition install_irq_handler_sys :: "int \<Rightarrow> irq_handler option \<Rightarrow> os_state \<Rightarrow> (irq_handler \<times> os_state) option" where
  "install_irq_handler_sys irq h os = do {
     _ \<leftarrow> guard_c (0 \<le> irq);
     old \<leftarrow> rd (irq_handler_table os) (nat irq);
     tab \<leftarrow> wr (irq_handler_table os) (nat irq) (case h of Some f \<Rightarrow> f | None \<Rightarrow> default_irq_handler);
     Some (old, os\<lparr>irq_handler_table := tab\<rparr>) }"

definition install_trap_handler_sys :: "int \<Rightarrow> trap_handler option \<Rightarrow> os_state \<Rightarrow> (trap_handler \<times> os_state) option" where
  "install_trap_handler_sys trap h os = do {
     _ \<leftarrow> guard_c (0 \<le> trap);
     old \<leftarrow> rd (trap_handler_table os) (nat trap);
     tab \<leftarrow> wr (trap_handler_table os) (nat trap) (case h of Some f \<Rightarrow> f | None \<Rightarrow> unexpected_trap);
     Some (old, os\<lparr>trap_handler_table := tab\<rparr>) }"

text \<open>The functions of an entry of hw_irq_ctrl: enable and end unmask the event, disable and ack mask it.\<close>

definition irq_ctrl :: "int \<Rightarrow> os_state \<Rightarrow> unit option" where
  "irq_ctrl irq os = do { _ \<leftarrow> guard_c (0 \<le> irq); b \<leftarrow> rd (hw_irq_ctrl os) (nat irq); guard_c b }"

definition hw_disable_irq_sys :: "int \<Rightarrow> os_state \<Rightarrow> os_state option" where
  "hw_disable_irq_sys irq os = do { _ \<leftarrow> irq_ctrl irq os; Some (snd (xm_mask_event irq os)) }"

definition hw_enable_irq_sys :: "hypercalls \<Rightarrow> int \<Rightarrow> os_state \<Rightarrow> os_state option" where
  "hw_enable_irq_sys hc irq os = do { _ \<leftarrow> irq_ctrl irq os; (_, os1) \<leftarrow> xm_unmask_event hc irq os; Some os1 }"

definition hw_ack_irq_sys :: "int \<Rightarrow> os_state \<Rightarrow> os_state option" where
  "hw_ack_irq_sys irq os = do { _ \<leftarrow> irq_ctrl irq os; Some (snd (xm_mask_event irq os)) }"

definition hw_end_irq_sys :: "hypercalls \<Rightarrow> int \<Rightarrow> os_state \<Rightarrow> os_state option" where
  "hw_end_irq_sys hc irq os = do { _ \<leftarrow> irq_ctrl irq os; (_, os1) \<leftarrow> xm_unmask_event hc irq os; Some os1 }"

fun init_arch_irqs_loop :: "hypercalls \<Rightarrow> nat list \<Rightarrow> os_state \<Rightarrow> (int \<times> os_state) option" where
  "init_arch_irqs_loop hc [] os = Some (0, os)"
| "init_arch_irqs_loop hc (irq # irqs) os = do {
     cs \<leftarrow> wr (hw_irq_ctrl os) irq True;
     (_, os1) \<leftarrow> xm_install_event_handler hc (int irq) True (os\<lparr>hw_irq_ctrl := cs\<rparr>);
     os2 \<leftarrow> hw_enable_irq_sys hc (int irq) os1;
     init_arch_irqs_loop hc irqs os2 }"

definition init_arch_irqs :: "hypercalls \<Rightarrow> os_state \<Rightarrow> (int \<times> os_state) option" where
  "init_arch_irqs hc os = init_arch_irqs_loop hc [0..<IRQ_NR] os"

definition init_irqs_traps :: "hypercalls \<Rightarrow> os_state \<Rightarrow> (int \<times> os_state) option" where
  "init_irqs_traps hc os = do {
     (_, os1) \<leftarrow> init_arch_irqs hc (os\<lparr>irq_handler_table := replicate IRQ_NR default_irq_handler,
                    trap_handler_table := replicate TRAP_NR unexpected_trap\<rparr>);
     Some (0, os1) }"

section \<open>The timer of XtratuM\<close>

text \<open>get_max_interval yields all ones.\<close>

definition xmtimer_limits :: hw_limits where
  "xmtimer_limits = \<lparr>hw_min = 50000, hw_max = to_u64 (-1)\<rparr>"

definition init_hwtimer_xmtimer :: "hypercalls \<Rightarrow> os_state \<Rightarrow> (int \<times> os_state) option" where
  "init_hwtimer_xmtimer hc os = do {
     (_, os1) \<leftarrow> install_irq_handler_sys XMTIMER_EVENT (Some xmtimer_irq_handler) os;
     os2 \<leftarrow> hw_enable_irq_sys hc XMTIMER_EVENT os1;
     Some (0, os2) }"

definition set_timer_handler_xmtimer :: "bool \<Rightarrow> os_state \<Rightarrow> bool \<times> os_state" where
  "set_timer_handler_xmtimer h os = (xmtimer_user_handler os, os\<lparr>xmtimer_user_handler := h\<rparr>)"

definition shutdown_hwtimer_xmtimer :: "os_state \<Rightarrow> os_state option" where
  "shutdown_hwtimer_xmtimer os = do {
     os1 \<leftarrow> hw_disable_irq_sys XMTIMER_EVENT os;
     (_, os2) \<leftarrow> install_irq_handler_sys XMTIMER_EVENT None os1;
     Some os2 }"

definition run_xmtimer_irq ::
  "hypercalls \<Rightarrow> clock_env \<Rightarrow> time_ns \<Rightarrow> time_ns \<Rightarrow> os_state \<Rightarrow> (int \<times> os_state) option" where
  "run_xmtimer_irq hc env now1 now2 os = do {
     os1 \<leftarrow> (if xmtimer_user_handler os then do {
              (_, k) \<leftarrow> clock_handler env xmtimer_limits now1 now2 (kern os);
              Some (os\<lparr>kern := k\<rparr>) }
            else Some os);
     os2 \<leftarrow> hw_enable_irq_sys hc XMTIMER_EVENT os1;
     Some (0, os2) }"

section \<open>The entry of an interrupt\<close>

type_synonym user_irqs = "nat \<Rightarrow> os_state \<Rightarrow> os_state option"

definition run_irq_handler ::
  "hypercalls \<Rightarrow> user_irqs \<Rightarrow> clock_env \<Rightarrow> time_ns \<Rightarrow> time_ns \<Rightarrow> int \<Rightarrow> irq_handler \<Rightarrow> os_state \<Rightarrow> os_state option" where
  "run_irq_handler hc run env now1 now2 irqnr h os = (case h of
     default_irq_handler \<Rightarrow> hc_pass_event hc irqnr os
   | xmtimer_irq_handler \<Rightarrow> do { (_, os1) \<leftarrow> run_xmtimer_irq hc env now1 now2 os; Some os1 }
   | user_irq_handler f \<Rightarrow> run f os)"

definition irq_return :: "time_ns \<Rightarrow> time_ns \<Rightarrow> pk_state \<Rightarrow> pk_state option" where
  "irq_return now1 now2 st = do {
     let st1 = st\<lparr>irq_nesting_counter := irq_nesting_counter st - 1\<rparr>;
     if irq_nesting_counter st1 = SCHED_PENDING then scheduling now1 now2 st1 else Some st1 }"

definition do_irq ::
  "hypercalls \<Rightarrow> user_irqs \<Rightarrow> clock_env \<Rightarrow> time_ns \<Rightarrow> time_ns \<Rightarrow> time_ns \<Rightarrow> time_ns \<Rightarrow> int \<Rightarrow> os_state \<Rightarrow> os_state option" where
  "do_irq hc run env now1 now2 now3 now4 irqnr os = do {
     _ \<leftarrow> guard_c (0 \<le> irqnr);
     let os1 = os\<lparr>kern := (kern os)\<lparr>irq_nesting_counter := irq_nesting_counter (kern os) + 1\<rparr>\<rparr>;
     a \<leftarrow> rd (hw_irq_ctrl os1) (nat irqnr);
     let os2 = (if a then snd (xm_mask_event irqnr os1) else os1);
     h \<leftarrow> rd (irq_handler_table os2) (nat irqnr);
     os3 \<leftarrow> run_irq_handler hc run env now1 now2 irqnr h os2;
     e \<leftarrow> rd (hw_irq_ctrl os3) (nat irqnr);
     os4 \<leftarrow> (if e then do { (_, o4) \<leftarrow> xm_unmask_event hc irqnr os3; Some o4 } else Some os3);
     k \<leftarrow> irq_return now3 now4 (kern os4);
     Some (os4\<lparr>kern := k\<rparr>) }"

end
