(* ===== verification/PIrqInv.thy ===== *)
theory PIrqInv
  imports PIrq
begin

unbundle bit_operations_syntax

text \<open>What an interrupt of the timer does to the scheduler.\<close>

section \<open>What the timers leave alone\<close>

definition steady :: "pk_state \<Rightarrow> pk_state \<Rightarrow> bool" where
  "steady st s \<longleftrightarrow> current_thread s = current_thread st \<and> idle_thread s = idle_thread st \<and>
     irq_nesting_counter s = irq_nesting_counter st \<and> dom (threads s) = dom (threads st)"

lemma steady_refl [simp]: "steady st st"
  by (simp add: steady_def)

lemma steady_frames [simp]:
  "steady st (s\<lparr>pk_if := b\<rparr>) = steady st s" "steady st (s\<lparr>timer_heap := h\<rparr>) = steady st s"
  "steady st (s\<lparr>timer_array := ts\<rparr>) = steady st s" "steady st (s\<lparr>programmed := n\<rparr>) = steady st s"
  "steady st (s\<lparr>active_threads := a\<rparr>) = steady st s"
  by (simp_all add: steady_def)

lemma post_upd_th_steady:
  "steady st0 st \<Longrightarrow> (\<And>s. steady st0 s \<Longrightarrow> P s) \<Longrightarrow> post (upd_th a f st) P"
proof (rule post_any)
  fix s assume s0: "steady st0 st" and P: "\<And>s. steady st0 s \<Longrightarrow> P s" and u: "upd_th a f st = Some s"
  obtain t where "threads st a = Some t" "s = st\<lparr>threads := (threads st)(a \<mapsto> f t)\<rparr>"
    using u by (auto simp: upd_th_def bind_eq_Some_conv)
  then have "steady st0 s" using s0 by (auto simp: steady_def)
  then show "P s" by (rule P)
qed

lemma post_upd_kt_steady:
  "steady st0 st \<Longrightarrow> (\<And>s. steady st0 s \<Longrightarrow> P s) \<Longrightarrow> post (upd_kt i f st) P"
  by (auto simp: upd_kt_def post_def bind_eq_Some_conv)

lemmas posts_steady = post_pair_lit post_Some post_bind post_if post_option post_prod post_let post_None
  post_upd_th_steady post_upd_kt_steady

lemma post_mono_state: "post m (steady st0) \<Longrightarrow> (\<And>s. steady st0 s \<Longrightarrow> P s) \<Longrightarrow> post m P"
  by (auto simp: post_def)

lemma post_mono_pair: "post m (\<lambda>(r, s). steady st0 s) \<Longrightarrow> (\<And>r s. steady st0 s \<Longrightarrow> P (r, s)) \<Longrightarrow> post m P"
  by (auto simp: post_def)

lemma insert_ss_steady: "steady st0 st \<Longrightarrow> post (insert_ss a p st) (steady st0)"
  unfolding insert_ss_def by (assumption | rule posts_steady | (simp; fail) | rule post_any)+

lemma activate_thread_steady: "steady st0 st \<Longrightarrow> post (activate_thread a st) (steady st0)"
  unfolding activate_thread_def
  by (assumption | rule posts_steady post_mono_state [OF insert_ss_steady] | (simp; fail) | rule post_any)+

lemma SET_ERRNO_steady: "steady st0 st \<Longrightarrow> post (SET_ERRNO e st) (steady st0)"
  unfolding SET_ERRNO_def by (rule post_bind, rule post_any) (assumption | rule posts_steady)+

lemma pthread_kill_steady: "steady st0 st \<Longrightarrow> post (pthread_kill_sys a sig st) (\<lambda>(r, s). steady st0 s)"
  unfolding pthread_kill_sys_def fail_errno_def
  by (assumption | rule posts_steady post_mono_state [OF activate_thread_steady] post_mono_state [OF SET_ERRNO_steady]
    | (simp; fail) | rule post_any)+

lemma run_action_steady: "steady st0 st \<Longrightarrow> post (run_action i st) (\<lambda>(r, s). steady st0 s)"
proof -
  have c: "post (case a of action_wakeup \<Rightarrow> m | action_kill \<Rightarrow> n) P"
    if "post m P" "post n P" for a and m n :: "'a option" and P
    using that by (cases a) simp_all
  show "steady st0 st \<Longrightarrow> post (run_action i st) (\<lambda>(r, s). steady st0 s)"
    unfolding run_action_def
    by (assumption | rule posts_steady c post_mono_state [OF activate_thread_steady]
        post_mono_pair [OF pthread_kill_steady] | (simp; fail) | rule post_any)+
qed

lemma fire_timer_steady: "steady st0 st \<Longrightarrow> post (fire_timer c i st) (\<lambda>(r, s). steady st0 s)"
  unfolding fire_timer_def
  by (assumption | rule posts_steady post_mono_pair [OF run_action_steady] | (simp; fail) | rule post_any)+

lemma update_loop_steady:
  assumes "update_loop env n kt c act st = Some r"
  shows "steady st0 st \<longrightarrow> steady st0 (snd (snd (snd r)))"
  apply (rule update_loop.raw_induct [where P = "\<lambda>env n kt c act st r. steady st0 st \<longrightarrow> steady st0 (snd (snd (snd r)))",
      OF _ assms])
  subgoal premises prems for f env n kt c act st r
  proof -
    have ih: "steady st0 s \<Longrightarrow> post (f e n' m c' a s) (\<lambda>r. steady st0 (snd (snd (snd r))))" for e n' m c' a s
      using prems(1) by (auto simp: post_def)
    show ?thesis
      by (rule impI, rule postD [OF _ prems(2)])
        (assumption | rule ih posts_steady post_mono_pair [OF fire_timer_steady] | (simp; fail) | rule post_any)+
  qed
  done

lemma update_hwtimer_steady: "steady st0 st \<Longrightarrow> post (update_hwtimer env hw n st) (\<lambda>(r, s). steady st0 s)"
proof -
  have l: "steady st0 s \<Longrightarrow> (\<And>k c' a s. steady st0 s \<Longrightarrow> P (k, c', a, s)) \<Longrightarrow> post (update_loop env n kt c act s) P"
    for s n kt c act P
    using update_loop_steady by (fastforce simp: post_def)
  show "steady st0 st \<Longrightarrow> post (update_hwtimer env hw n st) (\<lambda>(r, s). steady st0 s)"
    unfolding update_hwtimer_def
    by (assumption | rule posts_steady l | (simp; fail) | rule post_any)+
qed

section \<open>The interrupt of the timer\<close>

text \<open>An interrupt that comes while no other one is served, with the timer's handler in place and no event pending.\<close>

definition timer_irq_ready :: "os_state \<Rightarrow> nat \<Rightarrow> nat \<Rightarrow> bool" where
  "timer_irq_ready os c i \<longleftrightarrow> sched_ok (kern os) \<and> irq_nesting_counter (kern os) = 0 \<and>
     current_thread (kern os) = Some c \<and> c \<in> dom (threads (kern os)) \<and>
     idle_thread (kern os) = Some i \<and> i \<in> dom (threads (kern os)) \<and>
     rd (hw_irq_ctrl os) 0 = Some True \<and> rd (irq_handler_table os) 0 = Some xmtimer_irq_handler \<and>
     xmtimer_user_handler os \<and> (\<exists>e. event_handling os = Some e \<and> pending_events e = 0)"

definition entered :: "os_state \<Rightarrow> pk_state" where
  "entered os = (kern os)\<lparr>irq_nesting_counter := 1\<rparr>"

lemma unmask_quiet:
  assumes "map_option pending_events (event_handling os) = Some 0"
  shows "xm_unmask_event hc 0 os = Some (0, upd_page (\<lambda>e. e\<lparr>masked_events := clearbit (masked_events e) 0\<rparr>) os)"
  using assms by (auto simp: xm_unmask_event_def XM_MAX_EVENTS_def upd_page_def Let_def)

lemma upd_page_simps [simp]:
  "kern (upd_page f os) = kern os" "hw_irq_ctrl (upd_page f os) = hw_irq_ctrl os"
  "irq_handler_table (upd_page f os) = irq_handler_table os" "xmtimer_user_handler (upd_page f os) = xmtimer_user_handler os"
  "event_handling (upd_page f os) = map_option f (event_handling os)"
  by (simp_all add: upd_page_def)

lemma do_irq_timer:
  assumes r: "timer_irq_ready os c i" and c: "clock_handler env xmtimer_limits n1 n2 (entered os) = Some (x, k)"
    and k': "irq_return n3 n4 k = Some k'"
  shows "\<exists>os'. do_irq hc run env n1 n2 n3 n4 0 os = Some os' \<and> kern os' = k'"
proof -
  obtain e where e: "event_handling os = Some e" "pending_events e = 0"
    and h: "rd (hw_irq_ctrl os) 0 = Some True" "rd (irq_handler_table os) 0 = Some xmtimer_irq_handler"
      "xmtimer_user_handler os" "irq_nesting_counter (kern os) = 0"
    using r by (auto simp: timer_irq_ready_def)
  let ?o2 = "upd_page (\<lambda>e. e\<lparr>masked_events := setbit (masked_events e) 0\<rparr>) (os\<lparr>kern := entered os\<rparr>)"
  let ?f = "\<lambda>e. e\<lparr>masked_events := clearbit (masked_events e) 0\<rparr>"
  let ?o3 = "upd_page ?f (?o2\<lparr>kern := k\<rparr>)"
  have q: "xm_unmask_event hc 0 (?o2\<lparr>kern := k\<rparr>) = Some (0, ?o3)" "xm_unmask_event hc 0 ?o3 = Some (0, upd_page ?f ?o3)"
    by (rule unmask_quiet; simp add: e)+
  have "run_irq_handler hc run env n1 n2 0 xmtimer_irq_handler ?o2 = Some ?o3"
    using q(1) c h by (simp add: run_irq_handler_def run_xmtimer_irq_def hw_enable_irq_sys_def irq_ctrl_def XMTIMER_EVENT_def)
  then have "do_irq hc run env n1 n2 n3 n4 0 os = Some ((upd_page ?f ?o3)\<lparr>kern := k'\<rparr>)"
    using h k' q(2) by (simp add: do_irq_def entered_def xm_mask_event_def XM_MAX_EVENTS_def Let_def)
  then show ?thesis by simp
qed

text \<open>While an interrupt is served the scheduler only notes that it is wanted.\<close>

lemma scheduling_nested:
  assumes "irq_nesting_counter st AND OUTSIDE_IRQS \<noteq> 0"
  shows "scheduling n1 n2 st = Some (st\<lparr>irq_nesting_counter := irq_nesting_counter st OR SCHED_PENDING\<rparr>)"
  using assms by (simp add: scheduling_def Let_def)

lemma scheduling_chosen:
  assumes "sched_ok st" "irq_nesting_counter st AND OUTSIDE_IRQS = 0" "current_thread st = Some c" "c \<in> dom (threads st)"
    "idle_thread st = Some i" "i \<in> dom (threads st)"
  shows "\<exists>st' n Q. scheduling n1 n2 st = Some st' \<and> sched_inv st' Q \<and> chosen Q i n \<and>
    current_thread st' = Some n \<and> irq_nesting_counter st' = 0"
  using assms scheduling_ok by (metis domD sched_ok_def)

text \<open>C9: An interrupt of the timer that makes threads ready does not switch inside the handler: it
  switches once, when the interrupt ends, to a thread of the least priority number (or the idle
  thread); when nothing is to be rescheduled the interrupted thread goes on.  In both cases the
  invariant holds and no interrupt is left counted.\<close>
theorem timer_interrupt_reschedules:
  assumes r: "timer_irq_ready os c i" and u: "update_hwtimer env xmtimer_limits 0 (entered os) = Some (act, k)"
  shows "\<exists>os'. do_irq hc run env n1 n2 n3 n4 0 os = Some os' \<and> sched_ok (kern os') \<and>
    irq_nesting_counter (kern os') = 0 \<and>
    (if act = NEED_REESCHED then \<exists>Q n. sched_inv (kern os') Q \<and> chosen Q i n \<and> current_thread (kern os') = Some n
     else current_thread (kern os') = Some c)"
proof -
  have st: "steady (entered os) k" using postD [OF update_hwtimer_steady [OF steady_refl] u] by simp
  have ok: "sched_ok k" using postD [OF update_hwtimer_keeps u] r by (simp add: entered_def timer_irq_ready_def)
  have f: "current_thread k = Some c" "c \<in> dom (threads k)" "idle_thread k = Some i" "i \<in> dom (threads k)"
    "irq_nesting_counter k = 1"
    using st r by (auto simp: steady_def entered_def timer_irq_ready_def)
  show ?thesis
  proof (cases "act = NEED_REESCHED")
    case True
    let ?k = "k\<lparr>irq_nesting_counter := 1 OR SCHED_PENDING\<rparr>"
    have c: "clock_handler env xmtimer_limits n1 n2 (entered os) = Some (0, ?k)"
      using u True scheduling_nested [of k n1 n2] f(5) by (simp add: clock_handler_def OUTSIDE_IRQS_def)
    obtain k2 Q n where s: "scheduling n3 n4 (k\<lparr>irq_nesting_counter := SCHED_PENDING\<rparr>) = Some k2"
      "sched_inv k2 Q" "chosen Q i n" "current_thread k2 = Some n" "irq_nesting_counter k2 = 0"
      using scheduling_chosen [of "k\<lparr>irq_nesting_counter := SCHED_PENDING\<rparr>" c i n3 n4] ok f
      by (auto simp: OUTSIDE_IRQS_def SCHED_PENDING_def)
    then have "irq_return n3 n4 ?k = Some k2" by (simp add: irq_return_def SCHED_PENDING_def)
    from do_irq_timer [OF r c this, of hc run] obtain os' where
      "do_irq hc run env n1 n2 n3 n4 0 os = Some os'" "kern os' = k2" by blast
    then show ?thesis using True s by (auto simp: sched_ok_def)
  next
    case False
    have c: "clock_handler env xmtimer_limits n1 n2 (entered os) = Some (0, k)"
      using u False by (simp add: clock_handler_def)
    have "irq_return n3 n4 k = Some (k\<lparr>irq_nesting_counter := 0\<rparr>)"
      using f(5) by (simp add: irq_return_def SCHED_PENDING_def)
    from do_irq_timer [OF r c this, of hc run] show ?thesis using False ok f(1) by auto
  qed
qed

definition demo_clocks :: clock_env where
  "demo_clocks = \<lparr>mono_clock = (\<lambda>i. 100 + int i), real_clock = (\<lambda>i. 0), mono_res = 1, real_res = 1\<rparr>"

text \<open>Thread 2 sleeps until time 50; the interrupt comes at time 100.\<close>

definition demo_irq :: os_state where
  "demo_irq = demo_os\<lparr>irq_handler_table := replicate 16 xmtimer_irq_handler,
     kern := demo_pk\<lparr>timer_array := [zero_ktimer\<lparr>owner := Some 2, timer_value := 50, kt_flags := 3,
         read_clock := Some read_monotonic_timer, kt_action := Some action_wakeup\<rparr>],
       timer_heap := \<lparr>h_array = [None, Some 0, None, None], h_nelem = 1\<rparr>\<rparr>\<rparr>"

lemma demo_irq_fires: "map_option fst (update_hwtimer demo_clocks xmtimer_limits 0 (entered demo_irq)) = Some NEED_REESCHED"
  by code_simp

lemma demo_irq_ready: "timer_irq_ready demo_irq 1 1"
proof -
  have "sched_ok demo_pk" using demo_sched by (auto simp: sched_ok_def)
  then have "sched_ok (kern demo_irq)" by (simp add: demo_irq_def)
  then show ?thesis by (simp add: timer_irq_ready_def demo_irq_def demo_fields demo_os_def)
qed

theorem timer_interrupt_reschedules_witness:
  "\<exists>os' Q n. do_irq \<lparr>hc_sync_events = Some, hc_pass_event = (\<lambda>_. Some)\<rparr> (\<lambda>_. Some) demo_clocks 1 2 3 4 0 demo_irq = Some os' \<and>
     sched_inv (kern os') Q \<and> chosen Q 1 n \<and> current_thread (kern os') = Some n"
proof -
  obtain k where "update_hwtimer demo_clocks xmtimer_limits 0 (entered demo_irq) = Some (NEED_REESCHED, k)"
    using demo_irq_fires by (auto simp: map_option_case split: option.splits)
  from timer_interrupt_reschedules [OF demo_irq_ready this] show ?thesis by simp blast
qed

end
