(* ===== verification/PKernel.thy ===== *)
theory PKernel
  imports PSyscall PIrqInv
begin

unbundle bit_operations_syntax

text \<open>
  The steps of the kernel and its reachable states: whatever calls the threads
  make, in whatever order they are interrupted, switched and resumed, the
  queues of the scheduler hold exactly the ready threads.
\<close>

section \<open>Every call keeps the invariant\<close>

text \<open>The pool gives memory that is in no use.\<close>

definition fresh_alloc :: "call_env \<Rightarrow> bool" where
  "fresh_alloc ce \<longleftrightarrow> (\<forall>st a. ce_alloc ce st = Some a \<longrightarrow> threads st a = None)"

definition running_ready :: "pk_state \<Rightarrow> bool" where
  "running_ready st \<longleftrightarrow> (\<exists>c t. current_thread st = Some c \<and> threads st c = Some t \<and> GET_THREAD_STATE t = READY_THREAD)"

definition may_call :: "kcall \<Rightarrow> pk_state \<Rightarrow> bool" where
  "may_call c st \<longleftrightarrow> (c = Attr_call Pthread_yield \<longrightarrow> running_ready st)"

lemma st_of_keeps:
  "post m (\<lambda>(r, s). sched_ok s) \<Longrightarrow> post (st_of1 m) ok_out"
  "post m' (\<lambda>(r, x, s). sched_ok s) \<Longrightarrow> post (st_of2 m') ok_out"
  by (auto simp: st_of1_def st_of2_def post_def bind_eq_Some_conv)

lemma st_out_keeps: "post m ok_out \<Longrightarrow> post (st_out m) ok_out"
  unfolding st_out_def by (rule post_andthen) (auto intro: post_Some)

lemma reads_keeps: "sched_ok st \<Longrightarrow> post (reads m st) ok_out"
  by (auto simp: reads_def post_def bind_eq_Some_conv)

lemma yield_keeps:
  assumes ok: "sched_ok st" and r: "running_ready st"
  shows "post (pthread_yield_sys n1 n2 st) (\<lambda>(r, s). sched_ok s)"
proof -
  obtain Q c t where q: "sched_inv st Q" "current_thread st = Some c" "threads st c = Some t" "GET_THREAD_STATE t = READY_THREAD"
    using assms by (auto simp: sched_ok_def running_ready_def)
  obtain st2 where s: "pthread_yield_sys n1 n2 st = do { st3 \<leftarrow> scheduling n1 n2 st2; Some (0, st3) }" "sched_ok st2"
    using yield_requeues [OF q, of n1 n2] by (auto simp: sched_ok_def)
  show ?thesis unfolding s(1) by (rule post_bind, rule post_scheduling [OF s(2)]) (simp add: post_def)
qed

lemmas outs = st_of_keeps st_out_keeps reads_keeps

lemma thread_dispatch_keeps:
  assumes "user_keeps run" "fresh_alloc ce" "sched_ok st"
  shows "post (thread_dispatch run ce c st) ok_out"
proof (cases c)
  case (Pthread_create attr f v)
  have "post (pthread_create_sys n1 n2 (ce_alloc ce st) sm su attr f v st) (\<lambda>(t, r). ok_out r)" for n1 n2 sm su
    by (rule pthread_create_keeps [OF assms(3)]) (use assms(2) in \<open>simp add: fresh_alloc_def\<close>)
  then have "post (map_option snd (pthread_create_sys (ce_now1 ce) (ce_now2 ce) (ce_alloc ce st) (ce_stack ce) (ce_startup ce) attr f v st)) ok_out"
    by (fastforce simp: post_def)
  then show ?thesis using Pthread_create by (simp add: outs)
next
  case (Pthread_cleanup_push f v)
  then show ?thesis using cleanup_push_keeps [OF assms(3), of f v] by (auto simp: post_def bind_eq_Some_conv)
next
  case (Pthread_once x y)
  then show ?thesis using once_keeps [OF assms(3), of x y] by (auto simp: post_def bind_eq_Some_conv)
qed (use assms in \<open>simp_all add: outs exit_sys_keeps pthread_exit_keeps pthread_join_keeps pthread_detach_keeps
      cleanup_pop_keeps pthread_cancel_keeps\<close>)

lemma attr_dispatch_keeps:
  assumes "user_keeps run" "sched_ok st" "may_call (Attr_call c) st"
  shows "post (attr_dispatch run ce c st) ok_out"
  using assms by (cases c) (simp_all add: outs setcancelstate_keeps setcanceltype_keeps getschedparam_keeps setschedparam_keeps
      key_create_keeps setspecific_keeps getspecific_keeps key_delete_keeps yield_keeps may_call_def delete_np_keeps
      setperiod_keeps getperiod_keeps)

lemma sync_dispatch_keeps: "sched_ok st \<Longrightarrow> post (sync_dispatch ce c st) ok_out"
  by (cases c) (simp_all add: outs mutex_init_keeps mutex_lock_keeps mutex_trylock_keeps mutex_unlock_keeps cond_init_keeps
      cond_signal_keeps cond_broadcast_keeps cond_wait_keeps cond_timedwait_keeps sem_init_keeps sem_destroy_keeps
      sem_getvalue_keeps sem_wait_keeps sem_trywait_keeps sem_timedwait_keeps sem_post_keeps)

lemma time_dispatch_keeps: "sched_ok st \<Longrightarrow> post (time_dispatch ce c st) ok_out"
  by (cases c) (simp_all add: outs gettimeofday_keeps usleep_keeps nanosleep_keeps clock_settime_keeps clock_gettime_keeps
      clock_getres_keeps timer_create_keeps timer_delete_keeps timer_settime_keeps timer_gettime_keeps timer_getoverrun_keeps)

lemma signal_dispatch_keeps: "sched_ok st \<Longrightarrow> post (signal_dispatch ce c st) ok_out"
proof (cases c)
  case (Set_errno e)
  assume "sched_ok st"
  then show ?thesis using Set_errno by (auto intro!: post_bind post_SET_ERRNO post_Some)
qed (simp_all add: outs sigaction_keeps sigsuspend_keeps sigwait_keeps pthread_kill_keeps sigmask_keeps)

lemma kdispatch_keeps:
  "user_keeps run \<Longrightarrow> fresh_alloc ce \<Longrightarrow> sched_ok st \<Longrightarrow> may_call c st \<Longrightarrow> post (kdispatch run ce c st) ok_out"
  by (cases c) (simp_all add: thread_dispatch_keeps attr_dispatch_keeps sync_dispatch_keeps time_dispatch_keeps signal_dispatch_keeps)

lemma post_lock_loop: "sched_ok st \<Longrightarrow> post (lock_loop n1 n2 x fl st) ok_out"
  using lock_loop_keeps by (auto simp: post_def)

lemma kresume_keeps: "user_keeps run \<Longrightarrow> sched_ok st \<Longrightarrow> post (kresume run ce k st) ok_out"
  by (cases k) (simp_all add: outs sleep_for_rest_keeps nanosleep_rest_keeps sem_wait_rest_keeps sem_timedwait_rest_keeps
      sem_post_rest_keeps post_lock_loop cond_wait_lock_keeps cond_timed_lock_keeps post_join_loop sigsuspend_rest_keeps
      sigwait_rest_keeps post_cleanup_loop exit_end_keeps signals_loop_keeps)

text \<open>The functions of an application keep it, however deep they nest, when they do not yield.\<close>

definition no_yield :: "application \<Rightarrow> bool" where
  "no_yield app \<longleftrightarrow> (\<forall>f v. Attr_call Pthread_yield \<notin> set (app f v))"

lemma run_calls_keeps:
  "user_keeps run \<Longrightarrow> fresh_alloc ce \<Longrightarrow> Attr_call Pthread_yield \<notin> set cs \<Longrightarrow> sched_ok st \<Longrightarrow> post (run_calls run ce cs st) ok_out"
proof (induction cs arbitrary: st)
  case Nil
  then show ?case by (simp add: post_def)
next
  case (Cons c cs)
  then have "may_call c st" by (auto simp: may_call_def)
  then show ?case using Cons by (simp add: post_andthen kdispatch_keeps)
qed

lemma app_code_keeps: "no_yield app \<Longrightarrow> fresh_alloc ce \<Longrightarrow> user_keeps (app_code app ce n)"
proof (induction n)
  case 0
  then show ?case by (simp add: user_keeps_def post_def)
next
  case (Suc n)
  then show ?case using run_calls_keeps by (simp add: user_keeps_def no_yield_def)
qed

section \<open>Steps and reachable states\<close>

fun out_state :: "'a outcome \<Rightarrow> pk_state" where
  "out_state (Returned x st) = st"
| "out_state (Switched st) = st"
| "out_state (Halted e st) = st"

lemma ok_out_state: "ok_out r \<Longrightarrow> sched_ok (out_state r)"
  by (cases r) simp_all

text \<open>
  A step: a call of the running thread, the rest of a call in a thread that
  comes back from scheduling, the interrupt of the timer, the delivery of
  signals on the way back to the application, or the first run of a thread.
\<close>

inductive kstep :: "application \<Rightarrow> pk_state \<Rightarrow> pk_state \<Rightarrow> bool" for app where
  call: "fresh_alloc ce \<Longrightarrow> may_call c st \<Longrightarrow> kdispatch (app_code app ce n) ce c st = Some r \<Longrightarrow> kstep app st (out_state r)"
| resume: "fresh_alloc ce \<Longrightarrow> kresume (app_code app ce n) ce k st = Some r \<Longrightarrow> kstep app st (out_state r)"
| timer: "clock_handler env hw now1 now2 st = Some (x, st') \<Longrightarrow> kstep app st st'"
| signals: "fresh_alloc ce \<Longrightarrow> do_signals (app_code app ce n) now1 now2 st = Some r \<Longrightarrow> kstep app st (out_state r)"
| start: "fresh_alloc ce \<Longrightarrow> startup (app_code app ce n) now now1 now2 f v st = Some r \<Longrightarrow> kstep app st (out_state r)"

inductive reachable :: "application \<Rightarrow> pk_state \<Rightarrow> pk_state \<Rightarrow> bool" for app st0 where
  init: "reachable app st0 st0"
| step: "reachable app st0 st \<Longrightarrow> kstep app st st' \<Longrightarrow> reachable app st0 st'"

lemma kstep_keeps:
  assumes "kstep app st st'" "no_yield app" "sched_ok st"
  shows "sched_ok st'"
  using assms
proof (induction rule: kstep.induct)
  case (call ce c st n r)
  then show ?case using postD [OF kdispatch_keeps] app_code_keeps ok_out_state by metis
next
  case (resume ce n k st r)
  then show ?case using postD [OF kresume_keeps] app_code_keeps ok_out_state by metis
next
  case (timer env hw now1 now2 st x st')
  then show ?case using postD [OF clock_handler_keeps] by fastforce
next
  case (signals ce n now1 now2 st r)
  then show ?case using postD [OF do_signals_keeps] app_code_keeps ok_out_state by metis
next
  case (start ce n now now1 now2 f v st r)
  then show ?case using postD [OF startup_keeps] app_code_keeps ok_out_state by metis
qed

lemma reachable_keeps: "reachable app st0 st \<Longrightarrow> no_yield app \<Longrightarrow> sched_ok st0 \<Longrightarrow> sched_ok st"
  by (induction rule: reachable.induct) (auto intro: kstep_keeps)

inductive_cases kstepE: "kstep app st st'"

inductive_simps reachable_simps: "reachable app st0 st"

section \<open>Properties\<close>

lemma sched_ok_queues:
  assumes "sched_ok st0" "sched_ok st0 \<Longrightarrow> sched_ok st"
  shows "\<exists>Q. ready_queues st Q \<and>
    (\<forall>a t. threads st a = Some t \<longrightarrow> (GET_THREAD_STATE t = READY_THREAD \<longleftrightarrow> (\<exists>p<1024. a \<in> set (Q p)))) \<and>
    (\<forall>p<1024. \<forall>a\<in>set (Q p). \<forall>t. threads st a = Some t \<longrightarrow> level (prio_th t) = p)"
proof -
  obtain Q where "sched_inv st Q" using assms by (auto simp: sched_ok_def)
  then show ?thesis by (intro exI [of _ Q]) (auto simp: sched_inv_def unqueued_def)
qed

text \<open>In every state that the kernel can reach from a consistent one, by any sequence of calls of an
  application, resumptions of switched threads, timer interrupts, deliveries of signals and starts of
  threads, the queues of the scheduler are well formed and hold exactly the ready threads, each at the
  level of its priority.\<close>
theorem kernel_reachable_consistent:
  assumes "reachable app st0 st" "no_yield app" "sched_inv st0 Q0"
  shows "\<exists>Q. ready_queues st Q \<and>
    (\<forall>a t. threads st a = Some t \<longrightarrow> (GET_THREAD_STATE t = READY_THREAD \<longleftrightarrow> (\<exists>p<1024. a \<in> set (Q p)))) \<and>
    (\<forall>p<1024. \<forall>a\<in>set (Q p). \<forall>t. threads st a = Some t \<longrightarrow> level (prio_th t) = p)"
proof -
  have "sched_ok st0" using assms(3) by (auto simp: sched_ok_def)
  then show ?thesis using reachable_keeps [OF assms(1,2)] by (rule sched_ok_queues)
qed

text \<open>An application whose function 7 posts the semaphore at 64.\<close>

definition demo_app :: application where
  "demo_app f v = (if f = 7 then [Sync_call (Sem_post (Some 64))] else [])"

lemma demo_app_no_yield: "no_yield demo_app"
  by (simp add: no_yield_def demo_app_def)

lemma demo_timer_step:
  "map_option (\<lambda>(x, st). current_thread st) (clock_handler demo_clocks xmtimer_limits 1 2 (kern demo_irq)) = Some (Some 2)"
  by code_simp

theorem kernel_reachable_consistent_witness:
  "\<exists>st Q. reachable demo_app (kern demo_irq) st \<and> current_thread st = Some 2 \<and> ready_queues st Q"
proof -
  obtain x st where s: "clock_handler demo_clocks xmtimer_limits 1 2 (kern demo_irq) = Some (x, st)" "current_thread st = Some 2"
    using demo_timer_step by (auto simp: map_option_case split: option.splits)
  then have "reachable demo_app (kern demo_irq) st" by (blast intro: reachable.intros kstep.timer)
  moreover have "sched_inv (kern demo_irq) (\<lambda>_. [])"
    using demo_sched sched_inv_core [of "kern demo_irq" demo_pk] by (simp add: demo_irq_def)
  ultimately show ?thesis using kernel_reachable_consistent [OF _ demo_app_no_yield] s(2) by blast
qed

text \<open>A thread that exits while a cleanup handler of it is registered; the handler, function 7, yields.\<close>

definition yielding_app :: application where
  "yielding_app f v = (if f = 7 then [Attr_call Pthread_yield] else [])"

definition demo_alloc :: call_env where
  "demo_alloc = \<lparr>ce_clock = demo_clocks, ce_hw = xmtimer_limits, ce_now1 = 1, ce_now2 = 2, ce_alloc = (\<lambda>_. None),
     ce_stack = 0, ce_startup = 0\<rparr>"

definition exiting_pk :: pk_state where
  "exiting_pk = the (activate_thread 2 (demo_pk\<lparr>current_thread := Some 2,
     threads := (threads demo_pk)(2 \<mapsto> (demo_thread 2 5)\<lparr>cleanup_routine_table := replicate 8 (7, 0), top_cr_table := 1\<rparr>),
     timer_array := [zero_ktimer], timer_heap := \<lparr>h_array = [None, None, None, None], h_nelem = 0\<rparr>\<rparr>))"

lemma exited_runs: "map_option (\<lambda>r. case r of Returned _ st \<Rightarrow> (current_thread st,
      map_option GET_THREAD_STATE (threads st 2)) | _ \<Rightarrow> (None, None))
    (pthread_exit_sys (app_code yielding_app demo_alloc 1) 1 2 0 exiting_pk) = Some (Some 2, Some FINISHED_THREAD)"
  by code_simp

text \<open>The kernel runs the cleanup handlers after it has finished the thread, so a handler that yields
  puts the finished thread back into the queues: the exit returns to its caller and the finished thread
  goes on running.\<close>
theorem exit_with_yield_returns:
  "\<exists>st'. pthread_exit_sys (app_code yielding_app demo_alloc 1) 1 2 0 exiting_pk = Some (Returned () st') \<and>
     current_thread st' = Some 2 \<and> map_option GET_THREAD_STATE (threads st' 2) = Some FINISHED_THREAD"
  using exited_runs by (auto simp: map_option_case split: option.splits outcome.splits)

end
