(* ===== verification/PCalls.thy ===== *)
theory PCalls
  imports PKernel
begin

unbundle bit_operations_syntax

text \<open>
  What single calls of the threads and signals components do: removal from a
  list of threads, the end of a join, thread-specific data, pthread_once,
  detach, and the delivery of signals.
\<close>

section \<open>Removal from a list of threads\<close>

text \<open>A write of one link through a pointer that may be NULL, as a change of the link functions.\<close>

definition keeps_this :: "plkind \<Rightarrow> pk_state \<Rightarrow> pk_state \<Rightarrow> bool" where
  "keeps_this k st st' \<longleftrightarrow> (\<forall>a. map_option (\<lambda>t. pl_this (get_pl k t)) (threads st' a) =
     map_option (\<lambda>t. pl_this (get_pl k t)) (threads st a))"

lemma keeps_this_trans: "keeps_this k a b \<Longrightarrow> keeps_this k b c \<Longrightarrow> keeps_this k a c"
  by (simp add: keeps_this_def)

lemma keeps_this_dom: "keeps_this k st st' \<Longrightarrow> dom (threads st') = dom (threads st)"
proof -
  assume k: "keeps_this k st st'"
  have "threads st' a = None \<longleftrightarrow> threads st a = None" for a
    using k [unfolded keeps_this_def, rule_format, of a] by (cases "threads st a"; cases "threads st' a") simp_all
  then show "dom (threads st') = dom (threads st)" by (auto simp: dom_def)
qed

lemma keeps_this_the:
  "keeps_this k st st' \<Longrightarrow> a \<in> dom (threads st) \<Longrightarrow>
   pl_this (get_pl k (the (threads st' a))) = pl_this (get_pl k (the (threads st a)))"
proof -
  assume k: "keeps_this k st st'" and a: "a \<in> dom (threads st)"
  then obtain t where t: "threads st a = Some t" by blast
  then obtain t' where "threads st' a = Some t'" using keeps_this_dom [OF k] by blast
  then show "pl_this (get_pl k (the (threads st' a))) = pl_this (get_pl k (the (threads st a)))"
    using k [unfolded keeps_this_def, rule_format, of a] t by simp
qed

lemma set_prev_ok:
  assumes "\<And>b. q = Some b \<Longrightarrow> b \<in> dom (threads st)"
  shows "\<exists>st1. (case q of None \<Rightarrow> Some st | Some b \<Rightarrow> upd_th b (map_pl k (\<lambda>n. n\<lparr>pl_prev := v\<rparr>)) st) = Some st1 \<and>
    pl_nx k st1 = pl_nx k st \<and> pl_pr k st1 = set_next q v (pl_pr k st) \<and> keeps_this k st st1"
proof (cases q)
  case None
  then show ?thesis by (simp add: set_next_def keeps_this_def)
next
  case (Some b)
  then obtain t where t: "threads st b = Some t" using assms by blast
  have "pl_nx k st b = pl_next (get_pl k t)" using t by (simp add: pl_nx_def)
  then show ?thesis using Some t pl_upd [OF t, of k "\<lambda>n. n\<lparr>pl_prev := v\<rparr>"]
    by (auto simp: set_next_def keeps_this_def fun_eq_iff)
qed

lemma set_next_ok:
  assumes "\<And>b. q = Some b \<Longrightarrow> b \<in> dom (threads st)"
  shows "\<exists>st1. (case q of None \<Rightarrow> Some st | Some b \<Rightarrow> upd_th b (map_pl k (\<lambda>n. n\<lparr>pl_next := v\<rparr>)) st) = Some st1 \<and>
    pl_nx k st1 = set_next q v (pl_nx k st) \<and> pl_pr k st1 = pl_pr k st \<and> keeps_this k st st1"
proof (cases q)
  case None
  then show ?thesis by (simp add: set_next_def keeps_this_def)
next
  case (Some b)
  then obtain t where t: "threads st b = Some t" using assms by blast
  have "pl_pr k st b = pl_prev (get_pl k t)" using t by (simp add: pl_pr_def)
  then show ?thesis using Some t pl_upd [OF t, of k "\<lambda>n. n\<lparr>pl_next := v\<rparr>"]
    by (auto simp: set_next_def keeps_this_def fun_eq_iff)
qed

lemma remove_pthread_list_ok:
  assumes l: "pthread_list k st h (us @ p # vs)"
  shows "\<exists>st' h'. remove_pthread_list k h p st = Some (h', st') \<and> pthread_list k st' h' (us @ vs) \<and> pl_free k st' p \<and>
    keeps_this k st st'"
proof -
  let ?nx = "pl_nx k st" and ?pr = "pl_pr k st"
  have d: "dlist ?nx ?pr h (us @ p # vs)" and sub: "set (us @ p # vs) \<subseteq> dom (threads st)"
    and th: "\<forall>x\<in>set (us @ p # vs). pl_this (get_pl k (the (threads st x))) = Some x"
    using l by (simp_all add: pthread_list_def)
  have s: "?pr p = (if us = [] then None else Some (last us))" "?nx p = (if vs = [] then None else Some (hd vs))"
    "distinct (us @ p # vs)" using dlist_split [OF d] by simp_all
  have ne: "?nx p \<noteq> Some p" "?pr p \<noteq> Some p" using s by auto
  have dom: "b \<in> dom (threads st)" if "?nx p = Some b \<or> ?pr p = Some b" for b
  proof -
    have "b \<in> set vs \<or> b \<in> set us" using that s(1,2) by (auto split: if_splits)
    then show ?thesis using sub by auto
  qed
  obtain t where t: "threads st p = Some t" using sub by auto
  have tp: "pl_next (get_pl k t) = ?nx p" "pl_prev (get_pl k t) = ?pr p" using t by (simp_all add: pl_nx_def pl_pr_def)
  obtain st1 where s1: "(case ?nx p of None \<Rightarrow> Some st | Some b \<Rightarrow> upd_th b (map_pl k (\<lambda>n. n\<lparr>pl_prev := ?pr p\<rparr>)) st) = Some st1"
    "pl_nx k st1 = ?nx" "pl_pr k st1 = set_next (?nx p) (?pr p) ?pr" "keeps_this k st st1"
    using set_prev_ok [of "?nx p" st k "?pr p"] dom by blast
  have d1: "dom (threads st1) = dom (threads st)" by (rule keeps_this_dom [OF s1(4)])
  obtain t1 where t1: "threads st1 p = Some t1" using d1 t by blast
  have tp1: "pl_next (get_pl k t1) = ?nx p" "pl_prev (get_pl k t1) = ?pr p"
    using t1 s1(2,3) ne(1) by (auto simp: pl_nx_def pl_pr_def set_next_def fun_eq_iff split: option.splits dest: spec [of _ p])
  obtain st2 where s2: "(case ?pr p of None \<Rightarrow> Some st1 | Some b \<Rightarrow> upd_th b (map_pl k (\<lambda>n. n\<lparr>pl_next := ?nx p\<rparr>)) st1) = Some st2"
    "pl_nx k st2 = set_next (?pr p) (?nx p) ?nx" "pl_pr k st2 = set_next (?nx p) (?pr p) ?pr" "keeps_this k st1 st2"
    using set_next_ok [of "?pr p" st1 k "?nx p"] dom d1 s1(2,3) by auto
  have d2: "dom (threads st2) = dom (threads st)" using keeps_this_dom [OF s2(4)] d1 by simp
  obtain t2 where t2: "threads st2 p = Some t2" using d2 t by blast
  have tp2: "pl_next (get_pl k t2) = ?nx p"
    using t2 s2(2) ne(2) by (auto simp: pl_nx_def set_next_def fun_eq_iff split: option.splits dest: spec [of _ p])
  let ?f = "\<lambda>n. n\<lparr>pl_prev := None, pl_next := None\<rparr>"
  let ?st3 = "st2\<lparr>threads := (threads st2)(p \<mapsto> map_pl k ?f t2)\<rparr>"
  let ?h = "if h = Some p then ?nx p else h"
  have "remove_pthread_list k h p st = Some (?h, ?st3)"
    unfolding remove_pthread_list_def t Option.bind.bind_lunit tp s1(1) t1 tp1 s2(1) t2 tp2 Let_def
    using t2 by simp
  moreover have "pthread_list k ?st3 ?h (us @ vs)"
  proof -
    have "dlist (set_next (?pr p) (?nx p) ?nx) (set_next (?nx p) (?pr p) ?pr) (if us = [] then ?nx p else h) (us @ vs)"
      by (rule dlist_remove [OF d]) simp_all
    moreover have "(if us = [] then ?nx p else h) = ?h" using dlist_head [OF d] s(3) by (cases us) auto
    ultimately have "dlist (pl_nx k st2) (pl_pr k st2) ?h (us @ vs)" using s2(2,3) by simp
    then have "dlist (pl_nx k ?st3) (pl_pr k ?st3) ?h (us @ vs)"
      by (rule dlist_frame) (use s(3) pl_upd [OF t2, of k ?f] in auto)
    moreover have "pl_this (get_pl k (the (threads ?st3 x))) = Some x" if "x \<in> set (us @ vs)" for x
      using that th s(3) keeps_this_the [OF keeps_this_trans [OF s1(4) s2(4)], of x] sub by auto
    ultimately show ?thesis using sub d2 by (auto simp: pthread_list_def)
  qed
  moreover have k3: "keeps_this k st2 ?st3" using t2 by (simp add: keeps_this_def)
  moreover have "pl_free k ?st3 p"
  proof -
    have "pl_this (get_pl k t2) = Some p"
      using keeps_this_the [OF keeps_this_trans [OF s1(4) s2(4)], of p] t t2 th by auto
    then show ?thesis by (simp add: pl_free_def)
  qed
  ultimately show ?thesis using keeps_this_trans [OF keeps_this_trans [OF s1(4) s2(4)]] by blast
qed

text \<open>Deletion of a thread, with no fault.\<close>

lemma delete_pthread_struct_ok:
  assumes inv: "sched_inv st Q" and l: "pthread_list ThreadL st (thread_list st) (us @ a # vs)"
  shows "\<exists>st'. delete_pthread_struct a st = Some st' \<and> threads st' a = None \<and> sched_ok st' \<and>
    pthread_list ThreadL st' (thread_list st') (us @ vs)"
proof -
  obtain t where t: "threads st a = Some t" using l by (auto simp: pthread_list_def)
  obtain st1 where s1: "remove_ss a st = Some st1" "same_but_ss st st1"
    using remove_ss_any [OF sched_but_inv [OF inv] t] by blast
  have o: "only_thread a st st1" by (rule same_only_thread [OF s1(2)])
  then have "pthread_list ThreadL st1 (thread_list st1) (us @ a # vs)"
    using l only_thread_lists [OF o] only_thread_fields [OF o] by simp
  from remove_pthread_list_ok [OF this] obtain st2 h where s2:
    "remove_pthread_list ThreadL (thread_list st1) a st1 = Some (h, st2)" "pthread_list ThreadL st2 h (us @ vs)"
    by blast
  let ?st = "st2\<lparr>thread_list := h, threads := (threads st2)(a := None)\<rparr>"
  have d: "delete_pthread_struct a st = Some ?st" using s1(1) s2(1) by (simp add: delete_pthread_struct_def)
  moreover have "sched_ok ?st"
    using postD [OF post_delete_pthread_struct [where P = sched_ok] d] inv by (auto simp: sched_ok_def)
  moreover have "pthread_list ThreadL ?st (thread_list ?st) (us @ vs)"
  proof -
    have na: "a \<notin> set (us @ vs)"
      using dlist_split [of "pl_nx ThreadL st" "pl_pr ThreadL st" "thread_list st" us a vs] l by (simp add: pthread_list_def)
    have "pl_nx ThreadL ?st x = pl_nx ThreadL st2 x \<and> pl_pr ThreadL ?st x = pl_pr ThreadL st2 x" if "x \<noteq> a" for x
      using that by (simp add: pl_nx_def pl_pr_def)
    then have fr: "\<forall>x\<in>set (us @ vs). pl_nx ThreadL ?st x = pl_nx ThreadL st2 x \<and> pl_pr ThreadL ?st x = pl_pr ThreadL st2 x"
      using na by metis
    have s3: "dlist (pl_nx ThreadL st2) (pl_pr ThreadL st2) h (us @ vs)" "set (us @ vs) \<subseteq> dom (threads st2)"
      "\<forall>x\<in>set (us @ vs). pl_this (get_pl ThreadL (the (threads st2 x))) = Some x"
      using s2(2) by (simp_all add: pthread_list_def)
    have "dlist (pl_nx ThreadL ?st) (pl_pr ThreadL ?st) h (us @ vs)" by (rule dlist_frame [OF s3(1) fr])
    moreover have "set (us @ vs) \<subseteq> dom (threads ?st)" using s3(2) na by auto
    moreover have "pl_this (get_pl ThreadL (the (threads ?st x))) = Some x" if "x \<in> set (us @ vs)" for x
    proof -
      have "x \<noteq> a" using that na by auto
      then show ?thesis using s3(3) that by simp
    qed
    ultimately show ?thesis unfolding pthread_list_def by simp
  qed
  ultimately show ?thesis by (intro exI [of _ ?st]) simp
qed

section \<open>Joins\<close>

text \<open>A join of a finished, joinable thread does not block: it returns 0 and the exit value, and the
  thread is gone from the list of threads and from memory, with the invariant of the scheduler kept.\<close>
theorem join_of_finished:
  assumes "sched_inv st Q" "pthread_list ThreadL st (thread_list st) (us @ a # vs)"
    and t: "threads st a = Some t" "magic_number t = PTHREAD_MAGIC_NUMBER"
    and s: "GET_THREAD_STATE t = FINISHED_THREAD" "GET_THREAD_DETACH_STATE t = 0"
  shows "\<exists>st'. pthread_join_sys now1 now2 (Some a) True st = Some (Returned (0, Some (exit_value t)) st') \<and>
    threads st' a = None \<and> pthread_list ThreadL st' (thread_list st') (us @ vs) \<and> sched_ok st' \<and> pk_if st' = pk_if st"
proof -
  let ?st = "st\<lparr>pk_if := False\<rparr>"
  have "sched_inv ?st Q" using assms(1) by simp
  moreover have "pthread_list ThreadL ?st (thread_list ?st) (us @ a # vs)"
    using assms(2) pthread_list_cong [of ThreadL ?st st] by simp
  ultimately obtain st' where d: "delete_pthread_struct a ?st = Some st'" "threads st' a = None" "sched_ok st'"
    "pthread_list ThreadL st' (thread_list st') (us @ vs)"
    using delete_pthread_struct_ok by blast
  have "pthread_join_sys now1 now2 (Some a) True st = Some (Returned (0, Some (exit_value t)) (st'\<lparr>pk_if := pk_if st\<rparr>))"
    using t s d(1) by (simp add: pthread_join_sys_def valid_thread_def join_loop.simps join_end_def)
  moreover have "pthread_list ThreadL (st'\<lparr>pk_if := pk_if st\<rparr>) (thread_list st') (us @ vs)"
    using d(4) pthread_list_cong [of ThreadL "st'\<lparr>pk_if := pk_if st\<rparr>" st'] by simp
  ultimately show ?thesis using d(2,3) by simp
qed

section \<open>Thread-specific data\<close>

lemma key_created:
  assumes "length (keys st) = MAX_PTHREAD_KEYS" "find_free_key (keys st) = Some k"
  shows "\<exists>st1. pthread_key_create_sys True d st = Some (0, Some (int k), st1) \<and> threads st1 = threads st \<and>
    current_thread st1 = current_thread st \<and> key_in_use (int k) st1 = Some True \<and> k < MAX_PTHREAD_KEYS"
proof -
  have "k < MAX_PTHREAD_KEYS" using assms(2) by (auto simp: find_free_key_def find_upt_Some_iff)
  then show ?thesis using assms by (simp add: pthread_key_create_sys_def key_in_use_def MAX_PTHREAD_KEYS_def)
qed

text \<open>A value that a thread stores under a key it has just created is the value it reads back, and the
  data of the other threads and keys are not touched.\<close>
theorem key_set_then_get:
  assumes k: "length (keys st) = MAX_PTHREAD_KEYS" "find_free_key (keys st) = Some k"
    and c: "current_thread st = Some c" "threads st c = Some t" "length (tsd t) = MAX_PTHREAD_KEYS"
  shows "\<exists>st1 st2. pthread_key_create_sys True d st = Some (0, Some (int k), st1) \<and>
    pthread_setspecific_sys (int k) v st1 = Some (0, st2) \<and>
    pthread_getspecific_sys (int k) st2 = Some (v, st2) \<and>
    threads st2 = (threads st)(c \<mapsto> t\<lparr>tsd := (tsd t)[k := v]\<rparr>)"
proof -
  obtain st1 where s: "pthread_key_create_sys True d st = Some (0, Some (int k), st1)" "threads st1 = threads st"
    "current_thread st1 = current_thread st" "key_in_use (int k) st1 = Some True" "k < MAX_PTHREAD_KEYS"
    using key_created [OF k] by blast
  have "key_in_use (int k) (st1\<lparr>threads := f\<rparr>) = key_in_use (int k) st1" for f by (simp add: key_in_use_def)
  then have u: "key_in_use (int k) (st1\<lparr>threads := f\<rparr>) = Some True" for f using s(4) by simp
  show ?thesis using s c u by (simp add: pthread_setspecific_sys_def pthread_getspecific_sys_def)
qed

text \<open>A new key does not read as NULL: it reads as whatever the thread stored under the same number
  before, for the creation and the deletion of keys leave the data of the threads alone.\<close>
theorem new_key_reads_stale:
  assumes k: "length (keys st) = MAX_PTHREAD_KEYS" "find_free_key (keys st) = Some k"
    and c: "current_thread st = Some c" "threads st c = Some t" "length (tsd t) = MAX_PTHREAD_KEYS"
  shows "\<exists>st1. pthread_key_create_sys True d st = Some (0, Some (int k), st1) \<and>
    pthread_getspecific_sys (int k) st1 = Some (tsd t ! k, st1)"
  using key_created [OF k] c by (fastforce simp: pthread_getspecific_sys_def)

section \<open>Once and detach\<close>

text \<open>A routine given to pthread_once with a control that starts at 0, as PTHREAD_ONCE_INIT sets it,
  is not run by the first call nor by any other before the counter has wrapped around: the k-th call
  only counts.\<close>
theorem once_routine_not_run:
  assumes "k + 1 < 2 ^ 32"
  shows "pthread_once_sys (Some (to_s32 (int k))) True st = Some (0, Some (to_s32 (int (k + 1))), False, st)"
proof -
  have w: "to_s32 (1 + to_s32 x) = to_s32 (1 + x)" for x by (simp add: to_s32_def) presburger
  have "to_s32 (int (k + 1)) \<noteq> 0"
  proof
    assume "to_s32 (int (k + 1)) = 0"
    then have m: "(int (k + 1) + 2 ^ 31) mod 2 ^ 32 = 2 ^ 31" by (simp add: to_s32_def)
    have "int (k + 1) mod 2 ^ 32 = ((int (k + 1) + 2 ^ 31) mod 2 ^ 32 - 2 ^ 31) mod 2 ^ 32" by (simp only: mod_diff_left_eq add_diff_cancel_right')
    then have "int (k + 1) mod 2 ^ 32 = 0" unfolding m by simp
    moreover have "int (k + 1) < 2 ^ 32" using assms by (metis of_nat_less_iff of_nat_numeral of_nat_power)
    ultimately show False by simp
  qed
  then show ?thesis by (simp add: pthread_once_sys_def Let_def w add.commute [of _ 1])
qed

text \<open>Detaching a joinable thread dereferences NULL unless a thread waits to join the caller: the code
  looks at the joiner of the running thread, not of the detached one, and tests neither.\<close>
theorem detach_faults:
  assumes "threads st a = Some t" "magic_number t = PTHREAD_MAGIC_NUMBER" "GET_THREAD_DETACH_STATE t = 0"
    and "current_thread st = Some c" "threads st c = Some tc" "joining_thread tc = None"
  shows "pthread_detach_sys now1 now2 (Some a) st = None"
  using assms by (cases "c = a") (auto simp: pthread_detach_sys_def valid_thread_def SET_THREAD_DETACH_STATE_def)

section \<open>Signals\<close>

lemma upd_same: "threads st c = Some t \<Longrightarrow> st\<lparr>threads := (threads st)(c \<mapsto> t)\<rparr> = st"
  by (simp add: fun_upd_idem)

text \<open>When every pending signal of the running thread is masked, the return to the application runs no
  handler and changes nothing: the signals stay pending.\<close>
theorem masked_signals_stay_pending:
  assumes "current_thread st = Some c" "threads st c = Some t" "deliverable t = 0"
  shows "do_signals run now1 now2 st = Some (Returned () st)"
proof -
  let ?st = "st\<lparr>pk_if := False\<rparr>"
  have u: "?st\<lparr>threads := (threads st)(c \<mapsto> t)\<rparr> = ?st" using assms(2) by (simp add: fun_upd_idem)
  have r: "[0..<32] = 0 # [1..<32]" by (simp add: upt_rec)
  have l: "signals_loop run now1 now2 (sigmask t) (pk_if st) [0..<32] 0 ?st = Some (Returned () st)"
    using assms u unfolding r by simp
  show ?thesis
    unfolding do_signals_def Let_def using assms u l by simp
qed

text \<open>Sigwait on signals of which one is pending returns at once the lowest of them, and takes that one
  and no other from the pending signals.\<close>
theorem sigwait_takes_lowest:
  assumes "current_thread st = Some c" "threads st c = Some t" "awaited s t \<noteq> 0"
  shows "\<exists>n<32. sigwait_sys now1 now2 (Some s) True st =
      Some (Returned (0, Some (int n))
        (st\<lparr>threads := (threads st)(c \<mapsto> t\<lparr>sigpending := sigpending t AND NOT (push_bit n 1)\<rparr>)\<rparr>)) \<and>
    bit (awaited s t) n \<and> (\<forall>m<n. \<not> bit (awaited s t) m)"
proof -
  obtain n where n: "n < 32" "p_ffs (awaited s t) = int n" "bit (awaited s t) n" "\<forall>m<n. \<not> bit (awaited s t) m"
    using p_ffs_least [OF assms(3)] by blast
  have "sigwait_sys now1 now2 (Some s) True st =
      Some (Returned (0, Some (int n))
        (st\<lparr>threads := (threads st)(c \<mapsto> t\<lparr>sigpending := sigpending t AND NOT (push_bit n 1)\<rparr>)\<rparr>))"
    using assms n(2) by (cases st) (simp add: sigwait_sys_def take_signal_def)
  then show ?thesis using n by blast
qed

section \<open>Concrete states\<close>

text \<open>Thread 3 has finished with the value 9; thread 1 runs, with ten keys and data for each.\<close>

definition finished_thread :: pthread_struct where
  "finished_thread = (demo_thread 3 5)\<lparr>thread_flags := 2, magic_number := PTHREAD_MAGIC_NUMBER, exit_value := 9\<rparr>"

definition running_thread :: pthread_struct where
  "running_thread = (demo_thread 1 0)\<lparr>tsd := replicate 10 7, sigpending := 64, sigmask := 64\<rparr>"

definition demo_calls :: pk_state where
  "demo_calls = demo_pk\<lparr>threads := (threads demo_pk)(1 \<mapsto> running_thread, 3 \<mapsto> finished_thread), thread_list := Some 3,
     keys := replicate 10 \<lparr>in_use = False, destructor = None\<rparr>\<rparr>"

lemma demo_calls_threads [simp]:
  "threads demo_calls 1 = Some running_thread" "threads demo_calls 3 = Some finished_thread"
  "current_thread demo_calls = Some 1" "length (keys demo_calls) = MAX_PTHREAD_KEYS"
  "length (tsd running_thread) = MAX_PTHREAD_KEYS" "find_free_key (keys demo_calls) = Some 0"
  by (simp_all add: demo_calls_def demo_pk_def running_thread_def MAX_PTHREAD_KEYS_def find_free_key_def upt_rec [of 0])

lemma demo_calls_inv: "sched_inv demo_calls (\<lambda>_. [])"
proof -
  have "ready_queues demo_calls (\<lambda>_. [])" by (rule init_ss_ok) (simp add: demo_calls_def demo_pk_def)
  then show ?thesis
    by (auto simp: sched_inv_def unqueued_def demo_calls_def demo_pk_def demo_thread_def zero_thread_def GET_THREAD_STATE_def
        READY_THREAD_def detached_def mx_def mp_def ssv_def finished_thread_def running_thread_def split: if_splits)
qed

lemma demo_calls_list: "pthread_list ThreadL demo_calls (Some 3) [3]"
  by (simp add: pthread_list_def demo_calls_def demo_pk_def dlist_def pl_nx_def pl_pr_def finished_thread_def demo_thread_def
      zero_pl_def)

lemma finished_fields:
  "magic_number finished_thread = PTHREAD_MAGIC_NUMBER" "GET_THREAD_STATE finished_thread = FINISHED_THREAD"
  "GET_THREAD_DETACH_STATE finished_thread = 0" "exit_value finished_thread = 9"
  by (simp_all add: finished_thread_def GET_THREAD_STATE_def GET_THREAD_DETACH_STATE_def FINISHED_THREAD_def)

lemma join_of_finished_witness:
  "\<exists>st'. pthread_join_sys 1 2 (Some 3) True demo_calls = Some (Returned (0, Some 9) st') \<and> threads st' 3 = None"
proof -
  have l: "pthread_list ThreadL demo_calls (thread_list demo_calls) ([] @ 3 # [])"
    using demo_calls_list by (simp add: demo_calls_def)
  show ?thesis
    using join_of_finished [OF demo_calls_inv l demo_calls_threads(2) finished_fields(1-3), of 1 2] finished_fields(4) by auto
qed

lemma key_set_then_get_witness:
  "\<exists>st1 st2. pthread_key_create_sys True None demo_calls = Some (0, Some 0, st1) \<and>
    pthread_setspecific_sys 0 5 st1 = Some (0, st2) \<and> pthread_getspecific_sys 0 st2 = Some (5, st2)"
  using key_set_then_get [OF demo_calls_threads(4,6,3,1,5), of None 5] by auto

lemma new_key_reads_stale_witness:
  "\<exists>st1. pthread_key_create_sys True None demo_calls = Some (0, Some 0, st1) \<and> pthread_getspecific_sys 0 st1 = Some (7, st1)"
proof -
  have "tsd running_thread ! 0 = 7" by (simp add: running_thread_def)
  then show ?thesis using new_key_reads_stale [OF demo_calls_threads(4,6,3,1,5), of None] by simp
qed

lemma once_routine_not_run_witness: "pthread_once_sys (Some 0) True demo_calls = Some (0, Some 1, False, demo_calls)"
  using once_routine_not_run [of 0 demo_calls] by (simp add: to_s32_def)

lemma detach_faults_witness: "pthread_detach_sys 1 2 (Some 3) demo_calls = None"
  by (rule detach_faults [OF demo_calls_threads(2) finished_fields(1,3) demo_calls_threads(3,1)])
    (simp add: running_thread_def demo_thread_def zero_thread_def)

lemma masked_signals_stay_pending_witness:
  "do_signals (\<lambda>_ _ _. None) 1 2 demo_calls = Some (Returned () demo_calls)"
  by (rule masked_signals_stay_pending [OF demo_calls_threads(3,1)])
    (simp add: deliverable_def running_thread_def non_maskable_signals_def)

lemma sigwait_takes_lowest_witness:
  "\<exists>n<32. \<exists>st'. sigwait_sys 1 2 (Some 192) True demo_calls = Some (Returned (0, Some (int n)) st') \<and>
     bit (awaited 192 running_thread) n"
proof -
  have "awaited 192 running_thread \<noteq> 0" by (simp add: awaited_def running_thread_def non_maskable_signals_def)
  from sigwait_takes_lowest [OF demo_calls_threads(3,1) this, of 1 2] show ?thesis by blast
qed

end
