(* ===== verification/PBoot.thy ===== *)
theory PBoot
  imports PKernel
begin

unbundle bit_operations_syntax

text \<open>
  The start of PaRTiKle on XtratuM (core/kernel/port/setup.c, with
  xm_i386/processor.c): the order in which the parts are brought up, the idle
  thread, and the first thread of the application.  The printing, the setting
  up of the clocks and of the output that links also does, and the memory map
  are not part of the state; the free memory that init_sysmem finds and the
  memory of the two threads are parameters.
\<close>

section \<open>The start\<close>

definition setup_cpu :: "hypercalls \<Rightarrow> os_state \<Rightarrow> (int \<times> os_state) option" where
  "setup_cpu hc os = do { (_, os1) \<leftarrow> init_irqs_traps hc os; Some (0, os1) }"

definition links :: "hypercalls \<Rightarrow> os_state \<Rightarrow> os_state option" where
  "links hc os = do { (_, os1) \<leftarrow> init_hwtimer_xmtimer hc os; Some os1 }"

text \<open>What the idle thread does when it runs for the first time after the start.\<close>

definition idle_rest :: "pk_state \<Rightarrow> int outcome option" where
  "idle_rest st = do {
     c \<leftarrow> current_thread st;
     st1 \<leftarrow> upd_th c (\<lambda>t. t\<lparr>sigmask := NOT 0\<rparr>) st;
     Some (Returned 0 st1) }"

text \<open>
  init_time hands clock_handler to the timer, which is a field of the whole
  state.  pthread_create_sys stores the new thread in mainapp_thread before it
  calls the scheduler, which does not read it.
\<close>

fun with_main :: "nat option option \<Rightarrow> 'a outcome \<Rightarrow> 'a outcome" where
  "with_main None r = r"
| "with_main (Some m) (Returned x st) = Returned x (st\<lparr>mainapp_thread := m\<rparr>)"
| "with_main (Some m) (Switched st) = Switched (st\<lparr>mainapp_thread := m\<rparr>)"
| "with_main (Some m) (Halted e st) = Halted e (st\<lparr>mainapp_thread := m\<rparr>)"

definition start_threads ::
  "call_env \<Rightarrow> nat option \<Rightarrow> nat option \<Rightarrow> nat \<Rightarrow> nat \<Rightarrow> os_state \<Rightarrow> (int outcome \<times> os_state) option" where
  "start_threads ce idle_mem main_mem create_main_thread user_entry_point os = do {
     (_, k1) \<leftarrow> create_idle (ce_now1 ce) idle_mem (kern os);
     (m, r) \<leftarrow> pthread_create_sys (ce_now1 ce) (ce_now2 ce) main_mem (ce_stack ce) (ce_startup ce) None
                 create_main_thread user_entry_point (k1\<lparr>pk_if := True\<rparr>);
     r2 \<leftarrow> andthen (Some (with_main m r)) (\<lambda>_. idle_rest);
     Some (r2, os\<lparr>kern := out_state r2\<rparr>) }"

definition setup_kernel ::
  "hypercalls \<Rightarrow> Dev list \<Rightarrow> call_env \<Rightarrow> int \<Rightarrow> nat option \<Rightarrow> nat option \<Rightarrow> nat \<Rightarrow> nat \<Rightarrow> os_state \<Rightarrow>
    (int outcome \<times> os_state) option" where
  "setup_kernel hc devtab ce free_memory idle_mem main_mem create_main_thread user_entry_point os = do {
     (r, os1) \<leftarrow> setup_cpu hc os;
     if r \<noteq> 0 then Some (Returned (-1) (kern os1), os1)
     else do {
       os2 \<leftarrow> links hc os1;
       if free_memory = -1 then Some (Returned (-1) (kern os2), os2)
       else do {
         (d, os3) \<leftarrow> init_devs devtab 0 os2;
         if d < 0 then Some (Returned (-1) (kern os3), os3)
         else do {
           let k1 = snd (init_sched (kern os3));
           let (s, k2) = init_signals k1;
           let (t, k3) = init_time True k2;
           let os4 = (snd (set_timer_handler_xmtimer True os3))\<lparr>kern := k3\<rparr>;
           if s \<noteq> 0 \<or> t \<noteq> 0 then Some (Returned (-1) k3, os4)
           else start_threads ce idle_mem main_mem create_main_thread user_entry_point os4 } } } }"

section \<open>The interrupts\<close>

text \<open>What the set-up of the interrupts leaves alone while no event is pending.\<close>

definition calm :: "os_state \<Rightarrow> os_state \<Rightarrow> bool" where
  "calm os os' \<longleftrightarrow> kern os' = kern os \<and> files os' = files os \<and> irq_handler_table os' = irq_handler_table os \<and>
     length (hw_irq_ctrl os') = length (hw_irq_ctrl os) \<and>
     (\<exists>e. event_handling os' = Some e \<and> pending_events e = 0 \<and> event_handler e \<noteq> [])"

lemma calm_mask:
  assumes "calm os s"
  shows "calm os (upd_page (\<lambda>e. e\<lparr>masked_events := f e\<rparr>) s)"
  using assms by (auto simp: calm_def upd_page_def)

lemma calm_unmask:
  assumes "calm os s" "0 \<le> i" "i < 32"
  shows "xm_unmask_event hc i s = Some (0, upd_page (\<lambda>e. e\<lparr>masked_events := clearbit (masked_events e) (nat i)\<rparr>) s)"
  using assms by (auto simp: calm_def xm_unmask_event_def XM_MAX_EVENTS_def upd_page_def Let_def)

lemma calm_install:
  assumes "calm os s" "i < 16"
  shows "\<exists>s'. xm_install_event_handler hc (int i) True s = Some (0, s') \<and> calm os s' \<and> hw_irq_ctrl s' = hw_irq_ctrl s"
proof (cases "i = 0")
  case True
  obtain e where e: "event_handling s = Some e" "pending_events e = 0" "event_handler e \<noteq> []"
    using assms(1) by (auto simp: calm_def)
  then show ?thesis using True assms(1)
    by (auto simp: xm_install_event_handler_def XM_MAX_EVENTS_def xm_enable_events_flag_def upd_page_def calm_def
        wr_def Let_def)
next
  case False
  then show ?thesis using assms by (auto simp: xm_install_event_handler_def XM_MAX_EVENTS_def)
qed

lemma calm_loop:
  "calm os s \<Longrightarrow> length (hw_irq_ctrl os) = 16 \<Longrightarrow> set irqs \<subseteq> {..<16} \<Longrightarrow>
    \<exists>s'. init_arch_irqs_loop hc irqs s = Some (0, s') \<and> calm os s' \<and>
      (\<forall>i\<in>set irqs. hw_irq_ctrl s' ! i) \<and> (\<forall>i<16. hw_irq_ctrl s ! i \<longrightarrow> hw_irq_ctrl s' ! i)"
proof (induction irqs arbitrary: s)
  case Nil
  then show ?case by simp
next
  case (Cons i irqs)
  let ?s = "s\<lparr>hw_irq_ctrl := (hw_irq_ctrl s)[i := True]\<rparr>"
  have i: "i < 16" "length (hw_irq_ctrl s) = 16" using Cons.prems by (auto simp: calm_def)
  have "calm os ?s" using Cons.prems(1) by (simp add: calm_def)
  from calm_install [OF this i(1)] obtain s1 where
    s1: "xm_install_event_handler hc (int i) True ?s = Some (0, s1)" "calm os s1" "hw_irq_ctrl s1 = hw_irq_ctrl ?s" by blast
  let ?s2 = "upd_page (\<lambda>e. e\<lparr>masked_events := clearbit (masked_events e) i\<rparr>) s1"
  have en: "hw_enable_irq_sys hc (int i) s1 = Some ?s2"
    using calm_unmask [OF s1(2), of "int i" hc] i s1(3)
    by (simp add: hw_enable_irq_sys_def irq_ctrl_def rd_def)
  obtain s' where s': "init_arch_irqs_loop hc irqs ?s2 = Some (0, s')" "calm os s'"
    "\<forall>i\<in>set irqs. hw_irq_ctrl s' ! i" "\<forall>j<16. hw_irq_ctrl ?s2 ! j \<longrightarrow> hw_irq_ctrl s' ! j"
    using Cons.IH [OF calm_mask [OF s1(2), of "\<lambda>e. clearbit (masked_events e) i"] Cons.prems(2)] Cons.prems(3) by auto
  have "init_arch_irqs_loop hc (i # irqs) s = Some (0, s')"
    using i s1(1) en s'(1) by (simp add: wr_def)
  moreover have "hw_irq_ctrl ?s2 = (hw_irq_ctrl s)[i := True]" using s1(3) by simp
  ultimately show ?case using s' i by (auto simp: nth_list_update)
qed

text \<open>The page of events and the tables at power on.\<close>

definition cold :: "os_state \<Rightarrow> bool" where
  "cold os \<longleftrightarrow> length (hw_irq_ctrl os) = 16 \<and> files os = replicate MAX_FILES zero_file \<and>
     (\<exists>e. event_handling os = Some e \<and> pending_events e = 0 \<and> event_handler e \<noteq> []) \<and>
     threads (kern os) = Map.empty \<and> current_thread (kern os) = None \<and> irq_nesting_counter (kern os) = 0"

lemma setup_cpu_ok:
  assumes "cold os"
  shows "\<exists>os1. setup_cpu hc os = Some (0, os1) \<and> hw_irq_ctrl os1 ! 0 \<and>
    calm (os\<lparr>irq_handler_table := replicate IRQ_NR default_irq_handler, trap_handler_table := replicate TRAP_NR unexpected_trap\<rparr>) os1"
proof -
  let ?os = "os\<lparr>irq_handler_table := replicate IRQ_NR default_irq_handler, trap_handler_table := replicate TRAP_NR unexpected_trap\<rparr>"
  have "calm ?os ?os" "length (hw_irq_ctrl ?os) = 16" using assms by (auto simp: calm_def cold_def)
  moreover have "set [0..<IRQ_NR] \<subseteq> {..<16}" by (auto simp: IRQ_NR_def)
  ultimately obtain s where
    "init_arch_irqs_loop hc [0..<IRQ_NR] ?os = Some (0, s)" "calm ?os s" "\<forall>i\<in>set [0..<IRQ_NR]. hw_irq_ctrl s ! i"
    using calm_loop [of ?os ?os "[0..<IRQ_NR]" hc] by blast
  then show ?thesis by (simp add: setup_cpu_def init_irqs_traps_def init_arch_irqs_def IRQ_NR_def)
qed

lemma links_ok:
  assumes "calm os s" "hw_irq_ctrl s ! 0" "length (hw_irq_ctrl os) = 16" "irq_handler_table os = replicate IRQ_NR default_irq_handler"
  shows "\<exists>s'. links hc s = Some s' \<and> kern s' = kern os \<and> files s' = files os \<and>
    rd (irq_handler_table s') 0 = Some xmtimer_irq_handler \<and> rd (hw_irq_ctrl s') 0 = Some True \<and>
    (\<exists>e. event_handling s' = Some e \<and> pending_events e = 0 \<and> 0 \<notin> bits (masked_events e))"
proof -
  let ?s = "s\<lparr>irq_handler_table := (irq_handler_table s)[0 := xmtimer_irq_handler]\<rparr>"
  let ?s2 = "upd_page (\<lambda>e. e\<lparr>masked_events := clearbit (masked_events e) 0\<rparr>) ?s"
  have t: "length (irq_handler_table s) = 16" "irq_handler_table s ! 0 = default_irq_handler" "length (hw_irq_ctrl s) = 16"
    using assms(1,3,4) by (auto simp: calm_def IRQ_NR_def)
  have ne: "hw_irq_ctrl s \<noteq> []" "irq_handler_table s \<noteq> []" using t by auto
  have "calm (os\<lparr>irq_handler_table := irq_handler_table ?s\<rparr>) ?s" using assms(1) by (simp add: calm_def)
  from calm_unmask [OF this, of 0 hc] have "xm_unmask_event hc 0 ?s = Some (0, ?s2)" by simp
  then have "links hc s = Some ?s2"
    using t ne assms(2)
    by (simp add: links_def init_hwtimer_xmtimer_def install_irq_handler_sys_def XMTIMER_EVENT_def rd_def wr_def
        hw_enable_irq_sys_def irq_ctrl_def)
  then show ?thesis using assms(1,2) t ne by (auto simp: calm_def rd_def upd_page_def)
qed

section \<open>The devices\<close>

definition cons_file :: File where
  "cons_file = zero_file\<lparr>f_type := 0, f_qid := mkqid Qcons 0 0, f_pos := 0\<rparr>"

lemma newfd_first:
  "length (files os) = MAX_FILES \<Longrightarrow> fd < MAX_FILES \<Longrightarrow> f_type (files os ! fd) = Nodev \<Longrightarrow>
    \<forall>j<fd. f_type (files os ! j) \<noteq> Nodev \<Longrightarrow> newfd os = Some fd"
  using find_upt_Some_iff [of "\<lambda>fd. f_type (files os ! fd) = Nodev" MAX_FILES fd] by (simp add: newfd_def)

lemma consopen_next:
  assumes "files os = replicate k cons_file @ replicate (MAX_FILES - k) zero_file" "k < MAX_FILES"
  shows "consopen ''c/'' ''/dev/console/cons'' 0 os =
    Some (int k, os\<lparr>files := replicate (Suc k) cons_file @ replicate (MAX_FILES - Suc k) zero_file\<rparr>)"
proof -
  have n: "newfd os = Some k"
    by (rule newfd_first) (use assms in \<open>simp_all add: nth_append zero_file_def cons_file_def Nodev_def\<close>)
  have "(files os)[k := cons_file] = replicate (Suc k) cons_file @ replicate (MAX_FILES - Suc k) zero_file"
    by (rule nth_equalityI) (use assms in \<open>auto simp: nth_append nth_list_update simp del: replicate_Suc replicate.simps\<close>)
  moreover have "rd (files os) k = Some zero_file" using assms by (simp add: rd_def nth_append)
  ultimately show ?thesis using n assms
    by (simp add: consopen_def contab_def system_devno wr_def cons_file_def)
qed


lemma init_devs_ok:
  assumes "files os = replicate MAX_FILES zero_file"
  shows "init_devs (system_devtab w rt rdt) 0 os =
    Some (0, os\<lparr>files := replicate 3 cons_file @ replicate (MAX_FILES - 3) zero_file\<rparr>)"
proof -
  let ?f = "\<lambda>k. os\<lparr>files := replicate k cons_file @ replicate (MAX_FILES - k) zero_file\<rparr>"
  have c: "consopen ''c/'' ''/dev/console/cons'' 0 (?f k) = Some (int k, ?f (Suc k))" if "k < 3" for k
    using consopen_next [of "?f k" k] that by (simp add: MAX_FILES_def)
  have o: "?f 0 = os" using assms by simp
  have u: "[0..<3] = [0, 1, 2 :: nat]" by (simp add: upt_rec)
  have "consinit ''c/'' (?f 0) = Some (0, ?f 3)"
    unfolding consinit_def u using c [of 0] c [of 1] c [of 2]
    by (simp del: replicate_Suc replicate.simps add: numeral_3_eq_3 numeral_2_eq_2)
  then show ?thesis unfolding o by (simp add: system_devtab_def consdevtab_def rootdevtab_def devinit_def)
qed

lemma boot_fs_ok:
  "files os = replicate 3 cons_file @ replicate (MAX_FILES - 3) zero_file \<Longrightarrow> fs_ok (system_devtab w rt rdt) os"
  by (auto simp: fs_ok_def types_def MAX_FILES_def cons_file_def zero_file_def system_devtab_def)

section \<open>The threads\<close>

lemma link_steady:
  "insert_pthread_list k h a st = Some (h', st') \<Longrightarrow> steady st st' \<and> timer_array st' = timer_array st"
  by (auto simp: insert_pthread_list_def upd_th_def bind_eq_Some_conv steady_def split: option.splits if_splits)

lemma create_struct_frame:
  assumes c: "create_pthread_struct (Some a) st = Some (r, st')" and l: "length (timer_array st) = MAX_TIMERS"
  shows "current_thread st' = current_thread st \<and> idle_thread st' = idle_thread st \<and>
    irq_nesting_counter st' = irq_nesting_counter st \<and> dom (threads st') = insert a (dom (threads st)) \<and>
    length (timer_array st') = MAX_TIMERS"
proof -
  let ?t = "(SET_THREAD_STATE SUSPENDED_THREAD (zero_thread\<lparr>magic_number := PTHREAD_MAGIC_NUMBER\<rparr>))
     \<lparr>pt_thread_list := zero_pl (Some a), pt_mutex_list := zero_pl (Some a),
      pt_cond_list := zero_pl (Some a), pt_sem_list := zero_pl (Some a)\<rparr>"
  let ?s = "st\<lparr>threads := (threads st)(a \<mapsto> ?t)\<rparr>"
  obtain k ts where k: "alloc_ktimer CLOCK_MONOTONIC (Some a) action_wakeup ?s = Some (k, ?s\<lparr>timer_array := ts\<rparr>)"
    "length ts = MAX_TIMERS"
    using alloc_ktimer_frame [of ?s CLOCK_MONOTONIC "Some a" action_wakeup] l by auto
  obtain f h s3 where i: "insert_pthread_list ThreadL (thread_list st) a
      (?s\<lparr>timer_array := ts, threads := (threads ?s)(a \<mapsto> f ?t)\<rparr>) = Some (h, s3)" "st' = s3\<lparr>thread_list := h\<rparr>"
    using c k(1) by (fastforce simp: create_pthread_struct_def Let_def bind_eq_Some_conv upd_th_def)
  then show ?thesis using link_steady [OF i(1)] k(2) by (auto simp: steady_def)
qed

text \<open>The idle thread: it runs, and is in no queue.\<close>

definition idle_up :: "nat \<Rightarrow> pk_state \<Rightarrow> bool" where
  "idle_up a st \<longleftrightarrow> sched_inv st (\<lambda>_. []) \<and> pthread_list ThreadL st (thread_list st) [a] \<and>
     current_thread st = Some a \<and> idle_thread st = Some a \<and> dom (threads st) = {a} \<and>
     irq_nesting_counter st = 0 \<and> length (timer_array st) = MAX_TIMERS"

lemma create_idle_ok:
  assumes "active_threads st = init_ss" "threads st = Map.empty" "current_thread st = None" "thread_list st = None"
    "irq_nesting_counter st = 0" "length (timer_array st) = MAX_TIMERS"
  shows "\<exists>st'. create_idle now (Some a) st = Some (0, st') \<and> idle_up a st'"
proof -
  have inv: "sched_inv st (\<lambda>_. [])" using init_ss_ok [OF assms(1)] assms(2) by (simp add: sched_inv_def)
  have l: "pthread_list ThreadL st (thread_list st) []" using assms(4) by (simp add: pthread_list_def)
  obtain s t where s: "create_pthread_struct (Some a) st = Some (Some a, s)" "sched_inv s (\<lambda>_. [])"
    "pthread_list ThreadL s (thread_list s) [a]" "threads s a = Some t"
    using create_pthread_struct_ok [OF inv l, of a] assms(2,3,6) by auto
  note f = create_struct_frame [OF s(1) assms(6)]
  let ?s1 = "s\<lparr>threads := (threads s)(a \<mapsto> t\<lparr>starting_time := now\<rparr>)\<rparr>"
  let ?s = "?s1\<lparr>idle_thread := Some a, current_thread := Some a\<rparr>"
  have i1: "sched_inv ?s1 (\<lambda>_. [])"
    by (rule sched_inv_upd [OF s(2,4)]) (simp_all add: GET_THREAD_STATE_def prio_th_def)
  have "sched_inv ?s = sched_inv ?s1" by (rule sched_inv_core) simp_all
  then have "sched_inv ?s (\<lambda>_. [])" using i1 by simp
  moreover have "pthread_list ThreadL ?s (thread_list s) [a]"
    by (rule pthread_list_frame [OF s(3)]) (use s(4) in simp)
  ultimately have "idle_up a ?s" using f s(4) assms(2,5) by (auto simp: idle_up_def)
  moreover have "create_idle now (Some a) st = Some (0, ?s)" using s(1,4) by (simp add: create_idle_def)
  ultimately show ?thesis by blast
qed

lemma only_thread_dom:
  assumes "only_thread th s s'"
  shows "dom (threads s') = dom (threads s)"
proof -
  have "threads s' x = None \<longleftrightarrow> threads s x = None" for x
    using assms unfolding only_thread_def by (metis map_option_is_None)
  then show ?thesis by (simp add: dom_def)
qed

lemma configure_default:
  "prio_th (configure_thread None t) = 1023" "stack_bottom (stack_info (configure_thread None t)) = 0"
  by (simp_all add: configure_thread_def SET_THREAD_POLICY_def SET_THREAD_DETACH_STATE_def prio_th_def
      MIN_SCHED_PRIORITY_def)

lemma configure_state: "GET_THREAD_STATE (configure_thread attr t) = GET_THREAD_STATE t"
  by (cases attr; simp add: configure_thread_def SET_THREAD_POLICY_def SET_THREAD_DETACH_STATE_def
      GET_THREAD_STATE_def flag_masks policy_mask)

text \<open>The first thread of the application is created, queued at the last level and runs at once.\<close>

lemma create_main_ok:
  assumes up: "idle_up a st" and ab: "a \<noteq> b" and smem: "smem \<noteq> 0"
  shows "\<exists>k. pthread_create_sys n1 n2 (Some b) smem su None f v (st\<lparr>pk_if := True\<rparr>) = Some (Some (Some b), Switched k) \<and>
    sched_inv k ((\<lambda>_. [])(1023 := [b])) \<and> current_thread k = Some b \<and> idle_thread k = Some a \<and>
    dom (threads k) = {a, b} \<and> irq_nesting_counter k = 0"
proof -
  let ?s0 = "st\<lparr>pk_if := False\<rparr>"
  have u: "sched_inv ?s0 (\<lambda>_. [])" "pthread_list ThreadL ?s0 (thread_list ?s0) [a]" "threads ?s0 b = None"
    "length (timer_array ?s0) = MAX_TIMERS" "\<forall>c. current_thread ?s0 = Some c \<longrightarrow> c \<noteq> b \<and> c \<in> dom (threads ?s0)"
    using up ab by (auto simp: idle_up_def pthread_list_def)
  obtain s t where s: "create_pthread_struct (Some b) ?s0 = Some (Some b, s)" "sched_inv s (\<lambda>_. [])"
    "threads s b = Some t" "GET_THREAD_STATE t = SUSPENDED_THREAD"
    using create_pthread_struct_ok [OF u] by auto
  have fr: "current_thread s = Some a" "idle_thread s = Some a" "irq_nesting_counter s = 0" "dom (threads s) = {a, b}"
    using create_struct_frame [OF s(1) u(4)] up by (auto simp: idle_up_def)
  let ?t = "configure_thread None t"
  let ?s1 = "s\<lparr>threads := (threads s)(b \<mapsto> ?t)\<rparr>"
  have i1: "sched_inv ?s1 (\<lambda>_. [])" by (rule configure_keeps [OF s(2,3)]) (simp add: s(4))
  let ?si = "(stack_info ?t)\<lparr>stack_bottom := smem\<rparr>"
  let ?g = "\<lambda>t. t\<lparr>stack_info := ?si, pt_stack := snd (setup_stack su (smem + 4 * (stack_size ?si div 4)) f v)\<rparr>"
  let ?s2 = "?s1\<lparr>threads := (threads ?s1)(b \<mapsto> ?g ?t)\<rparr>"
  have i2: "sched_inv ?s2 (\<lambda>_. [])"
    by (rule sched_inv_upd [OF i1]) (simp_all add: GET_THREAD_STATE_def prio_th_def)
  have t2: "threads ?s2 b = Some (?g ?t)" "GET_THREAD_STATE (?g ?t) = SUSPENDED_THREAD" "prio_th (?g ?t) = 1023"
    using configure_state [of None t] s(4) configure_default(1) [of t] by (simp_all add: GET_THREAD_STATE_def prio_th_def)
  have q: "level 1023 = 1023" by (simp add: level_def)
  obtain s3 where s3: "activate_thread b ?s2 = Some s3" "only_thread b ?s2 s3" "sched_inv s3 ((\<lambda>_. [])(1023 := [b]))"
    using activate_thread_ok [OF i2 t2(1)] t2(2,3) q by auto
  have d3: "dom (threads s3) = {a, b}" using only_thread_dom [OF s3(2)] fr(4) by auto
  have f3: "current_thread s3 = Some a" "idle_thread s3 = Some a" "irq_nesting_counter s3 = 0"
    using only_thread_fields [OF s3(2)] fr by simp_all
  let ?s4 = "s3\<lparr>pk_if := True\<rparr>"
  obtain k n where k: "scheduling n1 n2 ?s4 = Some k" "sched_inv k ((\<lambda>_. [])(1023 := [b]))"
    "chosen ((\<lambda>_. [])(1023 := [b])) a n" "current_thread k = Some n"
    "irq_nesting_counter k = 0"
  proof -
    obtain ta where ta: "threads s3 a = Some ta" using d3 by auto
    show thesis
      using scheduling_ok [of ?s4 "(\<lambda>_. [])(1023 := [b])" a ta a n1 n2] s3(3) f3 d3 ta that by auto
  qed
  have n: "n = b" using k(3) by (auto simp: chosen_def split: if_splits)
  have "pthread_create_sys n1 n2 (Some b) smem su None f v (st\<lparr>pk_if := True\<rparr>) = Some (Some (Some b), Switched k)"
    using s(1,3) s3(1) k(1,4) n ab f3 smem configure_default(2) [of t]
    by (simp add: pthread_create_sys_def bad_attr_def create_stack_def alloc_stack_def sched_then_def Let_def)
  then show ?thesis using k(2,4,5) n scheduling_frame [OF k(1)] f3 d3 by auto
qed

lemma setup_kernel_ok:
  assumes cold: "cold os" and mem: "free_memory \<noteq> -1" "a \<noteq> b" "ce_stack ce \<noteq> 0"
  shows "\<exists>k os'. setup_kernel hc (system_devtab w rt rdt) ce free_memory (Some a) (Some b) f v os = Some (Switched k, os') \<and>
    kern os' = k \<and> sched_inv k ((\<lambda>_. [])(1023 := [b])) \<and> mainapp_thread k = Some b \<and>
    timer_irq_ready os' b a \<and> fs_ok (system_devtab w rt rdt) os' \<and> map f_type (take 3 (files os')) = [0, 0, 0]"
proof -
  obtain os1 where o1: "setup_cpu hc os = Some (0, os1)" "hw_irq_ctrl os1 ! 0"
    "calm (os\<lparr>irq_handler_table := replicate IRQ_NR default_irq_handler, trap_handler_table := replicate TRAP_NR unexpected_trap\<rparr>) os1"
    using setup_cpu_ok [OF cold] by blast
  obtain os2 where o2: "links hc os1 = Some os2" "kern os2 = kern os" "files os2 = files os"
    "rd (irq_handler_table os2) 0 = Some xmtimer_irq_handler" "rd (hw_irq_ctrl os2) 0 = Some True"
    "\<exists>e. event_handling os2 = Some e \<and> pending_events e = 0"
    using links_ok [OF o1(3,2), of hc] cold by (auto simp: cold_def)
  let ?os3 = "os2\<lparr>files := replicate 3 cons_file @ replicate (MAX_FILES - 3) zero_file\<rparr>"
  have o3: "init_devs (system_devtab w rt rdt) 0 os2 = Some (0, ?os3)"
    by (rule init_devs_ok) (use o2(3) cold in \<open>simp add: cold_def\<close>)
  define k3 where "k3 = snd (init_time True (snd (init_signals (snd (init_sched (kern os))))))"
  have k3: "active_threads k3 = init_ss" "threads k3 = Map.empty" "current_thread k3 = None" "thread_list k3 = None"
    "irq_nesting_counter k3 = 0" "length (timer_array k3) = MAX_TIMERS"
    using cold by (simp_all add: k3_def init_time_def init_signals_def init_sched_def init_pthread_list_def cold_def)
  from create_idle_ok [OF k3] obtain k4 where k4: "create_idle (ce_now1 ce) (Some a) k3 = Some (0, k4)" "idle_up a k4" by blast
  obtain k where k: "pthread_create_sys (ce_now1 ce) (ce_now2 ce) (Some b) (ce_stack ce) (ce_startup ce) None f v (k4\<lparr>pk_if := True\<rparr>) =
      Some (Some (Some b), Switched k)" "sched_inv k ((\<lambda>_. [])(1023 := [b]))" "current_thread k = Some b"
    "idle_thread k = Some a" "dom (threads k) = {a, b}" "irq_nesting_counter k = 0"
    using create_main_ok [OF k4(2) mem(2,3)] by blast
  let ?k = "k\<lparr>mainapp_thread := Some b\<rparr>"
  let ?os = "?os3\<lparr>xmtimer_user_handler := True, kern := ?k\<rparr>"
  have r: "setup_kernel hc (system_devtab w rt rdt) ce free_memory (Some a) (Some b) f v os = Some (Switched ?k, ?os)"
    using o1(1) o2(1,2) o3 mem(1) k4(1) k(1)
    by (simp add: setup_kernel_def start_threads_def k3_def init_time_def init_signals_def set_timer_handler_xmtimer_def
        andthen_def Let_def case_prod_beta init_sched_def)
  have i: "sched_inv ?k ((\<lambda>_. [])(1023 := [b]))" using k(2) sched_inv_core [of ?k k] by simp
  have "timer_irq_ready ?os b a" using i k(3-6) o2(4-6) by (auto simp: timer_irq_ready_def sched_ok_def)
  moreover have "fs_ok (system_devtab w rt rdt) ?os" by (rule boot_fs_ok) simp
  moreover have "map f_type (take 3 (files ?os)) = [0, 0, 0]"
    by (simp add: cons_file_def numeral_3_eq_3)
  ultimately show ?thesis using r i by (intro exI [of _ ?k] exI [of _ ?os]) simp
qed

section \<open>Properties\<close>



definition demo_cold :: os_state where
  "demo_cold = demo_os\<lparr>hw_irq_ctrl := replicate 16 False,
     kern := demo_pk\<lparr>threads := Map.empty, current_thread := None, irq_nesting_counter := 0\<rparr>\<rparr>"

lemma demo_cold_ok: "cold demo_cold"
  by (simp add: cold_def demo_cold_def demo_os_def)



end
