(* ===== verification/FreeLists.thy ===== *)
theory FreeLists
  imports Links
begin

text \<open>
  The lists of free blocks that the allocators keep in the headers of the
  blocks themselves (kernel/tlsf.c of XtratuM, xm_i386/sysmem.c of PaRTiKle).
  The interface is a header with two links: what reads and what writes them,
  and what a header holds besides.  A store maps addresses to headers.
\<close>

definition upd_at :: "nat option \<Rightarrow> ('n \<Rightarrow> 'n) \<Rightarrow> (nat \<Rightarrow> 'n option) \<Rightarrow> nat \<Rightarrow> 'n option" where
  "upd_at p f H = (case p of None \<Rightarrow> H | Some a \<Rightarrow> H(a := map_option f (H a)))"

lemma upd_at_simps [simp]:
  "upd_at None f H = H" "upd_at (Some a) f H = H(a := map_option f (H a))"
  by (simp_all add: upd_at_def)

lemma upd_at_apply: "upd_at p f H a = (if p = Some a then map_option f (H a) else H a)"
  by (cases p) auto

lemma set_next_apply: "set_next p v f a = (if p = Some a then v else f a)"
  by (cases p) (auto simp: set_next_def)

lemma upd_at_dom: "upd_at p f H x = None \<longleftrightarrow> H x = None"
  by (cases p) auto

lemma dlist_fields:
  "dlist nx pr p xs \<Longrightarrow> (\<And>x. nx' x = nx x) \<Longrightarrow> (\<And>x. pr' x = pr x) \<Longrightarrow> dlist nx' pr' p xs"
  by (rule dlist_frame) auto

locale list_node =
  fixes nxt :: "'n \<Rightarrow> nat option" and prv :: "'n \<Rightarrow> nat option"
    and set_nxt :: "nat option \<Rightarrow> 'n \<Rightarrow> 'n" and set_prv :: "nat option \<Rightarrow> 'n \<Rightarrow> 'n"
    and rest :: "'n \<Rightarrow> 'r"
  assumes nxt_set: "nxt (set_nxt p x) = p" "nxt (set_prv p x) = nxt x"
    and prv_set: "prv (set_prv p x) = p" "prv (set_nxt p x) = prv x"
    and rest_set: "rest (set_nxt p x) = rest x" "rest (set_prv p x) = rest x"
begin

text \<open>A block is taken out: its neighbours are linked with each other.\<close>

lemma unlink_store:
  assumes d: "dlist (\<lambda>a. H a \<bind> nxt) (\<lambda>a. H a \<bind> prv) p (us @ b # vs)"
    and e: "\<forall>a\<in>set (us @ b # vs). H a \<noteq> None" and b: "H b = Some x"
    and H': "H' = upd_at (prv x) (set_nxt (nxt x)) (upd_at (nxt x) (set_prv (prv x)) H)"
  shows "dlist (\<lambda>a. H' a \<bind> nxt) (\<lambda>a. H' a \<bind> prv) (if us = [] then nxt x else p) (us @ vs)"
    "map_option rest (H' a) = map_option rest (H a)"
    "a \<notin> set (us @ vs) \<Longrightarrow> H' a = H a"
    "p = Some b \<longleftrightarrow> us = []" "us = [] \<Longrightarrow> nxt x = None \<longleftrightarrow> vs = []"
    "nxt x \<noteq> Some b" "prv x \<noteq> Some b"
    "nxt x = Some n \<Longrightarrow> H n \<noteq> None" "prv x = Some n \<Longrightarrow> H n \<noteq> None"
    "us = [] \<Longrightarrow> prv x = None"
proof -
  have s: "prv x = (if us = [] then None else Some (last us))"
    "nxt x = (if vs = [] then None else Some (hd vs))" "distinct (us @ b # vs)"
    using dlist_split [OF d] b by auto
  have ex: "nxt x = Some a \<or> prv x = Some a \<Longrightarrow> \<exists>c. H a = Some c" for a
    using s e by (auto split: if_splits)
  then show ex': "nxt x = Some n \<Longrightarrow> H n \<noteq> None" "prv x = Some n \<Longrightarrow> H n \<noteq> None" by auto
  show n: "nxt x \<noteq> Some b" "prv x \<noteq> Some b" using s by (auto dest: hd_in_set last_in_set)
  have n': "nxt x = None \<or> prv x \<noteq> nxt x" using s by (auto dest: hd_in_set last_in_set)
  show "p = Some b \<longleftrightarrow> us = []" using dlist_head [OF d] s(3) by (cases us) auto
  show "us = [] \<Longrightarrow> nxt x = None \<longleftrightarrow> vs = []" "us = [] \<Longrightarrow> prv x = None" using s by auto
  show "map_option rest (H' a) = map_option rest (H a)"
    unfolding H' upd_at_apply by (auto simp: rest_set option.map_comp comp_def)
  show "a \<notin> set (us @ vs) \<Longrightarrow> H' a = H a"
    unfolding H' upd_at_apply using s by (auto split: if_splits)
  have fl: "H' a \<bind> nxt = set_next (H b \<bind> prv) (H b \<bind> nxt) (\<lambda>a. H a \<bind> nxt) a"
    "H' a \<bind> prv = set_next (H b \<bind> nxt) (H b \<bind> prv) (\<lambda>a. H a \<bind> prv) a" for a
    using n n' ex [of a] unfolding H' upd_at_apply set_next_apply b by (auto simp: nxt_set prv_set)
  show "dlist (\<lambda>a. H' a \<bind> nxt) (\<lambda>a. H' a \<bind> prv) (if us = [] then nxt x else p) (us @ vs)"
    using dlist_fields [OF dlist_remove [OF d refl refl] fl] b by (cases "us = []") simp_all
qed

text \<open>A block is put at the head: it points to the old head already.\<close>

lemma link_store:
  assumes d: "dlist (\<lambda>a. H a \<bind> nxt) (\<lambda>a. H a \<bind> prv) p xs"
    and e: "\<forall>a\<in>set xs. H a \<noteq> None" and b: "b \<notin> set xs" "H b = Some x" "nxt x = p" "prv x = None"
    and H': "H' = upd_at p (set_prv (Some b)) H"
  shows "dlist (\<lambda>a. H' a \<bind> nxt) (\<lambda>a. H' a \<bind> prv) (Some b) (b # xs)"
    "map_option rest (H' a) = map_option rest (H a)"
    "a \<notin> set xs \<Longrightarrow> H' a = H a"
    "p = Some n \<Longrightarrow> H n \<noteq> None" "p \<noteq> Some b"
proof -
  have p: "p = (if xs = [] then None else Some (hd xs))" by (rule dlist_head [OF d])
  then show "p = Some n \<Longrightarrow> H n \<noteq> None" "p \<noteq> Some b" using e b(1) by (auto split: if_splits)
  show "map_option rest (H' a) = map_option rest (H a)"
    unfolding H' by (cases p) (auto simp: rest_set option.map_comp comp_def)
  show "a \<notin> set xs \<Longrightarrow> H' a = H a" unfolding H' using p by (auto split: if_splits)
  show "dlist (\<lambda>a. H' a \<bind> nxt) (\<lambda>a. H' a \<bind> prv) (Some b) (b # xs)"
  proof (cases xs)
    case Nil
    then show ?thesis using p b H' by (simp add: dlist_def)
  next
    case (Cons y ys)
    then have y: "p = Some y" "y \<noteq> b" using p b(1) by auto
    obtain c where c: "H y = Some c" using e Cons by auto
    have "H y \<bind> prv = None" using dlist_split [of _ _ _ "[]" y ys] d Cons by auto
    then have py: "prv c = None" using c by simp
    let ?nx = "\<lambda>a. H a \<bind> nxt" and ?pr = "\<lambda>a. H a \<bind> prv"
    have "H' a \<bind> nxt = set_next (?pr y) (Some b) (?nx(b := Some y)) a"
      "H' a \<bind> prv = (?pr(b := ?pr y, y := Some b)) a" for a
      using b c y py unfolding H' by (auto simp: set_next_def nxt_set prv_set)
    from dlist_fields [OF dlist_insert_before [of ?nx ?pr p "[]" y ys b, OF _ _ refl refl] this]
    show ?thesis using d b(1) Cons by simp
  qed
qed

end

end
