(* ===== verification/PSysmem.thy ===== *)
theory PSysmem
  imports FreeLists
begin

unbundle bit_operations_syntax

text \<open>
  PaRTiKle's allocator of regions on XtratuM (core/kernel/xm_i386/sysmem.c,
  include/xm_i386/sysmem.h), from which the application allocates memory
  (ualloc, ufree) and the kernel takes its pool.  A block is a header followed
  by its bytes; the headers are a store indexed by their addresses, and the two
  fields of the union are the links of the list of free blocks.  What the owner
  of a block writes to it is not part of the state.  Addresses do not wrap.
\<close>

section \<open>Blocks\<close>

record list_t =
  lt_size :: u32
  prev_phys :: "nat option"
  next_phys :: "nat option"
  fp_next :: "nat option"
  fp_prev :: "nat option"

record sysmem =
  hdrs :: "nat \<Rightarrow> list_t option"
  list_head :: "nat option"

definition MIN_SIZE :: u32 where "MIN_SIZE = 12"
definition HEADER_SIZE :: nat where "HEADER_SIZE = 12"
definition USED_BLOCK :: u32 where "USED_BLOCK = 0x80000000"

definition IS_USED_BLOCK :: "list_t \<Rightarrow> bool" where
  "IS_USED_BLOCK x \<longleftrightarrow> lt_size x AND USED_BLOCK = USED_BLOCK"

definition GET_BLOCK_SIZE :: "list_t \<Rightarrow> u32" where
  "GET_BLOCK_SIZE x = lt_size x AND NOT USED_BLOCK"

definition SET_USED_BLOCK :: "list_t \<Rightarrow> list_t" where
  "SET_USED_BLOCK x = x\<lparr>lt_size := lt_size x OR USED_BLOCK\<rparr>"

definition SET_FREE_BLOCK :: "list_t \<Rightarrow> list_t" where
  "SET_FREE_BLOCK x = x\<lparr>lt_size := lt_size x AND NOT USED_BLOCK\<rparr>"

definition upd_b :: "nat \<Rightarrow> (list_t \<Rightarrow> list_t) \<Rightarrow> sysmem \<Rightarrow> sysmem option" where
  "upd_b a f m = do { b \<leftarrow> hdrs m a; Some (m\<lparr>hdrs := (hdrs m)(a \<mapsto> f b)\<rparr>) }"

text \<open>An assignment through a pointer that is tested for NULL first.\<close>

definition upd_if :: "nat option \<Rightarrow> (list_t \<Rightarrow> list_t) \<Rightarrow> sysmem \<Rightarrow> sysmem option" where
  "upd_if p f m = (case p of None \<Rightarrow> Some m | Some a \<Rightarrow> upd_b a f m)"

section \<open>The operations\<close>

definition init_vmm :: "nat \<Rightarrow> u32 \<Rightarrow> sysmem \<Rightarrow> u32 \<times> sysmem" where
  "init_vmm heap_addr heap_size m =
    (let r = SET_FREE_BLOCK \<lparr>lt_size = heap_size - of_nat HEADER_SIZE, prev_phys = None, next_phys = None,
               fp_next = None, fp_prev = None\<rparr> in
     (lt_size r, m\<lparr>hdrs := (hdrs m)(heap_addr \<mapsto> r), list_head := Some heap_addr\<rparr>))"

partial_function (option) find_region :: "u32 \<Rightarrow> (nat \<Rightarrow> list_t option) \<Rightarrow> nat option \<Rightarrow> nat option option" where
  "find_region sz h aux = (case aux of None \<Rightarrow> Some None
     | Some a \<Rightarrow> do { b \<leftarrow> h a; if lt_size b \<ge> sz then Some (Some a) else find_region sz h (fp_next b) })"

text \<open>A block leaves the list of free blocks.\<close>

definition unlink :: "nat \<Rightarrow> sysmem \<Rightarrow> sysmem option" where
  "unlink a m = do {
     b \<leftarrow> hdrs m a;
     m1 \<leftarrow> upd_if (fp_next b) (\<lambda>x. x\<lparr>fp_prev := fp_prev b\<rparr>) m;
     b1 \<leftarrow> hdrs m1 a;
     m2 \<leftarrow> upd_if (fp_prev b1) (\<lambda>x. x\<lparr>fp_next := fp_next b1\<rparr>) m1;
     b2 \<leftarrow> hdrs m2 a;
     Some (if list_head m2 = Some a then m2\<lparr>list_head := fp_next b2\<rparr> else m2) }"

text \<open>A block enters the list at its head.\<close>

definition link_head :: "nat \<Rightarrow> sysmem \<Rightarrow> sysmem option" where
  "link_head a m = do {
     m1 \<leftarrow> upd_b a (\<lambda>x. x\<lparr>fp_next := list_head m\<rparr>) m;
     m2 \<leftarrow> upd_if (list_head m1) (\<lambda>x. x\<lparr>fp_prev := Some a\<rparr>) m1;
     Some (m2\<lparr>list_head := Some a\<rparr>) }"

text \<open>The rest of a block of which size bytes are taken becomes a free block.\<close>

definition split_block :: "nat \<Rightarrow> u32 \<Rightarrow> u32 \<Rightarrow> sysmem \<Rightarrow> sysmem option" where
  "split_block aux sz new_size m = do {
     let new = aux + HEADER_SIZE + unat sz;
     let m1 = m\<lparr>hdrs := (hdrs m)(new \<mapsto> SET_FREE_BLOCK \<lparr>lt_size = new_size, prev_phys = Some aux, next_phys = None,
                fp_next = None, fp_prev = None\<rparr>)\<rparr>;
     m2 \<leftarrow> upd_b aux (\<lambda>x. x\<lparr>next_phys := Some new\<rparr>) m1;
     x \<leftarrow> hdrs m2 aux;
     m3 \<leftarrow> upd_b new (\<lambda>y. y\<lparr>next_phys := next_phys x\<rparr>) m2;
     m4 \<leftarrow> upd_if (next_phys x) (\<lambda>y. y\<lparr>prev_phys := Some new\<rparr>) m3;
     m5 \<leftarrow> upd_b aux (\<lambda>x. SET_USED_BLOCK (x\<lparr>lt_size := sz\<rparr>)) m4;
     link_head new m5 }"

definition alloc_region :: "nat \<Rightarrow> nat \<Rightarrow> u32 \<Rightarrow> sysmem \<Rightarrow> (nat option \<times> sysmem) option" where
  "alloc_region from to size0 m =
    (if size0 = 0 then Some (None, m)
     else do {
       let sz = (if size0 < MIN_SIZE then MIN_SIZE else size0);
       pos \<leftarrow> find_region sz (hdrs m) (list_head m);
       (case pos of
          None \<Rightarrow> Some (None, m)
        | Some aux \<Rightarrow> do {
            m1 \<leftarrow> unlink aux m;
            m2 \<leftarrow> upd_b aux (\<lambda>x. (SET_USED_BLOCK x)\<lparr>fp_next := None, fp_prev := None\<rparr>) m1;
            b \<leftarrow> hdrs m2 aux;
            let new_size = GET_BLOCK_SIZE b - sz - of_nat HEADER_SIZE;
            m3 \<leftarrow> (if sint new_size \<ge> sint MIN_SIZE then split_block aux sz new_size m2 else Some m2);
            Some (Some (aux + HEADER_SIZE), m3) }) })"

text \<open>The merging of a freed block with the one before it and with the one behind it.\<close>

definition merge_prev :: "nat \<Rightarrow> sysmem \<Rightarrow> (nat \<times> sysmem) option" where
  "merge_prev b m = do {
     x \<leftarrow> hdrs m b;
     (case prev_phys x of
        None \<Rightarrow> Some (b, m)
      | Some b2 \<Rightarrow> do {
          y \<leftarrow> hdrs m b2;
          if IS_USED_BLOCK y then Some (b, m)
          else do {
            m1 \<leftarrow> upd_b b2 (\<lambda>y. y\<lparr>lt_size := GET_BLOCK_SIZE y + GET_BLOCK_SIZE x + of_nat HEADER_SIZE\<rparr>) m;
            m2 \<leftarrow> unlink b2 m1;
            m3 \<leftarrow> upd_b b2 (\<lambda>y. (SET_FREE_BLOCK y)\<lparr>fp_next := None, fp_prev := None\<rparr>) m2;
            x1 \<leftarrow> hdrs m3 b;
            m4 \<leftarrow> upd_if (next_phys x1) (\<lambda>z. z\<lparr>prev_phys := Some b2\<rparr>) m3;
            x2 \<leftarrow> hdrs m4 b;
            m5 \<leftarrow> upd_b b2 (\<lambda>y. y\<lparr>next_phys := next_phys x2\<rparr>) m4;
            Some (b2, m5) } }) }"

definition merge_next :: "nat \<Rightarrow> sysmem \<Rightarrow> sysmem option" where
  "merge_next b m = do {
     x \<leftarrow> hdrs m b;
     (case next_phys x of
        None \<Rightarrow> Some m
      | Some b2 \<Rightarrow> do {
          y \<leftarrow> hdrs m b2;
          m5 \<leftarrow> (if IS_USED_BLOCK y then Some m
            else do {
              m1 \<leftarrow> upd_b b (\<lambda>x. x\<lparr>lt_size := lt_size x + (GET_BLOCK_SIZE y + of_nat HEADER_SIZE)\<rparr>) m;
              m2 \<leftarrow> unlink b2 m1;
              m3 \<leftarrow> upd_b b2 (\<lambda>y. y\<lparr>fp_next := None, fp_prev := None\<rparr>) m2;
              y1 \<leftarrow> hdrs m3 b2;
              m4 \<leftarrow> upd_if (next_phys y1) (\<lambda>z. z\<lparr>prev_phys := Some b\<rparr>) m3;
              y2 \<leftarrow> hdrs m4 b2;
              upd_b b (\<lambda>x. x\<lparr>next_phys := next_phys y2\<rparr>) m4 });
          link_head b m5 }) }"

definition dealloc_region :: "nat \<Rightarrow> nat \<Rightarrow> sysmem \<Rightarrow> sysmem option" where
  "dealloc_region ptr sz m =
    (if ptr = 0 then Some m
     else do {
       _ \<leftarrow> guard_c (HEADER_SIZE \<le> ptr);
       let b = ptr - HEADER_SIZE;
       x \<leftarrow> hdrs m b;
       if \<not> IS_USED_BLOCK x then Some m
       else do {
         m1 \<leftarrow> upd_b b (\<lambda>x. (SET_FREE_BLOCK x)\<lparr>fp_next := None, fp_prev := None\<rparr>) m;
         (b1, m2) \<leftarrow> merge_prev b m1;
         merge_next b1 m2 } })"

definition ualloc_sys :: "int \<Rightarrow> sysmem \<Rightarrow> (nat option \<times> sysmem) option" where
  "ualloc_sys n m = alloc_region 0 0 (word_of_int n) m"

definition ufree_sys :: "nat \<Rightarrow> int \<Rightarrow> sysmem \<Rightarrow> sysmem option" where
  "ufree_sys ptr n m = dealloc_region ptr (nat (to_u32 n)) m"

definition CONFIG_KDYNAMIC_MEMORY :: u32 where "CONFIG_KDYNAMIC_MEMORY = 2097152"

text \<open>pool_ok is what init_memory_pool of TLSF returns for the pool; the pool comes with the result.\<close>

definition init_sysmem :: "nat \<Rightarrow> u32 \<Rightarrow> bool \<Rightarrow> sysmem \<Rightarrow> (u32 \<times> nat option \<times> sysmem) option" where
  "init_sysmem heap_addr heap_size pool_ok m = do {
     let (freemem, m1) = init_vmm heap_addr heap_size m;
     if CONFIG_KDYNAMIC_MEMORY > freemem then Some (-1, None, m1)
     else do {
       (pool, m2) \<leftarrow> alloc_region 0 0xffffffff CONFIG_KDYNAMIC_MEMORY m1;
       if pool = None then Some (-1, None, m2)
       else if \<not> pool_ok then Some (-1, pool, m2)
       else Some (freemem, pool, m2) } }"

section \<open>The list of free blocks\<close>

abbreviation fnext :: "(nat \<Rightarrow> list_t option) \<Rightarrow> nat \<Rightarrow> nat option" where
  "fnext h a \<equiv> h a \<bind> fp_next"

abbreviation fprev :: "(nat \<Rightarrow> list_t option) \<Rightarrow> nat \<Rightarrow> nat option" where
  "fprev h a \<equiv> h a \<bind> fp_prev"

definition free_blocks :: "sysmem \<Rightarrow> nat list \<Rightarrow> bool" where
  "free_blocks m xs \<longleftrightarrow> dlist (fnext (hdrs m)) (fprev (hdrs m)) (list_head m) xs \<and>
     (\<forall>a\<in>set xs. \<exists>b. hdrs m a = Some b \<and> \<not> IS_USED_BLOCK b)"

text \<open>What a header holds besides the links of the free list.\<close>

definition phys :: "list_t option \<Rightarrow> list_t option" where
  "phys = map_option (\<lambda>b. b\<lparr>fp_next := None, fp_prev := None\<rparr>)"

definition fits :: "sysmem \<Rightarrow> u32 \<Rightarrow> nat \<Rightarrow> bool" where
  "fits m sz a \<longleftrightarrow> (\<exists>b. hdrs m a = Some b \<and> sz \<le> lt_size b)"

lemma phys_simps [simp]:
  "phys None = None" "phys (Some b) = Some (b\<lparr>fp_next := None, fp_prev := None\<rparr>)"
  by (simp_all add: phys_def)

lemma phys_eq_SomeD:
  "phys x = phys (Some b) \<Longrightarrow> \<exists>c. x = Some c \<and> lt_size c = lt_size b \<and> prev_phys c = prev_phys b \<and> next_phys c = next_phys b"
  by (cases x; cases b) (auto dest: arg_cong [of _ _ lt_size] arg_cong [of _ _ prev_phys] arg_cong [of _ _ next_phys])

lemma upd_b_Some [simp]: "hdrs m a = Some b \<Longrightarrow> upd_b a f m = Some (m\<lparr>hdrs := (hdrs m)(a \<mapsto> f b)\<rparr>)"
  by (simp add: upd_b_def)

lemma upd_if_simps [simp]:
  "upd_if None f m = Some m" "upd_if (Some a) f m = upd_b a f m"
  by (simp_all add: upd_if_def)

text \<open>The search returns the first block of the list that is large enough.\<close>

lemma find_region_list:
  "lseg (fnext h) (fprev h) pv p xs l None \<Longrightarrow> \<forall>a\<in>set xs. h a \<noteq> None \<Longrightarrow>
   find_region sz h p = Some (List.find (\<lambda>a. \<exists>b. h a = Some b \<and> sz \<le> lt_size b) xs)"
proof (induction xs arbitrary: pv p)
  case Nil
  then show ?case by (simp add: find_region.simps)
next
  case (Cons x xs)
  then obtain b where b: "h x = Some b" by auto
  show ?case
  proof (cases "sz \<le> lt_size b")
    case True
    then show ?thesis using Cons.prems b by (simp add: find_region.simps)
  next
    case False
    then show ?thesis using Cons.IH [of "Some x" "fp_next b"] Cons.prems b by (simp add: find_region.simps)
  qed
qed

lemma find_free: "free_blocks m xs \<Longrightarrow> find_region sz (hdrs m) (list_head m) = Some (List.find (fits m sz) xs)"
  by (auto simp: free_blocks_def dlist_def fits_def [abs_def] intro!: find_region_list)

interpretation fb: list_node fp_next fp_prev "\<lambda>p b. b\<lparr>fp_next := p\<rparr>" "\<lambda>p b. b\<lparr>fp_prev := p\<rparr>"
  "\<lambda>b. b\<lparr>fp_next := None, fp_prev := None\<rparr>"
  by unfold_locales simp_all

lemma upd_if_ok:
  "(\<And>n. p = Some n \<Longrightarrow> hdrs m n \<noteq> None) \<Longrightarrow> upd_if p f m = Some (m\<lparr>hdrs := upd_at p f (hdrs m)\<rparr>)"
  by (cases p) (auto simp: upd_b_def)

lemma phys_used:
  assumes "phys y = phys x" "\<exists>b. x = Some b \<and> \<not> IS_USED_BLOCK b"
  shows "\<exists>b. y = Some b \<and> \<not> IS_USED_BLOCK b"
proof -
  obtain b where b: "x = Some b" "\<not> IS_USED_BLOCK b" using assms(2) by blast
  then obtain c where "y = Some c" "lt_size c = lt_size b" using phys_eq_SomeD [of y b] assms(1) by auto
  then show ?thesis using b by (simp add: IS_USED_BLOCK_def)
qed

lemma unlink_ok:
  assumes f: "free_blocks m (us @ a # vs)"
  shows "\<exists>m'. unlink a m = Some m' \<and> free_blocks m' (us @ vs) \<and> (\<forall>x. phys (hdrs m' x) = phys (hdrs m x)) \<and>
     hdrs m' a = hdrs m a"
proof -
  have d: "dlist (fnext (hdrs m)) (fprev (hdrs m)) (list_head m) (us @ a # vs)"
    and e: "\<forall>x\<in>set (us @ a # vs). \<exists>b. hdrs m x = Some b \<and> \<not> IS_USED_BLOCK b"
    and e': "\<forall>x\<in>set (us @ a # vs). hdrs m x \<noteq> None"
    using f by (auto simp: free_blocks_def)
  obtain b where b: "hdrs m a = Some b" using e by auto
  let ?h1 = "upd_at (fp_next b) (\<lambda>x. x\<lparr>fp_prev := fp_prev b\<rparr>) (hdrs m)"
  define h2 where "h2 = upd_at (fp_prev b) (\<lambda>x. x\<lparr>fp_next := fp_next b\<rparr>) ?h1"
  note u = fb.unlink_store [OF d e' b h2_def]
  have a2: "?h1 a = Some b" "h2 a = Some b" using b u(6,7) by (simp_all add: h2_def upd_at_apply)
  have "upd_if (fp_next b) (\<lambda>x. x\<lparr>fp_prev := fp_prev b\<rparr>) m = Some (m\<lparr>hdrs := ?h1\<rparr>)"
    by (rule upd_if_ok) (rule u(8))
  moreover have "upd_if (fp_prev b) (\<lambda>x. x\<lparr>fp_next := fp_next b\<rparr>) (m\<lparr>hdrs := ?h1\<rparr>) = Some (m\<lparr>hdrs := h2\<rparr>)"
    using upd_if_ok [of "fp_prev b" "m\<lparr>hdrs := ?h1\<rparr>"] u(9) by (simp add: upd_at_dom h2_def)
  ultimately have r: "unlink a m = Some (m\<lparr>hdrs := h2, list_head := if us = [] then fp_next b else list_head m\<rparr>)"
    using b a2 u(4) by (simp add: unlink_def)
  have ph: "phys (h2 x) = phys (hdrs m x)" for x using u(2) [of x] by (simp add: phys_def)
  moreover have "\<forall>x\<in>set (us @ vs). \<exists>c. h2 x = Some c \<and> \<not> IS_USED_BLOCK c"
    using e phys_used [OF ph] by simp
  ultimately show ?thesis using r a2(2) b u(1) by (simp add: free_blocks_def)
qed

lemma link_head_ok:
  assumes f: "free_blocks m xs" and a: "a \<notin> set xs" "hdrs m a = Some b" "fp_prev b = None" "\<not> IS_USED_BLOCK b"
  shows "\<exists>m'. link_head a m = Some m' \<and> free_blocks m' (a # xs) \<and> (\<forall>x. phys (hdrs m' x) = phys (hdrs m x))"
proof -
  let ?b = "b\<lparr>fp_next := list_head m\<rparr>"
  let ?h = "(hdrs m)(a \<mapsto> ?b)"
  define h2 where "h2 = upd_at (list_head m) (\<lambda>x. x\<lparr>fp_prev := Some a\<rparr>) ?h"
  have h: "dlist (fnext ?h) (fprev ?h) (list_head m) xs" "\<forall>x\<in>set xs. ?h x \<noteq> None"
    using f a(1) by (auto simp: free_blocks_def intro!: dlist_frame [of "fnext (hdrs m)" "fprev (hdrs m)"])
  note l' = fb.link_store [OF h a(1) _ _ _ h2_def]
  have l: "dlist (fnext h2) (fprev h2) (Some a) (a # xs)"
    "map_option (\<lambda>b. b\<lparr>fp_next := None, fp_prev := None\<rparr>) (h2 x) = map_option (\<lambda>b. b\<lparr>fp_next := None, fp_prev := None\<rparr>) (?h x)"
    "list_head m = Some n \<Longrightarrow> ?h n \<noteq> None" for x n
    using l'(1,2,4) [of ?b] a(3) by simp_all
  have "upd_if (list_head m) (\<lambda>x. x\<lparr>fp_prev := Some a\<rparr>) (m\<lparr>hdrs := ?h\<rparr>) = Some (m\<lparr>hdrs := h2\<rparr>)"
    using upd_if_ok [of "list_head m" "m\<lparr>hdrs := ?h\<rparr>"] l(3) by (simp add: h2_def)
  then have r: "link_head a m = Some (m\<lparr>hdrs := h2, list_head := Some a\<rparr>)" using a(2) by (simp add: link_head_def)
  have ph: "phys (h2 x) = phys (hdrs m x)" for x using l(2) [of x] a(2) by (auto simp: phys_def)
  moreover have "\<forall>x\<in>set (a # xs). \<exists>c. h2 x = Some c \<and> \<not> IS_USED_BLOCK c"
    using f a(2,4) phys_used [OF ph] by (simp add: free_blocks_def)
  ultimately show ?thesis using r l(1) by (simp add: free_blocks_def)
qed

section \<open>Allocation\<close>

definition spare :: "list_t \<Rightarrow> u32 \<Rightarrow> u32" where
  "spare b sz = GET_BLOCK_SIZE b - sz - of_nat HEADER_SIZE"

lemma free_sizes: "\<not> IS_USED_BLOCK b \<Longrightarrow> GET_BLOCK_SIZE (SET_USED_BLOCK b) = GET_BLOCK_SIZE b"
  unfolding GET_BLOCK_SIZE_def SET_USED_BLOCK_def
  by (rule bit_word_eqI) (auto simp: bit_simps)

text \<open>The list of free blocks after an allocation: the block found leaves it, and what is left of the
  block enters it at the head when it is large enough.\<close>

lemma split_block_ok:
  assumes f: "free_blocks m xs" and a: "hdrs m a = Some b" "a \<notin> set xs"
    and n: "n = a + HEADER_SIZE + unat sz" "n \<notin> set xs" "nsz AND USED_BLOCK = 0"
  shows "\<exists>m' c. split_block a sz nsz m = Some m' \<and> free_blocks m' (n # xs) \<and> hdrs m' n = Some c \<and> lt_size c = nsz \<and>
     next_phys c = Some n \<and> prev_phys c = Some n \<and>
     (\<exists>d. hdrs m' a = Some d \<and> lt_size d = sz OR USED_BLOCK \<and> next_phys d = Some n \<and> prev_phys d = prev_phys b) \<and>
     (\<forall>x. x \<noteq> a \<and> x \<noteq> n \<longrightarrow> phys (hdrs m' x) = phys (hdrs m x))"
proof -
  have na: "n \<noteq> a" using n by (simp add: HEADER_SIZE_def)
  have nf: "nsz AND NOT USED_BLOCK = nsz" 
    using arg_cong [OF n(3), of "\<lambda>w. bit w k" for k] by (intro bit_word_eqI) (auto simp: bit_and_iff bit_not_iff)
  let ?new = "\<lparr>lt_size = nsz, prev_phys = Some n, next_phys = Some n, fp_next = None, fp_prev = None\<rparr>"
  let ?a = "b\<lparr>next_phys := Some n, lt_size := sz OR USED_BLOCK\<rparr>"
  let ?m = "m\<lparr>hdrs := (hdrs m)(n \<mapsto> ?new, a \<mapsto> ?a)\<rparr>"
  have s: "split_block a sz nsz m = link_head n ?m"
    unfolding split_block_def Let_def n(1) [symmetric]
    using a na nf by (simp add: upd_b_def SET_FREE_BLOCK_def SET_USED_BLOCK_def fun_upd_twist)
  have "dlist (fnext (hdrs ?m)) (fprev (hdrs ?m)) (list_head ?m) xs"
    using f a n(2) by (auto simp: free_blocks_def intro!: dlist_frame [of "fnext (hdrs m)" "fprev (hdrs m)"])
  then have fm: "free_blocks ?m xs" using f a n(2) by (auto simp: free_blocks_def)
  have "USED_BLOCK \<noteq> 0" by (simp add: USED_BLOCK_def)
  then obtain m' where m': "link_head n ?m = Some m'" "free_blocks m' (n # xs)" "\<forall>x. phys (hdrs m' x) = phys (hdrs ?m x)"
    using link_head_ok [OF fm n(2), of ?new] na n(3) by (auto simp: IS_USED_BLOCK_def)
  obtain c where "hdrs m' n = Some c" "lt_size c = nsz" "next_phys c = Some n" "prev_phys c = Some n"
    using m'(3) [rule_format, of n] phys_eq_SomeD [of "hdrs m' n" ?new] na by auto
  moreover obtain d where "hdrs m' a = Some d" "lt_size d = sz OR USED_BLOCK" "next_phys d = Some n" "prev_phys d = prev_phys b"
    using m'(3) [rule_format, of a] phys_eq_SomeD [of "hdrs m' a" ?a] na by auto
  ultimately show ?thesis using s m' by auto
qed

lemma find_split:
  "List.find P xs = Some a \<Longrightarrow> \<exists>us vs. xs = us @ a # vs \<and> P a \<and> a \<notin> set us \<and> remove1 a xs = us @ vs"
proof (induction xs)
  case (Cons x xs)
  show ?case
  proof (cases "P x")
    case True
    then show ?thesis using Cons.prems by (intro exI [of _ "[]"] exI [of _ xs]) simp
  next
    case False
    then obtain us vs where u: "xs = us @ a # vs" "P a" "a \<notin> set us" "remove1 a xs = us @ vs" using Cons by auto
    then have "x \<noteq> a" using False by auto
    then show ?thesis using u by (intro exI [of _ "x # us"] exI [of _ vs]) simp
  qed
qed simp

lemma not_used_unat: "\<not> IS_USED_BLOCK b \<Longrightarrow> unat (lt_size b) < 2 ^ 31"
proof -
  assume n: "\<not> IS_USED_BLOCK b"
  have u: "USED_BLOCK = push_bit 31 1" by (simp add: USED_BLOCK_def)
  have "\<not> bit (lt_size b) 31"
  proof
    assume "bit (lt_size b) 31"
    then have "bit (lt_size b AND USED_BLOCK) i = bit USED_BLOCK i" for i
      unfolding u bit_and_iff bit_one_shift_iff by auto
    then have "lt_size b AND USED_BLOCK = USED_BLOCK" by (simp add: bit_word_eqI)
    then show False using n by (simp add: IS_USED_BLOCK_def)
  qed
  then have "take_bit 31 (lt_size b) = lt_size b"
    by (intro bit_word_eqI) (auto simp: bit_take_bit_iff numeral_eq_Suc less_Suc_eq)
  then have "unat (lt_size b) = take_bit 31 (unat (lt_size b))" by (metis unsigned_take_bit_eq)
  then show ?thesis using take_bit_nat_less_exp [of 31 "unat (lt_size b)"] by linarith
qed

lemma sint_small: "- 2147483648 \<le> k \<Longrightarrow> k < 2147483648 \<Longrightarrow> sint (word_of_int k :: u32) = k"
  by (simp add: int_word_sint)

lemma sint_spare:
  assumes "unat s < 2 ^ 31" "sz \<le> s"
  shows "sint (s - sz - 12 :: u32) = int (unat s) - int (unat sz) - 12"
proof -
  have "int (unat s) < int (2 ^ 31)" using assms(1) by (simp only: of_nat_less_iff)
  then have z: "0 \<le> uint sz" "uint sz \<le> uint s" "uint s < 2147483648"
    using assms(2) by (simp_all add: word_le_def)
  have "sint (word_of_int (uint s - uint sz - 12) :: u32) = uint s - uint sz - 12"
    by (rule sint_small) (use z in linarith)+
  moreover have "s - sz - 12 = word_of_int (uint s - uint sz - 12)" by simp
  ultimately have "sint (s - sz - 12) = uint s - uint sz - 12" by (simp only:)
  then show ?thesis by (simp only: uint_nat of_nat_id)
qed

lemma bit31_free: "unat (w :: u32) < 2 ^ 31 \<Longrightarrow> \<not> bit w 31"
proof -
  assume "unat w < 2 ^ 31"
  then have "take_bit 31 (unat w) = unat w" by (rule take_bit_nat_eq_self)
  moreover have "\<not> bit (take_bit 31 (unat w)) 31" by (simp add: bit_take_bit_iff)
  moreover have "bit (unat w) 31 = bit w 31" by (simp add: bit_unsigned_iff)
  ultimately show ?thesis by simp
qed

lemma clear_free: "unat (w :: u32) < 2 ^ 31 \<Longrightarrow> w AND USED_BLOCK = 0 \<and> w AND NOT USED_BLOCK = w"
proof -
  assume w: "unat w < 2 ^ 31"
  have u: "USED_BLOCK = push_bit 31 1" by (simp add: USED_BLOCK_def)
  have "bit w i \<longrightarrow> \<not> bit USED_BLOCK i" for i using bit31_free [OF w] unfolding u bit_one_shift_iff by auto
  then show ?thesis by (auto intro!: bit_word_eqI simp: bit_and_iff bit_not_iff)
qed

lemma used_bits: "(w OR USED_BLOCK) AND USED_BLOCK = USED_BLOCK" "(w OR USED_BLOCK) AND NOT USED_BLOCK = w AND NOT USED_BLOCK"
  by (rule bit_word_eqI; auto simp: bit_simps)+

lemma block_size_free: "\<not> IS_USED_BLOCK b \<Longrightarrow> GET_BLOCK_SIZE b = lt_size b"
  using clear_free [OF not_used_unat] by (simp add: GET_BLOCK_SIZE_def)

text \<open>The list of free blocks after an allocation of sz bytes from block a: a leaves it, and what a
  has left over enters it at the head when it is large enough.\<close>

definition remainder :: "sysmem \<Rightarrow> nat \<Rightarrow> u32 \<Rightarrow> nat list" where
  "remainder m a sz = (case hdrs m a of None \<Rightarrow> []
     | Some b \<Rightarrow> if unat (lt_size b) \<ge> unat sz + 24 then [a + HEADER_SIZE + unat sz] else [])"

definition request :: "u32 \<Rightarrow> u32" where
  "request n = (if n < MIN_SIZE then MIN_SIZE else n)"

text \<open>C30: An allocation takes the first free block that is large enough, and returns NULL and changes
  nothing when no block is.  The list of free blocks stays a list, in which what is left of the
  block taken stands first.\<close>
theorem alloc_first_fit:
  assumes f: "free_blocks m xs" and n: "0 < n"
    and fresh: "\<And>a. List.find (fits m (request n)) xs = Some a \<Longrightarrow> set (remainder m a (request n)) \<inter> set xs = {}"
  shows "case List.find (fits m (request n)) xs of
     None \<Rightarrow> alloc_region from to n m = Some (None, m)
   | Some a \<Rightarrow> \<exists>m'. alloc_region from to n m = Some (Some (a + HEADER_SIZE), m') \<and>
       free_blocks m' (remainder m a (request n) @ remove1 a xs) \<and>
       (\<exists>b. hdrs m' a = Some b \<and> IS_USED_BLOCK b \<and> request n \<le> GET_BLOCK_SIZE b)"
proof (cases "List.find (fits m (request n)) xs")
  case None
  then show ?thesis using n find_free [OF f]
    by (simp add: alloc_region_def request_def Let_def split: if_splits)
next
  case (Some a)
  let ?s = "request n"
  obtain us vs where u: "xs = us @ a # vs" "fits m ?s a" "a \<notin> set us" "remove1 a xs = us @ vs"
    using find_split [OF Some] by blast
  obtain b where b: "hdrs m a = Some b" "?s \<le> lt_size b" "\<not> IS_USED_BLOCK b"
    using u f by (auto simp: fits_def free_blocks_def)
  obtain m1 where m1: "unlink a m = Some m1" "free_blocks m1 (us @ vs)" "hdrs m1 a = Some b"
    using unlink_ok f u(1) b(1) by fastforce
  have av: "a \<notin> set (us @ vs)" using f u(1) by (auto simp: free_blocks_def dlist_def)
  let ?b = "(SET_USED_BLOCK b)\<lparr>fp_next := None, fp_prev := None\<rparr>"
  let ?m2 = "m1\<lparr>hdrs := (hdrs m1)(a \<mapsto> ?b)\<rparr>"
  have f2: "free_blocks ?m2 (us @ vs)"
    using m1(2) av by (auto simp: free_blocks_def intro!: dlist_frame [of "fnext (hdrs m1)" "fprev (hdrs m1)"])
  let ?w = "lt_size b - ?s - 12"
  have w: "GET_BLOCK_SIZE ?b = lt_size b" "of_nat HEADER_SIZE = (12 :: u32)" "n \<noteq> 0"
    using n free_sizes [OF b(3)] block_size_free [OF b(3)] by (auto simp: HEADER_SIZE_def GET_BLOCK_SIZE_def)
  have min: "sint MIN_SIZE = 12" by (simp add: MIN_SIZE_def)
  have al: "alloc_region from to n m = do {
      m3 \<leftarrow> (if sint ?w \<ge> 12 then split_block a ?s ?w ?m2 else Some ?m2); Some (Some (a + HEADER_SIZE), m3) }"
    unfolding alloc_region_def request_def [symmetric] Let_def
    using n find_free [OF f, of ?s] Some m1 w min by simp
  have split: "sint ?w \<ge> 12 \<longleftrightarrow> unat (lt_size b) \<ge> unat ?s + 24"
    using sint_spare [OF not_used_unat [OF b(3)] b(2)] by linarith
  have "unat ?s < 2 ^ 31" using b(2) not_used_unat [OF b(3)] by (simp add: word_le_nat_alt)
  then have sz: "?s AND NOT USED_BLOCK = ?s" using clear_free by blast
  show ?thesis
  proof (cases "unat (lt_size b) \<ge> unat ?s + 24")
    case True
    have "unat ?w < 2 ^ 31" using True not_used_unat [OF b(3)] b(2) by (simp add: unat_sub word_le_nat_alt)
    then have "?w AND USED_BLOCK = 0" using clear_free by blast
    then obtain m3 d where "split_block a ?s ?w ?m2 = Some m3" "free_blocks m3 ((a + HEADER_SIZE + unat ?s) # us @ vs)"
      "hdrs m3 a = Some d" "lt_size d = ?s OR USED_BLOCK"
      using split_block_ok [OF f2, of a ?b "a + HEADER_SIZE + unat ?s" ?s ?w, OF _ av refl] fresh [OF Some] True b u
      by (auto simp: remainder_def)
    then show ?thesis using True split al Some b u sz
      by (auto simp: remainder_def IS_USED_BLOCK_def GET_BLOCK_SIZE_def used_bits)
  next
    case False
    then show ?thesis using split al Some b u f2
      by (auto simp: remainder_def IS_USED_BLOCK_def GET_BLOCK_SIZE_def SET_USED_BLOCK_def used_bits block_size_free [OF b(3), unfolded GET_BLOCK_SIZE_def])
  qed
qed

section \<open>Freed blocks\<close>

text \<open>A block is written by its size, below 2 ^ 31, and the used bit.\<close>

lemma used_simps:
  assumes "unat w < 2 ^ 31"
  shows "\<not> IS_USED_BLOCK (b\<lparr>lt_size := w\<rparr>)" "IS_USED_BLOCK (b\<lparr>lt_size := w OR USED_BLOCK\<rparr>)"
    "GET_BLOCK_SIZE (b\<lparr>lt_size := w\<rparr>) = w" "GET_BLOCK_SIZE (b\<lparr>lt_size := w OR USED_BLOCK\<rparr>) = w"
    "SET_FREE_BLOCK (b\<lparr>lt_size := w\<rparr>) = b\<lparr>lt_size := w\<rparr>"
    "SET_FREE_BLOCK (b\<lparr>lt_size := w OR USED_BLOCK\<rparr>) = b\<lparr>lt_size := w\<rparr>"
    "SET_USED_BLOCK (b\<lparr>lt_size := w\<rparr>) = b\<lparr>lt_size := w OR USED_BLOCK\<rparr>"
proof -
  have "USED_BLOCK \<noteq> 0" by (simp add: USED_BLOCK_def)
  then show "\<not> IS_USED_BLOCK (b\<lparr>lt_size := w\<rparr>)" "IS_USED_BLOCK (b\<lparr>lt_size := w OR USED_BLOCK\<rparr>)"
    "GET_BLOCK_SIZE (b\<lparr>lt_size := w\<rparr>) = w" "GET_BLOCK_SIZE (b\<lparr>lt_size := w OR USED_BLOCK\<rparr>) = w"
    "SET_FREE_BLOCK (b\<lparr>lt_size := w\<rparr>) = b\<lparr>lt_size := w\<rparr>"
    "SET_FREE_BLOCK (b\<lparr>lt_size := w OR USED_BLOCK\<rparr>) = b\<lparr>lt_size := w\<rparr>"
    "SET_USED_BLOCK (b\<lparr>lt_size := w\<rparr>) = b\<lparr>lt_size := w OR USED_BLOCK\<rparr>"
    using clear_free [OF assms]
    by (simp_all add: IS_USED_BLOCK_def GET_BLOCK_SIZE_def SET_FREE_BLOCK_def SET_USED_BLOCK_def used_bits)
qed

definition block :: "u32 \<Rightarrow> nat option \<Rightarrow> nat option \<Rightarrow> list_t" where
  "block w pr nx = \<lparr>lt_size = w, prev_phys = pr, next_phys = nx, fp_next = None, fp_prev = None\<rparr>"

lemma header_fields [simp]:
  "lt_size (block w pr nx) = w" "prev_phys (block w pr nx) = pr" "next_phys (block w pr nx) = nx"
  "fp_next (block w pr nx) = None" "fp_prev (block w pr nx) = None"
  "lt_size_update f (block w pr nx) = block (f w) pr nx"
  "prev_phys_update g (block w pr nx) = block w (g pr) nx"
  "next_phys_update g (block w pr nx) = block w pr (g nx)"
  "(block w pr nx)\<lparr>fp_next := None\<rparr> = block w pr nx" "(block w pr nx)\<lparr>fp_prev := None\<rparr> = block w pr nx"
  for f g
  by (simp_all add: block_def)

lemma block_simps:
  assumes "unat w < 2 ^ 31"
  shows "\<not> IS_USED_BLOCK (block w pr nx)" "IS_USED_BLOCK (block (w OR USED_BLOCK) pr nx)"
    "GET_BLOCK_SIZE (block w pr nx) = w" "GET_BLOCK_SIZE (block (w OR USED_BLOCK) pr nx) = w"
    "SET_FREE_BLOCK (block w pr nx) = block w pr nx" "SET_FREE_BLOCK (block (w OR USED_BLOCK) pr nx) = block w pr nx"
    "SET_USED_BLOCK (block w pr nx) = block (w OR USED_BLOCK) pr nx"
  using used_simps [OF assms, of "block w pr nx"] by simp_all

lemma upd_thrice: "a \<noteq> n \<Longrightarrow> f(a := x, n := y, a := z) = f(n := y, a := z)"
  by (auto simp: fun_eq_iff)

lemma alloc_only_block:
  assumes "hdrs m a = Some (block w pr nx)" "list_head m = Some a" "unat w < 2 ^ 31" "12 \<le> sz" "sz \<le> w"
    and n: "n = a + HEADER_SIZE + unat sz"
  shows "alloc_region from to sz m = Some (Some (a + HEADER_SIZE),
     if unat w \<ge> unat sz + 24
     then m\<lparr>hdrs := (hdrs m)(a \<mapsto> block (sz OR USED_BLOCK) pr (Some n), n \<mapsto> block (w - sz - 12) (Some n) (Some n)),
            list_head := Some n\<rparr>
     else m\<lparr>hdrs := (hdrs m)(a \<mapsto> block (w OR USED_BLOCK) pr nx), list_head := None\<rparr>)"
proof -
  have na: "n \<noteq> a" using n by (simp add: HEADER_SIZE_def)
  have sz: "sz \<noteq> 0" "\<not> sz < MIN_SIZE" "unat sz < 2 ^ 31" using assms(3-5) by (auto simp: MIN_SIZE_def word_le_nat_alt word_less_nat_alt)
  have w: "unat (w - sz - 12) < 2 ^ 31" if "unat w \<ge> unat sz + 24"
    using assms(3,5) that by (simp add: unat_sub word_le_nat_alt)
  have h: "of_nat HEADER_SIZE = (12 :: u32)" "sint MIN_SIZE = 12" by (simp_all add: HEADER_SIZE_def MIN_SIZE_def)
  have split: "sint (w - sz - 12) \<ge> 12 \<longleftrightarrow> unat w \<ge> unat sz + 24" using sint_spare [OF assms(3,5)] by linarith
  have u: "unlink a m = Some (m\<lparr>list_head := None\<rparr>)" using assms(1,2) by (simp add: unlink_def)
  have s: "split_block a sz (w - sz - 12) (m\<lparr>list_head := None, hdrs := (hdrs m)(a \<mapsto> block (w OR USED_BLOCK) pr nx)\<rparr>) =
     Some (m\<lparr>hdrs := (hdrs m)(a \<mapsto> block (sz OR USED_BLOCK) pr (Some n), n \<mapsto> block (w - sz - 12) (Some n) (Some n)),
            list_head := Some n\<rparr>)" if "unat w \<ge> unat sz + 24"
    unfolding split_block_def Let_def n [symmetric] block_def [symmetric]
    using na by (simp add: upd_b_def link_head_def block_simps [OF w [OF that]] block_simps [OF sz(3)]
      upd_thrice [OF na] upd_thrice [OF na [symmetric]])
  show ?thesis
    using assms(1-3,5) sz(1,2) u s split
    by (simp add: alloc_region_def Let_def find_region.simps [of _ _ "Some a"] block_simps h)
qed

text \<open>A block that was split off has itself as its neighbours, so freeing it merges it with itself twice.\<close>

lemma free_split_block:
  assumes "hdrs m a = Some (block (w OR USED_BLOCK) (Some a) (Some a))" "list_head m = None" "unat w < 2 ^ 28"
  shows "dealloc_region (a + HEADER_SIZE) sz m =
     Some (m\<lparr>hdrs := (hdrs m)(a \<mapsto> block (4 * w + 36) (Some a) (Some a)), list_head := Some a\<rparr>)"
proof -
  have w: "unat w < 2 ^ 31" "unat (2 * w + 12) < 2 ^ 31" "unat (4 * w + 36) < 2 ^ 31"
    using assms(3) by (simp_all add: unat_word_ariths)
  have e: "w + w + 12 = 2 * w + 12" "2 * w + 12 + (2 * w + 12 + 12) = 4 * w + 36" "36 + 4 * w = 4 * w + 36" by simp_all
  have h: "of_nat HEADER_SIZE = (12 :: u32)" "HEADER_SIZE \<noteq> 0" by (simp_all add: HEADER_SIZE_def)
  let ?m = "\<lambda>x. m\<lparr>hdrs := (hdrs m)(a \<mapsto> block x (Some a) (Some a))\<rparr>"
  have u: "unlink a (?m x) = Some (?m x)" for x using assms(2) by (simp add: unlink_def)
  have "merge_prev a (?m w) = Some (a, ?m (2 * w + 12))"
    unfolding merge_prev_def using u block_simps [OF w(1)] block_simps [OF w(2)] by (simp add: h e)
  moreover have "merge_next a (?m (2 * w + 12)) = Some (?m (4 * w + 36)\<lparr>list_head := Some a\<rparr>)"
    unfolding merge_next_def using u assms(2) block_simps [OF w(2)] block_simps [OF w(3)]
    by (simp add: h e link_head_def)
  ultimately show ?thesis
    using assms(1) h block_simps [OF w(1)] by (simp add: dealloc_region_def)
qed

text \<open>C31: In a fresh heap that holds two blocks and nothing else, the second block is freed as a block of more
  than four times its size, which overlaps whatever lies behind the heap; the next allocation of
  that size is given.\<close>
theorem freed_block_quadruples:
  assumes "12 \<le> s" "12 \<le> n" "s + n + 24 < 2 ^ 28"
  shows "\<exists>m1 m2 m3 m4. ualloc_sys (int s) (snd (init_vmm p (of_nat (s + n + 24)) m)) = Some (Some (p + 12), m1) \<and>
     ualloc_sys (int n) m1 = Some (Some (p + 24 + s), m2) \<and>
     ufree_sys (p + 24 + s) (int n) m2 = Some m3 \<and>
     ualloc_sys (int (4 * n + 36)) m3 = Some (Some (p + 24 + s), m4) \<and>
     p + 24 + s + (4 * n + 36) > p + (s + n + 24)"
proof -
  let ?S = "of_nat s :: u32" and ?N = "of_nat n :: u32" and ?a = "p + 12 + s"
  have u: "unat ?S = s" "unat ?N = n" using assms by (simp_all add: unat_of_nat take_bit_nat_eq_self)
  have w: "unat (?S + ?N + 12) = s + n + 12" "unat (4 * ?N + 36) = 4 * n + 36" using assms u by (simp_all add: unat_word_ariths)
  define m0 where "m0 = m\<lparr>hdrs := (hdrs m)(p \<mapsto> block (?S + ?N + 12) None None), list_head := Some p\<rparr>"
  have i: "snd (init_vmm p (of_nat (s + n + 24)) m) = m0"
    using block_simps(5) [of "?S + ?N + 12" None None] w assms
    by (simp add: init_vmm_def Let_def m0_def HEADER_SIZE_def block_def add.commute add.left_commute)
  let ?m1 = "m0\<lparr>hdrs := (hdrs m0)(p \<mapsto> block (?S OR USED_BLOCK) None (Some ?a), ?a \<mapsto> block ?N (Some ?a) (Some ?a)),
      list_head := Some ?a\<rparr>"
  have a1: "alloc_region 0 0 ?S m0 = Some (Some (p + 12), ?m1)"
    using alloc_only_block [of m0 p "?S + ?N + 12" None None ?S ?a 0 0] assms u w
    by (simp add: m0_def HEADER_SIZE_def word_le_nat_alt)
  let ?m2 = "?m1\<lparr>hdrs := (hdrs ?m1)(?a \<mapsto> block (?N OR USED_BLOCK) (Some ?a) (Some ?a)), list_head := None\<rparr>"
  have a2: "alloc_region 0 0 ?N ?m1 = Some (Some (p + 24 + s), ?m2)"
    using alloc_only_block [of ?m1 ?a ?N "Some ?a" "Some ?a" ?N "?a + HEADER_SIZE + unat ?N" 0 0] assms u
    by (simp add: HEADER_SIZE_def word_le_nat_alt)
  let ?m3 = "?m2\<lparr>hdrs := (hdrs ?m2)(?a \<mapsto> block (4 * ?N + 36) (Some ?a) (Some ?a)), list_head := Some ?a\<rparr>"
  have a3: "dealloc_region (p + 24 + s) z ?m2 = Some ?m3" for z
  proof -
    have q: "p + 24 + s = ?a + HEADER_SIZE" by (simp add: HEADER_SIZE_def)
    show ?thesis unfolding q using free_split_block [of ?m2 ?a ?N z] assms u by simp
  qed
  obtain m4 where a4: "alloc_region 0 0 (4 * ?N + 36) ?m3 = Some (Some (p + 24 + s), m4)"
    using alloc_only_block [of ?m3 ?a "4 * ?N + 36" "Some ?a" "Some ?a" "4 * ?N + 36" "?a + HEADER_SIZE + unat (4 * ?N + 36)" 0 0]
      assms w by (simp add: HEADER_SIZE_def word_le_nat_alt)
  show ?thesis unfolding i ualloc_sys_def ufree_sys_def using a1 a2 a3 a4 assms
    by (intro exI [of _ ?m1] exI [of _ ?m2] exI [of _ ?m3] exI [of _ m4]) simp
qed

text \<open>The last block of the heap does not come back: with the whole heap in one block, freeing the block leaves
  no free block, and every later allocation fails.\<close>
theorem whole_heap_lost:
  assumes "24 \<le> h" "h < 2 ^ 31"
  shows "\<exists>m1 m2. ualloc_sys (int (h - 12)) (snd (init_vmm p (of_nat h) m)) = Some (Some (p + 12), m1) \<and>
     ufree_sys (p + 12) (int (h - 12)) m1 = Some m2 \<and> (\<forall>n. ualloc_sys n m2 = Some (None, m2))"
proof -
  have "h = (h - 12) + 12" using assms by simp
  then obtain k where k: "h = k + 12" by blast
  let ?w = "of_nat (h - 12) :: u32"
  have w: "unat ?w = h - 12" "unat ?w < 2 ^ 31" "12 \<le> ?w" "of_nat h - 12 = ?w"
    using assms k by (simp_all add: unat_of_nat take_bit_nat_eq_self word_le_nat_alt)
  define m0 where "m0 = m\<lparr>hdrs := (hdrs m)(p \<mapsto> block ?w None None), list_head := Some p\<rparr>"
  have i: "snd (init_vmm p (of_nat h) m) = m0"
    using block_simps(5) [OF w(2), of None None] w(4) by (simp add: init_vmm_def Let_def m0_def HEADER_SIZE_def block_def)
  let ?m1 = "m0\<lparr>hdrs := (hdrs m0)(p \<mapsto> block (?w OR USED_BLOCK) None None), list_head := None\<rparr>"
  have a1: "alloc_region 0 0 ?w m0 = Some (Some (p + 12), ?m1)"
    using alloc_only_block [of m0 p ?w None None ?w "p + HEADER_SIZE + unat ?w" 0 0] w by (simp add: m0_def HEADER_SIZE_def)
  let ?m2 = "?m1\<lparr>hdrs := (hdrs ?m1)(p \<mapsto> block ?w None None)\<rparr>"
  have a2: "dealloc_region (p + 12) z ?m1 = Some ?m2" for z
    using block_simps [OF w(2)] by (simp add: dealloc_region_def merge_prev_def merge_next_def HEADER_SIZE_def)
  have a3: "alloc_region 0 0 n ?m2 = Some (None, ?m2)" for n
    by (simp add: alloc_region_def find_region.simps Let_def)
  show ?thesis unfolding i ualloc_sys_def ufree_sys_def using a1 a2 a3
    by (intro exI [of _ ?m1] exI [of _ ?m2]) simp
qed

section \<open>Instances\<close>

definition demo_heap :: sysmem where
  "demo_heap = \<lparr>hdrs = [1000 \<mapsto> block 88 None None], list_head = Some 1000\<rparr>"

lemma alloc_first_fit_witness:
  "\<exists>m'. alloc_region 0 0 16 demo_heap = Some (Some 1012, m') \<and> free_blocks m' [1028]"
proof -
  have n: "\<not> IS_USED_BLOCK (block 88 None None)" by (simp add: IS_USED_BLOCK_def USED_BLOCK_def)
  have f: "free_blocks demo_heap [1000]" using n by (simp add: free_blocks_def demo_heap_def dlist_def)
  have r: "request 16 = 16" by (simp add: request_def MIN_SIZE_def)
  have a: "fits demo_heap 16 1000" by (simp add: fits_def demo_heap_def)
  have m: "remainder demo_heap 1000 16 = [1028]" by (simp add: remainder_def demo_heap_def HEADER_SIZE_def)
  show ?thesis using alloc_first_fit [OF f, of 16 0 0] r a m by (auto simp: HEADER_SIZE_def)
qed

lemma freed_block_quadruples_witness:
  "\<exists>m1 m2 m3 m4. ualloc_sys 12 (snd (init_vmm 1000 56 \<lparr>hdrs = Map.empty, list_head = None\<rparr>)) = Some (Some 1012, m1) \<and>
     ualloc_sys 20 m1 = Some (Some 1036, m2) \<and> ufree_sys 1036 20 m2 = Some m3 \<and>
     ualloc_sys 116 m3 = Some (Some 1036, m4) \<and> 1036 + 116 > (1000 + 56 :: nat)"
  using freed_block_quadruples [of 12 20 1000 "\<lparr>hdrs = Map.empty, list_head = None\<rparr>"] by simp

lemma whole_heap_lost_witness:
  "\<exists>m1 m2. ualloc_sys 52 (snd (init_vmm 1000 64 \<lparr>hdrs = Map.empty, list_head = None\<rparr>)) = Some (Some 1012, m1) \<and>
     ufree_sys 1012 52 m1 = Some m2 \<and> ualloc_sys 1 m2 = Some (None, m2)"
  using whole_heap_lost [of 64 1000 "\<lparr>hdrs = Map.empty, list_head = None\<rparr>"] by auto

end
