(* ===== verification/XTlsf.thy ===== *)
theory XTlsf
  imports Links Bitops
begin

unbundle bit_operations_syntax

text \<open>
  The two-level segregated fit allocator of XtratuM (kernel/tlsf.c), on a
  32-bit machine.  The state is one pool: the tlsf_t at its start and the
  headers of its blocks, a store indexed by their addresses.  A header is the
  prev_hdr pointer, the size with the two state bits, and the two links of the
  union that are valid while the block is free; the bytes that the owner of a
  block writes are not part of the state.  Addresses do not wrap.  The locks
  (TLSF_USE_LOCKS is 0) are not compiled.
\<close>

section \<open>Constants\<close>

definition MAX_FLI :: nat where "MAX_FLI = 30"
definition MAX_LOG2_SLI :: nat where "MAX_LOG2_SLI = 5"
definition MAX_SLI :: nat where "MAX_SLI = 32"
definition FLI_OFFSET :: nat where "FLI_OFFSET = 6"
definition SMALL_BLOCK :: u32 where "SMALL_BLOCK = 128"
definition REAL_FLI :: nat where "REAL_FLI = 24"
definition MIN_BLOCK_SIZE :: u32 where "MIN_BLOCK_SIZE = 8"
definition BHDR_OVERHEAD :: u32 where "BHDR_OVERHEAD = 8"
definition BHDR_SIZE :: u32 where "BHDR_SIZE = 16"
definition TLSF_SIZE :: u32 where "TLSF_SIZE = 3180"
definition TLSF_SIGNATURE :: u32 where "TLSF_SIGNATURE = 0x2A59FA59"
definition PTR_MASK :: u32 where "PTR_MASK = 3"
definition TLSF_BLOCK_SIZE :: u32 where "TLSF_BLOCK_SIZE = 0xFFFFFFFC"
definition MEM_ALIGN :: u32 where "MEM_ALIGN = 7"
definition PREV_STATE :: u32 where "PREV_STATE = 2"
definition FREE_BLOCK :: u32 where "FREE_BLOCK = 1"
definition PREV_FREE :: u32 where "PREV_FREE = 2"

lemmas tlsf_consts = MAX_LOG2_SLI_def MAX_SLI_def FLI_OFFSET_def SMALL_BLOCK_def REAL_FLI_def MIN_BLOCK_SIZE_def
  BHDR_OVERHEAD_def BHDR_SIZE_def

definition ROUNDUP_SIZE :: "u32 \<Rightarrow> u32" where
  "ROUNDUP_SIZE r = (r + MEM_ALIGN) AND NOT MEM_ALIGN"

definition ROUNDDOWN_SIZE :: "u32 \<Rightarrow> u32" where
  "ROUNDDOWN_SIZE r = r AND NOT MEM_ALIGN"

section \<open>The structures\<close>

record bhdr_t =
  prev_hdr :: "nat option"
  bh_size :: u32
  fr_prev :: "nat option"
  fr_next :: "nat option"

record tlsf_t =
  tlsf_signature :: u32
  used_size :: u32
  fl_bitmap :: u32
  sl_bitmap :: "u32 list"
  tlsf_matrix :: "nat option list list"
  bhdrs :: "nat \<Rightarrow> bhdr_t option"
  mp :: "nat option"

definition block_bytes :: "bhdr_t \<Rightarrow> u32" where
  "block_bytes h = bh_size h AND TLSF_BLOCK_SIZE"

text \<open>GET_NEXT_BLOCK (b -> ptr.buffer, r): the buffer lies 8 bytes behind the header.\<close>

definition GET_NEXT_BLOCK :: "nat \<Rightarrow> u32 \<Rightarrow> nat" where
  "GET_NEXT_BLOCK b r = b + 8 + unat r"

definition upd_h :: "nat \<Rightarrow> (bhdr_t \<Rightarrow> bhdr_t) \<Rightarrow> tlsf_t \<Rightarrow> tlsf_t option" where
  "upd_h a f st = do { h \<leftarrow> bhdrs st a; Some (st\<lparr>bhdrs := (bhdrs st)(a \<mapsto> f h)\<rparr>) }"

definition upd_h_if :: "nat option \<Rightarrow> (bhdr_t \<Rightarrow> bhdr_t) \<Rightarrow> tlsf_t \<Rightarrow> tlsf_t option" where
  "upd_h_if p f st = (case p of None \<Rightarrow> Some st | Some a \<Rightarrow> upd_h a f st)"

definition get_class :: "nat \<Rightarrow> nat \<Rightarrow> tlsf_t \<Rightarrow> nat option option" where
  "get_class fl sl st = do { row \<leftarrow> rd (tlsf_matrix st) fl; rd row sl }"

definition set_class :: "nat \<Rightarrow> nat \<Rightarrow> nat option \<Rightarrow> tlsf_t \<Rightarrow> tlsf_t option" where
  "set_class fl sl p st = do {
     row \<leftarrow> rd (tlsf_matrix st) fl;
     row' \<leftarrow> wr row sl p;
     m \<leftarrow> wr (tlsf_matrix st) fl row';
     Some (st\<lparr>tlsf_matrix := m\<rparr>) }"

section \<open>Bits\<close>

definition bit_table :: "int list" where
  "bit_table = [-1, 0] @ replicate 2 1 @ replicate 4 2 @ replicate 8 3 @ replicate 16 4 @ replicate 32 5 @
     replicate 64 6 @ replicate 128 7"

definition table_scan :: "u32 \<Rightarrow> int" where
  "table_scan x = (let a = (if x \<le> 0xffff then (if x \<le> 0xff then 0 else 8) else (if x \<le> 0xffffff then 16 else 24 :: nat))
     in bit_table ! unat (drop_bit a x) + int a)"

definition ls_bit :: "u32 \<Rightarrow> int" where
  "ls_bit i = table_scan (i AND - i)"

definition ms_bit :: "u32 \<Rightarrow> int" where
  "ms_bit i = table_scan i"

definition tlsf_set_bit :: "nat \<Rightarrow> u32 \<Rightarrow> u32" where
  "tlsf_set_bit nr w = w OR push_bit (nr mod 32) 1"

definition tlsf_clear_bit :: "nat \<Rightarrow> u32 \<Rightarrow> u32" where
  "tlsf_clear_bit nr w = w AND NOT (push_bit (nr mod 32) 1)"

section \<open>The classes of sizes\<close>

text \<open>The exponent of a size and its first and second level; a shift by a negative amount is undefined.\<close>

definition levels :: "u32 \<Rightarrow> (nat \<times> nat) option" where
  "levels r = do {
     let f = ms_bit r;
     _ \<leftarrow> guard_c (f \<ge> 5);
     Some (nat f - FLI_OFFSET, unat (drop_bit (nat f - MAX_LOG2_SLI) r) - MAX_SLI) }"

definition MAPPING_INSERT :: "u32 \<Rightarrow> (nat \<times> nat) option" where
  "MAPPING_INSERT r = (if r < SMALL_BLOCK then Some (0, unat r div 4) else levels r)"

definition MAPPING_SEARCH :: "u32 \<Rightarrow> (u32 \<times> nat \<times> nat) option" where
  "MAPPING_SEARCH r =
    (if r < SMALL_BLOCK then Some (r, 0, unat r div 4)
     else do {
       let t = push_bit (nat (ms_bit r) - MAX_LOG2_SLI) 1 - 1;
       (fl, sl) \<leftarrow> levels (r + t);
       Some ((r + t) AND NOT t, fl, sl) })"

definition FIND_SUITABLE_BLOCK :: "tlsf_t \<Rightarrow> nat \<Rightarrow> nat \<Rightarrow> (nat option \<times> nat \<times> nat) option" where
  "FIND_SUITABLE_BLOCK st fl sl = do {
     w \<leftarrow> rd (sl_bitmap st) fl;
     let tmp = w AND push_bit sl (NOT 0);
     if tmp \<noteq> 0 then do {
       let s = nat (ls_bit tmp);
       b \<leftarrow> get_class fl s st;
       Some (b, fl, s) }
     else do {
       let f = ls_bit (fl_bitmap st AND push_bit (fl + 1) (NOT 0));
       if f > 0 then do {
         w' \<leftarrow> rd (sl_bitmap st) (nat f);
         let s = ls_bit w';
         _ \<leftarrow> guard_c (0 \<le> s);
         b \<leftarrow> get_class (nat f) (nat s) st;
         Some (b, nat f, nat s) }
       else Some (None, fl, sl) } }"

text \<open>The second level of a class and, when nothing is left of its first level, the first level.\<close>

definition clear_class_bits :: "nat \<Rightarrow> nat \<Rightarrow> tlsf_t \<Rightarrow> tlsf_t option" where
  "clear_class_bits fl sl st = do {
     w \<leftarrow> rd (sl_bitmap st) fl;
     l \<leftarrow> wr (sl_bitmap st) fl (tlsf_clear_bit sl w);
     let st1 = st\<lparr>sl_bitmap := l\<rparr>;
     Some (if tlsf_clear_bit sl w = 0 then st1\<lparr>fl_bitmap := tlsf_clear_bit fl (fl_bitmap st1)\<rparr> else st1) }"

definition clear_links :: "nat \<Rightarrow> tlsf_t \<Rightarrow> tlsf_t option" where
  "clear_links b = upd_h b (\<lambda>h. h\<lparr>fr_prev := None, fr_next := None\<rparr>)"

definition EXTRACT_BLOCK_HDR :: "nat \<Rightarrow> nat \<Rightarrow> nat \<Rightarrow> tlsf_t \<Rightarrow> tlsf_t option" where
  "EXTRACT_BLOCK_HDR b fl sl st = do {
     h \<leftarrow> bhdrs st b;
     st1 \<leftarrow> set_class fl sl (fr_next h) st;
     st2 \<leftarrow> (case fr_next h of
         Some n \<Rightarrow> upd_h n (\<lambda>x. x\<lparr>fr_prev := None\<rparr>) st1
       | None \<Rightarrow> clear_class_bits fl sl st1);
     clear_links b st2 }"

definition EXTRACT_BLOCK :: "nat \<Rightarrow> nat \<Rightarrow> nat \<Rightarrow> tlsf_t \<Rightarrow> tlsf_t option" where
  "EXTRACT_BLOCK b fl sl st = do {
     h \<leftarrow> bhdrs st b;
     st1 \<leftarrow> upd_h_if (fr_next h) (\<lambda>x. x\<lparr>fr_prev := fr_prev h\<rparr>) st;
     h1 \<leftarrow> bhdrs st1 b;
     st2 \<leftarrow> upd_h_if (fr_prev h1) (\<lambda>x. x\<lparr>fr_next := fr_next h1\<rparr>) st1;
     h2 \<leftarrow> bhdrs st2 b;
     p \<leftarrow> get_class fl sl st2;
     st3 \<leftarrow> (if p = Some b then do {
         st' \<leftarrow> set_class fl sl (fr_next h2) st2;
         if fr_next h2 = None then clear_class_bits fl sl st' else Some st' }
       else Some st2);
     clear_links b st3 }"

definition INSERT_BLOCK :: "nat \<Rightarrow> nat \<Rightarrow> nat \<Rightarrow> tlsf_t \<Rightarrow> tlsf_t option" where
  "INSERT_BLOCK b fl sl st = do {
     p \<leftarrow> get_class fl sl st;
     st1 \<leftarrow> upd_h b (\<lambda>h. h\<lparr>fr_prev := None, fr_next := p\<rparr>) st;
     st2 \<leftarrow> upd_h_if p (\<lambda>x. x\<lparr>fr_prev := Some b\<rparr>) st1;
     st3 \<leftarrow> set_class fl sl (Some b) st2;
     w \<leftarrow> rd (sl_bitmap st3) fl;
     l \<leftarrow> wr (sl_bitmap st3) fl (tlsf_set_bit sl w);
     Some (st3\<lparr>sl_bitmap := l, fl_bitmap := tlsf_set_bit fl (fl_bitmap st3)\<rparr>) }"

text \<open>A block enters, or leaves, the list of the class of its size.\<close>

definition insert_sized :: "nat \<Rightarrow> u32 \<Rightarrow> tlsf_t \<Rightarrow> tlsf_t option" where
  "insert_sized b n st = do { (fl, sl) \<leftarrow> MAPPING_INSERT n; INSERT_BLOCK b fl sl st }"

definition extract_sized :: "nat \<Rightarrow> u32 \<Rightarrow> tlsf_t \<Rightarrow> tlsf_t option" where
  "extract_sized b n st = do { (fl, sl) \<leftarrow> MAPPING_INSERT n; EXTRACT_BLOCK b fl sl st }"

section \<open>The operations\<close>

definition round_request :: "u32 \<Rightarrow> u32" where
  "round_request n = (if n < MIN_BLOCK_SIZE then MIN_BLOCK_SIZE else ROUNDUP_SIZE n)"

definition add_used :: "u32 \<Rightarrow> tlsf_t \<Rightarrow> tlsf_t" where
  "add_used n st = st\<lparr>used_size := used_size st + n\<rparr>"

definition sub_used :: "u32 \<Rightarrow> tlsf_t \<Rightarrow> tlsf_t" where
  "sub_used n st = st\<lparr>used_size := used_size st - n\<rparr>"

text \<open>The size of the header of a block that comes into being: what else lies there stays.\<close>

definition new_free :: "nat \<Rightarrow> u32 \<Rightarrow> tlsf_t \<Rightarrow> tlsf_t" where
  "new_free b2 n st = st\<lparr>bhdrs := (bhdrs st)(b2 \<mapsto> (case bhdrs st b2 of
       None \<Rightarrow> \<lparr>prev_hdr = None, bh_size = n OR FREE_BLOCK, fr_prev = None, fr_next = None\<rparr>
     | Some h \<Rightarrow> h\<lparr>bh_size := n OR FREE_BLOCK\<rparr>))\<rparr>"

text \<open>The rest of a block, tmp bytes with its header, becomes a free block behind the n bytes that stay in b;
  f is what is noted in the header of the block behind it.\<close>

definition carve :: "nat \<Rightarrow> u32 \<Rightarrow> u32 \<Rightarrow> nat \<Rightarrow> (bhdr_t \<Rightarrow> bhdr_t) \<Rightarrow> tlsf_t \<Rightarrow> tlsf_t option" where
  "carve b n tmp next_b f st = do {
     let tmp' = tmp - BHDR_OVERHEAD;
     let b2 = GET_NEXT_BLOCK b n;
     st1 \<leftarrow> upd_h next_b f (new_free b2 tmp' st);
     st2 \<leftarrow> insert_sized b2 tmp' st1;
     upd_h b (\<lambda>x. x\<lparr>bh_size := n OR (bh_size x AND PREV_STATE)\<rparr>) st2 }"

text \<open>What malloc_ex does with the block it found, once that is out of the index.\<close>

definition take_block :: "nat \<Rightarrow> u32 \<Rightarrow> tlsf_t \<Rightarrow> tlsf_t option" where
  "take_block b n st1 = do {
     h \<leftarrow> bhdrs st1 b;
     let next_b = GET_NEXT_BLOCK b (block_bytes h);
     let tmp = block_bytes h - n;
     (if tmp \<ge> BHDR_SIZE then carve b n tmp next_b (\<lambda>x. x\<lparr>prev_hdr := Some (GET_NEXT_BLOCK b n)\<rparr>) st1
      else do {
        st2 \<leftarrow> upd_h next_b (\<lambda>x. x\<lparr>bh_size := bh_size x AND NOT PREV_FREE\<rparr>) st1;
        upd_h b (\<lambda>x. x\<lparr>bh_size := bh_size x AND NOT FREE_BLOCK\<rparr>) st2 }) }"

definition count_used :: "nat \<Rightarrow> tlsf_t \<Rightarrow> tlsf_t option" where
  "count_used b st = do { h \<leftarrow> bhdrs st b; Some (add_used (block_bytes h + BHDR_OVERHEAD) st) }"

definition malloc_ex :: "u32 \<Rightarrow> tlsf_t \<Rightarrow> (nat option \<times> tlsf_t) option" where
  "malloc_ex req st = do {
     (n, fl, sl) \<leftarrow> MAPPING_SEARCH (round_request req);
     (found, fl, sl) \<leftarrow> FIND_SUITABLE_BLOCK st fl sl;
     (case found of
        None \<Rightarrow> Some (None, st)
      | Some b \<Rightarrow> do {
          st1 \<leftarrow> EXTRACT_BLOCK_HDR b fl sl st;
          st2 \<leftarrow> take_block b n st1;
          st3 \<leftarrow> count_used b st2;
          Some (Some (b + 8), st3) }) }"

text \<open>The block behind b and the block before it are merged with b when they are free.\<close>

definition free_merge_next :: "nat \<Rightarrow> tlsf_t \<Rightarrow> tlsf_t option" where
  "free_merge_next b st = do {
     h \<leftarrow> bhdrs st b;
     let tmp_b = GET_NEXT_BLOCK b (block_bytes h);
     x \<leftarrow> bhdrs st tmp_b;
     if bh_size x AND FREE_BLOCK \<noteq> 0 then do {
       st1 \<leftarrow> extract_sized tmp_b (block_bytes x) st;
       upd_h b (\<lambda>y. y\<lparr>bh_size := bh_size y + (block_bytes x + BHDR_OVERHEAD)\<rparr>) st1 }
     else Some st }"

definition free_merge_prev :: "nat \<Rightarrow> tlsf_t \<Rightarrow> (nat \<times> tlsf_t) option" where
  "free_merge_prev b st = do {
     h \<leftarrow> bhdrs st b;
     if bh_size h AND PREV_FREE \<noteq> 0 then do {
       tmp_b \<leftarrow> deref (prev_hdr h);
       x \<leftarrow> bhdrs st tmp_b;
       st1 \<leftarrow> extract_sized tmp_b (block_bytes x) st;
       st2 \<leftarrow> upd_h tmp_b (\<lambda>y. y\<lparr>bh_size := bh_size y + (block_bytes h + BHDR_OVERHEAD)\<rparr>) st1;
       Some (tmp_b, st2) }
     else Some (b, st) }"

definition enter_free :: "nat \<Rightarrow> tlsf_t \<Rightarrow> tlsf_t option" where
  "enter_free b st4 = do {
     h \<leftarrow> bhdrs st4 b;
     st5 \<leftarrow> insert_sized b (block_bytes h) st4;
     upd_h (GET_NEXT_BLOCK b (block_bytes h))
       (\<lambda>x. x\<lparr>bh_size := bh_size x OR PREV_FREE, prev_hdr := Some b\<rparr>) st5 }"

definition free_ex :: "nat option \<Rightarrow> tlsf_t \<Rightarrow> tlsf_t option" where
  "free_ex ptr st = (case ptr of None \<Rightarrow> Some st
     | Some p \<Rightarrow> do {
         _ \<leftarrow> guard_c (8 \<le> p);
         let b = p - 8;
         st1 \<leftarrow> upd_h b (\<lambda>h. h\<lparr>bh_size := bh_size h OR FREE_BLOCK\<rparr>) st;
         h \<leftarrow> bhdrs st1 b;
         st2 \<leftarrow> clear_links b (sub_used (block_bytes h + BHDR_OVERHEAD) st1);
         st3 \<leftarrow> free_merge_next b st2;
         (b, st4) \<leftarrow> free_merge_prev b st3;
         enter_free b st4 })"

text \<open>The tail of realloc_ex in place: what b has over n bytes becomes a free block before next_b.\<close>

definition realloc_split :: "nat \<Rightarrow> u32 \<Rightarrow> u32 \<Rightarrow> nat \<Rightarrow> tlsf_t \<Rightarrow> tlsf_t option" where
  "realloc_split b n tmp next_b st =
    (if tmp \<ge> BHDR_SIZE
     then carve b n tmp next_b (\<lambda>x. x\<lparr>prev_hdr := Some (GET_NEXT_BLOCK b n), bh_size := bh_size x OR PREV_FREE\<rparr>) st
     else Some st)"

definition realloc_shrink :: "nat \<Rightarrow> u32 \<Rightarrow> tlsf_t \<Rightarrow> tlsf_t option" where
  "realloc_shrink b n st = do {
     h \<leftarrow> bhdrs st b;
     let next_b = GET_NEXT_BLOCK b (block_bytes h);
     let st1 = sub_used (block_bytes h + BHDR_OVERHEAD) st;
     x \<leftarrow> bhdrs st1 next_b;
     (tmp, next_b, st2) \<leftarrow> (if bh_size x AND FREE_BLOCK \<noteq> 0 then do {
         st' \<leftarrow> extract_sized next_b (block_bytes x) st1;
         Some (block_bytes h + (block_bytes x + BHDR_OVERHEAD), GET_NEXT_BLOCK next_b (block_bytes x), st') }
       else Some (block_bytes h, next_b, st1));
     st3 \<leftarrow> realloc_split b n (tmp - n) next_b st2;
     count_used b st3 }"

definition realloc_grow :: "nat \<Rightarrow> u32 \<Rightarrow> tlsf_t \<Rightarrow> tlsf_t option" where
  "realloc_grow b n st = do {
     h \<leftarrow> bhdrs st b;
     let next_b = GET_NEXT_BLOCK b (block_bytes h);
     x \<leftarrow> bhdrs st next_b;
     st1 \<leftarrow> extract_sized next_b (block_bytes x) (sub_used (block_bytes h + BHDR_OVERHEAD) st);
     st2 \<leftarrow> upd_h b (\<lambda>y. y\<lparr>bh_size := bh_size y + (block_bytes x + BHDR_OVERHEAD)\<rparr>) st1;
     h' \<leftarrow> bhdrs st2 b;
     let next_b = GET_NEXT_BLOCK b (block_bytes h');
     st3 \<leftarrow> upd_h next_b (\<lambda>y. y\<lparr>prev_hdr := Some b, bh_size := bh_size y AND NOT PREV_FREE\<rparr>) st2;
     st4 \<leftarrow> realloc_split b n (block_bytes h' - n) next_b st3;
     count_used b st4 }"

text \<open>The copy of the bytes faults when the allocation has failed; the bytes are not part of the state.\<close>

definition realloc_move :: "nat \<Rightarrow> u32 \<Rightarrow> tlsf_t \<Rightarrow> (nat option \<times> tlsf_t) option" where
  "realloc_move p n st = do {
     (q, st1) \<leftarrow> malloc_ex n st;
     _ \<leftarrow> deref q;
     st2 \<leftarrow> free_ex (Some p) st1;
     Some (q, st2) }"

definition realloc_ex :: "nat option \<Rightarrow> u32 \<Rightarrow> tlsf_t \<Rightarrow> (nat option \<times> tlsf_t) option" where
  "realloc_ex ptr req st = (case ptr of
     None \<Rightarrow> (if req \<noteq> 0 then malloc_ex req st else Some (None, st))
   | Some p \<Rightarrow>
       (if req = 0 then do { st' \<leftarrow> free_ex (Some p) st; Some (None, st') }
        else do {
          _ \<leftarrow> guard_c (8 \<le> p);
          let b = p - 8;
          h \<leftarrow> bhdrs st b;
          let n = round_request req;
          if n \<le> block_bytes h then do { st' \<leftarrow> realloc_shrink b n st; Some (Some p, st') }
          else do {
            x \<leftarrow> bhdrs st (GET_NEXT_BLOCK b (block_bytes h));
            if bh_size x AND FREE_BLOCK \<noteq> 0 \<and> n \<le> block_bytes h + block_bytes x
            then do { st' \<leftarrow> realloc_grow b n st; Some (Some p, st') }
            else realloc_move p n st } }))"

definition calloc_ex :: "u32 \<Rightarrow> u32 \<Rightarrow> tlsf_t \<Rightarrow> (nat option \<times> tlsf_t) option" where
  "calloc_ex nelem elem_size st =
    (if nelem = 0 \<or> elem_size = 0 then Some (None, st) else malloc_ex (nelem * elem_size) st)"

text \<open>A pool that carries the signature already is taken as it is; the size field read then is at
  TLSF_SIZE + 4 from the start, where the first block, which is aligned, has its prev_hdr.\<close>

definition init_memory_pool :: "u32 \<Rightarrow> nat \<Rightarrow> tlsf_t \<Rightarrow> (u32 \<times> tlsf_t) option" where
  "init_memory_pool size0 mem_pool st =
    (if mem_pool = 0 \<or> size0 = 0 \<or> size0 < TLSF_SIZE + 128 then Some (-1, st)
     else if mem_pool mod 4 \<noteq> 0 then Some (-1, st)
     else if tlsf_signature st = TLSF_SIGNATURE then do {
       h \<leftarrow> bhdrs st (mem_pool + unat (ROUNDUP_SIZE TLSF_SIZE));
       Some ((case prev_hdr h of None \<Rightarrow> 0 | Some a \<Rightarrow> of_nat a) AND TLSF_BLOCK_SIZE, st\<lparr>mp := Some mem_pool\<rparr>) }
     else do {
       let b = mem_pool + unat (ROUNDUP_SIZE TLSF_SIZE);
       let n = ROUNDDOWN_SIZE (size0 - TLSF_SIZE - 2 * BHDR_OVERHEAD) OR FREE_BLOCK;
       let h = \<lparr>prev_hdr = None, bh_size = n, fr_prev = None, fr_next = None\<rparr>;
       let st1 = \<lparr>tlsf_signature = TLSF_SIGNATURE, used_size = 0, fl_bitmap = 0,
           sl_bitmap = replicate REAL_FLI 0, tlsf_matrix = replicate REAL_FLI (replicate MAX_SLI None),
           bhdrs = [b \<mapsto> h], mp = Some mem_pool\<rparr>;
       if n > push_bit MAX_FLI 1 then Some (-1, st1)
       else do {
         st2 \<leftarrow> insert_sized b (block_bytes h) st1;
         let lb = GET_NEXT_BLOCK b (block_bytes h);
         let st3 = st2\<lparr>bhdrs := (bhdrs st2)(lb \<mapsto> \<lparr>prev_hdr = Some b, bh_size = PREV_FREE, fr_prev = None, fr_next = None\<rparr>)\<rparr>;
         Some (block_bytes h, st3\<lparr>used_size := size0 - block_bytes h\<rparr>) } })"

definition get_used_size :: "tlsf_t \<Rightarrow> u32" where
  "get_used_size st = used_size st"

definition destroy_memory_pool :: "tlsf_t \<Rightarrow> tlsf_t" where
  "destroy_memory_pool st = st\<lparr>tlsf_signature := 0\<rparr>"

text \<open>The versions that take the pool from mp.\<close>

definition rtl_malloc :: "u32 \<Rightarrow> tlsf_t \<Rightarrow> (nat option \<times> tlsf_t) option" where
  "rtl_malloc size0 st = do { _ \<leftarrow> deref (mp st); malloc_ex size0 st }"

definition rtl_free :: "nat option \<Rightarrow> tlsf_t \<Rightarrow> tlsf_t option" where
  "rtl_free ptr st = (if ptr = None then Some st else do { _ \<leftarrow> deref (mp st); free_ex ptr st })"

definition rtl_realloc :: "nat option \<Rightarrow> u32 \<Rightarrow> tlsf_t \<Rightarrow> (nat option \<times> tlsf_t) option" where
  "rtl_realloc ptr size0 st =
    (if ptr = None \<and> size0 = 0 then Some (None, st) else do { _ \<leftarrow> deref (mp st); realloc_ex ptr size0 st })"

definition rtl_calloc :: "u32 \<Rightarrow> u32 \<Rightarrow> tlsf_t \<Rightarrow> (nat option \<times> tlsf_t) option" where
  "rtl_calloc nelem elem_size st =
    (if nelem = 0 \<or> elem_size = 0 then Some (None, st) else do { _ \<leftarrow> deref (mp st); calloc_ex nelem elem_size st })"

end
