(* ===== verification/XTlsfMap.thy ===== *)
theory XTlsfMap
  imports XTlsf
begin

unbundle bit_operations_syntax

text \<open>
  The bit scans and the classes of sizes of the allocator (kernel/tlsf.c): the
  table-driven scans are the least and the greatest bit, and every block of a
  class that the search may take is at least as large as the rounded request.
\<close>

section \<open>The bit scans\<close>

definition log_at :: "nat \<Rightarrow> nat \<Rightarrow> bool" where
  "log_at n k \<longleftrightarrow> 2 ^ k \<le> n \<and> n < 2 ^ (k + 1)"

lemma log_at_unique: "log_at n k \<Longrightarrow> log_at n l \<Longrightarrow> k = l"
proof (rule ccontr)
  assume a: "log_at n k" "log_at n l" "k \<noteq> l"
  then consider "k + 1 \<le> l" | "l + 1 \<le> k" by linarith
  then show False
  proof cases
    case 1
    then have "(2 :: nat) ^ (k + 1) \<le> 2 ^ l" by (rule power_increasing) simp
    then show False using a by (simp add: log_at_def)
  next
    case 2
    then have "(2 :: nat) ^ (l + 1) \<le> 2 ^ k" by (rule power_increasing) simp
    then show False using a by (simp add: log_at_def)
  qed
qed

lemma log_at_exists: "0 < n \<Longrightarrow> \<exists>k. log_at n k"
proof (induction n rule: less_induct)
  case (less n)
  show ?case
  proof (cases "n = 1")
    case True
    then show ?thesis by (intro exI [of _ 0]) (simp add: log_at_def)
  next
    case False
    then have "n div 2 < n" "0 < n div 2" using less.prems by auto
    then obtain k where "log_at (n div 2) k" using less.IH by blast
    then show ?thesis by (intro exI [of _ "k + 1"]) (auto simp: log_at_def)
  qed
qed

lemma log_at_shift: "log_at (n div 2 ^ a) k \<Longrightarrow> log_at n (k + a)"
proof -
  assume "log_at (n div 2 ^ a) k"
  then have l: "2 ^ k \<le> n div 2 ^ a" and u: "n div 2 ^ a < 2 ^ (k + 1)" by (auto simp: log_at_def)
  have "2 ^ k * 2 ^ a \<le> n" using l by (metis div_times_less_eq_dividend le_trans mult_le_mono1)
  moreover have "n < 2 ^ (k + 1) * 2 ^ a" using u by (simp add: less_mult_imp_div_less div_less_iff_less_mult)
  ultimately show ?thesis by (simp add: log_at_def power_add ac_simps)
qed

lemma bit_table_log:
  assumes "0 < y" "y < 256"
  shows "\<exists>k. bit_table ! y = int k \<and> log_at y k"
proof -
  consider "y < 2" | "2 \<le> y \<and> y < 4" | "4 \<le> y \<and> y < 8" | "8 \<le> y \<and> y < 16" | "16 \<le> y \<and> y < 32"
    | "32 \<le> y \<and> y < 64" | "64 \<le> y \<and> y < 128" | "128 \<le> y" by linarith
  then have "bit_table ! y = int (if y < 2 then 0 else if y < 4 then 1 else if y < 8 then 2 else if y < 16 then 3
     else if y < 32 then 4 else if y < 64 then 5 else if y < 128 then 6 else 7)"
    by cases (use assms in \<open>simp_all add: bit_table_def nth_append less_diff_conv2\<close>)
  moreover have "log_at y (if y < 2 then 0 else if y < 4 then 1 else if y < 8 then 2 else if y < 16 then 3
     else if y < 32 then 4 else if y < 64 then 5 else if y < 128 then 6 else 7)"
    using assms by (simp add: log_at_def)
  ultimately show ?thesis by blast
qed

lemma table_scan_log: "x \<noteq> 0 \<Longrightarrow> \<exists>k. table_scan x = int k \<and> log_at (unat x) k"
proof -
  assume x: "x \<noteq> 0"
  define a :: nat where "a = (if x \<le> 0xffff then (if x \<le> 0xff then 0 else 8) else (if x \<le> 0xffffff then 16 else 24))"
  have "unat x < 2 ^ 32" using unsigned_less [of x, where 'a = nat] by simp
  then have r: "0 < unat x div 2 ^ a" "unat x div 2 ^ a < 256"
    using x unat_gt_0 [of x] by (auto simp: a_def word_le_nat_alt div_less_iff_less_mult div_greater_zero_iff not_le)
  obtain k where k: "bit_table ! (unat x div 2 ^ a) = int k" "log_at (unat x div 2 ^ a) k"
    using bit_table_log [OF r] by blast
  have d: "unat (drop_bit a x) = unat x div 2 ^ a" unfolding unat_drop_bit_eq by (rule drop_bit_eq_div)
  have "table_scan x = int k + int a" unfolding table_scan_def Let_def a_def [symmetric] d k(1) ..
  then show ?thesis using log_at_shift [OF k(2)] by (intro exI [of _ "k + a"]) simp
qed

lemma table_scan_zero [simp]: "table_scan 0 = -1"
  by (simp add: table_scan_def bit_table_def)

lemma table_scan_bit: "n < 32 \<Longrightarrow> table_scan (push_bit n 1) = int n"
proof -
  assume n: "n < 32"
  have u: "unat (push_bit n (1 :: u32)) = 2 ^ n"
    unfolding unsigned_push_bit_eq using n power_strict_increasing [OF n, of "2 :: nat"]
    by (simp add: take_bit_nat_eq_self)
  then have "push_bit n (1 :: u32) \<noteq> 0" by (metis power_not_zero unsigned_0 zero_neq_numeral)
  then obtain k where "table_scan (push_bit n 1) = int k" "log_at (2 ^ n) k" using table_scan_log u by metis
  moreover have "log_at (2 ^ n) n" by (simp add: log_at_def)
  ultimately show ?thesis using log_at_unique by blast
qed

lemma odd_and_minus: "odd (j :: u32) \<Longrightarrow> j AND - j = 1"
proof -
  assume o: "odd j"
  have "unset_bit 0 j + 1 = unset_bit 0 j OR 1"
    by (rule disjunctive_add) (auto simp: bit_unset_bit_iff bit_1_iff)
  also have "\<dots> = j" using o by (intro bit_word_eqI) (auto simp: bit_or_iff bit_unset_bit_iff bit_1_iff bit_0)
  finally have "j - 1 = unset_bit 0 j" by (metis add_diff_cancel_right')
  then have "- j = NOT (unset_bit 0 j)" by (simp add: minus_eq_not_minus_1)
  then show ?thesis using o
    by (intro bit_word_eqI) (auto simp: bit_and_iff bit_not_iff bit_unset_bit_iff bit_1_iff bit_0)
qed

lemma lowest_and_minus: "lowest_at i n \<Longrightarrow> i AND - i = push_bit n 1"
proof -
  assume l: "lowest_at i n"
  define j where "j = drop_bit n i"
  have "n \<le> m" if "bit i m" for m using l that by (meson lowest_at_def not_less)
  then have i: "i = push_bit n j"
    by (intro bit_word_eqI) (auto simp: j_def bit_push_bit_iff bit_drop_bit_eq)
  have "bit j 0" using l by (simp add: j_def bit_drop_bit_eq lowest_at_def)
  then have "odd j" by (simp add: bit_0)
  moreover have "- i = push_bit n (- j)" by (simp add: i push_bit_minus)
  moreover have "i AND - i = push_bit n (j AND - j)" using i calculation(2) by (metis push_bit_and)
  ultimately show ?thesis using odd_and_minus by simp
qed

lemma ls_bit_lowest: "lowest_at w n \<Longrightarrow> ls_bit w = int n"
  using word32_bit_cases [of w n] lowest_and_minus table_scan_bit by (simp add: ls_bit_def lowest_at_def del: push_bit_of_1)

lemma ls_bit_zero [simp]: "ls_bit 0 = -1"
  by (simp add: ls_bit_def)

lemma ls_bit_eq_bsf: "ls_bit w = bsf_ffs w"
proof (cases "w = 0")
  case False
  then obtain n where n: "lowest_at w n" using lowest_at_exists by blast
  then have "bsf_ffs w = int n" using bsf_ffs_Min [OF False] lowest_at_Min by auto
  then show ?thesis using ls_bit_lowest [OF n] by simp
qed simp

lemma ms_bit_log: "r \<noteq> 0 \<Longrightarrow> \<exists>k. ms_bit r = int k \<and> log_at (unat r) k"
  using table_scan_log by (simp add: ms_bit_def)

lemma ms_bit_eq: "log_at (unat r) k \<Longrightarrow> ms_bit r = int k"
proof -
  assume k: "log_at (unat r) k"
  then have "r \<noteq> 0" by (auto simp: log_at_def)
  then show ?thesis using ms_bit_log log_at_unique k by blast
qed

section \<open>The classes\<close>

text \<open>The sizes of class (f, s) are those from lo f s on, up to the width of the class.\<close>

definition lo :: "nat \<Rightarrow> nat \<Rightarrow> nat" where
  "lo f s = (if f = 0 then 4 * s else 2 ^ (f + 1) * (32 + s))"

definition width :: "nat \<Rightarrow> nat" where
  "width f = (if f = 0 then 4 else 2 ^ (f + 1))"

definition in_class :: "nat \<Rightarrow> nat \<Rightarrow> nat \<Rightarrow> bool" where
  "in_class n f s \<longleftrightarrow> s < 32 \<and> lo f s \<le> n \<and> n < lo f s + width f"

definition class_le :: "nat \<times> nat \<Rightarrow> nat \<times> nat \<Rightarrow> bool" where
  "class_le c d \<longleftrightarrow> fst c < fst d \<or> fst c = fst d \<and> snd c \<le> snd d"

lemma lo_top: "s < 32 \<Longrightarrow> lo f s + width f \<le> 2 ^ (f + 7)"
proof -
  assume s: "s < 32"
  show ?thesis
  proof (cases "f = 0")
    case False
    have "2 ^ (f + 1) * (33 + s) \<le> 2 ^ (f + 1) * (64 :: nat)" using s by simp
    then show ?thesis using False by (simp add: lo_def width_def power_add algebra_simps)
  qed (use s in \<open>simp add: lo_def width_def\<close>)
qed

lemma lo_bottom: "0 < f \<Longrightarrow> 2 ^ (f + 6) \<le> lo f s"
  by (simp add: lo_def power_add)

lemma lo_step: "f < g \<Longrightarrow> s < 32 \<Longrightarrow> lo f s + width f \<le> lo g t"
proof -
  assume a: "f < g" "s < 32"
  have "lo f s + width f \<le> 2 ^ (f + 7)" by (rule lo_top [OF a(2)])
  also have "(2 :: nat) ^ (f + 7) \<le> 2 ^ (g + 6)" using a(1) by (intro power_increasing) auto
  also have "\<dots> \<le> lo g t" using a(1) by (intro lo_bottom) simp
  finally show ?thesis .
qed

lemma lo_step_same: "s < t \<Longrightarrow> lo f s + width f \<le> lo f t"
proof -
  assume "s < t"
  then have "2 ^ (f + 1) * (33 + s) \<le> 2 ^ (f + 1) * (32 + t)" by (intro mult_le_mono2) simp
  then show ?thesis using \<open>s < t\<close> by (simp add: lo_def width_def algebra_simps)
qed

lemma class_le_lo: "class_le (f, s) (g, t) \<Longrightarrow> s < 32 \<Longrightarrow> lo f s \<le> lo g t"
  using lo_step [of f g s t] lo_step_same [of s t f] by (auto simp: class_le_def le_less)

lemma in_class_mono: "in_class m f s \<Longrightarrow> in_class n g t \<Longrightarrow> m \<le> n \<Longrightarrow> class_le (f, s) (g, t)"
  using lo_step [of g f t s] lo_step_same [of t s f] unfolding in_class_def class_le_def by fastforce

lemma in_class_unique: "in_class n f s \<Longrightarrow> in_class n g t \<Longrightarrow> f = g \<and> s = t"
  using in_class_mono [of n f s n g t] in_class_mono [of n g t n f s] by (auto simp: class_le_def)

lemma levels_log:
  assumes "log_at (unat r) k" "7 \<le> k"
  shows "levels r = Some (k - 6, unat r div 2 ^ (k - 5) - 32)" "in_class (unat r) (k - 6) (unat r div 2 ^ (k - 5) - 32)"
proof -
  have d: "unat (drop_bit (k - 5) r) = unat r div 2 ^ (k - 5)" unfolding unat_drop_bit_eq by (rule drop_bit_eq_div)
  show "levels r = Some (k - 6, unat r div 2 ^ (k - 5) - 32)"
    using assms by (simp add: levels_def ms_bit_eq [OF assms(1)] tlsf_consts d)
  let ?c = "2 ^ (k - 5) :: nat"
  have p: "(2 :: nat) ^ k = 32 * ?c" "k - 6 + 1 = k - 5" using assms(2) power_add [of "2 :: nat" "k - 5" 5] by simp_all
  then have r: "32 * ?c \<le> unat r" "unat r < 64 * ?c" using assms(1) by (simp_all add: log_at_def)
  then have q: "32 \<le> unat r div ?c" "unat r div ?c < 64"
    by (simp_all add: div_less_iff_less_mult less_eq_div_iff_mult_less_eq)
  have "unat r mod ?c < ?c" by simp
  then have "?c * (unat r div ?c) \<le> unat r" "unat r < ?c * (unat r div ?c) + ?c"
    using mult_div_mod_eq [of ?c "unat r"] by linarith+
  then show "in_class (unat r) (k - 6) (unat r div ?c - 32)"
    using q p(2) assms(2) by (simp add: in_class_def lo_def width_def)
qed

theorem MAPPING_INSERT_ok:
  assumes "unat r < 2 ^ 30"
  shows "\<exists>f s. MAPPING_INSERT r = Some (f, s) \<and> f < REAL_FLI \<and> s < MAX_SLI \<and> in_class (unat r) f s"
proof (cases "r < SMALL_BLOCK")
  case True
  then have "unat r < 128" by (simp add: SMALL_BLOCK_def word_less_nat_alt)
  then show ?thesis using True by (auto simp: MAPPING_INSERT_def in_class_def lo_def width_def tlsf_consts)
next
  case False
  then have r: "128 \<le> unat r" by (simp add: SMALL_BLOCK_def word_less_nat_alt)
  then obtain k where k: "log_at (unat r) k" using log_at_exists [of "unat r"] by auto
  have "k < 30"
  proof (rule ccontr)
    assume "\<not> k < 30"
    then have "(2 :: nat) ^ 30 \<le> 2 ^ k" by (intro power_increasing) auto
    then show False using k assms by (simp add: log_at_def)
  qed
  moreover have "7 \<le> k"
  proof (rule ccontr)
    assume "\<not> 7 \<le> k"
    then have "(2 :: nat) ^ (k + 1) \<le> 2 ^ 7" by (intro power_increasing) auto
    then show False using k r by (simp add: log_at_def)
  qed
  ultimately show ?thesis using False levels_log [OF k]
    by (auto simp: MAPPING_INSERT_def in_class_def REAL_FLI_def MAX_SLI_def)
qed

lemma clear_low: "unat (r AND NOT (mask n)) = unat (r :: u32) div 2 ^ n * 2 ^ n"
proof -
  have e: "push_bit n (drop_bit n (unat r)) = unat r div 2 ^ n * 2 ^ n" by (simp add: push_bit_eq_mult drop_bit_eq_div)
  have "r AND NOT (mask n) = push_bit n (drop_bit n r)"
    by (intro bit_word_eqI) (auto simp: bit_simps)
  then have "unat (r AND NOT (mask n)) = take_bit 32 (unat r div 2 ^ n * 2 ^ n)"
    by (simp add: unsigned_push_bit_eq unat_drop_bit_eq e)
  moreover have "unat r div 2 ^ n * 2 ^ n < 2 ^ 32"
    using unsigned_less [of r, where 'a = nat] div_times_less_eq_dividend [of "unat r" "2 ^ n"]
    by (simp del: unsigned_less div_times_less_eq_dividend)
  ultimately show ?thesis by (simp add: take_bit_nat_eq_self)
qed

definition MAX_REQUEST :: nat where "MAX_REQUEST = 2 ^ 30 - 2 ^ 24"

text \<open>The search rounds the request up to the least size of the class from which it takes a block.\<close>

lemma MAPPING_SEARCH_ok:
  assumes "unat r \<le> MAX_REQUEST" "4 dvd unat r"
  shows "\<exists>r' f s. MAPPING_SEARCH r = Some (r', f, s) \<and> f < REAL_FLI \<and> s < MAX_SLI \<and>
     unat r \<le> unat r' \<and> unat r' = lo f s \<and> unat r' \<le> unat r + unat r div 32"
proof (cases "r < SMALL_BLOCK")
  case True
  then have "unat r < 128" by (simp add: SMALL_BLOCK_def word_less_nat_alt)
  then show ?thesis using True assms(2)
    by (auto simp: MAPPING_SEARCH_def lo_def tlsf_consts intro!: less_mult_imp_div_less)
next
  case False
  then have r: "128 \<le> unat r" by (simp add: SMALL_BLOCK_def word_less_nat_alt)
  then obtain k where k: "log_at (unat r) k" using log_at_exists [of "unat r"] by auto
  have k7: "7 \<le> k"
  proof (rule ccontr)
    assume "\<not> 7 \<le> k"
    then have "(2 :: nat) ^ (k + 1) \<le> 2 ^ 7" by (intro power_increasing) auto
    then show False using k r by (simp add: log_at_def)
  qed
  have k30: "k < 30"
  proof (rule ccontr)
    assume "\<not> k < 30"
    then have "(2 :: nat) ^ 30 \<le> 2 ^ k" by (intro power_increasing) auto
    then show False using k assms by (simp add: log_at_def MAX_REQUEST_def)
  qed
  let ?c = "2 ^ (k - 5) :: nat"
  have p: "(2 :: nat) ^ k = 32 * ?c" "k - 6 + 1 = k - 5" using k7 power_add [of "2 :: nat" "k - 5" 5] by simp_all
  have R: "32 * ?c \<le> unat r" "unat r < 64 * ?c" using k p by (simp_all add: log_at_def)
  have c: "0 < ?c" "?c \<le> 2 ^ 24" using k30 power_increasing [of "k - 5" 24 "2 :: nat"] by simp_all
  have t: "push_bit (nat (ms_bit r) - MAX_LOG2_SLI) 1 - 1 = (mask (k - 5) :: u32)"
    by (simp add: ms_bit_eq [OF k] tlsf_consts mask_eq_exp_minus_1)
  have ut: "unat (mask (k - 5) :: u32) = ?c - 1"
  proof -
    have "unat (mask (k - 5) :: u32) = mask (k - 5)"
      by (rule bit_eqI) (use k30 in \<open>auto simp: bit_unsigned_iff bit_mask_iff\<close>)
    then show ?thesis by (simp add: mask_eq_exp_minus_1)
  qed
  define r1 where "r1 = r + mask (k - 5)"
  have u1: "unat r1 = unat r + (?c - 1)" "unat r1 < 2 ^ 30"
    using assms(1) c ut by (simp_all add: r1_def unat_word_ariths MAX_REQUEST_def)
  have s: "MAPPING_SEARCH r = do { (fl, sl) \<leftarrow> levels r1; Some (r1 AND NOT (mask (k - 5)), fl, sl) }"
    using False t by (simp add: MAPPING_SEARCH_def r1_def Let_def)
  have up: "unat r \<le> unat (r1 AND NOT (mask (k - 5)))"
  proof -
    have "unat r1 = unat r1 div ?c * ?c + unat r1 mod ?c" by (rule div_mult_mod_eq [symmetric])
    moreover have "unat r1 mod ?c \<le> ?c - 1" using mod_less_divisor [OF c(1), of "unat r1"] by linarith
    ultimately have "unat r \<le> unat r1 div ?c * ?c" using u1(1) c(1) by linarith
    then show ?thesis by (simp only: clear_low)
  qed
  have "?c \<le> unat r div 32" using R(1) by (simp add: less_eq_div_iff_mult_less_eq)
  then have top: "unat (r1 AND NOT (mask (k - 5))) \<le> unat r + unat r div 32"
    using u1(1) div_times_less_eq_dividend [of "unat r1" ?c] unfolding clear_low by linarith
  show ?thesis
  proof (cases "unat r1 < 64 * ?c")
    case True
    have R1: "32 * ?c \<le> unat r1" using R u1(1) by linarith
    then have l: "log_at (unat r1) k" using True p by (simp add: log_at_def)
    have "32 \<le> unat r1 div ?c" using R1 c by (simp add: less_eq_div_iff_mult_less_eq)
    then have "lo (k - 6) (unat r1 div ?c - 32) = unat (r1 AND NOT (mask (k - 5)))"
      using k7 p by (auto simp: lo_def clear_low)
    then show ?thesis using s up top levels_log [OF l k7] k30 by (auto simp: in_class_def REAL_FLI_def MAX_SLI_def)
  next
    case False
    have "unat r1 < 65 * ?c" using R u1(1) by linarith
    then have d: "unat r1 div ?c = 64" using False by (simp add: div_nat_eqI)
    have l: "log_at (unat r1) (k + 1)" using False \<open>unat r1 < 65 * ?c\<close> c(1) p by (simp add: log_at_def)
    have "k + 1 < 30"
    proof (rule ccontr)
      assume "\<not> k + 1 < 30"
      then have "(2 :: nat) ^ 30 \<le> 2 ^ (k + 1)" by (intro power_increasing) auto
      then show False using l u1(2) by (simp add: log_at_def)
    qed
    moreover have "unat r1 div 2 ^ (k + 1 - 5) - 32 = 0"
    proof -
      have "(2 :: nat) ^ (k + 1 - 5) = 2 * ?c" using k7 by (simp add: Suc_diff_le flip: power_Suc)
      then show ?thesis using d by (simp add: div_mult2_eq mult.commute [of 2])
    qed
    moreover have "lo (k + 1 - 6) 0 = unat (r1 AND NOT (mask (k - 5)))"
    proof -
      have "k + 1 - 6 + 1 = (k - 5) + 1" using k7 by simp
      then have "(2 :: nat) ^ (k + 1 - 6 + 1) = 2 * ?c" by simp
      then show ?thesis using k7 d by (simp add: lo_def clear_low)
    qed
    ultimately show ?thesis using s up top levels_log [OF l] k7 by (auto simp: REAL_FLI_def MAX_SLI_def)
  qed
qed

end
