(* ===== verification/XTlsfLists.thy ===== *)
theory XTlsfLists
  imports XTlsfMap FreeLists
begin

unbundle bit_operations_syntax

text \<open>
  The index of free blocks of the allocator (kernel/tlsf.c): the lists of the
  classes hold exactly the free blocks, each in the class of its size, and the
  two levels of bitmaps tell which lists are not empty.  The macros that take a
  block out of the index and put one into it keep that, and the search finds a
  block of the first class that is not empty.
\<close>

section \<open>The two levels of bitmaps\<close>

definition bits_ok :: "nat option list list \<Rightarrow> u32 list \<Rightarrow> u32 \<Rightarrow> bool" where
  "bits_ok M L W \<longleftrightarrow> length M = 24 \<and> length L = 24 \<and> (\<forall>f<24. length (M ! f) = 32) \<and>
     (\<forall>f<24. \<forall>s<32. bit (L ! f) s \<longleftrightarrow> M ! f ! s \<noteq> None) \<and>
     (\<forall>f. bit W f \<longleftrightarrow> f < 24 \<and> L ! f \<noteq> 0)"

lemma bit_set_bit: "n < 32 \<Longrightarrow> bit (tlsf_set_bit n w) m \<longleftrightarrow> m = n \<or> bit w m"
  by (auto simp: tlsf_set_bit_def bit_or_iff bit_one_shift_iff simp del: push_bit_of_1)

lemma bit_clear_bit: "n < 32 \<Longrightarrow> bit (tlsf_clear_bit n w) m \<longleftrightarrow> m \<noteq> n \<and> bit w m"
  using word32_bit_cases [of w m]
  by (auto simp: tlsf_clear_bit_def bit_and_iff bit_not_iff bit_one_shift_iff simp del: push_bit_of_1)

lemma set_bit_nonzero: "n < 32 \<Longrightarrow> tlsf_set_bit n w \<noteq> 0"
  using bit_set_bit [of n w n] word_bit_nonzero by blast

lemma bits_ok_change: "bits_ok M L W \<Longrightarrow> f < 24 \<Longrightarrow> s < 32 \<Longrightarrow> M ! f ! s \<noteq> None \<Longrightarrow>
   bits_ok (M[f := (M ! f)[s := Some b]]) L W"
  by (auto simp: bits_ok_def nth_list_update)

lemma bits_ok_set: "bits_ok M L W \<Longrightarrow> f < 24 \<Longrightarrow> s < 32 \<Longrightarrow>
   bits_ok (M[f := (M ! f)[s := Some b]]) (L[f := tlsf_set_bit s (L ! f)]) (tlsf_set_bit f W)"
  by (auto simp: bits_ok_def nth_list_update bit_set_bit set_bit_nonzero)

lemma bits_ok_clear: "bits_ok M L W \<Longrightarrow> f < 24 \<Longrightarrow> s < 32 \<Longrightarrow>
   bits_ok (M[f := (M ! f)[s := None]]) (L[f := tlsf_clear_bit s (L ! f)])
     (if tlsf_clear_bit s (L ! f) = 0 then tlsf_clear_bit f W else W)"
  by (auto simp: bits_ok_def nth_list_update bit_clear_bit) (auto simp: tlsf_clear_bit_def)

section \<open>The lists of the classes\<close>

definition class_at :: "(nat \<Rightarrow> bhdr_t option) \<Rightarrow> nat \<Rightarrow> nat \<Rightarrow> nat \<Rightarrow> bool" where
  "class_at H b f s \<longleftrightarrow> (\<exists>h. H b = Some h \<and> MAPPING_INSERT (block_bytes h) = Some (f, s))"

definition free_list :: "(nat \<Rightarrow> bhdr_t option) \<Rightarrow> nat option \<Rightarrow> nat list \<Rightarrow> bool" where
  "free_list H p xs \<longleftrightarrow> dlist (\<lambda>a. H a \<bind> fr_next) (\<lambda>a. H a \<bind> fr_prev) p xs"

definition indexed :: "tlsf_t \<Rightarrow> nat set \<Rightarrow> bool" where
  "indexed st F \<longleftrightarrow> bits_ok (tlsf_matrix st) (sl_bitmap st) (fl_bitmap st) \<and>
     (\<forall>f<24. \<forall>s<32. \<exists>xs. free_list (bhdrs st) (tlsf_matrix st ! f ! s) xs \<and> set xs = {b \<in> F. class_at (bhdrs st) b f s}) \<and>
     (\<forall>b\<in>F. \<exists>f s. f < 24 \<and> s < 32 \<and> class_at (bhdrs st) b f s)"

text \<open>A header without its links.\<close>

definition node_rest :: "bhdr_t \<Rightarrow> bhdr_t" where
  "node_rest h = h\<lparr>fr_prev := None, fr_next := None\<rparr>"

definition kept :: "tlsf_t \<Rightarrow> tlsf_t \<Rightarrow> bool" where
  "kept st st' \<longleftrightarrow> (\<forall>a. map_option node_rest (bhdrs st' a) = map_option node_rest (bhdrs st a)) \<and>
     tlsf_signature st' = tlsf_signature st \<and> used_size st' = used_size st \<and> mp st' = mp st"

interpretation bh: list_node fr_next fr_prev "\<lambda>p h. h\<lparr>fr_next := p\<rparr>" "\<lambda>p h. h\<lparr>fr_prev := p\<rparr>" node_rest
  by unfold_locales (simp_all add: node_rest_def)

lemma node_rest_fields [simp]:
  "bh_size (node_rest h) = bh_size h" "prev_hdr (node_rest h) = prev_hdr h"
  "fr_prev (node_rest h) = None" "fr_next (node_rest h) = None" "block_bytes (node_rest h) = block_bytes h"
  by (simp_all add: node_rest_def block_bytes_def)

lemma same_rest:
  assumes "map_option node_rest x = map_option node_rest (Some h)"
  obtains g where "x = Some g" "bh_size g = bh_size h" "prev_hdr g = prev_hdr h" "block_bytes g = block_bytes h"
proof (cases x)
  case (Some g)
  then have "node_rest g = node_rest h" using assms by simp
  from arg_cong [OF this, of bh_size] arg_cong [OF this, of prev_hdr] arg_cong [OF this, of block_bytes]
  show thesis using that [of g] Some by simp
qed (use assms in simp)

lemma class_at_rest: "map_option node_rest (H' b) = map_option node_rest (H b) \<Longrightarrow> class_at H' b f s = class_at H b f s"
  by (cases "H b"; cases "H' b") (auto simp: class_at_def dest: arg_cong [of _ _ block_bytes])

lemma class_at_unique: "class_at H b f s \<Longrightarrow> class_at H b g t \<Longrightarrow> f = g \<and> s = t"
  by (auto simp: class_at_def)

lemma class_at_bound: "indexed st F \<Longrightarrow> b \<in> F \<Longrightarrow> class_at (bhdrs st) b f s \<Longrightarrow> f < 24 \<and> s < 32"
  unfolding indexed_def using class_at_unique by blast

lemma free_list_frame: "free_list H p xs \<Longrightarrow> \<forall>a\<in>set xs. H' a = H a \<Longrightarrow> free_list H' p xs"
  unfolding free_list_def by (erule dlist_frame) auto

lemma indexed_list:
  assumes "indexed st F" "f < 24" "s < 32"
  obtains xs where "free_list (bhdrs st) (tlsf_matrix st ! f ! s) xs" "set xs = {b \<in> F. class_at (bhdrs st) b f s}"
    "\<forall>a\<in>set xs. bhdrs st a \<noteq> None" "distinct xs"
proof -
  obtain xs where x: "free_list (bhdrs st) (tlsf_matrix st ! f ! s) xs" "set xs = {b \<in> F. class_at (bhdrs st) b f s}"
    using assms unfolding indexed_def by blast
  then show thesis using that [of xs] by (auto simp: class_at_def free_list_def dlist_def)
qed

lemma get_class_ok:
  "bits_ok (tlsf_matrix st) L W \<Longrightarrow> f < 24 \<Longrightarrow> s < 32 \<Longrightarrow> get_class f s st = Some (tlsf_matrix st ! f ! s)"
  by (simp add: get_class_def bits_ok_def)

lemma set_class_ok:
  "bits_ok (tlsf_matrix st) L W \<Longrightarrow> f < 24 \<Longrightarrow> s < 32 \<Longrightarrow>
   set_class f s p st = Some (st\<lparr>tlsf_matrix := (tlsf_matrix st)[f := (tlsf_matrix st ! f)[s := p]]\<rparr>)"
  by (simp add: set_class_def bits_ok_def)

lemma clear_class_ok:
  "length (sl_bitmap st) = 24 \<Longrightarrow> f < 24 \<Longrightarrow>
   clear_class_bits f s st = Some (st\<lparr>sl_bitmap := (sl_bitmap st)[f := tlsf_clear_bit s (sl_bitmap st ! f)],
     fl_bitmap := if tlsf_clear_bit s (sl_bitmap st ! f) = 0 then tlsf_clear_bit f (fl_bitmap st) else fl_bitmap st\<rparr>)"
  by (simp add: clear_class_bits_def Let_def)

lemma upd_h_Some: "bhdrs st a = Some h \<Longrightarrow> upd_h a f st = Some (st\<lparr>bhdrs := (bhdrs st)(a \<mapsto> f h)\<rparr>)"
  by (simp add: upd_h_def)

lemma upd_h_if_ok:
  "(\<And>n. p = Some n \<Longrightarrow> bhdrs st n \<noteq> None) \<Longrightarrow> upd_h_if p f st = Some (st\<lparr>bhdrs := upd_at p f (bhdrs st)\<rparr>)"
  by (cases p) (auto simp: upd_h_if_def upd_h_def)

section \<open>Taking a block out\<close>

text \<open>The lists after the list of class (f, s) was replaced: the headers of the other lists are the same.\<close>

lemma indexed_change:
  assumes i: "indexed st F" and fs: "f < 24" "s < 32"
    and xs: "free_list (bhdrs st) (tlsf_matrix st ! f ! s) xs" "set xs = {b \<in> F. class_at (bhdrs st) b f s}"
    and H: "\<And>a. map_option node_rest (bhdrs st' a) = map_option node_rest (bhdrs st a)"
      "\<And>a. a \<in> F \<Longrightarrow> \<not> class_at (bhdrs st) a f s \<Longrightarrow> bhdrs st' a = bhdrs st a"
    and M: "tlsf_matrix st' = (tlsf_matrix st)[f := (tlsf_matrix st ! f)[s := p]]"
      "bits_ok (tlsf_matrix st') (sl_bitmap st') (fl_bitmap st')"
    and l: "free_list (bhdrs st') p ys" "set ys = {b \<in> G. class_at (bhdrs st) b f s}"
    and G: "\<And>a g t. (g, t) \<noteq> (f, s) \<Longrightarrow> class_at (bhdrs st) a g t \<Longrightarrow> a \<in> G \<longleftrightarrow> a \<in> F"
      "\<And>a. a \<in> G \<Longrightarrow> a \<in> F \<or> class_at (bhdrs st) a f s"
  shows "indexed st' G"
proof -
  have c: "class_at (bhdrs st') a g t = class_at (bhdrs st) a g t" for a g t by (rule class_at_rest [OF H(1)])
  have len: "length (tlsf_matrix st) = 24" "length (tlsf_matrix st ! f) = 32" using i fs by (simp_all add: indexed_def bits_ok_def)
  have "\<exists>zs. free_list (bhdrs st') (tlsf_matrix st' ! g ! t) zs \<and> set zs = {b \<in> G. class_at (bhdrs st') b g t}"
    if gt: "g < 24" "t < 32" for g t
  proof (cases "(g, t) = (f, s)")
    case True
    then show ?thesis using l M(1) len fs c by auto
  next
    case False
    obtain zs where z: "free_list (bhdrs st) (tlsf_matrix st ! g ! t) zs" "set zs = {b \<in> F. class_at (bhdrs st) b g t}"
      using indexed_list [OF i gt] by metis
    have "\<forall>a\<in>set zs. bhdrs st' a = bhdrs st a" using z(2) H(2) False class_at_unique by blast
    then have "free_list (bhdrs st') (tlsf_matrix st ! g ! t) zs" by (rule free_list_frame [OF z(1)])
    moreover have "tlsf_matrix st' ! g ! t = tlsf_matrix st ! g ! t"
      using False M(1) len gt by (cases "g = f") auto
    moreover have "set zs = {b \<in> G. class_at (bhdrs st') b g t}" using z(2) c G(1) [OF False] by auto
    ultimately show ?thesis by auto
  qed
  moreover have "\<exists>g t. g < 24 \<and> t < 32 \<and> class_at (bhdrs st') a g t" if "a \<in> G" for a
    using G(2) [OF that] i fs c unfolding indexed_def by blast
  ultimately show ?thesis using M(2) by (simp add: indexed_def)
qed

lemma extract_ok:
  assumes i: "indexed st F" and b: "b \<in> F" "class_at (bhdrs st) b f s"
  shows "\<exists>st'. EXTRACT_BLOCK b f s st = Some st' \<and> indexed st' (F - {b}) \<and> kept st st'"
proof -
  have fs: "f < 24" "s < 32" using class_at_bound [OF i b] by auto
  have ok: "bits_ok (tlsf_matrix st) (sl_bitmap st) (fl_bitmap st)" using i by (simp add: indexed_def)
  let ?M = "tlsf_matrix st" and ?p = "tlsf_matrix st ! f ! s" and ?H = "bhdrs st"
  obtain xs where x: "free_list ?H ?p xs" "set xs = {b \<in> F. class_at ?H b f s}" "\<forall>a\<in>set xs. ?H a \<noteq> None" "distinct xs"
    by (rule indexed_list [OF i fs])
  then obtain us vs where xs: "xs = us @ b # vs" using b by (metis (no_types, lifting) mem_Collect_eq split_list)
  obtain h where h: "?H b = Some h" using b by (auto simp: class_at_def)
  let ?H1 = "upd_at (fr_next h) (\<lambda>x. x\<lparr>fr_prev := fr_prev h\<rparr>) ?H"
  define H' where "H' = upd_at (fr_prev h) (\<lambda>x. x\<lparr>fr_next := fr_next h\<rparr>) ?H1"
  note u = bh.unlink_store [OF x(1) [unfolded free_list_def xs] x(3) [unfolded xs] h H'_def]
  define H2 where "H2 = H'(b \<mapsto> node_rest h)"
  define L where "L = (if us = [] \<and> vs = [] then (sl_bitmap st)[f := tlsf_clear_bit s (sl_bitmap st ! f)] else sl_bitmap st)"
  define W where "W = (if us = [] \<and> vs = [] \<and> L ! f = 0 then tlsf_clear_bit f (fl_bitmap st) else fl_bitmap st)"
  let ?q = "if us = [] then fr_next h else ?p"
  let ?st = "st\<lparr>bhdrs := H2, tlsf_matrix := ?M[f := (?M ! f)[s := ?q]], sl_bitmap := L, fl_bitmap := W\<rparr>"
  have len: "length (sl_bitmap st) = 24" using ok by (simp add: bits_ok_def)
  have b1: "?H1 b = Some h" "H' b = Some h" using h u(6,7) by (simp_all add: H'_def upd_at_apply)
  have e: "EXTRACT_BLOCK b f s st = Some ?st"
  proof -
    have "upd_h_if (fr_next h) (\<lambda>x. x\<lparr>fr_prev := fr_prev h\<rparr>) st = Some (st\<lparr>bhdrs := ?H1\<rparr>)"
      by (rule upd_h_if_ok) (rule u(8))
    moreover have "upd_h_if (fr_prev h) (\<lambda>x. x\<lparr>fr_next := fr_next h\<rparr>) (st\<lparr>bhdrs := ?H1\<rparr>) = Some (st\<lparr>bhdrs := H'\<rparr>)"
      using upd_h_if_ok [of "fr_prev h" "st\<lparr>bhdrs := ?H1\<rparr>"] u(9) by (simp add: upd_at_dom H'_def)
    ultimately have "EXTRACT_BLOCK b f s st = do {
        st3 \<leftarrow> (if us = [] then do { st' \<leftarrow> set_class f s (fr_next h) (st\<lparr>bhdrs := H'\<rparr>);
            if fr_next h = None then clear_class_bits f s st' else Some st' } else Some (st\<lparr>bhdrs := H'\<rparr>));
        clear_links b st3 }"
      using h b1 u(4) get_class_ok [of "st\<lparr>bhdrs := H'\<rparr>", OF _ fs] ok by (simp add: EXTRACT_BLOCK_def)
    also have "\<dots> = Some ?st"
    proof (cases "us = []")
      case True
      then show ?thesis using u(5) set_class_ok [of "st\<lparr>bhdrs := H'\<rparr>", OF _ fs] ok len fs b1
        by (cases "vs = []") (auto simp: clear_class_ok clear_links_def upd_h_Some H2_def node_rest_def L_def W_def)
    next
      case False
      moreover have "?M[f := (?M ! f)[s := ?p]] = ?M" by simp
      ultimately show ?thesis using b1 by (simp add: clear_links_def upd_h_Some H2_def node_rest_def L_def W_def)
    qed
    finally show ?thesis .
  qed
  have "bits_ok (?M[f := (?M ! f)[s := ?q]]) L W"
  proof -
    have "?p \<noteq> None" if "us = []" using u(4) that by simp
    then show ?thesis
      using bits_ok_clear [OF ok fs] bits_ok_change [OF ok fs] ok u(5) fs len
      by (cases "us = []"; cases "fr_next h") (auto simp: L_def W_def)
  qed
  moreover have r: "map_option node_rest (H2 a) = map_option node_rest (?H a)" for a
    using u(2) [of a] h by (simp add: H2_def node_rest_def)
  moreover have "free_list H2 ?q (us @ vs)"
  proof (rule free_list_frame)
    show "free_list H' ?q (us @ vs)" using u(1) by (simp only: free_list_def)
    show "\<forall>a\<in>set (us @ vs). H2 a = H' a" using x(4) xs by (auto simp: H2_def)
  qed
  moreover have "set (us @ vs) = {a \<in> F - {b}. class_at ?H a f s}" using x(2,4) xs by auto
  moreover have "H2 a = ?H a" if "a \<in> F" "\<not> class_at ?H a f s" for a
    using u(3) [of a] that x(2) xs b(2) by (auto simp: H2_def)
  ultimately have "indexed ?st (F - {b})"
    using b(2) class_at_unique by (intro indexed_change [OF i fs x(1,2), where p = ?q and ys = "us @ vs"]) auto
  then show ?thesis using e r by (auto simp: kept_def)
qed

text \<open>The block at the head of its list has no predecessor, so the macro for the head does the same.\<close>

lemma extract_head_ok:
  assumes i: "indexed st F" and fs: "f < 24" "s < 32" and p: "tlsf_matrix st ! f ! s = Some b"
  shows "b \<in> F \<and> class_at (bhdrs st) b f s \<and>
     (\<exists>st'. EXTRACT_BLOCK_HDR b f s st = Some st' \<and> indexed st' (F - {b}) \<and> kept st st')"
proof -
  let ?H = "bhdrs st"
  have ok: "bits_ok (tlsf_matrix st) (sl_bitmap st) (fl_bitmap st)" using i by (simp add: indexed_def)
  obtain xs where x: "free_list ?H (Some b) xs" "set xs = {b \<in> F. class_at ?H b f s}" "\<forall>a\<in>set xs. ?H a \<noteq> None" "distinct xs"
    using indexed_list [OF i fs] p by metis
  obtain vs where xs: "xs = [] @ b # vs" using dlist_head [OF x(1) [unfolded free_list_def]] by (cases xs) auto
  then have b: "b \<in> F" "class_at ?H b f s" using x(2) by auto
  obtain h where h: "?H b = Some h" using b by (auto simp: class_at_def)
  note u = bh.unlink_store [OF x(1) [unfolded free_list_def xs] x(3) [unfolded xs] h refl]
  have pr: "fr_prev h = None" using u(10) by simp
  have nb: "fr_next h \<noteq> Some b" by (rule u(6))
  have len: "length (sl_bitmap st) = 24" using ok by (simp add: bits_ok_def)
  have "EXTRACT_BLOCK_HDR b f s st = EXTRACT_BLOCK b f s st"
  proof (cases "fr_next h")
    case None
    then show ?thesis using h pr p ok fs len
      by (simp add: EXTRACT_BLOCK_HDR_def EXTRACT_BLOCK_def upd_h_if_def get_class_ok set_class_ok)
  next
    case (Some n)
    then obtain c where c: "?H n = Some c" "n \<noteq> b" using u(8) nb by auto
    then show ?thesis
      using h pr p fs Some set_class_ok [OF ok fs] get_class_ok [of "st\<lparr>bhdrs := x\<rparr>" for x, OF _ fs] ok
        set_class_ok [of "st\<lparr>bhdrs := x\<rparr>" for x, OF _ fs]
      by (simp add: EXTRACT_BLOCK_HDR_def EXTRACT_BLOCK_def upd_h_if_def upd_h_def clear_links_def)
  qed
  then show ?thesis using extract_ok [OF i b] b by simp
qed

section \<open>Putting a block in\<close>

lemma insert_ok:
  assumes i: "indexed st F" and b: "b \<notin> F" "class_at (bhdrs st) b f s" and fs: "f < 24" "s < 32"
  shows "\<exists>st'. INSERT_BLOCK b f s st = Some st' \<and> indexed st' (insert b F) \<and> kept st st'"
proof -
  let ?M = "tlsf_matrix st" and ?p = "tlsf_matrix st ! f ! s" and ?H = "bhdrs st"
  have ok: "bits_ok ?M (sl_bitmap st) (fl_bitmap st)" using i by (simp add: indexed_def)
  have len: "length (sl_bitmap st) = 24" using ok by (simp add: bits_ok_def)
  obtain xs where x: "free_list ?H ?p xs" "set xs = {b \<in> F. class_at ?H b f s}" "\<forall>a\<in>set xs. ?H a \<noteq> None" "distinct xs"
    by (rule indexed_list [OF i fs])
  obtain h where h: "?H b = Some h" using b by (auto simp: class_at_def)
  let ?h = "h\<lparr>fr_prev := None, fr_next := ?p\<rparr>"
  define H1 where "H1 = ?H(b \<mapsto> ?h)"
  define H2 where "H2 = upd_at ?p (\<lambda>x. x\<lparr>fr_prev := Some b\<rparr>) H1"
  have bx: "b \<notin> set xs" using b x(2) by auto
  have f1: "free_list H1 ?p xs" by (rule free_list_frame [OF x(1)]) (use bx in \<open>auto simp: H1_def\<close>)
  have e1: "\<forall>a\<in>set xs. H1 a \<noteq> None" using x(3) by (simp add: H1_def)
  note l = bh.link_store [OF f1 [unfolded free_list_def] e1 bx, of ?h H2, OF _ _ _ H2_def]
  have b1: "H1 b = Some ?h" by (simp add: H1_def)
  let ?L = "(sl_bitmap st)[f := tlsf_set_bit s (sl_bitmap st ! f)]"
  let ?st = "st\<lparr>bhdrs := H2, tlsf_matrix := ?M[f := (?M ! f)[s := Some b]], sl_bitmap := ?L,
      fl_bitmap := tlsf_set_bit f (fl_bitmap st)\<rparr>"
  have e: "INSERT_BLOCK b f s st = Some ?st"
  proof -
    have "upd_h b (\<lambda>h. h\<lparr>fr_prev := None, fr_next := ?p\<rparr>) st = Some (st\<lparr>bhdrs := H1\<rparr>)"
      using h by (simp add: upd_h_def H1_def)
    moreover have "upd_h_if ?p (\<lambda>x. x\<lparr>fr_prev := Some b\<rparr>) (st\<lparr>bhdrs := H1\<rparr>) = Some (st\<lparr>bhdrs := H2\<rparr>)"
      using upd_h_if_ok [of ?p "st\<lparr>bhdrs := H1\<rparr>"] l(4) b1 by (simp add: H2_def)
    ultimately show ?thesis
      using get_class_ok [OF ok fs] set_class_ok [of "st\<lparr>bhdrs := H2\<rparr>", OF _ fs] ok len fs
      by (simp add: INSERT_BLOCK_def)
  qed
  have r: "map_option node_rest (H2 a) = map_option node_rest (?H a)" for a
    using l(2) [of a] b1 h by (auto simp: H1_def node_rest_def)
  moreover have "H2 a = ?H a" if "a \<in> F" "\<not> class_at ?H a f s" for a
    using l(3) [of a] b1 that x(2) b(1) by (auto simp: H1_def)
  moreover have "free_list H2 (Some b) (b # xs)" using l(1) b1 by (simp add: free_list_def)
  moreover have "set (b # xs) = {a \<in> insert b F. class_at ?H a f s}" using x(2) b by auto
  moreover have "bits_ok (?M[f := (?M ! f)[s := Some b]]) ?L (tlsf_set_bit f (fl_bitmap st))" by (rule bits_ok_set [OF ok fs])
  ultimately have "indexed ?st (insert b F)"
    using b(2) class_at_unique by (intro indexed_change [OF i fs x(1,2), where p = "Some b" and ys = "b # xs"]) auto
  then show ?thesis using e r by (auto simp: kept_def)
qed

section \<open>The search\<close>

lemma indexed_nonempty:
  assumes "indexed st F" "f < 24" "s < 32"
  shows "tlsf_matrix st ! f ! s \<noteq> None \<longleftrightarrow> (\<exists>b\<in>F. class_at (bhdrs st) b f s)"
proof -
  obtain xs where "free_list (bhdrs st) (tlsf_matrix st ! f ! s) xs" "set xs = {b \<in> F. class_at (bhdrs st) b f s}"
    using indexed_list [OF assms] by metis
  moreover from this have "tlsf_matrix st ! f ! s = None \<longleftrightarrow> xs = []"
    using dlist_head [of _ _ "tlsf_matrix st ! f ! s" xs] by (auto simp: free_list_def)
  ultimately show ?thesis by (cases xs) auto
qed

lemma bit_from: "bit (w AND push_bit n (NOT 0) :: u32) m \<longleftrightarrow> bit w m \<and> n \<le> m"
  using word32_bit_cases [of w m] by (auto simp: bit_and_iff bit_not_iff bit_mask_iff)

lemma lowest_from:
  assumes "w AND push_bit n (NOT 0) \<noteq> (0 :: u32)"
  obtains m where "ls_bit (w AND push_bit n (NOT 0)) = int m" "n \<le> m" "m < 32" "bit w m" 
proof -
  obtain m where m: "m < 32" "lowest_at (w AND push_bit n (NOT 0)) m" using lowest_at_exists [OF assms] by blast
  then have "bit w m \<and> n \<le> m" using bit_from [of w n m] by (simp add: lowest_at_def)
  then show thesis using that [of m] m ls_bit_lowest by blast
qed

lemma find_ok:
  assumes i: "indexed st F" and fs: "fl < 24" "sl < 32"
  shows "\<exists>r f s. FIND_SUITABLE_BLOCK st fl sl = Some (r, f, s) \<and>
     (case r of
        None \<Rightarrow> \<forall>b\<in>F. \<forall>g t. class_at (bhdrs st) b g t \<longrightarrow> \<not> class_le (fl, sl) (g, t)
      | Some b \<Rightarrow> f < 24 \<and> s < 32 \<and> tlsf_matrix st ! f ! s = Some b \<and> class_le (fl, sl) (f, s))"
proof -
  have ok: "bits_ok (tlsf_matrix st) (sl_bitmap st) (fl_bitmap st)" using i by (simp add: indexed_def)
  let ?L = "sl_bitmap st" and ?W = "fl_bitmap st"
  have len: "length ?L = 24" using ok by (simp add: bits_ok_def)
  have bit_sl: "bit (?L ! f) s \<longleftrightarrow> (\<exists>b\<in>F. class_at (bhdrs st) b f s)" if "f < 24" "s < 32" for f s
    using ok indexed_nonempty [OF i that] that by (simp add: bits_ok_def)
  have bit_fl: "bit ?W f \<longleftrightarrow> f < 24 \<and> ?L ! f \<noteq> 0" for f using ok by (simp add: bits_ok_def)
  have head: "\<exists>b. tlsf_matrix st ! f ! s = Some b" if "f < 24" "bit (?L ! f) s" "s < 32" for f s
    using bit_sl [of f s] indexed_nonempty [OF i that(1,3)] that by auto
  let ?tmp = "?L ! fl AND push_bit sl (NOT 0)" and ?up = "?W AND push_bit (fl + 1) (NOT 0)"
  show ?thesis
  proof (cases "?tmp = 0")
    case False
    then obtain s where s: "ls_bit ?tmp = int s" "sl \<le> s" "s < 32" "bit (?L ! fl) s" by (rule lowest_from)
    then obtain b where "tlsf_matrix st ! fl ! s = Some b" using head fs(1) by blast
    then show ?thesis using False s fs get_class_ok [OF ok] len
      by (simp add: FIND_SUITABLE_BLOCK_def Let_def class_le_def)
  next
    case none: True
    have low: "\<not> class_at (bhdrs st) b fl t" if "b \<in> F" "sl \<le> t" for b t
    proof
      assume c: "class_at (bhdrs st) b fl t"
      then have "t < 32" using class_at_bound [OF i that(1)] by blast
      then have "bit (?L ! fl) t" using bit_sl [OF fs(1)] c that(1) by blast
      then have "bit ?tmp t" using that(2) bit_from by blast
      then show False using none by simp
    qed
    show ?thesis
    proof (cases "?up = 0")
      case True
      have "\<not> class_le (fl, sl) (g, t)" if c: "b \<in> F" "class_at (bhdrs st) b g t" for b g t
      proof
        assume "class_le (fl, sl) (g, t)"
        then have "fl < g" using low [of b t] c by (auto simp: class_le_def)
        have g: "g < 24" "t < 32" using class_at_bound [OF i c] by auto
        then have "bit (?L ! g) t" using bit_sl c by blast
        then have "bit ?W g" using bit_fl g(1) word_bit_nonzero by blast
        then have "bit ?up g" using \<open>fl < g\<close> by (simp only: bit_from) simp
        then show False using True by simp
      qed
      then show ?thesis using none True fs len
        by (simp add: FIND_SUITABLE_BLOCK_def Let_def)
    next
      case False
      then obtain f where f: "ls_bit ?up = int f" "fl + 1 \<le> f" "bit ?W f" by (rule lowest_from)
      then have f24: "f < 24" "?L ! f \<noteq> 0" using bit_fl by auto
      then obtain s where s: "s < 32" "lowest_at (?L ! f) s" using lowest_at_exists by blast
      then have ls: "ls_bit (?L ! f) = int s" "bit (?L ! f) s" using ls_bit_lowest by (auto simp: lowest_at_def)
      then obtain b where "tlsf_matrix st ! f ! s = Some b" using head [OF f24(1)] s(1) by blast
      then show ?thesis using none f ls s f24 fs get_class_ok [OF ok] len
        by (simp add: FIND_SUITABLE_BLOCK_def Let_def class_le_def)
    qed
  qed
qed

end
