(* ===== verification/XTlsfHeap.thy ===== *)
theory XTlsfHeap
  imports XTlsfLists
begin

unbundle bit_operations_syntax

text \<open>
  The blocks of a pool in the order of their addresses (kernel/tlsf.c): each
  block begins where the one before it ends, the state bits of a header tell
  whether the block and the one before it are free, no two free blocks are
  neighbours, and a block of size 0 that is never free closes the pool.
\<close>

section \<open>The size word\<close>

definition is_free :: "bhdr_t \<Rightarrow> bool" where
  "is_free h \<longleftrightarrow> bh_size h AND FREE_BLOCK \<noteq> 0"

definition prev_free :: "bhdr_t \<Rightarrow> bool" where
  "prev_free h \<longleftrightarrow> bh_size h AND PREV_FREE \<noteq> 0"

definition aligned :: "u32 \<Rightarrow> bool" where
  "aligned n \<longleftrightarrow> \<not> bit n 0 \<and> \<not> bit n 1"

lemma FREE_BLOCK_bit: "bit FREE_BLOCK n \<longleftrightarrow> n = 0"
  by (auto simp: FREE_BLOCK_def bit_1_iff)

lemma PREV_FREE_bit: "bit PREV_FREE n \<longleftrightarrow> n = 1" "PREV_STATE = PREV_FREE"
proof -
  have e: "PREV_FREE = push_bit 1 1" by (simp add: PREV_FREE_def)
  show "bit PREV_FREE n \<longleftrightarrow> n = 1" unfolding e bit_one_shift_iff by auto
qed (simp add: PREV_STATE_def PREV_FREE_def)

lemma TLSF_BLOCK_SIZE_bit: "bit TLSF_BLOCK_SIZE n \<longleftrightarrow> 2 \<le> n \<and> n < 32"
proof -
  have e: "TLSF_BLOCK_SIZE = NOT (mask 2)" by (simp add: TLSF_BLOCK_SIZE_def mask_numeral)
  show ?thesis unfolding e bit_not_iff bit_mask_iff by auto
qed

lemma word_nz: "(w :: u32) \<noteq> 0 \<longleftrightarrow> (\<exists>n. bit w n)"
  using word_nonzero_bit word_bit_nonzero by blast

lemma is_free_bit: "is_free h \<longleftrightarrow> bit (bh_size h) 0"
  unfolding is_free_def word_nz bit_and_iff FREE_BLOCK_bit by auto

lemma prev_free_bit: "prev_free h \<longleftrightarrow> bit (bh_size h) 1"
  unfolding prev_free_def word_nz bit_and_iff PREV_FREE_bit by auto

lemma block_bytes_bit: "bit (block_bytes h) n \<longleftrightarrow> bit (bh_size h) n \<and> 2 \<le> n"
  using word32_bit_cases [of "bh_size h" n] by (auto simp: block_bytes_def bit_and_iff TLSF_BLOCK_SIZE_bit)

lemma aligned_block_bytes [simp]: "aligned (block_bytes h)"
  by (simp add: aligned_def block_bytes_bit)

lemma low_cases: "n < 2 \<Longrightarrow> n = 0 \<or> n = (1 :: nat)"
  by auto

lemma aligned_low: "aligned w \<Longrightarrow> bit w n \<Longrightarrow> 2 \<le> n"
  using low_cases [of n] by (auto simp: aligned_def not_le [symmetric])

text \<open>Every way in which the code writes a size word.\<close>

lemma size_new:
  assumes "aligned n"
  shows "block_bytes (h\<lparr>bh_size := n OR FREE_BLOCK\<rparr>) = n" "is_free (h\<lparr>bh_size := n OR FREE_BLOCK\<rparr>)"
    "\<not> prev_free (h\<lparr>bh_size := n OR FREE_BLOCK\<rparr>)"
  using assms aligned_low [OF assms] unfolding is_free_bit prev_free_bit
  by (auto intro!: bit_word_eqI simp: block_bytes_bit bit_or_iff FREE_BLOCK_bit aligned_def)

lemma size_used:
  assumes "aligned n"
  shows "block_bytes (h\<lparr>bh_size := n OR (bh_size g AND PREV_STATE)\<rparr>) = n"
    "\<not> is_free (h\<lparr>bh_size := n OR (bh_size g AND PREV_STATE)\<rparr>)"
    "prev_free (h\<lparr>bh_size := n OR (bh_size g AND PREV_STATE)\<rparr>) = prev_free g"
  using assms aligned_low [OF assms] unfolding is_free_bit prev_free_bit
  by (auto intro!: bit_word_eqI simp: block_bytes_bit bit_or_iff bit_and_iff PREV_FREE_bit aligned_def)

lemma size_free:
  "block_bytes (h\<lparr>bh_size := bh_size g OR FREE_BLOCK\<rparr>) = block_bytes g" "is_free (h\<lparr>bh_size := bh_size g OR FREE_BLOCK\<rparr>)"
  "prev_free (h\<lparr>bh_size := bh_size g OR FREE_BLOCK\<rparr>) = prev_free g"
  unfolding is_free_bit prev_free_bit
  by (auto intro!: bit_word_eqI simp: block_bytes_bit bit_or_iff FREE_BLOCK_bit)

lemma size_unfree:
  "block_bytes (h\<lparr>bh_size := bh_size g AND NOT FREE_BLOCK\<rparr>) = block_bytes g"
  "\<not> is_free (h\<lparr>bh_size := bh_size g AND NOT FREE_BLOCK\<rparr>)"
  "prev_free (h\<lparr>bh_size := bh_size g AND NOT FREE_BLOCK\<rparr>) = prev_free g"
  unfolding is_free_bit prev_free_bit
  by (auto intro!: bit_word_eqI simp: block_bytes_bit bit_and_iff bit_not_iff FREE_BLOCK_bit)

lemma size_prev:
  "block_bytes (h\<lparr>bh_size := bh_size g OR PREV_FREE\<rparr>) = block_bytes g"
  "is_free (h\<lparr>bh_size := bh_size g OR PREV_FREE\<rparr>) = is_free g" "prev_free (h\<lparr>bh_size := bh_size g OR PREV_FREE\<rparr>)"
  unfolding is_free_bit prev_free_bit
  by (auto intro!: bit_word_eqI simp: block_bytes_bit bit_or_iff PREV_FREE_bit)

lemma size_unprev:
  "block_bytes (h\<lparr>bh_size := bh_size g AND NOT PREV_FREE\<rparr>) = block_bytes g"
  "is_free (h\<lparr>bh_size := bh_size g AND NOT PREV_FREE\<rparr>) = is_free g"
  "\<not> prev_free (h\<lparr>bh_size := bh_size g AND NOT PREV_FREE\<rparr>)"
  unfolding is_free_bit prev_free_bit
  by (auto intro!: bit_word_eqI simp: block_bytes_bit bit_and_iff bit_not_iff PREV_FREE_bit)

lemma aligned_iff: "aligned n \<longleftrightarrow> 4 dvd unat n"
proof -
  have "aligned n \<longleftrightarrow> take_bit 2 n = 0"
    unfolding take_bit_zero_iff_bits aligned_def using low_cases by auto
  also have "\<dots> \<longleftrightarrow> take_bit 2 (unat n) = 0"
    unfolding unsigned_take_bit_eq [symmetric] by (rule unat_0_iff [symmetric])
  finally show ?thesis by (simp add: take_bit_eq_mod dvd_eq_mod_eq_0)
qed

lemma aligned_add: "aligned m \<Longrightarrow> aligned n \<Longrightarrow> aligned (m + n)"
  by (simp add: aligned_iff unat_word_ariths mod_mod_cancel dvd_mod_iff)

lemma size_add:
  assumes "aligned n"
  shows "block_bytes (h\<lparr>bh_size := bh_size g + n\<rparr>) = block_bytes g + n"
    "is_free (h\<lparr>bh_size := bh_size g + n\<rparr>) = is_free g" "prev_free (h\<lparr>bh_size := bh_size g + n\<rparr>) = prev_free g"
proof -
  let ?l = "bh_size g AND mask 2"
  have "bh_size g = block_bytes g OR ?l"
    using word32_bit_cases [of "bh_size g"] by (intro bit_word_eqI) (auto simp: block_bytes_bit bit_or_iff bit_and_iff bit_mask_iff)
  moreover have "block_bytes g + ?l = block_bytes g OR ?l"
    by (rule disjunctive_add) (auto simp: block_bytes_bit bit_and_iff bit_mask_iff)
  ultimately have "bh_size g + n = (block_bytes g + n) + ?l" by (metis add.assoc add.commute)
  moreover have a: "aligned (block_bytes g + n)" using assms by (simp add: aligned_add)
  moreover have l: "bit (block_bytes g + n) i \<Longrightarrow> \<not> i < 2" for i using aligned_low [OF a, of i] by linarith
  moreover have "(block_bytes g + n) + ?l = (block_bytes g + n) OR ?l"
    by (intro disjunctive_add) (auto dest: l simp: bit_and_iff bit_mask_iff)
  ultimately have e: "bh_size g + n = (block_bytes g + n) OR ?l" by simp
  show "block_bytes (h\<lparr>bh_size := bh_size g + n\<rparr>) = block_bytes g + n"
    "is_free (h\<lparr>bh_size := bh_size g + n\<rparr>) = is_free g" "prev_free (h\<lparr>bh_size := bh_size g + n\<rparr>) = prev_free g"
    using a unfolding is_free_bit prev_free_bit
    by (auto intro!: bit_word_eqI aligned_low [OF a] dest: l simp: e block_bytes_bit bit_or_iff bit_and_iff bit_mask_iff aligned_def)
qed

lemma links_fields [simp]:
  "block_bytes (h\<lparr>fr_prev := p, fr_next := q\<rparr>) = block_bytes h" "block_bytes (h\<lparr>prev_hdr := p\<rparr>) = block_bytes h"
  "is_free (h\<lparr>prev_hdr := p\<rparr>) = is_free h" "prev_free (h\<lparr>prev_hdr := p\<rparr>) = prev_free h"
  by (simp_all add: block_bytes_def is_free_def prev_free_def)

section \<open>The chain of blocks\<close>

definition csz :: "bhdr_t \<Rightarrow> nat" where
  "csz h = unat (block_bytes h)"

text \<open>What a header says of the block before it; p is that block when it is free.\<close>

definition cell :: "nat option \<Rightarrow> bhdr_t \<Rightarrow> bool" where
  "cell p h \<longleftrightarrow> (prev_free h \<longleftrightarrow> p \<noteq> None) \<and> (p \<noteq> None \<longrightarrow> prev_hdr h = p \<and> \<not> is_free h)"

primrec seg :: "(nat \<Rightarrow> bhdr_t option) \<Rightarrow> nat option \<Rightarrow> nat \<Rightarrow> nat list \<Rightarrow> nat option \<Rightarrow> nat \<Rightarrow> bool" where
  "seg H p a [] p' a' \<longleftrightarrow> p' = p \<and> a' = a"
| "seg H p a (b # bs) p' a' \<longleftrightarrow> b = a \<and> (\<exists>h. H b = Some h \<and> cell p h \<and> 8 \<le> csz h \<and>
     seg H (if is_free h then Some b else None) (b + 8 + csz h) bs p' a')"

definition closed :: "(nat \<Rightarrow> bhdr_t option) \<Rightarrow> nat option \<Rightarrow> nat \<Rightarrow> nat list \<Rightarrow> nat \<Rightarrow> bool" where
  "closed H p a bs z \<longleftrightarrow> (\<exists>p'. seg H p a bs p' z \<and> (\<exists>h. H z = Some h \<and> cell p' h \<and> csz h = 0 \<and> \<not> is_free h))"

definition free_at :: "(nat \<Rightarrow> bhdr_t option) \<Rightarrow> nat \<Rightarrow> bool" where
  "free_at H b \<longleftrightarrow> (\<exists>h. H b = Some h \<and> is_free h)"

text \<open>Two stores that agree on what is not a link.\<close>

definition same_blocks :: "(nat \<Rightarrow> bhdr_t option) \<Rightarrow> (nat \<Rightarrow> bhdr_t option) \<Rightarrow> nat \<Rightarrow> bool" where
  "same_blocks H H' a \<longleftrightarrow> map_option node_rest (H' a) = map_option node_rest (H a)"

lemma csz_fields [simp]: "csz (node_rest h) = csz h" "is_free (node_rest h) = is_free h" "cell p (node_rest h) = cell p h"
  by (simp_all add: csz_def is_free_def cell_def prev_free_def)

lemma same_blocks_exists:
  "same_blocks H H' a \<Longrightarrow> (\<exists>h. H' a = Some h \<and> P (node_rest h)) \<longleftrightarrow> (\<exists>h. H a = Some h \<and> P (node_rest h))"
  by (cases "H a"; cases "H' a") (auto simp: same_blocks_def)

lemma same_free_at: "same_blocks H H' a \<Longrightarrow> free_at H' a = free_at H a"
  using same_blocks_exists [of H H' a is_free] by (simp add: free_at_def)

lemma seg_append:
  "seg H p a (xs @ ys) p' a' \<longleftrightarrow> (\<exists>q c. seg H p a xs q c \<and> seg H q c ys p' a')"
proof (induction xs arbitrary: p a)
  case (Cons x xs)
  show ?case by (simp only: append_Cons seg.simps Cons.IH) blast
qed simp

lemma seg_same: "\<forall>b\<in>set xs. same_blocks H H' b \<Longrightarrow> seg H' p a xs p' a' = seg H p a xs p' a'"
proof (induction xs arbitrary: p a)
  case (Cons x xs)
  have "same_blocks H H' x" using Cons.prems by simp
  from same_blocks_exists [OF this, of "\<lambda>h. cell p h \<and> 8 \<le> csz h \<and>
      seg H (if is_free h then Some x else None) (x + 8 + csz h) xs p' a'"]
  show ?case using Cons by simp
qed simp

lemma closed_same:
  "\<forall>b\<in>set xs. same_blocks H H' b \<Longrightarrow> same_blocks H H' z \<Longrightarrow> closed H' p a xs z = closed H p a xs z"
  using same_blocks_exists [of H H' z "\<lambda>h. cell q h \<and> csz h = 0 \<and> \<not> is_free h" for q]
  by (simp add: closed_def seg_same)

lemma closed_append:
  "closed H p a (xs @ ys) z \<longleftrightarrow> (\<exists>q c. seg H p a xs q c \<and> closed H q c ys z)"
  by (auto simp: closed_def seg_append)

lemma seg_bounds: "seg H p a xs p' a' \<Longrightarrow> a \<le> a' \<and> (\<forall>b\<in>set xs. a \<le> b \<and> b < a') \<and> distinct xs"
proof (induction xs arbitrary: p a)
  case (Cons x xs)
  then obtain h where h: "x = a" "seg H (if is_free h then Some x else None) (x + 8 + csz h) xs p' a'" by auto
  have "x + 8 + csz h \<le> a' \<and> (\<forall>b\<in>set xs. x + 8 + csz h \<le> b \<and> b < a') \<and> distinct xs" by (rule Cons.IH [OF h(2)])
  then show ?case using h(1) by auto
qed simp

lemma closed_bounds: "closed H p a xs z \<Longrightarrow> a \<le> z \<and> (\<forall>b\<in>set xs. a \<le> b \<and> b < z) \<and> distinct xs"
  using seg_bounds unfolding closed_def by blast

lemma closed_Cons:
  "closed H p a (b # bs) z \<longleftrightarrow> b = a \<and> (\<exists>h. H b = Some h \<and> cell p h \<and> 8 \<le> csz h \<and>
     closed H (if is_free h then Some b else None) (b + 8 + csz h) bs z)"
  by (auto simp: closed_def)

text \<open>The block that a chain starts with, which may be the last one.\<close>

lemma closed_first:
  assumes "closed H p a xs z"
  shows "\<exists>h. H a = Some h \<and> cell p h \<and> (is_free h \<longleftrightarrow> free_at H a) \<and> (is_free h \<longrightarrow> a \<in> set xs) \<and> (xs = [] \<longrightarrow> a = z)"
  using assms by (cases xs) (auto simp: closed_def free_at_def)

text \<open>The chain does not depend on what its first header says of the block before.\<close>

lemma closed_repoint:
  assumes c: "closed H p a xs z" and h: "H a = Some h" "H' a = Some h'"
    and same: "csz h' = csz h" "is_free h' = is_free h" "cell q h'" and o: "\<And>b. a < b \<Longrightarrow> b \<le> z \<Longrightarrow> same_blocks H H' b"
  shows "closed H' q a xs z"
proof (cases xs)
  case Nil
  then show ?thesis using c h same by (auto simp: closed_def)
next
  case (Cons x ys)
  then have x: "x = a" "cell p h" "8 \<le> csz h" "closed H (if is_free h then Some a else None) (a + 8 + csz h) ys z"
    using c h by (auto simp: closed_Cons)
  note b = closed_bounds [OF x(4)]
  have "\<forall>b\<in>set ys. same_blocks H H' b" "same_blocks H H' z" using b by (auto intro!: o)
  then have "closed H' (if is_free h then Some a else None) (a + 8 + csz h) ys z"
    using x(4) closed_same by blast
  then show ?thesis using x same h Cons by (simp add: closed_Cons)
qed

end
