(* ===== verification/XTlsfInv.thy ===== *)
theory XTlsfInv
  imports XTlsfHeap
begin

unbundle bit_operations_syntax

text \<open>
  The invariant of a pool (kernel/tlsf.c) and what every operation does to it:
  the blocks tile the pool, the index holds exactly the free blocks and the
  count of the bytes in use is exact.
\<close>

section \<open>The invariant\<close>

definition free_set :: "(nat \<Rightarrow> bhdr_t option) \<Rightarrow> nat list \<Rightarrow> nat set" where
  "free_set H bs = {b \<in> set bs. free_at H b}"

definition used_sum :: "(nat \<Rightarrow> bhdr_t option) \<Rightarrow> nat list \<Rightarrow> u32" where
  "used_sum H bs = (\<Sum>b\<leftarrow>bs. case H b of None \<Rightarrow> 0 | Some h \<Rightarrow> if is_free h then 0 else block_bytes h + 8)"

definition tlsf_inv :: "tlsf_t \<Rightarrow> u32 \<Rightarrow> nat \<Rightarrow> nat list \<Rightarrow> nat \<Rightarrow> bool" where
  "tlsf_inv st u a bs z \<longleftrightarrow> closed (bhdrs st) None a bs z \<and> z < a + 2 ^ 30 \<and> indexed st (free_set (bhdrs st) bs) \<and>
     used_size st = u + used_sum (bhdrs st) bs"

definition same_size :: "(nat \<Rightarrow> bhdr_t option) \<Rightarrow> (nat \<Rightarrow> bhdr_t option) \<Rightarrow> nat \<Rightarrow> bool" where
  "same_size H H' x \<longleftrightarrow> map_option (\<lambda>h. (block_bytes h, is_free h)) (H' x) = map_option (\<lambda>h. (block_bytes h, is_free h)) (H x)"

lemma same_size_free: "same_size H H' x \<Longrightarrow> free_at H' x = free_at H x"
  by (cases "H x"; cases "H' x") (auto simp: same_size_def free_at_def)

lemma same_size_used:
  "\<forall>x\<in>set bs. same_size H H' x \<Longrightarrow> used_sum H' bs = used_sum H bs"
proof (induction bs)
  case (Cons x bs)
  have "same_size H H' x" using Cons.prems by simp
  then have "(case H' x of None \<Rightarrow> 0 | Some h \<Rightarrow> if is_free h then 0 else block_bytes h + 8) =
      (case H x of None \<Rightarrow> 0 | Some h \<Rightarrow> if is_free h then 0 else block_bytes h + 8)"
    by (cases "H x"; cases "H' x") (auto simp: same_size_def)
  then show ?case using Cons by (simp add: used_sum_def)
qed (simp add: used_sum_def)

lemma used_sum_append: "used_sum H (xs @ ys) = used_sum H xs + used_sum H ys"
  by (simp add: used_sum_def)

lemma used_sum_Cons:
  "H b = Some h \<Longrightarrow> used_sum H (b # bs) = (if is_free h then 0 else block_bytes h + 8) + used_sum H bs"
  by (simp add: used_sum_def)

lemma kept_same_blocks: "kept st st' \<Longrightarrow> same_blocks (bhdrs st) (bhdrs st') x"
  by (simp add: kept_def same_blocks_def)

lemma same_blocks_trans: "same_blocks H H1 x \<Longrightarrow> same_blocks H1 H2 x \<Longrightarrow> same_blocks H H2 x"
  by (simp add: same_blocks_def)

lemma same_blocks_eq: "H' x = H x \<Longrightarrow> same_blocks H H' x"
  by (simp add: same_blocks_def)

lemma same_blocks_Some:
  assumes "same_blocks H H' x" "H x = Some h"
  obtains g where "H' x = Some g" "bh_size g = bh_size h" "prev_hdr g = prev_hdr h" "block_bytes g = block_bytes h"
    "is_free g = is_free h" "prev_free g = prev_free h" "csz g = csz h"
proof -
  from assms obtain g where "H' x = Some g" "bh_size g = bh_size h" "prev_hdr g = prev_hdr h" "block_bytes g = block_bytes h"
    using same_rest [of "H' x" h] by (auto simp: same_blocks_def)
  then show thesis using that by (simp add: is_free_def prev_free_def csz_def)
qed

lemma same_blocks_ex:
  "same_blocks H H' x \<Longrightarrow> H x = Some h \<Longrightarrow> \<exists>g. H' x = Some g \<and> bh_size g = bh_size h \<and> prev_hdr g = prev_hdr h \<and>
     block_bytes g = block_bytes h \<and> is_free g = is_free h \<and> prev_free g = prev_free h \<and> csz g = csz h"
  by (erule (1) same_blocks_Some) blast

lemma same_blocks_size: "same_blocks H H' x \<Longrightarrow> same_size H H' x"
proof (cases "H x")
  case (Some h)
  assume "same_blocks H H' x"
  from this Some obtain g where "H' x = Some g" "block_bytes g = block_bytes h" "is_free g = is_free h"
    by (rule same_blocks_Some)
  then show ?thesis using Some by (simp add: same_size_def)
qed (simp add: same_blocks_def same_size_def)

text \<open>The index does not depend on the headers outside it.\<close>

lemma indexed_cong:
  assumes i: "indexed st F" and e: "tlsf_matrix st' = tlsf_matrix st" "sl_bitmap st' = sl_bitmap st" "fl_bitmap st' = fl_bitmap st"
    and H: "\<And>b. b \<in> F \<Longrightarrow> bhdrs st' b = bhdrs st b"
  shows "indexed st' F"
proof -
  have c: "class_at (bhdrs st') b f s = class_at (bhdrs st) b f s" if "b \<in> F" for b f s
    using H [OF that] by (simp add: class_at_def)
  have "\<exists>xs. free_list (bhdrs st') (tlsf_matrix st' ! f ! s) xs \<and> set xs = {b \<in> F. class_at (bhdrs st') b f s}"
    if fs: "f < 24" "s < 32" for f s
  proof -
    obtain xs where x: "free_list (bhdrs st) (tlsf_matrix st ! f ! s) xs" "set xs = {b \<in> F. class_at (bhdrs st) b f s}"
      using indexed_list [OF i fs] by metis
    have "\<forall>a\<in>set xs. bhdrs st' a = bhdrs st a" using H x(2) by simp
    from free_list_frame [OF x(1) this] show ?thesis using x(2) c e(1) by (intro exI [of _ xs]) auto
  qed
  moreover have "\<forall>b\<in>F. \<exists>f s. f < 24 \<and> s < 32 \<and> class_at (bhdrs st') b f s"
    using i c by (simp add: indexed_def)
  ultimately show ?thesis using i by (simp add: indexed_def e)
qed

lemma indexed_upd: "indexed st F \<Longrightarrow> a \<notin> F \<Longrightarrow> indexed (st\<lparr>bhdrs := (bhdrs st)(a := x)\<rparr>) F"
  by (erule indexed_cong) auto

lemma indexed_used: "indexed (st\<lparr>used_size := x\<rparr>) F = indexed st F"
  by (simp add: indexed_def)

section \<open>A block with its bounds open\<close>

text \<open>The blocks us and vs are in order; b, which is no part of the index, begins after us and has what lies
  before c, where vs begins; the first header of vs may say anything of the block before it.\<close>

definition opened :: "tlsf_t \<Rightarrow> nat \<Rightarrow> nat list \<Rightarrow> nat option \<Rightarrow> nat \<Rightarrow> nat \<Rightarrow> nat list \<Rightarrow> nat \<Rightarrow> bool" where
  "opened st a us p b c vs z \<longleftrightarrow> seg (bhdrs st) None a us p b \<and>
     (\<exists>h. bhdrs st b = Some h \<and> (prev_free h \<longleftrightarrow> p \<noteq> None) \<and> (p \<noteq> None \<longrightarrow> prev_hdr h = p)) \<and>
     b + 16 \<le> c \<and> (\<exists>q. closed (bhdrs st) q c vs z) \<and> z < a + 2 ^ 30 \<and>
     indexed st (free_set (bhdrs st) (us @ vs))"

lemma opened_bounds:
  assumes "opened st a us p b c vs z"
  shows "a \<le> b" "c \<le> z" "x \<in> set us \<Longrightarrow> a \<le> x \<and> x < b" "x \<in> set vs \<Longrightarrow> c \<le> x \<and> x < z" "distinct (us @ vs)"
    "b \<notin> set (us @ vs)" "b < z"
proof -
  obtain q where s: "seg (bhdrs st) None a us p b" "closed (bhdrs st) q c vs z" "b + 16 \<le> c"
    using assms by (auto simp: opened_def)
  note u = seg_bounds [OF s(1)] and v = closed_bounds [OF s(2)]
  show "a \<le> b" "c \<le> z" "x \<in> set us \<Longrightarrow> a \<le> x \<and> x < b" "x \<in> set vs \<Longrightarrow> c \<le> x \<and> x < z" "b < z"
    using u v s(3) by auto
  show "distinct (us @ vs)" "b \<notin> set (us @ vs)" using u v s(3) by fastforce+
qed

lemma free_set_same:
  "(\<And>x. x \<in> set bs \<Longrightarrow> same_size H H' x) \<Longrightarrow> free_set H' bs = free_set H bs"
  using same_size_free by (auto simp: free_set_def)

lemma free_set_mid: "free_set H (us @ b # vs) = (if free_at H b then {b} else {}) \<union> free_set H (us @ vs)"
  by (auto simp: free_set_def)

lemma insert_sized_ok:
  assumes i: "indexed st F" and b: "b \<notin> F" "bhdrs st b = Some h" "block_bytes h = n" "unat n < 2 ^ 30"
  shows "\<exists>st'. insert_sized b n st = Some st' \<and> indexed st' (insert b F) \<and> kept st st'"
proof -
  obtain f s where fs: "MAPPING_INSERT n = Some (f, s)" "f < 24" "s < 32"
    using MAPPING_INSERT_ok [OF b(4)] by (auto simp: REAL_FLI_def MAX_SLI_def)
  then have "class_at (bhdrs st) b f s" using b by (simp add: class_at_def)
  then show ?thesis using insert_ok [OF i b(1) _ fs(2,3)] fs(1) by (simp add: insert_sized_def)
qed

lemma extract_sized_ok:
  assumes i: "indexed st F" and b: "b \<in> F" "bhdrs st b = Some h" "block_bytes h = n" "unat n < 2 ^ 30"
  shows "\<exists>st'. extract_sized b n st = Some st' \<and> indexed st' (F - {b}) \<and> kept st st'"
proof -
  obtain f s where fs: "MAPPING_INSERT n = Some (f, s)"
    using MAPPING_INSERT_ok [OF b(4)] by auto
  then have "class_at (bhdrs st) b f s" using b by (simp add: class_at_def)
  then show ?thesis using extract_ok [OF i b(1)] fs by (simp add: extract_sized_def)
qed

lemma carve_ok:
  assumes o: "opened st a us p b c vs z"
    and h: "bhdrs st b = Some h" and x: "bhdrs st c = Some x" "\<not> is_free x"
    and n: "aligned n" "8 \<le> unat n" "aligned tmp" "16 \<le> unat tmp" "b + 8 + unat n + unat tmp = c"
    and f: "csz (f x) = csz x" "\<not> is_free (f x)" "block_bytes (f x) = block_bytes x" "cell (Some (b + 8 + unat n)) (f x)"
  shows "\<exists>st' g. carve b n tmp c f st = Some st' \<and> opened st a us p b c vs z \<and>
     closed (bhdrs st') None a (us @ b # (b + 8 + unat n) # vs) z \<and>
     indexed st' (free_set (bhdrs st') (us @ b # (b + 8 + unat n) # vs)) \<and>
     bhdrs st' b = Some g \<and> block_bytes g = n \<and> \<not> is_free g \<and> free_at (bhdrs st') (b + 8 + unat n) \<and>
     used_size st' = used_size st \<and> (\<forall>x\<in>set us \<union> set vs. same_size (bhdrs st) (bhdrs st') x)"
proof -
  let ?H = "bhdrs st" and ?b2 = "b + 8 + unat n" and ?m = "tmp - 8" and ?F = "free_set (bhdrs st) (us @ vs)"
  note bd = opened_bounds [OF o]
  have c: "?b2 < c" "b < ?b2" using n by auto
  have m: "unat ?m = unat tmp - 8" "aligned ?m"
    using n(4) n(3) by (simp_all add: unat_sub word_le_nat_alt aligned_iff)
  define h2 where "h2 = (case ?H ?b2 of None \<Rightarrow> \<lparr>prev_hdr = None, bh_size = ?m OR FREE_BLOCK, fr_prev = None, fr_next = None\<rparr>
     | Some h \<Rightarrow> h\<lparr>bh_size := ?m OR FREE_BLOCK\<rparr>)"
  have h2: "block_bytes h2 = ?m" "is_free h2" "\<not> prev_free h2"
    using size_new [OF m(2), of "\<lparr>prev_hdr = None, bh_size = 0, fr_prev = None, fr_next = None\<rparr>"] size_new [OF m(2)]
    by (auto simp: h2_def split: option.splits)
  let ?st1 = "st\<lparr>bhdrs := ?H(?b2 \<mapsto> h2, c \<mapsto> f x)\<rparr>"
  have "new_free ?b2 ?m st = st\<lparr>bhdrs := ?H(?b2 \<mapsto> h2)\<rparr>"
    by (auto simp: new_free_def h2_def split: option.splits)
  then have s1: "upd_h c f (new_free ?b2 ?m st) = Some ?st1" using x c by (simp add: upd_h_def)
  have iF: "indexed st ?F" using o by (simp add: opened_def)
  have F: "?b2 \<notin> ?F" "c \<notin> ?F" "b \<notin> ?F" using bd(3,4) c x by (fastforce simp: free_set_def free_at_def)+
  have "indexed ?st1 ?F" using indexed_upd [OF indexed_upd [OF iF F(1)], of c] F(2) by simp
  moreover have "?st1\<lparr>bhdrs := bhdrs ?st1\<rparr> = ?st1" by simp
  moreover have "unat ?m < 2 ^ 30"
  proof -
    have "z < a + 2 ^ 30" using o by (simp add: opened_def)
    then show ?thesis using m(1) n(5) bd(1,2) by linarith
  qed
  ultimately obtain st2 where s2: "insert_sized ?b2 ?m ?st1 = Some st2" "indexed st2 (insert ?b2 ?F)" "kept ?st1 st2"
    using insert_sized_ok [of ?st1 ?F ?b2 h2 ?m] F(1) h2(1) c by auto
  have k: "same_blocks (bhdrs ?st1) (bhdrs st2) y" for y by (rule kept_same_blocks [OF s2(3)])
  obtain g where g: "bhdrs st2 b = Some g" "bh_size g = bh_size h" "prev_hdr g = prev_hdr h" "prev_free g = prev_free h"
    using same_blocks_Some [OF k [of b], of h] h c by auto
  let ?g = "g\<lparr>bh_size := n OR (bh_size g AND PREV_STATE)\<rparr>"
  let ?st3 = "st2\<lparr>bhdrs := (bhdrs st2)(b \<mapsto> ?g)\<rparr>"
  have car: "carve b n tmp c f st = Some ?st3"
    using s1 s2(1) g(1) by (simp add: carve_def GET_NEXT_BLOCK_def BHDR_OVERHEAD_def upd_h_Some)
  note gs = size_used [OF n(1), of g g]
  let ?H3 = "bhdrs ?st3" and ?new = "us @ b # ?b2 # vs"
  have sb: "same_blocks ?H ?H3 y" if "y \<noteq> b" "y \<noteq> ?b2" "y \<noteq> c" for y
    using k [of y] that by (simp add: same_blocks_def)
  have H3b: "?H3 b = Some ?g" by simp
  obtain g2 where g2: "?H3 ?b2 = Some g2" "is_free g2" "\<not> prev_free g2" "csz g2 = unat tmp - 8"
  proof -
    have "bhdrs ?st1 ?b2 = Some h2" using c by simp
    from same_blocks_ex [OF k this] obtain g' where "bhdrs st2 ?b2 = Some g'" "is_free g'" "\<not> prev_free g'" "csz g' = csz h2"
      using h2 by blast
    moreover have "csz h2 = unat tmp - 8" using h2(1) m(1) by (simp add: csz_def)
    ultimately show thesis using that [of g'] c by simp
  qed
  obtain gc where gc: "?H3 c = Some gc" "csz gc = csz x" "is_free gc = is_free x" "cell (Some ?b2) gc" "block_bytes gc = block_bytes x"
  proof -
    have "bhdrs ?st1 c = Some (f x)" by simp
    from same_blocks_ex [OF k this] obtain g' where "bhdrs st2 c = Some g'" "csz g' = csz x" "\<not> is_free g'"
      "block_bytes g' = block_bytes x" "prev_free g' = prev_free (f x)" "prev_hdr g' = prev_hdr (f x)"
      using f by metis
    moreover from this have "cell (Some ?b2) g'" using f(4) by (simp add: cell_def)
    ultimately show thesis using that [of g'] x(2) c by simp
  qed
  have us: "seg ?H3 None a us p b"
  proof -
    have "\<forall>y\<in>set us. same_blocks ?H ?H3 y"
    proof
      fix y assume "y \<in> set us"
      then show "same_blocks ?H ?H3 y" using bd(3) [of y] c by (intro sb) auto
    qed
    then show ?thesis using o seg_same by (simp add: opened_def)
  qed
  obtain q where q: "closed ?H q c vs z" using o by (auto simp: opened_def)
  have vs: "closed ?H3 (Some ?b2) c vs z"
  proof (rule closed_repoint [where H = ?H and H' = ?H3, OF q x(1) gc(1,2,3,4)])
    fix y assume "c < y"
    then show "same_blocks ?H ?H3 y" using c by (intro sb) auto
  qed
  have p: "prev_free h \<longleftrightarrow> p \<noteq> None" "p \<noteq> None \<longrightarrow> prev_hdr h = p" using o h by (auto simp: opened_def)
  have cl: "closed ?H3 None a ?new z"
  proof -
    have "?b2 + 8 + csz g2 = c" "8 \<le> csz g2" using n g2(4) by linarith+
    then have c2: "closed ?H3 None ?b2 (?b2 # vs) z" unfolding closed_Cons using g2 vs by (auto simp: cell_def)
    have "csz ?g = unat n" "cell p ?g" using gs g p by (simp_all add: csz_def cell_def)
    then have "closed ?H3 p b (b # ?b2 # vs) z"
      unfolding closed_Cons [of _ p] using gs(2) n(2) c2 H3b by auto
    then show ?thesis unfolding closed_append using us by blast
  qed
  have ss: "\<forall>y\<in>set us \<union> set vs. same_size ?H ?H3 y"
  proof
    fix y assume y: "y \<in> set us \<union> set vs"
    show "same_size ?H ?H3 y"
    proof (cases "y = c")
      case True
      then show ?thesis using gc x(1) by (simp add: same_size_def)
    next
      case False
      then show ?thesis using bd(3) [of y] bd(4) [of y] c y by (intro same_blocks_size sb) auto
    qed
  qed
  have fs: "free_set ?H3 ?new = insert ?b2 ?F"
  proof -
    have "free_set ?H3 (us @ vs) = ?F" using ss by (intro free_set_same) auto
    moreover have "free_at ?H3 ?b2" "\<not> free_at ?H3 b" using g2 gs(2) H3b by (auto simp: free_at_def)
    ultimately show ?thesis by (simp add: free_set_mid)
  qed
  have "indexed ?st3 (insert ?b2 ?F)" using indexed_upd [OF s2(2)] F(3) c by simp
  moreover have "used_size ?st3 = used_size st" using s2(3) by (simp add: kept_def)
  moreover have "free_at ?H3 ?b2" using g2 by (simp add: free_at_def)
  ultimately show ?thesis using car o cl ss fs H3b gs by auto
qed

section \<open>Opening and closing a block\<close>

lemma seg_same_but:
  assumes "\<And>x. x \<noteq> c \<Longrightarrow> same_blocks H H' x" "c \<notin> set us"
  shows "seg H' p a us p' a' = seg H p a us p' a'"
proof (rule seg_same, rule ballI)
  fix x assume "x \<in> set us"
  then show "same_blocks H H' x" using assms by (cases "x = c") auto
qed

lemma closed_same_but:
  assumes "\<And>x. x \<noteq> c \<Longrightarrow> same_blocks H H' x" "c \<notin> set vs" "z \<noteq> c"
  shows "closed H' p a vs z = closed H p a vs z"
proof (rule closed_same)
  show "\<forall>x\<in>set vs. same_blocks H H' x"
  proof
    fix x assume "x \<in> set vs"
    then show "same_blocks H H' x" using assms by (cases "x = c") auto
  qed
qed (use assms in simp)

lemma open_block:
  assumes c: "closed (bhdrs st) None a (us @ b # vs) z" "z < a + 2 ^ 30" and h: "bhdrs st b = Some h"
    and same: "\<And>x. x \<noteq> b \<Longrightarrow> same_blocks (bhdrs st) (bhdrs st') x"
    and h': "bhdrs st' b = Some h'" "prev_free h' = prev_free h" "prev_hdr h' = prev_hdr h"
    and i: "indexed st' (free_set (bhdrs st) (us @ vs))"
  shows "\<exists>p. opened st' a us p b (b + 8 + csz h) vs z \<and> cell p h \<and> 8 \<le> csz h \<and>
     closed (bhdrs st') (if is_free h then Some b else None) (b + 8 + csz h) vs z \<and>
     free_set (bhdrs st') (us @ vs) = free_set (bhdrs st) (us @ vs) \<and>
     used_sum (bhdrs st') (us @ vs) = used_sum (bhdrs st) (us @ vs) \<and> b \<notin> set (us @ vs)"
proof -
  let ?H = "bhdrs st" and ?H' = "bhdrs st'" and ?q = "if is_free h then Some b else None" and ?c = "b + 8 + csz h"
  obtain p where p: "seg ?H None a us p b" "cell p h" "8 \<le> csz h" "closed ?H ?q ?c vs z"
    using c(1) h by (auto simp: closed_append closed_Cons)
  note u = seg_bounds [OF p(1)] and v = closed_bounds [OF p(4)]
  have nb: "b \<notin> set (us @ vs)" "z \<noteq> b" using u v by auto
  have s: "seg ?H' None a us p b" "closed ?H' ?q ?c vs z"
    using p(1,4) seg_same_but [OF same, of b us] closed_same_but [OF same, of b vs z] nb by auto
  have ss: "same_size ?H ?H' x" if "x \<in> set (us @ vs)" for x
    by (rule same_blocks_size, rule same) (use nb that in auto)
  have f: "free_set ?H' (us @ vs) = free_set ?H (us @ vs)" using ss by (rule free_set_same)
  have "used_sum ?H' (us @ vs) = used_sum ?H (us @ vs)" using ss by (intro same_size_used) auto
  moreover have "opened st' a us p b ?c vs z"
    using s p(2,3) h' i f c(2) by (auto simp: opened_def cell_def)
  ultimately show ?thesis using p(2,3) s(2) f nb by blast
qed

lemma close_block:
  assumes o: "opened st a us p b c vs z" and h: "bhdrs st b = Some h" "c = b + 8 + csz h" "is_free h \<Longrightarrow> p = None"
    and x: "bhdrs st c = Some x" "cell (if is_free h then Some b else None) x"
  shows "closed (bhdrs st) None a (us @ b # vs) z"
proof -
  obtain q where q: "closed (bhdrs st) q c vs z" "seg (bhdrs st) None a us p b" "cell p h" "8 \<le> csz h"
  proof -
    obtain q where "closed (bhdrs st) q c vs z" using o by (auto simp: opened_def)
    moreover have "cell p h" "8 \<le> csz h" using o h by (auto simp: opened_def cell_def)
    ultimately show thesis using that [of q] o by (simp add: opened_def)
  qed
  have "closed (bhdrs st) (if is_free h then Some b else None) c vs z"
    by (rule closed_repoint [where H = "bhdrs st" and H' = "bhdrs st", OF q(1) x(1) x(1) refl refl x(2)]) (simp add: same_blocks_def)
  then have "closed (bhdrs st) p b (b # vs) z" unfolding closed_Cons using q(3,4) h by blast
  then show ?thesis unfolding closed_append using q(2) by blast
qed

lemma opened_here:
  assumes o: "opened st a us p b c vs z" and h: "bhdrs st b = Some h" "prev_free g = prev_free h" "prev_hdr g = prev_hdr h"
  shows "opened (st\<lparr>bhdrs := (bhdrs st)(b \<mapsto> g)\<rparr>) a us p b c vs z"
proof -
  let ?H = "bhdrs st" and ?H' = "(bhdrs st)(b \<mapsto> g)"
  note bd = opened_bounds [OF o]
  have sb: "same_blocks ?H ?H' x" if "x \<noteq> b" for x using that by (simp add: same_blocks_def)
  have n: "b \<notin> set us" "b \<notin> set vs" "z \<noteq> b" using bd by auto
  have us: "seg ?H' None a us p b" using o seg_same_but [OF sb, of b us] n(1) by (simp add: opened_def)
  have vs: "closed ?H' q c vs z = closed ?H q c vs z" for q by (rule closed_same_but [OF sb, of b]) (use n in auto)
  have F: "free_set ?H' (us @ vs) = free_set ?H (us @ vs)"
    by (rule free_set_same, rule same_blocks_size, rule sb) (use n in auto)
  have "b \<notin> free_set ?H (us @ vs)" using n by (simp add: free_set_def)
  then have "indexed (st\<lparr>bhdrs := ?H'\<rparr>) (free_set ?H (us @ vs))" using o indexed_upd by (auto simp: opened_def)
  then show ?thesis using o us vs F h by (auto simp: opened_def)
qed

lemma opened_next:
  assumes o: "opened st a us p b c vs z" and x: "bhdrs st c = Some x" "\<not> is_free x"
    and y: "block_bytes y = block_bytes x" "\<not> is_free y" "cell q y"
  shows "opened (st\<lparr>bhdrs := (bhdrs st)(c \<mapsto> y)\<rparr>) a us p b c vs z"
proof -
  let ?H = "bhdrs st" and ?H' = "(bhdrs st)(c \<mapsto> y)"
  note bd = opened_bounds [OF o]
  have bc: "b < c" using o by (auto simp: opened_def)
  have sb: "same_blocks ?H ?H' x" if "x \<noteq> c" for x using that by (simp add: same_blocks_def)
  have "c \<notin> set us" using bd(3) [of c] bc by auto
  then have us: "seg ?H' None a us p b" using o seg_same_but [OF sb, of c us] by (simp add: opened_def)
  obtain r where r: "closed ?H r c vs z" using o by (auto simp: opened_def)
  have vs: "closed ?H' q c vs z"
    by (rule closed_repoint [where H = ?H and H' = ?H', OF r x(1)]) (use x y in \<open>auto simp: csz_def same_blocks_def\<close>)
  have "same_size ?H ?H' w" for w using x y by (simp add: same_size_def)
  then have F: "free_set ?H' (us @ vs) = free_set ?H (us @ vs)" by (intro free_set_same) auto
  have "c \<notin> free_set ?H (us @ vs)" using x by (simp add: free_set_def free_at_def)
  then have "indexed (st\<lparr>bhdrs := ?H'\<rparr>) (free_set ?H (us @ vs))" using o indexed_upd by (auto simp: opened_def)
  then show ?thesis using o us vs F bc by (auto simp: opened_def)
qed

end
