(* ===== verification/XTlsfMalloc.thy ===== *)
theory XTlsfMalloc
  imports XTlsfInv
begin

unbundle bit_operations_syntax

text \<open>
  malloc_ex (kernel/tlsf.c): it takes a free block of the first class whose
  blocks are all large enough, gives back what the block has over, and fails
  only when no free block reaches the rounded request.
\<close>

lemma round_request_ok:
  assumes "unat n \<le> MAX_REQUEST"
  shows "unat n \<le> unat (round_request n)" "unat (round_request n) \<le> unat n + 8" "unat (round_request n) \<le> MAX_REQUEST"
    "8 \<le> unat (round_request n)" "aligned (round_request n)"
proof -
  have "unat n \<le> unat (round_request n) \<and> unat (round_request n) \<le> unat n + 8 \<and> unat (round_request n) \<le> MAX_REQUEST \<and>
    8 \<le> unat (round_request n) \<and> 4 dvd unat (round_request n)"
  proof (cases "n < MIN_BLOCK_SIZE")
    case True
    then have "unat n < 8" by (simp add: MIN_BLOCK_SIZE_def word_less_nat_alt)
    then show ?thesis using True by (simp add: round_request_def) (simp add: MIN_BLOCK_SIZE_def MAX_REQUEST_def)
  next
    case False
    then have n8: "8 \<le> unat n" by (simp add: MIN_BLOCK_SIZE_def word_less_nat_alt)
    have m: "MEM_ALIGN = mask 3" by (simp add: MEM_ALIGN_def mask_numeral)
    have u: "unat (n + MEM_ALIGN) = unat n + 7"
      using assms by (simp add: MEM_ALIGN_def unat_word_ariths MAX_REQUEST_def)
    have "unat (ROUNDUP_SIZE n) = (unat n + 7) div 8 * 8"
      unfolding ROUNDUP_SIZE_def using clear_low [of "n + MEM_ALIGN" 3] u by (simp add: m)
    moreover have "(unat n + 7) div 8 * 8 + (unat n + 7) mod 8 = unat n + 7" by simp
    moreover have "(unat n + 7) mod 8 < 8" by simp
    moreover have "8 dvd MAX_REQUEST" by (simp add: MAX_REQUEST_def)
    moreover have "(unat n + 7) div 8 * 8 \<le> MAX_REQUEST"
    proof -
      obtain k where "MAX_REQUEST = 8 * k" using \<open>8 dvd MAX_REQUEST\<close> by (auto elim: dvdE)
      then show ?thesis using assms by presburger
    qed
    moreover have "(4 :: nat) dvd (unat n + 7) div 8 * 8" by (rule dvd_mult) simp
    ultimately show ?thesis using False n8 assms by (auto simp: round_request_def)
  qed
  then show "unat n \<le> unat (round_request n)" "unat (round_request n) \<le> unat n + 8" "unat (round_request n) \<le> MAX_REQUEST"
    "8 \<le> unat (round_request n)" "aligned (round_request n)" by (simp_all add: aligned_iff)
qed

lemma lo_aligned: "4 dvd lo f s"
  by (auto simp: lo_def power_add)

text \<open>The class of a free block bounds its size from below.\<close>

lemma class_at_size:
  assumes "class_at H b f s" "H b = Some h" "csz h < 2 ^ 30"
  shows "in_class (csz h) f s"
  using assms MAPPING_INSERT_ok [of "block_bytes h"] by (auto simp: class_at_def csz_def)

lemma closed_small:
  assumes "closed H p a bs z" "b \<in> set bs" "H b = Some h" "z < a + 2 ^ 30"
  shows "csz h < 2 ^ 30" "8 \<le> csz h" "b + 8 + csz h \<le> z"
proof -
  obtain us vs where bs: "bs = us @ b # vs" using split_list [OF assms(2)] by auto
  then obtain q where q: "seg H p a us q b" "8 \<le> csz h" "closed H (if is_free h then Some b else None) (b + 8 + csz h) vs z"
    using assms(1,3) by (auto simp: closed_append closed_Cons)
  then show "8 \<le> csz h" "b + 8 + csz h \<le> z" using closed_bounds [OF q(3)] by auto
  moreover have "a \<le> b" using seg_bounds [OF q(1)] by simp
  ultimately show "csz h < 2 ^ 30" using assms(4) by linarith
qed

text \<open>The blocks after an allocation from block b, which keeps k bytes.\<close>

definition allocated :: "nat list \<Rightarrow> nat \<Rightarrow> nat list \<Rightarrow> nat \<Rightarrow> nat \<Rightarrow> nat list" where
  "allocated us b vs old k = us @ b # (if k = old then vs else (b + 8 + k) # vs)"

lemma take_block_ok:
  assumes o: "opened st a us None b (b + 8 + csz h) vs z" and h: "bhdrs st b = Some h" "is_free h" "\<not> prev_free h"
    and c: "closed (bhdrs st) (Some b) (b + 8 + csz h) vs z"
    and n: "aligned n" "8 \<le> unat n" "unat n \<le> csz h"
  shows "\<exists>st' k g. take_block b n st = Some st' \<and> closed (bhdrs st') None a (allocated us b vs (csz h) k) z \<and>
     indexed st' (free_set (bhdrs st') (allocated us b vs (csz h) k)) \<and>
     bhdrs st' b = Some g \<and> csz g = k \<and> unat n \<le> k \<and> k \<le> csz h \<and> \<not> is_free g \<and> (k \<noteq> csz h \<longrightarrow> free_at (bhdrs st') (b + 8 + k)) \<and>
     used_size st' = used_size st \<and> (\<forall>x\<in>set us \<union> set vs. same_size (bhdrs st) (bhdrs st') x)"
proof -
  let ?c = "b + 8 + csz h" and ?tmp = "block_bytes h - n"
  obtain x where x: "bhdrs st ?c = Some x" "cell (Some b) x" using closed_first [OF c] by blast
  then have nx: "\<not> is_free x" "prev_free x" "prev_hdr x = Some b" by (auto simp: cell_def)
  have t: "unat ?tmp = csz h - unat n" using n(3) by (simp add: unat_sub word_le_nat_alt csz_def)
  have al: "aligned ?tmp" using n(1) t aligned_block_bytes [of h] by (simp add: aligned_iff csz_def)
  have nb: "GET_NEXT_BLOCK b (block_bytes h) = ?c" "GET_NEXT_BLOCK b n = b + 8 + unat n" by (simp_all add: GET_NEXT_BLOCK_def csz_def)
  show ?thesis
  proof (cases "?tmp \<ge> BHDR_SIZE")
    case True
    then have t16: "16 \<le> unat ?tmp" by (simp add: BHDR_SIZE_def word_le_nat_alt)
    let ?f = "\<lambda>x. x\<lparr>prev_hdr := Some (GET_NEXT_BLOCK b n)\<rparr>"
    have f: "csz (?f x) = csz x" "\<not> is_free (?f x)" "block_bytes (?f x) = block_bytes x" "cell (Some (b + 8 + unat n)) (?f x)"
      using nx by (simp_all add: csz_def cell_def nb)
    have "b + 8 + unat n + unat ?tmp = ?c" using t n(3) by simp
    from carve_ok [where f = ?f, OF o h(1) x(1) nx(1) n(1,2) al t16 this f]
    obtain st' g where r: "carve b n ?tmp ?c ?f st = Some st'" "closed (bhdrs st') None a (us @ b # (b + 8 + unat n) # vs) z"
      "indexed st' (free_set (bhdrs st') (us @ b # (b + 8 + unat n) # vs))" "bhdrs st' b = Some g" "block_bytes g = n"
      "\<not> is_free g" "free_at (bhdrs st') (b + 8 + unat n)" "used_size st' = used_size st"
      "\<forall>x\<in>set us \<union> set vs. same_size (bhdrs st) (bhdrs st') x" by blast
    have k: "unat n \<noteq> csz h" using t t16 by linarith
    then have "allocated us b vs (csz h) (unat n) = us @ b # (b + 8 + unat n) # vs" by (simp add: allocated_def)
    moreover have "csz g = unat n" using r(5) by (simp add: csz_def)
    moreover have "take_block b n st = Some st'" using True r(1) h(1) by (simp add: take_block_def Let_def nb)
    ultimately show ?thesis using r k n(3) by (intro exI [of _ st'] exI [of _ "unat n"] exI [of _ g]) simp
  next
    case False
    let ?x = "x\<lparr>bh_size := bh_size x AND NOT PREV_FREE\<rparr>" and ?h = "h\<lparr>bh_size := bh_size h AND NOT FREE_BLOCK\<rparr>"
    let ?st1 = "st\<lparr>bhdrs := (bhdrs st)(?c \<mapsto> ?x)\<rparr>"
    let ?st2 = "?st1\<lparr>bhdrs := (bhdrs ?st1)(b \<mapsto> ?h)\<rparr>"
    have o1: "opened ?st1 a us None b ?c vs z"
      by (rule opened_next [OF o x(1) nx(1), of _ None]) (use size_unprev nx in \<open>auto simp: cell_def\<close>)
    have o2: "opened ?st2 a us None b ?c vs z"
      by (rule opened_here [OF o1, of h]) (use h size_unfree in auto)
    have H: "bhdrs ?st2 b = Some ?h" "bhdrs ?st2 ?c = Some ?x" using n(2,3) by auto
    have cz: "csz ?h = csz h" using size_unfree(1) by (simp add: csz_def)
    have cl: "closed (bhdrs ?st2) None a (us @ b # vs) z"
      by (rule close_block [OF o2 H(1)]) (use cz H size_unfree size_unprev nx in \<open>auto simp: cell_def\<close>)
    have bd: "b \<notin> set (us @ vs)" using opened_bounds(6) [OF o] .
    have ss: "\<forall>y\<in>set us \<union> set vs. same_size (bhdrs st) (bhdrs ?st2) y"
    proof
      fix y assume "y \<in> set us \<union> set vs"
      then have "y \<noteq> b" using bd by auto
      then show "same_size (bhdrs st) (bhdrs ?st2) y" using x(1) size_unprev nx(1) by (auto simp: same_size_def)
    qed
    have "free_set (bhdrs ?st2) (us @ b # vs) = free_set (bhdrs ?st2) (us @ vs)"
      using H size_unfree by (simp add: free_set_mid free_at_def)
    then have "indexed ?st2 (free_set (bhdrs ?st2) (us @ b # vs))" using o2 by (simp add: opened_def)
    moreover have "take_block b n st = Some ?st2"
      using False h(1) x(1) by (simp add: take_block_def Let_def nb upd_h_Some)
    moreover have "allocated us b vs (csz h) (csz h) = us @ b # vs" by (simp add: allocated_def)
    moreover have "used_size ?st2 = used_size st" by simp
    ultimately show ?thesis using cl cz H(1) size_unfree(2) ss n(3)
      by (intro exI [of _ ?st2] exI [of _ "csz h"] exI [of _ ?h]) (simp only: simp_thms order.refl)
  qed
qed

lemma inv_block:
  assumes "tlsf_inv st u a bs z" "b \<in> set bs"
  obtains us vs h where "bs = us @ b # vs" "bhdrs st b = Some h" "csz h < 2 ^ 30" "8 \<le> csz h"
    "b \<notin> set (us @ vs)" "distinct bs" "is_free h \<longleftrightarrow> free_at (bhdrs st) b"
proof -
  have c: "closed (bhdrs st) None a bs z" "z < a + 2 ^ 30" using assms(1) by (simp_all add: tlsf_inv_def)
  obtain us vs where bs: "bs = us @ b # vs" using split_list [OF assms(2)] by auto
  then obtain h where h: "bhdrs st b = Some h" using c(1) by (auto simp: closed_append closed_Cons)
  have "distinct bs" using closed_bounds [OF c(1)] by blast
  then show thesis using that [OF bs h] closed_small [OF c(1) assms(2) h c(2)] bs h by (auto simp: free_at_def)
qed

text \<open>The block found leaves the index, and is open then.\<close>

lemma found_block:
  assumes inv: "tlsf_inv st u a bs z" and fs: "f < 24" "s < 32" "tlsf_matrix st ! f ! s = Some b"
  shows "\<exists>us vs h st1 h1. bs = us @ b # vs \<and> bhdrs st b = Some h \<and> is_free h \<and> in_class (csz h) f s \<and> csz h < 2 ^ 30 \<and>
     EXTRACT_BLOCK_HDR b f s st = Some st1 \<and> kept st st1 \<and> opened st1 a us None b (b + 8 + csz h) vs z \<and>
     closed (bhdrs st1) (Some b) (b + 8 + csz h) vs z \<and> bhdrs st1 b = Some h1 \<and> is_free h1 \<and> \<not> prev_free h1 \<and> csz h1 = csz h \<and>
     used_size st1 = u + used_sum (bhdrs st1) (us @ vs)"
proof -
  let ?F = "free_set (bhdrs st) bs"
  have c: "closed (bhdrs st) None a bs z" "z < a + 2 ^ 30" "indexed st ?F"
    "used_size st = u + used_sum (bhdrs st) bs" using inv by (simp_all add: tlsf_inv_def)
  obtain st1 where e: "b \<in> ?F" "class_at (bhdrs st) b f s" "EXTRACT_BLOCK_HDR b f s st = Some st1"
    "indexed st1 (?F - {b})" "kept st st1" using extract_head_ok [OF c(3) fs] by blast
  then have bs: "b \<in> set bs" by (simp add: free_set_def)
  then obtain us vs h where h: "bs = us @ b # vs" "bhdrs st b = Some h" "csz h < 2 ^ 30" "8 \<le> csz h" "b \<notin> set (us @ vs)"
    "is_free h \<longleftrightarrow> free_at (bhdrs st) b" by (rule inv_block [OF inv])
  have fr: "is_free h" using h(6) e(1) by (simp add: free_set_def)
  have cl: "in_class (csz h) f s" by (rule class_at_size [OF e(2) h(2,3)])
  have k1: "same_blocks (bhdrs st) (bhdrs st1) x" for x by (rule kept_same_blocks [OF e(5)])
  obtain h1 where h1: "bhdrs st1 b = Some h1" "prev_free h1 = prev_free h" "prev_hdr h1 = prev_hdr h"
    "is_free h1 = is_free h" "csz h1 = csz h" using same_blocks_ex [OF k1 h(2)] by blast
  have F: "?F - {b} = free_set (bhdrs st) (us @ vs)"
    using h(1,5) by (auto simp: free_set_mid) (simp add: free_set_def)
  obtain q where o: "opened st1 a us q b (b + 8 + csz h) vs z" "cell q h"
      "closed (bhdrs st1) (Some b) (b + 8 + csz h) vs z" "used_sum (bhdrs st1) (us @ vs) = used_sum (bhdrs st) (us @ vs)"
    using open_block [OF c(1) [unfolded h(1)] c(2) h(2) k1 h1(1-3) e(4) [unfolded F]] fr by auto
  have q: "q = None" "\<not> prev_free h" using o(2) fr by (auto simp: cell_def)
  have "used_sum (bhdrs st) bs = used_sum (bhdrs st) (us @ vs)" using h(1,2) fr by (simp add: used_sum_append used_sum_Cons)
  moreover have "used_size st1 = used_size st" using e(5) by (simp add: kept_def)
  ultimately have "used_size st1 = u + used_sum (bhdrs st1) (us @ vs)" using c(4) o(4) by simp
  then show ?thesis using h(1,2,3) fr cl e(3,5) o(1,3) q h1
    by (intro exI [of _ us] exI [of _ vs] exI [of _ h] exI [of _ st1] exI [of _ h1]) simp
qed

text \<open>malloc_ex on the block found: what take_block leaves is counted.\<close>

lemma counted_block:
  assumes o: "opened st1 a us None b (b + 8 + csz h1) vs z" "closed (bhdrs st1) (Some b) (b + 8 + csz h1) vs z"
    and h1: "bhdrs st1 b = Some h1" "is_free h1" "\<not> prev_free h1" and n: "aligned n" "8 \<le> unat n" "unat n \<le> csz h1"
    and u: "used_size st1 = u + used_sum (bhdrs st1) (us @ vs)"
  shows "\<exists>st2 st3 k g. take_block b n st1 = Some st2 \<and> count_used b st2 = Some st3 \<and>
     tlsf_inv st3 u a (allocated us b vs (csz h1) k) z \<and> bhdrs st3 b = Some g \<and> \<not> is_free g \<and> csz g = k \<and>
     unat n \<le> k \<and> k \<le> csz h1 \<and> (k \<noteq> csz h1 \<longrightarrow> free_at (bhdrs st3) (b + 8 + k)) \<and>
     (\<forall>x\<in>set us \<union> set vs. same_size (bhdrs st1) (bhdrs st3) x)"
proof -
  obtain st2 k g where t: "take_block b n st1 = Some st2" "closed (bhdrs st2) None a (allocated us b vs (csz h1) k) z"
    "indexed st2 (free_set (bhdrs st2) (allocated us b vs (csz h1) k))" "bhdrs st2 b = Some g" "csz g = k" "unat n \<le> k"
    "k \<le> csz h1" "\<not> is_free g" "k \<noteq> csz h1 \<longrightarrow> free_at (bhdrs st2) (b + 8 + k)" "used_size st2 = used_size st1"
    "\<forall>x\<in>set us \<union> set vs. same_size (bhdrs st1) (bhdrs st2) x"
    using take_block_ok [OF o(1) h1 o(2) n] by blast
  let ?st = "add_used (block_bytes g + BHDR_OVERHEAD) st2" and ?bs = "allocated us b vs (csz h1) k"
  have H: "bhdrs ?st = bhdrs st2" by (simp add: add_used_def)
  have "used_sum (bhdrs st2) (us @ vs) = used_sum (bhdrs st1) (us @ vs)" using t(11) by (intro same_size_used) auto
  moreover have "used_sum (bhdrs st2) ?bs = used_sum (bhdrs st2) (us @ vs) + (block_bytes g + 8)"
    using t(4,8,9) by (auto simp: allocated_def used_sum_append used_sum_Cons free_at_def)
  ultimately have "used_size ?st = u + used_sum (bhdrs st2) ?bs"
    using u t(10) by (simp add: add_used_def BHDR_OVERHEAD_def)
  moreover have "z < a + 2 ^ 30" using o(1) by (simp add: opened_def)
  moreover have "indexed ?st (free_set (bhdrs st2) ?bs)" using t(3) by (simp add: add_used_def indexed_used)
  ultimately have "tlsf_inv ?st u a ?bs z" using t(2) H by (simp add: tlsf_inv_def)
  moreover have "count_used b st2 = Some ?st" using t(4) by (simp add: count_used_def)
  ultimately show ?thesis using t H by (intro exI [of _ st2] exI [of _ ?st] exI [of _ k] exI [of _ g]) simp
qed

text \<open>Allocation keeps the invariant: the caller gets a block of at least the bytes asked for, which was free
  and is in use now, and nothing else changes but that its rest is a new free block.  It fails, with the state
  as it was, only when every free block is smaller than the request rounded up, by at most a 32nd.\<close>
lemma malloc_ex_blocks:
  assumes inv: "tlsf_inv st u a bs z" and n: "unat n \<le> MAX_REQUEST"
  shows "(malloc_ex n st = Some (None, st) \<and>
       (\<forall>b\<in>set bs. \<forall>h. bhdrs st b = Some h \<and> is_free h \<longrightarrow> csz h < (unat n + 8) + (unat n + 8) div 32)) \<or>
     (\<exists>us b vs h k st'. bs = us @ b # vs \<and> bhdrs st b = Some h \<and> is_free h \<and>
       malloc_ex n st = Some (Some (b + 8), st') \<and> tlsf_inv st' u a (allocated us b vs (csz h) k) z \<and>
       (\<exists>g. bhdrs st' b = Some g \<and> \<not> is_free g \<and> csz g = k) \<and> unat n \<le> k \<and> k \<le> csz h \<and>
       (k \<noteq> csz h \<longrightarrow> free_at (bhdrs st') (b + 8 + k)) \<and>
       (\<forall>x\<in>set us \<union> set vs. same_size (bhdrs st) (bhdrs st') x))"
proof -
  have c: "closed (bhdrs st) None a bs z" "z < a + 2 ^ 30" "indexed st (free_set (bhdrs st) bs)"
    using inv by (simp_all add: tlsf_inv_def)
  let ?r = "round_request n" and ?F = "free_set (bhdrs st) bs"
  note r = round_request_ok [OF n]
  obtain r' fl sl where ms: "MAPPING_SEARCH ?r = Some (r', fl, sl)" "fl < 24" "sl < 32" "unat ?r \<le> unat r'"
      "unat r' = lo fl sl" "unat r' \<le> unat ?r + unat ?r div 32"
    using MAPPING_SEARCH_ok [OF r(3)] r(5) by (auto simp: aligned_iff REAL_FLI_def MAX_SLI_def)
  obtain res f s where fs: "FIND_SUITABLE_BLOCK st fl sl = Some (res, f, s)"
    "case res of None \<Rightarrow> \<forall>b\<in>?F. \<forall>g t. class_at (bhdrs st) b g t \<longrightarrow> \<not> class_le (fl, sl) (g, t)
      | Some b \<Rightarrow> f < 24 \<and> s < 32 \<and> tlsf_matrix st ! f ! s = Some b \<and> class_le (fl, sl) (f, s)"
    using find_ok [OF c(3) ms(2,3)] by blast
  have low: "in_class (lo fl sl) fl sl" using ms(3) by (simp add: in_class_def width_def)
  show ?thesis
  proof (cases res)
    case None
    have "csz h < (unat n + 8) + (unat n + 8) div 32" if b: "b \<in> set bs" "bhdrs st b = Some h" "is_free h" for b h
    proof (rule ccontr)
      assume "\<not> ?thesis"
      then have big: "unat r' \<le> csz h" using ms(6) r(2) div_le_mono [OF r(2), of 32] by linarith
      have F: "b \<in> ?F" using b by (simp add: free_set_def free_at_def)
      then obtain g t where g: "class_at (bhdrs st) b g t" using c(3) by (auto simp: indexed_def)
      have "csz h < 2 ^ 30" using closed_small [OF c(1) b(1,2) c(2)] by simp
      then have "in_class (csz h) g t" by (rule class_at_size [OF g b(2)])
      then have "class_le (fl, sl) (g, t)" using in_class_mono [OF low _ ] big ms(5) by simp
      then show False using fs(2) None F g by auto
    qed
    moreover have "malloc_ex n st = Some (None, st)" using ms(1) fs(1) None by (simp add: malloc_ex_def)
    ultimately show ?thesis by blast
  next
    case (Some b)
    then have p: "f < 24" "s < 32" "tlsf_matrix st ! f ! s = Some b" "class_le (fl, sl) (f, s)" using fs(2) by auto
    obtain us vs h st1 h1 where h: "bs = us @ b # vs" "bhdrs st b = Some h" "is_free h" "in_class (csz h) f s"
      "EXTRACT_BLOCK_HDR b f s st = Some st1" "kept st st1" "opened st1 a us None b (b + 8 + csz h) vs z"
      "closed (bhdrs st1) (Some b) (b + 8 + csz h) vs z" "bhdrs st1 b = Some h1" "is_free h1" "\<not> prev_free h1" "csz h1 = csz h"
      "used_size st1 = u + used_sum (bhdrs st1) (us @ vs)" using found_block [OF inv p(1-3)] by blast
    have big: "unat r' \<le> csz h1" using class_le_lo [OF p(4) ms(3)] ms(5) h(4,12) by (simp add: in_class_def)
    have al: "aligned r'" "8 \<le> unat r'" using ms(5) lo_aligned ms(4) r(4) by (auto simp: aligned_iff)
    obtain st2 st3 k g where t: "take_block b r' st1 = Some st2" "count_used b st2 = Some st3"
      "tlsf_inv st3 u a (allocated us b vs (csz h1) k) z" "bhdrs st3 b = Some g" "\<not> is_free g" "csz g = k"
      "unat r' \<le> k" "k \<le> csz h1" "k \<noteq> csz h1 \<longrightarrow> free_at (bhdrs st3) (b + 8 + k)"
      "\<forall>x\<in>set us \<union> set vs. same_size (bhdrs st1) (bhdrs st3) x"
      using counted_block [OF h(7,8) [folded h(12)] h(9-11) al big h(13)] by blast
    have m: "malloc_ex n st = Some (Some (b + 8), st3)" using ms(1) fs(1) Some h(5) t(1,2) by (simp add: malloc_ex_def)
    have "\<forall>x\<in>set us \<union> set vs. same_size (bhdrs st) (bhdrs st3) x"
      using t(10) same_blocks_size [OF kept_same_blocks [OF h(6)]] by (simp add: same_size_def)
    moreover have "unat n \<le> k" using r(1) ms(4) t(7) by linarith
    ultimately show ?thesis using h(1,2,3) m t(3-6,8,9) unfolding h(12) by blast
  qed
qed

end
