(* ===== verification/XTlsfFree.thy ===== *)
theory XTlsfFree
  imports XTlsfMalloc
begin

unbundle bit_operations_syntax

text \<open>
  free_ex (kernel/tlsf.c): the block freed is merged with its neighbours that
  are free and enters the index, and every other block stays as it was.
\<close>

section \<open>Merging\<close>

lemma opened_merge_next:
  assumes o: "opened st a us p b c (c # vs) z" and x: "bhdrs st c = Some x" "is_free x"
    and k: "kept st st'" "indexed st' (free_set (bhdrs st) (us @ c # vs) - {c})"
  shows "opened st' a us p b (c + 8 + csz x) vs z \<and>
     (\<exists>y. bhdrs st' (c + 8 + csz x) = Some y \<and> prev_free y \<and> prev_hdr y = Some c \<and> \<not> is_free y)"
proof -
  let ?H = "bhdrs st" and ?H' = "bhdrs st'"
  have sb: "same_blocks ?H ?H' y" for y by (rule kept_same_blocks [OF k(1)])
  obtain q where q: "closed ?H q c (c # vs) z" using o by (auto simp: opened_def)
  then have vs: "closed ?H (Some c) (c + 8 + csz x) vs z" using x by (auto simp: closed_Cons)
  have vs': "closed ?H' (Some c) (c + 8 + csz x) vs z" using vs closed_same [of vs ?H ?H' z] sb by simp
  have us: "seg ?H' None a us p b" using o seg_same [of us ?H ?H'] sb by (simp add: opened_def)
  obtain h where h: "?H b = Some h" "prev_free h \<longleftrightarrow> p \<noteq> None" "p \<noteq> None \<longrightarrow> prev_hdr h = p" using o by (auto simp: opened_def)
  obtain g where g: "?H' b = Some g" "prev_hdr g = prev_hdr h" "prev_free g = prev_free h"
    using same_blocks_ex [OF sb h(1)] by blast
  have "free_set ?H' (us @ vs) = free_set ?H (us @ vs)" by (intro free_set_same same_blocks_size sb)
  moreover have "c \<notin> set (us @ vs)" using opened_bounds(5) [OF o] by simp
  then have "free_set ?H (us @ c # vs) - {c} = free_set ?H (us @ vs)" by (auto simp: free_set_mid) (simp add: free_set_def)
  ultimately have "indexed st' (free_set ?H' (us @ vs))" using k(2) by simp
  then have "opened st' a us p b (c + 8 + csz x) vs z"
    using us vs' g h o by (auto simp: opened_def)
  then show ?thesis using closed_first [OF vs'] by (auto simp: cell_def)
qed

lemma opened_merge_prev:
  assumes o: "opened st a us (Some t) b c vs z"
  obtains us0 x where "us = us0 @ [t]" "bhdrs st t = Some x" "is_free x" "\<not> prev_free x" "b = t + 8 + csz x" "8 \<le> csz x"
    "t \<in> free_set (bhdrs st) (us @ vs)"
    "\<And>st'. kept st st' \<Longrightarrow> indexed st' (free_set (bhdrs st) (us @ vs) - {t}) \<Longrightarrow> opened st' a us0 None t c vs z"
proof -
  let ?H = "bhdrs st"
  have s: "seg ?H None a us (Some t) b" using o by (simp add: opened_def)
  then have "us \<noteq> []" by auto
  then obtain us0 t' where us: "us = us0 @ [t']" by (metis append_butlast_last_id)
  then obtain q d where qd: "seg ?H None a us0 q d" "seg ?H q d [t'] (Some t) b" using s by (auto simp: seg_append)
  then obtain x where qx: "t' = d" "?H t' = Some x" "cell q x" "8 \<le> csz x" "Some t = (if is_free x then Some t' else None)"
    "b = t' + 8 + csz x" by auto
  then have "is_free x" "t = t'" by (cases "is_free x"; simp)+
  then have q: "seg ?H None a us0 q t" "?H t = Some x" "cell q x" "8 \<le> csz x" "is_free x" "b = t + 8 + csz x" "t' = t"
    using qd qx by simp_all
  then have q0: "q = None" "\<not> prev_free x" by (auto simp: cell_def)
  have u: "us @ vs = us0 @ t # vs" using us q(7) by simp
  have fr: "free_at ?H t" using q(2,5) by (simp add: free_at_def)
  have "distinct (us0 @ t # vs)" using opened_bounds(5) [OF o] u by simp
  then have nt: "t \<notin> free_set ?H (us0 @ vs)" by (auto simp: free_set_def)
  have t: "t \<in> free_set ?H (us @ vs)" unfolding u free_set_mid using fr by simp
  have F: "free_set ?H (us @ vs) - {t} = free_set ?H (us0 @ vs)"
    unfolding u free_set_mid using fr nt by simp
  show thesis
  proof (rule that [OF _ q(2,5) q0(2) q(6,4) t])
    show "us = us0 @ [t]" using us q(7) by simp
    fix st' assume k: "kept st st'" "indexed st' (free_set ?H (us @ vs) - {t})"
    have sb: "same_blocks ?H (bhdrs st') y" for y by (rule kept_same_blocks [OF k(1)])
    have "seg (bhdrs st') None a us0 None t" using q(1) q0(1) seg_same [of us0 ?H "bhdrs st'"] sb by simp
    moreover obtain r where "closed ?H r c vs z" using o by (auto simp: opened_def)
    then have "closed (bhdrs st') r c vs z" using closed_same [of vs ?H "bhdrs st'" z] sb by simp
    moreover obtain g where "bhdrs st' t = Some g" "prev_free g = prev_free x" using same_blocks_ex [OF sb q(2)] by blast
    moreover have "free_set (bhdrs st') (us0 @ vs) = free_set ?H (us0 @ vs)" by (intro free_set_same same_blocks_size sb)
    ultimately show "opened st' a us0 None t c vs z"
      using o q(6) q0(2) k(2) F by (auto simp: opened_def)
  qed
qed

lemma opened_used [simp]: "opened (st\<lparr>used_size := n\<rparr>) a us p b c vs z = opened st a us p b c vs z"
  by (simp add: opened_def indexed_used)

lemma enter_free_ok:
  assumes o: "opened st a us None b c vs z" and h: "bhdrs st b = Some h" "is_free h" "c = b + 8 + csz h"
    and x: "bhdrs st c = Some x" "\<not> is_free x"
  shows "\<exists>st'. enter_free b st = Some st' \<and> closed (bhdrs st') None a (us @ b # vs) z \<and>
     indexed st' (free_set (bhdrs st') (us @ b # vs)) \<and> free_at (bhdrs st') b \<and> used_size st' = used_size st \<and>
     (\<forall>x\<in>set us \<union> set vs. same_size (bhdrs st) (bhdrs st') x)"
proof -
  let ?H = "bhdrs st" and ?F = "free_set (bhdrs st) (us @ vs)"
  let ?f = "\<lambda>x. x\<lparr>bh_size := bh_size x OR PREV_FREE, prev_hdr := Some b\<rparr>"
  note bd = opened_bounds [OF o]
  have iF: "indexed st ?F" "b \<notin> ?F" using o bd(6) by (simp_all add: opened_def free_set_def)
  have "z < a + 2 ^ 30" using o by (simp add: opened_def)
  then have "csz h < 2 ^ 30" using bd(1,2) h(3) by linarith
  then obtain st5 where s5: "insert_sized b (block_bytes h) st = Some st5" "indexed st5 (insert b ?F)" "kept st st5"
    using insert_sized_ok [OF iF h(1) refl] by (auto simp: csz_def)
  have sb: "same_blocks ?H (bhdrs st5) y" for y by (rule kept_same_blocks [OF s5(3)])
  obtain x5 where x5: "bhdrs st5 c = Some x5" "bh_size x5 = bh_size x" "\<not> is_free x5" "block_bytes x5 = block_bytes x"
    using same_blocks_ex [OF sb x(1)] x(2) by blast
  let ?y = "?f x" and ?y5 = "?f x5"
  let ?st6 = "st5\<lparr>bhdrs := (bhdrs st5)(c \<mapsto> ?y5)\<rparr>"
  have y: "block_bytes ?y = block_bytes x" "\<not> is_free ?y" "cell (Some b) ?y" "\<not> is_free ?y5" "block_bytes ?y5 = block_bytes x"
    using size_prev x x5 by (simp_all add: cell_def)
  have e: "enter_free b st = Some ?st6"
    using h s5(1) x5(1) by (simp add: enter_free_def GET_NEXT_BLOCK_def csz_def [symmetric] upd_h_Some)
  have o1: "opened (st\<lparr>bhdrs := ?H(c \<mapsto> ?y)\<rparr>) a us None b c vs z" by (rule opened_next [OF o x y(1-3)])
  have bc: "b \<noteq> c" using h(3) by simp
  have "closed (?H(c \<mapsto> ?y)) None a (us @ b # vs) z"
    using close_block [OF o1, of h ?y] h y(3) bc by simp
  moreover have "same_blocks (?H(c \<mapsto> ?y)) (bhdrs ?st6) w" for w
    using sb [of w] sb [of c] x(1) x5(1,2) by (auto simp: same_blocks_def node_rest_def)
  ultimately have cl: "closed (bhdrs ?st6) None a (us @ b # vs) z" using closed_same by blast
  have ss: "same_size ?H (bhdrs ?st6) w" for w
    using same_blocks_size [OF sb [of w]] x(1,2) y by (auto simp: same_size_def)
  obtain h5 where h5: "bhdrs st5 b = Some h5" "is_free h5" using same_blocks_ex [OF sb h(1)] h(2) by blast
  have fa: "free_at (bhdrs ?st6) b" using h5 bc by (simp add: free_at_def)
  have "free_set (bhdrs ?st6) (us @ vs) = ?F" using ss by (rule free_set_same)
  then have "free_set (bhdrs ?st6) (us @ b # vs) = insert b ?F" using fa by (simp add: free_set_mid)
  moreover have "c \<notin> insert b ?F" using bc x by (simp add: free_set_def free_at_def)
  then have "indexed ?st6 (insert b ?F)" by (rule indexed_upd [OF s5(2)])
  moreover have "used_size ?st6 = used_size st" using s5(3) by (simp add: kept_def)
  ultimately show ?thesis using e cl fa ss by (intro exI [of _ ?st6]) simp
qed

lemma aligned_over: "aligned (block_bytes x + BHDR_OVERHEAD)"
  by (rule aligned_add [OF aligned_block_bytes]) (simp add: BHDR_OVERHEAD_def aligned_iff)

lemma merge_next_ok:
  assumes o: "opened st a us p b c vs z" and h: "bhdrs st b = Some h" "is_free h" "c = b + 8 + csz h"
  shows "\<exists>st' vs' h' x. free_merge_next b st = Some st' \<and> opened st' a us p b (b + 8 + csz h') vs' z \<and>
     bhdrs st' b = Some h' \<and> is_free h' \<and> prev_free h' = prev_free h \<and> prev_hdr h' = prev_hdr h \<and>
     bhdrs st' (b + 8 + csz h') = Some x \<and> \<not> is_free x \<and>
     (vs' = vs \<or> vs = c # vs' \<and> free_at (bhdrs st) c) \<and> used_size st' = used_size st \<and>
     (\<forall>x\<in>set us \<union> set vs'. same_size (bhdrs st) (bhdrs st') x)"
proof -
  obtain q where q: "closed (bhdrs st) q c vs z" using o by (auto simp: opened_def)
  obtain x where x: "bhdrs st c = Some x" "is_free x \<longleftrightarrow> free_at (bhdrs st) c" "is_free x \<longrightarrow> c \<in> set vs"
    using closed_first [OF q] by blast
  have nb: "GET_NEXT_BLOCK b (block_bytes h) = c" using h(3) by (simp add: GET_NEXT_BLOCK_def csz_def)
  show ?thesis
  proof (cases "is_free x")
    case False
    then have "free_merge_next b st = Some st" using h(1) x(1) nb by (simp add: free_merge_next_def is_free_def)
    then show ?thesis using o h x False
      by (intro exI [of _ st] exI [of _ vs] exI [of _ h] exI [of _ x]) (simp add: same_size_def)
  next
    case True
    then obtain vs' where vs: "vs = c # vs'" using x(3) q by (cases vs) (auto simp: closed_Cons)
    let ?F = "free_set (bhdrs st) (us @ vs)"
    have cF: "c \<in> ?F" using True x(2) vs by (simp add: free_set_def)
    have z: "z < a + 2 ^ 30" using o by (simp add: opened_def)
    have "closed (bhdrs st) (Some c) (c + 8 + csz x) vs' z" using q vs x(1) True by (auto simp: closed_Cons)
    then have "c + 8 + csz x \<le> z" using closed_bounds by blast
    then have small: "csz x < 2 ^ 30" "csz h + 8 + csz x < 2 ^ 30" using opened_bounds(1) [OF o] h(3) z by linarith+
    obtain st1 where s1: "extract_sized c (block_bytes x) st = Some st1" "indexed st1 (?F - {c})" "kept st st1"
      using extract_sized_ok [of st ?F c x "block_bytes x"] o cF x(1) small by (auto simp: opened_def csz_def)
    obtain y where m: "opened st1 a us p b (c + 8 + csz x) vs' z" "bhdrs st1 (c + 8 + csz x) = Some y" "\<not> is_free y"
      using opened_merge_next [OF o [unfolded vs] x(1) True s1(3) s1(2) [unfolded vs]] by blast
    have sb: "same_blocks (bhdrs st) (bhdrs st1) y" for y by (rule kept_same_blocks [OF s1(3)])
    obtain h1 where h1: "bhdrs st1 b = Some h1" "bh_size h1 = bh_size h" "prev_hdr h1 = prev_hdr h" "block_bytes h1 = block_bytes h"
      "is_free h1" "prev_free h1 = prev_free h" using same_blocks_ex [OF sb h(1)] h(2) by blast
    let ?n = "block_bytes x + BHDR_OVERHEAD"
    have al: "aligned ?n" by (rule aligned_over)
    let ?h = "h1\<lparr>bh_size := bh_size h1 + ?n\<rparr>"
    let ?st2 = "st1\<lparr>bhdrs := (bhdrs st1)(b \<mapsto> ?h)\<rparr>"
    note sz = size_add [OF al, of h1 h1]
    have cs: "csz ?h = csz h + 8 + csz x"
      using sz(1) h1(4) small by (simp add: csz_def BHDR_OVERHEAD_def unat_word_ariths)
    have o2: "opened ?st2 a us p b (c + 8 + csz x) vs' z"
      by (rule opened_here [OF m(1) h1(1)]) (use sz in simp_all)
    have e: "free_merge_next b st = Some ?st2"
      using True h(1) x(1) nb s1(1) h1(1) by (simp add: free_merge_next_def is_free_def upd_h_Some)
    have nbs: "b \<notin> set us \<union> set vs'" using opened_bounds(6) [OF m(1)] by simp
    have "same_size (bhdrs st) (bhdrs ?st2) w" if "w \<in> set us \<union> set vs'" for w
      using same_blocks_size [OF sb [of w]] nbs that by (auto simp: same_size_def)
    moreover have "used_size ?st2 = used_size st" using s1(3) by (simp add: kept_def)
    moreover have c': "c + 8 + csz x = b + 8 + csz ?h" using cs h(3) by simp
    moreover have "bhdrs ?st2 (c + 8 + csz x) = Some y" using m(2) h(3) by simp
    ultimately show ?thesis using e o2 m(3) sz h1 vs x(2) True unfolding c'
      by (intro exI [of _ ?st2] exI [of _ vs'] exI [of _ ?h] exI [of _ y]) simp
  qed
qed

lemma merge_prev_ok:
  assumes o: "opened st a us p b c vs z" and h: "bhdrs st b = Some h" "is_free h" "c = b + 8 + csz h"
    and x: "bhdrs st c = Some x" "\<not> is_free x"
  shows "\<exists>st' us' b' h' x. free_merge_prev b st = Some (b', st') \<and> opened st' a us' None b' c vs z \<and>
     bhdrs st' b' = Some h' \<and> is_free h' \<and> c = b' + 8 + csz h' \<and> bhdrs st' c = Some x \<and> \<not> is_free x \<and>
     (us' = us \<and> b' = b \<or> us = us' @ [b'] \<and> free_at (bhdrs st) b') \<and> used_size st' = used_size st \<and>
     (\<forall>x\<in>set us' \<union> set vs. same_size (bhdrs st) (bhdrs st') x)"
proof (cases p)
  case None
  then have "\<not> prev_free h" using o h(1) by (auto simp: opened_def)
  then have "free_merge_prev b st = Some (b, st)" using h(1) by (simp add: free_merge_prev_def prev_free_def)
  then show ?thesis using o h x None
    by (intro exI [of _ st] exI [of _ us] exI [of _ b] exI [of _ h] exI [of _ x]) (simp add: same_size_def)
next
  case (Some t)
  let ?F = "free_set (bhdrs st) (us @ vs)"
  obtain us' y where t: "us = us' @ [t]" "bhdrs st t = Some y" "is_free y" "\<not> prev_free y" "b = t + 8 + csz y" "8 \<le> csz y"
    "t \<in> ?F" and op: "\<And>st'. kept st st' \<Longrightarrow> indexed st' (?F - {t}) \<Longrightarrow> opened st' a us' None t c vs z"
    using opened_merge_prev [OF o [unfolded Some]] by blast
  have ph: "prev_free h" "prev_hdr h = Some t" using o h(1) Some by (auto simp: opened_def)
  have "a \<le> t" using opened_bounds(3) [OF o, of t] t(1) by simp
  moreover have "z < a + 2 ^ 30" using o by (simp add: opened_def)
  ultimately have small: "csz y < 2 ^ 30" "csz y + 8 + csz h < 2 ^ 30"
    using opened_bounds(2) [OF o] t(5) h(3) by linarith+
  obtain st1 where s1: "extract_sized t (block_bytes y) st = Some st1" "indexed st1 (?F - {t})" "kept st st1"
    using extract_sized_ok [of st ?F t y "block_bytes y"] o t(2,7) small by (auto simp: opened_def csz_def)
  note o1 = op [OF s1(3,2)]
  have sb: "same_blocks (bhdrs st) (bhdrs st1) y" for y by (rule kept_same_blocks [OF s1(3)])
  obtain y1 where y1: "bhdrs st1 t = Some y1" "block_bytes y1 = block_bytes y" "is_free y1" "prev_free y1 = prev_free y"
    using same_blocks_ex [OF sb t(2)] t(3) by blast
  obtain x1 where x1: "bhdrs st1 c = Some x1" "\<not> is_free x1" using same_blocks_ex [OF sb x(1)] x(2) by blast
  let ?n = "block_bytes h + BHDR_OVERHEAD"
  have al: "aligned ?n" by (rule aligned_over)
  let ?y = "y1\<lparr>bh_size := bh_size y1 + ?n\<rparr>"
  let ?st2 = "st1\<lparr>bhdrs := (bhdrs st1)(t \<mapsto> ?y)\<rparr>"
  note sz = size_add [OF al, of y1 y1]
  have cs: "csz ?y = csz y + 8 + csz h"
    using sz(1) y1(2) small by (simp add: csz_def BHDR_OVERHEAD_def unat_word_ariths)
  have o2: "opened ?st2 a us' None t c vs z" by (rule opened_here [OF o1 y1(1)]) (use sz in simp_all)
  have e: "free_merge_prev b st = Some (t, ?st2)"
    using h(1) ph t(2) s1(1) y1(1) by (simp add: free_merge_prev_def prev_free_def upd_h_Some)
  have nt: "t \<notin> set us' \<union> set vs" using opened_bounds(6) [OF o1] by simp
  have "same_size (bhdrs st) (bhdrs ?st2) w" if "w \<in> set us' \<union> set vs" for w
    using same_blocks_size [OF sb [of w]] nt that by (auto simp: same_size_def)
  moreover have "used_size ?st2 = used_size st" using s1(3) by (simp add: kept_def)
  moreover have "c = t + 8 + csz ?y" using cs t(5) h(3) by simp
  moreover have "bhdrs ?st2 c = Some x1" using x1(1) t(5) h(3) by simp
  moreover have "free_at (bhdrs st) t" using t(2,3) by (simp add: free_at_def)
  ultimately show ?thesis using e o2 x1(2) sz y1 t(1)
    by (intro exI [of _ ?st2] exI [of _ us'] exI [of _ t] exI [of _ ?y] exI [of _ x1]) simp
qed

section \<open>Freeing\<close>

text \<open>The blocks after block b was freed: us and vs lose the neighbours that were merged with b.\<close>

definition merged :: "(nat \<Rightarrow> bhdr_t option) \<Rightarrow> nat list \<Rightarrow> nat \<Rightarrow> nat list \<Rightarrow> nat list \<Rightarrow> nat \<Rightarrow> nat list \<Rightarrow> bool" where
  "merged H us b vs us' b' vs' \<longleftrightarrow> (us' = us \<and> b' = b \<or> us = us' @ [b'] \<and> free_at H b') \<and>
     (vs' = vs \<or> (\<exists>c. vs = c # vs' \<and> free_at H c))"

lemma same_size_trans: "same_size H H1 x \<Longrightarrow> same_size H1 H2 x \<Longrightarrow> same_size H H2 x"
  by (simp add: same_size_def)

lemma used_sum_free: "free_at H x \<Longrightarrow> used_sum H (x # xs) = used_sum H xs"
  by (auto simp: free_at_def used_sum_Cons)

lemma merged_used:
  assumes "merged H us b vs us' b' vs'"
  shows "used_sum H (us' @ vs') = used_sum H (us @ vs)" 
  using assms used_sum_free [of H _ "[]"] by (auto simp: merged_def used_sum_append used_sum_free) (simp_all add: used_sum_def)

text \<open>Freeing a block that is in use keeps the invariant: the block, with the free neighbours it had, is one
  free block, every other block keeps its size and its state, and the bytes are no longer counted.\<close>
lemma free_ex_blocks:
  assumes inv: "tlsf_inv st u a bs z" and bs: "bs = us @ b # vs" and used: "bhdrs st b = Some h" "\<not> is_free h"
  shows "\<exists>st' us' b' vs'. free_ex (Some (b + 8)) st = Some st' \<and> merged (bhdrs st) us b vs us' b' vs' \<and>
     tlsf_inv st' u a (us' @ b' # vs') z \<and> free_at (bhdrs st') b' \<and>
     (\<forall>x\<in>set us' \<union> set vs'. same_size (bhdrs st) (bhdrs st') x)"
proof -
  have c: "closed (bhdrs st) None a (us @ b # vs) z" "z < a + 2 ^ 30" "indexed st (free_set (bhdrs st) bs)"
    "used_size st = u + used_sum (bhdrs st) bs" using inv bs by (simp_all add: tlsf_inv_def)
  have F: "free_set (bhdrs st) bs = free_set (bhdrs st) (us @ vs)" using used bs by (simp add: free_set_mid free_at_def)
  have bF: "b \<notin> free_set (bhdrs st) bs" using used by (simp add: free_set_def free_at_def)
  let ?h = "h\<lparr>bh_size := bh_size h OR FREE_BLOCK, fr_prev := None, fr_next := None\<rparr>"
  let ?st2 = "st\<lparr>used_size := used_size st - (block_bytes h + 8), bhdrs := (bhdrs st)(b \<mapsto> ?h)\<rparr>"
  have sz: "block_bytes ?h = block_bytes h" "is_free ?h" "prev_free ?h = prev_free h"
    using size_free [of h h] by (simp_all add: block_bytes_def is_free_def prev_free_def)
  then have cz: "csz ?h = csz h" by (simp add: csz_def)
  have i2: "indexed ?st2 (free_set (bhdrs st) (us @ vs))"
    using indexed_upd [OF c(3) bF] F by (simp add: indexed_def)
  obtain p where o: "opened ?st2 a us p b (b + 8 + csz h) vs z" 
      "free_set (bhdrs ?st2) (us @ vs) = free_set (bhdrs st) (us @ vs)" "used_sum (bhdrs ?st2) (us @ vs) = used_sum (bhdrs st) (us @ vs)"
      "b \<notin> set (us @ vs)"
    using open_block [where st = st and st' = ?st2 and h' = ?h, OF c(1,2) used(1) _ _ sz(3) _ i2] by (auto simp: same_blocks_def)
  have h2: "bhdrs ?st2 b = Some ?h" by simp
  obtain st3 vs' h3 x3 where m: "free_merge_next b ?st2 = Some st3" "opened st3 a us p b (b + 8 + csz h3) vs' z"
     "bhdrs st3 b = Some h3" "is_free h3" "bhdrs st3 (b + 8 + csz h3) = Some x3" "\<not> is_free x3"
     "vs' = vs \<or> vs = (b + 8 + csz h) # vs' \<and> free_at (bhdrs ?st2) (b + 8 + csz h)" "used_size st3 = used_size ?st2"
     "\<forall>x\<in>set us \<union> set vs'. same_size (bhdrs ?st2) (bhdrs st3) x"
    using merge_next_ok [OF o(1) h2 sz(2)] cz by auto
  obtain st4 us' b' h4 x4 where n: "free_merge_prev b st3 = Some (b', st4)" "opened st4 a us' None b' (b + 8 + csz h3) vs' z"
     "bhdrs st4 b' = Some h4" "is_free h4" "b + 8 + csz h3 = b' + 8 + csz h4" "bhdrs st4 (b + 8 + csz h3) = Some x4" "\<not> is_free x4"
     "us' = us \<and> b' = b \<or> us = us' @ [b'] \<and> free_at (bhdrs st3) b'" "used_size st4 = used_size st3"
     "\<forall>x\<in>set us' \<union> set vs'. same_size (bhdrs st3) (bhdrs st4) x"
    using merge_prev_ok [OF m(2,3,4) refl m(5,6)] by blast
  obtain st' where e: "enter_free b' st4 = Some st'" "closed (bhdrs st') None a (us' @ b' # vs') z"
     "indexed st' (free_set (bhdrs st') (us' @ b' # vs'))" "free_at (bhdrs st') b'" "used_size st' = used_size st4"
     "\<forall>x\<in>set us' \<union> set vs'. same_size (bhdrs st4) (bhdrs st') x"
    using enter_free_ok [OF n(2,3,4,5,6,7)] by blast
  have fe: "free_ex (Some (b + 8)) st = Some st'"
    using used(1) m(1) n(1) e(1) sz(1) size_free [of h h]
    by (simp add: free_ex_def upd_h_Some clear_links_def sub_used_def BHDR_OVERHEAD_def upd_h_def block_bytes_def)
  have s2: "same_size (bhdrs st) (bhdrs ?st2) x" if "x \<noteq> b" for x using that by (simp add: same_size_def)
  have sub: "set us' \<subseteq> set us" "set vs' \<subseteq> set vs" using m(7) n(8) by auto
  have ss: "same_size (bhdrs st) (bhdrs st') x" if x: "x \<in> set us' \<union> set vs'" for x
  proof -
    have "x \<noteq> b" "x \<in> set us \<union> set vs'" using x sub o(4) by auto
    then have "same_size (bhdrs st) (bhdrs st3) x" using s2 m(9) same_size_trans by blast
    then show ?thesis using n(10) e(6) x same_size_trans by blast
  qed
  have mg: "merged (bhdrs st) us b vs us' b' vs'"
  proof -
    have "free_at (bhdrs st) b'" if "us = us' @ [b']" "free_at (bhdrs st3) b'"
    proof -
      have "b' \<noteq> b" "b' \<in> set us" using that(1) o(4) by auto
      then have "same_size (bhdrs st) (bhdrs st3) b'" using s2 m(9) same_size_trans by blast
      then show ?thesis using that(2) same_size_free by blast
    qed
    moreover have "free_at (bhdrs st) (b + 8 + csz h)" if "free_at (bhdrs ?st2) (b + 8 + csz h)"
      using that same_size_free [OF s2 [of "b + 8 + csz h"]] by simp
    ultimately show ?thesis using m(7) n(8) by (auto simp: merged_def)
  qed
  have "used_sum (bhdrs st') (us' @ b' # vs') = used_sum (bhdrs st') (us' @ vs')"
    using e(4) by (simp add: used_sum_append used_sum_free)
  also have "\<dots> = used_sum (bhdrs st) (us' @ vs')" using ss by (intro same_size_used) auto
  also have "\<dots> = used_sum (bhdrs st) (us @ vs)" by (rule merged_used [OF mg])
  finally have "used_size st' = u + used_sum (bhdrs st') (us' @ b' # vs')"
    using c(4) bs used e(5) n(9) m(8) by (simp add: used_sum_append used_sum_Cons)
  then have "tlsf_inv st' u a (us' @ b' # vs') z" using e(2,3) c(2) by (simp add: tlsf_inv_def)
  then show ?thesis using fe mg e(4) ss by blast
qed

end
