(* ===== verification/XTlsfRealloc.thy ===== *)
theory XTlsfRealloc
  imports XTlsfFree
begin

unbundle bit_operations_syntax

text \<open>
  realloc_ex (kernel/tlsf.c): a block shrinks or grows in place when it can,
  with the free block behind it, and is moved otherwise.
\<close>

section \<open>In place\<close>

text \<open>The blocks vs behind the resized one lose the one at their head when it was free, and gain what it has over.\<close>

definition resized :: "(nat \<Rightarrow> bhdr_t option) \<Rightarrow> (nat \<Rightarrow> bhdr_t option) \<Rightarrow> nat list \<Rightarrow> nat list \<Rightarrow> nat list \<Rightarrow> bool" where
  "resized H H' us vs vs1 \<longleftrightarrow> (\<exists>vs0. (vs0 = vs \<or> (\<exists>c. vs = c # vs0 \<and> free_at H c)) \<and>
     (vs1 = vs0 \<or> (\<exists>e. vs1 = e # vs0 \<and> free_at H' e)) \<and> (\<forall>x\<in>set us \<union> set vs0. same_size H H' x))"

lemma realloc_split_ok:
  assumes o: "opened st a us p b c vs z" and h: "bhdrs st b = Some h" "\<not> is_free h"
    and x: "bhdrs st c = Some x" "\<not> is_free x"
    and n: "aligned n" "8 \<le> unat n" "aligned tmp" "b + 8 + unat n + unat tmp = c"
    and whole: "\<not> 16 \<le> unat tmp \<Longrightarrow> c = b + 8 + csz h \<and> \<not> prev_free x"
  shows "\<exists>st' vs1 g. realloc_split b n tmp c st = Some st' \<and> closed (bhdrs st') None a (us @ b # vs1) z \<and>
     indexed st' (free_set (bhdrs st') (us @ b # vs1)) \<and> bhdrs st' b = Some g \<and> unat n \<le> csz g \<and> \<not> is_free g \<and>
     used_size st' = used_size st \<and> (vs1 = vs \<or> (\<exists>e. vs1 = e # vs \<and> free_at (bhdrs st') e)) \<and>
     (\<forall>x\<in>set us \<union> set vs. same_size (bhdrs st) (bhdrs st') x)"
proof (cases "16 \<le> unat tmp")
  case True
  let ?f = "\<lambda>x. x\<lparr>prev_hdr := Some (GET_NEXT_BLOCK b n), bh_size := bh_size x OR PREV_FREE\<rparr>"
  have nb: "GET_NEXT_BLOCK b n = b + 8 + unat n" by (simp add: GET_NEXT_BLOCK_def)
  have bs: "bh_size (?f x) = bh_size (x\<lparr>bh_size := bh_size x OR PREV_FREE\<rparr>)" "prev_hdr (?f x) = Some (b + 8 + unat n)"
    by (simp_all add: nb)
  then have fb: "block_bytes (?f x) = block_bytes x" "is_free (?f x) = is_free x" "prev_free (?f x)"
    using size_prev [of x x] unfolding block_bytes_def is_free_def prev_free_def bs(1) by simp_all
  have f: "csz (?f x) = csz x" "\<not> is_free (?f x)" "block_bytes (?f x) = block_bytes x" "cell (Some (b + 8 + unat n)) (?f x)"
    using x(2) fb bs(2) unfolding csz_def cell_def by simp_all
  have "realloc_split b n tmp c st = carve b n tmp c ?f st"
    using True by (simp add: realloc_split_def BHDR_SIZE_def word_le_nat_alt)
  then show ?thesis using carve_ok [where f = ?f, OF o h(1) x n(1-3) True n(4) f] by (auto simp: csz_def)
next
  case False
  have e: "realloc_split b n tmp c st = Some st"
    using False by (simp add: realloc_split_def BHDR_SIZE_def word_le_nat_alt)
  have w: "c = b + 8 + csz h" "\<not> prev_free x" using whole [OF False] by auto
  have "closed (bhdrs st) None a (us @ b # vs) z"
    by (rule close_block [OF o h(1) w(1) _ x(1)]) (use h x w in \<open>auto simp: cell_def\<close>)
  moreover have "free_set (bhdrs st) (us @ b # vs) = free_set (bhdrs st) (us @ vs)" using h by (simp add: free_set_mid free_at_def)
  then have "indexed st (free_set (bhdrs st) (us @ b # vs))" using o by (simp add: opened_def)
  moreover have "unat n \<le> csz h" using n(4) w(1) by linarith
  ultimately show ?thesis using e h by (intro exI [of _ st] exI [of _ vs] exI [of _ h]) (simp add: same_size_def)
qed

text \<open>The block behind b, free, is taken out of the index; b may use what it had.\<close>

lemma take_next_ok:
  assumes o: "opened st a us p b c vs z" and c: "closed (bhdrs st) q c vs z" and x: "bhdrs st c = Some x" "is_free x"
  shows "\<exists>st' vs' y. extract_sized c (block_bytes x) st = Some st' \<and> vs = c # vs' \<and> kept st st' \<and>
     opened st' a us p b (c + 8 + csz x) vs' z \<and> c + 8 + csz x \<le> z \<and>
     bhdrs st' (c + 8 + csz x) = Some y \<and> \<not> is_free y"
proof -
  have "c \<in> set vs" using closed_first [OF c] x by auto
  then obtain vs' where vs: "vs = c # vs'" using c by (cases vs) (auto simp: closed_Cons)
  let ?F = "free_set (bhdrs st) (us @ vs)"
  have cF: "c \<in> ?F" using x vs by (simp add: free_set_def free_at_def)
  have "closed (bhdrs st) (Some c) (c + 8 + csz x) vs' z" using c vs x by (auto simp: closed_Cons)
  then have cz: "c + 8 + csz x \<le> z" using closed_bounds by blast
  have "z < a + 2 ^ 30" "b + 16 \<le> c" using o by (simp_all add: opened_def)
  then have "csz x < 2 ^ 30" using cz opened_bounds(1) [OF o] by linarith
  then obtain st1 where s1: "extract_sized c (block_bytes x) st = Some st1" "indexed st1 (?F - {c})" "kept st st1"
    using extract_sized_ok [of st ?F c x "block_bytes x"] o cF x(1) by (auto simp: opened_def csz_def)
  show ?thesis
    using opened_merge_next [OF o [unfolded vs] x s1(3) s1(2) [unfolded vs]] s1 vs cz by auto
qed

lemma realloc_end:
  assumes o: "opened st a us p b c vs z" and h: "bhdrs st b = Some h" "\<not> is_free h"
    and x: "bhdrs st c = Some x" "\<not> is_free x"
    and n: "aligned n" "8 \<le> unat n" "aligned tmp" "b + 8 + unat n + unat tmp = c"
    and whole: "\<not> 16 \<le> unat tmp \<Longrightarrow> c = b + 8 + csz h \<and> \<not> prev_free x"
    and u: "used_size st = u + used_sum (bhdrs st) (us @ vs)"
  shows "\<exists>st1 st' vs1 g. realloc_split b n tmp c st = Some st1 \<and> count_used b st1 = Some st' \<and> tlsf_inv st' u a (us @ b # vs1) z \<and>
     bhdrs st' b = Some g \<and> \<not> is_free g \<and> unat n \<le> csz g \<and>
     (vs1 = vs \<or> (\<exists>e. vs1 = e # vs \<and> free_at (bhdrs st') e)) \<and> (\<forall>x\<in>set us \<union> set vs. same_size (bhdrs st) (bhdrs st') x)"
proof -
  obtain st1 vs1 g where r: "realloc_split b n tmp c st = Some st1" "closed (bhdrs st1) None a (us @ b # vs1) z"
     "indexed st1 (free_set (bhdrs st1) (us @ b # vs1))" "bhdrs st1 b = Some g" "unat n \<le> csz g" "\<not> is_free g"
     "used_size st1 = used_size st" "vs1 = vs \<or> (\<exists>e. vs1 = e # vs \<and> free_at (bhdrs st1) e)"
     "\<forall>x\<in>set us \<union> set vs. same_size (bhdrs st) (bhdrs st1) x"
    using realloc_split_ok [OF o h x n whole] by blast
  let ?st = "add_used (block_bytes g + BHDR_OVERHEAD) st1"
  have H: "bhdrs ?st = bhdrs st1" by (simp add: add_used_def)
  have "used_sum (bhdrs st1) (us @ b # vs1) = block_bytes g + 8 + used_sum (bhdrs st1) (us @ vs1)"
    using r(4,6) by (simp add: used_sum_append used_sum_Cons)
  moreover have "used_sum (bhdrs st1) (us @ vs1) = used_sum (bhdrs st1) (us @ vs)"
    using r(8) used_sum_free by (auto simp: used_sum_append)
  moreover have "\<dots> = used_sum (bhdrs st) (us @ vs)" using r(9) by (intro same_size_used) auto
  ultimately have "used_size ?st = u + used_sum (bhdrs ?st) (us @ b # vs1)"
    using u r(7) by (simp add: add_used_def BHDR_OVERHEAD_def)
  moreover have "indexed ?st (free_set (bhdrs st1) (us @ b # vs1))" using r(3) by (simp add: add_used_def indexed_used)
  ultimately have "tlsf_inv ?st u a (us @ b # vs1) z" using r(2) o H by (simp add: tlsf_inv_def opened_def)
  moreover have "count_used b st1 = Some ?st" using r(4) by (simp add: count_used_def)
  ultimately show ?thesis using r H by (intro exI [of _ st1] exI [of _ ?st] exI [of _ vs1] exI [of _ g]) simp
qed

text \<open>What the accounting and the blocks are once b is no longer counted.\<close>

lemma uncounted:
  assumes inv: "tlsf_inv st u a (us @ b # vs) z" and h: "bhdrs st b = Some h" "\<not> is_free h"
  shows "\<exists>p x. opened (sub_used (block_bytes h + BHDR_OVERHEAD) st) a us p b (b + 8 + csz h) vs z \<and>
     closed (bhdrs st) None (b + 8 + csz h) vs z \<and> b \<notin> set (us @ vs) \<and> 8 \<le> csz h \<and>
     bhdrs st (b + 8 + csz h) = Some x \<and> \<not> prev_free x \<and> b + 8 + csz h \<le> z \<and> z < a + 2 ^ 30 \<and> a \<le> b \<and>
     used_size (sub_used (block_bytes h + BHDR_OVERHEAD) st) = u + used_sum (bhdrs st) (us @ vs)"
proof -
  let ?st = "sub_used (block_bytes h + BHDR_OVERHEAD) st"
  have c: "closed (bhdrs st) None a (us @ b # vs) z" "z < a + 2 ^ 30" "indexed st (free_set (bhdrs st) (us @ b # vs))"
    "used_size st = u + used_sum (bhdrs st) (us @ b # vs)" using inv by (simp_all add: tlsf_inv_def)
  have H: "bhdrs ?st = bhdrs st" by (simp add: sub_used_def)
  have "free_set (bhdrs st) (us @ b # vs) = free_set (bhdrs st) (us @ vs)" using h by (simp add: free_set_mid free_at_def)
  then have i: "indexed ?st (free_set (bhdrs st) (us @ vs))" using c(3) by (simp add: sub_used_def indexed_used)
  obtain p where p: "opened ?st a us p b (b + 8 + csz h) vs z" "8 \<le> csz h" "closed (bhdrs st) None (b + 8 + csz h) vs z"
      "b \<notin> set (us @ vs)"
    using open_block [where st = st and st' = ?st and h' = h, OF c(1,2) h(1) _ _ refl refl i] h H
    by (auto simp: same_blocks_def)
  obtain x where x: "bhdrs st (b + 8 + csz h) = Some x" "cell None x" using closed_first [OF p(3)] by blast
  have "used_size ?st = u + used_sum (bhdrs st) (us @ vs)"
    using c(4) h by (simp add: sub_used_def used_sum_append used_sum_Cons BHDR_OVERHEAD_def)
  then show ?thesis using p x opened_bounds(1,2) [OF p(1)] c(2) by (intro exI [of _ p] exI [of _ x]) (simp add: cell_def)
qed

lemma same_size_resized:
  assumes "vs0 = vs \<or> (\<exists>c. vs = c # vs0 \<and> free_at H c)" "vs1 = vs0 \<or> (\<exists>e. vs1 = e # vs0 \<and> free_at H2 e)"
    and "\<And>x. x \<in> set us \<union> set vs0 \<Longrightarrow> same_size H H1 x" "\<forall>x\<in>set us \<union> set vs0. same_size H1 H2 x"
  shows "resized H H2 us vs vs1"
  unfolding resized_def using assms same_size_trans by (intro exI [of _ vs0]) blast

lemma realloc_shrink_ok:
  assumes inv: "tlsf_inv st u a (us @ b # vs) z" and h: "bhdrs st b = Some h" "\<not> is_free h"
    and n: "aligned n" "8 \<le> unat n" "n \<le> block_bytes h"
  shows "\<exists>st' vs1 g. realloc_shrink b n st = Some st' \<and> tlsf_inv st' u a (us @ b # vs1) z \<and>
     bhdrs st' b = Some g \<and> \<not> is_free g \<and> unat n \<le> csz g \<and> resized (bhdrs st) (bhdrs st') us vs vs1"
proof -
  let ?c = "b + 8 + csz h" and ?st = "sub_used (block_bytes h + BHDR_OVERHEAD) st"
  obtain p x where o: "opened ?st a us p b ?c vs z" "closed (bhdrs st) None ?c vs z" "b \<notin> set (us @ vs)" "8 \<le> csz h"
     "bhdrs st ?c = Some x" "\<not> prev_free x" "?c \<le> z" "z < a + 2 ^ 30" "a \<le> b"
     "used_size ?st = u + used_sum (bhdrs st) (us @ vs)" using uncounted [OF inv h] by blast
  have H: "bhdrs ?st = bhdrs st" by (simp add: sub_used_def)
  have nb: "GET_NEXT_BLOCK b (block_bytes h) = ?c" by (simp add: GET_NEXT_BLOCK_def csz_def)
  have le: "unat n \<le> csz h" using n(3) by (simp add: csz_def word_le_nat_alt)
  show ?thesis
  proof (cases "is_free x")
    case False
    have t: "aligned (block_bytes h - n)" "b + 8 + unat n + unat (block_bytes h - n) = ?c"
      using le n(1) aligned_block_bytes [of h] by (simp_all add: unat_sub n(3) csz_def aligned_iff)
    obtain st1 st' vs1 g where r: "realloc_split b n (block_bytes h - n) ?c ?st = Some st1" "count_used b st1 = Some st'"
       "tlsf_inv st' u a (us @ b # vs1) z" "bhdrs st' b = Some g" "\<not> is_free g" "unat n \<le> csz g"
       "vs1 = vs \<or> (\<exists>e. vs1 = e # vs \<and> free_at (bhdrs st') e)" "\<forall>x\<in>set us \<union> set vs. same_size (bhdrs ?st) (bhdrs st') x"
      using realloc_end [OF o(1) h [folded H] o(5) [folded H] False n(1,2) t] o(6,10) H by auto
    have "resized (bhdrs st) (bhdrs st') us vs vs1" by (rule same_size_resized [OF _ r(7) _ r(8)]) (simp_all add: H same_size_def)
    moreover have "realloc_shrink b n st = Some st'"
      using r(1,2) False h(1) o(5) H by (simp add: realloc_shrink_def nb Let_def is_free_def)
    ultimately show ?thesis using r by blast
  next
    case True
    obtain st2 vs' y where e: "extract_sized ?c (block_bytes x) ?st = Some st2" "vs = ?c # vs'" "kept ?st st2"
       "opened st2 a us p b (?c + 8 + csz x) vs' z" "?c + 8 + csz x \<le> z" "bhdrs st2 (?c + 8 + csz x) = Some y" "\<not> is_free y"
      using take_next_ok [OF o(1) o(2) [folded H] o(5) [folded H] True] by blast
    let ?c2 = "?c + 8 + csz x" and ?t = "block_bytes h + (block_bytes x + BHDR_OVERHEAD)"
    have sb: "same_blocks (bhdrs st) (bhdrs st2) w" for w using kept_same_blocks [OF e(3)] H by simp
    obtain g where g: "bhdrs st2 b = Some g" "\<not> is_free g" using same_blocks_ex [OF sb h(1)] h(2) by blast
    have "csz h + 8 + csz x < 2 ^ 30" using e(5) o(8,9) by linarith
    then have ut: "unat ?t = csz h + 8 + csz x" by (simp add: csz_def BHDR_OVERHEAD_def unat_word_ariths)
    then have un: "unat (?t - n) = csz h + 8 + csz x - unat n" using le by (simp add: unat_sub word_le_nat_alt)
    have "aligned ?t" using aligned_add [OF aligned_block_bytes aligned_over] .
    then have t: "aligned (?t - n)" "b + 8 + unat n + unat (?t - n) = ?c2"
      using n(1) le ut un by (simp_all add: aligned_iff)
    have u': "used_size st2 = u + used_sum (bhdrs st2) (us @ vs')"
    proof -
      have "used_sum (bhdrs st2) (us @ vs') = used_sum (bhdrs st) (us @ vs')"
        by (intro same_size_used ballI same_blocks_size sb)
      moreover have "used_sum (bhdrs st) (us @ vs) = used_sum (bhdrs st) (us @ vs')"
        using e(2) o(5) True by (simp add: used_sum_append used_sum_Cons)
      ultimately show ?thesis using o(10) e(3) by (simp add: kept_def)
    qed
    have big: "16 \<le> unat (?t - n)" if "8 \<le> csz x" using un le that by linarith
    have x8: "8 \<le> csz x" using o(2,5) e(2) by (auto simp: closed_Cons)
    obtain st3 st' vs1 g' where r: "realloc_split b n (?t - n) ?c2 st2 = Some st3" "count_used b st3 = Some st'"
       "tlsf_inv st' u a (us @ b # vs1) z" "bhdrs st' b = Some g'" "\<not> is_free g'" "unat n \<le> csz g'"
       "vs1 = vs' \<or> (\<exists>e. vs1 = e # vs' \<and> free_at (bhdrs st') e)" "\<forall>x\<in>set us \<union> set vs'. same_size (bhdrs st2) (bhdrs st') x"
      using realloc_end [OF e(4) g e(6,7) n(1,2) t _ u'] big [OF x8] by auto
    have "free_at (bhdrs st) ?c" using o(5) True by (simp add: free_at_def)
    then have v: "vs' = vs \<or> (\<exists>c. vs = c # vs' \<and> free_at (bhdrs st) c)" using e(2) by blast
    have "resized (bhdrs st) (bhdrs st') us vs vs1"
      by (rule same_size_resized [OF v r(7) _ r(8)]) (rule same_blocks_size [OF sb])
    moreover have "GET_NEXT_BLOCK ?c (block_bytes x) = ?c2" by (simp add: GET_NEXT_BLOCK_def csz_def)
    then have "realloc_shrink b n st = Some st'"
      using r(1,2) True h(1) o(5) H e(1) by (simp add: realloc_shrink_def nb Let_def is_free_def)
    ultimately show ?thesis using r by blast
  qed
qed

lemma realloc_grow_ok:
  assumes inv: "tlsf_inv st u a (us @ b # vs) z" and h: "bhdrs st b = Some h" "\<not> is_free h"
    and x: "bhdrs st (b + 8 + csz h) = Some x" "is_free x"
    and n: "aligned n" "8 \<le> unat n" "unat n \<le> csz h + csz x"
  shows "\<exists>st' vs1 g. realloc_grow b n st = Some st' \<and> tlsf_inv st' u a (us @ b # vs1) z \<and>
     bhdrs st' b = Some g \<and> \<not> is_free g \<and> unat n \<le> csz g \<and> resized (bhdrs st) (bhdrs st') us vs vs1"
proof -
  let ?c = "b + 8 + csz h" and ?st = "sub_used (block_bytes h + BHDR_OVERHEAD) st"
  obtain p where o: "opened ?st a us p b ?c vs z" "closed (bhdrs st) None ?c vs z" "b \<notin> set (us @ vs)"
     "z < a + 2 ^ 30" "a \<le> b" "used_size ?st = u + used_sum (bhdrs st) (us @ vs)" using uncounted [OF inv h] by blast
  have H: "bhdrs ?st = bhdrs st" by (simp add: sub_used_def)
  let ?c2 = "?c + 8 + csz x"
  obtain st2 vs' y where e: "extract_sized ?c (block_bytes x) ?st = Some st2" "vs = ?c # vs'" "kept ?st st2"
     "opened st2 a us p b ?c2 vs' z" "?c2 \<le> z" "bhdrs st2 ?c2 = Some y" "\<not> is_free y"
    using take_next_ok [OF o(1) o(2) [folded H] x(1) [folded H] x(2)] by blast
  have sb: "same_blocks (bhdrs st) (bhdrs st2) w" for w using kept_same_blocks [OF e(3)] H by simp
  obtain g where g: "bhdrs st2 b = Some g" "\<not> is_free g" "block_bytes g = block_bytes h"
    using same_blocks_ex [OF sb h(1)] h(2) by blast
  let ?g = "g\<lparr>bh_size := bh_size g + (block_bytes x + BHDR_OVERHEAD)\<rparr>"
  let ?y = "y\<lparr>prev_hdr := Some b, bh_size := bh_size y AND NOT PREV_FREE\<rparr>"
  let ?st3 = "st2\<lparr>bhdrs := (bhdrs st2)(b \<mapsto> ?g)\<rparr>"
  let ?st4 = "?st3\<lparr>bhdrs := (bhdrs ?st3)(?c2 \<mapsto> ?y)\<rparr>"
  note sz = size_add [OF aligned_over [of x], of g g]
  have o3: "opened ?st3 a us p b ?c2 vs' z" by (rule opened_here [OF e(4) g(1)]) (use sz in simp_all)
  have bc: "bhdrs ?st3 ?c2 = Some y" using e(6) by simp
  have "bh_size ?y = bh_size (y\<lparr>bh_size := bh_size y AND NOT PREV_FREE\<rparr>)" by simp
  then have yb: "block_bytes ?y = block_bytes y" "is_free ?y = is_free y" "\<not> prev_free ?y"
    using size_unprev [of y y] unfolding block_bytes_def is_free_def prev_free_def by simp_all
  have o4: "opened ?st4 a us p b ?c2 vs' z"
    by (rule opened_next [OF o3 bc e(7) yb(1), of None]) (use yb e(7) in \<open>auto simp: cell_def\<close>)
  have g4: "bhdrs ?st4 b = Some ?g" "\<not> is_free ?g" "bhdrs ?st4 ?c2 = Some ?y" "\<not> is_free ?y"
    using sz(2) g(2) e(7) yb(2) by auto
  have "csz h + 8 + csz x < 2 ^ 30" using e(5) o(4,5) by linarith
  then have cg: "csz ?g = csz h + 8 + csz x"
    using sz(1) g(3) by (simp add: csz_def BHDR_OVERHEAD_def unat_word_ariths)
  have nb: "GET_NEXT_BLOCK b (block_bytes h) = ?c" "GET_NEXT_BLOCK b (block_bytes ?g) = ?c2"
    using cg by (simp_all add: GET_NEXT_BLOCK_def csz_def)
  have un: "unat (block_bytes ?g - n) = csz ?g - unat n" using n(3) cg by (simp add: unat_sub word_le_nat_alt csz_def)
  have t: "aligned (block_bytes ?g - n)" "b + 8 + unat n + unat (block_bytes ?g - n) = ?c2"
    using n(1,3) aligned_block_bytes [of ?g] un cg by (simp_all add: aligned_iff csz_def)
  have u': "used_size ?st4 = u + used_sum (bhdrs ?st4) (us @ vs')"
  proof -
    have "same_size (bhdrs st) (bhdrs ?st4) w" if "w \<in> set (us @ vs')" for w
    proof -
      have "w \<noteq> b" using that o(3) e(2) by auto
      then show ?thesis using same_blocks_size [OF sb [of w]] e(6) yb by (auto simp: same_size_def)
    qed
    then have "used_sum (bhdrs ?st4) (us @ vs') = used_sum (bhdrs st) (us @ vs')" by (intro same_size_used) auto
    moreover have "used_sum (bhdrs st) (us @ vs) = used_sum (bhdrs st) (us @ vs')"
      using e(2) x by (simp add: used_sum_append used_sum_Cons)
    ultimately show ?thesis using o(6) e(3) by (simp add: kept_def)
  qed
  have w: "?c2 = b + 8 + csz ?g \<and> \<not> prev_free ?y" using cg yb(3) by simp
  obtain st5 st' vs1 g' where r: "realloc_split b n (block_bytes ?g - n) ?c2 ?st4 = Some st5" "count_used b st5 = Some st'"
     "tlsf_inv st' u a (us @ b # vs1) z" "bhdrs st' b = Some g'" "\<not> is_free g'" "unat n \<le> csz g'"
     "vs1 = vs' \<or> (\<exists>e. vs1 = e # vs' \<and> free_at (bhdrs st') e)" "\<forall>x\<in>set us \<union> set vs'. same_size (bhdrs ?st4) (bhdrs st') x"
    using realloc_end [OF o4 g4 n(1,2) t w u'] by blast
  have "free_at (bhdrs st) ?c" using x by (simp add: free_at_def)
  then have v: "vs' = vs \<or> (\<exists>c. vs = c # vs' \<and> free_at (bhdrs st) c)" using e(2) by blast
  have "resized (bhdrs st) (bhdrs st') us vs vs1"
  proof (rule same_size_resized [OF v r(7) _ r(8)])
    fix w assume "w \<in> set us \<union> set vs'"
    then have "w \<noteq> b" using o(3) e(2) by auto
    then show "same_size (bhdrs st) (bhdrs ?st4) w" using same_blocks_size [OF sb [of w]] e(6) yb by (auto simp: same_size_def)
  qed
  moreover have "realloc_grow b n st = Some st'"
    using r(1,2) h(1) x(1) e(1,6) g(1) nb by (simp add: realloc_grow_def Let_def upd_h_Some)
  ultimately show ?thesis using r by blast
qed

end
