(* ===== verification/XTlsfPool.thy ===== *)
theory XTlsfPool
  imports XTlsfRealloc
begin

unbundle bit_operations_syntax

text \<open>
  What the allocator (kernel/tlsf.c) promises its callers: a pool is a map from
  the pointers handed out to the bytes behind them, allocation adds an entry,
  freeing removes one, and no two entries share a byte.
\<close>

section \<open>The blocks that are in use\<close>

definition blk :: "(nat \<Rightarrow> bhdr_t option) \<Rightarrow> nat \<Rightarrow> nat option" where
  "blk H b = (case H b of None \<Rightarrow> None | Some h \<Rightarrow> if is_free h then None else Some (csz h))"

definition blk_in :: "(nat \<Rightarrow> bhdr_t option) \<Rightarrow> nat list \<Rightarrow> nat \<Rightarrow> nat option" where
  "blk_in H bs b = (if b \<in> set bs then blk H b else None)"

definition live :: "(nat \<Rightarrow> bhdr_t option) \<Rightarrow> nat list \<Rightarrow> nat \<Rightarrow> nat option" where
  "live H bs p = (if 8 \<le> p then blk_in H bs (p - 8) else None)"

definition pool :: "u32 \<Rightarrow> nat \<Rightarrow> nat \<Rightarrow> tlsf_t \<Rightarrow> (nat \<Rightarrow> nat option) \<Rightarrow> bool" where
  "pool u a z st M \<longleftrightarrow> (\<exists>bs. tlsf_inv st u a bs z \<and> M = live (bhdrs st) bs)"

lemma poolI: "tlsf_inv st u a bs z \<Longrightarrow> M = live (bhdrs st) bs \<Longrightarrow> pool u a z st M"
  by (auto simp: pool_def)

lemma poolE:
  assumes "pool u a z st M" obtains bs where "tlsf_inv st u a bs z" "M = live (bhdrs st) bs"
  using assms by (auto simp: pool_def)

lemma blk_used: "H b = Some h \<Longrightarrow> \<not> is_free h \<Longrightarrow> blk H b = Some (csz h)"
  by (simp add: blk_def)

lemma blk_free: "free_at H b \<Longrightarrow> blk H b = None"
  by (auto simp: blk_def free_at_def)

lemma blk_Some: "blk H b = Some k \<longleftrightarrow> (\<exists>h. H b = Some h \<and> \<not> is_free h \<and> csz h = k)"
  by (cases "H b") (auto simp: blk_def)

lemma blk_same: "same_size H H' b \<Longrightarrow> blk H' b = blk H b"
  by (cases "H b"; cases "H' b") (auto simp: blk_def same_size_def csz_def)

text \<open>The blocks other than b: those in U stay, the others are free.\<close>

lemma blk_in_frame:
  assumes "U \<subseteq> set bs" "U \<subseteq> set bs'" "\<forall>y\<in>set bs - U - {b}. free_at H y" "\<forall>y\<in>set bs' - U - {b}. free_at H' y"
    "\<forall>y\<in>U. same_size H H' y" "x \<noteq> b"
  shows "blk_in H' bs' x = blk_in H bs x"
proof (cases "x \<in> U")
  case True
  then show ?thesis using assms blk_same by (auto simp: blk_in_def)
next
  case False
  then have "x \<in> set bs \<Longrightarrow> blk H x = None" "x \<in> set bs' \<Longrightarrow> blk H' x = None" using assms(3,4,6) blk_free by blast+
  then show ?thesis by (simp add: blk_in_def)
qed

lemma live_frame:
  assumes "U \<subseteq> set bs" "U \<subseteq> set bs'" "\<forall>y\<in>set bs - U - {b}. free_at H y" "\<forall>y\<in>set bs' - U - {b}. free_at H' y"
    "\<forall>y\<in>U. same_size H H' y" "blk_in H' bs' b = v"
  shows "live H' bs' = (live H bs)(b + 8 := v)"
proof
  fix p
  show "live H' bs' p = ((live H bs)(b + 8 := v)) p"
  proof (cases "p = b + 8")
    case False
    then have "8 \<le> p \<Longrightarrow> p - 8 \<noteq> b" by auto
    then show ?thesis using blk_in_frame [OF assms(1-5), of "p - 8"] False by (simp add: live_def)
  qed (use assms(6) in \<open>simp add: live_def\<close>)
qed

lemma live_block:
  assumes "live H bs p = Some k"
  obtains b h where "p = b + 8" "b \<in> set bs" "H b = Some h" "\<not> is_free h" "csz h = k"
proof -
  have 1: "8 \<le> p" "p - 8 \<in> set bs" "blk H (p - 8) = Some k"
    using assms by (auto simp: live_def blk_in_def split: if_splits)
  then obtain h where "H (p - 8) = Some h" "\<not> is_free h" "csz h = k" by (auto simp: blk_Some)
  then show thesis using that [of "p - 8" h] 1 by simp
qed

section \<open>The contract\<close>

text \<open>The interface of the allocator, and what its callers need of it.\<close>

locale allocator =
  fixes heap :: "'s \<Rightarrow> (nat \<Rightarrow> nat option) \<Rightarrow> bool"
    and alloc :: "u32 \<Rightarrow> 's \<Rightarrow> (nat option \<times> 's) option"
    and release :: "nat option \<Rightarrow> 's \<Rightarrow> 's option"
    and served :: "u32 \<Rightarrow> bool"
    and lo hi :: nat
  assumes apart: "heap s M \<Longrightarrow> M p = Some k \<Longrightarrow> M q = Some l \<Longrightarrow> p < q \<Longrightarrow> p + k < q"
    and inside: "heap s M \<Longrightarrow> M p = Some k \<Longrightarrow> lo < p \<and> p + k \<le> hi"
    and alloc_law: "heap s M \<Longrightarrow> served n \<Longrightarrow> alloc n s = Some (None, s) \<or>
      (\<exists>p k s'. alloc n s = Some (Some p, s') \<and> M p = None \<and> unat n \<le> k \<and> heap s' (M(p \<mapsto> k)))"
    and release_law: "heap s M \<Longrightarrow> M p = Some k \<Longrightarrow> \<exists>s'. release (Some p) s = Some s' \<and> heap s' (M(p := None))"
begin

lemma alloc_apart:
  assumes "heap s M" "served n" "alloc n s = Some (Some p, s')" "M q = Some l"
  shows "p + unat n < q \<or> q + l < p"
proof -
  obtain k where k: "M p = None" "unat n \<le> k" "heap s' (M(p \<mapsto> k))" using alloc_law [OF assms(1,2)] assms(3) by auto
  then have "p \<noteq> q" "(M(p \<mapsto> k)) p = Some k" "(M(p \<mapsto> k)) q = Some l" using assms(4) by auto
  then show ?thesis using apart [OF k(3), of p k q l] apart [OF k(3), of q l p k] k(2) by linarith
qed

lemma alloc_inside:
  assumes "heap s M" "served n" "alloc n s = Some (Some p, s')"
  shows "lo < p \<and> p + unat n \<le> hi"
proof -
  obtain k where k: "unat n \<le> k" "heap s' (M(p \<mapsto> k))" using alloc_law [OF assms(1,2)] assms(3) by auto
  then show ?thesis using inside [OF k(2), of p k] by simp
qed

text \<open>A block moves: a new one is allocated, then the old one is freed.\<close>

lemma move:
  assumes "heap s M" "served n" "M p = Some k"
  shows "alloc n s = Some (None, s) \<or> (\<exists>q l s1 s2. alloc n s = Some (Some q, s1) \<and> release (Some p) s1 = Some s2 \<and>
    M q = None \<and> unat n \<le> l \<and> heap s2 (M(p := None, q \<mapsto> l)))"
  using alloc_law [OF assms(1,2)]
proof (elim disjE exE conjE)
  fix q l s1
  assume q: "alloc n s = Some (Some q, s1)" "M q = None" "unat n \<le> l" "heap s1 (M(q \<mapsto> l))"
  then have ne: "q \<noteq> p" using assms(3) by auto
  then obtain s2 where s2: "release (Some p) s1 = Some s2" "heap s2 (M(q \<mapsto> l, p := None))"
    using release_law [OF q(4), of p k] assms(3) by auto
  moreover have "M(q \<mapsto> l, p := None) = M(p := None, q \<mapsto> l)" using ne by auto
  ultimately show ?thesis using q by auto
qed simp

text \<open>What was allocated can be given back, and then the heap is as before.\<close>

lemma alloc_release:
  assumes "heap s M" "served n" "alloc n s = Some (Some p, s1)"
  shows "\<exists>s2. release (Some p) s1 = Some s2 \<and> heap s2 M"
proof -
  obtain k where k: "M p = None" "heap s1 (M(p \<mapsto> k))" using alloc_law [OF assms(1,2)] assms(3) by auto
  moreover have "M(p \<mapsto> k, p := None) = M" using k(1) by auto
  ultimately show ?thesis using release_law [OF k(2), of p k] by simp
qed

end

section \<open>The operations keep it\<close>

lemma tlsf_malloc:
  assumes "pool u a z st M" "unat n \<le> MAX_REQUEST"
  shows "malloc_ex n st = Some (None, st) \<or>
    (\<exists>p k st'. malloc_ex n st = Some (Some p, st') \<and> M p = None \<and> unat n \<le> k \<and> pool u a z st' (M(p \<mapsto> k)))"
proof -
  obtain bs where bs: "tlsf_inv st u a bs z" "M = live (bhdrs st) bs" using assms(1) by (rule poolE)
  from malloc_ex_blocks [OF bs(1) assms(2)] show ?thesis
  proof
    assume "\<exists>us b vs h k st'. bs = us @ b # vs \<and> bhdrs st b = Some h \<and> is_free h \<and>
       malloc_ex n st = Some (Some (b + 8), st') \<and> tlsf_inv st' u a (allocated us b vs (csz h) k) z \<and>
       (\<exists>g. bhdrs st' b = Some g \<and> \<not> is_free g \<and> csz g = k) \<and> unat n \<le> k \<and> k \<le> csz h \<and>
       (k \<noteq> csz h \<longrightarrow> free_at (bhdrs st') (b + 8 + k)) \<and> (\<forall>x\<in>set us \<union> set vs. same_size (bhdrs st) (bhdrs st') x)"
    then obtain us b vs h k st' g where m: "bs = us @ b # vs" "bhdrs st b = Some h" "is_free h"
       "malloc_ex n st = Some (Some (b + 8), st')" "tlsf_inv st' u a (allocated us b vs (csz h) k) z"
       "bhdrs st' b = Some g" "\<not> is_free g" "csz g = k" "unat n \<le> k"
       "k \<noteq> csz h \<longrightarrow> free_at (bhdrs st') (b + 8 + k)" "\<forall>x\<in>set us \<union> set vs. same_size (bhdrs st) (bhdrs st') x"
      by blast
    have fb: "free_at (bhdrs st) b" using m(2,3) by (simp add: free_at_def)
    have v: "blk_in (bhdrs st') (allocated us b vs (csz h) k) b = Some k"
      using blk_used [where H = "bhdrs st'", OF m(6,7)] m(8) by (simp add: blk_in_def allocated_def)
    have s: "\<forall>y\<in>set bs - (set us \<union> set vs) - {b}. free_at (bhdrs st) y" "set us \<union> set vs \<subseteq> set bs"
      "\<forall>y\<in>set (allocated us b vs (csz h) k) - (set us \<union> set vs) - {b}. free_at (bhdrs st') y"
      "set us \<union> set vs \<subseteq> set (allocated us b vs (csz h) k)" unfolding m(1) allocated_def using m(10) by auto
    have "live (bhdrs st') (allocated us b vs (csz h) k) = M(b + 8 \<mapsto> k)"
      unfolding bs(2) by (rule live_frame [OF s(2,4,1,3) m(11) v])
    moreover have "M (b + 8) = None" using blk_free [OF fb] bs(2) by (simp add: live_def blk_in_def)
    ultimately show ?thesis using m(4,9) poolI [OF m(5)] by metis
  qed simp
qed

lemma tlsf_free:
  assumes "pool u a z st M" "M p = Some k"
  shows "\<exists>st'. free_ex (Some p) st = Some st' \<and> pool u a z st' (M(p := None))"
proof -
  obtain bs where bs: "tlsf_inv st u a bs z" "M = live (bhdrs st) bs" using assms(1) by (rule poolE)
  obtain b h where b: "p = b + 8" "b \<in> set bs" "bhdrs st b = Some h" "\<not> is_free h"
    using assms(2) unfolding bs(2) by (rule live_block)
  obtain us vs where uv: "bs = us @ b # vs" "b \<notin> set (us @ vs)" using inv_block [OF bs(1) b(2)] by metis
  obtain st' us' b' vs' where f: "free_ex (Some (b + 8)) st = Some st'" "merged (bhdrs st) us b vs us' b' vs'"
     "tlsf_inv st' u a (us' @ b' # vs') z" "free_at (bhdrs st') b'" "\<forall>x\<in>set us' \<union> set vs'. same_size (bhdrs st) (bhdrs st') x"
    using free_ex_blocks [OF bs(1) uv(1) b(3,4)] by blast
  have m: "set us' \<subseteq> set us" "set vs' \<subseteq> set vs" "\<forall>y\<in>set us - set us'. free_at (bhdrs st) y"
    "\<forall>y\<in>set vs - set vs'. free_at (bhdrs st) y" using f(2) by (auto simp: merged_def)
  have v: "blk_in (bhdrs st') (us' @ b' # vs') b = None"
    using m(1,2) uv(2) blk_free [OF f(4)] by (auto simp: blk_in_def)
  have s: "set us' \<union> set vs' \<subseteq> set bs" "\<forall>y\<in>set bs - (set us' \<union> set vs') - {b}. free_at (bhdrs st) y"
    "\<forall>y\<in>set (us' @ b' # vs') - (set us' \<union> set vs') - {b}. free_at (bhdrs st') y"
    "set us' \<union> set vs' \<subseteq> set (us' @ b' # vs')"
  proof -
    have "set bs = insert b (set us \<union> set vs)" using uv(1) by simp
    then show "set us' \<union> set vs' \<subseteq> set bs" "\<forall>y\<in>set bs - (set us' \<union> set vs') - {b}. free_at (bhdrs st) y"
      using m by blast+
  qed (use f(4) in auto)
  have "live (bhdrs st') (us' @ b' # vs') = M(b + 8 := None)"
    unfolding bs(2) by (rule live_frame [OF s(1,4,2,3) f(5) v])
  then show ?thesis using f(1) b(1) poolI [OF f(3) refl] by simp
qed

lemma tlsf_bounds:
  assumes "pool u a z st M" "M p = Some k"
  shows "a < p \<and> 8 \<le> k \<and> p + k \<le> z \<and> (\<forall>q l. M q = Some l \<longrightarrow> p < q \<longrightarrow> p + k < q)"
proof -
  obtain bs where bs: "tlsf_inv st u a bs z" "M = live (bhdrs st) bs" using assms(1) by (rule poolE)
  obtain b h where b: "p = b + 8" "b \<in> set bs" "bhdrs st b = Some h" "\<not> is_free h" "csz h = k"
    using assms(2) unfolding bs(2) by (rule live_block)
  have c: "closed (bhdrs st) None a bs z" "z < a + 2 ^ 30" using bs(1) by (simp_all add: tlsf_inv_def)
  obtain us vs where uv: "bs = us @ b # vs" using inv_block [OF bs(1) b(2)] by metis
  have s: "seg (bhdrs st) None a us d e \<Longrightarrow> a \<le> e \<and> (\<forall>x\<in>set us. x < e)" for d e using seg_bounds by blast
  have 1: "a \<le> b" "\<forall>x\<in>set us. x < b" "closed (bhdrs st) None (b + 8 + csz h) vs z"
    using c(1) b(3,4) s by (auto simp: uv closed_append closed_Cons)
  have vs: "\<forall>x\<in>set vs. b + 8 + csz h \<le> x" using closed_bounds [OF 1(3)] by blast
  have "p + k < q" if q: "M q = Some l" "p < q" for q l
  proof -
    obtain b' h' where b': "q = b' + 8" "b' \<in> set bs" using q(1) unfolding bs(2) by (rule live_block)
    then have "b' \<in> set vs" using 1(2) b(1) q(2) uv by auto
    then show ?thesis using vs b(1,5) b'(1) by auto
  qed
  then show ?thesis using 1(1) closed_small [OF c(1) b(2,3) c(2)] b(1,5) by auto
qed

interpretation tlsf: allocator "pool u a z" malloc_ex free_ex "\<lambda>n. unat n \<le> MAX_REQUEST" a z for u a z
proof (unfold_locales, goal_cases)
  case (1 s M p k q l) then show ?case using tlsf_bounds by blast
next
  case (2 s M p k) then show ?case using tlsf_bounds by blast
next
  case (3 s M n) then show ?case by (rule tlsf_malloc)
next
  case (4 s M p k) then show ?case by (rule tlsf_free)
qed

lemma realloc_move_ok:
  assumes "pool u a z st M" "M p = Some k" "unat n \<le> MAX_REQUEST"
  shows "malloc_ex n st = Some (None, st) \<and> realloc_move p n st = None \<or>
    (\<exists>q l st'. realloc_move p n st = Some (Some q, st') \<and> M q = None \<and> unat n \<le> l \<and> pool u a z st' (M(p := None, q \<mapsto> l)))"
  using tlsf.move [OF assms(1,3,2)] by (elim disjE exE conjE) (auto simp: realloc_move_def)

lemma resized_live:
  assumes "resized (bhdrs st) (bhdrs st') us vs vs1" "bhdrs st' b = Some g" "\<not> is_free g"
  shows "live (bhdrs st') (us @ b # vs1) = (live (bhdrs st) (us @ b # vs))(b + 8 \<mapsto> csz g)"
proof -
  obtain vs0 where v: "vs0 = vs \<or> (\<exists>c. vs = c # vs0 \<and> free_at (bhdrs st) c)"
     "vs1 = vs0 \<or> (\<exists>e. vs1 = e # vs0 \<and> free_at (bhdrs st') e)"
     "\<forall>x\<in>set us \<union> set vs0. same_size (bhdrs st) (bhdrs st') x" using assms(1) unfolding resized_def by blast
  have i: "blk_in (bhdrs st') (us @ b # vs1) b = Some (csz g)"
    using blk_used [where H = "bhdrs st'", OF assms(2,3)] by (simp add: blk_in_def)
  show ?thesis
    by (rule live_frame [where U = "set us \<union> set vs0", OF _ _ _ _ v(3) i]) (use v(1,2) in auto)
qed

lemma tlsf_realloc:
  assumes p: "pool u a z st M" "M p = Some k" and n: "n \<noteq> 0" "unat n \<le> MAX_REQUEST"
  shows "(malloc_ex (round_request n) st = Some (None, st) \<and> realloc_ex (Some p) n st = None) \<or>
    (\<exists>q l st'. realloc_ex (Some p) n st = Some (Some q, st') \<and> (q = p \<or> M q = None) \<and> unat n \<le> l \<and>
       pool u a z st' (M(p := None, q \<mapsto> l)))"
proof -
  obtain bs where bs: "tlsf_inv st u a bs z" "M = live (bhdrs st) bs" using p(1) by (rule poolE)
  obtain b h where b: "p = b + 8" "b \<in> set bs" "bhdrs st b = Some h" "\<not> is_free h"
    using p(2) unfolding bs(2) by (rule live_block)
  obtain us vs where uv: "bs = us @ b # vs" using inv_block [OF bs(1) b(2)] by metis
  note r = round_request_ok [OF n(2)]
  let ?n = "round_request n"
  have stay: "pool u a z st' (M(p := None, p \<mapsto> csz g)) \<and> unat n \<le> csz g"
    if "tlsf_inv st' u a (us @ b # vs1) z" "bhdrs st' b = Some g" "\<not> is_free g" "unat ?n \<le> csz g"
      "resized (bhdrs st) (bhdrs st') us vs vs1" for st' vs1 g
    using poolI [OF that(1)] resized_live [OF that(5,2,3)] that(4) r(1) b(1) bs(2) uv by simp
  consider "?n \<le> block_bytes h" | (move) "\<not> ?n \<le> block_bytes h" by blast
  then show ?thesis
  proof cases
    case 1
    obtain st' vs1 g where s: "realloc_shrink b ?n st = Some st'" "tlsf_inv st' u a (us @ b # vs1) z"
      "bhdrs st' b = Some g" "\<not> is_free g" "unat ?n \<le> csz g" "resized (bhdrs st) (bhdrs st') us vs vs1"
      using realloc_shrink_ok [OF bs(1) [unfolded uv] b(3,4) r(5,4) 1] by blast
    have "realloc_ex (Some p) n st = Some (Some p, st')" using s(1) 1 n(1) b by (simp add: realloc_ex_def Let_def)
    then show ?thesis using stay [OF s(2-6)] by blast
  next
    case move
    obtain x where x: "bhdrs st (b + 8 + csz h) = Some x" using uncounted [OF bs(1) [unfolded uv] b(3,4)] by blast
    have nb: "GET_NEXT_BLOCK b (block_bytes h) = b + 8 + csz h" by (simp add: GET_NEXT_BLOCK_def csz_def)
    show ?thesis
    proof (cases "bh_size x AND FREE_BLOCK \<noteq> 0 \<and> ?n \<le> block_bytes h + block_bytes x")
      case True
      have "unat (block_bytes h + block_bytes x) \<le> csz h + csz x" by (simp add: csz_def unat_word_ariths)
      then have g: "is_free x" "unat ?n \<le> csz h + csz x" using True by (auto simp: is_free_def word_le_nat_alt)
      obtain st' vs1 g' where s: "realloc_grow b ?n st = Some st'" "tlsf_inv st' u a (us @ b # vs1) z"
        "bhdrs st' b = Some g'" "\<not> is_free g'" "unat ?n \<le> csz g'" "resized (bhdrs st) (bhdrs st') us vs vs1"
        using realloc_grow_ok [OF bs(1) [unfolded uv] b(3,4) x g(1) r(5,4) g(2)] by blast
      have "realloc_ex (Some p) n st = Some (Some p, st')"
        using s(1) move True n(1) b x nb by (simp add: realloc_ex_def Let_def)
      then show ?thesis using stay [OF s(2-6)] by blast
    next
      case False
      have e: "realloc_ex (Some p) n st = realloc_move p ?n st"
        using move False n(1) b x nb by (auto simp: realloc_ex_def Let_def)
      have le: "unat ?n \<le> l \<Longrightarrow> unat n \<le> l" for l using r(1) by linarith
      show ?thesis unfolding e using realloc_move_ok [OF p r(3)] le by (elim disjE exE conjE) (simp_all, blast)
    qed
  qed
qed

end
