(* ===== verification/XTlsfApi.thy ===== *)
theory XTlsfApi
  imports XTlsfPool
begin

unbundle bit_operations_syntax

text \<open>
  The allocator (kernel/tlsf.c) as its callers see it: a fresh pool, the calls
  in any order, and the requests that it does not serve.
\<close>

section \<open>A fresh pool\<close>

lemma bits_ok_empty: "bits_ok (replicate REAL_FLI (replicate MAX_SLI None)) (replicate REAL_FLI 0) 0"
  by (simp add: bits_ok_def REAL_FLI_def MAX_SLI_def)

lemma indexed_empty:
  "tlsf_matrix st = replicate REAL_FLI (replicate MAX_SLI None) \<Longrightarrow> sl_bitmap st = replicate REAL_FLI 0 \<Longrightarrow>
   fl_bitmap st = 0 \<Longrightarrow> indexed st {}"
  unfolding indexed_def using bits_ok_empty
  by (auto simp: free_list_def REAL_FLI_def MAX_SLI_def intro!: exI [of _ "[]"])

lemma ROUNDDOWN_unat: "unat (ROUNDDOWN_SIZE r) = unat r div 8 * 8"
proof -
  have m: "MEM_ALIGN = mask 3" by (simp add: MEM_ALIGN_def mask_numeral)
  show ?thesis unfolding ROUNDDOWN_SIZE_def m clear_low by simp
qed

text \<open>The size of the first block.\<close>

definition first_size :: "nat \<Rightarrow> nat" where
  "first_size s = (s - 3196) div 8 * 8"

lemma first_size_bounds: "3308 \<le> s \<Longrightarrow> 112 \<le> first_size s \<and> first_size s \<le> s - 3196 \<and> (first_size s + 3200 \<le> s \<longleftrightarrow> s mod 8 < 4)"
proof -
  assume s: "3308 \<le> s"
  define t where "t = s - 3308"
  have t: "s = t + 3308" using s by (simp add: t_def)
  define q where "q = (t + 112) div 8 * 8"
  define r where "r = (t + 112) mod 8"
  have "q + r = t + 112" "r < 8" by (simp_all add: q_def r_def)
  moreover have "(t + 3308) mod 8 < 4 \<longleftrightarrow> 4 \<le> r" unfolding r_def by presburger
  moreover have "112 \<le> q" unfolding q_def using div_le_mono [of 112 "t + 112" 8] by simp
  moreover have "first_size s = q" by (simp add: first_size_def t q_def)
  moreover have "s - 3196 = t + 112" by (simp add: t)
  ultimately show ?thesis unfolding t by (cases "4 \<le> r") auto
qed

text \<open>What is written at the start: one block over the whole pool and the block that closes it.\<close>

lemma init_pool_ok:
  assumes s: "3308 \<le> unat s" "unat s < 2 ^ 30" and m: "m \<noteq> 0" "m mod 4 = 0" and fresh: "tlsf_signature st \<noteq> TLSF_SIGNATURE"
  shows "\<exists>n st'. init_memory_pool s m st = Some (n, st') \<and> unat n = first_size (unat s) \<and>
     pool (s - n) (m + 3184) (m + 3192 + unat n) st' Map.empty \<and> mp st' = Some m \<and>
     tlsf_inv st' (s - n) (m + 3184) [m + 3184] (m + 3192 + unat n) \<and>
     (\<exists>h. bhdrs st' (m + 3184) = Some h \<and> is_free h \<and> csz h = unat n)"
proof -
  define n where "n = ROUNDDOWN_SIZE (s - TLSF_SIZE - 2 * BHDR_OVERHEAD)"
  define b where "b = m + 3184"
  have "s - TLSF_SIZE - 2 * BHDR_OVERHEAD = s - 3196" by (simp add: diff_diff_eq TLSF_SIZE_def BHDR_OVERHEAD_def)
  then have e: "n = ROUNDDOWN_SIZE (s - 3196)" by (simp only: n_def)
  have "unat (s - 3196) = unat s - 3196" using s by (simp add: unat_sub word_le_nat_alt)
  then have un: "unat n = first_size (unat s)" unfolding e ROUNDDOWN_unat first_size_def by simp
  note fb = first_size_bounds [OF s(1)]
  have al: "aligned n" unfolding aligned_iff un first_size_def by (simp add: dvd_mult)
  have small: "unat n < 2 ^ 30" "8 \<le> unat n" using un fb s(2) by linarith+
  have room: "b + 8 + unat n < b + 2 ^ 30" using un fb s by linarith
  have "\<not> unat (n OR FREE_BLOCK) > 2 ^ 30"
  proof -
    have "n OR FREE_BLOCK = n + 1"
      by (subst disjunctive_add [symmetric]) (use aligned_low [OF al, of 0] in \<open>auto simp: FREE_BLOCK_bit intro!: gr0I\<close>, simp add: FREE_BLOCK_def)
    then show ?thesis using small(1) by (simp add: unat_word_ariths)
  qed
  then have lim: "\<not> n OR FREE_BLOCK > push_bit MAX_FLI 1" by (simp add: MAX_FLI_def word_less_nat_alt)
  let ?h = "\<lparr>prev_hdr = None, bh_size = n OR FREE_BLOCK, fr_prev = None, fr_next = None\<rparr>"
  have h: "block_bytes ?h = n" "is_free ?h" "\<not> prev_free ?h"
    using size_new [OF al, of ?h] by (simp_all add: block_bytes_def is_free_def prev_free_def)
  let ?st1 = "\<lparr>tlsf_signature = TLSF_SIGNATURE, used_size = 0, fl_bitmap = 0,
     sl_bitmap = replicate REAL_FLI 0, tlsf_matrix = replicate REAL_FLI (replicate MAX_SLI None), bhdrs = [b \<mapsto> ?h], mp = Some m\<rparr>"
  obtain st2 where s2: "insert_sized b n ?st1 = Some st2" "indexed st2 {b}" "kept ?st1 st2"
    using insert_sized_ok [OF indexed_empty, of ?st1 b ?h n] h(1) small(1) by auto
  let ?z = "b + 8 + unat n"
  let ?l = "\<lparr>prev_hdr = Some b, bh_size = PREV_FREE, fr_prev = None, fr_next = None\<rparr>"
  let ?st3 = "st2\<lparr>bhdrs := (bhdrs st2)(?z \<mapsto> ?l), used_size := s - n\<rparr>"
  have l: "block_bytes ?l = 0" "\<not> is_free ?l" "prev_free ?l"
    by (simp_all add: block_bytes_def is_free_def prev_free_def PREV_FREE_def TLSF_BLOCK_SIZE_def FREE_BLOCK_def)
  have "bhdrs ?st1 b = Some ?h" by simp
  from same_blocks_ex [OF kept_same_blocks [OF s2(3)] this]
  obtain g where g: "bhdrs st2 b = Some g" "is_free g" "\<not> prev_free g" "csz g = unat n" using h by (auto simp: csz_def)
  have cl: "closed (bhdrs ?st3) None b [b] ?z"
    using g l small(2) by (simp add: closed_def cell_def csz_def)
  have fs: "free_set (bhdrs ?st3) [b] = {b}" using g small(2) by (auto simp: free_set_def free_at_def)
  have "indexed (st2\<lparr>bhdrs := (bhdrs st2)(?z \<mapsto> ?l)\<rparr>) {b}" by (rule indexed_upd [OF s2(2)]) simp
  then have "indexed ?st3 {b}" by (simp add: indexed_def)
  moreover have "used_sum (bhdrs ?st3) [b] = 0" using g by (simp add: used_sum_def)
  ultimately have inv: "tlsf_inv ?st3 (s - n) b [b] ?z" using cl fs room by (simp add: tlsf_inv_def)
  have "live (bhdrs ?st3) [b] = Map.empty"
    using g by (auto simp: live_def blk_in_def blk_def fun_eq_iff)
  then have p: "pool (s - n) b ?z ?st3 Map.empty" using poolI [OF inv] by simp
  have "unat (ROUNDUP_SIZE TLSF_SIZE) = 3184" by (simp add: ROUNDUP_SIZE_def TLSF_SIZE_def MEM_ALIGN_def)
  moreover have "s \<noteq> 0" using s(1) by auto
  ultimately have i: "init_memory_pool s m st = Some (n, ?st3)"
    using s m fresh lim s2(1) h(1) unfolding init_memory_pool_def b_def n_def
    by (simp add: Let_def GET_NEXT_BLOCK_def TLSF_SIZE_def word_less_nat_alt word_le_nat_alt)
  define st' where "st' = ?st3"
  have "mp st' = Some m" using s2(3) by (simp add: kept_def st'_def)
  moreover have "?z = m + 3192 + unat n" by (simp add: b_def)
  then have "pool (s - n) (m + 3184) (m + 3192 + unat n) st' Map.empty" "tlsf_inv st' (s - n) (m + 3184) [m + 3184] (m + 3192 + unat n)"
    using p [folded st'_def] inv [folded st'_def] by (simp_all only: b_def)
  moreover have "bhdrs st' (m + 3184) = Some g" using g(1) small(2) by (simp add: st'_def b_def)
  ultimately show ?thesis using i [folded st'_def] un g(2,4) by blast
qed

section \<open>The calls in any order\<close>

text \<open>The states that the calls lead to from a fresh pool of s bytes at m; own are the pointers that the callers hold.\<close>

inductive heap_reach :: "u32 \<Rightarrow> nat \<Rightarrow> tlsf_t \<Rightarrow> nat set \<Rightarrow> bool" for s m where
  fresh: "tlsf_signature st0 \<noteq> TLSF_SIGNATURE \<Longrightarrow> init_memory_pool s m st0 = Some (n, st) \<Longrightarrow> heap_reach s m st {}"
| got: "heap_reach s m st own \<Longrightarrow> unat n \<le> MAX_REQUEST \<Longrightarrow> malloc_ex n st = Some (Some p, st') \<Longrightarrow>
    heap_reach s m st' (insert p own)"
| not_got: "heap_reach s m st own \<Longrightarrow> unat n \<le> MAX_REQUEST \<Longrightarrow> malloc_ex n st = Some (None, st') \<Longrightarrow> heap_reach s m st' own"
| gave: "heap_reach s m st own \<Longrightarrow> p \<in> own \<Longrightarrow> free_ex (Some p) st = Some st' \<Longrightarrow> heap_reach s m st' (own - {p})"
| moved: "heap_reach s m st own \<Longrightarrow> p \<in> own \<Longrightarrow> n \<noteq> 0 \<Longrightarrow> unat n \<le> MAX_REQUEST \<Longrightarrow>
    realloc_ex (Some p) n st = Some (Some q, st') \<Longrightarrow> heap_reach s m st' (insert q (own - {p}))"

inductive_cases heap_reachE: "heap_reach s m st own"

lemma heap_reach_pool:
  assumes "heap_reach s m st own" and s: "3308 \<le> unat s" "unat s < 2 ^ 30" and m: "m \<noteq> 0" "m mod 4 = 0"
  shows "\<exists>u M. pool u (m + 3184) (m + 3192 + first_size (unat s)) st M \<and> dom M = own"
  using assms(1)
proof induction
  case (fresh st0 n st)
  then show ?case using init_pool_ok [OF s m fresh(1)] by (intro exI [of _ "s - n"] exI [of _ Map.empty]) auto
next
  case (got st own n p st')
  then obtain u M where M: "pool u (m + 3184) (m + 3192 + first_size (unat s)) st M" "dom M = own" by blast
  obtain k where "pool u (m + 3184) (m + 3192 + first_size (unat s)) st' (M(p \<mapsto> k))"
    using tlsf_malloc [OF M(1) got(2)] got(3) by auto
  then show ?case using M(2) by (intro exI [of _ u] exI [of _ "M(p \<mapsto> k)"]) (simp del: fun_upd_apply)
next
  case (not_got st own n st')
  then obtain u M where M: "pool u (m + 3184) (m + 3192 + first_size (unat s)) st M" "dom M = own" by blast
  then show ?case using tlsf_malloc [OF M(1) not_got(2)] not_got(3) by auto
next
  case (gave st own p st')
  then obtain u M k where M: "pool u (m + 3184) (m + 3192 + first_size (unat s)) st M" "dom M = own" "M p = Some k" by blast
  then show ?case using tlsf_free [OF M(1,3)] gave(3) by (intro exI [of _ u] exI [of _ "M(p := None)"]) (simp del: fun_upd_apply)
next
  case (moved st own p n q st')
  then obtain u M k where M: "pool u (m + 3184) (m + 3192 + first_size (unat s)) st M" "dom M = own" "M p = Some k" by blast
  then obtain l where "pool u (m + 3184) (m + 3192 + first_size (unat s)) st' (M(p := None, q \<mapsto> l))"
    using tlsf_realloc [OF M(1,3) moved(3,4)] moved(5) by auto
  then show ?case using M(2) by (intro exI [of _ u] exI [of _ "M(p := None, q \<mapsto> l)"]) (simp del: fun_upd_apply)
qed

section \<open>Requests beyond the limit\<close>

text \<open>Within 7 bytes of 2 ^ 32 the rounding wraps to 0.\<close>

lemma round_request_wraps:
  assumes "2 ^ 32 - 7 \<le> unat n"
  shows "round_request n = 0"
proof -
  have m: "MEM_ALIGN = mask 3" by (simp add: MEM_ALIGN_def mask_numeral)
  have "unat n < 2 ^ 32" using unsigned_less [of n, where 'a = nat] by simp
  then have "unat (n + MEM_ALIGN) < 7" using assms by (simp add: MEM_ALIGN_def unat_word_ariths mod_if) linarith
  then have "unat (ROUNDUP_SIZE n) = 0" unfolding ROUNDUP_SIZE_def using clear_low [of "n + MEM_ALIGN" 3] by (simp add: m)
  then show ?thesis using assms by (simp add: round_request_def MIN_BLOCK_SIZE_def word_less_nat_alt unat_eq_zero)
qed

lemma take_block_zero:
  assumes o: "opened st a us None b (b + 8 + csz h) vs z" "closed (bhdrs st) (Some b) (b + 8 + csz h) vs z"
    and h: "bhdrs st b = Some h" "16 \<le> csz h"
  shows "\<exists>st' g. take_block b 0 st = Some st' \<and> bhdrs st' b = Some g \<and> csz g = 0"
proof -
  let ?H = "bhdrs st" and ?c = "b + 8 + csz h" and ?m = "block_bytes h - 8" and ?F = "free_set (bhdrs st) (us @ vs)"
  obtain x where x: "?H ?c = Some x" "\<not> is_free x" using closed_first [OF o(2)] by (auto simp: cell_def)
  note bd = opened_bounds [OF o(1)]
  have F: "b + 8 \<notin> ?F" "?c \<notin> ?F" using bd(3) [of "b + 8"] bd(4) [of "b + 8"] x h(2) by (auto simp: free_set_def free_at_def)
  define h2 where "h2 = (case ?H (b + 8) of None \<Rightarrow> \<lparr>prev_hdr = None, bh_size = ?m OR FREE_BLOCK, fr_prev = None, fr_next = None\<rparr>
     | Some h \<Rightarrow> h\<lparr>bh_size := ?m OR FREE_BLOCK\<rparr>)"
  have m: "unat ?m = csz h - 8" using h(2) by (simp add: unat_sub word_le_nat_alt csz_def)
  then have al: "aligned ?m" using aligned_block_bytes [of h] by (simp add: aligned_iff csz_def)
  have h2: "block_bytes h2 = ?m"
    using size_new(1) [OF al, of "\<lparr>prev_hdr = None, bh_size = 0, fr_prev = None, fr_next = None\<rparr>"] size_new(1) [OF al]
    by (auto simp: h2_def split: option.splits)
  let ?f = "\<lambda>x. x\<lparr>prev_hdr := Some (b + 8)\<rparr>"
  let ?st1 = "st\<lparr>bhdrs := ?H(b + 8 \<mapsto> h2, ?c \<mapsto> ?f x)\<rparr>"
  have "new_free (b + 8) ?m st = st\<lparr>bhdrs := ?H(b + 8 \<mapsto> h2)\<rparr>"
    by (auto simp: new_free_def h2_def split: option.splits)
  then have s1: "upd_h ?c ?f (new_free (b + 8) ?m st) = Some ?st1" using x h(2) by (simp add: upd_h_def)
  have "indexed st ?F" using o(1) by (simp add: opened_def)
  then have i: "indexed ?st1 ?F" using indexed_upd [OF indexed_upd [OF _ F(1)], of st ?c] F(2) by simp
  have "z < a + 2 ^ 30" using o(1) by (simp add: opened_def)
  then have "unat ?m < 2 ^ 30" using m bd(1,2) by linarith
  moreover have "bhdrs ?st1 (b + 8) = Some h2" using h(2) by simp
  ultimately obtain st2 where s2: "insert_sized (b + 8) ?m ?st1 = Some st2" "kept ?st1 st2"
    using insert_sized_ok [OF i F(1) _ h2] by blast
  have "bhdrs ?st1 b = Some h" using h by simp
  from same_blocks_ex [OF kept_same_blocks [OF s2(2)] this] obtain g where g: "bhdrs st2 b = Some g" by blast
  have "16 \<le> block_bytes h" using h(2) by (simp add: word_le_nat_alt csz_def)
  moreover have "GET_NEXT_BLOCK b (block_bytes h) = ?c" by (simp add: GET_NEXT_BLOCK_def csz_def)
  ultimately have "take_block b 0 st = upd_h b (\<lambda>x. x\<lparr>bh_size := 0 OR (bh_size x AND PREV_STATE)\<rparr>) st2"
    using s1 s2(1) h(1) by (simp add: take_block_def carve_def BHDR_SIZE_def BHDR_OVERHEAD_def GET_NEXT_BLOCK_def Let_def)
  moreover have "csz (g\<lparr>bh_size := 0 OR (bh_size g AND PREV_STATE)\<rparr>) = 0"
    using size_used(1) [of 0 g g] by (simp add: csz_def aligned_def)
  ultimately show ?thesis using g upd_h_Some [OF g] by simp
qed

lemma take_block_small:
  assumes "closed (bhdrs st) (Some b) (b + 8 + csz h) vs z" "bhdrs st b = Some h" "8 \<le> csz h" "csz h < 16"
  shows "\<exists>st' g. take_block b 0 st = Some st' \<and> bhdrs st' b = Some g \<and> csz g < 16"
proof -
  obtain x where x: "bhdrs st (b + 8 + csz h) = Some x" using closed_first [OF assms(1)] by blast
  have "\<not> 16 \<le> block_bytes h" using assms(4) by (simp add: word_le_nat_alt csz_def)
  moreover have "GET_NEXT_BLOCK b (block_bytes h) = b + 8 + csz h" by (simp add: GET_NEXT_BLOCK_def csz_def)
  moreover have "csz (h\<lparr>bh_size := bh_size h AND NOT FREE_BLOCK\<rparr>) < 16" using size_unfree(1) [of h h] assms(4) by (simp add: csz_def)
  ultimately show ?thesis using x assms(2) by (simp add: take_block_def BHDR_SIZE_def upd_h_Some)
qed

lemma wrapped_request_served:
  assumes inv: "tlsf_inv st u a bs z" and n: "2 ^ 32 - 7 \<le> unat n" and b0: "b0 \<in> set bs" "free_at (bhdrs st) b0"
  shows "\<exists>p st' g. malloc_ex n st = Some (Some p, st') \<and> bhdrs st' (p - 8) = Some g \<and> csz g < 16"
proof -
  let ?F = "free_set (bhdrs st) bs"
  have i: "indexed st ?F" using inv by (simp add: tlsf_inv_def)
  have F: "b0 \<in> ?F" using b0 by (simp add: free_set_def)
  obtain res f s where fs: "FIND_SUITABLE_BLOCK st 0 0 = Some (res, f, s)"
    "case res of None \<Rightarrow> \<forall>b\<in>?F. \<forall>g t. class_at (bhdrs st) b g t \<longrightarrow> \<not> class_le (0, 0) (g, t)
      | Some b \<Rightarrow> f < 24 \<and> s < 32 \<and> tlsf_matrix st ! f ! s = Some b \<and> class_le (0, 0) (f, s)"
    using find_ok [OF i, of 0 0] by auto
  obtain g t where "class_at (bhdrs st) b0 g t" using i F by (auto simp: indexed_def)
  moreover have "class_le (0, 0) (g, t)" by (simp add: class_le_def) linarith
  ultimately obtain b where b: "res = Some b" "f < 24" "s < 32" "tlsf_matrix st ! f ! s = Some b"
    using fs(2) F by (cases res) auto
  obtain us vs h st1 h1 where h: "EXTRACT_BLOCK_HDR b f s st = Some st1" "opened st1 a us None b (b + 8 + csz h) vs z"
    "closed (bhdrs st1) (Some b) (b + 8 + csz h) vs z" "bhdrs st1 b = Some h1" "csz h1 = csz h" "bs = us @ b # vs" "bhdrs st b = Some h"
    using found_block [OF inv b(2-4)] by blast
  have h8: "8 \<le> csz h1" using inv_block [OF inv, of b] h(5-7) by auto
  obtain st2 g where t: "take_block b 0 st1 = Some st2" "bhdrs st2 b = Some g" "csz g < 16"
  proof (cases "16 \<le> csz h1")
    case True
    then show thesis using take_block_zero [OF h(2,3) [folded h(5)] h(4)] that by fastforce
  next
    case False
    then show thesis using take_block_small [OF h(3) [folded h(5)] h(4) h8] that by force
  qed
  have "MAPPING_SEARCH (round_request n) = Some (0, 0, 0)"
    by (simp add: round_request_wraps [OF n] MAPPING_SEARCH_def SMALL_BLOCK_def)
  then have "malloc_ex n st = Some (Some (b + 8), add_used (block_bytes g + BHDR_OVERHEAD) st2)"
    using fs(1) b(1) h(1) t(1,2) by (simp add: malloc_ex_def count_used_def)
  then show ?thesis using t(2,3) by (simp add: add_used_def)
qed

text \<open>Of 2 ^ 30 bytes or more, up to 2 ^ 31, the first level is beyond the bitmaps.\<close>

lemma too_large_faults:
  assumes st: "tlsf_inv st u a bs z" and n: "2 ^ 30 \<le> unat n" "unat n < 2 ^ 31 - 2 ^ 26"
  shows "malloc_ex n st = None"
proof -
  let ?r = "round_request n"
  have m: "MEM_ALIGN = mask 3" by (simp add: MEM_ALIGN_def mask_numeral)
  have "unat (n + MEM_ALIGN) = unat n + 7" using n by (simp add: MEM_ALIGN_def unat_word_ariths)
  then have "unat (ROUNDUP_SIZE n) = (unat n + 7) div 8 * 8"
    unfolding ROUNDUP_SIZE_def using clear_low [of "n + MEM_ALIGN" 3] by (simp add: m)
  moreover have "\<not> n < 8" using n by (simp add: word_less_nat_alt)
  ultimately have "unat ?r = (unat n + 7) div 8 * 8" by (simp add: round_request_def MIN_BLOCK_SIZE_def)
  then have r: "2 ^ 30 \<le> unat ?r" "unat ?r < 2 ^ 31 - 2 ^ 26 + 8" using n by auto
  then have "log_at (unat ?r) 30" by (simp add: log_at_def)
  then have ms: "ms_bit ?r = 30" using ms_bit_eq [of ?r 30] by simp
  let ?t = "push_bit 25 1 - 1 :: u32"
  have "unat (?r + ?t) = unat ?r + (2 ^ 25 - 1)" using r by (simp add: unat_word_ariths)
  then have "log_at (unat (?r + ?t)) 30" using r by (simp add: log_at_def)
  then have "ms_bit (?r + ?t) = 30" using ms_bit_eq [of "?r + ?t" 30] by simp
  then obtain sl where l: "levels (?r + ?t) = Some (24, sl)" by (simp add: levels_def guard_c_def tlsf_consts)
  have "\<not> ?r < SMALL_BLOCK" using r by (simp add: SMALL_BLOCK_def word_less_nat_alt)
  then obtain r' where "MAPPING_SEARCH ?r = Some (r', 24, sl)"
    using l ms by (simp add: MAPPING_SEARCH_def MAX_LOG2_SLI_def Let_def)
  moreover have "length (sl_bitmap st) = 24" using st by (simp add: tlsf_inv_def indexed_def bits_ok_def)
  ultimately show ?thesis by (simp add: malloc_ex_def FIND_SUITABLE_BLOCK_def rd_def)
qed

section \<open>The properties\<close>


text \<open>C11: malloc_ex implements allocation on the map of the blocks in use: the pointer is new, it has at least the
  bytes asked for, it is inside the pool and apart from every other block; or nothing has changed.\<close>
theorem malloc_ex_refines:
  assumes "pool u a z st M" "unat n \<le> MAX_REQUEST"
  shows "malloc_ex n st = Some (None, st) \<or>
    (\<exists>p k st'. malloc_ex n st = Some (Some p, st') \<and> pool u a z st' (M(p \<mapsto> k)) \<and> M p = None \<and> unat n \<le> k \<and>
       a < p \<and> p + k \<le> z \<and> (\<forall>q l. M q = Some l \<longrightarrow> p + k < q \<or> q + l < p))"
  using tlsf_malloc [OF assms]
proof (elim disjE exE conjE)
  fix p k st'
  assume m: "malloc_ex n st = Some (Some p, st')" "M p = None" "unat n \<le> k" "pool u a z st' (M(p \<mapsto> k))"
  then have p: "(M(p \<mapsto> k)) p = Some k" by simp
  have "p + k < q \<or> q + l < p" if q: "M q = Some l" for q l
  proof -
    have "p \<noteq> q" "(M(p \<mapsto> k)) q = Some l" using q m(2) by auto
    then show ?thesis using tlsf.apart [OF m(4) p, of q l] tlsf.apart [OF m(4), of q l p k] p by linarith
  qed
  moreover have "a < p \<and> p + k \<le> z" using tlsf.inside [OF m(4) p] .
  ultimately show ?thesis using m by blast
qed simp

text \<open>C28: free_ex implements the removal of a block from the map of the blocks in use: the other blocks stay as they
  are, and the bytes are no longer counted as used.\<close>
theorem free_ex_refines:
  assumes "pool u a z st M" "M p = Some k"
  shows "\<exists>st'. free_ex (Some p) st = Some st' \<and> pool u a z st' (M(p := None))"
  using assms by (rule tlsf_free)

text \<open>C13: realloc_ex of a block in use: the block has at least the bytes asked for now, at its old place or at one that
  was not in use, and the other blocks stay; or no free block serves the request, and then the copy to the null
  pointer faults.\<close>
theorem realloc_ex_refines:
  assumes "pool u a z st M" "M p = Some k" "n \<noteq> 0" "unat n \<le> MAX_REQUEST"
  shows "(\<exists>q l st'. realloc_ex (Some p) n st = Some (Some q, st') \<and> (q = p \<or> M q = None) \<and> unat n \<le> l \<and>
       pool u a z st' (M(p := None, q \<mapsto> l))) \<or>
     (malloc_ex (round_request n) st = Some (None, st) \<and> realloc_ex (Some p) n st = None)"
  using tlsf_realloc [OF assms] by blast

text \<open>Malloc_ex fails only when every free block is smaller than the request, rounded up to a multiple of 8 and to
  the next class, that is by less than a 32nd.\<close>
theorem malloc_ex_fails_only:
  assumes "tlsf_inv st u a bs z" "unat n \<le> MAX_REQUEST" "malloc_ex n st = Some (None, st')"
  shows "\<forall>b\<in>set bs. \<forall>h. bhdrs st b = Some h \<and> is_free h \<longrightarrow> csz h < (unat n + 8) + (unat n + 8) div 32"
  using malloc_ex_blocks [OF assms(1,2)] assms(3) by auto

text \<open>C29: Init_memory_pool makes a pool with nothing in use out of any fresh memory of 3308 bytes or more, up to 2 ^ 30;
  the header that closes it lies inside the memory exactly when the size is 0 to 3 modulo 8.\<close>
theorem init_memory_pool_ok:
  assumes "3308 \<le> unat s" "unat s < 2 ^ 30" "m \<noteq> 0" "m mod 4 = 0" "tlsf_signature st \<noteq> TLSF_SIGNATURE"
  shows "\<exists>n st' z. init_memory_pool s m st = Some (n, st') \<and> unat n = (unat s - 3196) div 8 * 8 \<and>
     z = m + 3192 + unat n \<and> pool (s - n) (m + 3184) z st' Map.empty \<and> (z + 8 \<le> m + unat s \<longleftrightarrow> unat s mod 8 < 4)"
proof -
  obtain n st' where i: "init_memory_pool s m st = Some (n, st')" "unat n = first_size (unat s)"
     "pool (s - n) (m + 3184) (m + 3192 + unat n) st' Map.empty" using init_pool_ok [OF assms] by blast
  have "m + 3192 + unat n + 8 \<le> m + unat s \<longleftrightarrow> unat s mod 8 < 4" using first_size_bounds [OF assms(1)] i(2) by auto
  then show ?thesis using i by (auto simp: first_size_def)
qed

text \<open>The sizes are not checked.  A request of 2 ^ 30 bytes or more reads behind the bitmaps; one within 7 bytes of
  2 ^ 32 wraps to 0 when it is rounded up and is served, from any free block there is, with less than 16 bytes.\<close>
theorem malloc_ex_huge:
  assumes "tlsf_inv st u a bs z" "b0 \<in> set bs" "free_at (bhdrs st) b0"
  shows "(2 ^ 30 \<le> unat n \<and> unat n < 2 ^ 31 - 2 ^ 26 \<longrightarrow> malloc_ex n st = None) \<and>
    (2 ^ 32 - 7 \<le> unat n \<longrightarrow>
      (\<exists>p st' g. malloc_ex n st = Some (Some p, st') \<and> bhdrs st' (p - 8) = Some g \<and> csz g < 16))"
  using too_large_faults [OF assms(1)] wrapped_request_served [OF assms(1) _ assms(2,3)] by simp

section \<open>Witnesses\<close>

text \<open>A pool of 4096 bytes at address 4096.\<close>

definition blank_pool :: tlsf_t where
  "blank_pool = \<lparr>tlsf_signature = 0, used_size = 0, fl_bitmap = 0, sl_bitmap = [], tlsf_matrix = [], bhdrs = Map.empty, mp = None\<rparr>"

definition demo_pool :: tlsf_t where
  "demo_pool = snd (the (init_memory_pool 4096 4096 blank_pool))"

lemma blank_pool_fresh: "tlsf_signature blank_pool \<noteq> TLSF_SIGNATURE"
  by (simp add: blank_pool_def TLSF_SIGNATURE_def)

lemma demo_pool_ok:
  "init_memory_pool 4096 4096 blank_pool = Some (896, demo_pool)" "pool 3200 7280 8184 demo_pool Map.empty"
  "tlsf_inv demo_pool 3200 7280 [7280] 8184" "\<exists>h. bhdrs demo_pool 7280 = Some h \<and> is_free h \<and> csz h = 896"
proof -
  obtain n st' where i: "init_memory_pool 4096 4096 blank_pool = Some (n, st')" "unat n = 896"
    "pool (4096 - n) 7280 (7288 + unat n) st' Map.empty" "tlsf_inv st' (4096 - n) 7280 [7280] (7288 + unat n)"
    "\<exists>h. bhdrs st' 7280 = Some h \<and> is_free h \<and> csz h = unat n"
    using init_pool_ok [of 4096 4096 blank_pool] blank_pool_fresh by (auto simp: first_size_def)
  have "unat n = unat (896 :: u32)" using i(2) by simp
  then have n: "n = 896" by (rule unsigned_word_eqI)
  show "init_memory_pool 4096 4096 blank_pool = Some (896, demo_pool)" "pool 3200 7280 8184 demo_pool Map.empty"
    "tlsf_inv demo_pool 3200 7280 [7280] 8184" "\<exists>h. bhdrs demo_pool 7280 = Some h \<and> is_free h \<and> csz h = 896"
    using i unfolding n demo_pool_def by simp_all
qed

text \<open>The pool after a first allocation of 100 bytes.\<close>

definition demo_ptr :: nat where
  "demo_ptr = the (fst (the (malloc_ex 100 demo_pool)))"

definition demo_used :: tlsf_t where
  "demo_used = snd (the (malloc_ex 100 demo_pool))"

lemma demo_used_ok: "malloc_ex 100 demo_pool = Some (Some demo_ptr, demo_used)"
  "\<exists>k\<ge>100. pool 3200 7280 8184 demo_used [demo_ptr \<mapsto> k]"
proof -
  have "malloc_ex 100 demo_pool \<noteq> Some (None, demo_pool)"
    using malloc_ex_blocks [OF demo_pool_ok(3), of 100] demo_pool_ok(4) by (auto simp: MAX_REQUEST_def)
  then obtain p k st' where "malloc_ex 100 demo_pool = Some (Some p, st')" "100 \<le> k" "pool 3200 7280 8184 st' [p \<mapsto> k]"
    using tlsf_malloc [OF demo_pool_ok(2), of 100] by (auto simp: MAX_REQUEST_def)
  then show "malloc_ex 100 demo_pool = Some (Some demo_ptr, demo_used)"
    "\<exists>k\<ge>100. pool 3200 7280 8184 demo_used [demo_ptr \<mapsto> k]" by (auto simp: demo_ptr_def demo_used_def)
qed

lemma demo_reach: "heap_reach 4096 4096 demo_used {demo_ptr}"
  using heap_reach.got [OF heap_reach.fresh [OF blank_pool_fresh demo_pool_ok(1)] _ demo_used_ok(1)]
  by (simp add: MAX_REQUEST_def)


lemma malloc_ex_refines_witness: "\<exists>p k. pool 3200 7280 8184 demo_used [p \<mapsto> k] \<and> 100 \<le> k \<and> 7280 < p \<and> p + k \<le> 8184"
  using malloc_ex_refines [OF demo_pool_ok(2), of 100] demo_used_ok(1) demo_pool_ok(4)
  by (auto simp: MAX_REQUEST_def)

lemma free_ex_refines_witness: "\<exists>st'. free_ex (Some demo_ptr) demo_used = Some st' \<and> pool 3200 7280 8184 st' Map.empty"
proof -
  obtain k where k: "pool 3200 7280 8184 demo_used [demo_ptr \<mapsto> k]" using demo_used_ok(2) by blast
  show ?thesis using free_ex_refines [OF k, of demo_ptr k] by simp
qed

lemma realloc_ex_refines_witness:
  "(\<exists>q l st'. realloc_ex (Some demo_ptr) 300 demo_used = Some (Some q, st') \<and> 300 \<le> l \<and> pool 3200 7280 8184 st' [q \<mapsto> l]) \<or>
   malloc_ex (round_request 300) demo_used = Some (None, demo_used)"
proof -
  obtain k where k: "pool 3200 7280 8184 demo_used [demo_ptr \<mapsto> k]" using demo_used_ok(2) by blast
  have e: "(Map.empty(demo_ptr \<mapsto> k))(demo_ptr := None, q \<mapsto> l) = [q \<mapsto> l]" for q l by auto
  show ?thesis using realloc_ex_refines [OF k, of demo_ptr k 300] by (auto simp: MAX_REQUEST_def e)
qed

lemma demo_pool_full: "malloc_ex 2000 demo_pool = Some (None, demo_pool)"
  using malloc_ex_blocks [OF demo_pool_ok(3), of 2000] demo_pool_ok(4)
  by (auto simp: MAX_REQUEST_def Cons_eq_append_conv)

lemma malloc_ex_fails_only_witness: "\<exists>h. bhdrs demo_pool 7280 = Some h \<and> csz h < 2008 + 62"
  using malloc_ex_fails_only [OF demo_pool_ok(3) _ demo_pool_full] demo_pool_ok(4) by (auto simp: MAX_REQUEST_def)

lemma init_memory_pool_ok_witness:
  "\<exists>st'. init_memory_pool 4096 4096 blank_pool = Some (896, st') \<and> pool 3200 7280 8184 st' Map.empty"
  using init_memory_pool_ok [of 4096 4096 blank_pool] blank_pool_fresh demo_pool_ok(1) by auto

lemma malloc_ex_huge_witness:
  "malloc_ex (2 ^ 30) demo_pool = None \<and>
   (\<exists>p st' g. malloc_ex 0xFFFFFFFF demo_pool = Some (Some p, st') \<and> bhdrs st' (p - 8) = Some g \<and> csz g < 16)"
proof -
  have "free_at (bhdrs demo_pool) 7280" using demo_pool_ok(4) by (auto simp: free_at_def)
  then show ?thesis
    using malloc_ex_huge [OF demo_pool_ok(3), of 7280 "2 ^ 30"] malloc_ex_huge [OF demo_pool_ok(3), of 7280 "0xFFFFFFFF"]
    by simp
qed

end
