(* ===== verification/XPages.thy ===== *)
theory XPages
  imports Prelude
begin

unbundle bit_operations_syntax

text \<open>
  XtratuM's pages and page directories on the i386 (kernel/mm.c,
  include/i386/mm.h, arch/i386/kernel/kmem.c).  A page is an address in the
  kernel's part of the memory; mem holds the 1024 words of every page that is
  allocated.  The pages that Linux will hand out are the list free_pages, in any
  order, and those given back are recorded in released: __get_free_page and
  free_page of Linux are no more than that.  The alloc_page and free_page that the
  functions of mm.h take are mm_alloc_page and mm_release_page at every call.
\<close>

section \<open>Pages\<close>

record vm =
  mem :: "u32 \<Rightarrow> u32 list option"
  free_pages :: "u32 list"
  released :: "u32 list"

definition PAGE_OFFSET :: u32 where "PAGE_OFFSET = 0xC0000000"
definition PAGE_SIZE :: u32 where "PAGE_SIZE = 4096"
definition PAGE_MASK :: u32 where "PAGE_MASK = 0xFFFFF000"
definition PAGE_PRESENT :: u32 where "PAGE_PRESENT = 1"
definition PAGE_RW :: u32 where "PAGE_RW = 2"
definition PAGE_USER :: u32 where "PAGE_USER = 4"
definition PAGE_PSE :: u32 where "PAGE_PSE = 0x80"
definition PAGE_UNUSED1 :: u32 where "PAGE_UNUSED1 = 0x200"

text \<open>__pa and __va of Linux.\<close>

definition pa :: "u32 \<Rightarrow> u32" where "pa x = x - PAGE_OFFSET"
definition va :: "u32 \<Rightarrow> u32" where "va x = x + PAGE_OFFSET"

definition get_free_page :: "vm \<Rightarrow> u32 \<times> vm" where
  "get_free_page m = (case free_pages m of [] \<Rightarrow> (0, m) | p # ps \<Rightarrow> (p, m\<lparr>free_pages := ps, mem := (mem m)(p \<mapsto> replicate 1024 0)\<rparr>))"

definition free_page :: "u32 \<Rightarrow> vm \<Rightarrow> vm" where
  "free_page p m = m\<lparr>released := p # released m, mem := (mem m)(p := None)\<rparr>"

definition mm_alloc_page :: "vm \<Rightarrow> u32 \<times> vm" where
  "mm_alloc_page m = (let (pg, m1) = get_free_page m in
     (pg, if pg \<noteq> 0 then m1\<lparr>mem := (mem m1)(pg \<mapsto> replicate 1024 0)\<rparr> else m1))"

definition mm_release_page :: "u32 \<Rightarrow> vm \<Rightarrow> vm" where
  "mm_release_page pg m = free_page pg m"

definition word_at :: "vm \<Rightarrow> u32 \<Rightarrow> nat \<Rightarrow> u32 option" where
  "word_at m p i = do { l \<leftarrow> mem m p; rd l i }"

definition set_word :: "u32 \<Rightarrow> nat \<Rightarrow> u32 \<Rightarrow> vm \<Rightarrow> vm option" where
  "set_word p i w m = do { l \<leftarrow> mem m p; l' \<leftarrow> wr l i w; Some (m\<lparr>mem := (mem m)(p \<mapsto> l')\<rparr>) }"

section \<open>Addresses and entries\<close>

definition va2pd :: "u32 \<Rightarrow> nat" where "va2pd a = unat (drop_bit 22 a)"
definition va2pt :: "u32 \<Rightarrow> nat" where "va2pt a = unat (drop_bit 12 (a AND 0x3FF000))"

definition pdpt2va :: "u32 \<Rightarrow> u32 \<Rightarrow> u32" where
  "pdpt2va pd pt = push_bit 22 pd OR push_bit 12 pt"

definition roundup2page :: "u32 \<Rightarrow> u32" where
  "roundup2page a = (if a mod PAGE_SIZE \<noteq> 0 then (a AND PAGE_MASK) + PAGE_SIZE else a)"

definition size2npages :: "u32 \<Rightarrow> u32" where
  "size2npages s = (if s mod PAGE_SIZE \<noteq> 0 then s div PAGE_SIZE + 1 else s div PAGE_SIZE)"

definition present :: "u32 \<Rightarrow> bool" where
  "present w \<longleftrightarrow> w AND PAGE_PRESENT \<noteq> 0"

definition get_pd_addr :: "vm \<Rightarrow> u32 \<Rightarrow> nat \<Rightarrow> u32 option" where
  "get_pd_addr m pd e = do { w \<leftarrow> word_at m pd e; Some (va (w AND PAGE_MASK)) }"

definition get_pt_addr :: "vm \<Rightarrow> u32 \<Rightarrow> nat \<Rightarrow> u32 option" where
  "get_pt_addr m pt i = do { w \<leftarrow> word_at m pt i; Some (va (w AND PAGE_MASK)) }"

definition entry_of :: "u32 \<Rightarrow> u32 \<Rightarrow> u32" where
  "entry_of page flags = (pa page AND PAGE_MASK) OR (flags AND 0xFFF)"

definition fill_pd_entry :: "u32 \<Rightarrow> nat \<Rightarrow> u32 \<Rightarrow> u32 \<Rightarrow> vm \<Rightarrow> vm option" where
  "fill_pd_entry pd e pt flags m = set_word pd e (entry_of pt flags) m"

definition fill_pt_entry :: "u32 \<Rightarrow> nat \<Rightarrow> u32 \<Rightarrow> u32 \<Rightarrow> vm \<Rightarrow> vm option" where
  "fill_pt_entry pt i page flags m = set_word pt i (entry_of page flags) m"

definition user_flags :: u32 where
  "user_flags = PAGE_PRESENT OR PAGE_RW OR PAGE_USER"

text \<open>cr3 is what save_pd reads: the directory that the processor uses.\<close>

definition virt2phys_pd :: "u32 \<Rightarrow> u32 \<Rightarrow> vm \<Rightarrow> u32 option" where
  "virt2phys_pd cr3 a m = do {
     w \<leftarrow> word_at m cr3 (va2pd a);
     if w AND PAGE_PSE \<noteq> 0 then Some (w AND PAGE_MASK)
     else do { pt \<leftarrow> get_pd_addr m cr3 (va2pd a); x \<leftarrow> word_at m pt (va2pt a); Some (x AND PAGE_MASK) } }"

section \<open>Directories\<close>

definition create_page_directory :: "u32 \<Rightarrow> vm \<Rightarrow> (u32 \<times> vm) option" where
  "create_page_directory c_pd m = (let (pd, m1) = mm_alloc_page m in
     if pd = 0 then Some (pd, m1)
     else do {
       l0 \<leftarrow> mem m1 pd;
       l1 \<leftarrow> memcpy l0 0 (replicate 1024 0) 0 1024;
       c \<leftarrow> mem m1 c_pd;
       l2 \<leftarrow> memcpy l1 (va2pd PAGE_OFFSET) c (va2pd PAGE_OFFSET) (1024 - va2pd PAGE_OFFSET);
       Some (pd, m1\<lparr>mem := (mem m1)(pd \<mapsto> l2)\<rparr>) })"

definition alloc_in_table :: "u32 \<Rightarrow> nat \<Rightarrow> vm \<Rightarrow> (u32 \<times> vm) option" where
  "alloc_in_table pt i m = do {
     x \<leftarrow> word_at m pt i;
     if present x then Some (0, m)
     else (let (page, m1) = mm_alloc_page m in
       if page = 0 then Some (0, m1)
       else do { m2 \<leftarrow> fill_pt_entry pt i page user_flags m1; Some (page, m2) }) }"

definition allocate_user_page :: "u32 \<Rightarrow> u32 \<Rightarrow> vm \<Rightarrow> (u32 \<times> vm) option" where
  "allocate_user_page pd a m =
    (if a \<ge> PAGE_OFFSET then Some (0, m)
     else do {
       w \<leftarrow> word_at m pd (va2pd a);
       if \<not> present w then (let (pt, m1) = mm_alloc_page m in
         if pt = 0 then Some (0, m1)
         else do { m2 \<leftarrow> fill_pd_entry pd (va2pd a) pt user_flags m1; alloc_in_table pt (va2pt a) m2 })
       else do { pt \<leftarrow> get_pd_addr m pd (va2pd a); alloc_in_table pt (va2pt a) m } })"

text \<open>The flag of a shared page is read after the entry was set to 0.\<close>

definition free_in_table :: "u32 \<Rightarrow> nat \<Rightarrow> vm \<Rightarrow> vm option" where
  "free_in_table pt i m = do {
     x \<leftarrow> word_at m pt i;
     if present x then do {
       page \<leftarrow> get_pt_addr m pt i;
       m1 \<leftarrow> set_word pt i 0 m;
       y \<leftarrow> word_at m1 pt i;
       Some (if y AND PAGE_UNUSED1 \<noteq> PAGE_UNUSED1 then mm_release_page page m1 else m1) }
     else Some m }"

definition table_empty :: "u32 \<Rightarrow> vm \<Rightarrow> bool option" where
  "table_empty pt m = do { l \<leftarrow> mem m pt; _ \<leftarrow> guard_c (length l = 1024); Some (\<forall>w\<in>set l. w = 0) }"

definition free_user_page :: "u32 \<Rightarrow> u32 \<Rightarrow> vm \<Rightarrow> (int \<times> vm) option" where
  "free_user_page pd a m =
    (if a \<ge> PAGE_OFFSET then Some (-1, m)
     else do {
       w \<leftarrow> word_at m pd (va2pd a);
       if present w then do {
         pt \<leftarrow> get_pd_addr m pd (va2pd a);
         m1 \<leftarrow> free_in_table pt (va2pt a) m;
         e \<leftarrow> table_empty pt m1;
         if e then do { m2 \<leftarrow> set_word pd (va2pd a) 0 m1; Some (0, mm_release_page pt m2) }
         else Some (0, m1) }
       else Some (0, m) })"

section \<open>Ranges\<close>

definition page_end :: "u32 \<Rightarrow> u32" where
  "page_end e = (if e AND NOT PAGE_MASK = 0 then e else (e AND PAGE_MASK) + PAGE_SIZE)"

partial_function (option) alloc_range_loop :: "u32 \<Rightarrow> u32 \<Rightarrow> u32 \<Rightarrow> vm \<Rightarrow> (int \<times> vm) option" where
  "alloc_range_loop pd a e m =
    (if a < e then do {
       (p, m1) \<leftarrow> allocate_user_page pd a m;
       if p \<le> 0 then Some (-1, m1) else alloc_range_loop pd (a + PAGE_SIZE) e m1 }
     else Some (0, m))"

definition alloc_user_range :: "u32 \<Rightarrow> u32 \<Rightarrow> u32 \<Rightarrow> vm \<Rightarrow> (int \<times> vm) option" where
  "alloc_user_range pd address offset m = alloc_range_loop pd (address AND PAGE_MASK) (page_end (address + offset)) m"

partial_function (option) free_range_loop :: "u32 \<Rightarrow> u32 \<Rightarrow> u32 \<Rightarrow> vm \<Rightarrow> (int \<times> vm) option" where
  "free_range_loop pd a e m =
    (if a < e then do {
       (r, m1) \<leftarrow> free_user_page pd a m;
       if r \<noteq> 0 then Some (-1, m1) else free_range_loop pd (a + PAGE_SIZE) e m1 }
     else Some (0, m))"

definition free_user_range :: "u32 \<Rightarrow> u32 \<Rightarrow> u32 \<Rightarrow> vm \<Rightarrow> (int \<times> vm) option" where
  "free_user_range pd start offset m = free_range_loop pd (start AND PAGE_MASK) (roundup2page (start + offset)) m"

partial_function (option) destroy_loop :: "u32 \<Rightarrow> u32 \<Rightarrow> vm \<Rightarrow> vm option" where
  "destroy_loop pd a m =
    (if a < PAGE_OFFSET then do { (r, m1) \<leftarrow> free_user_page pd a m; destroy_loop pd (a + PAGE_SIZE) m1 }
     else Some m)"

definition destroy_page_directory :: "u32 \<Rightarrow> vm \<Rightarrow> (int \<times> vm) option" where
  "destroy_page_directory pd m =
    (if pd = 0 then Some (-1, m)
     else do { m1 \<leftarrow> destroy_loop pd 0 m; Some (0, mm_release_page pd m1) })"

text \<open>The search for a range of pages without use; nvaddr and e are the range that is tried.\<close>

definition page_mapped :: "u32 \<Rightarrow> u32 \<Rightarrow> vm \<Rightarrow> bool option" where
  "page_mapped pd a m = do {
     w \<leftarrow> word_at m pd (va2pd a);
     if present w then do { pt \<leftarrow> get_pd_addr m pd (va2pd a); x \<leftarrow> word_at m pt (va2pt a); Some (present x) }
     else Some False }"

partial_function (option) find_range :: "u32 \<Rightarrow> u32 \<Rightarrow> u32 \<Rightarrow> u32 \<Rightarrow> u32 \<Rightarrow> vm \<Rightarrow> (u32 \<times> u32) option" where
  "find_range pd vsize a e nvaddr m =
    (if a < e \<and> a < PAGE_OFFSET then do {
       used \<leftarrow> page_mapped pd a m;
       if used then (let a' = a + PAGE_SIZE in
         find_range pd vsize (a' + PAGE_SIZE) (page_end (a' + vsize)) (a' AND PAGE_MASK) m)
       else find_range pd vsize (a + PAGE_SIZE) e nvaddr m }
     else Some (a, nvaddr))"

definition alloc_free_user_range :: "u32 \<Rightarrow> u32 \<Rightarrow> u32 \<Rightarrow> vm \<Rightarrow> (u32 \<times> vm) option" where
  "alloc_free_user_range pd vaddr vsize m =
    (if pd = 0 then Some (-1, m)
     else do {
       let start = vaddr AND PAGE_MASK;
       (a, nvaddr) \<leftarrow> find_range pd vsize start (page_end (vaddr + vsize)) start m;
       if a \<ge> PAGE_OFFSET then Some (0, m)
       else do {
         (r, m1) \<leftarrow> alloc_user_range pd nvaddr vsize m;
         Some (if r \<noteq> 0 then 0 else nvaddr, m1) } })"

section \<open>Pages of others\<close>

text \<open>kmem_page_map enters a page that somebody else owns into a directory.\<close>

definition map_in_table :: "u32 \<Rightarrow> nat \<Rightarrow> u32 \<Rightarrow> u32 \<Rightarrow> u32 \<Rightarrow> vm \<Rightarrow> (u32 \<times> vm) option" where
  "map_in_table pt i kladdr flags dvaddr m = do {
     x \<leftarrow> word_at m pt i;
     if \<not> present x then do { m1 \<leftarrow> fill_pt_entry pt i kladdr flags m; Some (dvaddr, m1) }
     else Some (0, m) }"

definition kmem_page_map :: "u32 \<Rightarrow> u32 \<Rightarrow> u32 \<Rightarrow> u32 \<Rightarrow> vm \<Rightarrow> (u32 \<times> vm) option" where
  "kmem_page_map pd flags dvaddr kladdr m = do {
     w \<leftarrow> word_at m pd (va2pd dvaddr);
     if \<not> present w then (let (pt, m1) = get_free_page m in
       if pt = 0 then Some (0, m1)
       else do {
         let m2 = m1\<lparr>mem := (mem m1)(pt \<mapsto> replicate 1024 0)\<rparr>;
         m3 \<leftarrow> fill_pd_entry pd (va2pd dvaddr) pt (flags OR PAGE_PRESENT) m2;
         map_in_table pt (va2pt dvaddr) kladdr flags dvaddr m3 })
     else do { pt \<leftarrow> get_pd_addr m pd (va2pd dvaddr); map_in_table pt (va2pt dvaddr) kladdr flags dvaddr m } }"

definition kmem_page_unmap :: "u32 \<Rightarrow> u32 \<Rightarrow> vm \<Rightarrow> (int \<times> vm) option" where
  "kmem_page_unmap pd dvaddr m = do {
     w \<leftarrow> word_at m pd (va2pd dvaddr);
     if present w then do {
       pt \<leftarrow> get_pd_addr m pd (va2pd dvaddr);
       x \<leftarrow> word_at m pt (va2pt dvaddr);
       if present x then do { m1 \<leftarrow> set_word pt (va2pt dvaddr) 0 m; Some (0, m1) } else Some (0, m) }
     else Some (0, m) }"

end
