(* ===== verification/XPagesInv.thy ===== *)
theory XPagesInv
  imports XPages
begin

unbundle bit_operations_syntax

text \<open>
  An address space as a map from page numbers to pages (include/i386/mm.h): what a
  directory and its tables stand for, and the steps in which the code changes
  them.
\<close>

section \<open>Words\<close>

lemma PAGE_MASK_mask: "PAGE_MASK = NOT (mask 12)"
  by (simp add: PAGE_MASK_def mask_numeral)

lemma va2pd_div: "va2pd a = unat a div 4096 div 1024"
  unfolding va2pd_def unat_drop_bit_eq unfolding drop_bit_eq_div by (simp add: div_mult2_eq [symmetric])

lemma va2pt_div: "va2pt a = unat a div 4096 mod 1024"
proof -
  have m: "(0x3FF000 :: u32) = push_bit 12 (mask 10)" by (simp add: mask_numeral)
  have "drop_bit 12 (a AND 0x3FF000) = take_bit 10 (drop_bit 12 a)"
    unfolding m by (intro bit_word_eqI) (auto simp only: bit_and_iff bit_push_bit_iff bit_mask_iff bit_take_bit_iff bit_drop_bit_eq o_apply,
      simp_all add: possible_bit_word)
  then have "va2pt a = take_bit 10 (drop_bit 12 (unat a))"
    unfolding va2pt_def by (simp only: unsigned_take_bit_eq unat_drop_bit_eq)
  then show ?thesis by (simp add: take_bit_eq_mod drop_bit_eq_div)
qed

lemma va2pt_less [simp]: "va2pt a < 1024"
  by (simp add: va2pt_div)

lemma va2pd_less: "va2pd a < 1024"
  using unsigned_less [of a, where 'a = nat] by (simp add: va2pd_div div_mult2_eq [symmetric] less_mult_imp_div_less)

definition pagenum :: "u32 \<Rightarrow> nat" where
  "pagenum a = unat a div 4096"

lemma pagenum_split: "va2pd a = pagenum a div 1024" "va2pt a = pagenum a mod 1024"
  by (simp_all add: pagenum_def va2pd_div va2pt_div)

lemma user_page: "a < PAGE_OFFSET \<longleftrightarrow> va2pd a < 768"
  by (simp add: PAGE_OFFSET_def word_less_nat_alt va2pd_div div_mult2_eq [symmetric]) linarith

lemma user_pagenum: "a < PAGE_OFFSET \<longleftrightarrow> pagenum a < 768 * 1024"
  by (simp add: PAGE_OFFSET_def word_less_nat_alt pagenum_def) linarith

definition page_aligned :: "u32 \<Rightarrow> bool" where
  "page_aligned p \<longleftrightarrow> take_bit 12 p = 0"

definition addr :: "u32 \<Rightarrow> u32" where
  "addr w = va (w AND PAGE_MASK)"

lemma aligned_pa: "page_aligned p \<Longrightarrow> pa p AND PAGE_MASK = pa p"
proof -
  assume p: "page_aligned p"
  have "12 \<le> n" if "bit p n" for n
    using p that by (simp add: page_aligned_def take_bit_zero_iff_bits) (meson not_le)
  then have "p = push_bit 12 (drop_bit 12 p)"
    by (intro bit_word_eqI) (auto simp: bit_push_bit_iff bit_drop_bit_eq)
  then have "pa p = push_bit 12 (drop_bit 12 p - 0xC0000)"
    unfolding pa_def PAGE_OFFSET_def push_bit_eq_mult by (simp add: algebra_simps)
  then have "\<not> bit (pa p) n" if "n < 12" for n using that by (simp add: bit_push_bit_iff)
  then show ?thesis unfolding PAGE_MASK_mask by (intro bit_word_eqI) (auto simp: bit_simps)
qed

lemma addr_entry: "page_aligned p \<Longrightarrow> addr (entry_of p f) = p"
proof -
  assume p: "page_aligned p"
  have "(0xFFF :: u32) = mask 12" by (simp add: mask_numeral)
  then have "entry_of p f AND PAGE_MASK = pa p AND PAGE_MASK"
    unfolding entry_of_def PAGE_MASK_mask by (intro bit_word_eqI) (auto simp: bit_simps)
  then show ?thesis using aligned_pa [OF p] by (simp add: addr_def va_def pa_def)
qed

lemma present_bit: "present w \<longleftrightarrow> bit w 0"
proof -
  have "w AND 1 \<noteq> 0 \<longleftrightarrow> bit w 0" using word_nonzero_bit [of "w AND 1"] word_bit_nonzero [of "w AND 1" 0]
    by (auto simp: bit_simps)
  then show ?thesis by (simp add: present_def PAGE_PRESENT_def)
qed

lemma present_0 [simp]: "\<not> present 0"
  by (simp add: present_def)

lemma present_entry: "present (entry_of p f) \<longleftrightarrow> present f"
proof -
  have "(0xFFF :: u32) = mask 12" by (simp add: mask_numeral)
  then show ?thesis unfolding present_bit entry_of_def PAGE_MASK_mask by (auto simp: bit_simps)
qed

lemma present_user_flags [simp]: "present user_flags"
  by (simp add: present_def user_flags_def PAGE_PRESENT_def PAGE_RW_def PAGE_USER_def)

section \<open>Address spaces\<close>

definition full :: "vm \<Rightarrow> u32 \<Rightarrow> bool" where
  "full m p \<longleftrightarrow> (\<exists>l. mem m p = Some l \<and> length l = 1024)"

definition ent :: "vm \<Rightarrow> u32 \<Rightarrow> nat \<Rightarrow> u32" where
  "ent m p i = (case mem m p of None \<Rightarrow> 0 | Some l \<Rightarrow> l ! i)"

definition tab :: "vm \<Rightarrow> u32 \<Rightarrow> nat \<Rightarrow> u32" where
  "tab m pd e = addr (ent m pd e)"

definition tables :: "vm \<Rightarrow> u32 \<Rightarrow> u32 set" where
  "tables m pd = {tab m pd e | e. e < 768 \<and> present (ent m pd e)}"

definition clean :: "vm \<Rightarrow> u32 \<Rightarrow> nat \<Rightarrow> bool" where
  "clean m p n \<longleftrightarrow> (\<forall>i<n. ent m p i \<noteq> 0 \<longrightarrow> present (ent m p i))"

text \<open>A directory of 768 entries for the user part, whose tables are pages of their own.\<close>

definition paging :: "vm \<Rightarrow> u32 \<Rightarrow> bool" where
  "paging m pd \<longleftrightarrow> full m pd \<and> clean m pd 768 \<and>
     (\<forall>e<768. present (ent m pd e) \<longrightarrow> full m (tab m pd e) \<and> clean m (tab m pd e) 1024 \<and> tab m pd e \<noteq> pd) \<and>
     (\<forall>e<768. \<forall>f<768. present (ent m pd e) \<longrightarrow> present (ent m pd f) \<longrightarrow> tab m pd e = tab m pd f \<longrightarrow> e = f)"

text \<open>The page that page number n is mapped to.\<close>

definition lookup :: "vm \<Rightarrow> u32 \<Rightarrow> nat \<Rightarrow> u32 option" where
  "lookup m pd n = (let e = n div 1024; i = n mod 1024 in
     if e < 768 \<and> present (ent m pd e) \<and> present (ent m (tab m pd e) i) then Some (addr (ent m (tab m pd e) i)) else None)"

definition source_ok :: "vm \<Rightarrow> bool" where
  "source_ok m \<longleftrightarrow> distinct (free_pages m) \<and> (\<forall>p\<in>set (free_pages m). p \<noteq> 0 \<and> page_aligned p \<and> mem m p = None)"

definition space :: "vm \<Rightarrow> u32 \<Rightarrow> bool" where
  "space m pd \<longleftrightarrow> paging m pd \<and> source_ok m \<and>
     (\<forall>n p. lookup m pd n = Some p \<longrightarrow> p \<noteq> pd \<and> p \<notin> tables m pd \<and> p \<notin> set (free_pages m))"

lemma full_word_at: "full m p \<Longrightarrow> i < 1024 \<Longrightarrow> word_at m p i = Some (ent m p i)"
  by (auto simp: full_def word_at_def ent_def)

definition put :: "u32 \<Rightarrow> nat \<Rightarrow> u32 \<Rightarrow> vm \<Rightarrow> vm" where
  "put p i w m = m\<lparr>mem := (mem m)(p \<mapsto> (the (mem m p))[i := w])\<rparr>"

lemma full_set_word: "full m p \<Longrightarrow> i < 1024 \<Longrightarrow> set_word p i w m = Some (put p i w m)"
  by (auto simp: full_def set_word_def put_def)

lemma put_fields [simp]: "free_pages (put p i w m) = free_pages m" "released (put p i w m) = released m"
  by (simp_all add: put_def)

lemma full_put [simp]: "full m p \<Longrightarrow> full (put p i w m) q = full m q"
  by (auto simp: full_def put_def)

lemma ent_put: "full m p \<Longrightarrow> i < 1024 \<Longrightarrow> j < 1024 \<Longrightarrow> ent (put p i w m) q j = (if q = p \<and> j = i then w else ent m q j)"
  by (auto simp: full_def put_def ent_def split: option.splits)

lemma mem_put: "q \<noteq> p \<Longrightarrow> mem (put p i w m) q = mem m q"
  by (simp add: put_def)

definition grab :: "u32 \<Rightarrow> vm \<Rightarrow> vm" where
  "grab p m = m\<lparr>free_pages := tl (free_pages m), mem := (mem m)(p \<mapsto> replicate 1024 0)\<rparr>"

lemma alloc_page_cases:
  "source_ok m \<Longrightarrow> mm_alloc_page m = (case free_pages m of [] \<Rightarrow> (0, m) | p # ps \<Rightarrow> (p, grab p m))"
  by (cases "free_pages m") (auto simp: mm_alloc_page_def get_free_page_def grab_def source_ok_def)

lemma source_page: "source_ok m \<Longrightarrow> free_pages m = p # ps \<Longrightarrow> p \<noteq> 0 \<and> page_aligned p \<and> mem m p = None \<and> \<not> full m p"
  by (auto simp: source_ok_def full_def)

lemma grab_fields: "free_pages m = p # ps \<Longrightarrow> free_pages (grab p m) = ps" "released (grab p m) = released m"
  by (simp_all add: grab_def)

lemma full_grab: "full (grab p m) q \<longleftrightarrow> q = p \<or> full m q"
  by (auto simp: full_def grab_def)

lemma ent_grab: "mem m p = None \<Longrightarrow> i < 1024 \<Longrightarrow> ent (grab p m) q i = ent m q i"
  by (auto simp: ent_def grab_def split: option.splits)

lemma tab_ent: "ent m' pd e = ent m pd e \<Longrightarrow> tab m' pd e = tab m pd e"
  by (simp add: tab_def)

text \<open>Two states with the same entries in a directory and its tables.\<close>

lemma paging_same:
  assumes p: "paging m pd" and e: "\<And>q i. q \<in> insert pd (tables m pd) \<Longrightarrow> i < 1024 \<Longrightarrow> ent m' q i = ent m q i"
    and f: "\<And>q. q \<in> insert pd (tables m pd) \<Longrightarrow> full m' q"
  shows "paging m' pd" "lookup m' pd = lookup m pd" "tables m' pd = tables m pd"
proof -
  have d: "ent m' pd e = ent m pd e" "tab m' pd e = tab m pd e" if "e < 768" for e
    using e [of pd e] that by (simp_all add: tab_def)
  have t: "tab m pd e \<in> tables m pd" if "e < 768" "present (ent m pd e)" for e using that by (auto simp: tables_def)
  have te: "ent m' (tab m pd e) i = ent m (tab m pd e) i" if "e < 768" "present (ent m pd e)" "i < 1024" for e i
    using e [of "tab m pd e" i] t that by simp
  show "tables m' pd = tables m pd" using d unfolding tables_def by (intro Collect_cong) metis
  show "lookup m' pd = lookup m pd"
    using d te by (auto simp: lookup_def Let_def fun_eq_iff)
  have "full m' pd" using f by simp
  moreover have "full m' (tab m pd e)" if "e < 768" "present (ent m pd e)" for e using f t that by simp
  ultimately show "paging m' pd" using p d te unfolding paging_def clean_def by (simp add: less_imp_le)
qed

section \<open>Steps\<close>

lemma num_split: "n = e * 1024 + i \<longleftrightarrow> n div 1024 = e \<and> n mod 1024 = i" if "i < 1024" for n e i :: nat
  using that by auto

text \<open>An entry of the table of directory entry e changes.\<close>

lemma entry_change:
  assumes p: "paging m pd" and e: "e < 768" "present (ent m pd e)" "t = tab m pd e" and i: "i < 1024" and w: "w = 0 \<or> present w"
    and e': "\<And>q j. q \<in> insert pd (tables m pd) \<Longrightarrow> j < 1024 \<Longrightarrow> ent m' q j = (if q = t \<and> j = i then w else ent m q j)"
    and f: "\<And>q. q \<in> insert pd (tables m pd) \<Longrightarrow> full m' q"
  shows "paging m' pd" "tables m' pd = tables m pd"
    "lookup m' pd = (lookup m pd)(e * 1024 + i := if present w then Some (addr w) else None)"
proof -
  have nt: "t \<noteq> pd" using p e by (simp add: paging_def)
  have t: "tab m pd e \<in> tables m pd" if "e < 768" "present (ent m pd e)" for e using that by (auto simp: tables_def)
  have d: "ent m' pd e = ent m pd e" "tab m' pd e = tab m pd e" if "e < 768" for e
    using e' [of pd e] that nt by (simp_all add: tab_def)
  have te: "ent m' (tab m pd e1) j = (if e1 = e \<and> j = i then w else ent m (tab m pd e1) j)"
    if "e1 < 768" "present (ent m pd e1)" "j < 1024" for e1 j
  proof -
    have "tab m pd e1 = t \<longleftrightarrow> e1 = e" using p e that by (auto simp: paging_def)
    then show ?thesis using e' [of "tab m pd e1" j] t that by auto
  qed
  show tb: "tables m' pd = tables m pd" using d unfolding tables_def by (intro Collect_cong) metis
  show "lookup m' pd = (lookup m pd)(e * 1024 + i := if present w then Some (addr w) else None)"
  proof
    fix n
    show "lookup m' pd n = ((lookup m pd)(e * 1024 + i := if present w then Some (addr w) else None)) n"
    proof (cases "n div 1024 < 768 \<and> present (ent m pd (n div 1024))")
      case True
      then show ?thesis using d te [of "n div 1024" "n mod 1024"] num_split [OF i, of n e] by (auto simp: lookup_def Let_def)
    next
      case False
      moreover have "n \<noteq> e * 1024 + i" using False e num_split [OF i, of n e] by auto
      ultimately show ?thesis using d by (auto simp: lookup_def Let_def)
    qed
  qed
  have "full m' pd" "clean m' pd 768" using f p d by (simp_all add: paging_def clean_def)
  moreover have "full m' (tab m pd e1) \<and> clean m' (tab m pd e1) 1024 \<and> tab m pd e1 \<noteq> pd"
    if "e1 < 768" "present (ent m pd e1)" for e1
    using f t that p te w by (auto simp: paging_def clean_def)
  ultimately show "paging m' pd" using p d unfolding paging_def by simp
qed

text \<open>An empty table p is entered.\<close>

lemma table_added:
  assumes p: "paging m pd" and e: "e < 768" "\<not> present (ent m pd e)" and w: "present w" "addr w = p" "p \<noteq> pd" "p \<notin> tables m pd"
    and e': "\<And>q j. q \<in> insert pd (tables m pd) \<Longrightarrow> j < 1024 \<Longrightarrow> ent m' q j = (if q = pd \<and> j = e then w else ent m q j)"
    and f: "\<And>q. q \<in> insert p (insert pd (tables m pd)) \<Longrightarrow> full m' q" and z: "\<And>j. j < 1024 \<Longrightarrow> ent m' p j = 0"
  shows "paging m' pd" "tables m' pd = insert p (tables m pd)" "lookup m' pd = lookup m pd" "tab m' pd e = p" "present (ent m' pd e)"
proof -
  have t: "tab m pd e \<in> tables m pd" if "e < 768" "present (ent m pd e)" for e using that by (auto simp: tables_def)
  have d: "ent m' pd e1 = (if e1 = e then w else ent m pd e1)" "tab m' pd e1 = (if e1 = e then p else tab m pd e1)" if "e1 < 768" for e1
    using e' [of pd e1] that w by (simp_all add: tab_def)
  have te: "ent m' (tab m pd e1) j = ent m (tab m pd e1) j" if "e1 < 768" "present (ent m pd e1)" "j < 1024" for e1 j
    using e' [of "tab m pd e1" j] t that p by (auto simp: paging_def)
  have ne: "tab m pd e1 \<noteq> p" if "e1 < 768" "present (ent m pd e1)" for e1 using t that w(4) by auto
  show pe: "tab m' pd e = p" "present (ent m' pd e)" using d e w by simp_all
  show "tables m' pd = insert p (tables m pd)"
  proof
    show "tables m' pd \<subseteq> insert p (tables m pd)"
      using d by (auto simp: tables_def split: if_splits)
    have "p \<in> tables m' pd" using pe e by (auto simp: tables_def)
    moreover have "tab m pd e1 \<in> tables m' pd" if "e1 < 768" "present (ent m pd e1)" for e1
    proof -
      have "e1 \<noteq> e" using that e by auto
      then have "tab m' pd e1 = tab m pd e1" "present (ent m' pd e1)" using d that by simp_all
      then show ?thesis unfolding tables_def using that by (intro CollectI exI [of _ e1]) simp
    qed
    ultimately show "insert p (tables m pd) \<subseteq> tables m' pd" by (auto simp: tables_def [of m])
  qed
  show "lookup m' pd = lookup m pd"
  proof
    fix n
    show "lookup m' pd n = lookup m pd n"
      using d [of "n div 1024"] te [of "n div 1024" "n mod 1024"] z [of "n mod 1024"] e
      by (cases "n div 1024 = e") (auto simp: lookup_def Let_def)
  qed
  have "full m' pd" "clean m' pd 768" using f p d w by (auto simp: paging_def clean_def)
  moreover have "full m' (tab m' pd e1) \<and> clean m' (tab m' pd e1) 1024 \<and> tab m' pd e1 \<noteq> pd"
    if "e1 < 768" "present (ent m' pd e1)" for e1
    using d [OF that(1)] that f t [of e1] p te z w by (cases "e1 = e") (auto simp: paging_def clean_def)
  moreover have "e1 = e2" if "e1 < 768" "e2 < 768" "present (ent m' pd e1)" "present (ent m' pd e2)" "tab m' pd e1 = tab m' pd e2" for e1 e2
    using d [OF that(1)] d [OF that(2)] that p ne [of e1] ne [of e2] by (cases "e1 = e"; cases "e2 = e") (auto simp: paging_def)
  ultimately show "paging m' pd" unfolding paging_def by blast
qed

text \<open>An empty table is taken out.\<close>

lemma table_removed:
  assumes p: "paging m pd" and e: "e < 768" "present (ent m pd e)" "t = tab m pd e" and z: "\<And>j. j < 1024 \<Longrightarrow> ent m t j = 0"
    and e': "\<And>q j. q \<in> insert pd (tables m pd) \<Longrightarrow> q \<noteq> t \<Longrightarrow> j < 1024 \<Longrightarrow> ent m' q j = (if q = pd \<and> j = e then 0 else ent m q j)"
    and f: "\<And>q. q \<in> insert pd (tables m pd) \<Longrightarrow> q \<noteq> t \<Longrightarrow> full m' q"
  shows "paging m' pd" "tables m' pd = tables m pd - {t}" "lookup m' pd = lookup m pd"
proof -
  have nt: "t \<noteq> pd" using p e by (simp add: paging_def)
  have t: "tab m pd e \<in> tables m pd" if "e < 768" "present (ent m pd e)" for e using that by (auto simp: tables_def)
  have d: "ent m' pd e1 = (if e1 = e then 0 else ent m pd e1)" if "e1 < 768" for e1
    using e' [of pd e1] that nt by simp
  have dt: "tab m' pd e1 = tab m pd e1" if "e1 < 768" "e1 \<noteq> e" for e1 using d that by (simp add: tab_def)
  have other: "tab m pd e1 \<noteq> t" if "e1 < 768" "e1 \<noteq> e" "present (ent m pd e1)" for e1
    using p e that by (auto simp: paging_def)
  have te: "ent m' (tab m pd e1) j = ent m (tab m pd e1) j" if "e1 < 768" "e1 \<noteq> e" "present (ent m pd e1)" "j < 1024" for e1 j
    using e' [of "tab m pd e1" j] t other that p by (auto simp: paging_def)
  show "tables m' pd = tables m pd - {t}"
  proof
    show "tables m' pd \<subseteq> tables m pd - {t}" using d dt other by (auto simp: tables_def split: if_splits) blast
    show "tables m pd - {t} \<subseteq> tables m' pd" using d dt e by (auto simp: tables_def) (metis d)
  qed
  show "lookup m' pd = lookup m pd"
  proof
    fix n
    show "lookup m' pd n = lookup m pd n"
      using d [of "n div 1024"] dt [of "n div 1024"] te [of "n div 1024" "n mod 1024"] z [of "n mod 1024"] e
      by (cases "n div 1024 = e") (auto simp: lookup_def Let_def)
  qed
  have "full m' pd" "clean m' pd 768" using f p d nt by (auto simp: paging_def clean_def)
  moreover have "full m' (tab m' pd e1) \<and> clean m' (tab m' pd e1) 1024 \<and> tab m' pd e1 \<noteq> pd"
    if "e1 < 768" "present (ent m' pd e1)" for e1
  proof -
    have "e1 \<noteq> e" "present (ent m pd e1)" using d [OF that(1)] that(2) by (auto split: if_splits)
    then show ?thesis using that(1) dt other f t te p by (auto simp: paging_def clean_def)
  qed
  moreover have "e1 = e2" if "e1 < 768" "e2 < 768" "present (ent m' pd e1)" "present (ent m' pd e2)" "tab m' pd e1 = tab m' pd e2" for e1 e2
    using d [OF that(1)] d [OF that(2)] dt [OF that(1)] dt [OF that(2)] that p by (cases "e1 = e"; cases "e2 = e") (auto simp: paging_def)
  ultimately show "paging m' pd" unfolding paging_def by blast
qed

end
