(* ===== verification/XPagesOps.thy ===== *)
theory XPagesOps
  imports XPagesInv
begin

unbundle bit_operations_syntax

text \<open>
  What the operations on directories (include/i386/mm.h, kmem.c) do to the map
  from page numbers to pages, and that the pages given back are those that were
  taken.
\<close>

section \<open>Allocation\<close>

lemma spaceD:
  assumes "space m pd"
  shows "paging m pd" "source_ok m" "full m pd"
    "\<And>e. e < 768 \<Longrightarrow> present (ent m pd e) \<Longrightarrow> full m (tab m pd e) \<and> tab m pd e \<noteq> pd \<and> tab m pd e \<in> tables m pd"
    "\<And>q. q \<in> tables m pd \<Longrightarrow> full m q \<and> q \<noteq> pd"
    "\<And>n p. lookup m pd n = Some p \<Longrightarrow> p \<noteq> pd \<and> p \<notin> tables m pd \<and> p \<notin> set (free_pages m)"
  using assms by (auto simp: space_def paging_def tables_def)

lemma grab_ok:
  assumes s: "space m pd" and p: "free_pages m = p # ps"
  shows "space (grab p m) pd" "lookup (grab p m) pd = lookup m pd" "tables (grab p m) pd = tables m pd"
    "p \<noteq> pd" "p \<notin> tables m pd" "p \<notin> set ps" "p \<noteq> 0" "page_aligned p" "lookup m pd n \<noteq> Some p" "mem m p = None"
proof -
  note d = spaceD [OF s]
  note sp = source_page [OF d(2) p]
  show "p \<noteq> 0" "page_aligned p" "mem m p = None" using sp by simp_all
  show np: "p \<noteq> pd" "p \<notin> tables m pd" using sp d(3,5) by auto
  show "lookup m pd n \<noteq> Some p" using d(6) p by fastforce
  show "p \<notin> set ps" using d(2) p by (auto simp: source_ok_def)
  have f: "full (grab p m) q" if "q \<in> insert pd (tables m pd)" for q using that d(3,5) by (auto simp: full_grab)
  have e: "ent (grab p m) q i = ent m q i" if "i < 1024" for q i using sp that by (simp add: ent_grab)
  note ps = paging_same [OF d(1), of "grab p m", OF e f]
  show l: "lookup (grab p m) pd = lookup m pd" "tables (grab p m) pd = tables m pd" by (rule ps(2,3); assumption)+
  have "source_ok (grab p m)" using d(2) p by (auto simp: source_ok_def grab_def)
  moreover have "set (free_pages (grab p m)) \<subseteq> set (free_pages m)" using p by (auto simp: grab_fields)
  moreover have "paging (grab p m) pd" by (rule ps(1); assumption)
  ultimately show "space (grab p m) pd" using l d(6) unfolding space_def by auto
qed

text \<open>The entry of a page in a table is set or cleared.\<close>

lemma put_entry:
  assumes s: "space m pd" and e: "e < 768" "present (ent m pd e)" "t = tab m pd e" and i: "i < 1024"
    and w: "w = 0 \<or> present w \<and> addr w \<noteq> pd \<and> addr w \<notin> tables m pd \<and> addr w \<notin> set (free_pages m)"
  shows "space (put t i w m) pd" "tables (put t i w m) pd = tables m pd"
    "lookup (put t i w m) pd = (lookup m pd)(e * 1024 + i := if present w then Some (addr w) else None)"
proof -
  note d = spaceD [OF s]
  have t: "full m t" "t \<noteq> pd" "t \<in> tables m pd" using d(4) e by auto
  have f: "full (put t i w m) q" if "q \<in> insert pd (tables m pd)" for q using that d(3,5) t(1) by auto
  have ww: "w = 0 \<or> present w" using w by blast
  note c = entry_change [OF d(1) e i ww, of "put t i w m", OF ent_put [OF t(1) i] f]
  show "tables (put t i w m) pd = tables m pd"
    "lookup (put t i w m) pd = (lookup m pd)(e * 1024 + i := if present w then Some (addr w) else None)"
    by (rule c(2,3); assumption)+
  moreover have "paging (put t i w m) pd" by (rule c(1); assumption)
  moreover have "source_ok (put t i w m)" using d(2) t(1) by (auto simp: source_ok_def put_def full_def)
  ultimately show "space (put t i w m) pd" using d(6) w unfolding space_def by (auto split: if_splits)
qed

lemma put_table:
  assumes s: "space m pd" and e: "e < 768" "\<not> present (ent m pd e)" and p: "free_pages m = p # ps" and f: "present f"
  shows "space (put pd e (entry_of p f) (grab p m)) pd" "lookup (put pd e (entry_of p f) (grab p m)) pd = lookup m pd"
    "tab (put pd e (entry_of p f) (grab p m)) pd e = p" "present (ent (put pd e (entry_of p f) (grab p m)) pd e)"
    "tables (put pd e (entry_of p f) (grab p m)) pd = insert p (tables m pd)"
    "\<And>j. j < 1024 \<Longrightarrow> ent (put pd e (entry_of p f) (grab p m)) p j = 0"
    "free_pages (put pd e (entry_of p f) (grab p m)) = ps" "released (put pd e (entry_of p f) (grab p m)) = released m"
proof -
  let ?g = "grab p m" and ?m = "put pd e (entry_of p f) (grab p m)"
  note g = grab_ok [OF s p] and d = spaceD [OF s]
  have fd: "full ?g pd" using d(3) by (simp add: full_grab)
  have z: "ent ?m p j = 0" if "j < 1024" for j
    using ent_put [OF fd, of e j _ p] e(1) that g(4) ent_grab [of m p j p] g(10) by (simp add: ent_def [of m])
  have en: "ent ?m q j = (if q = pd \<and> j = e then entry_of p f else ent m q j)" if "j < 1024" for q j
    using ent_put [OF fd, of e j _ q] e(1) that ent_grab [OF g(10)] by simp
  have fu: "full ?m q" if "q \<in> insert p (insert pd (tables m pd))" for q
    using that d(3,5) fd by (auto simp: full_grab)
  have w: "present (entry_of p f)" "addr (entry_of p f) = p" using f g(8) by (simp_all add: present_entry addr_entry)
  note c = table_added [OF d(1) e w g(4,5), of ?m, OF en fu z]
  show l: "lookup ?m pd = lookup m pd" "tab ?m pd e = p" "present (ent ?m pd e)" "tables ?m pd = insert p (tables m pd)"
    by (rule c(2-); assumption)+
  show "\<And>j. j < 1024 \<Longrightarrow> ent ?m p j = 0" by (rule z)
  show fp: "free_pages ?m = ps" "released ?m = released m" using p by (simp_all add: grab_fields)
  have "paging ?m pd" by (rule c(1); assumption)
  moreover have "source_ok ?m"
  proof -
    have "source_ok ?g" using g(1) by (simp add: space_def)
    then show ?thesis using fd by (auto simp: source_ok_def put_def full_def)
  qed
  moreover have "q \<noteq> pd \<and> q \<notin> insert p (tables m pd) \<and> q \<notin> set ps" if "lookup m pd n = Some q" for n q
    using d(6) [OF that] p g(9) [of n] that by auto
  ultimately show "space ?m pd" using l fp unfolding space_def by metis
qed

text \<open>All the pages there are: with Linux, given back, used as tables and mapped.\<close>

definition ledger :: "vm \<Rightarrow> u32 \<Rightarrow> u32 multiset" where
  "ledger m pd = mset (free_pages m) + mset (released m) + mset_set (tables m pd) +
     image_mset (\<lambda>n. the (lookup m pd n)) (mset_set (dom (lookup m pd)))"

lemma lookup_bound: "lookup m pd n = Some p \<Longrightarrow> n < 768 * 1024"
  by (auto simp: lookup_def Let_def split: if_splits)

lemma finite_maps [simp]: "finite (dom (lookup m pd))" "finite (tables m pd)"
proof -
  have "dom (lookup m pd) \<subseteq> {..<768 * 1024}" using lookup_bound by (auto simp del: mult_numeral_left)
  then show "finite (dom (lookup m pd))" by (rule finite_subset) simp
  have "tables m pd = (tab m pd) ` {e. e < 768 \<and> present (ent m pd e)}" by (auto simp: tables_def)
  then show "finite (tables m pd)" by simp
qed

lemma frames_add:
  assumes "finite (dom M)" "M n = None"
  shows "image_mset (\<lambda>k. the ((M(n \<mapsto> p)) k)) (mset_set (dom (M(n \<mapsto> p)))) =
    add_mset p (image_mset (\<lambda>k. the (M k)) (mset_set (dom M)))"
proof -
  have n: "n \<notin> dom M" using assms(2) by auto
  then have "image_mset (\<lambda>k. the ((M(n \<mapsto> p)) k)) (mset_set (dom M)) = image_mset (\<lambda>k. the (M k)) (mset_set (dom M))"
    using assms(1) by (intro image_mset_cong) auto
  then show ?thesis using assms(1) n by simp
qed

lemma frames_remove:
  assumes "finite (dom M)" "M n = Some p"
  shows "image_mset (\<lambda>k. the (M k)) (mset_set (dom M)) =
    add_mset p (image_mset (\<lambda>k. the ((M(n := None)) k)) (mset_set (dom (M(n := None)))))"
proof -
  have "M = (M(n := None))(n \<mapsto> p)" using assms(2) by auto
  then show ?thesis using frames_add [of "M(n := None)" n p] assms(1) by simp
qed

lemma lookup_num:
  "e < 768 \<Longrightarrow> present (ent m pd e) \<Longrightarrow> i < 1024 \<Longrightarrow>
   lookup m pd (e * 1024 + i) = (if present (ent m (tab m pd e) i) then Some (addr (ent m (tab m pd e) i)) else None)"
  by (simp add: lookup_def Let_def)

lemma alloc_in_table_ok:
  assumes s: "space m pd" and e: "e < 768" "present (ent m pd e)" and i: "i < 1024" and n: "n = e * 1024 + i"
  shows "\<exists>p m'. alloc_in_table (tab m pd e) i m = Some (p, m') \<and> space m' pd \<and> ledger m' pd = ledger m pd \<and> released m' = released m \<and>
    (if lookup m pd n \<noteq> None then p = 0 \<and> m' = m
     else case free_pages m of [] \<Rightarrow> p = 0 \<and> m' = m
       | q # qs \<Rightarrow> p = q \<and> q \<noteq> 0 \<and> lookup m' pd = (lookup m pd)(n \<mapsto> q) \<and> free_pages m' = qs \<and> mem m' q = Some (replicate 1024 0))"
proof -
  let ?t = "tab m pd e"
  note d = spaceD [OF s]
  have t: "full m ?t" "?t \<in> tables m pd" using d(4) e by auto
  have w: "word_at m ?t i = Some (ent m ?t i)" by (rule full_word_at [OF t(1) i])
  have l: "lookup m pd n = (if present (ent m ?t i) then Some (addr (ent m ?t i)) else None)"
    unfolding n by (rule lookup_num [OF e i])
  show ?thesis
  proof (cases "present (ent m ?t i)")
    case True
    then show ?thesis using w l s by (simp add: alloc_in_table_def)
  next
    case False
    note al = alloc_page_cases [OF d(2)]
    show ?thesis
    proof (cases "free_pages m")
      case Nil
      then show ?thesis using w l s al False by (simp add: alloc_in_table_def)
    next
      case (Cons q qs)
      note g = grab_ok [OF s Cons]
      let ?m' = "put ?t i (entry_of q user_flags) (grab q m)"
      have gt: "ent (grab q m) pd e = ent m pd e" "full (grab q m) ?t" "tab (grab q m) pd e = ?t"
        using e(1) ent_grab [OF g(10)] t(1) by (auto simp: tab_def full_grab)
      have ae: "addr (entry_of q user_flags) = q" "present (entry_of q user_flags)"
        using g(8) by (simp_all add: addr_entry present_entry)
      have w': "entry_of q user_flags = 0 \<or> present (entry_of q user_flags) \<and> addr (entry_of q user_flags) \<noteq> pd \<and>
          addr (entry_of q user_flags) \<notin> tables (grab q m) pd \<and> addr (entry_of q user_flags) \<notin> set (free_pages (grab q m))"
        using ae g Cons by (simp add: grab_fields)
      note pe = put_entry [OF g(1) e(1) _ refl i w', unfolded gt(1,3), OF e(2)]
      have lk: "lookup ?m' pd = (lookup m pd)(n \<mapsto> q)" using pe(3) ae g(2) n by simp
      have r: "alloc_in_table ?t i m = Some (q, ?m')"
        using w False al Cons g(7) gt(2) i by (simp add: alloc_in_table_def fill_pt_entry_def full_set_word)
      have "lookup m pd n = None" using l False by simp
      then have "ledger ?m' pd = ledger m pd"
        using Cons pe(2) g(3) frames_add [of "lookup m pd" n q] by (simp add: ledger_def lk grab_fields)
      moreover have "?t \<noteq> q" using t(2) g(5) by auto
      then have "mem ?m' q = Some (replicate 1024 0)" by (simp add: put_def grab_def)
      moreover have "free_pages ?m' = qs" "released ?m' = released m" using Cons by (simp_all add: grab_fields)
      ultimately show ?thesis using r pe(1) lk g(7) l False Cons by (intro exI [of _ q] exI [of _ ?m']) simp
    qed
  qed
qed

text \<open>The outcome of an allocation for page number n.\<close>

definition alloc_result :: "vm \<Rightarrow> u32 \<Rightarrow> nat \<Rightarrow> u32 \<Rightarrow> vm \<Rightarrow> bool" where
  "alloc_result m pd n p m' \<longleftrightarrow>
    (if lookup m pd n \<noteq> None then p = 0 \<and> m' = m
     else if p = 0 then lookup m' pd = lookup m pd \<and> free_pages m' = []
     else p \<in> set (free_pages m) \<and> lookup m' pd = (lookup m pd)(n \<mapsto> p) \<and> mem m' p = Some (replicate 1024 0))"

lemma allocate_page_ok:
  assumes s: "space m pd" and a: "a < PAGE_OFFSET"
  shows "\<exists>p m'. allocate_user_page pd a m = Some (p, m') \<and> space m' pd \<and> ledger m' pd = ledger m pd \<and>
    released m' = released m \<and> alloc_result m pd (pagenum a) p m'"
proof -
  let ?e = "va2pd a" and ?i = "va2pt a"
  note d = spaceD [OF s]
  have e: "?e < 768" using a user_page by simp
  have n: "pagenum a = ?e * 1024 + ?i" by (simp add: pagenum_split)
  have w: "word_at m pd ?e = Some (ent m pd ?e)" using full_word_at [OF d(3)] e by simp
  have na: "\<not> PAGE_OFFSET \<le> a" using a by simp
  show ?thesis
  proof (cases "present (ent m pd ?e)")
    case True
    have "allocate_user_page pd a m = alloc_in_table (tab m pd ?e) ?i m"
      using na w True by (simp add: allocate_user_page_def get_pd_addr_def tab_def addr_def)
    moreover obtain p m' where r: "alloc_in_table (tab m pd ?e) ?i m = Some (p, m')" "space m' pd" "ledger m' pd = ledger m pd"
       "released m' = released m"
       "if lookup m pd (pagenum a) \<noteq> None then p = 0 \<and> m' = m
        else case free_pages m of [] \<Rightarrow> p = 0 \<and> m' = m
          | q # qs \<Rightarrow> p = q \<and> q \<noteq> 0 \<and> lookup m' pd = (lookup m pd)(pagenum a \<mapsto> q) \<and> free_pages m' = qs \<and> mem m' q = Some (replicate 1024 0)"
      using alloc_in_table_ok [OF s e True va2pt_less n] by blast
    moreover have "alloc_result m pd (pagenum a) p m'"
      using r(5) by (cases "free_pages m") (auto simp: alloc_result_def split: if_splits)
    ultimately show ?thesis by simp
  next
    case False
    note al = alloc_page_cases [OF d(2)]
    have none: "lookup m pd (pagenum a) = None" using False e n by (simp add: lookup_def Let_def)
    show ?thesis
    proof (cases "free_pages m")
      case Nil
      then show ?thesis using na w False al s none by (simp add: allocate_user_page_def alloc_result_def)
    next
      case (Cons q qs)
      let ?m1 = "put pd ?e (entry_of q user_flags) (grab q m)"
      note g = grab_ok [OF s Cons] and t = put_table [OF s e False Cons present_user_flags]
      have fp: "full (grab q m) pd" using d(3) by (simp add: full_grab)
      have "allocate_user_page pd a m = alloc_in_table q ?i ?m1"
        using na w False al Cons g(7) fp e by (simp add: allocate_user_page_def fill_pd_entry_def full_set_word)
      moreover have "ledger ?m1 pd = ledger m pd"
        using Cons t g(5) by (simp add: ledger_def)
      moreover obtain p m' where r: "alloc_in_table q ?i ?m1 = Some (p, m')" "space m' pd" "ledger m' pd = ledger ?m1 pd"
         "released m' = released ?m1"
         "if lookup ?m1 pd (pagenum a) \<noteq> None then p = 0 \<and> m' = ?m1
          else case free_pages ?m1 of [] \<Rightarrow> p = 0 \<and> m' = ?m1
            | q # qs \<Rightarrow> p = q \<and> q \<noteq> 0 \<and> lookup m' pd = (lookup ?m1 pd)(pagenum a \<mapsto> q) \<and> free_pages m' = qs \<and> mem m' q = Some (replicate 1024 0)"
        using alloc_in_table_ok [OF t(1) e t(4) va2pt_less n] unfolding t(3) by blast
      moreover have "alloc_result m pd (pagenum a) p m'"
        using r(5) none t(2,7) Cons by (cases qs) (auto simp: alloc_result_def)
      ultimately show ?thesis using t(8) by simp
    qed
  qed
qed

section \<open>Release\<close>

text \<open>A page that no table is on is given back to Linux.\<close>

lemma release_ok:
  assumes s: "space m pd" and p: "p \<noteq> pd" "p \<notin> tables m pd"
  shows "space (mm_release_page p m) pd" "lookup (mm_release_page p m) pd = lookup m pd"
    "tables (mm_release_page p m) pd = tables m pd" "ent (mm_release_page p m) pd e = ent m pd e"
    "ledger (mm_release_page p m) pd = add_mset p (ledger m pd)" "free_pages (mm_release_page p m) = free_pages m"
    "released (mm_release_page p m) = p # released m"
proof -
  let ?m = "mm_release_page p m"
  note d = spaceD [OF s]
  have f: "full ?m q" if "q \<in> insert pd (tables m pd)" for q
    using that d(3,5) p by (auto simp: full_def mm_release_page_def free_page_def)
  have en: "ent ?m q i = ent m q i" if "q \<noteq> p" for q i using that by (simp add: ent_def mm_release_page_def free_page_def)
  have e': "ent ?m q i = ent m q i" if "q \<in> insert pd (tables m pd)" for q i
  proof -
    have "q \<noteq> p" using that p by auto
    then show ?thesis by (rule en)
  qed
  note ps = paging_same [OF d(1), of ?m, OF e' f]
  show l: "lookup ?m pd = lookup m pd" "tables ?m pd = tables m pd" by (rule ps(2,3); assumption)+
  show fr: "free_pages ?m = free_pages m" "released ?m = p # released m" by (simp_all add: mm_release_page_def free_page_def)
  show "ent ?m pd e = ent m pd e" using en p by simp
  have "paging ?m pd" by (rule ps(1); assumption)
  moreover have "source_ok ?m" using d(2) by (auto simp: source_ok_def mm_release_page_def free_page_def)
  ultimately show "space ?m pd" using l fr d(6) unfolding space_def by auto
  show "ledger ?m pd = add_mset p (ledger m pd)" unfolding ledger_def l fr by simp
qed

lemma free_in_table_ok:
  assumes s: "space m pd" and e: "e < 768" "present (ent m pd e)" and i: "i < 1024" and n: "n = e * 1024 + i"
  shows "\<exists>m'. free_in_table (tab m pd e) i m = Some m' \<and> space m' pd \<and> ledger m' pd = ledger m pd \<and>
    free_pages m' = free_pages m \<and> lookup m' pd = (lookup m pd)(n := None) \<and> tables m' pd = tables m pd \<and>
    (\<forall>f<1024. ent m' pd f = ent m pd f) \<and> (\<forall>p. lookup m pd n = Some p \<longrightarrow> p \<in> set (released m'))"
proof -
  let ?t = "tab m pd e"
  note d = spaceD [OF s]
  have t: "full m ?t" "?t \<noteq> pd" using d(4) e by auto
  have w: "word_at m ?t i = Some (ent m ?t i)" by (rule full_word_at [OF t(1) i])
  have l: "lookup m pd n = (if present (ent m ?t i) then Some (addr (ent m ?t i)) else None)"
    unfolding n by (rule lookup_num [OF e i])
  show ?thesis
  proof (cases "present (ent m ?t i)")
    case False
    then have "(lookup m pd)(n := None) = lookup m pd" using l by auto
    then show ?thesis using w False s l by (simp add: free_in_table_def)
  next
    case True
    let ?p = "addr (ent m ?t i)" and ?m1 = "put ?t i 0 m"
    have lp: "lookup m pd n = Some ?p" using l True by simp
    note p = put_entry [OF s e refl i, of 0]
    have lk: "lookup ?m1 pd = (lookup m pd)(n := None)" using p(3) n by simp
    have y: "word_at ?m1 ?t i = Some 0" using full_word_at [of ?m1 ?t i] t(1) i ent_put [OF t(1) i i, of 0 ?t] by simp
    have nm: "0 AND PAGE_UNUSED1 \<noteq> PAGE_UNUSED1" by (simp add: PAGE_UNUSED1_def)
    have np: "?p \<noteq> pd" "?p \<notin> tables ?m1 pd" using d(6) [OF lp] p(2) by auto
    note r = release_ok [OF p(1) np]
    have f: "free_in_table ?t i m = Some (mm_release_page ?p ?m1)"
      using w True full_set_word [OF t(1) i] y nm by (simp add: free_in_table_def get_pt_addr_def addr_def)
    have "ledger m pd = add_mset ?p (ledger ?m1 pd)"
      using frames_remove [where M = "lookup m pd", OF _ lp] p(2) by (simp add: ledger_def lk)
    moreover have "\<forall>f<1024. ent ?m1 pd f = ent m pd f" using ent_put [OF t(1) i, of _ 0 pd] t(2) by simp
    ultimately show ?thesis using f r lk p(2) lp by (intro exI [of _ "mm_release_page ?p ?m1"]) simp
  qed
qed

lemma table_empty_ok:
  assumes "full m t" shows "table_empty t m = Some (\<forall>j<1024. ent m t j = 0)"
  using assms by (auto simp: full_def table_empty_def ent_def all_set_conv_all_nth)

text \<open>A table that is empty is taken out and given back.\<close>

lemma drop_table:
  assumes s: "space m pd" and e: "e < 768" "present (ent m pd e)" and z: "\<forall>j<1024. ent m (tab m pd e) j = 0"
  defines "m' \<equiv> mm_release_page (tab m pd e) (put pd e 0 m)"
  shows "space m' pd" "ledger m' pd = ledger m pd" "lookup m' pd = lookup m pd" "free_pages m' = free_pages m"
    "released m' = tab m pd e # released m" "\<And>f. f < 1024 \<Longrightarrow> ent m' pd f = (if f = e then 0 else ent m pd f)"
proof -
  let ?t = "tab m pd e" and ?m2 = "put pd e 0 m"
  note d = spaceD [OF s]
  have ft: "full m ?t" "?t \<noteq> pd" "?t \<in> tables m pd" using d(4) [OF e] by auto
  have f2: "full ?m2 q" if "q \<in> insert pd (tables m pd)" "q \<noteq> ?t" for q using that d(3,5) by auto
  have e2: "ent ?m2 q j = (if q = pd \<and> j = e then 0 else ent m q j)" if "j < 1024" for q j
    using ent_put [OF d(3), of e j 0 q] e that by simp
  have z1: "ent m ?t j = 0" if "j < 1024" for j using z that by blast
  note tr = table_removed [OF d(1) e refl, of ?m2, OF z1 e2 f2]
  have l2: "lookup ?m2 pd = lookup m pd" "tables ?m2 pd = tables m pd - {?t}" "paging ?m2 pd"
    by (rule tr; assumption)+
  have s2: "space ?m2 pd"
    using l2 d(2,3,6) by (auto simp: space_def source_ok_def put_def full_def)
  have nt: "?t \<notin> tables ?m2 pd" using l2 by simp
  have lk: "p \<noteq> ?t" if "lookup ?m2 pd n = Some p" for n p using d(6) [of n p] that l2(1) ft(3) by auto
  note r = release_ok [OF s2 ft(2) nt]
  have "ledger m pd = add_mset ?t (ledger ?m2 pd)"
    using ft(3) by (simp add: ledger_def l2(1,2) mset_set.remove)
  then show "space m' pd" "ledger m' pd = ledger m pd" "lookup m' pd = lookup m pd" "free_pages m' = free_pages m"
    unfolding m'_def using r l2(1) by simp_all
  show "released m' = ?t # released m" by (simp add: m'_def mm_release_page_def free_page_def)
  show "ent m' pd f = (if f = e then 0 else ent m pd f)" if "f < 1024" for f
    using e2 [OF that, of pd] ft(2) by (simp add: m'_def mm_release_page_def free_page_def ent_def)
qed

lemma free_page_ok:
  assumes s: "space m pd" and a: "a < PAGE_OFFSET"
  shows "\<exists>m'. free_user_page pd a m = Some (0, m') \<and> space m' pd \<and> ledger m' pd = ledger m pd \<and>
    free_pages m' = free_pages m \<and> lookup m' pd = (lookup m pd)(pagenum a := None) \<and>
    (\<forall>f<768. present (ent m' pd f) \<longrightarrow> present (ent m pd f)) \<and>
    (\<forall>p. lookup m pd (pagenum a) = Some p \<longrightarrow> p \<in> set (released m')) \<and>
    ((\<forall>i<1024. lookup m' pd (va2pd a * 1024 + i) = None) \<longrightarrow> \<not> present (ent m' pd (va2pd a)))"
proof -
  let ?e = "va2pd a" and ?i = "va2pt a" and ?n = "pagenum a"
  note d = spaceD [OF s]
  have e: "?e < 768" using a user_page by simp
  have n: "?n = ?e * 1024 + ?i" by (simp add: pagenum_split)
  have w: "word_at m pd ?e = Some (ent m pd ?e)" using full_word_at [OF d(3)] e by simp
  have na: "\<not> PAGE_OFFSET \<le> a" using a by simp
  show ?thesis
  proof (cases "present (ent m pd ?e)")
    case False
    have "lookup m pd ?n = None" using False e n by (simp add: lookup_def Let_def)
    moreover from this have "(lookup m pd)(?n := None) = lookup m pd" by auto
    ultimately show ?thesis using na w False s by (simp add: free_user_page_def)
  next
    case True
    let ?t = "tab m pd ?e"
    obtain m1 where m1: "free_in_table ?t ?i m = Some m1" "space m1 pd" "ledger m1 pd = ledger m pd"
       "free_pages m1 = free_pages m" "lookup m1 pd = (lookup m pd)(?n := None)" "tables m1 pd = tables m pd"
       "\<forall>f<1024. ent m1 pd f = ent m pd f" "\<forall>p. lookup m pd ?n = Some p \<longrightarrow> p \<in> set (released m1)"
      using free_in_table_ok [OF s e True va2pt_less n] by blast
    have t1: "tab m1 pd ?e = ?t" "present (ent m1 pd ?e)" using m1(7) True e by (simp_all add: tab_def)
    note d1 = spaceD [OF m1(2)]
    have ft: "full m1 ?t" "?t \<noteq> pd" "?t \<in> tables m1 pd" using d1(4) [OF e] t1 by auto
    have fr: "free_user_page pd a m = (if \<forall>j<1024. ent m1 ?t j = 0 then Some (0, mm_release_page ?t (put pd ?e 0 m1)) else Some (0, m1))"
      using na w True m1(1) table_empty_ok [OF ft(1)] full_set_word [OF d1(3), of ?e 0] e
      by (auto simp: free_user_page_def get_pd_addr_def addr_def [symmetric] tab_def [symmetric])
    have empty: "\<forall>i<1024. lookup m1 pd (?e * 1024 + i) = None \<Longrightarrow> \<forall>j<1024. ent m1 ?t j = 0"
    proof (intro allI impI)
      fix j assume z: "\<forall>i<1024. lookup m1 pd (?e * 1024 + i) = None" and j: "j < (1024 :: nat)"
      then have "\<not> present (ent m1 ?t j)" using lookup_num [OF e t1(2) j] t1(1) by (auto split: if_splits)
      moreover have "clean m1 ?t 1024" using d1(1) e t1 by (auto simp: paging_def)
      ultimately show "ent m1 ?t j = 0" using j by (auto simp: clean_def)
    qed
    show ?thesis
    proof (cases "\<forall>j<1024. ent m1 ?t j = 0")
      case False
      have "\<not> (\<forall>i<1024. lookup m1 pd (?e * 1024 + i) = None)" using empty False by blast
      moreover have "free_user_page pd a m = Some (0, m1)" by (simp only: fr False if_False)
      moreover have "\<forall>f<768. present (ent m1 pd f) \<longrightarrow> present (ent m pd f)" using m1(7) by simp
      ultimately show ?thesis using m1(2-5,8) by blast
    next
      case all0: True
      note dt = drop_table [OF m1(2) _ t1(2), unfolded t1(1), OF e all0]
      have "\<forall>f<768. present (ent (mm_release_page ?t (put pd ?e 0 m1)) pd f) \<longrightarrow> present (ent m pd f)"
        "\<not> present (ent (mm_release_page ?t (put pd ?e 0 m1)) pd ?e)" using dt(6) m1(7) e by auto
      then show ?thesis using fr all0 dt(1-5) m1 by (intro exI [of _ "mm_release_page ?t (put pd ?e 0 m1)"]) simp
    qed
  qed
qed

end
