(* ===== verification/XPagesSpace.thy ===== *)
theory XPagesSpace
  imports XPagesOps
begin

unbundle bit_operations_syntax

text \<open>
  Whole address spaces: their creation, ranges of pages, pages of others, and
  their end, in which every page goes back to Linux once.
\<close>

section \<open>Page addresses\<close>

definition page_va :: "nat \<Rightarrow> u32" where
  "page_va k = of_nat (k * 4096)"

lemma page_va_unat: "k < 2 ^ 20 \<Longrightarrow> unat (page_va k) = k * 4096"
  unfolding page_va_def unat_of_nat by simp

lemma page_va_less: "k < 2 ^ 20 \<Longrightarrow> l < 2 ^ 20 \<Longrightarrow> page_va k < page_va l \<longleftrightarrow> k < l"
  by (simp add: word_less_nat_alt page_va_unat)

lemma page_va_Suc: "page_va k + PAGE_SIZE = page_va (Suc k)"
  by (simp add: page_va_def PAGE_SIZE_def)

lemma page_va_num: "k < 2 ^ 20 \<Longrightarrow> pagenum (page_va k) = k"
  by (simp add: pagenum_def page_va_unat)

lemma page_va_end: "PAGE_OFFSET = page_va (768 * 1024)"
  by (simp add: page_va_def PAGE_OFFSET_def)

lemma page_va_user: "k < 2 ^ 20 \<Longrightarrow> page_va k < PAGE_OFFSET \<longleftrightarrow> k < 768 * 1024"
  unfolding page_va_end by (rule page_va_less) simp_all

section \<open>The end of an address space\<close>

lemma last_of_table: "\<not> e < k div 1024 \<Longrightarrow> e < Suc k div 1024 \<Longrightarrow> e = k div 1024 \<and> k mod 1024 = (1023 :: nat)"
  by (auto simp: div_Suc mod_Suc split: if_splits)

lemma destroy_loop_ok:
  assumes "space m pd" "k \<le> 768 * 1024" "\<forall>n<k. lookup m pd n = None" "\<forall>e<k div 1024. \<not> present (ent m pd e)"
  shows "\<exists>m'. destroy_loop pd (page_va k) m = Some m' \<and> space m' pd \<and> ledger m' pd = ledger m pd \<and>
    free_pages m' = free_pages m \<and> lookup m' pd = Map.empty \<and> tables m' pd = {}"
  using assms
proof (induction "768 * 1024 - k" arbitrary: k m)
  case 0
  then have k: "k = 768 * 1024" by simp
  have "lookup m pd = Map.empty"
  proof
    fix n show "lookup m pd n = None" using 0(4) k lookup_bound [of m pd n] by (cases "lookup m pd n") auto
  qed
  moreover have "tables m pd = {}" using 0(5) k by (auto simp: tables_def)
  moreover have "destroy_loop pd (page_va k) m = Some m"
    using page_va_user [of k] k by (subst destroy_loop.simps) simp
  ultimately show ?case using 0(2) by blast
next
  case (Suc j)
  then have k: "k < 768 * 1024" by simp
  have ks: "k < 2 ^ 20" "page_va k < PAGE_OFFSET" using k page_va_user [of k] by auto
  obtain m1 where f: "free_user_page pd (page_va k) m = Some (0, m1)" "space m1 pd" "ledger m1 pd = ledger m pd"
     "free_pages m1 = free_pages m" "lookup m1 pd = (lookup m pd)(k := None)"
     "\<forall>f<768. present (ent m1 pd f) \<longrightarrow> present (ent m pd f)"
     "(\<forall>i<1024. lookup m1 pd (k div 1024 * 1024 + i) = None) \<longrightarrow> \<not> present (ent m1 pd (k div 1024))"
    using free_page_ok [OF Suc(3) ks(2)] unfolding pagenum_split page_va_num [OF ks(1)] by blast
  have n: "\<forall>n<Suc k. lookup m1 pd n = None" using Suc(5) f(5) by (simp add: less_Suc_eq)
  have "\<not> present (ent m1 pd e)" if e: "e < Suc k div 1024" for e
  proof (cases "e < k div 1024")
    case True
    moreover have "e < 768" using True k by linarith
    ultimately show ?thesis using Suc(6) f(6) by blast
  next
    case False
    then have e': "e = k div 1024" "k mod 1024 = 1023" using last_of_table e by blast+
    have "lookup m1 pd (k div 1024 * 1024 + i) = None" if "i < 1024" for i
    proof -
      have "k div 1024 * 1024 + k mod 1024 = k" by simp
      then have "k div 1024 * 1024 + i < Suc k" using that e'(2) by linarith
      then show ?thesis using n by blast
    qed
    then show ?thesis using f(7) e'(1) by blast
  qed
  moreover have "j = 768 * 1024 - Suc k" "Suc k \<le> 768 * 1024" using Suc(2) k by simp_all
  ultimately obtain m' where "destroy_loop pd (page_va (Suc k)) m1 = Some m'" "space m' pd" "ledger m' pd = ledger m1 pd"
     "free_pages m' = free_pages m1" "lookup m' pd = Map.empty" "tables m' pd = {}"
    using Suc(1) [of "Suc k" m1] f(2) n by blast
  moreover have "destroy_loop pd (page_va k) m = destroy_loop pd (page_va (Suc k)) m1"
    using ks(2) f(1) by (simp add: destroy_loop.simps [of pd "page_va k"] page_va_Suc)
  ultimately show ?case using f(3,4) by simp
qed

lemma page_va_0: "page_va 0 = 0"
  by (simp add: page_va_def)

section \<open>Ranges\<close>

lemma alloc_range_loop_ok:
  assumes "space m pd" "k + n < 768 * 1024"
  shows "\<exists>r m'. alloc_range_loop pd (page_va k) (page_va (k + n)) m = Some (r, m') \<and> space m' pd \<and>
    ledger m' pd = ledger m pd \<and> released m' = released m \<and>
    (if r = 0 then (\<forall>j. k \<le> j \<and> j < k + n \<longrightarrow> lookup m pd j = None \<and> lookup m' pd j \<noteq> None) \<and>
        (\<forall>j. \<not> (k \<le> j \<and> j < k + n) \<longrightarrow> lookup m' pd j = lookup m pd j)
     else r = -1 \<and> (free_pages m' = [] \<or> (\<exists>j. k \<le> j \<and> j < k + n \<and> lookup m pd j \<noteq> None)))"
  using assms
proof (induction n arbitrary: k m)
  case 0
  then show ?case by (auto simp: alloc_range_loop.simps [of pd "page_va k"])
next
  case (Suc n)
  have ks: "k < 2 ^ 20" "page_va k < PAGE_OFFSET" "page_va k < page_va (k + Suc n)"
    using Suc(3) page_va_user [of k] page_va_less [of k "k + Suc n"] by auto
  obtain p m1 where a: "allocate_user_page pd (page_va k) m = Some (p, m1)" "space m1 pd" "ledger m1 pd = ledger m pd"
     "released m1 = released m" "alloc_result m pd k p m1"
    using allocate_page_ok [OF Suc(2) ks(2)] page_va_num [OF ks(1)] by auto
  have l: "alloc_range_loop pd (page_va k) (page_va (k + Suc n)) m =
    (if p = 0 then Some (-1, m1) else alloc_range_loop pd (page_va (Suc k)) (page_va (k + Suc n)) m1)"
    using ks(3) a(1) by (simp add: alloc_range_loop.simps [of pd "page_va k"] page_va_Suc)
  show ?case
  proof (cases "p = 0")
    case True
    then have "free_pages m1 = [] \<or> lookup m pd k \<noteq> None" using a(5) by (auto simp: alloc_result_def split: if_splits)
    moreover have "k \<le> k \<and> k < k + Suc n" by simp
    ultimately have "free_pages m1 = [] \<or> (\<exists>j. k \<le> j \<and> j < k + Suc n \<and> lookup m pd j \<noteq> None)" by blast
    then show ?thesis using l a True by simp
  next
    case False
    then have u: "lookup m pd k = None" "lookup m1 pd = (lookup m pd)(k \<mapsto> p)" using a(5) by (auto simp: alloc_result_def split: if_splits)
    obtain r m' where r: "alloc_range_loop pd (page_va (Suc k)) (page_va (Suc k + n)) m1 = Some (r, m')" "space m' pd"
       "ledger m' pd = ledger m1 pd" "released m' = released m1"
       "if r = 0 then (\<forall>j. Suc k \<le> j \<and> j < Suc k + n \<longrightarrow> lookup m1 pd j = None \<and> lookup m' pd j \<noteq> None) \<and>
          (\<forall>j. \<not> (Suc k \<le> j \<and> j < Suc k + n) \<longrightarrow> lookup m' pd j = lookup m1 pd j)
        else r = -1 \<and> (free_pages m' = [] \<or> (\<exists>j. Suc k \<le> j \<and> j < Suc k + n \<and> lookup m1 pd j \<noteq> None))"
      using Suc(1) [OF a(2), of "Suc k"] Suc(3) by auto
    have "if r = 0 then (\<forall>j. k \<le> j \<and> j < k + Suc n \<longrightarrow> lookup m pd j = None \<and> lookup m' pd j \<noteq> None) \<and>
          (\<forall>j. \<not> (k \<le> j \<and> j < k + Suc n) \<longrightarrow> lookup m' pd j = lookup m pd j)
        else r = -1 \<and> (free_pages m' = [] \<or> (\<exists>j. k \<le> j \<and> j < k + Suc n \<and> lookup m pd j \<noteq> None))"
    proof (cases "r = 0")
      case True
      then have y: "\<forall>j. Suc k \<le> j \<and> j < Suc k + n \<longrightarrow> lookup m1 pd j = None \<and> lookup m' pd j \<noteq> None"
        "\<forall>j. \<not> (Suc k \<le> j \<and> j < Suc k + n) \<longrightarrow> lookup m' pd j = lookup m1 pd j" using r(5) by auto
      have "lookup m pd j = None \<and> lookup m' pd j \<noteq> None" if "k \<le> j" "j < k + Suc n" for j
        using y(1) [rule_format, of j] y(2) [rule_format, of j] u that by (cases "j = k") auto
      moreover have "lookup m' pd j = lookup m pd j" if "\<not> (k \<le> j \<and> j < k + Suc n)" for j
        using y(2) [rule_format, of j] u that by (cases "j = k") auto
      ultimately show ?thesis using True by simp
    next
      case False
      then show ?thesis using r(5) u by (auto split: if_splits)
    qed
    then show ?thesis using l False r a(3,4) by simp
  qed
qed

lemma page_va_shift: "page_va k = push_bit 12 (of_nat k)"
  by (simp add: page_va_def push_bit_eq_mult)

lemma page_va_aligned: "page_va k AND PAGE_MASK = page_va k" "page_va k AND NOT PAGE_MASK = 0"
  unfolding page_va_shift PAGE_MASK_mask
  by (auto intro!: bit_word_eqI simp: bit_push_bit_iff bit_and_iff bit_not_iff bit_mask_iff)

lemma page_va_add: "page_va k + page_va n = page_va (k + n)"
  by (simp add: page_va_def algebra_simps)

lemma page_end_va: "page_end (page_va k) = page_va k"
  by (simp add: page_end_def page_va_aligned)

lemma alloc_range_eq: "alloc_user_range pd (page_va k) (page_va n) m = alloc_range_loop pd (page_va k) (page_va (k + n)) m"
  by (simp add: alloc_user_range_def page_va_aligned page_va_add page_end_va)

lemma page_mapped_any:
  assumes s: "space m pd" and a: "a < PAGE_OFFSET"
  shows "page_mapped pd a m = Some (lookup m pd (pagenum a) \<noteq> None)"
proof -
  let ?e = "pagenum a div 1024" and ?i = "pagenum a mod 1024"
  note d = spaceD [OF s] and v = pagenum_split [of a]
  have e: "?e < 768" using a user_page v by simp
  have w: "word_at m pd ?e = Some (ent m pd ?e)" using full_word_at [OF d(3)] e by simp
  show ?thesis
  proof (cases "present (ent m pd ?e)")
    case True
    then have "full m (tab m pd ?e)" using d(4) [OF e] by simp
    from full_word_at [OF this, of ?i] show ?thesis using True w e
      by (simp add: page_mapped_def v get_pd_addr_def tab_def addr_def lookup_def Let_def)
  next
    case False
    then show ?thesis using w by (simp add: page_mapped_def v lookup_def Let_def)
  qed
qed

lemma page_mapped_ok:
  assumes "space m pd" "k < 768 * 1024"
  shows "page_mapped pd (page_va k) m = Some (lookup m pd k \<noteq> None)"
  using page_mapped_any [OF assms(1), of "page_va k"] assms(2) page_va_num [of k] page_va_user [of k] by simp

lemma find_range_free:
  assumes "space m pd" "k + n < 768 * 1024" "\<forall>j. k \<le> j \<and> j < k + n \<longrightarrow> lookup m pd j = None"
  shows "find_range pd vs (page_va k) (page_va (k + n)) nv m = Some (page_va (k + n), nv)"
  using assms(2,3)
proof (induction n arbitrary: k)
  case 0
  then show ?case by (simp add: find_range.simps [of _ _ "page_va k"])
next
  case (Suc n)
  have k: "page_va k < page_va (k + Suc n)" "page_va k < PAGE_OFFSET"
    using Suc(2) page_va_less [of k "k + Suc n"] page_va_user [of k] by auto
  have "lookup m pd k = None" using Suc(3) by simp
  then have "page_mapped pd (page_va k) m = Some False" using page_mapped_ok [OF assms(1), of k] Suc(2) by simp
  then have "find_range pd vs (page_va k) (page_va (k + Suc n)) nv m = find_range pd vs (page_va (Suc k)) (page_va (Suc k + n)) nv m"
    using k by (simp add: find_range.simps [of _ _ "page_va k"] page_va_Suc)
  also have "\<dots> = Some (page_va (Suc k + n), nv)" using Suc(1) [of "Suc k"] Suc(2,3) by simp
  finally show ?case by simp
qed

section \<open>Creation\<close>

lemma create_ok:
  assumes s: "source_ok m" and c: "full m c_pd"
  shows "create_page_directory c_pd m = (case free_pages m of [] \<Rightarrow> Some (0, m)
     | p # ps \<Rightarrow> Some (p, (grab p m)\<lparr>mem := (mem (grab p m))(p \<mapsto> replicate 768 0 @ drop 768 (the (mem m c_pd)))\<rparr>))"
proof (cases "free_pages m")
  case Nil
  then show ?thesis using alloc_page_cases [OF s] by (simp add: create_page_directory_def)
next
  case (Cons p ps)
  note sp = source_page [OF s Cons]
  then have ne: "c_pd \<noteq> p" using c by auto
  obtain l where l: "mem m c_pd = Some l" "length l = 1024" using c by (auto simp: full_def)
  have v: "va2pd PAGE_OFFSET = 768" by (simp add: va2pd_div PAGE_OFFSET_def)
  have g: "mem (grab p m) p = Some (replicate 1024 0)" "mem (grab p m) c_pd = Some l" using l ne by (simp_all add: grab_def)
  have "memcpy (replicate 1024 0) 0 (replicate 1024 0) 0 1024 = Some (replicate 1024 (0 :: u32))" by (simp add: memcpy_def)
  moreover have "memcpy (replicate 1024 0) 768 l 768 256 = Some (replicate 768 0 @ drop 768 l)" using l by (simp add: memcpy_def)
  ultimately show ?thesis using Cons alloc_page_cases [OF s] sp g l
    by (simp add: create_page_directory_def v)
qed

lemma new_space:
  assumes s: "source_ok m" and c: "full m c_pd" and p: "free_pages m = p # ps"
  defines "m' \<equiv> (grab p m)\<lparr>mem := (mem (grab p m))(p \<mapsto> replicate 768 0 @ drop 768 (the (mem m c_pd)))\<rparr>"
  shows "space m' p" "lookup m' p = Map.empty" "tables m' p = {}" "free_pages m' = ps" "released m' = released m"
    "\<forall>e. 768 \<le> e \<and> e < 1024 \<longrightarrow> ent m' p e = ent m c_pd e"
proof -
  note sp = source_page [OF s p]
  obtain l where l: "mem m c_pd = Some l" "length l = 1024" using c by (auto simp: full_def)
  have e: "ent m' p e = (if e < 768 then 0 else l ! e)" if "e < 1024" for e
    using that l by (simp add: ent_def m'_def nth_append)
  then have np: "\<not> present (ent m' p e)" if "e < 768" for e using that by simp
  show "\<forall>e. 768 \<le> e \<and> e < 1024 \<longrightarrow> ent m' p e = ent m c_pd e" using e l by (simp add: ent_def)
  show lk: "lookup m' p = Map.empty" using np by (auto simp: lookup_def Let_def fun_eq_iff)
  show "tables m' p = {}" using np by (auto simp: tables_def)
  show fr: "free_pages m' = ps" "released m' = released m" using p by (simp_all add: m'_def grab_fields)
  have "full m' p" using l by (simp add: full_def m'_def)
  then have "paging m' p" using e np by (simp add: paging_def clean_def)
  moreover have "source_ok m'"
    using s p unfolding source_ok_def fr by (auto simp: m'_def grab_def)
  ultimately show "space m' p" using lk by (simp add: space_def)
qed

section \<open>Pages of others\<close>

text \<open>A page that somebody else owns is entered and becomes a page of the space.\<close>

lemma map_in_table_ok:
  assumes s: "space m pd" and e: "e < 768" "present (ent m pd e)" and i: "i < 1024" and n: "n = e * 1024 + i"
    and k: "page_aligned q" "q \<noteq> pd" "q \<notin> tables m pd" "q \<notin> set (free_pages m)" and f: "present f"
    and u: "lookup m pd n = None"
  shows "\<exists>m'. map_in_table (tab m pd e) i q f d m = Some (d, m') \<and> space m' pd \<and> lookup m' pd = (lookup m pd)(n \<mapsto> q) \<and>
    ledger m' pd = add_mset q (ledger m pd)"
proof -
  let ?t = "tab m pd e"
  note sd = spaceD [OF s]
  have t: "full m ?t" using sd(4) e by auto
  have np: "\<not> present (ent m ?t i)" using u lookup_num [OF e i] n by (auto split: if_splits)
  have ae: "addr (entry_of q f) = q" "present (entry_of q f)" using k(1) f by (simp_all add: addr_entry present_entry)
  let ?m = "put ?t i (entry_of q f) m"
  have w: "entry_of q f = 0 \<or> present (entry_of q f) \<and> addr (entry_of q f) \<noteq> pd \<and> addr (entry_of q f) \<notin> tables m pd \<and>
     addr (entry_of q f) \<notin> set (free_pages m)" using ae k by simp
  note p = put_entry [OF s e refl i w]
  have lk: "lookup ?m pd = (lookup m pd)(n \<mapsto> q)" using p(3) ae n by simp
  have "map_in_table ?t i q f d m = Some (d, ?m)"
    using full_word_at [OF t i] full_set_word [OF t i] np by (simp add: map_in_table_def fill_pt_entry_def)
  moreover have "ledger ?m pd = add_mset q (ledger m pd)"
    using p(2) frames_add [of "lookup m pd" n q] u by (simp add: ledger_def lk)
  ultimately show ?thesis using p(1) lk by blast
qed

lemma page_map_ok:
  assumes s: "space m pd" and a: "a < PAGE_OFFSET" and f: "present f"
    and k: "page_aligned q" "q \<noteq> pd" "q \<notin> tables m pd" "q \<notin> set (free_pages m)"
    and u: "lookup m pd (pagenum a) = None"
  shows "\<exists>r m'. kmem_page_map pd f a q m = Some (r, m') \<and> space m' pd \<and>
    (free_pages m = [] \<and> r = 0 \<and> m' = m \<or>
     r = a \<and> lookup m' pd = (lookup m pd)(pagenum a \<mapsto> q) \<and> ledger m' pd = add_mset q (ledger m pd))"
proof -
  let ?e = "va2pd a" and ?i = "va2pt a"
  note d = spaceD [OF s]
  have e: "?e < 768" using a user_page by simp
  have n: "pagenum a = ?e * 1024 + ?i" by (simp add: pagenum_split)
  have w: "word_at m pd ?e = Some (ent m pd ?e)" using full_word_at [OF d(3)] e by simp
  show ?thesis
  proof (cases "present (ent m pd ?e)")
    case True
    obtain m' where "map_in_table (tab m pd ?e) ?i q f a m = Some (a, m')" "space m' pd"
       "lookup m' pd = (lookup m pd)(pagenum a \<mapsto> q)" "ledger m' pd = add_mset q (ledger m pd)"
      using map_in_table_ok [OF s e True va2pt_less n k f u] by blast
    moreover have "kmem_page_map pd f a q m = map_in_table (tab m pd ?e) ?i q f a m"
      using w True by (simp add: kmem_page_map_def get_pd_addr_def tab_def addr_def)
    ultimately show ?thesis by simp
  next
    case False
    show ?thesis
    proof (cases "free_pages m")
      case Nil
      then show ?thesis using w False s by (simp add: kmem_page_map_def get_free_page_def)
    next
      case (Cons p ps)
      have fp: "present (f OR PAGE_PRESENT)" using f by (simp add: present_bit bit_or_iff)
      let ?m1 = "put pd ?e (entry_of p (f OR PAGE_PRESENT)) (grab p m)"
      note g = grab_ok [OF s Cons] and t = put_table [OF s e False Cons fp]
      have gf: "get_free_page m = (p, grab p m)" "(grab p m)\<lparr>mem := (mem (grab p m))(p \<mapsto> replicate 1024 0)\<rparr> = grab p m"
        using Cons by (simp_all add: get_free_page_def grab_def)
      have fu: "full (grab p m) pd" using d(3) by (simp add: full_grab)
      have r: "kmem_page_map pd f a q m = map_in_table p ?i q f a ?m1"
        using w False gf g(7) fu e by (simp add: kmem_page_map_def fill_pd_entry_def full_set_word)
      have q: "q \<notin> tables ?m1 pd" "q \<notin> set (free_pages ?m1)" "lookup ?m1 pd (pagenum a) = None"
        using k t(2,5,7) Cons u by auto
      have "ledger ?m1 pd = ledger m pd" using Cons t g(5) by (simp add: ledger_def)
      moreover obtain m' where "map_in_table p ?i q f a ?m1 = Some (a, m')" "space m' pd"
         "lookup m' pd = (lookup ?m1 pd)(pagenum a \<mapsto> q)" "ledger m' pd = add_mset q (ledger ?m1 pd)"
        using map_in_table_ok [OF t(1) e t(4) va2pt_less n k(1,2) q(1,2) f q(3), unfolded t(3)] by blast
      ultimately show ?thesis using r t(2) by simp
    qed
  qed
qed

section \<open>Destruction\<close>

text \<open>The end of an address space gives every page back to Linux once: the directory, its tables and the pages that are
  mapped.\<close>
lemma destroy_ok:
  assumes "space m pd" "pd \<noteq> 0"
  shows "\<exists>m'. destroy_page_directory pd m = Some (0, m') \<and> free_pages m' = free_pages m \<and>
    mset (released m') = mset (released m) + {#pd#} + mset_set (tables m pd) + {#the (lookup m pd n). n \<in># mset_set (dom (lookup m pd))#}"
proof -
  obtain m1 where d: "destroy_loop pd (page_va 0) m = Some m1" "ledger m1 pd = ledger m pd" "free_pages m1 = free_pages m"
    "lookup m1 pd = Map.empty" "tables m1 pd = {}" using destroy_loop_ok [OF assms(1), of 0] by auto
  have "mset (free_pages m) + mset (released m1) = ledger m pd" using d by (simp add: ledger_def [of m1])
  then have "mset (released m1) = mset (released m) + mset_set (tables m pd) + {#the (lookup m pd n). n \<in># mset_set (dom (lookup m pd))#}"
    by (simp add: ledger_def)
  moreover have "destroy_page_directory pd m = Some (0, mm_release_page pd m1)"
    using assms(2) d(1) by (simp add: destroy_page_directory_def page_va_0)
  ultimately show ?thesis using d(3) by (simp add: mm_release_page_def free_page_def)
qed

end
