(* ===== verification/XPagesLife.thy ===== *)
theory XPagesLife
  imports XPagesSpace
begin

text \<open>
  The life of an address space: it is created, any requests for user pages are made
  of it, at any addresses, and it is destroyed.  No operation faults and none keeps
  or gives back twice a page of Linux.
\<close>

section \<open>Requests\<close>

datatype page_req = Alloc_page u32 | Free_page u32 | Alloc_range u32 u32 | Free_range u32 u32 | Alloc_free_range u32 u32

fun page_request :: "u32 \<Rightarrow> page_req \<Rightarrow> vm \<Rightarrow> vm option" where
  "page_request pd (Alloc_page a) m = map_option snd (allocate_user_page pd a m)"
| "page_request pd (Free_page a) m = map_option snd (free_user_page pd a m)"
| "page_request pd (Alloc_range a n) m = map_option snd (alloc_user_range pd a n m)"
| "page_request pd (Free_range a n) m = map_option snd (free_user_range pd a n m)"
| "page_request pd (Alloc_free_range a n) m = map_option snd (alloc_free_user_range pd a n m)"

fun page_requests :: "u32 \<Rightarrow> page_req list \<Rightarrow> vm \<Rightarrow> vm option" where
  "page_requests pd [] m = Some m"
| "page_requests pd (r # rs) m = do { m1 \<leftarrow> page_request pd r m; page_requests pd rs m1 }"

definition address_space :: "u32 \<Rightarrow> page_req list \<Rightarrow> vm \<Rightarrow> vm option" where
  "address_space c_pd rs m = do {
     (pd, m1) \<leftarrow> create_page_directory c_pd m;
     if pd = 0 then Some m1
     else do { m2 \<leftarrow> page_requests pd rs m1; (_, m3) \<leftarrow> destroy_page_directory pd m2; Some m3 } }"

text \<open>What an operation on the space keeps.\<close>

definition books :: "u32 \<Rightarrow> vm \<Rightarrow> ('a \<times> vm) option \<Rightarrow> bool" where
  "books pd m x \<longleftrightarrow> (\<exists>r m'. x = Some (r, m') \<and> space m' pd \<and> ledger m' pd = ledger m pd)"

lemma books_Some [simp]: "books pd m (Some (r, m')) \<longleftrightarrow> space m' pd \<and> ledger m' pd = ledger m pd"
  by (simp add: books_def)

lemma booksE:
  assumes "books pd m x"
  obtains r m' where "x = Some (r, m')" "space m' pd" "ledger m' pd = ledger m pd"
  using assms by (auto simp: books_def)

lemma books_trans: "ledger m1 pd = ledger m pd \<Longrightarrow> books pd m1 x \<Longrightarrow> books pd m x"
  by (simp add: books_def)

lemma below: "unat (a :: u32) < 4294967296"
proof -
  have "unat a < 2 ^ LENGTH(32)" by (rule unsigned_less)
  then show ?thesis by simp
qed

lemma next_page: "a < PAGE_OFFSET \<Longrightarrow> unat (a + PAGE_SIZE) = unat a + 4096"
  by (subst unat_add_lem [THEN iffD1]) (simp_all add: PAGE_OFFSET_def PAGE_SIZE_def word_less_nat_alt)

lemma alloc_page_books: "space m pd \<Longrightarrow> books pd m (allocate_user_page pd a m)"
  using allocate_page_ok [of m pd a] by (cases "a < PAGE_OFFSET") (auto simp: books_def allocate_user_page_def)

lemma alloc_page_kernel: "\<not> a < PAGE_OFFSET \<Longrightarrow> allocate_user_page pd a m = Some (0, m)"
  by (simp add: allocate_user_page_def not_less)

lemma free_page_books: "space m pd \<Longrightarrow> books pd m (free_user_page pd a m)"
  using free_page_ok [of m pd a] by (cases "a < PAGE_OFFSET") (auto simp: books_def free_user_page_def)

lemma free_page_kernel: "\<not> a < PAGE_OFFSET \<Longrightarrow> free_user_page pd a m = Some (-1, m)"
  by (simp add: free_user_page_def not_less)

lemma alloc_loop_books: "space m pd \<Longrightarrow> books pd m (alloc_range_loop pd a e m)"
proof (induction "2 ^ 32 - unat a" arbitrary: a m rule: less_induct)
  case less
  obtain p m1 where r: "allocate_user_page pd a m = Some (p, m1)" "space m1 pd" "ledger m1 pd = ledger m pd"
    using alloc_page_books [OF less(2)] by (rule booksE)
  have "books pd m1 (alloc_range_loop pd (a + PAGE_SIZE) e m1)" if "a < PAGE_OFFSET"
    using less(1) [OF _ r(2), of "a + PAGE_SIZE"] next_page [OF that] below [of a] by simp
  then show ?case using less(2) r alloc_page_kernel [of a pd m]
    by (subst alloc_range_loop.simps) (cases "a < PAGE_OFFSET"; auto intro: books_trans [OF r(3)])
qed

lemma free_loop_books: "space m pd \<Longrightarrow> books pd m (free_range_loop pd a e m)"
proof (induction "2 ^ 32 - unat a" arbitrary: a m rule: less_induct)
  case less
  obtain p m1 where r: "free_user_page pd a m = Some (p, m1)" "space m1 pd" "ledger m1 pd = ledger m pd"
    using free_page_books [OF less(2)] by (rule booksE)
  have "books pd m1 (free_range_loop pd (a + PAGE_SIZE) e m1)" if "a < PAGE_OFFSET"
    using less(1) [OF _ r(2), of "a + PAGE_SIZE"] next_page [OF that] below [of a] by simp
  then show ?case using less(2) r free_page_kernel [of a pd m]
    by (subst free_range_loop.simps) (cases "a < PAGE_OFFSET"; auto intro: books_trans [OF r(3)])
qed

lemma find_range_total: "space m pd \<Longrightarrow> \<exists>b v'. find_range pd s a e v m = Some (b, v')"
proof (induction "2 ^ 32 - unat a" arbitrary: a e v rule: less_induct)
  case less
  show ?case
  proof (cases "a < e \<and> a < PAGE_OFFSET")
    case True
    then have a: "a < PAGE_OFFSET" by simp
    let ?a = "a + PAGE_SIZE"
    have u: "unat ?a = unat a + 4096" "unat (?a + PAGE_SIZE) = unat a + 8192"
      using next_page [OF a] a by (simp_all add: PAGE_OFFSET_def PAGE_SIZE_def word_less_nat_alt add.assoc unat_word_ariths)
    have "2 ^ 32 - unat ?a < 2 ^ 32 - unat a" "2 ^ 32 - unat (?a + PAGE_SIZE) < 2 ^ 32 - unat a"
      unfolding u using below [of a] by simp_all
    then show ?thesis using less True page_mapped_any [OF less(2) a]
      by (subst find_range.simps) (simp add: Let_def)
  next
    case False
    then show ?thesis by (subst find_range.simps) auto
  qed
qed

lemma alloc_free_books: "space m pd \<Longrightarrow> books pd m (alloc_free_user_range pd a n m)"
proof -
  assume s: "space m pd"
  obtain b v where f: "find_range pd n (a AND PAGE_MASK) (page_end (a + n)) (a AND PAGE_MASK) m = Some (b, v)"
    using find_range_total [OF s] by blast
  obtain r m1 where "alloc_user_range pd v n m = Some (r, m1)" "space m1 pd" "ledger m1 pd = ledger m pd"
    using alloc_loop_books [OF s] unfolding alloc_user_range_def by (rule booksE)
  then show ?thesis using s f by (auto simp: alloc_free_user_range_def)
qed

lemma books_snd: "books pd m x \<Longrightarrow> \<exists>m'. map_option snd x = Some m' \<and> space m' pd \<and> ledger m' pd = ledger m pd"
  by (auto simp: books_def)

lemma request_books:
  assumes "space m pd"
  shows "\<exists>m'. page_request pd r m = Some m' \<and> space m' pd \<and> ledger m' pd = ledger m pd"
  using assms by (cases r) (simp_all del: map_option_eq_Some add: alloc_user_range_def free_user_range_def books_snd alloc_page_books free_page_books
    alloc_loop_books free_loop_books alloc_free_books)

lemma requests_books:
  "space m pd \<Longrightarrow> \<exists>m'. page_requests pd rs m = Some m' \<and> space m' pd \<and> ledger m' pd = ledger m pd"
proof (induction rs arbitrary: m)
  case (Cons r rs)
  obtain m1 where "page_request pd r m = Some m1" "space m1 pd" "ledger m1 pd = ledger m pd"
    using request_books [OF Cons(2)] by blast
  then show ?case using Cons(1) [of m1] by auto
qed simp

section \<open>Properties\<close>

text \<open>C3: Whatever is asked of an address space between its creation and its end, and whether Linux runs out of pages or not, no
  operation faults or fails to end, and in the end each page that Linux gave was given back once.\<close>
theorem address_space_returns_all:
  assumes "source_ok m" "full m c_pd"
  shows "\<exists>m'. address_space c_pd rs m = Some m' \<and>
    mset (free_pages m') + mset (released m') = mset (free_pages m) + mset (released m)"
proof (cases "free_pages m")
  case Nil
  then show ?thesis using create_ok [OF assms] by (simp add: address_space_def)
next
  case (Cons p ps)
  obtain m1 where c: "create_page_directory c_pd m = Some (p, m1)" "space m1 p" "ledger m1 p = mset ps + mset (released m)"
    using create_ok [OF assms] new_space [OF assms Cons] Cons by (simp add: ledger_def)
  obtain m2 where r: "page_requests p rs m1 = Some m2" "space m2 p" "ledger m2 p = mset ps + mset (released m)"
    using requests_books [OF c(2), of rs] c(3) by auto
  have p: "p \<noteq> 0" using assms(1) Cons by (simp add: source_ok_def)
  obtain m3 where "destroy_page_directory p m2 = Some (0, m3)" "free_pages m3 = free_pages m2"
     "mset (released m3) = mset (released m2) + {#p#} + mset_set (tables m2 p) + {#the (lookup m2 p n). n \<in># mset_set (dom (lookup m2 p))#}"
    using destroy_ok [OF r(2) p] by blast
  then show ?thesis using c r p Cons by (simp add: address_space_def ledger_def ac_simps)
qed

text \<open>allocate_user_page maps a fresh page of zeros at the address and leaves every other address as it was; it returns
  0 when the address has a page already, which it leaves, or when Linux has no page.\<close>
theorem allocate_user_page_maps:
  assumes "space m pd" "a < PAGE_OFFSET"
  shows "\<exists>p m'. allocate_user_page pd a m = Some (p, m') \<and> space m' pd \<and> ledger m' pd = ledger m pd \<and>
    (if lookup m pd (pagenum a) \<noteq> None then p = 0 \<and> m' = m
     else if p = 0 then lookup m' pd = lookup m pd \<and> free_pages m' = []
     else p \<in> set (free_pages m) \<and> lookup m' pd = (lookup m pd)(pagenum a \<mapsto> p) \<and> mem m' p = Some (replicate 1024 0))"
  using allocate_page_ok [OF assms] unfolding alloc_result_def by blast

text \<open>free_user_page takes the page at the address out, gives it back to Linux, and its table when that was the last
  page of the table; every other address keeps its page.\<close>
theorem free_user_page_unmaps:
  assumes "space m pd" "a < PAGE_OFFSET"
  shows "\<exists>m'. free_user_page pd a m = Some (0, m') \<and> space m' pd \<and> lookup m' pd = (lookup m pd)(pagenum a := None) \<and>
    free_pages m' = free_pages m \<and> ledger m' pd = ledger m pd"
  using free_page_ok [OF assms] by blast


text \<open>The search of alloc_free_user_range steps over two pages when it meets one in use and does not look at the second,
  with which its new range begins: two neighbouring pages in use make it give up, though the range behind them is free.\<close>
theorem alloc_free_user_range_gives_up:
  assumes "space m pd" "pd \<noteq> 0" "0 < n" "k + 1 + n < 768 * 1024" "lookup m pd k \<noteq> None" "lookup m pd (k + 1) \<noteq> None"
    and "\<forall>j. k + 2 \<le> j \<and> j < k + 1 + n \<longrightarrow> lookup m pd j = None"
  shows "alloc_free_user_range pd (page_va k) (page_va n) m = Some (0, m)"
proof -
  have k: "page_va k < page_va (k + n)" "page_va k < PAGE_OFFSET" "page_va (k + 1) < PAGE_OFFSET" "page_va (k + 1) < page_va (k + 1 + n)"
    "page_va (k + 1 + n) < PAGE_OFFSET"
    using assms(3,4) page_va_less [of k "k + n"] page_va_less [of "k + 1" "k + 1 + n"] page_va_user [of k] page_va_user [of "k + 1"]
      page_va_user [of "k + 1 + n"] by auto
  have "page_mapped pd (page_va k) m = Some True" using page_mapped_ok [OF assms(1), of k] assms(4,5) by simp
  then have "find_range pd (page_va n) (page_va k) (page_va (k + n)) (page_va k) m =
     find_range pd (page_va n) (page_va (k + 2)) (page_va (k + 1 + n)) (page_va (k + 1)) m"
    using k by (simp add: find_range.simps [of _ _ "page_va k"] page_va_Suc page_va_add page_end_va page_va_aligned)
  also have "\<dots> = Some (page_va (k + 1 + n), page_va (k + 1))"
    using find_range_free [OF assms(1), of "k + 2" "n - 1"] assms(3,4,7) by (simp add: add.assoc)
  finally have f: "find_range pd (page_va n) (page_va k) (page_va (k + n)) (page_va k) m = Some (page_va (k + 1 + n), page_va (k + 1))" .
  have "allocate_user_page pd (page_va (k + 1)) m = Some (0, m)"
    using allocate_page_ok [OF assms(1) k(3)] page_va_num [of "k + 1"] assms(4,6) by (auto simp: alloc_result_def)
  then have "alloc_user_range pd (page_va (k + 1)) (page_va n) m = Some (-1, m)"
    unfolding alloc_range_eq using k(4) by (subst alloc_range_loop.simps) simp
  then show ?thesis using assms(2) f k(5) by (simp add: alloc_free_user_range_def page_va_aligned page_va_add page_end_va)
qed

text \<open>C32: A page that belongs to somebody else and is marked so, as those of the shared devices are, is given to Linux
  when the address is freed: the mark is looked for in the entry that has just been cleared.\<close>
theorem shared_page_released:
  assumes "space m pd" "a < PAGE_OFFSET" "free_pages m \<noteq> []" "lookup m pd (pagenum a) = None"
    and "page_aligned q" "q \<noteq> pd" "q \<notin> tables m pd" "q \<notin> set (free_pages m)"
  shows "\<exists>m1 m2. kmem_page_map pd (PAGE_UNUSED1 OR user_flags) a q m = Some (a, m1) \<and>
    free_user_page pd a m1 = Some (0, m2) \<and> q \<in> set (released m2)"
proof -
  have f: "present (PAGE_UNUSED1 OR user_flags)" by (simp add: present_def user_flags_def PAGE_PRESENT_def PAGE_RW_def PAGE_USER_def PAGE_UNUSED1_def)
  obtain m1 where m1: "kmem_page_map pd (PAGE_UNUSED1 OR user_flags) a q m = Some (a, m1)" "space m1 pd"
    "lookup m1 pd = (lookup m pd)(pagenum a \<mapsto> q)" using page_map_ok [OF assms(1,2) f assms(5-8,4)] assms(3) by auto
  obtain m2 where "free_user_page pd a m1 = Some (0, m2)" "\<forall>p. lookup m1 pd (pagenum a) = Some p \<longrightarrow> p \<in> set (released m2)"
    using free_page_ok [OF m1(2) assms(2)] by blast
  moreover have "lookup m1 pd (pagenum a) = Some q" by (simp add: m1(3))
  ultimately show ?thesis using m1(1) by blast
qed

section \<open>Examples\<close>

definition demo_vm :: vm where
  "demo_vm = \<lparr>mem = [0xC0000000 \<mapsto> replicate 1024 0], free_pages = [0xC0001000, 0xC0002000, 0xC0003000], released = []\<rparr>"

definition demo_space :: vm where
  "demo_space = (grab 0xC0001000 demo_vm)\<lparr>mem := (mem (grab 0xC0001000 demo_vm))(0xC0001000 \<mapsto>
     replicate 768 0 @ drop 768 (the (mem demo_vm 0xC0000000)))\<rparr>"

lemma demo_source: "source_ok demo_vm" "full demo_vm 0xC0000000" "free_pages demo_vm = [0xC0001000, 0xC0002000, 0xC0003000]"
  by (simp_all add: source_ok_def demo_vm_def full_def page_aligned_def)

lemma demo_space_ok: "space demo_space 0xC0001000" "lookup demo_space 0xC0001000 = Map.empty" "tables demo_space 0xC0001000 = {}"
    "free_pages demo_space = [0xC0002000, 0xC0003000]"
  using new_space [OF demo_source(1,2,3)] by (simp_all add: demo_space_def)

lemma address_space_returns_all_witness:
  "\<exists>m'. address_space 0xC0000000 [Alloc_range 0x8048000 0x3000, Free_page 0x8048000] demo_vm = Some m' \<and>
    mset (free_pages m') + mset (released m') = {#0xC0001000, 0xC0002000, 0xC0003000#}"
  using address_space_returns_all [OF demo_source(1,2)] by (simp add: demo_vm_def)

lemma allocate_user_page_maps_witness:
  "\<exists>p m'. allocate_user_page 0xC0001000 0x8048000 demo_space = Some (p, m') \<and> space m' 0xC0001000 \<and>
    (if p = 0 then free_pages m' = [] else p \<in> {0xC0002000, 0xC0003000} \<and> lookup m' 0xC0001000 = [0x8048 \<mapsto> p])"
  using allocate_user_page_maps [OF demo_space_ok(1), of "0x8048000"] demo_space_ok(2,4)
  by (auto simp: PAGE_OFFSET_def pagenum_def split: if_splits)


lemma shared_page_released_witness:
  "\<exists>m1 m2. kmem_page_map 0xC0001000 (PAGE_UNUSED1 OR user_flags) 0x40000000 0xC0009000 demo_space = Some (0x40000000, m1) \<and>
    free_user_page 0xC0001000 0x40000000 m1 = Some (0, m2) \<and> 0xC0009000 \<in> set (released m2)"
  using shared_page_released [OF demo_space_ok(1), of "0x40000000" "0xC0009000"] demo_space_ok(2-4)
  by (simp add: PAGE_OFFSET_def page_aligned_def)

end
