(* ===== verification/XShm.thy ===== *)
theory XShm
  imports XSyscalls XTlsfApi XPagesLife
begin

unbundle bit_operations_syntax

text \<open>
  XtratuM's shared memory device (devs/shm/shm.c).  The shared memories are
  blocks of a pool of the TLSF allocator; a domain that maps one gets the pages
  of the block entered in its directory.  A string is the list of bytes from its
  address on, and reading behind the list is a fault.  kv is
  kmem_kvaddr_to_kladdr, the walk through Linux's own tables.
\<close>

section \<open>State\<close>

definition SHM_TOTAL_SIZE :: u32 where "SHM_TOTAL_SIZE = 2048 * 1024"
definition SHM_MEM_SIZE :: u32 where "SHM_MEM_SIZE = 8 * 4096"
definition SHM_NAME_SIZE :: nat where "SHM_NAME_SIZE = 33"
definition XM_SHM_TRUNCATE :: nat where "XM_SHM_TRUNCATE = 0x02"
definition XM_SHM_MAP :: nat where "XM_SHM_MAP = 0x04"
definition XM_SHM_UNMAP :: nat where "XM_SHM_UNMAP = 0x08"
definition XM_SHM_VADDR :: nat where "XM_SHM_VADDR = 0x40"
definition XM_SHM_SIZE :: nat where "XM_SHM_SIZE = 0x80"

record xm_shm_t =
  shm_name :: "u8 list"
  owner :: "nat option"
  va_start :: u32
  shm_size :: u32
  users :: int

record xm_shms =
  xshm_list :: "xm_shm_t list"
  xshm_pool :: tlsf_t

definition shm_at :: "int \<Rightarrow> xm_shms \<Rightarrow> xm_shm_t option" where
  "shm_at i s = (if i < 0 then None else rd (xshm_list s) (nat i))"

definition upd_shm :: "int \<Rightarrow> (xm_shm_t \<Rightarrow> xm_shm_t) \<Rightarrow> xm_shms \<Rightarrow> xm_shms option" where
  "upd_shm i f s = do { x \<leftarrow> shm_at i s; l \<leftarrow> wr (xshm_list s) (nat i) (f x); Some (s\<lparr>xshm_list := l\<rparr>) }"

section \<open>Names\<close>

fun shm_name_end :: "u8 list \<Rightarrow> nat option" where
  "shm_name_end [] = None"
| "shm_name_end (c # cs) = (if c = 0 then Some 0 else map_option Suc (shm_name_end cs))"

definition xm_shm_name_check :: "u8 list \<Rightarrow> int option" where
  "xm_shm_name_check name = do { i \<leftarrow> shm_name_end name; Some (if i = 0 \<or> i \<ge> SHM_NAME_SIZE then - EINVAL else 0) }"

fun xm_strcmp :: "u8 list \<Rightarrow> u8 list \<Rightarrow> int option" where
  "xm_strcmp (a # as) (b # bs) = (if a = b then if a = 0 then Some 0 else xm_strcmp as bs else Some (-1))"
| "xm_strcmp _ _ = None"

fun find_shm :: "u8 list \<Rightarrow> xm_shm_t list \<Rightarrow> nat \<Rightarrow> nat option" where
  "find_shm name [] i = Some i"
| "find_shm name (x # xs) i = do { c \<leftarrow> xm_strcmp (shm_name x) name; if c = 0 then Some i else find_shm name xs (Suc i) }"

definition xm_get_shm_by_name :: "u8 list \<Rightarrow> xm_shms \<Rightarrow> int option" where
  "xm_get_shm_by_name name s = do {
     c \<leftarrow> xm_shm_name_check name;
     if c \<noteq> 0 then Some (- EINVAL) else map_option int (find_shm name (xshm_list s) 0) }"

function copy_name :: "u8 list \<Rightarrow> nat \<Rightarrow> u8 list \<Rightarrow> u8 list option" where
  "copy_name name i dst =
    (if i < SHM_NAME_SIZE - 1 then do {
       c \<leftarrow> rd name i;
       if c \<noteq> 0 then do { d \<leftarrow> wr dst i c; copy_name name (Suc i) d } else wr dst i 0 }
     else wr dst i 0)"
  by auto
termination by (relation "measure (\<lambda>(_, i, _). SHM_NAME_SIZE - i)") auto

declare copy_name.simps [simp del]

section \<open>Creation and removal\<close>

fun free_shm :: "xm_shm_t list \<Rightarrow> nat" where
  "free_shm [] = 0"
| "free_shm (x # xs) = (if owner x = None then 0 else Suc (free_shm xs))"

definition page_round :: "u32 \<Rightarrow> u32" where
  "page_round a = (a + 0xFFF) AND 0xFFFFF000"

text \<open>cur is xm_current_domain.\<close>

definition new_shm :: "nat \<Rightarrow> u8 list \<Rightarrow> nat \<Rightarrow> xm_shms \<Rightarrow> (int \<times> xm_shms) option" where
  "new_shm cur name i s = do {
     (p, pl) \<leftarrow> malloc_ex SHM_MEM_SIZE (xshm_pool s);
     let va = page_round (case p of None \<Rightarrow> 0 | Some a \<Rightarrow> of_nat a);
     s1 \<leftarrow> upd_shm (int i) (\<lambda>x. x\<lparr>owner := Some cur, va_start := va\<rparr>) (s\<lparr>xshm_pool := pl\<rparr>);
     if va = 0 then do { s2 \<leftarrow> upd_shm (int i) (\<lambda>x. x\<lparr>owner := None\<rparr>) s1; Some (- ENOMEM, s2) }
     else do {
       x \<leftarrow> shm_at (int i) s1;
       nm \<leftarrow> copy_name name 0 (shm_name x);
       s2 \<leftarrow> upd_shm (int i) (\<lambda>x. x\<lparr>shm_name := nm, shm_size := SHM_MEM_SIZE, users := users x + 1\<rparr>) s1;
       Some (int i, s2) } }"

definition xm_shm_create :: "nat \<Rightarrow> u8 list \<Rightarrow> xm_shms \<Rightarrow> (int \<times> xm_shms) option" where
  "xm_shm_create cur name s = do {
     c \<leftarrow> xm_shm_name_check name;
     if c \<noteq> 0 then Some (- EINVAL, s)
     else do {
       i \<leftarrow> xm_get_shm_by_name name s;
       if i = int XM_SHM_COUNT then
         (let j = free_shm (xshm_list s) in
          if j < XM_SHM_COUNT then new_shm cur name j s else Some (int XM_SHM_COUNT, s))
       else do { s1 \<leftarrow> upd_shm i (\<lambda>x. x\<lparr>users := users x + 1\<rparr>) s; Some (i, s1) } } }"

definition xm_shm_open :: "nat \<Rightarrow> u8 list \<Rightarrow> xm_shms \<Rightarrow> (int \<times> xm_shms) option" where
  "xm_shm_open cur name s = do {
     c \<leftarrow> xm_shm_name_check name;
     if c \<noteq> 0 then Some (- EINVAL, s)
     else do {
       (i, s1) \<leftarrow> xm_shm_create cur name s;
       if i = int XM_SHM_COUNT then Some (- ENOMEM, s1)
       else do { s2 \<leftarrow> upd_shm i (\<lambda>x. x\<lparr>users := users x + 1\<rparr>) s1; Some (i, s2) } } }"

definition xm_shm_release :: "int \<Rightarrow> xm_shms \<Rightarrow> (int \<times> xm_shms) option" where
  "xm_shm_release i s = do {
     x \<leftarrow> shm_at i s;
     nm \<leftarrow> wr (shm_name x) 0 0;
     s1 \<leftarrow> upd_shm i (\<lambda>x. x\<lparr>shm_name := nm\<rparr>) s;
     pl \<leftarrow> free_ex (if va_start x = 0 then None else Some (unat (va_start x))) (xshm_pool s1);
     s2 \<leftarrow> upd_shm i (\<lambda>x. x\<lparr>owner := None, users := users x - 1\<rparr>) (s1\<lparr>xshm_pool := pl\<rparr>);
     Some (0, s2) }"

definition xm_shm_unlink :: "nat \<Rightarrow> int \<Rightarrow> xm_shms \<Rightarrow> (int \<times> xm_shms) option" where
  "xm_shm_unlink cur i s =
    (if i \<ge> int XM_SHM_COUNT then Some (- ENODEV, s)
     else do {
       x \<leftarrow> shm_at i s;
       if owner x \<noteq> Some cur then do { s1 \<leftarrow> upd_shm i (\<lambda>x. x\<lparr>users := users x - 1\<rparr>) s; Some (0, s1) }
       else if users x \<noteq> 1 then Some (- EBUSY, s)
       else do { (r, s1) \<leftarrow> xm_shm_release i s; Some (0, s1) } })"

definition xm_shm_resize :: "int \<Rightarrow> u32 \<Rightarrow> xm_shms \<Rightarrow> (int \<times> xm_shms) option" where
  "xm_shm_resize i n s = do {
     x \<leftarrow> shm_at i s;
     if shm_size x < n then Some (- EINVAL, s)
     else do { s1 \<leftarrow> upd_shm i (\<lambda>x. x\<lparr>shm_size := n\<rparr>) s; Some (0, s1) } }"

section \<open>Mapping\<close>

partial_function (option) map_loop :: "(u32 \<Rightarrow> u32) \<Rightarrow> u32 \<Rightarrow> u32 \<Rightarrow> u32 \<Rightarrow> u32 \<Rightarrow> vm \<Rightarrow> (u32 \<times> u32 \<times> u32 \<times> vm) option" where
  "map_loop kv pd nvaddr kvaddr nsize m =
    (if nsize \<ge> PAGE_SIZE then do {
       (r, m1) \<leftarrow> kmem_page_map pd (PAGE_UNUSED1 OR user_flags) nvaddr (kv kvaddr) m;
       map_loop kv pd (nvaddr + PAGE_SIZE) (kvaddr + PAGE_SIZE) (nsize - PAGE_SIZE) m1 }
     else Some (nvaddr, kvaddr, nsize, m))"

definition xm_shm_map :: "(u32 \<Rightarrow> u32) \<Rightarrow> u32 \<Rightarrow> u32 \<Rightarrow> u32 \<Rightarrow> u32 \<Rightarrow> vm \<Rightarrow> (int \<times> vm) option" where
  "xm_shm_map kv pd vaddr n arg m = do {
     (nvaddr, kvaddr, nsize, m1) \<leftarrow>
       map_loop kv pd (vaddr AND NOT (PAGE_SIZE - 1)) (arg AND PAGE_MASK) (n + (vaddr AND (PAGE_SIZE - 1))) m;
     if nsize > 0 then do { (r, m2) \<leftarrow> kmem_page_map pd (PAGE_UNUSED1 OR user_flags) nvaddr (kv kvaddr) m1; Some (0, m2) }
     else Some (0, m1) }"

partial_function (option) unmap_loop :: "u32 \<Rightarrow> u32 \<Rightarrow> u32 \<Rightarrow> vm \<Rightarrow> (u32 \<times> u32 \<times> vm) option" where
  "unmap_loop pd nvaddr nsize m =
    (if nsize \<ge> PAGE_SIZE then do {
       (r, m1) \<leftarrow> kmem_page_unmap pd nvaddr m;
       unmap_loop pd (nvaddr + PAGE_SIZE) (nsize - PAGE_SIZE) m1 }
     else Some (nvaddr, nsize, m))"

text \<open>The table of the address is read even when the directory has no table there.\<close>

definition xm_shm_unmap :: "u32 \<Rightarrow> u32 \<Rightarrow> u32 \<Rightarrow> vm \<Rightarrow> (int \<times> vm) option" where
  "xm_shm_unmap pd dvaddr n m = do {
     (nvaddr, nsize, m1) \<leftarrow> unmap_loop pd (dvaddr AND NOT (PAGE_SIZE - 1)) (n + (dvaddr AND (PAGE_SIZE - 1))) m;
     m2 \<leftarrow> (if nsize > 0 then do { (r, m2) \<leftarrow> kmem_page_unmap pd nvaddr m1; Some m2 } else Some m1);
     pmtab \<leftarrow> get_pd_addr m2 pd (va2pd dvaddr);
     e \<leftarrow> table_empty pmtab m2;
     if e then do { m3 \<leftarrow> set_word pd (va2pd dvaddr) 0 m2; Some (0, free_page pmtab m3) }
     else Some (0, m2) }"

section \<open>The device\<close>

text \<open>cells is the memory of the domains that a result is stored in.\<close>

record shm_user =
  shms :: xm_shms
  pages :: vm
  cells :: "nat \<Rightarrow> u32"

definition put_shms :: "(int \<times> xm_shms) option \<Rightarrow> shm_user \<Rightarrow> (int \<times> shm_user) option" where
  "put_shms x u = do { (r, s) \<leftarrow> x; Some (r, u\<lparr>shms := s\<rparr>) }"

definition put_pages :: "(int \<times> vm) option \<Rightarrow> shm_user \<Rightarrow> (int \<times> shm_user) option" where
  "put_pages x u = do { (r, m) \<leftarrow> x; Some (r, u\<lparr>pages := m\<rparr>) }"

text \<open>strs is the string at an address, cur the current domain and pd its directory.\<close>

definition xm_shm_ioctl :: "(nat \<Rightarrow> u8 list) \<Rightarrow> (u32 \<Rightarrow> u32) \<Rightarrow> nat \<Rightarrow> u32 \<Rightarrow> nat \<Rightarrow> nat \<Rightarrow> nat \<Rightarrow> shm_user \<Rightarrow> (int \<times> shm_user) option" where
  "xm_shm_ioctl strs kv cur pd minor cmd arg u =
    (if minor > XM_SHM_COUNT then Some (- ENODEV, u)
     else if minor = XM_SHM_COUNT then
       if cmd = XM_SHM_CREATE then put_shms (xm_shm_create cur (strs arg) (shms u)) u
       else if cmd = XM_SHM_EXIST then do { i \<leftarrow> xm_get_shm_by_name (strs arg) (shms u); Some (i, u) }
       else Some (0, u)
     else if cmd = XM_SHM_REMOVE then put_shms (xm_shm_unlink cur (int minor) (shms u)) u
     else if cmd = XM_SHM_TRUNCATE then put_shms (xm_shm_resize (int minor) (of_nat arg) (shms u)) u
     else do {
       x \<leftarrow> shm_at (int minor) (shms u);
       if cmd = XM_SHM_MAP then put_pages (xm_shm_map kv pd (of_nat arg) (shm_size x) (va_start x) (pages u)) u
       else if cmd = XM_SHM_UNMAP then put_pages (xm_shm_unmap pd (of_nat arg) (shm_size x) (pages u)) u
       else if cmd = XM_SHM_SIZE then Some (0, u\<lparr>cells := (cells u)(arg := shm_size x)\<rparr>)
       else if cmd = XM_SHM_VADDR then Some (0, u\<lparr>cells := (cells u)(arg := va_start x)\<rparr>)
       else Some (0, u) })"

definition xm_shm_dev :: "(nat \<Rightarrow> u8 list) \<Rightarrow> (u32 \<Rightarrow> u32) \<Rightarrow> shm_user xm_dev_t" where
  "xm_shm_dev strs kv = \<lparr>devid = XM_SHM_DEV,
     dev_unmap_handler = \<lambda>pd a n st. do {
       (r, u) \<leftarrow> put_pages (xm_shm_unmap (of_nat pd) (of_nat a) (of_nat n) (pages (user st))) (user st);
       Some (r, st\<lparr>user := u\<rparr>) },
     dev_ioctl_handler = \<lambda>minor cmd arg st. do {
       d \<leftarrow> dom_at st (xm_current_domain st);
       (r, u) \<leftarrow> xm_shm_ioctl strs kv (xm_current_domain st) (of_nat (dpd d)) minor cmd arg (user st);
       Some (r, st\<lparr>user := u\<rparr>) },
     client = 0\<rparr>"

text \<open>base is what vmalloc returned.\<close>

definition xm_shmpool_init :: "nat option \<Rightarrow> xm_shms \<Rightarrow> (int \<times> xm_shms) option" where
  "xm_shmpool_init base s =
    (case base of None \<Rightarrow> Some (- ENOMEM, s)
     | Some b \<Rightarrow> do {
         (n, pl) \<leftarrow> init_memory_pool SHM_TOTAL_SIZE b (xshm_pool s);
         Some (if n < 0 then -1 else 0, s\<lparr>xshm_pool := pl\<rparr>) })"

definition xm_shmpool_destroy :: "xm_shms \<Rightarrow> int option" where
  "xm_shmpool_destroy s = do {
     _ \<leftarrow> guard_c (length (xshm_list s) = XM_SHM_COUNT);
     Some (if \<exists>x\<in>set (xshm_list s). users x \<noteq> 0 then - EBUSY else 0) }"

definition shm_xm_init :: "(nat \<Rightarrow> u8 list) \<Rightarrow> (u32 \<Rightarrow> u32) \<Rightarrow> nat option \<Rightarrow> shm_user xm_sys \<Rightarrow> (int \<times> shm_user xm_sys) option" where
  "shm_xm_init strs kv base sys = do {
     let u = user (xm sys);
     (r, s) \<leftarrow> xm_shmpool_init base (shms u);
     let sys1 = sys\<lparr>xm := (xm sys)\<lparr>user := u\<lparr>shms := s\<rparr>\<rparr>\<rparr>;
     if r \<noteq> 0 then Some (r, sys1)
     else do {
       let s2 = s\<lparr>xshm_list := map (\<lambda>x. x\<lparr>owner := None\<rparr>) (xshm_list s)\<rparr>;
       (r, sys2) \<leftarrow> xm_dev_register XM_SHM_DEV (Some (xm_shm_dev strs kv)) (sys1\<lparr>xm := (xm sys1)\<lparr>user := u\<lparr>shms := s2\<rparr>\<rparr>\<rparr>);
       Some (if r \<noteq> 0 then (r, sys2) else (0, sys2)) } }"

definition shm_xm_exit :: "shm_user xm_sys \<Rightarrow> shm_user xm_sys option" where
  "shm_xm_exit sys = do {
     (r, sys1) \<leftarrow> xm_dev_unregister XM_SHM_DEV sys;
     if r \<noteq> 0 then Some sys1
     else do { r \<leftarrow> xm_shmpool_destroy (shms (user (xm sys1))); Some sys1 } }"

end
