(* ===== verification/XShmInv.thy ===== *)
theory XShmInv
  imports XShm
begin

unbundle bit_operations_syntax

text \<open>
  The registry of the shared memories: it maps the names to places in the list,
  and every shared memory has a block of the pool of its own.
\<close>

section \<open>Names\<close>

text \<open>The name that a string of bytes stands for.\<close>

definition cname :: "u8 list \<Rightarrow> u8 list" where
  "cname s = takeWhile (\<lambda>c. c \<noteq> 0) s"

lemma cname_simps [simp]: "cname [] = []" "cname (c # cs) = (if c = 0 then [] else c # cname cs)"
  by (simp_all add: cname_def)

lemma shm_name_end_ok: "0 \<in> set s \<Longrightarrow> shm_name_end s = Some (length (cname s))"
  by (induction s) auto

lemma strcmp_ok: "0 \<in> set a \<Longrightarrow> 0 \<in> set b \<Longrightarrow> xm_strcmp a b = Some (if cname a = cname b then 0 else -1)"
  by (induction a b rule: xm_strcmp.induct) auto

lemma cname_nth: "i < length (cname s) \<Longrightarrow> s ! i = cname s ! i \<and> cname s ! i \<noteq> 0 \<and> i < length s"
  by (induction s arbitrary: i) (auto simp: nth_Cons split: nat.splits if_splits)

lemma cname_end: "0 \<in> set s \<Longrightarrow> length (cname s) < length s \<and> s ! length (cname s) = 0"
  by (induction s) auto

text \<open>A name that the device accepts.\<close>

definition shm_nm :: "u8 list \<Rightarrow> bool" where
  "shm_nm s \<longleftrightarrow> 0 \<in> set s \<and> cname s \<noteq> [] \<and> length (cname s) < SHM_NAME_SIZE"

lemma name_check_ok: "0 \<in> set s \<Longrightarrow> xm_shm_name_check s = Some (if shm_nm s then 0 else - EINVAL)"
  by (auto simp: xm_shm_name_check_def shm_nm_def shm_name_end_ok)

lemma copy_from:
  assumes "0 \<in> set s" "length (cname s) < SHM_NAME_SIZE" "length dst = SHM_NAME_SIZE" "i \<le> length (cname s)"
    "\<forall>j<i. dst ! j = cname s ! j"
  shows "\<exists>d. copy_name s i dst = Some d \<and> length d = SHM_NAME_SIZE \<and> 0 \<in> set d \<and> cname d = cname s"
  using assms(3-5)
proof (induction "length (cname s) - i" arbitrary: i dst)
  case 0
  then have i: "i = length (cname s)" by simp
  have l: "i < SHM_NAME_SIZE" "i < length dst" using assms(2) 0(2) i by simp_all
  have e: "rd s i = Some 0" using cname_end [OF assms(1)] i by (simp add: rd_def)
  have "copy_name s i dst = Some (dst[i := 0])"
    using e l by (subst copy_name.simps) (auto simp: wr_def)
  moreover have "take i (dst[i := 0]) = cname s"
    using 0(4) i l by (intro nth_equalityI) simp_all
  then have "dst[i := 0] = cname s @ 0 # drop (Suc i) dst"
    using l(2) by (metis append_take_drop_id drop_update_cancel id_take_nth_drop length_list_update lessI nth_list_update_eq)
  moreover have "cname (cname s @ 0 # xs) = cname s" for xs
    unfolding cname_def by (simp add: takeWhile_append)
  ultimately show ?case using 0(2) by (intro exI [of _ "dst[i := 0]"]) (metis UnCI length_list_update list.set_intros(1) set_append)
next
  case (Suc k)
  then have i: "i < length (cname s)" by simp
  note c = cname_nth [OF i]
  have l: "i < SHM_NAME_SIZE - 1" using i assms(2) by simp
  have "copy_name s i dst = copy_name s (Suc i) (dst[i := s ! i])"
    using c l Suc(3) by (subst copy_name.simps) (simp add: rd_def wr_def SHM_NAME_SIZE_def)
  moreover have "\<forall>j<Suc i. dst[i := s ! i] ! j = cname s ! j"
    using Suc(5) Suc(3) c i assms(2) by (auto simp: less_Suc_eq nth_list_update)
  ultimately show ?case using Suc(1) [of "Suc i" "dst[i := s ! i]"] Suc(2,3) i by simp
qed

lemma copy_ok:
  "shm_nm s \<Longrightarrow> length dst = SHM_NAME_SIZE \<Longrightarrow>
   \<exists>d. copy_name s 0 dst = Some d \<and> length d = SHM_NAME_SIZE \<and> 0 \<in> set d \<and> cname d = cname s"
  using copy_from [of s dst 0] by (simp add: shm_nm_def)

section \<open>The registry\<close>

definition entry_ok :: "xm_shm_t \<Rightarrow> bool" where
  "entry_ok x \<longleftrightarrow> length (shm_name x) = SHM_NAME_SIZE \<and> 0 \<in> set (shm_name x) \<and> (owner x = None \<longleftrightarrow> cname (shm_name x) = [])"

definition shm_name_at :: "xm_shms \<Rightarrow> nat \<Rightarrow> u8 list" where
  "shm_name_at s i = cname (shm_name (xshm_list s ! i))"

definition registry :: "xm_shms \<Rightarrow> bool" where
  "registry s \<longleftrightarrow> length (xshm_list s) = XM_SHM_COUNT \<and> (\<forall>x\<in>set (xshm_list s). entry_ok x) \<and>
     (\<forall>i<XM_SHM_COUNT. \<forall>j<XM_SHM_COUNT. shm_name_at s i \<noteq> [] \<longrightarrow> shm_name_at s i = shm_name_at s j \<longrightarrow> i = j)"

lemma registry_inj:
  "registry s \<Longrightarrow> i < XM_SHM_COUNT \<Longrightarrow> j < XM_SHM_COUNT \<Longrightarrow> shm_name_at s i \<noteq> [] \<Longrightarrow> shm_name_at s i = shm_name_at s j \<Longrightarrow> i = j"
  unfolding registry_def by blast

text \<open>The place of the shared memory of a name.\<close>

definition bound :: "xm_shms \<Rightarrow> u8 list \<Rightarrow> nat option" where
  "bound s n = (if n = [] then None else find (\<lambda>i. shm_name_at s i = n) [0..<XM_SHM_COUNT])"

lemma bound_iff: "registry s \<Longrightarrow> bound s n = Some i \<longleftrightarrow> n \<noteq> [] \<and> i < XM_SHM_COUNT \<and> shm_name_at s i = n"
  unfolding bound_def using registry_inj [of s] by (auto simp: find_upt_Some_iff) (metis order_less_trans nat_neq_iff)

lemma bound_None: "registry s \<Longrightarrow> n \<noteq> [] \<Longrightarrow> bound s n = None \<longleftrightarrow> (\<forall>i<XM_SHM_COUNT. shm_name_at s i \<noteq> n)"
  unfolding bound_def by (auto simp: find_None_iff)

lemma registry_at: "registry s \<Longrightarrow> i < XM_SHM_COUNT \<Longrightarrow> entry_ok (xshm_list s ! i) \<and> shm_at (int i) s = Some (xshm_list s ! i)"
  by (auto simp: registry_def shm_at_def)

definition put_shm :: "nat \<Rightarrow> (xm_shm_t \<Rightarrow> xm_shm_t) \<Rightarrow> xm_shms \<Rightarrow> xm_shms" where
  "put_shm i f s = s\<lparr>xshm_list := (xshm_list s)[i := f (xshm_list s ! i)]\<rparr>"

lemma upd_shm_ok: "i < length (xshm_list s) \<Longrightarrow> upd_shm (int i) f s = Some (put_shm i f s)"
  by (simp add: upd_shm_def shm_at_def put_shm_def)

lemma put_shm_fields [simp]: "xshm_pool (put_shm i f s) = xshm_pool s" "length (xshm_list (put_shm i f s)) = length (xshm_list s)"
  by (simp_all add: put_shm_def)

lemma put_shm_nth: "i < length (xshm_list s) \<Longrightarrow> j < length (xshm_list s) \<Longrightarrow>
    xshm_list (put_shm i f s) ! j = (if j = i then f (xshm_list s ! i) else xshm_list s ! j)"
  by (simp add: put_shm_def)

lemma find_shm_ok:
  "\<forall>x\<in>set xs. entry_ok x \<Longrightarrow> 0 \<in> set name \<Longrightarrow>
   find_shm name xs i = Some (i + length (takeWhile (\<lambda>x. cname (shm_name x) \<noteq> cname name) xs))"
  by (induction xs arbitrary: i) (auto simp: strcmp_ok entry_ok_def)

lemma by_name_ok:
  assumes "registry s" "shm_nm name"
  shows "xm_get_shm_by_name name s = Some (int (case bound s (cname name) of None \<Rightarrow> XM_SHM_COUNT | Some i \<Rightarrow> i))"
proof -
  have z: "0 \<in> set name" "cname name \<noteq> []" using assms(2) by (auto simp: shm_nm_def)
  let ?P = "\<lambda>x. cname (shm_name x) \<noteq> cname name" and ?l = "xshm_list s"
  have l: "length ?l = XM_SHM_COUNT" "\<forall>x\<in>set ?l. entry_ok x" using assms(1) by (auto simp: registry_def)
  have "length (takeWhile ?P ?l) = (case bound s (cname name) of None \<Rightarrow> XM_SHM_COUNT | Some i \<Rightarrow> i)"
  proof (cases "bound s (cname name)")
    case None
    then have "\<forall>x\<in>set ?l. ?P x" using bound_None [OF assms(1) z(2)] l(1) by (auto simp: shm_name_at_def in_set_conv_nth)
    then show ?thesis using None l(1) by (simp add: takeWhile_eq_all_conv [THEN iffD2])
  next
    case (Some i)
    then have i: "i < XM_SHM_COUNT" "shm_name_at s i = cname name" using bound_iff [OF assms(1)] by auto
    have "?P (?l ! j)" if "j < i" for j
    proof -
      have "shm_name_at s j \<noteq> shm_name_at s i"
        using registry_inj [OF assms(1) i(1), of j] i z(2) that by (metis less_irrefl order_less_trans)
      then show ?thesis using i(2) by (simp add: shm_name_at_def)
    qed
    moreover have "\<not> ?P (?l ! i)" using i(2) by (simp add: shm_name_at_def)
    ultimately have "takeWhile ?P ?l = take i ?l" by (intro takeWhile_eq_take_P_nth) auto
    then have "length (takeWhile ?P ?l) = i" using i(1) l(1) by simp
    then show ?thesis using Some by simp
  qed
  then show ?thesis using find_shm_ok [OF l(2) z(1), of 0] name_check_ok [OF z(1)] assms(2)
    by (simp add: xm_get_shm_by_name_def)
qed

text \<open>A change that leaves the name and the owner, and one that gives a free place a name.\<close>

lemma shm_name_at_put: "i < length (xshm_list s) \<Longrightarrow> j < length (xshm_list s) \<Longrightarrow>
    shm_name_at (put_shm i f s) j = (if j = i then cname (shm_name (f (xshm_list s ! i))) else shm_name_at s j)"
  by (simp add: shm_name_at_def put_shm_nth)

lemma registry_put:
  assumes r: "registry s" and i: "i < XM_SHM_COUNT" and e: "entry_ok (f (xshm_list s ! i))"
    and n: "cname (shm_name (f (xshm_list s ! i))) = n" "n = [] \<or> n = shm_name_at s i \<or> bound s n = None"
  shows "registry (put_shm i f s)"
    "bound (put_shm i f s) = (\<lambda>k. if k = n \<and> n \<noteq> [] then Some i else if k = shm_name_at s i then None else bound s k)"
proof -
  have l: "length (xshm_list s) = XM_SHM_COUNT" using r by (simp add: registry_def)
  have nm: "shm_name_at (put_shm i f s) j = (if j = i then n else shm_name_at s j)" if "j < XM_SHM_COUNT" for j
    using shm_name_at_put [of i s j f] i l n(1) that by simp
  have ne: "shm_name_at s j \<noteq> n" if "j < XM_SHM_COUNT" "j \<noteq> i" "n \<noteq> []" for j
    using n(2)
  proof (elim disjE)
    assume "n = shm_name_at s i" then show ?thesis using registry_inj [OF r that(1) i] that by metis
  next
    assume "bound s n = None" then show ?thesis using bound_None [OF r that(3)] that by blast
  qed (use that in simp)
  have "set (xshm_list (put_shm i f s)) \<subseteq> insert (f (xshm_list s ! i)) (set (xshm_list s))"
    unfolding put_shm_def by (simp add: set_update_subset_insert)
  moreover have "\<forall>x\<in>set (xshm_list s). entry_ok x" using r by (simp add: registry_def)
  ultimately have "\<forall>x\<in>set (xshm_list (put_shm i f s)). entry_ok x" using e by blast
  moreover have "a = b" if "a < XM_SHM_COUNT" "b < XM_SHM_COUNT" "shm_name_at (put_shm i f s) a \<noteq> []"
      "shm_name_at (put_shm i f s) a = shm_name_at (put_shm i f s) b" for a b
    using that nm [OF that(1)] nm [OF that(2)] ne [OF that(1)] ne [OF that(2)] registry_inj [OF r that(1,2)] by (metis (full_types))
  ultimately show r': "registry (put_shm i f s)" unfolding registry_def put_shm_fields using l by blast
  show "bound (put_shm i f s) = (\<lambda>k. if k = n \<and> n \<noteq> [] then Some i else if k = shm_name_at s i then None else bound s k)"
  proof
    fix k
    have 1: "bound (put_shm i f s) k = Some j \<longleftrightarrow> k \<noteq> [] \<and> j < XM_SHM_COUNT \<and> (if j = i then n else shm_name_at s j) = k" for j
      using bound_iff [OF r', of k j] nm by auto
    show "bound (put_shm i f s) k = (if k = n \<and> n \<noteq> [] then Some i else if k = shm_name_at s i then None else bound s k)"
    proof (cases "k = n \<and> n \<noteq> []")
      case True
      then show ?thesis using 1 [of i] i by simp
    next
      case False
      show ?thesis
      proof (cases "bound (put_shm i f s) k")
        case None
        have "bound s k = None" if ne: "k \<noteq> shm_name_at s i"
        proof (rule ccontr)
          assume "bound s k \<noteq> None"
          then obtain j where "k \<noteq> []" "j < XM_SHM_COUNT" "shm_name_at s j = k" using bound_iff [OF r, of k] by blast
          moreover from this have "j \<noteq> i" using ne by blast
          ultimately show False using 1 [of j] None by simp
        qed
        then show ?thesis using None False by simp
      next
        case (Some j)
        then have "k \<noteq> []" "j < XM_SHM_COUNT" "if j = i then n = k else shm_name_at s j = k" using 1 [of j] by (auto split: if_splits)
        moreover from this have ji: "j \<noteq> i" using False by auto
        ultimately have j: "k \<noteq> []" "j < XM_SHM_COUNT" "shm_name_at s j = k" by simp_all
        then have "bound s k = Some j" using bound_iff [OF r, of k j] by blast
        moreover have "k \<noteq> shm_name_at s i" using registry_inj [OF r j(2) i] j(1,3) ji by metis
        ultimately show ?thesis using Some False by auto
      qed
    qed
  qed
qed

section \<open>The blocks\<close>

lemma page_round_unat:
  assumes "p + 4096 \<le> 2 ^ 32"
  shows "unat (page_round (of_nat p)) = (p + 4095) div 4096 * 4096"
proof -
  have "(0xFFFFF000 :: u32) = NOT (mask 12)" by (simp add: mask_numeral)
  moreover have "unat (of_nat p + 0xFFF :: u32) = p + 4095"
    using assms by (simp add: unat_word_ariths unat_of_nat)
  ultimately show ?thesis by (simp only: page_round_def clear_low) simp
qed

lemma page_round_bounds:
  assumes "p + 4096 \<le> 2 ^ 32"
  shows "p \<le> unat (page_round (of_nat p))" "unat (page_round (of_nat p)) < p + 4096" "4096 dvd unat (page_round (of_nat p))"
  unfolding page_round_unat [OF assms] by simp_all

text \<open>B is the pointer that malloc_ex returned for the shared memory at a place.\<close>

definition blocks_in :: "(nat \<Rightarrow> nat) \<Rightarrow> (nat \<Rightarrow> nat option) \<Rightarrow> xm_shms \<Rightarrow> bool" where
  "blocks_in B M s \<longleftrightarrow> inj_on B {i. i < XM_SHM_COUNT \<and> owner (xshm_list s ! i) \<noteq> None} \<and>
     (\<forall>i<XM_SHM_COUNT. owner (xshm_list s ! i) \<noteq> None \<longrightarrow>
       va_start (xshm_list s ! i) = page_round (of_nat (B i)) \<and> (\<exists>k\<ge>unat SHM_MEM_SIZE. M (B i) = Some k))"

definition shm_inv :: "u32 \<Rightarrow> nat \<Rightarrow> nat \<Rightarrow> xm_shms \<Rightarrow> (nat \<Rightarrow> nat option) \<Rightarrow> (nat \<Rightarrow> nat) \<Rightarrow> bool" where
  "shm_inv u a z s M B \<longleftrightarrow> registry s \<and> pool u a z (xshm_pool s) M \<and> z + 4096 \<le> 2 ^ 32 \<and> blocks_in B M s"

lemma shm_invD:
  assumes "shm_inv u a z s M B"
  shows "registry s" "pool u a z (xshm_pool s) M" "z + 4096 \<le> 2 ^ 32" "blocks_in B M s" "length (xshm_list s) = XM_SHM_COUNT"
  using assms by (auto simp: shm_inv_def registry_def)

lemma shm_block:
  assumes s: "shm_inv u a z s M B" and i: "i < XM_SHM_COUNT" "owner (xshm_list s ! i) \<noteq> None"
  shows "\<exists>k\<ge>32768. M (B i) = Some k \<and> B i + k \<le> z" "va_start (xshm_list s ! i) = page_round (of_nat (B i))"
    "B i \<le> unat (va_start (xshm_list s ! i))" "unat (va_start (xshm_list s ! i)) < B i + 4096"
    "4096 dvd unat (va_start (xshm_list s ! i))"
proof -
  note d = shm_invD [OF s]
  obtain k where k: "32768 \<le> k" "M (B i) = Some k" "va_start (xshm_list s ! i) = page_round (of_nat (B i))"
    using d(4) i by (auto simp: blocks_in_def SHM_MEM_SIZE_def)
  moreover from this have b: "B i + k \<le> z" using tlsf.inside [OF d(2) k(2)] by simp
  ultimately show "\<exists>k\<ge>32768. M (B i) = Some k \<and> B i + k \<le> z" "va_start (xshm_list s ! i) = page_round (of_nat (B i))" by auto
  have "B i + 4096 \<le> 2 ^ 32" using b k(1) d(3) by linarith
  from page_round_bounds [OF this] show "B i \<le> unat (va_start (xshm_list s ! i))" "unat (va_start (xshm_list s ! i)) < B i + 4096"
    "4096 dvd unat (va_start (xshm_list s ! i))" using k(3) by simp_all
qed

text \<open>A change that leaves the names, the owners and the addresses.\<close>

lemma shm_inv_put:
  assumes s: "shm_inv u a z s M B" and i: "i < XM_SHM_COUNT"
    and f: "shm_name (f (xshm_list s ! i)) = shm_name (xshm_list s ! i)" "owner (f (xshm_list s ! i)) = owner (xshm_list s ! i)"
      "va_start (f (xshm_list s ! i)) = va_start (xshm_list s ! i)"
  shows "shm_inv u a z (put_shm i f s) M B" "bound (put_shm i f s) = bound s"
proof -
  note d = shm_invD [OF s]
  have e: "entry_ok (f (xshm_list s ! i))" using registry_at [OF d(1) i] f by (simp add: entry_ok_def)
  note r = registry_put [where f = f, OF d(1) i e f(1) [THEN arg_cong [where f = cname]], folded shm_name_at_def]
  have n: "shm_name_at s i = [] \<or> shm_name_at s i = shm_name_at s i \<or> bound s (shm_name_at s i) = None" by simp
  have "owner (xshm_list (put_shm i f s) ! j) = owner (xshm_list s ! j)" "va_start (xshm_list (put_shm i f s) ! j) = va_start (xshm_list s ! j)"
    if "j < XM_SHM_COUNT" for j using put_shm_nth [of i s j f] that i d(5) f by auto
  then have "blocks_in B M (put_shm i f s)" using d(4) by (auto simp: blocks_in_def inj_on_def)
  then show "shm_inv u a z (put_shm i f s) M B" using d r(1) by (simp add: shm_inv_def)
  show "bound (put_shm i f s) = bound s"
  proof
    fix k show "bound (put_shm i f s) k = bound s k" using r(2) bound_iff [OF d(1), of k i] i by (auto simp: bound_def)
  qed
qed

end
