(* ===== verification/XShmOps.thy ===== *)
theory XShmOps
  imports XShmInv
begin

unbundle bit_operations_syntax

text \<open>
  Opening and removing shared memories: the device refines a map from names to
  places, and the pages of different shared memories are apart.
\<close>

section \<open>Opening\<close>

lemma free_shm_ok:
  "free_shm xs = n \<Longrightarrow> n \<le> length xs \<and> (n < length xs \<longrightarrow> owner (xs ! n) = None) \<and> (\<forall>i<n. owner (xs ! i) \<noteq> None)"
proof (induction xs arbitrary: n)
  case (Cons x xs)
  then show ?case by (cases n) (auto simp: nth_Cons split: if_splits nat.splits)
qed simp

lemma new_shm_ok:
  assumes s: "shm_inv u a z s M B" and nm: "shm_nm name" "bound s (cname name) = None"
    and j: "j < XM_SHM_COUNT" "owner (xshm_list s ! j) = None"
  shows "(\<exists>s'. new_shm cur name j s = Some (- ENOMEM, s') \<and> malloc_ex SHM_MEM_SIZE (xshm_pool s) = Some (None, xshm_pool s)) \<or>
    (\<exists>p k s'. new_shm cur name j s = Some (int j, s') \<and> malloc_ex SHM_MEM_SIZE (xshm_pool s) = Some (Some p, xshm_pool s') \<and>
      shm_inv u a z s' (M(p \<mapsto> k)) (B(j := p)) \<and> bound s' = (bound s)(cname name \<mapsto> j) \<and>
      owner (xshm_list s' ! j) = Some cur \<and> users (xshm_list s' ! j) = users (xshm_list s ! j) + 1)"
proof -
  note d = shm_invD [OF s]
  have j': "j < length (xshm_list s)" using j d(5) by simp
  have "unat SHM_MEM_SIZE \<le> MAX_REQUEST" by (simp add: SHM_MEM_SIZE_def MAX_REQUEST_def)
  from tlsf_malloc [OF d(2) this] show ?thesis
  proof (elim disjE exE conjE)
    assume m: "malloc_ex SHM_MEM_SIZE (xshm_pool s) = Some (None, xshm_pool s)"
    moreover have "page_round 0 = 0" by (simp add: page_round_def)
    ultimately show ?thesis using j' by (simp add: new_shm_def upd_shm_ok)
  next
    fix p k pl
    assume m: "malloc_ex SHM_MEM_SIZE (xshm_pool s) = Some (Some p, pl)" "M p = None" "unat SHM_MEM_SIZE \<le> k" "pool u a z pl (M(p \<mapsto> k))"
    have pk: "a < p" "p + k \<le> z" using tlsf.inside [OF m(4), of p k] by simp_all
    then have pb: "p + 4096 \<le> 2 ^ 32" using m(3) d(3) by (simp add: SHM_MEM_SIZE_def)
    let ?va = "page_round (of_nat p)"
    have "unat ?va \<noteq> 0" using page_round_bounds(1) [OF pb] pk(1) by linarith
    then have va: "?va \<noteq> 0" by auto
    have le: "length (shm_name (xshm_list s ! j)) = SHM_NAME_SIZE" using registry_at [OF d(1) j(1)] by (simp add: entry_ok_def)
    obtain n where n: "copy_name name 0 (shm_name (xshm_list s ! j)) = Some n" "length n = SHM_NAME_SIZE" "0 \<in> set n" "cname n = cname name"
      using copy_ok [OF nm(1) le] by blast
    let ?f = "\<lambda>x. x\<lparr>owner := Some cur, va_start := ?va, shm_name := n, shm_size := SHM_MEM_SIZE, users := users x + 1\<rparr>"
    define s' where "s' = put_shm j ?f s\<lparr>xshm_pool := pl\<rparr>"
    let ?s0 = "s\<lparr>xshm_pool := pl\<rparr>"
    have c: "new_shm cur name j s = Some (int j, s')"
      using j' m(1) va n(1) by (simp add: new_shm_def upd_shm_ok put_shm_nth shm_at_def s'_def) (simp add: put_shm_def)
    have e: "entry_ok (?f (xshm_list s ! j))" using n nm(1) by (simp add: entry_ok_def shm_nm_def)
    have w: "cname (shm_name (?f (xshm_list s ! j))) = cname name" using n(4) by simp
    note r = registry_put [where f = ?f, OF d(1) j(1) e w] 
    have nj: "shm_name_at s j = []" using registry_at [OF d(1) j(1)] j(2) by (simp add: entry_ok_def shm_name_at_def)
    have "registry (put_shm j ?f s)" "bound (put_shm j ?f s) = (bound s)(cname name \<mapsto> j)"
      using r nm nj by (auto simp: shm_nm_def bound_def fun_eq_iff)
    moreover have "bound s' = bound (put_shm j ?f s)" "registry s' = registry (put_shm j ?f s)"
      by (simp_all add: fun_eq_iff bound_def registry_def shm_name_at_def s'_def put_shm_def)
    moreover have lst: "xshm_list s' ! i = (if i = j then ?f (xshm_list s ! j) else xshm_list s ! i)" if "i < XM_SHM_COUNT" for i
      using that j' d(5) by (simp add: s'_def put_shm_def nth_list_update)
    have "blocks_in (B(j := p)) (M(p \<mapsto> k)) s'"
    proof -
      let ?O = "{i. i < XM_SHM_COUNT \<and> owner (xshm_list s ! i) \<noteq> None}"
      have "{i. i < XM_SHM_COUNT \<and> owner (xshm_list s' ! i) \<noteq> None} = insert j ?O" using lst j(1) by auto
      moreover have "inj_on B ?O" "\<forall>i\<in>?O. B i \<noteq> p" using d(4) m(2) by (auto simp: blocks_in_def)
      then have "inj_on (B(j := p)) (insert j ?O)" using j(2) by (auto simp: inj_on_def)
      moreover have "va_start (xshm_list s' ! i) = page_round (of_nat ((B(j := p)) i)) \<and> (\<exists>l\<ge>unat SHM_MEM_SIZE. (M(p \<mapsto> k)) ((B(j := p)) i) = Some l)"
        if "i < XM_SHM_COUNT" "owner (xshm_list s' ! i) \<noteq> None" for i
        using that lst [OF that(1)] d(4) m(2,3) by (auto simp: blocks_in_def split: if_splits)
      ultimately show ?thesis unfolding blocks_in_def by simp
    qed
    ultimately have "shm_inv u a z s' (M(p \<mapsto> k)) (B(j := p))" "bound s' = (bound s)(cname name \<mapsto> j)"
      using m(4) d(3) by (simp_all add: shm_inv_def s'_def)
    moreover have "xshm_pool s' = pl" by (simp add: s'_def)
    ultimately show ?thesis using c m(1) lst [OF j(1)] by (intro disjI2 exI [of _ p] exI [of _ k] exI [of _ s']) simp
  qed
qed

text \<open>What the creation of a name does, on all its branches.\<close>

definition created :: "u32 \<Rightarrow> nat \<Rightarrow> nat \<Rightarrow> nat \<Rightarrow> u8 list \<Rightarrow> xm_shms \<Rightarrow> (nat \<Rightarrow> nat option) \<Rightarrow> (nat \<Rightarrow> nat) \<Rightarrow> nat \<Rightarrow> xm_shms \<Rightarrow> bool" where
  "created u a z cur n s M B i s' \<longleftrightarrow> i < XM_SHM_COUNT \<and>
     (case bound s n of
        Some j \<Rightarrow> i = j \<and> shm_inv u a z s' M B \<and> bound s' = bound s \<and> owner (xshm_list s' ! i) = owner (xshm_list s ! i)
      | None \<Rightarrow> owner (xshm_list s ! i) = None \<and> bound s' = (bound s)(n \<mapsto> i) \<and> owner (xshm_list s' ! i) = Some cur \<and>
          (\<exists>p k. malloc_ex SHM_MEM_SIZE (xshm_pool s) = Some (Some p, xshm_pool s') \<and> shm_inv u a z s' (M(p \<mapsto> k)) (B(i := p))))"

lemma create_shm_ok:
  assumes s: "shm_inv u a z s M B" and nm: "shm_nm name"
  shows "(\<exists>i s'. xm_shm_create cur name s = Some (int i, s') \<and> created u a z cur (cname name) s M B i s' \<and>
       users (xshm_list s' ! i) = users (xshm_list s ! i) + 1) \<or>
    xm_shm_create cur name s = Some (int XM_SHM_COUNT, s) \<and> bound s (cname name) = None \<and> (\<forall>i<XM_SHM_COUNT. owner (xshm_list s ! i) \<noteq> None) \<or>
    (\<exists>s'. xm_shm_create cur name s = Some (- ENOMEM, s')) \<and> bound s (cname name) = None \<and>
      malloc_ex SHM_MEM_SIZE (xshm_pool s) = Some (None, xshm_pool s)"
proof -
  note d = shm_invD [OF s]
  have c: "xm_shm_name_check name = Some 0" using name_check_ok nm by (simp add: shm_nm_def)
  note g = by_name_ok [OF d(1) nm]
  show ?thesis
  proof (cases "bound s (cname name)")
    case None
    let ?j = "free_shm (xshm_list s)"
    have r: "xm_shm_create cur name s = (if ?j < XM_SHM_COUNT then new_shm cur name ?j s else Some (int XM_SHM_COUNT, s))"
      using c g None by (simp add: xm_shm_create_def Let_def)
    note f = free_shm_ok [OF refl, of "xshm_list s", unfolded d(5)]
    show ?thesis
    proof (cases "?j < XM_SHM_COUNT")
      case True
      then have o: "owner (xshm_list s ! ?j) = None" using f by blast
      from new_shm_ok [OF s nm None True o, of cur] show ?thesis
        using r True None o by (auto simp: created_def)
    next
      case False
      then have "?j = XM_SHM_COUNT" using f by simp
      then show ?thesis using r f None by simp
    qed
  next
    case (Some i)
    then have i: "i < XM_SHM_COUNT" using bound_iff [OF d(1)] by simp
    let ?f = "\<lambda>x. x\<lparr>users := users x + 1\<rparr>"
    have p: "shm_inv u a z (put_shm i ?f s) M B" "bound (put_shm i ?f s) = bound s" by (rule shm_inv_put [OF s i]; simp)+
    have "xm_shm_create cur name s = Some (int i, put_shm i ?f s)"
      using c g Some i d(5) by (simp add: xm_shm_create_def upd_shm_ok)
    moreover have "owner (xshm_list (put_shm i ?f s) ! i) = owner (xshm_list s ! i)" "users (xshm_list (put_shm i ?f s) ! i) = users (xshm_list s ! i) + 1"
      using i d(5) by (simp_all add: put_shm_nth)
    ultimately show ?thesis using p i Some by (auto simp: created_def)
  qed
qed

lemma created_put:
  assumes c: "created u a z cur n s M B i s'" and f: "\<And>x. shm_name (f x) = shm_name x" "\<And>x. owner (f x) = owner x" "\<And>x. va_start (f x) = va_start x"
  shows "created u a z cur n s M B i (put_shm i f s')"
proof -
  have i: "i < XM_SHM_COUNT" using c by (simp add: created_def)
  obtain M' B' where "shm_inv u a z s' M' B'" using c by (auto simp: created_def split: option.splits)
  then have l: "i < length (xshm_list s')" using i shm_invD(5) by simp
  note p = shm_inv_put [where f = f, OF _ i f(1) f(2) f(3)]
  show ?thesis using c p l f by (auto simp: created_def put_shm_nth split: option.splits) blast
qed

lemma open_shm_ok:
  assumes s: "shm_inv u a z s M B" and nm: "shm_nm name"
  shows "(\<exists>i s'. xm_shm_open cur name s = Some (int i, s') \<and> created u a z cur (cname name) s M B i s' \<and>
       users (xshm_list s' ! i) = users (xshm_list s ! i) + 2) \<or>
    xm_shm_open cur name s = Some (- ENOMEM, s) \<and> bound s (cname name) = None \<and> (\<forall>i<XM_SHM_COUNT. owner (xshm_list s ! i) \<noteq> None) \<or>
    xm_shm_open cur name s = None \<and> bound s (cname name) = None \<and> malloc_ex SHM_MEM_SIZE (xshm_pool s) = Some (None, xshm_pool s)"
proof -
  have c: "xm_shm_name_check name = Some 0" using name_check_ok nm by (simp add: shm_nm_def)
  from create_shm_ok [OF s nm, of cur] show ?thesis
  proof (elim disjE exE conjE)
    fix i s'
    assume r: "xm_shm_create cur name s = Some (int i, s')" "created u a z cur (cname name) s M B i s'"
      "users (xshm_list s' ! i) = users (xshm_list s ! i) + 1"
    let ?f = "\<lambda>x. x\<lparr>users := users x + 1\<rparr>"
    have i: "i < XM_SHM_COUNT" using r(2) by (simp add: created_def)
    obtain M' B' where "shm_inv u a z s' M' B'" using r(2) by (auto simp: created_def split: option.splits)
    then have l: "i < length (xshm_list s')" using i shm_invD(5) by simp
    have "xm_shm_open cur name s = Some (int i, put_shm i ?f s')"
      using c r(1) i l by (simp add: xm_shm_open_def upd_shm_ok)
    moreover have "created u a z cur (cname name) s M B i (put_shm i ?f s')" by (rule created_put [OF r(2)]) simp_all
    ultimately show ?thesis using r(3) l by (auto simp: put_shm_nth)
  next
    fix s' assume "xm_shm_create cur name s = Some (- ENOMEM, s')" "bound s (cname name) = None"
      "malloc_ex SHM_MEM_SIZE (xshm_pool s) = Some (None, xshm_pool s)"
    then show ?thesis using c by (simp add: xm_shm_open_def upd_shm_def shm_at_def ENOMEM_def XM_SHM_COUNT_def)
  qed (use c in \<open>simp add: xm_shm_open_def\<close>)
qed

section \<open>Removing\<close>

lemma release_pointer:
  assumes s: "shm_inv u a z s M B" and i: "i < XM_SHM_COUNT" "owner (xshm_list s ! i) \<noteq> None" and n: "\<not> 4096 dvd B i"
  shows "M (unat (va_start (xshm_list s ! i))) = None"
proof (rule ccontr)
  note b = shm_block [OF s i]
  obtain k where k: "32768 \<le> k" "M (B i) = Some k" using b(1) by blast
  assume "M (unat (va_start (xshm_list s ! i))) \<noteq> None"
  then obtain l where l: "M (unat (va_start (xshm_list s ! i))) = Some l" by blast
  have "B i \<noteq> unat (va_start (xshm_list s ! i))" using b(5) n by auto
  then have "B i < unat (va_start (xshm_list s ! i))" using b(3) by simp
  from tlsf.apart [OF shm_invD(2) [OF s] k(2) l this] show False using b(4) k(1) by simp
qed

lemma release_ok_aligned:
  assumes s: "shm_inv u a z s M B" and i: "i < XM_SHM_COUNT" "owner (xshm_list s ! i) \<noteq> None" and n: "4096 dvd B i"
  shows "\<exists>s'. xm_shm_release (int i) s = Some (0, s') \<and> shm_inv u a z s' (M(B i := None)) B \<and>
    bound s' = (bound s)(shm_name_at s i := None) \<and> owner (xshm_list s' ! i) = None \<and> users (xshm_list s' ! i) = users (xshm_list s ! i) - 1"
proof -
  note d = shm_invD [OF s] and b = shm_block [OF s i]
  let ?x = "xshm_list s ! i"
  have l: "i < length (xshm_list s)" using i d(5) by simp
  obtain k where k: "M (B i) = Some k" using b(1) by blast
  have "unat (va_start ?x) = B i"
  proof -
    obtain q r where "B i = 4096 * q" "unat (va_start ?x) = 4096 * r" using n b(5) by (auto elim!: dvdE)
    then show ?thesis using b(3,4) by simp
  qed
  moreover have "0 < B i" using tlsf.inside [OF d(2) k] by simp
  ultimately have va: "unat (va_start ?x) = B i" "va_start ?x \<noteq> 0" by auto
  have e: "length (shm_name ?x) = SHM_NAME_SIZE" using registry_at [OF d(1) i(1)] by (simp add: entry_ok_def)
  obtain c cs where ccs: "shm_name ?x = c # cs" using e by (cases "shm_name ?x") (simp_all add: SHM_NAME_SIZE_def)
  obtain pl where pl: "free_ex (Some (B i)) (xshm_pool s) = Some pl" "pool u a z pl (M(B i := None))"
    using tlsf_free [OF d(2) k] by blast
  let ?f = "\<lambda>x. x\<lparr>shm_name := (shm_name x)[0 := 0], owner := None, users := users x - 1\<rparr>"
  define s' where "s' = put_shm i ?f s\<lparr>xshm_pool := pl\<rparr>"
  have r: "xm_shm_release (int i) s = Some (0, s')"
    using l va pl(1) e ccs registry_at [OF d(1) i(1)]
    by (simp add: xm_shm_release_def upd_shm_ok wr_def SHM_NAME_SIZE_def) (simp add: upd_shm_def shm_at_def put_shm_def s'_def)
  have eo: "entry_ok (?f ?x)" "cname (shm_name (?f ?x)) = []" using e ccs by (simp_all add: entry_ok_def)
  note rp = registry_put [where f = ?f, OF d(1) i(1) eo]
  have ne: "shm_name_at s i \<noteq> []" using registry_at [OF d(1) i(1)] i(2) by (simp add: entry_ok_def shm_name_at_def)
  have "registry (put_shm i ?f s)" "bound (put_shm i ?f s) = (bound s)(shm_name_at s i := None)" using rp by (auto simp: fun_eq_iff)
  moreover have "bound s' = bound (put_shm i ?f s)" "registry s' = registry (put_shm i ?f s)"
    by (simp_all add: fun_eq_iff bound_def registry_def shm_name_at_def s'_def put_shm_def)
  moreover have lst: "xshm_list s' ! j = (if j = i then ?f ?x else xshm_list s ! j)" if "j < XM_SHM_COUNT" for j
    using that l d(5) by (simp add: s'_def put_shm_def nth_list_update)
  have "blocks_in B (M(B i := None)) s'"
  proof -
    let ?O = "{j. j < XM_SHM_COUNT \<and> owner (xshm_list s ! j) \<noteq> None}"
    have inj: "inj_on B ?O" using d(4) by (simp add: blocks_in_def)
    have "{j. j < XM_SHM_COUNT \<and> owner (xshm_list s' ! j) \<noteq> None} = ?O - {i}" using lst by (auto split: if_splits)
    then have "inj_on B {j. j < XM_SHM_COUNT \<and> owner (xshm_list s' ! j) \<noteq> None}" using inj by (simp add: inj_on_diff)
    moreover have "va_start (xshm_list s' ! j) = page_round (of_nat (B j)) \<and> (\<exists>l\<ge>unat SHM_MEM_SIZE. (M(B i := None)) (B j) = Some l)"
      if j: "j < XM_SHM_COUNT" "owner (xshm_list s' ! j) \<noteq> None" for j
    proof -
      have j2: "j \<noteq> i" "owner (xshm_list s ! j) \<noteq> None" using j(2) lst [OF j(1)] by (auto split: if_splits)
      then have "B j \<noteq> B i" using inj i j(1) by (auto simp: inj_on_def)
      then show ?thesis using j2 j(1) lst [OF j(1)] d(4) by (simp add: blocks_in_def)
    qed
    ultimately show ?thesis unfolding blocks_in_def by simp
  qed
  ultimately have "shm_inv u a z s' (M(B i := None)) B" "bound s' = (bound s)(shm_name_at s i := None)"
    using pl(2) d(3) by (simp_all add: shm_inv_def s'_def)
  then show ?thesis using r lst [OF i(1)] by (intro exI [of _ s']) simp
qed

end
