(* ===== verification/XShmMap.thy ===== *)
theory XShmMap
  imports XShmInv
begin

unbundle bit_operations_syntax

text \<open>
  A shared memory in the address space of a domain: mapping enters its pages,
  unmapping takes them out and gives none of them to Linux.
\<close>

section \<open>One page\<close>

lemma set_word_lists: "set_word p i w m = Some m' \<Longrightarrow> free_pages m' = free_pages m \<and> released m' = released m"
  by (auto simp: set_word_def split: Option.bind_splits)

lemma page_map_frees:
  "kmem_page_map pd f a q m = Some (r, m') \<Longrightarrow> length (free_pages m) \<le> Suc (length (free_pages m'))"
  unfolding kmem_page_map_def map_in_table_def fill_pt_entry_def fill_pd_entry_def get_free_page_def Let_def
  by (auto split: Option.bind_splits if_splits prod.splits list.splits dest!: set_word_lists)

lemma page_map_released: "kmem_page_map pd f a q m = Some (r, m') \<Longrightarrow> released m' = released m"
  unfolding kmem_page_map_def map_in_table_def fill_pt_entry_def fill_pd_entry_def get_free_page_def Let_def
  by (auto split: Option.bind_splits if_splits prod.splits list.splits dest!: set_word_lists)

lemma in_ledger: "p \<in> set (free_pages m) \<Longrightarrow> p \<in># ledger m pd" "p \<in> tables m pd \<Longrightarrow> p \<in># ledger m pd"
    "p \<in> set (released m) \<Longrightarrow> p \<in># ledger m pd"
proof -
  have "tables m pd = (\<lambda>e. tab m pd e) ` {e. e < 768 \<and> present (ent m pd e)}" by (auto simp: tables_def)
  then have "finite (tables m pd)" by simp
  then show "p \<in> set (free_pages m) \<Longrightarrow> p \<in># ledger m pd" "p \<in> tables m pd \<Longrightarrow> p \<in># ledger m pd"
    "p \<in> set (released m) \<Longrightarrow> p \<in># ledger m pd" by (simp_all add: ledger_def)
qed

lemma page_unmap_ok:
  assumes s: "space m pd" and a: "a < PAGE_OFFSET"
  shows "\<exists>m'. kmem_page_unmap pd a m = Some (0, m') \<and> space m' pd \<and> lookup m' pd = (lookup m pd)(pagenum a := None) \<and>
    ledger m pd = ledger m' pd + (case lookup m pd (pagenum a) of None \<Rightarrow> {#} | Some p \<Rightarrow> {#p#}) \<and>
    tables m' pd = tables m pd \<and> (\<forall>f<1024. ent m' pd f = ent m pd f) \<and> free_pages m' = free_pages m \<and> released m' = released m"
proof -
  let ?e = "va2pd a" and ?i = "va2pt a" and ?t = "tab m pd (va2pd a)"
  note d = spaceD [OF s]
  have e: "?e < 768" using a user_page by simp
  have n: "pagenum a = ?e * 1024 + ?i" by (simp add: pagenum_split)
  have w: "word_at m pd ?e = Some (ent m pd ?e)" using full_word_at [OF d(3)] e by simp
  show ?thesis
  proof (cases "present (ent m pd ?e)")
    case False
    have l: "lookup m pd (pagenum a) = None" using False e n by (simp add: lookup_def Let_def)
    then have "(lookup m pd)(pagenum a := None) = lookup m pd" by auto
    then show ?thesis using w False s l by (simp add: kmem_page_unmap_def)
  next
    case True
    have t: "full m ?t" "?t \<noteq> pd" using d(4) [OF e True] by auto
    have x: "word_at m ?t ?i = Some (ent m ?t ?i)" by (rule full_word_at [OF t(1) va2pt_less])
    have l: "lookup m pd (pagenum a) = (if present (ent m ?t ?i) then Some (addr (ent m ?t ?i)) else None)"
      unfolding n by (rule lookup_num [OF e True va2pt_less])
    show ?thesis
    proof (cases "present (ent m ?t ?i)")
      case False
      then have "(lookup m pd)(pagenum a := None) = lookup m pd" using l by auto
      then show ?thesis using w True x False s l by (simp add: kmem_page_unmap_def get_pd_addr_def tab_def addr_def)
    next
      case pr: True
      let ?m1 = "put ?t ?i 0 m"
      note p = put_entry [OF s e True refl va2pt_less, of 0]
      have lk: "lookup ?m1 pd = (lookup m pd)(pagenum a := None)" using p(3) n by simp
      have "kmem_page_unmap pd a m = Some (0, ?m1)"
        using w True x pr full_set_word [OF t(1) va2pt_less] by (simp add: kmem_page_unmap_def get_pd_addr_def tab_def addr_def)
      moreover have lp: "lookup m pd (pagenum a) = Some (addr (ent m ?t ?i))" using l pr by simp
      have "ledger m pd = add_mset (addr (ent m ?t ?i)) (ledger ?m1 pd)"
        using frames_remove [where M = "lookup m pd", OF _ lp] p(2) by (simp add: ledger_def lk)
      moreover have "\<forall>f<1024. ent ?m1 pd f = ent m pd f" using ent_put [OF t(1) va2pt_less, where w = 0 and q = pd] t(2) by simp
      ultimately show ?thesis using p(1,2) lk lp by (intro exI [of _ ?m1]) simp
    qed
  qed
qed

section \<open>The loops\<close>

lemma page_steps:
  assumes "Suc n < 2 ^ 20"
  shows "PAGE_SIZE \<le> page_va (Suc n)" "page_va (Suc n) - PAGE_SIZE = page_va n"
proof -
  have "unat (page_va (Suc n)) = Suc n * 4096" using page_va_unat [of "Suc n"] assms by simp
  then show "PAGE_SIZE \<le> page_va (Suc n)" by (simp add: word_le_nat_alt PAGE_SIZE_def)
  show "page_va (Suc n) - PAGE_SIZE = page_va n" using page_va_Suc [of n] by (metis add_diff_cancel_right')
qed

text \<open>q j is the page behind the j-th page of the shared memory.\<close>

lemma map_loop_ok:
  assumes "space m pd" "k + n < 768 * 1024" "n \<le> length (free_pages m)"
    and "\<forall>j<n. page_aligned (kv (ka + page_va j)) \<and> kv (ka + page_va j) \<noteq> pd \<and> kv (ka + page_va j) \<notin># ledger m pd"
    and "inj_on (\<lambda>j. kv (ka + page_va j)) {..<n}" "\<forall>j<n. lookup m pd (k + j) = None"
  shows "\<exists>m'. map_loop kv pd (page_va k) ka (page_va n) m = Some (page_va (k + n), ka + page_va n, 0, m') \<and> space m' pd \<and>
    (\<forall>j. lookup m' pd j = (if k \<le> j \<and> j < k + n then Some (kv (ka + page_va (j - k))) else lookup m pd j)) \<and>
    ledger m' pd = ledger m pd + {#kv (ka + page_va j). j \<in># mset_set {..<n}#} \<and> released m' = released m"
  using assms
proof (induction n arbitrary: k ka m)
  case 0
  then show ?case by (subst map_loop.simps) (auto simp: page_va_0 PAGE_SIZE_def)
next
  case (Suc n)
  have v: "page_va k < PAGE_OFFSET" "pagenum (page_va k) = k" using Suc(3) page_va_user [of k] page_va_num [of k] by simp_all
  have sz: "PAGE_SIZE \<le> page_va (Suc n)" "page_va (Suc n) - PAGE_SIZE = page_va n" by (rule page_steps; use Suc(3) in simp)+
  have sh: "ka + page_va (Suc j) = ka + PAGE_SIZE + page_va j" for j using page_va_Suc [of j] by (simp add: add.assoc add.commute)
  let ?q = "kv ka"
  have q: "page_aligned ?q" "?q \<noteq> pd" "?q \<notin># ledger m pd" using Suc(5) [rule_format, of 0] by (simp_all add: page_va_0)
  have qn: "?q \<notin> tables m pd" "?q \<notin> set (free_pages m)" using q(3) in_ledger by blast+
  have f: "present (PAGE_UNUSED1 OR user_flags)" 
    by (simp add: present_def user_flags_def PAGE_PRESENT_def PAGE_RW_def PAGE_USER_def PAGE_UNUSED1_def)
  have u: "lookup m pd (pagenum (page_va k)) = None" using Suc(7) [rule_format, of 0] v by simp
  have ne: "free_pages m \<noteq> []" using Suc(4) by auto
  obtain m1 where m1: "kmem_page_map pd (PAGE_UNUSED1 OR user_flags) (page_va k) ?q m = Some (page_va k, m1)" "space m1 pd"
    "lookup m1 pd = (lookup m pd)(k \<mapsto> ?q)" "ledger m1 pd = add_mset ?q (ledger m pd)"
    using page_map_ok [OF Suc(2) v(1) f q(1,2) qn u] ne v(2) by auto
  have l: "n \<le> length (free_pages m1)" using page_map_frees [OF m1(1)] Suc(4) by simp
  have 1: "\<forall>j<n. page_aligned (kv (ka + PAGE_SIZE + page_va j)) \<and> kv (ka + PAGE_SIZE + page_va j) \<noteq> pd \<and>
     kv (ka + PAGE_SIZE + page_va j) \<notin># ledger m1 pd"
  proof (intro allI impI)
    fix j assume j: "j < n"
    have "kv (ka + page_va (Suc j)) \<noteq> kv (ka + page_va 0)" using Suc(6) j by (auto simp: inj_on_def)
    then show "page_aligned (kv (ka + PAGE_SIZE + page_va j)) \<and> kv (ka + PAGE_SIZE + page_va j) \<noteq> pd \<and>
     kv (ka + PAGE_SIZE + page_va j) \<notin># ledger m1 pd" using Suc(5) [rule_format, of "Suc j"] j m1(4) by (simp add: sh page_va_0)
  qed
  have 2: "inj_on (\<lambda>j. kv (ka + PAGE_SIZE + page_va j)) {..<n}"
  proof (rule inj_onI)
    fix i j assume "i \<in> {..<n}" "j \<in> {..<n}" "kv (ka + PAGE_SIZE + page_va i) = kv (ka + PAGE_SIZE + page_va j)"
    then have "Suc i = Suc j" using inj_onD [OF Suc(6), of "Suc i" "Suc j"] by (simp add: sh)
    then show "i = j" by simp
  qed
  have 3: "\<forall>j<n. lookup m1 pd (Suc k + j) = None" using Suc(7) m1(3) by auto
  obtain m' where m': "map_loop kv pd (page_va (Suc k)) (ka + PAGE_SIZE) (page_va n) m1 =
      Some (page_va (Suc k + n), ka + PAGE_SIZE + page_va n, 0, m')" "space m' pd"
    "\<forall>j. lookup m' pd j = (if Suc k \<le> j \<and> j < Suc k + n then Some (kv (ka + PAGE_SIZE + page_va (j - Suc k))) else lookup m1 pd j)"
    "ledger m' pd = ledger m1 pd + {#kv (ka + PAGE_SIZE + page_va j). j \<in># mset_set {..<n}#}" "released m' = released m1"
    using Suc(1) [OF m1(2) _ l 1 2 3] Suc(3) by auto
  have "map_loop kv pd (page_va k) ka (page_va (Suc n)) m = Some (page_va (k + Suc n), ka + page_va (Suc n), 0, m')"
    using sz m1(1) m'(1) by (subst map_loop.simps) (simp add: page_va_Suc sh)
  moreover have "lookup m' pd j = (if k \<le> j \<and> j < k + Suc n then Some (kv (ka + page_va (j - k))) else lookup m pd j)" for j
  proof (cases "j = k")
    case True then show ?thesis using m'(3) m1(3) by (simp add: page_va_0)
  next
    case False
    have "ka + page_va (j - k) = ka + PAGE_SIZE + page_va (j - Suc k)" if "k < j" using that sh [of "j - Suc k"] by (simp add: Suc_diff_Suc add.assoc)
    then show ?thesis using m'(3) m1(3) False by (auto simp: add.assoc)
  qed
  moreover have "ledger m' pd = ledger m pd + {#kv (ka + page_va j). j \<in># mset_set {..<Suc n}#}"
  proof -
    have "mset_set {..<Suc n} = add_mset 0 (image_mset Suc (mset_set {..<n}))"
      by (simp add: lessThan_Suc_eq_insert_0 image_mset_mset_set)
    then show ?thesis using m'(4) m1(4) by (simp add: image_mset.compositionality o_def sh page_va_0)
  qed
  ultimately show ?case using m'(2,5) page_map_released [OF m1(1)] by auto
qed

lemma unmap_loop_ok:
  assumes "space m pd" "k + n < 768 * 1024"
  shows "\<exists>m'. unmap_loop pd (page_va k) (page_va n) m = Some (page_va (k + n), 0, m') \<and> space m' pd \<and>
    (\<forall>j. lookup m' pd j = (if k \<le> j \<and> j < k + n then None else lookup m pd j)) \<and>
    tables m' pd = tables m pd \<and> (\<forall>f<1024. ent m' pd f = ent m pd f) \<and> free_pages m' = free_pages m \<and> released m' = released m"
  using assms
proof (induction n arbitrary: k m)
  case 0
  then show ?case by (subst unmap_loop.simps) (auto simp: page_va_0 PAGE_SIZE_def)
next
  case (Suc n)
  have v: "page_va k < PAGE_OFFSET" "pagenum (page_va k) = k" using Suc(3) page_va_user [of k] page_va_num [of k] by simp_all
  have sz: "PAGE_SIZE \<le> page_va (Suc n)" "page_va (Suc n) - PAGE_SIZE = page_va n" by (rule page_steps; use Suc(3) in simp)+
  obtain m1 where m1: "kmem_page_unmap pd (page_va k) m = Some (0, m1)" "space m1 pd" "lookup m1 pd = (lookup m pd)(k := None)"
    "tables m1 pd = tables m pd" "\<forall>f<1024. ent m1 pd f = ent m pd f" "free_pages m1 = free_pages m" "released m1 = released m"
    using page_unmap_ok [OF Suc(2) v(1)] v(2) by auto
  obtain m' where m': "unmap_loop pd (page_va (Suc k)) (page_va n) m1 = Some (page_va (Suc k + n), 0, m')" "space m' pd"
    "\<forall>j. lookup m' pd j = (if Suc k \<le> j \<and> j < Suc k + n then None else lookup m1 pd j)"
    "tables m' pd = tables m1 pd" "\<forall>f<1024. ent m' pd f = ent m1 pd f" "free_pages m' = free_pages m1" "released m' = released m1"
    using Suc(1) [OF m1(2), of "Suc k"] Suc(3) by auto
  have "unmap_loop pd (page_va k) (page_va (Suc n)) m = Some (page_va (k + Suc n), 0, m')"
    using sz m1(1) m'(1) by (subst unmap_loop.simps) (simp add: page_va_Suc)
  moreover have "lookup m' pd j = (if k \<le> j \<and> j < k + Suc n then None else lookup m pd j)" for j
    using m'(3) m1(3) by auto
  ultimately show ?case using m'(2,4-7) m1(4-7) by auto
qed

section \<open>The calls\<close>

lemma page_offset_bits: "NOT (PAGE_SIZE - 1) = PAGE_MASK" "page_va k AND (PAGE_SIZE - 1) = 0"
proof -
  show m: "NOT (PAGE_SIZE - 1) = PAGE_MASK" by (simp add: PAGE_SIZE_def PAGE_MASK_def)
  then have "PAGE_SIZE - 1 = NOT PAGE_MASK" by (metis bit.double_compl)
  then show "page_va k AND (PAGE_SIZE - 1) = 0" by (simp add: page_va_aligned)
qed

lemma shm_map_eq:
  "map_loop kv pd (page_va k) (arg AND PAGE_MASK) (page_va n) m = Some (a, b, 0, m') \<Longrightarrow>
   xm_shm_map kv pd (page_va k) (page_va n) arg m = Some (0, m')"
  unfolding xm_shm_map_def page_offset_bits page_va_aligned by simp

text \<open>What unmapping a range does whose first page has a table.\<close>

lemma shm_unmap_ok:
  assumes s: "space m pd" and k: "k + n < 768 * 1024" "0 < n" and l: "lookup m pd k \<noteq> None"
  shows "\<exists>m'. xm_shm_unmap pd (page_va k) (page_va n) m = Some (0, m') \<and> space m' pd \<and>
    (\<forall>j. lookup m' pd j = (if k \<le> j \<and> j < k + n then None else lookup m pd j)) \<and>
    free_pages m' = free_pages m \<and> (released m' = released m \<or> (\<exists>t\<in>tables m pd. released m' = t # released m))"
proof -
  let ?e = "va2pd (page_va k)"
  obtain m1 where m1: "unmap_loop pd (page_va k) (page_va n) m = Some (page_va (k + n), 0, m1)" "space m1 pd"
    "\<forall>j. lookup m1 pd j = (if k \<le> j \<and> j < k + n then None else lookup m pd j)" "tables m1 pd = tables m pd"
    "\<forall>f<1024. ent m1 pd f = ent m pd f" "free_pages m1 = free_pages m" "released m1 = released m"
    using unmap_loop_ok [OF s k(1)] by blast
  have v: "?e = k div 1024" using k page_va_num [of k] by (simp add: pagenum_split)
  have e: "?e < 768" using v k by simp
  have p: "present (ent m1 pd ?e)" using l m1(5) e v by (auto simp: lookup_def Let_def split: if_splits)
  note d = spaceD [OF m1(2)]
  have ft: "full m1 (tab m1 pd ?e)" "tab m1 pd ?e \<in> tables m1 pd" using d(4) [OF e p] by auto
  have g: "get_pd_addr m1 pd ?e = Some (tab m1 pd ?e)"
    using full_word_at [OF d(3), of ?e] e by (simp add: get_pd_addr_def tab_def addr_def)
  have te: "table_empty (tab m1 pd ?e) m1 = Some b" if "(\<forall>j<1024. ent m1 (tab m1 pd ?e) j = 0) = b" for b
    using table_empty_ok [OF ft(1)] that by simp
  note r = m1(1) g full_set_word [OF d(3), of ?e 0] e
  show ?thesis
  proof (cases "\<forall>j<1024. ent m1 (tab m1 pd ?e) j = 0")
    case False
    then have "table_empty (tab m1 pd ?e) m1 = Some False" by (intro te) simp
    then have "xm_shm_unmap pd (page_va k) (page_va n) m = Some (0, m1)"
      using r unfolding xm_shm_unmap_def page_offset_bits page_va_aligned by simp
    then show ?thesis using m1(2,3,6,7) by blast
  next
    case True
    note t = drop_table [OF m1(2) e p True]
    have "xm_shm_unmap pd (page_va k) (page_va n) m = Some (0, mm_release_page (tab m1 pd ?e) (put pd ?e 0 m1))"
      using r te [of True] True unfolding xm_shm_unmap_def page_offset_bits page_va_aligned mm_release_page_def by simp
    then show ?thesis using t(1,3-5) m1(3,4,6,7) ft(2) by auto
  qed
qed

end
