(* ===== verification/XShmApi.thy ===== *)
theory XShmApi
  imports XShmOps XShmMap
begin

unbundle bit_operations_syntax

text \<open>
  The shared memory device (devs/shm/shm.c) as the domains see it.
\<close>

section \<open>Properties\<close>

text \<open>C14: xm_shm_open refines a map from names to places: a known name gets the place it has, a new name gets a free place and a
  block of its own of the pool; without a free place the call is refused, and without memory it writes before the list.\<close>
theorem shm_open_refines:
  assumes "shm_inv u a z s M B" "shm_nm name"
  shows "(\<exists>i s'. xm_shm_open cur name s = Some (int i, s') \<and> i < XM_SHM_COUNT \<and> users (xshm_list s' ! i) = users (xshm_list s ! i) + 2 \<and>
      (case bound s (cname name) of
         Some j \<Rightarrow> i = j \<and> bound s' = bound s \<and> shm_inv u a z s' M B
       | None \<Rightarrow> owner (xshm_list s ! i) = None \<and> owner (xshm_list s' ! i) = Some cur \<and> bound s' = (bound s)(cname name \<mapsto> i) \<and>
           (\<exists>p k. shm_inv u a z s' (M(p \<mapsto> k)) (B(i := p))))) \<or>
    bound s (cname name) = None \<and>
      (xm_shm_open cur name s = Some (- ENOMEM, s) \<and> (\<forall>i<XM_SHM_COUNT. owner (xshm_list s ! i) \<noteq> None) \<or>
       xm_shm_open cur name s = None \<and> malloc_ex SHM_MEM_SIZE (xshm_pool s) = Some (None, xshm_pool s))"
  using open_shm_ok [OF assms, of cur] unfolding created_def by (elim disjE exE conjE) (auto split: option.splits)




section \<open>Examples\<close>

text \<open>A fresh device, whose pool begins at 4096, and the name A.\<close>

definition blank_shm :: xm_shm_t where
  "blank_shm = \<lparr>shm_name = replicate SHM_NAME_SIZE 0, owner = None, va_start = 0, shm_size = 0, users = 0\<rparr>"

definition demo_shms :: xm_shms where
  "demo_shms = snd (the (xm_shmpool_init (Some 4096) \<lparr>xshm_list = replicate XM_SHM_COUNT blank_shm, xshm_pool = blank_pool\<rparr>))"

definition demo_name :: "u8 list" where
  "demo_name = [65, 0]"

definition demo_opened :: xm_shms where
  "demo_opened = snd (the (xm_shm_open 7 demo_name demo_shms))"

lemma demo_name_ok: "shm_nm demo_name" "cname demo_name = [65]"
  by (simp_all add: demo_name_def shm_nm_def SHM_NAME_SIZE_def)

lemma demo_shms_ok: "\<exists>u. shm_inv u 7280 2101240 demo_shms Map.empty id \<and> bound demo_shms [65] = None \<and>
    malloc_ex SHM_MEM_SIZE (xshm_pool demo_shms) \<noteq> Some (None, xshm_pool demo_shms)" "\<forall>x\<in>set (xshm_list demo_shms). users x = 0"
proof -
  have sz: "unat SHM_TOTAL_SIZE = 2097152" by (simp add: SHM_TOTAL_SIZE_def)
  obtain n pl where i: "init_memory_pool SHM_TOTAL_SIZE 4096 blank_pool = Some (n, pl)" "unat n = 2093952"
    "pool (SHM_TOTAL_SIZE - n) 7280 2101240 pl Map.empty" "tlsf_inv pl (SHM_TOTAL_SIZE - n) 7280 [7280] 2101240"
    "\<exists>h. bhdrs pl 7280 = Some h \<and> is_free h \<and> csz h = 2093952"
    using init_pool_ok [of SHM_TOTAL_SIZE 4096 blank_pool] blank_pool_fresh sz by (auto simp: first_size_def)
  then have d: "demo_shms = \<lparr>xshm_list = replicate XM_SHM_COUNT blank_shm, xshm_pool = pl\<rparr>"
    by (simp add: demo_shms_def xm_shmpool_init_def)
  have "entry_ok blank_shm" "cname (shm_name blank_shm) = []"
    by (simp_all add: entry_ok_def blank_shm_def SHM_NAME_SIZE_def cname_def)
  then have reg: "registry demo_shms" "bound demo_shms [65] = None"
    by (auto simp: d registry_def shm_name_at_def bound_def find_None_iff)
  moreover have "blocks_in id Map.empty demo_shms" by (auto simp: blocks_in_def d blank_shm_def)
  moreover have "malloc_ex SHM_MEM_SIZE pl \<noteq> Some (None, pl)"
    using malloc_ex_blocks [OF i(4), of SHM_MEM_SIZE] i(5) by (auto simp: MAX_REQUEST_def SHM_MEM_SIZE_def)
  ultimately show "\<exists>u. shm_inv u 7280 2101240 demo_shms Map.empty id \<and> bound demo_shms [65] = None \<and>
    malloc_ex SHM_MEM_SIZE (xshm_pool demo_shms) \<noteq> Some (None, xshm_pool demo_shms)"
    using i(3) by (intro exI [of _ "SHM_TOTAL_SIZE - n"]) (simp add: shm_inv_def d)
  show "\<forall>x\<in>set (xshm_list demo_shms). users x = 0" by (simp add: d blank_shm_def)
qed

lemma demo_opened_ok: "\<exists>i p k u. xm_shm_open 7 demo_name demo_shms = Some (int i, demo_opened) \<and> i < XM_SHM_COUNT \<and>
    shm_inv u 7280 2101240 demo_opened [p \<mapsto> k] (id(i := p)) \<and> owner (xshm_list demo_opened ! i) = Some 7 \<and>
    users (xshm_list demo_opened ! i) = 2"
proof -
  obtain u where u: "shm_inv u 7280 2101240 demo_shms Map.empty id" "bound demo_shms [65] = None"
    "malloc_ex SHM_MEM_SIZE (xshm_pool demo_shms) \<noteq> Some (None, xshm_pool demo_shms)" using demo_shms_ok(1) by blast
  have "owner (xshm_list demo_shms ! 0) = None" "0 < XM_SHM_COUNT"
    using shm_invD(4) [OF u(1)] by (auto simp: blocks_in_def XM_SHM_COUNT_def)
  then have not_all: "\<not> (\<forall>i<XM_SHM_COUNT. owner (xshm_list demo_shms ! i) \<noteq> None)" by blast
  have us: "users (xshm_list demo_shms ! i) = 0" if "i < XM_SHM_COUNT" for i
    using demo_shms_ok(2) that shm_invD(5) [OF u(1)] nth_mem [of i "xshm_list demo_shms"] by simp
  obtain i s' where "xm_shm_open 7 demo_name demo_shms = Some (int i, s')" "created u 7280 2101240 7 [65] demo_shms Map.empty id i s'"
     "users (xshm_list s' ! i) = users (xshm_list demo_shms ! i) + 2"
    using open_shm_ok [OF u(1) demo_name_ok(1), of 7] u(3) not_all demo_name_ok(2) by auto
  then show ?thesis using u(2) us by (auto simp: demo_opened_def created_def)
qed


lemma shm_open_refines_witness:
  "\<exists>i s'. xm_shm_open 9 demo_name demo_opened = Some (int i, s') \<and> bound demo_opened [65] = Some i \<and> bound s' = bound demo_opened"
proof -
  obtain i p k u where o: "shm_inv u 7280 2101240 demo_opened [p \<mapsto> k] (id(i := p))" "owner (xshm_list demo_opened ! i) = Some 7"
    "xm_shm_open 7 demo_name demo_shms = Some (int i, demo_opened)" "i < XM_SHM_COUNT" using demo_opened_ok by blast
  obtain u' where u: "shm_inv u' 7280 2101240 demo_shms Map.empty id" "bound demo_shms [65] = None" using demo_shms_ok(1) by blast
  have "bound demo_opened [65] \<noteq> None"
    using open_shm_ok [OF u(1) demo_name_ok(1), of 7] o(3,4) u(2) by (auto simp: created_def demo_name_ok(2) ENOMEM_def)
  then show ?thesis using shm_open_refines [OF o(1) demo_name_ok(1), of 9] by (auto simp: demo_name_ok(2))
qed

text \<open>Two shared memories in a pool that is full.\<close>

definition two_pool :: tlsf_t where
  "two_pool = \<lparr>tlsf_signature = TLSF_SIGNATURE, used_size = 0, fl_bitmap = 0, sl_bitmap = replicate REAL_FLI 0,
     tlsf_matrix = replicate REAL_FLI (replicate MAX_SLI None),
     bhdrs = [7280 \<mapsto> \<lparr>prev_hdr = None, bh_size = 32768, fr_prev = None, fr_next = None\<rparr>,
       40056 \<mapsto> \<lparr>prev_hdr = Some 7280, bh_size = 32768, fr_prev = None, fr_next = None\<rparr>,
       72832 \<mapsto> \<lparr>prev_hdr = Some 40056, bh_size = 0, fr_prev = None, fr_next = None\<rparr>], mp = Some 4096\<rparr>"

definition shm_of :: "u8 \<Rightarrow> u32 \<Rightarrow> xm_shm_t" where
  "shm_of c v = \<lparr>shm_name = c # replicate 32 0, owner = Some 7, va_start = v, shm_size = SHM_MEM_SIZE, users = 1\<rparr>"

definition two_shms :: xm_shms where
  "two_shms = \<lparr>xshm_list = shm_of 65 8192 # shm_of 66 40960 # replicate 14 blank_shm, xshm_pool = two_pool\<rparr>"

lemma two_pool_ok: "\<exists>u. pool u 7280 72832 two_pool [7288 \<mapsto> 32768, 40064 \<mapsto> 32768]"
proof -
  have f: "block_bytes \<lparr>prev_hdr = a, bh_size = 32768, fr_prev = b, fr_next = c\<rparr> = 32768"
     "\<not> is_free \<lparr>prev_hdr = a, bh_size = 32768, fr_prev = b, fr_next = c\<rparr>"
     "\<not> prev_free \<lparr>prev_hdr = a, bh_size = 32768, fr_prev = b, fr_next = c\<rparr>"
     "block_bytes \<lparr>prev_hdr = a, bh_size = 0, fr_prev = b, fr_next = c\<rparr> = 0"
     "\<not> is_free \<lparr>prev_hdr = a, bh_size = 0, fr_prev = b, fr_next = c\<rparr>"
     "\<not> prev_free \<lparr>prev_hdr = a, bh_size = 0, fr_prev = b, fr_next = c\<rparr>" for a b c
    by (simp_all add: block_bytes_def is_free_def prev_free_def TLSF_BLOCK_SIZE_def FREE_BLOCK_def PREV_FREE_def)
  let ?bs = "[7280, 40056]"
  have h: "bhdrs two_pool 7280 = Some \<lparr>prev_hdr = None, bh_size = 32768, fr_prev = None, fr_next = None\<rparr>"
    "bhdrs two_pool 40056 = Some \<lparr>prev_hdr = Some 7280, bh_size = 32768, fr_prev = None, fr_next = None\<rparr>"
    "bhdrs two_pool 72832 = Some \<lparr>prev_hdr = Some 40056, bh_size = 0, fr_prev = None, fr_next = None\<rparr>"
    by (simp_all add: two_pool_def)
  have "closed (bhdrs two_pool) None 7280 ?bs 72832" by (simp add: h f closed_def cell_def csz_def)
  moreover have "free_set (bhdrs two_pool) ?bs = {}" by (auto simp: h f free_set_def free_at_def)
  moreover have "indexed two_pool {}" by (rule indexed_empty) (simp_all add: two_pool_def)
  ultimately have t: "tlsf_inv two_pool (- used_sum (bhdrs two_pool) ?bs) 7280 ?bs 72832"
    by (simp add: tlsf_inv_def) (simp add: two_pool_def)
  have lv: "live (bhdrs two_pool) ?bs = [7288 \<mapsto> 32768, 40064 \<mapsto> 32768]"
  proof
    fix p :: nat
    have b: "blk_in (bhdrs two_pool) ?bs x = (if x = 7280 \<or> x = 40056 then Some 32768 else None)" for x
      by (simp add: blk_in_def blk_def csz_def h f)
    have "live (bhdrs two_pool) ?bs p = (if 8 \<le> p \<and> (p - 8 = 7280 \<or> p - 8 = 40056) then Some 32768 else None)"
      by (simp add: live_def b)
    also have "8 \<le> p \<and> (p - 8 = 7280 \<or> p - 8 = 40056) \<longleftrightarrow> p = 7288 \<or> p = 40064" by linarith
    finally show "live (bhdrs two_pool) ?bs p = [7288 \<mapsto> 32768, 40064 \<mapsto> 32768] p" by simp
  qed
  show ?thesis by (rule exI, rule poolI [OF t]) (simp only: lv)
qed


definition two_block :: "nat \<Rightarrow> nat" where
  "two_block i = (if i = 0 then 7288 else 40064)"

lemma two_shms_ok: "\<exists>u. shm_inv u 7280 72832 two_shms [7288 \<mapsto> 32768, 40064 \<mapsto> 32768] two_block"
proof -
  have l: "xshm_list two_shms ! i = (if i = 0 then shm_of 65 8192 else if i = 1 then shm_of 66 40960 else blank_shm)"
    if "i < XM_SHM_COUNT" for i using that by (auto simp: two_shms_def XM_SHM_COUNT_def nth_Cons split: nat.splits)
  have e: "entry_ok (shm_of 65 8192)" "entry_ok (shm_of 66 40960)" "entry_ok blank_shm"
    "cname (shm_name (shm_of 65 8192)) = [65]" "cname (shm_name (shm_of 66 40960)) = [66]" "cname (shm_name blank_shm) = []"
    by (simp_all add: entry_ok_def shm_of_def blank_shm_def SHM_NAME_SIZE_def cname_def)
  have "set (xshm_list two_shms) = {shm_of 65 8192, shm_of 66 40960, blank_shm}" by (simp add: two_shms_def)
  then have "\<forall>x\<in>set (xshm_list two_shms). entry_ok x" using e by simp
  moreover have "shm_name_at two_shms i = (if i = 0 then [65] else if i = 1 then [66] else [])" if "i < XM_SHM_COUNT" for i
    using l [OF that] e by (simp add: shm_name_at_def)
  moreover have "length (xshm_list two_shms) = XM_SHM_COUNT" by (simp add: two_shms_def XM_SHM_COUNT_def)
  ultimately have "registry two_shms" by (auto simp: registry_def split: if_splits)
  moreover have o: "owner (xshm_list two_shms ! i) \<noteq> None \<longleftrightarrow> i = 0 \<or> i = 1" if "i < XM_SHM_COUNT" for i
    using l [OF that] by (simp add: shm_of_def blank_shm_def)
  have "blocks_in two_block [7288 \<mapsto> 32768, 40064 \<mapsto> 32768] two_shms"
    unfolding blocks_in_def
  proof
    show "inj_on two_block {i. i < XM_SHM_COUNT \<and> owner (xshm_list two_shms ! i) \<noteq> None}"
      using o by (auto simp: inj_on_def two_block_def split: if_splits)
    have "page_round 7288 = 8192" "page_round 40064 = 40960" by (simp_all add: page_round_def)
    then show "\<forall>i<XM_SHM_COUNT. owner (xshm_list two_shms ! i) \<noteq> None \<longrightarrow>
      va_start (xshm_list two_shms ! i) = page_round (of_nat (two_block i)) \<and>
      (\<exists>k\<ge>unat SHM_MEM_SIZE. [7288 \<mapsto> 32768, 40064 \<mapsto> 32768] (two_block i) = Some k)"
      using o l by (auto simp: shm_of_def SHM_MEM_SIZE_def two_block_def)
  qed
  moreover obtain u where "pool u 7280 72832 two_pool [7288 \<mapsto> 32768, 40064 \<mapsto> 32768]" using two_pool_ok by blast
  moreover have "xshm_pool two_shms = two_pool" by (simp add: two_shms_def)
  ultimately show ?thesis by (intro exI [of _ u]) (simp add: shm_inv_def)
qed





end
