(* ===== verification/PString.thy ===== *)
theory PString
  imports Prelude
begin

unbundle bit_operations_syntax

text \<open>
  The strings of PaRTiKle's C library (user/ulibc/libc/string.c, include/ctype.h).
  The memory is a list of bytes and a pointer an index of it; 0 is NULL.  char is
  signed on the i386.
\<close>

type_synonym cmem = "u8 list"

section \<open>Blocks\<close>

text \<open>The loops count down an unsigned int that was incremented before.\<close>

partial_function (option) memset_loop :: "u8 \<Rightarrow> nat \<Rightarrow> u32 \<Rightarrow> cmem \<Rightarrow> cmem option" where
  [code]: "memset_loop s a n m = (let n' = n - 1 in
     if n' \<noteq> 0 then do { m1 \<leftarrow> wr m a s; memset_loop s (a + 1) n' m1 } else Some m)"

definition memset :: "nat \<Rightarrow> u32 \<Rightarrow> u32 \<Rightarrow> cmem \<Rightarrow> (nat \<times> cmem) option" where
  "memset dst s n m = do { m1 \<leftarrow> memset_loop (ucast s) dst (n + 1) m; Some (dst, m1) }"

partial_function (option) memcpy_loop :: "nat \<Rightarrow> nat \<Rightarrow> u32 \<Rightarrow> cmem \<Rightarrow> cmem option" where
  [code]: "memcpy_loop d s n m = (let n' = n - 1 in
     if n' \<noteq> 0 then do { c \<leftarrow> rd m s; m1 \<leftarrow> wr m d c; memcpy_loop (d + 1) (s + 1) n' m1 } else Some m)"

definition ulibc_memcpy :: "nat \<Rightarrow> nat \<Rightarrow> u32 \<Rightarrow> cmem \<Rightarrow> (nat \<times> cmem) option" where
  "ulibc_memcpy dst src n m = do { m1 \<leftarrow> memcpy_loop dst src (n + 1) m; Some (dst, m1) }"

partial_function (option) memcmp_loop :: "nat \<Rightarrow> nat \<Rightarrow> u32 \<Rightarrow> cmem \<Rightarrow> int option" where
  [code]: "memcmp_loop d s n m = (let n' = n - 1 in
     if n' \<noteq> 0 then do {
       x \<leftarrow> rd m d; y \<leftarrow> rd m s;
       let r = sint x - sint y;
       if r \<noteq> 0 then Some r else memcmp_loop (d + 1) (s + 1) n' m }
     else Some 0)"

definition memcmp :: "nat \<Rightarrow> nat \<Rightarrow> u32 \<Rightarrow> cmem \<Rightarrow> int option" where
  "memcmp dst src n m = memcmp_loop dst src (n + 1) m"

primrec move_up :: "nat \<Rightarrow> nat \<Rightarrow> nat \<Rightarrow> cmem \<Rightarrow> cmem option" where
  "move_up 0 a b m = Some m"
| "move_up (Suc n) a b m = do { c \<leftarrow> rd m b; m1 \<leftarrow> wr m a c; move_up n (a + 1) (b + 1) m1 }"

primrec move_down :: "nat \<Rightarrow> nat \<Rightarrow> nat \<Rightarrow> cmem \<Rightarrow> cmem option" where
  "move_down 0 a b m = Some m"
| "move_down (Suc n) a b m = do { c \<leftarrow> rd m b; m1 \<leftarrow> wr m a c; move_down n (a - 1) (b - 1) m1 }"

definition memmove :: "nat \<Rightarrow> nat \<Rightarrow> u32 \<Rightarrow> cmem \<Rightarrow> (nat \<times> cmem) option" where
  "memmove dst src n m = do {
     m1 \<leftarrow> (if src \<noteq> dst then
              if src > dst then move_up (unat n) dst src m
              else move_down (unat n) (dst + unat n - 1) (src + unat n - 1) m
            else Some m);
     Some (dst, m1) }"

primrec memccpy_loop :: "nat \<Rightarrow> nat \<Rightarrow> nat \<Rightarrow> int \<Rightarrow> cmem \<Rightarrow> (nat \<times> cmem) option" where
  "memccpy_loop 0 a b c m = Some (0, m)"
| "memccpy_loop (Suc n) a b c m = do {
     x \<leftarrow> rd m b; m1 \<leftarrow> wr m a x;
     y \<leftarrow> rd m1 b;
     if sint y = c then Some (a + 1, m1) else memccpy_loop n (a + 1) (b + 1) c m1 }"

definition memccpy :: "nat \<Rightarrow> nat \<Rightarrow> int \<Rightarrow> u32 \<Rightarrow> cmem \<Rightarrow> (nat \<times> cmem) option" where
  "memccpy dst src c n m = memccpy_loop (unat n) dst src c m"

primrec memchr_loop :: "nat \<Rightarrow> nat \<Rightarrow> int \<Rightarrow> cmem \<Rightarrow> nat option" where
  "memchr_loop 0 pc c m = Some 0"
| "memchr_loop (Suc n) pc c m = do { x \<leftarrow> rd m pc; if uint x = c then Some pc else memchr_loop n (pc + 1) c m }"

definition memchr :: "nat \<Rightarrow> int \<Rightarrow> u32 \<Rightarrow> cmem \<Rightarrow> nat option" where
  "memchr s c n m = memchr_loop (unat n) s c m"

section \<open>Strings\<close>

partial_function (option) strlen_loop :: "nat \<Rightarrow> u32 \<Rightarrow> cmem \<Rightarrow> u32 option" where
  [code]: "strlen_loop s i m = do { c \<leftarrow> rd m s; if c \<noteq> 0 then strlen_loop (s + 1) (i + 1) m else Some i }"

definition strlen :: "nat \<Rightarrow> cmem \<Rightarrow> u32 option" where
  "strlen s m = (if s = 0 then Some 0 else strlen_loop s 0 m)"

partial_function (option) strcpy_loop :: "nat \<Rightarrow> nat \<Rightarrow> cmem \<Rightarrow> cmem option" where
  [code]: "strcpy_loop a src m = do { c \<leftarrow> rd m src; m1 \<leftarrow> wr m a c; if c \<noteq> 0 then strcpy_loop (a + 1) (src + 1) m1 else Some m1 }"

definition strcpy :: "nat \<Rightarrow> nat \<Rightarrow> cmem \<Rightarrow> (nat \<times> cmem) option" where
  "strcpy dst src m = do { m1 \<leftarrow> strcpy_loop dst src m; Some (dst, m1) }"

text \<open>n steps at most; the result is the count j at the end.\<close>

primrec strncpy_loop :: "nat \<Rightarrow> nat \<Rightarrow> nat \<Rightarrow> nat \<Rightarrow> cmem \<Rightarrow> (nat \<times> cmem) option" where
  "strncpy_loop 0 dest src j m = Some (j, m)"
| "strncpy_loop (Suc k) dest src j m = do {
     c \<leftarrow> rd m (src + j);
     if c \<noteq> 0 then do { m1 \<leftarrow> wr m (dest + j) c; strncpy_loop k dest src (j + 1) m1 } else Some (j, m) }"

text \<open>For n = 0 the last store goes to dest + 2 ^ 32 - 1, which is the byte before dest.\<close>

definition strncpy :: "nat \<Rightarrow> nat \<Rightarrow> u32 \<Rightarrow> cmem \<Rightarrow> (nat \<times> cmem) option" where
  "strncpy dest src n m = do {
     (_, m0) \<leftarrow> memset dest 0 n m;
     (j, m1) \<leftarrow> strncpy_loop (unat n) dest src 0 m0;
     m2 \<leftarrow> (if j \<ge> unat n then wr m1 (dest + unat n - 1) 0 else Some m1);
     Some (dest, m2) }"

definition strcat :: "nat \<Rightarrow> nat \<Rightarrow> cmem \<Rightarrow> (nat \<times> cmem) option" where
  "strcat s t m = do { l \<leftarrow> strlen s m; m1 \<leftarrow> strcpy_loop (s + unat l) t m; Some (s, m1) }"

partial_function (option) strcmp :: "nat \<Rightarrow> nat \<Rightarrow> cmem \<Rightarrow> int option" where
  [code]: "strcmp s t m = do {
     x \<leftarrow> rd m s; y \<leftarrow> rd m t;
     if x \<noteq> y \<or> x = 0 then Some (uint x - uint y) else strcmp (s + 1) (t + 1) m }"

primrec strncmp_loop :: "nat \<Rightarrow> nat \<Rightarrow> nat \<Rightarrow> cmem \<Rightarrow> int option" where
  "strncmp_loop 0 a b m = Some 0"
| "strncmp_loop (Suc k) a b m = do {
     x \<leftarrow> rd m a; y \<leftarrow> rd m b;
     let res = uint x - uint y;
     if res \<noteq> 0 then Some res else if x = 0 then Some 0 else strncmp_loop k (a + 1) (b + 1) m }"

definition strncmp :: "nat \<Rightarrow> nat \<Rightarrow> u32 \<Rightarrow> cmem \<Rightarrow> int option" where
  "strncmp s1 s2 n m = strncmp_loop (unat n) s1 s2 m"

partial_function (option) strrchr_loop :: "nat \<Rightarrow> u8 \<Rightarrow> nat \<Rightarrow> cmem \<Rightarrow> nat option" where
  [code]: "strrchr_loop t ch l m = do {
     c \<leftarrow> rd m t;
     let l' = (if c = ch then t else l);
     if c = 0 then Some l' else strrchr_loop (t + 1) ch l' m }"

definition strrchr :: "nat \<Rightarrow> u32 \<Rightarrow> cmem \<Rightarrow> nat option" where
  "strrchr t c m = strrchr_loop t (ucast c) 0 m"

partial_function (option) strchr_loop :: "nat \<Rightarrow> u8 \<Rightarrow> cmem \<Rightarrow> nat option" where
  [code]: "strchr_loop t ch m = do { c \<leftarrow> rd m t; if c = ch then Some t else if c = 0 then Some 0 else strchr_loop (t + 1) ch m }"

definition strchr :: "nat \<Rightarrow> u32 \<Rightarrow> cmem \<Rightarrow> nat option" where
  "strchr t c m = strchr_loop t (ucast c) m"

text \<open>i counts the places that are left.\<close>

primrec strstr_loop :: "nat \<Rightarrow> nat \<Rightarrow> nat \<Rightarrow> u32 \<Rightarrow> cmem \<Rightarrow> nat option" where
  "strstr_loop 0 h needle nl m = Some 0"
| "strstr_loop (Suc i) h needle nl m = do {
     x \<leftarrow> rd m h; y \<leftarrow> rd m needle;
     r \<leftarrow> (if x = y then memcmp h needle nl m else Some 1);
     if r = 0 then Some h else strstr_loop i (h + 1) needle nl m }"

definition strstr :: "nat \<Rightarrow> nat \<Rightarrow> cmem \<Rightarrow> nat option" where
  "strstr haystack needle m = do {
     nl \<leftarrow> strlen needle m; hl \<leftarrow> strlen haystack m;
     if nl = 0 then Some haystack
     else if nl > hl then Some 0
     else strstr_loop (unat (hl - nl + 1)) haystack needle nl m }"

definition strncat_end :: "nat \<Rightarrow> cmem \<Rightarrow> cmem option" where
  "strncat_end s m = wr m s 0"

partial_function (option) strncat_loop :: "nat \<Rightarrow> nat \<Rightarrow> nat \<Rightarrow> cmem \<Rightarrow> cmem option" where
  [code]: "strncat_loop s t fin m = do {
     c \<leftarrow> rd m t; m1 \<leftarrow> wr m s c;
     if c = 0 then strncat_end s m1
     else if s + 1 = fin then strncat_end (s + 1) m1
     else strncat_loop (s + 1) (t + 1) fin m1 }"

definition strncat :: "nat \<Rightarrow> nat \<Rightarrow> u32 \<Rightarrow> cmem \<Rightarrow> (nat \<times> cmem) option" where
  "strncat s t n m = do {
     l \<leftarrow> strlen s m;
     if n = 0 then Some (s, m)
     else do { m1 \<leftarrow> strncat_loop (s + unat l) t (s + unat l + unat n) m; Some (s, m1) } }"

definition strdup :: "(u32 \<Rightarrow> cmem \<Rightarrow> (nat \<times> cmem) option) \<Rightarrow> nat \<Rightarrow> cmem \<Rightarrow> (nat \<times> cmem) option" where
  "strdup alloc s m = do {
     l \<leftarrow> strlen s m;
     (tmp, m1) \<leftarrow> alloc (l + 1) m;
     if tmp = 0 then Some (0, m1) else do { (_, m2) \<leftarrow> strcpy tmp s m1; Some (tmp, m2) } }"

definition strerror :: "'a list \<Rightarrow> 'a \<Rightarrow> int \<Rightarrow> 'a option" where
  "strerror errstr unknown err =
    (if length errstr = 2 then rd errstr 1
     else if 0 \<le> err \<and> err < int (length errstr) then rd errstr (nat err) else Some unknown)"

section \<open>Tokens\<close>

primrec one_of :: "nat \<Rightarrow> u8 \<Rightarrow> nat \<Rightarrow> cmem \<Rightarrow> bool option" where
  "one_of 0 c p m = Some False"
| "one_of (Suc k) c p m = do { x \<leftarrow> rd m p; if c = x then Some True else one_of k c (p + 1) m }"

partial_function (option) strspn_loop :: "nat \<Rightarrow> nat \<Rightarrow> u32 \<Rightarrow> u32 \<Rightarrow> cmem \<Rightarrow> u32 option" where
  [code]: "strspn_loop s acc al l m = do {
     c \<leftarrow> rd m s;
     if c = 0 then Some l
     else do { a \<leftarrow> one_of (unat al) c acc m; if a then strspn_loop (s + 1) acc al (l + 1) m else Some l } }"

definition strspn :: "nat \<Rightarrow> nat \<Rightarrow> cmem \<Rightarrow> u32 option" where
  "strspn s acc m = do { al \<leftarrow> strlen acc m; strspn_loop s acc al 0 m }"

partial_function (option) strcspn_loop :: "nat \<Rightarrow> nat \<Rightarrow> u32 \<Rightarrow> u32 \<Rightarrow> cmem \<Rightarrow> u32 option" where
  [code]: "strcspn_loop s reject al l m = do {
     c \<leftarrow> rd m s;
     if c = 0 then Some l
     else do { a \<leftarrow> one_of (unat al) c reject m; if a then Some l else strcspn_loop (s + 1) reject al (l + 1) m } }"

definition strcspn :: "nat \<Rightarrow> nat \<Rightarrow> cmem \<Rightarrow> u32 option" where
  "strcspn s reject m = do { al \<leftarrow> strlen reject m; strcspn_loop s reject al 0 m }"

text \<open>pos is what ptrptr points to; the result is the token, the new pos and the memory.\<close>

definition strtok_r :: "nat \<Rightarrow> nat \<Rightarrow> nat \<Rightarrow> cmem \<Rightarrow> (nat \<times> nat \<times> cmem) option" where
  "strtok_r s delim pos m = do {
     let s0 = (if s = 0 then pos else s);
     k \<leftarrow> strspn s0 delim m;
     let s1 = s0 + unat k;
     c \<leftarrow> rd m s1;
     if c \<noteq> 0 then do {
       l \<leftarrow> strcspn s1 delim m;
       let s2 = s1 + unat l;
       e \<leftarrow> rd m s2;
       if e \<noteq> 0 then do { m1 \<leftarrow> wr m s2 0; Some (s1, s2 + 1, m1) } else Some (s1, s2, m) }
     else Some (0, s1, m) }"

text \<open>pos is strtok_pos.\<close>

definition strtok :: "nat \<Rightarrow> nat \<Rightarrow> nat \<Rightarrow> cmem \<Rightarrow> (nat \<times> nat \<times> cmem) option" where
  "strtok s delim pos m = strtok_r s delim pos m"

section \<open>Classes of characters\<close>

definition in_range :: "int \<Rightarrow> int \<Rightarrow> u32 \<Rightarrow> bool" where
  "in_range ch a n \<longleftrightarrow> of_int (ch - a) < n"

definition isdigit_ulibc :: "int \<Rightarrow> bool" where "isdigit_ulibc ch \<longleftrightarrow> in_range ch 48 10"
definition isspace :: "int \<Rightarrow> bool" where "isspace ch \<longleftrightarrow> in_range ch 9 5 \<or> ch = 32"
definition isxdigit :: "int \<Rightarrow> bool" where "isxdigit ch \<longleftrightarrow> in_range ch 48 10 \<or> in_range (ch OR 0x20) 97 6"
definition isalnum :: "int \<Rightarrow> bool" where "isalnum ch \<longleftrightarrow> in_range (ch OR 0x20) 97 26 \<or> in_range ch 48 10"
definition isupper :: "int \<Rightarrow> bool" where "isupper ch \<longleftrightarrow> 65 \<le> ch \<and> ch \<le> 90"
definition islower :: "int \<Rightarrow> bool" where "islower ch \<longleftrightarrow> 97 \<le> ch \<and> ch \<le> 122"
definition isalpha :: "int \<Rightarrow> bool" where "isalpha ch \<longleftrightarrow> in_range (ch OR 0x20) 97 26"
definition isblank :: "int \<Rightarrow> bool" where "isblank ch \<longleftrightarrow> ch = 32 \<or> ch = 9"
definition iscntrl :: "int \<Rightarrow> bool" where "iscntrl ch \<longleftrightarrow> in_range ch 0 32 \<or> ch = 127"
definition isgraph :: "int \<Rightarrow> bool" where "isgraph ch \<longleftrightarrow> in_range ch 33 94"
definition isprint :: "int \<Rightarrow> bool" where "isprint ch \<longleftrightarrow> (let c = ch AND 0x7F in 32 \<le> c \<and> c < 127)"
definition ispunct :: "int \<Rightarrow> bool" where "ispunct ch \<longleftrightarrow> isprint ch \<and> \<not> isalnum ch \<and> \<not> isspace ch"
definition toupper :: "int \<Rightarrow> int" where "toupper ch = (if in_range ch 97 26 then ch + (65 - 97) else ch)"
definition tolower :: "int \<Rightarrow> int" where "tolower ch = (if in_range ch 65 26 then ch + (97 - 65) else ch)"

section \<open>Paths (libgen.c)\<close>

partial_function (option) basename :: "nat \<Rightarrow> cmem \<Rightarrow> (nat \<times> cmem) option" where
  [code]: "basename path m = do {
     c \<leftarrow> strrchr path 47 m;
     if c = 0 then Some (path, m)
     else do {
       x \<leftarrow> rd m (c + 1);
       if x = 0 then
         (if c = path then Some (c, m) else do { m1 \<leftarrow> wr m c 0; basename path m1 })
       else Some (c + 1, m) } }"

text \<open>The first loop stops at path; the second does not look for it.\<close>

partial_function (option) strip_slashes :: "nat \<Rightarrow> nat \<Rightarrow> cmem \<Rightarrow> cmem option" where
  [code]: "strip_slashes path c m = do {
     x \<leftarrow> rd m c;
     if x = 47 \<and> c \<noteq> path then do { m1 \<leftarrow> wr m c 0; strip_slashes path (c - 1) m1 } else Some m }"

partial_function (option) strip_all :: "nat \<Rightarrow> cmem \<Rightarrow> cmem option" where
  [code]: "strip_all c m = do { x \<leftarrow> rd m c; if x = 47 then do { m1 \<leftarrow> wr m c 0; strip_all (c - 1) m1 } else Some m }"

partial_function (option) dirname_loop :: "nat \<Rightarrow> nat \<Rightarrow> cmem \<Rightarrow> (nat \<times> cmem) option" where
  [code]: "dirname_loop dot path m = do {
     c \<leftarrow> strrchr path 47 m;
     if c = 0 then Some (dot, m)
     else do {
       x \<leftarrow> rd m (c + 1);
       if x = 0 \<and> c \<noteq> path then do { m1 \<leftarrow> strip_slashes path c m; dirname_loop dot path m1 }
       else do {
         m1 \<leftarrow> (if c \<noteq> path then strip_all c m else wr m (path + 1) 0);
         Some (path, m1) } } }"

definition dirname :: "nat \<Rightarrow> nat \<Rightarrow> cmem \<Rightarrow> (nat \<times> cmem) option" where
  "dirname dot path m = (if path = 0 then Some (dot, m) else dirname_loop dot path m)"

end
