(* ===== verification/PStdlib.thy ===== *)
theory PStdlib
  imports PString
begin

unbundle bit_operations_syntax

text \<open>
  Numbers in PaRTiKle's C library: strtoul, strtol, atoi (user/ulibc/libc/stdlib.c), the
  inverse __ltostr and __lltostr (stdarg.c), and atexit and exit.  unsigned long has 32
  bits.  endptr is None for NULL and Some of what it points to otherwise.
\<close>

section \<open>From text to numbers\<close>

partial_function (option) skip_space :: "nat \<Rightarrow> cmem \<Rightarrow> nat option" where
  [code]: "skip_space p m = do { c \<leftarrow> rd m p; if isspace (sint c) then skip_space (p + 1) m else Some p }"

definition digit_value :: "u8 \<Rightarrow> u8" where
  "digit_value c = (if c \<ge> 97 then c - 97 + 10 else if c \<ge> 65 then c - 65 + 10 else if c \<le> 57 then c - 48 else 0xff)"

text \<open>The digits: where they end, their value and whether it overflowed.\<close>

partial_function (option) strtoul_loop :: "nat \<Rightarrow> int \<Rightarrow> u32 \<Rightarrow> bool \<Rightarrow> cmem \<Rightarrow> (nat \<times> u32 \<times> bool) option" where
  [code]: "strtoul_loop nptr base v overflow m = do {
     x0 \<leftarrow> rd m nptr;
     let c = digit_value x0;
     if x0 = 0 \<or> uint c \<ge> base then Some (nptr, v, overflow)
     else do {
       let x = (v AND 0xff) * of_int base + ucast c;
       let w = drop_bit 8 v * of_int base + drop_bit 8 x;
       strtoul_loop (nptr + 1) base (push_bit 8 w + (x AND 0xff)) (overflow \<or> w > drop_bit 8 0xFFFFFFFF) m } }"

definition skip_sign :: "nat \<Rightarrow> cmem \<Rightarrow> (bool \<times> nat) option" where
  "skip_sign p m = do { c \<leftarrow> rd m p; Some (if c = 45 then (True, p + 1) else if c = 43 then (False, p + 1) else (False, p)) }"

definition skip0x :: "nat \<Rightarrow> int \<Rightarrow> cmem \<Rightarrow> (nat \<times> int) option" where
  "skip0x nptr base m = do {
     x \<leftarrow> rd m (nptr + 1);
     if x = 120 \<or> x = 88 then do {
       h \<leftarrow> rd m (nptr + 2);
       Some (if isxdigit (sint h) then (nptr + 2, 16) else (nptr, base)) }
     else Some (nptr, base) }"

text \<open>The base and the first digit; None inside for a base out of range.\<close>

definition strtoul_base :: "nat \<Rightarrow> int \<Rightarrow> cmem \<Rightarrow> (nat \<times> int) option option" where
  "strtoul_base nptr base m = do {
     c \<leftarrow> rd m nptr;
     if base = 16 \<and> c = 48 then map_option Some (skip0x nptr base m)
     else if base \<noteq> 0 then
       (if (of_int (base - 2) :: u32) > 34 then Some None else Some (Some (nptr, base)))
     else if c = 48 then map_option Some (skip0x nptr 8 m)
     else Some (Some (nptr, 10)) }"

definition strtoul :: "nat \<Rightarrow> nat option \<Rightarrow> int \<Rightarrow> cmem \<Rightarrow> (u32 \<times> nat option) option" where
  "strtoul ptr endptr base m = do {
     p \<leftarrow> skip_space ptr m;
     (neg, orig) \<leftarrow> skip_sign p m;
     b \<leftarrow> strtoul_base orig base m;
     case b of
       None \<Rightarrow> Some (0, endptr)
     | Some (p1, base') \<Rightarrow> do {
         (p2, v, overflow) \<leftarrow> strtoul_loop p1 base' 0 False m;
         let (p3, v') = (if p2 = orig then (ptr, 0) else (p2, v));
         let e = map_option (\<lambda>_. p3) endptr;
         Some (if overflow then 0xFFFFFFFF else if neg then - v' else v', e) } }"

definition strtol :: "nat \<Rightarrow> nat option \<Rightarrow> int \<Rightarrow> cmem \<Rightarrow> (int \<times> nat option) option" where
  "strtol orig endptr base m = do {
     p \<leftarrow> skip_space orig m;
     c \<leftarrow> rd m p;
     neg \<leftarrow> (if c = 45 then do { d \<leftarrow> rd m (p + 1); Some (isalnum (sint d)) } else Some False);
     let nptr = (if neg then p + 1 else p);
     (v, e) \<leftarrow> strtoul nptr endptr base m;
     let e' = (if e = Some nptr then Some orig else e);
     Some (if v \<ge> 2147483648 then
             if v = 2147483648 \<and> neg then sint v
             else if neg then - 2147483648 else 2147483647
           else if neg then sint (- v) else sint v, e') }"

partial_function (option) atoi_loop :: "nat \<Rightarrow> u32 \<Rightarrow> cmem \<Rightarrow> u32 option" where
  [code]: "atoi_loop s v m = do {
     c \<leftarrow> rd m s;
     if in_range (sint c) 48 10 then atoi_loop (s + 1) (v * 10 + (scast c) - 48) m else Some v }"

definition atoi :: "nat \<Rightarrow> cmem \<Rightarrow> int option" where
  "atoi s m = do {
     p \<leftarrow> skip_space s m;
     c \<leftarrow> rd m p;
     v \<leftarrow> atoi_loop (if c = 45 \<or> c = 43 then p + 1 else p) 0 m;
     Some (if c = 45 then sint (- v) else sint v) }"

section \<open>From numbers to text\<close>

definition digit_char :: "nat \<Rightarrow> bool \<Rightarrow> u8" where
  "digit_char d up = (let c = of_nat d + 48 in if sint c > 57 then c + ((if up then 65 else 97) - 57 - 1) else c)"

text \<open>tmp runs down to s; the loop stores what i leaves modulo base, then the next digit.\<close>

partial_function (option) tostr_loop :: "nat \<Rightarrow> nat \<Rightarrow> 'w::len word \<Rightarrow> 'w word \<Rightarrow> bool \<Rightarrow> u32 \<Rightarrow> cmem \<Rightarrow> (nat \<times> u32 \<times> cmem) option" where
  [code]: "tostr_loop s tmp i base up j m =
    (if tmp > s \<and> i \<noteq> 0 then do {
       m1 \<leftarrow> wr m (tmp - 1) (digit_char (unat (i mod base)) up);
       tostr_loop s (tmp - 1) (i div base) base up (j + 1) m1 }
     else Some (tmp, j, m))"

definition ltostr :: "nat \<Rightarrow> u32 \<Rightarrow> u32 \<Rightarrow> u32 \<Rightarrow> bool \<Rightarrow> cmem \<Rightarrow> (u32 \<times> cmem) option" where
  "ltostr s sz i base up m = do {
     let tmp = s + unat (sz - 1);
     m0 \<leftarrow> wr m tmp 0;
     let b = (if base = 0 \<or> base > 36 then 10 else base);
     (tmp1, j1, m1) \<leftarrow> (if i = 0 then do { m1 \<leftarrow> wr m0 (tmp - 1) 48; Some (tmp - 1, 1, m1) } else Some (tmp, 0, m0));
     (tmp2, j, m2) \<leftarrow> tostr_loop s tmp1 i b up j1 m1;
     (_, m3) \<leftarrow> memmove s tmp2 (j + 1) m2;
     Some (j, m3) }"

definition lltostr :: "nat \<Rightarrow> u32 \<Rightarrow> 64 word \<Rightarrow> u32 \<Rightarrow> bool \<Rightarrow> cmem \<Rightarrow> (u32 \<times> cmem) option" where
  "lltostr s sz i base up m = do {
     let tmp = s + unat (sz - 1);
     m0 \<leftarrow> wr m tmp 0;
     let b = (if base = 0 \<or> sint base > 36 then 10 else base);
     (tmp1, j1, m1) \<leftarrow> (if i = 0 then do { m1 \<leftarrow> wr m0 (tmp - 1) 48; Some (tmp - 1, 1, m1) } else Some (tmp, 0, m0));
     (tmp2, j, m2) \<leftarrow> tostr_loop s tmp1 i (scast b) up j1 m1;
     (_, m3) \<leftarrow> memmove s tmp2 (j + 1) m2;
     Some (j, m3) }"

section \<open>The end of the program\<close>

definition ATEXIT_MAX :: nat where "ATEXIT_MAX = 32"

record 'f exits =
  atexit_func :: "'f option list"
  atexit_nr :: nat

definition exits_init :: "'f exits" where
  "exits_init = \<lparr>atexit_func = replicate ATEXIT_MAX None, atexit_nr = 0\<rparr>"

definition atexit :: "'f \<Rightarrow> 'f exits \<Rightarrow> (int \<times> 'f exits) option" where
  "atexit f e =
    (if atexit_nr e < ATEXIT_MAX then do {
       fs \<leftarrow> wr (atexit_func e) (atexit_nr e) (Some f);
       Some (0, e\<lparr>atexit_func := fs, atexit_nr := atexit_nr e + 1\<rparr>) }
     else Some (-1, e))"

text \<open>run calls a function, which may register others; a call of NULL faults.\<close>

primrec exit_loop :: "('f \<Rightarrow> 'f exits \<times> 'w \<Rightarrow> ('f exits \<times> 'w) option) \<Rightarrow> nat \<Rightarrow> 'f exits \<times> 'w \<Rightarrow> ('f exits \<times> 'w) option" where
  "exit_loop run 0 s = Some s"
| "exit_loop run (Suc n) s = do { f \<leftarrow> rd (atexit_func (fst s)) n; g \<leftarrow> f; s1 \<leftarrow> run g s; exit_loop run n s1 }"

text \<open>What is left is _exit (status).\<close>

definition exit :: "('f \<Rightarrow> 'f exits \<times> 'w \<Rightarrow> ('f exits \<times> 'w) option) \<Rightarrow> 'f exits \<times> 'w \<Rightarrow> ('f exits \<times> 'w) option" where
  "exit run s = exit_loop run (atexit_nr (fst s)) s"

end
