(* ===== verification/PFormat.thy ===== *)
theory PFormat
  imports PStdlib
begin

unbundle bit_operations_syntax

text \<open>
  Formatted output of PaRTiKle's C library (user/ulibc/libc/stdarg.c).  The list of
  arguments is the stack of 32-bit words; the array buf of __v_printf and the text
  "(null)" lie in the memory, at the addresses of the environment.  The pad lines and
  the character of c go to put as bytes.  The conversions f and g (and __dtostr, on
  doubles) are left out: the model stops there.
\<close>

record penv =
  env_buf :: nat
  env_null :: nat

record pflags =
  flag_in_sign :: int
  flag_upcase :: bool
  flag_hash :: int
  flag_left :: bool
  flag_space :: bool
  flag_sign :: bool
  flag_dot :: bool
  flag_long :: int
  fmt_width :: u32
  fmt_preci :: u32
  fmt_padwith :: u8

definition pflags_init :: pflags where
  "pflags_init = \<lparr>flag_in_sign = 0, flag_upcase = False, flag_hash = 0, flag_left = False, flag_space = False,
     flag_sign = False, flag_dot = False, flag_long = 0, fmt_width = 0, fmt_preci = 0, fmt_padwith = 32\<rparr>"

text \<open>fn->put with fn->data: what it does to its data 'd and to the memory.\<close>

type_synonym 'd put = "u8 list \<Rightarrow> 'd \<times> cmem \<Rightarrow> ('d \<times> cmem) option"

text \<open>len and the rest of the state.\<close>

type_synonym 'd out = "u32 \<times> 'd \<times> cmem"

definition read_block :: "cmem \<Rightarrow> nat \<Rightarrow> nat \<Rightarrow> u8 list option" where
  "read_block m p n = (if p + n \<le> length m then Some (take n (drop p m)) else None)"

definition va_arg :: "u32 list \<Rightarrow> (u32 \<times> u32 list) option" where
  "va_arg args = (case args of [] \<Rightarrow> None | a # as \<Rightarrow> Some (a, as))"

definition va_arg_ll :: "u32 list \<Rightarrow> (64 word \<times> u32 list) option" where
  "va_arg_ll args = do { (lo, a1) \<leftarrow> va_arg args; (hi, a2) \<leftarrow> va_arg a1; Some (push_bit 32 (ucast hi) + ucast lo, a2) }"

definition schar :: "int \<Rightarrow> int" where
  "schar x = sint (of_int x :: u8)"

section \<open>Pieces of output\<close>

partial_function (option) skip_to_loop :: "nat \<Rightarrow> nat \<Rightarrow> cmem \<Rightarrow> nat option" where
  [code]: "skip_to_loop format nr m = do {
     c \<leftarrow> rd m (format + nr);
     if c \<noteq> 0 \<and> c \<noteq> 37 then skip_to_loop format (nr + 1) m else Some nr }"

definition skip_to :: "nat \<Rightarrow> cmem \<Rightarrow> nat option" where
  "skip_to format m = skip_to_loop format 0 m"

text \<open>A_WRITE of n bytes at p, and len += n.\<close>

definition emit :: "'d put \<Rightarrow> nat \<Rightarrow> nat \<Rightarrow> 'd out \<Rightarrow> 'd out option" where
  "emit put p n o1 = (case o1 of (len, st) \<Rightarrow> do {
     bs \<leftarrow> read_block (snd st) p n;
     st1 \<leftarrow> put bs st;
     Some (len + of_nat n, st1) })"

definition pad_char :: "u8 \<Rightarrow> u8" where
  "pad_char padwith = (if padwith = 48 then 48 else 32)"

partial_function (option) write_pad_loop :: "'d put \<Rightarrow> int \<Rightarrow> u8 \<Rightarrow> u32 \<Rightarrow> 'd \<times> cmem \<Rightarrow> (u32 \<times> 'd \<times> cmem) option" where
  [code]: "write_pad_loop put len padwith nr st =
    (if len > 15 then do {
       st1 \<leftarrow> put (replicate 16 (pad_char padwith)) st;
       write_pad_loop put (len - 16) padwith (nr + 16) st1 }
     else if len > 0 then do {
       st1 \<leftarrow> put (replicate (nat len) (pad_char padwith)) st;
       Some (nr + of_int len, st1) }
     else Some (nr, st))"

text \<open>len += write_pad (...).\<close>

definition write_pad :: "'d put \<Rightarrow> int \<Rightarrow> u8 \<Rightarrow> 'd out \<Rightarrow> 'd out option" where
  "write_pad put n padwith o1 = (case o1 of (len, st) \<Rightarrow> do {
     (nr, st1) \<leftarrow> write_pad_loop put n padwith 0 st;
     Some (len + nr, st1) })"

text \<open>The label print_out.\<close>

definition print_out :: "'d put \<Rightarrow> nat \<Rightarrow> u32 \<Rightarrow> pflags \<Rightarrow> 'd out \<Rightarrow> 'd out option" where
  "print_out put s sz f o1 =
    (if fmt_width f = 0 \<and> fmt_preci f = 0 then emit put s (unat sz) o1
     else
       let todo = (if flag_hash f > 0 then nat (flag_hash f) else if flag_in_sign f \<noteq> 0 then 1 else 0);
           s1 = s + todo; sz1 = sz - of_nat todo; width = fmt_width f - of_nat todo;
           preci = fmt_preci f;
           vs = (if preci > sz1 then preci else sz1);
           put_sign = (\<lambda>o2. if todo \<noteq> 0 then emit put s todo o2 else Some o2)
       in if \<not> flag_left f then
            if flag_dot f then do {
              o2 \<leftarrow> write_pad put (sint (width - vs)) 32 o1;
              o3 \<leftarrow> put_sign o2;
              o4 \<leftarrow> write_pad put (sint (preci - sz1)) 48 o3;
              emit put s1 (unat sz1) o4 }
            else do {
              o2 \<leftarrow> (if fmt_padwith f = 48 then put_sign o1 else Some o1);
              o3 \<leftarrow> write_pad put (sint (width - sz1)) (fmt_padwith f) o2;
              o4 \<leftarrow> (if fmt_padwith f = 48 then Some o3 else put_sign o3);
              emit put s1 (unat sz1) o4 }
          else do {
            o2 \<leftarrow> put_sign o1;
            o3 \<leftarrow> write_pad put (sint (preci - sz1)) 48 o2;
            o4 \<leftarrow> emit put s1 (unat sz1) o3;
            write_pad put (sint (width - vs)) 32 o4 })"

section \<open>The flags of a conversion\<close>

text \<open>
  The label inn_printf: it reads flags, width and precision up to the character of the
  conversion; None there makes __v_printf return -1.
\<close>

partial_function (option) inn_printf :: "nat \<Rightarrow> u32 list \<Rightarrow> pflags \<Rightarrow> cmem \<Rightarrow> (u8 option \<times> nat \<times> u32 list \<times> pflags) option" where
  [code]: "inn_printf format args f m = do {
     ch \<leftarrow> rd m format;
     if ch = 0 then Some (None, format + 1, args, f)
     else if ch = 35 then inn_printf (format + 1) args (f\<lparr>flag_hash := -1\<rparr>) m
     else if ch = 122 then inn_printf (format + 1) args f m
     else if ch = 104 then inn_printf (format + 1) args (f\<lparr>flag_long := schar (flag_long f - 1)\<rparr>) m
     else if ch = 113 \<or> ch = 76 then inn_printf (format + 1) args (f\<lparr>flag_long := schar (flag_long f + 2)\<rparr>) m
     else if ch = 108 then inn_printf (format + 1) args (f\<lparr>flag_long := schar (flag_long f + 1)\<rparr>) m
     else if ch = 45 then inn_printf (format + 1) args (f\<lparr>flag_left := True\<rparr>) m
     else if ch = 32 then inn_printf (format + 1) args (f\<lparr>flag_space := True\<rparr>) m
     else if ch = 43 then inn_printf (format + 1) args (f\<lparr>flag_sign := True\<rparr>) m
     else if 48 \<le> ch \<and> ch \<le> 57 then
       (if flag_dot f then Some (None, format + 1, args, f)
        else do {
          (w, e) \<leftarrow> strtoul format (Some 0) 10 m;
          s \<leftarrow> e;
          inn_printf s args (f\<lparr>fmt_width := w, fmt_padwith := (if ch = 48 \<and> \<not> flag_left f then 48 else fmt_padwith f)\<rparr>) m })
     else if ch = 42 then do {
       (a, args1) \<leftarrow> va_arg args;
       inn_printf (format + 1) args1 (f\<lparr>fmt_width := a\<rparr>) m }
     else if ch = 46 then do {
       c \<leftarrow> rd m (format + 1);
       if c = 42 then do {
         (tmp, args1) \<leftarrow> va_arg args;
         inn_printf (format + 2) args1 (f\<lparr>flag_dot := True, fmt_preci := (if sint tmp < 0 then 0 else tmp)\<rparr>) m }
       else do {
         (tmp, e) \<leftarrow> strtol (format + 1) (Some 0) 10 m;
         s \<leftarrow> e;
         inn_printf s args (f\<lparr>flag_dot := True, fmt_preci := (if tmp < 0 then 0 else of_int tmp)\<rparr>) m } }
     else Some (Some ch, format + 1, args, f) }"

section \<open>Conversions\<close>

text \<open>The value of an integer conversion, made positive when it is signed.\<close>

definition num_value :: "pflags \<Rightarrow> u32 list \<Rightarrow> (u32 \<times> 64 word \<times> pflags \<times> u32 list) option" where
  "num_value f args = do {
     (number, ll, args1) \<leftarrow>
       (if flag_long f > 1 then do { (l, as) \<leftarrow> va_arg_ll args; Some (0, l, as) }
        else do { (n, as) \<leftarrow> va_arg args; Some (n, 0, as) });
     let (number1, ll1, f1) =
       (if flag_in_sign f \<noteq> 0 then
          if flag_long f > 1 \<and> sint ll < 0 then (number, - ll, f\<lparr>flag_in_sign := 2\<rparr>)
          else if sint number < 0 then (- number, ll, f\<lparr>flag_in_sign := 2\<rparr>)
          else (number, ll, f)
        else (number, ll, f));
     let number2 = (if flag_long f < 0 then number1 AND 0xffff else number1);
     let number3 = (if flag_long f < -1 then number2 AND 0xff else number2);
     Some (number3, ll1, f1, args1) }"

text \<open>When 0 is printed with a precision, no digit of it counts.\<close>

definition num_zero :: "pflags \<Rightarrow> u32 \<Rightarrow> u32 \<Rightarrow> u8 \<Rightarrow> u32 \<times> pflags" where
  "num_zero f sz retval c =
    (if flag_dot f \<and> retval = 1 \<and> c = 48 then
       (if fmt_preci f = 0 \<or> flag_hash f > 0 then 0 else sz, f\<lparr>flag_hash := 0\<rparr>)
     else (sz + retval, f))"

text \<open>The sign, before s.\<close>

definition num_sign :: "nat \<Rightarrow> u32 \<Rightarrow> pflags \<Rightarrow> cmem \<Rightarrow> (nat \<times> u32 \<times> pflags \<times> cmem) option" where
  "num_sign s sz f m =
    (if flag_in_sign f = 2 then do { m1 \<leftarrow> wr m (s - 1) 45; Some (s - 1, sz + 1, f, m1) }
     else if flag_in_sign f \<noteq> 0 \<and> (flag_sign f \<or> flag_space f) then do {
       m1 \<leftarrow> wr m (s - 1) (if flag_sign f then 43 else 32); Some (s - 1, sz + 1, f, m1) }
     else Some (s, sz, f\<lparr>flag_in_sign := 0\<rparr>, m))"

text \<open>The label num_printf: sz characters of a prefix are in buf + 1 already.\<close>

definition num_printf :: "penv \<Rightarrow> 'd put \<Rightarrow> u32 \<Rightarrow> u32 \<Rightarrow> pflags \<Rightarrow> u32 list \<Rightarrow> 'd out \<Rightarrow> (u32 list \<times> 'd out) option" where
  "num_printf en put base sz f args o1 = (case o1 of (len, d, m) \<Rightarrow> do {
     let s = env_buf en + 1;
     (number, ll, f1, args1) \<leftarrow> num_value f args;
     (retval, m1) \<leftarrow> (if flag_long f1 > 1 then lltostr (s + unat sz) 123 ll base (flag_upcase f1) m
                      else ltostr (s + unat sz) 123 number base (flag_upcase f1) m);
     c \<leftarrow> rd m1 (s + unat sz);
     let z = num_zero f1 sz retval c;
     (s2, sz2, f3, m2) \<leftarrow> num_sign s (fst z) (snd z) m1;
     o2 \<leftarrow> print_out put s2 sz2 f3 (len, d, m2);
     Some (args1, o2) })"

text \<open>The case s.\<close>

definition str_printf :: "penv \<Rightarrow> 'd put \<Rightarrow> pflags \<Rightarrow> u32 list \<Rightarrow> 'd out \<Rightarrow> (u32 list \<times> 'd out) option" where
  "str_printf en put f args o1 = do {
     (a, args1) \<leftarrow> va_arg args;
     let s = (if a = 0 then env_null en else unat a);
     sz \<leftarrow> strlen s (snd (snd o1));
     let sz1 = (if flag_dot f \<and> sz > fmt_preci f then fmt_preci f else sz);
     o2 \<leftarrow> print_out put s sz1 (f\<lparr>fmt_preci := 0, flag_dot := False, fmt_padwith := 32\<rparr>) o1;
     Some (args1, o2) }"

text \<open>The cases X and x; p falls into them.\<close>

definition hex_printf :: "penv \<Rightarrow> 'd put \<Rightarrow> u8 \<Rightarrow> pflags \<Rightarrow> u32 list \<Rightarrow> 'd out \<Rightarrow> (u32 list \<times> 'd out) option" where
  "hex_printf en put ch f args o1 = (case o1 of (len, d, m) \<Rightarrow> do {
     (f1, sz, m1) \<leftarrow>
       (if flag_hash f \<noteq> 0 then do {
          m0 \<leftarrow> wr m (env_buf en + 1) 48;
          m1 \<leftarrow> wr m0 (env_buf en + 2) ch;
          Some (f\<lparr>flag_hash := 2\<rparr>, 2, m1) }
        else Some (f, 0, m));
     num_printf en put 16 sz (f1\<lparr>fmt_width := (if fmt_preci f1 > fmt_width f1 then fmt_preci f1 else fmt_width f1)\<rparr>) args (len, d, m1) })"

definition oct_printf :: "penv \<Rightarrow> 'd put \<Rightarrow> pflags \<Rightarrow> u32 list \<Rightarrow> 'd out \<Rightarrow> (u32 list \<times> 'd out) option" where
  "oct_printf en put f args o1 = (case o1 of (len, d, m) \<Rightarrow>
     if flag_hash f \<noteq> 0 then do {
       m1 \<leftarrow> wr m (env_buf en + 1) 48;
       num_printf en put 8 1 (f\<lparr>flag_hash := 1\<rparr>) args (len, d, m1) }
     else num_printf en put 8 0 f args o1)"

definition put_char :: "'d put \<Rightarrow> u8 \<Rightarrow> 'd out \<Rightarrow> 'd out option" where
  "put_char put c o1 = (case o1 of (len, st) \<Rightarrow> do { st1 \<leftarrow> put [c] st; Some (len + 1, st1) })"

text \<open>The switch on the character of the conversion.\<close>

definition convert :: "penv \<Rightarrow> 'd put \<Rightarrow> u8 \<Rightarrow> pflags \<Rightarrow> u32 list \<Rightarrow> 'd out \<Rightarrow> (u32 list \<times> 'd out) option" where
  "convert en put ch f args o1 =
    (if ch = 99 then do { (a, as) \<leftarrow> va_arg args; o2 \<leftarrow> put_char put (ucast a) o1; Some (as, o2) }
     else if ch = 37 then do { o2 \<leftarrow> put_char put ch o1; Some (args, o2) }
     else if ch = 115 then str_printf en put f args o1
     else if ch = 98 then num_printf en put 2 0 f args o1
     else if ch = 112 then hex_printf en put 120 (f\<lparr>flag_hash := 2, flag_long := 1, flag_upcase := False\<rparr>) args o1
     else if ch = 88 then hex_printf en put ch (f\<lparr>flag_upcase := True\<rparr>) args o1
     else if ch = 120 then hex_printf en put ch f args o1
     else if ch = 100 \<or> ch = 105 then num_printf en put 10 0 (f\<lparr>flag_in_sign := 1\<rparr>) args o1
     else if ch = 117 then num_printf en put 10 0 f args o1
     else if ch = 111 then oct_printf en put f args o1
     else if ch = 102 \<or> ch = 103 then None
     else Some (args, o1))"

section \<open>__v_printf and vsnprintf\<close>

partial_function (option) v_printf :: "penv \<Rightarrow> 'd put \<Rightarrow> nat \<Rightarrow> u32 list \<Rightarrow> 'd out \<Rightarrow> (int \<times> 'd \<times> cmem) option" where
  [code]: "v_printf en put format args o1 = do {
     c \<leftarrow> rd (snd (snd o1)) format;
     if c = 0 then Some (sint (fst o1), snd o1)
     else do {
       sz \<leftarrow> skip_to format (snd (snd o1));
       o2 \<leftarrow> (if sz \<noteq> 0 then emit put format sz o1 else Some o1);
       c1 \<leftarrow> rd (snd (snd o2)) (format + sz);
       if c1 = 37 then do {
         (ch, format1, args1, f) \<leftarrow> inn_printf (format + sz + 1) args pflags_init (snd (snd o2));
         case ch of
           None \<Rightarrow> Some (-1, snd o2)
         | Some ch1 \<Rightarrow> do { (args2, o3) \<leftarrow> convert en put ch1 f args1 o2; v_printf en put format1 args2 o3 } }
       else v_printf en put (format + sz) args o2 } }"

record str_data =
  sd_str :: nat
  sd_len :: u32
  sd_size :: u32

definition swrite :: "str_data put" where
  "swrite bs st = (case st of (sd, m) \<Rightarrow>
     let tmp = sd_size sd - sd_len sd in
     if tmp > 0 then do {
       let len = (if length bs > unat tmp then unat tmp else length bs);
       m1 \<leftarrow> (if sd_str sd \<noteq> 0 then do {
                m0 \<leftarrow> memcpy m (sd_str sd + unat (sd_len sd)) bs 0 len;
                wr m0 (sd_str sd + unat (sd_len sd) + len) 0 }
              else Some m);
       Some (sd\<lparr>sd_len := sd_len sd + of_nat len\<rparr>, m1) }
     else Some (sd, m))"

definition vsnprintf :: "penv \<Rightarrow> nat \<Rightarrow> u32 \<Rightarrow> nat \<Rightarrow> u32 list \<Rightarrow> cmem \<Rightarrow> (int \<times> cmem) option" where
  "vsnprintf en str sz format args m = do {
     (n, sd, m1) \<leftarrow> v_printf en swrite format args (0, \<lparr>sd_str = str, sd_len = 0, sd_size = (if sz \<noteq> 0 then sz - 1 else 0)\<rparr>, m);
     m2 \<leftarrow> (if str \<noteq> 0 \<and> sz \<noteq> 0 \<and> n \<ge> 0 then
              if sz \<noteq> 0xFFFFFFFF \<and> n \<ge> uint sz then wr m1 (str + unat sz - 1) 0 else wr m1 (str + nat n) 0
            else Some m1);
     Some (n, m2) }"

definition vsprintf :: "penv \<Rightarrow> nat \<Rightarrow> nat \<Rightarrow> u32 list \<Rightarrow> cmem \<Rightarrow> (int \<times> cmem) option" where
  "vsprintf en dest format args m = vsnprintf en dest 0xFFFFFFFF format args m"

end
