(* ===== verification/PStringLib.thy ===== *)
theory PStringLib
  imports PString "HOL-Library.Sublist"
begin

unbundle bit_operations_syntax

text \<open>
  What the functions of string.c do, over the strings that the memory holds.
\<close>

section \<open>Strings in memory\<close>

primrec string_at :: "cmem \<Rightarrow> nat \<Rightarrow> u8 list \<Rightarrow> bool" where
  "string_at m p [] \<longleftrightarrow> p < length m \<and> m ! p = 0"
| "string_at m p (x # xs) \<longleftrightarrow> x \<noteq> 0 \<and> p < length m \<and> m ! p = x \<and> string_at m (p + 1) xs"

lemma string_at_append: "string_at m p (xs @ ys) \<longleftrightarrow> (\<forall>i<length xs. xs ! i \<noteq> 0 \<and> p + i < length m \<and> m ! (p + i) = xs ! i) \<and> string_at m (p + length xs) ys"
  by (induction xs arbitrary: p) (auto simp: nth_Cons less_Suc_eq_0_disj split: nat.splits)

lemma string_at_iff: "string_at m p xs \<longleftrightarrow>
   (\<forall>i<length xs. xs ! i \<noteq> 0 \<and> m ! (p + i) = xs ! i) \<and> p + length xs < length m \<and> m ! (p + length xs) = 0"
  using string_at_append [of m p xs "[]"] by auto

lemma string_at_frame:
  assumes "string_at m p xs" "length m' = length m" "\<forall>i. p \<le> i \<and> i \<le> p + length xs \<longrightarrow> m' ! i = m ! i"
  shows "string_at m' p xs"
  using assms by (auto simp: string_at_iff)

lemma string_at_drop: "string_at m p xs \<Longrightarrow> k \<le> length xs \<Longrightarrow> string_at m (p + k) (drop k xs)"
  by (auto simp: string_at_iff add.assoc)

lemma string_at_cut: "string_at m p xs \<Longrightarrow> n \<le> length xs \<Longrightarrow> string_at (m[p + n := 0]) p (take n xs)"
  by (auto simp: string_at_iff nth_list_update)

lemma string_at_inj: "string_at m p xs \<Longrightarrow> string_at m p ys \<Longrightarrow> xs = ys"
proof (induction xs arbitrary: p ys)
  case Nil then show ?case by (cases ys) auto
next
  case (Cons x xs) then show ?case by (cases ys) auto
qed

lemma strlen_loop_ok: "string_at m p xs \<Longrightarrow> strlen_loop p i m = Some (i + of_nat (length xs))"
proof (induction xs arbitrary: p i)
  case Nil then show ?case by (subst strlen_loop.simps) simp
next
  case (Cons x xs) then show ?case by (subst strlen_loop.simps) (simp add: add.assoc)
qed

lemma strlen_ok: "string_at m p xs \<Longrightarrow> p \<noteq> 0 \<Longrightarrow> strlen p m = Some (of_nat (length xs))"
  by (simp add: strlen_def strlen_loop_ok)

section \<open>Blocks\<close>

lemma move_up_ok:
  "a + n \<le> length m \<Longrightarrow> b + n \<le> length m \<Longrightarrow> a \<le> b \<or> b + n \<le> a \<Longrightarrow> move_up n a b m = memcpy m a m b n"
proof (induction n arbitrary: a b m)
  case 0 then show ?case by (simp add: memcpy_def)
next
  case (Suc n)
  let ?m = "m[a := m ! b]"
  have "move_up n (a + 1) (b + 1) ?m = memcpy ?m (a + 1) ?m (b + 1) n" using Suc by (intro Suc(1)) auto
  then obtain r r' where r: "move_up (Suc n) a b m = Some r" "memcpy ?m (a + 1) ?m (b + 1) n = Some r" "memcpy m a m b (Suc n) = Some r'"
    using Suc(2,3) by (simp add: memcpy_Some)
  have "r ! i = r' ! i" if "i < length m" for i
    using memcpy_nth [OF r(2), of i] memcpy_nth [OF r(3), of i] that Suc(2-4) by (auto simp: nth_list_update Suc_diff_Suc)
  then have "r = r'" using memcpy_length [OF r(2)] memcpy_length [OF r(3)] by (intro nth_equalityI) auto
  then show ?case using r by simp
qed

lemma move_down_ok:
  "a + n \<le> length m \<Longrightarrow> b + n \<le> length m \<Longrightarrow> b \<le> a \<Longrightarrow> move_down n (a + n - 1) (b + n - 1) m = memcpy m a m b n"
proof (induction n arbitrary: m)
  case 0 then show ?case by (simp add: memcpy_def)
next
  case (Suc n)
  let ?m = "m[a + n := m ! (b + n)]"
  have "move_down n (a + n - 1) (b + n - 1) ?m = memcpy ?m a ?m b n" using Suc by (intro Suc(1)) auto
  then obtain r r' where r: "move_down (Suc n) (a + Suc n - 1) (b + Suc n - 1) m = Some r" "memcpy ?m a ?m b n = Some r" "memcpy m a m b (Suc n) = Some r'"
    using Suc(2,3) by (simp add: memcpy_Some)
  have "r ! i = r' ! i" if "i < length m" for i
    using memcpy_nth [OF r(2), of i] memcpy_nth [OF r(3), of i] that Suc(2-4) by (auto simp: nth_list_update less_Suc_eq)
  then have "r = r'" using memcpy_length [OF r(2)] memcpy_length [OF r(3)] by (intro nth_equalityI) auto
  then show ?case using r by simp
qed

lemma counted: "n < 2 ^ 32 \<Longrightarrow> of_nat (Suc n) + (1 :: u32) - 1 = of_nat (Suc n)" "Suc n < 2 ^ 32 \<Longrightarrow> (of_nat (Suc n) :: u32) \<noteq> 0"
proof -
  show "of_nat (Suc n) + (1 :: u32) - 1 = of_nat (Suc n)" by simp
  assume "Suc n < 2 ^ 32"
  then have "unat (of_nat (Suc n) :: u32) = Suc n" by (simp only: unat_of_nat) simp
  then show "(of_nat (Suc n) :: u32) \<noteq> 0" by (metis nat.distinct(1) unsigned_0)
qed

lemma memcpy_loop_eq: "n < 2 ^ 32 \<Longrightarrow> memcpy_loop d s (of_nat n + 1) m = move_up n d s m"
proof (induction n arbitrary: d s m)
  case 0 then show ?case by (subst memcpy_loop.simps) simp
next
  case (Suc n)
  note c = counted(2) [OF Suc(2)]
  have ih: "memcpy_loop d s (1 + of_nat n) = move_up n d s" for d s using Suc by (intro ext) (simp add: add.commute)
  show ?case using c ih by (subst memcpy_loop.simps) (simp add: Let_def add.commute)
qed

lemma memset_loop_ok: "n < 2 ^ 32 \<Longrightarrow> a + n \<le> length m \<Longrightarrow>
   memset_loop c a (of_nat n + 1) m = Some (take a m @ replicate n c @ drop (a + n) m)"
proof (induction n arbitrary: a m)
  case 0 then show ?case by (subst memset_loop.simps) simp
next
  case (Suc n)
  note w = counted(2) [OF Suc(2)]
  have "memset_loop c a (of_nat (Suc n) + 1) m = memset_loop c (a + 1) (of_nat n + 1) (m[a := c])"
    using w Suc(3) by (subst memset_loop.simps) (simp add: Let_def add.commute)
  also have "\<dots> = Some (take (a + 1) (m[a := c]) @ replicate n c @ drop (a + 1 + n) (m[a := c]))" using Suc by simp
  also have "take (a + 1) (m[a := c]) @ replicate n c @ drop (a + 1 + n) (m[a := c]) = take a m @ replicate (Suc n) c @ drop (a + Suc n) m"
  proof -
    have "take (a + 1) (m[a := c]) = take a m @ [c]"
      using Suc(3) take_Suc_conv_app_nth [of a "m[a := c]"] by simp
    then show ?thesis using Suc(3) by simp
  qed
  finally show ?case .
qed

section \<open>Comparison\<close>

lemma strcmp_loop_ok: "string_at m s xs \<Longrightarrow> string_at m t ys \<Longrightarrow>
   \<exists>r. strcmp s t m = Some r \<and> (r = 0 \<longleftrightarrow> xs = ys) \<and> (r < 0 \<longleftrightarrow> ord_class.lexordp xs ys)"
proof (induction xs arbitrary: s t ys)
  case Nil
  then show ?case by (cases ys) (auto simp: strcmp.simps [of s] word_neq_0_conv word_less_def)
next
  case (Cons x xs)
  show ?case
  proof (cases ys)
    case Nil
    have "0 < uint x" using Cons(2) by (simp add: word_neq_0_conv word_less_def)
    then show ?thesis using Nil Cons(2,3) by (auto simp: strcmp.simps [of s])
  next
    case (Cons y zs)
    show ?thesis
    proof (cases "x = y")
      case True
      then show ?thesis using Cons.IH [of "s + 1" "t + 1" zs] Cons.prems Cons by (auto simp: strcmp.simps [of s])
    next
      case False
      then have "uint x \<noteq> uint y" by (auto dest: unsigned_word_eqI)
      then show ?thesis using False Cons.prems Cons by (auto simp: strcmp.simps [of s] word_less_def)
    qed
  qed
qed


section \<open>Search\<close>

lemma memcmp_loop_eq:
  "n < 2 ^ 32 \<Longrightarrow> d + n \<le> length m \<Longrightarrow> s + n \<le> length m \<Longrightarrow>
   \<exists>r. memcmp_loop d s (of_nat n + 1) m = Some r \<and> (r = 0 \<longleftrightarrow> take n (drop d m) = take n (drop s m))"
proof (induction n arbitrary: d s)
  case 0 then show ?case by (subst memcmp_loop.simps) simp
next
  case (Suc n)
  note c = counted(2) [OF Suc(2)]
  have h: "drop d m = m ! d # drop (d + 1) m" "drop s m = m ! s # drop (s + 1) m"
    using Suc(3,4) by (simp_all add: Cons_nth_drop_Suc)
  have e: "sint (m ! d) = sint (m ! s) \<longleftrightarrow> m ! d = m ! s" by (auto dest: signed_word_eqI)
  obtain r where "memcmp_loop (d + 1) (s + 1) (of_nat n + 1) m = Some r"
    "r = 0 \<longleftrightarrow> take n (drop (d + 1) m) = take n (drop (s + 1) m)" using Suc(1) [of "d + 1" "s + 1"] Suc(2-4) by auto
  then show ?case using c Suc(3,4) e by (subst memcmp_loop.simps) (auto simp: h Let_def add.commute)
qed

lemma string_at_take: "string_at m p xs \<Longrightarrow> n \<le> length xs \<Longrightarrow> take n (drop p m) = take n xs"
  by (intro nth_equalityI) (auto simp: string_at_iff)

text \<open>The first place where ys begins in xs.\<close>

fun find_sub :: "'a list \<Rightarrow> 'a list \<Rightarrow> nat option" where
  "find_sub ys xs = (if prefix ys xs then Some 0 else case xs of [] \<Rightarrow> None | x # xs \<Rightarrow> map_option Suc (find_sub ys xs))"

declare find_sub.simps [simp del]

lemma find_sub_short: "length xs < length ys \<Longrightarrow> find_sub ys xs = None"
proof (induction xs)
  case Nil then show ?case by (subst find_sub.simps) auto
next
  case (Cons x xs)
  then have "\<not> prefix ys (x # xs)" by (auto dest: prefix_length_le)
  then show ?case using Cons by (subst find_sub.simps) simp
qed

lemma strstr_loop_ok:
  assumes n: "string_at m np ys" "ys \<noteq> []" "length m < 2 ^ 32"
  shows "string_at m h xs \<Longrightarrow> k = Suc (length xs) - length ys \<Longrightarrow>
   strstr_loop k h np (of_nat (length ys)) m = Some (case find_sub ys xs of None \<Rightarrow> 0 | Some i \<Rightarrow> h + i)"
proof (induction k arbitrary: h xs)
  case 0
  then show ?case using find_sub_short [of xs ys] by simp
next
  case (Suc k)
  then have l: "length ys \<le> length xs" by simp
  then obtain x zs where xs: "xs = x # zs" using n(2) by (cases xs) auto
  have b: "h + length ys \<le> length m" "np + length ys \<le> length m" "length ys < 2 ^ 32"
    using Suc(2) n l by (auto simp: string_at_iff)
  obtain r where r: "memcmp h np (of_nat (length ys)) m = Some r" "r = 0 \<longleftrightarrow> take (length ys) (drop h m) = take (length ys) (drop np m)"
    using memcmp_loop_eq [OF b(3,1,2)] by (auto simp: memcmp_def)
  have "take (length ys) (drop h m) = take (length ys) xs" "take (length ys) (drop np m) = ys"
    using string_at_take [OF Suc(2) l] string_at_take [OF n(1), of "length ys"] by simp_all
  then have pr: "r = 0 \<longleftrightarrow> prefix ys xs" using r(2) by (auto simp: prefix_def) (metis append_take_drop_id)
  have rr: "rd m h = Some (hd xs)" "rd m np = Some (hd ys)" using Suc(2) n(1,2) xs by (cases ys; simp)+
  have hd: "prefix ys xs \<Longrightarrow> hd xs = hd ys" using n(2) xs by (cases ys) auto
  show ?case
  proof (cases "prefix ys xs")
    case True
    then show ?thesis using rr hd r(1) pr by (simp add: find_sub.simps [of ys xs])
  next
    case False
    have k: "k = Suc (length zs) - length ys" using Suc(3) xs by simp
    have "strstr_loop k (h + 1) np (of_nat (length ys)) m = Some (case find_sub ys zs of None \<Rightarrow> 0 | Some i \<Rightarrow> h + 1 + i)"
      using Suc(1) [OF _ k, of "h + 1"] Suc(2) xs by simp
    moreover have "find_sub ys xs = map_option Suc (find_sub ys zs)" using False unfolding xs find_sub.simps [of ys "x # zs"] by simp
    ultimately show ?thesis using rr r(1) pr False by (cases "find_sub ys zs") auto
  qed
qed

section \<open>Tokens\<close>

lemma one_of_ok: "string_at m p ds \<Longrightarrow> one_of (length ds) c p m = Some (c \<in> set ds)"
  by (induction ds arbitrary: p) auto

lemma strspn_loop_ok:
  assumes "string_at m acc ds" "unat al = length ds"
  shows "string_at m s xs \<Longrightarrow> strspn_loop s acc al l m = Some (l + of_nat (length (takeWhile (\<lambda>c. c \<in> set ds) xs)))"
proof (induction xs arbitrary: s l)
  case Nil then show ?case by (subst strspn_loop.simps) simp
next
  case (Cons x xs)
  then show ?case using one_of_ok [OF assms(1)] assms(2) by (subst strspn_loop.simps) (simp add: add.assoc)
qed

lemma strcspn_loop_ok:
  assumes "string_at m acc ds" "unat al = length ds"
  shows "string_at m s xs \<Longrightarrow> strcspn_loop s acc al l m = Some (l + of_nat (length (takeWhile (\<lambda>c. c \<notin> set ds) xs)))"
proof (induction xs arbitrary: s l)
  case Nil then show ?case by (subst strcspn_loop.simps) simp
next
  case (Cons x xs)
  then show ?case using one_of_ok [OF assms(1)] assms(2) by (subst strcspn_loop.simps) (simp add: add.assoc)
qed

lemma string_bound: "string_at m p xs \<Longrightarrow> length m < 2 ^ 32 \<Longrightarrow> n \<le> length xs \<Longrightarrow> unat (of_nat n :: u32) = n"
  by (simp add: unat_of_nat string_at_iff)

text \<open>The words of xs that delimiters ds separate.\<close>

function words :: "u8 list \<Rightarrow> u8 list \<Rightarrow> u8 list list" where
  "words ds xs = (case dropWhile (\<lambda>c. c \<in> set ds) xs of [] \<Rightarrow> []
     | y # ys \<Rightarrow> takeWhile (\<lambda>c. c \<notin> set ds) (y # ys) # words ds (drop 1 (dropWhile (\<lambda>c. c \<notin> set ds) (y # ys))))"
  by auto
termination
proof (relation "measure (\<lambda>(_, xs). length xs)")
  fix ds xs y ys assume "dropWhile (\<lambda>c. c \<in> set ds) xs = y # ys"
  then have "length (y # ys) \<le> length xs" "y \<notin> set ds" by (metis length_dropWhile_le) (use \<open>dropWhile _ _ = _\<close> in \<open>simp add: dropWhile_eq_Cons_conv\<close>)
  then show "((ds, drop 1 (dropWhile (\<lambda>c. c \<notin> set ds) (y # ys))), (ds, xs)) \<in> measure (\<lambda>(_, xs). length xs)"
    using length_dropWhile_le [of "\<lambda>c. c \<notin> set ds" ys] by simp
qed simp

declare words.simps [simp del]


lemma words_empty: "dropWhile (\<lambda>c. c \<in> set ds) xs = [] \<Longrightarrow> words ds xs = []"
  by (subst words.simps) (simp only: list.case)

lemma words_step:
  assumes "dropWhile (\<lambda>c. c \<in> set ds) xs = y # ys"
  shows "words ds xs = takeWhile (\<lambda>c. c \<notin> set ds) (y # ys) # words ds (drop 1 (dropWhile (\<lambda>c. c \<notin> set ds) (y # ys)))"
  using assms by (subst words.simps) simp

text \<open>One call, from the start p of what is left of the string.\<close>

lemma strtok_step:
  assumes s: "string_at m p xs" and d: "string_at m dp ds" "dp \<noteq> 0" and b: "length m < 2 ^ 32" and p: "if s = 0 then pos = p else s = p"
  shows "case dropWhile (\<lambda>c. c \<in> set ds) xs of
     [] \<Rightarrow> strtok s dp pos m = Some (0, p + length xs, m)
   | y # ys \<Rightarrow> \<exists>pos' m'. strtok s dp pos m = Some (p + length (takeWhile (\<lambda>c. c \<in> set ds) xs), pos', m') \<and>
       length m' = length m \<and> (\<forall>i. i < p \<or> pos' \<le> i \<longrightarrow> m' ! i = m ! i) \<and> p < pos' \<and> pos' \<le> p + length xs \<and>
       string_at m' pos' (drop 1 (dropWhile (\<lambda>c. c \<notin> set ds) (y # ys))) \<and>
       pos' + length (drop 1 (dropWhile (\<lambda>c. c \<notin> set ds) (y # ys))) = p + length xs \<and>
       string_at m' (p + length (takeWhile (\<lambda>c. c \<in> set ds) xs)) (takeWhile (\<lambda>c. c \<notin> set ds) (y # ys)) \<and>
       (p + length (takeWhile (\<lambda>c. c \<in> set ds) xs) + length (takeWhile (\<lambda>c. c \<notin> set ds) (y # ys)) < pos' \<or>
        pos' = p + length xs)"
proof -
  let ?P = "\<lambda>c. c \<in> set ds" and ?k = "length (takeWhile (\<lambda>c. c \<in> set ds) xs)"
  let ?al = "of_nat (length ds) :: u32"
  have al: "strlen dp m = Some ?al" "unat ?al = length ds" using strlen_ok [OF d] string_bound [OF d(1) b, of "length ds"] by simp_all
  have sp: "strspn p dp m = Some (of_nat ?k)" using strspn_loop_ok [OF d(1) al(2) s, of 0] al(1) by (simp add: strspn_def)
  have kl: "?k \<le> length xs" by (rule length_takeWhile_le)
  have ku: "unat (of_nat ?k :: u32) = ?k" by (rule string_bound [OF s b kl])
  have dw: "dropWhile ?P xs = drop ?k xs" by (rule dropWhile_eq_drop)
  have s1: "string_at m (p + ?k) (dropWhile ?P xs)" unfolding dw by (rule string_at_drop [OF s kl])
  have st: "strtok s dp pos m = do {
     c \<leftarrow> rd m (p + ?k);
     if c \<noteq> 0 then do {
       l \<leftarrow> strcspn (p + ?k) dp m;
       e \<leftarrow> rd m (p + ?k + unat l);
       if e \<noteq> 0 then do { m1 \<leftarrow> wr m (p + ?k + unat l) 0; Some (p + ?k, p + ?k + unat l + 1, m1) } else Some (p + ?k, p + ?k + unat l, m) }
     else Some (0, p + ?k, m) }"
  proof (cases "s = 0")
    case True
    then have q: "pos = p" using p by simp
    show ?thesis unfolding strtok_def strtok_r_def Let_def True q if_P [OF refl] sp Option.bind.bind_lunit ku ..
  next
    case False
    then have q: "s = p" "(if p = 0 then pos else p) = p" using p by simp_all
    show ?thesis unfolding strtok_def strtok_r_def Let_def q sp Option.bind.bind_lunit ku ..
  qed
  show ?thesis
  proof (cases "dropWhile ?P xs")
    case Nil
    then have "?k = length xs" using kl dw by simp
    moreover have "rd m (p + ?k) = Some 0" using s1 Nil by simp
    ultimately show ?thesis unfolding Nil list.case using st by simp
  next
    case (Cons y ys)
    let ?l = "length (takeWhile (\<lambda>c. c \<notin> set ds) (y # ys))" and ?w = "takeWhile (\<lambda>c. c \<notin> set ds) (y # ys)"
    have lx: "?k + length (y # ys) = length xs" using dw Cons kl by (metis length_drop le_add_diff_inverse)
    have ll: "?l \<le> length (y # ys)" by (rule length_takeWhile_le)
    have s2: "string_at m (p + ?k) (y # ys)" using s1 Cons by simp
    have c: "rd m (p + ?k) = Some y" "y \<noteq> 0" using s2 by simp_all
    have ls: "strcspn (p + ?k) dp m = Some (of_nat ?l)" using strcspn_loop_ok [OF d(1) al(2) s2, of 0] al(1) by (simp add: strcspn_def)
    have lu: "unat (of_nat ?l :: u32) = ?l" by (rule string_bound [OF s2 b ll])
    have dw2: "dropWhile (\<lambda>c. c \<notin> set ds) (y # ys) = drop ?l (y # ys)" by (rule dropWhile_eq_drop)
    have s3: "string_at m (p + ?k + ?l) (drop ?l (y # ys))" by (rule string_at_drop [OF s2 ll])
    have y: "y \<notin> set ds" using Cons by (simp add: dropWhile_eq_Cons_conv)
    then have l1: "1 \<le> ?l" by simp
    have wt: "?w = take ?l (y # ys)" by (rule takeWhile_eq_take)
    show ?thesis
    proof (cases "drop ?l (y # ys)")
      case Nil
      then have l2: "?l = length (y # ys)" using ll by simp
      have "rd m (p + ?k + ?l) = Some 0" using s3 Nil by simp
      then have "strtok s dp pos m = Some (p + ?k, p + ?k + ?l, m)" using st c ls lu by simp
      moreover have "string_at m (p + ?k) ?w" using s2 wt l2 by simp
      moreover have e: "p + ?k + ?l = p + length xs" "xs \<noteq> []" using lx l2 by auto
      moreover have "string_at m (p + length xs) []" using s3 Nil unfolding e(1) by simp
      ultimately show ?thesis using Cons lx l1 l2 Nil dw2 by (auto simp: add.assoc)
    next
      case (Cons z zs)
      let ?m = "m[p + ?k + ?l := 0]"
      have z: "rd m (p + ?k + ?l) = Some z" "z \<noteq> 0" "p + ?k + ?l < length m" using s3 Cons by simp_all
      have r: "strtok s dp pos m = Some (p + ?k, p + ?k + ?l + 1, ?m)" using st c ls lu z by simp
      have zl: "?l + Suc (length zs) = length (y # ys)" using Cons ll by (metis length_Cons length_drop le_add_diff_inverse)
      have "string_at m (p + ?k + ?l + 1) zs" using s3 Cons by simp
      then have "string_at ?m (p + ?k + ?l + 1) zs" by (rule string_at_frame) auto
      moreover have "string_at ?m (p + ?k) ?w"
        by (rule ssubst [where P = "string_at ?m (p + ?k)", OF wt string_at_cut [OF s2 ll]])
      ultimately show ?thesis using r \<open>dropWhile ?P xs = y # ys\<close> lx zl dw2 Cons
        by (auto intro!: exI [of _ "p + ?k + ?l + 1"] exI [of _ ?m])
    qed
  qed
qed

section \<open>Repeated calls\<close>

text \<open>
  The tokens of up to k calls: the first one with the string, the later ones with
  NULL, until one returns NULL.
\<close>

primrec tokens_of :: "nat \<Rightarrow> nat \<Rightarrow> nat \<Rightarrow> nat \<Rightarrow> cmem \<Rightarrow> (nat list \<times> cmem) option" where
  "tokens_of 0 s dp pos m = Some ([], m)"
| "tokens_of (Suc k) s dp pos m = do {
     (t, pos', m1) \<leftarrow> strtok s dp pos m;
     if t = 0 then Some ([], m1)
     else do { (ts, m2) \<leftarrow> tokens_of k 0 dp pos' m1; Some (t # ts, m2) } }"

lemma tokens_of_ok:
  assumes d: "dp \<noteq> 0" and b: "length m < 2 ^ 32"
  shows "string_at m p xs \<Longrightarrow> string_at m dp ds \<Longrightarrow> p \<noteq> 0 \<Longrightarrow> dp + length ds < p \<or> p + length xs < dp \<Longrightarrow> length m < 2 ^ 32 \<Longrightarrow>
    (if s = 0 then pos = p else s = p) \<Longrightarrow> length (words ds xs) < k \<Longrightarrow>
    \<exists>ts m'. tokens_of k s dp pos m = Some (ts, m') \<and> length m' = length m \<and>
      (\<forall>i. i < p \<or> p + length xs \<le> i \<longrightarrow> m' ! i = m ! i) \<and> list_all2 (string_at m') ts (words ds xs)"
proof (induction k arbitrary: s pos p xs m)
  case 0 then show ?case by simp
next
  case (Suc k)
  note st = strtok_step [OF Suc(2,3) d Suc(6,7)]
  show ?case
  proof (cases "dropWhile (\<lambda>c. c \<in> set ds) xs")
    case Nil
    then show ?thesis using st [unfolded Nil list.case] words_empty [OF Nil] by simp
  next
    case (Cons y ys)
    let ?q = "p + length (takeWhile (\<lambda>c. c \<in> set ds) xs)" and ?w = "takeWhile (\<lambda>c. c \<notin> set ds) (y # ys)"
    let ?r = "drop 1 (dropWhile (\<lambda>c. c \<notin> set ds) (y # ys))"
    note w = words_step [OF Cons]
    obtain pos' m1 where a: "strtok s dp pos m = Some (?q, pos', m1)" "length m1 = length m" "\<forall>i. i < p \<or> pos' \<le> i \<longrightarrow> m1 ! i = m ! i"
      "p < pos'" "pos' \<le> p + length xs" "string_at m1 pos' ?r" "pos' + length ?r = p + length xs" "string_at m1 ?q ?w"
      "?q + length ?w < pos' \<or> pos' = p + length xs"
      using st [unfolded Cons list.case] by blast
    have dm: "string_at m1 dp ds" by (rule string_at_frame [OF Suc(3) a(2)]) (use Suc(5) a(3-5) in auto)
    obtain ts m2 where r: "tokens_of k 0 dp pos' m1 = Some (ts, m2)" "length m2 = length m1"
      "\<forall>i. i < pos' \<or> pos' + length ?r \<le> i \<longrightarrow> m2 ! i = m1 ! i" "list_all2 (string_at m2) ts (words ds ?r)"
      using Suc(1) [OF a(6) dm, of 0 pos'] a(2,4,5,7) Suc(5-8) w by auto
    have "string_at m2 ?q ?w"
      by (rule string_at_frame [OF a(8) r(2)]) (use a(7,9) r(3) in auto)
    moreover have "\<forall>i. i < p \<or> p + length xs \<le> i \<longrightarrow> m2 ! i = m ! i" using a(3,4,5,7) r(3) by auto
    ultimately show ?thesis using a(1,2) r(1,2,4) w Suc(4) by auto
  qed
qed

text \<open>C35: Calling strtok again and again until it returns NULL.\<close>

theorem strtok_tokens:
  assumes "string_at m s xs" "string_at m dp ds" "s \<noteq> 0" "dp \<noteq> 0" "length m < 2 ^ 32"
    "dp + length ds < s \<or> s + length xs < dp" "length (words ds xs) < k"
  shows "\<exists>ts m'. tokens_of k s dp pos m = Some (ts, m') \<and> length m' = length m \<and>
      (\<forall>i. i < s \<or> s + length xs \<le> i \<longrightarrow> m' ! i = m ! i) \<and> list_all2 (string_at m') ts (words ds xs)"
  using tokens_of_ok [of dp m s xs ds s pos k] assms by simp

theorem strtok_tokens_witness:
  "\<exists>ts m'. tokens_of 5 1 10 0 [0, 44, 97, 98, 44, 44, 99, 0, 7, 7, 44, 59, 0] = Some (ts, m') \<and> length m' = 13 \<and>
     (\<forall>i. (1 \<le> i \<and> i < 7) \<or> m' ! i = [0, 44, 97, 98, 44, 44, 99, 0, 7, 7, 44, 59, 0] ! i) \<and> list_all2 (string_at m') ts [[97, 98], [99]]"
proof -
  let ?m = "[0, 44, 97, 98, 44, 44, 99, 0, 7, 7, 44, 59, 0] :: cmem"
  have w: "words [44, 59] [44, 97, 98, 44, 44, 99] = [[97, 98], [99 :: u8]]" by (simp add: words.simps)
  have s: "string_at ?m 1 [44, 97, 98, 44, 44, 99]" "string_at ?m 10 [44, 59]" by code_simp+
  have l: "length ?m = 13" "1 + length [44, 97, 98, 44, 44, 99 :: u8] = 7" by simp_all
  obtain ts m' where r: "tokens_of 5 1 10 0 ?m = Some (ts, m')" "length m' = 13" "\<forall>i. i < 1 \<or> 7 \<le> i \<longrightarrow> m' ! i = ?m ! i"
    "list_all2 (string_at m') ts [[97, 98], [99]]"
    using strtok_tokens [OF s, of 5 0] unfolding w l by auto
  have "\<forall>i. (1 \<le> i \<and> i < 7) \<or> m' ! i = ?m ! i" using r(3) by (meson not_le)
  then show ?thesis using r by blast
qed

section \<open>Copying and searching\<close>

lemma memmove_ok:
  assumes "dst + unat n \<le> length m" "src + unat n \<le> length m"
  shows "memmove dst src n m = Some (dst, take dst m @ take (unat n) (drop src m) @ drop (dst + unat n) m)"
proof -
  have r: "memcpy m dst m src (unat n) = Some (take dst m @ take (unat n) (drop src m) @ drop (dst + unat n) m)"
    using assms by (simp add: memcpy_def)
  consider "src = dst" | "dst < src" | "src < dst" by linarith
  then show ?thesis
  proof cases
    case 1
    have "m = take dst m @ take (unat n) (drop dst m) @ drop (dst + unat n) m"
      by (metis append_take_drop_id drop_drop add.commute)
    then show ?thesis using 1 by (simp add: memmove_def)
  next
    case 2
    then show ?thesis using move_up_ok [OF assms] r by (simp add: memmove_def)
  next
    case 3
    then show ?thesis using move_down_ok [OF assms] r by (simp add: memmove_def)
  qed
qed

text \<open>C36: memmove copies the block as if it had read all of it first, and leaves the rest.\<close>

theorem memmove_overlap:
  assumes "dst + unat n \<le> length m" "src + unat n \<le> length m"
  shows "\<exists>m'. memmove dst src n m = Some (dst, m') \<and> length m' = length m \<and>
    (\<forall>i < length m. m' ! i = (if dst \<le> i \<and> i < dst + unat n then m ! (src + (i - dst)) else m ! i))"
  using memmove_ok [OF assms] assms by (auto simp: nth_append)

theorem memmove_overlap_witness:
  "\<exists>m'. memmove 2 1 3 [0, 1, 2, 3, 4, 5] = Some (2, m') \<and> length m' = 6 \<and> m' ! 2 = 1 \<and> m' ! 3 = 2 \<and> m' ! 4 = 3 \<and> m' ! 5 = 5"
  using memmove_overlap [of 2 3 "[0, 1, 2, 3, 4, 5]" 1] by auto

text \<open>Strstr finds the first place of the second string in the first.\<close>

theorem strstr_first:
  assumes "string_at m h xs" "string_at m np ys" "h \<noteq> 0" "np \<noteq> 0" "length m < 2 ^ 32"
  shows "strstr h np m = Some (case find_sub ys xs of None \<Rightarrow> 0 | Some i \<Rightarrow> h + i)"
proof -
  have l: "strlen h m = Some (of_nat (length xs))" "strlen np m = Some (of_nat (length ys))" using assms by (simp_all add: strlen_ok)
  have u: "unat (of_nat (length xs) :: u32) = length xs" "unat (of_nat (length ys) :: u32) = length ys"
    using string_bound [OF assms(1,5) order_refl] string_bound [OF assms(2,5) order_refl] by simp_all
  show ?thesis
  proof (cases "length xs < length ys")
    case True
    then have "of_nat (length xs) < (of_nat (length ys) :: u32)" "(of_nat (length ys) :: u32) \<noteq> 0" using u by (auto simp: word_less_nat_alt unat_eq_zero [symmetric])
    then show ?thesis using l find_sub_short [OF True] by (simp add: strstr_def)
  next
    case False
    then have le: "(of_nat (length ys) :: u32) \<le> of_nat (length xs)" using u by (simp add: word_le_nat_alt)
    have b: "length xs < length m" using assms(1) by (simp add: string_at_iff)
    show ?thesis
    proof (cases "ys = []")
      case True
      then show ?thesis using l by (simp add: strstr_def find_sub.simps)
    next
      case False
      have n0: "(of_nat (length ys) :: u32) \<noteq> 0" using u(2) False by auto
      have "of_nat (length xs) - of_nat (length ys) + 1 = (of_nat (Suc (length xs) - length ys) :: u32)"
        using \<open>\<not> length xs < length ys\<close> by (simp add: Suc_diff_le of_nat_diff)
      moreover have "unat (of_nat (Suc (length xs) - length ys) :: u32) = Suc (length xs) - length ys"
        using b assms(5) False by (simp only: unat_of_nat) simp
      ultimately show ?thesis using l le n0 strstr_loop_ok [OF assms(2) False assms(5,1) refl] by (simp add: strstr_def not_less [symmetric])
    qed
  qed
qed

theorem strstr_first_witness:
  "strstr 1 6 [0, 97, 97, 98, 99, 0, 97, 98, 0] = Some (1 + 1)"
proof -
  have s: "string_at [0, 97, 97, 98, 99, 0, 97, 98, 0] 1 [97, 97, 98, 99]" "string_at [0, 97, 97, 98, 99, 0, 97, 98, 0] 6 [97, 98]"
    by code_simp+
  show ?thesis using strstr_first [OF s] by (simp add: find_sub.simps)
qed

text \<open>strcpy and strcat, where the source does not overlap what is written.\<close>

lemma strcpy_loop_ok:
  "string_at m t ys \<Longrightarrow> a + length ys < length m \<Longrightarrow> a + length ys < t \<or> t + length ys < a \<Longrightarrow>
   strcpy_loop a t m = Some (take a m @ ys @ 0 # drop (a + length ys + 1) m)"
proof (induction ys arbitrary: a t m)
  case Nil
  then show ?case by (subst strcpy_loop.simps) (simp add: upd_conv_take_nth_drop)
next
  case (Cons y ys)
  have "string_at (m[a := y]) (t + 1) ys"
    by (rule string_at_frame [of m]) (use Cons(2,4) in auto)
  then have "strcpy_loop (a + 1) (t + 1) (m[a := y]) = Some (take (a + 1) (m[a := y]) @ ys @ 0 # drop (a + 1 + length ys + 1) (m[a := y]))"
    using Cons(1) [of "m[a := y]" "t + 1" "a + 1"] Cons(3,4) by auto
  moreover have "take (a + 1) (m[a := y]) = take a m @ [y]"
    using Cons(3) take_Suc_conv_app_nth [of a "m[a := y]"] by simp
  ultimately show ?case using Cons(2,3) by (subst strcpy_loop.simps) simp
qed

lemma strcat_ok:
  assumes "string_at m s xs" "string_at m t ys" "s \<noteq> 0" "length m < 2 ^ 32" "s + length xs + length ys < length m"
    "s + length xs + length ys < t \<or> t + length ys < s + length xs"
  shows "\<exists>m'. strcat s t m = Some (s, m') \<and> m' = take (s + length xs) m @ ys @ 0 # drop (s + length xs + length ys + 1) m \<and>
    string_at m' s (xs @ ys)"
proof -
  let ?m = "take (s + length xs) m @ ys @ 0 # drop (s + length xs + length ys + 1) m"
  have "strcat s t m = Some (s, ?m)"
    using strlen_ok [OF assms(1,3)] string_bound [OF assms(1,4) order_refl] strcpy_loop_ok [OF assms(2), of "s + length xs"] assms(5,6)
    by (simp add: strcat_def)
  moreover have "string_at ?m s (xs @ ys)"
    using assms(1,2,5) unfolding string_at_iff by (auto simp: nth_append)
  ultimately show ?thesis by blast
qed

text \<open>
  dirname of "//a" runs below the path: it clears both slashes and the byte before them,
  when that is a slash too.
\<close>

lemma dirname_runs_below:
  "map_option snd (dirname 10 2 [0, 47, 47, 47, 97, 0, 1, 1, 1, 1, 46, 0]) = Some [0, 0, 0, 0, 97, 0, 1, 1, 1, 1, 46, 0]"
  by code_simp

end
