(* ===== verification/PStdlibNum.thy ===== *)
theory PStdlibNum
  imports PStdlib PStringLib
begin

unbundle bit_operations_syntax

text \<open>
  Numbers and their text: what strtoul reads is the number, overflow included, and it
  reads back what __ltostr wrote.
\<close>

section \<open>Digits\<close>

function digits :: "nat \<Rightarrow> nat \<Rightarrow> nat list" where
  "digits b n = (if b < 2 \<or> n < b then [n] else digits b (n div b) @ [n mod b])"
  by auto
termination by (relation "measure snd") auto

declare digits.simps [simp del]

definition value_of :: "nat \<Rightarrow> nat \<Rightarrow> nat list \<Rightarrow> nat" where
  "value_of b a ds = foldl (\<lambda>a d. a * b + d) a ds"

lemma value_of_Nil [simp]: "value_of b a [] = a"
  by (simp add: value_of_def)

lemma value_of_Cons [simp]: "value_of b a (d # ds) = value_of b (a * b + d) ds"
  by (simp add: value_of_def)

lemma value_of_append [simp]: "value_of b a (ds @ es) = value_of b (value_of b a ds) es"
  by (simp add: value_of_def)

lemma value_of_mono: "0 < b \<Longrightarrow> a \<le> value_of b a ds"
proof (induction ds arbitrary: a)
  case (Cons d ds)
  have "a \<le> a * b + d" using Cons(2) by (simp add: trans_le_add1)
  also have "\<dots> \<le> value_of b (a * b + d) ds" using Cons by simp
  finally show ?case by simp
qed simp

lemma value_of_digits: "2 \<le> b \<Longrightarrow> value_of b 0 (digits b n) = n"
proof (induction b n rule: digits.induct)
  case (1 b n)
  then show ?case by (cases "n < b") (simp_all add: digits.simps [of b n])
qed

lemma digits_bound: "2 \<le> b \<Longrightarrow> \<forall>d\<in>set (digits b n). d < b"
proof (induction b n rule: digits.induct)
  case (1 b n)
  then show ?case by (cases "n < b") (simp_all add: digits.simps [of b n])
qed

lemma digits_nonempty [simp]: "digits b n \<noteq> []"
  by (subst digits.simps) simp

definition digit_ok :: "nat \<Rightarrow> bool \<Rightarrow> bool" where
  "digit_ok d up \<longleftrightarrow> uint (digit_value (digit_char d up)) = int d \<and> digit_char d up \<noteq> 0 \<and> \<not> isspace (sint (digit_char d up)) \<and>
     digit_char d up \<noteq> 43 \<and> digit_char d up \<noteq> 45 \<and> (digit_char d up = 48 \<longleftrightarrow> d = 0) \<and>
     (digit_char d up = 120 \<longrightarrow> d = 33) \<and> (digit_char d up = 88 \<longrightarrow> d = 33)"

lemma digit_table: "list_all (\<lambda>d. digit_ok d True \<and> digit_ok d False) [0..<36]"
  by code_simp

lemma digit_char_ok: "d < 36 \<Longrightarrow> digit_ok d up"
  using digit_table by (cases up) (simp_all add: list_all_iff)

lemma digit_char_value: "d < 36 \<Longrightarrow> uint (digit_value (digit_char d up)) = int d"
  and digit_char_nonzero: "d < 36 \<Longrightarrow> digit_char d up \<noteq> 0"
  using digit_char_ok [of d up] by (simp_all add: digit_ok_def)

section \<open>One step of strtoul\<close>

lemma strtoul_step:
  fixes v :: u32
  assumes "b \<le> 36" "c < 36"
  defines "x \<equiv> (v AND 0xff) * of_nat b + of_nat c"
  defines "w \<equiv> drop_bit 8 v * of_nat b + drop_bit 8 x"
  shows "unat (push_bit 8 w + (x AND 0xff)) = (unat v * b + c) mod 2 ^ 32"
    "w > drop_bit 8 0xFFFFFFFF \<longleftrightarrow> 2 ^ 32 \<le> unat v * b + c"
proof -
  let ?h = "unat v div 256" and ?l = "unat v mod 256"
  have bb: "unat (of_nat b :: u32) = b" "unat (of_nat c :: u32) = c" using assms(1,2) by (simp_all add: unat_of_nat take_bit_nat_eq_self)
  have a: "unat (y AND 0xff) = unat y mod 256" for y :: u32
  proof -
    have "y AND 0xff = take_bit 8 y" by (simp add: take_bit_eq_mask mask_eq_exp_minus_1)
    then have "unat (y AND 0xff) = unat (take_bit 8 y)" by simp
    also have "\<dots> = take_bit 8 (unat y)" by (rule unsigned_take_bit_eq)
    finally show ?thesis by (simp add: take_bit_eq_mod)
  qed
  have l: "?l * b \<le> 255 * 36" using assms(1) by (intro mult_mono) auto
  have h: "?h * b \<le> 16777215 * 36" using assms(1) unsigned_less [of v, where 'a = nat] by (intro mult_mono) auto
  have x: "unat x = ?l * b + c" using l assms(2) by (simp add: x_def unat_word_ariths a bb)
  have dx: "unat (drop_bit 8 y) = unat y div 256" for y :: u32 by (simp only: unat_drop_bit_eq) (simp add: drop_bit_eq_div)
  have w: "unat w = ?h * b + unat x div 256" using h l assms(2) by (simp add: w_def unat_word_ariths dx bb x)
  have e: "256 * unat w + unat x mod 256 = unat v * b + c"
  proof -
    have "256 * unat w + unat x mod 256 = 256 * (?h * b) + unat x" unfolding w by (simp add: algebra_simps)
    also have "\<dots> = (256 * ?h + ?l) * b + c" unfolding x by (simp only: add_mult_distrib mult.assoc add.assoc)
    also have "256 * ?h + ?l = unat v" by simp
    finally show ?thesis .
  qed
  have p: "unat (push_bit 8 w) = (256 * unat w) mod 2 ^ 32" by (simp add: push_bit_eq_mult unat_word_ariths mult.commute)
  show "unat (push_bit 8 w + (x AND 0xff)) = (unat v * b + c) mod 2 ^ 32"
    unfolding e [symmetric] by (simp add: unat_word_ariths a p mod_add_left_eq)
  have "w > drop_bit 8 0xFFFFFFFF \<longleftrightarrow> 16777216 \<le> unat w" by (auto simp: word_less_nat_alt dx)
  also have "\<dots> \<longleftrightarrow> 2 ^ 32 \<le> unat v * b + c" unfolding e [symmetric] by auto
  finally show "w > drop_bit 8 0xFFFFFFFF \<longleftrightarrow> 2 ^ 32 \<le> unat v * b + c" .
qed

section \<open>Characters\<close>

lemma mod_below: "x < 0 \<Longrightarrow> 0 \<le> x + n \<Longrightarrow> x mod n = x + (n :: int)"
  using mod_pos_pos_trivial [of "x + n" n] by simp

lemma mod_above: "n \<le> x \<Longrightarrow> x < 2 * n \<Longrightarrow> x mod n = x - (n :: int)"
  using mod_pos_pos_trivial [of "x - n" n] by simp

lemma in_range_iff:
  assumes "- (2 ^ 31) \<le> ch - a" "ch - a < 2 ^ 31" "uint n < 2 ^ 31"
  shows "in_range ch a n \<longleftrightarrow> a \<le> ch \<and> ch < a + uint n"
proof -
  have "uint (of_int (ch - a) :: u32) = (ch - a) mod 2 ^ 32" by (simp only: uint_word_of_int) simp
  also have "\<dots> = (if a \<le> ch then ch - a else ch - a + 2 ^ 32)"
    using assms(1,2) by (simp add: mod_below mod_pos_pos_trivial)
  finally have "uint (of_int (ch - a) :: u32) = (if a \<le> ch then ch - a else ch - a + 2 ^ 32)" .
  then show ?thesis using assms by (auto simp: in_range_def word_less_def)
qed

lemma sint_u8: "sint (c :: u8) = (if uint c < 128 then uint c else uint c - 256)"
proof -
  have "sint c = (uint c + 128) mod 256 - 128" by (simp only: sint_uint signed_take_bit_eq_take_bit_shift) (simp add: take_bit_eq_mod)
  then show ?thesis using uint_lt2p [of c] mod_above [of 256 "uint c + 128"] mod_pos_pos_trivial [of "uint c + 128" 256] by auto
qed

lemma isspace_char: "isspace (sint (c :: u8)) \<longleftrightarrow> (9 \<le> uint c \<and> uint c \<le> 13) \<or> uint c = 32"
proof -
  have "in_range (sint c) 9 5 \<longleftrightarrow> 9 \<le> sint c \<and> sint c < 14"
    using in_range_iff [of "sint c" 9 5] sint_greater_eq [of c] sint_less [of c] by simp
  then show ?thesis using uint_lt2p [of c] uint_nonnegative [of c] by (auto simp: isspace_def sint_u8)
qed

lemma digit_not_space:
  assumes "uint (digit_value c) < 36"
  shows "\<not> isspace (sint c)" "c \<noteq> 0" "c \<noteq> 43" "c \<noteq> 45"
proof -
  have *: "\<not> uint c < 48"
  proof
    assume c: "uint c < 48"
    then have "digit_value c = c - 48" by (simp add: digit_value_def word_le_def)
    moreover have "uint (c - 48) = uint c + 208"
      using c mod_below [of "uint c - 48" 256] by (simp add: uint_word_ariths)
    ultimately have "uint (digit_value c) = uint c + 208" by simp
    then show False using assms uint_nonnegative [of c] by linarith
  qed
  then show "\<not> isspace (sint c)" by (simp add: isspace_char)
  show "c \<noteq> 0" "c \<noteq> 43" "c \<noteq> 45" using * by auto
qed

lemma digit_not_x: "uint (digit_value c) < 33 \<Longrightarrow> c \<noteq> 120 \<and> c \<noteq> 88"
  by (auto simp: digit_value_def)

section \<open>strtoul\<close>

primrec holds :: "cmem \<Rightarrow> nat \<Rightarrow> u8 list \<Rightarrow> bool" where
  "holds m p [] \<longleftrightarrow> True"
| "holds m p (c # cs) \<longleftrightarrow> p < length m \<and> m ! p = c \<and> holds m (p + 1) cs"

lemma holds_append: "holds m p (xs @ ys) \<longleftrightarrow> holds m p xs \<and> holds m (p + length xs) ys"
  by (induction xs arbitrary: p) simp_all

lemma holds_string: "string_at m p xs \<Longrightarrow> holds m p (xs @ [0])"
  by (induction xs arbitrary: p) simp_all

abbreviation value_of_chars :: "nat \<Rightarrow> nat \<Rightarrow> u8 list \<Rightarrow> nat" where
  "value_of_chars b a cs \<equiv> value_of b a (map (\<lambda>c. unat (digit_value c)) cs)"

lemma strtoul_loop_ok:
  assumes b: "2 \<le> b" "b \<le> 36" and t: "t = 0 \<or> int b \<le> uint (digit_value t)"
  shows "holds m p (cs @ [t]) \<Longrightarrow> \<forall>c\<in>set cs. uint (digit_value c) < int b \<Longrightarrow>
    \<exists>v'. strtoul_loop p (int b) v ov m = Some (p + length cs, v', ov \<or> 2 ^ 32 \<le> value_of_chars b (unat v) cs) \<and>
      (value_of_chars b (unat v) cs < 2 ^ 32 \<longrightarrow> unat v' = value_of_chars b (unat v) cs)"
proof (induction cs arbitrary: p v ov)
  case Nil
  have "\<not> 2 ^ 32 \<le> unat v" using unsigned_less [of v, where 'a = nat] by simp
  then show ?case using Nil t by (subst strtoul_loop.simps) auto
next
  case (Cons c cs)
  let ?d = "unat (digit_value c)"
  have e: "uint (digit_value c) = int ?d" by simp
  have d: "?d < b" using Cons(3) e by (metis list.set_intros(1) of_nat_less_iff)
  then have c36: "uint (digit_value c) < 36" unfolding e using b(2) by linarith
  note nz = digit_not_space(2) [OF c36]
  have dc: "ucast (digit_value c) = (of_nat ?d :: u32)" by simp
  let ?x = "(v AND 0xff) * of_nat b + of_nat ?d" and ?w = "\<lambda>x. drop_bit 8 v * of_nat b + drop_bit 8 x :: u32"
  let ?v = "push_bit 8 (?w ?x) + (?x AND 0xff)"
  note st = strtoul_step [of b ?d v]
  have s: "unat ?v = (unat v * b + ?d) mod 2 ^ 32" "?w ?x > drop_bit 8 0xFFFFFFFF \<longleftrightarrow> 2 ^ 32 \<le> unat v * b + ?d"
    using st b(2) d(1) by simp_all
  have "strtoul_loop p (int b) v ov m = strtoul_loop (p + 1) (int b) ?v (ov \<or> 2 ^ 32 \<le> unat v * b + ?d) m"
    using Cons(2) d e nz s(2) by (subst strtoul_loop.simps) (simp add: Let_def dc del: of_nat_unat)
  moreover obtain v' where "strtoul_loop (p + 1) (int b) ?v (ov \<or> 2 ^ 32 \<le> unat v * b + ?d) m =
      Some (p + 1 + length cs, v', (ov \<or> 2 ^ 32 \<le> unat v * b + ?d) \<or> 2 ^ 32 \<le> value_of_chars b (unat ?v) cs)"
      "value_of_chars b (unat ?v) cs < 2 ^ 32 \<longrightarrow> unat v' = value_of_chars b (unat ?v) cs"
    using Cons(1) [of "p + 1" ?v "ov \<or> 2 ^ 32 \<le> unat v * b + ?d"] Cons(2,3) by auto
  moreover have "2 ^ 32 \<le> unat v * b + ?d \<Longrightarrow> 2 ^ 32 \<le> value_of_chars b (unat v * b + ?d) cs"
    using value_of_mono [of b "unat v * b + ?d" "map (\<lambda>c. unat (digit_value c)) cs"] b(1) by linarith
  moreover have "unat v * b + ?d < 2 ^ 32 \<Longrightarrow> unat ?v = unat v * b + ?d" unfolding s(1) by simp
  ultimately show ?case by (cases "2 ^ 32 \<le> unat v * b + ?d") auto
qed

lemma skip_space_ok: "holds m p (bl @ [c]) \<Longrightarrow> \<forall>c\<in>set bl. isspace (sint c) \<Longrightarrow> \<not> isspace (sint c) \<Longrightarrow> skip_space p m = Some (p + length bl)"
  by (induction bl arbitrary: p) (subst skip_space.simps, simp)+

lemma skip_sign_ok:
  assumes "holds m p (sg @ c # cs)" "sg = [] \<or> sg = [43] \<or> sg = [45]" "c \<noteq> 43" "c \<noteq> 45"
  shows "skip_sign p m = Some (sg = [45], p + length sg)"
  using assms by (auto simp: skip_sign_def)

lemma strtoul_base_ok:
  assumes "2 \<le> b" "b \<le> 36" "holds m p (cs @ [t])" "cs \<noteq> []" "\<forall>c\<in>set cs. uint (digit_value c) < int b"
    and x: "b = 16 \<Longrightarrow> t \<noteq> 120 \<and> t \<noteq> 88"
  shows "strtoul_base p (int b) m = Some (Some (p, int b))"
proof -
  obtain c cs' where cs: "cs = c # cs'" using assms(4) by (cases cs) auto
  have c: "rd m p = Some c" using assms(3) cs by simp
  have "uint (of_int (int b - 2) :: u32) = int b - 2" using assms(1,2) by (simp only: uint_word_of_int) simp
  then have b: "\<not> (of_int (int b - 2) :: u32) > 34" using assms(2) by (simp add: word_less_def)
  show ?thesis
  proof (cases "b = 16 \<and> c = 48")
    case True
    have nx: "\<exists>y. rd m (p + 1) = Some y \<and> y \<noteq> 120 \<and> y \<noteq> 88"
    proof (cases cs')
      case Nil
      then show ?thesis using assms(3) cs x True by simp
    next
      case (Cons y ys)
      then have "uint (digit_value y) < 33" using assms(5) cs True by auto
      then show ?thesis using assms(3) cs Cons digit_not_x by simp
    qed
    then show ?thesis using c True by (auto simp: strtoul_base_def skip0x_def)
  next
    case False
    then show ?thesis using c b assms(1) by (auto simp: strtoul_base_def)
  qed
qed

lemma strtoul_ok:
  assumes h: "holds m p (bl @ sg @ cs @ [t])" and bl: "\<forall>c\<in>set bl. isspace (sint c)" and sg: "sg = [] \<or> sg = [43] \<or> sg = [45]"
    and b: "2 \<le> b" "b \<le> 36" and cs: "cs \<noteq> []" "\<forall>c\<in>set cs. uint (digit_value c) < int b"
    and t: "t = 0 \<or> int b \<le> uint (digit_value t)" "b = 16 \<Longrightarrow> t \<noteq> 120 \<and> t \<noteq> 88"
  shows "strtoul p (Some e) (int b) m =
    Some (if 2 ^ 32 \<le> value_of_chars b 0 cs then 0xFFFFFFFF
          else if sg = [45] then - of_nat (value_of_chars b 0 cs) else of_nat (value_of_chars b 0 cs),
          Some (p + length bl + length sg + length cs))"
proof -
  obtain c cs' where c: "cs = c # cs'" using cs(1) by (cases cs) auto
  have "uint (digit_value c) < 36" using cs(2) c b(2) by auto
  note c' = digit_not_space [OF this]
  have h2: "holds m (p + length bl) (sg @ cs @ [t])" "holds m (p + length bl + length sg) (cs @ [t])"
    using h by (simp_all add: holds_append)
  obtain d ds where d: "sg @ cs @ [t] = d # ds" "\<not> isspace (sint d)" using sg c c'(1) by (auto simp: isspace_char)
  have "holds m p (bl @ [d])" using h d(1) by (simp add: holds_append)
  then have s: "skip_space p m = Some (p + length bl)" using skip_space_ok bl d(2) by blast
  have g: "skip_sign (p + length bl) m = Some (sg = [45], p + length bl + length sg)"
    using skip_sign_ok [of m "p + length bl" sg c "cs' @ [t]"] h2(1) c c'(3,4) sg by simp
  note bs = strtoul_base_ok [OF b h2(2) cs t(2)]
  obtain v' where "strtoul_loop (p + length bl + length sg) (int b) 0 False m =
      Some (p + length bl + length sg + length cs, v', 2 ^ 32 \<le> value_of_chars b 0 cs)"
      "value_of_chars b 0 cs < 2 ^ 32 \<longrightarrow> unat v' = value_of_chars b 0 cs"
    using strtoul_loop_ok [OF b t(1) h2(2) cs(2), of 0 False] by auto
  moreover then have "value_of_chars b 0 cs < 2 ^ 32 \<Longrightarrow> v' = of_nat (value_of_chars b 0 cs)" by (metis of_nat_unat ucast_id)
  ultimately show ?thesis using s g bs cs(1) by (auto simp: strtoul_def)
qed

text \<open>C37: strtoul reads the number its text denotes, and ULONG_MAX when that has no 32 bits.\<close>

theorem strtoul_reads:
  assumes "holds m p (bl @ sg @ cs @ [t])" "\<forall>c\<in>set bl. isspace (sint c)" "sg = [] \<or> sg = [43] \<or> sg = [45]"
    "2 \<le> b" "b \<le> 36" "cs \<noteq> []" "\<forall>c\<in>set cs. uint (digit_value c) < int b"
    "t = 0 \<or> int b \<le> uint (digit_value t)" "b = 16 \<Longrightarrow> t \<noteq> 120 \<and> t \<noteq> 88"
  shows "strtoul p (Some e) (int b) m =
    Some (if 2 ^ 32 \<le> value_of_chars b 0 cs then 0xFFFFFFFF
          else if sg = [45] then - of_nat (value_of_chars b 0 cs) else of_nat (value_of_chars b 0 cs),
          Some (p + length bl + length sg + length cs))"
  using assms by (rule strtoul_ok)

theorem strtoul_reads_witness:
  "strtoul 1 (Some 0) 10 [0, 32, 45, 49, 50, 46] = Some (- 12, Some 5)"
proof -
  have d: "\<forall>c\<in>set [49, 50]. uint (digit_value c) < int 10" "isspace (sint (32 :: u8))" "int 10 \<le> uint (digit_value 46)"
    "value_of_chars 10 0 [49, 50] = 12" by code_simp+
  show ?thesis using strtoul_reads [of "[0, 32, 45, 49, 50, 46]" 1 "[32]" "[45]" "[49, 50]" 46 10 0] d by simp
qed

section \<open>__ltostr\<close>

lemma tostr_loop_ok:
  fixes base :: "'w::len word"
  assumes b: "unat base = b" "2 \<le> b" "b \<le> 36"
  shows "unat i = n \<Longrightarrow> i \<noteq> 0 \<Longrightarrow> s + length (digits b n) \<le> tmp \<Longrightarrow> tmp \<le> length m \<Longrightarrow>
    tostr_loop s tmp i base up j m = Some (tmp - length (digits b n), j + of_nat (length (digits b n)),
      take (tmp - length (digits b n)) m @ map (\<lambda>d. digit_char d up) (digits b n) @ drop tmp m)"
proof (induction n arbitrary: i tmp j m rule: less_induct)
  case (less n)
  have n0: "0 < n" using less(2,3) by (metis gr0I unat_eq_zero)
  have q: "unat (i div base) = n div b" "unat (i mod base) = n mod b" using less(2) b(1) by (simp_all add: unat_div_distrib unat_mod_distrib)
  have lt: "s < tmp" "tmp - 1 < length m" using less(4,5) by (cases "digits b n"; simp)+
  let ?m = "m[tmp - 1 := digit_char (n mod b) up]"
  have st: "tostr_loop s tmp i base up j m = tostr_loop s (tmp - 1) (i div base) base up (j + 1) ?m"
    using less(3) lt q by (subst tostr_loop.simps) simp
  have dr: "drop (tmp - 1) ?m = digit_char (n mod b) up # drop tmp m"
    using lt by (simp add: Cons_nth_drop_Suc [symmetric])
  show ?case
  proof (cases "n < b")
    case True
    then have "i div base = 0" using q(1) by (metis div_less unat_eq_zero)
    then have "tostr_loop s (tmp - 1) (i div base) base up (j + 1) ?m = Some (tmp - 1, j + 1, ?m)" by (subst tostr_loop.simps) simp
    moreover have "?m = take (tmp - 1) m @ drop (tmp - 1) ?m" using lt by (metis append_take_drop_id take_update_cancel order_refl)
    ultimately show ?thesis using True st dr b(2) by (simp add: digits.simps [of b n])
  next
    case False
    then have dg: "digits b n = digits b (n div b) @ [n mod b]" using b(2) by (subst digits.simps) simp
    have "n div b < n" "i div base \<noteq> 0" using n0 b(2) False q(1) by (auto simp: div_eq_0_iff)
    then have "tostr_loop s (tmp - 1) (i div base) base up (j + 1) ?m =
        Some (tmp - 1 - length (digits b (n div b)), j + 1 + of_nat (length (digits b (n div b))),
          take (tmp - 1 - length (digits b (n div b))) ?m @ map (\<lambda>d. digit_char d up) (digits b (n div b)) @ drop (tmp - 1) ?m)"
      using less(1) [OF _ q(1), of "tmp - 1" ?m "j + 1"] less(4,5) lt by (simp add: dg)
    then show ?thesis using st dr by (simp add: dg add.assoc)
  qed
qed

lemma digits_length: "2 \<le> b \<Longrightarrow> n < b ^ Suc k \<Longrightarrow> length (digits b n) \<le> Suc k"
proof (induction k arbitrary: n)
  case 0 then show ?case by (simp add: digits.simps [of b n])
next
  case (Suc k)
  have "n div b < b ^ Suc k" using Suc(2,3) by (simp add: less_mult_imp_div_less mult.commute)
  then show ?case using Suc(1,2) by (subst digits.simps) simp
qed

lemma digits_length32: "2 \<le> b \<Longrightarrow> length (digits b (unat (i :: u32))) \<le> 32"
proof -
  assume b: "2 \<le> b"
  have "unat i < 2 ^ Suc 31" using unsigned_less [of i, where 'a = nat] by simp
  also have "(2 :: nat) ^ Suc 31 \<le> b ^ Suc 31" using b by (rule power_mono) simp
  finally have "unat i < b ^ Suc 31" .
  from digits_length [OF b this] show ?thesis by linarith
qed

lemma upd_pred: "0 < t \<Longrightarrow> t \<le> length xs \<Longrightarrow> xs[t - 1 := x] = take (t - 1) xs @ x # drop t xs"
  by (simp add: upd_conv_take_nth_drop)

lemma splice:
  assumes "length xs = k" "s + k \<le> length r"
  shows "length (take s r @ xs @ drop (s + k) r) = length r"
    "i < k \<Longrightarrow> (take s r @ xs @ drop (s + k) r) ! (s + i) = xs ! i"
    "i < s \<or> s + k \<le> i \<Longrightarrow> (take s r @ xs @ drop (s + k) r) ! i = r ! i"
  using assms by (auto simp: nth_append)

lemma ltostr_ok:
  assumes b: "unat base = b" "2 \<le> b" "b \<le> 36" and r: "length (digits b (unat i)) < unat sz" "s + unat sz \<le> length m"
  shows "\<exists>m'. ltostr s sz i base up m = Some (of_nat (length (digits b (unat i))), m') \<and> length m' = length m \<and>
    string_at m' s (map (\<lambda>d. digit_char d up) (digits b (unat i))) \<and> (\<forall>k. k < s \<or> s + unat sz \<le> k \<longrightarrow> m' ! k = m ! k)"
proof -
  let ?ds = "map (\<lambda>d. digit_char d up) (digits b (unat i))" and ?L = "length (digits b (unat i))"
  have L: "?L \<le> 32" by (rule digits_length32 [OF b(2)])
  have sz: "unat (sz - 1) = unat sz - 1" using r(1) by (cases "sz = 0") (simp_all add: unat_minus_one)
  let ?t = "s + (unat sz - 1)" and ?m = "m[s + (unat sz - 1) := 0]"
  have tm: "s + ?L \<le> ?t" "?t < length m" using r by auto
  have nb: "\<not> (base = 0 \<or> base > 36)" using b by (auto simp: word_less_nat_alt)
  let ?r = "take (?t - ?L) ?m @ ?ds @ drop ?t ?m"
  have loop: "\<exists>tmp1 j1 m1. (if i = 0 then do { m1 \<leftarrow> wr ?m (?t - 1) 48; Some (?t - 1, 1, m1) } else Some (?t, 0, ?m)) = Some (tmp1, j1, m1) \<and>
      tostr_loop s tmp1 i base up j1 m1 = Some (?t - ?L, of_nat ?L, ?r)"
  proof (cases "i = 0")
    case True
    have d0: "digits b 0 = [0]" using b by (simp add: digits.simps)
    have c0: "digit_char 0 up = 48" by (simp add: digit_char_def)
    have "?m[?t - 1 := 48] = take (?t - 1) ?m @ 48 # drop ?t ?m"
      by (rule upd_pred) (use tm r(1) True d0 in simp_all)
    then show ?thesis using True tm d0 c0 r(1) by (auto simp: tostr_loop.simps [of s])
  next
    case False
    then show ?thesis using tostr_loop_ok [OF b refl False, of s ?t ?m up 0] tm by simp
  qed
  have len: "unat (of_nat ?L + 1 :: u32) = ?L + 1" using L by (simp add: unat_word_ariths unat_of_nat)
  have rl: "length ?r = length m" using tm by simp
  have blk: "take (?L + 1) (drop (?t - ?L) ?r) = ?ds @ [0]"
    using tm by (simp add: take_Suc_conv_app_nth drop_Cons' Cons_nth_drop_Suc [symmetric])
  have mv: "memmove s (?t - ?L) (of_nat ?L + 1) ?r = Some (s, take s ?r @ (?ds @ [0]) @ drop (s + (?L + 1)) ?r)"
    using memmove_ok [of s "of_nat ?L + 1" ?r "?t - ?L"] tm rl blk r by (simp add: len)
  let ?f = "take s ?r @ (?ds @ [0]) @ drop (s + (?L + 1)) ?r"
  have res: "ltostr s sz i base up m = Some (of_nat ?L, ?f)"
    using loop nb tm mv sz by (auto simp: ltostr_def Let_def)
  have lf: "length (?ds @ [0]) = ?L + 1" "s + (?L + 1) \<le> length ?r" by simp (use rl tm in linarith)
  note sp = splice [OF lf]
  have lenf: "length ?f = length m" using sp(1) rl by (rule trans)
  have nz: "\<forall>k < ?L. ?ds ! k \<noteq> 0"
    using digits_bound [OF b(2)] b(3) digit_char_nonzero by (fastforce simp: all_set_conv_all_nth)
  have at: "?f ! (s + k) = ?ds ! k" if "k < ?L" for k
    using sp(2) [of k] that by (simp only: nth_append length_map if_True less_Suc_eq Suc_eq_plus1 [symmetric]) simp
  have "?f ! (s + ?L) = 0" using sp(2) [of ?L] by (simp only: nth_append length_map less_irrefl if_False) simp
  then have str: "string_at ?f s ?ds" unfolding string_at_iff length_map lenf using nz at tm by auto
  have fr: "?f ! k = m ! k" if "k < s \<or> s + unat sz \<le> k" for k
  proof -
    have "k < s \<or> s + (?L + 1) \<le> k" using that r(1) by linarith
    then have "?f ! k = ?r ! k" by (rule sp(3))
    also have "\<dots> = ?m ! k"
    proof -
      have "k < ?t - ?L \<or> ?t - ?L + ?L \<le> k" "?t - ?L + ?L = ?t" using that tm r(1) by linarith+
      then show ?thesis using splice(3) [of ?ds ?L "?t - ?L" ?m k] tm by simp
    qed
    also have "\<dots> = m ! k" using that r(1) by auto
    finally show ?thesis .
  qed
  show ?thesis using res lenf str fr by blast
qed

section \<open>There and back\<close>

lemma value_of_text:
  assumes "2 \<le> b" "b \<le> 36"
  shows "value_of_chars b 0 (map (\<lambda>d. digit_char d up) (digits b n)) = n"
proof -
  have "unat (digit_value (digit_char d up)) = d" if "d \<in> set (digits b n)" for d
  proof -
    have "d < 36" using digits_bound [OF assms(1)] assms(2) that by fastforce
    then have "uint (digit_value (digit_char d up)) = int d" by (rule digit_char_value)
    then show ?thesis by (simp only: unat_eq_nat_uint nat_int)
  qed
  then have "map ((\<lambda>c. unat (digit_value c)) \<circ> (\<lambda>d. digit_char d up)) (digits b n) = digits b n" by (simp add: map_idI)
  then show ?thesis using value_of_digits [OF assms(1)] by (simp add: comp_def)
qed

text \<open>C38: strtoul reads back the number that __ltostr wrote, in every base.\<close>

theorem strtoul_ltostr:
  assumes "2 \<le> base" "base \<le> 36" "length (digits (unat base) (unat i)) < unat sz" "s + unat sz \<le> length m"
  shows "\<exists>l m'. ltostr s sz i base up m = Some (l, m') \<and> strtoul s (Some e) (int (unat base)) m' = Some (i, Some (s + unat l)) \<and>
    (\<forall>k. k < s \<or> s + unat sz \<le> k \<longrightarrow> m' ! k = m ! k)"
proof -
  have b: "2 \<le> unat base" "unat base \<le> 36" using assms(1,2) by (simp_all add: word_le_nat_alt)
  let ?ds = "digits (unat base) (unat i)" and ?cs = "map (\<lambda>d. digit_char d up) (digits (unat base) (unat i))"
  obtain m' where m: "ltostr s sz i base up m = Some (of_nat (length ?ds), m')" "string_at m' s ?cs"
    "\<forall>k. k < s \<or> s + unat sz \<le> k \<longrightarrow> m' ! k = m ! k"
    using ltostr_ok [OF refl b assms(3,4), of up] by auto
  have d: "\<forall>c\<in>set ?cs. uint (digit_value c) < int (unat base)"
  proof
    fix c assume "c \<in> set ?cs"
    then obtain x where x: "c = digit_char x up" "x \<in> set ?ds" by auto
    then have "x < unat base" using digits_bound [OF b(1)] by blast
    then show "uint (digit_value c) < int (unat base)" unfolding x(1) using b(2) digit_char_value [of x up] by linarith
  qed
  have "strtoul s (Some e) (int (unat base)) m' = Some (i, Some (s + length ?ds))"
    using strtoul_ok [of m' s "[]" "[]" ?cs 0 "unat base" e] holds_string [OF m(2)] b d value_of_text [OF b]
      unsigned_less [of i, where 'a = nat] by simp
  moreover have "unat (of_nat (length ?ds) :: u32) = length ?ds" using digits_length32 [OF b(1), of i] by (simp add: unat_of_nat)
  ultimately show ?thesis using m(1,3) by auto
qed

theorem strtoul_ltostr_witness:
  "\<exists>l m'. ltostr 1 9 255 16 True (replicate 10 7) = Some (l, m') \<and> strtoul 1 (Some 0) 16 m' = Some (255, Some (1 + unat l)) \<and>
    (\<forall>k. (1 \<le> k \<and> k < 10) \<or> m' ! k = replicate 10 7 ! k)"
proof -
  have "length (digits 16 255) = 2" by (simp add: digits.simps)
  then obtain l m' where r: "ltostr 1 9 255 16 True (replicate 10 7) = Some (l, m')" "strtoul 1 (Some 0) 16 m' = Some (255, Some (1 + unat l))"
    "\<forall>k. k < 1 \<or> 10 \<le> k \<longrightarrow> m' ! k = replicate 10 7 ! k"
    using strtoul_ltostr [of 16 255 9 1 "replicate 10 7" True 0] by auto
  have "\<forall>k. (1 \<le> k \<and> k < 10) \<or> m' ! k = replicate 10 7 ! k" using r(3) by (meson not_le)
  then show ?thesis using r by blast
qed

section \<open>atexit and exit\<close>

primrec register :: "'f list \<Rightarrow> 'f exits \<Rightarrow> 'f exits option" where
  "register [] e = Some e"
| "register (f # fs) e = do { (r, e1) \<leftarrow> atexit f e; if r = 0 then register fs e1 else None }"

lemma register_ok:
  "atexit_func e = map Some gs @ replicate k None \<Longrightarrow> atexit_nr e = length gs \<Longrightarrow> length gs + k = ATEXIT_MAX \<Longrightarrow> length fs \<le> k \<Longrightarrow>
   \<exists>e'. register fs e = Some e' \<and> atexit_func e' = map Some (gs @ fs) @ replicate (k - length fs) None \<and> atexit_nr e' = length (gs @ fs)"
proof (induction fs arbitrary: e gs k)
  case Nil then show ?case by simp
next
  case (Cons f fs)
  then obtain k' where k: "k = Suc k'" by (cases k) auto
  let ?e = "e\<lparr>atexit_func := map Some (gs @ [f]) @ replicate k' None, atexit_nr := length (gs @ [f])\<rparr>"
  have "atexit f e = Some (0, ?e)" using Cons(2-4) k by (simp add: atexit_def list_update_append)
  moreover have "\<exists>e'. register fs ?e = Some e' \<and> atexit_func e' = map Some ((gs @ [f]) @ fs) @ replicate (k' - length fs) None \<and> atexit_nr e' = length ((gs @ [f]) @ fs)"
    by (rule Cons(1)) (use Cons(4,5) k in simp_all)
  ultimately show ?case using k by simp
qed

lemma exit_loop_ok:
  assumes "\<And>f e w. run f (e, w) = Some (e, g f w)" "atexit_func e = map Some fs @ rest"
  shows "n \<le> length fs \<Longrightarrow> exit_loop run n (e, w) = Some (e, foldr g (take n fs) w)"
proof (induction n arbitrary: w)
  case (Suc n)
  then show ?case using assms by (simp add: nth_append take_Suc_conv_app_nth)
qed simp

text \<open>exit calls the functions that atexit took in the reverse order.\<close>

lemma exit_reverse:
  assumes "\<And>f e w. run f (e, w) = Some (e, g f w)" "length fs \<le> ATEXIT_MAX"
  shows "\<exists>e. register fs exits_init = Some e \<and> exit run (e, w) = Some (e, foldr g fs w)"
  using register_ok [of exits_init "[]" ATEXIT_MAX fs] exit_loop_ok [OF assms(1)] assms(2) by (auto simp: exits_init_def exit_def)

end
