(* ===== verification/PFormatLib.thy ===== *)
theory PFormatLib
  imports PFormat PStdlibNum
begin

unbundle bit_operations_syntax

text \<open>
  Where formatted output writes: an interface for the function put of __v_printf, what
  __v_printf keeps for every put that has it, and its instance for vsnprintf.
\<close>

section \<open>Memories that agree outside a set\<close>

definition agree_outside :: "nat set \<Rightarrow> cmem \<Rightarrow> cmem \<Rightarrow> bool" where
  "agree_outside A m m' \<longleftrightarrow> length m' = length m \<and> (\<forall>i. i \<notin> A \<longrightarrow> m' ! i = m ! i)"

lemma agree_refl [simp]: "agree_outside A m m"
  by (simp add: agree_outside_def)

lemma agree_trans: "agree_outside A m m1 \<Longrightarrow> agree_outside A m1 m2 \<Longrightarrow> agree_outside A m m2"
  by (simp add: agree_outside_def)

lemma agree_mono: "agree_outside A m m' \<Longrightarrow> A \<subseteq> B \<Longrightarrow> agree_outside B m m'"
  by (auto simp: agree_outside_def)

lemma agree_wr: "wr m i v = Some m' \<Longrightarrow> i \<in> A \<Longrightarrow> agree_outside A m m'"
  by (auto simp: agree_outside_def wr_eq_Some_iff nth_list_update)

lemma tostr_loop_agree:
  "tostr_loop s tmp i base up j m = Some (tmp', j', m') \<Longrightarrow> s \<le> tmp \<Longrightarrow>
   s \<le> tmp' \<and> tmp' \<le> tmp \<and> j' = j + of_nat (tmp - tmp') \<and> agree_outside {s..<tmp} m m'"
proof (induction "tmp - s" arbitrary: tmp i j m)
  case 0 then show ?case by (subst (asm) tostr_loop.simps) simp
next
  case (Suc k)
  show ?case
  proof (cases "tmp > s \<and> i \<noteq> 0")
    case False
    then show ?thesis using Suc(3,4) by (subst (asm) tostr_loop.simps) auto
  next
    case True
    let ?c = "digit_char (unat (i mod base)) up"
    obtain m1 where m1: "wr m (tmp - 1) ?c = Some m1" "tostr_loop s (tmp - 1) (i div base) base up (j + 1) m1 = Some (tmp', j', m')"
      using Suc(3) True by (subst (asm) tostr_loop.simps) (auto split: Option.bind_splits)
    have ih: "s \<le> tmp'" "tmp' \<le> tmp - 1" "j' = j + 1 + of_nat (tmp - 1 - tmp')" "agree_outside {s..<tmp - 1} m1 m'"
      using Suc(1) [OF _ m1(2)] Suc(2) True by auto
    have "tmp - tmp' = Suc (tmp - 1 - tmp')" using ih(2) True by linarith
    then have e: "of_nat (tmp - tmp') = 1 + (of_nat (tmp - 1 - tmp') :: u32)" by simp
    have "agree_outside {s..<tmp} m m1" by (rule agree_wr [OF m1(1)]) (use True in auto)
    moreover have "agree_outside {s..<tmp} m1 m'" using ih(4) by (rule agree_mono) auto
    ultimately have "agree_outside {s..<tmp} m m'" by (rule agree_trans)
    moreover have "j' = j + of_nat (tmp - tmp')" unfolding e ih(3) by (rule add.assoc)
    ultimately show ?thesis using ih(1,2) by auto
  qed
qed

lemma tostr_store:
  assumes w: "wr m (s + 122) 0 = Some m0"
    and z: "(if i = 0 then do { m1 \<leftarrow> wr m0 (s + 122 - 1) 48; Some (s + 122 - 1, 1, m1) } else Some (s + 122, 0, m0)) = Some (tmp1, j1, m1)"
    and l: "tostr_loop s tmp1 i b up j1 m1 = Some (tmp2, j, m2)" and v: "memmove s tmp2 (j + 1) m2 = Some (x, m3)"
  shows "agree_outside {s..<s + 123} m m3"
proof -
  have a0: "agree_outside {s..<s + 123} m m0" by (rule agree_wr [OF w]) simp
  have a1: "agree_outside {s..<s + 123} m0 m1" "s \<le> tmp1" "tmp1 \<le> s + 122" "j1 = of_nat (s + 122 - tmp1)"
    using z by (auto split: if_splits Option.bind_splits intro: agree_wr)
  note a2 = tostr_loop_agree [OF l a1(2)]
  have "agree_outside {s..<s + 123} m1 m2" by (rule agree_mono [OF a2 [THEN conjunct2, THEN conjunct2, THEN conjunct2]]) (use a1(3) in auto)
  then have a: "agree_outside {s..<s + 123} m m2" using a0 a1(1) agree_trans by blast
  have j: "j = of_nat (s + 122 - tmp2)" using a1(2-4) a2 by (simp add: of_nat_diff)
  have "s + 122 - tmp2 < 123" using a2 by linarith
  then have ju: "unat (j + 1) = s + 122 - tmp2 + 1" unfolding j by (simp add: unat_word_ariths unat_of_nat)
  have len: "s + 122 < length m2" "length m2 = length m" using w a by (auto simp: wr_eq_Some_iff agree_outside_def)
  have "m3 = take s m2 @ take (unat (j + 1)) (drop tmp2 m2) @ drop (s + unat (j + 1)) m2"
    using memmove_ok [of s "j + 1" m2 tmp2] len ju a1(3) a2 v by auto
  moreover have "length (take (unat (j + 1)) (drop tmp2 m2)) = unat (j + 1)" "s + unat (j + 1) \<le> length m2" using len ju a1(3) a2 by auto
  ultimately have "agree_outside {s..<s + 123} m2 m3" using splice [of "take (unat (j + 1)) (drop tmp2 m2)" "unat (j + 1)" s m2] ju a2 by (auto simp: agree_outside_def)
  then show ?thesis using a agree_trans by blast
qed

lemma minus_one_123: "unat (123 - 1 :: u32) = 122"
  by simp

lemma ltostr_agree:
  assumes "ltostr s 123 i base up m = Some (j, m')"
  shows "agree_outside {s..<s + 123} m m'"
  using assms unfolding ltostr_def Let_def bind_eq_Some_conv split_paired_Ex prod.case option.inject prod.inject minus_one_123
  by (elim exE conjE) (rule tostr_store, assumption+, simp)

lemma lltostr_agree:
  assumes "lltostr s 123 i base up m = Some (j, m')"
  shows "agree_outside {s..<s + 123} m m'"
  using assms unfolding lltostr_def Let_def bind_eq_Some_conv split_paired_Ex prod.case option.inject prod.inject minus_one_123
  by (elim exE conjE) (rule tostr_store, assumption+, simp)

section \<open>What every writer keeps\<close>

text \<open>
  The interface of put: it keeps good of its data and writes to the set A of addresses
  only.  The client, __v_printf, then writes to A and to its buffer only.
\<close>

locale writer =
  fixes put :: "'d put" and good :: "'d \<Rightarrow> bool" and A :: "nat set" and en :: penv
  assumes put_keeps: "put bs (d, m) = Some (d', m') \<Longrightarrow> good d \<Longrightarrow> good d' \<and> agree_outside A m m'"
begin

definition area :: "nat set" where
  "area = A \<union> {env_buf en..<env_buf en + 128}"

definition keeps :: "'d \<times> cmem \<Rightarrow> 'd \<times> cmem \<Rightarrow> bool" where
  "keeps s s' \<longleftrightarrow> (good (fst s) \<longrightarrow> good (fst s') \<and> agree_outside area (snd s) (snd s'))"

lemma keeps_refl [simp]: "keeps s s"
  by (simp add: keeps_def)

lemma keeps_trans: "keeps s s1 \<Longrightarrow> keeps s1 s2 \<Longrightarrow> keeps s s2"
  by (auto simp: keeps_def intro: agree_trans)

lemma keeps_put: "put bs s = Some s' \<Longrightarrow> keeps s s'"
  using put_keeps [of bs "fst s" "snd s" "fst s'" "snd s'"]
  by (auto simp: keeps_def area_def intro: agree_mono)

lemma keeps_mem: "agree_outside {env_buf en..<env_buf en + 128} m m' \<Longrightarrow> keeps (d, m) (d, m')"
  by (auto simp: keeps_def area_def intro: agree_mono)

lemma keeps_wr: "wr m i v = Some m' \<Longrightarrow> env_buf en \<le> i \<Longrightarrow> i < env_buf en + 128 \<Longrightarrow> keeps (d, m) (d, m')"
  by (rule keeps_mem, rule agree_wr) simp_all

lemma emit_keeps: "emit put p n o1 = Some o2 \<Longrightarrow> keeps (snd o1) (snd o2)"
  by (auto simp: emit_def bind_eq_Some_conv split: prod.splits intro: keeps_put)

lemma write_pad_loop_keeps: "write_pad_loop put n c nr s = Some (nr', s') \<Longrightarrow> keeps s s'"
proof (induction "nat n" arbitrary: n nr s rule: less_induct)
  case less
  consider "n > 15" | "n \<le> 15" "n > 0" | "n \<le> 0" by linarith
  then show ?case
  proof cases
    case 1
    then obtain s1 where s1: "put (replicate 16 (pad_char c)) s = Some s1" "write_pad_loop put (n - 16) c (nr + 16) s1 = Some (nr', s')"
      using less(2) by (subst (asm) write_pad_loop.simps) (auto simp: bind_eq_Some_conv)
    have "keeps s1 s'" using less(1) [OF _ s1(2)] 1 by simp
    then show ?thesis using keeps_put [OF s1(1)] keeps_trans by blast
  next
    case 2
    then show ?thesis using less(2) by (subst (asm) write_pad_loop.simps) (auto simp: bind_eq_Some_conv intro: keeps_put)
  next
    case 3
    then show ?thesis using less(2) by (subst (asm) write_pad_loop.simps) simp
  qed
qed

lemma write_pad_keeps: "write_pad put n c o1 = Some o2 \<Longrightarrow> keeps (snd o1) (snd o2)"
  by (auto simp: write_pad_def bind_eq_Some_conv split: prod.splits dest: write_pad_loop_keeps)

lemma sign_keeps: "(if t \<noteq> 0 then emit put s t o1 else Some o1) = Some o2 \<Longrightarrow> keeps (snd o1) (snd o2)"
  by (auto split: if_splits dest: emit_keeps)

lemma print_out_keeps: "print_out put s sz f o1 = Some o2 \<Longrightarrow> keeps (snd o1) (snd o2)"
  unfolding print_out_def Let_def
  by (auto simp: bind_eq_Some_conv split: if_splits dest!: emit_keeps write_pad_keeps) (blast intro: keeps_trans)+

lemma put_char_keeps: "put_char put c o1 = Some o2 \<Longrightarrow> keeps (snd o1) (snd o2)"
  by (auto simp: put_char_def bind_eq_Some_conv split: prod.splits intro: keeps_put)

lemma num_sign_keeps: "num_sign (env_buf en + 1) sz f m = Some (s2, sz2, f2, m2) \<Longrightarrow> keeps (d, m) (d, m2)"
  by (auto simp: num_sign_def bind_eq_Some_conv split: if_splits intro: keeps_wr)

lemma tostr_keeps:
  assumes "(if c then lltostr (env_buf en + 1 + unat sz) 123 ll base up m else ltostr (env_buf en + 1 + unat sz) 123 n base up m) = Some (j, m')" "unat sz \<le> 2"
  shows "keeps (d, m) (d, m')"
proof -
  have "agree_outside {env_buf en + 1 + unat sz..<env_buf en + 1 + unat sz + 123} m m'"
    using assms(1) by (auto split: if_splits dest: ltostr_agree lltostr_agree)
  then have "agree_outside {env_buf en..<env_buf en + 128} m m'" by (rule agree_mono) (use assms(2) in auto)
  then show ?thesis by (rule keeps_mem)
qed

lemma num_printf_keeps:
  assumes "num_printf en put base sz f args o1 = Some (args', o2)" "unat sz \<le> 2"
  shows "keeps (snd o1) (snd o2)"
proof -
  obtain len d m where o1: "o1 = (len, d, m)" by (cases o1) auto
  obtain f1 :: pflags and number ll retval m1 z1 z2 s2 sz2 f3 m2 where
    n: "(if flag_long f1 > 1 then lltostr (env_buf en + 1 + unat sz) 123 ll base (flag_upcase f1) m
         else ltostr (env_buf en + 1 + unat sz) 123 number base (flag_upcase f1) m) = Some (retval, m1)"
    and s: "num_sign (env_buf en + 1) z1 z2 m1 = Some (s2, sz2, f3, m2)"
    and p: "print_out put s2 sz2 f3 (len, d, m2) = Some o2"
    using assms(1) unfolding o1 num_printf_def prod.case Let_def by (auto simp: bind_eq_Some_conv simp del: One_nat_def split del: if_split)
  have "keeps (d, m2) (snd o2)" using print_out_keeps [OF p] by simp
  then show ?thesis unfolding o1 using tostr_keeps [OF n assms(2)] num_sign_keeps [OF s] keeps_trans by (metis snd_conv)
qed

lemma keeps_buf:
  "wr m (env_buf en + 1) v = Some m1 \<Longrightarrow> keeps (d, m) (d, m1)"
  "wr m (env_buf en + 2) v = Some m1 \<Longrightarrow> keeps (d, m) (d, m1)"
  by (auto intro: keeps_wr)

lemma str_printf_keeps: "str_printf en put f args o1 = Some (args', o2) \<Longrightarrow> keeps (snd o1) (snd o2)"
  by (auto simp: str_printf_def Let_def bind_eq_Some_conv dest: print_out_keeps)

lemma hex_printf_keeps:
  assumes "hex_printf en put ch f args o1 = Some (args', o2)"
  shows "keeps (snd o1) (snd o2)"
proof -
  obtain len d m where o1: "o1 = (len, d, m)" by (cases o1) auto
  show ?thesis
  proof (cases "flag_hash f = 0")
    case True
    then show ?thesis using assms by (auto simp: hex_printf_def o1 dest!: num_printf_keeps)
  next
    case False
    then obtain m0 m1 f1 where w: "wr m (env_buf en + 1) 48 = Some m0" "wr m0 (env_buf en + 2) ch = Some m1"
        "num_printf en put 16 2 f1 args (len, d, m1) = Some (args', o2)"
      using assms by (auto simp: hex_printf_def o1 bind_eq_Some_conv simp del: One_nat_def)
    have "keeps (d, m1) (snd o2)" using num_printf_keeps [OF w(3)] by simp
    then show ?thesis using keeps_buf(1) [OF w(1)] keeps_buf(2) [OF w(2)] unfolding o1 by (metis keeps_trans snd_conv)
  qed
qed

lemma oct_printf_keeps:
  assumes "oct_printf en put f args o1 = Some (args', o2)"
  shows "keeps (snd o1) (snd o2)"
proof -
  obtain len d m where o1: "o1 = (len, d, m)" by (cases o1) auto
  show ?thesis
  proof (cases "flag_hash f = 0")
    case True
    then show ?thesis using assms by (auto simp: oct_printf_def o1 dest!: num_printf_keeps)
  next
    case False
    then obtain m1 f1 where w: "wr m (env_buf en + 1) 48 = Some m1" "num_printf en put 8 1 f1 args (len, d, m1) = Some (args', o2)"
      using assms by (auto simp: oct_printf_def o1 bind_eq_Some_conv simp del: One_nat_def)
    have "keeps (d, m1) (snd o2)" using num_printf_keeps [OF w(2)] by simp
    then show ?thesis using keeps_buf(1) [OF w(1)] unfolding o1 by (metis keeps_trans snd_conv)
  qed
qed

lemma convert_keeps: "convert en put ch f args o1 = Some (args', o2) \<Longrightarrow> keeps (snd o1) (snd o2)"
  unfolding convert_def
  by (auto simp: bind_eq_Some_conv split: if_splits
      dest: put_char_keeps str_printf_keeps hex_printf_keeps oct_printf_keeps num_printf_keeps)

lemma v_printf_keeps_aux:
  assumes "v_printf e p fmt as o1 = Some r"
  shows "e = en \<longrightarrow> p = put \<longrightarrow> keeps (snd o1) (snd r)"
proof (rule v_printf.raw_induct [where P = "\<lambda>e p fmt as o1 r. e = en \<longrightarrow> p = put \<longrightarrow> keeps (snd o1) (snd r)", OF _ assms], intro impI)
  fix rec e p fmt as r and o1 :: "'d out"
  assume ih: "\<And>e p fmt as o1 r. rec e p fmt as o1 = Some r \<Longrightarrow> e = en \<longrightarrow> p = put \<longrightarrow> keeps (snd o1) (snd r)"
    and r: "do { c \<leftarrow> rd (snd (snd o1)) fmt;
     if c = 0 then Some (sint (fst o1), snd o1)
     else do {
       sz \<leftarrow> skip_to fmt (snd (snd o1));
       o2 \<leftarrow> (if sz \<noteq> 0 then emit p fmt sz o1 else Some o1);
       c1 \<leftarrow> rd (snd (snd o2)) (fmt + sz);
       if c1 = 37 then do {
         (ch, format1, args1, f) \<leftarrow> inn_printf (fmt + sz + 1) as pflags_init (snd (snd o2));
         case ch of
           None \<Rightarrow> Some (-1, snd o2)
         | Some ch1 \<Rightarrow> do { (args2, o3) \<leftarrow> convert e p ch1 f args1 o2; rec e p format1 args2 o3 } }
       else rec e p (fmt + sz) as o2 } } = Some r"
    and e: "e = en" "p = put"
  show "keeps (snd o1) (snd r)"
  proof (cases "rd (snd (snd o1)) fmt = Some 0")
    case True
    then show ?thesis using r by auto
  next
    case False
    then obtain sz o2 and c1 :: u8 where o2: "(if sz \<noteq> 0 then emit put fmt sz o1 else Some o1) = Some o2"
      and r2: "(if c1 = 37 then do {
         (ch, format1, args1, f) \<leftarrow> inn_printf (fmt + sz + 1) as pflags_init (snd (snd o2));
         case ch of
           None \<Rightarrow> Some (-1, snd o2)
         | Some ch1 \<Rightarrow> do { (args2, o3) \<leftarrow> convert en put ch1 f args1 o2; rec en put format1 args2 o3 } }
       else rec en put (fmt + sz) as o2) = Some r"
      using r unfolding e by (auto simp: bind_eq_Some_conv split del: if_split)
    have k: "keeps (snd o1) (snd o2)" using o2 by (auto split: if_splits dest: emit_keeps)
    have "keeps (snd o2) (snd r)"
      using r2 by (auto simp: bind_eq_Some_conv split: if_splits option.splits dest!: convert_keeps ih intro: keeps_trans)
    then show ?thesis using k keeps_trans by blast
  qed
qed

lemma v_printf_keeps: "v_printf en put fmt as o1 = Some r \<Longrightarrow> keeps (snd o1) (snd r)"
  using v_printf_keeps_aux by simp

end

lemma v_printf_range:
  assumes "v_printf e p fmt as o1 = Some r"
  shows "- (2 ^ 31) \<le> fst r \<and> fst r < 2 ^ 31"
proof (rule v_printf.raw_induct [where P = "\<lambda>e p fmt as o1 r. - (2 ^ 31) \<le> fst r \<and> fst r < 2 ^ 31", OF _ assms])
  fix rec e p fmt as r and o1 :: "'d out"
  assume ih: "\<And>e p fmt as o1 r. rec e p fmt as o1 = Some r \<Longrightarrow> - (2 ^ 31) \<le> fst r \<and> fst r < 2 ^ 31"
    and r: "do { c \<leftarrow> rd (snd (snd o1)) fmt;
     if c = 0 then Some (sint (fst o1), snd o1)
     else do {
       sz \<leftarrow> skip_to fmt (snd (snd o1));
       o2 \<leftarrow> (if sz \<noteq> 0 then emit p fmt sz o1 else Some o1);
       c1 \<leftarrow> rd (snd (snd o2)) (fmt + sz);
       if c1 = 37 then do {
         (ch, format1, args1, f) \<leftarrow> inn_printf (fmt + sz + 1) as pflags_init (snd (snd o2));
         case ch of
           None \<Rightarrow> Some (-1, snd o2)
         | Some ch1 \<Rightarrow> do { (args2, o3) \<leftarrow> convert e p ch1 f args1 o2; rec e p format1 args2 o3 } }
       else rec e p (fmt + sz) as o2 } } = Some r"
  have s: "- (2 ^ 31) \<le> sint (fst o1) \<and> sint (fst o1) < 2 ^ 31" using sint_greater_eq [of "fst o1"] sint_less [of "fst o1"] by simp
  show "- (2 ^ 31) \<le> fst r \<and> fst r < 2 ^ 31"
  proof (cases "rd (snd (snd o1)) fmt = Some 0")
    case True
    then show ?thesis using r s by auto
  next
    case False
    then obtain sz o2 and c1 :: u8 where
      "(if c1 = 37 then do {
         (ch, format1, args1, f) \<leftarrow> inn_printf (fmt + sz + 1) as pflags_init (snd (snd o2));
         case ch of
           None \<Rightarrow> Some (-1, snd o2)
         | Some ch1 \<Rightarrow> do { (args2, o3) \<leftarrow> convert e p ch1 f args1 o2; rec e p format1 args2 o3 } }
       else rec e p (fmt + sz) as o2) = Some r"
      using r by (auto simp: bind_eq_Some_conv split del: if_split)
    then show ?thesis
      by (cases "c1 = 37") (auto simp: bind_eq_Some_conv split: option.splits dest!: ih)
  qed
qed

section \<open>vsnprintf\<close>

definition sd_good :: "nat \<Rightarrow> u32 \<Rightarrow> str_data \<Rightarrow> bool" where
  "sd_good str n sd \<longleftrightarrow> sd_str sd = str \<and> sd_size sd = n \<and> sd_len sd \<le> n"

lemma swrite_keeps:
  assumes "swrite bs (sd, m) = Some (sd', m')" "sd_good str n sd"
  shows "sd_good str n sd' \<and> agree_outside {str..<str + unat n + 1} m m'"
proof (cases "sd_len sd = n")
  case True
  then show ?thesis using assms by (simp add: swrite_def sd_good_def Let_def)
next
  case False
  let ?tmp = "n - sd_len sd" and ?l = "unat (sd_len sd)"
  let ?k = "if length bs > unat ?tmp then unat ?tmp else length bs"
  have le: "sd_len sd \<le> n" "sd_size sd = n" "sd_str sd = str" using assms(2) by (simp_all add: sd_good_def)
  have t: "unat ?tmp = unat n - ?l" using le(1) by (rule unat_sub)
  have pos: "?tmp > 0" using False by (simp add: word_gt_0)
  have k: "?l + ?k \<le> unat n" "?k < 2 ^ 32" using t le(1) unsigned_less [of n, where 'a = nat] by (auto simp: word_le_nat_alt)
  have ku: "unat (of_nat ?k :: u32) = ?k" using k(2) by (simp only: unat_of_nat) simp
  have len: "sd_len sd + of_nat ?k \<le> n"
  proof -
    have "unat (sd_len sd + of_nat ?k) = ?l + ?k" using k(1) ku unsigned_less [of n, where 'a = nat] by (simp only: unat_word_ariths ku) simp
    then show ?thesis using k(1) by (simp add: word_le_nat_alt)
  qed
  have s: "sd' = sd\<lparr>sd_len := sd_len sd + of_nat ?k\<rparr>"
    using assms(1) pos le by (auto simp: swrite_def Let_def bind_eq_Some_conv split: if_splits)
  then have good: "sd_good str n sd'" using len le by (simp add: sd_good_def)
  have "agree_outside {str..<str + unat n + 1} m m'"
  proof (cases "str = 0")
    case True
    then show ?thesis using assms(1) pos le by (auto simp: swrite_def Let_def split: if_splits)
  next
    case False
    then obtain m0 where m0: "memcpy m (str + ?l) bs 0 ?k = Some m0" "wr m0 (str + ?l + ?k) 0 = Some m'"
      using assms(1) pos le unfolding swrite_def Let_def by (auto simp: bind_eq_Some_conv split del: if_split)
    have "agree_outside {str..<str + unat n + 1} m m0"
      using memcpy_length [OF m0(1)] memcpy_nth [OF m0(1)] k(1) m0(1) by (auto simp: agree_outside_def memcpy_def nth_append split: if_splits)
    moreover have "agree_outside {str..<str + unat n + 1} m0 m'" by (rule agree_wr [OF m0(2)]) (use k(1) in auto)
    ultimately show ?thesis by (rule agree_trans)
  qed
  then show ?thesis using good by simp
qed

interpretation str_writer: writer swrite "sd_good str n" "{str..<str + unat n + 1}" en for str n en
  by unfold_locales (rule swrite_keeps)



end
