(* ===== verification/PFormatInt.thy ===== *)
theory PFormatInt
  imports PFormatLib
begin

unbundle bit_operations_syntax

text \<open>
  What the conversion d prints: the decimal text of the number, for every int, and that
  strtol reads it back.
\<close>

definition int_text :: "int \<Rightarrow> u8 list" where
  "int_text i = (if i < 0 then [45] else []) @ map (\<lambda>d. digit_char d False) (digits 10 (nat \<bar>i\<bar>))"

definition magnitude :: "u32 \<Rightarrow> u32" where
  "magnitude x = (if sint x < 0 then - x else x)"

lemma sint_uint_cases: "sint (x :: u32) = (if uint x < 2 ^ 31 then uint x else uint x - 2 ^ 32)"
proof -
  have "sint x = (uint x + 2 ^ 31) mod 2 ^ 32 - 2 ^ 31"
    by (simp only: sint_uint signed_take_bit_eq_take_bit_shift) (simp add: take_bit_eq_mod)
  then show ?thesis using uint_lt2p [of x] mod_above [of "2 ^ 32" "uint x + 2 ^ 31"] mod_pos_pos_trivial [of "uint x + 2 ^ 31" "2 ^ 32"] by auto
qed

lemma sint_of_nat_small:
  assumes "n < 2 ^ 31"
  shows "sint (of_nat n :: u32) = int n"
proof -
  have "unat (of_nat n :: u32) = n" using assms by (simp only: unat_of_nat) simp
  then have "uint (of_nat n :: u32) = int n" unfolding uint_nat by simp
  then show ?thesis unfolding sint_uint_cases using assms by simp
qed

lemma unat_magnitude: "unat (magnitude x) = nat \<bar>sint x\<bar>"
proof (cases "sint x < 0")
  case True
  then have u: "2 ^ 31 \<le> uint x" "sint x = uint x - 2 ^ 32" unfolding sint_uint_cases using uint_nonnegative [of x] by (auto split: if_splits)
  have "uint (- x) = (- uint x) mod 2 ^ 32" by (simp add: uint_word_ariths)
  also have "\<dots> = 2 ^ 32 - uint x" using u(1) uint_lt2p [of x] mod_below [of "- uint x" "2 ^ 32"] by simp
  finally have "uint (- x) = \<bar>sint x\<bar>" using u True by linarith
  then show ?thesis unfolding magnitude_def unat_eq_nat_uint using True by (simp only: if_True)
next
  case False
  then have "sint x = uint x" unfolding sint_uint_cases using uint_lt2p [of x] by (auto split: if_splits)
  then have "\<bar>sint x\<bar> = uint x" using False by linarith
  then show ?thesis unfolding magnitude_def unat_eq_nat_uint using False by (simp only: if_False)
qed

lemma pflags_init_fields [simp]:
  "flag_in_sign pflags_init = 0" "\<not> flag_upcase pflags_init" "flag_hash pflags_init = 0" "\<not> flag_left pflags_init"
  "\<not> flag_space pflags_init" "\<not> flag_sign pflags_init" "\<not> flag_dot pflags_init" "flag_long pflags_init = 0"
  "fmt_width pflags_init = 0" "fmt_preci pflags_init = 0" "fmt_padwith pflags_init = 32"
  by (simp_all add: pflags_init_def)

abbreviation int_flags :: pflags where
  "int_flags \<equiv> pflags_init\<lparr>flag_in_sign := 1\<rparr>"

lemma num_value_int:
  "num_value int_flags (x # as) = Some (magnitude x, 0, int_flags\<lparr>flag_in_sign := if sint x < 0 then 2 else 1\<rparr>, as)"
  by (simp add: num_value_def va_arg_def magnitude_def)

lemma read_block_string: "string_at m p xs \<Longrightarrow> read_block m p (length xs) = Some xs"
  using string_at_take [of m p xs "length xs"] by (auto simp: read_block_def string_at_iff)

lemma num_printf_int:
  assumes "env_buf en + 128 \<le> length m"
  shows "\<exists>m2. agree_outside {env_buf en..<env_buf en + 128} m m2 \<and>
    num_printf en put 10 0 int_flags (x # as) (len, d, m) =
      do { st \<leftarrow> put (int_text (sint x)) (d, m2); Some (as, len + of_nat (length (int_text (sint x))), st) }"
proof -
  let ?b = "env_buf en" and ?ds = "digits 10 (unat (magnitude x))" and ?t = "map (\<lambda>d. digit_char d False) (digits 10 (unat (magnitude x)))"
  have L: "length ?ds \<le> 32" by (rule digits_length32) simp
  obtain m1 where m1: "ltostr (?b + 1) 123 (magnitude x) 10 False m = Some (of_nat (length ?ds), m1)" "length m1 = length m"
      "string_at m1 (?b + 1) ?t" "\<forall>k. k < ?b + 1 \<or> ?b + 1 + 123 \<le> k \<longrightarrow> m1 ! k = m ! k"
    using ltostr_ok [of 10 10 "magnitude x" 123 "?b + 1" m False] L assms by auto
  have a1: "agree_outside {?b..<?b + 128} m m1" using m1(2,4) by (auto simp: agree_outside_def)
  obtain c where c: "rd m1 (?b + 1) = Some c" using m1(2) assms by simp
  have n: "num_printf en put 10 0 int_flags (x # as) (len, d, m) = do {
     (s2, sz2, f3, m2) \<leftarrow> num_sign (?b + 1) (of_nat (length ?ds)) (int_flags\<lparr>flag_in_sign := if sint x < 0 then 2 else 1\<rparr>) m1;
     o2 \<leftarrow> print_out put s2 sz2 f3 (len, d, m2);
     Some (as, o2) }"
    using m1(1) c by (simp add: num_printf_def num_value_int num_zero_def)
  have po: "print_out put s (of_nat (length t)) (int_flags\<lparr>flag_in_sign := i\<rparr>) (len, d, m2) =
      do { st \<leftarrow> put t (d, m2); Some (len + of_nat (length t), st) }" if "string_at m2 s t" "length t \<le> 33" for s t m2 i
  proof -
    have "unat (of_nat (length t) :: u32) = length t" using that(2) by (simp add: unat_of_nat)
    then show ?thesis using read_block_string [OF that(1)] by (simp add: print_out_def emit_def)
  qed
  show ?thesis
  proof (cases "sint x < 0")
    case False
    then have t: "int_text (sint x) = ?t" by (simp add: int_text_def unat_magnitude)
    have "num_sign (?b + 1) (of_nat (length ?ds)) (int_flags\<lparr>flag_in_sign := 1\<rparr>) m1 =
        Some (?b + 1, of_nat (length ?ds), int_flags\<lparr>flag_in_sign := 0\<rparr>, m1)" by (simp add: num_sign_def)
    moreover have "print_out put (?b + 1) (of_nat (length ?ds)) (int_flags\<lparr>flag_in_sign := 0\<rparr>) (len, d, m1) =
        do { st \<leftarrow> put ?t (d, m1); Some (len + of_nat (length ?ds), st) }" using po [OF m1(3)] L by simp
    ultimately show ?thesis using n False a1 t by auto
  next
    case True
    let ?m2 = "m1[?b := 45]"
    have t: "int_text (sint x) = 45 # ?t" using True by (simp add: int_text_def unat_magnitude)
    have s2: "string_at ?m2 ?b (45 # ?t)"
      using string_at_frame [OF m1(3), of ?m2] m1(2) assms by auto
    have "num_sign (?b + 1) (of_nat (length ?ds)) (int_flags\<lparr>flag_in_sign := 2\<rparr>) m1 =
        Some (?b, of_nat (length ?ds) + 1, int_flags\<lparr>flag_in_sign := 2\<rparr>, ?m2)" using m1(2) assms by (simp add: num_sign_def)
    moreover have "print_out put ?b (of_nat (length ?ds) + 1) (int_flags\<lparr>flag_in_sign := 2\<rparr>) (len, d, ?m2) =
        do { st \<leftarrow> put (45 # ?t) (d, ?m2); Some (len + of_nat (length (45 # ?t)), st) }" using po [OF s2] L by (simp add: add.commute)
    moreover have "agree_outside {?b..<?b + 128} m ?m2"
      using a1 by (auto simp: agree_outside_def nth_list_update)
    ultimately show ?thesis using n True t by (auto simp: bind_eq_Some_conv)
  qed
qed

section \<open>Printing an int\<close>

lemma int_text_length: "- (2 ^ 31) \<le> i \<Longrightarrow> i < 2 ^ 31 \<Longrightarrow> length (int_text i) \<le> 33"
proof -
  assume i: "- (2 ^ 31) \<le> i" "i < 2 ^ 31"
  have "nat \<bar>i\<bar> = unat (of_nat (nat \<bar>i\<bar>) :: u32)" using i by (simp only: unat_of_nat) simp
  then have "length (digits 10 (nat \<bar>i\<bar>)) \<le> 32" using digits_length32 [of 10 "of_nat (nat \<bar>i\<bar>) :: u32"] by simp
  then show ?thesis unfolding int_text_def length_append length_map by (cases "i < 0") simp_all
qed

lemma swrite_fits:
  assumes "sd_str sd = str" "sd_len sd = 0" "bs \<noteq> []" "length bs < unat sz" "sd_size sd = sz - 1" "str \<noteq> 0" "str + unat sz \<le> length m"
  shows "\<exists>sd'. swrite bs (sd, m) = Some (sd', (take str m @ bs @ drop (str + length bs) m)[str + length bs := 0])"
proof -
  have u: "unat (sz - 1) = unat sz - 1" using assms(4) by (intro unat_minus_one) auto
  have "unat (sz - 1) \<noteq> 0" using u assms(3,4) by (cases bs) auto
  then have pos: "sz - 1 > 0" by (simp add: word_gt_0 unat_eq_zero)
  have "\<not> length bs > unat (sz - 1)" using u assms(4) by simp
  then show ?thesis using pos assms by (simp add: swrite_def Let_def memcpy_def)
qed

lemma v_printf_end: "rd (snd (snd o1)) fmt = Some 0 \<Longrightarrow> v_printf en put fmt as o1 = Some (sint (fst o1), snd o1)"
  by (subst v_printf.simps) simp

lemma v_printf_conv:
  "rd m fmt = Some 37 \<Longrightarrow> skip_to fmt m = Some 0 \<Longrightarrow>
   inn_printf (fmt + 1) as pflags_init m = Some (Some ch, fmt1, as1, f) \<Longrightarrow>
   convert en put ch f as1 (len, d, m) = Some (as2, o3) \<Longrightarrow>
   v_printf en put fmt as (len, d, m) = v_printf en put fmt1 as2 o3"
  by (subst v_printf.simps) simp

lemma printed:
  assumes f: "string_at m fmt [37, 100]" and b: "env_buf en + 128 \<le> length m" "fmt + 2 < env_buf en \<or> env_buf en + 128 \<le> fmt"
    and s: "str \<noteq> 0" "str + unat sz \<le> length m" "fmt + 2 < str \<or> str + unat sz \<le> fmt" and l: "length (int_text (sint x)) < unat sz"
  shows "\<exists>m'. vsnprintf en str sz fmt (x # as) m = Some (int (length (int_text (sint x))), m') \<and> string_at m' str (int_text (sint x))"
proof -
  let ?t = "int_text (sint x)" and ?sd = "\<lparr>sd_str = str, sd_len = 0, sd_size = sz - 1\<rparr>"
  have sx: "- (2 ^ 31) \<le> sint x" "sint x < 2 ^ 31" using sint_greater_eq [of x] sint_less [of x] by simp_all
  note L = int_text_length [OF sx]
  have ne: "?t \<noteq> []" by (simp add: int_text_def)
  have sz0: "sz \<noteq> 0" using l by auto
  obtain m2 where m2: "agree_outside {env_buf en..<env_buf en + 128} m m2"
    "num_printf en swrite 10 0 int_flags (x # as) (0, ?sd, m) =
      do { st \<leftarrow> swrite ?t (?sd, m2); Some (as, 0 + of_nat (length ?t), st) }"
    using num_printf_int [OF b(1), of swrite x as 0 ?sd] by blast
  have len: "length m2 = length m" using m2(1) by (simp add: agree_outside_def)
  let ?m3 = "(take str m2 @ ?t @ drop (str + length ?t) m2)[str + length ?t := 0]"
  obtain sd' where w: "swrite ?t (?sd, m2) = Some (sd', ?m3)"
    using swrite_fits [of ?sd str ?t sz m2] ne l s(1,2) len by auto
  have sp: "length (take str m2 @ ?t @ drop (str + length ?t) m2) = length m"
    "\<And>i. i < length ?t \<Longrightarrow> (take str m2 @ ?t @ drop (str + length ?t) m2) ! (str + i) = ?t ! i"
    "\<And>i. i < str \<or> str + length ?t \<le> i \<Longrightarrow> (take str m2 @ ?t @ drop (str + length ?t) m2) ! i = m2 ! i"
    using splice [of ?t "length ?t" str m2] l s(2) len by auto
  have fm: "fmt + 2 < length m" "m ! fmt = 37" "m ! (fmt + 1) = 100" "m ! (fmt + 2) = 0" using f by (simp_all add: numeral_2_eq_2)
  have z: "?m3 ! (fmt + 2) = 0" using s(3) l sp(3) [of "fmt + 2"] m2(1) b(2) fm(4) by (auto simp: agree_outside_def nth_list_update)
  have "skip_to fmt m = Some 0" using fm by (simp add: skip_to_def skip_to_loop.simps)
  moreover have "inn_printf (fmt + 1) (x # as) pflags_init m = Some (Some 100, fmt + 1 + 1, x # as, pflags_init)"
    using fm by (simp add: inn_printf.simps)
  moreover have "convert en swrite 100 pflags_init (x # as) (0, ?sd, m) = Some (as, of_nat (length ?t), sd', ?m3)"
    unfolding convert_def using m2(2) w by simp
  ultimately have "v_printf en swrite fmt (x # as) (0, ?sd, m) = v_printf en swrite (fmt + 1 + 1) as (of_nat (length ?t), sd', ?m3)"
    by (intro v_printf_conv) (use fm in simp)
  also have "\<dots> = Some (sint (of_nat (length ?t) :: u32), sd', ?m3)"
  proof -
    have "rd ?m3 (fmt + 1 + 1) = Some 0" using z fm(1) sp(1) by (simp add: numeral_2_eq_2)
    then show ?thesis using v_printf_end [of "(of_nat (length ?t), sd', ?m3)" "fmt + 1 + 1" en swrite as] by (simp only: fst_conv snd_conv)
  qed
  also have "sint (of_nat (length ?t) :: u32) = int (length ?t)" by (rule sint_of_nat_small) (use L in simp)
  finally have v: "v_printf en swrite fmt (x # as) (0, ?sd, m) = Some (int (length ?t), sd', ?m3)" .
  have nle: "\<not> int (length ?t) \<ge> uint sz" unfolding uint_nat using l by linarith
  have wr: "wr ?m3 (str + length ?t) 0 = Some ?m3" using sp(1) l s(2) by simp
  have "vsnprintf en str sz fmt (x # as) m = Some (int (length ?t), ?m3)"
    unfolding vsnprintf_def using v nle wr sz0 s(1) by simp
  moreover have "string_at ?m3 str ?t"
  proof -
    have "\<forall>c\<in>set ?t. c \<noteq> 0" using digits_bound [of 10 "nat \<bar>sint x\<bar>"] digit_char_nonzero by (fastforce simp: int_text_def)
    then show ?thesis unfolding string_at_iff using sp l s(2) by auto
  qed
  ultimately show ?thesis by blast
qed

lemma isalnum_digit: "d < 10 \<Longrightarrow> isalnum (sint (digit_char d False))"
proof -
  have "list_all (\<lambda>d. isalnum (sint (digit_char d False))) [0..<10]" by code_simp
  then show "d < 10 \<Longrightarrow> isalnum (sint (digit_char d False))" by (simp add: list_all_iff)
qed

lemma strtol_int_text:
  assumes "string_at m p (int_text i)" and i: "- (2 ^ 31) \<le> i" "i < 2 ^ 31"
  shows "strtol p (Some e) 10 m = Some (i, Some (p + length (int_text i)))"
proof -
  let ?n = "nat \<bar>i\<bar>" and ?v = "of_nat (nat \<bar>i\<bar>) :: u32"
  let ?t = "map (\<lambda>d. digit_char d False) (digits 10 ?n)"
  obtain d ds where dg: "digits 10 ?n = d # ds" by (cases "digits 10 ?n") auto
  have d10: "d < 10" "\<forall>x\<in>set (digits 10 ?n). x < 10" using digits_bound [of 10 ?n] dg by auto
  have dv: "\<forall>c\<in>set ?t. uint (digit_value c) < int 10"
  proof
    fix c assume "c \<in> set ?t"
    then obtain x where "c = digit_char x False" "x < 10" using d10(2) by auto
    then show "uint (digit_value c) < int 10" using digit_char_value [of x False] by simp
  qed
  have c0: "uint (digit_value (digit_char d False)) < 36" using digit_char_value [of d False] d10(1) by simp
  note c0 = digit_not_space [OF c0]
  have un: "unat ?v = ?n" using i by (simp only: unat_of_nat) simp
  have ge: "2147483648 \<le> ?v \<longleftrightarrow> 2 ^ 31 \<le> ?n" unfolding word_le_nat_alt un by simp
  let ?q = "if i < 0 then p + 1 else p"
  have st: "string_at m ?q ?t" using assms(1) by (auto simp: int_text_def split: if_splits)
  have sul: "strtoul ?q (Some e) 10 m = Some (?v, Some (?q + length ?t))"
  proof -
    have vt: "value_of_chars 10 0 ?t = ?n" by (rule value_of_text) simp_all
    have "\<not> 2 ^ 32 \<le> ?n" using i by simp
    then show ?thesis using strtoul_ok [of m ?q "[]" "[]" ?t 0 10 e, unfolded vt] holds_string [OF st] dv by simp
  qed
  have ne: "?q + length ?t \<noteq> ?q" by simp
  show ?thesis
  proof (cases "i < 0")
    case False
    then have s: "rd m p = Some (digit_char d False)" using st dg by simp
    have sp: "skip_space p m = Some p" using s c0(1) by (subst skip_space.simps) simp
    have "\<not> 2147483648 \<le> ?v" using ge False i by simp
    moreover have "sint ?v = i" using sint_of_nat_small [of ?n] False i by simp
    ultimately show ?thesis using s sp sul c0(4) False ne by (simp add: strtol_def int_text_def)
  next
    case True
    have s: "rd m p = Some 45" "rd m (p + 1) = Some (digit_char d False)" using assms(1) st dg True by (auto simp: int_text_def)
    have sp: "skip_space p m = Some p" using s(1) by (subst skip_space.simps) (simp add: isspace_char)
    have neg: "uint ?v = - i" unfolding uint_nat un using True by simp
    have "uint (- ?v) = 2 ^ 32 + i"
    proof -
      have "uint (- ?v) = (- uint ?v) mod 2 ^ 32" by (simp only: uint_word_ariths) simp
      then show ?thesis unfolding neg using mod_below [of i "2 ^ 32"] True i by simp
    qed
    then have mi: "sint (- ?v) = i" unfolding sint_uint_cases [of "- ?v"] using i by simp
    have big: "2147483648 \<le> ?v \<Longrightarrow> ?v = 2147483648 \<and> sint (2147483648 :: u32) = i"
    proof -
      assume "2147483648 \<le> ?v"
      then have "2 ^ 31 \<le> ?n" using ge by simp
      then have "?n = 2 ^ 31" using i by simp
      then show ?thesis using True by simp
    qed
    show ?thesis
    proof (cases "2147483648 \<le> ?v")
      case le: True
      note b = big [OF le]
      show ?thesis using s sp sul True ne isalnum_digit [OF d10(1)] b by (simp add: strtol_def int_text_def)
    next
      case False
      then show ?thesis using s sp sul True ne isalnum_digit [OF d10(1)] mi by (simp add: strtol_def int_text_def)
    qed
  qed
qed

text \<open>C39: vsnprintf with "%d" stores the decimal text of any int, and strtol reads it back.\<close>

theorem print_int_strtol:
  assumes "string_at m fmt [37, 100]" "env_buf en + 128 \<le> length m" "fmt + 2 < env_buf en \<or> env_buf en + 128 \<le> fmt"
    "str \<noteq> 0" "str + unat sz \<le> length m" "fmt + 2 < str \<or> str + unat sz \<le> fmt" "length (int_text (sint x)) < unat sz"
  shows "\<exists>m'. vsnprintf en str sz fmt (x # as) m = Some (int (length (int_text (sint x))), m') \<and>
    string_at m' str (int_text (sint x)) \<and> strtol str (Some e) 10 m' = Some (sint x, Some (str + length (int_text (sint x))))"
proof -
  obtain m' where m: "vsnprintf en str sz fmt (x # as) m = Some (int (length (int_text (sint x))), m')" "string_at m' str (int_text (sint x))"
    using printed [OF assms] by blast
  have "strtol str (Some e) 10 m' = Some (sint x, Some (str + length (int_text (sint x))))"
    by (rule strtol_int_text [OF m(2)]) (use sint_greater_eq [of x] sint_less [of x] in simp_all)
  then show ?thesis using m by blast
qed

theorem print_int_strtol_witness:
  "\<exists>m'. vsnprintf \<lparr>env_buf = 41, env_null = 0\<rparr> 1 20 170 [- 12] (replicate 170 7 @ [37, 100, 0]) = Some (3, m') \<and>
    string_at m' 1 [45, 49, 50] \<and> strtol 1 (Some 0) 10 m' = Some (- 12, Some (1 + length [45, 49, 50 :: u8]))"
proof -
  let ?m = "replicate 170 7 @ [37, 100, 0] :: cmem"
  have d: "digits 10 12 = [1, 2]" by (simp add: digits.simps)
  have c: "digit_char 1 False = 49" "digit_char 2 False = 50" by code_simp+
  have x: "sint (- 12 :: u32) = - 12" by simp
  have t: "int_text (- 12) = [45, 49, 50]" unfolding int_text_def by (simp add: d c [unfolded One_nat_def])
  have f: "string_at ?m 170 [37, 100]" by (simp add: nth_append)
  show ?thesis
    using print_int_strtol [OF f, of "\<lparr>env_buf = 41, env_null = 0\<rparr>" 1 20 "- 12" "[]" 0] by (simp add: t)
qed

end
