(* ===== verification/PRtf.thy ===== *)
theory PRtf
  imports RtFifo PIrq PStdlib
begin

unbundle bit_operations_syntax

text \<open>
  PaRTiKle's driver of XtratuM's real-time FIFOs (core/kernel/xm_i386/devrtf.c, rtf.h).
  The control structures and the pages of the FIFOs are those of RtFifo, which XtratuM maps
  into the domain; fctladdr and fdataddr are the addresses that it leaves in the page of the
  events.  As in RtFifo the body of a CAS loop runs once.
\<close>

section \<open>State\<close>

definition FIFO_COUNT :: nat where "FIFO_COUNT = 16"

text \<open>The page of data is told by its address only; its bytes are in the control structure.\<close>

record rt_fifo_struct =
  rtf_user :: int
  rtf_flags :: u32
  rtf_addr :: nat

record rtf_state =
  r_os :: os_state
  r_shared :: "fifo_struct list"
  r_fctladdr :: nat
  r_fdataddr :: "nat list"
  sfifos :: "nat list"
  fifos :: "rt_fifo_struct list"

definition ff_bytes :: nat where "ff_bytes = 20"

text \<open>What the pointer p to a control structure reaches.\<close>

definition ff_index :: "rtf_state \<Rightarrow> nat \<Rightarrow> nat" where
  "ff_index st p = (p - r_fctladdr st) div ff_bytes"

definition ff_at :: "rtf_state \<Rightarrow> nat \<Rightarrow> fifo_struct option" where
  "ff_at st p = (if r_fctladdr st = 0 \<or> p < r_fctladdr st then None else rd (r_shared st) (ff_index st p))"

definition set_ff :: "rtf_state \<Rightarrow> nat \<Rightarrow> fifo_struct \<Rightarrow> rtf_state" where
  "set_ff st p ff = st\<lparr>r_shared := (r_shared st)[ff_index st p := ff]\<rparr>"

definition rtf_error :: "int \<Rightarrow> rtf_state \<Rightarrow> rtf_state option" where
  "rtf_error e st = do { k \<leftarrow> SET_ERRNO e (kern (r_os st)); Some (st\<lparr>r_os := (r_os st)\<lparr>kern := k\<rparr>\<rparr>) }"

definition rtf_disable :: "rtf_state \<Rightarrow> rtf_state" where
  "rtf_disable st = st\<lparr>r_os := xm_disable_events_flag (r_os st)\<rparr>"

definition rtf_enable :: "hypercalls \<Rightarrow> rtf_state \<Rightarrow> rtf_state option" where
  "rtf_enable hc st = do { os \<leftarrow> xm_enable_events_flag hc (r_os st); Some (st\<lparr>r_os := os\<rparr>) }"

section \<open>The FIFOs\<close>

text \<open>dest is the caller's buffer, None for NULL.\<close>

definition rt_fifo_read :: "int \<Rightarrow> u8 list option \<Rightarrow> int \<Rightarrow> rtf_state \<Rightarrow> (int \<times> u8 list option \<times> rtf_state) option" where
  "rt_fifo_read index dest size0 st =
    (if INDEX_UNVALID index \<or> dest = None \<or> size0 < 0 then do { st1 \<leftarrow> rtf_error ENODEV st; Some (0, dest, st1) }
     else do {
       p \<leftarrow> rd (sfifos st) (nat index);
       u \<leftarrow> (if p = 0 then Some False
            else do { ff \<leftarrow> ff_at st p; x \<leftarrow> rd (fifos st) (nat index); Some (FIFO_USABLE ff \<and> rtf_addr x \<noteq> 0) });
       if \<not> u then do { st1 \<leftarrow> rtf_error ENODEV st; Some (0, dest, st1) }
       else do {
         ff0 \<leftarrow> ff_at st p;
         buf \<leftarrow> dest;
         let ff = ff0\<lparr>ff_flags := ff_flags ff0 OR FIFO_RD\<rparr>;
         let sz = clip (nat size0) (FIFO_USED_SIZE ff);
         if nat size0 > FIFO_USED_SIZE ff \<and> sz = 0 then Some (0, dest, set_ff st p ff)
         else do {
           _ \<leftarrow> guard_c (long_ok (ff_bom ff + sz));
           buf1 \<leftarrow> read_copy (ff_addr ff) (ff_size ff) (ff_top ff mod ff_size ff) (ff_bom ff mod ff_size ff) buf sz;
           let ff1 = ff\<lparr>ff_bom := ff_bom ff + sz\<rparr>;
           let ff2 = ff1\<lparr>ff_flags := ff_flags ff1 AND NOT FIFO_RD\<rparr>;
           let ff3 = (if ff_top ff2 = ff_bom ff2 then ff2\<lparr>ff_top := 0, ff_bom := 0\<rparr> else ff2);
           Some (int sz, Some buf1, set_ff st p ff3) } } })"

definition rt_fifo_write :: "int \<Rightarrow> u8 list option \<Rightarrow> int \<Rightarrow> rtf_state \<Rightarrow> (int \<times> rtf_state) option" where
  "rt_fifo_write index src0 size0 st =
    (if INDEX_UNVALID index \<or> src0 = None \<or> size0 < 0 then do { st1 \<leftarrow> rtf_error EINVAL st; Some (0, st1) }
     else do {
       p \<leftarrow> rd (sfifos st) (nat index);
       u \<leftarrow> (if p = 0 then Some False
            else do { ff \<leftarrow> ff_at st p; x \<leftarrow> rd (fifos st) (nat index); Some (FIFO_USABLE ff \<and> rtf_addr x \<noteq> 0) });
       if \<not> u then do { st1 \<leftarrow> rtf_error ENODEV st; Some (0, st1) }
       else do {
         ff0 \<leftarrow> ff_at st p;
         src \<leftarrow> src0;
         let ff = ff0\<lparr>ff_flags := ff_flags ff0 OR FIFO_WR\<rparr>;
         let sz = clip (nat size0) (FIFO_FREE_SIZE ff);
         if nat size0 > FIFO_FREE_SIZE ff \<and> sz = 0 then Some (0, set_ff st p ff)
         else do {
           _ \<leftarrow> guard_c (long_ok (ff_top ff + sz));
           data \<leftarrow> write_copy (ff_addr ff) (ff_size ff) (ff_top ff mod ff_size ff) (ff_bom ff mod ff_size ff) src sz;
           let ff1 = ff\<lparr>ff_addr := data, ff_top := ff_top ff + sz\<rparr>;
           let ff2 = ff1\<lparr>ff_flags := ff_flags ff1 AND NOT FIFO_WR\<rparr>;
           Some (int sz, set_ff st p ff2) } } })"

text \<open>The result is FIFO_ADDR (index), NULL for an index out of range.\<close>

definition rt_fifo_flush :: "int \<Rightarrow> rtf_state \<Rightarrow> (nat \<times> rtf_state) option" where
  "rt_fifo_flush index st =
    (if INDEX_UNVALID index then do { st1 \<leftarrow> rtf_error EINVAL st; Some (0, st1) }
     else do {
       p \<leftarrow> rd (sfifos st) (nat index);
       ff \<leftarrow> (if p = 0 then None else ff_at st p);
       x \<leftarrow> rd (fifos st) (nat index);
       _ \<leftarrow> guard_c (rtf_addr x \<noteq> 0 \<and> ff_size ff \<le> length (ff_addr ff));
       Some (rtf_addr x, set_ff st p (ff\<lparr>ff_top := 0, ff_bom := 0,
         ff_addr := replicate (ff_size ff) 0 @ drop (ff_size ff) (ff_addr ff)\<rparr>)) })"

definition rt_fifo_ioctl :: "int \<Rightarrow> int \<Rightarrow> rtf_state \<Rightarrow> (int \<times> rtf_state) option" where
  "rt_fifo_ioctl index cmd st =
    (if INDEX_UNVALID index then Some (-1, st)
     else if cmd = FLUSH_FIFO then do { (ret, st1) \<leftarrow> rt_fifo_flush index st; Some (if ret = 0 then -1 else 0, st1) }
     else Some (0, st))"

text \<open>findex is not tested from below.\<close>

definition rt_fifo_init :: "nat \<Rightarrow> rtf_state \<Rightarrow> (int \<times> rtf_state) option" where
  "rt_fifo_init findex st =
    (if findex < FIFO_COUNT then do {
       let p = r_fctladdr st + findex * ff_bytes;
       sf \<leftarrow> wr (sfifos st) findex p;
       a \<leftarrow> rd (r_fdataddr st) findex;
       x \<leftarrow> rd (fifos st) findex;
       fs \<leftarrow> wr (fifos st) findex (x\<lparr>rtf_addr := a\<rparr>);
       let st1 = st\<lparr>sfifos := sf, fifos := fs\<rparr>;
       if p \<noteq> 0 \<and> a \<noteq> 0 then do {
         ff \<leftarrow> ff_at st1 p;
         Some (0, set_ff st1 p (ff\<lparr>ff_flags := ff_flags ff OR FIFO_US\<rparr>)) }
       else Some (-1, st1) }
     else Some (-1, st))"

definition rt_fifo_exit :: "int \<Rightarrow> rtf_state \<Rightarrow> rtf_state option" where
  "rt_fifo_exit findex st =
    (if findex < int FIFO_COUNT then do {
       _ \<leftarrow> guard_c (0 \<le> findex);
       sf \<leftarrow> wr (sfifos st) (nat findex) 0;
       x \<leftarrow> rd (fifos st) (nat findex);
       fs \<leftarrow> wr (fifos st) (nat findex) (x\<lparr>rtf_addr := 0\<rparr>);
       Some (st\<lparr>sfifos := sf, fifos := fs\<rparr>) }
     else Some st)"

text \<open>while (--index) rt_fifo_exit (index); it stops when the index is 0 and not before.\<close>

partial_function (option) exit_fifos :: "int \<Rightarrow> rtf_state \<Rightarrow> rtf_state option" where
  [code]: "exit_fifos index st =
    (if index - 1 = 0 then Some st
     else do { st1 \<leftarrow> rt_fifo_exit (index - 1) st; exit_fifos (index - 1) st1 })"

primrec init_fifos :: "nat \<Rightarrow> nat \<Rightarrow> rtf_state \<Rightarrow> (int \<times> rtf_state) option" where
  "init_fifos index 0 st = Some (0, st)"
| "init_fifos index (Suc n) st = do {
     (r, st1) \<leftarrow> rt_fifo_init index st;
     if r \<noteq> 0 then do { st2 \<leftarrow> exit_fifos (int index) st1; Some (-1, st2) }
     else init_fifos (index + 1) n st1 }"

definition init_rtf :: "rtf_state \<Rightarrow> (int \<times> rtf_state) option" where
  "init_rtf st = init_fifos 0 FIFO_COUNT st"

section \<open>The device\<close>

definition rtf_minor :: "nat \<Rightarrow> rtf_state \<Rightarrow> nat option" where
  "rtf_minor fd st = do { f \<leftarrow> rd (files (r_os st)) fd; Some (q_path (f_qid f)) }"

text \<open>What rtfread and rtfwrite do before the FIFO is touched: a value to return, or none.\<close>

definition rtf_refused :: "nat \<Rightarrow> u8 list option \<Rightarrow> int \<Rightarrow> rtf_state \<Rightarrow> int option option" where
  "rtf_refused minor buf size0 st = do {
     x \<leftarrow> rd (fifos st) minor;
     Some (if rtf_flags x = 0 then Some ENODEV else if buf = None \<or> size0 < 0 then Some EINVAL else None) }"

definition rtfread :: "hypercalls \<Rightarrow> nat \<Rightarrow> u8 list option \<Rightarrow> int \<Rightarrow> rtf_state \<Rightarrow> (int \<times> u8 list option \<times> rtf_state) option" where
  "rtfread hc fd dest size0 st0 = do {
     minor \<leftarrow> rtf_minor fd st0;
     let st = rtf_disable st0;
     e \<leftarrow> rtf_refused minor dest size0 st;
     case e of
       Some err \<Rightarrow> do { st1 \<leftarrow> rtf_error err st; st2 \<leftarrow> rtf_enable hc st1; Some (0, dest, st2) }
     | None \<Rightarrow> do {
         (ret, dest1, st1) \<leftarrow> rt_fifo_read (int minor) dest size0 st;
         st2 \<leftarrow> rtf_enable hc st1;
         Some (ret, dest1, st2) } }"

definition rtfwrite :: "hypercalls \<Rightarrow> nat \<Rightarrow> u8 list option \<Rightarrow> int \<Rightarrow> rtf_state \<Rightarrow> (int \<times> rtf_state) option" where
  "rtfwrite hc fd src size0 st0 = do {
     minor \<leftarrow> rtf_minor fd st0;
     let st = rtf_disable st0;
     e \<leftarrow> rtf_refused minor src size0 st;
     case e of
       Some err \<Rightarrow> do { st1 \<leftarrow> rtf_error err st; st2 \<leftarrow> rtf_enable hc st1; Some (0, st2) }
     | None \<Rightarrow> do {
         (ret, st1) \<leftarrow> rt_fifo_write (int minor) src size0 st;
         st2 \<leftarrow> rtf_enable hc st1;
         Some (ret, st2) } }"

text \<open>The index of the FIFO is the descriptor here, not its minor.\<close>

definition rtfioctl :: "nat \<Rightarrow> int \<Rightarrow> rtf_state \<Rightarrow> (int \<times> rtf_state) option" where
  "rtfioctl fd request st = rt_fifo_ioctl (int fd) request st"

definition rtfmmap :: "nat \<Rightarrow> rtf_state \<Rightarrow> int \<times> rtf_state" where
  "rtfmmap fd st = (0, st)"

definition rtf_fail :: "int \<Rightarrow> rtf_state \<Rightarrow> (int \<times> rtf_state) option" where
  "rtf_fail e st = do { st1 \<leftarrow> rtf_error e st; Some (-1, st1) }"

text \<open>The name is a string in the memory at address 1, for strtoul.\<close>

definition rtfopen :: "char list \<Rightarrow> hypercalls \<Rightarrow> string \<Rightarrow> u32 \<Rightarrow> rtf_state \<Rightarrow> (int \<times> rtf_state) option" where
  "rtfopen dcs hc name mode st =
    (let k = length (takeWhile (\<lambda>c. \<not> isdigit c) name) in
     if k = length name then rtf_fail ENOENT st
     else do {
       (v, _) \<leftarrow> strtoul (1 + k) (Some 0) 10 (0 # bytes name @ [0]);
       let minor = sint v;
       if minor < 0 \<or> minor \<ge> int FIFO_COUNT then rtf_fail EINVAL st
       else do {
         let st1 = rtf_disable st;
         fd \<leftarrow> newfd (r_os st1);
         if fd \<ge> MAX_FILES then do {
           st2 \<leftarrow> rtf_enable hc st1;
           (_, os) \<leftarrow> freefd (int fd) (r_os st2);
           rtf_fail ENOMEM (st2\<lparr>r_os := os\<rparr>) }
         else do {
           x \<leftarrow> rd (fifos st1) (nat minor);
           let x1 = x\<lparr>rtf_user := rtf_user x + 1\<rparr>;
           let x2 = (if rtf_user x = 0 then x1\<lparr>rtf_flags := rtf_flags x1 OR 0x01000000\<rparr> else x1);
           let x3 = x2\<lparr>rtf_flags := rtf_flags x2 OR mode\<rparr>;
           fs \<leftarrow> wr (fifos st1) (nat minor) x3;
           f \<leftarrow> rd (files (r_os st1)) fd;
           fl \<leftarrow> wr (files (r_os st1)) fd (f\<lparr>f_qid := (f_qid f)\<lparr>q_path := nat minor\<rparr>, f_type := devno dcs (CHR ''f'')\<rparr>);
           st2 \<leftarrow> rtf_enable hc (st1\<lparr>fifos := fs, r_os := (r_os st1)\<lparr>files := fl\<rparr>\<rparr>);
           Some (int fd, st2) } } })"

definition rtfclose :: "hypercalls \<Rightarrow> nat \<Rightarrow> rtf_state \<Rightarrow> rtf_state option" where
  "rtfclose hc fd st0 = do {
     minor \<leftarrow> rtf_minor fd st0;
     let st = rtf_disable st0;
     if minor \<ge> FIFO_COUNT then rtf_enable hc st
     else do {
       x \<leftarrow> rd (fifos st) minor;
       let x1 = x\<lparr>rtf_user := rtf_user x - 1\<rparr>;
       let x2 = (if rtf_user x1 = 0 then x1\<lparr>rtf_flags := 0\<rparr> else x1);
       fs \<leftarrow> wr (fifos st) minor x2;
       rtf_enable hc (st\<lparr>fifos := fs\<rparr>) } }"

end
