(* ===== verification/PRtfLib.thy ===== *)
theory PRtfLib
  imports PRtf
begin

unbundle bit_operations_syntax

text \<open>
  The FIFOs seen from both sides: in an attached domain the driver's reads and writes are
  those of XtratuM on the same control structure, so bytes cross between the domains.
\<close>

text \<open>What init_rtf leaves for the FIFO i.\<close>

definition attached :: "nat \<Rightarrow> rtf_state \<Rightarrow> bool" where
  "attached i st \<longleftrightarrow> i < FIFO_COUNT \<and> r_fctladdr st \<noteq> 0 \<and> length (r_shared st) = XM_FIFO_COUNT \<and>
     i < length (sfifos st) \<and> sfifos st ! i = r_fctladdr st + i * ff_bytes \<and>
     i < length (fifos st) \<and> rtf_addr (fifos st ! i) \<noteq> 0"

lemma attached_valid: "attached i st \<Longrightarrow> \<not> INDEX_UNVALID (int i) \<and> i < length (r_shared st)"
  by (simp add: attached_def INDEX_UNVALID_def FIFO_COUNT_def XM_FIFO_COUNT_def)

lemma attached_at:
  assumes "attached i st"
  shows "ff_at st (sfifos st ! i) = Some (r_shared st ! i)" "set_ff st (sfifos st ! i) ff = st\<lparr>r_shared := (r_shared st)[i := ff]\<rparr>"
    "sfifos st ! i \<noteq> 0"
  using assms attached_valid [OF assms] by (simp_all add: attached_def ff_at_def set_ff_def ff_index_def ff_bytes_def)

lemma driver_read:
  assumes "attached i st" "0 \<le> len" "nat len \<le> FIFO_USED_SIZE (r_shared st ! i) \<or> FIFO_USED_SIZE (r_shared st ! i) \<noteq> 0" "FIFO_USABLE (r_shared st ! i)"
  shows "rt_fifo_read (int i) (Some buf) len st =
    map_option (\<lambda>(r, b, sh). (r, b, st\<lparr>r_shared := sh\<rparr>)) (rt_fifo_user_read (r_shared st) (int i) (Some buf) len)"
proof -
  note v = attached_valid [OF assms(1)] and a = attached_at [OF assms(1)]
  have i: "i < length (sfifos st)" "i < length (fifos st)" "rtf_addr (fifos st ! i) \<noteq> 0" using assms(1) by (simp_all add: attached_def)
  have u: "FIFO_USED_SIZE (ff\<lparr>ff_flags := x\<rparr>) = FIFO_USED_SIZE ff" for ff x by (simp add: FIFO_USED_SIZE_def)
  have c: "\<not> (nat len > FIFO_USED_SIZE (r_shared st ! i) \<and> clip (nat len) (FIFO_USED_SIZE (r_shared st ! i)) = 0)"
    using assms(3) by (auto simp: clip_def)
  show ?thesis
    using v a i assms(2,4) unfolding rt_fifo_read_def rt_fifo_user_read_def
    by (simp add: u Let_def map_option_bind comp_def if_not_P [OF c] split del: if_split cong: if_cong)
qed

lemma driver_write:
  assumes "attached i st" "0 \<le> len" "nat len \<le> FIFO_FREE_SIZE (r_shared st ! i) \<or> FIFO_FREE_SIZE (r_shared st ! i) \<noteq> 0" "FIFO_USABLE (r_shared st ! i)"
  shows "rt_fifo_write (int i) (Some src) len st =
    map_option (\<lambda>(r, sh). (r, st\<lparr>r_shared := sh\<rparr>)) (rt_fifo_user_write (r_shared st) (int i) (Some src) len)"
proof -
  note v = attached_valid [OF assms(1)] and a = attached_at [OF assms(1)]
  have i: "i < length (sfifos st)" "i < length (fifos st)" "rtf_addr (fifos st ! i) \<noteq> 0" using assms(1) by (simp_all add: attached_def)
  have u: "FIFO_FREE_SIZE (ff\<lparr>ff_flags := x\<rparr>) = FIFO_FREE_SIZE ff" for ff x by (simp add: FIFO_FREE_SIZE_def)
  have c: "\<not> (nat len > FIFO_FREE_SIZE (r_shared st ! i) \<and> clip (nat len) (FIFO_FREE_SIZE (r_shared st ! i)) = 0)"
    using assms(3) by (auto simp: clip_def)
  show ?thesis
    using v a i assms(2,4) unfolding rt_fifo_write_def rt_fifo_user_write_def
    by (simp add: u Let_def map_option_bind comp_def if_not_P [OF c] split del: if_split cong: if_cong)
qed

text \<open>An open descriptor of the FIFO, and no event that enabling the events would deliver.\<close>

definition rtf_ready :: "nat \<Rightarrow> nat \<Rightarrow> rtf_state \<Rightarrow> bool" where
  "rtf_ready fd i st \<longleftrightarrow> attached i st \<and> rtf_minor fd st = Some i \<and> rtf_flags (fifos st ! i) \<noteq> 0 \<and>
     (\<forall>e. event_handling (r_os st) = Some e \<longrightarrow> pending_events e = 0)"

lemma rtf_enable_quiet:
  "(\<forall>e. event_handling (r_os st) = Some e \<longrightarrow> pending_events e = 0) \<Longrightarrow> \<exists>os. rtf_enable hc st = Some (st\<lparr>r_os := os\<rparr>)"
  by (cases "event_handling (r_os st)") (auto simp: rtf_enable_def xm_enable_events_flag_def upd_page_def Let_def)

lemma rtf_disable_ready:
  assumes "rtf_ready fd i st"
  shows "attached i (rtf_disable st)" "rtf_refused i (Some buf) len (rtf_disable st) = Some (if len < 0 then Some EINVAL else None)"
    "r_shared (rtf_disable st) = r_shared st" "\<forall>e. event_handling (r_os (rtf_disable st)) = Some e \<longrightarrow> pending_events e = 0"
  using assms by (auto simp: rtf_ready_def rtf_disable_def attached_def rtf_refused_def xm_disable_events_flag_def upd_page_def)

lemma rtfread_user:
  assumes r: "rtf_ready fd i st" "0 \<le> len" "nat len \<le> FIFO_USED_SIZE (r_shared st ! i) \<or> FIFO_USED_SIZE (r_shared st ! i) \<noteq> 0" "FIFO_USABLE (r_shared st ! i)"
    and u: "rt_fifo_user_read (r_shared st) (int i) (Some buf) len = Some (n, b, sh)"
  shows "\<exists>os. rtfread hc fd (Some buf) len st = Some (n, b, st\<lparr>r_os := os, r_shared := sh\<rparr>)"
proof -
  note d = rtf_disable_ready [OF r(1)]
  have m: "rtf_minor fd st = Some i" using r(1) by (simp add: rtf_ready_def)
  have x: "rt_fifo_read (int i) (Some buf) len (rtf_disable st) = Some (n, b, (rtf_disable st)\<lparr>r_shared := sh\<rparr>)"
    using driver_read [OF d(1) r(2)] r(3,4) u d(3) by simp
  obtain os where "rtf_enable hc ((rtf_disable st)\<lparr>r_shared := sh\<rparr>) = Some ((rtf_disable st)\<lparr>r_shared := sh, r_os := os\<rparr>)"
    using rtf_enable_quiet [of "(rtf_disable st)\<lparr>r_shared := sh\<rparr>" hc] d(4) by auto
  then show ?thesis using m d(2) x r(2) by (intro exI [of _ os]) (simp add: rtfread_def Let_def, simp add: rtf_disable_def)
qed

lemma rtfwrite_user:
  assumes r: "rtf_ready fd i st" "0 \<le> len" "nat len \<le> FIFO_FREE_SIZE (r_shared st ! i) \<or> FIFO_FREE_SIZE (r_shared st ! i) \<noteq> 0" "FIFO_USABLE (r_shared st ! i)"
    and u: "rt_fifo_user_write (r_shared st) (int i) (Some src) len = Some (n, sh)"
  shows "\<exists>os. rtfwrite hc fd (Some src) len st = Some (n, st\<lparr>r_os := os, r_shared := sh\<rparr>)"
proof -
  note d = rtf_disable_ready [OF r(1)]
  have m: "rtf_minor fd st = Some i" using r(1) by (simp add: rtf_ready_def)
  have x: "rt_fifo_write (int i) (Some src) len (rtf_disable st) = Some (n, (rtf_disable st)\<lparr>r_shared := sh\<rparr>)"
    using driver_write [OF d(1) r(2)] r(3,4) u d(3) by simp
  obtain os where "rtf_enable hc ((rtf_disable st)\<lparr>r_shared := sh\<rparr>) = Some ((rtf_disable st)\<lparr>r_shared := sh, r_os := os\<rparr>)"
    using rtf_enable_quiet [of "(rtf_disable st)\<lparr>r_shared := sh\<rparr>" hc] d(4) by auto
  then show ?thesis using m d(2) x r(2) by (intro exI [of _ os]) (simp add: rtfwrite_def Let_def, simp add: rtf_disable_def)
qed

section \<open>Between the domains\<close>

lemma wf_used: "wf_fifo ff \<Longrightarrow> FIFO_USED_SIZE ff = length (fifo_queue ff)"
  using used_num [of "ff_bom ff" "ff_top ff" "ff_size ff"] by (simp add: wf_fifo_def FIFO_USED_SIZE_def fifo_queue_def)

lemma wf_free: "wf_fifo ff \<Longrightarrow> FIFO_FREE_SIZE ff = ff_size ff - 1 - length (fifo_queue ff)"
  using free_num [of "ff_bom ff" "ff_top ff" "ff_size ff"] by (simp add: wf_fifo_def FIFO_FREE_SIZE_def fifo_queue_def)

lemma wf_empty: "wf_fifo ff \<Longrightarrow> fifo_queue ff = [] \<Longrightarrow> ff_top ff = 0 \<and> ff_bom ff = 0"
  by (auto simp: wf_fifo_def fifo_queue_def ring_def)

text \<open>C25: Bytes cross between the domain and the root domain through a FIFO, in either direction.\<close>

theorem fifo_between_domains:
  assumes r: "rtf_ready fd i st" and w: "wf_fifo (r_shared st ! i)" "fifo_queue (r_shared st ! i) = []"
    and b: "length src < ff_size (r_shared st ! i)" "ff_size (r_shared st ! i) \<le> 2 ^ 30" "length buf = length src"
  shows "(\<exists>st1 sh. rtfwrite hc fd (Some src) (int (length src)) st = Some (int (length src), st1) \<and>
            rt_fifo_user_read (r_shared st1) (int i) (Some buf) (int (length src)) = Some (int (length src), Some src, sh)) \<and>
         (\<exists>sh st1. rt_fifo_user_write (r_shared st) (int i) (Some src) (int (length src)) = Some (int (length src), sh) \<and>
            rtfread hc fd (Some buf) (int (length src)) (st\<lparr>r_shared := sh\<rparr>) = Some (int (length src), Some src, st1))"
proof -
  let ?n = "int (length src)" and ?ff = "r_shared st ! i"
  have at: "attached i st" using r by (simp add: rtf_ready_def)
  note v = attached_valid [OF at]
  have len: "length (r_shared st) = XM_FIFO_COUNT" using at by (simp add: attached_def)
  have us: "FIFO_USABLE ?ff" using w(1) by (simp add: wf_fifo_def)
  obtain ff' where ff': "rt_fifo_user_write (r_shared st) (int i) (Some src) ?n = Some (?n, (r_shared st)[i := ff'])" "wf_fifo ff'"
      "ff_size ff' = ff_size ?ff" "fifo_queue ff' = src" "ff_bom ff' = 0"
    using fifo_write_ok [of "int i" "r_shared st" ?n src] v len w b wf_empty [OF w] by auto
  let ?sh = "(r_shared st)[i := ff']"
  have sh: "?sh ! i = ff'" "length ?sh = XM_FIFO_COUNT" using v len by simp_all
  have top: "ff_top ff' = length src" using ff'(4,5) by (auto simp: fifo_queue_def)
  obtain ff2 where rd: "rt_fifo_user_read ?sh (int i) (Some buf) ?n = Some (?n, Some src, ?sh[i := ff2])"
    using fifo_read_ok [of "int i" ?sh ?n buf] v sh ff'(2,4) b top by auto
  have free: "nat ?n \<le> FIFO_FREE_SIZE ?ff" using wf_free [OF w(1)] w(2) b(1) by simp
  obtain os where "rtfwrite hc fd (Some src) ?n st = Some (?n, st\<lparr>r_os := os, r_shared := ?sh\<rparr>)"
    using rtfwrite_user [OF r _ _ us ff'(1)] free by auto
  moreover have "rtf_ready fd i (st\<lparr>r_shared := ?sh\<rparr>)" using r sh(2) by (simp add: rtf_ready_def attached_def rtf_minor_def)
  then obtain os2 where "rtfread hc fd (Some buf) ?n (st\<lparr>r_shared := ?sh\<rparr>) = Some (?n, Some src, st\<lparr>r_shared := ?sh\<rparr>\<lparr>r_os := os2, r_shared := ?sh[i := ff2]\<rparr>)"
    using rtfread_user [of fd i "st\<lparr>r_shared := ?sh\<rparr>" ?n buf ?n "Some src" "?sh[i := ff2]"] rd sh(1) wf_used [OF ff'(2)] ff'(2,4)
    by (auto simp: wf_fifo_def)
  ultimately show ?thesis using ff'(1) rd by auto
qed

definition demo_rtf :: rtf_state where
  "demo_rtf = \<lparr>r_os = demo_os\<lparr>event_handling := None, files := [zero_file\<lparr>f_qid := zero_qid\<lparr>q_path := 2\<rparr>\<rparr>]\<rparr>,
     r_shared = demo_fifos, r_fctladdr = 4096, r_fdataddr = replicate 16 8192,
     sfifos = map (\<lambda>i. 4096 + i * ff_bytes) [0..<16],
     fifos = replicate 16 \<lparr>rtf_user = 1, rtf_flags = 1, rtf_addr = 8192\<rparr>\<rparr>"

theorem fifo_between_domains_witness:
  "(\<exists>st1 sh. rtfwrite \<lparr>hc_sync_events = Some, hc_pass_event = \<lambda>_. Some\<rparr> 0 (Some [1, 2]) 2 demo_rtf = Some (2, st1) \<and>
      rt_fifo_user_read (r_shared st1) 2 (Some [0, 0]) 2 = Some (2, Some [1, 2], sh)) \<and>
   (\<exists>sh st1. rt_fifo_user_write (r_shared demo_rtf) 2 (Some [1, 2]) 2 = Some (2, sh) \<and>
      rtfread \<lparr>hc_sync_events = Some, hc_pass_event = \<lambda>_. Some\<rparr> 0 (Some [0, 0]) 2 (demo_rtf\<lparr>r_shared := sh\<rparr>) = Some (2, Some [1, 2], st1))"
proof -
  have d: "r_shared demo_rtf = demo_fifos" by (simp add: demo_rtf_def)
  have r: "rtf_ready 0 2 demo_rtf"
    using demo_fifos_wf(1) by (simp add: rtf_ready_def attached_def demo_rtf_def rtf_minor_def FIFO_COUNT_def)
  have "wf_fifo (r_shared demo_rtf ! 2)" "fifo_queue (r_shared demo_rtf ! 2) = []" "ff_size (r_shared demo_rtf ! 2) = 4"
    unfolding d using demo_fifos_wf demo_fifos_queue by simp_all
  then show ?thesis using fifo_between_domains [OF r, of "[1, 2]" "[0, 0]" "\<lparr>hc_sync_events = Some, hc_pass_event = \<lambda>_. Some\<rparr>"] by simp
qed

section \<open>When the driver cannot start\<close>

text \<open>The pages are not mapped: the loop that gives up runs below the tables.\<close>

lemma init_rtf_runs_below:
  assumes "r_fctladdr st = 0" "length (sfifos st) = FIFO_COUNT" "length (fifos st) = FIFO_COUNT" "length (r_fdataddr st) = FIFO_COUNT"
  shows "init_rtf st = None"
proof -
  obtain st1 where i: "rt_fifo_init 0 st = Some (-1, st1)" using assms by (auto simp: rt_fifo_init_def FIFO_COUNT_def Let_def)
  have "exit_fifos 0 s = None" for s by (subst exit_fifos.simps) (simp add: rt_fifo_exit_def FIFO_COUNT_def guard_c_def)
  then have "init_fifos 0 (Suc 15) st = None" unfolding init_fifos.simps(2) i by simp
  then show ?thesis by (simp add: init_rtf_def FIFO_COUNT_def)
qed

end
