(* ===== verification/PShm.thy ===== *)
theory PShm
  imports PDevs PStdlib
begin

unbundle bit_operations_syntax

text \<open>
  PaRTiKle's driver of XtratuM's shared memories (core/kernel/xm_i386/devshm.c, shm.h).  The
  calls of XtratuM that it makes are parameters on the state 'w of XtratuM.
\<close>

definition PRTK_SHM_COUNT :: nat where "PRTK_SHM_COUNT = 16"
definition XM_SHM_DEV_u :: u32 where "XM_SHM_DEV_u = 1"
definition PRTK_SHM_TRUNCATE :: nat where "PRTK_SHM_TRUNCATE = 2"
definition PRTK_SHM_MAP :: nat where "PRTK_SHM_MAP = 4"
definition PRTK_SHM_UNMAP :: nat where "PRTK_SHM_UNMAP = 8"
definition PRTK_SHM_VADDR :: nat where "PRTK_SHM_VADDR = 0x40"
definition DEFAULT_SHM_ADDR :: nat where "DEFAULT_SHM_ADDR = 0x3000000"

record pshm_t =
  shm_addr :: nat
  shm_size :: nat
  shm_flags :: u32
  shm_users :: int
  shm_xmminor :: int

record 'w xm_calls =
  xm_dev_ctl :: "u32 \<Rightarrow> nat \<Rightarrow> nat \<Rightarrow> 'w \<Rightarrow> (int \<times> 'w) option"
  xm_call_shm_open :: "u8 list \<Rightarrow> 'w \<Rightarrow> (int \<times> 'w) option"
  xm_call_shm_unlink :: "u8 list \<Rightarrow> 'w \<Rightarrow> (int \<times> 'w) option"

record 'w pshm_state =
  s_os :: os_state
  s_pshm :: "pshm_t list"
  s_xm :: 'w

definition shm_error :: "int \<Rightarrow> int \<Rightarrow> 'w pshm_state \<Rightarrow> (int \<times> 'w pshm_state) option" where
  "shm_error e r st = do { k \<leftarrow> SET_ERRNO e (kern (s_os st)); Some (r, st\<lparr>s_os := (s_os st)\<lparr>kern := k\<rparr>\<rparr>) }"

definition shm_minor :: "nat \<Rightarrow> 'w pshm_state \<Rightarrow> nat option" where
  "shm_minor fd st = do { f \<leftarrow> rd (files (s_os st)) fd; Some (q_path (f_qid f)) }"

text \<open>The number of the device for XtratuM.\<close>

definition shm_dev :: "pshm_t \<Rightarrow> u32" where
  "shm_dev p = (push_bit 16 XM_SHM_DEV_u AND 0xFFFF0000) OR (of_int (shm_xmminor p) AND 0xFFFF)"

definition dev_ctl :: "'w xm_calls \<Rightarrow> u32 \<Rightarrow> nat \<Rightarrow> nat \<Rightarrow> 'w pshm_state \<Rightarrow> (int \<times> 'w pshm_state) option" where
  "dev_ctl xc dev cmd arg st = do { (r, w) \<leftarrow> xm_dev_ctl xc dev cmd arg (s_xm st); Some (r, st\<lparr>s_xm := w\<rparr>) }"

definition prtk_shm_ioctl :: "'w xm_calls \<Rightarrow> nat \<Rightarrow> nat \<Rightarrow> nat \<Rightarrow> 'w pshm_state \<Rightarrow> (int \<times> 'w pshm_state) option" where
  "prtk_shm_ioctl xc fd cmd arg st = do {
     minor \<leftarrow> shm_minor fd st;
     if minor \<ge> PRTK_SHM_COUNT then shm_error EINVAL 0 st
     else do {
       p \<leftarrow> rd (s_pshm st) minor;
       if cmd = PRTK_SHM_TRUNCATE \<or> cmd = PRTK_SHM_VADDR then do {
         (_, st1) \<leftarrow> dev_ctl xc (shm_dev p) cmd arg st;
         Some (0, st1) }
       else Some (0, st) } }"

definition prtk_shm_read :: "'w pshm_state \<Rightarrow> int \<times> 'w pshm_state" where
  "prtk_shm_read st = (0, st)"

definition prtk_shm_write :: "'w pshm_state \<Rightarrow> int \<times> 'w pshm_state" where
  "prtk_shm_write st = (0, st)"

text \<open>
  start is 0 for NULL; the result has what *result becomes.  The address rounded down to a
  page is computed and not used.
\<close>

definition prtk_shm_mmap :: "'w xm_calls \<Rightarrow> nat \<Rightarrow> nat \<Rightarrow> nat \<Rightarrow> 'w pshm_state \<Rightarrow> (int \<times> nat option \<times> 'w pshm_state) option" where
  "prtk_shm_mmap xc fd start0 len st = do {
     minor \<leftarrow> shm_minor fd st;
     p \<leftarrow> rd (s_pshm st) minor;
     (err, st1) \<leftarrow> dev_ctl xc (shm_dev p) PRTK_SHM_TRUNCATE len st;
     if err \<noteq> 0 then do { (r, st2) \<leftarrow> shm_error EINVAL (-1) st1; Some (r, None, st2) }
     else do {
       let start = (if start0 = 0 then DEFAULT_SHM_ADDR else start0);
       (err2, st2) \<leftarrow> dev_ctl xc (shm_dev p) PRTK_SHM_MAP start st1;
       if err2 \<noteq> 0 then do { (r, st3) \<leftarrow> shm_error EINVAL (-1) st2; Some (r, None, st3) }
       else do {
         ps \<leftarrow> wr (s_pshm st2) minor (p\<lparr>shm_addr := start\<rparr>);
         Some (0, Some start, st2\<lparr>s_pshm := ps\<rparr>) } } }"

text \<open>The digits go behind the name, the last one first.\<close>

function put_digits :: "nat \<Rightarrow> nat \<Rightarrow> u8 list \<Rightarrow> u8 list option" where
  "put_digits index i name =
    (if index = 0 then Some name
     else case wr name i (of_nat (index mod 10) + 48) of None \<Rightarrow> None
       | Some n1 \<Rightarrow> put_digits (index div 10) (i + 1) n1)"
  by auto
termination by (relation "measure (\<lambda>(index, _). index)") auto

definition pshm_minor_to_name :: "nat \<Rightarrow> u8 list \<Rightarrow> u8 list option" where
  "pshm_minor_to_name minor name = do {
     let i = length (takeWhile (\<lambda>c. c \<noteq> 0) name);
     _ \<leftarrow> guard_c (i < length name);
     if minor = 0 then wr name i 48 else put_digits minor i name }"

text \<open>char nname[10] = "shm".\<close>

definition shm_name0 :: "u8 list" where
  "shm_name0 = [115, 104, 109, 0, 0, 0, 0, 0, 0, 0]"

text \<open>What is behind "/dev/shm/": the minor, the control file, or -1; the text is a string of the memory for strtol.\<close>

definition shm_name_minor :: "string \<Rightarrow> int option" where
  "shm_name_minor mn =
    (if isdigit (hd mn) then do { (v, _) \<leftarrow> strtol 1 (Some 0) 10 (0 # bytes mn @ [0]); Some v }
     else if take 3 mn = ''ctl'' then Some (int PRTK_SHM_COUNT) else Some (-1))"

definition prtk_shm_open :: "char list \<Rightarrow> 'w xm_calls \<Rightarrow> string \<Rightarrow> u32 \<Rightarrow> 'w pshm_state \<Rightarrow> (int \<times> 'w pshm_state) option" where
  "prtk_shm_open dcs xc name mode st = do {
     _ \<leftarrow> guard_c (9 \<le> length name);
     let mn = drop 9 name;
     if mn = [] then shm_error ENOENT (-1) st
     else do {
       minor \<leftarrow> shm_name_minor mn;
       if minor < 0 \<or> minor > int PRTK_SHM_COUNT \<or> (isdigit (hd mn) \<and> minor \<ge> int PRTK_SHM_COUNT) then shm_error EINVAL (-1) st
       else do {
         fd \<leftarrow> newfd (s_os st);
         if fd \<ge> MAX_FILES then do {
           (_, os) \<leftarrow> freefd (int fd) (s_os st);
           shm_error ENOMEM (-1) (st\<lparr>s_os := os\<rparr>) }
         else do {
           f \<leftarrow> rd (files (s_os st)) fd;
           fl \<leftarrow> wr (files (s_os st)) fd (f\<lparr>f_qid := (f_qid f)\<lparr>q_path := nat minor\<rparr>, f_type := devno dcs (CHR ''s'')\<rparr>);
           let st1 = st\<lparr>s_os := (s_os st)\<lparr>files := fl\<rparr>\<rparr>;
           if minor = int PRTK_SHM_COUNT then Some (int fd, st1)
           else do {
             nname \<leftarrow> pshm_minor_to_name (nat minor) shm_name0;
             (xmm, w) \<leftarrow> xm_call_shm_open xc nname (s_xm st1);
             p \<leftarrow> rd (s_pshm st1) (nat minor);
             let p1 = p\<lparr>shm_xmminor := xmm, shm_users := shm_users p + 1\<rparr>;
             let p2 = (if shm_users p = 0 then p1\<lparr>shm_flags := shm_flags p1 OR 0x1000000\<rparr> else p1);
             ps \<leftarrow> wr (s_pshm st1) (nat minor) (p2\<lparr>shm_flags := shm_flags p2 OR mode\<rparr>);
             Some (int fd, st1\<lparr>s_pshm := ps, s_xm := w\<rparr>) } } } } }"

definition prtk_shm_close :: "'w xm_calls \<Rightarrow> nat \<Rightarrow> 'w pshm_state \<Rightarrow> 'w pshm_state option" where
  "prtk_shm_close xc fd st = do {
     minor \<leftarrow> shm_minor fd st;
     if minor < PRTK_SHM_COUNT then do {
       p \<leftarrow> rd (s_pshm st) minor;
       (_, st1) \<leftarrow> dev_ctl xc (shm_dev p) PRTK_SHM_UNMAP (shm_addr p) st;
       name \<leftarrow> pshm_minor_to_name minor shm_name0;
       (_, w) \<leftarrow> xm_call_shm_unlink xc name (s_xm st1);
       Some (st1\<lparr>s_xm := w\<rparr>) }
     else Some st }"

definition prtk_shm_init :: "'w pshm_state \<Rightarrow> int \<times> 'w pshm_state" where
  "prtk_shm_init st = (0, st)"

section \<open>Names\<close>

text \<open>
  Different minors have different names, all of them ended by NUL in the ten bytes; the
  digits of a minor above 9 are in the reverse order.
\<close>

lemma shm_names_distinct:
  "distinct (map (\<lambda>i. pshm_minor_to_name i shm_name0) [0..<16])"
  "list_all (\<lambda>i. case pshm_minor_to_name i shm_name0 of None \<Rightarrow> False | Some n \<Rightarrow> length n = 10 \<and> n ! 5 = 0) [0..<16]"
  "pshm_minor_to_name 12 shm_name0 = Some [115, 104, 109, 50, 49, 0, 0, 0, 0, 0]"
  by code_simp+

text \<open>A memory that XtratuM refused to open has a device number that is not one of its memories.\<close>

lemma shm_open_failed:
  "shm_xmminor p = -1 \<Longrightarrow> shm_dev p = 0x1FFFF"
  by (simp add: shm_dev_def XM_SHM_DEV_u_def)

end
