(* ===== verification/XSerial.thy ===== *)
theory XSerial
  imports XPagesSpace XSyscalls
begin

unbundle bit_operations_syntax

text \<open>
  XtratuM's serial device (devs/serial/serial.c, include/serial.h): a pair of pages for every
  minor, one in and one out, that are mapped into the domain that opens the minor.  The
  structure at the beginning of a page is in the words of the page.  request_irq, free_irq,
  request_region and release_region of Linux change nothing that the device looks at;
  the result of request_irq is a parameter.
\<close>

section \<open>State\<close>

definition RT_SERIAL_dev_INIT :: nat where "RT_SERIAL_dev_INIT = 1"
definition RT_SERIAL_dom_INIT :: nat where "RT_SERIAL_dom_INIT = 2"
definition XM_SERIAL_DEV_USED :: nat where "XM_SERIAL_DEV_USED = 1"
definition XMDEV_IO_OPEN :: u32 where "XMDEV_IO_OPEN = 0x01"
definition XMDEV_IO_CLOSE :: u32 where "XMDEV_IO_CLOSE = 0x02"
definition XMDEV_IO_WKUP :: u32 where "XMDEV_IO_WKUP = 0x20"
definition XMDEV_IO_INIT :: u32 where "XMDEV_IO_INIT = 0x100"

text \<open>The words of serial_fifo_t that the device writes, and its size in bytes.\<close>

definition SERF_FLAG :: nat where "SERF_FLAG = 0"
definition SERF_SIZE :: nat where "SERF_SIZE = 3"
definition SERF_ADDR :: nat where "SERF_ADDR = 6"
definition SERF_BYTES :: u32 where "SERF_BYTES = 28"

text \<open>A pointer to a page or to a domain is 0 for NULL.\<close>

record xm_serial_t =
  s_flag :: u32
  s_dom :: nat
  s_in :: u32
  s_out :: u32

record serial_user =
  spages :: vm
  xm_serials :: "xm_serial_t list"
  sdom :: nat

definition set_bit :: "u32 \<Rightarrow> nat \<Rightarrow> u32" where "set_bit w pos = w OR push_bit pos 1"
definition clear_bit :: "u32 \<Rightarrow> nat \<Rightarrow> u32" where "clear_bit w pos = w AND NOT (push_bit pos 1)"
definition is_bit_set :: "u32 \<Rightarrow> nat \<Rightarrow> bool" where "is_bit_set w pos \<longleftrightarrow> w AND push_bit pos 1 \<noteq> 0"

definition serf_flag :: "u32 \<Rightarrow> vm \<Rightarrow> u32 option" where
  "serf_flag p m = word_at m p SERF_FLAG"

definition upd_serf_flag :: "(u32 \<Rightarrow> u32) \<Rightarrow> u32 \<Rightarrow> vm \<Rightarrow> vm option" where
  "upd_serf_flag f p m = do { w \<leftarrow> serf_flag p m; set_word p SERF_FLAG (f w) m }"

text \<open>The flag of both pages of a minor.\<close>

definition upd_flags :: "(u32 \<Rightarrow> u32) \<Rightarrow> xm_serial_t \<Rightarrow> vm \<Rightarrow> vm option" where
  "upd_flags f x m = do { m1 \<leftarrow> upd_serf_flag f (s_in x) m; upd_serf_flag f (s_out x) m1 }"

section \<open>The pages of the device\<close>

definition clear_page :: "u32 \<Rightarrow> vm \<Rightarrow> vm option" where
  "clear_page p m = do { _ \<leftarrow> mem m p; Some (m\<lparr>mem := (mem m)(p \<mapsto> replicate 1024 0)\<rparr>) }"

definition init_serf :: "u32 \<Rightarrow> vm \<Rightarrow> vm option" where
  "init_serf p m = do {
     m1 \<leftarrow> set_word p SERF_ADDR (p + SERF_BYTES) m;
     m2 \<leftarrow> set_word p SERF_SIZE (PAGE_SIZE - SERF_BYTES) m1;
     set_word p SERF_FLAG 0 m2 }"

definition free_serf :: "xm_serial_t \<Rightarrow> vm \<Rightarrow> vm" where
  "free_serf x m = (let m1 = (if s_in x \<noteq> 0 then free_page (s_in x) m else m) in
     if s_out x \<noteq> 0 then free_page (s_out x) m1 else m1)"

text \<open>The minors below i, from the last one down.\<close>

primrec free_serfs_below :: "nat \<Rightarrow> xm_serial_t list \<Rightarrow> vm \<Rightarrow> vm option" where
  "free_serfs_below 0 ss m = Some m"
| "free_serfs_below (Suc i) ss m = do { x \<leftarrow> rd ss i; free_serfs_below i ss (free_serf x m) }"

primrec serial_alloc_loop :: "nat \<Rightarrow> nat \<Rightarrow> xm_serial_t list \<Rightarrow> vm \<Rightarrow> (int \<times> xm_serial_t list \<times> vm) option" where
  "serial_alloc_loop 0 i ss m = Some (0, ss, m)"
| "serial_alloc_loop (Suc n) i ss m =
    (let (page1, m1) = get_free_page m; (page2, m2) = get_free_page m1 in
     if page1 = 0 then do { m3 \<leftarrow> free_serfs_below i ss m2; Some (- ENOMEM, ss, m3) }
     else if page2 = 0 then do { m3 \<leftarrow> free_serfs_below i ss (free_page page1 m2); Some (- ENOMEM, ss, m3) }
     else do {
       m3 \<leftarrow> clear_page page1 m2;
       m4 \<leftarrow> clear_page page2 m3;
       m5 \<leftarrow> init_serf page1 m4;
       m6 \<leftarrow> init_serf page2 m5;
       x \<leftarrow> rd ss i;
       ss1 \<leftarrow> wr ss i (x\<lparr>s_in := page1, s_out := page2\<rparr>);
       serial_alloc_loop n (i + 1) ss1 m6 })"

definition xm_serial_mem_alloc :: "serial_user \<Rightarrow> (int \<times> serial_user) option" where
  "xm_serial_mem_alloc u = do {
     (r, ss, m) \<leftarrow> serial_alloc_loop XM_SERIAL_COUNT 0 (xm_serials u) (spages u);
     Some (r, u\<lparr>xm_serials := ss, spages := m\<rparr>) }"

definition xm_serial_mem_free :: "serial_user \<Rightarrow> serial_user" where
  "xm_serial_mem_free u = u\<lparr>spages := fold free_serf (take XM_SERIAL_COUNT (xm_serials u)) (spages u)\<rparr>"

section \<open>Pages of a domain\<close>

text \<open>0, and not an error, where the address has a page already.\<close>

definition map_entry :: "u32 \<Rightarrow> nat \<Rightarrow> u32 \<Rightarrow> u32 \<Rightarrow> vm \<Rightarrow> (int \<times> vm) option" where
  "map_entry pt i a flag m = do {
     x \<leftarrow> word_at m pt i;
     if \<not> present x then do { m1 \<leftarrow> fill_pt_entry pt i a flag m; Some (0, m1) } else Some (0, m) }"

definition xm_map_page :: "u32 \<Rightarrow> u32 \<Rightarrow> u32 \<Rightarrow> u32 \<Rightarrow> vm \<Rightarrow> (int \<times> vm) option" where
  "xm_map_page pd a vaddr flag m = do {
     w \<leftarrow> word_at m pd (va2pd vaddr);
     if \<not> present w then (let (pt, m1) = get_free_page m in
       if pt = 0 then Some (- ENOMEM, m1)
       else do {
         m2 \<leftarrow> clear_page pt m1;
         m3 \<leftarrow> fill_pd_entry pd (va2pd vaddr) pt (flag AND NOT PAGE_UNUSED1) m2;
         map_entry pt (va2pt vaddr) a flag m3 })
     else do { pt \<leftarrow> get_pd_addr m pd (va2pd vaddr); map_entry pt (va2pt vaddr) a flag m } }"

definition xm_unmap_page :: "u32 \<Rightarrow> u32 \<Rightarrow> vm \<Rightarrow> (int \<times> vm) option" where
  "xm_unmap_page pd vaddr m = do {
     w \<leftarrow> word_at m pd (va2pd vaddr);
     if present w then do {
       pt \<leftarrow> get_pd_addr m pd (va2pd vaddr);
       x \<leftarrow> word_at m pt (va2pt vaddr);
       if present x then do { m1 \<leftarrow> set_word pt (va2pt vaddr) 0 m; Some (0, m1) } else Some (0, m) }
     else Some (0, m) }"

definition serial_flags :: u32 where
  "serial_flags = PAGE_UNUSED1 OR PAGE_PRESENT OR PAGE_RW OR PAGE_USER"

text \<open>Both pages of a minor at nvaddr.\<close>

definition map_serf :: "u32 \<Rightarrow> u32 \<Rightarrow> xm_serial_t \<Rightarrow> vm \<Rightarrow> (int \<times> vm) option" where
  "map_serf pd nvaddr x m = do {
     (r, m1) \<leftarrow> xm_map_page pd (s_in x) nvaddr serial_flags m;
     if r \<noteq> 0 then Some (r, m1) else xm_map_page pd (s_out x) (nvaddr + PAGE_SIZE) serial_flags m1 }"

primrec map_serfs :: "xm_serial_t list \<Rightarrow> u32 \<Rightarrow> u32 \<Rightarrow> vm \<Rightarrow> (int \<times> vm) option" where
  "map_serfs [] pd nvaddr m = Some (0, m)"
| "map_serfs (x # xs) pd nvaddr m = do {
     (r, m1) \<leftarrow> map_serf pd nvaddr x m;
     if r \<noteq> 0 then Some (r, m1)
     else do {
       m2 \<leftarrow> upd_flags (\<lambda>w. set_bit w RT_SERIAL_dev_INIT) x m1;
       map_serfs xs pd (nvaddr + 2 * PAGE_SIZE) m2 } }"

definition SERIAL_VADDR :: u32 where "SERIAL_VADDR = of_nat DEFAULT_SERIAL_ADDR"

text \<open>A size of 0 is a domain that opens the minor i, any other size the domain that drives the devices.\<close>

definition xm_serial_xm_map :: "u32 \<Rightarrow> nat \<Rightarrow> nat \<Rightarrow> serial_user \<Rightarrow> (int \<times> serial_user) option" where
  "xm_serial_xm_map pd sz i u =
    (if sz = 0 then
       if i \<ge> XM_SERIAL_COUNT then Some (- ENODEV, u)
       else do {
         x \<leftarrow> rd (xm_serials u) i;
         fi \<leftarrow> serf_flag (s_in x) (spages u);
         busy \<leftarrow> (if is_bit_set fi RT_SERIAL_dom_INIT then Some True
                 else do { fo \<leftarrow> serf_flag (s_out x) (spages u); Some (is_bit_set fo RT_SERIAL_dom_INIT) });
         if busy then Some (- EBUSY, u)
         else do {
           (r, m1) \<leftarrow> map_serf pd SERIAL_VADDR x (spages u);
           if r \<noteq> 0 then Some (r, u\<lparr>spages := m1\<rparr>)
           else do {
             m2 \<leftarrow> upd_flags (\<lambda>w. set_bit w RT_SERIAL_dom_INIT) x m1;
             Some (0, u\<lparr>spages := m2\<rparr>) } } }
     else do {
       _ \<leftarrow> guard_c (length (xm_serials u) = XM_SERIAL_COUNT);
       (r, m1) \<leftarrow> map_serfs (xm_serials u) pd SERIAL_VADDR (spages u);
       Some (r, u\<lparr>spages := m1\<rparr>) })"

definition unmap_serf :: "u32 \<Rightarrow> u32 \<Rightarrow> vm \<Rightarrow> vm option" where
  "unmap_serf pd nvaddr m = do { (_, m1) \<leftarrow> xm_unmap_page pd nvaddr m; (_, m2) \<leftarrow> xm_unmap_page pd (nvaddr + PAGE_SIZE) m1; Some m2 }"

primrec unmap_serfs :: "xm_serial_t list \<Rightarrow> u32 \<Rightarrow> u32 \<Rightarrow> vm \<Rightarrow> vm option" where
  "unmap_serfs [] pd nvaddr m = Some m"
| "unmap_serfs (x # xs) pd nvaddr m = do {
     m1 \<leftarrow> unmap_serf pd nvaddr m;
     m2 \<leftarrow> upd_flags (\<lambda>w. clear_bit w RT_SERIAL_dev_INIT) x m1;
     unmap_serfs xs pd (nvaddr + 2 * PAGE_SIZE) m2 }"

text \<open>The table that is looked at is the one of vaddr, whether the directory has one or not.\<close>

definition xm_serial_xm_unmap :: "u32 \<Rightarrow> u32 \<Rightarrow> nat \<Rightarrow> serial_user \<Rightarrow> (int \<times> serial_user) option" where
  "xm_serial_xm_unmap pd vaddr sz u =
    (if vaddr AND (PAGE_SIZE - 1) \<noteq> 0 then Some (- EINVAL, u)
     else do {
       m1 \<leftarrow> (if sz = 0 then unmap_serf pd SERIAL_VADDR (spages u)
              else do { _ \<leftarrow> guard_c (length (xm_serials u) = XM_SERIAL_COUNT); unmap_serfs (xm_serials u) pd SERIAL_VADDR (spages u) });
       pt \<leftarrow> get_pd_addr m1 pd (va2pd vaddr);
       e \<leftarrow> table_empty pt m1;
       if e then do { m2 \<leftarrow> set_word pd (va2pd vaddr) 0 m1; Some (0, u\<lparr>spages := free_page pt m2\<rparr>) }
       else Some (0, u\<lparr>spages := m1\<rparr>) })"

section \<open>Control\<close>

definition has_cmd :: "nat \<Rightarrow> u32 \<Rightarrow> bool" where
  "has_cmd cmd c \<longleftrightarrow> of_nat cmd AND c \<noteq> 0"

definition put_serial :: "nat \<Rightarrow> xm_serial_t \<Rightarrow> serial_user xm_state \<Rightarrow> serial_user xm_state option" where
  "put_serial i x st = do { ss \<leftarrow> wr (xm_serials (user st)) i x; Some (st\<lparr>user := (user st)\<lparr>xm_serials := ss\<rparr>\<rparr>) }"

definition serial_close :: "nat \<Rightarrow> serial_user xm_state \<Rightarrow> serial_user xm_state option" where
  "serial_close minor st = do {
     x \<leftarrow> rd (xm_serials (user st)) minor;
     m \<leftarrow> upd_flags (\<lambda>w. clear_bit w RT_SERIAL_dev_INIT) x (spages (user st));
     put_serial minor (x\<lparr>s_flag := clear_bit (s_flag x) XM_SERIAL_DEV_USED, s_dom := 0\<rparr>)
       (st\<lparr>user := (user st)\<lparr>spages := m\<rparr>\<rparr>) }"

definition serial_open :: "nat \<Rightarrow> nat \<Rightarrow> serial_user xm_state \<Rightarrow> (int \<times> serial_user xm_state) option" where
  "serial_open minor a st = do {
     x \<leftarrow> rd (xm_serials (user st)) minor;
     if is_bit_set (s_flag x) XM_SERIAL_DEV_USED \<and> s_dom x \<noteq> a then Some (- EBUSY, st)
     else do {
       let x1 = x\<lparr>s_flag := set_bit (s_flag x) XM_SERIAL_DEV_USED, s_dom := a\<rparr>;
       st1 \<leftarrow> put_serial minor x1 st;
       d \<leftarrow> doms st1 a;
       (r, u) \<leftarrow> xm_serial_xm_map (of_nat (dpd d)) 0 minor (user st1);
       let st2 = st1\<lparr>user := u\<rparr>;
       if r = 0 then do {
         st3 \<leftarrow> (case events d of None \<Rightarrow> Some st2
                 | Some e \<Rightarrow> upd_dom a (\<lambda>d. d\<lparr>events := Some (e\<lparr>serialaddr := DEFAULT_SERIAL_ADDR\<rparr>)\<rparr>) st2);
         Some (0, st3) }
       else do {
         st3 \<leftarrow> put_serial minor (x1\<lparr>s_flag := clear_bit (s_flag x1) XM_SERIAL_DEV_USED, s_dom := 0\<rparr>) st2;
         Some (r, st3) } } }"

definition xm_serial_xm_ioctl :: "nat \<Rightarrow> nat \<Rightarrow> nat \<Rightarrow> serial_user xm_state \<Rightarrow> (int \<times> serial_user xm_state) option" where
  "xm_serial_xm_ioctl minor cmd arg st =
    (if minor > XM_SERIAL_COUNT then Some (- ENODEV, st)
     else if minor = XM_SERIAL_COUNT then
       if has_cmd cmd XMDEV_IO_INIT then
         if sdom (user st) = 0 then Some (0, st\<lparr>user := (user st)\<lparr>sdom := arg\<rparr>\<rparr>)
         else if sdom (user st) \<noteq> arg then Some (- EBADF, st)
         else Some (0, st)
       else Some (0, st)
     else do {
       st1 \<leftarrow> (if has_cmd cmd XMDEV_IO_CLOSE then serial_close minor st else Some st);
       if has_cmd cmd XMDEV_IO_OPEN then serial_open minor arg st1
       else if has_cmd cmd XMDEV_IO_WKUP \<and> sdom (user st1) \<noteq> 0 then do {
         st2 \<leftarrow> upd_dom (sdom (user st1)) (set_domain_state DOMAIN_ACTIVE) st1;
         Some (0, st2) }
       else Some (0, st1) })"

definition xm_serial_dev :: "serial_user xm_dev_t" where
  "xm_serial_dev = \<lparr>devid = XM_SERIAL_DEV,
     dev_unmap_handler = \<lambda>pd a n st. do {
       (r, u) \<leftarrow> xm_serial_xm_unmap (of_nat pd) (of_nat a) n (user st); Some (r, st\<lparr>user := u\<rparr>) },
     dev_ioctl_handler = xm_serial_xm_ioctl,
     client = 0\<rparr>"

section \<open>Start and end\<close>

definition reset_serials :: "serial_user \<Rightarrow> serial_user" where
  "reset_serials u = u\<lparr>xm_serials := map (\<lambda>x. x\<lparr>s_flag := 0, s_dom := 0\<rparr>) (xm_serials u)\<rparr>"

text \<open>irq is what request_irq returns.\<close>

definition xm_serial_xm_init :: "int \<Rightarrow> serial_user xm_sys \<Rightarrow> (int \<times> serial_user xm_sys) option" where
  "xm_serial_xm_init irq s = do {
     (r, u) \<leftarrow> xm_serial_mem_alloc (reset_serials (user (xm s)));
     let s1 = s\<lparr>xm := (xm s)\<lparr>user := u\<rparr>\<rparr>;
     if r \<noteq> 0 then Some (r, s1)
     else do {
       (r2, s2) \<leftarrow> xm_dev_register XM_SERIAL_DEV (Some xm_serial_dev) s1;
       Some (if r2 \<noteq> 0 then r2 else if irq < 0 then -1 else 0, s2) } }"

definition xm_serial_xm_exit :: "serial_user xm_sys \<Rightarrow> serial_user xm_sys option" where
  "xm_serial_xm_exit s = do {
     (r, s1) \<leftarrow> xm_dev_unregister XM_SERIAL_DEV s;
     if r \<noteq> 0 then Some s1
     else Some (s1\<lparr>xm := (xm s1)\<lparr>user := reset_serials (xm_serial_mem_free (user (xm s1)))\<rparr>\<rparr>) }"

section \<open>Calls of Linux\<close>

text \<open>The result has in and out.  Neither call tests the minor from below.\<close>

definition rt_console_get :: "int \<Rightarrow> serial_user \<Rightarrow> (int \<times> (u32 \<times> u32) option \<times> serial_user) option" where
  "rt_console_get minor u =
    (if minor \<ge> int XM_SERIAL_COUNT then Some (- ENODEV, None, u)
     else do {
       _ \<leftarrow> guard_c (0 \<le> minor);
       x \<leftarrow> rd (xm_serials u) (nat minor);
       if is_bit_set (s_flag x) XM_SERIAL_DEV_USED then Some (- EBUSY, None, u)
       else do {
         ss \<leftarrow> wr (xm_serials u) (nat minor) (x\<lparr>s_flag := set_bit (s_flag x) XM_SERIAL_DEV_USED\<rparr>);
         m \<leftarrow> upd_flags (\<lambda>w. set_bit w RT_SERIAL_dom_INIT) x (spages u);
         Some (0, Some (s_in x, s_out x), u\<lparr>xm_serials := ss, spages := m\<rparr>) } })"

definition rt_console_free :: "int \<Rightarrow> serial_user \<Rightarrow> (int \<times> serial_user) option" where
  "rt_console_free minor u =
    (if minor \<ge> int XM_SERIAL_COUNT then Some (- ENODEV, u)
     else do {
       _ \<leftarrow> guard_c (0 \<le> minor);
       x \<leftarrow> rd (xm_serials u) (nat minor);
       m \<leftarrow> upd_flags (\<lambda>w. 0) x (spages u);
       ss \<leftarrow> wr (xm_serials u) (nat minor) (x\<lparr>s_flag := 0\<rparr>);
       Some (0, u\<lparr>xm_serials := ss, spages := m\<rparr>) })"

end
