(* ===== verification/XSerialApi.thy ===== *)
theory XSerialApi
  imports XSerial XPagesLife
begin

unbundle bit_operations_syntax

text \<open>
  What opening a serial device does: the two pages enter the domain's address space, nobody
  else can open the minor, and, once it is closed, nobody can open it again.
\<close>

section \<open>Pages that an address space does not use\<close>

definition apart :: "vm \<Rightarrow> u32 \<Rightarrow> u32 \<Rightarrow> bool" where
  "apart m pd q \<longleftrightarrow> full m q \<and> q \<noteq> pd \<and> q \<notin> tables m pd"

lemma apart_put:
  assumes "space m pd" "apart m pd q" "i < 1024"
  shows "space (put q i w m) pd" "lookup (put q i w m) pd = lookup m pd" "tables (put q i w m) pd = tables m pd"
    "ledger (put q i w m) pd = ledger m pd" "apart (put q i w m) pd r = apart m pd r"
proof -
  note d = spaceD [OF assms(1)]
  have q: "full m q" "q \<notin> insert pd (tables m pd)" using assms(2) by (auto simp: apart_def)
  have e: "ent (put q i w m) p j = ent m p j" if "p \<in> insert pd (tables m pd)" "j < 1024" for p j
    using ent_put [OF q(1) assms(3) that(2)] that(1) q(2) by auto
  have f: "full (put q i w m) p" if "p \<in> insert pd (tables m pd)" for p using that d(3,5) q(1) by auto
  note s = paging_same [OF d(1), of "put q i w m", OF e f]
  show l: "lookup (put q i w m) pd = lookup m pd" "tables (put q i w m) pd = tables m pd" by (rule s(2,3); assumption)+
  have "source_ok (put q i w m)" using d(2) q(1) by (auto simp: source_ok_def put_def full_def)
  moreover have "paging (put q i w m) pd" by (rule s(1); assumption)
  ultimately show "space (put q i w m) pd" using l d(6) unfolding space_def by auto
  show "ledger (put q i w m) pd = ledger m pd" "apart (put q i w m) pd r = apart m pd r"
    using l q(1) by (simp_all add: ledger_def apart_def)
qed

lemma clear_free_page: "free_pages m = p # ps \<Longrightarrow> get_free_page m = (p, grab p m) \<and> clear_page p (grab p m) = Some (grab p m)"
  by (simp add: get_free_page_def grab_def clear_page_def)

lemma serial_flags_present: "present serial_flags" "present (serial_flags AND NOT PAGE_UNUSED1)"
  by (simp_all add: present_bit serial_flags_def PAGE_UNUSED1_def PAGE_PRESENT_def PAGE_RW_def PAGE_USER_def bit_simps)

section \<open>Mapping\<close>

lemma map_entry_ok:
  assumes s: "space m pd" and e: "e < 768" "present (ent m pd e)" and i: "i < 1024"
    and k: "page_aligned q" "q \<noteq> pd" "q \<notin> tables m pd" "q \<notin> set (free_pages m)" and f: "present f"
    and u: "lookup m pd (e * 1024 + i) = None"
  shows "\<exists>m'. map_entry (tab m pd e) i q f m = Some (0, m') \<and> space m' pd \<and> lookup m' pd = (lookup m pd)(e * 1024 + i \<mapsto> q) \<and>
    ledger m' pd = add_mset q (ledger m pd) \<and> m' = put (tab m pd e) i (entry_of q f) m"
proof -
  have t: "full m (tab m pd e)" using spaceD(4) [OF s] e by auto
  have np: "\<not> present (ent m (tab m pd e) i)" using u lookup_num [OF e i] by (auto split: if_splits)
  have "map_entry (tab m pd e) i q f m = Some (0, put (tab m pd e) i (entry_of q f) m)"
    "map_in_table (tab m pd e) i q f d m = Some (d, put (tab m pd e) i (entry_of q f) m)" for d
    using full_word_at [OF t i] full_set_word [OF t i] np by (simp_all add: map_entry_def map_in_table_def fill_pt_entry_def)
  then show ?thesis using map_in_table_ok [OF s e i refl k f u] by auto
qed

text \<open>One page is entered; Linux gives at most one page for it, a table.\<close>

lemma xm_map_page_ok:
  assumes s: "space m pd" and a: "a < PAGE_OFFSET" and k: "page_aligned q" "apart m pd q" "q \<notin> set (free_pages m)"
    and u: "lookup m pd (pagenum a) = None" and fr: "present (ent m pd (va2pd a)) \<or> free_pages m \<noteq> []"
  shows "\<exists>m'. xm_map_page pd q a serial_flags m = Some (0, m') \<and> space m' pd \<and> lookup m' pd = (lookup m pd)(pagenum a \<mapsto> q) \<and>
    ledger m' pd = add_mset q (ledger m pd) \<and> present (ent m' pd (va2pd a)) \<and> set (free_pages m') \<subseteq> set (free_pages m) \<and>
    (\<forall>p. apart m pd p \<longrightarrow> mem m' p = mem m p \<and> apart m' pd p)"
proof -
  let ?e = "va2pd a" and ?i = "va2pt a"
  note d = spaceD [OF s]
  have e: "?e < 768" using a user_page by simp
  have n: "pagenum a = ?e * 1024 + ?i" by (simp add: pagenum_split)
  have w: "word_at m pd ?e = Some (ent m pd ?e)" using full_word_at [OF d(3)] e by simp
  have q: "q \<noteq> pd" "q \<notin> tables m pd" using k(2) by (simp_all add: apart_def)
  show ?thesis
  proof (cases "present (ent m pd ?e)")
    case True
    let ?t = "tab m pd ?e" and ?m = "put (tab m pd ?e) ?i (entry_of q serial_flags) m"
    have t: "full m ?t" "?t \<noteq> pd" "?t \<in> tables m pd" using d(4) [OF e True] by auto
    have r: "xm_map_page pd q a serial_flags m = map_entry ?t ?i q serial_flags m"
      using w True by (simp add: xm_map_page_def get_pd_addr_def tab_def addr_def)
    have "ent ?m pd ?e = ent m pd ?e" using ent_put [OF t(1) va2pt_less, where j = ?e and q = pd] e t(2) by simp
    moreover have aw: "entry_of q serial_flags = 0 \<or> present (entry_of q serial_flags) \<and> addr (entry_of q serial_flags) \<noteq> pd \<and>
      addr (entry_of q serial_flags) \<notin> tables m pd \<and> addr (entry_of q serial_flags) \<notin> set (free_pages m)"
      using k(1,3) q serial_flags_present(1) by (simp add: addr_entry present_entry)
    note pe = put_entry [OF s e True refl va2pt_less aw]
    have "mem ?m p = mem m p \<and> apart ?m pd p" if "apart m pd p" for p
    proof -
      have "p \<noteq> ?t" using that t(3) by (auto simp: apart_def)
      then show ?thesis using that t(1) pe(2) by (simp add: apart_def mem_put)
    qed
    ultimately show ?thesis
      using map_entry_ok [OF s e True va2pt_less k(1) q k(3) serial_flags_present(1) u [unfolded n]] r n True by auto
  next
    case False
    then obtain p ps where fp: "free_pages m = p # ps" using fr by (cases "free_pages m") auto
    let ?f = "serial_flags AND NOT PAGE_UNUSED1"
    let ?m1 = "put pd ?e (entry_of p ?f) (grab p m)"
    note g = grab_ok [OF s fp] and t = put_table [OF s e False fp serial_flags_present(2)]
    have fu: "full (grab p m) pd" using d(3) by (simp add: full_grab)
    have r: "xm_map_page pd q a serial_flags m = map_entry p ?i q serial_flags ?m1"
      using w False clear_free_page [OF fp] g(7) fu e by (simp add: xm_map_page_def fill_pd_entry_def full_set_word)
    have nq: "q \<noteq> p" using k(3) fp by auto
    have q1: "q \<notin> tables ?m1 pd" "q \<notin> set (free_pages ?m1)" using q(2) nq k(3) t(5,7) fp by auto
    have u1: "lookup ?m1 pd (?e * 1024 + ?i) = None" using t(2) u n by simp
    obtain m' where m': "map_entry p ?i q serial_flags ?m1 = Some (0, m')" "space m' pd"
        "lookup m' pd = (lookup ?m1 pd)(?e * 1024 + ?i \<mapsto> q)" "ledger m' pd = add_mset q (ledger ?m1 pd)"
        "m' = put p ?i (entry_of q serial_flags) ?m1"
      using map_entry_ok [OF t(1) e t(4) va2pt_less k(1) q(1) q1 serial_flags_present(1) u1] unfolding t(3) by blast
    have l: "ledger ?m1 pd = ledger m pd" using fp t g(5) by (simp add: ledger_def)
    have fp1: "full ?m1 p" using fu by (simp add: full_grab)
    have "ent m' pd ?e = ent ?m1 pd ?e" unfolding m'(5) using ent_put [OF fp1 va2pt_less, where j = ?e and q = pd] g(4) e by simp
    moreover have "mem m' x = mem m x \<and> apart m' pd x" if x: "apart m pd x" for x
    proof -
      have xp: "x \<noteq> p" using x g(10) by (auto simp: apart_def full_def)
      have fg: "mem (grab p m) x = mem m x" "full (grab p m) x" using x xp by (simp_all add: grab_def apart_def full_def)
      then have fe: "full m' x" "mem m' x = mem m x" unfolding m'(5) using x xp fu fp1 by (simp_all add: apart_def mem_put)
      have aw: "entry_of q serial_flags = 0 \<or> present (entry_of q serial_flags) \<and> addr (entry_of q serial_flags) \<noteq> pd \<and>
        addr (entry_of q serial_flags) \<notin> tables ?m1 pd \<and> addr (entry_of q serial_flags) \<notin> set (free_pages ?m1)"
        using k(1) q(1) q1 serial_flags_present(1) by (simp add: addr_entry present_entry)
      have "tables m' pd = tables ?m1 pd" unfolding m'(5) by (rule put_entry(2) [OF t(1) e t(4) _ va2pt_less aw]) (simp add: t(3))
      then show ?thesis using fe x xp t(5) by (simp add: apart_def)
    qed
    moreover have "set (free_pages m') \<subseteq> set (free_pages m)" unfolding m'(5) using t(7) fp by auto
    ultimately show ?thesis using r m'(1-4) l n t(2,4) by auto
  qed
qed

section \<open>Opening\<close>

lemma serial_vaddr: "SERIAL_VADDR < PAGE_OFFSET" "SERIAL_VADDR + PAGE_SIZE < PAGE_OFFSET" "pagenum SERIAL_VADDR = 0x3400"
    "pagenum (SERIAL_VADDR + PAGE_SIZE) = 0x3401" "va2pd (SERIAL_VADDR + PAGE_SIZE) = va2pd SERIAL_VADDR"
  by (simp_all add: SERIAL_VADDR_def DEFAULT_SERIAL_ADDR_def PAGE_OFFSET_def PAGE_SIZE_def pagenum_def va2pd_div)

definition serf_ok :: "u32 \<Rightarrow> u32 \<Rightarrow> vm \<Rightarrow> bool" where
  "serf_ok pd q m \<longleftrightarrow> page_aligned q \<and> apart m pd q \<and> q \<notin> set (free_pages m) \<and> \<not> is_bit_set (ent m q 0) RT_SERIAL_dom_INIT"

text \<open>The pages of minor i are free, and the directory pd has no pages at the device's addresses.\<close>

definition serial_pages :: "nat \<Rightarrow> u32 \<Rightarrow> serial_user \<Rightarrow> bool" where
  "serial_pages i pd u \<longleftrightarrow> i < XM_SERIAL_COUNT \<and> length (xm_serials u) = XM_SERIAL_COUNT \<and>
     serf_ok pd (s_in (xm_serials u ! i)) (spages u) \<and> serf_ok pd (s_out (xm_serials u ! i)) (spages u) \<and>
     s_in (xm_serials u ! i) \<noteq> s_out (xm_serials u ! i) \<and>
     space (spages u) pd \<and> free_pages (spages u) \<noteq> [] \<and>
     lookup (spages u) pd 0x3400 = None \<and> lookup (spages u) pd 0x3401 = None"

definition serial_free :: "nat \<Rightarrow> u32 \<Rightarrow> serial_user \<Rightarrow> bool" where
  "serial_free i pd u \<longleftrightarrow> serial_pages i pd u \<and> \<not> is_bit_set (s_flag (xm_serials u ! i)) XM_SERIAL_DEV_USED"

lemma map_serf_ok:
  assumes "space m pd" "free_pages m \<noteq> []" "serf_ok pd (s_in x) m" "serf_ok pd (s_out x) m"
    "lookup m pd 0x3400 = None" "lookup m pd 0x3401 = None"
  shows "\<exists>m'. map_serf pd SERIAL_VADDR x m = Some (0, m') \<and> space m' pd \<and> lookup m' pd = (lookup m pd)(0x3400 \<mapsto> s_in x, 0x3401 \<mapsto> s_out x) \<and>
    ledger m' pd = ledger m pd + {#s_in x, s_out x#} \<and> apart m' pd (s_in x) \<and> apart m' pd (s_out x) \<and>
    ent m' (s_in x) = ent m (s_in x) \<and> ent m' (s_out x) = ent m (s_out x)"
proof -
  note a = assms(3,4) [unfolded serf_ok_def]
  obtain m1 where m1: "xm_map_page pd (s_in x) SERIAL_VADDR serial_flags m = Some (0, m1)" "space m1 pd"
      "lookup m1 pd = (lookup m pd)(0x3400 \<mapsto> s_in x)" "ledger m1 pd = add_mset (s_in x) (ledger m pd)" "present (ent m1 pd (va2pd SERIAL_VADDR))"
      "set (free_pages m1) \<subseteq> set (free_pages m)" "\<forall>p. apart m pd p \<longrightarrow> mem m1 p = mem m p \<and> apart m1 pd p"
    using xm_map_page_ok [OF assms(1) serial_vaddr(1), of "s_in x"] a assms(2,5) serial_vaddr(3) by auto
  have k: "page_aligned (s_out x)" "apart m1 pd (s_out x)" "s_out x \<notin> set (free_pages m1)" using a(2) m1(6,7) by auto
  obtain m2 where m2: "xm_map_page pd (s_out x) (SERIAL_VADDR + PAGE_SIZE) serial_flags m1 = Some (0, m2)" "space m2 pd"
      "lookup m2 pd = (lookup m1 pd)(0x3401 \<mapsto> s_out x)" "ledger m2 pd = add_mset (s_out x) (ledger m1 pd)"
      "\<forall>p. apart m1 pd p \<longrightarrow> mem m2 p = mem m1 p \<and> apart m2 pd p"
    using xm_map_page_ok [OF m1(2) serial_vaddr(2) k] m1(3,5) assms(6) serial_vaddr(4,5) by auto
  have "map_serf pd SERIAL_VADDR x m = Some (0, m2)" using m1(1) m2(1) by (simp add: map_serf_def)
  moreover have "ent m2 p = ent m p" "apart m2 pd p" if "apart m pd p" for p using that m1(7) m2(5) by (auto simp: ent_def fun_eq_iff)
  ultimately show ?thesis using m1(3,4) m2(2-4) a by auto
qed

lemma upd_flags_ok:
  assumes "space m pd" "apart m pd (s_in x)" "apart m pd (s_out x)" "s_in x \<noteq> s_out x"
  shows "\<exists>m'. upd_flags f x m = Some m' \<and> space m' pd \<and> lookup m' pd = lookup m pd \<and> ledger m' pd = ledger m pd \<and>
    apart m' pd (s_in x) \<and> apart m' pd (s_out x) \<and> ent m' (s_in x) 0 = f (ent m (s_in x) 0) \<and> ent m' (s_out x) 0 = f (ent m (s_out x) 0)"
proof -
  let ?m1 = "put (s_in x) 0 (f (ent m (s_in x) 0)) m"
  let ?m2 = "put (s_out x) 0 (f (ent ?m1 (s_out x) 0)) ?m1"
  have i: "full m (s_in x)" using assms(2) by (simp add: apart_def)
  note a = apart_put [OF assms(1,2), of 0 "f (ent m (s_in x) 0)", simplified]
  have o1: "apart ?m1 pd (s_out x)" using a(5) assms(3) by simp
  note b = apart_put [OF a(1) o1, of 0 "f (ent ?m1 (s_out x) 0)", simplified]
  have fo: "full ?m1 (s_out x)" using o1 by (simp add: apart_def)
  have e1: "ent ?m1 q 0 = (if q = s_in x then f (ent m (s_in x) 0) else ent m q 0)" for q using ent_put [OF i, of 0 0] by simp
  have e2: "ent ?m2 q 0 = (if q = s_out x then f (ent ?m1 (s_out x) 0) else ent ?m1 q 0)" for q using ent_put [OF fo, of 0 0] by simp
  have "upd_flags f x m = Some ?m2"
    using full_word_at [OF i, of 0] full_set_word [OF i, of 0] full_word_at [OF fo, of 0] full_set_word [OF fo, of 0]
    by (simp add: upd_flags_def upd_serf_flag_def serf_flag_def SERF_FLAG_def)
  then show ?thesis using a b e1 e2 assms by auto
qed

lemma flag_bits [simp]:
  "is_bit_set (set_bit w b) b" if "b < 32" for b
  using that by (auto simp: is_bit_set_def set_bit_def bit_eq_iff bit_simps)


lemma clear_keeps: "a \<noteq> b \<Longrightarrow> is_bit_set (clear_bit w a) b = is_bit_set w b" "\<not> is_bit_set (clear_bit w b) b" if "a < 32" "b < 32"
  using that by (auto simp: is_bit_set_def clear_bit_def bit_eq_iff bit_simps)

lemma open_maps:
  assumes f: "serial_pages i pd u"
  shows "\<exists>m. xm_serial_xm_map pd 0 i u = Some (0, u\<lparr>spages := m\<rparr>) \<and> space m pd \<and>
    lookup m pd = (lookup (spages u) pd)(0x3400 \<mapsto> s_in (xm_serials u ! i), 0x3401 \<mapsto> s_out (xm_serials u ! i)) \<and>
    ledger m pd = ledger (spages u) pd + {#s_in (xm_serials u ! i), s_out (xm_serials u ! i)#} \<and>
    (\<forall>q\<in>{s_in (xm_serials u ! i), s_out (xm_serials u ! i)}. full m q \<and> is_bit_set (ent m q 0) RT_SERIAL_dom_INIT)"
proof -
  let ?x = "xm_serials u ! i" and ?m = "spages u"
  have o: "i < XM_SERIAL_COUNT" "length (xm_serials u) = XM_SERIAL_COUNT" "serf_ok pd (s_in ?x) ?m" "serf_ok pd (s_out ?x) ?m"
    "s_in ?x \<noteq> s_out ?x" "space ?m pd" "free_pages ?m \<noteq> []" "lookup ?m pd 0x3400 = None" "lookup ?m pd 0x3401 = None"
    using f by (simp_all add: serial_pages_def)
  obtain m1 where m1: "map_serf pd SERIAL_VADDR ?x ?m = Some (0, m1)" "space m1 pd" "lookup m1 pd = (lookup ?m pd)(0x3400 \<mapsto> s_in ?x, 0x3401 \<mapsto> s_out ?x)"
     "ledger m1 pd = ledger ?m pd + {#s_in ?x, s_out ?x#}" "apart m1 pd (s_in ?x)" "apart m1 pd (s_out ?x)"
    using map_serf_ok [OF o(6,7,3,4,8,9)] by blast
  obtain m2 where m2: "upd_flags (\<lambda>w. set_bit w RT_SERIAL_dom_INIT) ?x m1 = Some m2" "space m2 pd" "lookup m2 pd = lookup m1 pd"
     "ledger m2 pd = ledger m1 pd" "apart m2 pd (s_in ?x)" "apart m2 pd (s_out ?x)"
     "ent m2 (s_in ?x) 0 = set_bit (ent m1 (s_in ?x) 0) RT_SERIAL_dom_INIT" "ent m2 (s_out ?x) 0 = set_bit (ent m1 (s_out ?x) 0) RT_SERIAL_dom_INIT"
    using upd_flags_ok [OF m1(2,5,6) o(5)] by blast
  have fl: "serf_flag (s_in ?x) ?m = Some (ent ?m (s_in ?x) 0)" "serf_flag (s_out ?x) ?m = Some (ent ?m (s_out ?x) 0)"
    using o(3,4) full_word_at by (auto simp: serf_flag_def SERF_FLAG_def serf_ok_def apart_def)
  have "xm_serial_xm_map pd 0 i u = Some (0, u\<lparr>spages := m2\<rparr>)"
    using o(1-4) fl m1(1) m2(1) by (simp add: xm_serial_xm_map_def serf_ok_def)
  then show ?thesis using m1(3,4) m2 by (auto simp: apart_def RT_SERIAL_dom_INIT_def)
qed

lemma has_open: "has_cmd 1 XMDEV_IO_OPEN" "\<not> has_cmd 1 XMDEV_IO_CLOSE" "has_cmd 2 XMDEV_IO_CLOSE" "\<not> has_cmd 2 XMDEV_IO_OPEN" "\<not> has_cmd 2 XMDEV_IO_WKUP"
  by (simp_all add: has_cmd_def XMDEV_IO_OPEN_def XMDEV_IO_CLOSE_def XMDEV_IO_WKUP_def)

text \<open>The state after the domain a has opened the minor i; m are the pages.\<close>

definition serial_opened :: "nat \<Rightarrow> nat \<Rightarrow> domain_t \<Rightarrow> event_handling_t \<Rightarrow> vm \<Rightarrow> serial_user xm_state \<Rightarrow> serial_user xm_state" where
  "serial_opened i a d e m st =
    (let x = xm_serials (user st) ! i in
     st\<lparr>user := (user st)\<lparr>xm_serials := (xm_serials (user st))[i := x\<lparr>s_flag := set_bit (s_flag x) XM_SERIAL_DEV_USED, s_dom := a\<rparr>], spages := m\<rparr>,
       doms := (doms st)(a \<mapsto> d\<lparr>events := Some (e\<lparr>serialaddr := DEFAULT_SERIAL_ADDR\<rparr>)\<rparr>)\<rparr>)"

lemma open_step:
  assumes f: "serial_free i pd (user st)" and d: "doms st a = Some d" "events d = Some e" and pd: "pd = of_nat (dpd d)"
    and x: "x = xm_serials (user st) ! i"
  shows "\<exists>m. xm_serial_xm_ioctl i 1 a st = Some (0, serial_opened i a d e m st) \<and> space m pd \<and>
    lookup m pd = (lookup (spages (user st)) pd)(0x3400 \<mapsto> s_in x, 0x3401 \<mapsto> s_out x) \<and>
    ledger m pd = ledger (spages (user st)) pd + {#s_in x, s_out x#} \<and>
    (\<forall>q\<in>{s_in x, s_out x}. full m q \<and> is_bit_set (ent m q 0) RT_SERIAL_dom_INIT)"
proof -
  let ?u = "user st"
  let ?y = "x\<lparr>s_flag := set_bit (s_flag x) XM_SERIAL_DEV_USED, s_dom := a\<rparr>"
  let ?v = "?u\<lparr>xm_serials := (xm_serials ?u)[i := ?y]\<rparr>"
  have i: "i < XM_SERIAL_COUNT" "length (xm_serials ?u) = XM_SERIAL_COUNT" "\<not> is_bit_set (s_flag x) XM_SERIAL_DEV_USED"
    using f x by (simp_all add: serial_free_def serial_pages_def)
  have v: "xm_serials ?v ! i = ?y" using i by simp
  have "serial_pages i pd ?v" using f i x by (simp add: serial_free_def serial_pages_def)
  then obtain m where m: "xm_serial_xm_map pd 0 i ?v = Some (0, ?v\<lparr>spages := m\<rparr>)" "space m pd"
      "lookup m pd = (lookup (spages ?u) pd)(0x3400 \<mapsto> s_in x, 0x3401 \<mapsto> s_out x)" "ledger m pd = ledger (spages ?u) pd + {#s_in x, s_out x#}"
      "\<forall>q\<in>{s_in x, s_out x}. full m q \<and> is_bit_set (ent m q 0) RT_SERIAL_dom_INIT"
    using open_maps [of i pd ?v] unfolding v by auto
  have "serial_open i a st = Some (0, serial_opened i a d e m st)"
    using i x m(1) d pd by (simp add: serial_open_def put_serial_def upd_dom_def serial_opened_def Let_def)
  then have "xm_serial_xm_ioctl i 1 a st = Some (0, serial_opened i a d e m st)" using i(1) has_open by (simp add: xm_serial_xm_ioctl_def)
  then show ?thesis using m(2-5) by blast
qed

text \<open>The bit that a domain's opening leaves in the page refuses every further one.\<close>

lemma map_busy:
  assumes "i < XM_SERIAL_COUNT" "length (xm_serials u) = XM_SERIAL_COUNT" "full (spages u) (s_in (xm_serials u ! i))"
    "is_bit_set (ent (spages u) (s_in (xm_serials u ! i)) 0) RT_SERIAL_dom_INIT"
  shows "xm_serial_xm_map pd 0 i u = Some (- EBUSY, u)"
  using assms full_word_at [OF assms(3), of 0] by (simp add: xm_serial_xm_map_def serf_flag_def SERF_FLAG_def)

lemma open_busy:
  assumes i: "i < XM_SERIAL_COUNT" "length (xm_serials (user st)) = XM_SERIAL_COUNT" and x: "x = xm_serials (user st) ! i"
    and b: "full (spages (user st)) (s_in x)" "is_bit_set (ent (spages (user st)) (s_in x) 0) RT_SERIAL_dom_INIT"
    and u: "\<not> is_bit_set (s_flag x) XM_SERIAL_DEV_USED" and d: "doms st a = Some d"
  shows "\<exists>st1. xm_serial_xm_ioctl i 1 a st = Some (- EBUSY, st1) \<and> spages (user st1) = spages (user st)"
proof -
  let ?y = "x\<lparr>s_flag := set_bit (s_flag x) XM_SERIAL_DEV_USED, s_dom := a\<rparr>"
  let ?v = "(user st)\<lparr>xm_serials := (xm_serials (user st))[i := ?y]\<rparr>"
  have "xm_serial_xm_map (of_nat (dpd d)) 0 i ?v = Some (- EBUSY, ?v)" using i b x by (intro map_busy) simp_all
  then show ?thesis using i x u d has_open
    by (simp add: xm_serial_xm_ioctl_def serial_open_def put_serial_def EBUSY_def)
qed

section \<open>The device\<close>


text \<open>C40: A minor that was opened and closed stays busy: no domain can open it again.
\<close>

theorem serial_reopen_busy:
  assumes f: "serial_free i pd (user st)" and d: "doms st a = Some d" "events d = Some e" "pd = of_nat (dpd d)"
  shows "\<exists>st1 st2. xm_serial_xm_ioctl i 1 a st = Some (0, st1) \<and> xm_serial_xm_ioctl i 2 c st1 = Some (0, st2) \<and>
    dom (doms st2) = dom (doms st) \<and> (\<forall>b\<in>dom (doms st2). \<exists>st3. xm_serial_xm_ioctl i 1 b st2 = Some (- EBUSY, st3) \<and> spages (user st3) = spages (user st2))"
proof -
  let ?x = "xm_serials (user st) ! i"
  obtain m where m: "xm_serial_xm_ioctl i 1 a st = Some (0, serial_opened i a d e m st)" "space m pd"
      "lookup m pd = (lookup (spages (user st)) pd)(0x3400 \<mapsto> s_in ?x, 0x3401 \<mapsto> s_out ?x)"
      "\<forall>q\<in>{s_in ?x, s_out ?x}. full m q \<and> is_bit_set (ent m q 0) RT_SERIAL_dom_INIT"
    using open_step [OF f d refl] by blast
  let ?st1 = "serial_opened i a d e m st"
  have i: "i < XM_SERIAL_COUNT" "length (xm_serials (user st)) = XM_SERIAL_COUNT" "s_in ?x \<noteq> s_out ?x"
    using f by (simp_all add: serial_free_def serial_pages_def)
  have ap: "apart m pd (s_in ?x)" "apart m pd (s_out ?x)"
    using spaceD(6) [OF m(2), of "0x3400"] spaceD(6) [OF m(2), of "0x3401"] m(3,4) by (simp_all add: apart_def)
  obtain x1 where x1: "xm_serials (user ?st1) ! i = x1" "s_in x1 = s_in ?x" "s_out x1 = s_out ?x"
    and l1: "length (xm_serials (user ?st1)) = XM_SERIAL_COUNT" "spages (user ?st1) = m"
    using i by (auto simp: serial_opened_def Let_def)
  obtain m2 where m2: "upd_flags (\<lambda>w. clear_bit w RT_SERIAL_dev_INIT) x1 m = Some m2" "apart m2 pd (s_in x1)"
      "ent m2 (s_in x1) 0 = clear_bit (ent m (s_in x1) 0) RT_SERIAL_dev_INIT"
    using upd_flags_ok [OF m(2), of x1] ap i(3) x1 by metis
  let ?y = "x1\<lparr>s_flag := clear_bit (s_flag x1) XM_SERIAL_DEV_USED, s_dom := 0\<rparr>"
  let ?st2 = "?st1\<lparr>user := (user ?st1)\<lparr>spages := m2, xm_serials := (xm_serials (user ?st1))[i := ?y]\<rparr>\<rparr>"
  have "serial_close i ?st1 = Some ?st2" using i(1) l1 x1(1) m2(1) by (simp add: serial_close_def put_serial_def)
  then have c: "xm_serial_xm_ioctl i 2 c ?st1 = Some (0, ?st2)" using i(1) has_open by (simp add: xm_serial_xm_ioctl_def)
  have y: "?y = xm_serials (user ?st2) ! i" using i(1) l1(1) by simp
  have "is_bit_set (ent m2 (s_in x1) 0) RT_SERIAL_dom_INIT"
    using m(4) x1(2) m2(3) clear_keeps(1) [of RT_SERIAL_dev_INIT RT_SERIAL_dom_INIT] by (simp add: RT_SERIAL_dev_INIT_def RT_SERIAL_dom_INIT_def)
  then have "\<exists>st3. xm_serial_xm_ioctl i 1 b ?st2 = Some (- EBUSY, st3) \<and> spages (user st3) = spages (user ?st2)"
    if "b \<in> dom (doms ?st2)" for b
    using open_busy [OF i(1) _ y, of b "the (doms ?st2 b)"] that m2(2) l1(1) clear_keeps(2) [of XM_SERIAL_DEV_USED XM_SERIAL_DEV_USED]
    by (auto simp: apart_def XM_SERIAL_DEV_USED_def)
  moreover have "dom (doms ?st2) = dom (doms st)" using d(1) by (auto simp: serial_opened_def Let_def)
  ultimately show ?thesis using m(1) c by blast
qed

definition demo_serial_vm :: vm where
  "demo_serial_vm = demo_space\<lparr>mem := (mem demo_space)(0xC0005000 \<mapsto> replicate 1024 0, 0xC0006000 \<mapsto> replicate 1024 0)\<rparr>"

definition demo_serial :: "serial_user xm_state" where
  "demo_serial = \<lparr>doms = [1 \<mapsto> (demo_rt None)\<lparr>dpd := 0xC0001000\<rparr>, 2 \<mapsto> demo_rt None], xm_domain_list = Some 1, xm_current_domain = 1, xm_root_domain = 1,
     id_number = 3, timer_heap = timer_heap demo_state, hw_if = False, cr3 = 0, saved_if = \<lambda>_. False, tracer_flag = False, hw_interval = 0,
     user = \<lparr>spages = demo_serial_vm, xm_serials = replicate 16 \<lparr>s_flag = 0, s_dom = 0, s_in = 0xC0005000, s_out = 0xC0006000\<rparr>, sdom = 0\<rparr>\<rparr>"

lemma demo_serial_free: "serial_free 3 0xC0001000 (user demo_serial)"
proof -
  let ?m = "demo_serial_vm" and ?d = "0xC0001000 :: u32"
  note s = demo_space_ok and sd = spaceD [OF demo_space_ok(1)]
  have dp: "{?d} \<union> tables demo_space ?d = {?d}" using s(3) by simp
  have e: "ent ?m q j = ent demo_space q j" if "q \<in> insert ?d (tables demo_space ?d)" for q j
    using that s(3) by (simp add: demo_serial_vm_def ent_def)
  have f: "full ?m q" if "q \<in> insert ?d (tables demo_space ?d)" for q
    using that s(3) sd(3) by (simp add: demo_serial_vm_def full_def)
  note p = paging_same [OF sd(1), of ?m, OF e f]
  have l: "lookup ?m ?d = Map.empty" "tables ?m ?d = {}" using p(2,3) s(2,3) by simp_all
  have fp: "free_pages ?m = [0xC0002000, 0xC0003000]" using s(4) by (simp add: demo_serial_vm_def)
  have "source_ok ?m" using sd(2) s(4) by (simp add: source_ok_def demo_serial_vm_def)
  moreover have "paging ?m ?d" by (rule p(1); assumption)
  ultimately have "space ?m ?d" using l unfolding space_def by simp
  then show ?thesis using l fp
    by (simp add: serial_free_def serial_pages_def demo_serial_def serf_ok_def apart_def XM_SERIAL_COUNT_def page_aligned_def full_def
      demo_serial_vm_def ent_def is_bit_set_def)
qed


theorem serial_reopen_busy_witness:
  "\<exists>st1 st2 st3. xm_serial_xm_ioctl 3 1 1 demo_serial = Some (0, st1) \<and> xm_serial_xm_ioctl 3 2 1 st1 = Some (0, st2) \<and>
     xm_serial_xm_ioctl 3 1 1 st2 = Some (- EBUSY, st3)"
  using serial_reopen_busy [OF demo_serial_free, of 1 "(demo_rt None)\<lparr>dpd := 0xC0001000\<rparr>" "the (events (demo_rt None))" 1]
  by (fastforce simp: demo_serial_def demo_rt_def)

end
